(* ===== verification/CH_Prelude.thy ===== *)
theory CH_Prelude
  imports Main "HOL-Library.Word"
begin

text \<open>
  Shared base of the development: the failures a C function of the repository can end in,
  the sequencing of fallible operations, memory blocks with indeterminate cells, C strings,
  and the generic lemmas on them that the component theories use.  It also states the
  \<open>byte_store\<close> interface that every append-only byte container of the repository implements.
\<close>

section \<open>Failures and sequencing\<close>

text \<open>
  A call either returns or stops the program.  \<open>Assertion\<close> is a failed \<open>assert\<close> (or
  \<open>CHTTP_ASSERT\<close>, or \<open>CHECK_TAG\<close>); \<open>MemFault\<close> an access outside the allocated block,
  which C leaves undefined; \<open>NullDeref\<close> an access through \<open>NULL\<close>; \<open>UninitRead\<close> a branch
  on, or a copy as text of, a byte that was never written; \<open>NoReturn\<close> a loop that does not
  end; \<open>DoubleFree\<close> a second release of the same object; \<open>ArithFault\<close> a remainder by 0.
\<close>

datatype failure = Assertion | MemFault | NullDeref | UninitRead | NoReturn | DoubleFree | ArithFault

type_synonym 'a res = "failure + 'a"

definition rbind :: "'a res \<Rightarrow> ('a \<Rightarrow> 'b res) \<Rightarrow> 'b res" where
  "rbind m f = (case m of Inl e \<Rightarrow> Inl e | Inr x \<Rightarrow> f x)"

definition c_assert :: "bool \<Rightarrow> unit res" where
  "c_assert b = (if b then Inr () else Inl Assertion)"

text \<open>\<open>check_tag\<close> is the macro \<open>CHECK_TAG\<close>: the stored tag must equal the tag of the type.\<close>

definition check_tag :: "string \<Rightarrow> string \<Rightarrow> unit res" where
  "check_tag TAG t = c_assert (t = TAG)"

lemma rbind_Inl [simp]: "rbind (Inl e) f = Inl e"
  by (simp add: rbind_def)

lemma rbind_Inr [simp]: "rbind (Inr x) f = f x"
  by (simp add: rbind_def)

lemma rbind_eq_Inr: "rbind m f = Inr y \<longleftrightarrow> (\<exists>x. m = Inr x \<and> f x = Inr y)"
  by (cases m) auto

lemma rbind_eq_Inl:
  "rbind m f = Inl e \<longleftrightarrow> m = Inl e \<or> (\<exists>x. m = Inr x \<and> f x = Inl e)"
  by (cases m) auto

lemma rbind_assoc: "rbind (rbind m f) g = rbind m (\<lambda>x. rbind (f x) g)"
  by (cases m) auto

lemma rbind_cong [fundef_cong]:
  "m = m' \<Longrightarrow> (\<And>x. m' = Inr x \<Longrightarrow> f x = f' x) \<Longrightarrow> rbind m f = rbind m' f'"
  by (cases m') auto

lemma c_assert_True [simp]: "c_assert True = Inr ()"
  by (simp add: c_assert_def)

lemma c_assert_False [simp]: "c_assert False = Inl Assertion"
  by (simp add: c_assert_def)

lemma c_assert_eq_Inr [simp]: "c_assert b = Inr u \<longleftrightarrow> b"
  by (simp add: c_assert_def)

lemma c_assert_eq_Inl [simp]: "c_assert b = Inl e \<longleftrightarrow> \<not> b \<and> e = Assertion"
  by (auto simp: c_assert_def)

lemma check_tag_same [simp]: "check_tag TAG TAG = Inr ()"
  by (simp add: check_tag_def)

lemma check_tag_eq_Inr [simp]: "check_tag TAG t = Inr u \<longleftrightarrow> t = TAG"
  by (simp add: check_tag_def)

text \<open>A loop over a list that stops at the first failure.\<close>

fun rfold :: "('a \<Rightarrow> 's \<Rightarrow> 's res) \<Rightarrow> 'a list \<Rightarrow> 's \<Rightarrow> 's res" where
  "rfold f [] s = Inr s"
| "rfold f (x # xs) s = rbind (f x s) (rfold f xs)"

lemma rfold_append: "rfold f (xs @ ys) s = rbind (rfold f xs s) (rfold f ys)"
  by (induction xs arbitrary: s) (auto simp: rbind_assoc intro!: rbind_cong)

section \<open>Memory blocks\<close>

text \<open>
  A block returned by \<open>malloc\<close> is a list of cells as long as the allocation; a cell that was
  not written since is \<open>None\<close>.
\<close>

type_synonym cell = "char option"
type_synonym mem = "cell list"

abbreviation NUL :: char where
  "NUL \<equiv> CHR 0x00"

definition malloc_block :: "nat \<Rightarrow> mem" where
  "malloc_block n = replicate n None"

definition realloc_block :: "mem \<Rightarrow> nat \<Rightarrow> mem" where
  "realloc_block m n = take n m @ replicate (n - length m) None"

definition mem_write :: "mem \<Rightarrow> nat \<Rightarrow> cell list \<Rightarrow> mem res" where
  "mem_write m off bs =
     (if off + length bs \<le> length m
      then Inr (take off m @ bs @ drop (off + length bs) m)
      else Inl MemFault)"

definition mem_read :: "mem \<Rightarrow> nat \<Rightarrow> nat \<Rightarrow> cell list res" where
  "mem_read m off n =
     (if off + n \<le> length m then Inr (take n (drop off m)) else Inl MemFault)"

text \<open>The bytes of a run of cells; a cell never written makes the copy indeterminate.\<close>

fun cell_bytes :: "cell list \<Rightarrow> string res" where
  "cell_bytes [] = Inr []"
| "cell_bytes (None # cs) = Inl UninitRead"
| "cell_bytes (Some c # cs) = rbind (cell_bytes cs) (\<lambda>s. Inr (c # s))"

definition read_bytes :: "mem \<Rightarrow> nat \<Rightarrow> nat \<Rightarrow> string res" where
  "read_bytes m off n = rbind (mem_read m off n) cell_bytes"

text \<open>
  Reading a block as a C string: the bytes before the first \<open>NUL\<close>.  Running off the block
  is a memory fault, meeting an unwritten cell first is an indeterminate read.
\<close>

fun cstr_of :: "mem \<Rightarrow> string res" where
  "cstr_of [] = Inl MemFault"
| "cstr_of (None # m) = Inl UninitRead"
| "cstr_of (Some c # m) = (if c = NUL then Inr [] else rbind (cstr_of m) (\<lambda>s. Inr (c # s)))"

text \<open>The part of a byte sequence that \<open>strlen\<close> and the \<open>%s\<close> conversions see.\<close>

definition c_str :: "string \<Rightarrow> string" where
  "c_str s = takeWhile (\<lambda>c. c \<noteq> NUL) s"

abbreviation no_nul :: "string \<Rightarrow> bool" where
  "no_nul s \<equiv> NUL \<notin> set s"

lemma length_malloc_block [simp]: "length (malloc_block n) = n"
  by (simp add: malloc_block_def)

lemma length_realloc_block [simp]: "length (realloc_block m n) = n"
  by (simp add: realloc_block_def)

lemma take_realloc_block: "k \<le> length m \<Longrightarrow> k \<le> n \<Longrightarrow> take k (realloc_block m n) = take k m"
  by (simp add: realloc_block_def min_def)

lemma mem_write_length: "mem_write m off bs = Inr m' \<Longrightarrow> length m' = length m"
  by (auto simp: mem_write_def split: if_splits)

lemma cell_bytes_Some [simp]: "cell_bytes (map Some s) = Inr s"
  by (induction s) auto

lemma cell_bytes_eq_Inr: "cell_bytes cs = Inr s \<longleftrightarrow> cs = map Some s"
  by (induction cs arbitrary: s rule: cell_bytes.induct) (auto simp: Cons_eq_map_conv rbind_eq_Inr)

lemma cstr_of_append:
  "cstr_of (map Some s @ Some NUL # rest) = Inr (c_str s)"
  by (induction s) (auto simp: c_str_def)

lemma c_str_id [simp]: "no_nul s \<Longrightarrow> c_str s = s"
  by (auto simp: c_str_def)

lemma no_nul_c_str [simp]: "no_nul (c_str s)"
  by (auto simp: c_str_def dest: set_takeWhileD)

lemma length_c_str_le: "length (c_str s) \<le> length s"
  by (simp add: c_str_def length_takeWhile_le)

section \<open>The append-only byte store interface\<close>

text \<open>
  \<open>Cbuffer\<close> and \<open>BufferChain\<close> promise the same thing to their clients: a successful append
  keeps the representation invariant and adds exactly the given bytes at the end.  The client
  side, feeding a run of fragments, is proved once here.
\<close>

locale byte_store =
  fixes invar :: "'b \<Rightarrow> bool"
    and content :: "'b \<Rightarrow> string"
    and append :: "'b \<Rightarrow> string \<Rightarrow> 'b res"
  assumes append_content: "invar b \<Longrightarrow> append b s = Inr b' \<Longrightarrow> content b' = content b @ s"
    and append_invar: "invar b \<Longrightarrow> append b s = Inr b' \<Longrightarrow> invar b'"
begin

lemma fragments_content:
  "invar b \<Longrightarrow> rfold (\<lambda>s b. append b s) ss b = Inr b' \<Longrightarrow>
   content b' = content b @ concat ss \<and> invar b'"
proof (induction ss arbitrary: b)
  case Nil
  then show ?case by simp
next
  case (Cons s ss)
  from Cons.prems(2) obtain b1 where b1: "append b s = Inr b1"
    and rest: "rfold (\<lambda>s b. append b s) ss b1 = Inr b'" by (auto simp: rbind_eq_Inr)
  from Cons.prems(1) b1 have "invar b1" by (rule append_invar)
  from Cons.IH [OF this rest] append_content [OF Cons.prems(1) b1] show ?case by simp
qed

lemma fragmentation_irrelevant:
  assumes "invar b" and "concat ss = concat ts"
    and "rfold (\<lambda>s b. append b s) ss b = Inr b1"
    and "rfold (\<lambda>s b. append b s) ts b = Inr b2"
  shows "content b1 = content b2"
  using fragments_content [OF assms(1,3)] fragments_content [OF assms(1,4)] assms(2) by simp

end

end
