(* ===== verification/CH_List.thy ===== *)
theory CH_List
  imports CH_Prelude
begin

text \<open>
  The doubly linked list of \<open>src/http_in_c/common/list.c\<close>.  A list value carries the nodes it
  owns as a heap from addresses to nodes, so that every pointer assignment of the C code is a
  heap update.  \<open>List_inv l as\<close> says that the nodes form a well-linked chain carrying the
  address/item pairs \<open>as\<close>; every operation is shown to act on that chain as the corresponding
  operation on HOL lists.
\<close>

section \<open>Data\<close>

type_synonym addr = nat

text \<open>
  \<open>ln_released\<close> is a ghost flag: the item of this node was already passed to the
  deallocator.  Passing it again is a double free.
\<close>

record 'a ListNode =
  ln_forward :: "addr option"
  ln_backward :: "addr option"
  ln_item :: "'a option"
  ln_released :: bool

text \<open>
  The deallocator function pointer: absent (\<open>NULL\<close>), one that frees the item and sets the
  cell to \<open>NULL\<close> as \<open>list.h\<close> asks for, or one that frees the item and leaves the pointer
  (\<open>Functor_dealloc\<close> is of that kind).
\<close>

datatype deallocator = NoDealloc | NullingDealloc | KeepingDealloc

text \<open>\<open>l_nodes\<close>, \<open>l_fresh\<close> are the allocator's view of the nodes; \<open>l_freed\<close> logs freed items.\<close>

record 'a List =
  l_count :: int
  l_head :: "addr option"
  l_tail :: "addr option"
  l_dealloc :: deallocator
  l_nodes :: "addr \<Rightarrow> 'a ListNode option"
  l_fresh :: addr
  l_freed :: "'a list"

section \<open>Pointer accesses\<close>

definition get_node :: "'a List \<Rightarrow> addr option \<Rightarrow> 'a ListNode res" where
  "get_node l p =
     (case p of None \<Rightarrow> Inl NullDeref
      | Some a \<Rightarrow> (case l_nodes l a of None \<Rightarrow> Inl MemFault | Some n \<Rightarrow> Inr n))"

definition upd_node ::
  "'a List \<Rightarrow> addr option \<Rightarrow> ('a ListNode \<Rightarrow> 'a ListNode) \<Rightarrow> 'a List res" where
  "upd_node l p f =
     (case p of None \<Rightarrow> Inl NullDeref
      | Some a \<Rightarrow> (case l_nodes l a of None \<Rightarrow> Inl MemFault
                 | Some n \<Rightarrow> Inr (l\<lparr>l_nodes := (l_nodes l)(a \<mapsto> f n)\<rparr>)))"

section \<open>Operations\<close>

definition ListNode_new ::
  "'a List \<Rightarrow> 'a \<Rightarrow> addr option \<Rightarrow> addr option \<Rightarrow> addr \<times> 'a List" where
  "ListNode_new l content prev next =
     (let a = l_fresh l in
      (a, l\<lparr>l_nodes := (l_nodes l)(a \<mapsto> \<lparr>ln_forward = next, ln_backward = prev,
                                   ln_item = Some content, ln_released = False\<rparr>),
            l_fresh := Suc a\<rparr>))"

text \<open>Calling the deallocator on the item cell of the node at \<open>p\<close>.\<close>

definition call_dealloc :: "'a List \<Rightarrow> addr option \<Rightarrow> 'a List res" where
  "call_dealloc l p =
     rbind (get_node l p) (\<lambda>n.
       (case ln_item n of
          None \<Rightarrow> Inl NullDeref
        | Some x \<Rightarrow>
            if ln_released n then Inl DoubleFree
            else rbind (upd_node l p (\<lambda>n. n\<lparr>ln_released := True,
                          ln_item := (if l_dealloc l = KeepingDealloc then Some x else None)\<rparr>))
                   (\<lambda>l. Inr (l\<lparr>l_freed := l_freed l @ [x]\<rparr>))))"

definition ListNode_dispose :: "'a List \<Rightarrow> addr option \<Rightarrow> 'a List res" where
  "ListNode_dispose l p =
     rbind (get_node l p) (\<lambda>n.
     rbind (if l_dealloc l \<noteq> NoDealloc \<and> ln_item n \<noteq> None then call_dealloc l p else Inr l) (\<lambda>l.
     Inr (l\<lparr>l_nodes := (l_nodes l)(the p := None)\<rparr>)))"

definition List_init :: "'a List \<Rightarrow> deallocator \<Rightarrow> 'a List" where
  "List_init l d = l\<lparr>l_count := 0, l_head := None, l_tail := None, l_dealloc := d\<rparr>"

definition List_new :: "deallocator \<Rightarrow> 'a List" where
  "List_new d = List_init \<lparr>l_count = 0, l_head = None, l_tail = None, l_dealloc = d,
                           l_nodes = Map.empty, l_fresh = 0, l_freed = []\<rparr> d"

text \<open>
  The loop of \<open>List_destroy\<close>.  Every iteration frees a node, so \<open>l_fresh\<close> iterations
  are enough; the fuel only makes the recursion structural.
\<close>

fun List_destroy_loop :: "nat \<Rightarrow> 'a List \<Rightarrow> addr option \<Rightarrow> 'a List res" where
  "List_destroy_loop 0 l t = (case t of None \<Rightarrow> Inr l | Some _ \<Rightarrow> Inl NoReturn)"
| "List_destroy_loop (Suc k) l t =
     (case t of None \<Rightarrow> Inr l
      | Some a \<Rightarrow>
         rbind (if l_dealloc l \<noteq> NoDealloc then call_dealloc l t else Inr l) (\<lambda>l.
         rbind (get_node l t) (\<lambda>n.
         rbind (ListNode_dispose l t) (\<lambda>l.
         List_destroy_loop k l (ln_forward n)))))"

definition List_destroy :: "'a List \<Rightarrow> 'a List res" where
  "List_destroy l =
     rbind (List_destroy_loop (l_fresh l) l (l_head l)) (\<lambda>l'. Inr (List_init l' (l_dealloc l)))"

text \<open>\<open>List_dispose\<close> also frees the list header: what is left is the log of freed items.\<close>

definition List_dispose :: "'a List \<Rightarrow> 'a List res" where
  "List_dispose l = List_destroy l"

definition List_size :: "'a List \<Rightarrow> int" where
  "List_size l = l_count l"

fun List_find_loop :: "nat \<Rightarrow> 'a List \<Rightarrow> 'a \<Rightarrow> addr option \<Rightarrow> addr option res" where
  "List_find_loop 0 l needle iter = (case iter of None \<Rightarrow> Inr None | Some _ \<Rightarrow> Inl NoReturn)"
| "List_find_loop (Suc k) l needle iter =
     (case iter of None \<Rightarrow> Inr None
      | Some a \<Rightarrow> rbind (get_node l iter) (\<lambda>n.
          if ln_item n = Some needle then Inr iter
          else List_find_loop k l needle (ln_forward n)))"

definition List_find :: "'a List \<Rightarrow> 'a \<Rightarrow> addr option res" where
  "List_find l needle = List_find_loop (l_fresh l) l needle (l_head l)"

definition List_add_front :: "'a List \<Rightarrow> 'a \<Rightarrow> 'a List res" where
  "List_add_front l content =
     (let (a, l1) = ListNode_new l content None None in
      if l_count l1 = 0 then
        Inr (l1\<lparr>l_head := Some a, l_tail := Some a, l_count := l_count l1 + 1\<rparr>)
      else
        rbind (upd_node l1 (Some a) (\<lambda>n. n\<lparr>ln_forward := l_head l1, ln_backward := None\<rparr>)) (\<lambda>l2.
        rbind (upd_node l2 (l_head l2) (\<lambda>n. n\<lparr>ln_backward := Some a\<rparr>)) (\<lambda>l3.
        Inr (l3\<lparr>l_head := Some a, l_count := l_count l3 + 1\<rparr>))))"

definition List_add_back :: "'a List \<Rightarrow> 'a \<Rightarrow> 'a List res" where
  "List_add_back l content =
     (let (a, l1) = ListNode_new l content None (l_head l) in
      if l_count l1 = 0 then
        Inr (l1\<lparr>l_tail := Some a, l_head := Some a, l_count := l_count l1 + 1\<rparr>)
      else
        rbind (upd_node l1 (Some a) (\<lambda>n. n\<lparr>ln_backward := l_tail l1, ln_forward := None\<rparr>)) (\<lambda>l2.
        rbind (upd_node l2 (l_tail l2) (\<lambda>n. n\<lparr>ln_forward := Some a\<rparr>)) (\<lambda>l3.
        Inr (l3\<lparr>l_tail := Some a, l_count := l_count l3 + 1\<rparr>))))"

definition List_first :: "'a List \<Rightarrow> 'a option res" where
  "List_first l =
     (if l_head l = None then Inr None else rbind (get_node l (l_head l)) (\<lambda>n. Inr (ln_item n)))"

definition List_remove_first :: "'a List \<Rightarrow> ('a option \<times> 'a List) res" where
  "List_remove_first l =
     (if l_count l = 0 then Inr (None, l)
      else if l_count l = 1 then
        rbind (get_node l (l_head l)) (\<lambda>n.
        rbind (upd_node l (l_head l) (\<lambda>n. n\<lparr>ln_item := None\<rparr>)) (\<lambda>l1.
        rbind (ListNode_dispose (l1\<lparr>l_count := l_count l1 - 1\<rparr>) (l_head l)) (\<lambda>l2.
        Inr (ln_item n, l2\<lparr>l_head := None, l_tail := None\<rparr>))))
      else
        (let first = l_head l in
         rbind (get_node l first) (\<lambda>n.
         rbind (upd_node (l\<lparr>l_head := ln_forward n\<rparr>) (ln_forward n)
                  (\<lambda>m. m\<lparr>ln_backward := None\<rparr>)) (\<lambda>l1.
         rbind (upd_node l1 first
                  (\<lambda>m. m\<lparr>ln_forward := None, ln_backward := None, ln_item := None\<rparr>)) (\<lambda>l2.
         rbind (ListNode_dispose l2 first) (\<lambda>l3.
         Inr (ln_item n, l3\<lparr>l_count := l_count l3 - 1\<rparr>)))))))"

definition List_last :: "'a List \<Rightarrow> 'a option res" where
  "List_last l =
     (if l_tail l = None then Inr None else rbind (get_node l (l_tail l)) (\<lambda>n. Inr (ln_item n)))"

definition List_remove_last :: "'a List \<Rightarrow> ('a option \<times> 'a List) res" where
  "List_remove_last l =
     (if l_count l = 0 then Inr (None, l)
      else if l_count l = 1 then
        rbind (get_node l (l_head l)) (\<lambda>n.
        rbind (upd_node l (l_head l) (\<lambda>n. n\<lparr>ln_item := None\<rparr>)) (\<lambda>l1.
        rbind (ListNode_dispose (l1\<lparr>l_count := l_count l1 - 1\<rparr>) (l_head l)) (\<lambda>l2.
        Inr (ln_item n, l2\<lparr>l_head := None, l_tail := None\<rparr>))))
      else
        (let last = l_tail l in
         rbind (get_node l last) (\<lambda>n.
         rbind (upd_node (l\<lparr>l_tail := ln_backward n\<rparr>) (ln_backward n)
                  (\<lambda>m. m\<lparr>ln_forward := None\<rparr>)) (\<lambda>l1.
         rbind (upd_node l1 last
                  (\<lambda>m. m\<lparr>ln_forward := None, ln_backward := None, ln_item := None\<rparr>)) (\<lambda>l2.
         rbind (ListNode_dispose l2 last) (\<lambda>l3.
         Inr (ln_item n, l3\<lparr>l_count := l_count l3 - 1\<rparr>)))))))"

definition List_iterator :: "'a List \<Rightarrow> addr option" where
  "List_iterator l = l_head l"

definition List_itr_next :: "'a List \<Rightarrow> addr option \<Rightarrow> addr option res" where
  "List_itr_next l itr =
     rbind (c_assert (itr \<noteq> None)) (\<lambda>_. rbind (get_node l itr) (\<lambda>n. Inr (ln_forward n)))"

definition List_itr_remove :: "'a List \<Rightarrow> addr option \<Rightarrow> 'a List res" where
  "List_itr_remove l itr =
     rbind (c_assert (itr \<noteq> None)) (\<lambda>_.
     if l_count l = 0 then Inr l
     else if l_count l = 1 then
       rbind (c_assert (itr = l_head l)) (\<lambda>_.
       ListNode_dispose (l\<lparr>l_count := 0, l_head := None, l_tail := None\<rparr>) itr)
     else
       rbind (get_node l itr) (\<lambda>n.
       rbind
        (if l_head l = itr then
           rbind (upd_node l (ln_forward n) (\<lambda>m. m\<lparr>ln_backward := ln_backward n\<rparr>)) (\<lambda>l1.
           Inr (l1\<lparr>l_head := ln_forward n\<rparr>))
         else if l_tail l = itr then
           rbind (upd_node l (ln_backward n) (\<lambda>m. m\<lparr>ln_forward := ln_forward n\<rparr>)) (\<lambda>l1.
           Inr (l1\<lparr>l_tail := ln_backward n\<rparr>))
         else
           rbind (upd_node l (ln_forward n) (\<lambda>m. m\<lparr>ln_backward := ln_backward n\<rparr>)) (\<lambda>l1.
           upd_node l1 (ln_backward n) (\<lambda>m. m\<lparr>ln_forward := ln_forward n\<rparr>))) (\<lambda>l2.
       ListNode_dispose (l2\<lparr>l_count := l_count l2 - 1\<rparr>) itr)))"

definition List_itr_unpack :: "'a List \<Rightarrow> addr option \<Rightarrow> 'a option res" where
  "List_itr_unpack l itr =
     rbind (c_assert (itr \<noteq> None)) (\<lambda>_. rbind (get_node l itr) (\<lambda>n. Inr (ln_item n)))"

text \<open>
  An item is a pointer, and clients update the object it points to in place.  With the object
  itself stored in the node, that update is a store of the new value into the node at \<open>itr\<close>.
\<close>

definition List_item_store :: "'a List \<Rightarrow> addr option \<Rightarrow> 'a \<Rightarrow> 'a List res" where
  "List_item_store l itr x = upd_node l itr (\<lambda>n. n\<lparr>ln_item := Some x\<rparr>)"

section \<open>The chain of nodes\<close>

text \<open>
  \<open>seg h p f as l n\<close>: starting at pointer \<open>f\<close> with predecessor \<open>p\<close>, the heap holds the
  nodes \<open>as\<close>; \<open>l\<close> points to the last of them and its forward pointer is \<open>n\<close>.
\<close>

fun seg :: "(addr \<Rightarrow> 'a ListNode option) \<Rightarrow> addr option \<Rightarrow> addr option \<Rightarrow> (addr \<times> 'a) list
            \<Rightarrow> addr option \<Rightarrow> addr option \<Rightarrow> bool" where
  "seg h p f [] l n \<longleftrightarrow> f = n \<and> l = p"
| "seg h p f ((a, x) # as) l n \<longleftrightarrow> f = Some a \<and>
     (\<exists>g. h a = Some \<lparr>ln_forward = g, ln_backward = p, ln_item = Some x, ln_released = False\<rparr> \<and>
          seg h (Some a) g as l n)"

definition List_inv :: "'a List \<Rightarrow> (addr \<times> 'a) list \<Rightarrow> bool" where
  "List_inv l as \<longleftrightarrow>
     seg (l_nodes l) None (l_head l) as (l_tail l) None \<and> distinct (map fst as) \<and>
     (\<forall>a \<in> set (map fst as). a < l_fresh l) \<and> l_count l = int (length as)"

definition List_wf :: "'a List \<Rightarrow> bool" where
  "List_wf l \<longleftrightarrow> (\<exists>as. List_inv l as)"

text \<open>The items from head to tail, by following the forward pointers.\<close>

fun walk :: "nat \<Rightarrow> (addr \<Rightarrow> 'a ListNode option) \<Rightarrow> addr option \<Rightarrow> 'a list" where
  "walk 0 h p = []"
| "walk (Suc k) h p =
     (case p of None \<Rightarrow> []
      | Some a \<Rightarrow> (case h a of None \<Rightarrow> []
                 | Some n \<Rightarrow> (case ln_item n of None \<Rightarrow> [] | Some x \<Rightarrow> [x]) @ walk k h (ln_forward n)))"

definition List_items :: "'a List \<Rightarrow> 'a list" where
  "List_items l = walk (l_fresh l) (l_nodes l) (l_head l)"

lemma seg_append:
  "seg h p f (as @ bs) l n \<longleftrightarrow> (\<exists>m g. seg h p f as m g \<and> seg h m g bs l n)"
proof (induction as arbitrary: p f)
  case Nil
  then show ?case by auto
next
  case (Cons ax as)
  then show ?case by (cases ax) auto
qed

lemma seg_frame: "a \<notin> fst ` set as \<Longrightarrow> seg (h(a := v)) p f as l n \<longleftrightarrow> seg h p f as l n"
proof (induction as arbitrary: p f)
  case Nil
  then show ?case by simp
next
  case (Cons bx as)
  then show ?case by (cases bx) auto
qed

lemma seg_snoc:
  "seg h p f (as @ [(a, x)]) l n \<longleftrightarrow>
     l = Some a \<and> (\<exists>m. seg h p f as m (Some a) \<and>
       h a = Some \<lparr>ln_forward = n, ln_backward = m, ln_item = Some x, ln_released = False\<rparr>)"
  by (auto simp: seg_append)

lemma walk_seg: "seg h p f as l None \<Longrightarrow> length as \<le> k \<Longrightarrow> walk k h f = map snd as"
proof (induction as arbitrary: p f k)
  case Nil
  then show ?case by (cases k) auto
next
  case (Cons ax as)
  obtain a x where ax: "ax = (a, x)" by force
  obtain k' where k: "k = Suc k'" using Cons.prems(2) by (cases k) auto
  from Cons.prems(1) ax obtain g where
    "h a = Some \<lparr>ln_forward = g, ln_backward = p, ln_item = Some x, ln_released = False\<rparr>"
    and "f = Some a" and "seg h (Some a) g as l None" by auto
  then show ?case using Cons.IH [of "Some a" g k'] Cons.prems(2) k ax by simp
qed

lemma distinct_bounded_length:
  assumes "distinct as" and "\<forall>a \<in> set as. a < (n::nat)"
  shows "length as \<le> n"
proof -
  from assms(2) have "set as \<subseteq> {..<n}" by auto
  then have "card (set as) \<le> n" using card_mono [of "{..<n}" "set as"] by simp
  then show ?thesis using distinct_card [OF assms(1)] by simp
qed

lemma List_inv_length: "List_inv l as \<Longrightarrow> length as \<le> l_fresh l"
  using distinct_bounded_length [of "map fst as" "l_fresh l"] by (simp add: List_inv_def)

lemma List_items_inv: "List_inv l as \<Longrightarrow> List_items l = map snd as"
  using walk_seg [of "l_nodes l" None "l_head l" as "l_tail l" "l_fresh l"] List_inv_length [of l as]
  by (simp add: List_inv_def List_items_def)

lemma List_wfE:
  assumes "List_wf l"
  obtains as where "List_inv l as" and "List_items l = map snd as"
  using assms List_items_inv by (auto simp: List_wf_def)

lemma List_wfI: "List_inv l as \<Longrightarrow> List_wf l \<and> List_items l = map snd as"
  using List_items_inv by (auto simp: List_wf_def)


section \<open>The operations on the chain\<close>

lemmas ptr_simps = get_node_def upd_node_def ListNode_new_def Let_def

lemma List_inv_Nil_iff: "List_inv l as \<Longrightarrow> l_count l = 0 \<longleftrightarrow> as = []"
  by (simp add: List_inv_def)

lemma List_inv_head: "List_inv l as \<Longrightarrow> l_head l = (case as of [] \<Rightarrow> None | (a, x) # _ \<Rightarrow> Some a)"
  by (cases as) (auto simp: List_inv_def)

lemma List_inv_tail: "List_inv l as \<Longrightarrow> l_tail l = (if as = [] then None else Some (fst (last as)))"
  by (cases as rule: rev_cases) (auto simp: List_inv_def seg_append)

lemma List_new_inv: "List_inv (List_new d) []"
  by (simp add: List_inv_def List_new_def List_init_def)

lemma List_add_front_inv:
  assumes inv: "List_inv l as"
  shows "\<exists>l'. List_add_front l x = Inr l' \<and> List_inv l' ((l_fresh l, x) # as) \<and>
              l_dealloc l' = l_dealloc l \<and> l_freed l' = l_freed l"
proof (cases as)
  case Nil
  with inv show ?thesis by (simp add: List_add_front_def ptr_simps List_inv_def)
next
  case (Cons bx bs)
  obtain b y where bx: "bx = (b, y)" by force
  have "l_fresh l \<notin> fst ` set bs" "b \<notin> fst ` set bs" "b \<noteq> l_fresh l"
    using inv Cons bx by (auto simp: List_inv_def)
  with inv Cons bx show ?thesis
    by (auto simp: List_add_front_def ptr_simps List_inv_def seg_frame) (fastforce intro: less_SucI)
qed

lemma List_add_back_inv:
  assumes inv: "List_inv l as"
  shows "\<exists>l'. List_add_back l x = Inr l' \<and> List_inv l' (as @ [(l_fresh l, x)]) \<and>
              l_dealloc l' = l_dealloc l \<and> l_freed l' = l_freed l"
proof (cases as rule: rev_cases)
  case Nil
  with inv show ?thesis by (simp add: List_add_back_def ptr_simps List_inv_def)
next
  case (snoc bs bx)
  obtain b y where bx: "bx = (b, y)" by force
  have "l_fresh l \<notin> fst ` set bs" "b \<notin> fst ` set bs" "b \<noteq> l_fresh l"
    using inv snoc bx by (auto simp: List_inv_def)
  with inv snoc bx show ?thesis
    by (auto simp: List_add_back_def ptr_simps List_inv_def seg_frame seg_append)
      (fastforce intro: less_SucI)
qed

lemma List_first_inv: "List_inv l as \<Longrightarrow> List_first l = Inr (case as of [] \<Rightarrow> None | (a, x) # _ \<Rightarrow> Some x)"
  by (cases as) (auto simp: List_first_def ptr_simps List_inv_def)

lemma List_last_inv: "List_inv l as \<Longrightarrow> List_last l = Inr (if as = [] then None else Some (snd (last as)))"
  by (cases as rule: rev_cases) (auto simp: List_last_def ptr_simps List_inv_def seg_append)

lemma ListNode_dispose_no_item:
  "l_nodes l a = Some n \<Longrightarrow> ln_item n = None \<Longrightarrow>
   ListNode_dispose l (Some a) = Inr (l\<lparr>l_nodes := (l_nodes l)(a := None)\<rparr>)"
  by (simp add: ListNode_dispose_def ptr_simps)

lemma ListNode_dispose_item:
  "l_nodes l a = Some n \<Longrightarrow> ln_item n = Some x \<Longrightarrow> \<not> ln_released n \<Longrightarrow>
   ListNode_dispose l (Some a) =
     Inr (l\<lparr>l_nodes := (l_nodes l)(a := None),
            l_freed := l_freed l @ (if l_dealloc l = NoDealloc then [] else [x])\<rparr>)"
  by (simp add: ListNode_dispose_def call_dealloc_def ptr_simps)

lemma List_remove_first_inv:
  assumes inv: "List_inv l ((a, x) # as)"
  shows "\<exists>l'. List_remove_first l = Inr (Some x, l') \<and> List_inv l' as \<and>
              l_dealloc l' = l_dealloc l \<and> l_freed l' = l_freed l"
proof (cases as)
  case Nil
  with inv show ?thesis
    by (auto simp: List_remove_first_def ptr_simps List_inv_def ListNode_dispose_no_item)
next
  case (Cons bx bs)
  obtain b y where bx: "bx = (b, y)" by force
  have "a \<notin> fst ` set bs" "b \<notin> fst ` set bs" "b \<noteq> a"
    using inv Cons bx by (auto simp: List_inv_def)
  with inv Cons bx show ?thesis
    by (auto simp: List_remove_first_def ptr_simps List_inv_def ListNode_dispose_no_item seg_frame)
qed

lemma List_remove_last_inv:
  assumes inv: "List_inv l (as @ [(a, x)])"
  shows "\<exists>l'. List_remove_last l = Inr (Some x, l') \<and> List_inv l' as \<and>
              l_dealloc l' = l_dealloc l \<and> l_freed l' = l_freed l"
proof (cases as rule: rev_cases)
  case Nil
  with inv show ?thesis
    by (auto simp: List_remove_last_def ptr_simps List_inv_def ListNode_dispose_no_item)
next
  case (snoc bs bx)
  obtain b y where bx: "bx = (b, y)" by force
  have "a \<notin> fst ` set bs" "b \<notin> fst ` set bs" "b \<noteq> a"
    using inv snoc bx by (auto simp: List_inv_def)
  with inv snoc bx show ?thesis
    by (auto simp: List_remove_last_def ptr_simps List_inv_def ListNode_dispose_no_item seg_frame seg_append)
qed


lemma seg_nodeD:
  "seg h p f (bs @ (a, x) # cs) l n \<Longrightarrow>
   h a = Some \<lparr>ln_forward = (case cs of [] \<Rightarrow> n | (c, _) # _ \<Rightarrow> Some c),
              ln_backward = (if bs = [] then p else Some (fst (last bs))),
              ln_item = Some x, ln_released = False\<rparr>"
proof -
  assume "seg h p f (bs @ (a, x) # cs) l n"
  then obtain m g g' where s1: "seg h p f bs m g" and
    node: "h a = Some \<lparr>ln_forward = g', ln_backward = m, ln_item = Some x, ln_released = False\<rparr>"
    and s2: "seg h (Some a) g' cs l n" by (auto simp: seg_append)
  from s1 have "m = (if bs = [] then p else Some (fst (last bs)))"
    by (cases bs rule: rev_cases) (auto simp: seg_append)
  moreover from s2 have "g' = (case cs of [] \<Rightarrow> n | (c, _) # _ \<Rightarrow> Some c)"
    by (cases cs) auto
  ultimately show ?thesis using node by simp
qed

lemma List_itr_next_inv:
  "List_inv l (bs @ (a, x) # cs) \<Longrightarrow>
   List_itr_next l (Some a) = Inr (case cs of [] \<Rightarrow> None | (c, _) # _ \<Rightarrow> Some c)"
  by (auto simp: List_itr_next_def ptr_simps List_inv_def dest!: seg_nodeD)

lemma List_itr_unpack_inv:
  "List_inv l (bs @ (a, x) # cs) \<Longrightarrow> List_itr_unpack l (Some a) = Inr (Some x)"
  by (auto simp: List_itr_unpack_def ptr_simps List_inv_def dest!: seg_nodeD)

lemma List_item_store_inv:
  assumes inv: "List_inv l (bs @ (a, x) # cs)"
  shows "\<exists>l'. List_item_store l (Some a) y = Inr l' \<and> List_inv l' (bs @ (a, y) # cs) \<and>
              l_dealloc l' = l_dealloc l \<and> l_freed l' = l_freed l"
proof -
  from inv have "a \<notin> fst ` set bs" "a \<notin> fst ` set cs" by (auto simp: List_inv_def)
  with inv show ?thesis
    by (auto simp: List_item_store_def ptr_simps List_inv_def seg_append seg_frame)
qed

lemma List_itr_remove_inv:
  assumes inv: "List_inv l (bs @ (a, x) # cs)"
  shows "\<exists>l'. List_itr_remove l (Some a) = Inr l' \<and> List_inv l' (bs @ cs) \<and>
              l_dealloc l' = l_dealloc l \<and>
              l_freed l' = l_freed l @ (if l_dealloc l = NoDealloc then [] else [x])"
proof -
  have node: "l_nodes l a = Some \<lparr>ln_forward = (case cs of [] \<Rightarrow> None | (c, _) # _ \<Rightarrow> Some c),
              ln_backward = (if bs = [] then None else Some (fst (last bs))),
              ln_item = Some x, ln_released = False\<rparr>"
    using inv by (auto simp: List_inv_def dest: seg_nodeD)
  have a: "a \<notin> fst ` set bs" "a \<notin> fst ` set cs" using inv by (auto simp: List_inv_def)
  note s = List_itr_remove_def ptr_simps List_inv_def ListNode_dispose_item seg_frame seg_append
  consider "bs = []" "cs = []" | c y cs' where "bs = []" "cs = (c, y) # cs'"
    | b z bs' where "bs = bs' @ [(b, z)]" "cs = []"
    | b z bs' c y cs' where "bs = bs' @ [(b, z)]" "cs = (c, y) # cs'"
    by (metis list.exhaust rev_exhaust surj_pair)
  then show ?thesis
  proof cases
    case 1
    with inv node show ?thesis by (auto simp: s)
  next
    case 2
    with inv node a show ?thesis by (auto simp: s)
  next
    case 3
    then have hd: "l_head l \<noteq> Some a" using List_inv_head [OF inv] a by (cases bs') auto
    have "b \<notin> fst ` set bs'" using inv 3 by (auto simp: List_inv_def)
    with 3 inv node a hd show ?thesis by (auto simp: s)
  next
    case 4
    then have hd: "l_head l \<noteq> Some a" using List_inv_head [OF inv] a by (cases bs') auto
    have tl: "l_tail l \<noteq> Some a"
      using List_inv_tail [OF inv] a 4 by (auto simp: image_iff dest!: last_in_set split: if_splits)
    have "b \<notin> fst ` set bs'" "b \<notin> fst ` set cs'" "c \<notin> fst ` set bs'" "c \<notin> fst ` set cs'" "b \<noteq> c"
      using inv 4 by (auto simp: List_inv_def)
    with 4 inv node a hd tl show ?thesis by (auto simp: s)
  qed
qed

lemma List_find_loop_seg:
  assumes "seg (l_nodes l) p f as t None" and "length as \<le> k"
  shows "List_find_loop k l y f = Inr (map_option fst (List.find (\<lambda>ax. snd ax = y) as))"
  using assms
proof (induction as arbitrary: p f k)
  case Nil
  then show ?case by (cases k) auto
next
  case (Cons ax as)
  obtain a x where ax: "ax = (a, x)" by force
  obtain k' where k: "k = Suc k'" using Cons.prems(2) by (cases k) auto
  from Cons.prems(1) ax obtain g where
    "l_nodes l a = Some \<lparr>ln_forward = g, ln_backward = p, ln_item = Some x, ln_released = False\<rparr>"
    and "f = Some a" and "seg (l_nodes l) (Some a) g as t None" by auto
  then show ?case using Cons.IH [of "Some a" g k'] Cons.prems(2) k ax by (simp add: ptr_simps)
qed

lemma List_find_inv:
  "List_inv l as \<Longrightarrow> List_find l y = Inr (map_option fst (List.find (\<lambda>ax. snd ax = y) as))"
  unfolding List_find_def
  by (rule List_find_loop_seg [OF _ List_inv_length]) (auto simp: List_inv_def)

section \<open>Iteration\<close>

text \<open>
  The loop skeleton of the clients: start at an iterator, unpack the item, run the body on it,
  step the iterator, until \<open>NULL\<close>.
\<close>

fun List_iterate :: "nat \<Rightarrow> 'a List \<Rightarrow> ('a \<Rightarrow> 's \<Rightarrow> 's res) \<Rightarrow> addr option \<Rightarrow> 's \<Rightarrow> 's res" where
  "List_iterate 0 l body iter s = (case iter of None \<Rightarrow> Inr s | Some _ \<Rightarrow> Inl NoReturn)"
| "List_iterate (Suc k) l body iter s =
     (case iter of None \<Rightarrow> Inr s
      | Some a \<Rightarrow> rbind (List_itr_unpack l iter) (\<lambda>x. case x of None \<Rightarrow> Inl NullDeref
        | Some x \<Rightarrow> rbind (body x s) (\<lambda>s. rbind (List_itr_next l iter) (\<lambda>iter.
            List_iterate k l body iter s))))"

definition List_foreach :: "'a List \<Rightarrow> ('a \<Rightarrow> 's \<Rightarrow> 's res) \<Rightarrow> 's \<Rightarrow> 's res" where
  "List_foreach l body s = List_iterate (l_fresh l) l body (List_iterator l) s"

lemma List_iterate_inv:
  assumes "List_inv l (bs @ as)" and "length as \<le> k"
  shows "List_iterate k l body (case as of [] \<Rightarrow> None | (a, _) # _ \<Rightarrow> Some a) s = rfold body (map snd as) s"
  using assms
proof (induction as arbitrary: bs k s)
  case Nil
  then show ?case by (cases k) auto
next
  case (Cons ax as)
  obtain a x where ax: "ax = (a, x)" by force
  obtain k' where k: "k = Suc k'" using Cons.prems(2) by (cases k) auto
  have inv: "List_inv l (bs @ (a, x) # as)" using Cons.prems(1) ax by simp
  have IH: "List_iterate k' l body (case as of [] \<Rightarrow> None | (a, _) # _ \<Rightarrow> Some a) s' =
            rfold body (map snd as) s'" for s'
    using Cons.IH [of "bs @ [ax]" k' s'] Cons.prems k by simp
  show ?case
    using List_itr_unpack_inv [OF inv] List_itr_next_inv [OF inv] IH k ax
    by (auto intro!: rbind_cong)
qed

lemma List_foreach_items: "List_wf l \<Longrightarrow> List_foreach l body s = rfold body (List_items l) s"
  by (erule List_wfE)
    (use List_iterate_inv [where bs = "[]"] List_inv_length List_inv_head in
      \<open>fastforce simp: List_foreach_def List_iterator_def\<close>)

text \<open>The same skeleton for loops that return from inside the body (\<open>Inl\<close> of the inner sum).\<close>

fun List_search_loop ::
  "nat \<Rightarrow> 'a List \<Rightarrow> (addr \<Rightarrow> 'a \<Rightarrow> 's \<Rightarrow> ('r + 's) res) \<Rightarrow> addr option \<Rightarrow> 's \<Rightarrow> ('r + 's) res" where
  "List_search_loop 0 l body iter s = (case iter of None \<Rightarrow> Inr (Inr s) | Some _ \<Rightarrow> Inl NoReturn)"
| "List_search_loop (Suc k) l body iter s =
     (case iter of None \<Rightarrow> Inr (Inr s)
      | Some a \<Rightarrow> rbind (List_itr_unpack l iter) (\<lambda>x. case x of None \<Rightarrow> Inl NullDeref
        | Some x \<Rightarrow> rbind (body a x s) (\<lambda>r. case r of Inl v \<Rightarrow> Inr (Inl v)
          | Inr s \<Rightarrow> rbind (List_itr_next l iter) (\<lambda>iter. List_search_loop k l body iter s))))"

definition List_search :: "'a List \<Rightarrow> (addr \<Rightarrow> 'a \<Rightarrow> 's \<Rightarrow> ('r + 's) res) \<Rightarrow> 's \<Rightarrow> ('r + 's) res" where
  "List_search l body s = List_search_loop (l_fresh l) l body (List_iterator l) s"

fun rsearch :: "(addr \<Rightarrow> 'a \<Rightarrow> 's \<Rightarrow> ('r + 's) res) \<Rightarrow> (addr \<times> 'a) list \<Rightarrow> 's \<Rightarrow> ('r + 's) res" where
  "rsearch body [] s = Inr (Inr s)"
| "rsearch body ((a, x) # as) s =
     rbind (body a x s) (\<lambda>r. case r of Inl v \<Rightarrow> Inr (Inl v) | Inr s \<Rightarrow> rsearch body as s)"

lemma List_search_loop_inv:
  assumes "List_inv l (bs @ as)" and "length as \<le> k"
  shows "List_search_loop k l body (case as of [] \<Rightarrow> None | (a, _) # _ \<Rightarrow> Some a) s = rsearch body as s"
  using assms
proof (induction as arbitrary: bs k s)
  case Nil
  then show ?case by (cases k) auto
next
  case (Cons ax as)
  obtain a x where ax: "ax = (a, x)" by force
  obtain k' where k: "k = Suc k'" using Cons.prems(2) by (cases k) auto
  have inv: "List_inv l (bs @ (a, x) # as)" using Cons.prems(1) ax by simp
  have IH: "List_search_loop k' l body (case as of [] \<Rightarrow> None | (a, _) # _ \<Rightarrow> Some a) s' =
            rsearch body as s'" for s'
    using Cons.IH [of "bs @ [ax]" k' s'] Cons.prems k by simp
  show ?case
    using List_itr_unpack_inv [OF inv] List_itr_next_inv [OF inv] IH k ax
    by (auto intro!: rbind_cong split: sum.split)
qed

lemma List_search_inv: "List_inv l as \<Longrightarrow> List_search l body s = rsearch body as s"
  using List_search_loop_inv [where bs = "[]"] List_inv_length List_inv_head
  by (fastforce simp: List_search_def List_iterator_def)

lemma List_store_last_wf:
  assumes "List_wf l" and "List_items l \<noteq> []"
  shows "\<exists>l'. List_item_store l (l_tail l) y = Inr l' \<and> List_wf l' \<and>
     List_items l' = butlast (List_items l) @ [y] \<and> l_dealloc l' = l_dealloc l \<and> l_freed l' = l_freed l"
proof -
  obtain as where as: "List_inv l as" "List_items l = map snd as" by (rule List_wfE [OF assms(1)])
  with assms(2) obtain bs a x where split: "as = bs @ [(a, x)]" by (cases as rule: rev_cases) auto
  with as(1) have "l_tail l = Some a" by (simp add: List_inv_tail)
  with List_item_store_inv [of l bs a x "[]" y] as split show ?thesis
    using List_wfI by (fastforce simp: butlast_append)
qed


section \<open>Destruction\<close>

lemma List_destroy_loop_inv:
  assumes "seg (l_nodes l) p f as t None" and "distinct (map fst as)" and "length as \<le> k"
    and "l_dealloc l \<noteq> KeepingDealloc"
  shows "\<exists>l'. List_destroy_loop k l f = Inr l' \<and> l_dealloc l' = l_dealloc l \<and>
     l_freed l' = l_freed l @ (if l_dealloc l = NoDealloc then [] else map snd as)"
  using assms
proof (induction as arbitrary: p f k l)
  case Nil
  then show ?case by (cases k) auto
next
  case (Cons ax as)
  obtain a x where ax: "ax = (a, x)" by force
  obtain k' where k: "k = Suc k'" using Cons.prems(3) by (cases k) auto
  from Cons.prems(1) ax obtain g where
    node: "l_nodes l a = Some \<lparr>ln_forward = g, ln_backward = p, ln_item = Some x, ln_released = False\<rparr>"
    and f: "f = Some a" and sg: "seg (l_nodes l) (Some a) g as t None" by auto
  define l1 where "l1 = l\<lparr>l_nodes := (l_nodes l)(a := None),
    l_freed := l_freed l @ (if l_dealloc l = NoDealloc then [] else [x])\<rparr>"
  have a: "a \<notin> fst ` set as" using Cons.prems(2) ax by auto
  have step: "List_destroy_loop k l f = List_destroy_loop k' l1 g"
    using node f k Cons.prems(4)
    by (cases l) (simp add: l1_def call_dealloc_def ListNode_dispose_def ptr_simps)
  have sg1: "seg (l_nodes l1) (Some a) g as t None" using sg a by (simp add: l1_def seg_frame)
  have d1: "l_dealloc l1 = l_dealloc l" by (simp add: l1_def)
  from Cons.IH [OF sg1, of k'] obtain l' where
    "List_destroy_loop k' l1 g = Inr l'" "l_dealloc l' = l_dealloc l1"
    "l_freed l' = l_freed l1 @ (if l_dealloc l1 = NoDealloc then [] else map snd as)"
    using Cons.prems k d1 by auto
  then show ?case using step ax by (auto simp: l1_def)
qed

lemma List_destroy_inv:
  assumes inv: "List_inv l as" and d: "l_dealloc l \<noteq> KeepingDealloc"
  shows "\<exists>l'. List_destroy l = Inr l' \<and> List_inv l' [] \<and> l_dealloc l' = l_dealloc l \<and>
     l_freed l' = l_freed l @ (if l_dealloc l = NoDealloc then [] else map snd as)"
proof -
  have "seg (l_nodes l) None (l_head l) as (l_tail l) None" "distinct (map fst as)"
    using inv by (auto simp: List_inv_def)
  from List_destroy_loop_inv [OF this List_inv_length [OF inv] d] obtain l' where
    "List_destroy_loop (l_fresh l) l (l_head l) = Inr l'" "l_dealloc l' = l_dealloc l"
    "l_freed l' = l_freed l @ (if l_dealloc l = NoDealloc then [] else map snd as)" by blast
  then show ?thesis by (auto simp: List_destroy_def List_init_def List_inv_def)
qed

text \<open>
  A deallocator that leaves the pointer behind is called a second time by
  \<open>ListNode_dispose\<close>.
\<close>

lemma List_destroy_keeping:
  assumes inv: "List_inv l ((a, x) # as)" and d: "l_dealloc l = KeepingDealloc"
  shows "List_destroy l = Inl DoubleFree"
proof -
  obtain k where k: "l_fresh l = Suc k" using List_inv_length [OF inv] by (cases "l_fresh l") auto
  from inv obtain g where "l_head l = Some a" and
    "l_nodes l a = Some \<lparr>ln_forward = g, ln_backward = None, ln_item = Some x, ln_released = False\<rparr>"
    by (auto simp: List_inv_def)
  then show ?thesis
    using d k by (simp add: List_destroy_def call_dealloc_def ListNode_dispose_def ptr_simps)
qed

section \<open>The deque interface\<close>

text \<open>
  What \<open>list.h\<close> promises its clients, stated on the sequence of items: total, order
  preserving insertion and removal at both ends, and iteration in list order.
\<close>

locale deque =
  fixes invar :: "'l \<Rightarrow> bool"
    and items :: "'l \<Rightarrow> 'a list"
    and new :: "'l"
    and add_front :: "'l \<Rightarrow> 'a \<Rightarrow> 'l res"
    and add_back :: "'l \<Rightarrow> 'a \<Rightarrow> 'l res"
    and remove_first :: "'l \<Rightarrow> ('a option \<times> 'l) res"
    and remove_last :: "'l \<Rightarrow> ('a option \<times> 'l) res"
    and size_of :: "'l \<Rightarrow> int"
  assumes new_laws: "invar new \<and> items new = []"
    and add_front_law: "invar l \<Longrightarrow>
      \<exists>l'. add_front l x = Inr l' \<and> invar l' \<and> items l' = x # items l"
    and add_back_law: "invar l \<Longrightarrow>
      \<exists>l'. add_back l x = Inr l' \<and> invar l' \<and> items l' = items l @ [x]"
    and remove_first_law: "invar l \<Longrightarrow>
      \<exists>l'. remove_first l = Inr (case items l of [] \<Rightarrow> None | x # _ \<Rightarrow> Some x, l') \<and>
           invar l' \<and> items l' = tl (items l)"
    and remove_last_law: "invar l \<Longrightarrow>
      \<exists>l'. remove_last l = Inr (if items l = [] then None else Some (last (items l)), l') \<and>
           invar l' \<and> items l' = butlast (items l)"
    and size_law: "invar l \<Longrightarrow> size_of l = int (length (items l))"
begin

lemma add_back_all:
  "invar l \<Longrightarrow> \<exists>l'. rfold (\<lambda>x l. add_back l x) xs l = Inr l' \<and> invar l' \<and> items l' = items l @ xs"
proof (induction xs arbitrary: l)
  case Nil
  then show ?case by simp
next
  case (Cons x xs)
  obtain l1 where l1: "add_back l x = Inr l1" "invar l1" "items l1 = items l @ [x]"
    using add_back_law [OF Cons.prems] by blast
  from Cons.IH [OF l1(2)] l1 show ?case by auto
qed

text \<open>First in, first out.\<close>

lemma fifo_order:
  "\<exists>l1 l2. rfold (\<lambda>x l. add_back l x) xs new = Inr l1 \<and>
     remove_first l1 = Inr (case xs of [] \<Rightarrow> None | x # _ \<Rightarrow> Some x, l2) \<and> items l2 = tl xs"
proof -
  obtain l1 where l1: "rfold (\<lambda>x l. add_back l x) xs new = Inr l1" "invar l1" "items l1 = xs"
    using add_back_all [of new xs] new_laws by auto
  from remove_first_law [OF l1(2)] l1(1,3) show ?thesis by auto
qed

end

lemma List_remove_first_Nil: "List_inv l [] \<Longrightarrow> List_remove_first l = Inr (None, l)"
  by (simp add: List_remove_first_def List_inv_def)

lemma List_remove_last_Nil: "List_inv l [] \<Longrightarrow> List_remove_last l = Inr (None, l)"
  by (simp add: List_remove_last_def List_inv_def)

lemma List_add_front_wf:
  "List_wf l \<Longrightarrow> \<exists>l'. List_add_front l x = Inr l' \<and> List_wf l' \<and> List_items l' = x # List_items l \<and>
     l_dealloc l' = l_dealloc l \<and> l_freed l' = l_freed l"
  by (erule List_wfE) (use List_add_front_inv List_wfI in fastforce)

lemma List_add_back_wf:
  "List_wf l \<Longrightarrow> \<exists>l'. List_add_back l x = Inr l' \<and> List_wf l' \<and> List_items l' = List_items l @ [x] \<and>
     l_dealloc l' = l_dealloc l \<and> l_freed l' = l_freed l"
  by (erule List_wfE) (use List_add_back_inv List_wfI in fastforce)

lemma List_remove_first_wf:
  assumes "List_wf l"
  shows "\<exists>l'. List_remove_first l = Inr (case List_items l of [] \<Rightarrow> None | x # _ \<Rightarrow> Some x, l') \<and>
              List_wf l' \<and> List_items l' = tl (List_items l) \<and>
              l_dealloc l' = l_dealloc l \<and> l_freed l' = l_freed l"
proof -
  obtain as where as: "List_inv l as" "List_items l = map snd as" by (rule List_wfE [OF assms])
  show ?thesis
  proof (cases as)
    case Nil
    with as show ?thesis using assms by (auto simp: List_remove_first_Nil)
  next
    case (Cons ax bs)
    with as List_remove_first_inv [of l "fst ax" "snd ax" bs] List_wfI show ?thesis by fastforce
  qed
qed

lemma List_remove_last_wf:
  assumes "List_wf l"
  shows "\<exists>l'. List_remove_last l = Inr (if List_items l = [] then None else Some (last (List_items l)), l') \<and>
              List_wf l' \<and> List_items l' = butlast (List_items l) \<and>
              l_dealloc l' = l_dealloc l \<and> l_freed l' = l_freed l"
proof -
  obtain as where as: "List_inv l as" "List_items l = map snd as" by (rule List_wfE [OF assms])
  show ?thesis
  proof (cases as rule: rev_cases)
    case Nil
    with as show ?thesis using assms by (auto simp: List_remove_last_Nil)
  next
    case (snoc bs ax)
    with as List_remove_last_inv [of l bs "fst ax" "snd ax"] List_wfI show ?thesis by fastforce
  qed
qed

lemma List_size_wf: "List_wf l \<Longrightarrow> List_size l = int (length (List_items l))"
  by (erule List_wfE) (simp add: List_size_def List_inv_def)

lemma List_new_wf: "List_wf (List_new d)" and List_new_items: "List_items (List_new d) = []"
  using List_wfI [OF List_new_inv] by auto

interpretation dll: deque List_wf List_items "List_new d" List_add_front List_add_back
  List_remove_first List_remove_last List_size for d
proof unfold_locales
  fix l :: "'a List" and x :: 'a
  assume wf: "List_wf l"
  show "\<exists>l'. List_add_front l x = Inr l' \<and> List_wf l' \<and> List_items l' = x # List_items l"
    using List_add_front_wf [OF wf] by blast
  show "\<exists>l'. List_add_back l x = Inr l' \<and> List_wf l' \<and> List_items l' = List_items l @ [x]"
    using List_add_back_wf [OF wf] by blast
  show "\<exists>l'. List_remove_first l = Inr (case List_items l of [] \<Rightarrow> None | x # _ \<Rightarrow> Some x, l') \<and>
           List_wf l' \<and> List_items l' = tl (List_items l)"
    using List_remove_first_wf [OF wf] by blast
  show "\<exists>l'. List_remove_last l = Inr (if List_items l = [] then None else Some (last (List_items l)), l') \<and>
           List_wf l' \<and> List_items l' = butlast (List_items l)"
    using List_remove_last_wf [OF wf] by blast
qed (simp_all add: List_new_wf List_new_items List_size_wf)

lemma List_first_wf:
  "List_wf l \<Longrightarrow> List_first l = Inr (case List_items l of [] \<Rightarrow> None | x # _ \<Rightarrow> Some x)"
  by (erule List_wfE) (auto simp: List_first_inv split: list.splits)

lemma List_last_wf:
  "List_wf l \<Longrightarrow> List_last l = Inr (if List_items l = [] then None else Some (last (List_items l)))"
  by (erule List_wfE) (auto simp: List_last_inv last_map)

section \<open>Properties\<close>

text \<open>
  Scripts of operations, for the simulation of a list by the sequence of its items.
\<close>

datatype 'a list_op = Add_front 'a | Add_back 'a | Remove_first | Remove_last | Get_first | Get_last

fun List_step :: "'a list_op \<Rightarrow> 'a List \<Rightarrow> ('a option \<times> 'a List) res" where
  "List_step (Add_front x) l = rbind (List_add_front l x) (\<lambda>l. Inr (None, l))"
| "List_step (Add_back x) l = rbind (List_add_back l x) (\<lambda>l. Inr (None, l))"
| "List_step Remove_first l = List_remove_first l"
| "List_step Remove_last l = List_remove_last l"
| "List_step Get_first l = rbind (List_first l) (\<lambda>x. Inr (x, l))"
| "List_step Get_last l = rbind (List_last l) (\<lambda>x. Inr (x, l))"

fun List_script :: "'a list_op list \<Rightarrow> 'a List \<Rightarrow> ('a option list \<times> 'a List) res" where
  "List_script [] l = Inr ([], l)"
| "List_script (c # cs) l =
     rbind (List_step c l) (\<lambda>(x, l). rbind (List_script cs l) (\<lambda>(xs, l). Inr (x # xs, l)))"

fun spec_step :: "'a list_op \<Rightarrow> 'a list \<Rightarrow> 'a option \<times> 'a list" where
  "spec_step (Add_front x) s = (None, x # s)"
| "spec_step (Add_back x) s = (None, s @ [x])"
| "spec_step Remove_first s = (case s of [] \<Rightarrow> (None, []) | x # s' \<Rightarrow> (Some x, s'))"
| "spec_step Remove_last s = (if s = [] then (None, []) else (Some (last s), butlast s))"
| "spec_step Get_first s = (case s of [] \<Rightarrow> None | x # _ \<Rightarrow> Some x, s)"
| "spec_step Get_last s = (if s = [] then None else Some (last s), s)"

fun spec_script :: "'a list_op list \<Rightarrow> 'a list \<Rightarrow> 'a option list \<times> 'a list" where
  "spec_script [] s = ([], s)"
| "spec_script (c # cs) s =
     (let (x, s) = spec_step c s; (xs, s) = spec_script cs s in (x # xs, s))"

lemma List_step_sim:
  assumes wf: "List_wf l"
  shows "\<exists>l'. List_step c l = Inr (fst (spec_step c (List_items l)), l') \<and> List_wf l' \<and>
     List_items l' = snd (spec_step c (List_items l))"
proof (cases c)
  case (Add_front x)
  then show ?thesis using List_add_front_wf [OF wf, of x] by auto
next
  case (Add_back x)
  then show ?thesis using List_add_back_wf [OF wf, of x] by auto
next
  case Remove_first
  then show ?thesis using List_remove_first_wf [OF wf] by (cases "List_items l") auto
next
  case Remove_last
  then show ?thesis using List_remove_last_wf [OF wf] by auto
qed (use wf in \<open>simp_all add: List_first_wf List_last_wf\<close>)

text \<open>
  C15: Every script of insertions, removals and reads at both ends of the doubly linked list
  runs without a memory error and returns what the same script returns on the sequence of
  items; the pointer structure stays well formed.
\<close>

theorem List_script_refines:
  assumes "List_wf l"
  shows "\<exists>l'. List_script cs l = Inr (fst (spec_script cs (List_items l)), l') \<and> List_wf l' \<and>
     List_items l' = snd (spec_script cs (List_items l))"
  using assms
proof (induction cs arbitrary: l)
  case (Cons c cs)
  obtain l1 where l1: "List_step c l = Inr (fst (spec_step c (List_items l)), l1)" "List_wf l1"
    "List_items l1 = snd (spec_step c (List_items l))" using List_step_sim [OF Cons.prems] by blast
  from Cons.IH [OF l1(2)] l1 show ?case by (auto simp: case_prod_unfold Let_def)
qed simp

theorem List_script_refines_witness:
  "\<exists>l'. List_script [Add_back (1 :: nat), Add_back 2, Add_front 0, Remove_last, Remove_first] (List_new NoDealloc) =
     Inr ([None, None, None, Some 2, Some 0], l') \<and> List_wf l' \<and> List_items l' = [1]"
  using List_script_refines [OF List_new_wf [of NoDealloc],
      of "[Add_back (1 :: nat), Add_back 2, Add_front 0, Remove_last, Remove_first]"]
  by (simp add: List_new_items)

text \<open>
  Removing the element an iterator points to unlinks exactly that node, wherever it is in
  the list, keeps the order of the others, and releases its item once through the deallocator.
\<close>

theorem List_itr_remove_exact:
  assumes "List_inv l (bs @ (a, x) # cs)" and "l_dealloc l \<noteq> NoDealloc"
  shows "\<exists>l'. List_itr_remove l (Some a) = Inr l' \<and> List_wf l' \<and>
     List_items l' = map snd bs @ map snd cs \<and> l_freed l' = l_freed l @ [x]"
  using List_itr_remove_inv [OF assms(1)] assms(2) List_wfI by fastforce

definition three_nodes :: "nat List" where
  "three_nodes = \<lparr>l_count = 3, l_head = Some 0, l_tail = Some 2, l_dealloc = NullingDealloc,
     l_nodes = [0 \<mapsto> \<lparr>ln_forward = Some 1, ln_backward = None, ln_item = Some 10, ln_released = False\<rparr>,
                1 \<mapsto> \<lparr>ln_forward = Some 2, ln_backward = Some 0, ln_item = Some 11, ln_released = False\<rparr>,
                2 \<mapsto> \<lparr>ln_forward = None, ln_backward = Some 1, ln_item = Some 12, ln_released = False\<rparr>],
     l_fresh = 3, l_freed = []\<rparr>"

lemma three_nodes_inv: "List_inv three_nodes [(0, 10), (1, 11), (2, 12)]"
  by (simp add: three_nodes_def List_inv_def)

theorem List_itr_remove_exact_witness:
  "\<exists>l'. List_itr_remove three_nodes (Some 1) = Inr l' \<and> List_wf l' \<and> List_items l' = [10, 12] \<and> l_freed l' = [11]"
  using List_itr_remove_exact [of three_nodes "[(0, 10)]" 1 11 "[(2, 12)]"] three_nodes_inv
  by (simp add: three_nodes_def)

text \<open>
  With a deallocator that follows \<open>list.h\<close> and clears the pointer, destroying a list
  releases every item exactly once, in order, and leaves an empty list.
\<close>

theorem List_destroy_releases:
  assumes "List_wf l" and "l_dealloc l = NullingDealloc"
  shows "\<exists>l'. List_destroy l = Inr l' \<and> List_wf l' \<and> List_items l' = [] \<and>
     l_freed l' = l_freed l @ List_items l"
proof -
  obtain as where as: "List_inv l as" "List_items l = map snd as" by (rule List_wfE [OF assms(1)])
  from List_destroy_inv [OF as(1)] assms(2) as(2) List_wfI show ?thesis by fastforce
qed

theorem List_destroy_releases_witness:
  "\<exists>l'. List_destroy three_nodes = Inr l' \<and> List_items l' = [] \<and> l_freed l' = [10, 11, 12]"
proof -
  have "List_wf three_nodes" "List_items three_nodes = [10, 11, 12]" "l_dealloc three_nodes = NullingDealloc"
      "l_freed three_nodes = []"
    using List_wfI [OF three_nodes_inv] by (simp_all add: three_nodes_def)
  with List_destroy_releases [of three_nodes] show ?thesis by auto
qed

text \<open>
  With a deallocator that leaves the pointer in place, as \<open>Functor_dealloc\<close> does, destroying
  a non-empty list calls it a second time on the first item: a double free.
\<close>

theorem List_destroy_double_free:
  assumes "List_wf l" and "List_items l \<noteq> []" and "l_dealloc l = KeepingDealloc"
  shows "List_destroy l = Inl DoubleFree"
proof -
  obtain as where as: "List_inv l as" "List_items l = map snd as" by (rule List_wfE [OF assms(1)])
  with assms(2) obtain a x bs where "as = (a, x) # bs" by (cases as) auto
  with as(1) assms(3) show ?thesis by (simp add: List_destroy_keeping)
qed

theorem List_destroy_double_free_witness:
  "\<exists>l. List_add_back (List_new KeepingDealloc) (7 :: nat) = Inr l \<and> List_destroy l = Inl DoubleFree"
proof -
  obtain l where l: "List_add_back (List_new KeepingDealloc) (7 :: nat) = Inr l" "List_wf l" "List_items l = [7]"
    "l_dealloc l = KeepingDealloc"
    using List_add_back_wf [OF List_new_wf [of KeepingDealloc], of "7 :: nat"]
    by (auto simp: List_new_items) (simp add: List_new_def List_init_def)
  with List_destroy_double_free [of l] show ?thesis by auto
qed

end
