(* ===== verification/CH_Cbuffer.thy ===== *)
theory CH_Cbuffer
  imports CH_Prelude
begin

text \<open>
  The growing byte buffer of \<open>src/http_in_c/common/cbuffer.c\<close>.  The buffer owns one block of
  memory; every store is checked against the size of that block, so an access past its end is
  a result of the model.  \<open>size_t\<close> values are natural numbers: every length here is bounded
  by the strategy's maximum of one mebibyte, far below the width of \<open>size_t\<close>.  \<open>malloc\<close> and
  \<open>realloc\<close> succeed.
\<close>

section \<open>Data\<close>

record BufferStrategy =
  m_min_size :: nat
  m_max_size :: nat

text \<open>\<open>m_cPtr\<close> is the same pointer as \<open>m_memPtr\<close> at another C type; one field stands for both.\<close>

record Cbuffer =
  cb_tag :: string
  cb_memPtr :: "mem option"
  cb_length :: nat
  cb_capacity :: nat
  cb_size :: nat
  cb_strategy :: BufferStrategy

definition CB_TAG :: string where
  "CB_TAG = ''CBUF''"

definition CB_CHECK_TAG_ONLY :: "Cbuffer \<Rightarrow> unit res" where
  "CB_CHECK_TAG_ONLY cb = check_tag CB_TAG (cb_tag cb)"

definition CB_CHECK_TAG :: "Cbuffer \<Rightarrow> mem res" where
  "CB_CHECK_TAG cb =
     rbind (check_tag CB_TAG (cb_tag cb)) (\<lambda>_.
     case cb_memPtr cb of None \<Rightarrow> Inl Assertion | Some m \<Rightarrow> Inr m)"

section \<open>Growth strategy\<close>

definition max_of_two :: "nat \<Rightarrow> nat \<Rightarrow> nat" where
  "max_of_two a b = (if a \<ge> b then a else b)"

definition min_of_two :: "nat \<Rightarrow> nat \<Rightarrow> nat" where
  "min_of_two a b = (if a \<le> b then a else b)"

definition BufferStrategy_allocate :: "BufferStrategy \<Rightarrow> nat \<Rightarrow> mem res" where
  "BufferStrategy_allocate bs required_size =
     rbind (c_assert (\<not> required_size > m_max_size bs)) (\<lambda>_.
     Inr (malloc_block (max_of_two required_size (m_min_size bs))))"

definition BufferStrategy_reallocate_size :: "BufferStrategy \<Rightarrow> nat \<Rightarrow> nat \<Rightarrow> nat res" where
  "BufferStrategy_reallocate_size bs current_capacity requested_new_size =
     rbind (c_assert (\<not> requested_new_size > m_max_size bs)) (\<lambda>_.
     Inr (max_of_two requested_new_size (min_of_two (m_max_size bs) (2 * current_capacity))))"

definition BufferStrategy_reallocate :: "BufferStrategy \<Rightarrow> mem \<Rightarrow> nat \<Rightarrow> mem res" where
  "BufferStrategy_reallocate bs current_mem new_size =
     rbind (c_assert (\<not> new_size > m_max_size bs)) (\<lambda>_. Inr (realloc_block current_mem new_size))"

definition common_strategy :: BufferStrategy where
  "common_strategy = \<lparr>m_min_size = 256, m_max_size = 1024 * 1024\<rparr>"

section \<open>Operations\<close>

definition Cbuffer_new :: "Cbuffer res" where
  "Cbuffer_new =
     (let tmp_cap = m_min_size common_strategy in
      rbind (BufferStrategy_allocate common_strategy tmp_cap) (\<lambda>m.
      Inr \<lparr>cb_tag = CB_TAG, cb_memPtr = Some m, cb_length = 0, cb_capacity = tmp_cap,
           cb_size = 0, cb_strategy = common_strategy\<rparr>))"

text \<open>Pointer to the start of the slab, seen as the bytes reachable from it.\<close>

definition Cbuffer_data :: "Cbuffer \<Rightarrow> mem res" where
  "Cbuffer_data cb = CB_CHECK_TAG cb"

definition Cbuffer_size :: "Cbuffer \<Rightarrow> nat res" where
  "Cbuffer_size cb = rbind (CB_CHECK_TAG cb) (\<lambda>_. Inr (cb_length cb))"

definition Cbuffer_cstr :: "Cbuffer \<Rightarrow> mem res" where
  "Cbuffer_cstr cb =
     rbind (CB_CHECK_TAG cb) (\<lambda>m.
     rbind (read_bytes m (cb_size cb) 1) (\<lambda>b.
     rbind (c_assert (b = [NUL])) (\<lambda>_. Inr m)))"

definition Cbuffer_capacity :: "Cbuffer \<Rightarrow> nat res" where
  "Cbuffer_capacity cb = rbind (CB_CHECK_TAG cb) (\<lambda>_. Inr (cb_capacity cb))"

text \<open>The next available position, as an offset into the slab.\<close>

definition Cbuffer_next_available :: "Cbuffer \<Rightarrow> nat res" where
  "Cbuffer_next_available cb = rbind (CB_CHECK_TAG cb) (\<lambda>_. Inr (cb_length cb))"

definition Cbuffer_clear :: "Cbuffer \<Rightarrow> Cbuffer res" where
  "Cbuffer_clear cb =
     rbind (CB_CHECK_TAG cb) (\<lambda>m.
     rbind (mem_write m 0 [Some NUL]) (\<lambda>m.
     Inr (cb\<lparr>cb_length := 0, cb_memPtr := Some m\<rparr>)))"

definition Cbuffer_grow :: "Cbuffer \<Rightarrow> nat \<Rightarrow> Cbuffer res" where
  "Cbuffer_grow cb len =
     rbind (CB_CHECK_TAG cb) (\<lambda>m.
     rbind (BufferStrategy_reallocate_size (cb_strategy cb) (cb_capacity cb) (cb_length cb + len)) (\<lambda>new_capacity.
     rbind (BufferStrategy_reallocate (cb_strategy cb) m new_capacity) (\<lambda>m.
     Inr (cb\<lparr>cb_memPtr := Some m, cb_capacity := new_capacity\<rparr>))))"

definition Cbuffer_append :: "Cbuffer \<Rightarrow> string \<Rightarrow> Cbuffer res" where
  "Cbuffer_append cb data =
     rbind (CB_CHECK_TAG cb) (\<lambda>_.
     let len = length data in
     if len = 0 then Inr cb
     else
       rbind (if cb_length cb + len \<ge> cb_capacity cb then Cbuffer_grow cb len else Inr cb) (\<lambda>cb.
       rbind (CB_CHECK_TAG cb) (\<lambda>m.
       rbind (Cbuffer_next_available cb) (\<lambda>na.
       rbind (mem_write m na (map Some data)) (\<lambda>m.
       let new_length = cb_length cb + len in
       rbind (mem_write m new_length [Some NUL]) (\<lambda>m.
       Inr (cb\<lparr>cb_memPtr := Some m, cb_length := new_length, cb_size := new_length\<rparr>)))))))"

definition Cbuffer_append_cstr :: "Cbuffer \<Rightarrow> string \<Rightarrow> Cbuffer res" where
  "Cbuffer_append_cstr cb cstr =
     rbind (CB_CHECK_TAG cb) (\<lambda>_. Cbuffer_append cb (c_str cstr))"

definition Cbuffer_from_cstring :: "string \<Rightarrow> Cbuffer res" where
  "Cbuffer_from_cstring s = rbind Cbuffer_new (\<lambda>cb. Cbuffer_append cb (c_str s))"

definition Cbuffer_setSize :: "Cbuffer \<Rightarrow> nat \<Rightarrow> Cbuffer res" where
  "Cbuffer_setSize cb n =
     rbind (CB_CHECK_TAG cb) (\<lambda>_. Inr (cb\<lparr>cb_length := n, cb_size := n\<rparr>))"

definition Cbuffer_toString :: "Cbuffer \<Rightarrow> mem res" where
  "Cbuffer_toString cb = CB_CHECK_TAG cb"

text \<open>\<open>Cbuffer_move dest src\<close> returns the pair of the new \<open>dest\<close> and the new \<open>src\<close>.\<close>

definition Cbuffer_move :: "Cbuffer \<Rightarrow> Cbuffer \<Rightarrow> (Cbuffer \<times> Cbuffer) res" where
  "Cbuffer_move dest src =
     rbind (CB_CHECK_TAG dest) (\<lambda>_.
     rbind (CB_CHECK_TAG src) (\<lambda>_.
     rbind (Cbuffer_clear dest) (\<lambda>dest.
     let tmp = dest; dest = src; src = tmp in
     rbind (Cbuffer_clear src) (\<lambda>src. Inr (dest, src)))))"

text \<open>
  \<open>Cbuffer_dispose\<close> frees the slab, if there is one, and the header; the result tells
  whether a slab was freed.
\<close>

definition Cbuffer_dispose :: "Cbuffer \<Rightarrow> bool res" where
  "Cbuffer_dispose cb = rbind (CB_CHECK_TAG_ONLY cb) (\<lambda>_. Inr (cb_memPtr cb \<noteq> None))"

text \<open>Whether the pointer with offset \<open>ptr\<close> from the start of the slab is inside it.\<close>

definition Cbuffer_contains_charptr :: "Cbuffer \<Rightarrow> int \<Rightarrow> bool res" where
  "Cbuffer_contains_charptr cb ptr =
     rbind (CB_CHECK_TAG cb) (\<lambda>_. Inr (ptr \<le> int (cb_capacity cb) \<and> ptr \<ge> 0))"

definition Cbuffer_contains_voidptr :: "Cbuffer \<Rightarrow> int \<Rightarrow> bool res" where
  "Cbuffer_contains_voidptr cb ptr =
     rbind (CB_CHECK_TAG cb) (\<lambda>_. Cbuffer_contains_charptr cb ptr)"

section \<open>Representation invariant\<close>

text \<open>
  \<open>cb_fresh\<close>: as \<open>Cbuffer_new\<close> left it, nothing written.  \<open>cb_terminated\<close>: the byte after
  the used portion and the byte at \<open>m_size\<close> are \<open>NUL\<close>.
\<close>

definition cb_mem :: "Cbuffer \<Rightarrow> mem" where
  "cb_mem cb = (case cb_memPtr cb of None \<Rightarrow> [] | Some m \<Rightarrow> m)"

definition cb_content :: "Cbuffer \<Rightarrow> string" where
  "cb_content cb = map (\<lambda>c. case c of Some b \<Rightarrow> b | None \<Rightarrow> NUL) (take (cb_length cb) (cb_mem cb))"

definition cb_fresh :: "Cbuffer \<Rightarrow> bool" where
  "cb_fresh cb \<longleftrightarrow> cb_length cb = 0 \<and> cb_size cb = 0 \<and> cb_mem cb ! 0 = None"

definition cb_terminated :: "Cbuffer \<Rightarrow> bool" where
  "cb_terminated cb \<longleftrightarrow>
     cb_mem cb ! cb_length cb = Some NUL \<and> cb_mem cb ! cb_size cb = Some NUL"

definition cb_wf :: "Cbuffer \<Rightarrow> bool" where
  "cb_wf cb \<longleftrightarrow>
     cb_tag cb = CB_TAG \<and> cb_strategy cb = common_strategy \<and> cb_memPtr cb \<noteq> None \<and>
     length (cb_mem cb) = cb_capacity cb \<and>
     256 \<le> cb_capacity cb \<and> cb_capacity cb \<le> 1024 * 1024 \<and>
     cb_length cb < cb_capacity cb \<and> cb_size cb < cb_capacity cb \<and>
     (\<forall>i < cb_length cb. cb_mem cb ! i \<noteq> None) \<and>
     (cb_fresh cb \<or> cb_terminated cb)"

text \<open>The appends the code carries out inside the slab.\<close>

definition cb_fits :: "Cbuffer \<Rightarrow> nat \<Rightarrow> bool" where
  "cb_fits cb n \<longleftrightarrow> n = 0 \<or> cb_length cb + n < cb_capacity cb \<or>
     cb_length cb + n < min (1024 * 1024) (2 * cb_capacity cb)"


section \<open>The operations keep the invariant\<close>

lemma cb_wf_check: "cb_wf cb \<Longrightarrow> CB_CHECK_TAG cb = Inr (cb_mem cb)"
  by (auto simp: cb_wf_def CB_CHECK_TAG_def cb_mem_def)

lemma cb_content_length: "cb_wf cb \<Longrightarrow> length (cb_content cb) = cb_length cb"
  by (simp add: cb_wf_def cb_content_def)

lemma cb_content_cells: "cb_wf cb \<Longrightarrow> take (cb_length cb) (cb_mem cb) = map Some (cb_content cb)"
  by (rule nth_equalityI) (auto simp: cb_wf_def cb_content_def split: option.split)

lemma cb_contentI: "take (cb_length cb) (cb_mem cb) = map Some t \<Longrightarrow> cb_content cb = t"
  by (simp add: cb_content_def comp_def)

lemma Cbuffer_new_eq:
  "Cbuffer_new = Inr \<lparr>cb_tag = CB_TAG, cb_memPtr = Some (malloc_block 256), cb_length = 0,
     cb_capacity = 256, cb_size = 0, cb_strategy = common_strategy\<rparr>"
  by (simp add: Cbuffer_new_def BufferStrategy_allocate_def common_strategy_def max_of_two_def)

lemma Cbuffer_new_wf:
  "\<exists>cb. Cbuffer_new = Inr cb \<and> cb_wf cb \<and> cb_content cb = [] \<and> cb_capacity cb = 256 \<and> cb_fresh cb"
  by (simp add: Cbuffer_new_eq cb_wf_def cb_content_def cb_mem_def cb_fresh_def malloc_block_def)

text \<open>Two stores inside the slab: the data, then the terminator.\<close>

lemma two_stores:
  assumes "take n m = map Some t" and "n = length t" and "n + length s < length m"
  shows "\<exists>m1 m2. mem_write m n (map Some s) = Inr m1 \<and>
     mem_write m1 (n + length s) [Some NUL] = Inr m2 \<and> length m2 = length m \<and>
     take (n + length s) m2 = map Some (t @ s) \<and> m2 ! (n + length s) = Some NUL"
  using assms by (auto simp: mem_write_def min_def nth_append)

lemma cb_wf_store:
  assumes "cb_tag cb = CB_TAG" and "cb_strategy cb = common_strategy" and "length m = cb_capacity cb"
    and "256 \<le> cb_capacity cb" and "cb_capacity cb \<le> 1024 * 1024" and "n < cb_capacity cb"
    and "take n m = map Some t" and "m ! n = Some NUL"
  shows "cb_wf (cb\<lparr>cb_memPtr := Some m, cb_length := n, cb_size := n\<rparr>) \<and>
         cb_content (cb\<lparr>cb_memPtr := Some m, cb_length := n, cb_size := n\<rparr>) = t \<and>
         cb_terminated (cb\<lparr>cb_memPtr := Some m, cb_length := n, cb_size := n\<rparr>)"
proof -
  have "m ! i \<noteq> None" if "i < n" for i
  proof -
    have "take n m ! i = map Some t ! i" using assms(7) by simp
    moreover have "length t = n" using assms(3,6,7) by (metis length_map length_take min.absorb4)
    ultimately show ?thesis using that by simp
  qed
  with assms show ?thesis
    by (auto simp: cb_wf_def cb_terminated_def cb_mem_def intro!: cb_contentI)
qed

lemma Cbuffer_grow_ok:
  assumes wf: "cb_wf cb" and req: "cb_length cb + n \<le> 1024 * 1024"
    and big: "cb_capacity cb \<le> cb_length cb + n"
  shows "Cbuffer_grow cb n =
     (let c = max (cb_length cb + n) (min (1024 * 1024) (2 * cb_capacity cb)) in
      Inr (cb\<lparr>cb_memPtr := Some (realloc_block (cb_mem cb) c), cb_capacity := c\<rparr>))"
  using assms unfolding Cbuffer_grow_def cb_wf_check [OF wf]
  by (auto simp: cb_wf_def BufferStrategy_reallocate_size_def BufferStrategy_reallocate_def
      common_strategy_def max_of_two_def min_of_two_def max_def min_def Let_def)

lemma Cbuffer_append_Nil: "cb_wf cb \<Longrightarrow> Cbuffer_append cb [] = Inr cb"
  by (simp add: Cbuffer_append_def cb_wf_check)

text \<open>Appending to a buffer whose slab has room for the data and the terminator.\<close>

lemma store_ok:
  assumes "cb_tag cb = CB_TAG" and "cb_strategy cb = common_strategy"
    and "cb_memPtr cb = Some m" and "length m = cb_capacity cb"
    and "256 \<le> cb_capacity cb" and "cb_capacity cb \<le> 1024 * 1024"
    and "take (cb_length cb) m = map Some t" and "cb_length cb + length s < cb_capacity cb"
  shows "\<exists>cb'. rbind (CB_CHECK_TAG cb) (\<lambda>m.
       rbind (Cbuffer_next_available cb) (\<lambda>na.
       rbind (mem_write m na (map Some s)) (\<lambda>m.
       rbind (mem_write m (cb_length cb + length s) [Some NUL]) (\<lambda>m.
       Inr (cb\<lparr>cb_memPtr := Some m, cb_length := cb_length cb + length s,
               cb_size := cb_length cb + length s\<rparr>))))) = Inr cb' \<and>
     cb_wf cb' \<and> cb_content cb' = t @ s \<and> cb_terminated cb' \<and> cb_capacity cb' = cb_capacity cb"
proof -
  have "cb_length cb = length t" using assms(4,7,8) by (metis add_lessD1 length_map length_take min.absorb4)
  from two_stores [OF assms(7) this, of s] assms(4,8) obtain m1 m2 where
    m: "mem_write m (cb_length cb) (map Some s) = Inr m1"
      "mem_write m1 (cb_length cb + length s) [Some NUL] = Inr m2" "length m2 = length m"
      "take (cb_length cb + length s) m2 = map Some (t @ s)"
      "m2 ! (cb_length cb + length s) = Some NUL" by auto
  have "cb_wf (cb\<lparr>cb_memPtr := Some m2, cb_length := cb_length cb + length s,
                  cb_size := cb_length cb + length s\<rparr>) \<and>
        cb_content (cb\<lparr>cb_memPtr := Some m2, cb_length := cb_length cb + length s,
                  cb_size := cb_length cb + length s\<rparr>) = t @ s \<and>
        cb_terminated (cb\<lparr>cb_memPtr := Some m2, cb_length := cb_length cb + length s,
                  cb_size := cb_length cb + length s\<rparr>)"
    by (rule cb_wf_store) (use assms m in auto)
  then show ?thesis using assms(1,3) m by (simp add: CB_CHECK_TAG_def Cbuffer_next_available_def)
qed

lemma Cbuffer_append_ok:
  assumes wf: "cb_wf cb" and fits: "cb_fits cb (length s)"
  shows "\<exists>cb'. Cbuffer_append cb s = Inr cb' \<and> cb_wf cb' \<and> cb_content cb' = cb_content cb @ s \<and>
     (s \<noteq> [] \<longrightarrow> cb_terminated cb') \<and> cb_capacity cb \<le> cb_capacity cb'"
proof (cases "s = []")
  case True
  then show ?thesis using wf by (simp add: Cbuffer_append_Nil)
next
  case False
  define c where "c = max (cb_length cb + length s) (min (1024 * 1024) (2 * cb_capacity cb))"
  define cb1 where "cb1 = (if cb_length cb + length s \<ge> cb_capacity cb
    then cb\<lparr>cb_memPtr := Some (realloc_block (cb_mem cb) c), cb_capacity := c\<rparr> else cb)"
  define m1 where "m1 = (if cb_length cb + length s \<ge> cb_capacity cb
    then realloc_block (cb_mem cb) c else cb_mem cb)"
  have grow: "(if cb_length cb + length s \<ge> cb_capacity cb then Cbuffer_grow cb (length s) else Inr cb)
              = Inr cb1"
    using Cbuffer_grow_ok [OF wf, of "length s"] fits False
    by (auto simp: cb1_def c_def cb_fits_def Let_def)
  have len1: "cb_length cb1 = cb_length cb" by (simp add: cb1_def)
  have "cb_memPtr cb = Some (cb_mem cb)" using wf by (auto simp: cb_wf_def cb_mem_def)
  then have mem1: "cb_memPtr cb1 = Some m1" by (simp add: cb1_def m1_def)
  have cap1: "cb_length cb1 + length s < cb_capacity cb1" "cb_capacity cb \<le> cb_capacity cb1"
      "length m1 = cb_capacity cb1" "256 \<le> cb_capacity cb1" "cb_capacity cb1 \<le> 1024 * 1024"
    using wf fits False by (auto simp: cb1_def m1_def c_def cb_fits_def cb_wf_def)
  have take1: "take (cb_length cb1) m1 = map Some (cb_content cb)"
    using cb_content_cells [OF wf] wf cap1(3)
    by (auto simp: m1_def len1 take_realloc_block cb_wf_def c_def)
  have tag1: "cb_tag cb1 = CB_TAG" and strat1: "cb_strategy cb1 = common_strategy"
    using wf by (auto simp: cb1_def cb_wf_def)
  from store_ok [OF tag1 strat1 mem1 cap1(3) cap1(4) cap1(5) take1 cap1(1)] obtain cb' where cb':
    "rbind (CB_CHECK_TAG cb1) (\<lambda>m.
       rbind (Cbuffer_next_available cb1) (\<lambda>na.
       rbind (mem_write m na (map Some s)) (\<lambda>m.
       rbind (mem_write m (cb_length cb1 + length s) [Some NUL]) (\<lambda>m.
       Inr (cb1\<lparr>cb_memPtr := Some m, cb_length := cb_length cb1 + length s,
               cb_size := cb_length cb1 + length s\<rparr>))))) = Inr cb'"
    "cb_wf cb'" "cb_content cb' = cb_content cb @ s" "cb_terminated cb'" "cb_capacity cb' = cb_capacity cb1"
    by blast
  then show ?thesis
    using False wf grow cap1(2) by (auto simp: Cbuffer_append_def cb_wf_check Let_def)
qed

lemma Cbuffer_append_overrun:
  assumes wf: "cb_wf cb" and "\<not> cb_fits cb (length s)" and "cb_length cb + length s \<le> 1024 * 1024"
  shows "Cbuffer_append cb s = Inl MemFault"
proof -
  let ?n = "cb_length cb + length s"
  have big: "s \<noteq> []" "cb_capacity cb \<le> ?n" "min (1024 * 1024) (2 * cb_capacity cb) \<le> ?n"
    using assms(2) by (auto simp: cb_fits_def)
  then have c: "max ?n (min (1024 * 1024) (2 * cb_capacity cb)) = ?n" by simp
  have "Cbuffer_grow cb (length s) =
        Inr (cb\<lparr>cb_memPtr := Some (realloc_block (cb_mem cb) ?n), cb_capacity := ?n\<rparr>)"
    using Cbuffer_grow_ok [OF wf assms(3) big(2)] c by (simp add: Let_def)
  then show ?thesis
    using big wf
    by (auto simp: Cbuffer_append_def cb_wf_check CB_CHECK_TAG_def Cbuffer_next_available_def
        mem_write_def cb_wf_def Let_def)
qed

lemma Cbuffer_append_too_big:
  assumes wf: "cb_wf cb" and "cb_length cb + length s > 1024 * 1024"
  shows "Cbuffer_append cb s = Inl Assertion"
proof -
  have "s \<noteq> []" "cb_capacity cb \<le> cb_length cb + length s" using assms by (auto simp: cb_wf_def)
  moreover have "Cbuffer_grow cb (length s) = Inl Assertion"
    using assms unfolding Cbuffer_grow_def cb_wf_check [OF wf]
    by (simp add: cb_wf_def BufferStrategy_reallocate_size_def common_strategy_def)
  ultimately show ?thesis using wf by (simp add: Cbuffer_append_def cb_wf_check Let_def)
qed

lemma Cbuffer_append_Inr_iff:
  assumes "cb_wf cb"
  shows "(\<exists>cb'. Cbuffer_append cb s = Inr cb') \<longleftrightarrow> cb_fits cb (length s)"
  using Cbuffer_append_ok [OF assms] Cbuffer_append_overrun [OF assms] Cbuffer_append_too_big [OF assms]
  by (metis not_le_imp_less old.sum.distinct(1))

lemma Cbuffer_append_InrD:
  assumes "cb_wf cb" and "Cbuffer_append cb s = Inr cb'"
  shows "cb_wf cb' \<and> cb_content cb' = cb_content cb @ s \<and> (s \<noteq> [] \<longrightarrow> cb_terminated cb')"
  using Cbuffer_append_Inr_iff [OF assms(1), of s] Cbuffer_append_ok [OF assms(1), of s] assms(2) by auto

interpretation cbuf: byte_store cb_wf cb_content Cbuffer_append
  by unfold_locales (auto dest: Cbuffer_append_InrD)

lemma Cbuffer_clear_ok:
  assumes wf: "cb_wf cb"
  shows "\<exists>cb'. Cbuffer_clear cb = Inr cb' \<and> cb_wf cb' \<and> cb_content cb' = [] \<and> cb_terminated cb' \<and>
     cb_capacity cb' = cb_capacity cb"
proof -
  have m: "cb_mem cb \<noteq> []" using wf by (auto simp: cb_wf_def)
  then have w: "mem_write (cb_mem cb) 0 [Some NUL] = Inr (Some NUL # tl (cb_mem cb))"
    by (cases "cb_mem cb") (auto simp: mem_write_def)
  have nth: "(Some NUL # tl (cb_mem cb)) ! i = (if i = 0 then Some NUL else cb_mem cb ! i)" for i
    using m by (cases "cb_mem cb"; cases i) auto
  have len: "Suc (length (cb_mem cb) - Suc 0) = length (cb_mem cb)" using m by (cases "cb_mem cb") auto
  show ?thesis
    using wf w nth len
    by (auto simp: Cbuffer_clear_def cb_wf_check cb_wf_def cb_mem_def cb_content_def
        cb_terminated_def cb_fresh_def)
qed

lemma Cbuffer_size_ok: "cb_wf cb \<Longrightarrow> Cbuffer_size cb = Inr (length (cb_content cb))"
  by (simp add: Cbuffer_size_def cb_wf_check cb_content_length)

text \<open>Reading the buffer back: by pointer and length, and as a C string.\<close>

lemma cb_read_back: "cb_wf cb \<Longrightarrow> read_bytes (cb_mem cb) 0 (cb_length cb) = Inr (cb_content cb)"
  using cb_content_cells [of cb] by (auto simp: read_bytes_def mem_read_def cb_wf_def)

lemma cb_terminated_cstr:
  assumes wf: "cb_wf cb" and t: "cb_terminated cb"
  shows "cstr_of (cb_mem cb) = Inr (c_str (cb_content cb))"
proof -
  have "cb_mem cb = take (cb_length cb) (cb_mem cb) @ cb_mem cb ! cb_length cb #
        drop (Suc (cb_length cb)) (cb_mem cb)"
    using wf by (intro id_take_nth_drop) (simp add: cb_wf_def)
  also have "\<dots> = map Some (cb_content cb) @ Some NUL # drop (Suc (cb_length cb)) (cb_mem cb)"
    using cb_content_cells [OF wf] t by (simp add: cb_terminated_def)
  finally show ?thesis by (metis cstr_of_append)
qed

lemma Cbuffer_cstr_ok:
  assumes wf: "cb_wf cb" and t: "cb_terminated cb"
  shows "Cbuffer_cstr cb = Inr (cb_mem cb)"
proof -
  have "cb_size cb < length (cb_mem cb)" using wf by (simp add: cb_wf_def)
  moreover from this have "take 1 (drop (cb_size cb) (cb_mem cb)) = [Some NUL]"
    using t by (simp add: cb_terminated_def take_Suc hd_drop_conv_nth)
  ultimately show ?thesis
    using wf by (simp add: Cbuffer_cstr_def cb_wf_check read_bytes_def mem_read_def)
qed

section \<open>Properties\<close>

text \<open>
  C16: The exact outcome of an append to a well-formed buffer.  When the new length stays below
  the capacity, or below the capacity the growth strategy gives, the bytes are added, the buffer
  is terminated and stays well formed.  When the new length reaches that capacity but not the
  maximum, the terminator is stored one byte past the slab.  Above the maximum the assertion of
  the growth strategy stops the program.
\<close>

theorem Cbuffer_append_outcome:
  assumes "cb_wf cb"
  shows "case Cbuffer_append cb s of
       Inr cb' \<Rightarrow> cb_fits cb (length s) \<and> cb_wf cb' \<and> cb_content cb' = cb_content cb @ s \<and>
                  (s \<noteq> [] \<longrightarrow> cb_terminated cb')
     | Inl e \<Rightarrow> \<not> cb_fits cb (length s) \<and>
                (if cb_length cb + length s \<le> 1024 * 1024 then e = MemFault else e = Assertion)"
proof (cases "cb_fits cb (length s)")
  case True
  then show ?thesis using Cbuffer_append_ok [OF assms True] by auto
next
  case False
  show ?thesis
  proof (cases "cb_length cb + length s \<le> 1024 * 1024")
    case True
    then show ?thesis using Cbuffer_append_overrun [OF assms False True] False by simp
  next
    case big: False
    then show ?thesis using Cbuffer_append_too_big [OF assms] False by simp
  qed
qed

lemma cb_new_facts:
  assumes "Cbuffer_new = Inr cb"
  shows "cb_wf cb \<and> cb_content cb = [] \<and> cb_capacity cb = 256 \<and> cb_fresh cb \<and> cb_length cb = 0"
proof -
  obtain c where c: "Cbuffer_new = Inr c" "cb_wf c" "cb_content c = []" "cb_capacity c = 256" "cb_fresh c"
    using Cbuffer_new_wf by blast
  have "c = cb" using c(1) assms by (metis sum.inject(2))
  then show ?thesis using c cb_content_length [OF c(2)] by auto
qed

theorem Cbuffer_append_outcome_witness:
  "\<exists>cb. Cbuffer_new = Inr cb \<and> (case Cbuffer_append cb (replicate 512 (CHR ''a'')) of
       Inr cb' \<Rightarrow> False | Inl e \<Rightarrow> e = MemFault)"
proof -
  obtain cb where cb: "Cbuffer_new = Inr cb" using Cbuffer_new_wf by blast
  note f = cb_new_facts [OF cb]
  then have "\<not> cb_fits cb 512" by (simp add: cb_fits_def)
  with Cbuffer_append_outcome [of cb "replicate 512 (CHR ''a'')"] f cb show ?thesis
    by (auto split: sum.splits if_splits)
qed

text \<open>
  Appending a run of fragments, when it succeeds, adds their concatenation: how the bytes
  were cut into fragments cannot be seen in the content.
\<close>

theorem Cbuffer_fragments:
  assumes "cb_wf cb" and "rfold (\<lambda>s cb. Cbuffer_append cb s) ss cb = Inr cb'"
  shows "cb_content cb' = cb_content cb @ concat ss \<and> cb_wf cb'"
  by (rule cbuf.fragments_content [OF assms])

theorem Cbuffer_fragments_witness:
  "\<exists>cb cb'. Cbuffer_new = Inr cb \<and> rfold (\<lambda>s cb. Cbuffer_append cb s) [''GET'', '' '', ''/''] cb = Inr cb' \<and>
     cb_content cb' = ''GET /''"
proof -
  obtain cb where cb: "Cbuffer_new = Inr cb" using Cbuffer_new_wf by blast
  obtain cb' where r: "rfold (\<lambda>s cb. Cbuffer_append cb s) [''GET'', '' '', ''/''] cb = Inr cb'"
    using cb unfolding Cbuffer_new_eq
    by (auto simp: Cbuffer_append_def CB_CHECK_TAG_def Cbuffer_next_available_def mem_write_def malloc_block_def Let_def)
  with Cbuffer_fragments [of cb, OF _ r] cb_new_facts [OF cb] cb show ?thesis by auto
qed

lemma Cbuffer_move_ok:
  assumes d: "cb_wf dest" and s: "cb_wf src"
  shows "\<exists>dest' src'. Cbuffer_move dest src = Inr (dest', src') \<and> cb_wf dest' \<and> cb_wf src' \<and>
     cb_content dest' = cb_content src \<and> cb_content src' = []"
proof -
  obtain d1 where d1: "Cbuffer_clear dest = Inr d1" "cb_wf d1" using Cbuffer_clear_ok [OF d] by blast
  obtain d2 where d2: "Cbuffer_clear d1 = Inr d2" "cb_wf d2" "cb_content d2 = []"
    using Cbuffer_clear_ok [OF d1(2)] by blast
  then show ?thesis using d s d1 by (simp add: Cbuffer_move_def cb_wf_check Let_def)
qed

end
