(* ===== verification/CH_IOBuffer.thy ===== *)
theory CH_IOBuffer
  imports CH_Cbuffer
begin

text \<open>
  The input/output buffer of \<open>src/http_in_c/common/iobuffer.c\<close>: one block of fixed size, a
  start pointer and a count of active bytes.  Pointers into the block are offsets from its
  start; they, and the \<open>int\<close> fields, are integers, since a caller may pass a negative count.
  Sizes stay far from the limits of \<open>int\<close>, so its overflow is not modelled.
\<close>

section \<open>Data\<close>

record IOBuffer =
  iob_tag :: string
  iob_mem :: mem
  iob_char_p :: int
  iob_allocated_capacity :: int
  iob_capacity :: int
  iob_ptr :: int
  iob_length :: int
  iob_remaining :: int

definition IOBuffer_TAG :: string where
  "IOBuffer_TAG = ''IOBUFF''"

definition IOB_CHECK :: "IOBuffer \<Rightarrow> unit res" where
  "IOB_CHECK b = check_tag IOBuffer_TAG (iob_tag b)"

definition IOBUFFER_DEFAULT_CAPACITY :: int where
  "IOBUFFER_DEFAULT_CAPACITY = 4 * 1024"

text \<open>Stores and loads at a pointer that may lie before the block.\<close>

definition mem_write_at :: "mem \<Rightarrow> int \<Rightarrow> cell list \<Rightarrow> mem res" where
  "mem_write_at m off bs = (if off < 0 then Inl MemFault else mem_write m (nat off) bs)"

definition mem_read_at :: "mem \<Rightarrow> int \<Rightarrow> int \<Rightarrow> cell list res" where
  "mem_read_at m off n = (if off < 0 \<or> n < 0 then Inl MemFault else mem_read m (nat off) (nat n))"

section \<open>Operations\<close>

definition IOBuffer_init :: "int \<Rightarrow> IOBuffer" where
  "IOBuffer_init capacity =
     \<lparr>iob_tag = IOBuffer_TAG, iob_mem = malloc_block (nat (capacity + 1)), iob_char_p = 0,
      iob_allocated_capacity = capacity + 1, iob_capacity = capacity, iob_ptr = 0,
      iob_length = capacity, iob_remaining = 0\<rparr>"

definition IOBuffer_new_with_capacity :: "int \<Rightarrow> IOBuffer" where
  "IOBuffer_new_with_capacity capacity = IOBuffer_init capacity"

definition IOBuffer_new :: IOBuffer where
  "IOBuffer_new = IOBuffer_new_with_capacity IOBUFFER_DEFAULT_CAPACITY"

definition IOBuffer_data :: "IOBuffer \<Rightarrow> int res" where
  "IOBuffer_data b = rbind (IOB_CHECK b) (\<lambda>_. Inr (iob_ptr b))"

definition IOBuffer_data_len :: "IOBuffer \<Rightarrow> int res" where
  "IOBuffer_data_len b = rbind (IOB_CHECK b) (\<lambda>_. Inr (iob_remaining b))"

definition IOBuffer_cstr :: "IOBuffer \<Rightarrow> int res" where
  "IOBuffer_cstr b = rbind (IOB_CHECK b) (\<lambda>_. Inr (iob_ptr b))"

definition IOBuffer_space :: "IOBuffer \<Rightarrow> int res" where
  "IOBuffer_space b = rbind (IOB_CHECK b) (\<lambda>_. Inr (iob_ptr b + iob_remaining b))"

definition IOBuffer_space_len :: "IOBuffer \<Rightarrow> int res" where
  "IOBuffer_space_len b =
     rbind (IOB_CHECK b) (\<lambda>_. Inr (iob_capacity b - (iob_ptr b + iob_remaining b)))"

text \<open>\<open>IOBuffer_commit\<close> stores the terminator at \<open>mem_p + buffer_remaining\<close>, as the code does.\<close>

definition IOBuffer_commit :: "IOBuffer \<Rightarrow> int \<Rightarrow> IOBuffer res" where
  "IOBuffer_commit b bytes_used =
     rbind (IOB_CHECK b) (\<lambda>_.
     rbind (c_assert (bytes_used > 0)) (\<lambda>_.
     let remaining = iob_remaining b + bytes_used in
     rbind (mem_write_at (iob_mem b) remaining [Some NUL]) (\<lambda>m.
     Inr (b\<lparr>iob_remaining := remaining, iob_mem := m\<rparr>))))"

text \<open>The copy of \<open>len\<close> cells to the space of the buffer, and the commit of them.\<close>

definition iob_fill :: "IOBuffer \<Rightarrow> cell list \<Rightarrow> IOBuffer res" where
  "iob_fill b cs =
     rbind (IOBuffer_space b) (\<lambda>p.
     rbind (mem_write_at (iob_mem b) p cs) (\<lambda>m.
     IOBuffer_commit (b\<lparr>iob_mem := m\<rparr>) (int (length cs))))"

definition IOBuffer_data_add :: "IOBuffer \<Rightarrow> cell list \<Rightarrow> IOBuffer res" where
  "IOBuffer_data_add b p =
     rbind (IOB_CHECK b) (\<lambda>_.
     rbind (IOBuffer_space b) (\<lambda>memp.
     rbind (IOBuffer_space_len b) (\<lambda>mem_len.
     rbind (c_assert (mem_len \<ge> int (length p))) (\<lambda>_.
     rbind (mem_write_at (iob_mem b) memp p) (\<lambda>m.
     IOBuffer_commit (b\<lparr>iob_mem := m\<rparr>) (int (length p)))))))"

definition IOBuffer_from_cbuffer :: "Cbuffer \<Rightarrow> IOBuffer res" where
  "IOBuffer_from_cbuffer cbuf =
     rbind (Cbuffer_size cbuf) (\<lambda>cap.
     let this = IOBuffer_new_with_capacity (int cap * 2) in
     rbind (Cbuffer_data cbuf) (\<lambda>m.
     rbind (mem_read m 0 cap) (\<lambda>cs. iob_fill this cs)))"

definition IOBuffer_from_buf :: "string \<Rightarrow> IOBuffer res" where
  "IOBuffer_from_buf buf =
     iob_fill (IOBuffer_new_with_capacity (int (length buf) * 2)) (map Some buf)"

definition IOBuffer_from_cstring :: "string \<Rightarrow> IOBuffer res" where
  "IOBuffer_from_cstring cstr = IOBuffer_from_buf (c_str cstr)"

definition IOBuffer_dup :: "IOBuffer \<Rightarrow> IOBuffer res" where
  "IOBuffer_dup b =
     rbind (IOB_CHECK b) (\<lambda>_.
     let new = IOBuffer_new_with_capacity (iob_capacity b);
         new = new\<lparr>iob_capacity := iob_capacity b,
                    iob_allocated_capacity := iob_allocated_capacity b,
                    iob_remaining := iob_remaining b\<rparr> in
     rbind (mem_read_at (iob_mem b) 0 (iob_allocated_capacity b)) (\<lambda>cs.
     rbind (mem_write_at (iob_mem new) 0 cs) (\<lambda>m.
     Inr (new\<lparr>iob_mem := m, iob_ptr := iob_ptr b, iob_char_p := iob_ptr b\<rparr>))))"

definition IOBuffer_consolidate_space :: "IOBuffer \<Rightarrow> IOBuffer res" where
  "IOBuffer_consolidate_space b =
     rbind (IOB_CHECK b) (\<lambda>_.
     let tmp = IOBuffer_new_with_capacity (iob_capacity b) in
     rbind (IOBuffer_data b) (\<lambda>p.
     rbind (IOBuffer_data_len b) (\<lambda>n.
     rbind (mem_read_at (iob_mem b) p n) (\<lambda>cs.
     rbind (IOBuffer_data_add tmp cs) (\<lambda>tmp.
     Inr (b\<lparr>iob_mem := iob_mem tmp, iob_ptr := iob_ptr tmp, iob_remaining := iob_remaining tmp,
            iob_capacity := iob_capacity tmp,
            iob_allocated_capacity := iob_allocated_capacity tmp, iob_char_p := 0\<rparr>))))))"

definition IOBuffer_consume :: "IOBuffer \<Rightarrow> int \<Rightarrow> IOBuffer res" where
  "IOBuffer_consume b byte_count =
     rbind (IOB_CHECK b) (\<lambda>_.
     let ptr = iob_ptr b + byte_count in
     rbind (c_assert (ptr \<le> iob_capacity b)) (\<lambda>_.
     let remaining = iob_remaining b - byte_count in
     rbind (c_assert (remaining \<ge> 0)) (\<lambda>_.
     Inr (b\<lparr>iob_ptr := (if remaining = 0 then 0 else ptr), iob_remaining := remaining\<rparr>))))"

definition IOBuffer_reset :: "IOBuffer \<Rightarrow> IOBuffer res" where
  "IOBuffer_reset b = rbind (IOB_CHECK b) (\<lambda>_. Inr (b\<lparr>iob_ptr := 0, iob_remaining := 0\<rparr>))"

definition IOBuffer_empty :: "IOBuffer \<Rightarrow> bool res" where
  "IOBuffer_empty b = rbind (IOB_CHECK b) (\<lambda>_. Inr (iob_remaining b = 0))"

definition IOBuffer_memptr :: "IOBuffer \<Rightarrow> mem res" where
  "IOBuffer_memptr b = rbind (IOB_CHECK b) (\<lambda>_. Inr (iob_mem b))"

text \<open>
  The three ways to release a buffer check the tag and free the block (and the header); the
  pointer that \<open>IOBuffer_dispose\<close> takes by reference becomes \<open>NULL\<close>.
\<close>

definition IOBuffer_destroy :: "IOBuffer \<Rightarrow> unit res" where
  "IOBuffer_destroy b = IOB_CHECK b"

definition IOBuffer_free :: "IOBuffer \<Rightarrow> unit res" where
  "IOBuffer_free b = IOB_CHECK b"

definition IOBuffer_dispose :: "IOBuffer \<Rightarrow> IOBuffer option res" where
  "IOBuffer_dispose p = rbind (IOB_CHECK p) (\<lambda>_. rbind (IOBuffer_destroy p) (\<lambda>_. Inr None))"

text \<open>\<open>strncmp(a, b, n) == 0\<close> on two blocks.\<close>

fun strncmp_eq :: "cell list \<Rightarrow> cell list \<Rightarrow> nat \<Rightarrow> bool res" where
  "strncmp_eq a b 0 = Inr True"
| "strncmp_eq (Some x # a) (Some y # b) (Suc n) =
     (if x \<noteq> y then Inr False else if x = NUL then Inr True else strncmp_eq a b n)"
| "strncmp_eq [] b (Suc n) = Inl MemFault"
| "strncmp_eq (x # a) [] (Suc n) = Inl MemFault"
| "strncmp_eq (None # a) (y # b) (Suc n) = Inl UninitRead"
| "strncmp_eq (Some x # a) (None # b) (Suc n) = Inl UninitRead"

definition IOBuffer_equal :: "IOBuffer \<Rightarrow> IOBuffer \<Rightarrow> bool res" where
  "IOBuffer_equal a b =
     rbind (IOB_CHECK a) (\<lambda>_.
     rbind (IOB_CHECK b) (\<lambda>_.
     rbind (IOBuffer_data_len a) (\<lambda>lena.
     rbind (IOBuffer_data_len b) (\<lambda>lenb.
     rbind (IOBuffer_data a) (\<lambda>a_p.
     rbind (IOBuffer_data b) (\<lambda>b_p.
     if lena \<noteq> lenb then Inr False
     else strncmp_eq (drop (nat a_p) (iob_mem a)) (drop (nat b_p) (iob_mem b)) (nat lena)))))))"

section \<open>Representation invariant\<close>

definition iob_cells :: "IOBuffer \<Rightarrow> cell list" where
  "iob_cells b = take (nat (iob_remaining b)) (drop (nat (iob_ptr b)) (iob_mem b))"

definition iob_content :: "IOBuffer \<Rightarrow> string" where
  "iob_content b = map (case_option NUL id) (iob_cells b)"

definition iob_wf :: "IOBuffer \<Rightarrow> bool" where
  "iob_wf b \<longleftrightarrow>
     iob_tag b = IOBuffer_TAG \<and> 0 \<le> iob_capacity b \<and>
     iob_allocated_capacity b = iob_capacity b + 1 \<and>
     length (iob_mem b) = nat (iob_allocated_capacity b) \<and>
     0 \<le> iob_ptr b \<and> 0 \<le> iob_remaining b \<and> iob_ptr b + iob_remaining b \<le> iob_capacity b \<and>
     None \<notin> set (iob_cells b)"


section \<open>The operations keep the invariant\<close>

lemma iob_wf_check: "iob_wf b \<Longrightarrow> IOB_CHECK b = Inr ()"
  by (simp add: iob_wf_def IOB_CHECK_def)

lemma iob_cells_content: "None \<notin> set (iob_cells b) \<Longrightarrow> iob_cells b = map Some (iob_content b)"
  unfolding iob_content_def map_map
  by (rule map_idI [symmetric]) (metis comp_apply id_apply option.case(2) option.exhaust)

lemma iob_contentI: "iob_cells b = map Some s \<Longrightarrow> iob_content b = s"
  by (simp add: iob_content_def comp_def)

lemma iob_content_length: "iob_wf b \<Longrightarrow> length (iob_content b) = nat (iob_remaining b)"
  by (auto simp: iob_wf_def iob_content_def iob_cells_def)

lemma mem_write_one: "i < length m \<Longrightarrow> mem_write m i [c] = Inr (m[i := c])"
  by (simp add: mem_write_def upd_conv_take_nth_drop)

lemma IOBuffer_init_wf:
  "0 \<le> n \<Longrightarrow> iob_wf (IOBuffer_init n) \<and> iob_content (IOBuffer_init n) = [] \<and>
   iob_capacity (IOBuffer_init n) = n \<and> iob_ptr (IOBuffer_init n) = 0 \<and>
   iob_remaining (IOBuffer_init n) = 0"
  by (simp add: iob_wf_def IOBuffer_init_def iob_content_def iob_cells_def)

lemmas IOBuffer_new_with_capacity_wf = IOBuffer_init_wf [folded IOBuffer_new_with_capacity_def]

lemma IOBuffer_new_wf: "iob_wf IOBuffer_new \<and> iob_content IOBuffer_new = []"
  by (simp add: IOBuffer_new_def IOBUFFER_DEFAULT_CAPACITY_def IOBuffer_new_with_capacity_wf)

text \<open>The bytes after a fill: the terminator may land inside the active region.\<close>

definition iob_filled :: "int \<Rightarrow> string \<Rightarrow> string" where
  "iob_filled ptr t =
     (if 0 < ptr \<and> ptr \<le> int (length t) then t[length t - nat ptr := NUL] else t)"

lemma fill_cells:
  assumes "length m = c + 1" and "p + r + length cs \<le> c"
  shows "\<exists>m1. mem_write m (p + r) cs = Inr m1 \<and>
     mem_write m1 (r + length cs) [Some NUL] = Inr (m1[r + length cs := Some NUL]) \<and>
     length m1 = length m \<and>
     take (r + length cs) (drop p (m1[r + length cs := Some NUL])) =
       (if p = 0 \<or> r + length cs < p then take r (drop p m) @ cs
        else (take r (drop p m) @ cs)[r + length cs - p := Some NUL])"
proof -
  define m1 where "m1 = take (p + r) m @ cs @ drop (p + r + length cs) m"
  have w: "mem_write m (p + r) cs = Inr m1" using assms by (simp add: mem_write_def m1_def)
  then have len: "length m1 = length m" by (rule mem_write_length)
  have "drop p (take (p + r) m) = take r (drop p m)" by (metis add_diff_cancel_left' drop_take)
  then have part: "take (r + length cs) (drop p m1) = take r (drop p m) @ cs"
    using assms by (simp add: m1_def)
  have "take (r + length cs) (drop p (m1[r + length cs := Some NUL])) =
       (if p = 0 \<or> r + length cs < p then take r (drop p m) @ cs
        else (take r (drop p m) @ cs)[r + length cs - p := Some NUL])"
    using part by (auto simp: drop_update_swap take_update_swap drop_update_cancel
        not_less not_le take_update_cancel list_update_beyond)
  moreover have "r + length cs < length m1" using len assms by simp
  ultimately show ?thesis using w len mem_write_one by blast
qed

lemma iob_fill_ok:
  assumes wf: "iob_wf b" and "s \<noteq> []"
    and fit: "iob_ptr b + iob_remaining b + int (length s) \<le> iob_capacity b"
  shows "\<exists>b'. iob_fill b (map Some s) = Inr b' \<and> iob_wf b' \<and>
     iob_content b' = iob_filled (iob_ptr b) (iob_content b @ s) \<and>
     iob_capacity b' = iob_capacity b \<and> iob_ptr b' = iob_ptr b \<and>
     iob_remaining b' = iob_remaining b + int (length s)"
proof -
  define p r c where "p = nat (iob_ptr b)" and "r = nat (iob_remaining b)" and "c = nat (iob_capacity b)"
  have i: "iob_ptr b = int p" "iob_remaining b = int r" "iob_capacity b = int c"
    "length (iob_mem b) = c + 1" "iob_tag b = IOBuffer_TAG" "iob_allocated_capacity b = int c + 1"
    using wf by (auto simp: iob_wf_def p_def r_def c_def)
  have lc: "length (iob_content b) = r" using iob_content_length [OF wf] i by simp
  from fill_cells [of "iob_mem b" c p r "map Some s"] i fit obtain m1 where m1:
    "mem_write (iob_mem b) (p + r) (map Some s) = Inr m1" "length m1 = c + 1"
    "mem_write m1 (r + length s) [Some NUL] = Inr (m1[r + length s := Some NUL])"
    "take (r + length s) (drop p (m1[r + length s := Some NUL])) =
       (if p = 0 \<or> r + length s < p then take r (drop p (iob_mem b)) @ map Some s
        else (take r (drop p (iob_mem b)) @ map Some s)[r + length s - p := Some NUL])"
    by auto
  define b' where "b' = b\<lparr>iob_mem := m1[r + length s := Some NUL], iob_remaining := int r + int (length s)\<rparr>"
  have "take r (drop p (iob_mem b)) = map Some (iob_content b)"
    using iob_cells_content [of b] wf i by (simp add: iob_cells_def iob_wf_def)
  then have cells: "iob_cells b' = map Some (iob_filled (int p) (iob_content b @ s))"
    using m1(4) lc i by (auto simp: b'_def iob_cells_def iob_filled_def map_update nat_add_distrib)
  have "iob_fill b (map Some s) = Inr b'"
    using i m1 assms(2)
    by (cases b) (auto simp: iob_fill_def IOBuffer_space_def IOBuffer_commit_def IOB_CHECK_def
        mem_write_at_def nat_add_distrib b'_def Let_def c_assert_def)
  moreover have "iob_wf b'"
    using i m1(2) fit cells by (auto simp: iob_wf_def b'_def)
  moreover have "iob_content b' = iob_filled (iob_ptr b) (iob_content b @ s)"
    using iob_contentI [OF cells] i by simp
  ultimately show ?thesis using i by (auto simp: b'_def)
qed

lemma IOBuffer_data_add_fill:
  "iob_wf b \<Longrightarrow> IOBuffer_data_add b cs =
     (if iob_ptr b + iob_remaining b + int (length cs) \<le> iob_capacity b then iob_fill b cs
      else Inl Assertion)"
  by (auto simp: IOBuffer_data_add_def iob_fill_def iob_wf_check IOBuffer_space_def
      IOBuffer_space_len_def c_assert_def)

lemma IOBuffer_data_add_ok:
  assumes "iob_wf b" and "s \<noteq> []"
    and "iob_ptr b + iob_remaining b + int (length s) \<le> iob_capacity b"
  shows "\<exists>b'. IOBuffer_data_add b (map Some s) = Inr b' \<and> iob_wf b' \<and>
     iob_content b' = iob_filled (iob_ptr b) (iob_content b @ s) \<and>
     iob_capacity b' = iob_capacity b \<and> iob_ptr b' = iob_ptr b \<and>
     iob_remaining b' = iob_remaining b + int (length s)"
  using iob_fill_ok [OF assms] assms(3) by (simp add: IOBuffer_data_add_fill [OF assms(1)])

lemma iob_fill_Nil: "iob_wf b \<Longrightarrow> iob_fill b [] = Inl Assertion"
  by (auto simp: iob_fill_def IOBuffer_space_def iob_wf_def IOB_CHECK_def IOBuffer_commit_def
      mem_write_at_def mem_write_def)

lemma iob_filled_0 [simp]: "iob_filled 0 t = t"
  by (simp add: iob_filled_def)

lemma IOBuffer_from_buf_ok:
  assumes "buf \<noteq> []"
  shows "\<exists>b. IOBuffer_from_buf buf = Inr b \<and> iob_wf b \<and> iob_content b = buf"
  using iob_fill_ok [of "IOBuffer_new_with_capacity (int (length buf) * 2)" buf] assms
  by (auto simp: IOBuffer_from_buf_def IOBuffer_new_with_capacity_wf)

lemma IOBuffer_from_buf_empty: "IOBuffer_from_buf [] = Inl Assertion"
  by (simp add: IOBuffer_from_buf_def iob_fill_Nil IOBuffer_new_with_capacity_wf)

lemma IOBuffer_from_cbuffer_eq:
  assumes wf: "cb_wf cb"
  shows "IOBuffer_from_cbuffer cb = IOBuffer_from_buf (cb_content cb)"
proof -
  have "mem_read (cb_mem cb) 0 (cb_length cb) = Inr (map Some (cb_content cb))"
    using cb_content_cells [OF wf] wf by (auto simp: mem_read_def cb_wf_def)
  then show ?thesis
    using wf by (simp add: IOBuffer_from_cbuffer_def Cbuffer_size_ok cb_content_length Cbuffer_data_def
        cb_wf_check IOBuffer_from_buf_def)
qed

lemma IOBuffer_consume_ok:
  assumes wf: "iob_wf b" and n: "0 \<le> n" "n \<le> iob_remaining b"
  shows "\<exists>b'. IOBuffer_consume b n = Inr b' \<and> iob_wf b' \<and>
     iob_content b' = drop (nat n) (iob_content b) \<and> iob_capacity b' = iob_capacity b \<and>
     (iob_content b' = [] \<longrightarrow> iob_ptr b' = 0)"
proof -
  define b' where "b' = b\<lparr>iob_ptr := (if iob_remaining b - n = 0 then 0 else iob_ptr b + n),
                          iob_remaining := iob_remaining b - n\<rparr>"
  have eq: "IOBuffer_consume b n = Inr b'"
    using wf n by (simp add: IOBuffer_consume_def iob_wf_check b'_def iob_wf_def Let_def)
  have cells: "iob_cells b' = drop (nat n) (iob_cells b)"
    using wf n by (auto simp: b'_def iob_cells_def iob_wf_def drop_take nat_diff_distrib
        nat_add_distrib add.commute)
  then have "iob_wf b'" using wf n in_set_dropD by (fastforce simp: iob_wf_def b'_def)
  with eq cells show ?thesis
    using wf n by (auto simp: iob_content_def drop_map b'_def iob_wf_def iob_cells_def)
qed

lemma IOBuffer_consume_too_much:
  "iob_wf b \<Longrightarrow> n > iob_remaining b \<Longrightarrow> IOBuffer_consume b n = Inl Assertion"
  by (auto simp: IOBuffer_consume_def iob_wf_check Let_def c_assert_def)

lemma mem_read_data:
  "iob_wf b \<Longrightarrow> mem_read_at (iob_mem b) (iob_ptr b) (iob_remaining b) = Inr (iob_cells b)"
  by (auto simp: mem_read_at_def mem_read_def iob_cells_def iob_wf_def)

lemma IOBuffer_consolidate_space_ok:
  assumes wf: "iob_wf b" and ne: "iob_content b \<noteq> []"
  shows "\<exists>b'. IOBuffer_consolidate_space b = Inr b' \<and> iob_wf b' \<and> iob_content b' = iob_content b \<and>
     iob_ptr b' = 0 \<and> iob_capacity b' = iob_capacity b"
proof -
  have cells: "iob_cells b = map Some (iob_content b)" using wf iob_cells_content by (simp add: iob_wf_def)
  have cap: "0 \<le> iob_capacity b" "int (length (iob_content b)) \<le> iob_capacity b"
    using wf iob_content_length [OF wf] by (auto simp: iob_wf_def)
  from IOBuffer_data_add_ok [of "IOBuffer_new_with_capacity (iob_capacity b)" "iob_content b"] ne cap
  obtain t where t: "IOBuffer_data_add (IOBuffer_new_with_capacity (iob_capacity b)) (map Some (iob_content b)) = Inr t"
    "iob_wf t" "iob_content t = iob_content b" "iob_ptr t = 0" "iob_capacity t = iob_capacity b"
    by (auto simp: IOBuffer_new_with_capacity_wf)
  then show ?thesis
    using wf cells mem_read_data [OF wf]
    by (auto simp: IOBuffer_consolidate_space_def iob_wf_check IOBuffer_data_def IOBuffer_data_len_def
        iob_wf_def iob_content_def iob_cells_def)
qed

lemma IOBuffer_consolidate_space_empty:
  assumes wf: "iob_wf b" and "iob_content b = []"
  shows "IOBuffer_consolidate_space b = Inl Assertion"
proof -
  have "iob_cells b = []" using assms by (simp add: iob_content_def)
  moreover have cap: "0 \<le> iob_capacity b" using wf by (simp add: iob_wf_def)
  ultimately show ?thesis
    using mem_read_data [OF wf] IOBuffer_new_with_capacity_wf [OF cap] wf
    by (simp add: IOBuffer_consolidate_space_def iob_wf_check IOBuffer_data_def IOBuffer_data_len_def
        IOBuffer_data_add_fill iob_fill_Nil)
qed

lemma IOBuffer_dup_ok:
  assumes wf: "iob_wf b"
  shows "\<exists>b'. IOBuffer_dup b = Inr b' \<and> iob_wf b' \<and> iob_content b' = iob_content b \<and>
     iob_capacity b' = iob_capacity b \<and> iob_ptr b' = iob_ptr b"
  using wf
  by (auto simp: IOBuffer_dup_def iob_wf_check mem_read_at_def mem_read_def mem_write_at_def
      mem_write_def iob_wf_def iob_content_def iob_cells_def IOBuffer_new_with_capacity_def
      IOBuffer_init_def Let_def)

lemma IOBuffer_reset_ok:
  "iob_wf b \<Longrightarrow> \<exists>b'. IOBuffer_reset b = Inr b' \<and> iob_wf b' \<and> iob_content b' = [] \<and>
     iob_ptr b' = 0 \<and> iob_capacity b' = iob_capacity b"
  by (auto simp: IOBuffer_reset_def iob_wf_check iob_wf_def iob_content_def iob_cells_def)

lemma strncmp_eq_strings:
  "length s = length t \<Longrightarrow> strncmp_eq (map Some s @ u) (map Some t @ v) (length s) = Inr (c_str s = c_str t)"
  by (induction s t rule: list_induct2) (auto simp: c_str_def)

lemma IOBuffer_equal_ok:
  assumes a: "iob_wf a" and b: "iob_wf b"
  shows "IOBuffer_equal a b =
     Inr (length (iob_content a) = length (iob_content b) \<and>
          c_str (iob_content a) = c_str (iob_content b))"
proof -
  have d: "drop (nat (iob_ptr x)) (iob_mem x) = map Some (iob_content x) @
       drop (nat (iob_remaining x)) (drop (nat (iob_ptr x)) (iob_mem x))" if "iob_wf x" for x
    using iob_cells_content [of x] that unfolding iob_wf_def iob_cells_def by (metis append_take_drop_id)
  have len: "nat (iob_remaining x) = length (iob_content x)" "0 \<le> iob_remaining x" if "iob_wf x" for x
    using iob_content_length [OF that] that by (auto simp: iob_wf_def)
  have eqlen: "iob_remaining a = iob_remaining b \<longleftrightarrow> length (iob_content a) = length (iob_content b)"
    using len [OF a] len [OF b] by auto
  show ?thesis
  proof (cases "iob_remaining a = iob_remaining b")
    case True
    then have l: "length (iob_content a) = length (iob_content b)" using eqlen by simp
    have "strncmp_eq (drop (nat (iob_ptr a)) (iob_mem a)) (drop (nat (iob_ptr b)) (iob_mem b))
            (nat (iob_remaining a)) = Inr (c_str (iob_content a) = c_str (iob_content b))"
      using strncmp_eq_strings [OF l] d [OF a] d [OF b] len(1) [OF a] by metis
    with True l show ?thesis
      using a b by (simp add: IOBuffer_equal_def iob_wf_check IOBuffer_data_def IOBuffer_data_len_def)
  next
    case False
    with eqlen show ?thesis
      using a b by (simp add: IOBuffer_equal_def iob_wf_check IOBuffer_data_def IOBuffer_data_len_def)
  qed
qed

section \<open>Properties\<close>

text \<open>
  What is in an \<open>IOBuffer\<close> after bytes were added to its space.  With nothing consumed, or
  more consumed than is then active, the bytes are appended.  Otherwise the terminator of
  \<open>IOBuffer_commit\<close>, which is placed relative to the start of the memory and not of the data,
  overwrites the active byte at index \<open>length - consumed\<close>.
\<close>

theorem IOBuffer_data_add_content:
  assumes "iob_wf b" and "s \<noteq> []"
    and "iob_ptr b + iob_remaining b + int (length s) \<le> iob_capacity b"
  shows "\<exists>b'. IOBuffer_data_add b (map Some s) = Inr b' \<and> iob_wf b' \<and>
     iob_content b' =
       (let t = iob_content b @ s; k = nat (iob_ptr b) in
        if 0 < k \<and> k \<le> length t then t[length t - k := NUL] else t)"
proof -
  from IOBuffer_data_add_ok [OF assms] obtain b' where "IOBuffer_data_add b (map Some s) = Inr b'" "iob_wf b'"
    "iob_content b' = iob_filled (iob_ptr b) (iob_content b @ s)" by blast
  moreover have "iob_filled (iob_ptr b) t =
      (let k = nat (iob_ptr b) in if 0 < k \<and> k \<le> length t then t[length t - k := NUL] else t)" for t
    by (auto simp: iob_filled_def Let_def)
  ultimately show ?thesis by (auto simp: Let_def)
qed

definition demo_iob :: IOBuffer where
  "demo_iob = \<lparr>iob_tag = IOBuffer_TAG, iob_mem = map Some ''abcdXXXXX'', iob_char_p = 0,
     iob_allocated_capacity = 9, iob_capacity = 8, iob_ptr = 2, iob_length = 8, iob_remaining = 2\<rparr>"

lemma demo_iob_wf: "iob_wf demo_iob \<and> iob_content demo_iob = ''cd''"
  by (simp add: iob_wf_def demo_iob_def iob_cells_def iob_content_def numeral_2_eq_2)

theorem IOBuffer_data_add_content_witness:
  "\<exists>b'. IOBuffer_data_add demo_iob (map Some ''ef'') = Inr b' \<and> iob_wf b' \<and>
     iob_content b' = [CHR ''c'', CHR ''d'', NUL, CHR ''f'']"
  using IOBuffer_data_add_content [of demo_iob "''ef''"] demo_iob_wf
  by (auto simp: Let_def) (simp_all add: demo_iob_def)

text \<open>
  Consuming \<open>n\<close> bytes, no more than are active, drops exactly the first \<open>n\<close> of them; when
  none is left the whole capacity is space again.  Consuming more stops at an assertion.
\<close>

theorem IOBuffer_consume_content:
  assumes "iob_wf b" and "0 \<le> n"
  shows "case IOBuffer_consume b n of
       Inr b' \<Rightarrow> n \<le> int (length (iob_content b)) \<and> iob_wf b' \<and>
                 iob_content b' = drop (nat n) (iob_content b) \<and>
                 (iob_content b' = [] \<longrightarrow> IOBuffer_space_len b' = Inr (iob_capacity b))
     | Inl e \<Rightarrow> n > int (length (iob_content b)) \<and> e = Assertion"
proof -
  have len: "int (length (iob_content b)) = iob_remaining b"
    using iob_content_length [OF assms(1)] assms(1) by (simp add: iob_wf_def)
  show ?thesis
  proof (cases "n \<le> iob_remaining b")
    case True
    obtain b' where b': "IOBuffer_consume b n = Inr b'" "iob_wf b'" "iob_content b' = drop (nat n) (iob_content b)"
      "iob_capacity b' = iob_capacity b" "iob_content b' = [] \<longrightarrow> iob_ptr b' = 0"
      using IOBuffer_consume_ok [OF assms(1,2) True] by blast
    have "iob_content b' = [] \<Longrightarrow> iob_remaining b' = 0"
      using iob_content_length [OF b'(2)] b'(2) by (simp add: iob_wf_def)
    with b' True len show ?thesis by (auto simp: IOBuffer_space_len_def iob_wf_check)
  next
    case False
    then show ?thesis using IOBuffer_consume_too_much [OF assms(1)] len by simp
  qed
qed

theorem IOBuffer_consume_content_witness:
  "case IOBuffer_consume demo_iob 1 of Inr b' \<Rightarrow> iob_content b' = ''d'' | Inl e \<Rightarrow> False"
  using IOBuffer_consume_content [of demo_iob 1] demo_iob_wf by (auto split: sum.splits)

text \<open>
  Consolidating a buffer that holds data moves the data to the front without changing it, so
  that the next bytes added are appended exactly; on an empty buffer it stops at the assertion
  of \<open>IOBuffer_commit\<close>.
\<close>

theorem IOBuffer_consolidate_then_add:
  assumes "iob_wf b" and "s \<noteq> []" and "int (length (iob_content b) + length s) \<le> iob_capacity b"
  shows "if iob_content b = [] then IOBuffer_consolidate_space b = Inl Assertion
     else \<exists>b1 b2. IOBuffer_consolidate_space b = Inr b1 \<and> iob_content b1 = iob_content b \<and>
            IOBuffer_data_add b1 (map Some s) = Inr b2 \<and> iob_wf b2 \<and> iob_content b2 = iob_content b @ s"
proof (cases "iob_content b = []")
  case True
  then show ?thesis using IOBuffer_consolidate_space_empty [OF assms(1)] by simp
next
  case False
  obtain b1 where b1: "IOBuffer_consolidate_space b = Inr b1" "iob_wf b1" "iob_content b1 = iob_content b"
    "iob_ptr b1 = 0" "iob_capacity b1 = iob_capacity b" using IOBuffer_consolidate_space_ok [OF assms(1) False] by blast
  have "iob_remaining b1 = int (length (iob_content b))"
    using iob_content_length [OF b1(2)] b1(2,3) by (simp add: iob_wf_def)
  then have "iob_ptr b1 + iob_remaining b1 + int (length s) \<le> iob_capacity b1" using b1(4,5) assms(3) by simp
  from IOBuffer_data_add_ok [OF b1(2) assms(2) this] b1 False show ?thesis by auto
qed

theorem IOBuffer_consolidate_then_add_witness:
  "\<exists>b1 b2. IOBuffer_consolidate_space demo_iob = Inr b1 \<and> IOBuffer_data_add b1 (map Some ''efghij'') = Inr b2 \<and>
     iob_content b2 = ''cdefghij''"
proof -
  have "int (length (iob_content demo_iob) + length ''efghij'') \<le> iob_capacity demo_iob"
    using demo_iob_wf by (simp add: demo_iob_def)
  from IOBuffer_consolidate_then_add [of demo_iob "''efghij''", OF _ _ this] demo_iob_wf show ?thesis by auto
qed

text \<open>
  \<open>IOBuffer_equal\<close> compares lengths and then the bytes up to the first \<open>NUL\<close>: on data
  without \<open>NUL\<close> bytes it decides equality of the contents.
\<close>

theorem IOBuffer_equal_iff:
  assumes "iob_wf a" and "iob_wf b" and "no_nul (iob_content a)" and "no_nul (iob_content b)"
  shows "IOBuffer_equal a b = Inr (iob_content a = iob_content b)"
  using IOBuffer_equal_ok [OF assms(1,2)] assms(3,4) by auto

theorem IOBuffer_equal_iff_witness:
  "IOBuffer_equal demo_iob demo_iob = Inr True"
  using IOBuffer_equal_iff [of demo_iob demo_iob] demo_iob_wf by simp

end
