(* ===== verification/CH_BufferChain.thy ===== *)
theory CH_BufferChain
  imports CH_List CH_IOBuffer
begin

text \<open>
  The chain of buffers of \<open>src/http_in_c/common/buffer_chain.c\<close>: a linked list of
  \<open>IOBuffer\<close>s and a byte count.  The list holds the buffers themselves; an update of a buffer
  through its pointer is a store into the node that carries it.
\<close>

section \<open>Data\<close>

record BufferChain =
  m_chain :: "IOBuffer List"
  m_size :: int

section \<open>Operations\<close>

text \<open>
  \<open>BufferChain_new\<close> builds this value; its body has no \<open>return\<close> statement, so the model gives
  the value the caller is meant to receive.  The deallocator disposes the buffer and clears the
  pointer.
\<close>

definition BufferChain_new :: BufferChain where
  "BufferChain_new = \<lparr>m_chain = List_new NullingDealloc, m_size = 0\<rparr>"

text \<open>The loop that \<open>BufferChain_free\<close> and \<open>BufferChain_dispose\<close> share.\<close>

fun BufferChain_release_loop :: "nat \<Rightarrow> IOBuffer List \<Rightarrow> addr option \<Rightarrow> IOBuffer List res" where
  "BufferChain_release_loop 0 l iter = (case iter of None \<Rightarrow> Inr l | Some _ \<Rightarrow> Inl NoReturn)"
| "BufferChain_release_loop (Suc k) l iter =
     (case iter of None \<Rightarrow> Inr l
      | Some a \<Rightarrow> rbind (List_itr_next l iter) (\<lambda>next.
          rbind (List_itr_remove l iter) (\<lambda>l. BufferChain_release_loop k l next)))"

text \<open>The result is the log of the buffers that were released.\<close>

definition BufferChain_free :: "BufferChain \<Rightarrow> IOBuffer list res" where
  "BufferChain_free this =
     rbind (BufferChain_release_loop (l_fresh (m_chain this)) (m_chain this) (List_iterator (m_chain this))) (\<lambda>l.
     rbind (List_dispose l) (\<lambda>l. Inr (l_freed l)))"

text \<open>\<open>BufferChain_dispose\<close> does the same and sets the caller's pointer to \<open>NULL\<close>.\<close>

definition BufferChain_dispose :: "BufferChain \<Rightarrow> (IOBuffer list \<times> BufferChain option) res" where
  "BufferChain_dispose this =
     rbind (BufferChain_release_loop (l_fresh (m_chain this)) (m_chain this) (List_iterator (m_chain this))) (\<lambda>l.
     rbind (List_dispose l) (\<lambda>l. Inr (l_freed l, None)))"

text \<open>
  The data to append is given by its cells.  \<open>chain_append_new\<close> is the part of
  \<open>BufferChain_append\<close> after the first conditional.
\<close>

definition chain_append_new :: "BufferChain \<Rightarrow> cell list \<Rightarrow> BufferChain res" where
  "chain_append_new this cs =
     (let len = int (length cs);
          required_len = (if len > 256*4*8 then len + 100 else 256*4*8);
          new_iob = IOBuffer_new_with_capacity required_len in
      rbind (IOBuffer_data_add new_iob cs) (\<lambda>new_iob.
      rbind (List_add_back (m_chain this) new_iob) (\<lambda>chain.
      Inr (this\<lparr>m_chain := chain, m_size := m_size this + len\<rparr>))))"

definition BufferChain_append_cells :: "BufferChain \<Rightarrow> cell list \<Rightarrow> BufferChain res" where
  "BufferChain_append_cells this cs =
     (let len = int (length cs) in
      if m_size this > 0 then
        rbind (List_last (m_chain this)) (\<lambda>p. case p of None \<Rightarrow> Inl NullDeref
        | Some last_iob \<Rightarrow>
          rbind (IOBuffer_space_len last_iob) (\<lambda>n.
          if n \<ge> len then
            rbind (IOBuffer_data_add last_iob cs) (\<lambda>last_iob.
            rbind (List_item_store (m_chain this) (l_tail (m_chain this)) last_iob) (\<lambda>chain.
            Inr (this\<lparr>m_chain := chain, m_size := m_size this + len\<rparr>)))
          else chain_append_new this cs))
      else chain_append_new this cs)"

definition BufferChain_append :: "BufferChain \<Rightarrow> string \<Rightarrow> BufferChain res" where
  "BufferChain_append this buf = BufferChain_append_cells this (map Some buf)"

definition BufferChain_append_IOBuffer :: "BufferChain \<Rightarrow> IOBuffer \<Rightarrow> BufferChain res" where
  "BufferChain_append_IOBuffer this iobuf =
     rbind (IOBuffer_data iobuf) (\<lambda>p.
     rbind (IOBuffer_data_len iobuf) (\<lambda>n.
     rbind (mem_read_at (iob_mem iobuf) p n) (\<lambda>cs. BufferChain_append_cells this cs)))"

definition BufferChain_append_cstr :: "BufferChain \<Rightarrow> string \<Rightarrow> BufferChain res" where
  "BufferChain_append_cstr this cstr = BufferChain_append this (c_str cstr)"

definition BufferChain_clear :: "BufferChain \<Rightarrow> BufferChain res" where
  "BufferChain_clear this = rbind (c_assert False) (\<lambda>_. Inr this)"

definition BufferChain_size :: "BufferChain \<Rightarrow> int" where
  "BufferChain_size this = m_size this"

definition BufferChain_compact :: "BufferChain \<Rightarrow> IOBuffer res" where
  "BufferChain_compact this =
     List_foreach (m_chain this) (\<lambda>tmp iob_final.
       rbind (IOBuffer_data tmp) (\<lambda>data.
       rbind (IOBuffer_data_len tmp) (\<lambda>sz.
       rbind (mem_read_at (iob_mem tmp) data sz) (\<lambda>cs.
       IOBuffer_data_add iob_final cs))))
     (IOBuffer_new_with_capacity (BufferChain_size this))"

text \<open>
  The inner loop of \<open>BufferChain_eq_cstr\<close> over the cells of one buffer; \<open>cstr\<close> is the string
  object with its terminator, and \<open>Inl False\<close> the early \<open>return false\<close>.
\<close>

fun eq_cstr_inner :: "string \<Rightarrow> cell list \<Rightarrow> nat \<Rightarrow> (bool + nat) res" where
  "eq_cstr_inner cstr [] cstr_index = Inr (Inr cstr_index)"
| "eq_cstr_inner cstr (None # data) cstr_index = Inl UninitRead"
| "eq_cstr_inner cstr (Some d # data) cstr_index =
     (if cstr_index \<ge> length cstr then Inl MemFault
      else if cstr ! cstr_index \<noteq> d then Inr (Inl False)
      else eq_cstr_inner cstr data (cstr_index + 1))"

definition BufferChain_eq_cstr :: "BufferChain \<Rightarrow> string \<Rightarrow> bool res" where
  "BufferChain_eq_cstr this cstr =
     rbind (List_search (m_chain this) (\<lambda>_ tmp cstr_index.
       rbind (IOBuffer_data tmp) (\<lambda>data.
       rbind (IOBuffer_data_len tmp) (\<lambda>sz.
       rbind (mem_read_at (iob_mem tmp) data sz) (\<lambda>cs.
       eq_cstr_inner (c_str cstr @ [NUL]) cs cstr_index)))) 0) (\<lambda>r.
     Inr (case r of Inl b \<Rightarrow> b | Inr _ \<Rightarrow> True))"

definition BufferChain_iterator :: "BufferChain \<Rightarrow> addr option" where
  "BufferChain_iterator this = List_iterator (m_chain this)"

definition BufferChain_iter_next :: "BufferChain \<Rightarrow> addr option \<Rightarrow> addr option res" where
  "BufferChain_iter_next this iter = List_itr_next (m_chain this) iter"

definition BufferChain_unpack_iter :: "BufferChain \<Rightarrow> addr option \<Rightarrow> IOBuffer option res" where
  "BufferChain_unpack_iter this iter = List_itr_unpack (m_chain this) iter"

definition BufferChain_remove_iter :: "BufferChain \<Rightarrow> addr option \<Rightarrow> BufferChain res" where
  "BufferChain_remove_iter this iter =
     rbind (List_itr_remove (m_chain this) iter) (\<lambda>chain. Inr (this\<lparr>m_chain := chain\<rparr>))"

definition BufferChain_add_front :: "BufferChain \<Rightarrow> IOBuffer \<Rightarrow> BufferChain res" where
  "BufferChain_add_front this iobuf =
     rbind (List_add_front (m_chain this) iobuf) (\<lambda>chain.
     rbind (IOBuffer_data_len iobuf) (\<lambda>n. Inr (this\<lparr>m_chain := chain, m_size := n\<rparr>)))"

definition BufferChain_add_back :: "BufferChain \<Rightarrow> IOBuffer \<Rightarrow> BufferChain res" where
  "BufferChain_add_back this iobuf =
     rbind (List_add_back (m_chain this) iobuf) (\<lambda>chain.
     rbind (IOBuffer_data_len iobuf) (\<lambda>n. Inr (this\<lparr>m_chain := chain, m_size := m_size this + n\<rparr>)))"

definition BufferChain_pop_front :: "BufferChain \<Rightarrow> (IOBuffer option \<times> BufferChain) res" where
  "BufferChain_pop_front this =
     rbind (List_first (m_chain this)) (\<lambda>front. case front of None \<Rightarrow> Inr (None, this)
     | Some f \<Rightarrow>
       rbind (List_remove_first (m_chain this)) (\<lambda>(_, chain).
       rbind (IOBuffer_data_len f) (\<lambda>n.
       Inr (Some f, this\<lparr>m_chain := chain, m_size := m_size this - n\<rparr>))))"

definition BufferChain_front :: "BufferChain \<Rightarrow> IOBuffer option res" where
  "BufferChain_front this = List_first (m_chain this)"

text \<open>The two chains are different objects.\<close>

definition BufferChain_append_bufferchain :: "BufferChain \<Rightarrow> BufferChain \<Rightarrow> BufferChain res" where
  "BufferChain_append_bufferchain this other =
     List_foreach (m_chain other) (\<lambda>iob this.
       rbind (IOBuffer_dup iob) (\<lambda>iob_dup. BufferChain_add_back this iob_dup)) this"

text \<open>The loop ends after as many turns as \<open>other\<close> has buffers, at most \<open>l_fresh\<close>.\<close>

fun BufferChain_steal_loop ::
  "nat \<Rightarrow> BufferChain \<Rightarrow> BufferChain \<Rightarrow> IOBuffer option \<Rightarrow> (BufferChain \<times> BufferChain) res" where
  "BufferChain_steal_loop k this other None = Inr (this, other)"
| "BufferChain_steal_loop 0 this other (Some iob) = Inl NoReturn"
| "BufferChain_steal_loop (Suc k) this other (Some iob) =
     rbind (BufferChain_add_back this iob) (\<lambda>this.
     rbind (BufferChain_pop_front other) (\<lambda>(iob, other).
     BufferChain_steal_loop k this other iob))"

definition BufferChain_steal_bufferchain ::
  "BufferChain \<Rightarrow> BufferChain \<Rightarrow> (BufferChain \<times> BufferChain) res" where
  "BufferChain_steal_bufferchain this other =
     rbind (BufferChain_pop_front other) (\<lambda>(iob, other').
     BufferChain_steal_loop (l_fresh (m_chain other)) this other' iob)"

section \<open>Representation invariant\<close>

definition bc_bufs :: "BufferChain \<Rightarrow> IOBuffer list" where
  "bc_bufs bc = List_items (m_chain bc)"

definition bc_content :: "BufferChain \<Rightarrow> string" where
  "bc_content bc = concat (map iob_content (bc_bufs bc))"

text \<open>
  \<open>iob_ptr (last _) = 0\<close>: data appended to the last buffer goes after bytes none of which were
  consumed; this is where \<open>IOBuffer_commit\<close> places its terminator outside the data.
\<close>

definition bc_wf :: "BufferChain \<Rightarrow> bool" where
  "bc_wf bc \<longleftrightarrow>
     List_wf (m_chain bc) \<and> l_dealloc (m_chain bc) = NullingDealloc \<and>
     (\<forall>b \<in> set (bc_bufs bc). iob_wf b) \<and> m_size bc = int (length (bc_content bc)) \<and>
     (bc_bufs bc \<noteq> [] \<longrightarrow> iob_ptr (last (bc_bufs bc)) = 0)"

text \<open>No buffer of the chain is empty; \<open>BufferChain_compact\<close> relies on it.\<close>

definition bc_full :: "BufferChain \<Rightarrow> bool" where
  "bc_full bc \<longleftrightarrow> (\<forall>b \<in> set (bc_bufs bc). iob_content b \<noteq> [])"

text \<open>Nothing has been consumed from any buffer; \<open>BufferChain_append_bufferchain\<close> relies on it.\<close>

definition bc_flat :: "BufferChain \<Rightarrow> bool" where
  "bc_flat bc \<longleftrightarrow> (\<forall>b \<in> set (bc_bufs bc). iob_ptr b = 0)"

section \<open>Appending\<close>

lemma BufferChain_new_wf: "bc_wf BufferChain_new \<and> bc_content BufferChain_new = [] \<and> bc_full BufferChain_new \<and>
    bc_flat BufferChain_new"
  by (simp add: bc_wf_def bc_full_def bc_flat_def BufferChain_new_def bc_bufs_def bc_content_def List_new_wf List_new_items)
     (simp add: List_new_def List_init_def)

lemma iob_data_len: "iob_wf b \<Longrightarrow> IOBuffer_data_len b = Inr (int (length (iob_content b)))"
  by (auto simp: IOBuffer_data_len_def iob_wf_check iob_content_length iob_wf_def)

lemma iob_data_cells:
  assumes "iob_wf b"
  shows "rbind (IOBuffer_data b) (\<lambda>p. rbind (IOBuffer_data_len b) (\<lambda>n.
           rbind (mem_read_at (iob_mem b) p n) f)) = f (map Some (iob_content b))"
  using mem_read_data [OF assms] iob_cells_content [of b] assms
  by (simp add: IOBuffer_data_def IOBuffer_data_len_def iob_wf_check iob_wf_def)

lemma bc_wfI:
  assumes "bc_wf bc" and "List_wf l" and "l_dealloc l = l_dealloc (m_chain bc)"
    and "List_items l = bs @ [b]" and "\<forall>x \<in> set bs. iob_wf x" and "iob_wf b" and "iob_ptr b = 0"
    and "concat (map iob_content (bs @ [b])) = bc_content bc @ s" and "n = int (length s)"
  shows "bc_wf (bc\<lparr>m_chain := l, m_size := m_size bc + n\<rparr>) \<and>
         bc_content (bc\<lparr>m_chain := l, m_size := m_size bc + n\<rparr>) = bc_content bc @ s \<and>
         bc_bufs (bc\<lparr>m_chain := l, m_size := m_size bc + n\<rparr>) = bs @ [b]"
  using assms by (auto simp: bc_wf_def bc_bufs_def bc_content_def)

lemma chain_append_new_ok:
  assumes wf: "bc_wf bc" and "s \<noteq> []"
  shows "\<exists>bc'. chain_append_new bc (map Some s) = Inr bc' \<and> bc_wf bc' \<and> bc_content bc' = bc_content bc @ s \<and>
     (bc_full bc \<longrightarrow> bc_full bc') \<and> (bc_flat bc \<longrightarrow> bc_flat bc')"
proof -
  define c where "c = (if int (length s) > 256*4*8 then int (length s) + 100 else 256*4*8)"
  have c: "0 \<le> c" "int (length s) \<le> c" by (auto simp: c_def)
  from IOBuffer_data_add_ok [of "IOBuffer_new_with_capacity c" s] c assms(2) obtain b where b:
    "IOBuffer_data_add (IOBuffer_new_with_capacity c) (map Some s) = Inr b" "iob_wf b"
    "iob_content b = s" "iob_ptr b = 0" by (auto simp: IOBuffer_new_with_capacity_wf)
  obtain l where l: "List_add_back (m_chain bc) b = Inr l" "List_wf l" "List_items l = bc_bufs bc @ [b]"
    "l_dealloc l = l_dealloc (m_chain bc)"
    using List_add_back_wf [of "m_chain bc" b] wf by (auto simp: bc_wf_def bc_bufs_def)
  have "chain_append_new bc (map Some s) =
        Inr (bc\<lparr>m_chain := l, m_size := m_size bc + int (length s)\<rparr>)"
    using b(1) l(1) by (auto simp: chain_append_new_def Let_def c_def split: if_splits)
  with bc_wfI [OF wf l(2,4,3)] show ?thesis using wf b assms(2) by (auto simp: bc_wf_def bc_content_def bc_full_def bc_flat_def)
qed

lemma chain_append_last_ok:
  assumes wf: "bc_wf bc" and "s \<noteq> []" and ne: "bc_bufs bc \<noteq> []"
    and fit: "int (length s) \<le> iob_capacity (last (bc_bufs bc)) - iob_remaining (last (bc_bufs bc))"
  shows "\<exists>b l. IOBuffer_data_add (last (bc_bufs bc)) (map Some s) = Inr b \<and>
     List_item_store (m_chain bc) (l_tail (m_chain bc)) b = Inr l \<and>
     bc_wf (bc\<lparr>m_chain := l, m_size := m_size bc + int (length s)\<rparr>) \<and>
     bc_content (bc\<lparr>m_chain := l, m_size := m_size bc + int (length s)\<rparr>) = bc_content bc @ s \<and>
     (bc_full bc \<longrightarrow> bc_full (bc\<lparr>m_chain := l, m_size := m_size bc + int (length s)\<rparr>)) \<and>
     (bc_flat bc \<longrightarrow> bc_flat (bc\<lparr>m_chain := l, m_size := m_size bc + int (length s)\<rparr>))"
proof -
  let ?b = "last (bc_bufs bc)"
  have lb: "iob_wf ?b" "iob_ptr ?b = 0" and sub: "\<forall>x \<in> set (butlast (bc_bufs bc)). iob_wf x"
    using wf ne by (auto simp: bc_wf_def dest: in_set_butlastD)
  from IOBuffer_data_add_ok [OF lb(1) assms(2)] fit lb(2) obtain b where b:
    "IOBuffer_data_add ?b (map Some s) = Inr b" "iob_wf b" "iob_content b = iob_content ?b @ s" "iob_ptr b = 0"
    by auto
  obtain l where l: "List_item_store (m_chain bc) (l_tail (m_chain bc)) b = Inr l" "List_wf l"
    "List_items l = butlast (bc_bufs bc) @ [b]" "l_dealloc l = l_dealloc (m_chain bc)"
    using List_store_last_wf [of "m_chain bc" b] wf ne by (auto simp: bc_wf_def bc_bufs_def)
  have "bc_content bc = concat (map iob_content (butlast (bc_bufs bc) @ [?b]))"
    using ne by (simp add: bc_content_def)
  then have "concat (map iob_content (butlast (bc_bufs bc) @ [b])) = bc_content bc @ s"
    using b(3) by simp
  from bc_wfI [OF wf l(2,4,3) sub b(2,4) this] b(1,3,4) l(1) assms(2) show ?thesis
    by (auto simp: bc_full_def bc_flat_def dest: in_set_butlastD)
qed

lemma BufferChain_append_ok:
  assumes wf: "bc_wf bc" and s: "s \<noteq> []"
  shows "\<exists>bc'. BufferChain_append bc s = Inr bc' \<and> bc_wf bc' \<and> bc_content bc' = bc_content bc @ s \<and>
     (bc_full bc \<longrightarrow> bc_full bc') \<and> (bc_flat bc \<longrightarrow> bc_flat bc')"
proof (cases "m_size bc > 0")
  case True
  then have ne: "bc_bufs bc \<noteq> []" using wf by (auto simp: bc_wf_def bc_content_def)
  then have last: "List_last (m_chain bc) = Inr (Some (last (bc_bufs bc)))"
    using List_last_wf [of "m_chain bc"] wf by (simp add: bc_wf_def bc_bufs_def)
  have lb: "iob_wf (last (bc_bufs bc))" "iob_ptr (last (bc_bufs bc)) = 0"
    using wf ne by (auto simp: bc_wf_def)
  then have sp: "IOBuffer_space_len (last (bc_bufs bc)) =
      Inr (iob_capacity (last (bc_bufs bc)) - iob_remaining (last (bc_bufs bc)))"
    by (simp add: IOBuffer_space_len_def iob_wf_check)
  show ?thesis
  proof (cases "int (length s) \<le> iob_capacity (last (bc_bufs bc)) - iob_remaining (last (bc_bufs bc))")
    case fits: True
    from chain_append_last_ok [OF wf s ne fits] last sp True fits show ?thesis
      by (auto simp: BufferChain_append_def BufferChain_append_cells_def)
  next
    case False
    then show ?thesis using chain_append_new_ok [OF wf s] last sp True
      by (simp add: BufferChain_append_def BufferChain_append_cells_def)
  qed
next
  case False
  then show ?thesis using chain_append_new_ok [OF wf s]
    by (simp add: BufferChain_append_def BufferChain_append_cells_def)
qed

text \<open>An append of no bytes reaches the assertion \<open>bytes_used > 0\<close> of \<open>IOBuffer_commit\<close>.\<close>

lemma BufferChain_append_Nil:
  assumes wf: "bc_wf bc"
  shows "BufferChain_append bc [] = Inl Assertion"
proof -
  have new: "chain_append_new bc [] = Inl Assertion"
    by (simp add: chain_append_new_def IOBuffer_data_add_fill iob_fill_Nil IOBuffer_new_with_capacity_wf)
  show ?thesis
  proof (cases "m_size bc > 0")
    case True
    then have ne: "bc_bufs bc \<noteq> []" using wf by (auto simp: bc_wf_def bc_content_def)
    then have "List_last (m_chain bc) = Inr (Some (last (bc_bufs bc)))" "iob_wf (last (bc_bufs bc))"
      using List_last_wf [of "m_chain bc"] wf by (auto simp: bc_wf_def bc_bufs_def)
    with True show ?thesis
      by (auto simp: BufferChain_append_def BufferChain_append_cells_def IOBuffer_space_len_def
          iob_wf_check IOBuffer_data_add_fill iob_fill_Nil new iob_wf_def)
  qed (simp add: BufferChain_append_def BufferChain_append_cells_def new)
qed

lemma BufferChain_append_InrD:
  "bc_wf bc \<Longrightarrow> BufferChain_append bc s = Inr bc' \<Longrightarrow> bc_wf bc' \<and> bc_content bc' = bc_content bc @ s"
  using BufferChain_append_ok [of bc s] BufferChain_append_Nil [of bc] by (cases "s = []") auto

interpretation bchain: byte_store bc_wf bc_content BufferChain_append
  by unfold_locales (auto dest: BufferChain_append_InrD)

lemma BufferChain_append_IOBuffer_eq:
  "iob_wf b \<Longrightarrow> BufferChain_append_IOBuffer bc b = BufferChain_append bc (iob_content b)"
  by (simp add: BufferChain_append_IOBuffer_def BufferChain_append_def iob_data_cells)

section \<open>Whole buffers\<close>

lemma BufferChain_add_back_ok:
  assumes wf: "bc_wf bc" and b: "iob_wf b" and p: "iob_ptr b = 0"
  shows "\<exists>bc'. BufferChain_add_back bc b = Inr bc' \<and> bc_wf bc' \<and> bc_bufs bc' = bc_bufs bc @ [b]"
proof -
  obtain l where l: "List_add_back (m_chain bc) b = Inr l" "List_wf l" "List_items l = bc_bufs bc @ [b]"
    "l_dealloc l = l_dealloc (m_chain bc)"
    using List_add_back_wf [of "m_chain bc" b] wf by (auto simp: bc_wf_def bc_bufs_def)
  have "\<forall>x \<in> set (bc_bufs bc). iob_wf x" using wf by (simp add: bc_wf_def)
  from bc_wfI [OF wf l(2,4,3) this b p] show ?thesis
    using l b by (auto simp: BufferChain_add_back_def iob_data_len bc_content_def bc_bufs_def)
qed

lemma BufferChain_pop_front_ok:
  assumes wf: "bc_wf bc"
  shows "\<exists>bc'. BufferChain_pop_front bc = Inr (case bc_bufs bc of [] \<Rightarrow> None | b # _ \<Rightarrow> Some b, bc') \<and>
     bc_wf bc' \<and> bc_bufs bc' = tl (bc_bufs bc)"
proof -
  have lw: "List_wf (m_chain bc)" using wf by (simp add: bc_wf_def)
  obtain l where l: "List_remove_first (m_chain bc) =
      Inr (case bc_bufs bc of [] \<Rightarrow> None | x # _ \<Rightarrow> Some x, l)" "List_wf l"
    "List_items l = tl (bc_bufs bc)" "l_dealloc l = l_dealloc (m_chain bc)"
    using List_remove_first_wf [OF lw] by (auto simp: bc_bufs_def)
  show ?thesis
  proof (cases "bc_bufs bc")
    case Nil
    then show ?thesis using wf List_first_wf [OF lw]
      by (auto simp: BufferChain_pop_front_def bc_bufs_def)
  next
    case (Cons b bs)
    then have b: "iob_wf b" using wf by (simp add: bc_wf_def)
    have "BufferChain_pop_front bc = Inr (Some b, bc\<lparr>m_chain := l, m_size := m_size bc - int (length (iob_content b))\<rparr>)"
      using Cons l(1) List_first_wf [OF lw] b
      by (simp add: BufferChain_pop_front_def iob_data_len bc_bufs_def)
    then show ?thesis
      using Cons l wf by (auto simp: bc_wf_def bc_content_def bc_bufs_def)
  qed
qed

lemma BufferChain_append_bufferchain_ok:
  assumes wf: "bc_wf this" and other: "bc_wf other" and p: "\<forall>b \<in> set (bc_bufs other). iob_ptr b = 0"
  shows "\<exists>this'. BufferChain_append_bufferchain this other = Inr this' \<and> bc_wf this' \<and>
     bc_content this' = bc_content this @ bc_content other \<and> (bc_full this \<and> bc_full other \<longrightarrow> bc_full this') \<and>
     (bc_flat this \<longrightarrow> bc_flat this')"
proof -
  have "\<exists>t'. rfold (\<lambda>iob t. rbind (IOBuffer_dup iob) (BufferChain_add_back t)) bs t = Inr t' \<and>
        bc_wf t' \<and> bc_content t' = bc_content t @ concat (map iob_content bs) \<and>
        (bc_full t \<and> (\<forall>b \<in> set bs. iob_content b \<noteq> []) \<longrightarrow> bc_full t') \<and> (bc_flat t \<longrightarrow> bc_flat t')"
    if "bc_wf t" "\<forall>b \<in> set bs. iob_wf b \<and> iob_ptr b = 0" for bs t
    using that
  proof (induction bs arbitrary: t)
    case (Cons b bs)
    obtain d where d: "IOBuffer_dup b = Inr d" "iob_wf d" "iob_content d = iob_content b" "iob_ptr d = 0"
      using IOBuffer_dup_ok [of b] Cons.prems(2) by auto
    obtain t1 where t1: "BufferChain_add_back t d = Inr t1" "bc_wf t1" "bc_bufs t1 = bc_bufs t @ [d]"
      using BufferChain_add_back_ok [OF Cons.prems(1) d(2,4)] by blast
    with Cons.IH [OF t1(2)] Cons.prems(2) d show ?case by (auto simp: bc_content_def bc_full_def bc_flat_def)
  qed simp
  from this [OF wf, of "bc_bufs other"] show ?thesis
    using other p
    by (auto simp: BufferChain_append_bufferchain_def List_foreach_items bc_wf_def bc_bufs_def bc_content_def bc_full_def)
qed

lemma BufferChain_steal_loop_ok:
  assumes "bc_wf this" and "bc_wf other" and "\<forall>b \<in> set (bc_bufs other). iob_ptr b = 0"
    and "\<forall>b. iob = Some b \<longrightarrow> iob_wf b \<and> iob_ptr b = 0" and "iob = None \<longrightarrow> bc_bufs other = []"
    and "length (bc_bufs other) < k"
  shows "\<exists>this' other'. BufferChain_steal_loop k this other iob = Inr (this', other') \<and>
     bc_wf this' \<and> bc_wf other' \<and> bc_bufs other' = [] \<and>
     bc_bufs this' = bc_bufs this @ (case iob of None \<Rightarrow> [] | Some b \<Rightarrow> [b]) @ bc_bufs other"
  using assms
proof (induction k arbitrary: this other iob)
  case (Suc k)
  show ?case
  proof (cases iob)
    case None
    then show ?thesis using Suc.prems by auto
  next
    case (Some b)
    obtain t1 where t1: "BufferChain_add_back this b = Inr t1" "bc_wf t1" "bc_bufs t1 = bc_bufs this @ [b]"
      using BufferChain_add_back_ok [OF Suc.prems(1)] Suc.prems(4) Some by auto
    obtain o1 where o1: "BufferChain_pop_front other =
        Inr (case bc_bufs other of [] \<Rightarrow> None | b # _ \<Rightarrow> Some b, o1)" "bc_wf o1" "bc_bufs o1 = tl (bc_bufs other)"
      using BufferChain_pop_front_ok [OF Suc.prems(2)] by blast
    show ?thesis
    proof (cases "bc_bufs other")
      case Nil
      then show ?thesis using Some t1 o1 by (cases k) auto
    next
      case (Cons c cs)
      then have "iob_wf c" using Suc.prems(2) by (simp add: bc_wf_def)
      then show ?thesis
        using Suc.IH [OF t1(2) o1(2), of "Some c"] Suc.prems(3,6) Cons o1 t1 Some by auto
    qed
  qed
qed simp

lemma List_items_le_fresh: "List_wf l \<Longrightarrow> length (List_items l) \<le> l_fresh l"
  by (erule List_wfE) (simp add: List_inv_length)

lemma BufferChain_steal_bufferchain_ok:
  assumes "bc_wf this" and "bc_wf other" and "\<forall>b \<in> set (bc_bufs other). iob_ptr b = 0"
  shows "\<exists>this' other'. BufferChain_steal_bufferchain this other = Inr (this', other') \<and>
     bc_wf this' \<and> bc_wf other' \<and> bc_bufs other' = [] \<and> bc_bufs this' = bc_bufs this @ bc_bufs other"
proof -
  obtain o1 where o1: "BufferChain_pop_front other =
      Inr (case bc_bufs other of [] \<Rightarrow> None | b # _ \<Rightarrow> Some b, o1)" "bc_wf o1" "bc_bufs o1 = tl (bc_bufs other)"
    using BufferChain_pop_front_ok [OF assms(2)] by blast
  have le: "length (bc_bufs other) \<le> l_fresh (m_chain other)"
    using List_items_le_fresh [of "m_chain other"] assms(2) by (simp add: bc_wf_def bc_bufs_def)
  show ?thesis
  proof (cases "bc_bufs other")
    case Nil
    then show ?thesis using o1 assms(1) by (auto simp: BufferChain_steal_bufferchain_def)
  next
    case (Cons b bs)
    then have "iob_wf b" using assms(2) by (simp add: bc_wf_def)
    then show ?thesis
      using BufferChain_steal_loop_ok [OF assms(1) o1(2), of "Some b" "l_fresh (m_chain other)"]
        o1 assms(3) le Cons by (auto simp: BufferChain_steal_bufferchain_def)
  qed
qed

section \<open>Reading a chain\<close>

lemma compact_fold:
  assumes "iob_wf f" and "iob_ptr f = 0" and "\<forall>b \<in> set bs. iob_wf b \<and> iob_content b \<noteq> []"
    and "iob_remaining f + int (length (concat (map iob_content bs))) \<le> iob_capacity f"
  shows "\<exists>f'. rfold (\<lambda>tmp f. rbind (IOBuffer_data tmp) (\<lambda>data. rbind (IOBuffer_data_len tmp) (\<lambda>sz.
           rbind (mem_read_at (iob_mem tmp) data sz) (IOBuffer_data_add f)))) bs f = Inr f' \<and>
         iob_wf f' \<and> iob_content f' = iob_content f @ concat (map iob_content bs) \<and> iob_ptr f' = 0"
  using assms
proof (induction bs arbitrary: f)
  case (Cons b bs)
  obtain f1 where f1: "IOBuffer_data_add f (map Some (iob_content b)) = Inr f1" "iob_wf f1"
    "iob_content f1 = iob_content f @ iob_content b" "iob_capacity f1 = iob_capacity f" "iob_ptr f1 = 0"
    "iob_remaining f1 = iob_remaining f + int (length (iob_content b))"
    using IOBuffer_data_add_ok [OF Cons.prems(1), of "iob_content b"] Cons.prems by auto
  with Cons.IH [OF f1(2,5)] Cons.prems show ?case by (auto simp: iob_data_cells)
qed simp

lemma BufferChain_compact_ok:
  assumes wf: "bc_wf bc" and ne: "bc_full bc"
  shows "\<exists>f. BufferChain_compact bc = Inr f \<and> iob_wf f \<and> iob_content f = bc_content bc \<and> iob_ptr f = 0"
  using compact_fold [of "IOBuffer_new_with_capacity (m_size bc)" "bc_bufs bc"] wf ne
  by (auto simp: BufferChain_compact_def BufferChain_size_def List_foreach_items bc_wf_def bc_bufs_def
      bc_content_def bc_full_def IOBuffer_new_with_capacity_wf)

lemma eq_cstr_inner_ok:
  "no_nul d \<Longrightarrow> i \<le> length c \<Longrightarrow> eq_cstr_inner (c @ [NUL]) (map Some d) i =
     Inr (if take (length d) (drop i c) = d then Inr (i + length d) else Inl False)"
proof (induction d arbitrary: i)
  case (Cons x d)
  show ?case
  proof (cases "i = length c")
    case True
    then show ?thesis using Cons.prems by auto
  next
    case False
    then have "i < length c" using Cons.prems by simp
    with Cons.IH [of "i + 1"] Cons.prems show ?thesis
      by (auto simp: nth_append Cons_nth_drop_Suc [symmetric])
  qed
qed simp

lemma take_append_eq:
  "take (length (d @ e)) t = d @ e \<longleftrightarrow> take (length d) t = d \<and> take (length e) (drop (length d) t) = e"
proof (cases "length d \<le> length t")
  case True
  then show ?thesis by (simp add: take_add min_absorb2)
next
  case False
  then show ?thesis by (auto dest: arg_cong [where f = length])
qed

lemma rsearch_eq_cstr:
  assumes "\<forall>b \<in> snd ` set as. iob_wf b" and "no_nul (concat (map (iob_content \<circ> snd) as))" and "i \<le> length c"
  shows "rsearch (\<lambda>_ tmp i. rbind (IOBuffer_data tmp) (\<lambda>data. rbind (IOBuffer_data_len tmp) (\<lambda>sz.
           rbind (mem_read_at (iob_mem tmp) data sz) (\<lambda>cs. eq_cstr_inner (c @ [NUL]) cs i)))) as i =
     Inr (let d = concat (map (iob_content \<circ> snd) as) in
          if take (length d) (drop i c) = d then Inr (i + length d) else Inl False)"
  using assms
proof (induction as arbitrary: i)
  case (Cons ax as)
  obtain a x where ax: "ax = (a, x)" by force
  let ?d = "iob_content x" and ?e = "concat (map (iob_content \<circ> snd) as)"
  have x: "iob_wf x" "no_nul ?d" using Cons.prems ax by auto
  have split: "take (length (?d @ ?e)) (drop i c) = ?d @ ?e \<longleftrightarrow>
        take (length ?d) (drop i c) = ?d \<and> take (length ?e) (drop (i + length ?d) c) = ?e"
    using take_append_eq [of ?d ?e "drop i c"] by (simp add: add.commute)
  show ?case
  proof (cases "take (length ?d) (drop i c) = ?d")
    case True
    then have "i + length ?d \<le> length c" using Cons.prems(3)
      by (metis add_le_cancel_left diff_add_inverse le_add_diff_inverse length_drop length_take min.cobounded1)
    with True show ?thesis
      using Cons.IH [of "i + length ?d"] Cons.prems x split ax
      by (simp add: iob_data_cells eq_cstr_inner_ok Let_def add.assoc comp_def)
  next
    case False
    then show ?thesis using split x ax Cons.prems(3) by (simp add: iob_data_cells eq_cstr_inner_ok Let_def comp_def)
  qed
qed (simp add: Let_def)

lemma BufferChain_eq_cstr_ok:
  assumes wf: "bc_wf bc" and nn: "no_nul (bc_content bc)"
  shows "BufferChain_eq_cstr bc cstr = Inr (\<exists>rest. c_str cstr = bc_content bc @ rest)"
proof -
  obtain as where as: "List_inv (m_chain bc) as" "bc_bufs bc = map snd as"
    using wf by (auto simp: bc_wf_def bc_bufs_def elim: List_wfE)
  then have c: "bc_content bc = concat (map (iob_content \<circ> snd) as)" by (simp add: bc_content_def)
  have "(take (length d) t = d) = (\<exists>rest. t = d @ rest)" for d t :: string
    by (metis append_eq_conv_conj append_take_drop_id)
  with rsearch_eq_cstr [of as 0 "c_str cstr"] show ?thesis
    using as wf nn c by (auto simp: BufferChain_eq_cstr_def List_search_inv bc_wf_def Let_def)
qed

section \<open>Release\<close>

lemma release_loop_ok:
  assumes "List_inv l as" and "l_dealloc l = NullingDealloc" and "length as \<le> k"
  shows "\<exists>l'. BufferChain_release_loop k l (case as of [] \<Rightarrow> None | (a, _) # _ \<Rightarrow> Some a) = Inr l' \<and>
     List_inv l' [] \<and> l_dealloc l' = NullingDealloc \<and> l_freed l' = l_freed l @ map snd as"
  using assms
proof (induction as arbitrary: l k)
  case Nil
  then show ?case by (cases k) auto
next
  case (Cons ax as)
  obtain a x where ax: "ax = (a, x)" by force
  obtain k' where k: "k = Suc k'" using Cons.prems(3) by (cases k) auto
  have inv: "List_inv l ([] @ (a, x) # as)" using Cons.prems(1) ax by simp
  from List_itr_remove_inv [OF inv] obtain l1 where l1: "List_itr_remove l (Some a) = Inr l1"
    "List_inv l1 as" "l_dealloc l1 = l_dealloc l" "l_freed l1 = l_freed l @ [x]"
    using Cons.prems(2) by auto
  with Cons.IH [of l1 k'] List_itr_next_inv [OF inv] Cons.prems k ax show ?case by auto
qed

lemma BufferChain_free_ok:
  assumes wf: "bc_wf bc"
  shows "BufferChain_free bc = Inr (l_freed (m_chain bc) @ bc_bufs bc)"
proof -
  obtain as where as: "List_inv (m_chain bc) as" "bc_bufs bc = map snd as"
    using wf by (auto simp: bc_wf_def bc_bufs_def elim: List_wfE)
  have d: "l_dealloc (m_chain bc) = NullingDealloc" using wf by (simp add: bc_wf_def)
  from release_loop_ok [OF as(1) d List_inv_length [OF as(1)]] obtain l where l:
    "BufferChain_release_loop (l_fresh (m_chain bc)) (m_chain bc) (List_iterator (m_chain bc)) = Inr l"
    "List_inv l []" "l_dealloc l = NullingDealloc" "l_freed l = l_freed (m_chain bc) @ map snd as"
    using List_inv_head [OF as(1)] by (auto simp: List_iterator_def)
  from List_destroy_inv [OF l(2)] l(3,4) as(2) l(1) show ?thesis
    by (auto simp: BufferChain_free_def List_dispose_def)
qed

lemma BufferChain_dispose_ok:
  assumes "bc_wf bc"
  shows "BufferChain_dispose bc = Inr (l_freed (m_chain bc) @ bc_bufs bc, None)"
  using BufferChain_free_ok [OF assms]
  by (auto simp: BufferChain_dispose_def BufferChain_free_def rbind_eq_Inr)

section \<open>Properties\<close>

text \<open>
  Appending bytes to a buffer chain, in the last buffer or in a new one, adds exactly these
  bytes to the content and keeps the size in step with it; only an append of no bytes fails, at
  the assertion of \<open>IOBuffer_commit\<close>.
\<close>

theorem BufferChain_append_outcome:
  assumes "bc_wf bc"
  shows "if s = [] then BufferChain_append bc s = Inl Assertion
     else \<exists>bc'. BufferChain_append bc s = Inr bc' \<and> bc_wf bc' \<and> bc_content bc' = bc_content bc @ s \<and>
            BufferChain_size bc' = BufferChain_size bc + int (length s)"
proof (cases "s = []")
  case True
  then show ?thesis using BufferChain_append_Nil [OF assms] by simp
next
  case False
  obtain bc' where "BufferChain_append bc s = Inr bc'" "bc_wf bc'" "bc_content bc' = bc_content bc @ s"
    using BufferChain_append_ok [OF assms False] by blast
  then show ?thesis using False assms by (simp add: BufferChain_size_def bc_wf_def)
qed

theorem BufferChain_append_outcome_witness:
  "\<exists>bc'. BufferChain_append BufferChain_new ''body'' = Inr bc' \<and> bc_content bc' = ''body'' \<and> BufferChain_size bc' = 4"
  using BufferChain_append_outcome [of BufferChain_new "''body''"] BufferChain_new_wf
  by (auto simp: BufferChain_size_def) (simp add: BufferChain_new_def)

text \<open>
  Feeding a body in fragments and compacting it gives one buffer with the concatenation of
  the fragments, for every way to cut a body into non-empty fragments.
\<close>

theorem BufferChain_fragments_compact:
  assumes "[] \<notin> set ss"
  shows "\<exists>bc b. rfold (\<lambda>s bc. BufferChain_append bc s) ss BufferChain_new = Inr bc \<and>
     BufferChain_compact bc = Inr b \<and> iob_wf b \<and> iob_content b = concat ss"
proof -
  have run: "\<exists>bc'. rfold (\<lambda>s bc. BufferChain_append bc s) ss bc = Inr bc' \<and> bc_full bc'"
    if "bc_wf bc" "bc_full bc" for bc
    using that assms
  proof (induction ss arbitrary: bc)
    case (Cons s ss)
    obtain b1 where "BufferChain_append bc s = Inr b1" "bc_wf b1" "bc_full b1"
      using BufferChain_append_ok [OF Cons.prems(1), of s] Cons.prems by auto
    with Cons.IH [of b1] Cons.prems(3) show ?case by simp
  qed simp
  obtain bc where bc: "rfold (\<lambda>s bc. BufferChain_append bc s) ss BufferChain_new = Inr bc" "bc_full bc"
    using run [of BufferChain_new] BufferChain_new_wf by blast
  have "bc_content bc = concat ss" "bc_wf bc"
    using bchain.fragments_content [OF _ bc(1)] BufferChain_new_wf by auto
  with BufferChain_compact_ok [OF _ bc(2)] bc(1) show ?thesis by auto
qed

theorem BufferChain_fragments_compact_witness:
  "\<exists>bc b. rfold (\<lambda>s bc. BufferChain_append bc s) [''ab'', ''c'', ''def''] BufferChain_new = Inr bc \<and>
     BufferChain_compact bc = Inr b \<and> iob_wf b \<and> iob_content b = ''abcdef''"
  using BufferChain_fragments_compact [of "[''ab'', ''c'', ''def'']"] by simp

text \<open>
  \<open>BufferChain_eq_cstr\<close> holds for every C string of which the content of the chain is a
  prefix, not only for an equal one.
\<close>

theorem BufferChain_eq_cstr_prefix:
  assumes "bc_wf bc" and "no_nul (bc_content bc)"
  shows "BufferChain_eq_cstr bc cstr = Inr (\<exists>rest. c_str cstr = bc_content bc @ rest)"
  by (rule BufferChain_eq_cstr_ok [OF assms])

theorem BufferChain_eq_cstr_prefix_witness:
  "BufferChain_eq_cstr BufferChain_new ''anything'' = Inr True"
  using BufferChain_eq_cstr_prefix [of BufferChain_new "''anything''"] BufferChain_new_wf by simp

text \<open>
  Stealing a chain moves all its buffers, in order, to the end of the other one and leaves it
  empty; the loop ends.
\<close>

theorem BufferChain_steal_moves:
  assumes "bc_wf this" and "bc_wf other" and "\<forall>b \<in> set (bc_bufs other). iob_ptr b = 0"
  shows "\<exists>this' other'. BufferChain_steal_bufferchain this other = Inr (this', other') \<and>
     bc_wf this' \<and> bc_wf other' \<and> bc_content this' = bc_content this @ bc_content other \<and> bc_content other' = []"
  using BufferChain_steal_bufferchain_ok [OF assms] by (auto simp: bc_content_def)

theorem BufferChain_steal_moves_witness:
  "\<exists>bc this' other'. BufferChain_append BufferChain_new ''xyz'' = Inr bc \<and>
     BufferChain_steal_bufferchain BufferChain_new bc = Inr (this', other') \<and>
     bc_content this' = ''xyz'' \<and> bc_content other' = []"
proof -
  obtain bc where bc: "chain_append_new BufferChain_new (map Some ''xyz'') = Inr bc" "bc_wf bc" "bc_content bc = ''xyz''"
    using chain_append_new_ok [of BufferChain_new "''xyz''"] BufferChain_new_wf by auto
  then have app: "BufferChain_append BufferChain_new ''xyz'' = Inr bc"
    by (simp add: BufferChain_append_def BufferChain_append_cells_def BufferChain_new_def)
  have "length (bc_bufs bc) \<le> 1"
  proof -
    obtain b where "IOBuffer_data_add (IOBuffer_new_with_capacity 8192) (map Some ''xyz'') = Inr b"
      using bc(1) by (auto simp: chain_append_new_def rbind_eq_Inr Let_def)
    then have "List_add_back (m_chain BufferChain_new) b = Inr (m_chain bc)"
      using bc(1) by (auto simp: chain_append_new_def rbind_eq_Inr Let_def)
    moreover obtain l where "List_add_back (m_chain BufferChain_new) b = Inr l"
      "List_items l = List_items (m_chain BufferChain_new) @ [b]"
      using List_add_back_wf [of "m_chain BufferChain_new" b] BufferChain_new_wf by (auto simp: bc_wf_def)
    ultimately show ?thesis by (simp add: bc_bufs_def BufferChain_new_def List_new_items)
  qed
  then have "\<forall>b \<in> set (bc_bufs bc). iob_ptr b = 0"
    using bc(2) by (cases "bc_bufs bc") (auto simp: bc_wf_def)
  from BufferChain_steal_moves [OF _ bc(2) this, of BufferChain_new] BufferChain_new_wf bc(3) app show ?thesis
    by fastforce
qed

text \<open>Freeing a chain releases each of its buffers exactly once.\<close>

theorem BufferChain_free_once:
  assumes "bc_wf bc"
  shows "BufferChain_free bc = Inr (l_freed (m_chain bc) @ bc_bufs bc)"
  by (rule BufferChain_free_ok [OF assms])

theorem BufferChain_free_once_witness: "BufferChain_free BufferChain_new = Inr []"
  using BufferChain_free_once [of BufferChain_new] BufferChain_new_wf
  by (simp add: bc_bufs_def BufferChain_new_def List_new_items) (simp add: List_new_def List_init_def)

end
