(* ===== verification/CH_HeaderList.thy ===== *)
theory CH_HeaderList
  imports CH_List CH_Cbuffer
begin

text \<open>
  Header lines: \<open>src/http_in_c/http/kvpair.c\<close>, \<open>src/http_in_c/http/header_list.c\<close> and
  \<open>make_upper\<close> of \<open>src/http_in_c/common/utils.c\<close>.  A key/value pair owns two blocks that end
  with a \<open>NUL\<close>; the model keeps the bytes before that final \<open>NUL\<close>, and what a C string
  function sees of them is \<open>c_str\<close>.
\<close>

section \<open>Upper case\<close>

text \<open>\<open>toupper\<close> in the C locale.\<close>

definition toupper :: "char \<Rightarrow> char" where
  "toupper c = (if 97 \<le> (of_char c :: nat) \<and> (of_char c :: nat) \<le> 122
                then char_of ((of_char c :: nat) - 32) else c)"

definition make_upper :: "string \<Rightarrow> string" where
  "make_upper src = map toupper (c_str src)"

section \<open>Key/value pairs\<close>

record KVPair =
  label_ptr :: string
  label_len :: int
  value_ptr :: string
  value_len :: int

definition KVPair_new :: "string \<Rightarrow> string \<Rightarrow> KVPair" where
  "KVPair_new lab val =
     \<lparr>label_ptr = map toupper lab, label_len = int (length lab),
      value_ptr = val, value_len = int (length val)\<rparr>"

definition KVPair_from_cstrs :: "string \<Rightarrow> string \<Rightarrow> KVPair" where
  "KVPair_from_cstrs key val = KVPair_new (c_str key) (c_str val)"

definition KVPair_from_cstrpair :: "string \<times> string \<Rightarrow> KVPair" where
  "KVPair_from_cstrpair cstrp = KVPair_from_cstrs (fst cstrp) (snd cstrp)"

definition KVPair_label :: "KVPair \<Rightarrow> string" where
  "KVPair_label kv = label_ptr kv"

definition KVPair_value :: "KVPair \<Rightarrow> string" where
  "KVPair_value kv = value_ptr kv"

text \<open>\<open>value_len\<close> is left as it was, as in the code.\<close>

definition KVPair_set_value :: "KVPair \<Rightarrow> string \<Rightarrow> KVPair" where
  "KVPair_set_value kv val = kv\<lparr>value_ptr := val\<rparr>"

section \<open>Header lists\<close>

type_synonym HdrList = "KVPair List"

definition HdrList_new :: HdrList where
  "HdrList_new = List_new NullingDealloc"

definition HdrList_dispose :: "HdrList \<Rightarrow> HdrList res" where
  "HdrList_dispose l = List_dispose l"

definition HdrList_size :: "HdrList \<Rightarrow> int" where
  "HdrList_size l = List_size l"

definition HdrList_first :: "HdrList \<Rightarrow> KVPair option res" where
  "HdrList_first l = List_first l"

definition HdrList_last :: "HdrList \<Rightarrow> KVPair option res" where
  "HdrList_last l = List_last l"

definition HdrList_remove_first :: "HdrList \<Rightarrow> (KVPair option \<times> HdrList) res" where
  "HdrList_remove_first l = List_remove_first l"

definition HdrList_remove_last :: "HdrList \<Rightarrow> (KVPair option \<times> HdrList) res" where
  "HdrList_remove_last l = List_remove_last l"

definition HdrList_itr_unpack :: "HdrList \<Rightarrow> addr option \<Rightarrow> KVPair option res" where
  "HdrList_itr_unpack l iter = List_itr_unpack l iter"

definition HdrList_iterator :: "HdrList \<Rightarrow> addr option" where
  "HdrList_iterator l = List_iterator l"

definition HdrList_itr_next :: "HdrList \<Rightarrow> addr option \<Rightarrow> addr option res" where
  "HdrList_itr_next l iter = List_itr_next l iter"

definition HdrList_itr_remove :: "HdrList \<Rightarrow> addr option \<Rightarrow> HdrList res" where
  "HdrList_itr_remove l iter = List_itr_remove l iter"

definition HdrList_add_back :: "HdrList \<Rightarrow> KVPair \<Rightarrow> HdrList res" where
  "HdrList_add_back l item = List_add_back l item"

definition HdrList_add_front :: "HdrList \<Rightarrow> KVPair \<Rightarrow> HdrList res" where
  "HdrList_add_front l item = List_add_front l item"

definition HdrList_add_cbuf :: "HdrList \<Rightarrow> Cbuffer \<Rightarrow> Cbuffer \<Rightarrow> HdrList res" where
  "HdrList_add_cbuf this key val =
     rbind (Cbuffer_data key) (\<lambda>labptr.
     rbind (Cbuffer_size key) (\<lambda>lablen.
     rbind (Cbuffer_data val) (\<lambda>valptr.
     rbind (Cbuffer_size val) (\<lambda>vallen.
     rbind (read_bytes labptr 0 lablen) (\<lambda>lab.
     rbind (read_bytes valptr 0 vallen) (\<lambda>v.
     HdrList_add_back this (KVPair_new lab v)))))))"

definition HdrList_add_line :: "HdrList \<Rightarrow> string \<Rightarrow> string \<Rightarrow> HdrList res" where
  "HdrList_add_line this lab val = HdrList_add_front this (KVPair_new lab val)"

definition HdrList_add_cstr :: "HdrList \<Rightarrow> string \<Rightarrow> string \<Rightarrow> HdrList res" where
  "HdrList_add_cstr this lab val = HdrList_add_back this (KVPair_new (c_str lab) (c_str val))"

text \<open>The rows of a two column array before the row whose key is \<open>NULL\<close>.\<close>

definition HdrList_add_arr :: "HdrList \<Rightarrow> (string \<times> string) list \<Rightarrow> HdrList res" where
  "HdrList_add_arr this ar = rfold (\<lambda>(k, v) this. HdrList_add_cstr this k v) ar this"

definition HdrList_from_array :: "(string \<times> string) list \<Rightarrow> HdrList res" where
  "HdrList_from_array ar = rfold (\<lambda>(k, v) tmp. HdrList_add_cstr tmp k v) ar HdrList_new"

text \<open>The body of the loop of \<open>HdrList_add_many\<close> is empty.\<close>

definition HdrList_add_many :: "HdrList \<Rightarrow> (string \<times> string) list \<Rightarrow> HdrList res" where
  "HdrList_add_many this pairs = rfold (\<lambda>_ this. Inr this) pairs this"

definition HdrList_find_iter :: "HdrList \<Rightarrow> string \<Rightarrow> addr option res" where
  "HdrList_find_iter l key =
     (let fixed_key = make_upper key in
      rbind (List_search l (\<lambda>iter kv (u :: unit).
               Inr (if c_str (KVPair_label kv) = c_str fixed_key then Inl iter else Inr u)) ()) (\<lambda>r.
      Inr (case r of Inl iter \<Rightarrow> Some iter | Inr _ \<Rightarrow> None)))"

definition HdrList_find :: "HdrList \<Rightarrow> string \<Rightarrow> KVPair option res" where
  "HdrList_find l key =
     rbind (HdrList_find_iter l key) (\<lambda>iter.
     case iter of None \<Rightarrow> Inr None | Some _ \<Rightarrow> HdrList_itr_unpack l iter)"

definition HdrList_remove :: "HdrList \<Rightarrow> string \<Rightarrow> HdrList res" where
  "HdrList_remove l key =
     rbind (HdrList_find_iter l key) (\<lambda>iter.
     case iter of None \<Rightarrow> Inr l | Some _ \<Rightarrow> HdrList_itr_remove l iter)"

definition CRLF :: string where
  "CRLF = [CHR 0x0D, CHR 0x0A]"

definition HdrList_serialize :: "HdrList \<Rightarrow> Cbuffer res" where
  "HdrList_serialize this =
     rbind Cbuffer_new (\<lambda>cb.
     List_foreach this (\<lambda>line cb.
       rbind (Cbuffer_append_cstr cb (KVPair_label line)) (\<lambda>cb.
       rbind (Cbuffer_append_cstr cb '': '') (\<lambda>cb.
       rbind (Cbuffer_append_cstr cb (KVPair_value line)) (\<lambda>cb.
       Cbuffer_append_cstr cb CRLF)))) cb)"

section \<open>What the list means\<close>

text \<open>
  A header list is an ordered sequence of lines.  \<open>hl_find\<close> is the specification of a lookup:
  the first line whose key matches, the case of letters not being significant.
\<close>

definition hl_match :: "string \<Rightarrow> KVPair \<Rightarrow> bool" where
  "hl_match key kv \<longleftrightarrow> c_str (label_ptr kv) = make_upper key"

definition hl_find :: "KVPair list \<Rightarrow> string \<Rightarrow> KVPair option" where
  "hl_find kvs key = List.find (hl_match key) kvs"

definition hl_remove :: "KVPair list \<Rightarrow> string \<Rightarrow> KVPair list" where
  "hl_remove kvs key =
     takeWhile (\<lambda>kv. \<not> hl_match key kv) kvs @ tl (dropWhile (\<lambda>kv. \<not> hl_match key kv) kvs)"

definition hl_line :: "KVPair \<Rightarrow> string" where
  "hl_line kv = c_str (label_ptr kv) @ '': '' @ c_str (value_ptr kv) @ CRLF"

definition hl_wf :: "HdrList \<Rightarrow> bool" where
  "hl_wf l \<longleftrightarrow> List_wf l \<and> l_dealloc l = NullingDealloc \<and>
     (\<forall>kv \<in> set (List_items l). map toupper (label_ptr kv) = label_ptr kv \<and>
        label_len kv = int (length (label_ptr kv)))"

lemma of_char_toupper:
  "(of_char (toupper c) :: nat) = (if 97 \<le> (of_char c :: nat) \<and> (of_char c :: nat) \<le> 122
     then of_char c - 32 else of_char c)"
  by (auto simp: toupper_def intro!: mod_less)

lemma toupper_idem [simp]: "toupper (toupper c) = toupper c"
  unfolding toupper_def [of "toupper c"] of_char_toupper by auto

lemma toupper_NUL_iff [simp]: "toupper c = NUL \<longleftrightarrow> c = NUL"
proof -
  have "toupper c = NUL \<longleftrightarrow> (of_char (toupper c) :: nat) = of_char NUL"
    by (simp only: of_char_eq_iff)
  also have "\<dots> \<longleftrightarrow> (of_char c :: nat) = of_char NUL"
    unfolding of_char_toupper by simp
  finally show ?thesis by (simp only: of_char_eq_iff)
qed

lemma c_str_map_toupper [simp]: "c_str (map toupper s) = map toupper (c_str s)"
  by (induction s) (auto simp: c_str_def)

lemma make_upper_idem: "make_upper (make_upper s) = make_upper s"
  by (simp add: make_upper_def comp_def)


section \<open>The operations on the sequence of lines\<close>

lemma HdrList_new_wf: "hl_wf HdrList_new \<and> List_items HdrList_new = []"
  by (simp add: hl_wf_def HdrList_new_def List_new_wf List_new_items)
     (simp add: List_new_def List_init_def)

lemma KVPair_new_upper:
  "map toupper (label_ptr (KVPair_new k v)) = label_ptr (KVPair_new k v) \<and>
   label_len (KVPair_new k v) = int (length (label_ptr (KVPair_new k v)))"
  by (simp add: KVPair_new_def comp_def)

lemma HdrList_add_back_ok:
  assumes "hl_wf l" and "map toupper (label_ptr kv) = label_ptr kv" and "label_len kv = int (length (label_ptr kv))"
  shows "\<exists>l'. HdrList_add_back l kv = Inr l' \<and> hl_wf l' \<and> List_items l' = List_items l @ [kv]"
  using List_add_back_wf [of l kv] assms by (auto simp: hl_wf_def HdrList_add_back_def)

lemma HdrList_add_front_ok:
  assumes "hl_wf l" and "map toupper (label_ptr kv) = label_ptr kv" and "label_len kv = int (length (label_ptr kv))"
  shows "\<exists>l'. HdrList_add_front l kv = Inr l' \<and> hl_wf l' \<and> List_items l' = kv # List_items l"
  using List_add_front_wf [of l kv] assms by (auto simp: hl_wf_def HdrList_add_front_def)

lemma HdrList_add_cstr_ok:
  "hl_wf l \<Longrightarrow> \<exists>l'. HdrList_add_cstr l k v = Inr l' \<and> hl_wf l' \<and>
     List_items l' = List_items l @ [KVPair_new (c_str k) (c_str v)]"
  using HdrList_add_back_ok KVPair_new_upper by (simp add: HdrList_add_cstr_def)

lemma HdrList_add_line_ok:
  "hl_wf l \<Longrightarrow> \<exists>l'. HdrList_add_line l k v = Inr l' \<and> hl_wf l' \<and> List_items l' = KVPair_new k v # List_items l"
  using HdrList_add_front_ok KVPair_new_upper by (simp add: HdrList_add_line_def)

lemma HdrList_add_cbuf_ok:
  "hl_wf l \<Longrightarrow> cb_wf k \<Longrightarrow> cb_wf v \<Longrightarrow> \<exists>l'. HdrList_add_cbuf l k v = Inr l' \<and> hl_wf l' \<and>
     List_items l' = List_items l @ [KVPair_new (cb_content k) (cb_content v)]"
  using HdrList_add_back_ok KVPair_new_upper cb_read_back [of k] cb_read_back [of v]
  by (simp add: HdrList_add_cbuf_def Cbuffer_data_def Cbuffer_size_ok cb_wf_check cb_content_length)

lemma rsearch_first:
  "rsearch (\<lambda>a x (u :: unit). Inr (if P x then Inl a else Inr u)) as () =
   Inr (case List.find (\<lambda>ax. P (snd ax)) as of Some ax \<Rightarrow> Inl (fst ax) | None \<Rightarrow> Inr ())"
  by (induction as) (auto split: option.splits)

lemma HdrList_find_iter_inv:
  "List_inv l as \<Longrightarrow> HdrList_find_iter l key = Inr (map_option fst (List.find (\<lambda>ax. hl_match key (snd ax)) as))"
  unfolding HdrList_find_iter_def Let_def
  by (subst List_search_inv, assumption, subst rsearch_first)
     (auto simp: hl_match_def KVPair_label_def make_upper_def split: option.splits)

lemma find_map_snd: "List.find P (map snd as) = map_option snd (List.find (\<lambda>ax. P (snd ax)) as)"
  by (induction as) auto

lemma find_split:
  "List.find P xs = Some x \<Longrightarrow> \<exists>ys zs. xs = ys @ x # zs \<and> P x \<and> (\<forall>y \<in> set ys. \<not> P y)"
proof (induction xs)
  case (Cons a xs)
  show ?case
  proof (cases "P a")
    case True
    with Cons.prems show ?thesis by (auto intro: exI [of _ "[]"])
  next
    case False
    with Cons obtain ys zs where "xs = ys @ x # zs" "P x" "\<forall>y \<in> set ys. \<not> P y" by auto
    with False show ?thesis by (intro exI [of _ "a # ys"] exI [of _ zs]) auto
  qed
qed simp

lemma find_iter_cases:
  assumes inv: "List_inv l as"
  shows "(HdrList_find_iter l key = Inr None \<and> (\<forall>ax \<in> set as. \<not> hl_match key (snd ax))) \<or>
     (\<exists>bs a kv cs. HdrList_find_iter l key = Inr (Some a) \<and> as = bs @ (a, kv) # cs \<and> hl_match key kv \<and>
        (\<forall>ax \<in> set bs. \<not> hl_match key (snd ax)))"
proof (cases "List.find (\<lambda>ax. hl_match key (snd ax)) as")
  case None
  then show ?thesis using HdrList_find_iter_inv [OF inv] by (auto simp: find_None_iff)
next
  case (Some ax)
  then have it: "HdrList_find_iter l key = Inr (Some (fst ax))" using HdrList_find_iter_inv [OF inv] by simp
  from find_split [OF Some] obtain bs cs where "as = bs @ (fst ax, snd ax) # cs" "hl_match key (snd ax)"
    "\<forall>ax \<in> set bs. \<not> hl_match key (snd ax)" by auto
  with it show ?thesis by blast
qed

lemma hl_find_append:
  "\<forall>kv \<in> set bs. \<not> hl_match key kv \<Longrightarrow> hl_match key kv \<Longrightarrow> hl_find (bs @ kv # cs) key = Some kv"
  by (induction bs) (auto simp: hl_find_def)

lemma hl_remove_append:
  "\<forall>kv \<in> set bs. \<not> hl_match key kv \<Longrightarrow> hl_match key kv \<Longrightarrow> hl_remove (bs @ kv # cs) key = bs @ cs"
  by (simp add: hl_remove_def)

lemma HdrList_find_ok:
  assumes "List_wf l"
  shows "HdrList_find l key = Inr (hl_find (List_items l) key)"
proof -
  obtain as where as: "List_inv l as" "List_items l = map snd as" by (rule List_wfE [OF assms])
  from find_iter_cases [OF as(1), of key] show ?thesis
  proof (elim disjE exE conjE)
    assume "HdrList_find_iter l key = Inr None" "\<forall>ax \<in> set as. \<not> hl_match key (snd ax)"
    then show ?thesis using as(2) by (auto simp: HdrList_find_def hl_find_def find_None_iff eq_commute [of None])
  next
    fix bs a kv cs
    assume *: "HdrList_find_iter l key = Inr (Some a)" "as = bs @ (a, kv) # cs" "hl_match key kv"
      "\<forall>ax \<in> set bs. \<not> hl_match key (snd ax)"
    then have "hl_find (List_items l) key = Some kv" using as(2) by (simp add: hl_find_append)
    then show ?thesis using * List_itr_unpack_inv [of l bs a kv cs] as(1)
      by (simp add: HdrList_find_def HdrList_itr_unpack_def)
  qed
qed

lemma HdrList_remove_ok:
  assumes wf: "hl_wf l"
  shows "\<exists>l'. HdrList_remove l key = Inr l' \<and> hl_wf l' \<and> List_items l' = hl_remove (List_items l) key"
proof -
  have lw: "List_wf l" using wf by (simp add: hl_wf_def)
  obtain as where as: "List_inv l as" "List_items l = map snd as" by (rule List_wfE [OF lw])
  from find_iter_cases [OF as(1), of key] show ?thesis
  proof (elim disjE exE conjE)
    assume none: "HdrList_find_iter l key = Inr None" "\<forall>ax \<in> set as. \<not> hl_match key (snd ax)"
    then have "\<forall>kv \<in> set (List_items l). \<not> hl_match key kv" using as(2) by simp
    then have "hl_remove (List_items l) key = List_items l"
      by (simp add: hl_remove_def takeWhile_eq_all_conv [THEN iffD2] dropWhile_eq_Nil_conv [THEN iffD2])
    then show ?thesis using none(1) wf by (simp add: HdrList_remove_def)
  next
    fix bs a kv cs
    assume *: "HdrList_find_iter l key = Inr (Some a)" "as = bs @ (a, kv) # cs" "hl_match key kv"
      "\<forall>ax \<in> set bs. \<not> hl_match key (snd ax)"
    then have r: "hl_remove (List_items l) key = map snd (bs @ cs)"
      using as(2) by (simp add: hl_remove_append)
    from List_itr_remove_inv [of l bs a kv cs] * as(1) obtain l' where
      l': "List_itr_remove l (Some a) = Inr l'" "List_inv l' (bs @ cs)" "l_dealloc l' = l_dealloc l" by auto
    then have "hl_wf l' \<and> List_items l' = map snd (bs @ cs)"
      using List_wfI [OF l'(2)] wf * as(2) by (auto simp: hl_wf_def)
    with l'(1) r * show ?thesis by (simp add: HdrList_remove_def HdrList_itr_remove_def)
  qed
qed

text \<open>Updating the value of the line that a lookup found.\<close>

lemma HdrList_store_ok:
  assumes wf: "hl_wf l" and f: "HdrList_find_iter l key = Inr (Some a)"
  shows "\<exists>bs kv cs. List_items l = bs @ kv # cs \<and> hl_match key kv \<and> (\<forall>x \<in> set bs. \<not> hl_match key x) \<and>
     HdrList_itr_unpack l (Some a) = Inr (Some kv) \<and>
     (\<forall>v. \<exists>l'. List_item_store l (Some a) (KVPair_set_value kv v) = Inr l' \<and> hl_wf l' \<and>
          List_items l' = bs @ KVPair_set_value kv v # cs)"
proof -
  have lw: "List_wf l" using wf by (simp add: hl_wf_def)
  obtain as where as: "List_inv l as" "List_items l = map snd as" by (rule List_wfE [OF lw])
  from find_iter_cases [OF as(1), of key] f obtain bs kv cs where *: "as = bs @ (a, kv) # cs"
    "hl_match key kv" "\<forall>ax \<in> set bs. \<not> hl_match key (snd ax)" by auto
  have store: "\<exists>l'. List_item_store l (Some a) (KVPair_set_value kv v) = Inr l' \<and> hl_wf l' \<and>
          List_items l' = map snd bs @ KVPair_set_value kv v # map snd cs" for v
    using List_item_store_inv [of l bs a kv cs "KVPair_set_value kv v"] as * wf
    by (auto simp: hl_wf_def KVPair_set_value_def dest!: List_wfI)
  have "List_items l = map snd bs @ kv # map snd cs" "\<forall>x \<in> set (map snd bs). \<not> hl_match key x"
    using as * by auto
  with store *(2) show ?thesis
    using List_itr_unpack_inv [of l bs a kv cs] as(1) *(1) unfolding HdrList_itr_unpack_def by blast
qed

section \<open>Serialisation\<close>

lemma Cbuffer_append_cstr_ok:
  assumes "cb_wf cb" and "length (c_str s) \<le> 256" and "length (cb_content cb) + length (c_str s) < 1024 * 1024"
  shows "\<exists>cb'. Cbuffer_append_cstr cb s = Inr cb' \<and> cb_wf cb' \<and> cb_content cb' = cb_content cb @ c_str s"
proof -
  have "cb_fits cb (length (c_str s))"
    using assms by (auto simp: cb_fits_def cb_wf_def cb_content_length)
  with Cbuffer_append_ok [OF assms(1)] show ?thesis
    using assms(1) by (auto simp: Cbuffer_append_cstr_def cb_wf_check)
qed

definition line_small :: "KVPair \<Rightarrow> bool" where
  "line_small kv \<longleftrightarrow> length (c_str (label_ptr kv)) \<le> 256 \<and> length (c_str (value_ptr kv)) \<le> 256"

lemma serialize_line_ok:
  assumes wf: "cb_wf cb" and "line_small kv" and "length (cb_content cb) + length (hl_line kv) < 1024 * 1024"
  shows "\<exists>cb'. rbind (Cbuffer_append_cstr cb (KVPair_label kv)) (\<lambda>cb.
       rbind (Cbuffer_append_cstr cb '': '') (\<lambda>cb.
       rbind (Cbuffer_append_cstr cb (KVPair_value kv)) (\<lambda>cb.
       Cbuffer_append_cstr cb CRLF))) = Inr cb' \<and> cb_wf cb' \<and> cb_content cb' = cb_content cb @ hl_line kv"
proof -
  let ?k = "KVPair_label kv" and ?v = "KVPair_value kv"
  have c: "c_str '': '' = '': ''" "c_str CRLF = CRLF" by (auto simp: c_str_def CRLF_def)
  have small: "length (c_str ?k) \<le> 256" "length (c_str ?v) \<le> 256"
    using assms(2) by (auto simp: line_small_def KVPair_label_def KVPair_value_def)
  have tot: "length (cb_content cb) + (length (c_str ?k) + 2 + length (c_str ?v) + 2) < 1024 * 1024"
    using assms(3) by (simp add: hl_line_def KVPair_label_def KVPair_value_def CRLF_def)
  obtain c1 where c1: "Cbuffer_append_cstr cb ?k = Inr c1" "cb_wf c1" "cb_content c1 = cb_content cb @ c_str ?k"
    using Cbuffer_append_cstr_ok [OF wf small(1)] tot by auto
  obtain c2 where c2: "Cbuffer_append_cstr c1 '': '' = Inr c2" "cb_wf c2" "cb_content c2 = cb_content c1 @ '': ''"
    using Cbuffer_append_cstr_ok [OF c1(2), of "'': ''"] tot c c1(3) by auto
  obtain c3 where c3: "Cbuffer_append_cstr c2 ?v = Inr c3" "cb_wf c3" "cb_content c3 = cb_content c2 @ c_str ?v"
    using Cbuffer_append_cstr_ok [OF c2(2) small(2)] tot c1(3) c2(3) by auto
  obtain c4 where c4: "Cbuffer_append_cstr c3 CRLF = Inr c4" "cb_wf c4" "cb_content c4 = cb_content c3 @ CRLF"
    using Cbuffer_append_cstr_ok [OF c3(2), of CRLF] tot c c1(3) c2(3) c3(3) by (auto simp: CRLF_def)
  from c1 c2 c3 c4 show ?thesis by (simp add: hl_line_def KVPair_label_def KVPair_value_def)
qed

lemma serialize_fold_ok:
  assumes "cb_wf cb" and "\<forall>kv \<in> set kvs. line_small kv"
    and "length (cb_content cb) + length (concat (map hl_line kvs)) < 1024 * 1024"
  shows "\<exists>cb'. rfold (\<lambda>kv cb. rbind (Cbuffer_append_cstr cb (KVPair_label kv)) (\<lambda>cb.
       rbind (Cbuffer_append_cstr cb '': '') (\<lambda>cb.
       rbind (Cbuffer_append_cstr cb (KVPair_value kv)) (\<lambda>cb.
       Cbuffer_append_cstr cb CRLF)))) kvs cb = Inr cb' \<and> cb_wf cb' \<and>
     cb_content cb' = cb_content cb @ concat (map hl_line kvs)"
  using assms
proof (induction kvs arbitrary: cb)
  case (Cons kv kvs)
  from serialize_line_ok [OF Cons.prems(1), of kv] Cons.prems(2,3) obtain c1 where
    "rbind (Cbuffer_append_cstr cb (KVPair_label kv)) (\<lambda>cb.
       rbind (Cbuffer_append_cstr cb '': '') (\<lambda>cb.
       rbind (Cbuffer_append_cstr cb (KVPair_value kv)) (\<lambda>cb.
       Cbuffer_append_cstr cb CRLF))) = Inr c1" "cb_wf c1" "cb_content c1 = cb_content cb @ hl_line kv" by auto
  with Cons.IH [of c1] Cons.prems show ?case by auto
qed simp

lemma HdrList_serialize_ok:
  assumes "hl_wf l" and "\<forall>kv \<in> set (List_items l). line_small kv"
    and "length (concat (map hl_line (List_items l))) < 1024 * 1024"
  shows "\<exists>cb. HdrList_serialize l = Inr cb \<and> cb_wf cb \<and> cb_content cb = concat (map hl_line (List_items l))"
proof -
  obtain cb where cb: "Cbuffer_new = Inr cb" "cb_wf cb" "cb_content cb = []" using Cbuffer_new_wf by blast
  have "List_wf l" using assms(1) by (simp add: hl_wf_def)
  with serialize_fold_ok [OF cb(2) assms(2)] assms(3) cb(3) show ?thesis
    unfolding HdrList_serialize_def cb(1) by (simp add: List_foreach_items)
qed

section \<open>Properties\<close>

text \<open>
  A lookup in a header list returns the first line whose key equals the given key without
  regard to the case of letters, or nothing; a line just added under a key that was absent is
  found, and one added under a key already present does not replace the older line.
\<close>

theorem HdrList_add_then_find:
  assumes "hl_wf l"
  shows "\<exists>l'. HdrList_add_cstr l k v = Inr l' \<and> hl_wf l' \<and>
     HdrList_find l' key =
       Inr (case hl_find (List_items l) key of
              Some kv \<Rightarrow> Some kv
            | None \<Rightarrow> if make_upper k = make_upper key then Some (KVPair_new (c_str k) (c_str v)) else None)"
proof -
  obtain l' where l': "HdrList_add_cstr l k v = Inr l'" "hl_wf l'"
    "List_items l' = List_items l @ [KVPair_new (c_str k) (c_str v)]" using HdrList_add_cstr_ok [OF assms] by blast
  have m: "hl_match key (KVPair_new (c_str k) (c_str v)) \<longleftrightarrow> make_upper k = make_upper key"
    by (auto simp: hl_match_def KVPair_new_def make_upper_def)
  have snoc: "hl_find (kvs @ [kv]) key =
     (case hl_find kvs key of Some x \<Rightarrow> Some x | None \<Rightarrow> if hl_match key kv then Some kv else None)" for kvs kv
    by (induction kvs) (auto simp: hl_find_def)
  have "List_wf l'" using l'(2) by (simp add: hl_wf_def)
  from HdrList_find_ok [OF this, of key] l' show ?thesis by (simp add: snoc m)
qed

theorem HdrList_add_then_find_witness:
  "\<exists>l'. HdrList_add_cstr HdrList_new ''Host'' ''a.b'' = Inr l' \<and>
     HdrList_find l' ''HOST'' = Inr (Some (KVPair_new ''Host'' ''a.b''))"
proof -
  have "make_upper ''Host'' = make_upper ''HOST''" by code_simp
  with HdrList_add_then_find [of HdrList_new "''Host''" "''a.b''" "''HOST''"] HdrList_new_wf show ?thesis
    by (auto simp: hl_find_def)
qed

text \<open>
  Removing a key deletes the first line with that key, if there is one, and no other line;
  the remaining lines keep their order.
\<close>

theorem HdrList_remove_first_match:
  assumes "hl_wf l"
  shows "\<exists>l'. HdrList_remove l key = Inr l' \<and> hl_wf l' \<and> List_items l' = hl_remove (List_items l) key"
  by (rule HdrList_remove_ok [OF assms])

theorem HdrList_remove_first_match_witness:
  "\<exists>l'. HdrList_remove HdrList_new ''Host'' = Inr l' \<and> List_items l' = []"
  using HdrList_remove_first_match [of HdrList_new "''Host''"] HdrList_new_wf by (auto simp: hl_remove_def)

text \<open>
  Serialising a header list with keys and values of at most 256 bytes and less than one
  mebibyte in all gives the lines \<open>KEY: value\<close> in order, each ended by CR LF.
\<close>

theorem HdrList_serialize_lines:
  assumes "hl_wf l" and "\<forall>kv \<in> set (List_items l). line_small kv"
    and "length (concat (map hl_line (List_items l))) < 1024 * 1024"
  shows "\<exists>cb. HdrList_serialize l = Inr cb \<and> cb_wf cb \<and> cb_content cb = concat (map hl_line (List_items l))"
  by (rule HdrList_serialize_ok [OF assms])

theorem HdrList_serialize_lines_witness:
  "\<exists>l cb. HdrList_add_cstr HdrList_new ''Host'' ''a'' = Inr l \<and> HdrList_serialize l = Inr cb \<and>
     cb_content cb = ''HOST: a'' @ CRLF"
proof -
  obtain l where l: "HdrList_add_cstr HdrList_new ''Host'' ''a'' = Inr l" "hl_wf l"
    "List_items l = [KVPair_new ''Host'' ''a'']"
    using HdrList_add_cstr_ok [of HdrList_new "''Host''" "''a''"] HdrList_new_wf by (auto simp: c_str_def)
  have line: "hl_line (KVPair_new ''Host'' ''a'') = ''HOST: a'' @ CRLF" "line_small (KVPair_new ''Host'' ''a'')"
    by code_simp+
  have len: "length (concat (map hl_line (List_items l))) < 1024 * 1024"
    unfolding l(3) by (simp add: line(1) CRLF_def)
  have small: "\<forall>kv \<in> set (List_items l). line_small kv" unfolding l(3) using line(2) by simp
  from HdrList_serialize_lines [OF l(2) small len] l line show ?thesis by auto
qed

end
