(* ===== verification/CH_Message.thy ===== *)
theory CH_Message
  imports CH_HeaderList CH_BufferChain
begin

text \<open>
  The HTTP message container of \<open>src/http_in_c/http/message.c\<close>.  Fields that \<open>Message_new\<close>
  does not set hold an indeterminate value (\<open>None\<close>) until a setter writes them; pointers that
  may be \<open>NULL\<close> are options too.  \<open>llhttp_method_name\<close> belongs to the vendored \<open>llhttp\<close> and
  is a parameter of the functions that print a message.
\<close>

section \<open>Decimal output\<close>

text \<open>The conversion \<open>%d\<close>.\<close>

definition digit_char :: "nat \<Rightarrow> char" where
  "digit_char d = char_of (48 + d)"

fun nat_digits :: "nat \<Rightarrow> string" where
  "nat_digits n = (if n < 10 then [digit_char n] else nat_digits (n div 10) @ [digit_char (n mod 10)])"

declare nat_digits.simps [simp del]

definition int_digits :: "int \<Rightarrow> string" where
  "int_digits i = (if i < 0 then CHR ''-'' # nat_digits (nat (- i)) else nat_digits (nat i))"

definition c_deref :: "'a option \<Rightarrow> 'a res" where
  "c_deref p = (case p of None \<Rightarrow> Inl NullDeref | Some x \<Rightarrow> Inr x)"

definition c_init :: "'a option \<Rightarrow> 'a res" where
  "c_init v = (case v of None \<Rightarrow> Inl UninitRead | Some x \<Rightarrow> Inr x)"

lemma c_deref_Some [simp]: "c_deref (Some x) = Inr x"
  and c_deref_None [simp]: "c_deref None = Inl NullDeref"
  by (simp_all add: c_deref_def)

lemma c_init_Some [simp]: "c_init (Some x) = Inr x"
  and c_init_None [simp]: "c_init None = Inl UninitRead"
  by (simp_all add: c_init_def)

section \<open>Data\<close>

record Message =
  msg_tag :: string
  msg_body :: "BufferChain option"
  msg_headers :: HdrList
  msg_major_vers :: int
  msg_minor_vers :: int
  msg_is_request :: "bool option"
  msg_status_code :: "int option"
  msg_reason :: "Cbuffer option"
  msg_method :: "int option"
  msg_target :: "Cbuffer option"

definition Message_TAG :: string where
  "Message_TAG = ''MESSAGE''"

definition MSG_CHECK :: "Message \<Rightarrow> unit res" where
  "MSG_CHECK m = check_tag Message_TAG (msg_tag m)"

section \<open>Construction and release\<close>

definition Message_new :: "Message res" where
  "Message_new =
     rbind Cbuffer_new (\<lambda>target.
     rbind Cbuffer_new (\<lambda>reason.
     Inr \<lparr>msg_tag = Message_TAG, msg_body = None, msg_headers = HdrList_new, msg_major_vers = 1,
          msg_minor_vers = 1, msg_is_request = None, msg_status_code = None,
          msg_reason = Some reason, msg_method = None, msg_target = Some target\<rparr>))"

definition Message_new_request :: "Message res" where
  "Message_new_request = rbind Message_new (\<lambda>m. Inr (m\<lparr>msg_is_request := Some True\<rparr>))"

definition Message_new_response :: "Message res" where
  "Message_new_response = rbind Message_new (\<lambda>m. Inr (m\<lparr>msg_is_request := Some False\<rparr>))"

text \<open>
  The result of a dispose is the list of header lines it released; the body is not released.
  \<open>Cbuffer_dispose\<close> reads the tag through the pointer it is given.
\<close>

definition Message_dispose :: "Message \<Rightarrow> KVPair list res" where
  "Message_dispose m =
     rbind (MSG_CHECK m) (\<lambda>_.
     rbind (HdrList_dispose (msg_headers m)) (\<lambda>hdrs.
     rbind (rbind (c_deref (msg_target m)) Cbuffer_dispose) (\<lambda>_.
     rbind (rbind (c_deref (msg_reason m)) Cbuffer_dispose) (\<lambda>_.
     Inr (l_freed hdrs)))))"

definition MessageResponse :: "int \<Rightarrow> BufferChain option \<Rightarrow> Message res" where
  "MessageResponse status body =
     rbind Message_new (\<lambda>m.
     let m = m\<lparr>msg_is_request := Some False, msg_status_code := Some status, msg_body := body\<rparr> in
     rbind (case msg_target m of None \<Rightarrow> Inr m
            | Some t \<Rightarrow> rbind (Cbuffer_dispose t) (\<lambda>_. Inr (m\<lparr>msg_target := None\<rparr>))) (\<lambda>m.
     case msg_reason m of None \<Rightarrow> Inr m
     | Some r \<Rightarrow> rbind (Cbuffer_dispose r) (\<lambda>_. Inr (m\<lparr>msg_reason := None\<rparr>))))"

section \<open>First line\<close>

definition Message_get_status :: "Message \<Rightarrow> int res" where
  "Message_get_status m = rbind (MSG_CHECK m) (\<lambda>_. c_init (msg_status_code m))"

definition Message_set_status :: "Message \<Rightarrow> int \<Rightarrow> Message res" where
  "Message_set_status m status = rbind (MSG_CHECK m) (\<lambda>_. Inr (m\<lparr>msg_status_code := Some status\<rparr>))"

definition Message_get_is_request :: "Message \<Rightarrow> bool res" where
  "Message_get_is_request m = rbind (MSG_CHECK m) (\<lambda>_. c_init (msg_is_request m))"

definition Message_set_is_request :: "Message \<Rightarrow> bool \<Rightarrow> Message res" where
  "Message_set_is_request m yn = rbind (MSG_CHECK m) (\<lambda>_. Inr (m\<lparr>msg_is_request := Some yn\<rparr>))"

definition Message_get_minor_version :: "Message \<Rightarrow> int res" where
  "Message_get_minor_version m = rbind (MSG_CHECK m) (\<lambda>_. Inr (msg_minor_vers m))"

definition Message_set_minor_version :: "Message \<Rightarrow> int \<Rightarrow> Message res" where
  "Message_set_minor_version m mv = rbind (MSG_CHECK m) (\<lambda>_. Inr (m\<lparr>msg_minor_vers := mv\<rparr>))"

text \<open>The major version argument is not used by the code.\<close>

definition Message_set_version :: "Message \<Rightarrow> int \<Rightarrow> int \<Rightarrow> Message res" where
  "Message_set_version m major_vers minor_vers =
     rbind (MSG_CHECK m) (\<lambda>_. Inr (m\<lparr>msg_minor_vers := minor_vers\<rparr>))"

definition Message_set_method :: "Message \<Rightarrow> int \<Rightarrow> Message res" where
  "Message_set_method m method = rbind (MSG_CHECK m) (\<lambda>_. Inr (m\<lparr>msg_method := Some method\<rparr>))"

definition Message_get_method :: "Message \<Rightarrow> int res" where
  "Message_get_method m = rbind (MSG_CHECK m) (\<lambda>_. c_init (msg_method m))"

definition Message_get_target :: "Message \<Rightarrow> mem res" where
  "Message_get_target m = rbind (MSG_CHECK m) (\<lambda>_. rbind (c_deref (msg_target m)) Cbuffer_cstr)"

text \<open>\<open>assert((p != NULL) && (Cbuffer_size(p) == 0))\<close>, shared by the setters of target and reason.\<close>

definition assert_empty :: "Cbuffer option \<Rightarrow> Cbuffer res" where
  "assert_empty p =
     (case p of None \<Rightarrow> Inl Assertion
      | Some cb \<Rightarrow> rbind (Cbuffer_size cb) (\<lambda>n. rbind (c_assert (n = 0)) (\<lambda>_. Inr cb)))"

definition Message_set_target :: "Message \<Rightarrow> string \<Rightarrow> Message res" where
  "Message_set_target m targ =
     rbind (MSG_CHECK m) (\<lambda>_.
     rbind (assert_empty (msg_target m)) (\<lambda>t.
     rbind (Cbuffer_append_cstr t targ) (\<lambda>t. Inr (m\<lparr>msg_target := Some t\<rparr>))))"

definition Message_get_target_cbuffer :: "Message \<Rightarrow> Cbuffer res" where
  "Message_get_target_cbuffer m =
     rbind (MSG_CHECK m) (\<lambda>_.
     rbind (rbind (c_deref (msg_target m)) Cbuffer_cstr) (\<lambda>p.
     rbind (cstr_of p) Cbuffer_from_cstring))"

definition Message_set_target_cbuffer :: "Message \<Rightarrow> Cbuffer \<Rightarrow> Message res" where
  "Message_set_target_cbuffer m target =
     rbind (MSG_CHECK m) (\<lambda>_.
     rbind (assert_empty (msg_target m)) (\<lambda>t.
     rbind (rbind (Cbuffer_cstr target) cstr_of) (\<lambda>s.
     rbind (Cbuffer_append_cstr t s) (\<lambda>t. Inr (m\<lparr>msg_target := Some t\<rparr>)))))"

definition Message_set_reason :: "Message \<Rightarrow> string \<Rightarrow> Message res" where
  "Message_set_reason m reason_cstr =
     rbind (MSG_CHECK m) (\<lambda>_.
     rbind (assert_empty (msg_reason m)) (\<lambda>r.
     rbind (Cbuffer_append_cstr r reason_cstr) (\<lambda>r. Inr (m\<lparr>msg_reason := Some r\<rparr>))))"

definition Message_get_reason_cbuffer :: "Message \<Rightarrow> Cbuffer res" where
  "Message_get_reason_cbuffer m =
     rbind (MSG_CHECK m) (\<lambda>_.
     rbind (rbind (c_deref (msg_reason m)) Cbuffer_cstr) (\<lambda>p.
     rbind (cstr_of p) Cbuffer_from_cstring))"

definition Message_set_reason_cbuffer :: "Message \<Rightarrow> Cbuffer \<Rightarrow> Message res" where
  "Message_set_reason_cbuffer m target =
     rbind (MSG_CHECK m) (\<lambda>_.
     rbind (assert_empty (msg_reason m)) (\<lambda>r.
     rbind (rbind (Cbuffer_cstr target) cstr_of) (\<lambda>s.
     rbind (Cbuffer_append_cstr r s) (\<lambda>r. Inr (m\<lparr>msg_reason := Some r\<rparr>)))))"

section \<open>Headers and body\<close>

definition Message_get_headerlist :: "Message \<Rightarrow> HdrList res" where
  "Message_get_headerlist m = rbind (MSG_CHECK m) (\<lambda>_. Inr (msg_headers m))"

definition Message_add_header_cstring :: "Message \<Rightarrow> string \<Rightarrow> string \<Rightarrow> Message res" where
  "Message_add_header_cstring m key val =
     rbind (MSG_CHECK m) (\<lambda>_.
     rbind (Message_get_headerlist m) (\<lambda>hdrlist.
     rbind (HdrList_add_cstr hdrlist key val) (\<lambda>hdrlist. Inr (m\<lparr>msg_headers := hdrlist\<rparr>))))"

definition Message_add_header_cbuf :: "Message \<Rightarrow> Cbuffer \<Rightarrow> Cbuffer \<Rightarrow> Message res" where
  "Message_add_header_cbuf m key val =
     rbind (MSG_CHECK m) (\<lambda>_.
     rbind (Message_get_headerlist m) (\<lambda>hdrlist.
     rbind (HdrList_add_cbuf hdrlist key val) (\<lambda>hdrlist. Inr (m\<lparr>msg_headers := hdrlist\<rparr>))))"

definition Message_get_content_length :: "Message \<Rightarrow> int res" where
  "Message_get_content_length m = Inl Assertion"

text \<open>
  \<open>sprintf\<close> into \<open>char buf[10]\<close>.  \<open>KVPair_set_value\<close> updates the pair in the list through the
  pointer that \<open>HdrList_find\<close> returned.
\<close>

definition Message_set_content_length :: "Message \<Rightarrow> int \<Rightarrow> Message res" where
  "Message_set_content_length m len =
     rbind (MSG_CHECK m) (\<lambda>_.
     rbind (c_assert (len \<ge> 0)) (\<lambda>_.
     rbind (mem_write (malloc_block 10) 0 (map Some (int_digits len @ [NUL]))) (\<lambda>buf.
     rbind (cstr_of buf) (\<lambda>s.
     rbind (HdrList_find_iter (msg_headers m) ''Content-length'') (\<lambda>iter.
     case iter of
       None \<Rightarrow> rbind (HdrList_add_cstr (msg_headers m) ''Content-length'' s) (\<lambda>h. Inr (m\<lparr>msg_headers := h\<rparr>))
     | Some a \<Rightarrow>
         rbind (HdrList_itr_unpack (msg_headers m) iter) (\<lambda>kvp.
         rbind (c_deref kvp) (\<lambda>kvp.
         rbind (List_item_store (msg_headers m) iter (KVPair_set_value kvp s)) (\<lambda>h.
         Inr (m\<lparr>msg_headers := h\<rparr>)))))))))"

definition Message_get_header_value :: "Message \<Rightarrow> string \<Rightarrow> string option res" where
  "Message_get_header_value m labptr =
     rbind (MSG_CHECK m) (\<lambda>_.
     rbind (Message_get_headerlist m) (\<lambda>h.
     rbind (HdrList_find h labptr) (\<lambda>kvp. Inr (map_option KVPair_value kvp))))"

text \<open>\<open>cmp_upper\<close> is the comparison loop of \<open>Message_cmp_header\<close>, on strings of equal length.\<close>

fun cmp_upper :: "string \<Rightarrow> string \<Rightarrow> int" where
  "cmp_upper (v # vs) (t # ts) = (if toupper v \<noteq> toupper t then 0 else cmp_upper vs ts)"
| "cmp_upper _ _ = 1"

definition Message_cmp_header :: "Message \<Rightarrow> string \<Rightarrow> string \<Rightarrow> int res" where
  "Message_cmp_header m key test_value =
     rbind (MSG_CHECK m) (\<lambda>_.
     rbind (Message_get_headerlist m) (\<lambda>h.
     rbind (HdrList_find h key) (\<lambda>kvp.
     case kvp of None \<Rightarrow> Inr (- 1)
     | Some kvp \<Rightarrow>
         let v = c_str (KVPair_value kvp) in
         if length v \<noteq> length (c_str test_value) then Inr 0
         else Inr (cmp_upper v (c_str test_value)))))"

definition Message_get_body :: "Message \<Rightarrow> BufferChain option res" where
  "Message_get_body m = rbind (MSG_CHECK m) (\<lambda>_. Inr (msg_body m))"

definition Message_set_body :: "Message \<Rightarrow> BufferChain option \<Rightarrow> Message res" where
  "Message_set_body m bc = rbind (MSG_CHECK m) (\<lambda>_. Inr (m\<lparr>msg_body := bc\<rparr>))"

definition Message_set_headers_arr :: "Message \<Rightarrow> (string \<times> string) list \<Rightarrow> Message res" where
  "Message_set_headers_arr m ar =
     rbind (MSG_CHECK m) (\<lambda>_.
     rbind (HdrList_add_arr (msg_headers m) ar) (\<lambda>h. Inr (m\<lparr>msg_headers := h\<rparr>)))"

section \<open>Serialisation\<close>

text \<open>The first line, printed with \<open>asprintf\<close> from the fields and the slabs of target and reason.\<close>

definition Message_first_line :: "(int \<Rightarrow> string) \<Rightarrow> Message \<Rightarrow> string res" where
  "Message_first_line llhttp_method_name m =
     rbind (c_init (msg_is_request m)) (\<lambda>is_request.
     if is_request then
       rbind (c_init (msg_method m)) (\<lambda>method.
       rbind (rbind (c_deref (msg_target m)) Cbuffer_data) (\<lambda>p.
       rbind (cstr_of p) (\<lambda>target.
       Inr (c_str (llhttp_method_name method) @ '' '' @ target @ '' HTTP/'' @ int_digits (msg_major_vers m) @ ''.'' @
            int_digits (msg_minor_vers m) @ CRLF))))
     else
       rbind (c_init (msg_status_code m)) (\<lambda>status_code.
       rbind (rbind (c_deref (msg_reason m)) Cbuffer_data) (\<lambda>p.
       rbind (cstr_of p) (\<lambda>reason.
       Inr (''HTTP/'' @ int_digits (msg_major_vers m) @ ''.'' @ int_digits (msg_minor_vers m) @ ''  '' @
            int_digits status_code @ '' '' @ reason @ CRLF)))))"

text \<open>First line, header lines and the empty line; \<open>Message_serialize\<close> and \<open>Message_dump\<close> share it.\<close>

definition Message_head :: "(int \<Rightarrow> string) \<Rightarrow> Message \<Rightarrow> BufferChain res" where
  "Message_head llhttp_method_name m =
     rbind (Message_first_line llhttp_method_name m) (\<lambda>first_line.
     rbind (BufferChain_append_cstr BufferChain_new first_line) (\<lambda>bc.
     rbind (List_foreach (msg_headers m) (\<lambda>item bc.
              BufferChain_append_cstr bc
                (c_str (KVPair_label item) @ '': '' @ c_str (KVPair_value item) @ CRLF)) bc) (\<lambda>bc.
     BufferChain_append_cstr bc CRLF)))"

definition Message_add_body :: "Message \<Rightarrow> BufferChain \<Rightarrow> BufferChain res" where
  "Message_add_body m bc =
     (case msg_body m of None \<Rightarrow> Inr bc
      | Some body \<Rightarrow> if BufferChain_size body \<noteq> 0
          then rbind (BufferChain_compact body) (\<lambda>iob_body. BufferChain_add_back bc iob_body)
          else Inr bc)"

definition Message_serialize :: "(int \<Rightarrow> string) \<Rightarrow> Message \<Rightarrow> IOBuffer res" where
  "Message_serialize llhttp_method_name m =
     rbind (MSG_CHECK m) (\<lambda>_.
     rbind (Message_head llhttp_method_name m) (\<lambda>bc.
     rbind (Message_add_body m bc) (\<lambda>bc.
     rbind (BufferChain_compact bc) (\<lambda>result.
     rbind (BufferChain_dispose bc) (\<lambda>_. Inr result)))))"

definition dump_rule :: string where
  "dump_rule = replicate 59 (CHR ''='')"

definition Message_dump :: "(int \<Rightarrow> string) \<Rightarrow> Message \<Rightarrow> IOBuffer res" where
  "Message_dump llhttp_method_name m =
     rbind (MSG_CHECK m) (\<lambda>_.
     rbind (Message_head llhttp_method_name m) (\<lambda>bc.
     rbind (BufferChain_append_cstr bc (''body begin '' @ dump_rule @ CRLF)) (\<lambda>bc.
     rbind (Message_add_body m bc) (\<lambda>bc.
     rbind (BufferChain_append_cstr bc (''body end '' @ dump_rule @ CRLF)) (\<lambda>bc.
     rbind (BufferChain_compact bc) (\<lambda>result.
     rbind (BufferChain_dispose bc) (\<lambda>_. Inr result)))))))"


section \<open>Well-formed messages\<close>

definition msg_wf :: "Message \<Rightarrow> bool" where
  "msg_wf m \<longleftrightarrow> msg_tag m = Message_TAG \<and> hl_wf (msg_headers m) \<and>
     (\<forall>t. msg_target m = Some t \<longrightarrow> cb_wf t) \<and> (\<forall>r. msg_reason m = Some r \<longrightarrow> cb_wf r) \<and>
     (\<forall>b. msg_body m = Some b \<longrightarrow> bc_wf b \<and> bc_full b)"

definition msg_body_bytes :: "Message \<Rightarrow> string" where
  "msg_body_bytes m = (case msg_body m of None \<Rightarrow> [] | Some b \<Rightarrow> bc_content b)"

lemma msg_wf_check: "msg_wf m \<Longrightarrow> MSG_CHECK m = Inr ()"
  by (simp add: msg_wf_def MSG_CHECK_def)

lemma Message_new_wf:
  "\<exists>m. Message_new = Inr m \<and> msg_wf m \<and> List_items (msg_headers m) = [] \<and> msg_body m = None \<and>
       msg_is_request m = None \<and> msg_major_vers m = 1 \<and> msg_minor_vers m = 1"
proof -
  obtain cb where "Cbuffer_new = Inr cb" "cb_wf cb" using Cbuffer_new_wf by blast
  note cb = this
  show ?thesis unfolding Message_new_def cb(1) using cb(2) by (simp add: msg_wf_def HdrList_new_wf)
qed

subsection \<open>Digits\<close>

lemma digit_char_not_NUL: "d < 10 \<Longrightarrow> digit_char d \<noteq> NUL"
proof -
  assume "d < 10"
  then have "(of_char (digit_char d) :: nat) = 48 + d" by (simp add: digit_char_def)
  then show ?thesis by (auto simp: )
qed

lemma nat_digits_ne [simp]: "nat_digits n \<noteq> []"
  by (subst nat_digits.simps) simp

lemma no_nul_nat_digits [simp]: "no_nul (nat_digits n)"
proof (induction n rule: nat_digits.induct)
  case (1 n)
  have "digit_char (n mod 10) \<noteq> NUL" by (rule digit_char_not_NUL) simp
  then show ?case
    using 1 digit_char_not_NUL [of n] by (subst nat_digits.simps) (auto simp: eq_commute)
qed

lemma no_nul_int_digits [simp]: "no_nul (int_digits i)"
  by (simp add: int_digits_def)

lemma length_nat_digits: "length (nat_digits n) \<le> Suc k \<longleftrightarrow> n < 10 ^ Suc k"
proof (induction k arbitrary: n)
  case 0
  have "length (nat_digits n) \<le> 1 \<longleftrightarrow> n < 10"
    by (subst nat_digits.simps) (auto simp: Suc_le_eq)
  then show ?case by simp
next
  case (Suc k)
  have "length (nat_digits n) \<le> Suc (Suc k) \<longleftrightarrow> n < 10 \<or> length (nat_digits (n div 10)) \<le> Suc k"
    by (subst nat_digits.simps) auto
  also have "\<dots> \<longleftrightarrow> n < 10 ^ Suc (Suc k)"
  proof -
    have "n < 10 \<or> n div 10 < 10 ^ Suc k \<longleftrightarrow> n < 10 ^ Suc (Suc k)"
    proof -
      have "(1 :: nat) \<le> 10 ^ k" by simp
      then have "n < 10 \<Longrightarrow> n < 10 ^ k * 100" by linarith
      then show ?thesis by (auto simp: div_less_iff_less_mult mult.commute)
    qed
    then show ?thesis using Suc.IH [of "n div 10"] by simp
  qed
  finally show ?case .
qed

subsection \<open>Headers of a message\<close>

lemma Message_add_header_cstring_ok:
  assumes wf: "msg_wf m"
  shows "\<exists>m'. Message_add_header_cstring m k v = Inr m' \<and> msg_wf m' \<and>
     List_items (msg_headers m') = List_items (msg_headers m) @ [KVPair_new (c_str k) (c_str v)]"
proof -
  have h: "hl_wf (msg_headers m)" using wf by (simp add: msg_wf_def)
  obtain l where l: "HdrList_add_cstr (msg_headers m) k v = Inr l" "hl_wf l"
    "List_items l = List_items (msg_headers m) @ [KVPair_new (c_str k) (c_str v)]"
    using HdrList_add_cstr_ok [OF h] by blast
  with wf show ?thesis
    by (simp add: Message_add_header_cstring_def Message_get_headerlist_def msg_wf_check)
       (simp add: msg_wf_def)
qed

lemma Message_add_header_cbuf_ok:
  assumes wf: "msg_wf m" and "cb_wf k" and "cb_wf v"
  shows "\<exists>h. Message_add_header_cbuf m k v = Inr (m\<lparr>msg_headers := h\<rparr>) \<and> msg_wf (m\<lparr>msg_headers := h\<rparr>) \<and>
     List_items h = List_items (msg_headers m) @ [KVPair_new (cb_content k) (cb_content v)]"
proof -
  have h: "hl_wf (msg_headers m)" using wf by (simp add: msg_wf_def)
  obtain l where l: "HdrList_add_cbuf (msg_headers m) k v = Inr l" "hl_wf l"
    "List_items l = List_items (msg_headers m) @ [KVPair_new (cb_content k) (cb_content v)]"
    using HdrList_add_cbuf_ok [OF h assms(2,3)] by blast
  have "Message_add_header_cbuf m k v = Inr (m\<lparr>msg_headers := l\<rparr>)"
    using wf l(1) by (simp add: Message_add_header_cbuf_def Message_get_headerlist_def msg_wf_check)
  moreover have "msg_wf (m\<lparr>msg_headers := l\<rparr>)" using wf l(2) by (simp add: msg_wf_def)
  ultimately show ?thesis using l(3) by blast
qed

lemma Message_get_header_value_ok:
  "msg_wf m \<Longrightarrow> Message_get_header_value m key =
     Inr (map_option value_ptr (hl_find (List_items (msg_headers m)) key))"
  unfolding Message_get_header_value_def Message_get_headerlist_def
  by (simp add: msg_wf_check HdrList_find_ok msg_wf_def hl_wf_def)
     (cases "hl_find (List_items (msg_headers m)) key"; simp add: MSG_CHECK_def KVPair_value_def)

lemma hl_find_snoc:
  "hl_find (kvs @ [kv]) key =
     (case hl_find kvs key of Some x \<Rightarrow> Some x | None \<Rightarrow> if hl_match key kv then Some kv else None)"
  by (induction kvs) (auto simp: hl_find_def)

lemma hl_match_new: "hl_match key (KVPair_new (c_str k) v) \<longleftrightarrow> make_upper k = make_upper key"
  by (auto simp: hl_match_def KVPair_new_def make_upper_def)

lemma cmp_upper_eq:
  "length v = length t \<Longrightarrow> cmp_upper v t = (if map toupper v = map toupper t then 1 else 0)"
  by (induction v t rule: list_induct2) auto

lemma Message_cmp_header_ok:
  assumes "msg_wf m"
  shows "Message_cmp_header m key test_value =
     Inr (case hl_find (List_items (msg_headers m)) key of
            None \<Rightarrow> - 1
          | Some kv \<Rightarrow> if make_upper (value_ptr kv) = make_upper test_value then 1 else 0)"
proof -
  have "length (c_str v) = length (c_str t)" if "make_upper v = make_upper t" for v t
    using that map_eq_imp_length_eq unfolding make_upper_def by blast
  then have len: "length (c_str v) \<noteq> length (c_str t) \<Longrightarrow> make_upper v \<noteq> make_upper t" for v t by metis
  have f: "HdrList_find (msg_headers m) key = Inr (hl_find (List_items (msg_headers m)) key)"
    using assms by (simp add: HdrList_find_ok msg_wf_def hl_wf_def)
  show ?thesis
  proof (cases "hl_find (List_items (msg_headers m)) key")
    case None
    with f assms show ?thesis
      by (simp add: Message_cmp_header_def Message_get_headerlist_def msg_wf_check)
  next
    case (Some kv)
    with f assms len [of "value_ptr kv" test_value] show ?thesis
      by (simp add: Message_cmp_header_def Message_get_headerlist_def msg_wf_check KVPair_value_def Let_def
          cmp_upper_eq make_upper_def)
  qed
qed

lemma content_length_buf:
  assumes "0 \<le> n" and "n < 1000000000"
  shows "\<exists>buf. mem_write (malloc_block 10) 0 (map Some (int_digits n @ [NUL])) = Inr buf \<and>
     cstr_of buf = Inr (int_digits n)"
proof -
  have "length (nat_digits (nat n)) \<le> Suc 8" unfolding length_nat_digits using assms by simp
  then have "length (int_digits n) \<le> 9" using assms(1) by (simp add: int_digits_def)
  then show ?thesis
    by (simp add: mem_write_def) (metis append_Cons append_Nil append_assoc c_str_id cstr_of_append no_nul_int_digits)
qed

lemma content_length_overflow:
  assumes "1000000000 \<le> n"
  shows "mem_write (malloc_block 10) 0 (map Some (int_digits n @ [NUL])) = Inl MemFault"
proof -
  have "\<not> length (nat_digits (nat n)) \<le> Suc 8" unfolding length_nat_digits using assms by simp
  then show ?thesis using assms by (simp add: mem_write_def int_digits_def)
qed

lemma Message_set_content_length_new:
  assumes wf: "msg_wf m" and n: "0 \<le> n" "n < 1000000000"
    and none: "hl_find (List_items (msg_headers m)) ''Content-length'' = None"
  shows "\<exists>l. Message_set_content_length m n = Inr (m\<lparr>msg_headers := l\<rparr>) \<and> hl_wf l \<and>
     List_items l = List_items (msg_headers m) @ [KVPair_new ''Content-length'' (int_digits n)]"
proof -
  let ?k = "''Content-length''"
  have h: "hl_wf (msg_headers m)" "List_wf (msg_headers m)" using wf by (auto simp: msg_wf_def hl_wf_def)
  obtain buf where buf: "mem_write (malloc_block 10) 0 (map Some (int_digits n @ [NUL])) = Inr buf"
    "cstr_of buf = Inr (int_digits n)" using content_length_buf [OF n] by blast
  obtain as where as: "List_inv (msg_headers m) as" "List_items (msg_headers m) = map snd as"
    by (rule List_wfE [OF h(2)])
  have nm: "\<forall>ax \<in> set as. \<not> hl_match ?k (snd ax)" using none as(2) by (auto simp: hl_find_def find_None_iff)
  have it: "HdrList_find_iter (msg_headers m) ?k = Inr None"
    using find_iter_cases [OF as(1), of ?k] nm by auto
  obtain l where l: "HdrList_add_cstr (msg_headers m) ?k (int_digits n) = Inr l" "hl_wf l"
    "List_items l = List_items (msg_headers m) @ [KVPair_new (c_str ?k) (c_str (int_digits n))]"
    using HdrList_add_cstr_ok [OF h(1)] by blast
  have "Message_set_content_length m n = Inr (m\<lparr>msg_headers := l\<rparr>)"
    using buf it l(1) wf n(1) by (simp add: Message_set_content_length_def msg_wf_check)
  moreover have "c_str ?k = ?k" by (simp add: c_str_def)
  ultimately show ?thesis using l(2,3) by (intro exI [of _ l]) simp
qed

lemma Message_set_content_length_ok:
  assumes wf: "msg_wf m" and n: "0 \<le> n" "n < 1000000000"
  shows "\<exists>m'. Message_set_content_length m n = Inr m' \<and> msg_wf m' \<and>
     map_option value_ptr (hl_find (List_items (msg_headers m')) ''Content-length'') = Some (int_digits n) \<and>
     length (List_items (msg_headers m')) =
       (if hl_find (List_items (msg_headers m)) ''Content-length'' = None
        then length (List_items (msg_headers m)) + 1 else length (List_items (msg_headers m)))"
proof -
  let ?k = "''Content-length''"
  have h: "hl_wf (msg_headers m)" "List_wf (msg_headers m)" using wf by (auto simp: msg_wf_def hl_wf_def)
  obtain buf where buf: "mem_write (malloc_block 10) 0 (map Some (int_digits n @ [NUL])) = Inr buf"
    "cstr_of buf = Inr (int_digits n)" using content_length_buf [OF n] by blast
  obtain as where as: "List_inv (msg_headers m) as" "List_items (msg_headers m) = map snd as"
    by (rule List_wfE [OF h(2)])
  from find_iter_cases [OF as(1), of ?k] show ?thesis
  proof (elim disjE exE conjE)
    assume none: "HdrList_find_iter (msg_headers m) ?k = Inr None" "\<forall>ax \<in> set as. \<not> hl_match ?k (snd ax)"
    have nf: "hl_find (List_items (msg_headers m)) ?k = None" using none(2) as(2) by (auto simp: hl_find_def find_None_iff)
    from Message_set_content_length_new [OF wf n nf] obtain l where
      l: "Message_set_content_length m n = Inr (m\<lparr>msg_headers := l\<rparr>)" "hl_wf l"
      "List_items l = List_items (msg_headers m) @ [KVPair_new ?k (int_digits n)]" by blast
    have "hl_find (List_items l) ?k = Some (KVPair_new ?k (int_digits n))"
      unfolding l(3) using hl_match_new [of ?k ?k] nf by (simp add: hl_find_snoc c_str_def)
    then show ?thesis using wf l nf by (simp add: msg_wf_def KVPair_new_def)
  next
    fix bs a kv cs
    assume some: "HdrList_find_iter (msg_headers m) ?k = Inr (Some a)"
    from HdrList_store_ok [OF h(1) some] obtain bs kv cs l where l:
      "List_items (msg_headers m) = bs @ kv # cs" "hl_match ?k kv" "\<forall>x \<in> set bs. \<not> hl_match ?k x"
      "HdrList_itr_unpack (msg_headers m) (Some a) = Inr (Some kv)"
      "List_item_store (msg_headers m) (Some a) (KVPair_set_value kv (int_digits n)) = Inr l" "hl_wf l"
      "List_items l = bs @ KVPair_set_value kv (int_digits n) # cs" by blast
    have mt: "hl_match ?k (KVPair_set_value kv (int_digits n))"
      using l(2) by (simp add: hl_match_def KVPair_set_value_def)
    have f: "hl_find (List_items l) ?k = Some (KVPair_set_value kv (int_digits n))"
      "hl_find (List_items (msg_headers m)) ?k = Some kv"
      unfolding l(1,7) using hl_find_append [OF l(3)] l(2) mt by auto
    have "Message_set_content_length m n = Inr (m\<lparr>msg_headers := l\<rparr>)"
      using buf some l(4,5) wf n(1) by (simp add: Message_set_content_length_def msg_wf_check)
    then show ?thesis using wf l(6,7,1) f by (simp add: msg_wf_def KVPair_set_value_def)
  qed
qed


subsection \<open>Serialisation of a message\<close>

lemma no_nul_cstr_of: "cstr_of p = Inr s \<Longrightarrow> no_nul s"
  by (induction p arbitrary: s rule: cstr_of.induct) (auto simp: rbind_eq_Inr split: if_splits)

lemma no_nul_CRLF [simp]: "no_nul CRLF"
  by (simp add: CRLF_def)

lemma Message_first_line_no_nul:
  "Message_first_line nm m = Inr fl \<Longrightarrow> no_nul fl \<and> fl \<noteq> []"
  by (auto simp: Message_first_line_def rbind_eq_Inr dest: no_nul_cstr_of split: if_splits)

text \<open>A step that appends one non-empty C string to a chain without empty buffers.\<close>

lemma append_cstr_full:
  assumes "bc_wf bc" and "bc_full bc" and "no_nul s" and "s \<noteq> []"
  shows "\<exists>bc'. BufferChain_append_cstr bc s = Inr bc' \<and> bc_wf bc' \<and> bc_full bc' \<and> bc_content bc' = bc_content bc @ s"
  using BufferChain_append_ok [OF assms(1,4)] assms by (auto simp: BufferChain_append_cstr_def)

lemma header_lines_fold:
  assumes "bc_wf bc" and "bc_full bc"
  shows "\<exists>bc'. rfold (\<lambda>item bc. BufferChain_append_cstr bc
        (c_str (KVPair_label item) @ '': '' @ c_str (KVPair_value item) @ CRLF)) kvs bc = Inr bc' \<and>
     bc_wf bc' \<and> bc_full bc' \<and> bc_content bc' = bc_content bc @ concat (map hl_line kvs)"
  using assms
proof (induction kvs arbitrary: bc)
  case (Cons kv kvs)
  let ?s = "c_str (KVPair_label kv) @ '': '' @ c_str (KVPair_value kv) @ CRLF"
  obtain b1 where b1: "BufferChain_append_cstr bc ?s = Inr b1" "bc_wf b1" "bc_full b1" "bc_content b1 = bc_content bc @ ?s"
    using append_cstr_full [OF Cons.prems, of ?s] by auto
  with Cons.IH [OF b1(2,3)] show ?case by (auto simp: hl_line_def KVPair_label_def KVPair_value_def)
qed simp

lemma Message_head_ok:
  assumes wf: "msg_wf m" and fl: "Message_first_line nm m = Inr fl"
  shows "\<exists>bc. Message_head nm m = Inr bc \<and> bc_wf bc \<and> bc_full bc \<and>
     bc_content bc = fl @ concat (map hl_line (List_items (msg_headers m))) @ CRLF"
proof -
  have n: "no_nul fl" "fl \<noteq> []" using Message_first_line_no_nul [OF fl] by auto
  obtain b1 where b1: "BufferChain_append_cstr BufferChain_new fl = Inr b1" "bc_wf b1" "bc_full b1" "bc_content b1 = fl"
    using append_cstr_full [of BufferChain_new, OF _ _ n] BufferChain_new_wf by auto
  obtain b2 where b2: "List_foreach (msg_headers m) (\<lambda>item bc. BufferChain_append_cstr bc
        (c_str (KVPair_label item) @ '': '' @ c_str (KVPair_value item) @ CRLF)) b1 = Inr b2"
    "bc_wf b2" "bc_full b2" "bc_content b2 = fl @ concat (map hl_line (List_items (msg_headers m)))"
    using header_lines_fold [OF b1(2,3), of "List_items (msg_headers m)"] wf b1(4) by (auto simp: List_foreach_items msg_wf_def hl_wf_def)
  have "CRLF \<noteq> []" by (simp add: CRLF_def)
  from append_cstr_full [OF b2(2,3) no_nul_CRLF this] b1(1) b2(1,4) fl show ?thesis by (auto simp: Message_head_def)
qed

lemma Message_add_body_ok:
  assumes wf: "msg_wf m" and bc: "bc_wf bc" "bc_full bc"
  shows "\<exists>bc'. Message_add_body m bc = Inr bc' \<and> bc_wf bc' \<and> bc_full bc' \<and>
     bc_content bc' = bc_content bc @ msg_body_bytes m"
proof (cases "msg_body m")
  case None
  then show ?thesis using bc by (simp add: Message_add_body_def msg_body_bytes_def)
next
  case (Some body)
  then have b: "bc_wf body" "bc_full body" using wf by (auto simp: msg_wf_def)
  show ?thesis
  proof (cases "m_size body = 0")
    case True
    then have "bc_content body = []" using b(1) by (simp add: bc_wf_def)
    then show ?thesis using Some True bc by (simp add: Message_add_body_def msg_body_bytes_def BufferChain_size_def)
  next
    case False
    then have ne: "bc_content body \<noteq> []" using b(1) by (auto simp: bc_wf_def)
    obtain f where f: "BufferChain_compact body = Inr f" "iob_wf f" "iob_content f = bc_content body" "iob_ptr f = 0"
      using BufferChain_compact_ok [OF b] by blast
    obtain bc' where "BufferChain_add_back bc f = Inr bc'" "bc_wf bc'" "bc_bufs bc' = bc_bufs bc @ [f]"
      using BufferChain_add_back_ok [OF bc(1) f(2,4)] by blast
    then show ?thesis
      using Some False f ne bc(2)
      by (simp add: Message_add_body_def BufferChain_size_def msg_body_bytes_def bc_content_def bc_full_def)
  qed
qed

lemma Message_serialize_ok:
  assumes wf: "msg_wf m" and fl: "Message_first_line nm m = Inr fl"
  shows "\<exists>b. Message_serialize nm m = Inr b \<and> iob_wf b \<and>
     iob_content b = fl @ concat (map hl_line (List_items (msg_headers m))) @ CRLF @ msg_body_bytes m"
proof -
  obtain b1 where b1: "Message_head nm m = Inr b1" "bc_wf b1" "bc_full b1"
    "bc_content b1 = fl @ concat (map hl_line (List_items (msg_headers m))) @ CRLF"
    using Message_head_ok [OF wf fl] by blast
  obtain b2 where b2: "Message_add_body m b1 = Inr b2" "bc_wf b2" "bc_full b2"
    "bc_content b2 = bc_content b1 @ msg_body_bytes m"
    using Message_add_body_ok [OF wf b1(2,3)] by blast
  from BufferChain_compact_ok [OF b2(2,3)] BufferChain_dispose_ok [OF b2(2)] b1 b2 wf show ?thesis
    by (auto simp: Message_serialize_def msg_wf_check)
qed

lemma no_nul_dump_rule [simp]: "no_nul dump_rule"
  by (simp add: dump_rule_def)

lemma Message_dump_ok:
  assumes wf: "msg_wf m" and fl: "Message_first_line nm m = Inr fl"
  shows "\<exists>b. Message_dump nm m = Inr b \<and> iob_wf b \<and>
     iob_content b = fl @ concat (map hl_line (List_items (msg_headers m))) @ CRLF @
       ''body begin '' @ dump_rule @ CRLF @ msg_body_bytes m @ ''body end '' @ dump_rule @ CRLF"
proof -
  obtain b1 where b1: "Message_head nm m = Inr b1" "bc_wf b1" "bc_full b1"
    "bc_content b1 = fl @ concat (map hl_line (List_items (msg_headers m))) @ CRLF"
    using Message_head_ok [OF wf fl] by blast
  obtain b2 where b2: "BufferChain_append_cstr b1 (''body begin '' @ dump_rule @ CRLF) = Inr b2" "bc_wf b2" "bc_full b2"
    "bc_content b2 = bc_content b1 @ ''body begin '' @ dump_rule @ CRLF"
    using append_cstr_full [OF b1(2,3), of "''body begin '' @ dump_rule @ CRLF"] by auto
  obtain b3 where b3: "Message_add_body m b2 = Inr b3" "bc_wf b3" "bc_full b3"
    "bc_content b3 = bc_content b2 @ msg_body_bytes m"
    using Message_add_body_ok [OF wf b2(2,3)] by blast
  obtain b4 where b4: "BufferChain_append_cstr b3 (''body end '' @ dump_rule @ CRLF) = Inr b4" "bc_wf b4" "bc_full b4"
    "bc_content b4 = bc_content b3 @ ''body end '' @ dump_rule @ CRLF"
    using append_cstr_full [OF b3(2,3), of "''body end '' @ dump_rule @ CRLF"] by auto
  obtain f where f: "BufferChain_compact b4 = Inr f" "iob_content f = bc_content b4" "iob_wf f"
    using BufferChain_compact_ok [OF b4(2,3)] by blast
  from BufferChain_dispose_ok [OF b4(2)] b1(1,4) b2(1,4) b3(1,4) b4(1,4) f wf show ?thesis
    by (simp add: Message_dump_def msg_wf_check)
qed

text \<open>The first line of a request whose target is set, and of a response whose reason is set.\<close>

lemma Message_request_line:
  assumes "msg_is_request m = Some True" and "msg_method m = Some k" and "msg_target m = Some t"
    and "cb_wf t" and "cb_terminated t"
  shows "Message_first_line nm m = Inr (c_str (nm k) @ '' '' @ c_str (cb_content t) @ '' HTTP/'' @
     int_digits (msg_major_vers m) @ ''.'' @ int_digits (msg_minor_vers m) @ CRLF)"
  using assms by (simp add: Message_first_line_def Cbuffer_data_def cb_wf_check cb_terminated_cstr)

lemma Message_status_line:
  assumes "msg_is_request m = Some False" and "msg_status_code m = Some k" and "msg_reason m = Some r"
    and "cb_wf r" and "cb_terminated r"
  shows "Message_first_line nm m = Inr (''HTTP/'' @ int_digits (msg_major_vers m) @ ''.'' @
     int_digits (msg_minor_vers m) @ ''  '' @ int_digits k @ '' '' @ c_str (cb_content r) @ CRLF)"
  using assms by (simp add: Message_first_line_def Cbuffer_data_def cb_wf_check cb_terminated_cstr)

text \<open>A target that was never set has indeterminate bytes.\<close>

lemma cb_fresh_cstr:
  assumes "cb_wf cb" and "cb_fresh cb"
  shows "cstr_of (cb_mem cb) = Inl UninitRead \<and> Cbuffer_cstr cb = Inl UninitRead"
proof -
  obtain m where m: "cb_mem cb = None # m"
    using assms by (cases "cb_mem cb") (auto simp: cb_wf_def cb_fresh_def)
  with assms show ?thesis
    by (simp add: Cbuffer_cstr_def cb_wf_check read_bytes_def mem_read_def cb_fresh_def)
qed

lemma Message_first_line_fresh:
  assumes "msg_is_request m = Some True" and "msg_method m = Some k" and "msg_target m = Some t"
    and "cb_wf t" and "cb_fresh t"
  shows "Message_first_line nm m = Inl UninitRead"
  using assms cb_fresh_cstr [of t] by (simp add: Message_first_line_def Cbuffer_data_def cb_wf_check)

subsection \<open>Setting target and reason\<close>

lemma assert_empty_ok: "cb_wf cb \<Longrightarrow> cb_content cb = [] \<Longrightarrow> assert_empty (Some cb) = Inr cb"
  by (simp add: assert_empty_def Cbuffer_size_ok)

lemma assert_empty_fail: "cb_wf cb \<Longrightarrow> cb_content cb \<noteq> [] \<Longrightarrow> assert_empty (Some cb) = Inl Assertion"
  by (simp add: assert_empty_def Cbuffer_size_ok)

lemma append_cstr_fresh:
  assumes wf: "cb_wf cb" and "cb_content cb = []" and s: "no_nul s" "s \<noteq> []" "length s < 512"
  shows "\<exists>cb'. Cbuffer_append_cstr cb s = Inr cb' \<and> cb_wf cb' \<and> cb_content cb' = s \<and> cb_terminated cb'"
proof -
  have "cb_fits cb (length s)" using assms by (auto simp: cb_fits_def cb_wf_def cb_content_length [OF wf, symmetric])
  from Cbuffer_append_ok [OF wf this] s wf assms(2) show ?thesis
    by (auto simp: Cbuffer_append_cstr_def cb_wf_check)
qed

lemma Message_set_target_ok:
  assumes wf: "msg_wf m" and t: "msg_target m = Some t" "cb_content t = []"
    and s: "no_nul s" "s \<noteq> []" "length s < 512"
  shows "\<exists>t'. Message_set_target m s = Inr (m\<lparr>msg_target := Some t'\<rparr>) \<and> msg_wf (m\<lparr>msg_target := Some t'\<rparr>) \<and>
     cb_content t' = s \<and> cb_terminated t' \<and> cb_wf t'"
proof -
  have tw: "cb_wf t" using wf t by (simp add: msg_wf_def)
  obtain t' where t': "Cbuffer_append_cstr t s = Inr t'" "cb_wf t'" "cb_content t' = s" "cb_terminated t'"
    using append_cstr_fresh [OF tw t(2) s] by blast
  have "Message_set_target m s = Inr (m\<lparr>msg_target := Some t'\<rparr>)"
    using t'(1) wf t tw by (simp add: Message_set_target_def msg_wf_check assert_empty_ok)
  moreover have "msg_wf (m\<lparr>msg_target := Some t'\<rparr>)" using wf t'(2) by (simp add: msg_wf_def)
  ultimately show ?thesis using t' by blast
qed

lemma Message_set_target_twice:
  "msg_wf m \<Longrightarrow> msg_target m = Some t \<Longrightarrow> cb_content t \<noteq> [] \<Longrightarrow> Message_set_target m s = Inl Assertion"
  by (simp add: Message_set_target_def msg_wf_check assert_empty_fail msg_wf_def)

text \<open>\<open>MessageResponse\<close> leaves both pointers \<open>NULL\<close>, and \<open>Message_dispose\<close> dereferences them.\<close>

lemma MessageResponse_eq:
  "\<exists>m. MessageResponse status body = Inr m \<and> msg_target m = None \<and> msg_reason m = None \<and>
     hl_wf (msg_headers m) \<and> msg_tag m = Message_TAG \<and> msg_status_code m = Some status"
proof -
  obtain cb where cb: "Cbuffer_new = Inr cb" "cb_wf cb" using Cbuffer_new_wf by blast
  then show ?thesis
    unfolding MessageResponse_def Message_new_def cb(1)
    by (simp add: Cbuffer_dispose_def CB_CHECK_TAG_ONLY_def cb_wf_def HdrList_new_wf)
qed

lemma Message_dispose_ok:
  assumes wf: "msg_wf m" and "msg_target m \<noteq> None" and "msg_reason m \<noteq> None"
  shows "Message_dispose m = Inr (l_freed (msg_headers m) @ List_items (msg_headers m))"
proof -
  have h: "List_wf (msg_headers m)" "l_dealloc (msg_headers m) = NullingDealloc"
    using wf by (auto simp: msg_wf_def hl_wf_def)
  obtain as where as: "List_inv (msg_headers m) as" "List_items (msg_headers m) = map snd as"
    by (rule List_wfE [OF h(1)])
  from List_destroy_inv [OF as(1)] h(2) obtain l where "List_destroy (msg_headers m) = Inr l"
    "l_freed l = l_freed (msg_headers m) @ map snd as" by auto
  then show ?thesis
    using wf assms(2,3) as(2)
    by (auto simp: Message_dispose_def msg_wf_check HdrList_dispose_def List_dispose_def Cbuffer_dispose_def
        CB_CHECK_TAG_ONLY_def msg_wf_def cb_wf_def MSG_CHECK_def)
qed

lemma Message_dispose_null:
  assumes "msg_tag m = Message_TAG" and "hl_wf (msg_headers m)" and "msg_target m = None"
  shows "Message_dispose m = Inl NullDeref"
proof -
  have h: "List_wf (msg_headers m)" "l_dealloc (msg_headers m) = NullingDealloc"
    using assms(2) by (auto simp: hl_wf_def)
  obtain as where as: "List_inv (msg_headers m) as" by (rule List_wfE [OF h(1)])
  from List_destroy_inv [OF as] h(2) obtain l where "List_destroy (msg_headers m) = Inr l" by auto
  with assms(1,3) show ?thesis
    by (simp add: Message_dispose_def MSG_CHECK_def HdrList_dispose_def List_dispose_def)
qed

section \<open>Properties\<close>

text \<open>
  The bytes of a serialised request: method, target and version, the header lines in order,
  an empty line, and the body.
\<close>

theorem Message_serialize_request:
  assumes "msg_wf m" and "msg_is_request m = Some True" and "msg_method m = Some k"
    and "msg_target m = Some t" and "cb_terminated t"
  shows "\<exists>b. Message_serialize method_name m = Inr b \<and> iob_wf b \<and>
     iob_content b =
       c_str (method_name k) @ '' '' @ c_str (cb_content t) @ '' HTTP/'' @ int_digits (msg_major_vers m) @ ''.'' @
       int_digits (msg_minor_vers m) @ CRLF @ concat (map hl_line (List_items (msg_headers m))) @ CRLF @
       msg_body_bytes m"
proof -
  have "cb_wf t" using assms(1,4) by (simp add: msg_wf_def)
  from Message_serialize_ok [OF assms(1) Message_request_line [OF assms(2,3,4) this assms(5)]]
  show ?thesis by simp
qed

lemma request_message_exists:
  "\<exists>m t. msg_wf m \<and> msg_is_request m = Some True \<and> msg_method m = Some 1 \<and> msg_target m = Some t \<and>
     cb_terminated t \<and> cb_content t = ''/x'' \<and> msg_major_vers m = 1 \<and> msg_minor_vers m = 1 \<and>
     List_items (msg_headers m) = [] \<and> msg_body m = None"
proof -
  obtain cb where cb: "Cbuffer_new = Inr cb" "cb_wf cb" "cb_content cb = []" using Cbuffer_new_wf by blast
  obtain t where t: "Cbuffer_append_cstr cb ''/x'' = Inr t" "cb_wf t" "cb_content t = ''/x''" "cb_terminated t"
    using append_cstr_fresh [OF cb(2,3), of "''/x''"] by auto
  define m where "m = \<lparr>msg_tag = Message_TAG, msg_body = None, msg_headers = HdrList_new, msg_major_vers = 1,
          msg_minor_vers = 1, msg_is_request = Some True, msg_status_code = None,
          msg_reason = Some cb, msg_method = Some 1, msg_target = Some t\<rparr>"
  have "msg_wf m" using t cb by (simp add: msg_wf_def m_def HdrList_new_wf)
  then show ?thesis using t HdrList_new_wf by (intro exI [of _ m] exI [of _ t]) (simp add: m_def)
qed

theorem Message_serialize_request_witness:
  "\<exists>m b. Message_serialize (\<lambda>_. ''GET'') m = Inr b \<and>
     iob_content b = ''GET /x HTTP/'' @ int_digits 1 @ ''.'' @ int_digits 1 @ CRLF @ CRLF"
proof -
  obtain m t where m: "msg_wf m" "msg_is_request m = Some True" "msg_method m = Some 1" "msg_target m = Some t"
    "cb_terminated t" "cb_content t = ''/x''" "msg_major_vers m = 1" "msg_minor_vers m = 1"
    "List_items (msg_headers m) = []" "msg_body m = None" using request_message_exists by blast
  from Message_serialize_request [OF m(1-5), of "\<lambda>_. ''GET''"] m(6-10) show ?thesis
    by (auto simp: msg_body_bytes_def c_str_def)
qed

text \<open>
  Setting the content length of a message to less than \<open>10^9\<close> leaves exactly one more header
  line when there was none with that key and otherwise replaces its value, and the value read
  back is the decimal numeral; from \<open>10^9\<close> on \<open>sprintf\<close> writes past the ten byte buffer.
\<close>

theorem Message_content_length:
  assumes "msg_wf m" and "0 \<le> n"
  shows "if n < 1000000000
     then \<exists>m'. Message_set_content_length m n = Inr m' \<and> msg_wf m' \<and>
            Message_get_header_value m' ''Content-length'' = Inr (Some (int_digits n)) \<and>
            length (List_items (msg_headers m')) =
              (if hl_find (List_items (msg_headers m)) ''Content-length'' = None
               then length (List_items (msg_headers m)) + 1 else length (List_items (msg_headers m)))
     else Message_set_content_length m n = Inl MemFault"
proof (cases "n < 1000000000")
  case True
  from Message_set_content_length_ok [OF assms True] True show ?thesis
    by (auto simp: Message_get_header_value_ok)
next
  case False
  then show ?thesis
    using content_length_overflow [of n] assms by (simp add: Message_set_content_length_def msg_wf_check)
qed

theorem Message_content_length_witness:
  "\<exists>m m'. Message_set_content_length m 123 = Inr m' \<and>
     Message_get_header_value m' ''Content-length'' = Inr (Some (int_digits 123))"
proof -
  obtain m where "Message_new = Inr m" "msg_wf m" using Message_new_wf by blast
  with Message_content_length [of m 123] show ?thesis by auto
qed

text \<open>
  \<open>Message_cmp_header\<close> is \<open>-1\<close> when the key is absent, \<open>1\<close> when the first line with that key
  has the given value up to the case of letters, and \<open>0\<close> otherwise.
\<close>

theorem Message_cmp_header_meaning:
  assumes "msg_wf m"
  shows "Message_cmp_header m key test_value =
     Inr (case hl_find (List_items (msg_headers m)) key of
            None \<Rightarrow> - 1
          | Some kv \<Rightarrow> if make_upper (value_ptr kv) = make_upper test_value then 1 else 0)"
  by (rule Message_cmp_header_ok [OF assms])

theorem Message_cmp_header_meaning_witness:
  "\<exists>m m'. Message_add_header_cstring m ''Connection'' ''Close'' = Inr m' \<and>
     Message_cmp_header m' ''CONNECTION'' ''close'' = Inr 1 \<and> Message_cmp_header m ''CONNECTION'' ''close'' = Inr (- 1)"
proof -
  obtain m where m: "Message_new = Inr m" "msg_wf m" "List_items (msg_headers m) = []" using Message_new_wf by blast
  obtain m' where m': "Message_add_header_cstring m ''Connection'' ''Close'' = Inr m'" "msg_wf m'"
    "List_items (msg_headers m') = [KVPair_new (c_str ''Connection'') (c_str ''Close'')]"
    using Message_add_header_cstring_ok [OF m(2), of "''Connection''" "''Close''"] m(3) by auto
  have "hl_find (List_items (msg_headers m')) ''CONNECTION'' = Some (KVPair_new (c_str ''Connection'') (c_str ''Close''))"
    unfolding m'(3) by code_simp
  moreover have "make_upper (value_ptr (KVPair_new (c_str ''Connection'') (c_str ''Close''))) = make_upper ''close''"
    by code_simp
  ultimately show ?thesis
    using Message_cmp_header_meaning [OF m(2), of "''CONNECTION''" "''close''"]
      Message_cmp_header_meaning [OF m'(2), of "''CONNECTION''" "''close''"] m'(1) m(3)
    by (auto simp: hl_find_def)
qed

text \<open>
  A message built by \<open>MessageResponse\<close> has no target and no reason buffer; \<open>Message_dispose\<close>
  dereferences both pointers, so disposing such a message is a null dereference.
\<close>

theorem MessageResponse_dispose_null:
  "\<exists>m. MessageResponse status body = Inr m \<and> Message_dispose m = Inl NullDeref"
proof -
  obtain m where "MessageResponse status body = Inr m" "msg_target m = None" "hl_wf (msg_headers m)"
    "msg_tag m = Message_TAG" using MessageResponse_eq by blast
  with Message_dispose_null [of m] show ?thesis by blast
qed

end
