(* ===== verification/CH_HttpParser.thy ===== *)
theory CH_HttpParser
  imports CH_Message
begin

text \<open>
  The message parser of \<open>src/http_in_c/http/parser.c\<close>.  The byte-level grammar is that of the
  vendored \<open>llhttp\<close>, which calls back into this file; the model starts at those callbacks.
  A callback of \<open>llhttp\<close> is an event, with the fields of \<open>llhttp_t\<close> that the code reads at
  that moment as arguments.  The client's message handler and its context are parameters.
\<close>

section \<open>Data\<close>

definition kHEADER_STATE_NOTHING :: int where "kHEADER_STATE_NOTHING = 10"
definition kHEADER_STATE_FIELD :: int where "kHEADER_STATE_FIELD = 11"
definition kHEADER_STATE_VALUE :: int where "kHEADER_STATE_VALUE = 12"

text \<open>\<open>'l\<close> is the state of \<open>llhttp\<close>, \<open>'c\<close> what \<open>handler_context\<close> points to.\<close>

record ('l, 'c) http_parser =
  hp_tag :: string
  hp_started :: bool
  hp_llhttp :: 'l
  hp_current_message_ptr :: "Message option"
  hp_handler_context :: 'c
  hp_header_state :: int
  hp_url_buf :: "Cbuffer option"
  hp_status_buf :: "Cbuffer option"
  hp_name_buf :: "Cbuffer option"
  hp_value_buf :: "Cbuffer option"

definition HTTP_PARSER_TAG :: string where
  "HTTP_PARSER_TAG = ''HTPARS''"

definition HP_CHECK :: "('l, 'c) http_parser \<Rightarrow> unit res" where
  "HP_CHECK p = check_tag HTTP_PARSER_TAG (hp_tag p)"

type_synonym 'c message_handler = "'c \<Rightarrow> Message \<Rightarrow> (int \<times> 'c) res"

text \<open>
  The callbacks of \<open>llhttp_settings_t\<close>.  \<open>On_status\<close> carries \<open>status_code\<close>;
  \<open>On_headers_complete\<close> carries \<open>http_major\<close>, \<open>http_minor\<close> and \<open>method\<close>.
\<close>

datatype ll_event =
    On_message_begin
  | On_url string
  | On_status int string
  | On_method string
  | On_version string
  | On_header_field string
  | On_header_value string
  | On_chunk_extension_name string
  | On_chunk_extension_value string
  | On_headers_complete int int int
  | On_body string
  | On_message_complete
  | On_url_complete
  | On_status_complete
  | On_method_complete
  | On_version_complete
  | On_header_field_complete
  | On_header_value_complete
  | On_chunk_extension_name_complete
  | On_chunk_extension_value_complete
  | On_chunk_header
  | On_chunk_complete
  | On_reset

section \<open>Construction\<close>

definition clear_if_set :: "Cbuffer option \<Rightarrow> Cbuffer option res" where
  "clear_if_set b = (case b of None \<Rightarrow> Inr None | Some cb \<Rightarrow> rbind (Cbuffer_clear cb) (\<lambda>cb. Inr (Some cb)))"

text \<open>
  \<open>llhttp_init\<close> gives the initial state of \<open>llhttp\<close>.  The message that
  \<open>http_parser_initialize\<close> allocates is dropped at once.
\<close>

definition http_parser_initialize :: "'l \<Rightarrow> ('l, 'c) http_parser \<Rightarrow> ('l, 'c) http_parser res" where
  "http_parser_initialize llhttp_init p =
     rbind (HP_CHECK p) (\<lambda>_.
     rbind Message_new (\<lambda>_.
     rbind (clear_if_set (hp_status_buf p)) (\<lambda>status_buf.
     rbind (clear_if_set (hp_url_buf p)) (\<lambda>url_buf.
     rbind (clear_if_set (hp_name_buf p)) (\<lambda>name_buf.
     rbind (clear_if_set (hp_value_buf p)) (\<lambda>value_buf.
     Inr (p\<lparr>hp_header_state := kHEADER_STATE_NOTHING, hp_started := False,
            hp_current_message_ptr := None, hp_status_buf := status_buf, hp_url_buf := url_buf,
            hp_name_buf := name_buf, hp_value_buf := value_buf, hp_llhttp := llhttp_init\<rparr>)))))))"

definition http_parser_new :: "'l \<Rightarrow> 'c \<Rightarrow> ('l, 'c) http_parser res" where
  "http_parser_new llhttp_init handler_context =
     rbind Cbuffer_new (\<lambda>status_buf.
     rbind Cbuffer_new (\<lambda>url_buf.
     rbind Cbuffer_new (\<lambda>name_buf.
     rbind Cbuffer_new (\<lambda>value_buf.
     http_parser_initialize llhttp_init
       \<lparr>hp_tag = HTTP_PARSER_TAG, hp_started = False, hp_llhttp = llhttp_init,
        hp_current_message_ptr = None, hp_handler_context = handler_context,
        hp_header_state = kHEADER_STATE_NOTHING, hp_url_buf = Some url_buf,
        hp_status_buf = Some status_buf, hp_name_buf = Some name_buf,
        hp_value_buf = Some value_buf\<rparr>))))"

section \<open>Callbacks\<close>

text \<open>A buffer is cleared, or allocated when it is \<open>NULL\<close>.\<close>

definition clear_or_new :: "Cbuffer option \<Rightarrow> Cbuffer option res" where
  "clear_or_new b =
     (case b of None \<Rightarrow> rbind Cbuffer_new (\<lambda>cb. Inr (Some cb))
      | Some cb \<Rightarrow> rbind (Cbuffer_clear cb) (\<lambda>cb. Inr (Some cb)))"

definition message_begin_cb :: "('l, 'c) http_parser \<Rightarrow> (int \<times> ('l, 'c) http_parser) res" where
  "message_begin_cb p =
     rbind (HP_CHECK p) (\<lambda>_.
     rbind (case hp_current_message_ptr p of
              Some m \<Rightarrow> rbind (Message_dispose m) (\<lambda>_. Message_new)
            | None \<Rightarrow> Message_new) (\<lambda>m.
     rbind (clear_or_new (hp_status_buf p)) (\<lambda>status_buf.
     rbind (clear_or_new (hp_url_buf p)) (\<lambda>url_buf.
     rbind (clear_or_new (hp_name_buf p)) (\<lambda>name_buf.
     rbind (clear_or_new (hp_value_buf p)) (\<lambda>value_buf.
     Inr (0, p\<lparr>hp_current_message_ptr := Some m, hp_status_buf := status_buf, hp_url_buf := url_buf,
               hp_name_buf := name_buf, hp_value_buf := value_buf\<rparr>)))))))"

definition url_data_cb :: "('l, 'c) http_parser \<Rightarrow> string \<Rightarrow> (int \<times> ('l, 'c) http_parser) res" where
  "url_data_cb p at =
     rbind (HP_CHECK p) (\<lambda>_.
     rbind (c_deref (hp_current_message_ptr p)) (\<lambda>m.
     rbind (Message_set_is_request m True) (\<lambda>m.
     rbind (c_deref (hp_url_buf p)) (\<lambda>b.
     rbind (Cbuffer_append b at) (\<lambda>b.
     Inr (0, p\<lparr>hp_current_message_ptr := Some m, hp_url_buf := Some b\<rparr>))))))"

definition status_data_cb :: "('l, 'c) http_parser \<Rightarrow> int \<Rightarrow> string \<Rightarrow> (int \<times> ('l, 'c) http_parser) res" where
  "status_data_cb p status_code at =
     rbind (HP_CHECK p) (\<lambda>_.
     rbind (c_deref (hp_current_message_ptr p)) (\<lambda>m.
     rbind (Message_set_is_request m False) (\<lambda>m.
     rbind (Message_set_status m status_code) (\<lambda>m.
     rbind (c_deref (hp_status_buf p)) (\<lambda>b.
     rbind (Cbuffer_append b at) (\<lambda>b.
     rbind (Message_set_reason_cbuffer m b) (\<lambda>m.
     Inr (0, p\<lparr>hp_current_message_ptr := Some m, hp_status_buf := Some b\<rparr>))))))))"

text \<open>The move of a completed header line into the message, in two of the callbacks.\<close>

definition flush_header :: "('l, 'c) http_parser \<Rightarrow> ('l, 'c) http_parser res" where
  "flush_header p =
     rbind (c_deref (hp_name_buf p)) (\<lambda>n.
     rbind (Cbuffer_size n) (\<lambda>sz.
     if sz \<noteq> 0 then
       rbind (c_deref (hp_current_message_ptr p)) (\<lambda>m.
       rbind (c_deref (hp_value_buf p)) (\<lambda>v.
       rbind (Message_add_header_cbuf m n v) (\<lambda>m.
       rbind (Cbuffer_clear n) (\<lambda>n.
       rbind (Cbuffer_clear v) (\<lambda>v.
       Inr (p\<lparr>hp_current_message_ptr := Some m, hp_name_buf := Some n, hp_value_buf := Some v\<rparr>))))))
     else Inr p))"

definition append_name :: "('l, 'c) http_parser \<Rightarrow> string \<Rightarrow> ('l, 'c) http_parser res" where
  "append_name p at =
     rbind (c_deref (hp_name_buf p)) (\<lambda>n.
     rbind (Cbuffer_append n at) (\<lambda>n. Inr (p\<lparr>hp_name_buf := Some n\<rparr>)))"

definition header_field_data_cb :: "('l, 'c) http_parser \<Rightarrow> string \<Rightarrow> (int \<times> ('l, 'c) http_parser) res" where
  "header_field_data_cb p at =
     rbind (HP_CHECK p) (\<lambda>_.
     let state = hp_header_state p in
     rbind (if state = 0 \<or> state = kHEADER_STATE_NOTHING \<or> state = kHEADER_STATE_VALUE then
              rbind (flush_header p) (\<lambda>p. append_name p at)
            else if state = kHEADER_STATE_FIELD then append_name p at
            else Inl Assertion) (\<lambda>p.
     Inr (0, p\<lparr>hp_header_state := kHEADER_STATE_FIELD\<rparr>)))"

definition header_value_data_cb :: "('l, 'c) http_parser \<Rightarrow> string \<Rightarrow> (int \<times> ('l, 'c) http_parser) res" where
  "header_value_data_cb p at =
     rbind (HP_CHECK p) (\<lambda>_.
     let state = hp_header_state p in
     rbind (if state = kHEADER_STATE_FIELD then
              rbind (c_deref (hp_value_buf p)) (\<lambda>v.
              rbind (Cbuffer_clear v) (\<lambda>v. Cbuffer_append v at))
            else if state = kHEADER_STATE_VALUE then
              rbind (c_deref (hp_value_buf p)) (\<lambda>v. Cbuffer_append v at)
            else Inl Assertion) (\<lambda>v.
     Inr (0, p\<lparr>hp_value_buf := Some v, hp_header_state := kHEADER_STATE_VALUE\<rparr>)))"

definition headers_complete_cb ::
  "('l, 'c) http_parser \<Rightarrow> int \<Rightarrow> int \<Rightarrow> int \<Rightarrow> (int \<times> ('l, 'c) http_parser) res" where
  "headers_complete_cb p http_major http_minor method =
     rbind (HP_CHECK p) (\<lambda>_.
     rbind (flush_header p) (\<lambda>p.
     rbind (c_deref (hp_current_message_ptr p)) (\<lambda>m.
     rbind (Message_set_version m http_major http_minor) (\<lambda>m.
     rbind (c_deref (hp_url_buf p)) (\<lambda>u.
     rbind (Cbuffer_size u) (\<lambda>sz.
     rbind (if sz = 0 then Inr m
            else rbind (Message_set_method m method) (\<lambda>m. Message_set_target_cbuffer m u)) (\<lambda>m.
     Inr (0, p\<lparr>hp_current_message_ptr := Some m\<rparr>))))))))"

definition body_data_cb :: "('l, 'c) http_parser \<Rightarrow> string \<Rightarrow> (int \<times> ('l, 'c) http_parser) res" where
  "body_data_cb p at =
     rbind (HP_CHECK p) (\<lambda>_.
     rbind (c_deref (hp_current_message_ptr p)) (\<lambda>m.
     rbind (Message_get_body m) (\<lambda>chain_ptr.
     rbind (case chain_ptr of None \<Rightarrow> Inr BufferChain_new | Some c \<Rightarrow> Inr c) (\<lambda>chain.
     rbind (BufferChain_append chain at) (\<lambda>chain.
     rbind (Message_set_body m (Some chain)) (\<lambda>m.
     Inr (0, p\<lparr>hp_current_message_ptr := Some m\<rparr>)))))))"

text \<open>\<open>on_message_handler\<close> is called with the finished message; its result stops or continues the parse.\<close>

definition message_complete_cb ::
  "'c message_handler \<Rightarrow> ('l, 'c) http_parser \<Rightarrow> (int \<times> ('l, 'c) http_parser) res" where
  "message_complete_cb on_message_handler p =
     rbind (HP_CHECK p) (\<lambda>_.
     rbind (c_deref (hp_current_message_ptr p)) (\<lambda>tmp.
     rbind Message_new (\<lambda>m.
     rbind (on_message_handler (hp_handler_context p) tmp) (\<lambda>(retval, ctx).
     Inr (retval, p\<lparr>hp_current_message_ptr := Some m, hp_handler_context := ctx\<rparr>)))))"

text \<open>The callbacks whose body is \<open>return 0\<close>.\<close>

definition return_0_cb :: "('l, 'c) http_parser \<Rightarrow> (int \<times> ('l, 'c) http_parser) res" where
  "return_0_cb p = Inr (0, p)"

text \<open>The next four start with \<open>return 0\<close>; the statements after it are never reached.\<close>

definition method_data_cb :: "('l, 'c) http_parser \<Rightarrow> string \<Rightarrow> (int \<times> ('l, 'c) http_parser) res" where
  "method_data_cb p at = Inr (0, p)"

definition version_data_cb :: "('l, 'c) http_parser \<Rightarrow> string \<Rightarrow> (int \<times> ('l, 'c) http_parser) res" where
  "version_data_cb p at = Inr (0, p)"

definition chunk_extension_name_cb :: "('l, 'c) http_parser \<Rightarrow> string \<Rightarrow> (int \<times> ('l, 'c) http_parser) res" where
  "chunk_extension_name_cb p at = Inr (0, p)"

definition chunk_extension_value_cb :: "('l, 'c) http_parser \<Rightarrow> string \<Rightarrow> (int \<times> ('l, 'c) http_parser) res" where
  "chunk_extension_value_cb p at = Inr (0, p)"

text \<open>The table \<open>m_llhttp_settings_ptr\<close> that \<open>http_parser_initialize\<close> fills in.\<close>

fun ll_dispatch ::
  "'c message_handler \<Rightarrow> ll_event \<Rightarrow> ('l, 'c) http_parser \<Rightarrow> (int \<times> ('l, 'c) http_parser) res" where
  "ll_dispatch h On_message_begin p = message_begin_cb p"
| "ll_dispatch h (On_url at) p = url_data_cb p at"
| "ll_dispatch h (On_status code at) p = status_data_cb p code at"
| "ll_dispatch h (On_header_field at) p = header_field_data_cb p at"
| "ll_dispatch h (On_header_value at) p = header_value_data_cb p at"
| "ll_dispatch h (On_headers_complete major minor method) p = headers_complete_cb p major minor method"
| "ll_dispatch h (On_body at) p = body_data_cb p at"
| "ll_dispatch h On_message_complete p = message_complete_cb h p"
| "ll_dispatch h (On_method at) p = method_data_cb p at"
| "ll_dispatch h (On_version at) p = version_data_cb p at"
| "ll_dispatch h (On_chunk_extension_name at) p = chunk_extension_name_cb p at"
| "ll_dispatch h (On_chunk_extension_value at) p = chunk_extension_value_cb p at"
| "ll_dispatch h _ p = return_0_cb p"

text \<open>
  \<open>llhttp\<close> runs the callbacks of a buffer in order and stops at the first one that does not
  return zero.  Here the value returned then is the error number; \<open>llhttp\<close> puts a number of its own
  in place of it for some callbacks.  No callback and no message handler of this program returns
  anything but zero, so that only the test against \<open>HPE_OK\<close> depends on it.
\<close>

fun ll_run ::
  "'c message_handler \<Rightarrow> ll_event list \<Rightarrow> ('l, 'c) http_parser \<Rightarrow> (int \<times> ('l, 'c) http_parser) res" where
  "ll_run h [] p = Inr (0, p)"
| "ll_run h (e # es) p =
     rbind (ll_dispatch h e p) (\<lambda>(rc, p). if rc = 0 then ll_run h es p else Inr (rc, p))"

text \<open>
  \<open>llhttp_execute\<close> and \<open>llhttp_finish\<close> are parameters: from the state of \<open>llhttp\<close> and the
  bytes, the events of these bytes, the next state and the error number at the end.
\<close>

definition http_parser_consume ::
  "('l \<Rightarrow> string \<Rightarrow> ll_event list \<times> 'l \<times> int) \<Rightarrow> ('l \<Rightarrow> ll_event list \<times> 'l \<times> int) \<Rightarrow>
   'c message_handler \<Rightarrow> ('l, 'c) http_parser \<Rightarrow> string \<Rightarrow> (int \<times> ('l, 'c) http_parser) res" where
  "http_parser_consume llhttp_execute llhttp_finish h p buffer =
     rbind (HP_CHECK p) (\<lambda>_.
     let (es, l, errno) = (if length buffer = 0 then llhttp_finish (hp_llhttp p)
                           else llhttp_execute (hp_llhttp p) buffer) in
     rbind (ll_run h es p) (\<lambda>(rc, p).
     Inr (if rc = 0 then errno else rc, p\<lparr>hp_llhttp := l\<rparr>)))"

definition http_parser_get_errno :: "('l \<Rightarrow> int) \<Rightarrow> ('l, 'c) http_parser \<Rightarrow> int res" where
  "http_parser_get_errno llhttp_get_errno p = rbind (HP_CHECK p) (\<lambda>_. Inr (llhttp_get_errno (hp_llhttp p)))"

text \<open>Name and description are both taken from \<open>llhttp_errno_name\<close>.\<close>

record http_parser_error =
  m_name :: string
  m_description :: string
  m_err_number :: int

definition http_parser_get_error ::
  "('l \<Rightarrow> int) \<Rightarrow> (int \<Rightarrow> string) \<Rightarrow> ('l, 'c) http_parser \<Rightarrow> http_parser_error res" where
  "http_parser_get_error llhttp_get_errno llhttp_errno_name p =
     rbind (HP_CHECK p) (\<lambda>_.
     let x = llhttp_get_errno (hp_llhttp p) in
     Inr \<lparr>m_name = llhttp_errno_name x, m_description = llhttp_errno_name x, m_err_number = x\<rparr>)"

text \<open>
  The buffers are released and their pointers cleared; the message in progress is not.  The
  second test of \<open>m_name_buf\<close> finds \<open>NULL\<close>.
\<close>

definition http_parser_dispose :: "('l, 'c) http_parser \<Rightarrow> unit res" where
  "http_parser_dispose p =
     rbind (HP_CHECK p) (\<lambda>_.
     rbind (rfold (\<lambda>b u. case b of None \<Rightarrow> Inr u | Some cb \<Rightarrow> rbind (Cbuffer_dispose cb) (\<lambda>_. Inr u))
        [hp_name_buf p, hp_url_buf p, hp_status_buf p, hp_value_buf p, None] ()) (\<lambda>_. Inr ()))"


section \<open>The accumulation buffers\<close>

definition cb_holds :: "Cbuffer option \<Rightarrow> string \<Rightarrow> bool" where
  "cb_holds b s \<longleftrightarrow> (\<exists>cb. b = Some cb \<and> cb_wf cb \<and> cb_terminated cb \<and> cb_content cb = s)"

text \<open>Fragments the buffer takes without leaving its slab.\<close>

definition frag_ok :: "string \<Rightarrow> string \<Rightarrow> bool" where
  "frag_ok t s \<longleftrightarrow> length s \<le> 256 \<and> length t + length s < 1024 * 1024"

lemma cb_holdsE:
  assumes "cb_holds b s"
  obtains cb where "b = Some cb" "cb_wf cb" "cb_terminated cb" "cb_content cb = s"
  using assms by (auto simp: cb_holds_def)

lemma cb_holds_Some: "cb_holds b s \<Longrightarrow> \<exists>cb. b = Some cb \<and> cb_holds (Some cb) s"
  by (auto simp: cb_holds_def)

lemma cb_holds_append:
  assumes "cb_holds (Some cb) t" and "frag_ok t s"
  shows "\<exists>cb'. Cbuffer_append cb s = Inr cb' \<and> cb_holds (Some cb') (t @ s)"
proof -
  have wf: "cb_wf cb" "cb_terminated cb" "cb_content cb = t" using assms(1) by (auto simp: cb_holds_def)
  have "cb_fits cb (length s)"
    using assms(2) wf cb_content_length [OF wf(1)] by (auto simp: frag_ok_def cb_fits_def cb_wf_def)
  from Cbuffer_append_ok [OF wf(1) this] wf Cbuffer_append_Nil [OF wf(1)] show ?thesis
    by (cases "s = []") (auto simp: cb_holds_def)
qed

lemma cb_holds_clear: "cb_wf cb \<Longrightarrow> \<exists>cb'. Cbuffer_clear cb = Inr cb' \<and> cb_holds (Some cb') []"
  using Cbuffer_clear_ok [of cb] by (auto simp: cb_holds_def)

section \<open>States of the parser\<close>

definition hs_accepts :: "int \<Rightarrow> string \<Rightarrow> bool" where
  "hs_accepts hs n \<longleftrightarrow> hs = 0 \<or> hs = kHEADER_STATE_NOTHING \<or> hs = kHEADER_STATE_VALUE \<or>
     hs = kHEADER_STATE_FIELD \<and> n = []"

text \<open>Between two messages.\<close>

definition hp_ready :: "('l, 'c) http_parser \<Rightarrow> bool" where
  "hp_ready p \<longleftrightarrow> hp_tag p = HTTP_PARSER_TAG \<and> hs_accepts (hp_header_state p) [] \<and>
     (\<forall>m. hp_current_message_ptr p = Some m \<longrightarrow> msg_wf m \<and> msg_target m \<noteq> None \<and> msg_reason m \<noteq> None) \<and>
     (\<exists>u s n v. hp_url_buf p = Some u \<and> hp_status_buf p = Some s \<and> hp_name_buf p = Some n \<and>
        hp_value_buf p = Some v \<and> cb_wf u \<and> cb_wf s \<and> cb_wf n \<and> cb_wf v)"

text \<open>
  Inside a message: \<open>m\<close> is the message under construction, \<open>u\<close>, \<open>s\<close>, \<open>n\<close> and \<open>v\<close> are the bytes
  of url, status, header name and header value collected so far.
\<close>

definition hp_at ::
  "('l, 'c) http_parser \<Rightarrow> Message \<Rightarrow> string \<Rightarrow> string \<Rightarrow> string \<Rightarrow> string \<Rightarrow> bool" where
  "hp_at p m u s n v \<longleftrightarrow> hp_tag p = HTTP_PARSER_TAG \<and> hp_current_message_ptr p = Some m \<and> msg_wf m \<and>
     cb_holds (hp_url_buf p) u \<and> cb_holds (hp_status_buf p) s \<and> cb_holds (hp_name_buf p) n \<and>
     cb_holds (hp_value_buf p) v"

text \<open>A new message, before any callback has written to it.\<close>

definition msg_fresh :: "Message \<Rightarrow> bool" where
  "msg_fresh m \<longleftrightarrow> msg_wf m \<and> List_items (msg_headers m) = [] \<and> msg_body m = None \<and> msg_major_vers m = 1 \<and>
     (\<exists>t r. msg_target m = Some t \<and> cb_content t = [] \<and> cb_capacity t = 256 \<and>
            msg_reason m = Some r \<and> cb_content r = [])"

lemma Message_new_fresh: "\<exists>m. Message_new = Inr m \<and> msg_fresh m"
proof -
  obtain cb where cb: "Cbuffer_new = Inr cb" "cb_wf cb" "cb_content cb = []" "cb_capacity cb = 256"
    using Cbuffer_new_wf by blast
  show ?thesis unfolding Message_new_def cb(1) using cb(2,3,4)
    by (simp add: msg_fresh_def msg_wf_def HdrList_new_wf)
qed

lemma hp_check: "hp_at p m u s n v \<Longrightarrow> HP_CHECK p = Inr ()"
  by (simp add: hp_at_def HP_CHECK_def)

lemma http_parser_new_ready:
  "\<exists>p. http_parser_new l ctx = Inr p \<and> hp_ready p \<and> hp_handler_context p = ctx \<and> hp_llhttp p = l"
proof -
  obtain cb where cb: "Cbuffer_new = Inr cb" "cb_wf cb" using Cbuffer_new_wf by blast
  obtain c' where c': "Cbuffer_clear cb = Inr c'" "cb_wf c'" using Cbuffer_clear_ok [OF cb(2)] by blast
  obtain m where m: "Message_new = Inr m" using Message_new_fresh by blast
  show ?thesis
    unfolding http_parser_new_def http_parser_initialize_def cb(1) m
    using c' by (simp add: HP_CHECK_def clear_if_set_def hp_ready_def hs_accepts_def)
qed

lemma clear_or_new_ok: "cb_wf cb \<Longrightarrow> \<exists>b. clear_or_new (Some cb) = Inr b \<and> cb_holds b []"
  using cb_holds_clear [of cb] by (auto simp: clear_or_new_def)

lemma message_begin_ok:
  assumes r: "hp_ready p"
  shows "\<exists>p' m. message_begin_cb p = Inr (0, p') \<and> hp_at p' m [] [] [] [] \<and> msg_fresh m \<and>
     hp_handler_context p' = hp_handler_context p \<and> hp_header_state p' = hp_header_state p"
proof -
  obtain m where m: "Message_new = Inr m" "msg_fresh m" using Message_new_fresh by blast
  have msg: "(case hp_current_message_ptr p of Some m \<Rightarrow> rbind (Message_dispose m) (\<lambda>_. Message_new)
              | None \<Rightarrow> Message_new) = Inr m"
    using r m(1) Message_dispose_ok by (auto simp: hp_ready_def split: option.split)
  from r obtain u s n v where b: "hp_url_buf p = Some u" "hp_status_buf p = Some s" "hp_name_buf p = Some n"
    "hp_value_buf p = Some v" "cb_wf u" "cb_wf s" "cb_wf n" "cb_wf v" "hp_tag p = HTTP_PARSER_TAG"
    by (auto simp: hp_ready_def)
  obtain u' s' n' v' where c: "clear_or_new (hp_url_buf p) = Inr u'" "cb_holds u' []"
    "clear_or_new (hp_status_buf p) = Inr s'" "cb_holds s' []" "clear_or_new (hp_name_buf p) = Inr n'" "cb_holds n' []"
    "clear_or_new (hp_value_buf p) = Inr v'" "cb_holds v' []"
    using clear_or_new_ok b by metis
  then show ?thesis
    using b(9) m(2) unfolding message_begin_cb_def msg
    by (simp add: HP_CHECK_def hp_at_def msg_fresh_def)
qed

lemma url_data_ok:
  assumes at: "hp_at p m u s n v" and f: "frag_ok u a"
  shows "\<exists>p'. url_data_cb p a = Inr (0, p') \<and> hp_at p' (m\<lparr>msg_is_request := Some True\<rparr>) (u @ a) s n v \<and>
     hp_handler_context p' = hp_handler_context p \<and> hp_header_state p' = hp_header_state p"
proof -
  have wf: "msg_wf m" "hp_current_message_ptr p = Some m" using at by (auto simp: hp_at_def)
  obtain cb where cb: "hp_url_buf p = Some cb" "cb_holds (Some cb) u"
    using at cb_holds_Some unfolding hp_at_def by blast
  obtain cb' where cb': "Cbuffer_append cb a = Inr cb'" "cb_holds (Some cb') (u @ a)"
    using cb_holds_append [OF cb(2) f] by blast
  have "msg_wf (m\<lparr>msg_is_request := Some True\<rparr>)" using wf by (simp add: msg_wf_def)
  with at cb cb' wf show ?thesis
    by (simp add: url_data_cb_def hp_check Message_set_is_request_def msg_wf_check) (simp add: hp_at_def)
qed

lemma append_name_ok:
  assumes at: "hp_at p m u s n v" and f: "frag_ok n a"
  shows "\<exists>p'. append_name p a = Inr p' \<and> hp_at p' m u s (n @ a) v \<and>
     hp_handler_context p' = hp_handler_context p \<and> hp_header_state p' = hp_header_state p"
proof -
  obtain cb where cb: "hp_name_buf p = Some cb" "cb_holds (Some cb) n"
    using at cb_holds_Some unfolding hp_at_def by blast
  obtain cb' where "Cbuffer_append cb a = Inr cb'" "cb_holds (Some cb') (n @ a)"
    using cb_holds_append [OF cb(2) f] by blast
  with at cb show ?thesis by (simp add: append_name_def) (simp add: hp_at_def)
qed

text \<open>The header line that is complete but not yet in the message.\<close>

definition pending :: "string \<Rightarrow> string \<Rightarrow> KVPair list" where
  "pending n v = (if n = [] then [] else [KVPair_new n v])"

lemma flush_header_ok:
  assumes at: "hp_at p m u s n v"
  shows "\<exists>p' h v'. flush_header p = Inr p' \<and> hp_at p' (m\<lparr>msg_headers := h\<rparr>) u s [] v' \<and>
     List_items h = List_items (msg_headers m) @ pending n v \<and>
     hp_handler_context p' = hp_handler_context p \<and> hp_header_state p' = hp_header_state p"
proof -
  obtain nb where nb: "hp_name_buf p = Some nb" "cb_wf nb" "cb_content nb = n"
    using at by (auto simp: hp_at_def elim: cb_holdsE)
  obtain vb where vb: "hp_value_buf p = Some vb" "cb_wf vb" "cb_content vb = v"
    using at by (auto simp: hp_at_def elim: cb_holdsE)
  have wf: "msg_wf m" and cur: "hp_current_message_ptr p = Some m" using at by (auto simp: hp_at_def)
  show ?thesis
  proof (cases "n = []")
    case True
    have "m\<lparr>msg_headers := msg_headers m\<rparr> = m" by simp
    then show ?thesis using at nb True
      by (intro exI [of _ p] exI [of _ "msg_headers m"] exI [of _ v])
         (simp add: flush_header_def Cbuffer_size_ok pending_def)
  next
    case False
    from Message_add_header_cbuf_ok [OF wf nb(2) vb(2)] obtain h where h:
      "Message_add_header_cbuf m nb vb = Inr (m\<lparr>msg_headers := h\<rparr>)" "msg_wf (m\<lparr>msg_headers := h\<rparr>)"
      "List_items h = List_items (msg_headers m) @ [KVPair_new n v]" using nb(3) vb(3) by blast
    obtain n' v' where c: "Cbuffer_clear nb = Inr n'" "cb_holds (Some n') []"
      "Cbuffer_clear vb = Inr v'" "cb_holds (Some v') []" using cb_holds_clear nb(2) vb(2) by metis
    have "flush_header p = Inr (p\<lparr>hp_current_message_ptr := Some (m\<lparr>msg_headers := h\<rparr>),
            hp_name_buf := Some n', hp_value_buf := Some v'\<rparr>)"
      using nb vb False cur h(1) c by (simp add: flush_header_def Cbuffer_size_ok)
    with at h(2,3) c False show ?thesis
      by (intro exI [of _ "p\<lparr>hp_current_message_ptr := Some (m\<lparr>msg_headers := h\<rparr>),
            hp_name_buf := Some n', hp_value_buf := Some v'\<rparr>"] exI [of _ h] exI [of _ "[]"])
         (simp add: hp_at_def pending_def)
  qed
qed


section \<open>Runs of fragments\<close>

lemma ll_run_append:
  "ll_run h (es @ fs) p = rbind (ll_run h es p) (\<lambda>(rc, p). if rc = 0 then ll_run h fs p else Inr (rc, p))"
  by (induction es arbitrary: p) (auto simp: rbind_assoc intro!: rbind_cong)

lemma ll_run_append_ok: "ll_run h es p = Inr (0, p') \<Longrightarrow> ll_run h (es @ fs) p = ll_run h fs p'"
  by (simp add: ll_run_append)

definition frags_ok :: "string \<Rightarrow> string list \<Rightarrow> bool" where
  "frags_ok t ss \<longleftrightarrow> (\<forall>s \<in> set ss. length s \<le> 256) \<and> length t + length (concat ss) < 1024 * 1024"

lemma frags_ok_Cons: "frags_ok t (s # ss) \<longleftrightarrow> frag_ok t s \<and> frags_ok (t @ s) ss"
  by (auto simp: frags_ok_def frag_ok_def)

text \<open>Two parser states with the same client context.\<close>

definition same_ctx :: "('l, 'c) http_parser \<Rightarrow> ('l, 'c) http_parser \<Rightarrow> bool" where
  "same_ctx p p' \<longleftrightarrow> hp_handler_context p' = hp_handler_context p"

lemma run_urls_more:
  assumes "hp_at p m u s n v" and "frags_ok u us" and "msg_is_request m = Some True"
  shows "\<exists>p'. ll_run h (map On_url us) p = Inr (0, p') \<and> hp_at p' m (u @ concat us) s n v \<and>
     same_ctx p p' \<and> hp_header_state p' = hp_header_state p"
  using assms
proof (induction us arbitrary: p u)
  case (Cons a us)
  have eq: "m\<lparr>msg_is_request := Some True\<rparr> = m" using Cons.prems(3) by simp
  obtain p1 where p1: "url_data_cb p a = Inr (0, p1)" "hp_at p1 m (u @ a) s n v" "same_ctx p p1"
    "hp_header_state p1 = hp_header_state p"
    using url_data_ok [OF Cons.prems(1), of a] Cons.prems(2) by (auto simp: frags_ok_Cons eq same_ctx_def)
  from Cons.IH [OF p1(2)] Cons.prems(2,3) p1 show ?case by (auto simp: frags_ok_Cons same_ctx_def)
qed (simp add: same_ctx_def)

lemma run_urls:
  assumes at: "hp_at p m u s n v" and f: "frags_ok u us" and ne: "us \<noteq> []"
  shows "\<exists>p'. ll_run h (map On_url us) p = Inr (0, p') \<and>
     hp_at p' (m\<lparr>msg_is_request := Some True\<rparr>) (u @ concat us) s n v \<and>
     same_ctx p p' \<and> hp_header_state p' = hp_header_state p"
proof -
  from ne obtain a us' where us: "us = a # us'" by (cases us) auto
  obtain p1 where p1: "url_data_cb p a = Inr (0, p1)" "hp_at p1 (m\<lparr>msg_is_request := Some True\<rparr>) (u @ a) s n v"
    "same_ctx p p1" "hp_header_state p1 = hp_header_state p"
    using url_data_ok [OF at, of a] f us by (auto simp: frags_ok_Cons same_ctx_def)
  from run_urls_more [OF p1(2), of us'] f us p1 show ?thesis by (auto simp: frags_ok_Cons same_ctx_def)
qed

lemma header_field_first_ok:
  assumes at: "hp_at p m u s n v" and acc: "hs_accepts (hp_header_state p) n" and f: "frag_ok [] a"
  shows "\<exists>p' h v'. header_field_data_cb p a = Inr (0, p') \<and> hp_at p' (m\<lparr>msg_headers := h\<rparr>) u s a v' \<and>
     List_items h = List_items (msg_headers m) @ pending n v \<and> same_ctx p p' \<and>
     hp_header_state p' = kHEADER_STATE_FIELD"
proof (cases "hp_header_state p = kHEADER_STATE_FIELD")
  case True
  then have n: "n = []" using acc by (simp add: hs_accepts_def kHEADER_STATE_FIELD_def
      kHEADER_STATE_NOTHING_def kHEADER_STATE_VALUE_def)
  have at0: "hp_at p (m\<lparr>msg_headers := msg_headers m\<rparr>) u s n v" using at by simp
  obtain p1 where "append_name p a = Inr p1" "hp_at p1 (m\<lparr>msg_headers := msg_headers m\<rparr>) u s a v" "same_ctx p p1"
    using append_name_ok [OF at0, of a] f n by (auto simp: same_ctx_def)
  then show ?thesis
    using True hp_check [OF at] n
    by (intro exI [of _ "p1\<lparr>hp_header_state := kHEADER_STATE_FIELD\<rparr>"] exI [of _ "msg_headers m"] exI [of _ v])
       (simp add: header_field_data_cb_def pending_def hp_at_def same_ctx_def kHEADER_STATE_FIELD_def
         kHEADER_STATE_NOTHING_def kHEADER_STATE_VALUE_def)
next
  case False
  then have st: "hp_header_state p = 0 \<or> hp_header_state p = kHEADER_STATE_NOTHING \<or>
      hp_header_state p = kHEADER_STATE_VALUE" using acc by (auto simp: hs_accepts_def)
  obtain p1 h v' where p1: "flush_header p = Inr p1" "hp_at p1 (m\<lparr>msg_headers := h\<rparr>) u s [] v'"
    "List_items h = List_items (msg_headers m) @ pending n v" "same_ctx p p1"
    using flush_header_ok [OF at] by (auto simp: same_ctx_def)
  obtain p2 where p2: "append_name p1 a = Inr p2" "hp_at p2 (m\<lparr>msg_headers := h\<rparr>) u s a v'" "same_ctx p1 p2"
    using append_name_ok [OF p1(2), of a] f by (auto simp: same_ctx_def)
  show ?thesis
    using st hp_check [OF at] p1 p2
    by (intro exI [of _ "p2\<lparr>hp_header_state := kHEADER_STATE_FIELD\<rparr>"] exI [of _ h] exI [of _ v'])
       (simp add: header_field_data_cb_def hp_at_def same_ctx_def Let_def)
qed

lemma header_field_more_ok:
  assumes at: "hp_at p m u s n v" and st: "hp_header_state p = kHEADER_STATE_FIELD" and f: "frag_ok n a"
  shows "\<exists>p'. header_field_data_cb p a = Inr (0, p') \<and> hp_at p' m u s (n @ a) v \<and> same_ctx p p' \<and>
     hp_header_state p' = kHEADER_STATE_FIELD"
proof -
  obtain p1 where "append_name p a = Inr p1" "hp_at p1 m u s (n @ a) v" "same_ctx p p1"
    using append_name_ok [OF at f] by (auto simp: same_ctx_def)
  then show ?thesis
    using st hp_check [OF at]
    by (simp add: header_field_data_cb_def same_ctx_def kHEADER_STATE_FIELD_def
         kHEADER_STATE_NOTHING_def kHEADER_STATE_VALUE_def) (simp add: hp_at_def)
qed

lemma header_value_ok:
  assumes at: "hp_at p m u s n v"
    and st: "hp_header_state p = kHEADER_STATE_FIELD \<and> t = [] \<or> hp_header_state p = kHEADER_STATE_VALUE \<and> t = v"
    and f: "frag_ok t a"
  shows "\<exists>p'. header_value_data_cb p a = Inr (0, p') \<and> hp_at p' m u s n (t @ a) \<and> same_ctx p p' \<and>
     hp_header_state p' = kHEADER_STATE_VALUE"
proof -
  obtain cb where cb: "hp_value_buf p = Some cb" "cb_holds (Some cb) v"
    using at cb_holds_Some unfolding hp_at_def by blast
  then have wf: "cb_wf cb" by (auto simp: cb_holds_def)
  have "\<exists>c1. (if hp_header_state p = kHEADER_STATE_FIELD then Cbuffer_clear cb else Inr cb) = Inr c1 \<and>
          cb_holds (Some c1) t"
    using cb_holds_clear [OF wf] cb(2) st by (auto simp: kHEADER_STATE_FIELD_def kHEADER_STATE_VALUE_def)
  then obtain c1 where c1: "(if hp_header_state p = kHEADER_STATE_FIELD then Cbuffer_clear cb else Inr cb) = Inr c1"
    "cb_holds (Some c1) t" by blast
  obtain c2 where c2: "Cbuffer_append c1 a = Inr c2" "cb_holds (Some c2) (t @ a)"
    using cb_holds_append [OF c1(2) f] by blast
  have "header_value_data_cb p a = Inr (0, p\<lparr>hp_value_buf := Some c2, hp_header_state := kHEADER_STATE_VALUE\<rparr>)"
    using st c1(1) c2(1) cb(1) hp_check [OF at]
    by (auto simp: header_value_data_cb_def Let_def kHEADER_STATE_FIELD_def kHEADER_STATE_VALUE_def)
  then show ?thesis using at c2(2) by (simp add: hp_at_def same_ctx_def)
qed

lemma run_fields_more:
  assumes "hp_at p m u s n v" and "hp_header_state p = kHEADER_STATE_FIELD" and "frags_ok n fs"
  shows "\<exists>p'. ll_run h (map On_header_field fs) p = Inr (0, p') \<and> hp_at p' m u s (n @ concat fs) v \<and>
     same_ctx p p' \<and> hp_header_state p' = kHEADER_STATE_FIELD"
  using assms
proof (induction fs arbitrary: p n)
  case (Cons a fs)
  obtain p1 where p1: "header_field_data_cb p a = Inr (0, p1)" "hp_at p1 m u s (n @ a) v" "same_ctx p p1"
    "hp_header_state p1 = kHEADER_STATE_FIELD"
    using header_field_more_ok [OF Cons.prems(1,2), of a] Cons.prems(3) by (auto simp: frags_ok_Cons)
  from Cons.IH [OF p1(2,4)] Cons.prems(3) p1 show ?case by (auto simp: frags_ok_Cons same_ctx_def)
qed (simp add: same_ctx_def)

lemma run_values:
  assumes "hp_at p m u s n v" and "vs \<noteq> []"
    and "hp_header_state p = kHEADER_STATE_FIELD \<and> t = [] \<or> hp_header_state p = kHEADER_STATE_VALUE \<and> t = v"
    and "frags_ok t vs"
  shows "\<exists>p'. ll_run h (map On_header_value vs) p = Inr (0, p') \<and> hp_at p' m u s n (t @ concat vs) \<and>
     same_ctx p p' \<and> hp_header_state p' = kHEADER_STATE_VALUE"
  using assms
proof (induction vs arbitrary: p t v)
  case (Cons a vs)
  obtain p1 where p1: "header_value_data_cb p a = Inr (0, p1)" "hp_at p1 m u s n (t @ a)" "same_ctx p p1"
    "hp_header_state p1 = kHEADER_STATE_VALUE"
    using header_value_ok [OF Cons.prems(1,3), of a] Cons.prems(4) by (auto simp: frags_ok_Cons)
  show ?case
  proof (cases "vs = []")
    case True
    then show ?thesis using p1 by simp
  next
    case False
    from Cons.IH [OF p1(2) False, of "t @ a"] p1 Cons.prems(4) show ?thesis
      by (auto simp: frags_ok_Cons same_ctx_def)
  qed
qed simp

text \<open>One header line, its name and value each in one or more fragments.\<close>

type_synonym frag_header = "string list \<times> string list"

definition header_events :: "frag_header \<Rightarrow> ll_event list" where
  "header_events fv = map On_header_field (fst fv) @ map On_header_value (snd fv)"

definition frag_header_ok :: "frag_header \<Rightarrow> bool" where
  "frag_header_ok fv \<longleftrightarrow> concat (fst fv) \<noteq> [] \<and> snd fv \<noteq> [] \<and> frags_ok [] (fst fv) \<and> frags_ok [] (snd fv)"

definition header_pair :: "frag_header \<Rightarrow> KVPair" where
  "header_pair fv = KVPair_new (concat (fst fv)) (concat (snd fv))"

lemma run_header:
  assumes at: "hp_at p m u s n v" and acc: "hs_accepts (hp_header_state p) n" and ok: "frag_header_ok fv"
  shows "\<exists>p' h. ll_run hdl (header_events fv) p = Inr (0, p') \<and>
     hp_at p' (m\<lparr>msg_headers := h\<rparr>) u s (concat (fst fv)) (concat (snd fv)) \<and>
     List_items h = List_items (msg_headers m) @ pending n v \<and> same_ctx p p' \<and>
     hp_header_state p' = kHEADER_STATE_VALUE"
proof -
  obtain f fs where fs: "fst fv = f # fs" using ok by (cases "fst fv") (auto simp: frag_header_ok_def)
  have fok: "frag_ok [] f" "frags_ok f fs" using ok fs by (auto simp: frag_header_ok_def frags_ok_Cons)
  obtain p1 h v1 where p1: "header_field_data_cb p f = Inr (0, p1)" "hp_at p1 (m\<lparr>msg_headers := h\<rparr>) u s f v1"
    "List_items h = List_items (msg_headers m) @ pending n v" "same_ctx p p1" "hp_header_state p1 = kHEADER_STATE_FIELD"
    using header_field_first_ok [OF at acc fok(1)] by blast
  obtain p2 where p2: "ll_run hdl (map On_header_field fs) p1 = Inr (0, p2)"
    "hp_at p2 (m\<lparr>msg_headers := h\<rparr>) u s (f @ concat fs) v1" "same_ctx p1 p2" "hp_header_state p2 = kHEADER_STATE_FIELD"
    using run_fields_more [OF p1(2,5) fok(2)] by blast
  obtain p3 where p3: "ll_run hdl (map On_header_value (snd fv)) p2 = Inr (0, p3)"
    "hp_at p3 (m\<lparr>msg_headers := h\<rparr>) u s (f @ concat fs) (concat (snd fv))" "same_ctx p2 p3"
    "hp_header_state p3 = kHEADER_STATE_VALUE"
    using run_values [OF p2(2), of "snd fv" "[]"] p2(4) ok by (auto simp: frag_header_ok_def)
  have "ll_run hdl (header_events fv) p = Inr (0, p3)"
    using p1(1) p2(1) p3(1) fs by (simp add: header_events_def ll_run_append)
  then show ?thesis using p1(3,4) p2(3) p3(2,3,4) fs by (auto simp: same_ctx_def)
qed

lemma run_headers:
  assumes "hp_at p m u s n v" and "hs_accepts (hp_header_state p) n" and "\<forall>fv \<in> set fvs. frag_header_ok fv"
  shows "\<exists>p' h n' v'. ll_run hdl (concat (map header_events fvs)) p = Inr (0, p') \<and>
     hp_at p' (m\<lparr>msg_headers := h\<rparr>) u s n' v' \<and>
     List_items h @ pending n' v' = List_items (msg_headers m) @ pending n v @ map header_pair fvs \<and>
     same_ctx p p' \<and> hs_accepts (hp_header_state p') n'"
  using assms
proof (induction fvs arbitrary: p m n v)
  case Nil
  then have "hp_at p (m\<lparr>msg_headers := msg_headers m\<rparr>) u s n v" by simp
  with Nil show ?case
    by (intro exI [of _ p] exI [of _ "msg_headers m"] exI [of _ n] exI [of _ v]) (simp add: same_ctx_def)
next
  case (Cons fv fvs)
  have ok: "frag_header_ok fv" using Cons.prems(3) by simp
  obtain p1 h where p1: "ll_run hdl (header_events fv) p = Inr (0, p1)"
    "hp_at p1 (m\<lparr>msg_headers := h\<rparr>) u s (concat (fst fv)) (concat (snd fv))"
    "List_items h = List_items (msg_headers m) @ pending n v" "same_ctx p p1" "hp_header_state p1 = kHEADER_STATE_VALUE"
    using run_header [OF Cons.prems(1,2) ok] by blast
  have acc: "hs_accepts (hp_header_state p1) (concat (fst fv))" using p1(5) by (simp add: hs_accepts_def)
  have pend: "pending (concat (fst fv)) (concat (snd fv)) = [header_pair fv]"
    using ok by (simp only: pending_def frag_header_ok_def header_pair_def if_False)
  from Cons.IH [OF p1(2) acc] Cons.prems(3) obtain p2 h2 n2 v2 where p2:
    "ll_run hdl (concat (map header_events fvs)) p1 = Inr (0, p2)" "hp_at p2 (m\<lparr>msg_headers := h2\<rparr>) u s n2 v2"
    "List_items h2 @ pending n2 v2 = List_items h @ [header_pair fv] @ map header_pair fvs"
    "same_ctx p1 p2" "hs_accepts (hp_header_state p2) n2" unfolding pend by auto
  then show ?case using p1(1,3,4) by (auto simp: ll_run_append same_ctx_def)
qed


section \<open>Completion of headers, body and message\<close>

lemma cstr_of_holds:
  assumes "cb_wf u" and "cb_terminated u"
  shows "rbind (Cbuffer_cstr u) cstr_of = Inr (c_str (cb_content u))"
  using assms by (simp add: Cbuffer_cstr_ok cb_terminated_cstr)

lemma Message_set_target_cbuffer_ok:
  assumes m: "msg_wf m" "msg_target m = Some t" "cb_content t = []" and u: "cb_wf u" "cb_terminated u"
    and s: "cb_content u = s" "no_nul s" "s \<noteq> []" "length s < 512"
  shows "\<exists>t'. Message_set_target_cbuffer m u = Inr (m\<lparr>msg_target := Some t'\<rparr>) \<and>
     msg_wf (m\<lparr>msg_target := Some t'\<rparr>) \<and> cb_holds (Some t') s"
proof -
  have t: "cb_wf t" using m by (simp add: msg_wf_def)
  obtain t' where t': "Cbuffer_append_cstr t s = Inr t'" "cb_wf t'" "cb_content t' = s" "cb_terminated t'"
    using append_cstr_fresh [OF t m(3) s(2,3,4)] by blast
  have "Message_set_target_cbuffer m u = Inr (m\<lparr>msg_target := Some t'\<rparr>)"
    unfolding Message_set_target_cbuffer_def cstr_of_holds [OF u]
    using m t t'(1) s by (simp add: msg_wf_check assert_empty_ok)
  moreover have "msg_wf (m\<lparr>msg_target := Some t'\<rparr>)" using m(1) t'(2) by (simp add: msg_wf_def)
  ultimately show ?thesis using t' by (auto simp: cb_holds_def)
qed

lemma Message_set_target_cbuffer_long:
  assumes m: "msg_wf m" "msg_target m = Some t" "cb_content t = []" "cb_capacity t = 256"
    and u: "cb_wf u" "cb_terminated u" and s: "no_nul (cb_content u)" "512 \<le> length (cb_content u)"
  shows "Message_set_target_cbuffer m u = Inl MemFault"
proof -
  have t: "cb_wf t" using m by (simp add: msg_wf_def)
  have "length (cb_content u) \<le> 1024 * 1024" using u(1) cb_content_length [OF u(1)] by (auto simp: cb_wf_def)
  then have "Cbuffer_append t (cb_content u) = Inl MemFault"
    using cb_content_length [OF t] m(3,4) s(2)
    by (intro Cbuffer_append_overrun [OF t]) (auto simp: cb_fits_def)
  then show ?thesis
    unfolding Message_set_target_cbuffer_def cstr_of_holds [OF u]
    using m t s(1) by (simp add: msg_wf_check assert_empty_ok Cbuffer_append_cstr_def cb_wf_check)
qed

lemma Message_set_reason_cbuffer_ok:
  assumes m: "msg_wf m" "msg_reason m = Some t" "cb_content t = []" and u: "cb_wf u" "cb_terminated u"
    and s: "cb_content u = s" "no_nul s" "s \<noteq> []" "length s < 512"
  shows "\<exists>t'. Message_set_reason_cbuffer m u = Inr (m\<lparr>msg_reason := Some t'\<rparr>) \<and>
     msg_wf (m\<lparr>msg_reason := Some t'\<rparr>) \<and> cb_holds (Some t') s"
proof -
  have t: "cb_wf t" using m by (simp add: msg_wf_def)
  obtain t' where t': "Cbuffer_append_cstr t s = Inr t'" "cb_wf t'" "cb_content t' = s" "cb_terminated t'"
    using append_cstr_fresh [OF t m(3) s(2,3,4)] by blast
  have "Message_set_reason_cbuffer m u = Inr (m\<lparr>msg_reason := Some t'\<rparr>)"
    unfolding Message_set_reason_cbuffer_def cstr_of_holds [OF u]
    using m t t'(1) s by (simp add: msg_wf_check assert_empty_ok)
  moreover have "msg_wf (m\<lparr>msg_reason := Some t'\<rparr>)" using m(1) t'(2) by (simp add: msg_wf_def)
  ultimately show ?thesis using t' by (auto simp: cb_holds_def)
qed

lemma headers_complete_request_ok:
  assumes at: "hp_at p m u s n v" and t: "msg_target m = Some t" "cb_content t = []"
    and u: "u \<noteq> []" "no_nul u" "length u < 512"
  shows "\<exists>p' h t' v'. headers_complete_cb p maj mnr meth = Inr (0, p') \<and>
     hp_at p' (m\<lparr>msg_headers := h, msg_minor_vers := mnr, msg_method := Some meth, msg_target := Some t'\<rparr>) u s [] v' \<and>
     cb_holds (Some t') u \<and> List_items h = List_items (msg_headers m) @ pending n v \<and> same_ctx p p' \<and>
     hp_header_state p' = hp_header_state p"
proof -
  obtain p1 h v' where p1: "flush_header p = Inr p1" "hp_at p1 (m\<lparr>msg_headers := h\<rparr>) u s [] v'"
    "List_items h = List_items (msg_headers m) @ pending n v" "same_ctx p p1" "hp_header_state p1 = hp_header_state p"
    using flush_header_ok [OF at] by (auto simp: same_ctx_def)
  let ?m1 = "m\<lparr>msg_headers := h, msg_minor_vers := mnr, msg_method := Some meth\<rparr>"
  have wf1: "msg_wf (m\<lparr>msg_headers := h\<rparr>)" "hp_current_message_ptr p1 = Some (m\<lparr>msg_headers := h\<rparr>)"
    using p1(2) by (auto simp: hp_at_def)
  then have wfm: "msg_wf ?m1" "msg_wf (m\<lparr>msg_headers := h, msg_minor_vers := mnr\<rparr>)" by (auto simp: msg_wf_def)
  obtain ub where ub: "hp_url_buf p1 = Some ub" "cb_wf ub" "cb_terminated ub" "cb_content ub = u"
    using p1(2) by (auto simp: hp_at_def elim: cb_holdsE)
  obtain t' where t': "Message_set_target_cbuffer ?m1 ub = Inr (?m1\<lparr>msg_target := Some t'\<rparr>)"
    "msg_wf (?m1\<lparr>msg_target := Some t'\<rparr>)" "cb_holds (Some t') u"
    using Message_set_target_cbuffer_ok [OF wfm(1) _ t(2) ub(2,3,4) u(2,1,3)] t(1) by auto
  have "headers_complete_cb p maj mnr meth = Inr (0, p1\<lparr>hp_current_message_ptr := Some (?m1\<lparr>msg_target := Some t'\<rparr>)\<rparr>)"
    using hp_check [OF at] p1(1) wf1 wfm(2) ub t'(1) u(1)
    by (simp add: headers_complete_cb_def Message_set_version_def Message_set_method_def msg_wf_check Cbuffer_size_ok)
  then show ?thesis
    using p1 t'(2,3)
    by (intro exI [of _ "p1\<lparr>hp_current_message_ptr := Some (?m1\<lparr>msg_target := Some t'\<rparr>)\<rparr>"] exI [of _ h]
        exI [of _ t'] exI [of _ v']) (simp add: hp_at_def same_ctx_def)
qed

lemma headers_complete_response_ok:
  assumes at: "hp_at p m [] s n v"
  shows "\<exists>p' h v'. headers_complete_cb p maj mnr meth = Inr (0, p') \<and>
     hp_at p' (m\<lparr>msg_headers := h, msg_minor_vers := mnr\<rparr>) [] s [] v' \<and>
     List_items h = List_items (msg_headers m) @ pending n v \<and> same_ctx p p' \<and>
     hp_header_state p' = hp_header_state p"
proof -
  obtain p1 h v' where p1: "flush_header p = Inr p1" "hp_at p1 (m\<lparr>msg_headers := h\<rparr>) [] s [] v'"
    "List_items h = List_items (msg_headers m) @ pending n v" "same_ctx p p1" "hp_header_state p1 = hp_header_state p"
    using flush_header_ok [OF at] by (auto simp: same_ctx_def)
  let ?m1 = "m\<lparr>msg_headers := h, msg_minor_vers := mnr\<rparr>"
  have wf1: "msg_wf (m\<lparr>msg_headers := h\<rparr>)" "hp_current_message_ptr p1 = Some (m\<lparr>msg_headers := h\<rparr>)"
    using p1(2) by (auto simp: hp_at_def)
  then have wfm: "msg_wf ?m1" by (auto simp: msg_wf_def)
  obtain ub where ub: "hp_url_buf p1 = Some ub" "cb_wf ub" "cb_content ub = []"
    using p1(2) by (auto simp: hp_at_def elim: cb_holdsE)
  have "headers_complete_cb p maj mnr meth = Inr (0, p1\<lparr>hp_current_message_ptr := Some ?m1\<rparr>)"
    using hp_check [OF at] p1(1) wf1 ub
    by (simp add: headers_complete_cb_def Message_set_version_def msg_wf_check Cbuffer_size_ok)
  then show ?thesis
    using p1 wfm
    by (intro exI [of _ "p1\<lparr>hp_current_message_ptr := Some ?m1\<rparr>"] exI [of _ h] exI [of _ v'])
       (simp add: hp_at_def same_ctx_def)
qed

lemma status_data_ok:
  assumes at: "hp_at p m u [] n v" and r: "msg_reason m = Some r" "cb_content r = []"
    and a: "a \<noteq> []" "no_nul a" "frag_ok [] a"
  shows "\<exists>p' r'. status_data_cb p code a = Inr (0, p') \<and>
     hp_at p' (m\<lparr>msg_is_request := Some False, msg_status_code := Some code, msg_reason := Some r'\<rparr>) u a n v \<and>
     cb_holds (Some r') a \<and> same_ctx p p' \<and> hp_header_state p' = hp_header_state p"
proof -
  let ?m1 = "m\<lparr>msg_is_request := Some False, msg_status_code := Some code\<rparr>"
  have wf: "msg_wf m" "hp_current_message_ptr p = Some m" using at by (auto simp: hp_at_def)
  then have wfm: "msg_wf ?m1" "msg_wf (m\<lparr>msg_is_request := Some False\<rparr>)" by (auto simp: msg_wf_def)
  obtain cb where cb: "hp_status_buf p = Some cb" "cb_holds (Some cb) []"
    using at cb_holds_Some unfolding hp_at_def by blast
  obtain c1 where c1: "Cbuffer_append cb a = Inr c1" "cb_holds (Some c1) a"
    using cb_holds_append [OF cb(2) a(3)] by auto
  then have c1h: "cb_wf c1" "cb_terminated c1" "cb_content c1 = a" by (auto simp: cb_holds_def)
  have len: "length a < 512" using a(3) by (simp add: frag_ok_def)
  obtain r' where r': "Message_set_reason_cbuffer ?m1 c1 = Inr (?m1\<lparr>msg_reason := Some r'\<rparr>)"
    "msg_wf (?m1\<lparr>msg_reason := Some r'\<rparr>)" "cb_holds (Some r') a"
    using Message_set_reason_cbuffer_ok [OF wfm(1) _ r(2) c1h a(2,1) len] r(1) by auto
  have "status_data_cb p code a = Inr (0, p\<lparr>hp_current_message_ptr := Some (?m1\<lparr>msg_reason := Some r'\<rparr>),
          hp_status_buf := Some c1\<rparr>)"
    using hp_check [OF at] wf wfm(2) cb(1) c1(1) r'(1)
    by (simp add: status_data_cb_def Message_set_is_request_def Message_set_status_def msg_wf_check)
  then show ?thesis
    using at c1(2) r'(2,3)
    by (intro exI [of _ "p\<lparr>hp_current_message_ptr := Some (?m1\<lparr>msg_reason := Some r'\<rparr>),
          hp_status_buf := Some c1\<rparr>"] exI [of _ r']) (simp add: hp_at_def same_ctx_def)
qed

text \<open>A second fragment of the reason phrase meets the assertion of \<open>Message_set_reason_cbuffer\<close>.\<close>

lemma status_data_second:
  assumes at: "hp_at p m u s n v" and r: "cb_holds (msg_reason m) s" and s: "s \<noteq> []" and f: "frag_ok s a"
  shows "status_data_cb p code a = Inl Assertion"
proof -
  have wf: "msg_wf m" "hp_current_message_ptr p = Some m" using at by (auto simp: hp_at_def)
  then have wfm: "msg_wf (m\<lparr>msg_is_request := Some False\<rparr>)"
    "msg_wf (m\<lparr>msg_is_request := Some False, msg_status_code := Some code\<rparr>)" by (auto simp: msg_wf_def)
  obtain rb where rb: "msg_reason m = Some rb" "cb_wf rb" "cb_content rb \<noteq> []" using r s by (auto simp: cb_holds_def)
  obtain cb where cb: "hp_status_buf p = Some cb" "cb_holds (Some cb) s"
    using at cb_holds_Some unfolding hp_at_def by blast
  obtain c1 where "Cbuffer_append cb a = Inr c1" using cb_holds_append [OF cb(2) f] by blast
  then show ?thesis
    using hp_check [OF at] wf wfm cb(1) rb
    by (simp add: status_data_cb_def Message_set_is_request_def Message_set_status_def msg_wf_check
        Message_set_reason_cbuffer_def assert_empty_fail)
qed

lemma body_data_ok:
  assumes at: "hp_at p m u s n v" and a: "a \<noteq> []"
  shows "\<exists>p' b. body_data_cb p a = Inr (0, p') \<and> hp_at p' (m\<lparr>msg_body := Some b\<rparr>) u s n v \<and>
     bc_content b = msg_body_bytes m @ a \<and> same_ctx p p' \<and> hp_header_state p' = hp_header_state p"
proof -
  have wf: "msg_wf m" "hp_current_message_ptr p = Some m" using at by (auto simp: hp_at_def)
  define c where "c = (case msg_body m of None \<Rightarrow> BufferChain_new | Some c \<Rightarrow> c)"
  have c: "bc_wf c" "bc_full c" "bc_content c = msg_body_bytes m"
    using wf(1) BufferChain_new_wf by (auto simp: c_def msg_wf_def msg_body_bytes_def split: option.split)
  have get: "(case msg_body m of None \<Rightarrow> Inr BufferChain_new | Some c \<Rightarrow> Inr c) = (Inr c :: BufferChain res)"
    by (simp add: c_def split: option.split)
  obtain b where b: "BufferChain_append c a = Inr b" "bc_wf b" "bc_full b" "bc_content b = msg_body_bytes m @ a"
    using BufferChain_append_ok [OF c(1) a] c by auto
  have "body_data_cb p a = Inr (0, p\<lparr>hp_current_message_ptr := Some (m\<lparr>msg_body := Some b\<rparr>)\<rparr>)"
    using hp_check [OF at] wf b(1)
    by (simp add: body_data_cb_def Message_get_body_def Message_set_body_def msg_wf_check get)
  moreover have "msg_wf (m\<lparr>msg_body := Some b\<rparr>)" using wf(1) b by (simp add: msg_wf_def)
  ultimately show ?thesis
    using at b(4)
    by (intro exI [of _ "p\<lparr>hp_current_message_ptr := Some (m\<lparr>msg_body := Some b\<rparr>)\<rparr>"] exI [of _ b])
       (simp add: hp_at_def same_ctx_def)
qed

lemma run_bodies:
  assumes "hp_at p m u s n v" and "[] \<notin> set bs"
  shows "\<exists>p' b. ll_run hdl (map On_body bs) p = Inr (0, p') \<and> hp_at p' (m\<lparr>msg_body := b\<rparr>) u s n v \<and>
     msg_body_bytes (m\<lparr>msg_body := b\<rparr>) = msg_body_bytes m @ concat bs \<and> same_ctx p p' \<and>
     hp_header_state p' = hp_header_state p"
  using assms
proof (induction bs arbitrary: p m)
  case Nil
  then have "hp_at p (m\<lparr>msg_body := msg_body m\<rparr>) u s n v" by simp
  then show ?case
    by (intro exI [of _ p] exI [of _ "msg_body m"]) (simp add: same_ctx_def msg_body_bytes_def)
next
  case (Cons a bs)
  obtain p1 b1 where p1: "body_data_cb p a = Inr (0, p1)" "hp_at p1 (m\<lparr>msg_body := Some b1\<rparr>) u s n v"
    "bc_content b1 = msg_body_bytes m @ a" "same_ctx p p1" "hp_header_state p1 = hp_header_state p"
    using body_data_ok [OF Cons.prems(1), of a] Cons.prems(2) by auto
  from Cons.IH [OF p1(2)] Cons.prems(2) p1 show ?case by (fastforce simp: same_ctx_def msg_body_bytes_def)
qed

lemma message_complete_ok:
  assumes at: "hp_at p m u s n v" and acc: "hs_accepts (hp_header_state p) []"
  shows "\<exists>p'. hp_ready p' \<and> message_complete_cb hdl p =
     rbind (hdl (hp_handler_context p) m) (\<lambda>(rc, ctx). Inr (rc, p'\<lparr>hp_handler_context := ctx\<rparr>))"
proof -
  obtain m' where m': "Message_new = Inr m'" "msg_fresh m'" using Message_new_fresh by blast
  let ?p' = "p\<lparr>hp_current_message_ptr := Some m'\<rparr>"
  have "hp_ready ?p'"
    using at m'(2) acc by (auto simp: hp_at_def hp_ready_def msg_fresh_def cb_holds_def)
  moreover have "message_complete_cb hdl p =
      rbind (hdl (hp_handler_context p) m) (\<lambda>(rc, ctx). Inr (rc, ?p'\<lparr>hp_handler_context := ctx\<rparr>))"
    unfolding message_complete_cb_def m'(1) using hp_check [OF at] at by (simp add: hp_at_def)
  ultimately show ?thesis by blast
qed


section \<open>Whole messages\<close>

text \<open>The callbacks that do something; the others return zero and change nothing.\<close>

fun significant :: "ll_event \<Rightarrow> bool" where
  "significant On_message_begin = True"
| "significant (On_url _) = True"
| "significant (On_status _ _) = True"
| "significant (On_header_field _) = True"
| "significant (On_header_value _) = True"
| "significant (On_headers_complete _ _ _) = True"
| "significant (On_body _) = True"
| "significant On_message_complete = True"
| "significant _ = False"

lemma ll_run_significant: "ll_run hdl (filter significant es) p = ll_run hdl es p"
proof (induction es arbitrary: p)
  case (Cons e es)
  then show ?case
    by (cases e) (auto simp: return_0_cb_def method_data_cb_def version_data_cb_def chunk_extension_name_cb_def
        chunk_extension_value_cb_def intro!: rbind_cong)
qed simp

text \<open>A request, cut into fragments in any way.\<close>

record frag_request =
  fr_url :: "string list"
  fr_headers :: "frag_header list"
  fr_major :: int
  fr_minor :: int
  fr_method :: int
  fr_body :: "string list"

definition request_events :: "frag_request \<Rightarrow> ll_event list" where
  "request_events r =
     On_message_begin # map On_url (fr_url r) @ concat (map header_events (fr_headers r)) @
     On_headers_complete (fr_major r) (fr_minor r) (fr_method r) # map On_body (fr_body r) @ [On_message_complete]"

definition frag_request_ok :: "frag_request \<Rightarrow> bool" where
  "frag_request_ok r \<longleftrightarrow>
     concat (fr_url r) \<noteq> [] \<and> no_nul (concat (fr_url r)) \<and> length (concat (fr_url r)) < 512 \<and>
     frags_ok [] (fr_url r) \<and> (\<forall>fv \<in> set (fr_headers r). frag_header_ok fv) \<and> [] \<notin> set (fr_body r)"

text \<open>What the handler is to receive; it does not depend on where the fragments were cut.\<close>

definition is_request_of :: "frag_request \<Rightarrow> Message \<Rightarrow> bool" where
  "is_request_of r m \<longleftrightarrow> msg_wf m \<and> msg_is_request m = Some True \<and> msg_method m = Some (fr_method r) \<and>
     cb_holds (msg_target m) (concat (fr_url r)) \<and> msg_major_vers m = 1 \<and> msg_minor_vers m = fr_minor r \<and>
     List_items (msg_headers m) = map header_pair (fr_headers r) \<and> msg_body_bytes m = concat (fr_body r)"

lemma run_request:
  assumes rdy: "hp_ready p" and ok: "frag_request_ok r"
  shows "\<exists>m p'. is_request_of r m \<and> hp_ready p' \<and> ll_run hdl (request_events r) p =
     rbind (hdl (hp_handler_context p) m) (\<lambda>(rc, ctx). Inr (rc, p'\<lparr>hp_handler_context := ctx\<rparr>))"
proof -
  obtain p1 m0 where p1: "message_begin_cb p = Inr (0, p1)" "hp_at p1 m0 [] [] [] []" "msg_fresh m0" "same_ctx p p1"
    "hp_header_state p1 = hp_header_state p" using message_begin_ok [OF rdy] by (auto simp: same_ctx_def)
  obtain t where t: "msg_target m0 = Some t" "cb_content t = []" using p1(3) by (auto simp: msg_fresh_def)
  let ?m1 = "m0\<lparr>msg_is_request := Some True\<rparr>" and ?u = "concat (fr_url r)"
  have ne: "fr_url r \<noteq> []" using ok by (auto simp: frag_request_ok_def)
  obtain p2 where p2: "ll_run hdl (map On_url (fr_url r)) p1 = Inr (0, p2)" "hp_at p2 ?m1 ?u [] [] []" "same_ctx p1 p2"
    "hp_header_state p2 = hp_header_state p1"
    using run_urls [OF p1(2) _ ne, of hdl] ok by (auto simp: frag_request_ok_def)
  have acc2: "hs_accepts (hp_header_state p2) []" using rdy p1(5) p2(4) by (simp add: hp_ready_def)
  obtain p3 h3 n3 v3 where p3: "ll_run hdl (concat (map header_events (fr_headers r))) p2 = Inr (0, p3)"
    "hp_at p3 (?m1\<lparr>msg_headers := h3\<rparr>) ?u [] n3 v3" "same_ctx p2 p3" "hs_accepts (hp_header_state p3) n3"
    "List_items h3 @ pending n3 v3 = List_items (msg_headers ?m1) @ pending [] [] @ map header_pair (fr_headers r)"
    using run_headers [OF p2(2) acc2, of "fr_headers r" hdl] ok by (auto simp: frag_request_ok_def)
  have h3: "List_items h3 @ pending n3 v3 = map header_pair (fr_headers r)"
    using p3(5) p1(3) by (simp add: msg_fresh_def pending_def [of "[]"])
  from headers_complete_request_ok [OF p3(2), of t "fr_major r" "fr_minor r" "fr_method r"] t ok
  obtain p4 h4 t4 v4 where p4: "headers_complete_cb p3 (fr_major r) (fr_minor r) (fr_method r) = Inr (0, p4)"
    "hp_at p4 (?m1\<lparr>msg_headers := h4, msg_minor_vers := fr_minor r, msg_method := Some (fr_method r),
       msg_target := Some t4\<rparr>) ?u [] [] v4" "cb_holds (Some t4) ?u"
    "List_items h4 = map header_pair (fr_headers r)" "same_ctx p3 p4" "hp_header_state p4 = hp_header_state p3"
    using h3 by (auto simp: frag_request_ok_def)
  let ?m4 = "?m1\<lparr>msg_headers := h4, msg_minor_vers := fr_minor r, msg_method := Some (fr_method r), msg_target := Some t4\<rparr>"
  obtain p5 b5 where p5: "ll_run hdl (map On_body (fr_body r)) p4 = Inr (0, p5)" "hp_at p5 (?m4\<lparr>msg_body := b5\<rparr>) ?u [] [] v4"
    "msg_body_bytes (?m4\<lparr>msg_body := b5\<rparr>) = concat (fr_body r)" "same_ctx p4 p5" "hp_header_state p5 = hp_header_state p4"
    using run_bodies [OF p4(2), of "fr_body r" hdl] ok p1(3)
    by (auto simp: frag_request_ok_def msg_fresh_def msg_body_bytes_def)
  have acc5: "hs_accepts (hp_header_state p5) []" using p3(4) p4(6) p5(5) by (auto simp: hs_accepts_def)
  obtain p6 where p6: "hp_ready p6" "message_complete_cb hdl p5 =
      rbind (hdl (hp_handler_context p5) (?m4\<lparr>msg_body := b5\<rparr>)) (\<lambda>(rc, ctx). Inr (rc, p6\<lparr>hp_handler_context := ctx\<rparr>))"
    using message_complete_ok [OF p5(2) acc5, of hdl] by blast
  have ctx: "hp_handler_context p5 = hp_handler_context p"
    using p1(4) p2(3) p3(3) p4(5) p5(4) by (simp add: same_ctx_def)
  have "ll_run hdl (request_events r) p = message_complete_cb hdl p5"
    using p1(1) p2(1) p3(1) p4(1) p5(1)
    by (simp add: request_events_def ll_run_append ll_run_append_ok rbind_assoc)
       (cases "message_complete_cb hdl p5"; auto)
  moreover have "is_request_of r (?m4\<lparr>msg_body := b5\<rparr>)"
    using p5(2,3) p4(3,4) p1(3) by (simp add: is_request_of_def hp_at_def msg_fresh_def)
  ultimately show ?thesis using p6 ctx by auto
qed

text \<open>
  A url that does not fit: the append to the url buffer leaves the slab, or the url is collected
  and the copy into the message's target does.
\<close>

lemma url_data_long:
  assumes at: "hp_at p m u s n v" and f: "length u + length a < 1024 * 1024"
  shows "url_data_cb p a = Inl MemFault \<or>
     (\<exists>p'. url_data_cb p a = Inr (0, p') \<and> hp_at p' (m\<lparr>msg_is_request := Some True\<rparr>) (u @ a) s n v \<and>
        hp_header_state p' = hp_header_state p)"
proof -
  have wf: "msg_wf m" "hp_current_message_ptr p = Some m" "msg_wf (m\<lparr>msg_is_request := Some True\<rparr>)"
    using at by (auto simp: hp_at_def msg_wf_def)
  obtain cb where cb: "hp_url_buf p = Some cb" "cb_wf cb" "cb_terminated cb" "cb_content cb = u"
    using at by (auto simp: hp_at_def elim: cb_holdsE)
  show ?thesis
  proof (cases "cb_fits cb (length a)")
    case True
    obtain cb' where cb': "Cbuffer_append cb a = Inr cb'" "cb_holds (Some cb') (u @ a)"
      using Cbuffer_append_ok [OF cb(2) True] Cbuffer_append_Nil [OF cb(2)] cb
      by (cases "a = []") (auto simp: cb_holds_def)
    with at cb(1) wf have "url_data_cb p a =
        Inr (0, p\<lparr>hp_url_buf := Some cb', hp_current_message_ptr := Some (m\<lparr>msg_is_request := Some True\<rparr>)\<rparr>)"
      by (simp add: url_data_cb_def hp_check Message_set_is_request_def msg_wf_check)
    then show ?thesis using at cb'(2) wf(3) by (simp add: hp_at_def)
  next
    case False
    then have "Cbuffer_append cb a = Inl MemFault"
      using Cbuffer_append_overrun [OF cb(2)] f cb_content_length [OF cb(2)] cb(4) by simp
    with at cb(1) wf show ?thesis
      by (simp add: url_data_cb_def hp_check Message_set_is_request_def msg_wf_check)
  qed
qed

lemma run_urls_long:
  assumes "hp_at p m u s n v" and "length u + length (concat us) < 1024 * 1024"
  shows "ll_run hdl (map On_url us) p = Inl MemFault \<or>
     (\<exists>p' m'. ll_run hdl (map On_url us) p = Inr (0, p') \<and> hp_at p' m' (u @ concat us) s n v \<and>
        msg_target m' = msg_target m \<and> hp_header_state p' = hp_header_state p)"
  using assms
proof (induction us arbitrary: p u m)
  case (Cons a us)
  consider "url_data_cb p a = Inl MemFault"
    | p1 where "url_data_cb p a = Inr (0, p1)" "hp_at p1 (m\<lparr>msg_is_request := Some True\<rparr>) (u @ a) s n v"
        "hp_header_state p1 = hp_header_state p"
    using url_data_long [OF Cons.prems(1), of a] Cons.prems(2) by auto
  then show ?case
  proof cases
    case 2
    from Cons.IH [OF 2(2)] Cons.prems(2) 2 show ?thesis by auto
  qed simp
qed auto

lemma headers_complete_long:
  assumes at: "hp_at p m u s n v" and t: "msg_target m = Some t" "cb_content t = []" "cb_capacity t = 256"
    and u: "no_nul u" "512 \<le> length u"
  shows "headers_complete_cb p maj mnr meth = Inl MemFault"
proof -
  obtain p1 h v' where p1: "flush_header p = Inr p1" "hp_at p1 (m\<lparr>msg_headers := h\<rparr>) u s [] v'"
    using flush_header_ok [OF at] by blast
  let ?m = "m\<lparr>msg_headers := h, msg_minor_vers := mnr, msg_method := Some meth\<rparr>"
  have cur: "hp_current_message_ptr p1 = Some (m\<lparr>msg_headers := h\<rparr>)" "msg_wf (m\<lparr>msg_headers := h\<rparr>)"
    using p1(2) by (auto simp: hp_at_def)
  then have wf: "msg_wf ?m" "msg_wf (m\<lparr>msg_headers := h, msg_minor_vers := mnr\<rparr>)" by (auto simp: msg_wf_def)
  obtain ub where ub: "hp_url_buf p1 = Some ub" "cb_wf ub" "cb_terminated ub" "cb_content ub = u"
    using p1(2) by (auto simp: hp_at_def elim: cb_holdsE)
  have "Message_set_target_cbuffer ?m ub = Inl MemFault"
    using Message_set_target_cbuffer_long [OF wf(1) _ t(2,3) ub(2,3)] t(1) ub(4) u by simp
  then show ?thesis
    using hp_check [OF at] p1(1) ub cur wf(2) u(2)
    by (auto simp: headers_complete_cb_def Cbuffer_size_ok Message_set_version_def Message_set_method_def msg_wf_check)
qed

lemma run_long_request:
  assumes rdy: "hp_ready p"
    and url: "512 \<le> length (concat (fr_url r))" "length (concat (fr_url r)) < 1024 * 1024" "no_nul (concat (fr_url r))"
    and hdr: "\<forall>fv \<in> set (fr_headers r). frag_header_ok fv"
  shows "ll_run hdl (request_events r) p = Inl MemFault"
proof -
  let ?u = "concat (fr_url r)"
  obtain p1 m0 where p1: "message_begin_cb p = Inr (0, p1)" "hp_at p1 m0 [] [] [] []" "msg_fresh m0"
    "hp_header_state p1 = hp_header_state p" using message_begin_ok [OF rdy] by blast
  obtain t where t: "msg_target m0 = Some t" "cb_content t = []" "cb_capacity t = 256"
    using p1(3) by (auto simp: msg_fresh_def)
  consider "ll_run hdl (map On_url (fr_url r)) p1 = Inl MemFault"
    | p2 m2 where "ll_run hdl (map On_url (fr_url r)) p1 = Inr (0, p2)" "hp_at p2 m2 ?u [] [] []"
        "msg_target m2 = Some t" "hp_header_state p2 = hp_header_state p"
    using run_urls_long [OF p1(2), of "fr_url r" hdl] url(2) t(1) p1(4) by auto
  then show ?thesis
  proof cases
    case 1
    then show ?thesis using p1(1) by (simp add: request_events_def ll_run_append)
  next
    case 2
    have acc: "hs_accepts (hp_header_state p2) []" using rdy 2(4) by (simp add: hp_ready_def)
    obtain p3 h n3 v3 where p3: "ll_run hdl (concat (map header_events (fr_headers r))) p2 = Inr (0, p3)"
      "hp_at p3 (m2\<lparr>msg_headers := h\<rparr>) ?u [] n3 v3"
      using run_headers [OF 2(2) acc hdr] by blast
    have "headers_complete_cb p3 (fr_major r) (fr_minor r) (fr_method r) = Inl MemFault"
      using headers_complete_long [OF p3(2) _ t(2,3) url(3,1)] 2(3) by simp
    then show ?thesis using p1(1) 2(1) p3(1) by (simp add: request_events_def ll_run_append)
  qed
qed

text \<open>Several requests on one connection, each handed over once and in order.\<close>

definition collect :: "Message list message_handler" where
  "collect ms m = Inr (0, ms @ [m])"

lemma hp_ready_ctx: "hp_ready p \<Longrightarrow> hp_ready (p\<lparr>hp_handler_context := c\<rparr>)"
  by (simp add: hp_ready_def)

lemma run_requests:
  assumes "hp_ready p" and "\<forall>r \<in> set rs. frag_request_ok r"
  shows "\<exists>p' ms. ll_run collect (concat (map request_events rs)) p = Inr (0, p') \<and> hp_ready p' \<and>
     hp_handler_context p' = hp_handler_context p @ ms \<and> list_all2 is_request_of rs ms"
  using assms
proof (induction rs arbitrary: p)
  case (Cons r rs)
  obtain m p1 where p1: "is_request_of r m" "hp_ready p1" "ll_run collect (request_events r) p =
     rbind (collect (hp_handler_context p) m) (\<lambda>(rc, ctx). Inr (rc, p1\<lparr>hp_handler_context := ctx\<rparr>))"
    using run_request [OF Cons.prems(1), of r collect] Cons.prems(2) by auto
  let ?p2 = "p1\<lparr>hp_handler_context := hp_handler_context p @ [m]\<rparr>"
  have run: "ll_run collect (request_events r) p = Inr (0, ?p2)" using p1(3) by (simp add: collect_def)
  from Cons.IH [OF hp_ready_ctx [OF p1(2)]] Cons.prems(2) obtain p' ms where
    "ll_run collect (concat (map request_events rs)) ?p2 = Inr (0, p')" "hp_ready p'"
    "hp_handler_context p' = hp_handler_context ?p2 @ ms" "list_all2 is_request_of rs ms" by fastforce
  then show ?case using run p1(1) by (auto simp: ll_run_append intro!: exI [of _ "m # ms"])
qed simp

text \<open>A response whose reason phrase arrives in one fragment.\<close>

record frag_response =
  fs_status :: int
  fs_reason :: string
  fs_headers :: "frag_header list"
  fs_major :: int
  fs_minor :: int
  fs_method :: int
  fs_body :: "string list"

definition response_events :: "frag_response \<Rightarrow> ll_event list" where
  "response_events r =
     On_message_begin # On_status (fs_status r) (fs_reason r) # concat (map header_events (fs_headers r)) @
     On_headers_complete (fs_major r) (fs_minor r) (fs_method r) # map On_body (fs_body r) @ [On_message_complete]"

definition frag_response_ok :: "frag_response \<Rightarrow> bool" where
  "frag_response_ok r \<longleftrightarrow> fs_reason r \<noteq> [] \<and> no_nul (fs_reason r) \<and> frag_ok [] (fs_reason r) \<and>
     (\<forall>fv \<in> set (fs_headers r). frag_header_ok fv) \<and> [] \<notin> set (fs_body r)"

definition is_response_of :: "frag_response \<Rightarrow> Message \<Rightarrow> bool" where
  "is_response_of r m \<longleftrightarrow> msg_wf m \<and> msg_is_request m = Some False \<and> msg_status_code m = Some (fs_status r) \<and>
     cb_holds (msg_reason m) (fs_reason r) \<and> msg_major_vers m = 1 \<and> msg_minor_vers m = fs_minor r \<and>
     List_items (msg_headers m) = map header_pair (fs_headers r) \<and> msg_body_bytes m = concat (fs_body r)"

lemma run_response:
  assumes rdy: "hp_ready p" and ok: "frag_response_ok r"
  shows "\<exists>m p'. is_response_of r m \<and> msg_target m \<noteq> None \<and> msg_reason m \<noteq> None \<and> hp_ready p' \<and>
     ll_run hdl (response_events r) p =
     rbind (hdl (hp_handler_context p) m) (\<lambda>(rc, ctx). Inr (rc, p'\<lparr>hp_handler_context := ctx\<rparr>))"
proof -
  obtain p1 m0 where p1: "message_begin_cb p = Inr (0, p1)" "hp_at p1 m0 [] [] [] []" "msg_fresh m0" "same_ctx p p1"
    "hp_header_state p1 = hp_header_state p" using message_begin_ok [OF rdy] by (auto simp: same_ctx_def)
  obtain rb where rb: "msg_reason m0 = Some rb" "cb_content rb = []" using p1(3) by (auto simp: msg_fresh_def)
  let ?s = "fs_reason r"
  obtain p2 rb2 where p2: "status_data_cb p1 (fs_status r) ?s = Inr (0, p2)"
    "hp_at p2 (m0\<lparr>msg_is_request := Some False, msg_status_code := Some (fs_status r), msg_reason := Some rb2\<rparr>) [] ?s [] []"
    "cb_holds (Some rb2) ?s" "same_ctx p1 p2" "hp_header_state p2 = hp_header_state p1"
    using status_data_ok [OF p1(2) rb, of ?s "fs_status r"] ok by (auto simp: frag_response_ok_def)
  let ?m1 = "m0\<lparr>msg_is_request := Some False, msg_status_code := Some (fs_status r), msg_reason := Some rb2\<rparr>"
  have acc2: "hs_accepts (hp_header_state p2) []" using rdy p1(5) p2(5) by (simp add: hp_ready_def)
  obtain p3 h3 n3 v3 where p3: "ll_run hdl (concat (map header_events (fs_headers r))) p2 = Inr (0, p3)"
    "hp_at p3 (?m1\<lparr>msg_headers := h3\<rparr>) [] ?s n3 v3" "same_ctx p2 p3" "hs_accepts (hp_header_state p3) n3"
    "List_items h3 @ pending n3 v3 = List_items (msg_headers ?m1) @ pending [] [] @ map header_pair (fs_headers r)"
    using run_headers [OF p2(2) acc2, of "fs_headers r" hdl] ok by (auto simp: frag_response_ok_def)
  have h3: "List_items h3 @ pending n3 v3 = map header_pair (fs_headers r)"
    using p3(5) p1(3) by (simp add: msg_fresh_def pending_def [of "[]"])
  obtain p4 h4 v4 where p4: "headers_complete_cb p3 (fs_major r) (fs_minor r) (fs_method r) = Inr (0, p4)"
    "hp_at p4 (?m1\<lparr>msg_headers := h4, msg_minor_vers := fs_minor r\<rparr>) [] ?s [] v4"
    "List_items h4 = map header_pair (fs_headers r)" "same_ctx p3 p4" "hp_header_state p4 = hp_header_state p3"
    using headers_complete_response_ok [OF p3(2), of "fs_major r" "fs_minor r" "fs_method r"] h3 by auto
  let ?m4 = "?m1\<lparr>msg_headers := h4, msg_minor_vers := fs_minor r\<rparr>"
  obtain p5 b5 where p5: "ll_run hdl (map On_body (fs_body r)) p4 = Inr (0, p5)" "hp_at p5 (?m4\<lparr>msg_body := b5\<rparr>) [] ?s [] v4"
    "msg_body_bytes (?m4\<lparr>msg_body := b5\<rparr>) = concat (fs_body r)" "same_ctx p4 p5" "hp_header_state p5 = hp_header_state p4"
    using run_bodies [OF p4(2), of "fs_body r" hdl] ok p1(3)
    by (auto simp: frag_response_ok_def msg_fresh_def msg_body_bytes_def)
  have acc5: "hs_accepts (hp_header_state p5) []" using p3(4) p4(5) p5(5) by (auto simp: hs_accepts_def)
  obtain p6 where p6: "hp_ready p6" "message_complete_cb hdl p5 =
      rbind (hdl (hp_handler_context p5) (?m4\<lparr>msg_body := b5\<rparr>)) (\<lambda>(rc, ctx). Inr (rc, p6\<lparr>hp_handler_context := ctx\<rparr>))"
    using message_complete_ok [OF p5(2) acc5, of hdl] by blast
  have ctx: "hp_handler_context p5 = hp_handler_context p"
    using p1(4) p2(4) p3(3) p4(4) p5(4) by (simp add: same_ctx_def)
  have "ll_run hdl (response_events r) p = message_complete_cb hdl p5"
    using p1(1) p2(1) p3(1) p4(1) p5(1)
    by (simp add: response_events_def ll_run_append ll_run_append_ok rbind_assoc)
       (cases "message_complete_cb hdl p5"; auto)
  moreover have "is_response_of r (?m4\<lparr>msg_body := b5\<rparr>)"
    using p5(2,3) p4(3) p2(3) p1(3) by (simp add: is_response_of_def hp_at_def msg_fresh_def)
  moreover have "msg_target (?m4\<lparr>msg_body := b5\<rparr>) \<noteq> None" "msg_reason (?m4\<lparr>msg_body := b5\<rparr>) \<noteq> None"
    using p1(3) by (auto simp: msg_fresh_def)
  ultimately show ?thesis using p6 ctx by (intro exI [of _ "?m4\<lparr>msg_body := b5\<rparr>"] exI [of _ p6]) simp
qed

section \<open>Properties\<close>

text \<open>
  C7: However \<open>llhttp\<close> cuts the url, the header names and values and the body of a request into
  fragments, as long as a fragment of url, name or value is at most 256 bytes and the url is
  non-empty, shorter than 512 bytes and without \<open>NUL\<close> (the limits of \<open>frag_request_ok\<close>, beyond
  which the source leaves a slab), and whatever other notifications it makes in between, the
  message handler is called once, with a message that has the whole url as its target, the header
  lines in order and the whole body, and the parser is ready for the next message.
\<close>

theorem parser_delivers_request:
  assumes "hp_ready p" and "frag_request_ok r" and "filter significant es = request_events r"
  shows "\<exists>m p'. is_request_of r m \<and> hp_ready p' \<and>
     ll_run on_message es p =
       rbind (on_message (hp_handler_context p) m) (\<lambda>(rc, ctx). Inr (rc, p'\<lparr>hp_handler_context := ctx\<rparr>))"
  using run_request [OF assms(1,2), of on_message] assms(3) ll_run_significant [of on_message es p] by simp

definition demo_request :: frag_request where
  "demo_request = \<lparr>fr_url = [''/in'', ''dex''], fr_headers = [([''Ho'', ''st''], [''a'', ''.b''])], fr_major = 1,
     fr_minor = 0, fr_method = 1, fr_body = [''xy'', ''z'']\<rparr>"

lemma demo_request_ok: "frag_request_ok demo_request"
  by (simp add: frag_request_ok_def demo_request_def frags_ok_def frag_header_ok_def)

theorem parser_delivers_request_witness:
  "\<exists>p m p'. http_parser_new () ([] :: Message list) = Inr p \<and>
     ll_run collect (On_method ''GET'' # request_events demo_request) p = Inr (0, p') \<and>
     hp_handler_context p' = [m] \<and> cb_holds (msg_target m) ''/index'' \<and>
     List_items (msg_headers m) = [KVPair_new ''Host'' ''a.b''] \<and> msg_body_bytes m = ''xyz''"
proof -
  obtain p :: "(unit, Message list) http_parser" where p: "http_parser_new () [] = Inr p" "hp_ready p" "hp_handler_context p = []"
    using http_parser_new_ready [of "()" "[] :: Message list"] by blast
  have "filter significant (On_method ''GET'' # request_events demo_request) = request_events demo_request"
    by (simp add: request_events_def demo_request_def header_events_def)
  from parser_delivers_request [OF p(2) demo_request_ok this, of collect] p show ?thesis
    by (auto simp: collect_def is_request_of_def demo_request_def header_pair_def)
qed

text \<open>
  C8: Requests that arrive one after another on a connection are handed to the message handler
  in order and once each; nothing of one request shows up in the next.
\<close>

theorem parser_delivers_in_order:
  assumes "hp_ready p" and "\<forall>r \<in> set rs. frag_request_ok r"
  shows "\<exists>p' ms. ll_run collect (concat (map request_events rs)) p = Inr (0, p') \<and> hp_ready p' \<and>
     hp_handler_context p' = hp_handler_context p @ ms \<and> list_all2 is_request_of rs ms"
  by (rule run_requests [OF assms])

theorem parser_delivers_in_order_witness:
  "\<exists>p p' ms. http_parser_new () ([] :: Message list) = Inr p \<and>
     ll_run collect (concat (map request_events [demo_request, demo_request\<lparr>fr_headers := []\<rparr>])) p = Inr (0, p') \<and>
     hp_handler_context p' = ms \<and> map (length \<circ> List_items \<circ> msg_headers) ms = [1, 0]"
proof -
  obtain p :: "(unit, Message list) http_parser" where p: "http_parser_new () [] = Inr p" "hp_ready p" "hp_handler_context p = []"
    using http_parser_new_ready [of "()" "[] :: Message list"] by blast
  have ok: "\<forall>r \<in> set [demo_request, demo_request\<lparr>fr_headers := []\<rparr>]. frag_request_ok r"
    by (simp add: frag_request_ok_def demo_request_def frags_ok_def frag_header_ok_def)
  obtain p' ms where r: "ll_run collect (concat (map request_events [demo_request, demo_request\<lparr>fr_headers := []\<rparr>])) p = Inr (0, p')"
    "hp_handler_context p' = hp_handler_context p @ ms"
    "list_all2 is_request_of [demo_request, demo_request\<lparr>fr_headers := []\<rparr>] ms"
    using parser_delivers_in_order [OF p(2) ok] by blast
  then have "map (length \<circ> List_items \<circ> msg_headers) ms = [1, 0]"
    by (auto simp: list_all2_Cons1 is_request_of_def demo_request_def)
  with r p show ?thesis by auto
qed

text \<open>
  C32: A response whose reason phrase arrives in one piece is delivered with its status, reason,
  header lines and body, however the rest is cut into fragments (the reason and the fragments of
  header names and values at most 256 bytes long, the reason non-empty and without \<open>NUL\<close>).
\<close>

theorem parser_delivers_response:
  assumes "hp_ready p" and "frag_response_ok r" and "filter significant es = response_events r"
  shows "\<exists>m p'. is_response_of r m \<and> hp_ready p' \<and>
     ll_run on_message es p =
       rbind (on_message (hp_handler_context p) m) (\<lambda>(rc, ctx). Inr (rc, p'\<lparr>hp_handler_context := ctx\<rparr>))"
  using run_response [OF assms(1,2), of on_message] assms(3) ll_run_significant [of on_message es p] by fastforce

definition demo_response :: frag_response where
  "demo_response = \<lparr>fs_status = 200, fs_reason = ''OK'', fs_headers = [], fs_major = 1, fs_minor = 1, fs_method = 0,
     fs_body = [''hel'', ''lo'']\<rparr>"

theorem parser_delivers_response_witness:
  "\<exists>p m p'. http_parser_new () ([] :: Message list) = Inr p \<and>
     ll_run collect (response_events demo_response) p = Inr (0, p') \<and> hp_handler_context p' = [m] \<and>
     msg_status_code m = Some 200 \<and> cb_holds (msg_reason m) ''OK'' \<and> msg_body_bytes m = ''hello''"
proof -
  obtain p :: "(unit, Message list) http_parser" where p: "http_parser_new () [] = Inr p" "hp_ready p" "hp_handler_context p = []"
    using http_parser_new_ready [of "()" "[] :: Message list"] by blast
  have ok: "frag_response_ok demo_response" by (simp add: frag_response_ok_def demo_response_def frag_ok_def)
  have "filter significant (response_events demo_response) = response_events demo_response"
    by (simp add: response_events_def demo_response_def)
  from parser_delivers_response [OF p(2) ok this, of collect] p show ?thesis
    by (auto simp: collect_def is_response_of_def demo_response_def)
qed

text \<open>A request whose url is too long for the slab of the target, its header lines within the limits.\<close>

definition long_request :: "frag_request \<Rightarrow> bool" where
  "long_request r \<longleftrightarrow>
     512 \<le> length (concat (fr_url r)) \<and> length (concat (fr_url r)) < 1024 * 1024 \<and>
     no_nul (concat (fr_url r)) \<and> (\<forall>fv \<in> set (fr_headers r). frag_header_ok fv)"

text \<open>
  C33: A request with a url of 512 bytes or more (below a megabyte, without \<open>NUL\<close>) stops the
  program with a write outside an allocated slab, in whatever pieces \<open>llhttp\<close> hands over the
  url, whatever header lines the request has (their fragments at most 256 bytes long) and whatever
  was received on the connection before: either \<open>url_data_cb\<close> already leaves the slab of the url
  buffer, or \<open>headers_complete_cb\<close> leaves the slab of the message's target. The message handler is
  not called.
\<close>

theorem parser_long_url_overrun:
  assumes "hp_ready p" and "long_request r" and "filter significant es = request_events r"
  shows "ll_run on_message es p = Inl MemFault"
  using run_long_request [OF assms(1), of r on_message] assms(2,3) ll_run_significant [of on_message es p]
  by (simp add: long_request_def)

definition long_demo_request :: "nat \<Rightarrow> frag_request" where
  "long_demo_request n = demo_request\<lparr>fr_url := [replicate n (CHR ''a''), replicate n (CHR ''b'')]\<rparr>"

theorem parser_long_url_overrun_witness:
  "\<exists>(p :: (unit, Message list) http_parser). http_parser_new () [] = Inr p \<and>
     ll_run collect (request_events (long_demo_request 256)) p = Inl MemFault \<and>
     ll_run collect (request_events (long_demo_request 5000)) p = Inl MemFault"
proof -
  obtain p :: "(unit, Message list) http_parser" where p: "http_parser_new () [] = Inr p" "hp_ready p"
    using http_parser_new_ready [of "()" "[] :: Message list"] by blast
  have sig: "filter significant (request_events (long_demo_request n)) = request_events (long_demo_request n)" for n
    by (simp add: request_events_def demo_request_def long_demo_request_def header_events_def)
  have "long_request (long_demo_request 256)" "long_request (long_demo_request 5000)"
    by (simp_all add: long_request_def long_demo_request_def demo_request_def frags_ok_def frag_header_ok_def)
  then show ?thesis using p parser_long_url_overrun [OF p(2) _ sig, of _ collect] by blast
qed

text \<open>
  C34: A reason phrase that \<open>llhttp\<close> delivers in two pieces, which happens when it crosses the end of
  a read buffer, stops the program at the assertion in \<open>Message_set_reason_cbuffer\<close>.
\<close>

theorem parser_split_reason_asserts:
  assumes "hp_ready p" and "a \<noteq> []" and "no_nul a" and "frag_ok [] a" and "frag_ok a b"
  shows "ll_run on_message [On_message_begin, On_status code a, On_status code b] p = Inl Assertion"
proof -
  obtain p1 m where p1: "message_begin_cb p = Inr (0, p1)" "hp_at p1 m [] [] [] []" "msg_fresh m"
    using message_begin_ok [OF assms(1)] by blast
  obtain r where r: "msg_reason m = Some r" "cb_content r = []" using p1(3) by (auto simp: msg_fresh_def)
  obtain p2 r' where p2: "status_data_cb p1 code a = Inr (0, p2)" "cb_holds (Some r') a"
    "hp_at p2 (m\<lparr>msg_is_request := Some False, msg_status_code := Some code, msg_reason := Some r'\<rparr>) [] a [] []"
    using status_data_ok [OF p1(2) r assms(2,3,4), of code] by blast
  have "status_data_cb p2 code b = Inl Assertion"
    using status_data_second [OF p2(3) _ assms(2,5)] p2(2) by simp
  with p1(1) p2(1) show ?thesis by simp
qed

theorem parser_split_reason_asserts_witness:
  "\<exists>(p :: (unit, unit) http_parser). http_parser_new () () = Inr p \<and>
     ll_run (\<lambda>c _. Inr (0, c)) [On_message_begin, On_status 404 ''Not F'', On_status 404 ''ound''] p = Inl Assertion"
proof -
  obtain p :: "(unit, unit) http_parser" where p: "http_parser_new () () = Inr p" "hp_ready p"
    using http_parser_new_ready [of "()" "()"] by blast
  with parser_split_reason_asserts [OF p(2), of "''Not F''" "''ound''" "\<lambda>c _. Inr (0, c)" 404] show ?thesis
    by (auto simp: frag_ok_def)
qed

end
