(* ===== verification/CH_UrlParser.thy ===== *)
theory CH_UrlParser
  imports CH_Cbuffer
begin

text \<open>
  The URL parser of \<open>src/http_in_c/common/url_parser.c\<close>, compiled with
  \<open>C_HTTP_URL_PARSER_STRICT\<close>, and the \<open>Url\<close> object of \<open>src/http_in_c/common/url.c\<close>.
  Offsets, lengths and the field mask are 16 bit words as in \<open>struct c_http_parser_url\<close>, and
  the port accumulator a 64 bit word, so truncation and wrap-around are those of the code.
\<close>

unbundle bit_operations_syntax

section \<open>Character classes\<close>

definition LOWER :: "char \<Rightarrow> 8 word" where
  "LOWER c = of_char c OR 0x20"

definition IS_ALPHA :: "char \<Rightarrow> bool" where
  "IS_ALPHA c \<longleftrightarrow> LOWER c \<ge> 97 \<and> LOWER c \<le> 122"

definition IS_NUM :: "char \<Rightarrow> bool" where
  "IS_NUM c \<longleftrightarrow> (of_char c :: 8 word) \<ge> 48 \<and> (of_char c :: 8 word) \<le> 57"

definition IS_ALPHANUM :: "char \<Rightarrow> bool" where
  "IS_ALPHANUM c \<longleftrightarrow> IS_ALPHA c \<or> IS_NUM c"

definition IS_HEX :: "char \<Rightarrow> bool" where
  "IS_HEX c \<longleftrightarrow> IS_NUM c \<or> LOWER c \<ge> 97 \<and> LOWER c \<le> 102"

definition IS_MARK :: "char \<Rightarrow> bool" where
  "IS_MARK c \<longleftrightarrow> c = CHR ''-'' \<or> c = CHR ''_'' \<or> c = CHR ''.'' \<or> c = CHR ''!'' \<or> c = CHR ''~'' \<or>
     c = CHR ''*'' \<or> c = CHR 0x27 \<or> c = CHR ''('' \<or> c = CHR '')''"

definition IS_USERINFO_CHAR :: "char \<Rightarrow> bool" where
  "IS_USERINFO_CHAR c \<longleftrightarrow> IS_ALPHANUM c \<or> IS_MARK c \<or> c = CHR ''%'' \<or> c = CHR '';'' \<or> c = CHR '':'' \<or>
     c = CHR ''&'' \<or> c = CHR ''='' \<or> c = CHR ''+'' \<or> c = CHR ''$'' \<or> c = CHR '',''"

definition IS_HOST_CHAR :: "char \<Rightarrow> bool" where
  "IS_HOST_CHAR c \<longleftrightarrow> IS_ALPHANUM c \<or> c = CHR ''.'' \<or> c = CHR ''-''"

text \<open>One byte per eight characters; the second half of the array is zero initialised.\<close>

definition normal_url_char :: "8 word list" where
  "normal_url_char =
     [0, 0, 0, 0,
      2 OR 4 OR 16 OR 32 OR 64 OR 128, 255, 255, 127,
      255, 255, 255, 255, 255, 255, 255, 127] @ replicate 16 0"

definition BIT_AT :: "8 word list \<Rightarrow> nat \<Rightarrow> bool" where
  "BIT_AT a i \<longleftrightarrow> a ! (drop_bit 3 i) AND push_bit (i AND 7) 1 \<noteq> 0"

definition IS_URL_CHAR :: "char \<Rightarrow> bool" where
  "IS_URL_CHAR c \<longleftrightarrow> BIT_AT normal_url_char (of_char c)"

section \<open>States\<close>

text \<open>
  The constants of \<open>enum state\<close> that concern a URL; the others belong to message parsing, and
  no function of the file uses them.
\<close>

datatype url_state =
    s_dead
  | s_req_spaces_before_url
  | s_req_schema
  | s_req_schema_slash
  | s_req_schema_slash_slash
  | s_req_server_start
  | s_req_server
  | s_req_server_with_at
  | s_req_path
  | s_req_query_string_start
  | s_req_query_string
  | s_req_fragment_start
  | s_req_fragment

datatype http_host_state =
    s_http_host_dead
  | s_http_userinfo_start
  | s_http_userinfo
  | s_http_host_start
  | s_http_host_v6_start
  | s_http_host
  | s_http_host_v6
  | s_http_host_v6_end
  | s_http_host_v6_zone_start
  | s_http_host_v6_zone
  | s_http_host_port_start
  | s_http_host_port

text \<open>The cases \<open>s_req_server_start\<close> and \<open>s_req_server\<close>, into which \<open>s_req_server_with_at\<close> falls through.\<close>

definition server_char :: "char \<Rightarrow> url_state" where
  "server_char ch =
     (if ch = CHR ''/'' then s_req_path
      else if ch = CHR ''?'' then s_req_query_string_start
      else if ch = CHR ''@'' then s_req_server_with_at
      else if IS_USERINFO_CHAR ch \<or> ch = CHR ''['' \<or> ch = CHR '']'' then s_req_server
      else s_dead)"

definition parse_url_char :: "url_state \<Rightarrow> char \<Rightarrow> url_state" where
  "parse_url_char s ch =
     (if ch = CHR '' '' \<or> ch = CHR 0x0D \<or> ch = CHR 0x0A then s_dead
      else if ch = CHR 0x09 \<or> ch = CHR 0x0C then s_dead
      else case s of
        s_req_spaces_before_url \<Rightarrow>
          if ch = CHR ''/'' \<or> ch = CHR ''*'' then s_req_path
          else if IS_ALPHA ch then s_req_schema else s_dead
      | s_req_schema \<Rightarrow>
          if IS_ALPHA ch then s else if ch = CHR '':'' then s_req_schema_slash else s_dead
      | s_req_schema_slash \<Rightarrow> if ch = CHR ''/'' then s_req_schema_slash_slash else s_dead
      | s_req_schema_slash_slash \<Rightarrow> if ch = CHR ''/'' then s_req_server_start else s_dead
      | s_req_server_with_at \<Rightarrow> if ch = CHR ''@'' then s_dead else server_char ch
      | s_req_server_start \<Rightarrow> server_char ch
      | s_req_server \<Rightarrow> server_char ch
      | s_req_path \<Rightarrow>
          if IS_URL_CHAR ch then s
          else if ch = CHR ''?'' then s_req_query_string_start
          else if ch = CHR ''#'' then s_req_fragment_start else s_dead
      | s_req_query_string_start \<Rightarrow>
          if IS_URL_CHAR ch then s_req_query_string
          else if ch = CHR ''?'' then s_req_query_string
          else if ch = CHR ''#'' then s_req_fragment_start else s_dead
      | s_req_query_string \<Rightarrow>
          if IS_URL_CHAR ch then s_req_query_string
          else if ch = CHR ''?'' then s_req_query_string
          else if ch = CHR ''#'' then s_req_fragment_start else s_dead
      | s_req_fragment_start \<Rightarrow>
          if IS_URL_CHAR ch then s_req_fragment
          else if ch = CHR ''?'' then s_req_fragment
          else if ch = CHR ''#'' then s else s_dead
      | s_req_fragment \<Rightarrow>
          if IS_URL_CHAR ch then s
          else if ch = CHR ''?'' \<or> ch = CHR ''#'' then s else s_dead
      | s_dead \<Rightarrow> s_dead)"

definition host_v6_char :: "http_host_state \<Rightarrow> char \<Rightarrow> http_host_state" where
  "host_v6_char s ch =
     (if IS_HEX ch \<or> ch = CHR '':'' \<or> ch = CHR ''.'' then s_http_host_v6
      else if s = s_http_host_v6 \<and> ch = CHR ''%'' then s_http_host_v6_zone_start
      else s_http_host_dead)"

definition host_zone_char :: "char \<Rightarrow> http_host_state" where
  "host_zone_char ch =
     (if IS_ALPHANUM ch \<or> ch = CHR ''%'' \<or> ch = CHR ''.'' \<or> ch = CHR ''-'' \<or> ch = CHR ''_'' \<or> ch = CHR ''~''
      then s_http_host_v6_zone else s_http_host_dead)"

definition c_http_parse_host_char :: "http_host_state \<Rightarrow> char \<Rightarrow> http_host_state" where
  "c_http_parse_host_char s ch =
     (if s = s_http_userinfo \<or> s = s_http_userinfo_start then
        if ch = CHR ''@'' then s_http_host_start
        else if IS_USERINFO_CHAR ch then s_http_userinfo else s_http_host_dead
      else if s = s_http_host_start then
        if ch = CHR ''['' then s_http_host_v6_start
        else if IS_HOST_CHAR ch then s_http_host else s_http_host_dead
      else if s = s_http_host \<and> IS_HOST_CHAR ch then s_http_host
      else if s = s_http_host \<or> s = s_http_host_v6_end then
        if ch = CHR '':'' then s_http_host_port_start else s_http_host_dead
      else if s = s_http_host_v6 \<and> ch = CHR '']'' then s_http_host_v6_end
      else if s = s_http_host_v6 \<or> s = s_http_host_v6_start then host_v6_char s ch
      else if s = s_http_host_v6_zone \<and> ch = CHR '']'' then s_http_host_v6_end
      else if s = s_http_host_v6_zone \<or> s = s_http_host_v6_zone_start then host_zone_char ch
      else if s = s_http_host_port \<or> s = s_http_host_port_start then
        if IS_NUM ch then s_http_host_port else s_http_host_dead
      else s_http_host_dead)"

section \<open>Result structure\<close>

datatype url_field = UF_SCHEMA | UF_HOST | UF_PORT | UF_PATH | UF_QUERY | UF_FRAGMENT | UF_USERINFO

fun uf_num :: "url_field \<Rightarrow> nat" where
  "uf_num UF_SCHEMA = 0"
| "uf_num UF_HOST = 1"
| "uf_num UF_PORT = 2"
| "uf_num UF_PATH = 3"
| "uf_num UF_QUERY = 4"
| "uf_num UF_FRAGMENT = 5"
| "uf_num UF_USERINFO = 6"

record c_http_parser_url =
  u_field_set :: "16 word"
  u_port :: "16 word"
  u_off :: "url_field \<Rightarrow> 16 word"
  u_len :: "url_field \<Rightarrow> 16 word"

definition c_http_parser_url_init :: c_http_parser_url where
  "c_http_parser_url_init = \<lparr>u_field_set = 0, u_port = 0, u_off = \<lambda>_. 0, u_len = \<lambda>_. 0\<rparr>"

definition u_has :: "c_http_parser_url \<Rightarrow> url_field \<Rightarrow> bool" where
  "u_has u f \<longleftrightarrow> u_field_set u AND push_bit (uf_num f) 1 \<noteq> 0"

definition u_mark :: "url_field \<Rightarrow> c_http_parser_url \<Rightarrow> c_http_parser_url" where
  "u_mark f u = u\<lparr>u_field_set := u_field_set u OR push_bit (uf_num f) 1\<rparr>"

definition u_set_off :: "url_field \<Rightarrow> nat \<Rightarrow> c_http_parser_url \<Rightarrow> c_http_parser_url" where
  "u_set_off f i u = u\<lparr>u_off := (u_off u)(f := word_of_nat i)\<rparr>"

definition u_set_len :: "url_field \<Rightarrow> 16 word \<Rightarrow> c_http_parser_url \<Rightarrow> c_http_parser_url" where
  "u_set_len f n u = u\<lparr>u_len := (u_len u)(f := n)\<rparr>"

definition u_inc_len :: "url_field \<Rightarrow> c_http_parser_url \<Rightarrow> c_http_parser_url" where
  "u_inc_len f u = u\<lparr>u_len := (u_len u)(f := u_len u f + 1)\<rparr>"

section \<open>The host part\<close>

text \<open>The second \<open>switch\<close> of the loop of \<open>c_http_parse_host\<close>; \<open>i\<close> is \<open>p - buf\<close>.\<close>

definition host_step :: "http_host_state \<Rightarrow> http_host_state \<Rightarrow> nat \<Rightarrow> c_http_parser_url \<Rightarrow> c_http_parser_url" where
  "host_step s new_s i u =
     (case new_s of
        s_http_host \<Rightarrow> u_inc_len UF_HOST (if s \<noteq> s_http_host then u_set_off UF_HOST i u else u)
      | s_http_host_v6 \<Rightarrow> u_inc_len UF_HOST (if s \<noteq> s_http_host_v6 then u_set_off UF_HOST i u else u)
      | s_http_host_v6_zone_start \<Rightarrow> u_inc_len UF_HOST u
      | s_http_host_v6_zone \<Rightarrow> u_inc_len UF_HOST u
      | s_http_host_port \<Rightarrow>
          u_inc_len UF_PORT (if s \<noteq> s_http_host_port
            then u_mark UF_PORT (u_set_len UF_PORT 0 (u_set_off UF_PORT i u)) else u)
      | s_http_userinfo \<Rightarrow>
          u_inc_len UF_USERINFO (if s \<noteq> s_http_userinfo
            then u_mark UF_USERINFO (u_set_len UF_USERINFO 0 (u_set_off UF_USERINFO i u)) else u)
      | _ \<Rightarrow> u)"

text \<open>\<open>None\<close> as first component is the early \<open>return 1\<close>.\<close>

fun host_loop :: "string \<Rightarrow> nat \<Rightarrow> http_host_state \<Rightarrow> c_http_parser_url \<Rightarrow>
                  http_host_state option \<times> c_http_parser_url" where
  "host_loop [] i s u = (Some s, u)"
| "host_loop (c # cs) i s u =
     (let new_s = c_http_parse_host_char s c in
      if new_s = s_http_host_dead then (None, u)
      else host_loop cs (i + 1) new_s (host_step s new_s i u))"

definition host_end_ok :: "http_host_state \<Rightarrow> bool" where
  "host_end_ok s \<longleftrightarrow> s \<notin> {s_http_host_start, s_http_host_v6_start, s_http_host_v6, s_http_host_v6_zone_start,
     s_http_host_v6_zone, s_http_host_port_start, s_http_userinfo, s_http_userinfo_start}"

text \<open>The \<open>len\<close> bytes at offset \<open>off\<close> of the input; reading past its end is a fault.\<close>

definition buf_part :: "string \<Rightarrow> nat \<Rightarrow> nat \<Rightarrow> string res" where
  "buf_part buf off len = (if off + len \<le> length buf then Inr (take len (drop off buf)) else Inl MemFault)"

definition c_http_parse_host :: "string \<Rightarrow> c_http_parser_url \<Rightarrow> bool \<Rightarrow> (int \<times> c_http_parser_url) res" where
  "c_http_parse_host buf u found_at =
     (let off = unat (u_off u UF_HOST); len = unat (u_len u UF_HOST) in
      rbind (c_assert (u_has u UF_HOST)) (\<lambda>_.
      let u = u_set_len UF_HOST 0 u;
          s = (if found_at then s_http_userinfo_start else s_http_host_start) in
      rbind (buf_part buf off len) (\<lambda>cs.
      case host_loop cs off s u of
        (None, u) \<Rightarrow> Inr (1, u)
      | (Some s, u) \<Rightarrow> Inr (if host_end_ok s then 0 else 1, u))))"

section \<open>The whole URL\<close>

text \<open>The \<open>switch\<close> of the loop of \<open>c_http_parser_parse_url\<close>: skip a delimiter, or the field the character is in.\<close>

datatype url_action = Dead | Skip | In_field url_field | Unexpected

fun action_of :: "url_state \<Rightarrow> url_action" where
  "action_of s_dead = Dead"
| "action_of s_req_schema_slash = Skip"
| "action_of s_req_schema_slash_slash = Skip"
| "action_of s_req_server_start = Skip"
| "action_of s_req_query_string_start = Skip"
| "action_of s_req_fragment_start = Skip"
| "action_of s_req_schema = In_field UF_SCHEMA"
| "action_of s_req_server_with_at = In_field UF_HOST"
| "action_of s_req_server = In_field UF_HOST"
| "action_of s_req_path = In_field UF_PATH"
| "action_of s_req_query_string = In_field UF_QUERY"
| "action_of s_req_fragment = In_field UF_FRAGMENT"
| "action_of s_req_spaces_before_url = Unexpected"

definition field_step :: "url_field \<Rightarrow> url_field option \<Rightarrow> nat \<Rightarrow> c_http_parser_url \<Rightarrow> c_http_parser_url" where
  "field_step uf old_uf i u =
     (if Some uf = old_uf then u_inc_len uf u else u_mark uf (u_set_len uf 1 (u_set_off uf i u)))"

text \<open>
  \<open>old_uf = None\<close> is \<open>UF_MAX\<close>.  The result is the state of the local variables when the loop
  ends, or \<open>None\<close> for \<open>return 1\<close>, with the structure as it is then.
\<close>

fun url_loop :: "string \<Rightarrow> nat \<Rightarrow> url_state \<Rightarrow> url_field option \<Rightarrow> bool \<Rightarrow> c_http_parser_url \<Rightarrow>
                 (bool option \<times> c_http_parser_url) res" where
  "url_loop [] i s old_uf found_at u = Inr (Some found_at, u)"
| "url_loop (c # cs) i s old_uf found_at u =
     (let s = parse_url_char s c; found_at = (s = s_req_server_with_at \<or> found_at) in
      case action_of s of
        Dead \<Rightarrow> Inr (None, u)
      | Skip \<Rightarrow> url_loop cs (i + 1) s old_uf found_at u
      | In_field uf \<Rightarrow> url_loop cs (i + 1) s (Some uf) found_at (field_step uf old_uf i u)
      | Unexpected \<Rightarrow> Inl Assertion)"

text \<open>\<open>v *= 10; v += *p - '0'\<close> in 64 bits, on the value of the byte as a signed \<open>char\<close>.\<close>

definition port_digit :: "64 word \<Rightarrow> char \<Rightarrow> 64 word" where
  "port_digit v c = v * 10 + (signed_take_bit 7 (of_char c) - 48)"

fun port_loop :: "string \<Rightarrow> 64 word \<Rightarrow> 64 word option" where
  "port_loop [] v = Some v"
| "port_loop (c # cs) v = (let v = port_digit v c in if v > 0xffff then None else port_loop cs v)"

definition parse_port :: "string \<Rightarrow> c_http_parser_url \<Rightarrow> (int \<times> c_http_parser_url) res" where
  "parse_port buf u =
     (if u_has u UF_PORT then
        let off = unat (u_off u UF_PORT); len = unat (u_len u UF_PORT) in
        rbind (c_assert (off + len \<le> length buf)) (\<lambda>_.
        rbind (buf_part buf off len) (\<lambda>cs.
        case port_loop cs 0 of None \<Rightarrow> Inr (1, u) | Some v \<Rightarrow> Inr (0, u\<lparr>u_port := ucast v\<rparr>)))
      else Inr (0, u))"

definition c_http_parser_parse_url ::
  "string \<Rightarrow> bool \<Rightarrow> c_http_parser_url \<Rightarrow> (int \<times> c_http_parser_url) res" where
  "c_http_parser_parse_url buf is_connect u =
     (if length buf = 0 then Inr (1, u)
      else
        let u = u\<lparr>u_port := 0, u_field_set := 0\<rparr>;
            s = (if is_connect then s_req_server_start else s_req_spaces_before_url) in
        rbind (url_loop buf 0 s None False u) (\<lambda>(r, u).
        case r of None \<Rightarrow> Inr (1, u)
        | Some found_at \<Rightarrow>
            if u_has u UF_SCHEMA \<and> \<not> u_has u UF_HOST then Inr (1, u)
            else
              rbind (if u_has u UF_HOST then c_http_parse_host buf u found_at else Inr (0, u)) (\<lambda>(rc, u).
              if rc \<noteq> 0 then Inr (1, u)
              else if is_connect \<and> u_field_set u \<noteq> (push_bit (uf_num UF_HOST) 1 OR push_bit (uf_num UF_PORT) 1)
              then Inr (1, u)
              else parse_port buf u)))"

section \<open>The URL object\<close>

record Url =
  url_scheme :: Cbuffer
  url_host :: Cbuffer
  url_path :: Cbuffer
  url_port :: Cbuffer
  url_fragement :: Cbuffer
  url_query :: Cbuffer
  url_user_info :: Cbuffer

definition url_component :: "string \<Rightarrow> c_http_parser_url \<Rightarrow> url_field \<Rightarrow> Cbuffer res" where
  "url_component url u f =
     rbind Cbuffer_new (\<lambda>cb.
     if u_len u f \<noteq> 0
     then rbind (buf_part (url @ [NUL]) (unat (u_off u f)) (unat (u_len u f))) (\<lambda>s. Cbuffer_append cb s)
     else Inr cb)"

text \<open>The result of the parse is not looked at.\<close>

definition Url_new :: "string \<Rightarrow> Url res" where
  "Url_new arg =
     (let url = c_str arg in
      rbind (c_http_parser_parse_url url False c_http_parser_url_init) (\<lambda>(_, u).
      rbind (url_component url u UF_SCHEMA) (\<lambda>scheme.
      rbind (url_component url u UF_USERINFO) (\<lambda>user_info.
      rbind (url_component url u UF_HOST) (\<lambda>host.
      rbind (url_component url u UF_PATH) (\<lambda>path.
      rbind (url_component url u UF_PORT) (\<lambda>port.
      rbind (url_component url u UF_FRAGMENT) (\<lambda>fragement.
      rbind (url_component url u UF_QUERY) (\<lambda>query.
      Inr \<lparr>url_scheme = scheme, url_host = host, url_path = path, url_port = port,
           url_fragement = fragement, url_query = query, url_user_info = user_info\<rparr>)))))))))"

definition Url_dispose :: "Url \<Rightarrow> unit res" where
  "Url_dispose u = rbind (rfold (\<lambda>cb (_ :: unit). rbind (Cbuffer_dispose cb) (\<lambda>_. Inr ()))
     [url_scheme u, url_host u, url_port u, url_fragement u, url_path u, url_query u, url_user_info u] ()) (\<lambda>_. Inr ())"


section \<open>Lemmas on the result structure\<close>

lemma u_has_bit: "u_has u f \<longleftrightarrow> bit (u_field_set u) (uf_num f)"
  by (simp add: u_has_def bit_iff_and_push_bit_not_eq_0)

lemma uf_num_less: "uf_num f < 16"
  by (cases f) auto

lemma uf_num_inj [simp]: "uf_num f = uf_num g \<longleftrightarrow> f = g"
  by (cases f; cases g) auto

lemma u_has_mark [simp]: "u_has (u_mark f u) g \<longleftrightarrow> g = f \<or> u_has u g"
  using uf_num_less [of g]
  by (auto simp: u_has_bit u_mark_def bit_or_iff bit_exp_iff)

lemma u_access [simp]:
  "u_has (u_set_off f i u) g = u_has u g" "u_has (u_set_len f n u) g = u_has u g"
  "u_has (u_inc_len f u) g = u_has u g"
  "u_off (u_mark f u) = u_off u" "u_off (u_set_len f n u) = u_off u" "u_off (u_inc_len f u) = u_off u"
  "u_len (u_mark f u) = u_len u" "u_len (u_set_off f i u) = u_len u"
  "u_off (u_set_off f i u) = (u_off u)(f := word_of_nat i)"
  "u_len (u_set_len f n u) = (u_len u)(f := n)"
  "u_len (u_inc_len f u) = (u_len u)(f := u_len u f + 1)"
  by (simp_all add: u_has_def u_set_off_def u_set_len_def u_inc_len_def u_mark_def)

definition u_end :: "c_http_parser_url \<Rightarrow> url_field \<Rightarrow> nat" where
  "u_end u f = unat (u_off u f) + unat (u_len u f)"

lemma unat_inc_le: "unat (n + 1 :: 16 word) \<le> unat n + 1"
  by (simp add: unat_word_ariths)

lemma unat_of_nat_le: "unat (word_of_nat i :: 16 word) \<le> i"
  by (simp add: unat_of_nat)

section \<open>No assertion fails and no byte outside the input is read\<close>

text \<open>Every field of \<open>F\<close> that is set ends before the position \<open>i\<close> reached so far.\<close>

definition url_inv :: "url_field set \<Rightarrow> c_http_parser_url \<Rightarrow> nat \<Rightarrow> bool" where
  "url_inv F u i \<longleftrightarrow> (\<forall>f \<in> F. u_has u f \<longrightarrow> u_end u f \<le> i)"

lemma url_inv_mono: "url_inv F u i \<Longrightarrow> i \<le> j \<Longrightarrow> url_inv F u j"
  by (fastforce simp: url_inv_def)

lemma u_end_inc: "u_end (u_inc_len f u) g \<le> (if g = f then u_end u f + 1 else u_end u g)"
  using unat_inc_le [of "u_len u f"] by (simp add: u_end_def)

lemma u_end_new:
  "u_end (u_inc_len f (u_mark f (u_set_len f 0 (u_set_off f i u)))) g \<le> (if g = f then i + 1 else u_end u g)"
  using unat_of_nat_le [of i] by (simp add: u_end_def)

lemma u_end_start:
  "u_len u f = 0 \<Longrightarrow> u_end (u_inc_len f (u_set_off f i u)) g \<le> (if g = f then i + 1 else u_end u g)"
  using unat_of_nat_le [of i] by (simp add: u_end_def)

lemma url_inv_step:
  assumes "url_inv F u i" and "\<And>g. u_end v g \<le> (if g = f then i + 1 else u_end u g)"
    and "\<And>g. u_has v g \<Longrightarrow> g = f \<or> u_has u g"
  shows "url_inv F v (i + 1)"
proof -
  have "u_end v g \<le> i + 1" if "g \<in> F" "u_has v g" for g
  proof (cases "g = f")
    case True
    then show ?thesis using assms(2) [of g] by simp
  next
    case False
    then have "u_end u g \<le> i" using assms(1) assms(3) [OF that(2)] that(1) by (simp add: url_inv_def)
    then show ?thesis using assms(2) [of g] False by simp
  qed
  then show ?thesis by (simp add: url_inv_def)
qed

lemma url_inv_inc:
  assumes inv: "url_inv F u i" and h: "u_has u f" "f \<in> F"
  shows "url_inv F (u_inc_len f u) (i + 1)"
proof (rule url_inv_step [where f = f, OF inv])
  have "u_end u f \<le> i" using inv h by (simp add: url_inv_def)
  then show "u_end (u_inc_len f u) g \<le> (if g = f then i + 1 else u_end u g)" for g
    using u_end_inc [of f u g] by (auto split: if_splits)
qed auto

lemma url_inv_new: "url_inv F u i \<Longrightarrow> url_inv F (u_inc_len f (u_mark f (u_set_len f 0 (u_set_off f i u)))) (i + 1)"
  using u_end_new [of f i u] by (intro url_inv_step [where f = f and u = u]) auto

lemma action_expected: "action_of (parse_url_char s c) \<noteq> Unexpected"
  by (cases s) (auto simp: parse_url_char_def server_char_def)

lemma action_field: "action_of s = In_field f \<Longrightarrow> f \<noteq> UF_PORT \<and> f \<noteq> UF_USERINFO"
  by (cases s) auto

lemma field_step_inv:
  assumes inv: "url_inv UNIV u i" and "\<And>f. old = Some f \<Longrightarrow> u_has u f"
  shows "url_inv UNIV (field_step uf old i u) (i + 1) \<and> u_has (field_step uf old i u) uf"
proof (cases "Some uf = old")
  case True
  then show ?thesis using url_inv_inc [OF inv, of uf] assms(2) by (simp add: field_step_def)
next
  case False
  have "u_set_len uf 1 (u_set_off uf i u) = u_inc_len uf (u_set_len uf 0 (u_set_off uf i u))"
    by (simp add: u_set_len_def u_inc_len_def)
  then have "field_step uf old i u = u_inc_len uf (u_mark uf (u_set_len uf 0 (u_set_off uf i u)))"
    using False by (simp add: field_step_def u_mark_def u_inc_len_def)
  then show ?thesis using url_inv_new [OF inv, of uf] by simp
qed

lemma url_loop_inv:
  assumes "url_inv UNIV u i" and "\<And>f. old = Some f \<Longrightarrow> u_has u f"
  shows "\<exists>r u'. url_loop cs i s old fa u = Inr (r, u') \<and> url_inv UNIV u' (i + length cs) \<and>
     u_has u' UF_PORT = u_has u UF_PORT \<and> u_has u' UF_USERINFO = u_has u UF_USERINFO"
  using assms
proof (induction cs arbitrary: i s old fa u)
  case (Cons c cs)
  show ?case
  proof (cases "action_of (parse_url_char s c)")
    case Dead
    then show ?thesis using url_inv_mono [OF Cons.prems(1)] by (simp add: Let_def)
  next
    case Skip
    have "url_inv UNIV u (i + 1)" using url_inv_mono [OF Cons.prems(1)] by simp
    from Cons.IH [OF this] Cons.prems(2) Skip show ?thesis by (simp add: Let_def)
  next
    case (In_field uf)
    let ?v = "field_step uf old i u"
    have v: "url_inv UNIV ?v (i + 1)" "u_has ?v uf" using field_step_inv [OF Cons.prems] by auto
    have "u_has ?v UF_PORT = u_has u UF_PORT" "u_has ?v UF_USERINFO = u_has u UF_USERINFO"
      using action_field [OF In_field] by (auto simp: field_step_def)
    then show ?thesis
      using Cons.IH [OF v(1), of "Some uf" "parse_url_char s c" "parse_url_char s c = s_req_server_with_at \<or> fa"]
        v(2) In_field by (simp add: Let_def)
  next
    case Unexpected
    then show ?thesis using action_expected by simp
  qed
qed (simp add: url_inv_def)

definition host_fields :: "url_field set" where
  "host_fields = {UF_HOST, UF_PORT, UF_USERINFO}"

definition pre_host :: "http_host_state \<Rightarrow> bool" where
  "pre_host s \<longleftrightarrow> s \<in> {s_http_userinfo_start, s_http_userinfo, s_http_host_start, s_http_host_v6_start}"

text \<open>In the host, the length of the host field is still zero until the host itself starts.\<close>

definition host_inv :: "http_host_state \<Rightarrow> c_http_parser_url \<Rightarrow> nat \<Rightarrow> bool" where
  "host_inv s u i \<longleftrightarrow> url_inv host_fields u i \<and> u_has u UF_HOST \<and> (pre_host s \<longrightarrow> u_len u UF_HOST = 0) \<and>
     (s = s_http_host_port \<longrightarrow> u_has u UF_PORT) \<and> (s = s_http_userinfo \<longrightarrow> u_has u UF_USERINFO)"

lemma host_char_from:
  assumes "c_http_parse_host_char s c = n"
  shows "(n = s_http_host \<longrightarrow> s = s_http_host \<or> s = s_http_host_start) \<and>
     (n = s_http_host_v6 \<longrightarrow> s = s_http_host_v6 \<or> s = s_http_host_v6_start) \<and>
     (pre_host n \<longrightarrow> pre_host s)"
  using assms by (auto simp: c_http_parse_host_char_def host_v6_char_def host_zone_char_def pre_host_def split: if_splits)

lemma host_step_inv:
  assumes inv: "host_inv s u i" and n: "c_http_parse_host_char s c = n" "n \<noteq> s_http_host_dead"
  shows "host_inv n (host_step s n i u) (i + 1)"
proof -
  have u: "url_inv host_fields u i" and h: "u_has u UF_HOST" using inv by (auto simp: host_inv_def)
  have up: "url_inv host_fields u (i + 1)" using url_inv_mono [OF u] by simp
  have F: "UF_HOST \<in> host_fields" "UF_PORT \<in> host_fields" "UF_USERINFO \<in> host_fields" by (auto simp: host_fields_def)
  note origin = host_char_from [OF n(1)]
  have start: "url_inv host_fields (u_inc_len UF_HOST (u_set_off UF_HOST i u)) (i + 1)" if "u_len u UF_HOST = 0"
    using h u_end_start [OF that] by (intro url_inv_step [where f = UF_HOST, OF u]) auto
  note d = host_step_def host_inv_def pre_host_def
  show ?thesis
  proof (cases n)
    case s_http_host
    then show ?thesis using origin inv start url_inv_inc [OF u h F(1)] by (auto simp: d)
  next
    case s_http_host_v6
    then show ?thesis using origin inv start url_inv_inc [OF u h F(1)] by (auto simp: d)
  next
    case s_http_host_v6_zone_start
    then show ?thesis using inv url_inv_inc [OF u h F(1)] by (auto simp: d)
  next
    case s_http_host_v6_zone
    then show ?thesis using inv url_inv_inc [OF u h F(1)] by (auto simp: d)
  next
    case s_http_host_port
    then show ?thesis using inv url_inv_new [OF u, of UF_PORT] url_inv_inc [OF u _ F(2)] by (auto simp: d)
  next
    case s_http_userinfo
    then have "u_len u UF_HOST = 0" using origin inv by (auto simp: d)
    then show ?thesis
      using s_http_userinfo inv url_inv_new [OF u, of UF_USERINFO] url_inv_inc [OF u _ F(3)] by (auto simp: d)
  qed (use n(2) up inv origin in \<open>auto simp: d\<close>)
qed

lemma host_loop_inv:
  assumes "host_inv s u i"
  shows "url_inv host_fields (snd (host_loop cs i s u)) (i + length cs)"
  using assms
proof (induction cs arbitrary: s u i)
  case (Cons c cs)
  show ?case
  proof (cases "c_http_parse_host_char s c = s_http_host_dead")
    case True
    then show ?thesis using Cons.prems url_inv_mono by (fastforce simp: host_inv_def Let_def)
  next
    case False
    from Cons.IH [OF host_step_inv [OF Cons.prems refl False]] False show ?thesis by (simp add: Let_def)
  qed
qed (simp add: host_inv_def)

lemma host_step_frame:
  "f \<notin> host_fields \<Longrightarrow> u_has (host_step s n i u) f = u_has u f \<and> u_end (host_step s n i u) f = u_end u f"
  by (cases n) (auto simp: host_step_def host_fields_def u_end_def)

lemma host_loop_frame:
  "f \<notin> host_fields \<Longrightarrow> u_has (snd (host_loop cs i s u)) f = u_has u f \<and> u_end (snd (host_loop cs i s u)) f = u_end u f"
proof (induction cs arbitrary: i s u)
  case (Cons c cs)
  then show ?case using host_step_frame [OF Cons.prems] by (auto simp: Let_def)
qed simp

lemma parse_host_total:
  assumes inv: "url_inv UNIV u (length buf)" and h: "u_has u UF_HOST"
    and np: "\<not> u_has u UF_PORT" "\<not> u_has u UF_USERINFO"
  shows "\<exists>rc u'. c_http_parse_host buf u fa = Inr (rc, u') \<and> (rc = 0 \<or> rc = 1) \<and> url_inv UNIV u' (length buf)"
proof -
  let ?off = "unat (u_off u UF_HOST)" and ?len = "unat (u_len u UF_HOST)"
  let ?u = "u_set_len UF_HOST 0 u" and ?s = "if fa then s_http_userinfo_start else s_http_host_start"
  let ?cs = "take ?len (drop ?off buf)"
  have le: "?off + ?len \<le> length buf" using inv h by (simp add: url_inv_def u_end_def)
  obtain r u' where r: "host_loop ?cs ?off ?s ?u = (r, u')" by force
  have "host_inv ?s ?u ?off"
    using h np by (auto simp: host_inv_def url_inv_def host_fields_def u_end_def)
  from host_loop_inv [OF this, of ?cs] have "url_inv host_fields u' (?off + length ?cs)" by (simp add: r)
  then have "url_inv host_fields u' (length buf)" using le url_inv_mono by (force simp: min_def)
  moreover have "u_has u' f = u_has u f \<and> u_end u' f = u_end u f" if "f \<notin> host_fields" for f
    using host_loop_frame [OF that, of ?cs ?off ?s ?u] that by (simp add: r u_end_def host_fields_def)
  ultimately have fin: "url_inv UNIV u' (length buf)" using inv by (fastforce simp: url_inv_def)
  show ?thesis using h le r fin
    by (cases r) (auto simp: c_http_parse_host_def buf_part_def Let_def)
qed

lemma parse_port_total:
  assumes "url_inv UNIV u (length buf)"
  shows "\<exists>rc u'. parse_port buf u = Inr (rc, u') \<and> (rc = 0 \<or> rc = 1)"
proof (cases "u_has u UF_PORT")
  case True
  then have "unat (u_off u UF_PORT) + unat (u_len u UF_PORT) \<le> length buf"
    using assms by (simp add: url_inv_def u_end_def)
  then show ?thesis using True by (auto simp: parse_port_def buf_part_def Let_def split: option.split)
qed (simp add: parse_port_def)

lemma parse_url_total:
  "\<exists>rc u'. c_http_parser_parse_url buf is_connect u = Inr (rc, u') \<and> (rc = 0 \<or> rc = 1)"
proof (cases "buf = []")
  case False
  let ?u = "u\<lparr>u_port := 0, u_field_set := 0\<rparr>"
  let ?s = "if is_connect then s_req_server_start else s_req_spaces_before_url"
  have no: "\<not> u_has ?u f" for f by (simp add: u_has_def)
  then have "url_inv UNIV ?u 0" by (simp add: url_inv_def)
  from url_loop_inv [OF this, of None buf ?s False] no obtain r u1 where
    r: "url_loop buf 0 ?s None False ?u = Inr (r, u1)" "url_inv UNIV u1 (length buf)"
    "\<not> u_has u1 UF_PORT" "\<not> u_has u1 UF_USERINFO" by auto
  show ?thesis
  proof (cases "r = None \<or> u_has u1 UF_SCHEMA \<and> \<not> u_has u1 UF_HOST")
    case True
    then show ?thesis using False r(1) by (auto simp: c_http_parser_parse_url_def Let_def split: option.split)
  next
    case ok: False
    then obtain fa where fa: "r = Some fa" by auto
    have "\<exists>rc u2. (if u_has u1 UF_HOST then c_http_parse_host buf u1 fa else Inr (0, u1)) = Inr (rc, u2) \<and>
        (rc = 0 \<or> rc = 1) \<and> url_inv UNIV u2 (length buf)"
      using parse_host_total [OF r(2) _ r(3,4), of fa] r(2) by (cases "u_has u1 UF_HOST") auto
    then obtain rc u2 where h: "(if u_has u1 UF_HOST then c_http_parse_host buf u1 fa else Inr (0, u1)) = Inr (rc, u2)"
      "rc = 0 \<or> rc = 1" "url_inv UNIV u2 (length buf)" by blast
    have "c_http_parser_parse_url buf is_connect u =
        (if rc \<noteq> 0 then Inr (1, u2)
         else if is_connect \<and> u_field_set u2 \<noteq> (push_bit (uf_num UF_HOST) 1 OR push_bit (uf_num UF_PORT) 1)
         then Inr (1, u2) else parse_port buf u2)"
      using False r(1) ok fa h(1) unfolding c_http_parser_parse_url_def Let_def by auto
    then show ?thesis using parse_port_total [OF h(3)] by auto
  qed
qed (simp add: c_http_parser_parse_url_def)

end
