(* ===== verification/CH_UrlSpec.thy ===== *)
theory CH_UrlSpec
  imports CH_UrlParser
begin

text \<open>
  What the URL parser computes on well-formed input: the printed form of a URL is accepted and
  the fields of the result delimit exactly its components.
\<close>

unbundle bit_operations_syntax

section \<open>Components and their printed form\<close>

record url_parts =
  up_scheme :: string
  up_userinfo :: "string option"
  up_host :: string
  up_port :: "string option"
  up_path :: string
  up_query :: "string option"
  up_fragment :: "string option"

definition print_userinfo :: "url_parts \<Rightarrow> string" where
  "print_userinfo p = (case up_userinfo p of None \<Rightarrow> [] | Some s \<Rightarrow> s @ ''@'')"

definition print_port :: "url_parts \<Rightarrow> string" where
  "print_port p = (case up_port p of None \<Rightarrow> [] | Some s \<Rightarrow> '':'' @ s)"

definition print_authority :: "url_parts \<Rightarrow> string" where
  "print_authority p = print_userinfo p @ up_host p @ print_port p"

definition print_opt :: "string \<Rightarrow> string option \<Rightarrow> string" where
  "print_opt d x = (case x of None \<Rightarrow> [] | Some s \<Rightarrow> d @ s)"

definition print_url :: "url_parts \<Rightarrow> string" where
  "print_url p = up_scheme p @ ''://'' @ print_authority p @ up_path p @
     print_opt ''?'' (up_query p) @ print_opt ''#'' (up_fragment p)"

definition query_char :: "char \<Rightarrow> bool" where
  "query_char c \<longleftrightarrow> IS_URL_CHAR c \<or> c = CHR ''?''"

definition port_value :: "string \<Rightarrow> nat" where
  "port_value ds = foldl (\<lambda>v c. 10 * v + (of_char c - 48)) 0 ds"

definition nonempty_all :: "(char \<Rightarrow> bool) \<Rightarrow> string \<Rightarrow> bool" where
  "nonempty_all P s \<longleftrightarrow> s \<noteq> [] \<and> list_all P s"

definition up_ok :: "url_parts \<Rightarrow> bool" where
  "up_ok p \<longleftrightarrow>
     nonempty_all IS_ALPHA (up_scheme p) \<and>
     pred_option (nonempty_all IS_USERINFO_CHAR) (up_userinfo p) \<and>
     nonempty_all IS_HOST_CHAR (up_host p) \<and>
     pred_option (\<lambda>ds. nonempty_all IS_NUM ds \<and> port_value ds \<le> 65535) (up_port p) \<and>
     (\<exists>t. up_path p = CHR ''/'' # t \<and> list_all IS_URL_CHAR t) \<and>
     pred_option (nonempty_all query_char) (up_query p) \<and>
     pred_option (nonempty_all query_char) (up_fragment p) \<and>
     length (print_url p) < 65536"

fun up_component :: "url_parts \<Rightarrow> url_field \<Rightarrow> string option" where
  "up_component p UF_SCHEMA = Some (up_scheme p)"
| "up_component p UF_HOST = Some (up_host p)"
| "up_component p UF_PORT = up_port p"
| "up_component p UF_PATH = Some (up_path p)"
| "up_component p UF_QUERY = up_query p"
| "up_component p UF_FRAGMENT = up_fragment p"
| "up_component p UF_USERINFO = up_userinfo p"

section \<open>Character facts\<close>

lemma class_facts [simp]:
  "\<not> IS_ALPHA (CHR '' '')" "\<not> IS_ALPHA (CHR 0x0D)" "\<not> IS_ALPHA (CHR 0x0A)" "\<not> IS_ALPHA (CHR 0x09)"
  "\<not> IS_ALPHA (CHR 0x0C)" "\<not> IS_ALPHA (CHR ''/'')" "\<not> IS_ALPHA (CHR ''*'')" "\<not> IS_ALPHA (CHR '':'')"
  "\<not> IS_USERINFO_CHAR (CHR '' '')" "\<not> IS_USERINFO_CHAR (CHR 0x0D)" "\<not> IS_USERINFO_CHAR (CHR 0x0A)"
  "\<not> IS_USERINFO_CHAR (CHR 0x09)" "\<not> IS_USERINFO_CHAR (CHR 0x0C)" "\<not> IS_USERINFO_CHAR (CHR ''/'')"
  "\<not> IS_USERINFO_CHAR (CHR ''?'')" "\<not> IS_USERINFO_CHAR (CHR ''@'')"
  "\<not> IS_HOST_CHAR (CHR '':'')" "\<not> IS_HOST_CHAR (CHR ''['')"
  "\<not> IS_URL_CHAR (CHR '' '')" "\<not> IS_URL_CHAR (CHR 0x0D)" "\<not> IS_URL_CHAR (CHR 0x0A)"
  "\<not> IS_URL_CHAR (CHR 0x09)" "\<not> IS_URL_CHAR (CHR 0x0C)" "\<not> IS_URL_CHAR (CHR ''?'')" "\<not> IS_URL_CHAR (CHR ''#'')"
  "IS_USERINFO_CHAR (CHR '':'')"
  by code_simp+

lemma host_is_userinfo: "IS_HOST_CHAR c \<Longrightarrow> IS_USERINFO_CHAR c"
  by (auto simp: IS_HOST_CHAR_def IS_USERINFO_CHAR_def IS_MARK_def)

lemma num_is_userinfo: "IS_NUM c \<Longrightarrow> IS_USERINFO_CHAR c"
  by (auto simp: IS_USERINFO_CHAR_def IS_ALPHANUM_def)

text \<open>No character of a class is one of the bytes that end a URL.\<close>

definition url_space :: "char \<Rightarrow> bool" where
  "url_space c \<longleftrightarrow> c = CHR '' '' \<or> c = CHR 0x0D \<or> c = CHR 0x0A \<or> c = CHR 0x09 \<or> c = CHR 0x0C"

lemma class_not_space:
  "IS_ALPHA c \<Longrightarrow> \<not> url_space c" "IS_USERINFO_CHAR c \<Longrightarrow> \<not> url_space c" "query_char c \<Longrightarrow> \<not> url_space c"
  by (auto simp: url_space_def query_char_def)

lemma parse_url_char_not_space:
  "\<not> url_space c \<Longrightarrow> parse_url_char s_req_spaces_before_url c =
     (if c = CHR ''/'' \<or> c = CHR ''*'' then s_req_path else if IS_ALPHA c then s_req_schema else s_dead)"
  "\<not> url_space c \<Longrightarrow> parse_url_char s_req_schema c =
     (if IS_ALPHA c then s_req_schema else if c = CHR '':'' then s_req_schema_slash else s_dead)"
  "\<not> url_space c \<Longrightarrow> parse_url_char s_req_server_start c = server_char c"
  "\<not> url_space c \<Longrightarrow> parse_url_char s_req_server c = server_char c"
  "\<not> url_space c \<Longrightarrow> c \<noteq> CHR ''@'' \<Longrightarrow> parse_url_char s_req_server_with_at c = server_char c"
  "\<not> url_space c \<Longrightarrow> parse_url_char s_req_query_string_start c =
     (if query_char c then s_req_query_string else if c = CHR ''#'' then s_req_fragment_start else s_dead)"
  "\<not> url_space c \<Longrightarrow> parse_url_char s_req_query_string c =
     (if query_char c then s_req_query_string else if c = CHR ''#'' then s_req_fragment_start else s_dead)"
  "\<not> url_space c \<Longrightarrow> parse_url_char s_req_fragment_start c =
     (if query_char c then s_req_fragment else if c = CHR ''#'' then s_req_fragment_start else s_dead)"
  "\<not> url_space c \<Longrightarrow> parse_url_char s_req_fragment c =
     (if query_char c \<or> c = CHR ''#'' then s_req_fragment else s_dead)"
  by (simp_all add: parse_url_char_def url_space_def query_char_def)

lemma schema_start: "IS_ALPHA c \<Longrightarrow> parse_url_char s_req_spaces_before_url c = s_req_schema"
  using class_not_space(1) [of c] class_facts(6,7) by (auto simp: parse_url_char_not_space)

lemma schema_more: "IS_ALPHA c \<Longrightarrow> parse_url_char s_req_schema c = s_req_schema"
  using class_not_space(1) [of c] by (simp add: parse_url_char_not_space)

lemma userinfo_server_char: "IS_USERINFO_CHAR c \<Longrightarrow> server_char c = s_req_server"
  unfolding server_char_def by (metis class_facts(14,15,16))

lemma server_more:
  "IS_USERINFO_CHAR c \<Longrightarrow> s \<in> {s_req_server_start, s_req_server, s_req_server_with_at} \<Longrightarrow>
     parse_url_char s c = s_req_server"
proof -
  assume u: "IS_USERINFO_CHAR c" and s: "s \<in> {s_req_server_start, s_req_server, s_req_server_with_at}"
  have "c \<noteq> CHR ''@''" using u by (metis class_facts(16))
  with u s class_not_space(2) [OF u] userinfo_server_char [OF u] show ?thesis
    by (elim insertE emptyE) (simp_all add: parse_url_char_not_space)
qed

lemma path_more: "IS_URL_CHAR c \<Longrightarrow> parse_url_char s_req_path c = s_req_path"
  using class_not_space(3) [of c] by (simp add: parse_url_char_def query_char_def url_space_def)

lemma query_more:
  "query_char c \<Longrightarrow> s \<in> {s_req_query_string_start, s_req_query_string} \<Longrightarrow> parse_url_char s c = s_req_query_string"
  using class_not_space(3) [of c] by (elim insertE emptyE) (simp_all add: parse_url_char_not_space)

lemma fragment_more:
  "query_char c \<Longrightarrow> s \<in> {s_req_fragment_start, s_req_fragment} \<Longrightarrow> parse_url_char s c = s_req_fragment"
  using class_not_space(3) [of c] by (elim insertE emptyE) (simp_all add: parse_url_char_not_space)

lemma delimiter_chars [simp]:
  "parse_url_char s_req_schema (CHR '':'') = s_req_schema_slash"
  "parse_url_char s_req_schema_slash (CHR ''/'') = s_req_schema_slash_slash"
  "parse_url_char s_req_schema_slash_slash (CHR ''/'') = s_req_server_start"
  "parse_url_char s_req_server (CHR ''@'') = s_req_server_with_at"
  "parse_url_char s_req_server (CHR ''/'') = s_req_path"
  "parse_url_char s_req_path (CHR ''?'') = s_req_query_string_start"
  "parse_url_char s_req_path (CHR ''#'') = s_req_fragment_start"
  "parse_url_char s_req_query_string (CHR ''#'') = s_req_fragment_start"
  by (simp_all add: parse_url_char_def server_char_def)

section \<open>Runs of one field\<close>

definition u_span :: "url_field \<Rightarrow> nat \<Rightarrow> nat \<Rightarrow> c_http_parser_url \<Rightarrow> c_http_parser_url" where
  "u_span f i n u = u_mark f (u_set_len f (word_of_nat n) (u_set_off f i u))"

lemma u_span_access [simp]:
  "u_has (u_span f i n u) g \<longleftrightarrow> g = f \<or> u_has u g"
  "u_off (u_span f i n u) = (u_off u)(f := word_of_nat i)"
  "u_len (u_span f i n u) = (u_len u)(f := word_of_nat n)"
  by (simp_all add: u_span_def)

lemma u_span_inc: "u_inc_len f (u_span f i n u) = u_span f i (n + 1) u"
  by (simp add: u_span_def u_inc_len_def u_mark_def u_set_len_def u_set_off_def add.commute)

lemma u_span_new: "field_step f old i u = (if Some f = old then u_inc_len f u else u_span f i 1 u)"
  by (simp add: field_step_def u_span_def)

text \<open>All characters of \<open>cs\<close> lead to states of field \<open>uf\<close>.\<close>

fun stays :: "url_field \<Rightarrow> url_state \<Rightarrow> string \<Rightarrow> bool" where
  "stays uf s [] = True"
| "stays uf s (c # cs) = (action_of (parse_url_char s c) = In_field uf \<and> stays uf (parse_url_char s c) cs)"

fun saw_at :: "url_state \<Rightarrow> string \<Rightarrow> bool" where
  "saw_at s [] = False"
| "saw_at s (c # cs) = (parse_url_char s c = s_req_server_with_at \<or> saw_at (parse_url_char s c) cs)"

lemma stays_append: "stays uf s (as @ bs) \<longleftrightarrow> stays uf s as \<and> stays uf (foldl parse_url_char s as) bs"
  by (induction as arbitrary: s) auto

lemma saw_at_append: "saw_at s (as @ bs) \<longleftrightarrow> saw_at s as \<or> saw_at (foldl parse_url_char s as) bs"
  by (induction as arbitrary: s) auto

lemma url_loop_more:
  "stays uf s cs \<Longrightarrow>
   url_loop (cs @ rest) j s (Some uf) fa (u_span uf i n u) =
   url_loop rest (j + length cs) (foldl parse_url_char s cs) (Some uf) (fa \<or> saw_at s cs) (u_span uf i (n + length cs) u)"
proof (induction cs arbitrary: s j fa n)
  case (Cons c cs)
  from Cons.IH [of "parse_url_char s c" "j + 1" "parse_url_char s c = s_req_server_with_at \<or> fa" "n + 1"] Cons.prems
  show ?case by (simp add: Let_def u_span_new u_span_inc disj_ac)
qed simp

lemma url_loop_field:
  assumes "stays uf s cs" and "cs \<noteq> []" and "old \<noteq> Some uf"
  shows "url_loop (cs @ rest) i s old fa u =
   url_loop rest (i + length cs) (foldl parse_url_char s cs) (Some uf) (fa \<or> saw_at s cs) (u_span uf i (length cs) u)"
proof -
  obtain c cs' where cs: "cs = c # cs'" using assms(2) by (cases cs) auto
  from url_loop_more [of uf "parse_url_char s c" cs' rest "i + 1" "parse_url_char s c = s_req_server_with_at \<or> fa" i 1 u]
  show ?thesis using assms(1,3) cs by (auto simp: Let_def u_span_new disj_ac)
qed

lemma stays_same:
  assumes "\<And>c. c \<in> set cs \<Longrightarrow> parse_url_char s c = s" and "action_of s = In_field uf"
  shows "stays uf s cs \<and> foldl parse_url_char s cs = s \<and> (s \<noteq> s_req_server_with_at \<longrightarrow> \<not> saw_at s cs)"
  using assms(1) by (induction cs) (auto simp: assms(2))

lemma stays_first:
  assumes "nonempty_all P cs" and "\<And>c. P c \<Longrightarrow> parse_url_char s c = t" and "\<And>c. P c \<Longrightarrow> parse_url_char t c = t"
    and "action_of t = In_field uf" and "t \<noteq> s_req_server_with_at"
  shows "stays uf s cs \<and> foldl parse_url_char s cs = t \<and> \<not> saw_at s cs"
proof -
  obtain c cs' where cs: "cs = c # cs'" "P c" "list_all P cs'"
    using assms(1) by (cases cs) (auto simp: nonempty_all_def)
  have "\<And>d. d \<in> set cs' \<Longrightarrow> parse_url_char t d = t" using cs(3) assms(3) by (auto simp: list_all_iff)
  from stays_same [OF this assms(4)] cs assms(2,4,5) show ?thesis by simp
qed


lemma authority_run:
  assumes ok: "up_ok p"
  shows "stays UF_HOST s_req_server_start (print_authority p) \<and> print_authority p \<noteq> [] \<and>
     foldl parse_url_char s_req_server_start (print_authority p) = s_req_server \<and>
     (saw_at s_req_server_start (print_authority p) \<longleftrightarrow> up_userinfo p \<noteq> None)"
proof -
  let ?hp = "up_host p @ print_port p"
  have "nonempty_all IS_USERINFO_CHAR ?hp"
    using ok host_is_userinfo num_is_userinfo
    by (cases "up_port p") (auto simp: up_ok_def nonempty_all_def print_port_def list_all_iff)
  then have hp: "stays UF_HOST s ?hp \<and> foldl parse_url_char s ?hp = s_req_server \<and> \<not> saw_at s ?hp"
    if "s \<in> {s_req_server_start, s_req_server, s_req_server_with_at}" for s
    using that server_more
    by (intro stays_first [where P = IS_USERINFO_CHAR and t = s_req_server]) auto
  show ?thesis
  proof (cases "up_userinfo p")
    case None
    then show ?thesis using hp [of s_req_server_start] ok
      by (auto simp: print_authority_def print_userinfo_def up_ok_def nonempty_all_def)
  next
    case (Some ui)
    then have "nonempty_all IS_USERINFO_CHAR ui" using ok by (simp add: up_ok_def)
    then have "stays UF_HOST s_req_server_start ui \<and> foldl parse_url_char s_req_server_start ui = s_req_server"
      using stays_first [of IS_USERINFO_CHAR ui s_req_server_start s_req_server UF_HOST] server_more by auto
    with Some hp [of s_req_server_with_at] show ?thesis
      by (simp add: print_authority_def print_userinfo_def stays_append saw_at_append)
  qed
qed

definition u_opt :: "url_field \<Rightarrow> nat \<Rightarrow> string option \<Rightarrow> c_http_parser_url \<Rightarrow> c_http_parser_url" where
  "u_opt f i x u = (case x of None \<Rightarrow> u | Some s \<Rightarrow> u_span f i (length s) u)"

lemma u_opt_access [simp]:
  "u_has (u_opt f i x u) g \<longleftrightarrow> g = f \<and> x \<noteq> None \<or> u_has u g"
  "g \<noteq> f \<Longrightarrow> u_off (u_opt f i x u) g = u_off u g" "g \<noteq> f \<Longrightarrow> u_len (u_opt f i x u) g = u_len u g"
  "u_opt f i None u = u" "u_off (u_opt f i (Some t) u) f = word_of_nat i" "u_len (u_opt f i (Some t) u) f = word_of_nat (length t)"
  by (auto simp: u_opt_def split: option.split)

text \<open>Positions of the components in the printed URL.\<close>

definition off_host :: "url_parts \<Rightarrow> nat" where
  "off_host p = length (up_scheme p) + 3"

definition off_path :: "url_parts \<Rightarrow> nat" where
  "off_path p = off_host p + length (print_authority p)"

definition off_query :: "url_parts \<Rightarrow> nat" where
  "off_query p = off_path p + length (up_path p) + 1"

definition off_fragment :: "url_parts \<Rightarrow> nat" where
  "off_fragment p = off_path p + length (up_path p) + length (print_opt ''?'' (up_query p)) + 1"

definition u_scanned :: "url_parts \<Rightarrow> c_http_parser_url \<Rightarrow> c_http_parser_url" where
  "u_scanned p u = u_opt UF_FRAGMENT (off_fragment p) (up_fragment p)
     (u_opt UF_QUERY (off_query p) (up_query p)
     (u_span UF_PATH (off_path p) (length (up_path p))
     (u_span UF_HOST (off_host p) (length (print_authority p))
     (u_span UF_SCHEMA 0 (length (up_scheme p)) u))))"

lemma url_loop_fragment:
  assumes "pred_option (nonempty_all query_char) x" and "s = s_req_path \<or> s = s_req_query_string"
    and "old \<noteq> Some UF_FRAGMENT"
  shows "url_loop (print_opt ''#'' x) i s old fa u = Inr (Some fa, u_opt UF_FRAGMENT (i + 1) x u)"
proof (cases x)
  case (Some t)
  then have "stays UF_FRAGMENT s_req_fragment_start t \<and> \<not> saw_at s_req_fragment_start t \<and> t \<noteq> []"
    using stays_first [of query_char t s_req_fragment_start s_req_fragment UF_FRAGMENT] fragment_more assms(1)
    by (auto simp: nonempty_all_def)
  then show ?thesis
    using Some assms(2,3) url_loop_field [of UF_FRAGMENT s_req_fragment_start t old "[]" "i + 1" fa u]
    by (auto simp: print_opt_def u_opt_def Let_def)
qed (simp add: print_opt_def u_opt_def)

lemma url_loop_query:
  assumes "pred_option (nonempty_all query_char) x" and "old = Some UF_PATH"
  shows "\<exists>s o'. url_loop (print_opt ''?'' x @ rest) i s_req_path old fa u =
     url_loop rest (i + length (print_opt ''?'' x)) s o' fa (u_opt UF_QUERY (i + 1) x u) \<and>
     (s = s_req_path \<or> s = s_req_query_string) \<and> o' \<noteq> Some UF_FRAGMENT"
proof (cases x)
  case None
  then show ?thesis using assms(2) by (auto simp: print_opt_def u_opt_def)
next
  case (Some t)
  then have "stays UF_QUERY s_req_query_string_start t \<and> \<not> saw_at s_req_query_string_start t \<and> t \<noteq> [] \<and>
      foldl parse_url_char s_req_query_string_start t = s_req_query_string"
    using stays_first [of query_char t s_req_query_string_start s_req_query_string UF_QUERY] query_more assms(1)
    by (auto simp: nonempty_all_def)
  then show ?thesis
    using Some assms(2) url_loop_field [of UF_QUERY s_req_query_string_start t old rest "i + 1" fa u]
    by (auto simp: print_opt_def u_opt_def Let_def)
qed

lemma url_loop_print:
  assumes ok: "up_ok p"
  shows "url_loop (print_url p) 0 s_req_spaces_before_url None False u = Inr (Some (up_userinfo p \<noteq> None), u_scanned p u)"
proof -
  let ?tail = "print_opt ''?'' (up_query p) @ print_opt ''#'' (up_fragment p)"
  let ?u1 = "u_span UF_SCHEMA 0 (length (up_scheme p)) u"
  let ?u2 = "u_span UF_HOST (off_host p) (length (print_authority p)) ?u1"
  let ?u3 = "u_span UF_PATH (off_path p) (length (up_path p)) ?u2" and ?fa = "up_userinfo p \<noteq> None"
  have sch: "stays UF_SCHEMA s_req_spaces_before_url (up_scheme p) \<and> \<not> saw_at s_req_spaces_before_url (up_scheme p) \<and>
      up_scheme p \<noteq> [] \<and> foldl parse_url_char s_req_spaces_before_url (up_scheme p) = s_req_schema"
    using stays_first [of IS_ALPHA "up_scheme p" s_req_spaces_before_url s_req_schema UF_SCHEMA] schema_start schema_more ok
    by (auto simp: up_ok_def nonempty_all_def)
  have "url_loop (print_url p) 0 s_req_spaces_before_url None False u =
        url_loop (print_authority p @ up_path p @ ?tail) (off_host p) s_req_server_start (Some UF_SCHEMA) False ?u1"
    using sch url_loop_field [of UF_SCHEMA s_req_spaces_before_url "up_scheme p" None _ 0 False u]
    by (simp add: print_url_def Let_def off_host_def numeral_3_eq_3)
  also have "\<dots> = url_loop (up_path p @ ?tail) (off_path p) s_req_server (Some UF_HOST) ?fa ?u2"
    using authority_run [OF ok]
      url_loop_field [of UF_HOST s_req_server_start "print_authority p" "Some UF_SCHEMA" "up_path p @ ?tail" "off_host p" False ?u1]
    by (simp add: off_path_def)
  also have "\<dots> = url_loop ?tail (off_path p + length (up_path p)) s_req_path (Some UF_PATH) ?fa ?u3"
  proof -
    obtain t where t: "up_path p = CHR ''/'' # t" "list_all IS_URL_CHAR t" using ok by (auto simp: up_ok_def)
    have "stays UF_PATH s_req_path t \<and> foldl parse_url_char s_req_path t = s_req_path \<and> \<not> saw_at s_req_path t"
      using stays_same [of t s_req_path UF_PATH] path_more t(2) by (auto simp: list_all_iff)
    then show ?thesis
      using t(1) url_loop_field [of UF_PATH s_req_server "up_path p" "Some UF_HOST" ?tail "off_path p" ?fa ?u2] by simp
  qed
  also have "\<dots> = Inr (Some ?fa, u_scanned p u)"
  proof -
    have "pred_option (nonempty_all query_char) (up_query p)" using ok by (simp add: up_ok_def)
    from url_loop_query [OF this refl, of "print_opt ''#'' (up_fragment p)" "off_path p + length (up_path p)" ?fa ?u3]
    obtain s o' where s: "url_loop ?tail (off_path p + length (up_path p)) s_req_path (Some UF_PATH) ?fa ?u3 =
        url_loop (print_opt ''#'' (up_fragment p)) (off_path p + length (up_path p) + length (print_opt ''?'' (up_query p)))
          s o' ?fa (u_opt UF_QUERY (off_query p) (up_query p) ?u3)"
      "s = s_req_path \<or> s = s_req_query_string" "o' \<noteq> Some UF_FRAGMENT" by (auto simp: off_query_def)
    have "pred_option (nonempty_all query_char) (up_fragment p)" using ok by (simp add: up_ok_def)
    from url_loop_fragment [OF this s(2,3)] s(1) show ?thesis by (simp add: u_scanned_def off_fragment_def)
  qed
  finally show ?thesis .
qed

section \<open>The host part\<close>

lemma host_char_facts:
  "IS_USERINFO_CHAR c \<Longrightarrow> c_http_parse_host_char s_http_userinfo_start c = s_http_userinfo"
  "IS_USERINFO_CHAR c \<Longrightarrow> c_http_parse_host_char s_http_userinfo c = s_http_userinfo"
  "c_http_parse_host_char s_http_userinfo (CHR ''@'') = s_http_host_start"
  "IS_HOST_CHAR c \<Longrightarrow> c_http_parse_host_char s_http_host_start c = s_http_host"
  "IS_HOST_CHAR c \<Longrightarrow> c_http_parse_host_char s_http_host c = s_http_host"
  "c_http_parse_host_char s_http_host (CHR '':'') = s_http_host_port_start"
  "IS_NUM c \<Longrightarrow> c_http_parse_host_char s_http_host_port_start c = s_http_host_port"
  "IS_NUM c \<Longrightarrow> c_http_parse_host_char s_http_host_port c = s_http_host_port"
  using class_facts(16,18) by (auto simp: c_http_parse_host_char_def)

lemma host_loop_ui_more:
  "list_all IS_USERINFO_CHAR cs \<Longrightarrow>
   host_loop (cs @ rest) j s_http_userinfo (u_span UF_USERINFO i n u) =
   host_loop rest (j + length cs) s_http_userinfo (u_span UF_USERINFO i (n + length cs) u)"
  by (induction cs arbitrary: j n) (auto simp: host_char_facts host_step_def u_span_inc Let_def)

lemma host_loop_ui:
  assumes "nonempty_all IS_USERINFO_CHAR cs"
  shows "host_loop (cs @ rest) i s_http_userinfo_start u =
   host_loop rest (i + length cs) s_http_userinfo (u_span UF_USERINFO i (length cs) u)"
proof -
  have "u_mark UF_USERINFO (u_set_len UF_USERINFO 0 (u_set_off UF_USERINFO i u)) = u_span UF_USERINFO i 0 u"
    by (simp add: u_span_def)
  then show ?thesis using assms host_loop_ui_more [of "tl cs" rest "i + 1" i 1 u]
    by (cases cs) (auto simp: nonempty_all_def host_char_facts host_step_def u_span_inc Let_def)
qed

lemma host_loop_port_more:
  "list_all IS_NUM cs \<Longrightarrow>
   host_loop cs j s_http_host_port (u_span UF_PORT i n u) = (Some s_http_host_port, u_span UF_PORT i (n + length cs) u)"
  by (induction cs arbitrary: j n) (auto simp: host_char_facts host_step_def u_span_inc Let_def)

lemma host_loop_port:
  assumes "nonempty_all IS_NUM cs"
  shows "host_loop cs i s_http_host_port_start u = (Some s_http_host_port, u_span UF_PORT i (length cs) u)"
proof -
  have "u_mark UF_PORT (u_set_len UF_PORT 0 (u_set_off UF_PORT i u)) = u_span UF_PORT i 0 u"
    by (simp add: u_span_def)
  then show ?thesis using assms host_loop_port_more [of "tl cs" "i + 1" i 1 u]
    by (cases cs) (auto simp: nonempty_all_def host_char_facts host_step_def u_span_inc Let_def)
qed

definition u_host :: "nat \<Rightarrow> nat \<Rightarrow> c_http_parser_url \<Rightarrow> c_http_parser_url" where
  "u_host i n u = u_set_len UF_HOST (word_of_nat n) (u_set_off UF_HOST i u)"

lemma u_host_inc: "u_inc_len UF_HOST (u_host i n u) = u_host i (n + 1) u"
  by (simp add: u_host_def u_set_len_def u_set_off_def u_inc_len_def add.commute)

lemma host_loop_host_more:
  "list_all IS_HOST_CHAR cs \<Longrightarrow>
   host_loop (cs @ rest) j s_http_host (u_host i n u) = host_loop rest (j + length cs) s_http_host (u_host i (n + length cs) u)"
  by (induction cs arbitrary: j n) (auto simp: host_char_facts host_step_def u_host_inc Let_def)

lemma host_loop_host:
  assumes "nonempty_all IS_HOST_CHAR cs" and "u_len u UF_HOST = 0"
  shows "host_loop (cs @ rest) i s_http_host_start u = host_loop rest (i + length cs) s_http_host (u_host i (length cs) u)"
proof -
  have "u_inc_len UF_HOST (u_set_off UF_HOST i u) = u_host i 1 u"
    using assms(2) by (simp add: u_host_def u_set_len_def u_set_off_def u_inc_len_def)
  then show ?thesis using assms(1) host_loop_host_more [of "tl cs" rest "i + 1" i 1 u]
    by (cases cs) (auto simp: nonempty_all_def host_char_facts host_step_def Let_def)
qed

lemma u_host_access [simp]:
  "u_has (u_host i n u) g = u_has u g" "u_off (u_host i n u) = (u_off u)(UF_HOST := word_of_nat i)"
  "u_len (u_host i n u) = (u_len u)(UF_HOST := word_of_nat n)"
  by (simp_all add: u_host_def)

definition off_name :: "url_parts \<Rightarrow> nat" where
  "off_name p = off_host p + length (print_userinfo p)"

definition u_split :: "url_parts \<Rightarrow> c_http_parser_url \<Rightarrow> c_http_parser_url" where
  "u_split p u = u_opt UF_PORT (off_name p + length (up_host p) + 1) (up_port p)
     (u_host (off_name p) (length (up_host p)) (u_opt UF_USERINFO (off_host p) (up_userinfo p) (u_set_len UF_HOST 0 u)))"

lemma host_loop_print:
  assumes ok: "up_ok p"
  shows "\<exists>s. host_loop (print_authority p) (off_host p)
       (if up_userinfo p \<noteq> None then s_http_userinfo_start else s_http_host_start) (u_set_len UF_HOST 0 u) =
     (Some s, u_split p u) \<and> host_end_ok s"
proof -
  let ?u0 = "u_set_len UF_HOST 0 u"
  let ?u1 = "u_opt UF_USERINFO (off_host p) (up_userinfo p) ?u0"
  let ?u2 = "u_host (off_name p) (length (up_host p)) ?u1"
  have "host_loop (print_authority p) (off_host p)
       (if up_userinfo p \<noteq> None then s_http_userinfo_start else s_http_host_start) ?u0 =
     host_loop (up_host p @ print_port p) (off_name p) s_http_host_start ?u1"
    using ok by (cases "up_userinfo p")
      (auto simp: print_authority_def print_userinfo_def off_name_def u_opt_def up_ok_def host_loop_ui
        host_char_facts host_step_def Let_def)
  also have "\<dots> = host_loop (print_port p) (off_name p + length (up_host p)) s_http_host ?u2"
    using ok by (intro host_loop_host) (auto simp: up_ok_def u_opt_def split: option.split)
  finally have eq: "host_loop (print_authority p) (off_host p)
       (if up_userinfo p \<noteq> None then s_http_userinfo_start else s_http_host_start) ?u0 =
     host_loop (print_port p) (off_name p + length (up_host p)) s_http_host ?u2" .
  show ?thesis
  proof (cases "up_port p")
    case None
    then show ?thesis using eq by (simp add: print_port_def u_split_def u_opt_def host_end_ok_def)
  next
    case (Some ds)
    then have "nonempty_all IS_NUM ds" using ok by (simp add: up_ok_def)
    with eq Some show ?thesis
      by (simp add: print_port_def u_split_def u_opt_def [of UF_PORT] host_end_ok_def host_char_facts
          host_loop_port host_step_def Let_def)
  qed
qed



section \<open>The port number\<close>

lemma unat_of_char: "unat (of_char c :: 8 word) = of_char c"
proof -
  have "(of_char c :: 8 word) = word_of_nat (of_char c)" by (simp only: of_nat_of_char)
  then show ?thesis by (simp only: unat_of_nat) simp
qed

lemma IS_NUM_code: "IS_NUM c \<longleftrightarrow> 48 \<le> (of_char c :: nat) \<and> (of_char c :: nat) \<le> 57"
  by (simp add: IS_NUM_def word_le_nat_alt unat_of_char)

lemma port_digit_num:
  assumes "IS_NUM c"
  shows "port_digit (word_of_nat n) c = word_of_nat (10 * n + (of_char c - 48))"
proof -
  define d where "d = (of_char c :: nat) - 48"
  have c: "of_char c = 48 + d" "d \<le> 9" using assms by (auto simp: IS_NUM_code d_def)
  have "(of_char c :: 64 word) = word_of_nat (48 + d)" unfolding c(1) [symmetric] by (simp only: of_nat_of_char)
  moreover have "signed_take_bit 7 (word_of_nat (48 + d) :: 64 word) = word_of_nat (48 + d)"
  proof -
    have "d \<in> set [0..<10]" using c(2) by auto
    then show ?thesis by (auto simp: upt_rec)
  qed
  ultimately show ?thesis by (simp add: port_digit_def d_def [symmetric] mult.commute)
qed

lemma port_value_mono: "n \<le> foldl (\<lambda>v c. 10 * v + (of_char c - 48)) (n :: nat) ds"
proof (induction ds arbitrary: n)
  case (Cons c ds)
  have "n \<le> 10 * n + (of_char c - 48)" by simp
  also have "\<dots> \<le> foldl (\<lambda>v c. 10 * v + (of_char c - 48)) (10 * n + (of_char c - 48)) ds" by (rule Cons.IH)
  finally show ?case by simp
qed simp

lemma port_not_big: "m \<le> 65535 \<Longrightarrow> \<not> (word_of_nat m :: 64 word) > 0xffff"
  by (simp add: word_less_nat_alt unat_of_nat)

lemma port_loop_value:
  assumes "list_all IS_NUM ds" and "foldl (\<lambda>v c. 10 * v + (of_char c - 48)) n ds \<le> (65535 :: nat)"
  shows "port_loop ds (word_of_nat n) = Some (word_of_nat (foldl (\<lambda>v c. 10 * v + (of_char c - 48)) n ds))"
  using assms
proof (induction ds arbitrary: n)
  case (Cons c ds)
  let ?n = "10 * n + (of_char c - 48)"
  have "?n \<le> 65535" using port_value_mono [of ?n ds] Cons.prems(2) by simp
  from port_not_big [OF this] Cons.IH [of ?n] Cons.prems show ?case
    by (simp add: port_digit_num Let_def del: of_nat_add of_nat_mult)
qed simp

section \<open>Parsing a printed URL\<close>

lemma buf_part_mid: "buf_part (a @ b @ c) (length a) (length b) = Inr b"
  by (simp add: buf_part_def)

lemma unat_small: "n < 65536 \<Longrightarrow> unat (word_of_nat n :: 16 word) = n"
  by (simp add: unat_of_nat)

text \<open>The printed form cut at each component.\<close>

lemma print_url_splits:
  "\<exists>r. print_url p = (up_scheme p @ ''://'') @ print_authority p @ r"
  "\<exists>a r. print_url p = a @ up_host p @ r \<and> length a = off_name p"
  "\<exists>a r. print_url p = a @ up_path p @ r \<and> length a = off_path p"
  "up_port p = Some ds \<Longrightarrow> \<exists>a r. print_url p = a @ ds @ r \<and> length a = off_name p + length (up_host p) + 1"
  "up_userinfo p = Some ui \<Longrightarrow> \<exists>a r. print_url p = a @ ui @ r \<and> length a = off_host p"
  "up_query p = Some q \<Longrightarrow> \<exists>a r. print_url p = a @ q @ r \<and> length a = off_query p"
  "up_fragment p = Some f \<Longrightarrow> \<exists>a r. print_url p = a @ f @ r \<and> length a = off_fragment p"
proof -
  let ?s = "up_scheme p @ ''://''" and ?q = "print_opt ''?'' (up_query p)" and ?f = "print_opt ''#'' (up_fragment p)"
  note d = print_url_def print_authority_def off_host_def off_name_def off_path_def off_query_def off_fragment_def
  show "\<exists>r. print_url p = ?s @ print_authority p @ r" by (simp add: d)
  show "\<exists>a r. print_url p = a @ up_host p @ r \<and> length a = off_name p"
    by (rule exI [of _ "?s @ print_userinfo p"]) (simp add: d)
  show "\<exists>a r. print_url p = a @ up_path p @ r \<and> length a = off_path p"
    by (rule exI [of _ "?s @ print_authority p"]) (simp add: d)
  show "\<exists>a r. print_url p = a @ ds @ r \<and> length a = off_name p + length (up_host p) + 1" if "up_port p = Some ds"
    by (rule exI [of _ "?s @ print_userinfo p @ up_host p @ '':''"]) (simp add: d print_port_def that)
  show "\<exists>a r. print_url p = a @ ui @ r \<and> length a = off_host p" if "up_userinfo p = Some ui"
    by (rule exI [of _ "?s"]) (simp add: d print_userinfo_def that)
  show "\<exists>a r. print_url p = a @ q @ r \<and> length a = off_query p" if "up_query p = Some q"
    by (rule exI [of _ "?s @ print_authority p @ up_path p @ ''?''"]) (simp add: d print_opt_def that)
  show "\<exists>a r. print_url p = a @ f @ r \<and> length a = off_fragment p" if "up_fragment p = Some f"
    by (rule exI [of _ "?s @ print_authority p @ up_path p @ ?q @ ''#''"]) (simp add: d print_opt_def that)
qed

text \<open>A field at position \<open>i\<close> of length \<open>n\<close> delimits the text \<open>s\<close>.\<close>

definition delimits :: "string \<Rightarrow> c_http_parser_url \<Rightarrow> url_field \<Rightarrow> string \<Rightarrow> bool" where
  "delimits buf u f s \<longleftrightarrow> u_has u f \<and> buf_part buf (unat (u_off u f)) (unat (u_len u f)) = Inr s"

lemma delimitsI:
  assumes "u_has u f" and "u_off u f = word_of_nat i" and "u_len u f = word_of_nat (length s)"
    and "\<exists>a r. buf = a @ s @ r \<and> length a = i" and "length buf < 65536"
  shows "delimits buf u f s"
proof -
  obtain a r where buf: "buf = a @ s @ r" "length a = i" using assms(4) by blast
  have "unat (u_off u f) = length a" "unat (u_len u f) = length s"
    using assms(2,3,5) buf by (auto simp: unat_small)
  then show ?thesis using assms(1) buf(1) buf_part_mid by (simp add: delimits_def)
qed

definition u_final :: "url_parts \<Rightarrow> c_http_parser_url \<Rightarrow> c_http_parser_url" where
  "u_final p u = u_split p (u_scanned p (u\<lparr>u_port := 0, u_field_set := 0\<rparr>))"

lemma u_final_has: "u_has (u_final p u) f \<longleftrightarrow> up_component p f \<noteq> None"
proof -
  have "\<not> u_has (u\<lparr>u_port := 0, u_field_set := 0\<rparr>) f" by (simp add: u_has_def)
  then show ?thesis by (cases f) (simp_all add: u_final_def u_split_def u_scanned_def)
qed

lemma u_final_delimits:
  assumes ok: "up_ok p" and c: "up_component p f = Some s"
  shows "delimits (print_url p) (u_final p u) f s"
proof -
  have len: "length (print_url p) < 65536" using ok by (simp add: up_ok_def)
  have has: "u_has (u_final p u) f" using c by (simp add: u_final_has)
  note d = u_final_def u_split_def u_scanned_def
  show ?thesis
  proof (cases f)
    case UF_SCHEMA
    have "\<exists>a r. print_url p = a @ up_scheme p @ r \<and> length a = 0" by (simp add: print_url_def)
    then show ?thesis using c UF_SCHEMA has by (intro delimitsI [where i = 0, OF has _ _ _ len]) (auto simp: d)
  next
    case UF_HOST
    then show ?thesis using c print_url_splits(2) [of p] by (intro delimitsI [OF has _ _ _ len]) (auto simp: d)
  next
    case UF_PORT
    then show ?thesis using c print_url_splits(4) [of p s] by (intro delimitsI [OF has _ _ _ len]) (auto simp: d)
  next
    case UF_PATH
    then show ?thesis using c print_url_splits(3) [of p] by (intro delimitsI [OF has _ _ _ len]) (auto simp: d)
  next
    case UF_QUERY
    then show ?thesis using c print_url_splits(6) [of p s] by (intro delimitsI [OF has _ _ _ len]) (auto simp: d)
  next
    case UF_FRAGMENT
    then show ?thesis using c print_url_splits(7) [of p s] by (intro delimitsI [OF has _ _ _ len]) (auto simp: d)
  next
    case UF_USERINFO
    then show ?thesis using c print_url_splits(5) [of p s] by (intro delimitsI [OF has _ _ _ len]) (auto simp: d)
  qed
qed

lemma parse_host_print:
  assumes ok: "up_ok p"
  shows "c_http_parse_host (print_url p) (u_scanned p u) (up_userinfo p \<noteq> None) = Inr (0, u_split p (u_scanned p u))"
proof -
  have len: "length (print_url p) < 65536" using ok by (simp add: up_ok_def)
  obtain r where r: "print_url p = (up_scheme p @ ''://'') @ print_authority p @ r" using print_url_splits(1) by blast
  have "off_host p < 65536" "length (print_authority p) < 65536" using len r by (auto simp: off_host_def)
  then have "unat (u_off (u_scanned p u) UF_HOST) = off_host p" "unat (u_len (u_scanned p u) UF_HOST) = length (print_authority p)"
    by (auto simp: u_scanned_def unat_small)
  moreover have "buf_part (print_url p) (off_host p) (length (print_authority p)) = Inr (print_authority p)"
    using r buf_part_mid [of "up_scheme p @ ''://''" "print_authority p" r] by (simp add: off_host_def numeral_3_eq_3)
  moreover have "u_has (u_scanned p u) UF_HOST" by (simp add: u_scanned_def)
  moreover obtain s where "host_loop (print_authority p) (off_host p)
       (if up_userinfo p \<noteq> None then s_http_userinfo_start else s_http_host_start)
       (u_set_len UF_HOST 0 (u_scanned p u)) = (Some s, u_split p (u_scanned p u))" "host_end_ok s"
    using host_loop_print [OF ok] by blast
  ultimately show ?thesis unfolding c_http_parse_host_def Let_def by simp
qed

lemma parse_port_print:
  assumes ok: "up_ok p"
  shows "parse_port (print_url p) (u_final p u) =
     Inr (0, case up_port p of None \<Rightarrow> u_final p u | Some ds \<Rightarrow> (u_final p u)\<lparr>u_port := word_of_nat (port_value ds)\<rparr>)"
proof (cases "up_port p")
  case None
  then show ?thesis by (simp add: parse_port_def u_final_has)
next
  case (Some ds)
  let ?u = "u_final p u"
  have b: "u_has ?u UF_PORT" "buf_part (print_url p) (unat (u_off ?u UF_PORT)) (unat (u_len ?u UF_PORT)) = Inr ds"
    using u_final_delimits [OF ok, of UF_PORT ds u] Some by (auto simp: delimits_def)
  then have le: "unat (u_off ?u UF_PORT) + unat (u_len ?u UF_PORT) \<le> length (print_url p)"
    by (auto simp: buf_part_def split: if_splits)
  have ds: "list_all IS_NUM ds" "port_value ds \<le> 65535" using ok Some by (auto simp: up_ok_def nonempty_all_def)
  then have "port_loop ds 0 = Some (word_of_nat (port_value ds))"
    using port_loop_value [of ds 0] by (simp add: port_value_def)
  moreover have "(ucast (word_of_nat (port_value ds) :: 64 word) :: 16 word) = word_of_nat (port_value ds)"
    using ds(2) by (simp add: unsigned_of_nat take_bit_nat_eq_self)
  ultimately show ?thesis using b le Some by (simp add: parse_port_def Let_def)
qed


lemma parse_print:
  assumes ok: "up_ok p"
  shows "\<exists>v. c_http_parser_parse_url (print_url p) False u = Inr (0, v) \<and>
     (\<forall>f. case up_component p f of None \<Rightarrow> \<not> u_has v f | Some s \<Rightarrow> delimits (print_url p) v f s) \<and>
     u_port v = (case up_port p of None \<Rightarrow> 0 | Some ds \<Rightarrow> word_of_nat (port_value ds)) \<and>
     u_off v = u_off (u_final p u) \<and> u_len v = u_len (u_final p u)"
proof -
  let ?u0 = "u\<lparr>u_port := 0, u_field_set := 0\<rparr>"
  let ?v = "case up_port p of None \<Rightarrow> u_final p u | Some ds \<Rightarrow> (u_final p u)\<lparr>u_port := word_of_nat (port_value ds)\<rparr>"
  have ne: "print_url p \<noteq> []" using ok by (auto simp: up_ok_def print_url_def)
  have host: "u_has (u_scanned p ?u0) UF_HOST" by (simp add: u_scanned_def)
  have port0: "u_port (u_final p u) = 0"
    by (simp add: u_final_def u_split_def u_scanned_def u_opt_def u_span_def u_host_def u_mark_def u_set_len_def
        u_set_off_def split: option.split)
  have "c_http_parser_parse_url (print_url p) False u = Inr (0, ?v)"
    unfolding c_http_parser_parse_url_def Let_def
    using ne url_loop_print [OF ok, of ?u0] host parse_host_print [OF ok, of ?u0] parse_port_print [OF ok, of u]
    by (simp add: u_final_def)
  moreover have "case up_component p f of None \<Rightarrow> \<not> u_has ?v f | Some s \<Rightarrow> delimits (print_url p) ?v f s" for f
    using u_final_has [of p u f] u_final_delimits [OF ok, of f _ u]
    by (auto simp: delimits_def u_has_def split: option.splits)
  moreover have "u_port ?v = (case up_port p of None \<Rightarrow> 0 | Some ds \<Rightarrow> word_of_nat (port_value ds))"
    using port0 by (simp split: option.split)
  moreover have "u_off ?v = u_off (u_final p u)" "u_len ?v = u_len (u_final p u)" by (simp_all split: option.split)
  ultimately show ?thesis by blast
qed

lemma buf_part_NUL: "buf_part buf i n = Inr s \<Longrightarrow> buf_part (buf @ [NUL]) i n = Inr s"
  by (auto simp: buf_part_def split: if_splits)

text \<open>The buffer that \<open>Url_new\<close> makes of a field.\<close>

lemma url_component_ok:
  assumes "case x of None \<Rightarrow> u_len v f = 0 | Some s \<Rightarrow> delimits url v f s \<and> length s < 512"
  shows "\<exists>cb. url_component url v f = Inr cb \<and> cb_wf cb \<and> cb_content cb = (case x of None \<Rightarrow> [] | Some s \<Rightarrow> s)"
proof -
  obtain cb where cb: "Cbuffer_new = Inr cb" "cb_wf cb" "cb_content cb = []" "cb_capacity cb = 256"
    using Cbuffer_new_wf by blast
  show ?thesis
  proof (cases x)
    case None
    then show ?thesis unfolding url_component_def cb(1) using assms cb(2,3) by simp
  next
    case (Some s)
    then have b: "buf_part url (unat (u_off v f)) (unat (u_len v f)) = Inr s" "length s < 512"
      using assms by (auto simp: delimits_def)
    show ?thesis
    proof (cases "u_len v f = 0")
      case True
      then have "s = []" using b(1) by (auto simp: buf_part_def split: if_splits)
      then show ?thesis unfolding url_component_def cb(1) using Some True cb(2,3) by simp
    next
      case False
      have "cb_fits cb (length s)" using b(2) cb cb_content_length [OF cb(2)] by (auto simp: cb_fits_def)
      from Cbuffer_append_ok [OF cb(2) this] cb(3) buf_part_NUL [OF b(1)] False Some show ?thesis
        unfolding url_component_def cb(1) by auto
    qed
  qed
qed

lemma u_final_len_init:
  "up_component p f = None \<Longrightarrow> u_len (u_final p c_http_parser_url_init) f = 0"
  by (cases f) (simp_all add: u_final_def u_split_def u_scanned_def c_http_parser_url_init_def)

definition up_short :: "url_parts \<Rightarrow> bool" where
  "up_short p \<longleftrightarrow> (\<forall>f. pred_option (\<lambda>s. length s < 512) (up_component p f))"

lemma Url_new_print:
  assumes ok: "up_ok p" and short: "up_short p" and nn: "no_nul (print_url p)"
  shows "\<exists>u. Url_new (print_url p) = Inr u \<and>
     cb_content (url_scheme u) = up_scheme p \<and> cb_content (url_host u) = up_host p \<and>
     cb_content (url_path u) = up_path p \<and>
     cb_content (url_port u) = (case up_port p of None \<Rightarrow> [] | Some s \<Rightarrow> s) \<and>
     cb_content (url_query u) = (case up_query p of None \<Rightarrow> [] | Some s \<Rightarrow> s) \<and>
     cb_content (url_fragement u) = (case up_fragment p of None \<Rightarrow> [] | Some s \<Rightarrow> s) \<and>
     cb_content (url_user_info u) = (case up_userinfo p of None \<Rightarrow> [] | Some s \<Rightarrow> s)"
proof -
  obtain v where v: "c_http_parser_parse_url (print_url p) False c_http_parser_url_init = Inr (0, v)"
    "\<And>f. case up_component p f of None \<Rightarrow> \<not> u_has v f | Some s \<Rightarrow> delimits (print_url p) v f s"
    "u_len v = u_len (u_final p c_http_parser_url_init)"
    using parse_print [OF ok, of c_http_parser_url_init] by blast
  have comp: "\<exists>cb. url_component (print_url p) v f = Inr cb \<and> cb_wf cb \<and>
      cb_content cb = (case up_component p f of None \<Rightarrow> [] | Some s \<Rightarrow> s)" for f
  proof (rule url_component_ok)
    show "case up_component p f of None \<Rightarrow> u_len v f = 0 | Some s \<Rightarrow> delimits (print_url p) v f s \<and> length s < 512"
    proof (cases "up_component p f")
      case None
      then show ?thesis using v(3) u_final_len_init [OF None] by simp
    next
      case (Some s)
      have "pred_option (\<lambda>s. length s < 512) (up_component p f)" using short by (simp only: up_short_def)
      then show ?thesis using v(2) [of f] Some by simp
    qed
  qed
  obtain sc where sc: "url_component (print_url p) v UF_SCHEMA = Inr sc" "cb_content sc = up_scheme p" using comp [of UF_SCHEMA] by auto
  obtain ui where ui: "url_component (print_url p) v UF_USERINFO = Inr ui"
    "cb_content ui = (case up_userinfo p of None \<Rightarrow> [] | Some s \<Rightarrow> s)" using comp [of UF_USERINFO] by auto
  obtain ho where ho: "url_component (print_url p) v UF_HOST = Inr ho" "cb_content ho = up_host p" using comp [of UF_HOST] by auto
  obtain pa where pa: "url_component (print_url p) v UF_PATH = Inr pa" "cb_content pa = up_path p" using comp [of UF_PATH] by auto
  obtain po where po: "url_component (print_url p) v UF_PORT = Inr po"
    "cb_content po = (case up_port p of None \<Rightarrow> [] | Some s \<Rightarrow> s)" using comp [of UF_PORT] by auto
  obtain fr where fr: "url_component (print_url p) v UF_FRAGMENT = Inr fr"
    "cb_content fr = (case up_fragment p of None \<Rightarrow> [] | Some s \<Rightarrow> s)" using comp [of UF_FRAGMENT] by auto
  obtain qu where qu: "url_component (print_url p) v UF_QUERY = Inr qu"
    "cb_content qu = (case up_query p of None \<Rightarrow> [] | Some s \<Rightarrow> s)" using comp [of UF_QUERY] by auto
  show ?thesis using v(1) nn sc ui ho pa po fr qu by (simp add: Url_new_def Let_def)
qed

section \<open>Properties\<close>

text \<open>
  C31: The URL parser is total and safe: on every input, of any length, it returns zero or one; no
  assertion fails and no byte outside the input is read, although offsets and lengths are
  truncated to sixteen bits.
\<close>

theorem url_parser_safe:
  "\<exists>rc u'. c_http_parser_parse_url buf is_connect u = Inr (rc, u') \<and> (rc = 0 \<or> rc = 1)"
  by (rule parse_url_total)

text \<open>
  C9: Parsing the printed form of a URL gives its components back: the parser accepts it, the
  fields it marks are exactly the components present, each delimiting the text of its component,
  and the port number is the value of the port digits.
\<close>

theorem url_print_parse:
  assumes "up_ok p"
  shows "\<exists>v. c_http_parser_parse_url (print_url p) False u = Inr (0, v) \<and>
     (\<forall>f. case up_component p f of None \<Rightarrow> \<not> u_has v f | Some s \<Rightarrow> delimits (print_url p) v f s) \<and>
     u_port v = (case up_port p of None \<Rightarrow> 0 | Some ds \<Rightarrow> word_of_nat (port_value ds))"
  using parse_print [OF assms, of u] by blast

definition demo_url :: url_parts where
  "demo_url = \<lparr>up_scheme = ''http'', up_userinfo = Some ''me:pw'', up_host = ''ex.com'', up_port = Some ''8080'',
     up_path = ''/a/b'', up_query = Some ''q=1'', up_fragment = None\<rparr>"

lemma demo_url_ok: "up_ok demo_url"
proof -
  have "nonempty_all IS_ALPHA ''http''" "nonempty_all IS_USERINFO_CHAR ''me:pw''" "nonempty_all IS_HOST_CHAR ''ex.com''"
    "nonempty_all IS_NUM ''8080''" "port_value ''8080'' \<le> 65535" "list_all IS_URL_CHAR ''a/b''"
    "nonempty_all query_char ''q=1''" by code_simp+
  then show ?thesis
    by (simp add: up_ok_def demo_url_def print_url_def print_authority_def print_userinfo_def print_port_def print_opt_def)
qed

theorem url_print_parse_witness:
  "\<exists>v. c_http_parser_parse_url ''http://me:pw@ex.com:8080/a/b?q=1'' False c_http_parser_url_init = Inr (0, v) \<and>
     delimits ''http://me:pw@ex.com:8080/a/b?q=1'' v UF_HOST ''ex.com'' \<and> \<not> u_has v UF_FRAGMENT \<and> u_port v = 8080"
proof -
  have pr: "print_url demo_url = ''http://me:pw@ex.com:8080/a/b?q=1''"
    by (simp add: demo_url_def print_url_def print_authority_def print_userinfo_def print_port_def print_opt_def)
  have pv: "port_value ''8080'' = 8080" by code_simp
  from url_print_parse [OF demo_url_ok, of c_http_parser_url_init] obtain v where
    v: "c_http_parser_parse_url (print_url demo_url) False c_http_parser_url_init = Inr (0, v)"
    "\<And>f. case up_component demo_url f of None \<Rightarrow> \<not> u_has v f | Some s \<Rightarrow> delimits (print_url demo_url) v f s"
    "u_port v = (case up_port demo_url of None \<Rightarrow> 0 | Some ds \<Rightarrow> word_of_nat (port_value ds))" by blast
  show ?thesis using v(1) v(2) [of UF_HOST] v(2) [of UF_FRAGMENT] v(3) unfolding pr
    by (simp add: demo_url_def pv)
qed

text \<open>
  \<open>Url_new\<close> on the printed form of a URL whose components are shorter than 512 bytes builds a
  \<open>Url\<close> whose buffers hold exactly the components.
\<close>

theorem Url_new_components:
  assumes "up_ok p" and "up_short p" and "no_nul (print_url p)"
  shows "\<exists>u. Url_new (print_url p) = Inr u \<and>
     cb_content (url_scheme u) = up_scheme p \<and> cb_content (url_host u) = up_host p \<and>
     cb_content (url_path u) = up_path p \<and>
     cb_content (url_port u) = (case up_port p of None \<Rightarrow> [] | Some s \<Rightarrow> s) \<and>
     cb_content (url_query u) = (case up_query p of None \<Rightarrow> [] | Some s \<Rightarrow> s) \<and>
     cb_content (url_fragement u) = (case up_fragment p of None \<Rightarrow> [] | Some s \<Rightarrow> s) \<and>
     cb_content (url_user_info u) = (case up_userinfo p of None \<Rightarrow> [] | Some s \<Rightarrow> s)"
  by (rule Url_new_print [OF assms])

theorem Url_new_components_witness:
  "\<exists>u. Url_new (print_url demo_url) = Inr u \<and> cb_content (url_host u) = ''ex.com'' \<and> cb_content (url_path u) = ''/a/b''"
proof -
  have short: "up_short demo_url" unfolding up_short_def
  proof
    fix f
    show "pred_option (\<lambda>s. length s < 512) (up_component demo_url f)" by (cases f) (simp_all add: demo_url_def)
  qed
  have nn: "no_nul (print_url demo_url)"
    by (simp add: demo_url_def print_url_def print_authority_def print_userinfo_def print_port_def print_opt_def)
  from Url_new_components [OF demo_url_ok short nn] show ?thesis by (auto simp: demo_url_def)
qed

end
