(* ===== verification/CH_Fifo.thy ===== *)
theory CH_Fifo
  imports CH_Prelude
begin

text \<open>
  The bounded first-in first-out interface.  Two rings of the repository implement it: the
  socket queue of \<open>common/queue.c\<close> and the ready list of \<open>runloop/functor_list.c\<close>.  This
  theory holds the slot arithmetic both share, the abstract queue they refine, and the locale
  \<open>bounded_fifo\<close> in which a whole script of operations is shown to behave as on that queue.
\<close>

section \<open>Slots of a ring\<close>

text \<open>The slots in use of a ring of \<open>m\<close> slots, oldest first: \<open>n\<close> of them from slot \<open>f\<close> on.\<close>

definition ring_slots :: "nat \<Rightarrow> nat \<Rightarrow> nat \<Rightarrow> nat list" where
  "ring_slots m f n = map (\<lambda>i. (f + i) mod m) [0..<n]"

lemma length_ring_slots [simp]: "length (ring_slots m f n) = n"
  by (simp add: ring_slots_def)

lemma ring_slots_0 [simp]: "ring_slots m f 0 = []"
  by (simp add: ring_slots_def)

lemma ring_slots_snoc: "ring_slots m f (Suc n) = ring_slots m f n @ [(f + n) mod m]"
  by (simp add: ring_slots_def)

lemma ring_slots_Suc:
  assumes "f < m"
  shows "ring_slots m f (Suc n) = f # ring_slots m (Suc f mod m) n"
proof -
  have "(f + Suc i) mod m = (Suc f mod m + i) mod m" for i by (simp add: mod_add_left_eq)
  then show ?thesis
    using assms unfolding ring_slots_def upt_conv_Cons [OF zero_less_Suc] map_Suc_upt [symmetric]
    by (simp add: o_def)
qed

lemma ring_slots_lt: "0 < m \<Longrightarrow> k \<in> set (ring_slots m f n) \<Longrightarrow> k < m"
  by (auto simp: ring_slots_def)

lemma mod_add_cancel_lt:
  fixes f i j m :: nat
  assumes "i < m" and "j < m" and "(f + i) mod m = (f + j) mod m"
  shows "i = j"
proof -
  from assms(3) have "int i mod int m = int j mod int m"
    by (metis mod_add_left_eq mod_add_right_eq of_nat_add zmod_int add_left_cancel
        mod_diff_left_eq add_diff_cancel_left' of_nat_mod)
  with assms(1,2) show ?thesis by simp
qed

lemma ring_slot_free:
  assumes "n < m"
  shows "(f + n) mod m \<notin> set (ring_slots m f n)"
proof
  assume "(f + n) mod m \<in> set (ring_slots m f n)"
  then obtain i where "i < n" and "(f + n) mod m = (f + i) mod m" by (auto simp: ring_slots_def)
  with mod_add_cancel_lt [of n m i f] assms show False by simp
qed

section \<open>The abstract queue\<close>

datatype 'a fifo_op = Enq 'a | Deq

text \<open>
  A script run on an implementation, with what the removals returned; and the same script on a
  list that refuses to grow beyond \<open>cap\<close>.
\<close>

fun fifo_exec ::
  "('a \<Rightarrow> 's \<Rightarrow> 's res) \<Rightarrow> ('s \<Rightarrow> ('a \<times> 's) res) \<Rightarrow> 'a fifo_op list \<Rightarrow> 's \<Rightarrow> ('a list \<times> 's) res"
where
  "fifo_exec push pop [] s = Inr ([], s)"
| "fifo_exec push pop (Enq a # ops) s = rbind (push a s) (fifo_exec push pop ops)"
| "fifo_exec push pop (Deq # ops) s =
     rbind (pop s) (\<lambda>(a, s1). rbind (fifo_exec push pop ops s1) (\<lambda>(out, s2). Inr (a # out, s2)))"

fun fifo_model ::
  "nat \<Rightarrow> failure \<Rightarrow> failure \<Rightarrow> 'a fifo_op list \<Rightarrow> 'a list \<Rightarrow> ('a list \<times> 'a list) res"
where
  "fifo_model cap ef ee [] xs = Inr ([], xs)"
| "fifo_model cap ef ee (Enq a # ops) xs =
     (if length xs < cap then fifo_model cap ef ee ops (xs @ [a]) else Inl ef)"
| "fifo_model cap ef ee (Deq # ops) xs =
     (case xs of [] \<Rightarrow> Inl ee
      | x # ys \<Rightarrow> rbind (fifo_model cap ef ee ops ys) (\<lambda>(out, zs). Inr (x # out, zs)))"

fun enqueued :: "'a fifo_op list \<Rightarrow> 'a list" where
  "enqueued [] = []"
| "enqueued (Enq a # ops) = a # enqueued ops"
| "enqueued (Deq # ops) = enqueued ops"

lemma fifo_model_order:
  "fifo_model cap ef ee ops xs = Inr (out, ys) \<Longrightarrow> out @ ys = xs @ enqueued ops"
  by (induction cap ef ee ops xs arbitrary: out ys rule: fifo_model.induct)
     (fastforce simp: rbind_eq_Inr split: if_splits list.splits)+

section \<open>The interface\<close>

locale bounded_fifo =
  fixes invar :: "'s \<Rightarrow> bool"
    and contents :: "'s \<Rightarrow> 'a list"
    and capacity :: "'s \<Rightarrow> nat"
    and push :: "'a \<Rightarrow> 's \<Rightarrow> 's res"
    and pop :: "'s \<Rightarrow> ('a \<times> 's) res"
    and e_full :: failure
    and e_empty :: failure
  assumes push_room: "invar s \<Longrightarrow> length (contents s) < capacity s \<Longrightarrow>
      \<exists>s'. push a s = Inr s' \<and> invar s' \<and> contents s' = contents s @ [a] \<and> capacity s' = capacity s"
    and push_full: "invar s \<Longrightarrow> capacity s \<le> length (contents s) \<Longrightarrow> push a s = Inl e_full"
    and pop_some: "invar s \<Longrightarrow> contents s = x # xs \<Longrightarrow>
      \<exists>s'. pop s = Inr (x, s') \<and> invar s' \<and> contents s' = xs \<and> capacity s' = capacity s"
    and pop_none: "invar s \<Longrightarrow> contents s = [] \<Longrightarrow> pop s = Inl e_empty"
begin

lemma script_refines:
  "invar s \<Longrightarrow>
   (case fifo_exec push pop ops s of Inl e \<Rightarrow> Inl e | Inr (out, s') \<Rightarrow> Inr (out, contents s')) =
   fifo_model (capacity s) e_full e_empty ops (contents s)"
proof (induction ops arbitrary: s)
  case Nil
  then show ?case by simp
next
  case (Cons op ops)
  show ?case
  proof (cases op)
    case (Enq a)
    show ?thesis
    proof (cases "length (contents s) < capacity s")
      case True
      with push_room [OF Cons.prems] obtain s' where s': "push a s = Inr s'" "invar s'"
        "contents s' = contents s @ [a]" "capacity s' = capacity s" by metis
      from Cons.IH [OF s'(2)] True show ?thesis by (simp add: Enq s')
    next
      case False
      then show ?thesis by (simp add: Enq push_full [OF Cons.prems])
    qed
  next
    case Deq
    show ?thesis
    proof (cases "contents s")
      case Nil
      then show ?thesis by (simp add: Deq pop_none [OF Cons.prems])
    next
      case (Cons x xs)
      from pop_some [OF Cons.prems this] obtain s' where s': "pop s = Inr (x, s')" "invar s'"
        "contents s' = xs" "capacity s' = capacity s" by metis
      from Cons.IH [OF s'(2)] show ?thesis
        by (cases "fifo_exec push pop ops s'") (auto simp: Deq s' Cons dest: sym)
    qed
  qed
qed

lemma script_order:
  assumes "invar s" and "fifo_exec push pop ops s = Inr (out, s')"
  shows "out @ contents s' = contents s @ enqueued ops"
  using script_refines [OF assms(1), of ops] assms(2)
  by (auto dest: fifo_model_order sym)

end

end
