(* ===== verification/CH_Queue.thy ===== *)
theory CH_Queue
  imports CH_Fifo
begin

text \<open>
  The socket queue between the accepting thread and the workers (\<open>common/queue.c\<close>): a ring of
  descriptors with 32 bit indices, guarded by a mutex and two condition variables.  The first
  part models the critical sections, the second interleaves any number of threads over them.
\<close>

section \<open>The ring\<close>

type_synonym SocketFD = "32 word"

record Queue =
  q_q :: "SocketFD option list"
  qsize :: "32 word"
  q_max_size :: "32 word"
  q_next :: "32 word"
  q_first :: "32 word"
  q_fullflag :: bool

definition q_size :: "Queue \<Rightarrow> 32 word" where
  "q_size q = (if q_first q \<le> q_next q then q_next q - q_first q
               else (q_next q + q_max_size q) - q_first q)"

definition is_full :: "Queue \<Rightarrow> bool" where
  "is_full q \<longleftrightarrow> q_first q = q_next q \<and> qsize q > 0"

definition is_empty :: "Queue \<Rightarrow> bool" where
  "is_empty q \<longleftrightarrow> q_first q = q_next q \<and> qsize q = 0"

definition advance_next_pointer :: "Queue \<Rightarrow> Queue res" where
  "advance_next_pointer q =
     rbind (c_assert (\<not> is_full q)) (\<lambda>_.
       let q1 = q\<lparr>q_next := (q_next q + 1) mod q_max_size q\<rparr>
       in Inr (q1\<lparr>q_fullflag := is_full q1\<rparr>))"

definition advance_first_pointer :: "Queue \<Rightarrow> Queue res" where
  "advance_first_pointer q =
     rbind (c_assert (\<not> is_empty q)) (\<lambda>_.
       let q1 = q\<lparr>q_first := (q_first q + 1) mod q_max_size q\<rparr>
       in Inr (q1\<lparr>q_fullflag := is_full q1\<rparr>))"

definition q_full :: "Queue \<Rightarrow> bool \<times> Queue" where
  "q_full q = (let q1 = q\<lparr>q_fullflag := is_full q\<rparr> in (q_fullflag q1, q1))"

text \<open>The capacity is a \<open>size_t\<close> stored into 32 bits.\<close>

definition Queue_new_with_capacity :: "64 word \<Rightarrow> Queue" where
  "Queue_new_with_capacity capacity =
     (let m = (ucast capacity :: 32 word)
      in \<lparr>q_q = replicate (unat m) None, qsize = 0, q_max_size = m, q_next = 0, q_first = 0,
          q_fullflag = False\<rparr>)"

definition QUEUE_DEFAULT_SIZE :: "32 word" where
  "QUEUE_DEFAULT_SIZE = 10000"

definition Queue_new :: Queue where
  "Queue_new =
     \<lparr>q_q = replicate (unat QUEUE_DEFAULT_SIZE) None, qsize = 0, q_max_size = QUEUE_DEFAULT_SIZE,
      q_next = 0, q_first = 0, q_fullflag = False\<rparr>"

text \<open>
  Disposing destroys the condition variables and the mutex, releases the structure and clears
  the caller's pointer; the second component is the block of slots, which stays allocated.
\<close>

definition Queue_dispose :: "Queue option \<Rightarrow> (Queue option \<times> SocketFD option list) res" where
  "Queue_dispose qp = (case qp of None \<Rightarrow> Inl NullDeref | Some q \<Rightarrow> Inr (None, q_q q))"

definition Queue_size :: "Queue \<Rightarrow> 64 word" where
  "Queue_size q = ucast (qsize q)"

definition Queue_capacity :: "Queue \<Rightarrow> 64 word" where
  "Queue_capacity q = ucast (q_max_size q)"

text \<open>
  A critical section either finds its condition false and waits on the condition variable, or
  runs to the unlock.  \<open>Section_done v b q\<close> is the second case: the value returned, whether the
  section broadcasts on the other condition variable, and the queue it leaves.
\<close>

datatype 'v qsection = Section_waits | Section_done 'v bool Queue

definition q_load :: "Queue \<Rightarrow> SocketFD res" where
  "q_load q =
     (if unat (q_first q) < length (q_q q)
      then (case q_q q ! unat (q_first q) of None \<Rightarrow> Inl UninitRead | Some v \<Rightarrow> Inr v)
      else Inl MemFault)"

definition q_store :: "SocketFD \<Rightarrow> Queue \<Rightarrow> Queue res" where
  "q_store sock q =
     (if unat (q_next q) < length (q_q q)
      then Inr (q\<lparr>q_q := (q_q q)[unat (q_next q) := Some sock]\<rparr>) else Inl MemFault)"

definition remove_section :: "Queue \<Rightarrow> SocketFD qsection res" where
  "remove_section q =
     (if is_empty q then Inr Section_waits
      else rbind (q_load q) (\<lambda>r.
           rbind (advance_first_pointer q) (\<lambda>q1.
             let q2 = q1\<lparr>qsize := qsize q1 - 1\<rparr>
             in Inr (Section_done r (qsize q2 < q_max_size q2) q2))))"

definition add_section :: "SocketFD \<Rightarrow> Queue \<Rightarrow> unit qsection res" where
  "add_section sock q =
     (if qsize q = q_max_size q then Inr Section_waits
      else rbind (q_store sock q) (\<lambda>q1.
           rbind (advance_next_pointer q1) (\<lambda>q2.
             let q3 = q2\<lparr>qsize := qsize q2 + 1\<rparr>
             in Inr (Section_done () (qsize q3 = 1) q3))))"

text \<open>The calls of a single thread: nobody else signals, so waiting never returns.\<close>

definition Queue_remove :: "Queue \<Rightarrow> (SocketFD \<times> Queue) res" where
  "Queue_remove q =
     rbind (remove_section q) (\<lambda>s. case s of Section_waits \<Rightarrow> Inl NoReturn
                                          | Section_done r b q' \<Rightarrow> Inr (r, q'))"

definition Queue_add :: "SocketFD \<Rightarrow> Queue \<Rightarrow> Queue res" where
  "Queue_add sock q =
     rbind (add_section sock q) (\<lambda>s. case s of Section_waits \<Rightarrow> Inl NoReturn
                                            | Section_done u b q' \<Rightarrow> Inr q')"

section \<open>Invariant and contents\<close>

definition q_slots :: "Queue \<Rightarrow> nat list" where
  "q_slots q = ring_slots (unat (q_max_size q)) (unat (q_first q)) (unat (qsize q))"

definition Queue_wf :: "Queue \<Rightarrow> bool" where
  "Queue_wf q \<longleftrightarrow>
     length (q_q q) = unat (q_max_size q) \<and> unat (qsize q) \<le> unat (q_max_size q) \<and>
     (0 < unat (q_max_size q) \<longrightarrow>
        unat (q_first q) < unat (q_max_size q) \<and>
        unat (q_next q) = (unat (q_first q) + unat (qsize q)) mod unat (q_max_size q)) \<and>
     (unat (q_max_size q) = 0 \<longrightarrow> q_first q = q_next q) \<and>
     (\<forall>k\<in>set (q_slots q). q_q q ! k \<noteq> None)"

definition q_contents :: "Queue \<Rightarrow> SocketFD list" where
  "q_contents q = map (\<lambda>k. the (q_q q ! k)) (q_slots q)"

lemma length_q_contents [simp]: "length (q_contents q) = unat (qsize q)"
  by (simp add: q_contents_def q_slots_def)

lemma Queue_new_with_capacity_facts:
  "Queue_wf (Queue_new_with_capacity c)" "q_contents (Queue_new_with_capacity c) = []"
  by (auto simp: Queue_new_with_capacity_def Queue_wf_def q_contents_def q_slots_def Let_def)

lemma Queue_new_facts: "Queue_wf Queue_new" "q_contents Queue_new = []"
  by (auto simp: Queue_new_def Queue_wf_def q_contents_def q_slots_def QUEUE_DEFAULT_SIZE_def)

lemma unat_succ_lt:
  fixes a m :: "32 word"
  assumes "unat a < unat m"
  shows "unat (a + 1) = Suc (unat a)"
  using assms unsigned_less [of m, where 'a = nat] by (simp add: unat_plus_if')

lemma word_succ_mod:
  fixes a m :: "32 word"
  assumes "unat a < unat m"
  shows "unat ((a + 1) mod m) = Suc (unat a) mod unat m"
  by (simp add: unat_mod unat_succ_lt [OF assms])

lemma is_empty_iff: "Queue_wf q \<Longrightarrow> is_empty q \<longleftrightarrow> qsize q = 0"
  by (cases "unat (q_max_size q) = 0") (auto simp: is_empty_def Queue_wf_def word_unat_eq_iff)

lemma q_contents_Nil_iff: "q_contents q = [] \<longleftrightarrow> qsize q = 0"
  by (metis length_0_conv length_q_contents unat_eq_zero)

text \<open>A ring is full exactly when its two indices meet again.\<close>

lemma is_full_iff:
  assumes "Queue_wf q" and "0 < unat (q_max_size q)"
  shows "is_full q \<longleftrightarrow> qsize q = q_max_size q"
proof -
  from assms have "unat (q_next q) = (unat (q_first q) + unat (qsize q)) mod unat (q_max_size q)"
    and f: "unat (q_first q) < unat (q_max_size q)" and s: "unat (qsize q) \<le> unat (q_max_size q)"
    by (auto simp: Queue_wf_def)
  moreover from f s have "unat (q_first q) = (unat (q_first q) + unat (qsize q)) mod unat (q_max_size q)
      \<longleftrightarrow> unat (qsize q) = 0 \<or> unat (qsize q) = unat (q_max_size q)"
    using mod_add_cancel_lt [of 0 "unat (q_max_size q)" "unat (qsize q)" "unat (q_first q)"]
    by (cases "unat (qsize q) = unat (q_max_size q)") auto
  ultimately show ?thesis using assms(2)
    by (auto simp: is_full_def word_unat_eq_iff word_less_nat_alt)
qed

lemma add_section_full: "qsize q = q_max_size q \<Longrightarrow> add_section v q = Inr Section_waits"
  by (simp add: add_section_def)

lemma remove_section_empty: "Queue_wf q \<Longrightarrow> qsize q = 0 \<Longrightarrow> remove_section q = Inr Section_waits"
  by (simp add: remove_section_def is_empty_iff)

lemma add_section_room:
  assumes wf: "Queue_wf q" and room: "qsize q \<noteq> q_max_size q"
  shows "\<exists>q'. add_section v q = Inr (Section_done () (qsize q = 0) q') \<and> Queue_wf q' \<and>
              q_contents q' = q_contents q @ [v] \<and> q_max_size q' = q_max_size q \<and>
              qsize q' = qsize q + 1"
proof -
  define m f n s where "m = unat (q_max_size q)" and "f = unat (q_first q)"
    and "n = unat (q_next q)" and "s = unat (qsize q)"
  note abb = m_def f_def n_def s_def
  from wf room have sm: "s < m" by (auto simp: Queue_wf_def abb word_unat_eq_iff)
  with wf have f: "f < m" and n: "n = (f + s) mod m" and len: "length (q_q q) = m"
    and filled: "\<forall>k\<in>set (ring_slots m f s). q_q q ! k \<noteq> None"
    by (auto simp: Queue_wf_def q_slots_def abb)
  from f n sm have nm: "n < m" by simp
  have nf: "\<not> is_full q" using is_full_iff [OF wf] room sm by (simp add: abb)
  define q' where "q' = q\<lparr>q_q := (q_q q)[n := Some v], q_next := (q_next q + 1) mod q_max_size q,
     q_fullflag := is_full (q\<lparr>q_q := (q_q q)[n := Some v], q_next := (q_next q + 1) mod q_max_size q\<rparr>),
     qsize := qsize q + 1\<rparr>"
  have "qsize q + 1 = 1 \<longleftrightarrow> qsize q = 0" by simp
  then have step: "add_section v q = Inr (Section_done () (qsize q = 0) q')"
    using room nm len nf
    by (simp add: add_section_def q_store_def advance_next_pointer_def n_def [symmetric] Let_def
        q'_def is_full_def)
  have s': "unat (qsize q') = Suc s" using sm unat_succ_lt [of "qsize q" "q_max_size q"]
    by (simp add: q'_def abb)
  have n': "unat (q_next q') = (f + Suc s) mod m"
    using nm word_succ_mod [of "q_next q" "q_max_size q"] n
    by (simp add: q'_def abb [symmetric] mod_Suc_eq)
  have slots: "q_slots q' = ring_slots m f s @ [n]"
    using s' by (simp add: q_slots_def q'_def abb [symmetric] ring_slots_snoc n)
  have free: "n \<notin> set (ring_slots m f s)" using ring_slot_free [OF sm] n by simp
  have "Queue_wf q'"
    using s' n' sm f len filled nm slots free
    by (auto simp: Queue_wf_def q'_def abb [symmetric] nth_list_update)
  moreover have "q_contents q' = q_contents q @ [v]"
    using free nm len slots
    by (auto simp: q_contents_def q'_def q_slots_def abb [symmetric] nth_list_update)
  ultimately show ?thesis using step by (auto simp: q'_def)
qed

lemma remove_section_some:
  assumes wf: "Queue_wf q" and c: "q_contents q = x # xs"
  shows "\<exists>q'. remove_section q = Inr (Section_done x True q') \<and> Queue_wf q' \<and>
              q_contents q' = xs \<and> q_max_size q' = q_max_size q \<and> qsize q' = qsize q - 1"
proof -
  define m f n s where "m = unat (q_max_size q)" and "f = unat (q_first q)"
    and "n = unat (q_next q)" and "s = unat (qsize q)"
  note abb = m_def f_def n_def s_def
  have "s = length (q_contents q)" by (simp add: s_def)
  then obtain t where t: "s = Suc t" "t = length xs" using c by simp
  have nz: "qsize q \<noteq> 0" using c q_contents_Nil_iff [of q] by auto
  from wf t have sm: "s \<le> m" by (simp add: Queue_wf_def abb)
  with wf t have f: "f < m" and n: "n = (f + s) mod m" and len: "length (q_q q) = m"
    and filled: "\<forall>k\<in>set (ring_slots m f s). q_q q ! k \<noteq> None"
    by (auto simp: Queue_wf_def q_slots_def abb)
  have slots: "ring_slots m f s = f # ring_slots m (Suc f mod m) t"
    using ring_slots_Suc [OF f] t by simp
  with c have x: "x = the (q_q q ! f)" and xs: "xs = map (\<lambda>k. the (q_q q ! k)) (ring_slots m (Suc f mod m) t)"
    by (simp_all add: q_contents_def q_slots_def abb [symmetric])
  have ld: "q_load q = Inr x" using filled slots len f x
    by (auto simp: q_load_def abb [symmetric] split: option.splits)
  define q' where "q' = q\<lparr>q_first := (q_first q + 1) mod q_max_size q,
     q_fullflag := is_full (q\<lparr>q_first := (q_first q + 1) mod q_max_size q\<rparr>), qsize := qsize q - 1\<rparr>"
  have s': "unat (qsize q - 1) = t" using unat_minus_one [OF nz] t by (simp add: abb)
  have "qsize q - 1 < q_max_size q" using s' sm t by (simp add: word_less_nat_alt abb)
  then have step: "remove_section q = Inr (Section_done x True q')"
    using nz ld
    by (simp add: remove_section_def is_empty_iff [OF wf] advance_first_pointer_def Let_def q'_def
        is_full_def)
  have f': "unat (q_first q') = Suc f mod m"
    using f word_succ_mod [of "q_first q" "q_max_size q"] by (simp add: q'_def abb)
  have slots': "q_slots q' = ring_slots m (Suc f mod m) t"
    using s' f' by (simp add: q_slots_def q'_def abb [symmetric])
  have "Queue_wf q'"
    using s' f' sm t n f len filled slots slots'
    by (auto simp: Queue_wf_def q'_def abb [symmetric] mod_add_left_eq)
  moreover have "q_contents q' = xs" using slots' xs by (simp add: q_contents_def q'_def)
  ultimately show ?thesis using step by (auto simp: q'_def)
qed

section \<open>The queue as a bounded first-in first-out store\<close>

interpretation sq: bounded_fifo Queue_wf q_contents "\<lambda>q. unat (q_max_size q)" Queue_add Queue_remove
  NoReturn NoReturn
proof
  fix q :: Queue and a :: SocketFD
  assume wf: "Queue_wf q" and "length (q_contents q) < unat (q_max_size q)"
  then have "qsize q \<noteq> q_max_size q" by (auto simp: word_unat_eq_iff)
  from add_section_room [OF wf this, of a]
  show "\<exists>s'. Queue_add a q = Inr s' \<and> Queue_wf s' \<and> q_contents s' = q_contents q @ [a] \<and>
             unat (q_max_size s') = unat (q_max_size q)"
    by (auto simp: Queue_add_def)
next
  fix q :: Queue and a :: SocketFD
  assume "Queue_wf q" and "unat (q_max_size q) \<le> length (q_contents q)"
  then have "qsize q = q_max_size q" by (auto simp: word_unat_eq_iff Queue_wf_def)
  then show "Queue_add a q = Inl NoReturn" by (simp add: Queue_add_def add_section_full)
next
  fix q :: Queue and x xs
  assume "Queue_wf q" and "q_contents q = x # xs"
  from remove_section_some [OF this]
  show "\<exists>s'. Queue_remove q = Inr (x, s') \<and> Queue_wf s' \<and> q_contents s' = xs \<and>
             unat (q_max_size s') = unat (q_max_size q)"
    by (auto simp: Queue_remove_def)
next
  fix q :: Queue
  assume "Queue_wf q" and "q_contents q = []"
  then show "Queue_remove q = Inl NoReturn"
    by (simp add: Queue_remove_def remove_section_empty q_contents_Nil_iff)
qed

section \<open>Threads\<close>

text \<open>
  Every thread has the calls it still has to make and the condition variable it sleeps on.
  Because the whole of a section runs under the mutex, a step is one section of one thread.
  \<open>s_added\<close> and \<open>s_taken\<close> record the completed calls in the order their sections ran.
\<close>

datatype q_op = Op_add SocketFD | Op_remove

datatype q_wait = Awake | On_not_empty | On_not_full

record q_thread =
  t_todo :: "q_op list"
  t_wait :: q_wait

record q_sys =
  s_queue :: Queue
  s_threads :: "q_thread list"
  s_added :: "SocketFD list"
  s_taken :: "SocketFD list"

definition broadcast :: "q_wait \<Rightarrow> q_thread list \<Rightarrow> q_thread list" where
  "broadcast cv ts = map (\<lambda>t. if t_wait t = cv then t\<lparr>t_wait := Awake\<rparr> else t) ts"

definition set_thread :: "nat \<Rightarrow> q_thread \<Rightarrow> q_sys \<Rightarrow> q_sys" where
  "set_thread i t s = s\<lparr>s_threads := (s_threads s)[i := t]\<rparr>"

definition signal :: "bool \<Rightarrow> q_wait \<Rightarrow> q_sys \<Rightarrow> q_sys" where
  "signal b cv s = (if b then s\<lparr>s_threads := broadcast cv (s_threads s)\<rparr> else s)"

text \<open>One section of thread \<open>i\<close>: it sleeps, or completes its next call and broadcasts.\<close>

definition thread_section :: "nat \<Rightarrow> q_sys \<Rightarrow> q_sys res" where
  "thread_section i s =
     (let t = s_threads s ! i in
      case t_todo t of
        [] \<Rightarrow> Inr s
      | Op_add v # ops \<Rightarrow>
          rbind (add_section v (s_queue s)) (\<lambda>r. case r of
            Section_waits \<Rightarrow> Inr (set_thread i (t\<lparr>t_wait := On_not_full\<rparr>) s)
          | Section_done u b q \<Rightarrow>
              Inr (signal b On_not_empty
                    (set_thread i (t\<lparr>t_todo := ops\<rparr>) (s\<lparr>s_queue := q, s_added := s_added s @ [v]\<rparr>))))
      | Op_remove # ops \<Rightarrow>
          rbind (remove_section (s_queue s)) (\<lambda>r. case r of
            Section_waits \<Rightarrow> Inr (set_thread i (t\<lparr>t_wait := On_not_empty\<rparr>) s)
          | Section_done v b q \<Rightarrow>
              Inr (signal b On_not_full
                    (set_thread i (t\<lparr>t_todo := ops\<rparr>) (s\<lparr>s_queue := q, s_taken := s_taken s @ [v]\<rparr>)))))"

definition runnable :: "q_sys \<Rightarrow> nat \<Rightarrow> bool" where
  "runnable s i \<longleftrightarrow> i < length (s_threads s) \<and> t_wait (s_threads s ! i) = Awake \<and>
                    t_todo (s_threads s ! i) \<noteq> []"

inductive q_run :: "q_sys \<Rightarrow> q_sys \<Rightarrow> bool" where
  q_run_section: "runnable s i \<Longrightarrow> thread_section i s = Inr s' \<Longrightarrow> q_run s s'"

text \<open>\<open>pthread_cond_wait\<close> may also return without a broadcast.\<close>

inductive q_trans :: "q_sys \<Rightarrow> q_sys \<Rightarrow> bool" where
  q_trans_run: "q_run s s' \<Longrightarrow> q_trans s s'"
| q_trans_spurious: "i < length (s_threads s) \<Longrightarrow>
    q_trans s (set_thread i ((s_threads s ! i)\<lparr>t_wait := Awake\<rparr>) s)"

definition q_start :: "64 word \<Rightarrow> q_op list list \<Rightarrow> q_sys" where
  "q_start c progs =
     \<lparr>s_queue = Queue_new_with_capacity c,
      s_threads = map (\<lambda>p. \<lparr>t_todo = p, t_wait = Awake\<rparr>) progs, s_added = [], s_taken = []\<rparr>"

section \<open>Invariant of the threads\<close>

definition sleeps_right :: "Queue \<Rightarrow> q_thread \<Rightarrow> bool" where
  "sleeps_right q t \<longleftrightarrow>
     (t_wait t = On_not_empty \<longrightarrow> qsize q = 0 \<and> (\<exists>ops. t_todo t = Op_remove # ops)) \<and>
     (t_wait t = On_not_full \<longrightarrow> qsize q = q_max_size q \<and> (\<exists>v ops. t_todo t = Op_add v # ops))"

definition op_weight :: "q_op \<Rightarrow> int" where
  "op_weight x = (case x of Op_add v \<Rightarrow> 1 | Op_remove \<Rightarrow> - 1)"

text \<open>Calls that add less calls that remove, over all that is still to do.\<close>

definition due :: "q_thread list \<Rightarrow> int" where
  "due ts = sum_list (map (\<lambda>t. sum_list (map op_weight (t_todo t))) ts)"

definition q_sys_inv :: "32 word \<Rightarrow> int \<Rightarrow> q_sys \<Rightarrow> bool" where
  "q_sys_inv m d s \<longleftrightarrow>
     Queue_wf (s_queue s) \<and> q_max_size (s_queue s) = m \<and>
     s_taken s @ q_contents (s_queue s) = s_added s \<and>
     (\<forall>t\<in>set (s_threads s). sleeps_right (s_queue s) t) \<and>
     due (s_threads s) + int (unat (qsize (s_queue s))) = d"

lemma due_broadcast [simp]: "due (broadcast cv ts) = due ts"
  by (simp add: due_def broadcast_def o_def if_distrib cong: if_cong)

lemma sum_list_update_int:
  "i < length xs \<Longrightarrow> sum_list (xs[i := x]) = sum_list xs - xs ! i + (x :: int)"
  by (induction xs arbitrary: i) (auto split: nat.split)

lemma due_update:
  "i < length ts \<Longrightarrow> due (ts[i := t]) =
     due ts - sum_list (map op_weight (t_todo (ts ! i))) + sum_list (map op_weight (t_todo t))"
  by (simp add: due_def map_update sum_list_update_int)

lemma sleeps_right_awake [simp]: "t_wait t = Awake \<Longrightarrow> sleeps_right q t"
  by (simp add: sleeps_right_def)

lemma runnable_facts:
  assumes "runnable s i"
  shows "i < length (s_threads s)" "t_wait (s_threads s ! i) = Awake"
  using assms by (auto simp: runnable_def)

lemma sleeping_after_broadcast:
  assumes "t \<in> set (broadcast cv ts)"
  shows "t \<in> set ts \<and> t_wait t \<noteq> cv \<or> t_wait t = Awake"
  using assms by (auto simp: broadcast_def)

lemma q_sys_inv_start:
  "q_sys_inv (ucast c) (due (s_threads (q_start c progs))) (q_start c progs)"
  using Queue_new_with_capacity_facts [of c]
  by (auto simp: q_sys_inv_def q_start_def Queue_new_with_capacity_def Let_def)

lemma thread_section_add:
  assumes inv: "q_sys_inv m d s" and i: "runnable s i"
    and todo: "t_todo (s_threads s ! i) = Op_add v # ops"
  shows "\<exists>s'. thread_section i s = Inr s' \<and> q_sys_inv m d s'"
proof (cases "qsize (s_queue s) = q_max_size (s_queue s)")
  case True
  have "thread_section i s = Inr (set_thread i ((s_threads s ! i)\<lparr>t_wait := On_not_full\<rparr>) s)"
    by (simp add: thread_section_def Let_def todo add_section_full [OF True])
  moreover have "q_sys_inv m d (set_thread i ((s_threads s ! i)\<lparr>t_wait := On_not_full\<rparr>) s)"
    using inv True todo runnable_facts [OF i]
    by (auto simp: q_sys_inv_def set_thread_def due_update sleeps_right_def
        dest!: set_update_subset_insert [THEN subsetD])
  ultimately show ?thesis by blast
next
  case False
  from inv have wf: "Queue_wf (s_queue s)" by (simp add: q_sys_inv_def)
  from add_section_room [OF wf False, of v] obtain q where
    q: "add_section v (s_queue s) = Inr (Section_done () (qsize (s_queue s) = 0) q)"
      "Queue_wf q" "q_contents q = q_contents (s_queue s) @ [v]"
      "q_max_size q = q_max_size (s_queue s)" "qsize q = qsize (s_queue s) + 1" by auto
  define s1 where "s1 = set_thread i ((s_threads s ! i)\<lparr>t_todo := ops\<rparr>)
    (s\<lparr>s_queue := q, s_added := s_added s @ [v]\<rparr>)"
  define s' where "s' = signal (qsize (s_queue s) = 0) On_not_empty s1"
  have step: "thread_section i s = Inr s'"
    by (simp add: thread_section_def Let_def todo q s1_def s'_def)
  have sz: "int (unat (qsize q)) = int (unat (qsize (s_queue s))) + 1"
    using q(3) length_q_contents [of q] length_q_contents [of "s_queue s"]
    by (simp del: of_nat_unat)
  have due': "due (s_threads s') = due (s_threads s) - 1"
    using todo runnable_facts(1) [OF i]
    by (simp add: s'_def s1_def signal_def set_thread_def due_update op_weight_def)
  have "sleeps_right q t" if t: "t \<in> set (s_threads s')" for t
  proof (cases "t_wait t = Awake")
    case True
    then show ?thesis by simp
  next
    case asleep: False
    then have t1: "t \<in> set (s_threads s)" and c: "qsize (s_queue s) = 0 \<Longrightarrow> t_wait t \<noteq> On_not_empty"
      using t runnable_facts(2) [OF i] unfolding s'_def s1_def signal_def set_thread_def
      by (auto split: if_splits dest!: sleeping_after_broadcast set_update_subset_insert [THEN subsetD])
    from inv t1 have "sleeps_right (s_queue s) t" by (simp add: q_sys_inv_def)
    with c False asleep show ?thesis by (cases "t_wait t") (auto simp: sleeps_right_def)
  qed
  moreover have "s_queue s' = q" "s_added s' = s_added s @ [v]" "s_taken s' = s_taken s"
    by (simp_all add: s'_def s1_def signal_def set_thread_def)
  ultimately have "q_sys_inv m d s'"
    using inv q(2-4) sz due' by (simp add: q_sys_inv_def flip: append_assoc)
  with step show ?thesis by blast
qed

lemma thread_section_remove:
  assumes inv: "q_sys_inv m d s" and i: "runnable s i"
    and todo: "t_todo (s_threads s ! i) = Op_remove # ops"
  shows "\<exists>s'. thread_section i s = Inr s' \<and> q_sys_inv m d s'"
proof (cases "q_contents (s_queue s)")
  case Nil
  from inv have wf: "Queue_wf (s_queue s)" by (simp add: q_sys_inv_def)
  from Nil have z: "qsize (s_queue s) = 0" by (simp add: q_contents_Nil_iff)
  have "thread_section i s = Inr (set_thread i ((s_threads s ! i)\<lparr>t_wait := On_not_empty\<rparr>) s)"
    by (simp add: thread_section_def Let_def todo remove_section_empty [OF wf z])
  moreover have "q_sys_inv m d (set_thread i ((s_threads s ! i)\<lparr>t_wait := On_not_empty\<rparr>) s)"
    using inv z todo runnable_facts [OF i]
    by (auto simp: q_sys_inv_def set_thread_def due_update sleeps_right_def
        dest!: set_update_subset_insert [THEN subsetD])
  ultimately show ?thesis by blast
next
  case (Cons x xs)
  from inv have wf: "Queue_wf (s_queue s)" by (simp add: q_sys_inv_def)
  from remove_section_some [OF wf Cons] obtain q where
    q: "remove_section (s_queue s) = Inr (Section_done x True q)" "Queue_wf q" "q_contents q = xs"
      "q_max_size q = q_max_size (s_queue s)" by auto
  define s' where "s' = signal True On_not_full (set_thread i ((s_threads s ! i)\<lparr>t_todo := ops\<rparr>)
    (s\<lparr>s_queue := q, s_taken := s_taken s @ [x]\<rparr>))"
  have step: "thread_section i s = Inr s'" by (simp add: thread_section_def Let_def todo q s'_def)
  have sz: "int (unat (qsize q)) = int (unat (qsize (s_queue s))) - 1"
    using q(3) Cons length_q_contents [of q] length_q_contents [of "s_queue s"]
    by (simp del: of_nat_unat)
  have nz: "qsize (s_queue s) \<noteq> 0" using Cons q_contents_Nil_iff [of "s_queue s"] by simp
  have due': "due (s_threads s') = due (s_threads s) + 1"
    using todo runnable_facts(1) [OF i]
    by (simp add: s'_def signal_def set_thread_def due_update op_weight_def)
  have "sleeps_right q t" if t: "t \<in> set (s_threads s')" for t
  proof (cases "t_wait t = Awake")
    case True
    then show ?thesis by simp
  next
    case asleep: False
    then have t1: "t \<in> set (s_threads s)" and c: "t_wait t \<noteq> On_not_full"
      using t runnable_facts(2) [OF i] unfolding s'_def signal_def set_thread_def
      by (auto split: if_splits dest!: sleeping_after_broadcast set_update_subset_insert [THEN subsetD])
    from inv t1 have "sleeps_right (s_queue s) t" by (simp add: q_sys_inv_def)
    with c nz asleep show ?thesis by (cases "t_wait t") (auto simp: sleeps_right_def)
  qed
  moreover have "s_queue s' = q" "s_added s' = s_added s" "s_taken s' = s_taken s @ [x]"
    by (simp_all add: s'_def signal_def set_thread_def)
  ultimately have "q_sys_inv m d s'"
    using inv q(2-4) sz due' Cons by (simp add: q_sys_inv_def)
  with step show ?thesis by blast
qed

lemma thread_section_ok:
  assumes "q_sys_inv m d s" and "runnable s i"
  shows "\<exists>s'. thread_section i s = Inr s' \<and> q_sys_inv m d s'"
proof -
  from assms(2) obtain x ops where "t_todo (s_threads s ! i) = x # ops"
    by (auto simp: runnable_def neq_Nil_conv)
  then show ?thesis
    by (cases x) (auto intro: thread_section_add [OF assms] thread_section_remove [OF assms])
qed

lemma q_run_inv: "q_run s s' \<Longrightarrow> q_sys_inv m d s \<Longrightarrow> q_sys_inv m d s'"
  by (erule q_run.cases) (metis thread_section_ok sum.inject(2))

lemma q_trans_inv: "q_trans s s' \<Longrightarrow> q_sys_inv m d s \<Longrightarrow> q_sys_inv m d s'"
proof (induction rule: q_trans.induct)
  case (q_trans_run s s')
  then show ?case by (rule q_run_inv)
next
  case (q_trans_spurious i s)
  then show ?case
    by (auto simp: q_sys_inv_def set_thread_def due_update
        dest!: set_update_subset_insert [THEN subsetD])
qed

lemma q_reach_inv: "q_trans\<^sup>*\<^sup>* s s' \<Longrightarrow> q_sys_inv m d s \<Longrightarrow> q_sys_inv m d s'"
  by (induction rule: rtranclp_induct) (auto intro: q_trans_inv)

lemmas q_start_reach_inv = q_reach_inv [OF _ q_sys_inv_start]

section \<open>Termination of the threads\<close>

definition finished :: "q_sys \<Rightarrow> bool" where
  "finished s \<longleftrightarrow> (\<forall>t\<in>set (s_threads s). t_todo t = [])"

definition q_work :: "q_sys \<Rightarrow> nat" where
  "q_work s = sum_list (map (\<lambda>t. length (t_todo t)) (s_threads s))"

definition q_awake :: "q_sys \<Rightarrow> nat" where
  "q_awake s = length (filter (\<lambda>t. t_wait t = Awake \<and> t_todo t \<noteq> []) (s_threads s))"

lemma sum_list_update_less:
  fixes xs :: "nat list"
  shows "i < length xs \<Longrightarrow> y < xs ! i \<Longrightarrow> sum_list (xs[i := y]) < sum_list xs"
  by (induction xs arbitrary: i) (auto split: nat.split simp: nth_Cons)

lemma filter_update_less:
  "i < length xs \<Longrightarrow> P (xs ! i) \<Longrightarrow> \<not> P y \<Longrightarrow>
   length (filter P (xs[i := y])) < length (filter P xs)"
  by (induction xs arbitrary: i) (auto split: nat.split simp: nth_Cons)

lemma q_work_signal [simp]: "q_work (signal b cv s) = q_work s"
  by (simp add: q_work_def signal_def broadcast_def o_def if_distrib cong: if_cong)

lemma q_work_pop:
  assumes "i < length (s_threads s)" and "t_todo (s_threads s ! i) = x # ops"
  shows "q_work (set_thread i ((s_threads s ! i)\<lparr>t_todo := ops\<rparr>) (s\<lparr>s_queue := q, s_added := a, s_taken := b\<rparr>))
         < q_work s"
  using assms sum_list_update_less [of i "map (\<lambda>t. length (t_todo t)) (s_threads s)" "length ops"]
  by (simp add: q_work_def set_thread_def map_update)

lemma q_awake_sleep:
  assumes "runnable s i" and "w \<noteq> Awake"
  shows "q_awake (set_thread i ((s_threads s ! i)\<lparr>t_wait := w\<rparr>) s) < q_awake s"
    and "q_work (set_thread i ((s_threads s ! i)\<lparr>t_wait := w\<rparr>) s) = q_work s"
  using assms filter_update_less [of i "s_threads s" "\<lambda>t. t_wait t = Awake \<and> t_todo t \<noteq> []"
      "(s_threads s ! i)\<lparr>t_wait := w\<rparr>"]
    list_update_id [of "map (\<lambda>t. length (t_todo t)) (s_threads s)" i]
  by (auto simp: q_awake_def q_work_def set_thread_def runnable_def map_update nth_map)

definition q_progress :: "(q_sys \<times> q_sys) set" where
  "q_progress = inv_image (less_than <*lex*> less_than) (\<lambda>s. (q_work s, q_awake s))"

lemma wf_q_progress: "wf q_progress"
  unfolding q_progress_def by (intro wf_inv_image wf_lex_prod wf_less_than)

text \<open>What a section changes: the thread falls asleep, or its next call is done.\<close>

lemma thread_section_shape:
  assumes i: "runnable s i" and "thread_section i s = Inr s'"
  obtains (sleep) w where "w \<noteq> Awake" "s' = set_thread i ((s_threads s ! i)\<lparr>t_wait := w\<rparr>) s"
  | (done_call) x ops b cv q a tk where "t_todo (s_threads s ! i) = x # ops"
      "s' = signal b cv (set_thread i ((s_threads s ! i)\<lparr>t_todo := ops\<rparr>)
                           (s\<lparr>s_queue := q, s_added := a, s_taken := tk\<rparr>))"
proof -
  from i obtain x ops where todo: "t_todo (s_threads s ! i) = x # ops"
    by (auto simp: runnable_def neq_Nil_conv)
  show thesis
  proof (cases x)
    case (Op_add v)
    with todo assms(2) obtain r where r: "add_section v (s_queue s) = Inr r"
      by (auto simp: thread_section_def Let_def rbind_eq_Inr)
    show thesis
    proof (cases r)
      case Section_waits
      with assms(2) todo Op_add r show thesis
        by (intro sleep [of On_not_full]) (simp_all add: thread_section_def)
    next
      case (Section_done u b q)
      have "s' = signal b On_not_empty (set_thread i ((s_threads s ! i)\<lparr>t_todo := ops\<rparr>)
              (s\<lparr>s_queue := q, s_added := s_added s @ [v], s_taken := s_taken s\<rparr>))"
        using assms(2) todo Op_add r Section_done by (simp add: thread_section_def)
      with todo show thesis by (rule done_call)
    qed
  next
    case Op_remove
    with todo assms(2) obtain r where r: "remove_section (s_queue s) = Inr r"
      by (auto simp: thread_section_def Let_def rbind_eq_Inr)
    show thesis
    proof (cases r)
      case Section_waits
      with assms(2) todo Op_remove r show thesis
        by (intro sleep [of On_not_empty]) (simp_all add: thread_section_def)
    next
      case (Section_done v b q)
      have "s' = signal b On_not_full (set_thread i ((s_threads s ! i)\<lparr>t_todo := ops\<rparr>)
              (s\<lparr>s_queue := q, s_added := s_added s, s_taken := s_taken s @ [v]\<rparr>))"
        using assms(2) todo Op_remove r Section_done by (simp add: thread_section_def)
      with todo show thesis by (rule done_call)
    qed
  qed
qed

lemma thread_section_progress:
  assumes i: "runnable s i" and "thread_section i s = Inr s'"
  shows "(s', s) \<in> q_progress"
  using assms
proof (cases rule: thread_section_shape)
  case (sleep w)
  then show ?thesis using q_awake_sleep [OF i, of w] by (simp add: q_progress_def)
next
  case (done_call x ops b cv q a tk)
  then show ?thesis using q_work_pop [OF runnable_facts(1) [OF i] done_call(1)]
    by (simp add: q_progress_def)
qed

lemma due_uniform:
  assumes "\<forall>t\<in>set ts. \<forall>x\<in>set (t_todo t). op_weight x = c"
  shows "due ts = c * int (sum_list (map (\<lambda>t. length (t_todo t)) ts))"
proof -
  have "sum_list (map op_weight xs) = c * int (length xs)" if "\<forall>x\<in>set xs. op_weight x = c" for xs
    using that by (induction xs) (auto simp: algebra_simps)
  with assms show ?thesis by (induction ts) (auto simp: due_def algebra_simps)
qed

text \<open>A thread that only produces or only consumes keeps doing so.\<close>

definition one_sided :: "q_op list \<Rightarrow> bool" where
  "one_sided ops \<longleftrightarrow> (\<forall>x\<in>set ops. op_weight x = 1) \<or> (\<forall>x\<in>set ops. op_weight x = -1)"

lemma thread_section_todo:
  assumes os: "\<forall>t\<in>set (s_threads s). one_sided (t_todo t)" and i: "runnable s i"
    and "thread_section i s = Inr s'"
  shows "\<forall>t\<in>set (s_threads s'). one_sided (t_todo t)"
proof -
  have old: "one_sided (t_todo (s_threads s ! i))"
    using os runnable_facts(1) [OF i] by simp
  have upd: "\<forall>t\<in>set ((s_threads s)[i := t']). one_sided (t_todo t)" if "one_sided (t_todo t')" for t'
    using os that by (auto dest!: set_update_subset_insert [THEN subsetD])
  from i assms(3) show ?thesis
  proof (cases rule: thread_section_shape)
    case (sleep w)
    then show ?thesis using upd [of "(s_threads s ! i)\<lparr>t_wait := w\<rparr>"] old by (simp add: set_thread_def)
  next
    case (done_call x ops b cv q a tk)
    then have "one_sided ops" using old by (auto simp: one_sided_def)
    with upd [of "(s_threads s ! i)\<lparr>t_todo := ops\<rparr>"] show ?thesis unfolding done_call(2)
      by (auto simp: signal_def set_thread_def broadcast_def)
  qed
qed

lemma q_trans_todo:
  "q_trans s s' \<Longrightarrow> \<forall>t\<in>set (s_threads s). one_sided (t_todo t) \<Longrightarrow>
   \<forall>t\<in>set (s_threads s'). one_sided (t_todo t)"
proof (induction rule: q_trans.induct)
  case (q_trans_run s s')
  then show ?case by (metis q_run.cases thread_section_todo)
next
  case (q_trans_spurious i s)
  then show ?case by (auto simp: set_thread_def dest!: set_update_subset_insert [THEN subsetD])
qed

lemma q_reach_todo:
  "q_trans\<^sup>*\<^sup>* s s' \<Longrightarrow> \<forall>t\<in>set (s_threads s). one_sided (t_todo t) \<Longrightarrow>
   \<forall>t\<in>set (s_threads s'). one_sided (t_todo t)"
proof (induction rule: rtranclp_induct)
  case base
  then show ?case .
next
  case (step y z)
  from q_trans_todo [OF step(2) step(3) [OF step(4)]] show ?case .
qed

text \<open>When nobody can run, all that is left is on one side of the queue.\<close>

lemma stuck_one_side:
  assumes inv: "q_sys_inv m d s" and m: "m \<noteq> 0" and stuck: "\<nexists>i. runnable s i"
  shows "(\<forall>t\<in>set (s_threads s). t_todo t \<noteq> [] \<longrightarrow> (\<exists>ops. t_todo t = Op_remove # ops)) \<and> qsize (s_queue s) = 0
       \<or> (\<forall>t\<in>set (s_threads s). t_todo t \<noteq> [] \<longrightarrow> (\<exists>v ops. t_todo t = Op_add v # ops)) \<and> qsize (s_queue s) = m
       \<or> finished s"
proof -
  have sr: "sleeps_right (s_queue s) t \<and> t_wait t \<noteq> Awake"
    if "t \<in> set (s_threads s)" "t_todo t \<noteq> []" for t
    using inv stuck that by (auto simp: q_sys_inv_def runnable_def in_set_conv_nth)
  from inv have mq: "q_max_size (s_queue s) = m" by (simp add: q_sys_inv_def)
  show ?thesis
  proof (cases "finished s")
    case False
    then obtain t where t: "t \<in> set (s_threads s)" "t_todo t \<noteq> []" by (auto simp: finished_def)
    show ?thesis
    proof (cases "qsize (s_queue s) = 0")
      case True
      with sr m mq have "\<exists>ops. t_todo u = Op_remove # ops"
        if "u \<in> set (s_threads s)" "t_todo u \<noteq> []" for u
        using sr [OF that] by (cases "t_wait u") (auto simp: sleeps_right_def)
      with True show ?thesis by blast
    next
      case False
      have "(\<exists>v ops. t_todo u = Op_add v # ops) \<and> qsize (s_queue s) = m"
        if "u \<in> set (s_threads s)" "t_todo u \<noteq> []" for u
        using sr [OF that] False mq by (cases "t_wait u") (auto simp: sleeps_right_def)
      with t show ?thesis by blast
    qed
  qed simp
qed

lemma one_sided_Cons:
  "one_sided (x # ops) \<Longrightarrow> y \<in> set (x # ops) \<Longrightarrow> op_weight y = op_weight x"
  by (auto simp: one_sided_def)

lemma stuck_balanced_finished:
  assumes inv: "q_sys_inv m 0 s" and m: "m \<noteq> 0" and stuck: "\<nexists>i. runnable s i"
    and os: "\<forall>t\<in>set (s_threads s). one_sided (t_todo t)"
  shows "finished s"
proof (rule ccontr)
  assume nf: "\<not> finished s"
  from nf obtain t where "t \<in> set (s_threads s)" "t_todo t \<noteq> []" by (auto simp: finished_def)
  then have work: "0 < q_work s"
    using member_le_sum_list [of "length (t_todo t)" "map (\<lambda>t. length (t_todo t)) (s_threads s)"]
    by (auto simp: q_work_def intro: less_le_trans [of 0 "length (t_todo t)"])
  have bal: "due (s_threads s) + int (unat (qsize (s_queue s))) = 0"
    using inv by (simp add: q_sys_inv_def)
  have uni: "due (s_threads s) = c * int (q_work s)"
    if "\<forall>t\<in>set (s_threads s). t_todo t \<noteq> [] \<longrightarrow> (\<exists>x ops. t_todo t = x # ops \<and> op_weight x = c)" for c
    unfolding q_work_def
  proof (intro due_uniform ballI)
    fix t y assume t: "t \<in> set (s_threads s)" and y: "y \<in> set (t_todo t)"
    then have "t_todo t \<noteq> []" by auto
    with that t obtain x ops where x: "t_todo t = x # ops" "op_weight x = c" by blast
    with os t y show "op_weight y = c" using one_sided_Cons [of x ops y] by auto
  qed
  have add: "op_weight (Op_add v) = 1" and rem: "op_weight Op_remove = -1" for v
    by (simp_all add: op_weight_def)
  from stuck_one_side [OF inv m stuck] nf consider
      (consumers) "\<forall>t\<in>set (s_threads s). t_todo t \<noteq> [] \<longrightarrow> (\<exists>ops. t_todo t = Op_remove # ops)" "qsize (s_queue s) = 0"
    | (producers) "\<forall>t\<in>set (s_threads s). t_todo t \<noteq> [] \<longrightarrow> (\<exists>v ops. t_todo t = Op_add v # ops)" by blast
  then show False
  proof cases
    case consumers
    with rem have "due (s_threads s) = -1 * int (q_work s)" by (intro uni) blast
    with bal work consumers(2) show False by simp
  next
    case producers
    with add have "due (s_threads s) = 1 * int (q_work s)" by (intro uni) blast
    with bal work show False by (simp del: of_nat_unat)
  qed
qed

lemma run_to_finish:
  assumes "q_sys_inv m 0 s" and "m \<noteq> 0" and "\<forall>t\<in>set (s_threads s). one_sided (t_todo t)"
  shows "\<exists>s'. q_run\<^sup>*\<^sup>* s s' \<and> finished s' \<and> q_sys_inv m 0 s'"
  using assms(1,3)
proof (induction s rule: wf_induct_rule [OF wf_q_progress])
  case (1 s)
  show ?case
  proof (cases "\<exists>i. runnable s i")
    case True
    then obtain i where i: "runnable s i" ..
    with thread_section_ok [OF 1(2)] obtain s1 where
      s1: "thread_section i s = Inr s1" "q_sys_inv m 0 s1" by blast
    from 1(1) [OF thread_section_progress [OF i s1(1)] s1(2) thread_section_todo [OF 1(3) i s1(1)]]
    obtain s' where "q_run\<^sup>*\<^sup>* s1 s'" "finished s'" "q_sys_inv m 0 s'" by blast
    with q_run_section [OF i s1(1)] show ?thesis by (meson converse_rtranclp_into_rtranclp)
  next
    case False
    with stuck_balanced_finished [OF 1(2) assms(2) _ 1(3)] 1(2) show ?thesis by blast
  qed
qed

section \<open>Properties\<close>

text \<open>
  C17: In every interleaving of any number of threads, spurious wake-ups included, descriptors
  leave the queue in the order they entered it, none is lost or duplicated, the queue never
  holds more than its capacity, and no section of a runnable thread can fail (no assertion, no
  access outside the ring, no read of an unset slot).
\<close>

theorem Queue_threads_fifo:
  assumes "q_trans\<^sup>*\<^sup>* (q_start c progs) s"
  shows "s_taken s @ q_contents (s_queue s) = s_added s \<and>
         length (q_contents (s_queue s)) \<le> unat (ucast c :: 32 word) \<and>
         (\<forall>i. runnable s i \<longrightarrow> (\<exists>s'. thread_section i s = Inr s'))"
proof -
  note inv = q_start_reach_inv [OF assms]
  then have "s_taken s @ q_contents (s_queue s) = s_added s" and "q_max_size (s_queue s) = ucast c"
    and "unat (qsize (s_queue s)) \<le> unat (q_max_size (s_queue s))"
    unfolding q_sys_inv_def Queue_wf_def by blast+
  then have "s_taken s @ q_contents (s_queue s) = s_added s"
    and "length (q_contents (s_queue s)) \<le> unat (ucast c :: 32 word)"
    by (simp_all only: length_q_contents)
  with thread_section_ok [OF inv] show ?thesis by blast
qed

text \<open>
  C19: No wake-up is missed although \<open>Queue_add\<close> broadcasts only when the queue becomes non
  empty: in every reachable state a consumer sleeps only while the queue is empty and a
  producer only while it is full.
\<close>

theorem Queue_no_missed_wakeup:
  assumes "q_trans\<^sup>*\<^sup>* (q_start c progs) s" and "t \<in> set (s_threads s)"
  shows "(t_wait t = On_not_empty \<longrightarrow> q_contents (s_queue s) = []) \<and>
         (t_wait t = On_not_full \<longrightarrow> Queue_size (s_queue s) = Queue_capacity (s_queue s))"
  using q_start_reach_inv [OF assms(1)] assms(2)
  by (auto simp: q_sys_inv_def sleeps_right_def q_contents_Nil_iff Queue_size_def Queue_capacity_def)

text \<open>
  C18: Producers and consumers finish: whenever as many removals as additions are programmed,
  over threads that each only add or only remove, and the capacity is not 0 after its
  truncation to 32 bits, every reachable state can run on, without any spurious wake-up, to a
  state in which every thread has made all its calls; there the queue is empty and everything
  added was taken, in order.
\<close>

theorem Queue_threads_complete:
  assumes "(ucast c :: 32 word) \<noteq> 0" and "\<forall>p\<in>set progs. one_sided p"
    and "due (s_threads (q_start c progs)) = 0" and "q_trans\<^sup>*\<^sup>* (q_start c progs) s"
  shows "\<exists>s'. q_run\<^sup>*\<^sup>* s s' \<and> finished s' \<and> q_contents (s_queue s') = [] \<and> s_taken s' = s_added s'"
proof -
  from q_start_reach_inv [OF assms(4)] assms(3) have inv: "q_sys_inv (ucast c) 0 s" by simp
  have "\<forall>t\<in>set (s_threads s). one_sided (t_todo t)"
    using q_reach_todo [OF assms(4)] assms(2) by (simp add: q_start_def)
  from run_to_finish [OF inv assms(1) this] obtain s' where
    s': "q_run\<^sup>*\<^sup>* s s'" "finished s'" "q_sys_inv (ucast c) 0 s'" by blast
  from s'(2) have "due (s_threads s') = 0"
    using due_uniform [of "s_threads s'" 0] by (simp add: finished_def)
  with s'(3) have "q_contents (s_queue s') = []" and "s_taken s' @ q_contents (s_queue s') = s_added s'"
    by (auto simp: q_sys_inv_def q_contents_Nil_iff uint_0_iff)
  with s'(1,2) show ?thesis by auto
qed

text \<open>
  Used by one thread, the queue is a bounded first-in first-out list: any script of
  additions and removals returns what that list returns and leaves what it leaves, and does not
  return exactly when the list would have to grow past the capacity or give up an element it
  does not have.
\<close>

theorem Queue_script_refines:
  assumes "Queue_wf q"
  shows "(case fifo_exec Queue_add Queue_remove ops q of Inl e \<Rightarrow> Inl e
            | Inr (out, q') \<Rightarrow> Inr (out, q_contents q')) =
         fifo_model (unat (q_max_size q)) NoReturn NoReturn ops (q_contents q)"
  by (rule sq.script_refines [OF assms])

text \<open>
  The stored \<open>full\<close> flag is not the fullness of the queue: \<open>advance_next_pointer\<close> computes
  it before the size is increased, so the addition that fills a queue of capacity 1 leaves the
  flag false although the queue is full.
\<close>

theorem Queue_full_flag_stale:
  "\<exists>q. Queue_add 7 (Queue_new_with_capacity 1) = Inr q \<and> is_full q \<and> \<not> q_fullflag q"
  by (simp add: Queue_add_def add_section_def q_store_def advance_next_pointer_def is_full_def
      Queue_new_with_capacity_def Let_def)

text \<open>
  Witnesses: a producer of two descriptors and a consumer of two on a queue of one slot, after
  the consumer, finding the queue empty, went to sleep.
\<close>

definition demo_progs :: "q_op list list" where
  "demo_progs = [[Op_add 7, Op_add 8], [Op_remove, Op_remove]]"

definition demo_state :: q_sys where
  "demo_state = set_thread 1 \<lparr>t_todo = [Op_remove, Op_remove], t_wait = On_not_empty\<rparr> (q_start 1 demo_progs)"

lemma demo_state_reached: "q_trans\<^sup>*\<^sup>* (q_start 1 demo_progs) demo_state"
proof (rule r_into_rtranclp, rule q_trans_run, rule q_run_section [of _ 1])
  show "runnable (q_start 1 demo_progs) 1"
    by (simp add: runnable_def q_start_def demo_progs_def)
  show "thread_section 1 (q_start 1 demo_progs) = Inr demo_state"
    by (simp add: thread_section_def q_start_def demo_progs_def demo_state_def remove_section_def
        is_empty_def Queue_new_with_capacity_def Let_def set_thread_def)
qed

theorem Queue_threads_fifo_witness:
  "s_taken demo_state @ q_contents (s_queue demo_state) = s_added demo_state"
  using Queue_threads_fifo [OF demo_state_reached] by blast

theorem Queue_no_missed_wakeup_witness:
  "q_contents (s_queue demo_state) = []"
  using Queue_no_missed_wakeup [OF demo_state_reached,
      of "\<lparr>t_todo = [Op_remove, Op_remove], t_wait = On_not_empty\<rparr>"]
  by (simp add: demo_state_def set_thread_def q_start_def demo_progs_def)

theorem Queue_threads_complete_witness:
  "\<exists>s'. q_run\<^sup>*\<^sup>* demo_state s' \<and> finished s' \<and> q_contents (s_queue s') = [] \<and> s_taken s' = s_added s'"
proof (rule Queue_threads_complete [of 1 demo_progs])
  show "(ucast (1 :: 64 word) :: 32 word) \<noteq> 0" by simp
  show "\<forall>p\<in>set demo_progs. one_sided p"
    by (simp add: demo_progs_def one_sided_def op_weight_def)
  show "due (s_threads (q_start 1 demo_progs)) = 0"
    by (simp add: due_def q_start_def demo_progs_def op_weight_def)
  show "q_trans\<^sup>*\<^sup>* (q_start 1 demo_progs) demo_state" by (rule demo_state_reached)
qed

theorem Queue_script_refines_witness:
  "(case fifo_exec Queue_add Queue_remove [Enq 5, Enq 6, Deq] (Queue_new_with_capacity 2) of Inl e \<Rightarrow> Inl e
      | Inr (out, q') \<Rightarrow> Inr (out, q_contents q')) = Inr ([5], [6])"
  using Queue_script_refines [OF Queue_new_with_capacity_facts(1), of "[Enq 5, Enq 6, Deq]" 2]
  by (simp add: Queue_new_with_capacity_facts) (simp add: Queue_new_with_capacity_def Let_def)

end
