(* ===== verification/CH_FunctorList.thy ===== *)
theory CH_FunctorList
  imports CH_Fifo CH_List "HOL-Library.Signed_Division"
begin

text \<open>
  Functors (\<open>runloop/functor.c\<close>), the ready list of the reactor (\<open>runloop/functor_list.c\<close>), a
  ring of functor values, and the older linked run list (\<open>runloop/run_list.c\<close>) over the
  doubly linked list.  The ring refines the bounded queue of \<open>CH_Fifo\<close> with one slot less
  than its capacity.
\<close>

section \<open>Functors\<close>

text \<open>A functor is a code pointer and an argument; what the code does is a parameter.\<close>

record ('f, 'a) Functor =
  fn_f :: 'f
  fn_arg :: 'a

definition Functor_init :: "('f, 'a) Functor \<Rightarrow> 'f \<Rightarrow> 'a \<Rightarrow> ('f, 'a) Functor" where
  "Functor_init this f arg = this\<lparr>fn_f := f, fn_arg := arg\<rparr>"

definition Functor_new :: "'f \<Rightarrow> 'a \<Rightarrow> ('f, 'a) Functor" where
  "Functor_new f arg = \<lparr>fn_f = f, fn_arg = arg\<rparr>"

definition Functor_call :: "('f \<Rightarrow> 'a \<Rightarrow> 'r \<Rightarrow> 'r res) \<Rightarrow> ('f, 'a) Functor \<Rightarrow> 'r \<Rightarrow> 'r res" where
  "Functor_call code this rtor = code (fn_f this) (fn_arg this) rtor"

section \<open>The ready list\<close>

definition RTOR_MAX_FDS :: nat where
  "RTOR_MAX_FDS = 1024"

definition RTOR_READY_LIST_MAX :: int where
  "RTOR_READY_LIST_MAX = 2 * int RTOR_MAX_FDS"

definition FunctorList_TAG :: string where
  "FunctorList_TAG = ''FUNCLST''"

record 'e FunctorList =
  fl_tag :: string
  fl_capacity :: int
  fl_head :: int
  fl_tail_plus :: int
  fl_list :: "'e option list"
  fl_end_tag :: string

text \<open>The remainder of C: truncated, and undefined for a divisor 0.\<close>

definition c_rem :: "int \<Rightarrow> int \<Rightarrow> int res" where
  "c_rem a b = (if b = 0 then Inl ArithFault else Inr (a smod b))"

lemma c_rem_pos [simp]: "0 \<le> a \<Longrightarrow> 0 < b \<Longrightarrow> c_rem a b = Inr (a mod b)"
  by (auto simp: c_rem_def smod_int_alt_def sgn_if)

definition set_functor_entry :: "'e FunctorList \<Rightarrow> int \<Rightarrow> 'e \<Rightarrow> 'e FunctorList res" where
  "set_functor_entry l index func =
     (if 0 \<le> index \<and> nat index < length (fl_list l)
      then Inr (l\<lparr>fl_list := (fl_list l)[nat index := Some func]\<rparr>) else Inl MemFault)"

definition get_functor_entry :: "'e FunctorList \<Rightarrow> int \<Rightarrow> 'e res" where
  "get_functor_entry l index =
     (if 0 \<le> index \<and> nat index < length (fl_list l)
      then (case fl_list l ! nat index of None \<Rightarrow> Inl UninitRead | Some e \<Rightarrow> Inr e)
      else Inl MemFault)"

definition fl_check_tags :: "'e FunctorList \<Rightarrow> unit res" where
  "fl_check_tags l =
     rbind (check_tag FunctorList_TAG (fl_tag l)) (\<lambda>_. check_tag FunctorList_TAG (fl_end_tag l))"

definition functor_list_new :: "int \<Rightarrow> 'e FunctorList res" where
  "functor_list_new capacity =
     rbind (c_assert (capacity \<le> RTOR_READY_LIST_MAX)) (\<lambda>_.
       let st = \<lparr>fl_tag = FunctorList_TAG, fl_capacity = capacity, fl_head = 0, fl_tail_plus = 0,
                 fl_list = replicate (nat (capacity + 1)) None, fl_end_tag = FunctorList_TAG\<rparr>
       in rbind (fl_check_tags st) (\<lambda>_. Inr st))"

definition functor_list_add :: "'e FunctorList \<Rightarrow> 'e \<Rightarrow> 'e FunctorList res" where
  "functor_list_add l func =
     rbind (fl_check_tags l) (\<lambda>_.
     rbind (c_rem (fl_head l + 1) (fl_capacity l)) (\<lambda>tmp.
     rbind (c_assert (tmp \<noteq> fl_tail_plus l)) (\<lambda>_.
     rbind (set_functor_entry (l\<lparr>fl_head := tmp\<rparr>) tmp func) (\<lambda>l1.
     rbind (check_tag FunctorList_TAG (fl_end_tag l1)) (\<lambda>_. Inr l1)))))"

definition functor_list_size :: "'e FunctorList \<Rightarrow> int res" where
  "functor_list_size l =
     rbind (fl_check_tags l) (\<lambda>_.
       c_rem (fl_head l + fl_capacity l - fl_tail_plus l) (fl_capacity l))"

definition functor_list_remove :: "'e FunctorList \<Rightarrow> ('e \<times> 'e FunctorList) res" where
  "functor_list_remove l =
     rbind (fl_check_tags l) (\<lambda>_.
     rbind (functor_list_size l) (\<lambda>n.
     rbind (c_assert (n \<noteq> 0)) (\<lambda>_.
     rbind (c_rem (fl_tail_plus l + 1) (fl_capacity l)) (\<lambda>tmpix.
       let l1 = l\<lparr>fl_tail_plus := tmpix\<rparr>
       in rbind (check_tag FunctorList_TAG (fl_end_tag l1)) (\<lambda>_.
          rbind (get_functor_entry l1 tmpix) (\<lambda>e. Inr (e, l1)))))))"

section \<open>Invariant and contents\<close>

definition fl_count :: "'e FunctorList \<Rightarrow> nat" where
  "fl_count l = nat ((fl_head l - fl_tail_plus l) mod fl_capacity l)"

definition fl_slots :: "'e FunctorList \<Rightarrow> nat list" where
  "fl_slots l = ring_slots (nat (fl_capacity l)) (Suc (nat (fl_tail_plus l))) (fl_count l)"

definition fl_contents :: "'e FunctorList \<Rightarrow> 'e list" where
  "fl_contents l = map (\<lambda>k. the (fl_list l ! k)) (fl_slots l)"

definition fl_wf :: "'e FunctorList \<Rightarrow> bool" where
  "fl_wf l \<longleftrightarrow>
     fl_tag l = FunctorList_TAG \<and> fl_end_tag l = FunctorList_TAG \<and>
     0 < fl_capacity l \<and> 0 \<le> fl_head l \<and> fl_head l < fl_capacity l \<and>
     0 \<le> fl_tail_plus l \<and> fl_tail_plus l < fl_capacity l \<and>
     length (fl_list l) = nat (fl_capacity l + 1) \<and>
     (\<forall>k\<in>set (fl_slots l). fl_list l ! k \<noteq> None)"

text \<open>The slot after the last used one stays empty.\<close>

definition fl_room :: "'e FunctorList \<Rightarrow> nat" where
  "fl_room l = nat (fl_capacity l) - 1"

lemma length_fl_contents [simp]: "length (fl_contents l) = fl_count l"
  by (simp add: fl_contents_def fl_slots_def)

lemma fl_check_tags_ok [simp]: "fl_wf l \<Longrightarrow> fl_check_tags l = Inr ()"
  by (simp add: fl_wf_def fl_check_tags_def)

lemma fl_wf_new:
  assumes "0 < c" and "c \<le> RTOR_READY_LIST_MAX"
  shows "\<exists>l. functor_list_new c = Inr l \<and> fl_wf l \<and> fl_contents l = [] \<and> fl_room l = nat c - 1"
  using assms
  by (simp add: functor_list_new_def fl_check_tags_def fl_wf_def fl_contents_def fl_slots_def
      fl_count_def fl_room_def)

lemma functor_list_size_count:
  assumes "fl_wf l"
  shows "functor_list_size l = Inr (int (fl_count l))"
proof -
  from assms have "(fl_head l + fl_capacity l - fl_tail_plus l) mod fl_capacity l
      = (fl_head l - fl_tail_plus l) mod fl_capacity l"
    by (metis add.commute add_diff_eq mod_add_self1)
  with assms show ?thesis
    by (auto simp: functor_list_size_def fl_wf_def fl_check_tags_def fl_count_def)
qed

lemma ring_slots_mod [simp]: "ring_slots m (f mod m) n = ring_slots m f n"
  by (simp add: ring_slots_def mod_add_left_eq)

text \<open>The ring indices as natural numbers: the head is the tail advanced by the count.\<close>

lemma fl_indices:
  assumes "fl_wf l"
  defines "m \<equiv> nat (fl_capacity l)" and "t \<equiv> nat (fl_tail_plus l)" and "n \<equiv> fl_count l"
  shows "fl_capacity l = int m" "fl_tail_plus l = int t" "t < m" "n < m"
    "fl_head l = int ((t + n) mod m)"
proof -
  from assms(1) have c: "0 < fl_capacity l" "0 \<le> fl_head l" "fl_head l < fl_capacity l"
    "0 \<le> fl_tail_plus l" "fl_tail_plus l < fl_capacity l" by (simp_all add: fl_wf_def)
  then show "fl_capacity l = int m" "fl_tail_plus l = int t" "t < m"
    by (auto simp: m_def t_def)
  from c have "int n = (fl_head l - fl_tail_plus l) mod fl_capacity l"
    by (simp add: n_def fl_count_def)
  with c have "int n < fl_capacity l" by simp
  then show "n < m" by (simp add: m_def)
  from \<open>int n = _\<close> c have "(int t + int n) mod int m = fl_head l mod fl_capacity l"
    by (simp add: t_def m_def mod_add_right_eq)
  with c show "fl_head l = int ((t + n) mod m)" by (simp add: zmod_int)
qed

lemma fl_countI:
  assumes "fl_capacity l = int m" "fl_tail_plus l = int t" "fl_head l = int ((t + n) mod m)" "n < m"
  shows "fl_count l = n"
proof -
  have "(int ((t + n) mod m) - int t) mod int m = int n mod int m"
    by (simp add: zmod_int mod_diff_left_eq)
  with assms show ?thesis by (simp add: fl_count_def)
qed

lemma c_rem_step:
  assumes "0 < m"
  shows "c_rem (int (a mod m) + 1) (int m) = Inr (int (Suc a mod m))"
proof -
  have "c_rem (int (Suc (a mod m))) (int m) = Inr (int (Suc (a mod m)) mod int m)"
    using assms by (intro c_rem_pos) simp_all
  then show ?thesis by (simp only: mod_Suc_eq of_nat_mod [symmetric]) (simp add: add.commute)
qed

lemma Suc_mod_ne:
  fixes t n m :: nat
  assumes "t < m" "n < m"
  shows "Suc (t + n) mod m = t \<longleftrightarrow> Suc n = m"
proof
  assume "Suc (t + n) mod m = t"
  then have "(t + Suc n) mod m = (t + 0) mod m" using assms by simp
  then show "Suc n = m" using mod_add_cancel_lt [of "Suc n" m 0 t] assms by (cases "Suc n = m") auto
next
  assume "Suc n = m"
  then have "Suc (t + n) = t + m" by simp
  then have "Suc (t + n) mod m = (t + m) mod m" by (rule arg_cong)
  with assms show "Suc (t + n) mod m = t" by simp
qed

lemma functor_list_add_room:
  assumes wf: "fl_wf l" and room: "fl_count l < fl_room l"
  shows "\<exists>l'. functor_list_add l e = Inr l' \<and> fl_wf l' \<and> fl_contents l' = fl_contents l @ [e] \<and>
              fl_capacity l' = fl_capacity l"
proof -
  define m t n where "m = nat (fl_capacity l)" and "t = nat (fl_tail_plus l)" and "n = fl_count l"
  note abb = fl_indices [OF wf, folded m_def t_def n_def]
  from room have sn: "Suc n < m" by (simp add: n_def m_def fl_room_def)
  define k where "k = Suc (t + n) mod m"
  have k: "k < m" "k \<noteq> t" using abb sn Suc_mod_ne [of t m n] by (auto simp: k_def)
  have tmp: "c_rem (fl_head l + 1) (fl_capacity l) = Inr (int k)"
    using abb c_rem_step [of m "t + n"] by (simp only: k_def)
  have len: "length (fl_list l) = Suc m" using wf by (simp add: fl_wf_def m_def nat_add_distrib)
  define l' where "l' = l\<lparr>fl_head := int k, fl_list := (fl_list l)[k := Some e]\<rparr>"
  have st: "set_functor_entry (l\<lparr>fl_head := int k\<rparr>) (int k) e = Inr l'"
    using k len by (simp add: set_functor_entry_def l'_def)
  have "fl_end_tag l' = FunctorList_TAG" using wf by (simp add: l'_def fl_wf_def)
  then have step: "functor_list_add l e = Inr l'"
    using k(2) abb(2) by (simp add: functor_list_add_def wf tmp st)
  have cnt: "fl_count l' = Suc n"
    by (rule fl_countI [of _ m t]) (use abb sn in \<open>simp_all add: l'_def k_def\<close>)
  have slots: "fl_slots l' = fl_slots l @ [k]"
    by (simp add: fl_slots_def cnt ring_slots_snoc k_def)
       (simp add: l'_def m_def [symmetric] t_def [symmetric] n_def [symmetric])
  have free: "k \<notin> set (fl_slots l)"
    using ring_slot_free [of n m "Suc t"] abb(4)
    by (simp add: fl_slots_def k_def m_def [symmetric] t_def [symmetric] n_def [symmetric])
  have "fl_wf l'"
    unfolding fl_wf_def slots using wf k len free abb
    by (auto simp: l'_def fl_wf_def nth_list_update)
  moreover have "fl_contents l' = fl_contents l @ [e]"
    unfolding fl_contents_def slots using free k len by (auto simp: l'_def nth_list_update)
  ultimately show ?thesis using step by (auto simp: l'_def)
qed

lemma functor_list_add_full:
  assumes wf: "fl_wf l" and full: "fl_room l \<le> fl_count l"
  shows "functor_list_add l e = Inl Assertion"
proof -
  define m t n where "m = nat (fl_capacity l)" and "t = nat (fl_tail_plus l)" and "n = fl_count l"
  note abb = fl_indices [OF wf, folded m_def t_def n_def]
  from full have "m - 1 \<le> n" by (simp add: n_def m_def fl_room_def)
  with abb(4) have "Suc n = m" by simp
  then have "Suc (t + n) mod m = t" using Suc_mod_ne [of t m n] abb by simp
  with c_rem_step [of m "t + n"] abb(3)
  have "c_rem (int ((t + n) mod m) + 1) (int m) = Inr (int t)" by simp
  then have "c_rem (fl_head l + 1) (fl_capacity l) = Inr (fl_tail_plus l)"
    unfolding abb(1,2,5) .
  with wf show ?thesis by (simp add: functor_list_add_def)
qed

lemma functor_list_remove_empty:
  "fl_wf l \<Longrightarrow> fl_contents l = [] \<Longrightarrow> functor_list_remove l = Inl Assertion"
  using length_fl_contents [of l] by (simp add: functor_list_remove_def functor_list_size_count)

lemma functor_list_remove_some:
  assumes wf: "fl_wf l" and c: "fl_contents l = x # xs"
  shows "\<exists>l'. functor_list_remove l = Inr (x, l') \<and> fl_wf l' \<and> fl_contents l' = xs \<and>
              fl_capacity l' = fl_capacity l"
proof -
  define m t n where "m = nat (fl_capacity l)" and "t = nat (fl_tail_plus l)" and "n = fl_count l"
  note abb = fl_indices [OF wf, folded m_def t_def n_def]
  from c length_fl_contents [of l] obtain j where j: "n = Suc j" by (cases n) (auto simp: n_def)
  define k where "k = Suc t mod m"
  have k: "k < m" using abb by (simp add: k_def)
  have tmp: "c_rem (fl_tail_plus l + 1) (fl_capacity l) = Inr (int k)"
    using abb c_rem_step [of m t] by (simp add: k_def)
  have "fl_slots l = ring_slots m (k mod m) (Suc j)"
    using j by (simp add: fl_slots_def k_def m_def [symmetric] t_def [symmetric] n_def [symmetric])
  then have slots: "fl_slots l = k # ring_slots m (Suc k) j"
    using ring_slots_Suc [OF k, of j] k by simp
  define l' where "l' = l\<lparr>fl_tail_plus := int k\<rparr>"
  have "(k + j) mod m = (t + n) mod m" using j by (simp add: k_def mod_add_left_eq)
  then have cnt: "fl_count l' = j"
    by (intro fl_countI [of _ m k]) (use abb j in \<open>simp_all add: l'_def\<close>)
  have slots': "fl_slots l' = ring_slots m (Suc k) j"
    by (simp add: fl_slots_def cnt) (simp add: l'_def m_def)
  have filled: "fl_list l ! k = Some x" and xs: "xs = map (\<lambda>k. the (fl_list l ! k)) (ring_slots m (Suc k) j)"
    using c wf slots by (auto simp: fl_contents_def fl_wf_def)
  have "length (fl_list l) = Suc m" using wf by (simp add: fl_wf_def m_def nat_add_distrib)
  then have ld: "get_functor_entry l' (int k) = Inr x" using filled k
    by (simp add: get_functor_entry_def l'_def)
  have tag: "fl_end_tag l = FunctorList_TAG" using wf by (simp add: fl_wf_def)
  have step: "functor_list_remove l = Inr (x, l')"
    using j ld tag by (simp add: functor_list_remove_def functor_list_size_count wf tmp
        n_def [symmetric] l'_def [symmetric])
  have "fl_wf l'"
    unfolding fl_wf_def slots' using wf k slots abb by (auto simp: l'_def fl_wf_def)
  moreover have "fl_contents l' = xs" unfolding fl_contents_def slots' by (simp add: l'_def xs)
  ultimately show ?thesis using step by (auto simp: l'_def)
qed

interpretation flist: bounded_fifo fl_wf fl_contents fl_room "\<lambda>e l. functor_list_add l e"
  functor_list_remove Assertion Assertion
proof
  fix l :: "'a FunctorList" and a
  assume "fl_wf l" and "length (fl_contents l) < fl_room l"
  then show "\<exists>l'. functor_list_add l a = Inr l' \<and> fl_wf l' \<and> fl_contents l' = fl_contents l @ [a] \<and>
                  fl_room l' = fl_room l"
    using functor_list_add_room [of l a] by (auto simp: fl_room_def)
next
  fix l :: "'a FunctorList" and a
  assume "fl_wf l" and "fl_room l \<le> length (fl_contents l)"
  then show "functor_list_add l a = Inl Assertion" by (simp add: functor_list_add_full)
next
  fix l :: "'a FunctorList" and x xs
  assume "fl_wf l" and "fl_contents l = x # xs"
  then show "\<exists>l'. functor_list_remove l = Inr (x, l') \<and> fl_wf l' \<and> fl_contents l' = xs \<and> fl_room l' = fl_room l"
    using functor_list_remove_some [of l x xs] by (auto simp: fl_room_def)
next
  fix l :: "'a FunctorList"
  assume "fl_wf l" and "fl_contents l = []"
  then show "functor_list_remove l = Inl Assertion" by (rule functor_list_remove_empty)
qed

section \<open>The linked run list\<close>

text \<open>
  The older list of functors forwards every operation to the doubly linked list; an item is a
  pointer to a functor, released by \<open>Functor_dealloc\<close>, which frees the functor and leaves
  the pointer in the node as it is.
\<close>

type_synonym RunList = "addr List"

definition Functor_dealloc :: deallocator where
  "Functor_dealloc = KeepingDealloc"

definition RunList_new :: RunList where
  "RunList_new = List_new Functor_dealloc"

definition RunList_dispose :: "RunList \<Rightarrow> RunList res" where
  "RunList_dispose l = List_dispose l"

definition RunList_size :: "RunList \<Rightarrow> int" where
  "RunList_size l = List_size l"

definition RunList_first :: "RunList \<Rightarrow> addr option res" where
  "RunList_first l = List_first l"

definition RunList_last :: "RunList \<Rightarrow> addr option res" where
  "RunList_last l = List_last l"

definition RunList_remove_first :: "RunList \<Rightarrow> (addr option \<times> RunList) res" where
  "RunList_remove_first l = List_remove_first l"

definition RunList_remove_last :: "RunList \<Rightarrow> (addr option \<times> RunList) res" where
  "RunList_remove_last l = List_remove_last l"

definition RunList_itr_unpack :: "RunList \<Rightarrow> addr option \<Rightarrow> addr option res" where
  "RunList_itr_unpack l iter = List_itr_unpack l iter"

definition RunList_iterator :: "RunList \<Rightarrow> addr option" where
  "RunList_iterator l = List_iterator l"

definition RunList_itr_next :: "RunList \<Rightarrow> addr option \<Rightarrow> addr option res" where
  "RunList_itr_next l iter = List_itr_next l iter"

definition RunList_itr_remove :: "RunList \<Rightarrow> addr option \<Rightarrow> RunList res" where
  "RunList_itr_remove l iter = List_itr_remove l iter"

definition RunList_add_back :: "RunList \<Rightarrow> addr \<Rightarrow> RunList res" where
  "RunList_add_back l item = List_add_back l item"

definition RunList_add_front :: "RunList \<Rightarrow> addr \<Rightarrow> RunList res" where
  "RunList_add_front l item = List_add_front l item"

section \<open>Properties\<close>

text \<open>
  C20: The ready list is a first-in first-out queue of values that holds one functor less than
  the capacity it was created with: any script of additions and removals gives the results and
  the rest that a list with that bound gives, and stops at an assertion exactly when the list
  would overflow or is empty.
\<close>

theorem functor_list_script_refines:
  assumes "fl_wf l"
  shows "(case fifo_exec (\<lambda>e l. functor_list_add l e) functor_list_remove ops l of Inl e \<Rightarrow> Inl e
            | Inr (out, l') \<Rightarrow> Inr (out, fl_contents l')) =
         fifo_model (nat (fl_capacity l) - 1) Assertion Assertion ops (fl_contents l)"
  using flist.script_refines [OF assms, of ops] by (simp only: fl_room_def)

definition fl_two :: "nat FunctorList" where
  "fl_two = \<lparr>fl_tag = FunctorList_TAG, fl_capacity = 2, fl_head = 0, fl_tail_plus = 0,
             fl_list = [None, None, None], fl_end_tag = FunctorList_TAG\<rparr>"

theorem functor_list_script_refines_witness:
  "(case fifo_exec (\<lambda>e l. functor_list_add l e) functor_list_remove [Enq 4, Deq, Enq 5] fl_two of Inl e \<Rightarrow> Inl e
      | Inr (out, l') \<Rightarrow> Inr (out, fl_contents l')) = Inr ([4], [5]) \<and>
   (case fifo_exec (\<lambda>e l. functor_list_add l e) functor_list_remove [Enq 4, Enq 5] fl_two of Inl e \<Rightarrow> Inl e
      | Inr (out, l') \<Rightarrow> Inr (out, fl_contents l')) = Inl Assertion"
proof -
  have wf: "fl_wf fl_two" and c: "fl_contents fl_two = []" and k: "fl_capacity fl_two = 2"
    by (simp_all add: fl_two_def fl_wf_def fl_contents_def fl_slots_def fl_count_def)
  show ?thesis unfolding functor_list_script_refines [OF wf] c k by simp
qed

text \<open>
  \<open>functor_list_size\<close> is the number of functors waiting, whatever way the ring is turned,
  and is 0 exactly when a removal would stop the program.
\<close>

theorem functor_list_size_exact:
  assumes "fl_wf l"
  shows "functor_list_size l = Inr (int (length (fl_contents l))) \<and>
         (functor_list_size l = Inr 0 \<longleftrightarrow> functor_list_remove l = Inl Assertion)"
proof (cases "fl_contents l")
  case Nil
  then show ?thesis
    using functor_list_size_count [OF assms] functor_list_remove_empty [OF assms]
      length_fl_contents [of l] by simp
next
  case (Cons x xs)
  then show ?thesis
    using functor_list_size_count [OF assms] functor_list_remove_some [OF assms Cons]
      length_fl_contents [of l] by auto
qed

theorem functor_list_size_exact_witness:
  "functor_list_size fl_two = Inr 0 \<and> functor_list_remove fl_two = Inl Assertion"
proof -
  have wf: "fl_wf fl_two" and c: "fl_contents fl_two = []"
    by (simp_all add: fl_two_def fl_wf_def fl_contents_def fl_slots_def fl_count_def)
  from functor_list_size_exact [OF wf] have "functor_list_size fl_two = Inr 0" by (simp add: c)
  with functor_list_size_exact [OF wf] show ?thesis by blast
qed

end
