(* ===== verification/CH_FdTable.thy ===== *)
theory CH_FdTable
  imports CH_FunctorList
begin

text \<open>
  The table from file descriptors to watchers of the reactor (\<open>runloop/fdtable.c\<close>) and the
  descriptor flags of \<open>runloop/fd_map.c\<close>.  The interface the reactor relies on is the locale
  \<open>watch_table\<close>: a partial map with a count.
\<close>

section \<open>The interface\<close>

locale watch_table =
  fixes invar :: "'t \<Rightarrow> bool"
    and view :: "'t \<Rightarrow> int \<Rightarrow> 'w option"
    and in_range :: "int \<Rightarrow> bool"
    and ins :: "'t \<Rightarrow> 'w \<Rightarrow> int \<Rightarrow> 't res"
    and rem :: "'t \<Rightarrow> int \<Rightarrow> 't res"
    and look :: "'t \<Rightarrow> int \<Rightarrow> 'w res"
    and cnt :: "'t \<Rightarrow> 64 word"
  assumes view_range: "invar t \<Longrightarrow> view t fd \<noteq> None \<Longrightarrow> in_range fd"
    and view_finite: "invar t \<Longrightarrow> finite (dom (view t))"
    and ins_free: "invar t \<Longrightarrow> in_range fd \<Longrightarrow> view t fd = None \<Longrightarrow>
      \<exists>t'. ins t w fd = Inr t' \<and> invar t' \<and> view t' = (view t)(fd \<mapsto> w)"
    and ins_taken: "invar t \<Longrightarrow> view t fd = Some w' \<Longrightarrow> ins t w fd = Inl Assertion"
    and rem_some: "invar t \<Longrightarrow> view t fd = Some w \<Longrightarrow>
      \<exists>t'. rem t fd = Inr t' \<and> invar t' \<and> view t' = (view t)(fd := None)"
    and rem_none: "invar t \<Longrightarrow> in_range fd \<Longrightarrow> view t fd = None \<Longrightarrow> rem t fd = Inl Assertion"
    and look_some: "invar t \<Longrightarrow> view t fd = Some w \<Longrightarrow> look t fd = Inr w"
    and look_none: "invar t \<Longrightarrow> in_range fd \<Longrightarrow> view t fd = None \<Longrightarrow> look t fd = Inl Assertion"
    and cnt_card: "invar t \<Longrightarrow> unat (cnt t) = card (dom (view t))"
begin

lemma look_iff: "invar t \<Longrightarrow> in_range fd \<Longrightarrow> look t fd = Inr w \<longleftrightarrow> view t fd = Some w"
  by (cases "view t fd") (simp_all add: look_some look_none)

lemma ins_look:
  assumes "invar t" and "in_range fd" and "view t fd = None"
  shows "\<exists>t'. ins t w fd = Inr t' \<and> invar t' \<and> look t' fd = Inr w \<and>
              (\<forall>fd'. fd' \<noteq> fd \<longrightarrow> view t' fd' = view t fd') \<and> unat (cnt t') = Suc (unat (cnt t))"
proof -
  from ins_free [OF assms] obtain t' where t': "ins t w fd = Inr t'" "invar t'"
    "view t' = (view t)(fd \<mapsto> w)" by blast
  have "card (dom (view t')) = Suc (card (dom (view t)))"
    using assms(3) view_finite [OF assms(1)] by (simp add: t'(3) domIff)
  with t' show ?thesis using look_some [OF t'(2), of fd w] cnt_card [OF t'(2)] cnt_card [OF assms(1)]
    by (intro exI [of _ t']) simp
qed

lemma ins_rem:
  assumes "invar t" and "in_range fd" and "view t fd = None"
  shows "\<exists>t1 t2. ins t w fd = Inr t1 \<and> rem t1 fd = Inr t2 \<and> invar t2 \<and> view t2 = view t \<and> cnt t2 = cnt t"
proof -
  from ins_free [OF assms] obtain t1 where t1: "ins t w fd = Inr t1" "invar t1"
    "view t1 = (view t)(fd \<mapsto> w)" by blast
  then have "view t1 fd = Some w" by simp
  from rem_some [OF t1(2) this] obtain t2 where t2: "rem t1 fd = Inr t2" "invar t2"
    "view t2 = (view t1)(fd := None)" by blast
  have v: "view t2 = view t" using assms(3) by (auto simp: t1(3) t2(3))
  then have "cnt t2 = cnt t" using cnt_card [OF t2(2)] cnt_card [OF assms(1)]
    by (simp add: word_unat_eq_iff)
  with t1(1) t2 v show ?thesis by blast
qed

end

section \<open>The table\<close>

definition FdTable_TAG :: string where
  "FdTable_TAG = ''FDTABL''"

definition RTOR_FDTABLE_MAX :: nat where
  "RTOR_FDTABLE_MAX = RTOR_MAX_FDS"

record 'w FdTable =
  ft_tag :: string
  ft_count :: "64 word"
  ft_entries :: "'w option list"
  ft_end_tag :: string

definition ft_check_tags :: "'w FdTable \<Rightarrow> unit res" where
  "ft_check_tags t =
     rbind (check_tag FdTable_TAG (ft_tag t)) (\<lambda>_. check_tag FdTable_TAG (ft_end_tag t))"

definition FdTable_init :: "'w FdTable \<Rightarrow> 'w FdTable" where
  "FdTable_init t = t\<lparr>ft_tag := FdTable_TAG, ft_end_tag := FdTable_TAG, ft_count := 0,
                      ft_entries := replicate RTOR_FDTABLE_MAX None\<rparr>"

definition FdTable_new :: "'w FdTable" where
  "FdTable_new = FdTable_init \<lparr>ft_tag = '''', ft_count = 0, ft_entries = [], ft_end_tag = ''''\<rparr>"

text \<open>The subscript is not checked by the code: outside the array the access is a fault.\<close>

definition ft_entry :: "'w FdTable \<Rightarrow> int \<Rightarrow> 'w option res" where
  "ft_entry t fd = (if 0 \<le> fd \<and> nat fd < length (ft_entries t)
                    then Inr (ft_entries t ! nat fd) else Inl MemFault)"

definition FdTable_insert :: "'w FdTable \<Rightarrow> 'w \<Rightarrow> int \<Rightarrow> 'w FdTable res" where
  "FdTable_insert t watcher fd =
     rbind (ft_check_tags t) (\<lambda>_.
     rbind (ft_entry t fd) (\<lambda>e.
     rbind (c_assert (e = None)) (\<lambda>_.
       Inr (t\<lparr>ft_entries := (ft_entries t)[nat fd := Some watcher], ft_count := ft_count t + 1\<rparr>))))"

definition FdTable_remove :: "'w FdTable \<Rightarrow> int \<Rightarrow> 'w FdTable res" where
  "FdTable_remove t fd =
     rbind (ft_check_tags t) (\<lambda>_.
     rbind (ft_entry t fd) (\<lambda>e.
     rbind (c_assert (e \<noteq> None)) (\<lambda>_.
       Inr (t\<lparr>ft_entries := (ft_entries t)[nat fd := None], ft_count := ft_count t - 1\<rparr>))))"

definition FdTable_lookup :: "'w FdTable \<Rightarrow> int \<Rightarrow> 'w res" where
  "FdTable_lookup t fd =
     rbind (ft_check_tags t) (\<lambda>_.
     rbind (ft_entry t fd) (\<lambda>e. case e of None \<Rightarrow> Inl Assertion | Some w \<Rightarrow> Inr w))"

text \<open>The scan for the next used entry, from a position on.\<close>

fun ft_scan :: "int \<Rightarrow> 'w option list \<Rightarrow> int" where
  "ft_scan i [] = - 1"
| "ft_scan i (e # es) = (if e \<noteq> None then i else ft_scan (i + 1) es)"

definition FdTable_iterator :: "'w FdTable \<Rightarrow> int res" where
  "FdTable_iterator t = rbind (ft_check_tags t) (\<lambda>_. Inr (ft_scan 0 (ft_entries t)))"

definition FdTable_next_iterator :: "'w FdTable \<Rightarrow> int \<Rightarrow> int res" where
  "FdTable_next_iterator t iter =
     rbind (ft_check_tags t) (\<lambda>_.
     rbind (c_assert (iter + 1 < int RTOR_FDTABLE_MAX)) (\<lambda>_.
       if iter + 1 < 0 then Inl MemFault
       else Inr (ft_scan (iter + 1) (drop (nat (iter + 1)) (ft_entries t)))))"

definition FdTable_size :: "'w FdTable \<Rightarrow> 64 word res" where
  "FdTable_size t = rbind (ft_check_tags t) (\<lambda>_. Inr (ft_count t))"

text \<open>Freeing empties every used entry first; the watchers themselves are not freed.\<close>

definition FdTable_free :: "'w FdTable \<Rightarrow> 'w FdTable res" where
  "FdTable_free t =
     rbind (ft_check_tags t) (\<lambda>_.
       rfold (\<lambda>i t. rbind (ft_entry t (int i)) (\<lambda>e. if e \<noteq> None then FdTable_remove t (int i) else Inr t))
         [0..<RTOR_FDTABLE_MAX] t)"

section \<open>Descriptor flags\<close>

type_synonym fd_map = "bool list"

definition fd_map_init :: "fd_map" where
  "fd_map_init = replicate RTOR_MAX_FDS False"

definition fd_map_at :: "fd_map \<Rightarrow> int \<Rightarrow> bool res" where
  "fd_map_at m j = rbind (c_assert (0 \<le> j \<and> j < int RTOR_MAX_FDS)) (\<lambda>_. Inr (m ! nat j))"

definition fd_map_set :: "fd_map \<Rightarrow> int \<Rightarrow> (bool \<times> fd_map) res" where
  "fd_map_set m j =
     rbind (c_assert (0 \<le> j \<and> j < int RTOR_MAX_FDS)) (\<lambda>_. Inr (True, m[nat j := True]))"

section \<open>Invariant, and the table as a partial map\<close>

definition ft_used :: "'w FdTable \<Rightarrow> nat set" where
  "ft_used t = {i. i < length (ft_entries t) \<and> ft_entries t ! i \<noteq> None}"

definition ft_wf :: "'w FdTable \<Rightarrow> bool" where
  "ft_wf t \<longleftrightarrow> ft_tag t = FdTable_TAG \<and> ft_end_tag t = FdTable_TAG \<and>
              length (ft_entries t) = RTOR_FDTABLE_MAX \<and> unat (ft_count t) = card (ft_used t)"

definition fd_ok :: "int \<Rightarrow> bool" where
  "fd_ok fd \<longleftrightarrow> 0 \<le> fd \<and> fd < int RTOR_FDTABLE_MAX"

definition ft_view :: "'w FdTable \<Rightarrow> int \<Rightarrow> 'w option" where
  "ft_view t fd = (if 0 \<le> fd \<and> nat fd < length (ft_entries t) then ft_entries t ! nat fd else None)"

lemma ft_used_finite [simp]: "finite (ft_used t)"
  by (simp add: ft_used_def)

lemma ft_used_card: "card (ft_used t) \<le> length (ft_entries t)"
  using card_mono [of "{..<length (ft_entries t)}" "ft_used t"] by (auto simp: ft_used_def)

lemma dom_ft_view: "dom (ft_view t) = int ` ft_used t"
  by (force simp: dom_def ft_view_def ft_used_def image_def split: if_splits)

lemma FdTable_new_wf: "ft_wf FdTable_new" "ft_view FdTable_new = Map.empty"
  by (auto simp: FdTable_new_def FdTable_init_def ft_wf_def ft_used_def ft_view_def fun_eq_iff)

lemma ft_wf_tags [simp]: "ft_wf t \<Longrightarrow> ft_check_tags t = Inr ()"
  by (simp add: ft_wf_def ft_check_tags_def)

lemma ft_entry_ok: "ft_wf t \<Longrightarrow> fd_ok fd \<Longrightarrow> ft_entry t fd = Inr (ft_view t fd)"
  by (auto simp: ft_entry_def ft_wf_def fd_ok_def ft_view_def nat_less_iff)

lemma ft_view_ok: "ft_wf t \<Longrightarrow> ft_view t fd \<noteq> None \<Longrightarrow> fd_ok fd"
  by (auto simp: ft_view_def ft_wf_def fd_ok_def nat_less_iff split: if_splits)

lemma ft_view_update:
  "ft_wf t \<Longrightarrow> fd_ok fd \<Longrightarrow>
   ft_view (t\<lparr>ft_entries := (ft_entries t)[nat fd := e], ft_count := c\<rparr>) = (ft_view t)(fd := e)"
  by (auto simp: ft_view_def fun_eq_iff nth_list_update ft_wf_def fd_ok_def nat_less_iff nat_eq_iff2)

lemma ft_used_insert:
  "ft_wf t \<Longrightarrow> fd_ok fd \<Longrightarrow>
   ft_used (t\<lparr>ft_entries := (ft_entries t)[nat fd := Some w], ft_count := c\<rparr>) = insert (nat fd) (ft_used t)"
  by (auto simp: ft_used_def nth_list_update ft_wf_def fd_ok_def nat_less_iff)

lemma ft_used_remove:
  "ft_wf t \<Longrightarrow> fd_ok fd \<Longrightarrow>
   ft_used (t\<lparr>ft_entries := (ft_entries t)[nat fd := None], ft_count := c\<rparr>) = ft_used t - {nat fd}"
  by (auto simp: ft_used_def nth_list_update ft_wf_def fd_ok_def nat_less_iff split: if_splits)

lemma FdTable_insert_free:
  assumes wf: "ft_wf t" and fd: "fd_ok fd" and "ft_view t fd = None"
  shows "\<exists>t'. FdTable_insert t w fd = Inr t' \<and> ft_wf t' \<and> ft_view t' = (ft_view t)(fd \<mapsto> w)"
proof -
  let ?t = "t\<lparr>ft_entries := (ft_entries t)[nat fd := Some w], ft_count := ft_count t + 1\<rparr>"
  have notin: "nat fd \<notin> ft_used t" using assms
    by (auto simp: ft_used_def ft_view_def fd_ok_def ft_wf_def)
  have "card (ft_used ?t) \<le> RTOR_FDTABLE_MAX"
    using ft_used_card [of ?t] wf by (simp add: ft_wf_def)
  then have "Suc (unat (ft_count t)) \<le> 1024" and card: "card (ft_used ?t) = Suc (unat (ft_count t))"
    using wf notin unfolding ft_used_insert [OF wf fd]
    by (simp_all add: ft_wf_def RTOR_FDTABLE_MAX_def RTOR_MAX_FDS_def)
  then have "unat (ft_count t + 1) = card (ft_used ?t)" by (simp add: unat_plus_if')
  with wf have "ft_wf ?t" by (simp add: ft_wf_def)
  moreover have "FdTable_insert t w fd = Inr ?t"
    using assms by (simp add: FdTable_insert_def ft_entry_ok)
  ultimately show ?thesis using ft_view_update [OF wf fd] by blast
qed

lemma FdTable_remove_some:
  assumes wf: "ft_wf t" and v: "ft_view t fd = Some w"
  shows "\<exists>t'. FdTable_remove t fd = Inr t' \<and> ft_wf t' \<and> ft_view t' = (ft_view t)(fd := None)"
proof -
  let ?t = "t\<lparr>ft_entries := (ft_entries t)[nat fd := None], ft_count := ft_count t - 1\<rparr>"
  have fd: "fd_ok fd" using ft_view_ok [OF wf] v by simp
  have isin: "nat fd \<in> ft_used t" using v by (auto simp: ft_used_def ft_view_def split: if_splits)
  then have "0 < card (ft_used t)" by (auto simp: card_gt_0_iff)
  then have "ft_count t \<noteq> 0" using wf by (auto simp: ft_wf_def)
  then have "unat (ft_count t - 1) = card (ft_used ?t)"
    using isin wf unfolding ft_used_remove [OF wf fd] by (simp add: unat_minus_one ft_wf_def)
  with wf have "ft_wf ?t" by (simp add: ft_wf_def)
  moreover have "FdTable_remove t fd = Inr ?t"
    using wf fd v by (simp add: FdTable_remove_def ft_entry_ok)
  ultimately show ?thesis using ft_view_update [OF wf fd] by blast
qed

interpretation fdt: watch_table ft_wf ft_view fd_ok FdTable_insert FdTable_remove FdTable_lookup ft_count
proof
  fix t :: "'w FdTable" and fd
  assume wf: "ft_wf t"
  show "ft_view t fd \<noteq> None \<Longrightarrow> fd_ok fd" by (rule ft_view_ok [OF wf])
  show "finite (dom (ft_view t))" by (simp add: dom_ft_view)
  show "unat (ft_count t) = card (dom (ft_view t))"
    using wf by (simp add: dom_ft_view ft_wf_def card_image)
next
  fix t :: "'w FdTable" and fd w w'
  assume wf: "ft_wf t"
  show "ft_view t fd = Some w' \<Longrightarrow> FdTable_insert t w fd = Inl Assertion"
    using ft_view_ok [OF wf, of fd] by (simp add: FdTable_insert_def ft_entry_ok wf)
  show "ft_view t fd = Some w \<Longrightarrow> FdTable_lookup t fd = Inr w"
    using ft_view_ok [OF wf, of fd] by (simp add: FdTable_lookup_def ft_entry_ok wf)
next
  fix t :: "'w FdTable" and fd
  assume "ft_wf t" and "fd_ok fd" and "ft_view t fd = None"
  then show "FdTable_remove t fd = Inl Assertion" and "FdTable_lookup t fd = Inl Assertion"
    by (simp_all add: FdTable_remove_def FdTable_lookup_def ft_entry_ok)
qed (fact FdTable_insert_free FdTable_remove_some)+

section \<open>Iteration\<close>

text \<open>The used entries from a position on, in ascending order.\<close>

fun ft_fds :: "int \<Rightarrow> 'w option list \<Rightarrow> int list" where
  "ft_fds i [] = []"
| "ft_fds i (e # es) = (if e \<noteq> None then i # ft_fds (i + 1) es else ft_fds (i + 1) es)"

lemma ft_fds_bounds: "f \<in> set (ft_fds i es) \<Longrightarrow> i \<le> f \<and> f < i + int (length es)"
  by (induction i es rule: ft_fds.induct) (auto split: if_splits)

lemma ft_scan_cases:
  "0 \<le> i \<Longrightarrow>
   (ft_fds i es = [] \<and> ft_scan i es = - 1) \<or>
   (\<exists>k < length es. ft_scan i es = i + int k \<and>
      ft_fds i es = (i + int k) # ft_fds (i + int k + 1) (drop (Suc k) es))"
proof (induction i es rule: ft_fds.induct)
  case (2 i e es)
  show ?case
  proof (cases "e = None")
    case True
    with 2 consider "ft_fds (i + 1) es = []" "ft_scan (i + 1) es = - 1"
      | k where "k < length es" "ft_scan (i + 1) es = i + 1 + int k"
        "ft_fds (i + 1) es = (i + 1 + int k) # ft_fds (i + 1 + int k + 1) (drop (Suc k) es)" by auto
    then show ?thesis
    proof cases
      case 1
      with True show ?thesis by simp
    next
      case (2 k)
      with True show ?thesis by (intro disjI2 exI [of _ "Suc k"]) (simp add: add_ac)
    qed
  next
    case False
    then show ?thesis by (intro disjI2 exI [of _ 0]) simp
  qed
qed simp

lemma set_ft_fds: "set (ft_fds i es) = {i + int k | k. k < length es \<and> es ! k \<noteq> None}"
proof (induction i es rule: ft_fds.induct)
  case (2 i e es)
  have *: "{i + int k | k. k < length (e # es) \<and> (e # es) ! k \<noteq> None} =
      {i | u :: unit. e \<noteq> None} \<union> {i + 1 + int k | k. k < length es \<and> es ! k \<noteq> None}"
    (is "?l = ?r1 \<union> ?r2")
  proof
    show "?l \<subseteq> ?r1 \<union> ?r2"
    proof
      fix x assume "x \<in> ?l"
      then obtain k where "x = i + int k" "k < length (e # es)" "(e # es) ! k \<noteq> None" by blast
      then show "x \<in> ?r1 \<union> ?r2" by (cases k) auto
    qed
    show "?r1 \<union> ?r2 \<subseteq> ?l"
    proof
      fix x assume "x \<in> ?r1 \<union> ?r2"
      then show "x \<in> ?l"
      proof
        assume "x \<in> ?r2"
        then obtain k where "x = i + int (Suc k)" "Suc k < length (e # es)" "(e # es) ! Suc k \<noteq> None" by auto
        then show ?thesis by blast
      qed (auto intro: exI [of _ 0])
    qed
  qed
  show ?case unfolding * using 2 by (cases "e = None") auto
qed simp

definition ft_list :: "'w FdTable \<Rightarrow> int list" where
  "ft_list t = ft_fds 0 (ft_entries t)"

lemma set_ft_list: "set (ft_list t) = dom (ft_view t)"
  unfolding ft_list_def set_ft_fds dom_ft_view by (auto simp: ft_used_def)

lemma ft_fds_sorted: "sorted_wrt (<) (ft_fds i es)"
proof (induction i es rule: ft_fds.induct)
  case (2 i e es)
  have "i < f" if "f \<in> set (ft_fds (i + 1) es)" for f using ft_fds_bounds [OF that] by simp
  with 2 show ?case by simp
qed simp

lemma FdTable_next_iterator_step:
  assumes wf: "ft_wf t" and fd: "0 \<le> fd" "fd + 1 < int RTOR_FDTABLE_MAX"
  shows "FdTable_next_iterator t fd = Inr (ft_scan (fd + 1) (drop (nat (fd + 1)) (ft_entries t)))"
  using assms by (simp add: FdTable_next_iterator_def)

section \<open>Properties\<close>

text \<open>
  Registering a watcher under a free descriptor of the table makes exactly that descriptor
  look up to it, leaves every other descriptor alone and raises the count by one; removing it
  again gives back the same contents and count.  A second insertion under the same descriptor,
  a removal and a look-up of an unused one stop at the assertion.
\<close>

theorem FdTable_insert_lookup_remove:
  assumes "ft_wf t" and "fd_ok fd" and "ft_view t fd = None"
  shows "\<exists>t1 t2. FdTable_insert t w fd = Inr t1 \<and> FdTable_lookup t1 fd = Inr w \<and>
           (\<forall>fd'. fd' \<noteq> fd \<longrightarrow> ft_view t1 fd' = ft_view t fd') \<and>
           unat (ft_count t1) = Suc (unat (ft_count t)) \<and> FdTable_insert t1 w' fd = Inl Assertion \<and>
           FdTable_remove t1 fd = Inr t2 \<and> ft_view t2 = ft_view t \<and> ft_count t2 = ft_count t \<and>
           FdTable_remove t fd = Inl Assertion \<and> FdTable_lookup t fd = Inl Assertion"
proof -
  from fdt.ins_look [OF assms, of w] obtain t1 where t1: "FdTable_insert t w fd = Inr t1" "ft_wf t1"
    "FdTable_lookup t1 fd = Inr w" "\<forall>fd'. fd' \<noteq> fd \<longrightarrow> ft_view t1 fd' = ft_view t fd'"
    "unat (ft_count t1) = Suc (unat (ft_count t))" by blast
  from fdt.ins_rem [OF assms, of w] t1(1) obtain t2 where t2: "FdTable_remove t1 fd = Inr t2"
    "ft_view t2 = ft_view t" "ft_count t2 = ft_count t" by auto
  have "ft_view t1 fd = Some w" using fdt.look_iff [OF t1(2) assms(2)] t1(3) by blast
  from fdt.ins_taken [OF t1(2) this] have "FdTable_insert t1 w' fd = Inl Assertion" .
  with t1 t2 fdt.rem_none [OF assms] fdt.look_none [OF assms] show ?thesis by blast
qed

theorem FdTable_insert_lookup_remove_witness:
  "\<exists>t1. FdTable_insert FdTable_new (7 :: nat) 5 = Inr t1 \<and> FdTable_lookup t1 5 = Inr 7"
  using FdTable_insert_lookup_remove [OF FdTable_new_wf(1), of 5 "7 :: nat" 8]
  by (auto simp: FdTable_new_wf fd_ok_def RTOR_FDTABLE_MAX_def RTOR_MAX_FDS_def)

text \<open>
  A descriptor beyond the 1024 entries is not refused by the table: insertion and look-up
  index past the array.
\<close>

theorem FdTable_no_bounds_check:
  assumes "ft_wf t" and "int RTOR_FDTABLE_MAX \<le> fd"
  shows "FdTable_insert t w fd = Inl MemFault \<and> FdTable_lookup t fd = Inl MemFault \<and>
         FdTable_remove t fd = Inl MemFault"
proof -
  have "ft_entry t fd = Inl MemFault"
    using assms by (auto simp: ft_entry_def ft_wf_def le_nat_iff)
  with assms(1) show ?thesis
    by (simp add: FdTable_insert_def FdTable_lookup_def FdTable_remove_def)
qed

theorem FdTable_no_bounds_check_witness:
  "FdTable_insert FdTable_new (7 :: nat) 1024 = Inl MemFault"
  using FdTable_no_bounds_check [OF FdTable_new_wf(1), of 1024 "7 :: nat"]
  by (simp add: RTOR_FDTABLE_MAX_def RTOR_MAX_FDS_def)

section \<open>Freeing a table\<close>

lemma FdTable_clear:
  assumes "ft_wf t" and "\<forall>i \<in> set is. i < RTOR_FDTABLE_MAX"
  shows "\<exists>t'. rfold (\<lambda>i t. rbind (ft_entry t (int i)) (\<lambda>e. if e \<noteq> None then FdTable_remove t (int i) else Inr t)) is t = Inr t' \<and>
     ft_wf t' \<and> ft_view t' = (\<lambda>fd. if fd \<in> int ` set is then None else ft_view t fd)"
  using assms
proof (induction "is" arbitrary: t)
  case (Cons i "is")
  have len: "i < length (ft_entries t)" using Cons.prems by (simp add: ft_wf_def)
  then have e: "ft_entry t (int i) = Inr (ft_view t (int i))" by (simp add: ft_entry_def ft_view_def)
  obtain t1 where t1: "(if ft_view t (int i) \<noteq> None then FdTable_remove t (int i) else Inr t) = Inr t1" "ft_wf t1"
    "ft_view t1 = (ft_view t)(int i := None)"
    using fdt.rem_some [OF Cons.prems(1), of "int i"] Cons.prems(1) by (cases "ft_view t (int i)") (auto simp: fun_upd_idem)
  from Cons.IH [OF t1(2)] Cons.prems(2) t1(1,3) e show ?case by (fastforce simp: fun_eq_iff)
qed simp

lemma FdTable_free_ok: "ft_wf t \<Longrightarrow> \<exists>t'. FdTable_free t = Inr t'"
  using FdTable_clear [of t "[0..<RTOR_FDTABLE_MAX]"] by (auto simp: FdTable_free_def)

end
