(* ===== verification/CH_Reactor.thy ===== *)
theory CH_Reactor
  imports CH_FdTable
begin

text \<open>
  The reactor (\<open>runloop/reactor.c\<close>) with the inter-thread queue (\<open>runloop/evfd_queue.c\<close>) and
  its queue watcher (\<open>runloop/w_queue.c\<close>).  The kernel side that the code depends on is the
  set of open descriptors and the interest list of the epoll instance, changed as epoll_ctl(2)
  and close(2) document; what \<open>epoll_wait\<close> returns is an input.  Event handlers and posted
  functions belong to the application and are parameters.
\<close>

unbundle bit_operations_syntax

section \<open>The kernel side\<close>

definition EPOLLIN :: "32 word" where "EPOLLIN = 0x001"
definition EPOLLOUT :: "32 word" where "EPOLLOUT = 0x004"
definition EPOLLERR :: "32 word" where "EPOLLERR = 0x008"
definition EPOLLHUP :: "32 word" where "EPOLLHUP = 0x010"
definition EPOLLRDHUP :: "32 word" where "EPOLLRDHUP = 0x2000"
definition EPOLLEXCLUSIVE :: "32 word" where "EPOLLEXCLUSIVE = 0x10000000"
definition EPOLLET :: "32 word" where "EPOLLET = 0x80000000"

datatype epoll_op = EPOLL_CTL_ADD | EPOLL_CTL_DEL | EPOLL_CTL_MOD

record kernel =
  k_open :: "int \<Rightarrow> bool"
  k_interest :: "int \<Rightarrow> 32 word option"

definition exclusive :: "32 word \<Rightarrow> bool" where
  "exclusive ev \<longleftrightarrow> bit ev 28"

text \<open>
  Adding needs a descriptor that is open and not yet in the interest list, changing and
  deleting one that is in it; an entry added with \<open>EPOLLEXCLUSIVE\<close> cannot be changed.
\<close>

definition epoll_ctl :: "kernel \<Rightarrow> epoll_op \<Rightarrow> int \<Rightarrow> 32 word \<Rightarrow> int \<times> kernel" where
  "epoll_ctl k op fd events =
     (if \<not> k_open k fd then (- 1, k)
      else case op of
        EPOLL_CTL_ADD \<Rightarrow>
          (case k_interest k fd of
             None \<Rightarrow> (0, k\<lparr>k_interest := (k_interest k)(fd \<mapsto> events)\<rparr>)
           | Some _ \<Rightarrow> (- 1, k))
      | EPOLL_CTL_DEL \<Rightarrow>
          (case k_interest k fd of
             None \<Rightarrow> (- 1, k)
           | Some _ \<Rightarrow> (0, k\<lparr>k_interest := (k_interest k)(fd := None)\<rparr>))
      | EPOLL_CTL_MOD \<Rightarrow>
          (case k_interest k fd of
             None \<Rightarrow> (- 1, k)
           | Some old \<Rightarrow>
               if exclusive old \<or> exclusive events then (- 1, k)
               else (0, k\<lparr>k_interest := (k_interest k)(fd \<mapsto> events)\<rparr>)))"

text \<open>Closing a descriptor also drops it from the interest list.\<close>

definition sys_close :: "kernel \<Rightarrow> int \<Rightarrow> int \<times> kernel" where
  "sys_close k fd =
     (if k_open k fd
      then (0, k\<lparr>k_open := (k_open k)(fd := False), k_interest := (k_interest k)(fd := None)\<rparr>)
      else (- 1, k))"

text \<open>The signals for which the programs have handlers.\<close>

definition SIGINT :: int where "SIGINT = 2"
definition SIGABRT :: int where "SIGABRT = 6"

section \<open>The inter-thread queue\<close>

type_synonym code_ptr = nat
type_synonym rfunctor = "(code_ptr, addr) Functor"

text \<open>
  The eventfd has a 64 bit counter: a write adds, a read returns it and clears it, and the
  descriptor is readable while it is not 0.
\<close>

record EvfdQueue =
  eq_list :: "rfunctor FunctorList"
  eq_readfd :: int
  eq_writefd :: int
  eq_counter :: "64 word"

definition evfd_write :: "64 word \<Rightarrow> 64 word \<Rightarrow> 64 word" where
  "evfd_write n c = (if unat c + unat n \<le> 2 ^ 64 - 2 then c + n else c)"

definition evfd_read :: "64 word \<Rightarrow> int \<times> 64 word" where
  "evfd_read c = (if c = 0 then (- 1, c) else (8, 0))"

text \<open>The loop that empties the counter of a fresh eventfd ends at the first failing read.\<close>

fun evfd_drain :: "nat \<Rightarrow> 64 word \<Rightarrow> 64 word res" where
  "evfd_drain 0 c = Inl NoReturn"
| "evfd_drain (Suc n) c =
     (case evfd_read c of (nread, c') \<Rightarrow> if nread = - 1 then Inr c' else evfd_drain n c')"

definition mk_fds :: "int \<Rightarrow> EvfdQueue \<Rightarrow> EvfdQueue res" where
  "mk_fds fd q = rbind (evfd_drain 2 0) (\<lambda>c. Inr (q\<lparr>eq_readfd := fd, eq_writefd := fd, eq_counter := c\<rparr>))"

definition Evfdq_init :: "int \<Rightarrow> EvfdQueue res" where
  "Evfdq_init fd =
     rbind (functor_list_new (int RTOR_MAX_FDS)) (\<lambda>l.
       mk_fds fd \<lparr>eq_list = l, eq_readfd = - 1, eq_writefd = - 1, eq_counter = 0\<rparr>)"

definition Evfdq_new :: "int \<Rightarrow> EvfdQueue res" where
  "Evfdq_new fd = Evfdq_init fd"

definition Evfdq_readfd :: "EvfdQueue \<Rightarrow> int" where
  "Evfdq_readfd q = eq_readfd q"

definition Evfdq_add :: "EvfdQueue \<Rightarrow> rfunctor \<Rightarrow> EvfdQueue res" where
  "Evfdq_add q item =
     rbind (functor_list_add (eq_list q) item) (\<lambda>l.
       Inr (q\<lparr>eq_list := l, eq_counter := evfd_write 1 (eq_counter q)\<rparr>))"

definition Evfdq_remove :: "EvfdQueue \<Rightarrow> (rfunctor \<times> EvfdQueue) res" where
  "Evfdq_remove q =
     rbind (functor_list_remove (eq_list q)) (\<lambda>(op, l).
       Inr (op, q\<lparr>eq_list := l, eq_counter := snd (evfd_read (eq_counter q))\<rparr>))"

section \<open>The reactor\<close>

definition Reactor_TAG :: string where "Reactor_TAG = ''XREACT''"
definition WQueue_TAG :: string where "WQueue_TAG = ''XRQUE''"

datatype WatcherType = XR_WATCHER_SOCKET | XR_WATCHER_TIMER | XR_WATCHER_QUEUE | XR_WATCHER_FDEVENT
  | XR_WATCHER_LISTENER

text \<open>
  The part every watcher begins with; \<open>w_ref\<close> is its address.  A queue watcher also has its
  handler and argument; the queue it watches is the one of the reactor.
\<close>

record RtorWatcher =
  w_tag :: string
  w_type :: WatcherType
  w_ref :: addr
  w_fd :: int

record RtorWQueue = RtorWatcher +
  wq_handler :: "code_ptr option"
  wq_arg :: "addr option"

record 'x Reactor =
  r_tag :: string
  r_epoll_fd :: int
  r_closed_flag :: bool
  r_runloop_executing :: bool
  r_table :: "addr FdTable"
  r_ready_list :: "rfunctor FunctorList"
  r_itq :: "EvfdQueue option"
  r_itq_watcher :: "RtorWQueue option"
  r_kernel :: kernel
  r_app :: 'x

definition rtor_check :: "'x Reactor \<Rightarrow> unit res" where
  "rtor_check r = check_tag Reactor_TAG (r_tag r)"

definition rtor_epoll_ctl :: "'x Reactor \<Rightarrow> epoll_op \<Rightarrow> int \<Rightarrow> 32 word \<Rightarrow> 'x Reactor res" where
  "rtor_epoll_ctl r op fd interest =
     rbind (rtor_check r) (\<lambda>_.
       let (status, k) = epoll_ctl (r_kernel r) op fd interest
       in rbind (c_assert (status = 0)) (\<lambda>_. Inr (r\<lparr>r_kernel := k\<rparr>)))"

definition rtor_reactor_init :: "int \<Rightarrow> kernel \<Rightarrow> 'x \<Rightarrow> 'x Reactor res" where
  "rtor_reactor_init epoll_fd k app =
     rbind (c_assert (epoll_fd \<noteq> - 1)) (\<lambda>_.
     rbind (functor_list_new RTOR_READY_LIST_MAX) (\<lambda>l.
       Inr \<lparr>r_tag = Reactor_TAG, r_epoll_fd = epoll_fd, r_closed_flag = False,
            r_runloop_executing = False, r_table = FdTable_new, r_ready_list = l, r_itq = None,
            r_itq_watcher = None, r_kernel = k\<lparr>k_interest := Map.empty\<rparr>, r_app = app\<rparr>))"

definition rtor_reactor_new :: "int \<Rightarrow> kernel \<Rightarrow> 'x \<Rightarrow> 'x Reactor res" where
  "rtor_reactor_new epoll_fd k app = rtor_reactor_init epoll_fd k app"

definition rtor_reactor_register :: "'x Reactor \<Rightarrow> int \<Rightarrow> 32 word \<Rightarrow> addr \<Rightarrow> 'x Reactor res" where
  "rtor_reactor_register r fd interest wref =
     rbind (rtor_check r) (\<lambda>_.
     rbind (rtor_epoll_ctl r EPOLL_CTL_ADD fd interest) (\<lambda>r1.
     rbind (FdTable_insert (r_table r1) wref fd) (\<lambda>t.
       Inr (r1\<lparr>r_table := t\<rparr>))))"

definition rtor_reactor_deregister :: "'x Reactor \<Rightarrow> int \<Rightarrow> 'x Reactor res" where
  "rtor_reactor_deregister r fd =
     rbind (rtor_check r) (\<lambda>_.
     rbind (FdTable_lookup (r_table r) fd) (\<lambda>_.
     rbind (rtor_epoll_ctl r EPOLL_CTL_DEL fd (EPOLLEXCLUSIVE OR EPOLLIN)) (\<lambda>r1.
     rbind (FdTable_remove (r_table r1) fd) (\<lambda>t.
       Inr (r1\<lparr>r_table := t\<rparr>)))))"

definition rtor_reactor_reregister :: "'x Reactor \<Rightarrow> int \<Rightarrow> 32 word \<Rightarrow> addr \<Rightarrow> 'x Reactor res" where
  "rtor_reactor_reregister r fd interest wref =
     rbind (rtor_check r) (\<lambda>_.
     rbind (FdTable_lookup (r_table r) fd) (\<lambda>_.
     rbind (rtor_epoll_ctl r EPOLL_CTL_MOD fd interest) (\<lambda>r1.
     rbind (FdTable_lookup (r_table r1) fd) (\<lambda>w.
     rbind (c_assert (wref = w)) (\<lambda>_. Inr r1)))))"

definition rtor_reactor_delete :: "'x Reactor \<Rightarrow> int \<Rightarrow> 'x Reactor res" where
  "rtor_reactor_delete r fd =
     rbind (rtor_check r) (\<lambda>_.
     rbind (FdTable_lookup (r_table r) fd) (\<lambda>_.
     rbind (FdTable_remove (r_table r) fd) (\<lambda>t.
       Inr (r\<lparr>r_table := t\<rparr>))))"

definition rtor_reactor_post :: "'x Reactor \<Rightarrow> code_ptr \<Rightarrow> addr \<Rightarrow> 'x Reactor res" where
  "rtor_reactor_post r cb arg =
     rbind (rtor_check r) (\<lambda>_.
     rbind (functor_list_add (r_ready_list r) \<lparr>fn_f = cb, fn_arg = arg\<rparr>) (\<lambda>l.
       Inr (r\<lparr>r_ready_list := l\<rparr>)))"

definition rtor_reactor_interthread_post :: "'x Reactor \<Rightarrow> code_ptr \<Rightarrow> addr \<Rightarrow> 'x Reactor res" where
  "rtor_reactor_interthread_post r cb arg =
     rbind (rtor_check r) (\<lambda>_.
       case r_itq r of
         None \<Rightarrow> Inl NullDeref
       | Some q \<Rightarrow> rbind (Evfdq_add q \<lparr>fn_f = cb, fn_arg = arg\<rparr>) (\<lambda>q1. Inr (r\<lparr>r_itq := Some q1\<rparr>)))"

section \<open>The queue watcher\<close>

definition WQueue_init :: "addr \<Rightarrow> EvfdQueue \<Rightarrow> RtorWQueue" where
  "WQueue_init self q =
     \<lparr>w_tag = WQueue_TAG, w_type = XR_WATCHER_QUEUE, w_ref = self, w_fd = Evfdq_readfd q,
      wq_handler = None, wq_arg = None\<rparr>"

definition rtor_wqueue_new :: "addr \<Rightarrow> EvfdQueue \<Rightarrow> RtorWQueue" where
  "rtor_wqueue_new self q = WQueue_init self q"

definition rtor_wqueue_register ::
  "RtorWQueue \<Rightarrow> code_ptr \<Rightarrow> addr option \<Rightarrow> 'x Reactor \<Rightarrow> (RtorWQueue \<times> 'x Reactor) res" where
  "rtor_wqueue_register w cb arg r =
     (let w1 = w\<lparr>wq_handler := Some cb, wq_arg := arg\<rparr>
      in rbind (rtor_reactor_register r (w_fd w1) (EPOLLIN OR EPOLLERR OR EPOLLRDHUP OR EPOLLHUP) (w_ref w1))
           (\<lambda>r1. Inr (w1, r1)))"

definition rtor_wqueue_change_watch ::
  "RtorWQueue \<Rightarrow> code_ptr option \<Rightarrow> addr option \<Rightarrow> 64 word \<Rightarrow> 'x Reactor \<Rightarrow> (RtorWQueue \<times> 'x Reactor) res" where
  "rtor_wqueue_change_watch w cb arg watch_what r =
     rbind (check_tag WQueue_TAG (w_tag w)) (\<lambda>_.
       let w1 = (if cb \<noteq> None then w\<lparr>wq_handler := cb\<rparr> else w);
           w2 = (if arg \<noteq> None then w1\<lparr>wq_arg := arg\<rparr> else w1)
       in rbind (rtor_reactor_reregister r (w_fd w2) (ucast watch_what) (w_ref w2)) (\<lambda>r1. Inr (w2, r1)))"

definition rtor_wqueue_deregister :: "RtorWQueue \<Rightarrow> 'x Reactor \<Rightarrow> 'x Reactor res" where
  "rtor_wqueue_deregister w r =
     rbind (check_tag WQueue_TAG (w_tag w)) (\<lambda>_. rtor_reactor_deregister r (w_fd w))"

definition rtor_wqueue_dispose :: "RtorWQueue \<Rightarrow> kernel \<Rightarrow> kernel res" where
  "rtor_wqueue_dispose w k =
     rbind (check_tag WQueue_TAG (w_tag w)) (\<lambda>_. Inr (snd (sys_close k (w_fd w))))"

text \<open>The code address of \<open>interthread_queue_handler\<close>; the argument registered is the queue.\<close>

definition interthread_queue_handler_ptr :: code_ptr where
  "interthread_queue_handler_ptr = 1"

definition rtor_reactor_enable_interthread_queue ::
  "int \<Rightarrow> addr \<Rightarrow> addr \<Rightarrow> 'x Reactor \<Rightarrow> 'x Reactor res" where
  "rtor_reactor_enable_interthread_queue fd qref wref r =
     rbind (Evfdq_new fd) (\<lambda>q.
       let w = rtor_wqueue_new wref q
       in rbind (rtor_wqueue_register w interthread_queue_handler_ptr (Some qref) (r\<lparr>r_itq := Some q\<rparr>))
            (\<lambda>(w1, r1). Inr (r1\<lparr>r_itq_watcher := Some w1\<rparr>)))"

text \<open>
  The handler takes one functor off the queue and posts its function with the watcher as the
  argument; the functor's own argument is left in the watcher.
\<close>

definition interthread_queue_handler :: "RtorWQueue \<Rightarrow> 'x Reactor \<Rightarrow> 'x Reactor res" where
  "interthread_queue_handler w r =
     (case r_itq r of
        None \<Rightarrow> Inl NullDeref
      | Some q \<Rightarrow>
          rbind (Evfdq_remove q) (\<lambda>(func, q1).
            rtor_reactor_post (r\<lparr>r_itq := Some q1, r_itq_watcher := Some (w\<lparr>wq_arg := Some (fn_arg func)\<rparr>)\<rparr>)
              (fn_f func) (w_ref w)))"

section \<open>Closing\<close>

definition close_epoll :: "kernel \<Rightarrow> int \<Rightarrow> int \<times> kernel" where
  "close_epoll k fd = (case sys_close k fd of (s, k1) \<Rightarrow>
     (s, if s = 0 then k1\<lparr>k_interest := Map.empty\<rparr> else k1))"

text \<open>The loop over the table closes every descriptor it meets.\<close>

fun close_loop :: "nat \<Rightarrow> addr FdTable \<Rightarrow> int \<Rightarrow> kernel \<Rightarrow> kernel res" where
  "close_loop 0 t next_fd k = Inl NoReturn"
| "close_loop (Suc n) t next_fd k =
     (if next_fd = - 1 then Inr k
      else rbind (FdTable_next_iterator t next_fd) (\<lambda>nxt. close_loop n t nxt (snd (sys_close k next_fd))))"

definition rtor_reactor_close :: "'x Reactor \<Rightarrow> 'x Reactor res" where
  "rtor_reactor_close r =
     rbind (rtor_check r) (\<lambda>_.
       let r1 = r\<lparr>r_closed_flag := True\<rparr>;
           (status, k) = close_epoll (r_kernel r1) (r_epoll_fd r1)
       in rbind (c_assert (status \<noteq> - 1)) (\<lambda>_.
          rbind (FdTable_iterator (r_table r1)) (\<lambda>next_fd.
          rbind (close_loop (Suc RTOR_FDTABLE_MAX) (r_table r1) next_fd k) (\<lambda>k1.
            Inr (r1\<lparr>r_kernel := k1\<rparr>)))))"

text \<open>Freeing closes an open reactor first; what is left of the system is the kernel side.\<close>

definition rtor_reactor_free :: "'x Reactor \<Rightarrow> kernel res" where
  "rtor_reactor_free r =
     rbind (rtor_check r) (\<lambda>_.
     rbind (if r_closed_flag r then Inr r else rtor_reactor_close r) (\<lambda>r1.
     rbind (case r_itq_watcher r1 of None \<Rightarrow> Inr (r_kernel r1)
            | Some w \<Rightarrow> rtor_wqueue_dispose w (r_kernel r1)) (\<lambda>k.
     rbind (FdTable_free (r_table r1)) (\<lambda>_. Inr k))))"

section \<open>The run loop\<close>

text \<open>What the application supplies: the handler of each watcher, and the posted functions.\<close>

type_synonym 'x handlers = "addr \<Rightarrow> 32 word \<Rightarrow> 'x Reactor \<Rightarrow> 'x Reactor res"
type_synonym 'x code = "code_ptr \<Rightarrow> addr \<Rightarrow> 'x Reactor \<Rightarrow> 'x Reactor res"

definition dispatch_event :: "'x handlers \<Rightarrow> int \<times> 32 word \<Rightarrow> 'x Reactor \<Rightarrow> 'x Reactor res" where
  "dispatch_event handler ev r =
     rbind (rtor_check r) (\<lambda>_.
     rbind (FdTable_lookup (r_table r) (fst ev)) (\<lambda>wref.
     rbind (handler wref (snd ev) r) (\<lambda>r1.
     rbind (rtor_check r1) (\<lambda>_. Inr r1))))"

definition dispatch_events :: "'x handlers \<Rightarrow> (int \<times> 32 word) list \<Rightarrow> 'x Reactor \<Rightarrow> 'x Reactor res" where
  "dispatch_events handler evs r = rfold (dispatch_event handler) evs r"

text \<open>
  Running the ready list: \<open>n\<close> bounds the number of calls, and the functors called are returned
  in the order of the calls.
\<close>

fun run_ready :: "'x code \<Rightarrow> nat \<Rightarrow> 'x Reactor \<Rightarrow> (rfunctor list \<times> 'x Reactor) res" where
  "run_ready code 0 r = Inl NoReturn"
| "run_ready code (Suc n) r =
     rbind (rtor_check r) (\<lambda>_.
     rbind (functor_list_size (r_ready_list r)) (\<lambda>sz.
       if sz = 0 then Inr ([], r)
       else
         rbind (functor_list_remove (r_ready_list r)) (\<lambda>(func, l).
         rbind (Functor_call code func (r\<lparr>r_ready_list := l, r_runloop_executing := True\<rparr>)) (\<lambda>r1.
           let r2 = r1\<lparr>r_runloop_executing := False\<rparr>
           in rbind (rtor_check r2) (\<lambda>_.
              rbind (functor_list_size (r_ready_list r2)) (\<lambda>sz2.
                if sz2 = 0 then Inr ([func], r2)
                else rbind (run_ready code n r2) (\<lambda>(ran, r3). Inr (func # ran, r3))))))))"

text \<open>
  What \<open>epoll_wait\<close> did: failed (interrupted or not), or gave events.  The run returns a result
  (\<open>None\<close> where the code returns a variable it never set) or is left waiting in
  \<open>epoll_wait\<close>.
\<close>

datatype wait_outcome = Wait_error bool | Wait_events "(int \<times> 32 word) list"

datatype 'x run_result = Run_returned "int option" "'x Reactor" | Run_waiting "'x Reactor"

text \<open>The head of the loop, up to \<open>epoll_wait\<close>: it may decide to leave.\<close>

definition run_head :: "'x Reactor \<Rightarrow> (bool \<times> 'x Reactor) res" where
  "run_head r =
     rbind (rtor_check r) (\<lambda>_.
     rbind (FdTable_size (r_table r)) (\<lambda>sz.
       if sz = 0 then Inr (True, r)
       else if sz = 1 \<and> r_itq r \<noteq> None then
         (case r_itq_watcher r of
            None \<Rightarrow> Inl NullDeref
          | Some w \<Rightarrow> rbind (rtor_wqueue_deregister w r) (\<lambda>r1. Inr (True, r1)))
       else
         rbind (functor_list_size (r_ready_list r)) (\<lambda>n.
         rbind (c_assert (n = 0)) (\<lambda>_. Inr (False, r)))))"

fun rtor_reactor_run ::
  "'x handlers \<Rightarrow> 'x code \<Rightarrow> nat \<Rightarrow> wait_outcome list \<Rightarrow> 'x Reactor \<Rightarrow> 'x run_result res" where
  "rtor_reactor_run handler code n [] r =
     rbind (run_head r) (\<lambda>(leave, r1). Inr (if leave then Run_returned None r1 else Run_waiting r1))"
| "rtor_reactor_run handler code n (out # outs) r =
     rbind (run_head r) (\<lambda>(leave, r1).
       if leave then Inr (Run_returned None r1)
       else case out of
         Wait_error interrupted \<Rightarrow>
           Inr (Run_returned (if interrupted then None else if r_closed_flag r1 then Some 0 else Some (- 1)) r1)
       | Wait_events evs \<Rightarrow>
           if evs = [] then
             Inr (Run_returned (Some 0) (r1\<lparr>r_kernel := snd (close_epoll (r_kernel r1) (r_epoll_fd r1))\<rparr>))
           else
             rbind (dispatch_events handler evs r1) (\<lambda>r2.
             rbind (run_ready code n r2) (\<lambda>(ran, r3). rtor_reactor_run handler code n outs r3)))"

section \<open>Invariant\<close>

text \<open>The table and the interest list of the kernel name the same descriptors, all of them open.\<close>

definition Reactor_wf :: "'x Reactor \<Rightarrow> bool" where
  "Reactor_wf r \<longleftrightarrow>
     r_tag r = Reactor_TAG \<and> ft_wf (r_table r) \<and> fl_wf (r_ready_list r) \<and>
     fl_capacity (r_ready_list r) = RTOR_READY_LIST_MAX \<and>
     (\<forall>fd. k_interest (r_kernel r) fd \<noteq> None \<longleftrightarrow> ft_view (r_table r) fd \<noteq> None) \<and>
     (\<forall>fd. ft_view (r_table r) fd \<noteq> None \<longrightarrow> k_open (r_kernel r) fd)"

abbreviation ready :: "'x Reactor \<Rightarrow> rfunctor list" where
  "ready r \<equiv> fl_contents (r_ready_list r)"

lemma Reactor_wf_check [simp]: "Reactor_wf r \<Longrightarrow> rtor_check r = Inr ()"
  by (simp add: Reactor_wf_def rtor_check_def)

lemma rtor_reactor_new_wf:
  assumes "epoll_fd \<noteq> - 1"
  shows "\<exists>r. rtor_reactor_new epoll_fd k app = Inr r \<and> Reactor_wf r \<and> ready r = [] \<and>
             ft_view (r_table r) = Map.empty \<and> k_open (r_kernel r) = k_open k \<and> r_app r = app \<and>
             r_itq r = None"
proof -
  have "0 < RTOR_READY_LIST_MAX" by (simp add: RTOR_READY_LIST_MAX_def RTOR_MAX_FDS_def)
  from fl_wf_new [OF this order_refl] obtain l :: "rfunctor FunctorList" where
    l: "functor_list_new RTOR_READY_LIST_MAX = Inr l" "fl_wf l" "fl_contents l = []" by blast
  moreover from l(1) have "fl_capacity l = RTOR_READY_LIST_MAX"
    by (auto simp: functor_list_new_def rbind_eq_Inr Let_def)
  ultimately show ?thesis using assms
    by (simp add: rtor_reactor_new_def rtor_reactor_init_def Reactor_wf_def FdTable_new_wf)
qed

lemma rtor_reactor_register_ok:
  assumes wf: "Reactor_wf r" and fd: "fd_ok fd" and new: "ft_view (r_table r) fd = None"
    and op: "k_open (r_kernel r) fd"
  shows "\<exists>r'. rtor_reactor_register r fd interest w = Inr r' \<and> Reactor_wf r' \<and>
              ft_view (r_table r') = (ft_view (r_table r))(fd \<mapsto> w) \<and>
              k_interest (r_kernel r') = (k_interest (r_kernel r))(fd \<mapsto> interest) \<and>
              k_open (r_kernel r') = k_open (r_kernel r) \<and> r_ready_list r' = r_ready_list r \<and>
              r_itq r' = r_itq r"
proof -
  have t: "ft_wf (r_table r)" using wf by (simp add: Reactor_wf_def)
  have ki: "k_interest (r_kernel r) fd = None" using wf new unfolding Reactor_wf_def by metis
  from fdt.ins_free [OF t fd new, of w] obtain t' where
    t': "FdTable_insert (r_table r) w fd = Inr t'" "ft_wf t'" "ft_view t' = (ft_view (r_table r))(fd \<mapsto> w)"
    by blast
  define r' where "r' = r\<lparr>r_kernel := (r_kernel r)\<lparr>k_interest := (k_interest (r_kernel r))(fd \<mapsto> interest)\<rparr>,
                          r_table := t'\<rparr>"
  have "rtor_reactor_register r fd interest w = Inr r'"
    using wf op ki t'(1)
    by (simp add: rtor_reactor_register_def rtor_epoll_ctl_def epoll_ctl_def r'_def)
  moreover have "Reactor_wf r'" using wf op t' by (auto simp: Reactor_wf_def r'_def)
  ultimately show ?thesis using t'(3) by (auto simp: r'_def)
qed

lemma rtor_reactor_register_beyond:
  assumes wf: "Reactor_wf r" and fd: "\<not> fd_ok fd" and op: "k_open (r_kernel r) fd" and none: "ft_view (r_table r) fd = None"
  shows "rtor_reactor_register r fd interest w = Inl MemFault"
proof -
  have "k_interest (r_kernel r) fd = None" using wf none unfolding Reactor_wf_def by (metis option.distinct(1) option.exhaust)
  moreover have "ft_wf (r_table r)" using wf by (simp add: Reactor_wf_def)
  then have "FdTable_insert (r_table r) w fd = Inl MemFault"
    using fd by (auto simp: FdTable_insert_def ft_entry_def ft_wf_def fd_ok_def nat_less_iff)
  ultimately show ?thesis using wf op by (simp add: rtor_reactor_register_def rtor_epoll_ctl_def epoll_ctl_def)
qed

lemma rtor_reactor_deregister_ok:
  assumes wf: "Reactor_wf r" and reg: "ft_view (r_table r) fd = Some w"
  shows "\<exists>r'. rtor_reactor_deregister r fd = Inr r' \<and> Reactor_wf r' \<and>
              ft_view (r_table r') = (ft_view (r_table r))(fd := None) \<and>
              k_interest (r_kernel r') = (k_interest (r_kernel r))(fd := None) \<and>
              k_open (r_kernel r') = k_open (r_kernel r) \<and> r_ready_list r' = r_ready_list r \<and> r_itq r' = r_itq r"
proof -
  have t: "ft_wf (r_table r)" and op: "k_open (r_kernel r) fd"
    using wf reg by (auto simp: Reactor_wf_def)
  from wf reg have "k_interest (r_kernel r) fd \<noteq> None" unfolding Reactor_wf_def by blast
  then obtain i where ki: "k_interest (r_kernel r) fd = Some i" by blast
  from fdt.rem_some [OF t reg] obtain t' where
    t': "FdTable_remove (r_table r) fd = Inr t'" "ft_wf t'" "ft_view t' = (ft_view (r_table r))(fd := None)"
    by blast
  define r' where "r' = r\<lparr>r_kernel := (r_kernel r)\<lparr>k_interest := (k_interest (r_kernel r))(fd := None)\<rparr>,
                          r_table := t'\<rparr>"
  have "rtor_reactor_deregister r fd = Inr r'"
    using wf op ki t'(1) fdt.look_some [OF t reg]
    by (simp add: rtor_reactor_deregister_def rtor_epoll_ctl_def epoll_ctl_def r'_def)
  moreover have "Reactor_wf r'" using wf op t' by (auto simp: Reactor_wf_def r'_def)
  ultimately show ?thesis using t'(3) by (auto simp: r'_def)
qed

lemma rtor_reactor_reregister_ok:
  assumes wf: "Reactor_wf r" and reg: "ft_view (r_table r) fd = Some w"
    and ki: "k_interest (r_kernel r) fd = Some old" and ex: "\<not> exclusive old" "\<not> exclusive interest"
  shows "\<exists>r'. rtor_reactor_reregister r fd interest w = Inr r' \<and> Reactor_wf r' \<and>
              r_table r' = r_table r \<and>
              k_interest (r_kernel r') = (k_interest (r_kernel r))(fd \<mapsto> interest) \<and>
              k_open (r_kernel r') = k_open (r_kernel r) \<and> r_ready_list r' = r_ready_list r \<and> r_itq r' = r_itq r"
proof -
  have t: "ft_wf (r_table r)" and op: "k_open (r_kernel r) fd"
    using wf reg by (auto simp: Reactor_wf_def)
  define r' where "r' = r\<lparr>r_kernel := (r_kernel r)\<lparr>k_interest := (k_interest (r_kernel r))(fd \<mapsto> interest)\<rparr>\<rparr>"
  have "rtor_reactor_reregister r fd interest w = Inr r'"
    using wf op ki ex fdt.look_some [OF t reg]
    by (simp add: rtor_reactor_reregister_def rtor_epoll_ctl_def epoll_ctl_def r'_def)
  moreover have "Reactor_wf r'" using wf op reg by (auto simp: Reactor_wf_def r'_def)
  ultimately show ?thesis by (auto simp: r'_def)
qed

lemma rtor_reactor_post_ok:
  assumes wf: "Reactor_wf r" and room: "length (ready r) < 2047"
  shows "\<exists>r'. rtor_reactor_post r f a = Inr r' \<and> Reactor_wf r' \<and>
              ready r' = ready r @ [\<lparr>fn_f = f, fn_arg = a\<rparr>] \<and> r_table r' = r_table r \<and>
              r_kernel r' = r_kernel r \<and> r_app r' = r_app r \<and> r_itq r' = r_itq r"
proof -
  have l: "fl_wf (r_ready_list r)" and c: "fl_capacity (r_ready_list r) = RTOR_READY_LIST_MAX"
    using wf by (simp_all add: Reactor_wf_def)
  have "fl_count (r_ready_list r) < fl_room (r_ready_list r)"
    using room by (simp add: fl_room_def c RTOR_READY_LIST_MAX_def RTOR_MAX_FDS_def)
  from functor_list_add_room [OF l this] obtain l' where
    "functor_list_add (r_ready_list r) \<lparr>fn_f = f, fn_arg = a\<rparr> = Inr l'" "fl_wf l'"
    "fl_contents l' = ready r @ [\<lparr>fn_f = f, fn_arg = a\<rparr>]" "fl_capacity l' = fl_capacity (r_ready_list r)"
    by blast
  with wf show ?thesis by (simp add: rtor_reactor_post_def Reactor_wf_def)
qed

section \<open>Registration as a map from descriptors to interest and watcher\<close>

definition watching :: "'x Reactor \<Rightarrow> int \<Rightarrow> (32 word \<times> addr) option" where
  "watching r fd = (case (k_interest (r_kernel r) fd, ft_view (r_table r) fd) of
                      (Some i, Some w) \<Rightarrow> Some (i, w) | _ \<Rightarrow> None)"

datatype reg_op = Reg int "32 word" addr | Rereg int "32 word" addr | Dereg int

fun reg_fd :: "reg_op \<Rightarrow> int" where
  "reg_fd (Reg fd i w) = fd"
| "reg_fd (Rereg fd i w) = fd"
| "reg_fd (Dereg fd) = fd"

fun reg_step :: "reg_op \<Rightarrow> 'x Reactor \<Rightarrow> 'x Reactor res" where
  "reg_step (Reg fd i w) r = rtor_reactor_register r fd i w"
| "reg_step (Rereg fd i w) r = rtor_reactor_reregister r fd i w"
| "reg_step (Dereg fd) r = rtor_reactor_deregister r fd"

text \<open>
  The abstract registry: adding needs a free descriptor, changing the same watcher and no
  exclusive interest, removing a used descriptor; everything else is an assertion.
\<close>

fun reg_spec :: "reg_op \<Rightarrow> (int \<Rightarrow> (32 word \<times> addr) option) \<Rightarrow> (int \<Rightarrow> (32 word \<times> addr) option) res" where
  "reg_spec (Reg fd i w) m = (case m fd of None \<Rightarrow> Inr (m(fd \<mapsto> (i, w))) | Some _ \<Rightarrow> Inl Assertion)"
| "reg_spec (Rereg fd i w) m =
     (case m fd of None \<Rightarrow> Inl Assertion
      | Some (old, w') \<Rightarrow> if \<not> exclusive old \<and> \<not> exclusive i \<and> w = w' then Inr (m(fd \<mapsto> (i, w)))
                        else Inl Assertion)"
| "reg_spec (Dereg fd) m = (case m fd of None \<Rightarrow> Inl Assertion | Some _ \<Rightarrow> Inr (m(fd := None)))"

lemma watching_None: "Reactor_wf r \<Longrightarrow> watching r fd = None \<longleftrightarrow> ft_view (r_table r) fd = None"
proof -
  assume "Reactor_wf r"
  then have "k_interest (r_kernel r) fd \<noteq> None \<longleftrightarrow> ft_view (r_table r) fd \<noteq> None"
    unfolding Reactor_wf_def by blast
  then show ?thesis by (auto simp: watching_def split: option.splits)
qed

lemma watching_Some:
  "Reactor_wf r \<Longrightarrow> watching r fd = Some (i, w) \<longleftrightarrow>
     k_interest (r_kernel r) fd = Some i \<and> ft_view (r_table r) fd = Some w"
  by (auto simp: watching_def split: option.splits)

lemma watching_update:
  assumes "ft_view (r_table r') = (ft_view (r_table r))(fd := v)"
    and "k_interest (r_kernel r') = (k_interest (r_kernel r))(fd := i)"
  shows "watching r' = (watching r)(fd := (case (i, v) of (Some i, Some w) \<Rightarrow> Some (i, w) | _ \<Rightarrow> None))"
  using assms by (auto simp: watching_def fun_eq_iff split: option.splits)

lemma reg_step_refines:
  assumes wf: "Reactor_wf r" and fd: "fd_ok (reg_fd x)" and op: "k_open (r_kernel r) (reg_fd x)"
  shows "case reg_spec x (watching r) of
           Inl e \<Rightarrow> reg_step x r = Inl e
         | Inr m \<Rightarrow> \<exists>r'. reg_step x r = Inr r' \<and> Reactor_wf r' \<and> watching r' = m \<and>
                       k_open (r_kernel r') = k_open (r_kernel r)"
proof (cases x)
  case (Reg f i w)
  show ?thesis
  proof (cases "watching r f")
    case None
    then have "ft_view (r_table r) f = None" by (simp add: watching_None [OF wf])
    from rtor_reactor_register_ok [OF wf _ this, of i w] fd op Reg obtain r' where
      "rtor_reactor_register r f i w = Inr r'" "Reactor_wf r'"
      "ft_view (r_table r') = (ft_view (r_table r))(f \<mapsto> w)"
      "k_interest (r_kernel r') = (k_interest (r_kernel r))(f \<mapsto> i)"
      "k_open (r_kernel r') = k_open (r_kernel r)" by auto
    with None show ?thesis by (simp add: Reg watching_update)
  next
    case (Some iw)
    then obtain i' w' where "k_interest (r_kernel r) f = Some i'"
      using watching_Some [OF wf] by (metis surj_pair)
    with Some op show ?thesis
      by (simp add: Reg rtor_reactor_register_def rtor_epoll_ctl_def epoll_ctl_def wf)
  qed
next
  case (Rereg f i w)
  show ?thesis
  proof (cases "watching r f")
    case None
    then have "FdTable_lookup (r_table r) f = Inl Assertion"
      using wf fd Rereg by (intro fdt.look_none) (auto simp: watching_None Reactor_wf_def)
    with None show ?thesis by (simp add: Rereg rtor_reactor_reregister_def wf)
  next
    case (Some iw)
    then obtain old w' where iw: "watching r f = Some (old, w')" by (metis surj_pair)
    then have k: "k_interest (r_kernel r) f = Some old" and v: "ft_view (r_table r) f = Some w'"
      by (simp_all add: watching_Some [OF wf])
    have look: "FdTable_lookup (r_table r) f = Inr w'" 
      using wf v by (intro fdt.look_some) (simp_all add: Reactor_wf_def)
    show ?thesis
    proof (cases "\<not> exclusive old \<and> \<not> exclusive i \<and> w = w'")
      case True
      with rtor_reactor_reregister_ok [OF wf v k, of i] obtain r' where
        "rtor_reactor_reregister r f i w = Inr r'" "Reactor_wf r'" "r_table r' = r_table r"
        "k_interest (r_kernel r') = (k_interest (r_kernel r))(f \<mapsto> i)"
        "k_open (r_kernel r') = k_open (r_kernel r)" by auto
      moreover from this v True have "watching r' = (watching r)(f \<mapsto> (i, w))"
        by (subst watching_update [of r' r f "Some w" "Some i"]) auto
      ultimately show ?thesis using iw True by (simp add: Rereg)
    next
      case False
      then have "reg_step x r = Inl Assertion"
        using op k look
        by (auto simp: Rereg rtor_reactor_reregister_def rtor_epoll_ctl_def epoll_ctl_def wf Let_def)
      moreover have "reg_spec x (watching r) = Inl Assertion"
        using False iw by (auto simp: Rereg)
      ultimately show ?thesis by simp
    qed
  qed
next
  case (Dereg f)
  show ?thesis
  proof (cases "watching r f")
    case None
    then have "FdTable_lookup (r_table r) f = Inl Assertion"
      using wf fd Dereg by (intro fdt.look_none) (auto simp: watching_None Reactor_wf_def)
    with None show ?thesis by (simp add: Dereg rtor_reactor_deregister_def wf)
  next
    case (Some iw)
    then obtain w' where v: "ft_view (r_table r) f = Some w'"
      using watching_Some [OF wf] by (metis surj_pair)
    from rtor_reactor_deregister_ok [OF wf v] obtain r' where
      "rtor_reactor_deregister r f = Inr r'" "Reactor_wf r'"
      "ft_view (r_table r') = (ft_view (r_table r))(f := None)"
      "k_interest (r_kernel r') = (k_interest (r_kernel r))(f := None)"
      "k_open (r_kernel r') = k_open (r_kernel r)" by blast
    with Some show ?thesis by (simp add: Dereg watching_update)
  qed
qed

text \<open>
  C23: Registration, change of interest and deregistration keep the watcher table of the reactor
  and the interest list of the kernel in agreement: over any script on open descriptors of the
  table's range the two together behave as one map from descriptors to interest and watcher,
  and the script stops at an assertion exactly where that map refuses the operation (a second
  registration, a change by another watcher or of an exclusive entry, an unknown descriptor).
\<close>

theorem reactor_registration_refines:
  assumes "Reactor_wf r" and "\<forall>x\<in>set ops. fd_ok (reg_fd x) \<and> k_open (r_kernel r) (reg_fd x)"
  shows "case rfold reg_spec ops (watching r) of
           Inl e \<Rightarrow> rfold reg_step ops r = Inl e
         | Inr m \<Rightarrow> \<exists>r'. rfold reg_step ops r = Inr r' \<and> Reactor_wf r' \<and> watching r' = m"
  using assms
proof (induction ops arbitrary: r)
  case (Cons x ops)
  note step = reg_step_refines [OF Cons.prems(1), of x]
  show ?case
  proof (cases "reg_spec x (watching r)")
    case (Inl e)
    with step Cons.prems(2) show ?thesis by simp
  next
    case (Inr m)
    with step Cons.prems(2) obtain r' where r': "reg_step x r = Inr r'" "Reactor_wf r'" "watching r' = m"
      "k_open (r_kernel r') = k_open (r_kernel r)" by auto
    have "\<forall>x\<in>set ops. fd_ok (reg_fd x) \<and> k_open (r_kernel r') (reg_fd x)"
      using Cons.prems(2) r'(4) by simp
    from Cons.IH [OF r'(2) this] show ?thesis using Inr r'(1,3)
      by (cases "rfold reg_spec ops m") auto
  qed
qed simp

definition demo_kernel :: kernel where
  "demo_kernel = \<lparr>k_open = (\<lambda>fd. 3 \<le> fd \<and> fd < 10), k_interest = Map.empty\<rparr>"

lemma demo_reactor:
  obtains r :: "nat Reactor" where "rtor_reactor_new 3 demo_kernel 0 = Inr r" "Reactor_wf r"
    "ready r = []" "ft_view (r_table r) = Map.empty" "k_open (r_kernel r) = k_open demo_kernel"
    "r_itq r = None"
  using rtor_reactor_new_wf [of 3 demo_kernel "0 :: nat"] by auto

theorem reactor_registration_refines_witness:
  "\<exists>r0 r1 :: nat Reactor. Reactor_wf r0 \<and>
     rfold reg_step [Reg 4 EPOLLIN 100, Rereg 4 EPOLLOUT 100, Reg 5 EPOLLIN 101, Dereg 4] r0 = Inr r1 \<and>
     watching r1 = [5 \<mapsto> (EPOLLIN, 101)]"
proof -
  obtain r :: "nat Reactor" where r: "Reactor_wf r" "ft_view (r_table r) = Map.empty"
    "k_open (r_kernel r) = k_open demo_kernel" by (rule demo_reactor)
  let ?ops = "[Reg 4 EPOLLIN 100, Rereg 4 EPOLLOUT 100, Reg 5 EPOLLIN 101, Dereg 4]"
  have w: "watching r = Map.empty"
    using r(1,2) by (simp add: fun_eq_iff watching_None)
  have ops: "\<forall>x\<in>set ?ops. fd_ok (reg_fd x) \<and> k_open (r_kernel r) (reg_fd x)"
    by (simp add: r(3) demo_kernel_def fd_ok_def RTOR_FDTABLE_MAX_def RTOR_MAX_FDS_def)
  have "rfold reg_spec ?ops Map.empty = Inr [5 \<mapsto> (EPOLLIN, 101)]"
    by (simp add: exclusive_def EPOLLIN_def EPOLLOUT_def fun_eq_iff)
  with reactor_registration_refines [OF r(1) ops] r(1) show ?thesis by (auto simp: w)
qed

section \<open>The ready list\<close>

text \<open>
  A posted function that returns, keeps the reactor well formed and posts \<open>posts fn\<close> when there
  is room for it.
\<close>

definition polite :: "'x code \<Rightarrow> (rfunctor \<Rightarrow> rfunctor list) \<Rightarrow> bool" where
  "polite code posts \<longleftrightarrow>
     (\<forall>fn r. Reactor_wf r \<and> length (ready r) + length (posts fn) \<le> 2047 \<longrightarrow>
        (\<exists>r'. Functor_call code fn r = Inr r' \<and> Reactor_wf r' \<and> ready r' = ready r @ posts fn))"

lemma Reactor_wf_ready_update:
  "Reactor_wf r \<Longrightarrow> fl_wf l \<Longrightarrow> fl_capacity l = fl_capacity (r_ready_list r) \<Longrightarrow>
   Reactor_wf (r\<lparr>r_ready_list := l, r_runloop_executing := b\<rparr>)"
  by (simp add: Reactor_wf_def)

lemma Reactor_wf_executing [simp]: "Reactor_wf (r\<lparr>r_runloop_executing := b\<rparr>) \<longleftrightarrow> Reactor_wf r"
  by (simp add: Reactor_wf_def)

lemma ready_size: "Reactor_wf r \<Longrightarrow> functor_list_size (r_ready_list r) = Inr (int (length (ready r)))"
  by (simp add: Reactor_wf_def functor_list_size_count)

lemma length_le_weights: "(\<And>x. 1 \<le> weight x) \<Longrightarrow> length xs \<le> sum_list (map weight xs)"
  for weight :: "'a \<Rightarrow> nat"
proof (induction xs)
  case (Cons x xs)
  from Cons.IH [OF Cons.prems] Cons.prems [of x] show ?case by simp
qed simp

lemma run_ready_step:
  assumes wf: "Reactor_wf r" and rd: "ready r = fn # rest"
  shows "\<exists>l. functor_list_remove (r_ready_list r) = Inr (fn, l) \<and> fl_contents l = rest \<and>
             Reactor_wf (r\<lparr>r_ready_list := l, r_runloop_executing := b\<rparr>)"
proof -
  have "fl_wf (r_ready_list r)" using wf by (simp add: Reactor_wf_def)
  from functor_list_remove_some [OF this rd] obtain l where "functor_list_remove (r_ready_list r) = Inr (fn, l)"
    "fl_wf l" "fl_contents l = rest" "fl_capacity l = fl_capacity (r_ready_list r)" by blast
  with Reactor_wf_ready_update [OF wf] show ?thesis by blast
qed

text \<open>
  The reactor runs everything that is ready, in the order of posting, before it looks for
  events again: if the posted functions return and the work each brings is bounded by a weight
  of at most 2047 in all, running the ready list ends with it empty, and the functors that ran
  are those that were ready followed by what each of them posted, in that order.
\<close>

theorem run_ready_fifo:
  fixes weight :: "rfunctor \<Rightarrow> nat"
  assumes "polite code posts" and "\<forall>fn. Suc (sum_list (map weight (posts fn))) \<le> weight fn"
    and "Reactor_wf r" and "sum_list (map weight (ready r)) \<le> 2047"
    and "sum_list (map weight (ready r)) < n"
  shows "\<exists>ran r'. run_ready code n r = Inr (ran, r') \<and> Reactor_wf r' \<and> ready r' = [] \<and>
                  ran = ready r @ concat (map posts ran)"
  using assms(3-5)
proof (induction n arbitrary: r)
  case (Suc n)
  have w1: "1 \<le> weight x" for x using assms(2) [rule_format, of x] by simp
  show ?case
  proof (cases "ready r")
    case Nil
    with Suc.prems(1) show ?thesis by (simp add: ready_size)
  next
    case (Cons fn rest)
    from run_ready_step [OF Suc.prems(1) Cons, of True] obtain l where
      l: "functor_list_remove (r_ready_list r) = Inr (fn, l)" "fl_contents l = rest"
      "Reactor_wf (r\<lparr>r_ready_list := l, r_runloop_executing := True\<rparr>)" by blast
    have wt: "Suc (sum_list (map weight (rest @ posts fn))) \<le> sum_list (map weight (ready r))"
      using assms(2) [rule_format, of fn] by (simp add: Cons)
    have "length (rest @ posts fn) \<le> sum_list (map weight (rest @ posts fn))"
      using w1 by (rule length_le_weights)
    with wt Suc.prems(2) have "length rest + length (posts fn) \<le> 2047" by simp
    then have room: "length (ready (r\<lparr>r_ready_list := l, r_runloop_executing := True\<rparr>)) + length (posts fn) \<le> 2047"
      using l(2) by (simp del: length_fl_contents)
    from assms(1) [unfolded polite_def, rule_format, OF conjI [OF l(3) room]] l(2) obtain r1 where
      r1: "Functor_call code fn (r\<lparr>r_ready_list := l, r_runloop_executing := True\<rparr>) = Inr r1"
      "Reactor_wf r1" "ready r1 = rest @ posts fn" by auto
    define r2 where "r2 = r1\<lparr>r_runloop_executing := False\<rparr>"
    have r2: "Reactor_wf r2" "ready r2 = rest @ posts fn" using r1 by (simp_all add: r2_def)
    have sz: "functor_list_size (r_ready_list r1) = Inr (int (length (rest @ posts fn)))"
      using ready_size [OF r1(2)] unfolding r1(3) .
    have sz0: "functor_list_size (r_ready_list r) = Inr (int (Suc (length rest)))"
      using ready_size [OF Suc.prems(1)] unfolding Cons by simp
    have unf: "run_ready code (Suc n) r =
        (if rest @ posts fn = [] then Inr ([fn], r2)
         else rbind (run_ready code n r2) (\<lambda>(ran, r3). Inr (fn # ran, r3)))"
      using Suc.prems(1) l(1) r1(1) r2(1) sz sz0
      by (simp add: r2_def [symmetric] del: of_nat_add)
    show ?thesis
    proof (cases "rest @ posts fn = []")
      case True
      with r2 show ?thesis unfolding unf by (simp add: Cons)
    next
      case False
      have "sum_list (map weight (ready r2)) \<le> 2047" "sum_list (map weight (ready r2)) < n"
        using wt Suc.prems(2,3) by (simp_all add: r2(2))
      from Suc.IH [OF r2(1) this] obtain ran r' where
        "run_ready code n r2 = Inr (ran, r')" "Reactor_wf r'" "ready r' = []"
        "ran = ready r2 @ concat (map posts ran)" by blast
      with False show ?thesis unfolding unf if_not_P [OF False] by (simp add: Cons r2(2))
    qed
  qed
qed simp

text \<open>The function at address 5 posts the function at address 6 once; that one posts nothing.\<close>

definition demo_code :: "nat code" where
  "demo_code f a r = (if f = 5 then rtor_reactor_post r 6 a else Inr r)"

definition demo_posts :: "rfunctor \<Rightarrow> rfunctor list" where
  "demo_posts fn = (if fn_f fn = 5 then [\<lparr>fn_f = 6, fn_arg = fn_arg fn\<rparr>] else [])"

lemma demo_polite: "polite demo_code demo_posts"
  unfolding polite_def
proof (intro allI impI)
  fix fn and r :: "nat Reactor"
  assume "Reactor_wf r \<and> length (ready r) + length (demo_posts fn) \<le> 2047"
  then show "\<exists>r'. Functor_call demo_code fn r = Inr r' \<and> Reactor_wf r' \<and> ready r' = ready r @ demo_posts fn"
    using rtor_reactor_post_ok [of r 6 "fn_arg fn"]
    by (auto simp: Functor_call_def demo_code_def demo_posts_def)
qed

theorem run_ready_fifo_witness:
  "\<exists>r0 r1 r2 :: nat Reactor. \<exists>ran r'. rtor_reactor_post r0 5 40 = Inr r1 \<and> rtor_reactor_post r1 7 41 = Inr r2 \<and>
     run_ready demo_code 10 r2 = Inr (ran, r') \<and> ready r' = [] \<and>
     ran = [\<lparr>fn_f = 5, fn_arg = 40\<rparr>, \<lparr>fn_f = 7, fn_arg = 41\<rparr>, \<lparr>fn_f = 6, fn_arg = 40\<rparr>]"
proof -
  obtain r0 :: "nat Reactor" where r0: "Reactor_wf r0" "ready r0 = []" by (rule demo_reactor)
  have "length (ready r0) < 2047" unfolding r0(2) by simp
  from rtor_reactor_post_ok [OF r0(1) this, of 5 40] obtain r1 where
    r1: "rtor_reactor_post r0 5 40 = Inr r1" "Reactor_wf r1" "ready r1 = [\<lparr>fn_f = 5, fn_arg = 40\<rparr>]"
    unfolding r0(2) by auto
  have "length (ready r1) < 2047" unfolding r1(3) by simp
  from rtor_reactor_post_ok [OF r1(2) this, of 7 41] obtain r2 where
    r2: "rtor_reactor_post r1 7 41 = Inr r2" "Reactor_wf r2"
      "ready r2 = [\<lparr>fn_f = 5, fn_arg = 40\<rparr>, \<lparr>fn_f = 7, fn_arg = 41\<rparr>]"
    unfolding r1(3) by auto
  define weight :: "rfunctor \<Rightarrow> nat" where "weight fn = (if fn_f fn = 5 then 2 else 1)" for fn
  have "\<forall>fn. Suc (sum_list (map weight (demo_posts fn))) \<le> weight fn"
    by (auto simp: weight_def demo_posts_def)
  from run_ready_fifo [OF demo_polite this r2(2), of 10] obtain ran r' where
    r': "run_ready demo_code 10 r2 = Inr (ran, r')" "ready r' = []"
      "ran = ready r2 @ concat (map demo_posts ran)"
    unfolding r2(3) by (auto simp: weight_def)
  obtain rest where rest: "ran = \<lparr>fn_f = 5, fn_arg = 40\<rparr> # \<lparr>fn_f = 7, fn_arg = 41\<rparr> # rest"
    using r'(3) r2(3) by simp
  with r'(3) r2(3) have eq: "rest = \<lparr>fn_f = 6, fn_arg = 40\<rparr> # concat (map demo_posts rest)"
    by (simp add: demo_posts_def)
  then obtain more where more: "rest = \<lparr>fn_f = 6, fn_arg = 40\<rparr> # more" by blast
  with eq have fx: "more = concat (map demo_posts more)" by (simp add: demo_posts_def)
  have "\<forall>m\<in>set (concat (map demo_posts more)). fn_f m = 6"
    by (auto simp: demo_posts_def split: if_splits)
  then have "\<forall>m\<in>set more. fn_f m = 6" unfolding fx [symmetric] .
  then have "\<forall>m\<in>set more. demo_posts m = []" by (simp add: demo_posts_def)
  then have "concat (map demo_posts more) = []" by simp
  with fx have "more = []" by simp
  with rest more r1(1) r2(1) r'(1,2) show ?thesis by blast
qed

section \<open>Events\<close>

text \<open>
  The events of one \<open>epoll_wait\<close> are delivered in order, each to the watcher registered
  for its descriptor, as long as the handlers leave the registrations as they are.
\<close>

theorem dispatch_in_order:
  assumes keep: "\<forall>w m r r'. Reactor_wf r \<and> handler w m r = Inr r' \<longrightarrow>
      Reactor_wf r' \<and> ft_view (r_table r') = ft_view (r_table r)"
    and "Reactor_wf r" and "\<forall>ev\<in>set evs. ft_view (r_table r) (fst ev) \<noteq> None"
  shows "dispatch_events handler evs r =
         rfold (\<lambda>ev. handler (the (ft_view (r_table r) (fst ev))) (snd ev)) evs r"
  using assms(2,3)
proof (induction evs arbitrary: r)
  case (Cons ev evs)
  then obtain w where w: "ft_view (r_table r) (fst ev) = Some w" by auto
  have t: "ft_wf (r_table r)" using Cons.prems(1) by (simp add: Reactor_wf_def)
  have one: "dispatch_event handler ev r = rbind (handler w (snd ev) r) (\<lambda>r1. rbind (rtor_check r1) (\<lambda>_. Inr r1))"
    by (simp add: dispatch_event_def Cons.prems(1) fdt.look_some [OF t w])
  show ?case
  proof (cases "handler w (snd ev) r")
    case (Inl e)
    then show ?thesis using one by (simp add: dispatch_events_def w)
  next
    case (Inr r1)
    with keep Cons.prems(1) have r1: "Reactor_wf r1" "ft_view (r_table r1) = ft_view (r_table r)" by blast+
    from Cons.IH [OF r1(1)] Cons.prems(2) Inr one w show ?thesis
      by (simp add: dispatch_events_def r1)
  qed
qed (simp add: dispatch_events_def)

definition demo_handler :: "nat handlers" where
  "demo_handler w m r = Inr (r\<lparr>r_app := r_app r * 10 + w\<rparr>)"

lemma demo_registered:
  obtains r r2 :: "nat Reactor" where "rfold reg_step [Reg 4 EPOLLIN 1, Reg 5 EPOLLIN 2] r = Inr r2"
    "Reactor_wf r2" "ft_view (r_table r2) = [4 \<mapsto> 1, 5 \<mapsto> 2]" "r_itq r2 = None" "ready r2 = []"
proof -
  obtain r :: "nat Reactor" where r: "Reactor_wf r" "ft_view (r_table r) = Map.empty"
    "k_open (r_kernel r) = k_open demo_kernel" "r_itq r = None" "ready r = []" by (rule demo_reactor)
  have ok: "fd_ok 4" "fd_ok 5" by (simp_all add: fd_ok_def RTOR_FDTABLE_MAX_def RTOR_MAX_FDS_def)
  from rtor_reactor_register_ok [OF r(1) ok(1), of EPOLLIN 1] r obtain r1 where
    r1: "rtor_reactor_register r 4 EPOLLIN 1 = Inr r1" "Reactor_wf r1" "ft_view (r_table r1) = [4 \<mapsto> 1]"
      "k_open (r_kernel r1) = k_open demo_kernel" "r_itq r1 = None" "ready r1 = []" by (auto simp: demo_kernel_def)
  from rtor_reactor_register_ok [OF r1(2) ok(2), of EPOLLIN 2] r1 obtain r2 where
    r2: "rtor_reactor_register r1 5 EPOLLIN 2 = Inr r2" "Reactor_wf r2"
      "ft_view (r_table r2) = [4 \<mapsto> 1, 5 \<mapsto> 2]" "r_itq r2 = None" "ready r2 = []" by (auto simp: demo_kernel_def)
  with r1(1) that [of r r2] show thesis by simp
qed

theorem dispatch_in_order_witness:
  "\<exists>r0 r' :: nat Reactor. rfold reg_step [Reg 4 EPOLLIN 1, Reg 5 EPOLLIN 2] r0 = Inr r' \<and>
     dispatch_events demo_handler [(5, EPOLLIN), (4, EPOLLIN)] r' =
     rfold (\<lambda>ev. demo_handler (the (ft_view (r_table r') (fst ev))) (snd ev)) [(5, EPOLLIN), (4, EPOLLIN)] r'"
proof -
  obtain r r2 :: "nat Reactor" where r2: "rfold reg_step [Reg 4 EPOLLIN 1, Reg 5 EPOLLIN 2] r = Inr r2"
    "Reactor_wf r2" "ft_view (r_table r2) = [4 \<mapsto> 1, 5 \<mapsto> 2]" by (rule demo_registered)
  have keep: "\<forall>w m r r'. Reactor_wf r \<and> demo_handler w m r = Inr r' \<longrightarrow>
      Reactor_wf r' \<and> ft_view (r_table r') = ft_view (r_table r)"
    by (auto simp: demo_handler_def Reactor_wf_def)
  have "dispatch_events demo_handler [(5, EPOLLIN), (4, EPOLLIN)] r2 =
     rfold (\<lambda>ev. demo_handler (the (ft_view (r_table r2) (fst ev))) (snd ev)) [(5, EPOLLIN), (4, EPOLLIN)] r2"
    by (rule dispatch_in_order [OF keep r2(2)]) (simp add: r2(3))
  with r2(1) show ?thesis by blast
qed

text \<open>
  A handler that deregisters a descriptor whose event is still to come in the same batch
  stops the program: the look-up for the stale event fails its assertion.
\<close>

theorem dispatch_stale_event_asserts:
  assumes "Reactor_wf r" and "ft_view (r_table r) fd1 = Some w1" and "ft_view (r_table r) fd2 = Some w2"
    and "handler w1 m1 r = rtor_reactor_deregister r fd2"
  shows "dispatch_events handler ((fd1, m1) # (fd2, m2) # evs) r = Inl Assertion"
proof -
  from rtor_reactor_deregister_ok [OF assms(1,3)] obtain r1 where
    r1: "rtor_reactor_deregister r fd2 = Inr r1" "Reactor_wf r1"
      "ft_view (r_table r1) = (ft_view (r_table r))(fd2 := None)" by blast
  have t: "ft_wf (r_table r)" "ft_wf (r_table r1)" using assms(1) r1(2) by (simp_all add: Reactor_wf_def)
  have "fd_ok fd2" using fdt.view_range [OF t(1), of fd2] assms(3) by simp
  with r1(3) have "FdTable_lookup (r_table r1) fd2 = Inl Assertion"
    by (intro fdt.look_none [OF t(2)]) simp_all
  with assms r1(1,2) fdt.look_some [OF t(1) assms(2)] show ?thesis
    by (simp add: dispatch_events_def dispatch_event_def)
qed

lemma table_nonempty:
  assumes "Reactor_wf r" and "ft_view (r_table r) fd \<noteq> None"
  shows "ft_count (r_table r) \<noteq> 0"
proof -
  have "ft_wf (r_table r)" using assms(1) by (simp add: Reactor_wf_def)
  then have "unat (ft_count (r_table r)) = card (dom (ft_view (r_table r)))" "finite (dom (ft_view (r_table r)))"
    by (simp_all add: fdt.cnt_card fdt.view_finite)
  moreover have "dom (ft_view (r_table r)) \<noteq> {}" using assms(2) by auto
  ultimately show ?thesis by (metis card_eq_0_iff unat_0)
qed

text \<open>
  The reactor must not be started with work already posted: while a descriptor other than
  the inter-thread queue is registered, running it with a non-empty ready list stops at the
  assertion at the head of the loop, before any event is looked at.
\<close>

theorem run_after_post_asserts:
  assumes "Reactor_wf r" and "ready r \<noteq> []" and "ft_view (r_table r) fd = Some w" and "r_itq r = None"
  shows "rtor_reactor_run handler code n outs r = Inl Assertion"
proof -
  have "ft_wf (r_table r)" using assms(1) by (simp add: Reactor_wf_def)
  moreover have "ft_count (r_table r) \<noteq> 0" using table_nonempty [OF assms(1), of fd] assms(3) by simp
  moreover have "int (length (ready r)) \<noteq> 0" using assms(2) by (simp del: length_fl_contents)
  ultimately have "run_head r = Inl Assertion"
    using assms(1,4) by (simp add: run_head_def FdTable_size_def ready_size del: length_fl_contents)
  then show ?thesis by (cases outs) simp_all
qed

theorem dispatch_stale_event_asserts_witness:
  "\<exists>r :: nat Reactor. Reactor_wf r \<and>
     dispatch_events (\<lambda>w m r. rtor_reactor_deregister r 5) [(4, EPOLLIN), (5, EPOLLIN)] r = Inl Assertion"
proof -
  obtain r r2 :: "nat Reactor" where r2: "Reactor_wf r2" "ft_view (r_table r2) = [4 \<mapsto> 1, 5 \<mapsto> 2]"
    by (rule demo_registered)
  have "dispatch_events (\<lambda>w m r. rtor_reactor_deregister r 5) [(4, EPOLLIN), (5, EPOLLIN)] r2 = Inl Assertion"
    by (rule dispatch_stale_event_asserts [OF r2(1), of 4 1 5 2]) (simp_all add: r2(2))
  with r2(1) show ?thesis by blast
qed

theorem run_after_post_asserts_witness:
  "\<exists>r r1 :: nat Reactor. rtor_reactor_post r 5 40 = Inr r1 \<and>
     rtor_reactor_run demo_handler demo_code 100 [Wait_events [(4, EPOLLIN)]] r1 = Inl Assertion"
proof -
  obtain r0 r :: "nat Reactor" where r: "Reactor_wf r" "ft_view (r_table r) = [4 \<mapsto> 1, 5 \<mapsto> 2]"
    "r_itq r = None" "ready r = []" by (rule demo_registered)
  have "length (ready r) < 2047" unfolding r(4) by simp
  from rtor_reactor_post_ok [OF r(1) this, of 5 40] obtain r1 where
    r1: "rtor_reactor_post r 5 40 = Inr r1" "Reactor_wf r1" "ready r1 \<noteq> []" "r_table r1 = r_table r" by auto
  from r1(1) r(3) have q: "r_itq r1 = None" by (auto simp: rtor_reactor_post_def rbind_eq_Inr)
  have "ft_view (r_table r1) 4 = Some 1" by (simp add: r1(4) r(2))
  from run_after_post_asserts [OF r1(2,3) this q] r1(1) show ?thesis by blast
qed

section \<open>The inter-thread queue\<close>

definition Evfdq_wf :: "EvfdQueue \<Rightarrow> bool" where
  "Evfdq_wf q \<longleftrightarrow> fl_wf (eq_list q) \<and> fl_capacity (eq_list q) = int RTOR_MAX_FDS \<and>
                  unat (eq_counter q) \<le> 2 ^ 64 - 2"

lemma Evfdq_new_ok:
  "\<exists>q. Evfdq_new fd = Inr q \<and> Evfdq_wf q \<and> fl_contents (eq_list q) = [] \<and> eq_counter q = 0 \<and>
       Evfdq_readfd q = fd"
proof -
  have "0 < int RTOR_MAX_FDS" "int RTOR_MAX_FDS \<le> RTOR_READY_LIST_MAX"
    by (simp_all add: RTOR_READY_LIST_MAX_def RTOR_MAX_FDS_def)
  from fl_wf_new [OF this] obtain l :: "rfunctor FunctorList" where
    l: "functor_list_new (int RTOR_MAX_FDS) = Inr l" "fl_wf l" "fl_contents l = []" by blast
  moreover from l(1) have "fl_capacity l = int RTOR_MAX_FDS"
    by (auto simp: functor_list_new_def rbind_eq_Inr Let_def)
  ultimately show ?thesis
    by (simp add: Evfdq_new_def Evfdq_init_def mk_fds_def evfd_read_def Evfdq_wf_def Evfdq_readfd_def
        numeral_2_eq_2)
qed

lemma Evfdq_add_ok:
  assumes "Evfdq_wf q" and "length (fl_contents (eq_list q)) < 1023"
  shows "\<exists>q'. Evfdq_add q fn = Inr q' \<and> Evfdq_wf q' \<and>
              fl_contents (eq_list q') = fl_contents (eq_list q) @ [fn] \<and> eq_counter q' \<noteq> 0"
proof -
  have l: "fl_wf (eq_list q)" "fl_count (eq_list q) < fl_room (eq_list q)"
    using assms by (simp_all add: Evfdq_wf_def fl_room_def RTOR_MAX_FDS_def)
  from functor_list_add_room [OF this, of fn] obtain l' where
    l': "functor_list_add (eq_list q) fn = Inr l'" "fl_wf l'" "fl_contents l' = fl_contents (eq_list q) @ [fn]"
      "fl_capacity l' = fl_capacity (eq_list q)" by blast
  have c: "unat (evfd_write 1 (eq_counter q)) \<le> 2 ^ 64 - 2" "evfd_write 1 (eq_counter q) \<noteq> 0"
    using assms(1) by (auto simp: evfd_write_def Evfdq_wf_def unat_plus_if' word_unat_eq_iff)
  then show ?thesis using l' assms(1) by (simp add: Evfdq_add_def Evfdq_wf_def)
qed

text \<open>
  A wake-up of the inter-thread queue is lost: removing one functor reads the eventfd and so
  clears the whole count, although further functors are still queued; with two functors queued
  the reactor handles the first, and the second stays in the queue while its descriptor is no
  longer readable.
\<close>

theorem Evfdq_remove_loses_wakeup:
  assumes "Evfdq_wf q" and "fl_contents (eq_list q) = a # b # rest"
  shows "\<exists>q'. Evfdq_remove q = Inr (a, q') \<and> fl_contents (eq_list q') = b # rest \<and> eq_counter q' = 0"
proof -
  have "fl_wf (eq_list q)" using assms(1) by (simp add: Evfdq_wf_def)
  from functor_list_remove_some [OF this assms(2)] show ?thesis
    by (auto simp: Evfdq_remove_def evfd_read_def)
qed

theorem Evfdq_remove_loses_wakeup_witness:
  "\<exists>q0 q1 q2 q3. Evfdq_new 6 = Inr q0 \<and> Evfdq_add q0 \<lparr>fn_f = 1, fn_arg = 10\<rparr> = Inr q1 \<and>
     Evfdq_add q1 \<lparr>fn_f = 2, fn_arg = 20\<rparr> = Inr q2 \<and> Evfdq_remove q2 = Inr (\<lparr>fn_f = 1, fn_arg = 10\<rparr>, q3) \<and>
     fl_contents (eq_list q3) = [\<lparr>fn_f = 2, fn_arg = 20\<rparr>] \<and> eq_counter q3 = 0"
proof -
  obtain q0 where q0: "Evfdq_new 6 = Inr q0" "Evfdq_wf q0" "fl_contents (eq_list q0) = []"
    using Evfdq_new_ok by blast
  have "length (fl_contents (eq_list q0)) < 1023" unfolding q0(3) by simp
  from Evfdq_add_ok [OF q0(2) this] obtain q1 where
    q1: "Evfdq_add q0 \<lparr>fn_f = 1, fn_arg = 10\<rparr> = Inr q1" "Evfdq_wf q1"
      "fl_contents (eq_list q1) = [\<lparr>fn_f = 1, fn_arg = 10\<rparr>]" unfolding q0(3) append_Nil by blast
  have "length (fl_contents (eq_list q1)) < 1023" unfolding q1(3) by simp
  from Evfdq_add_ok [OF q1(2) this] obtain q2 where
    q2: "Evfdq_add q1 \<lparr>fn_f = 2, fn_arg = 20\<rparr> = Inr q2" "Evfdq_wf q2"
      "fl_contents (eq_list q2) = [\<lparr>fn_f = 1, fn_arg = 10\<rparr>, \<lparr>fn_f = 2, fn_arg = 20\<rparr>]"
    unfolding q1(3) append.simps by blast
  from Evfdq_remove_loses_wakeup [OF q2(2,3)] q0(1) q1(1) q2(1) show ?thesis by blast
qed

section \<open>Closing the reactor\<close>

lemma close_loop_step:
  assumes "0 \<le> i" and "ft_fds i (drop (nat i) (ft_entries t)) = fd # fds" and "ft_wf t"
  shows "ft_scan i (drop (nat i) (ft_entries t)) = fd" "i \<le> fd" "fd < int RTOR_FDTABLE_MAX"
    "fds = ft_fds (fd + 1) (drop (nat (fd + 1)) (ft_entries t))"
proof -
  let ?es = "drop (nat i) (ft_entries t)"
  from ft_scan_cases [OF assms(1), of ?es] assms(2) obtain k where
    k: "k < length ?es" "ft_scan i ?es = i + int k"
      "fd # fds = (i + int k) # ft_fds (i + int k + 1) (drop (Suc k) ?es)" by auto
  from k assms(1,3) show "ft_scan i ?es = fd" "i \<le> fd" "fd < int RTOR_FDTABLE_MAX"
    by (auto simp: ft_wf_def)
  have "nat (fd + 1) = Suc k + nat i" using k(3) assms(1) by (simp add: nat_add_distrib)
  with k(3) show "fds = ft_fds (fd + 1) (drop (nat (fd + 1)) (ft_entries t))" by simp
qed

lemma close_loop_all:
  assumes "ft_wf t" and "0 \<le> i" and "ft_fds i (drop (nat i) (ft_entries t)) = fds"
    and "length fds < n" and "int RTOR_FDTABLE_MAX - 1 \<notin> set fds"
  shows "close_loop n t (ft_scan i (drop (nat i) (ft_entries t))) k = Inr (foldl (\<lambda>k fd. snd (sys_close k fd)) k fds)"
  using assms(2-)
proof (induction fds arbitrary: i n k)
  case Nil
  then have "ft_scan i (drop (nat i) (ft_entries t)) = - 1"
    using ft_scan_cases [of i "drop (nat i) (ft_entries t)"] by auto
  with Nil(3) show ?case by (cases n) simp_all
next
  case (Cons fd fds)
  note st = close_loop_step [OF Cons.prems(1,2) assms(1)]
  from Cons.prems(3) obtain n' where n: "n = Suc n'" "length fds < n'" by (cases n) auto
  have fd: "0 \<le> fd" "fd + 1 < int RTOR_FDTABLE_MAX"
    using st(2,3) Cons.prems(1,4) by auto
  have "0 \<le> fd + 1" and notin: "int RTOR_FDTABLE_MAX - 1 \<notin> set fds" using fd(1) Cons.prems(4) by auto
  from Cons.IH [OF this(1) st(4) [symmetric] n(2) notin]
  show ?case using fd unfolding st(1) n(1)
    by (simp add: FdTable_next_iterator_step [OF assms(1)])
qed

lemma sys_close_fold:
  "k_open (foldl (\<lambda>k fd. snd (sys_close k fd)) k fds) fd \<longleftrightarrow> k_open k fd \<and> fd \<notin> set fds"
  by (induction fds arbitrary: k) (auto simp: sys_close_def)

text \<open>
  Closing the reactor closes the epoll instance and every descriptor that has a watcher, and
  nothing else, unless the last entry of the table is in use: its successor is asked for before
  the loop can end.
\<close>

theorem reactor_close_closes_registered:
  assumes "Reactor_wf r" and "k_open (r_kernel r) (r_epoll_fd r)"
    and "ft_view (r_table r) (int RTOR_FDTABLE_MAX - 1) = None"
  shows "\<exists>r'. rtor_reactor_close r = Inr r' \<and> r_closed_flag r' \<and> r_tag r' = r_tag r \<and> r_table r' = r_table r \<and> r_itq_watcher r' = r_itq_watcher r \<and>
              (\<forall>fd. k_open (r_kernel r') fd \<longleftrightarrow>
                 k_open (r_kernel r) fd \<and> fd \<noteq> r_epoll_fd r \<and> ft_view (r_table r) fd = None)"
proof -
  have t: "ft_wf (r_table r)" using assms(1) by (simp add: Reactor_wf_def)
  let ?fds = "ft_list (r_table r)"
  obtain k where cl: "close_epoll (r_kernel r) (r_epoll_fd r) = (0, k)"
    using assms(2) by (simp add: close_epoll_def sys_close_def)
  have len: "length ?fds < Suc RTOR_FDTABLE_MAX"
  proof -
    have "distinct ?fds" unfolding ft_list_def using ft_fds_sorted strict_sorted_iff by blast
    then have "length ?fds = card (dom (ft_view (r_table r)))"
      using distinct_card set_ft_list by metis
    also have "\<dots> \<le> card {0..<int RTOR_FDTABLE_MAX}"
      using fdt.view_range [OF t] by (intro card_mono) (auto simp: fd_ok_def)
    finally show ?thesis by simp
  qed
  have "int RTOR_FDTABLE_MAX - 1 \<notin> set ?fds" using assms(3) by (simp add: set_ft_list domIff)
  from close_loop_all [OF t, of 0, OF _ _ len this] have
    loop: "close_loop (Suc RTOR_FDTABLE_MAX) (r_table r) (ft_scan 0 (ft_entries (r_table r))) k =
           Inr (foldl (\<lambda>k fd. snd (sys_close k fd)) k ?fds)" by (simp add: ft_list_def)
  have op: "k_open k fd \<longleftrightarrow> k_open (r_kernel r) fd \<and> fd \<noteq> r_epoll_fd r" for fd
    using assms(2) cl by (auto simp: close_epoll_def sys_close_def split: if_splits)
  define r' where "r' = r\<lparr>r_closed_flag := True, r_kernel := foldl (\<lambda>k fd. snd (sys_close k fd)) k ?fds\<rparr>"
  have "rtor_reactor_close r = Inr r'"
    unfolding rtor_reactor_close_def using assms(1) loop
    by (subst Reactor_wf_check) (simp_all add: cl FdTable_iterator_def t r'_def del: close_loop.simps)
  moreover have "k_open (r_kernel r') fd \<longleftrightarrow>
      k_open (r_kernel r) fd \<and> fd \<noteq> r_epoll_fd r \<and> ft_view (r_table r) fd = None" for fd
    by (simp add: r'_def sys_close_fold op set_ft_list domIff)
  ultimately show ?thesis by (auto simp: r'_def)
qed

theorem reactor_close_closes_registered_witness:
  "\<exists>r r' :: nat Reactor. rtor_reactor_new 3 demo_kernel 0 = Inr r \<and> rtor_reactor_close r = Inr r' \<and>
     \<not> k_open (r_kernel r') 3 \<and> k_open (r_kernel r') 4"
proof -
  obtain r :: "nat Reactor" where r: "rtor_reactor_new 3 demo_kernel 0 = Inr r" "Reactor_wf r"
    "ft_view (r_table r) = Map.empty" "k_open (r_kernel r) = k_open demo_kernel" by (rule demo_reactor)
  from r(1) have e: "r_epoll_fd r = 3"
    by (auto simp: rtor_reactor_new_def rtor_reactor_init_def rbind_eq_Inr)
  have "k_open (r_kernel r) (r_epoll_fd r)" "ft_view (r_table r) (int RTOR_FDTABLE_MAX - 1) = None"
    by (simp_all add: r(3,4) e demo_kernel_def)
  from reactor_close_closes_registered [OF r(2) this] obtain r' where
    r': "rtor_reactor_close r = Inr r'" "\<forall>fd. k_open (r_kernel r') fd \<longleftrightarrow>
      k_open (r_kernel r) fd \<and> fd \<noteq> r_epoll_fd r \<and> ft_view (r_table r) fd = None" by blast
  have "\<not> k_open (r_kernel r') 3" "k_open (r_kernel r') 4"
    using r'(2) by (simp_all add: e r(3,4) demo_kernel_def)
  with r(1) r'(1) show ?thesis by blast
qed

text \<open>Freeing an open reactor without an inter-thread queue.\<close>

lemma rtor_reactor_free_ok:
  assumes "Reactor_wf r" and "k_open (r_kernel r) (r_epoll_fd r)"
    and "ft_view (r_table r) (int RTOR_FDTABLE_MAX - 1) = None" and "\<not> r_closed_flag r" and "r_itq_watcher r = None"
  shows "\<exists>k. rtor_reactor_free r = Inr k \<and>
     (\<forall>fd. k_open k fd \<longleftrightarrow> k_open (r_kernel r) fd \<and> fd \<noteq> r_epoll_fd r \<and> ft_view (r_table r) fd = None)"
proof -
  from reactor_close_closes_registered [OF assms(1-3)] obtain r' where r': "rtor_reactor_close r = Inr r'" "r_table r' = r_table r"
    "r_itq_watcher r' = r_itq_watcher r" "\<forall>fd. k_open (r_kernel r') fd \<longleftrightarrow>
      k_open (r_kernel r) fd \<and> fd \<noteq> r_epoll_fd r \<and> ft_view (r_table r) fd = None" by blast
  have "ft_wf (r_table r)" using assms(1) by (simp add: Reactor_wf_def)
  from FdTable_free_ok [OF this] r' assms(1,4,5) show ?thesis by (auto simp: rtor_reactor_free_def)
qed

end
