(* ===== verification/CH_Watchers.thy ===== *)
theory CH_Watchers
  imports CH_Reactor
begin

text \<open>
  The watchers of the reactor: streams (\<open>runloop/w_stream.c\<close>), listeners
  (\<open>runloop/w_listener.c\<close>), timers (\<open>runloop/w_timerfd.c\<close>), event descriptors over a pipe
  (\<open>runloop/w_eventfd.c\<close>) and the list based inter-thread queue on top of the last
  (\<open>runloop/interthread_queue.c\<close>).  A watcher operation takes the watcher and the reactor
  it belongs to; what the registered handlers do is a parameter.
\<close>

section \<open>Streams\<close>

definition WIoFd_TAG :: string where "WIoFd_TAG = ''XRWIOS''"

text \<open>
  \<open>st_both_handler\<close>, \<open>st_both_arg\<close> and \<open>st_context\<close> are \<open>None\<close> until they are written for the
  first time: the constructor does not set them.
\<close>

record RtorStream = RtorWatcher +
  st_event_mask :: "64 word"
  st_both_handler :: "code_ptr option option"
  st_both_arg :: "addr option option"
  st_read_evhandler :: "code_ptr option"
  st_read_arg :: "addr option"
  st_write_evhandler :: "code_ptr option"
  st_write_arg :: "addr option"
  st_context :: "addr option option"

abbreviation ev64 :: "32 word \<Rightarrow> 64 word" where
  "ev64 \<equiv> ucast"

type_synonym 'x stream_calls =
  "code_ptr \<Rightarrow> 64 word \<Rightarrow> RtorStream \<times> 'x Reactor \<Rightarrow> (RtorStream \<times> 'x Reactor) res"

text \<open>The first level handler; each test reads the stream as the handlers before it left it.\<close>

definition stream_handler :: "'x stream_calls \<Rightarrow> 64 word \<Rightarrow> RtorStream \<times> 'x Reactor \<Rightarrow> (RtorStream \<times> 'x Reactor) res" where
  "stream_handler call event s =
     rbind (case st_both_handler (fst s) of
              None \<Rightarrow> Inl UninitRead
            | Some None \<Rightarrow> Inr s
            | Some (Some h) \<Rightarrow> call h event s) (\<lambda>s1.
     rbind (case st_read_evhandler (fst s1) of
              Some h \<Rightarrow> if st_event_mask (fst s1) AND ev64 EPOLLIN \<noteq> 0 then call h event s1 else Inr s1
            | None \<Rightarrow> Inr s1) (\<lambda>s2.
       case st_write_evhandler (fst s2) of
         Some h \<Rightarrow> if st_event_mask (fst s2) AND ev64 EPOLLOUT \<noteq> 0 then call h event s2 else Inr s2
       | None \<Rightarrow> Inr s2))"

definition rtor_stream_init :: "addr \<Rightarrow> int \<Rightarrow> RtorStream" where
  "rtor_stream_init self fd =
     \<lparr>w_tag = WIoFd_TAG, w_type = XR_WATCHER_SOCKET, w_ref = self, w_fd = fd,
      st_event_mask = 0, st_both_handler = None, st_both_arg = None,
      st_read_evhandler = None, st_read_arg = None, st_write_evhandler = None, st_write_arg = None,
      st_context = None\<rparr>"

definition rtor_stream_new :: "addr \<Rightarrow> int \<Rightarrow> RtorStream" where
  "rtor_stream_new self fd = rtor_stream_init self fd"

definition rtor_stream_free :: "RtorStream \<Rightarrow> kernel \<Rightarrow> kernel res" where
  "rtor_stream_free s k = rbind (check_tag WIoFd_TAG (w_tag s)) (\<lambda>_. Inr (snd (sys_close k (w_fd s))))"

definition rtor_stream_register :: "RtorStream \<Rightarrow> 'x Reactor \<Rightarrow> 'x Reactor res" where
  "rtor_stream_register s r =
     rbind (check_tag WIoFd_TAG (w_tag s)) (\<lambda>_. rtor_reactor_register r (w_fd s) 0 (w_ref s))"

definition rtor_stream_deregister :: "RtorStream \<Rightarrow> 'x Reactor \<Rightarrow> 'x Reactor res" where
  "rtor_stream_deregister s r =
     rbind (check_tag WIoFd_TAG (w_tag s)) (\<lambda>_. rtor_reactor_deregister r (w_fd s))"

text \<open>The common end of the arming calls: tell the kernel the stream's mask, cut to 32 bits.\<close>

definition stream_rearm :: "RtorStream \<Rightarrow> 'x Reactor \<Rightarrow> (RtorStream \<times> 'x Reactor) res" where
  "stream_rearm s r =
     rbind (check_tag WIoFd_TAG (w_tag s)) (\<lambda>_.
     rbind (rtor_reactor_reregister r (w_fd s) (ucast (st_event_mask s)) (w_ref s)) (\<lambda>r1. Inr (s, r1)))"

definition rtor_stream_arm_both ::
  "RtorStream \<Rightarrow> code_ptr option \<Rightarrow> addr option \<Rightarrow> 'x Reactor \<Rightarrow> (RtorStream \<times> 'x Reactor) res" where
  "rtor_stream_arm_both s h arg r =
     (let interest = ev64 EPOLLET OR ev64 EPOLLOUT OR ev64 EPOLLIN OR ev64 EPOLLERR OR ev64 EPOLLHUP
                     OR ev64 EPOLLRDHUP OR st_event_mask s;
          s1 = s\<lparr>st_event_mask := interest\<rparr>;
          s2 = (if h \<noteq> None then s1\<lparr>st_both_handler := Some h\<rparr> else s1);
          s3 = (if arg \<noteq> None then s2\<lparr>st_both_arg := Some arg\<rparr> else s2)
      in stream_rearm s3 r)"

definition rtor_stream_arm_read ::
  "RtorStream \<Rightarrow> code_ptr option \<Rightarrow> addr option \<Rightarrow> 'x Reactor \<Rightarrow> (RtorStream \<times> 'x Reactor) res" where
  "rtor_stream_arm_read s h arg r =
     (let interest = ev64 EPOLLIN OR ev64 EPOLLERR OR ev64 EPOLLHUP OR ev64 EPOLLRDHUP OR st_event_mask s;
          s1 = s\<lparr>st_event_mask := interest\<rparr>;
          s2 = (if h \<noteq> None then s1\<lparr>st_read_evhandler := h\<rparr> else s1);
          s3 = (if arg \<noteq> None then s2\<lparr>st_read_arg := arg\<rparr> else s2)
      in stream_rearm s3 r)"

definition rtor_stream_arm_write ::
  "RtorStream \<Rightarrow> code_ptr option \<Rightarrow> addr option \<Rightarrow> 'x Reactor \<Rightarrow> (RtorStream \<times> 'x Reactor) res" where
  "rtor_stream_arm_write s h arg r =
     (let interest = ev64 EPOLLOUT OR ev64 EPOLLERR OR ev64 EPOLLHUP OR ev64 EPOLLRDHUP OR st_event_mask s;
          s1 = s\<lparr>st_event_mask := interest\<rparr>;
          s2 = (if h \<noteq> None then s1\<lparr>st_write_evhandler := h\<rparr> else s1);
          s3 = (if arg \<noteq> None then s2\<lparr>st_write_arg := arg\<rparr> else s2)
      in stream_rearm s3 r)"

definition rtor_stream_disarm_read :: "RtorStream \<Rightarrow> 'x Reactor \<Rightarrow> (RtorStream \<times> 'x Reactor) res" where
  "rtor_stream_disarm_read s r =
     stream_rearm (s\<lparr>st_event_mask := st_event_mask s AND NOT (ev64 EPOLLIN),
                     st_read_evhandler := None, st_read_arg := None\<rparr>) r"

definition rtor_stream_disarm_write :: "RtorStream \<Rightarrow> 'x Reactor \<Rightarrow> (RtorStream \<times> 'x Reactor) res" where
  "rtor_stream_disarm_write s r =
     stream_rearm (s\<lparr>st_event_mask := NOT (ev64 EPOLLOUT) AND st_event_mask s\<rparr>) r"

definition rtor_stream_get_fd :: "RtorStream \<Rightarrow> int" where
  "rtor_stream_get_fd s = w_fd s"

section \<open>Listeners\<close>

definition WListenerFd_TAG :: string where "WListenerFd_TAG = ''XRLSTNR''"

record RtorListener = RtorWatcher +
  ls_evhandler :: "code_ptr option"
  ls_arg :: "addr option"

definition listener_handler :: "(code_ptr \<Rightarrow> 64 word \<Rightarrow> 's \<Rightarrow> 's res) \<Rightarrow> RtorListener \<Rightarrow> 64 word \<Rightarrow> 's \<Rightarrow> 's res" where
  "listener_handler call l event s = (case ls_evhandler l of None \<Rightarrow> Inr s | Some h \<Rightarrow> call h event s)"

definition rtor_listener_init :: "addr \<Rightarrow> int \<Rightarrow> RtorListener" where
  "rtor_listener_init self fd =
     \<lparr>w_tag = WListenerFd_TAG, w_type = XR_WATCHER_LISTENER, w_ref = self, w_fd = fd,
      ls_evhandler = None, ls_arg = None\<rparr>"

definition rtor_listener_new :: "addr \<Rightarrow> int \<Rightarrow> RtorListener" where
  "rtor_listener_new self fd = rtor_listener_init self fd"

definition rtor_listener_verify :: "RtorListener \<Rightarrow> unit res" where
  "rtor_listener_verify l = check_tag WListenerFd_TAG (w_tag l)"

definition rtor_listener_free :: "RtorListener \<Rightarrow> kernel \<Rightarrow> kernel res" where
  "rtor_listener_free l k = rbind (rtor_listener_verify l) (\<lambda>_. Inr (snd (sys_close k (w_fd l))))"

definition listener_set :: "RtorListener \<Rightarrow> code_ptr option \<Rightarrow> addr option \<Rightarrow> RtorListener" where
  "listener_set l h arg =
     (let l1 = (if h \<noteq> None then l\<lparr>ls_evhandler := h\<rparr> else l)
      in if arg \<noteq> None then l1\<lparr>ls_arg := arg\<rparr> else l1)"

definition rtor_listener_register ::
  "RtorListener \<Rightarrow> code_ptr option \<Rightarrow> addr option \<Rightarrow> 'x Reactor \<Rightarrow> (RtorListener \<times> 'x Reactor) res" where
  "rtor_listener_register l h arg r =
     rbind (rtor_listener_verify l) (\<lambda>_.
       let l1 = listener_set l h arg
       in rbind (rtor_reactor_register r (w_fd l1) (EPOLLIN OR EPOLLEXCLUSIVE) (w_ref l1)) (\<lambda>r1. Inr (l1, r1)))"

definition rtor_listener_deregister :: "RtorListener \<Rightarrow> 'x Reactor \<Rightarrow> 'x Reactor res" where
  "rtor_listener_deregister l r =
     rbind (rtor_listener_verify l) (\<lambda>_. rtor_reactor_deregister r (w_fd l))"

definition rtor_listener_arm ::
  "RtorListener \<Rightarrow> code_ptr option \<Rightarrow> addr option \<Rightarrow> 'x Reactor \<Rightarrow> (RtorListener \<times> 'x Reactor) res" where
  "rtor_listener_arm l h arg r =
     rbind (rtor_listener_verify l) (\<lambda>_.
       let l1 = listener_set l h arg
       in rbind (rtor_reactor_reregister r (w_fd l1) EPOLLIN (w_ref l1)) (\<lambda>r1. Inr (l1, r1)))"

definition WListenerFd_disarm :: "RtorListener \<Rightarrow> 'x Reactor \<Rightarrow> 'x Reactor res" where
  "WListenerFd_disarm l r =
     rbind (rtor_listener_verify l) (\<lambda>_. rtor_reactor_reregister r (w_fd l) 0 (w_ref l))"

section \<open>Timers\<close>

definition WTimerFd_TAG :: string where "WTimerFd_TAG = ''XRTIMER''"

record itimerspec =
  it_value_sec :: "64 word"
  it_value_nsec :: "64 word"
  it_interval_sec :: "64 word"
  it_interval_nsec :: "64 word"

text \<open>\<open>tm_setting\<close> is what the last \<open>timerfd_settime\<close> told the kernel.\<close>

record RtorTimer = RtorWatcher +
  tm_interval :: "64 word"
  tm_repeating :: bool
  tm_timer_handler :: "code_ptr option"
  tm_timer_handler_arg :: "addr option"
  tm_context :: "addr option"
  tm_setting :: "itimerspec option"

text \<open>Like the kernel, refuses a nanosecond part of a second or more.\<close>

definition timerfd_settime :: "RtorTimer \<Rightarrow> itimerspec \<Rightarrow> int \<times> RtorTimer" where
  "timerfd_settime t its =
     (if it_value_nsec its < 1000000000 \<and> it_interval_nsec its < 1000000000
      then (0, t\<lparr>tm_setting := Some its\<rparr>) else (- 1, t))"

definition rtor_timer_init :: "addr \<Rightarrow> int \<Rightarrow> RtorTimer" where
  "rtor_timer_init self fd =
     \<lparr>w_tag = WTimerFd_TAG, w_type = XR_WATCHER_TIMER, w_ref = self, w_fd = fd, tm_interval = 0,
      tm_repeating = False, tm_timer_handler = None, tm_timer_handler_arg = None, tm_context = None,
      tm_setting = None\<rparr>"

definition rtor_timer_new :: "addr \<Rightarrow> int \<Rightarrow> RtorTimer" where
  "rtor_timer_new self fd = rtor_timer_init self fd"

definition rtor_timer_free :: "RtorTimer \<Rightarrow> kernel \<Rightarrow> kernel res" where
  "rtor_timer_free t k = rbind (check_tag WTimerFd_TAG (w_tag t)) (\<lambda>_. Inr (snd (sys_close k (w_fd t))))"

definition WTimerFd_update_interval ::
  "RtorTimer \<Rightarrow> 64 word \<Rightarrow> bool \<Rightarrow> (itimerspec \<times> RtorTimer) res" where
  "WTimerFd_update_interval t interval_ms repeating =
     rbind (check_tag WTimerFd_TAG (w_tag t)) (\<lambda>_.
       let t1 = t\<lparr>tm_repeating := repeating, tm_interval := interval_ms\<rparr>;
           ex_time_ns = 1000 * interval_ms;
           its = \<lparr>it_value_sec = ex_time_ns div 1000000, it_value_nsec = ex_time_ns mod 1000000,
                  it_interval_sec = 11, it_interval_nsec = 0\<rparr>
       in Inr (if tm_repeating t1
               then its\<lparr>it_interval_sec := it_value_sec its, it_interval_nsec := it_value_nsec its\<rparr>
               else its, t1))"

definition timer_set :: "RtorTimer \<Rightarrow> 64 word \<Rightarrow> bool \<Rightarrow> RtorTimer res" where
  "timer_set t interval_ms repeating =
     rbind (WTimerFd_update_interval t interval_ms repeating) (\<lambda>(its, t1).
       let (rc, t2) = timerfd_settime t1 its
       in rbind (c_assert (rc = 0)) (\<lambda>_. Inr t2))"

definition rtor_timer_register ::
  "RtorTimer \<Rightarrow> code_ptr option \<Rightarrow> addr option \<Rightarrow> 64 word \<Rightarrow> bool \<Rightarrow> 'x Reactor \<Rightarrow> (RtorTimer \<times> 'x Reactor) res" where
  "rtor_timer_register t cb ctx interval_ms repeating r =
     rbind (check_tag WTimerFd_TAG (w_tag t)) (\<lambda>_.
       let t1 = t\<lparr>tm_interval := interval_ms, tm_repeating := repeating, tm_timer_handler := cb,
                  tm_context := ctx, tm_timer_handler_arg := ctx\<rparr>
       in rbind (timer_set t1 interval_ms repeating) (\<lambda>t2.
          rbind (rtor_reactor_register r (w_fd t2) (EPOLLIN OR EPOLLERR) (w_ref t2)) (\<lambda>r1. Inr (t2, r1))))"

definition rtor_timer_update ::
  "RtorTimer \<Rightarrow> 64 word \<Rightarrow> bool \<Rightarrow> 'x Reactor \<Rightarrow> (RtorTimer \<times> 'x Reactor) res" where
  "rtor_timer_update t interval_ms repeating r =
     rbind (check_tag WTimerFd_TAG (w_tag t)) (\<lambda>_.
     rbind (timer_set t interval_ms repeating) (\<lambda>t1.
     rbind (rtor_reactor_reregister r (w_fd t1) 0 (w_ref t1)) (\<lambda>r1. Inr (t1, r1))))"

definition rtor_timer_disarm :: "RtorTimer \<Rightarrow> RtorTimer res" where
  "rtor_timer_disarm t =
     rbind (check_tag WTimerFd_TAG (w_tag t)) (\<lambda>_. timer_set t (tm_interval t) (tm_repeating t))"

definition rtor_timer_rearm_old ::
  "RtorTimer \<Rightarrow> code_ptr option \<Rightarrow> addr option \<Rightarrow> 64 word \<Rightarrow> bool \<Rightarrow> RtorTimer res" where
  "rtor_timer_rearm_old t cb ctx interval_ms repeating =
     rbind (check_tag WTimerFd_TAG (w_tag t)) (\<lambda>_.
       timer_set (t\<lparr>tm_repeating := repeating, tm_timer_handler := cb, tm_timer_handler_arg := ctx\<rparr>)
         interval_ms repeating)"

definition rtor_timer_rearm :: "RtorTimer \<Rightarrow> RtorTimer res" where
  "rtor_timer_rearm t =
     rbind (check_tag WTimerFd_TAG (w_tag t)) (\<lambda>_. timer_set t (tm_interval t) (tm_repeating t))"

definition rtor_timer_deregister :: "RtorTimer \<Rightarrow> 'x Reactor \<Rightarrow> 'x Reactor res" where
  "rtor_timer_deregister t r =
     rbind (check_tag WTimerFd_TAG (w_tag t)) (\<lambda>_. rtor_reactor_deregister r (w_fd t))"

text \<open>The first level handler: a timer that does not repeat is deregistered before its call.\<close>

definition timer_handler ::
  "(code_ptr \<Rightarrow> 64 word \<Rightarrow> 'x Reactor \<Rightarrow> 'x Reactor res) \<Rightarrow> RtorTimer \<Rightarrow> 64 word \<Rightarrow> 'x Reactor \<Rightarrow> 'x Reactor res" where
  "timer_handler call t event r =
     rbind (check_tag WTimerFd_TAG (w_tag t)) (\<lambda>_.
     rbind (if tm_repeating t then Inr r else rtor_timer_deregister t r) (\<lambda>r1.
       case tm_timer_handler t of None \<Rightarrow> Inl Assertion | Some h \<Rightarrow> call h event r1))"

section \<open>Event descriptors over a pipe\<close>

definition WEventFd_TAG :: string where "WEventFd_TAG = ''XRFDEV''"

text \<open>
  The pipe is opened without \<open>O_NONBLOCK\<close>: reading it while it is empty, and writing it while
  it is full, does not return.  \<open>ev_pipe\<close> is the number of bytes in it.
\<close>

record RtorEventfd = RtorWatcher +
  ev_handler :: "code_ptr option option"
  ev_arg :: "addr option option"
  ev_write_fd :: int
  ev_pipe :: nat

definition pipe_capacity :: nat where "pipe_capacity = 65536"

definition pipe_read8 :: "nat \<Rightarrow> (nat \<times> nat) res" where
  "pipe_read8 n = (if n = 0 then Inl NoReturn else Inr (min 8 n, n - min 8 n))"

definition pipe_write8 :: "nat \<Rightarrow> nat res" where
  "pipe_write8 n = (if n + 8 \<le> pipe_capacity then Inr (n + 8) else Inl NoReturn)"

definition rtor_eventfd_init :: "addr \<Rightarrow> int \<Rightarrow> int \<Rightarrow> RtorEventfd" where
  "rtor_eventfd_init self rfd wfd =
     \<lparr>w_tag = WEventFd_TAG, w_type = XR_WATCHER_FDEVENT, w_ref = self, w_fd = rfd, ev_handler = None,
      ev_arg = None, ev_write_fd = wfd, ev_pipe = 0\<rparr>"

definition rtor_eventfd_new :: "addr \<Rightarrow> int \<Rightarrow> int \<Rightarrow> RtorEventfd" where
  "rtor_eventfd_new self rfd wfd = rtor_eventfd_init self rfd wfd"

definition eventfd_check :: "RtorEventfd \<Rightarrow> unit res" where
  "eventfd_check e = check_tag WEventFd_TAG (w_tag e)"

definition eventfd_handler ::
  "(code_ptr \<Rightarrow> 64 word \<Rightarrow> RtorEventfd \<times> 'x Reactor \<Rightarrow> (RtorEventfd \<times> 'x Reactor) res) \<Rightarrow> 64 word \<Rightarrow>
   RtorEventfd \<times> 'x Reactor \<Rightarrow> (RtorEventfd \<times> 'x Reactor) res" where
  "eventfd_handler call event s =
     rbind (eventfd_check (fst s)) (\<lambda>_.
     rbind (pipe_read8 (ev_pipe (fst s))) (\<lambda>(nread, n).
       let s1 = ((fst s)\<lparr>ev_pipe := n\<rparr>, snd s)
       in if nread = 8
          then (case ev_handler (fst s1) of
                  None \<Rightarrow> Inl UninitRead
                | Some None \<Rightarrow> Inl NullDeref
                | Some (Some h) \<Rightarrow> call h event s1)
          else Inr s1))"

definition rtor_eventfd_free :: "RtorEventfd \<Rightarrow> kernel \<Rightarrow> kernel res" where
  "rtor_eventfd_free e k = rbind (eventfd_check e) (\<lambda>_. Inr (snd (sys_close k (w_fd e))))"

definition rtor_eventfd_register :: "RtorEventfd \<Rightarrow> 'x Reactor \<Rightarrow> (RtorEventfd \<times> 'x Reactor) res" where
  "rtor_eventfd_register e r =
     rbind (eventfd_check e) (\<lambda>_.
       let e1 = e\<lparr>ev_handler := Some None, ev_arg := Some None\<rparr>
       in rbind (rtor_reactor_register r (w_fd e1) 0 (w_ref e1)) (\<lambda>r1. Inr (e1, r1)))"

definition eventfd_set :: "RtorEventfd \<Rightarrow> code_ptr option \<Rightarrow> addr option \<Rightarrow> RtorEventfd" where
  "eventfd_set e h arg =
     (let e1 = (if h \<noteq> None then e\<lparr>ev_handler := Some h\<rparr> else e)
      in if arg \<noteq> None then e1\<lparr>ev_arg := Some arg\<rparr> else e1)"

definition rtor_eventfd_change_watch ::
  "RtorEventfd \<Rightarrow> code_ptr option \<Rightarrow> addr option \<Rightarrow> 64 word \<Rightarrow> 'x Reactor \<Rightarrow> (RtorEventfd \<times> 'x Reactor) res" where
  "rtor_eventfd_change_watch e h arg watch_what r =
     rbind (eventfd_check e) (\<lambda>_.
       let e1 = eventfd_set e h arg
       in rbind (rtor_reactor_reregister r (w_fd e1) (ucast watch_what) (w_ref e1)) (\<lambda>r1. Inr (e1, r1)))"

definition rtor_eventfd_deregister :: "RtorEventfd \<Rightarrow> 'x Reactor \<Rightarrow> 'x Reactor res" where
  "rtor_eventfd_deregister e r = rbind (eventfd_check e) (\<lambda>_. rtor_reactor_deregister r (w_fd e))"

definition rtor_eventfd_arm ::
  "RtorEventfd \<Rightarrow> code_ptr option \<Rightarrow> addr option \<Rightarrow> 'x Reactor \<Rightarrow> (RtorEventfd \<times> 'x Reactor) res" where
  "rtor_eventfd_arm e h arg r =
     rbind (eventfd_check e) (\<lambda>_.
       let e1 = eventfd_set e h arg
       in rbind (rtor_reactor_reregister r (w_fd e1) (EPOLLIN OR EPOLLERR OR EPOLLRDHUP) (w_ref e1))
            (\<lambda>r1. Inr (e1, r1)))"

definition rtor_eventfd_disarm :: "RtorEventfd \<Rightarrow> 'x Reactor \<Rightarrow> 'x Reactor res" where
  "rtor_eventfd_disarm e r =
     rbind (eventfd_check e) (\<lambda>_. rtor_reactor_reregister r (w_fd e) 0 (w_ref e))"

definition rtor_eventfd_fire :: "RtorEventfd \<Rightarrow> RtorEventfd res" where
  "rtor_eventfd_fire e =
     rbind (eventfd_check e) (\<lambda>_. rbind (pipe_write8 (ev_pipe e)) (\<lambda>n. Inr (e\<lparr>ev_pipe := n\<rparr>)))"

definition rtor_eventfd_clear_one_event :: "RtorEventfd \<Rightarrow> RtorEventfd res" where
  "rtor_eventfd_clear_one_event e =
     rbind (pipe_read8 (ev_pipe e)) (\<lambda>(nread, n). Inr (e\<lparr>ev_pipe := n\<rparr>))"

text \<open>The loop leaves only when a read fails, which a blocking pipe with a writer does not do.\<close>

function clear_all :: "nat \<Rightarrow> nat res" where
  "clear_all n = (case pipe_read8 n of Inl e \<Rightarrow> Inl e | Inr (nread, n') \<Rightarrow> clear_all n')"
  by auto
termination
  by (relation "measure id") (auto simp: pipe_read8_def split: if_splits)

definition rtor_eventfd_clear_all_events :: "RtorEventfd \<Rightarrow> RtorEventfd res" where
  "rtor_eventfd_clear_all_events e = rbind (clear_all (ev_pipe e)) (\<lambda>n. Inr (e\<lparr>ev_pipe := n\<rparr>))"

section \<open>The list based inter-thread queue\<close>

definition ITQueue_TAG :: string where "ITQueue_TAG = ''ITQUEUE''"

record RtorInterthreadQueue =
  it_tag :: string
  it_ref :: addr
  it_eventfd :: RtorEventfd
  it_queue :: RunList
  it_handler :: "code_ptr option option"
  it_arg :: "addr option option"

definition itq_check :: "RtorInterthreadQueue \<Rightarrow> unit res" where
  "itq_check q = check_tag ITQueue_TAG (it_tag q)"

definition rtor_interthread_queue_init :: "addr \<Rightarrow> addr \<Rightarrow> int \<Rightarrow> int \<Rightarrow> RtorInterthreadQueue" where
  "rtor_interthread_queue_init self evref rfd wfd =
     \<lparr>it_tag = ITQueue_TAG, it_ref = self, it_eventfd = rtor_eventfd_new evref rfd wfd,
      it_queue = RunList_new, it_handler = None, it_arg = None\<rparr>"

definition rtor_interthread_queue_new :: "addr \<Rightarrow> addr \<Rightarrow> int \<Rightarrow> int \<Rightarrow> RtorInterthreadQueue" where
  "rtor_interthread_queue_new self evref rfd wfd = rtor_interthread_queue_init self evref rfd wfd"

definition rtor_interthread_queue_dispose :: "RtorInterthreadQueue \<Rightarrow> kernel \<Rightarrow> kernel res" where
  "rtor_interthread_queue_dispose q k =
     rbind (itq_check q) (\<lambda>_. Inr (snd (sys_close k (w_fd (it_eventfd q)))))"

definition rtor_interthread_queue_add :: "RtorInterthreadQueue \<Rightarrow> addr \<Rightarrow> RtorInterthreadQueue res" where
  "rtor_interthread_queue_add q item =
     rbind (itq_check q) (\<lambda>_.
     rbind (List_add_back (it_queue q) item) (\<lambda>l.
     rbind (pipe_write8 (ev_pipe (it_eventfd q))) (\<lambda>n.
       Inr (q\<lparr>it_queue := l, it_eventfd := (it_eventfd q)\<lparr>ev_pipe := n\<rparr>\<rparr>))))"

text \<open>The step part of the \<open>for\<close> is empty: the variable keeps the first item.\<close>

fun drain_loop :: "nat \<Rightarrow> (addr \<Rightarrow> 's \<Rightarrow> 's res) \<Rightarrow> addr option \<Rightarrow> 's \<Rightarrow> 's res" where
  "drain_loop 0 draincb op s = Inl NoReturn"
| "drain_loop (Suc n) draincb op s =
     (case op of None \<Rightarrow> Inr s | Some x \<Rightarrow> rbind (draincb x s) (drain_loop n draincb op))"

definition rtor_interthread_queue_drain ::
  "nat \<Rightarrow> (addr \<Rightarrow> 's \<Rightarrow> 's res) \<Rightarrow> RtorInterthreadQueue \<times> 's \<Rightarrow> (RtorInterthreadQueue \<times> 's) res" where
  "rtor_interthread_queue_drain fuel draincb qs =
     (case qs of (q, s) \<Rightarrow>
        rbind (itq_check q) (\<lambda>_.
        rbind (List_remove_first (it_queue q)) (\<lambda>(op, l).
        rbind (drain_loop fuel draincb op s) (\<lambda>s1.
        rbind (rtor_eventfd_clear_all_events (it_eventfd q)) (\<lambda>e.
          Inr (q\<lparr>it_queue := l, it_eventfd := e\<rparr>, s1))))))"

definition static_handler_ptr :: code_ptr where "static_handler_ptr = 2"

definition rtor_interthread_queue_register ::
  "RtorInterthreadQueue \<Rightarrow> code_ptr option \<Rightarrow> addr option \<Rightarrow> 'x Reactor \<Rightarrow> (RtorInterthreadQueue \<times> 'x Reactor) res" where
  "rtor_interthread_queue_register q evhandler arg r =
     rbind (itq_check q) (\<lambda>_.
       let q1 = q\<lparr>it_handler := Some evhandler, it_arg := Some arg,
                  it_eventfd := (it_eventfd q)\<lparr>ev_handler := Some (Some static_handler_ptr),
                                              ev_arg := Some (Some (it_ref q))\<rparr>\<rparr>
       in rbind (rtor_eventfd_register (it_eventfd q1) r) (\<lambda>(e, r1). Inr (q1\<lparr>it_eventfd := e\<rparr>, r1)))"

definition rtor_interthreaD_queue_deregister :: "RtorInterthreadQueue \<Rightarrow> 'x Reactor \<Rightarrow> 'x Reactor res" where
  "rtor_interthreaD_queue_deregister q r =
     rbind (itq_check q) (\<lambda>_. rtor_reactor_deregister r (w_fd (it_eventfd q)))"

section \<open>Streams: arming\<close>

declare clear_all.simps [simp del]

datatype stream_op = Arm_both code_ptr | Arm_read code_ptr | Arm_write code_ptr | Disarm_read | Disarm_write

fun stream_step :: "stream_op \<Rightarrow> RtorStream \<times> 'x Reactor \<Rightarrow> (RtorStream \<times> 'x Reactor) res" where
  "stream_step (Arm_both h) (s, r) = rtor_stream_arm_both s (Some h) (Some (w_ref s)) r"
| "stream_step (Arm_read h) (s, r) = rtor_stream_arm_read s (Some h) (Some (w_ref s)) r"
| "stream_step (Arm_write h) (s, r) = rtor_stream_arm_write s (Some h) (Some (w_ref s)) r"
| "stream_step Disarm_read (s, r) = rtor_stream_disarm_read s r"
| "stream_step Disarm_write (s, r) = rtor_stream_disarm_write s r"

text \<open>The abstract state of a stream: is it watched for reading, is it watched for writing.\<close>

fun stream_spec :: "stream_op \<Rightarrow> bool \<times> bool \<Rightarrow> bool \<times> bool" where
  "stream_spec (Arm_both h) (rd, wr) = (True, True)"
| "stream_spec (Arm_read h) (rd, wr) = (True, wr)"
| "stream_spec (Arm_write h) (rd, wr) = (rd, True)"
| "stream_spec Disarm_read (rd, wr) = (False, wr)"
| "stream_spec Disarm_write (rd, wr) = (rd, False)"

definition stream_mode :: "RtorStream \<Rightarrow> bool \<times> bool" where
  "stream_mode s = (st_event_mask s AND ev64 EPOLLIN \<noteq> 0, st_event_mask s AND ev64 EPOLLOUT \<noteq> 0)"

text \<open>The kernel watches the stream's descriptor with exactly the mask the stream has.\<close>

definition stream_sync :: "RtorStream \<times> 'x Reactor \<Rightarrow> bool" where
  "stream_sync sr \<longleftrightarrow> (case sr of (s, r) \<Rightarrow>
     w_tag s = WIoFd_TAG \<and> Reactor_wf r \<and> ft_view (r_table r) (w_fd s) = Some (w_ref s) \<and>
     k_interest (r_kernel r) (w_fd s) = Some (ucast (st_event_mask s)) \<and> \<not> bit (st_event_mask s) 28)"

lemma and_exp_nonzero: "x AND push_bit n 1 \<noteq> 0 \<longleftrightarrow> bit x n" if "n < 64" for x :: "64 word"
proof -
  have "x AND push_bit n 1 = (if bit x n then push_bit n 1 else 0)"
    by (rule bit_word_eqI) (auto simp: bit_simps)
  moreover have "bit (push_bit n (1 :: 64 word)) n" using that by (simp add: bit_simps)
  then have "push_bit n (1 :: 64 word) \<noteq> 0" by (metis bit_0_eq bot_apply bot_bool_def)
  ultimately show ?thesis by simp
qed

lemma stream_mode_bits: "stream_mode s = (bit (st_event_mask s) 0, bit (st_event_mask s) 2)"
  using and_exp_nonzero [of 0 "st_event_mask s"] and_exp_nonzero [of 2 "st_event_mask s"]
  by (simp add: stream_mode_def EPOLLIN_def EPOLLOUT_def)

lemma stream_rearm_ok:
  assumes sync: "stream_sync (s, r)" and same: "w_tag s' = w_tag s" "w_fd s' = w_fd s" "w_ref s' = w_ref s"
    and m: "\<not> bit (st_event_mask s') 28"
  shows "\<exists>r'. stream_rearm s' r = Inr (s', r') \<and> stream_sync (s', r')"
proof -
  from sync have r: "Reactor_wf r" "ft_view (r_table r) (w_fd s') = Some (w_ref s')"
    "k_interest (r_kernel r) (w_fd s') = Some (ucast (st_event_mask s))"
    and ex: "\<not> exclusive (ucast (st_event_mask s))" "\<not> exclusive (ucast (st_event_mask s'))"
    using same m by (simp_all add: stream_sync_def exclusive_def bit_simps)
  from rtor_reactor_reregister_ok [OF r ex] sync same show ?thesis
    using m by (auto simp: stream_rearm_def stream_sync_def)
qed

lemmas stream_masks = EPOLLIN_def EPOLLOUT_def EPOLLERR_def EPOLLHUP_def EPOLLRDHUP_def EPOLLET_def

lemma stream_step_ok:
  assumes "stream_sync sr"
  shows "\<exists>sr'. stream_step x sr = Inr sr' \<and> stream_sync sr' \<and>
               stream_mode (fst sr') = stream_spec x (stream_mode (fst sr))"
proof -
  obtain s r where sr: "sr = (s, r)" by (cases sr)
  have m: "\<not> bit (st_event_mask s) 28" using assms by (simp add: sr stream_sync_def)
  note ok = stream_rearm_ok [OF assms [unfolded sr]]
  show ?thesis
  proof (cases x)
    case (Arm_both h)
    let ?s = "s\<lparr>st_event_mask := ev64 EPOLLET OR ev64 EPOLLOUT OR ev64 EPOLLIN OR ev64 EPOLLERR OR ev64 EPOLLHUP
                     OR ev64 EPOLLRDHUP OR st_event_mask s, st_both_handler := Some (Some h),
                st_both_arg := Some (Some (w_ref s))\<rparr>"
    from ok [of ?s] m show ?thesis
      by (auto simp: Arm_both sr rtor_stream_arm_both_def Let_def stream_mode_bits stream_masks bit_or_iff)
  next
    case (Arm_read h)
    let ?s = "s\<lparr>st_event_mask := ev64 EPOLLIN OR ev64 EPOLLERR OR ev64 EPOLLHUP OR ev64 EPOLLRDHUP OR st_event_mask s,
                st_read_evhandler := Some h, st_read_arg := Some (w_ref s)\<rparr>"
    from ok [of ?s] m show ?thesis
      by (auto simp: Arm_read sr rtor_stream_arm_read_def Let_def stream_mode_bits stream_masks bit_or_iff)
  next
    case (Arm_write h)
    let ?s = "s\<lparr>st_event_mask := ev64 EPOLLOUT OR ev64 EPOLLERR OR ev64 EPOLLHUP OR ev64 EPOLLRDHUP OR st_event_mask s,
                st_write_evhandler := Some h, st_write_arg := Some (w_ref s)\<rparr>"
    from ok [of ?s] m show ?thesis
      by (auto simp: Arm_write sr rtor_stream_arm_write_def Let_def stream_mode_bits stream_masks bit_or_iff)
  next
    case Disarm_read
    let ?s = "s\<lparr>st_event_mask := st_event_mask s AND NOT (ev64 EPOLLIN), st_read_evhandler := None,
                st_read_arg := None\<rparr>"
    from ok [of ?s] m show ?thesis
      by (auto simp: Disarm_read sr rtor_stream_disarm_read_def stream_mode_bits stream_masks
          bit_and_iff bit_not_iff)
  next
    case Disarm_write
    let ?s = "s\<lparr>st_event_mask := NOT (ev64 EPOLLOUT) AND st_event_mask s\<rparr>"
    from ok [of ?s] m show ?thesis
      by (auto simp: Disarm_write sr rtor_stream_disarm_write_def stream_mode_bits stream_masks
          bit_and_iff bit_not_iff)
  qed
qed

text \<open>
  C24: Arming and disarming a registered stream never fails and never gets out of step: after any
  sequence of calls the kernel watches the descriptor with exactly the stream's mask, and that
  mask asks for reading (writing) exactly when the last call that concerned reading (writing)
  armed it.
\<close>

theorem stream_arming_refines:
  assumes "stream_sync sr"
  shows "\<exists>sr'. rfold stream_step ops sr = Inr sr' \<and> stream_sync sr' \<and>
               stream_mode (fst sr') = fold stream_spec ops (stream_mode (fst sr))"
  using assms
proof (induction ops arbitrary: sr)
  case (Cons x ops)
  from stream_step_ok [OF Cons.prems] obtain sr1 where
    s1: "stream_step x sr = Inr sr1" "stream_sync sr1" "stream_mode (fst sr1) = stream_spec x (stream_mode (fst sr))"
    by blast
  from Cons.IH [OF s1(2)] s1 show ?case by simp
qed simp

lemma rtor_stream_register_sync:
  assumes "Reactor_wf r" and "fd_ok fd" and "ft_view (r_table r) fd = None" and "k_open (r_kernel r) fd"
  shows "\<exists>r'. rtor_stream_register (rtor_stream_new self fd) r = Inr r' \<and>
              stream_sync (rtor_stream_new self fd, r')"
  using rtor_reactor_register_ok [OF assms, of 0 self]
  by (auto simp: rtor_stream_register_def rtor_stream_new_def rtor_stream_init_def stream_sync_def)

theorem stream_arming_refines_witness:
  "\<exists>r0 r1 :: nat Reactor. \<exists>sr'. rtor_stream_register (rtor_stream_new 70 4) r0 = Inr r1 \<and>
     rfold stream_step [Arm_read 9, Arm_write 8, Disarm_read] (rtor_stream_new 70 4, r1) = Inr sr' \<and>
     stream_mode (fst sr') = (False, True)"
proof -
  obtain r :: "nat Reactor" where r: "Reactor_wf r" "ft_view (r_table r) = Map.empty"
    "k_open (r_kernel r) = k_open demo_kernel" by (rule demo_reactor)
  have "fd_ok 4" by (simp add: fd_ok_def RTOR_FDTABLE_MAX_def RTOR_MAX_FDS_def)
  with rtor_stream_register_sync [OF r(1), of 4 70] r obtain r1 where
    r1: "rtor_stream_register (rtor_stream_new 70 4) r = Inr r1" "stream_sync (rtor_stream_new 70 4, r1)"
    by (auto simp: demo_kernel_def)
  have "fold stream_spec [Arm_read 9, Arm_write 8, Disarm_read] (stream_mode (rtor_stream_new 70 4)) = (False, True)"
    by (cases "stream_mode (rtor_stream_new 70 4)") simp
  with stream_arming_refines [OF r1(2), of "[Arm_read 9, Arm_write 8, Disarm_read]"] r1(1)
  show ?thesis by (metis fst_conv)
qed

section \<open>Further properties of the watchers\<close>

lemma timer_interval_parts:
  fixes ms :: "64 word"
  assumes "1000 * unat ms < 2 ^ 64"
  shows "unat (1000 * ms div 1000000) = unat ms div 1000"
    and "unat (1000 * ms mod 1000000) = 1000 * (unat ms mod 1000)"
proof -
  have m: "unat (1000 * ms) = 1000 * unat ms"
    using assms by (simp add: unat_word_ariths(2))
  have "unat (1000 * ms div 1000000) = (1000 * unat ms) div (1000 * 1000)"
    by (simp add: unat_div m)
  also have "\<dots> = unat ms div 1000" by (simp only: div_mult_mult1 zero_neq_numeral not_False_eq_True)
  finally show "unat (1000 * ms div 1000000) = unat ms div 1000" .
  have "unat (1000 * ms mod 1000000) = (1000 * unat ms) mod (1000 * 1000)"
    by (simp add: unat_mod m)
  also have "\<dots> = 1000 * (unat ms mod 1000)" by (rule mult_mod_right [symmetric])
  finally show "unat (1000 * ms mod 1000000) = 1000 * (unat ms mod 1000)" .
qed

lemma timer_set_value:
  assumes "w_tag t = WTimerFd_TAG" and "1000 * unat ms < 2 ^ 64"
  shows "\<exists>t' its. timer_set t ms repeating = Inr t' \<and> tm_setting t' = Some its \<and>
           unat (it_value_sec its) * 1000000000 + unat (it_value_nsec its) =
             unat ms div 1000 * 1000000000 + 1000 * (unat ms mod 1000) \<and>
           (unat (it_value_sec its) * 1000000000 + unat (it_value_nsec its) = unat ms * 1000000 \<longleftrightarrow>
              unat ms mod 1000 = 0)"
proof -
  note parts = timer_interval_parts [OF assms(2)]
  define its where "its = \<lparr>it_value_sec = 1000 * ms div 1000000, it_value_nsec = 1000 * ms mod 1000000,
     it_interval_sec = (if repeating then 1000 * ms div 1000000 else 11),
     it_interval_nsec = (if repeating then 1000 * ms mod 1000000 else 0)\<rparr>"
  define t1 where "t1 = t\<lparr>tm_repeating := repeating, tm_interval := ms\<rparr>"
  have upd: "WTimerFd_update_interval t ms repeating = Inr (its, t1)"
    using assms(1) by (simp add: WTimerFd_update_interval_def its_def t1_def Let_def)
  have "unat (1000 * ms mod 1000000) < 1000000000" using parts(2) by (simp add: less_imp_le_nat)
  then have "1000 * ms mod 1000000 < (1000000000 :: 64 word)" by (simp add: word_less_nat_alt)
  then have set: "timer_set t ms repeating = Inr (t1\<lparr>tm_setting := Some its\<rparr>)"
    by (simp add: timer_set_def upd timerfd_settime_def) (simp add: its_def)
  have v: "unat (it_value_sec its) * 1000000000 + unat (it_value_nsec its) =
      unat ms div 1000 * 1000000000 + 1000 * (unat ms mod 1000)"
    by (simp add: its_def parts)
  have "unat ms * 1000000 = unat ms div 1000 * 1000000000 + unat ms mod 1000 * 1000000"
    using div_mult_mod_eq [of "unat ms" 1000] by linarith
  then have "unat ms div 1000 * 1000000000 + 1000 * (unat ms mod 1000) = unat ms * 1000000 \<longleftrightarrow>
      unat ms mod 1000 = 0" by auto
  with set v show ?thesis by auto
qed

text \<open>
  The delay a timer is programmed with is \<open>ms div 1000\<close> seconds and \<open>1000 * (ms mod 1000)\<close>
  nanoseconds: the kernel always accepts it, but it is the interval asked for only when that is
  a whole number of seconds; the rest is a thousand times too short.
\<close>

theorem timer_delay_value:
  assumes "w_tag t = WTimerFd_TAG" and "1000 * unat ms < 2 ^ 64"
  shows "\<exists>t' its. timer_set t ms repeating = Inr t' \<and> tm_setting t' = Some its \<and>
           unat (it_value_sec its) * 1000000000 + unat (it_value_nsec its) =
             unat ms div 1000 * 1000000000 + 1000 * (unat ms mod 1000) \<and>
           (unat (it_value_sec its) * 1000000000 + unat (it_value_nsec its) = unat ms * 1000000 \<longleftrightarrow>
              unat ms mod 1000 = 0)"
  by (rule timer_set_value [OF assms])

theorem timer_delay_value_witness:
  "\<exists>t' its. timer_set (rtor_timer_new 80 6) 100 True = Inr t' \<and> tm_setting t' = Some its \<and>
     unat (it_value_sec its) * 1000000000 + unat (it_value_nsec its) = 100000"
proof -
  have "w_tag (rtor_timer_new 80 6) = WTimerFd_TAG" by (simp add: rtor_timer_new_def rtor_timer_init_def)
  moreover have "1000 * unat (100 :: 64 word) < 2 ^ 64" by simp
  ultimately show ?thesis using timer_delay_value [of "rtor_timer_new 80 6" 100 True] by auto
qed

text \<open>
  Disarming a timer does not stop it: the setting given to the kernel is again a non-zero
  delay, the one of the interval it has.
\<close>

theorem timer_disarm_rearms:
  assumes "w_tag t = WTimerFd_TAG" and "1000 * unat (tm_interval t) < 2 ^ 64" and "tm_interval t \<noteq> 0"
  shows "\<exists>t' its. rtor_timer_disarm t = Inr t' \<and> rtor_timer_rearm t = Inr t' \<and> tm_setting t' = Some its \<and>
           0 < unat (it_value_sec its) * 1000000000 + unat (it_value_nsec its)"
proof -
  from timer_set_value [OF assms(1,2), of "tm_repeating t"] obtain t' its where
    s: "timer_set t (tm_interval t) (tm_repeating t) = Inr t'" "tm_setting t' = Some its"
      "unat (it_value_sec its) * 1000000000 + unat (it_value_nsec its) =
       unat (tm_interval t) div 1000 * 1000000000 + 1000 * (unat (tm_interval t) mod 1000)" by blast
  have "unat (tm_interval t) \<noteq> 0" using assms(3) by (simp add: unat_eq_zero)
  then have "unat (tm_interval t) div 1000 \<noteq> 0 \<or> unat (tm_interval t) mod 1000 \<noteq> 0"
    by (metis div_mult_mod_eq add_0 mult_0)
  with s show ?thesis by (auto simp: rtor_timer_disarm_def rtor_timer_rearm_def assms(1))
qed

theorem timer_disarm_rearms_witness:
  "\<exists>t' its. rtor_timer_disarm ((rtor_timer_new 80 6)\<lparr>tm_interval := 5000\<rparr>) = Inr t' \<and> tm_setting t' = Some its \<and>
     0 < unat (it_value_sec its) * 1000000000 + unat (it_value_nsec its)"
  using timer_disarm_rearms [of "(rtor_timer_new 80 6)\<lparr>tm_interval := 5000\<rparr>"]
  by (auto simp: rtor_timer_new_def rtor_timer_init_def)

text \<open>A registered watcher and what the reactor and the kernel have on it.\<close>

definition registered :: "'x Reactor \<Rightarrow> int \<Rightarrow> addr \<Rightarrow> 32 word \<Rightarrow> bool" where
  "registered r fd w i \<longleftrightarrow> Reactor_wf r \<and> ft_view (r_table r) fd = Some w \<and> k_interest (r_kernel r) fd = Some i"

lemma registered_register:
  assumes "Reactor_wf r" and "fd_ok fd" and "ft_view (r_table r) fd = None" and "k_open (r_kernel r) fd"
  shows "\<exists>r'. rtor_reactor_register r fd i w = Inr r' \<and> registered r' fd w i"
  using rtor_reactor_register_ok [OF assms, of i w] by (auto simp: registered_def)

lemma registered_lookup: "registered r fd w i \<Longrightarrow> FdTable_lookup (r_table r) fd = Inr w"
  by (auto simp: registered_def Reactor_wf_def intro: fdt.look_some)

lemma reregister_exclusive_asserts:
  assumes "registered r fd w i" and "exclusive i"
  shows "rtor_reactor_reregister r fd j w = Inl Assertion"
proof -
  have "k_open (r_kernel r) fd" using assms(1) by (auto simp: registered_def Reactor_wf_def)
  with assms registered_lookup [OF assms(1)] show ?thesis
    by (simp add: rtor_reactor_reregister_def rtor_epoll_ctl_def epoll_ctl_def registered_def)
qed

text \<open>
  A listener that has been registered cannot be armed or disarmed: registration asks for
  \<open>EPOLLEXCLUSIVE\<close>, and an exclusive entry must not be modified, so the call ends in the
  assertion on the result of \<open>epoll_ctl\<close>.
\<close>

theorem listener_arm_after_register_asserts:
  assumes "Reactor_wf r" and "fd_ok (w_fd l)" and "ft_view (r_table r) (w_fd l) = None"
    and "k_open (r_kernel r) (w_fd l)" and "w_tag l = WListenerFd_TAG"
  shows "\<exists>l' r'. rtor_listener_register l h arg r = Inr (l', r') \<and>
           rtor_listener_arm l' h2 arg2 r' = Inl Assertion \<and> WListenerFd_disarm l' r' = Inl Assertion"
proof -
  let ?i = "EPOLLIN OR EPOLLEXCLUSIVE"
  define l' where "l' = listener_set l h arg"
  have same: "w_fd (listener_set k hh a) = w_fd k" "w_ref (listener_set k hh a) = w_ref k"
    "w_tag (listener_set k hh a) = w_tag k" for k hh a
    by (simp_all add: listener_set_def Let_def)
  from registered_register [OF assms(1-4), of ?i "w_ref l"] obtain r' where
    r': "rtor_reactor_register r (w_fd l) ?i (w_ref l) = Inr r'" "registered r' (w_fd l) (w_ref l) ?i" by blast
  have "exclusive ?i" by (simp add: exclusive_def EPOLLIN_def EPOLLEXCLUSIVE_def bit_or_iff)
  note no = reregister_exclusive_asserts [OF r'(2) this]
  have "rtor_listener_register l h arg r = Inr (l', r')"
    using r'(1) assms(5) by (simp add: rtor_listener_register_def rtor_listener_verify_def l'_def Let_def same)
  moreover have "rtor_listener_arm l' h2 arg2 r' = Inl Assertion" "WListenerFd_disarm l' r' = Inl Assertion"
    using assms(5) no
    by (simp_all add: rtor_listener_arm_def WListenerFd_disarm_def rtor_listener_verify_def l'_def Let_def same)
  ultimately show ?thesis by blast
qed

theorem listener_arm_after_register_asserts_witness:
  "\<exists>(r :: nat Reactor) l' r'. rtor_listener_register (rtor_listener_new 60 4) (Some 5) None r = Inr (l', r') \<and>
     rtor_listener_arm l' (Some 5) None r' = Inl Assertion"
proof -
  obtain r :: "nat Reactor" where r: "Reactor_wf r" "ft_view (r_table r) = Map.empty"
    "k_open (r_kernel r) = k_open demo_kernel" by (rule demo_reactor)
  have l: "w_fd (rtor_listener_new 60 4) = 4" "w_tag (rtor_listener_new 60 4) = WListenerFd_TAG"
    by (simp_all add: rtor_listener_new_def rtor_listener_init_def)
  from listener_arm_after_register_asserts [of r "rtor_listener_new 60 4" "Some 5" None "Some 5" None] r l
  show ?thesis by (auto simp: demo_kernel_def fd_ok_def RTOR_FDTABLE_MAX_def RTOR_MAX_FDS_def)
qed

text \<open>
  A stream that was only ever armed for reading or writing has no defined reaction to its
  first event: the handler tests the handler for both directions, which neither the constructor
  nor these calls set.
\<close>

lemma stream_step_both:
  "stream_step x sr = Inr sr' \<Longrightarrow> (\<forall>h. x \<noteq> Arm_both h) \<Longrightarrow>
   st_both_handler (fst sr') = st_both_handler (fst sr)"
  by (cases sr; cases x)
     (auto simp: rtor_stream_arm_read_def rtor_stream_arm_write_def rtor_stream_disarm_read_def
      rtor_stream_disarm_write_def stream_rearm_def Let_def rbind_eq_Inr)

lemma stream_script_both:
  "rfold stream_step ops sr = Inr sr' \<Longrightarrow> \<forall>h. Arm_both h \<notin> set ops \<Longrightarrow>
   st_both_handler (fst sr') = st_both_handler (fst sr)"
proof (induction ops arbitrary: sr)
  case (Cons x ops)
  then obtain s1 where s1: "stream_step x sr = Inr s1" "rfold stream_step ops s1 = Inr sr'"
    by (auto simp: rbind_eq_Inr)
  have "\<forall>h. x \<noteq> Arm_both h" using Cons.prems(2) by (metis list.set_intros(1))
  then have "st_both_handler (fst s1) = st_both_handler (fst sr)" using stream_step_both [OF s1(1)] by blast
  with Cons.IH [OF s1(2)] Cons.prems(2) show ?case by simp
qed simp

theorem stream_first_event_uninit:
  assumes "rfold stream_step ops (rtor_stream_new self fd, r) = Inr sr" and "\<forall>h. Arm_both h \<notin> set ops"
  shows "stream_handler call event sr = Inl UninitRead"
proof -
  have "st_both_handler (fst sr) = None"
    using stream_script_both [OF assms] by (simp add: rtor_stream_new_def rtor_stream_init_def)
  then show ?thesis by (simp add: stream_handler_def)
qed

lemma clear_all_blocks: "clear_all n = Inl NoReturn"
proof (induction n rule: less_induct)
  case (less n)
  then show ?case by (subst clear_all.simps) (auto simp: pipe_read8_def)
qed

lemma drain_loop_stuck:
  "drain_loop n draincb (Some x) s = Inr s' \<Longrightarrow> False"
  by (induction n arbitrary: s) (auto simp: rbind_eq_Inr)

text \<open>
  Draining the list based inter-thread queue never returns, whether it is empty or not: with
  an item the loop hands the same item to the callback for ever, and without one the clearing
  of the events blocks on the empty pipe.
\<close>

theorem interthread_drain_never_returns:
  "rtor_interthread_queue_drain fuel draincb qs \<noteq> Inr out"
proof -
  obtain q s where qs: "qs = (q, s)" by (cases qs)
  show ?thesis
  proof
    assume "rtor_interthread_queue_drain fuel draincb qs = Inr out"
    then obtain e where "rtor_eventfd_clear_all_events (it_eventfd q) = Inr e"
      by (auto simp: rtor_interthread_queue_drain_def qs rbind_eq_Inr split: prod.splits)
    then show False by (simp add: rtor_eventfd_clear_all_events_def clear_all_blocks)
  qed
qed

text \<open>
  Registering the list based inter-thread queue leaves it deaf: the handler it installs is
  cleared again by the registration of its event descriptor, and the descriptor is watched for
  nothing; an event delivered to it all the same is a call through \<open>NULL\<close>.
\<close>

theorem interthread_register_deaf:
  assumes "Reactor_wf r" and "fd_ok (w_fd (it_eventfd q))" and "ft_view (r_table r) (w_fd (it_eventfd q)) = None"
    and "k_open (r_kernel r) (w_fd (it_eventfd q))" and "it_tag q = ITQueue_TAG"
    and "w_tag (it_eventfd q) = WEventFd_TAG"
  shows "\<exists>q' r'. rtor_interthread_queue_register q h arg r = Inr (q', r') \<and>
           registered r' (w_fd (it_eventfd q)) (w_ref (it_eventfd q)) 0 \<and>
           (\<forall>call ev. 8 \<le> ev_pipe (it_eventfd q') \<longrightarrow>
              eventfd_handler call ev (it_eventfd q', r') = Inl NullDeref)"
proof -
  from registered_register [OF assms(1-4), of 0 "w_ref (it_eventfd q)"] obtain r' where
    r': "rtor_reactor_register r (w_fd (it_eventfd q)) 0 (w_ref (it_eventfd q)) = Inr r'"
      "registered r' (w_fd (it_eventfd q)) (w_ref (it_eventfd q)) 0" by blast
  define q' where "q' = q\<lparr>it_handler := Some h, it_arg := Some arg,
    it_eventfd := (it_eventfd q)\<lparr>ev_handler := Some None, ev_arg := Some None\<rparr>\<rparr>"
  have "rtor_interthread_queue_register q h arg r = Inr (q', r')"
    using r'(1) assms(5,6)
    by (simp add: rtor_interthread_queue_register_def itq_check_def rtor_eventfd_register_def
        eventfd_check_def q'_def Let_def)
  moreover have "eventfd_handler call ev (it_eventfd q', r') = Inl NullDeref"
    if "8 \<le> ev_pipe (it_eventfd q')" for call ev
    using that assms(6)
    by (auto simp: eventfd_handler_def eventfd_check_def q'_def pipe_read8_def Let_def)
  ultimately show ?thesis using r'(2) by blast
qed

text \<open>
  Updating a timer silences it: the descriptor stays registered, but with an empty interest,
  so its expiry is no longer reported.
\<close>

theorem timer_update_silences:
  assumes "registered r (w_fd t) (w_ref t) i" and "\<not> exclusive i" and "w_tag t = WTimerFd_TAG"
    and "1000 * unat ms < 2 ^ 64"
  shows "\<exists>t' r'. rtor_timer_update t ms repeating r = Inr (t', r') \<and> registered r' (w_fd t) (w_ref t) 0"
proof -
  from timer_set_value [OF assms(3,4), of repeating] obtain t' where
    t': "timer_set t ms repeating = Inr t'" by blast
  then have same: "w_fd t' = w_fd t" "w_ref t' = w_ref t"
    by (auto simp: timer_set_def WTimerFd_update_interval_def timerfd_settime_def rbind_eq_Inr Let_def
        split: if_splits)
  from rtor_reactor_reregister_ok [of r "w_fd t" "w_ref t" i 0] assms(1,2) obtain r' where
    "rtor_reactor_reregister r (w_fd t) 0 (w_ref t) = Inr r'" "registered r' (w_fd t) (w_ref t) 0"
    by (auto simp: registered_def exclusive_def)
  with t' same assms(3) show ?thesis by (simp add: rtor_timer_update_def)
qed

section \<open>Opening a stream\<close>

lemma rtor_epoll_ctl_app: "rtor_epoll_ctl r op fd i = Inr r' \<Longrightarrow> r_app r' = r_app r"
  by (auto simp: rtor_epoll_ctl_def rbind_eq_Inr Let_def split: prod.splits)

lemma rtor_reactor_deregister_app: "rtor_reactor_deregister r fd = Inr r' \<Longrightarrow> r_app r' = r_app r"
  by (auto simp: rtor_reactor_deregister_def rbind_eq_Inr dest: rtor_epoll_ctl_app)

lemma rtor_reactor_register_app: "rtor_reactor_register r fd i w = Inr r' \<Longrightarrow> r_app r' = r_app r"
  by (auto simp: rtor_reactor_register_def rbind_eq_Inr dest: rtor_epoll_ctl_app)

lemma rtor_reactor_reregister_app: "rtor_reactor_reregister r fd i w = Inr r' \<Longrightarrow> r_app r' = r_app r"
  by (auto simp: rtor_reactor_reregister_def rbind_eq_Inr dest: rtor_epoll_ctl_app)

lemma Reactor_wf_app [simp]: "Reactor_wf (s\<lparr>r_app := a\<rparr>) \<longleftrightarrow> Reactor_wf s"
  by (simp add: Reactor_wf_def)

text \<open>A new stream on a descriptor that is open and not watched yet, registered and armed for both directions.\<close>

lemma stream_open:
  assumes "Reactor_wf s" and "fd_ok fd" and "ft_view (r_table s) fd = None" and "k_open (r_kernel s) fd"
    and st: "w_tag st = WIoFd_TAG" "w_fd st = fd" "w_ref st = a" "st_event_mask st = 0"
  shows "\<exists>s3 s4 m. rtor_stream_register st s = Inr s3 \<and>
     rtor_stream_arm_both st (Some f) (Some c) s3 = Inr (st\<lparr>st_event_mask := m, st_both_handler := Some (Some f), st_both_arg := Some (Some c)\<rparr>, s4) \<and>
     Reactor_wf s4 \<and> ft_view (r_table s4) = (ft_view (r_table s))(fd \<mapsto> a) \<and> r_ready_list s4 = r_ready_list s \<and> r_app s4 = r_app s \<and>
     k_open (r_kernel s4) = k_open (r_kernel s) \<and> r_itq s4 = r_itq s"
proof -
  from rtor_reactor_register_ok [OF assms(1-4), of 0 a] obtain s3 where
    s3: "rtor_reactor_register s fd 0 a = Inr s3" "Reactor_wf s3" "ft_view (r_table s3) = (ft_view (r_table s))(fd \<mapsto> a)"
    "k_interest (r_kernel s3) fd = Some 0" "r_ready_list s3 = r_ready_list s" "k_open (r_kernel s3) = k_open (r_kernel s)" "r_itq s3 = r_itq s" by auto
  define m where "m = ev64 EPOLLET OR ev64 EPOLLOUT OR ev64 EPOLLIN OR ev64 EPOLLERR OR ev64 EPOLLHUP OR ev64 EPOLLRDHUP"
  have ex: "\<not> exclusive 0" "\<not> exclusive (ucast m)" by (simp_all add: exclusive_def m_def stream_masks)
  have "ft_view (r_table s3) fd = Some a" by (simp add: s3(3))
  from rtor_reactor_reregister_ok [OF s3(2) this s3(4) ex] obtain s4 where
    s4: "rtor_reactor_reregister s3 fd (ucast m) a = Inr s4" "Reactor_wf s4" "r_table s4 = r_table s3"
    "r_ready_list s4 = r_ready_list s3" "k_open (r_kernel s4) = k_open (r_kernel s3)" "r_itq s4 = r_itq s3" by blast
  have "r_app s4 = r_app s" using rtor_reactor_reregister_app [OF s4(1)] rtor_reactor_register_app [OF s3(1)] by simp
  moreover have "rtor_stream_register st s = Inr s3" using s3(1) st by (simp add: rtor_stream_register_def)
  moreover have "rtor_stream_arm_both st (Some f) (Some c) s3 =
      Inr (st\<lparr>st_event_mask := m, st_both_handler := Some (Some f), st_both_arg := Some (Some c)\<rparr>, s4)"
    using s4(1) st by (simp add: rtor_stream_arm_both_def stream_rearm_def m_def Let_def)
  ultimately show ?thesis using s3(3,5-7) s4(2-6) by auto
qed

end
