(* ===== verification/CH_ParserTyping.thy ===== *)
theory CH_ParserTyping
  imports CH_HttpParser
begin

text \<open>
  The type invariant of the parser of \<open>http/parser.c\<close>: a sequence of events that the callbacks get
  through without a failure, wherever one of them stops the parse, leaves the parser's message and
  buffers well formed, and the client's handler receives well formed messages only.  Whether the callbacks
  get through does not depend on the context of the client.
\<close>

definition hp_typed :: "('l, 'c) http_parser \<Rightarrow> bool" where
  "hp_typed p \<longleftrightarrow> hp_tag p = HTTP_PARSER_TAG \<and>
     (\<forall>m. hp_current_message_ptr p = Some m \<longrightarrow> msg_wf m) \<and>
     (\<forall>cb. hp_url_buf p = Some cb \<longrightarrow> cb_wf cb) \<and> (\<forall>cb. hp_status_buf p = Some cb \<longrightarrow> cb_wf cb) \<and>
     (\<forall>cb. hp_name_buf p = Some cb \<longrightarrow> cb_wf cb) \<and> (\<forall>cb. hp_value_buf p = Some cb \<longrightarrow> cb_wf cb)"

section \<open>Operations that return keep what they change well formed\<close>

lemma Cbuffer_clear_InrD: "cb_wf cb \<Longrightarrow> Cbuffer_clear cb = Inr cb' \<Longrightarrow> cb_wf cb'"
  using Cbuffer_clear_ok [of cb] by auto

lemma Cbuffer_append_wf: "cb_wf cb \<Longrightarrow> Cbuffer_append cb s = Inr cb' \<Longrightarrow> cb_wf cb'"
  using Cbuffer_append_InrD by blast

lemma Cbuffer_new_InrD: "Cbuffer_new = Inr cb \<Longrightarrow> cb_wf cb"
  using Cbuffer_new_wf by (metis sum.inject(2))

lemma clear_or_new_wf:
  "\<forall>cb. b = Some cb \<longrightarrow> cb_wf cb \<Longrightarrow> clear_or_new b = Inr b' \<Longrightarrow> \<forall>cb. b' = Some cb \<longrightarrow> cb_wf cb"
  by (cases b) (auto simp: clear_or_new_def rbind_eq_Inr dest: Cbuffer_clear_InrD Cbuffer_new_InrD)

lemma Message_new_InrD: "Message_new = Inr m \<Longrightarrow> msg_wf m"
  using Message_new_wf by (metis sum.inject(2))

lemma BufferChain_append_full:
  "bc_wf bc \<and> bc_full bc \<Longrightarrow> BufferChain_append bc s = Inr bc' \<Longrightarrow> bc_wf bc' \<and> bc_full bc'"
  using BufferChain_append_ok [of bc s] BufferChain_append_Nil [of bc] by (cases "s = []") auto

lemma Message_add_header_cbuf_InrD:
  "msg_wf m \<Longrightarrow> cb_wf k \<Longrightarrow> cb_wf v \<Longrightarrow> Message_add_header_cbuf m k v = Inr m' \<Longrightarrow> msg_wf m'"
  using Message_add_header_cbuf_ok [of m k v] by auto

lemma assert_empty_InrD: "assert_empty p = Inr cb \<Longrightarrow> p = Some cb"
  by (auto simp: assert_empty_def rbind_eq_Inr split: option.splits)

lemma Message_set_target_cbuffer_InrD:
  assumes "msg_wf m" and "Message_set_target_cbuffer m u = Inr m'"
  shows "msg_wf m'"
  using assms
  by (auto simp: Message_set_target_cbuffer_def Cbuffer_append_cstr_def rbind_eq_Inr msg_wf_def
      dest!: assert_empty_InrD intro: Cbuffer_append_wf)

lemma Message_set_reason_cbuffer_InrD:
  assumes "msg_wf m" and "Message_set_reason_cbuffer m u = Inr m'"
  shows "msg_wf m'"
  using assms
  by (auto simp: Message_set_reason_cbuffer_def Cbuffer_append_cstr_def rbind_eq_Inr msg_wf_def
      dest!: assert_empty_InrD intro: Cbuffer_append_wf)

lemma flush_header_typed:
  assumes "hp_typed p" and "flush_header p = Inr p'"
  shows "hp_typed p' \<and> hp_handler_context p' = hp_handler_context p"
proof -
  from assms(2) obtain n sz where n: "hp_name_buf p = Some n" "Cbuffer_size n = Inr sz"
    by (auto simp: flush_header_def rbind_eq_Inr c_deref_def split: option.splits)
  show ?thesis
  proof (cases "sz = 0")
    case True
    with assms n show ?thesis by (simp add: flush_header_def)
  next
    case False
    with assms n obtain m v m1 n1 v1 where
      m: "hp_current_message_ptr p = Some m" "hp_value_buf p = Some v"
      "Message_add_header_cbuf m n v = Inr m1" "Cbuffer_clear n = Inr n1" "Cbuffer_clear v = Inr v1"
      "p' = p\<lparr>hp_current_message_ptr := Some m1, hp_name_buf := Some n1, hp_value_buf := Some v1\<rparr>"
      by (auto simp: flush_header_def rbind_eq_Inr c_deref_def split: option.splits)
    have "cb_wf n" "cb_wf v" "msg_wf m" using assms(1) n m by (auto simp: hp_typed_def)
    then have "msg_wf m1" "cb_wf n1" "cb_wf v1"
      using m(3-5) Message_add_header_cbuf_InrD Cbuffer_clear_InrD by blast+
    then show ?thesis using assms(1) by (simp add: m(6) hp_typed_def)
  qed
qed

lemma append_name_typed:
  assumes "hp_typed p" and "append_name p at = Inr p'"
  shows "hp_typed p' \<and> hp_handler_context p' = hp_handler_context p"
  using assms by (auto simp: append_name_def rbind_eq_Inr c_deref_def hp_typed_def
      split: option.splits intro: Cbuffer_append_wf)

section \<open>The callbacks\<close>

text \<open>\<open>kept p p'\<close>: the parser is still typed and the context untouched.\<close>

abbreviation kept :: "('l, 'c) http_parser \<Rightarrow> ('l, 'c) http_parser \<Rightarrow> bool" where
  "kept p p' \<equiv> hp_typed p' \<and> hp_handler_context p' = hp_handler_context p"

lemma message_begin_typed:
  assumes "hp_typed p" and "message_begin_cb p = Inr (rc, p')"
  shows "kept p p'"
proof -
  from assms(2) obtain m s u n v where
    m: "(case hp_current_message_ptr p of Some m \<Rightarrow> rbind (Message_dispose m) (\<lambda>_. Message_new)
         | None \<Rightarrow> Message_new) = Inr m"
    "clear_or_new (hp_status_buf p) = Inr s" "clear_or_new (hp_url_buf p) = Inr u"
    "clear_or_new (hp_name_buf p) = Inr n" "clear_or_new (hp_value_buf p) = Inr v"
    "Inr (0, p\<lparr>hp_current_message_ptr := Some m, hp_status_buf := s, hp_url_buf := u,
            hp_name_buf := n, hp_value_buf := v\<rparr>) = (Inr (rc, p') :: (int \<times> ('a, 'b) http_parser) res)"
    unfolding message_begin_cb_def rbind_eq_Inr by blast
  have "Message_new = Inr m" using m(1) by (cases "hp_current_message_ptr p") (auto simp: rbind_eq_Inr)
  then have "msg_wf m" by (rule Message_new_InrD)
  moreover have "\<forall>cb. s = Some cb \<longrightarrow> cb_wf cb" "\<forall>cb. u = Some cb \<longrightarrow> cb_wf cb"
    "\<forall>cb. n = Some cb \<longrightarrow> cb_wf cb" "\<forall>cb. v = Some cb \<longrightarrow> cb_wf cb"
    using assms(1) clear_or_new_wf [OF _ m(2)] clear_or_new_wf [OF _ m(3)] clear_or_new_wf [OF _ m(4)]
      clear_or_new_wf [OF _ m(5)] unfolding hp_typed_def by blast+
  moreover have "p' = p\<lparr>hp_current_message_ptr := Some m, hp_status_buf := s, hp_url_buf := u,
            hp_name_buf := n, hp_value_buf := v\<rparr>" using m(6) by simp
  moreover have "hp_tag p = HTTP_PARSER_TAG" using assms(1) by (simp add: hp_typed_def)
  ultimately show ?thesis by (simp add: hp_typed_def)
qed

lemma url_data_typed:
  assumes "hp_typed p" and "url_data_cb p at = Inr (rc, p')"
  shows "kept p p'"
proof -
  from assms(2) obtain m b b' where
    m: "hp_current_message_ptr p = Some m" "hp_url_buf p = Some b" "Cbuffer_append b at = Inr b'"
    "p' = p\<lparr>hp_current_message_ptr := Some (m\<lparr>msg_is_request := Some True\<rparr>), hp_url_buf := Some b'\<rparr>"
    by (auto simp: url_data_cb_def rbind_eq_Inr c_deref_def Message_set_is_request_def split: option.splits)
  have "cb_wf b'" "msg_wf m" using assms(1) m(1-3) by (auto simp: hp_typed_def intro: Cbuffer_append_wf)
  then show ?thesis using assms(1) by (simp add: hp_typed_def m(4) msg_wf_def)
qed

lemma status_data_typed:
  assumes "hp_typed p" and "status_data_cb p code at = Inr (rc, p')"
  shows "kept p p'"
proof -
  from assms(2) obtain m b b' m' where
    m: "hp_current_message_ptr p = Some m" "hp_status_buf p = Some b" "Cbuffer_append b at = Inr b'"
    "Message_set_reason_cbuffer (m\<lparr>msg_is_request := Some False, msg_status_code := Some code\<rparr>) b' = Inr m'"
    "p' = p\<lparr>hp_current_message_ptr := Some m', hp_status_buf := Some b'\<rparr>"
    by (auto simp: status_data_cb_def rbind_eq_Inr c_deref_def Message_set_is_request_def
        Message_set_status_def split: option.splits)
  have b: "cb_wf b'" "msg_wf m" using assms(1) m(1-3) by (auto simp: hp_typed_def intro: Cbuffer_append_wf)
  then have "msg_wf (m\<lparr>msg_is_request := Some False, msg_status_code := Some code\<rparr>)" by (simp add: msg_wf_def)
  with m(4) have "msg_wf m'" by (rule Message_set_reason_cbuffer_InrD [rotated])
  then show ?thesis using assms(1) b(1) by (simp add: hp_typed_def m(5))
qed

lemma header_field_typed:
  assumes "hp_typed p" and "header_field_data_cb p at = Inr (rc, p')"
  shows "kept p p'"
proof -
  have upd: "hp_typed (q\<lparr>hp_header_state := st\<rparr>) \<longleftrightarrow> hp_typed q" for q :: "('a, 'b) http_parser" and st
    by (simp add: hp_typed_def)
  from assms(2) obtain q p1 where q: "flush_header p = Inr q \<or> q = p" "append_name q at = Inr p1"
    "p' = p1\<lparr>hp_header_state := kHEADER_STATE_FIELD\<rparr>"
    by (auto simp: header_field_data_cb_def rbind_eq_Inr Let_def split: if_splits)
  have "kept p q" using q(1) assms(1) flush_header_typed by blast
  with append_name_typed [OF _ q(2)] show ?thesis by (simp add: upd q(3))
qed

lemma header_value_typed:
  assumes "hp_typed p" and "header_value_data_cb p at = Inr (rc, p')"
  shows "kept p p'"
  using assms
  by (auto simp: header_value_data_cb_def rbind_eq_Inr Let_def c_deref_def hp_typed_def
      split: if_splits option.splits intro: Cbuffer_append_wf dest: Cbuffer_clear_InrD)

lemma headers_complete_typed:
  assumes "hp_typed p" and "headers_complete_cb p major minor method = Inr (rc, p')"
  shows "kept p p'"
proof -
  from assms(2) obtain q m u m' where
    q: "flush_header p = Inr q" "hp_current_message_ptr q = Some m"
    "m' = m\<lparr>msg_minor_vers := minor\<rparr> \<or>
     Message_set_target_cbuffer (m\<lparr>msg_minor_vers := minor, msg_method := Some method\<rparr>) u = Inr m'"
    "p' = q\<lparr>hp_current_message_ptr := Some m'\<rparr>"
    by (auto simp: headers_complete_cb_def rbind_eq_Inr c_deref_def Message_set_version_def
        Message_set_method_def split: option.splits if_splits)
  have t: "kept p q" using flush_header_typed [OF assms(1) q(1)] .
  then have m: "msg_wf m" using q(2) by (simp add: hp_typed_def)
  then have "msg_wf (m\<lparr>msg_minor_vers := minor\<rparr>)" "msg_wf (m\<lparr>msg_minor_vers := minor, msg_method := Some method\<rparr>)"
    by (simp_all add: msg_wf_def)
  with q(3) have "msg_wf m'" using Message_set_target_cbuffer_InrD by blast
  with t show ?thesis by (simp add: hp_typed_def q(4))
qed

lemma body_data_typed:
  assumes "hp_typed p" and "body_data_cb p at = Inr (rc, p')"
  shows "kept p p'"
proof -
  from assms(2) obtain m bc bc' where
    d: "c_deref (hp_current_message_ptr p) = Inr m"
    "(case msg_body m of None \<Rightarrow> Inr BufferChain_new | Some c \<Rightarrow> Inr c) = (Inr bc :: BufferChain res)"
    and a: "BufferChain_append bc at = Inr bc'"
    and e: "Inr (0, p\<lparr>hp_current_message_ptr := Some (m\<lparr>msg_body := Some bc'\<rparr>)\<rparr>)
            = (Inr (rc, p') :: (int \<times> ('a, 'b) http_parser) res)"
    unfolding body_data_cb_def rbind_eq_Inr Message_get_body_def Message_set_body_def
    using sum.inject(2) by metis
  have m: "hp_current_message_ptr p = Some m" "bc = BufferChain_new \<or> msg_body m = Some bc"
    using d by (auto simp: c_deref_def split: option.splits)
  have "msg_wf m" using assms(1) m(1) by (simp add: hp_typed_def)
  moreover from this have "bc_wf bc \<and> bc_full bc" using m(2) BufferChain_new_wf by (auto simp: msg_wf_def)
  then have "bc_wf bc' \<and> bc_full bc'" using BufferChain_append_full a by blast
  ultimately show ?thesis using assms(1) e [symmetric] by (simp add: hp_typed_def msg_wf_def)
qed

section \<open>Whole runs\<close>

definition handler_keeps :: "('c \<Rightarrow> bool) \<Rightarrow> 'c message_handler \<Rightarrow> bool" where
  "handler_keeps I h \<longleftrightarrow> (\<forall>ctx m rc ctx'. I ctx \<longrightarrow> msg_wf m \<longrightarrow> h ctx m = Inr (rc, ctx') \<longrightarrow> I ctx')"

lemma ll_dispatch_typed:
  assumes h: "handler_keeps I h"
    and p: "hp_typed p" "I (hp_handler_context p)" and run: "ll_dispatch h e p = Inr (rc, p')"
  shows "hp_typed p' \<and> I (hp_handler_context p')"
proof (cases e)
  case On_message_complete
  with run obtain tmp m ctx where t: "hp_current_message_ptr p = Some tmp" "Message_new = Inr m"
    "h (hp_handler_context p) tmp = Inr (rc, ctx)"
    "p' = p\<lparr>hp_current_message_ptr := Some m, hp_handler_context := ctx\<rparr>"
    by (auto simp: message_complete_cb_def rbind_eq_Inr c_deref_def split: option.splits)
  have "msg_wf tmp" using p(1) t(1) by (simp add: hp_typed_def)
  from h [unfolded handler_keeps_def] p(2) this t(3) have "I ctx" by blast
  with Message_new_InrD [OF t(2)] p(1) show ?thesis by (simp add: t(4) hp_typed_def)
qed (use run p message_begin_typed [OF p(1)] url_data_typed [OF p(1)] status_data_typed [OF p(1)]
      header_field_typed [OF p(1)] header_value_typed [OF p(1)] headers_complete_typed [OF p(1)]
      body_data_typed [OF p(1)] in \<open>auto simp: return_0_cb_def method_data_cb_def version_data_cb_def
      chunk_extension_name_cb_def chunk_extension_value_cb_def\<close>)

lemma ll_run_typed:
  assumes h: "handler_keeps I h"
    and "hp_typed p" "I (hp_handler_context p)" and "ll_run h es p = Inr (rc, p')"
  shows "hp_typed p' \<and> I (hp_handler_context p')"
  using assms(2-)
proof (induction es arbitrary: p)
  case (Cons e es)
  from Cons.prems(3) obtain rc1 p1 where d: "ll_dispatch h e p = Inr (rc1, p1)"
    "(if rc1 = 0 then ll_run h es p1 else Inr (rc1, p1)) = Inr (rc, p')"
    by (auto simp: rbind_eq_Inr)
  have "hp_typed p1 \<and> I (hp_handler_context p1)"
    using ll_dispatch_typed [OF h Cons.prems(1,2) d(1)] by blast
  with d(2) Cons.IH [of p1] show ?case by (auto split: if_splits)
qed simp

lemma http_parser_consume_typed:
  assumes h: "handler_keeps I h"
    and p: "hp_typed p" "I (hp_handler_context p)"
    and run: "http_parser_consume exec fin h p buf = Inr (ec, p')"
  shows "hp_typed p' \<and> I (hp_handler_context p')"
proof -
  obtain es l e where t: "(if length buf = 0 then fin (hp_llhttp p) else exec (hp_llhttp p) buf) = (es, l, e)"
    by (metis prod_cases3)
  from run obtain rc q where q: "ll_run h es p = Inr (rc, q)" "p' = q\<lparr>hp_llhttp := l\<rparr>"
    unfolding http_parser_consume_def t by (auto simp: rbind_eq_Inr)
  have "hp_typed q \<and> I (hp_handler_context q)" using ll_run_typed [OF h p q(1)] by blast
  then show ?thesis by (simp add: q(2) hp_typed_def)
qed

lemma http_parser_new_typed:
  "\<exists>p. http_parser_new l ctx = Inr p \<and> hp_typed p \<and> hp_handler_context p = ctx"
proof -
  obtain p where p: "http_parser_new l ctx = Inr p" "hp_ready p" "hp_handler_context p = ctx"
    using http_parser_new_ready [of l ctx] by blast
  have m: "\<forall>m. hp_current_message_ptr p = Some m \<longrightarrow> msg_wf m" "hp_tag p = HTTP_PARSER_TAG"
    using p(2) unfolding hp_ready_def by blast+
  obtain u s n v where "hp_url_buf p = Some u" "hp_status_buf p = Some s" "hp_name_buf p = Some n"
    "hp_value_buf p = Some v" "cb_wf u" "cb_wf s" "cb_wf n" "cb_wf v"
    using p(2) unfolding hp_ready_def by blast
  with m have "hp_typed p" unfolding hp_typed_def by simp
  with p show ?thesis by blast
qed

lemma http_parser_dispose_ok: "hp_typed p \<Longrightarrow> http_parser_dispose p = Inr ()"
  by (auto simp: http_parser_dispose_def hp_typed_def HP_CHECK_def Cbuffer_dispose_def CB_CHECK_TAG_ONLY_def
      cb_wf_def split: option.splits)

section \<open>The context is only seen by the client's handler\<close>

text \<open>Two contexts the handler cannot tell apart make no difference to the parser.\<close>

definition on_context :: "'c \<Rightarrow> (int \<times> ('l, 'c) http_parser) res \<Rightarrow> (int \<times> ('l, 'c) http_parser) res" where
  "on_context c r = rbind r (\<lambda>(rc, p). Inr (rc, p\<lparr>hp_handler_context := c\<rparr>))"

lemma on_context_rbind: "on_context c (rbind m f) = rbind m (\<lambda>x. on_context c (f x))"
  by (simp add: on_context_def rbind_assoc)

lemma on_context_simps [simp]:
  "on_context c (Inl e) = Inl e"
  "on_context c (Inr (rc, p)) = Inr (rc, p\<lparr>hp_handler_context := c\<rparr>)"
  by (simp_all add: on_context_def)

lemma flush_header_context:
  "flush_header (p\<lparr>hp_handler_context := c\<rparr>) = rbind (flush_header p) (\<lambda>q. Inr (q\<lparr>hp_handler_context := c\<rparr>))"
  by (auto simp: flush_header_def rbind_assoc intro!: rbind_cong)

lemma append_name_context:
  "append_name (p\<lparr>hp_handler_context := c\<rparr>) at = rbind (append_name p at) (\<lambda>q. Inr (q\<lparr>hp_handler_context := c\<rparr>))"
  by (auto simp: append_name_def rbind_assoc intro!: rbind_cong)

lemma ll_dispatch_context:
  assumes "e \<noteq> On_message_complete"
  shows "ll_dispatch h e (p\<lparr>hp_handler_context := c\<rparr>) = on_context c (ll_dispatch h e p)"
proof (cases e)
  case (On_header_field at)
  then show ?thesis
    by (auto simp: header_field_data_cb_def Let_def HP_CHECK_def on_context_rbind rbind_assoc
        flush_header_context append_name_context intro!: rbind_cong)
next
  case (On_headers_complete major minor meth)
  then show ?thesis
    by (auto simp: headers_complete_cb_def HP_CHECK_def on_context_rbind rbind_assoc flush_header_context
        intro!: rbind_cong)
qed (use assms in \<open>auto simp: message_begin_cb_def url_data_cb_def status_data_cb_def header_value_data_cb_def
      body_data_cb_def return_0_cb_def method_data_cb_def version_data_cb_def chunk_extension_name_cb_def
      chunk_extension_value_cb_def HP_CHECK_def Let_def on_context_rbind intro!: rbind_cong split: option.splits\<close>)

lemma ll_dispatch_keeps_context:
  assumes "e \<noteq> On_message_complete" and "ll_dispatch h e p = Inr (rc, q)"
  shows "hp_handler_context q = hp_handler_context p"
  using ll_dispatch_context [OF assms(1), where h = h and p = p and c = "hp_handler_context p"] assms(2)
  by simp (metis http_parser.select_convs(5) http_parser.update_convs(5) http_parser.surjective)

text \<open>
  \<open>blind R h\<close>: on contexts related by \<open>R\<close> the handler fails in the same way or returns the same
  number and related contexts.
\<close>

definition blind :: "('c \<Rightarrow> 'c \<Rightarrow> bool) \<Rightarrow> 'c message_handler \<Rightarrow> bool" where
  "blind R h \<longleftrightarrow> (\<forall>c d m. R c d \<longrightarrow> rel_sum (=) (rel_prod (=) R) (h c m) (h d m))"

lemma ll_run_blind:
  assumes "blind R h" and "R (hp_handler_context p) d" and "ll_run h es p = Inl e"
  shows "ll_run h es (p\<lparr>hp_handler_context := d\<rparr>) = Inl e"
  using assms(2,3)
proof (induction es arbitrary: p d)
  case (Cons ev es)
  show ?case
  proof (cases "ev = On_message_complete")
    case True
    show ?thesis
    proof (cases "hp_current_message_ptr p")
      case (Some m)
      have "rel_sum (=) (rel_prod (=) R) (h (hp_handler_context p) m) (h d m)"
        using assms(1) Cons.prems(1) unfolding blind_def by blast
      then show ?thesis using Cons.prems(2) Cons.IH Some True
        by (cases "h (hp_handler_context p) m"; cases "h d m")
           (fastforce simp: message_complete_cb_def rbind_eq_Inl rbind_eq_Inr HP_CHECK_def c_deref_def split: if_splits)+
    qed (use Cons.prems(2) True in \<open>simp add: message_complete_cb_def HP_CHECK_def c_deref_def rbind_eq_Inl\<close>)
  next
    case False
    show ?thesis
    proof (cases "ll_dispatch h ev p")
      case (Inr r)
      obtain rc q where r: "r = (rc, q)" by (cases r)
      have "R (hp_handler_context q) d"
        using Cons.prems(1) ll_dispatch_keeps_context [OF False] Inr r by metis
      then show ?thesis using Cons.prems(2) Cons.IH Inr r by (simp add: ll_dispatch_context [OF False] split: if_splits)
    qed (use Cons.prems(2) in \<open>simp add: ll_dispatch_context [OF False]\<close>)
  qed
qed simp

end
