(* ===== verification/CH_Reply.thy ===== *)
theory CH_Reply
  imports CH_Message
begin

text \<open>
  The answer to a request, the part that the asynchronous handler
  (\<open>async/async_handler.c\<close>), the synchronous worker (\<open>sync/worker.c\<close>) and the example
  application (\<open>sync/sync_handler_example.c\<close>, repeated in \<open>async/async_process_request.c\<close>) share.
\<close>

section \<open>The connection line\<close>

definition HEADER_CONNECTION_KEY :: string where "HEADER_CONNECTION_KEY = ''CONNECTION''"
definition HEADER_CONNECTION_CLOSE :: string where "HEADER_CONNECTION_CLOSE = ''close''"
definition HEADER_CONNECTION_KEEPALIVE :: string where "HEADER_CONNECTION_KEEPALIVE = ''keep-alive''"

text \<open>The line added to a response announces whether the connection stays open.\<close>

definition add_connection_header :: "Message \<Rightarrow> Message \<Rightarrow> Message res" where
  "add_connection_header request response =
     rbind (Message_cmp_header request HEADER_CONNECTION_KEY HEADER_CONNECTION_KEEPALIVE) (\<lambda>cmp_tmp.
     if cmp_tmp = 1
     then Message_add_header_cstring response HEADER_CONNECTION_KEY HEADER_CONNECTION_KEEPALIVE
     else Message_add_header_cstring response HEADER_CONNECTION_KEY HEADER_CONNECTION_CLOSE)"

section \<open>Responses that can be printed\<close>

definition printable :: "(int \<Rightarrow> string) \<Rightarrow> Message \<Rightarrow> bool" where
  "printable nm m \<longleftrightarrow> msg_wf m \<and> (\<exists>fl. Message_first_line nm m = Inr fl)"

lemma printable_add_header:
  assumes "printable nm m"
  shows "\<exists>m'. Message_add_header_cstring m k v = Inr m' \<and> printable nm m' \<and>
     Message_first_line nm m' = Message_first_line nm m \<and>
     List_items (msg_headers m') = List_items (msg_headers m) @ [KVPair_new (c_str k) (c_str v)] \<and>
     msg_body m' = msg_body m"
proof -
  obtain m' where m': "Message_add_header_cstring m k v = Inr m'" "msg_wf m'"
    "List_items (msg_headers m') = List_items (msg_headers m) @ [KVPair_new (c_str k) (c_str v)]"
    using Message_add_header_cstring_ok [of m] assms unfolding printable_def by blast
  then obtain l where "m' = m\<lparr>msg_headers := l\<rparr>" by (auto simp: Message_add_header_cstring_def rbind_eq_Inr)
  then have "Message_first_line nm m' = Message_first_line nm m" "msg_body m' = msg_body m" for nm
    by (simp_all add: Message_first_line_def cong: if_cong)
  with m' assms show ?thesis by (simp add: printable_def)
qed

lemma printable_serialize:
  assumes "printable nm m"
  shows "\<exists>b. Message_serialize nm m = Inr b \<and> iob_wf b \<and> 0 < iob_remaining b"
proof -
  from assms obtain fl where fl: "msg_wf m" "Message_first_line nm m = Inr fl"
    by (auto simp: printable_def)
  from Message_serialize_ok [OF this] obtain b where b: "Message_serialize nm m = Inr b"
    "iob_wf b" "iob_content b \<noteq> []" by (auto simp: CRLF_def)
  then have "nat (iob_remaining b) \<noteq> 0" using iob_content_length [of b] by (metis length_0_conv)
  with b show ?thesis by auto
qed

lemma add_connection_header_ok:
  assumes "msg_wf request" and "printable nm response"
  shows "\<exists>m. add_connection_header request response = Inr m \<and> printable nm m"
  using Message_cmp_header_ok [OF assms(1), of HEADER_CONNECTION_KEY HEADER_CONNECTION_KEEPALIVE]
    printable_add_header [OF assms(2)]
  by (fastforce simp: add_connection_header_def split: option.splits if_splits)

text \<open>Whether the request asks to keep the connection, and the line the response gets for it.\<close>

definition lines_keep_alive :: "KVPair list \<Rightarrow> bool" where
  "lines_keep_alive kvs \<longleftrightarrow> (case hl_find kvs HEADER_CONNECTION_KEY of None \<Rightarrow> False
     | Some kv \<Rightarrow> make_upper (value_ptr kv) = make_upper HEADER_CONNECTION_KEEPALIVE)"

abbreviation keep_alive :: "Message \<Rightarrow> bool" where
  "keep_alive m \<equiv> lines_keep_alive (List_items (msg_headers m))"

definition connection_line :: "Message \<Rightarrow> KVPair" where
  "connection_line m = KVPair_new HEADER_CONNECTION_KEY
     (if keep_alive m then HEADER_CONNECTION_KEEPALIVE else HEADER_CONNECTION_CLOSE)"

lemma add_connection_header_exact:
  assumes "msg_wf request" and "printable nm response"
    and m: "add_connection_header request response = Inr m" and b: "Message_serialize nm m = Inr b"
    and fl: "Message_first_line nm response = Inr fl"
  shows "iob_content b = fl @ concat (map hl_line (List_items (msg_headers response) @ [connection_line request])) @
     CRLF @ msg_body_bytes response"
proof -
  let ?v = "if keep_alive request then HEADER_CONNECTION_KEEPALIVE else HEADER_CONNECTION_CLOSE"
  have cs: "c_str HEADER_CONNECTION_KEY = HEADER_CONNECTION_KEY" "c_str ?v = ?v"
    by (simp_all add: c_str_def HEADER_CONNECTION_KEY_def HEADER_CONNECTION_KEEPALIVE_def HEADER_CONNECTION_CLOSE_def)
  have "add_connection_header request response = Message_add_header_cstring response HEADER_CONNECTION_KEY ?v"
    using Message_cmp_header_ok [OF assms(1), of HEADER_CONNECTION_KEY HEADER_CONNECTION_KEEPALIVE]
    by (auto simp: add_connection_header_def lines_keep_alive_def split: option.splits if_splits)
  with printable_add_header [OF assms(2), of HEADER_CONNECTION_KEY ?v] m have
    s: "printable nm m" "Message_first_line nm m = Inr fl"
    "List_items (msg_headers m) = List_items (msg_headers response) @ [connection_line request]" "msg_body m = msg_body response"
    using fl cs by (auto simp: connection_line_def)
  then have "msg_wf m" by (simp add: printable_def)
  from Message_serialize_ok [OF this s(2)] b s(3,4) show ?thesis by (auto simp: msg_body_bytes_def)
qed

lemma response_message_exists:
  "\<exists>m r. msg_wf m \<and> msg_is_request m = Some False \<and> msg_status_code m = Some 200 \<and> msg_reason m = Some r \<and>
     cb_terminated r \<and> cb_wf r \<and> cb_content r = ''OK'' \<and> msg_major_vers m = 1 \<and> msg_minor_vers m = 1 \<and>
     List_items (msg_headers m) = [] \<and> msg_body m = None"
proof -
  obtain cb where cb: "Cbuffer_new = Inr cb" "cb_wf cb" "cb_content cb = []" using Cbuffer_new_wf by blast
  obtain r where r: "cb_wf r" "cb_content r = ''OK''" "cb_terminated r"
    using append_cstr_fresh [OF cb(2,3), of "''OK''"] by auto
  define m where "m = \<lparr>msg_tag = Message_TAG, msg_body = None, msg_headers = HdrList_new, msg_major_vers = 1,
          msg_minor_vers = 1, msg_is_request = Some False, msg_status_code = Some 200,
          msg_reason = Some r, msg_method = None, msg_target = Some cb\<rparr>"
  have "msg_wf m" using r cb by (simp add: msg_wf_def m_def HdrList_new_wf)
  then show ?thesis using r HdrList_new_wf by (intro exI [of _ m] exI [of _ r]) (simp add: m_def)
qed

end
