(* ===== verification/CH_AsyncConn.thy ===== *)
theory CH_AsyncConn
  imports CH_Watchers CH_HttpParser CH_Reply
begin

text \<open>
  The asynchronous server: connections (\<open>async/connection_*.c\<close>), the handler of a connection
  (\<open>async/async_handler.c\<close>) and the server itself (\<open>async/async_server.c\<close>).  All of it runs on
  one reactor, whose application state is the heap of the server: connections, handlers,
  streams and parsers by address.  An access through an address that is not in the heap (freed,
  or never allocated) is \<open>MemFault\<close>.  What \<open>recv\<close>, \<open>send\<close> and \<open>accept\<close> return is an input of
  every call, as are \<open>llhttp\<close> and the application's \<open>process_request\<close>.
\<close>

section \<open>Data\<close>

definition AsyncConnection_TAG :: string where "AsyncConnection_TAG = ''ASYCONN''"
definition AsyncHandler_TAG :: string where "AsyncHandler_TAG = ''ASYDLR''"
definition AsyncServer_TAG :: string where "AsyncServer_TAG = ''SYNSRVR''"

definition READ_STATE_IDLE :: int where "READ_STATE_IDLE = 11"
definition READ_STATE_EAGAINED :: int where "READ_STATE_EAGAINED = 12"
definition READ_STATE_ACTIVE :: int where "READ_STATE_ACTIVE = 13"
definition READ_STATE_STOP :: int where "READ_STATE_STOP = 14"

definition WRITE_STATE_IDLE :: int where "WRITE_STATE_IDLE = 21"
definition WRITE_STATE_EAGAINED :: int where "WRITE_STATE_EAGAINED = 22"
definition WRITE_STATE_ACTIVE :: int where "WRITE_STATE_ACTIVE = 23"
definition WRITE_STATE_STOP :: int where "WRITE_STATE_STOP = 24"

definition EAGAIN :: int where "EAGAIN = 11"
definition HPE_OK :: int where "HPE_OK = 0"

text \<open>
  \<open>ac_scratch_request\<close> is \<open>None\<close> until it is written for the first time: the constructor does
  not set it.  The parser of the connection is kept in the heap under the address of the
  connection; \<open>output_message_ptr\<close> is only ever set to \<open>NULL\<close> and left out.
\<close>

record AsyncConnection =
  ac_tag :: string
  ac_handler_ref :: addr
  ac_socket :: int
  ac_socket_stream_ref :: "addr option"
  ac_active_input_buffer_ref :: "IOBuffer option"
  ac_active_output_buffer_ref :: "IOBuffer option"
  ac_input_message_ptr :: "Message option"
  ac_scratch_request :: "Message option option"
  ac_read_state :: int
  ac_write_state :: int
  ac_read_buffer_size :: int
  ac_cleanup_done_flag :: bool
  ac_readside_posted :: bool
  ac_writeside_posted :: bool

record AsyncHandler =
  ah_tag :: string
  ah_async_connection_ref :: "addr option"
  ah_input_list :: "Message List"
  ah_output_list :: "Message List"

text \<open>What the parser's completion handler reaches through \<open>handler_context\<close>.\<close>

type_synonym conn_ctx = "AsyncConnection \<times> AsyncHandler"

record 'l AsyncServer =
  as_tag :: string
  as_ref :: addr
  as_port :: int
  as_listening_socket_fd :: int
  as_listening_watcher_ref :: RtorListener
  as_handler_list :: "addr List"
  as_handlers :: "addr \<Rightarrow> AsyncHandler option"
  as_conns :: "addr \<Rightarrow> AsyncConnection option"
  as_streams :: "addr \<Rightarrow> RtorStream option"
  as_parsers :: "addr \<Rightarrow> ('l, conn_ctx) http_parser option"
  as_fresh :: addr

type_synonym 'l async_st = "'l AsyncServer Reactor"

text \<open>
  The environment: \<open>llhttp\<close>, and the application function, which either answers a request at
  once through \<open>handle_response\<close> or returns without an answer (and answers later).
\<close>

record 'l async_env =
  e_llhttp_init :: 'l
  e_llhttp_execute :: "'l \<Rightarrow> string \<Rightarrow> ll_event list \<times> 'l \<times> int"
  e_llhttp_finish :: "'l \<Rightarrow> ll_event list \<times> 'l \<times> int"
  e_llhttp_method_name :: "int \<Rightarrow> string"
  e_process_request :: "Message \<Rightarrow> Message option"

text \<open>
  What the system calls of one step return.  \<open>io_recv\<close> is \<open>None\<close> for -1, otherwise the bytes the
  kernel has, of which \<open>recv\<close> delivers as many as fit; no bytes means end of file.  \<open>io_errno\<close> is
  the value of \<open>errno\<close> afterwards: a call that succeeds leaves whatever was there before.
\<close>

record async_io =
  io_recv :: "string option"
  io_send :: int
  io_accept :: int
  io_errno :: int

section \<open>The heap\<close>

definition h_get :: "(addr \<Rightarrow> 'a option) \<Rightarrow> addr \<Rightarrow> 'a res" where
  "h_get h a = (case h a of None \<Rightarrow> Inl MemFault | Some x \<Rightarrow> Inr x)"

definition get_conn :: "'l async_st \<Rightarrow> addr \<Rightarrow> AsyncConnection res" where
  "get_conn s c = h_get (as_conns (r_app s)) c"

definition check_conn :: "'l async_st \<Rightarrow> addr \<Rightarrow> AsyncConnection res" where
  "check_conn s c = rbind (get_conn s c) (\<lambda>x. rbind (check_tag AsyncConnection_TAG (ac_tag x)) (\<lambda>_. Inr x))"

definition get_handler :: "'l async_st \<Rightarrow> addr \<Rightarrow> AsyncHandler res" where
  "get_handler s h = h_get (as_handlers (r_app s)) h"

definition check_handler :: "'l async_st \<Rightarrow> addr \<Rightarrow> AsyncHandler res" where
  "check_handler s h = rbind (get_handler s h) (\<lambda>x. rbind (check_tag AsyncHandler_TAG (ah_tag x)) (\<lambda>_. Inr x))"

definition put_conn :: "addr \<Rightarrow> AsyncConnection \<Rightarrow> 'l async_st \<Rightarrow> 'l async_st" where
  "put_conn c x s = s\<lparr>r_app := (r_app s)\<lparr>as_conns := (as_conns (r_app s))(c \<mapsto> x)\<rparr>\<rparr>"

definition put_parser :: "addr \<Rightarrow> ('l, conn_ctx) http_parser \<Rightarrow> 'l async_st \<Rightarrow> 'l async_st" where
  "put_parser c p s = s\<lparr>r_app := (r_app s)\<lparr>as_parsers := (as_parsers (r_app s))(c \<mapsto> p)\<rparr>\<rparr>"

definition put_handler :: "addr \<Rightarrow> AsyncHandler \<Rightarrow> 'l async_st \<Rightarrow> 'l async_st" where
  "put_handler h x s = s\<lparr>r_app := (r_app s)\<lparr>as_handlers := (as_handlers (r_app s))(h \<mapsto> x)\<rparr>\<rparr>"

definition put_stream :: "addr \<Rightarrow> RtorStream \<Rightarrow> 'l async_st \<Rightarrow> 'l async_st" where
  "put_stream a x s = s\<lparr>r_app := (r_app s)\<lparr>as_streams := (as_streams (r_app s))(a \<mapsto> x)\<rparr>\<rparr>"

text \<open>\<open>malloc\<close> hands out addresses that were never used before.\<close>

definition new_addr :: "'l async_st \<Rightarrow> addr \<times> 'l async_st" where
  "new_addr s = (as_fresh (r_app s), s\<lparr>r_app := (r_app s)\<lparr>as_fresh := Suc (as_fresh (r_app s))\<rparr>\<rparr>)"

text \<open>Addresses of the functions that are posted or registered.\<close>

definition postable_reader_ptr :: code_ptr where "postable_reader_ptr = 10"
definition async_postable_writer_ptr :: code_ptr where "async_postable_writer_ptr = 11"
definition postable_write_complete_ptr :: code_ptr where "postable_write_complete_ptr = 12"
definition read_close_connection_ptr :: code_ptr where "read_close_connection_ptr = 13"
definition write_close_connection_ptr :: code_ptr where "write_close_connection_ptr = 14"
definition postable_handle_request_ptr :: code_ptr where "postable_handle_request_ptr = 15"
definition async_event_handler_ptr :: code_ptr where "async_event_handler_ptr = 16"
definition on_event_listening_ptr :: code_ptr where "on_event_listening_ptr = 17"

section \<open>Reading\<close>

definition async_post_to_reactor :: "addr \<Rightarrow> code_ptr \<Rightarrow> 'l async_st \<Rightarrow> 'l async_st res" where
  "async_post_to_reactor c postable_function s =
     rbind (get_conn s c) (\<lambda>_. rtor_reactor_post s postable_function c)"

definition async_read_start :: "addr \<Rightarrow> 'l async_st \<Rightarrow> 'l async_st res" where
  "async_read_start c s =
     rbind (check_conn s c) (\<lambda>x.
     rbind (c_assert (ac_read_state x = READ_STATE_ACTIVE)) (\<lambda>_.
     rbind (c_assert (\<not> ac_readside_posted x)) (\<lambda>_.
     rtor_reactor_post (put_conn c (x\<lparr>ac_readside_posted := True\<rparr>) s) postable_reader_ptr c)))"

definition post_read_start :: "addr \<Rightarrow> 'l async_st \<Rightarrow> 'l async_st res" where
  "post_read_start c s =
     rbind (check_conn s c) (\<lambda>x.
     rbind (c_assert (\<not> ac_readside_posted x)) (\<lambda>_.
     rtor_reactor_post (put_conn c (x\<lparr>ac_readside_posted := True\<rparr>) s) postable_reader_ptr c))"

text \<open>\<open>handle_request\<close> of a handler is never \<open>NULL\<close>: \<open>async_handler_init\<close> sets it.\<close>

definition post_delegate_handle_request :: "addr \<Rightarrow> Message \<Rightarrow> 'l async_st \<Rightarrow> 'l async_st res" where
  "post_delegate_handle_request h request s =
     rbind (get_handler s h) (\<lambda>hdl.
     rbind (c_deref (ah_async_connection_ref hdl)) (\<lambda>c.
     rbind (get_conn s c) (\<lambda>x.
     rtor_reactor_post (put_conn c (x\<lparr>ac_scratch_request := Some (Some request)\<rparr>) s)
       postable_handle_request_ptr h)))"

definition read_new_message :: "addr \<Rightarrow> 'l async_st \<Rightarrow> 'l async_st res" where
  "read_new_message c s =
     rbind (check_conn s c) (\<lambda>x.
     rbind (c_assert (ac_read_state x = READ_STATE_ACTIVE)) (\<lambda>_.
     case ac_input_message_ptr x of
       None \<Rightarrow> Inl Assertion
     | Some msg \<Rightarrow>
         rbind (c_assert (\<not> ac_readside_posted x)) (\<lambda>_.
         rbind (check_handler s (ac_handler_ref x)) (\<lambda>_.
         post_delegate_handle_request (ac_handler_ref x) msg
           (put_conn c (x\<lparr>ac_input_message_ptr := None, ac_read_state := READ_STATE_IDLE\<rparr>) s)))))"

text \<open>The three assertions that open \<open>read_eagain\<close>, \<open>read_need_data\<close> and \<open>read_error\<close>.\<close>

definition read_guard :: "addr \<Rightarrow> 'l async_st \<Rightarrow> AsyncConnection res" where
  "read_guard c s =
     rbind (check_conn s c) (\<lambda>x.
     rbind (c_assert (ac_read_state x = READ_STATE_ACTIVE)) (\<lambda>_.
     rbind (c_assert (ac_input_message_ptr x = None)) (\<lambda>_.
     rbind (c_assert (\<not> ac_readside_posted x)) (\<lambda>_. Inr x))))"

definition read_eagain :: "addr \<Rightarrow> 'l async_st \<Rightarrow> 'l async_st res" where
  "read_eagain c s =
     rbind (read_guard c s) (\<lambda>x. Inr (put_conn c (x\<lparr>ac_read_state := READ_STATE_EAGAINED\<rparr>) s))"

definition read_need_data :: "addr \<Rightarrow> 'l async_st \<Rightarrow> 'l async_st res" where
  "read_need_data c s = rbind (read_guard c s) (\<lambda>_. post_read_start c s)"

definition read_error :: "addr \<Rightarrow> 'l async_st \<Rightarrow> 'l async_st res" where
  "read_error c s =
     rbind (read_guard c s) (\<lambda>x.
     rbind (check_handler s (ac_handler_ref x)) (\<lambda>_.
     rtor_reactor_post
       (put_conn c (x\<lparr>ac_read_state := READ_STATE_STOP, ac_write_state := WRITE_STATE_STOP\<rparr>) s)
       read_close_connection_ptr (ac_handler_ref x)))"

text \<open>The completion handler given to the parser.\<close>

definition async_on_read_message_complete :: "conn_ctx message_handler" where
  "async_on_read_message_complete ctx msg =
     (case ctx of (x, hdl) \<Rightarrow>
       rbind (check_tag AsyncConnection_TAG (ac_tag x)) (\<lambda>_.
       rbind (check_tag AsyncHandler_TAG (ah_tag hdl)) (\<lambda>_.
       rbind (c_assert (ac_read_state x = READ_STATE_ACTIVE)) (\<lambda>_.
       Inr (HPE_OK, (x\<lparr>ac_input_message_ptr := Some msg\<rparr>, hdl))))))"

text \<open>The bytes from \<open>IOBuffer_data\<close> on, \<open>IOBuffer_data_len\<close> of them.\<close>

definition iob_bytes :: "IOBuffer \<Rightarrow> string res" where
  "iob_bytes b =
     rbind (IOBuffer_data b) (\<lambda>p.
     rbind (IOBuffer_data_len b) (\<lambda>n.
     rbind (mem_read_at (iob_mem b) p n) cell_bytes))"

text \<open>
  \<open>http_parser_consume\<close> on the parser of connection \<open>c\<close>: the callbacks see the connection and
  its handler as they are, and what they leave is written back.
\<close>

definition conn_consume :: "'l async_env \<Rightarrow> addr \<Rightarrow> string \<Rightarrow> 'l async_st \<Rightarrow> (int \<times> 'l async_st) res" where
  "conn_consume env c bytes s =
     rbind (get_conn s c) (\<lambda>x.
     rbind (get_handler s (ac_handler_ref x)) (\<lambda>hdl.
     rbind (h_get (as_parsers (r_app s)) c) (\<lambda>p.
     rbind (http_parser_consume (e_llhttp_execute env) (e_llhttp_finish env) async_on_read_message_complete
              (p\<lparr>hp_handler_context := (x, hdl)\<rparr>) bytes) (\<lambda>(ec, p1).
     case hp_handler_context p1 of (x1, hdl1) \<Rightarrow>
       Inr (ec, put_parser c p1 (put_handler (ac_handler_ref x) hdl1 (put_conn c x1 s)))))))"

definition reader :: "'l async_env \<Rightarrow> async_io \<Rightarrow> addr \<Rightarrow> 'l async_st \<Rightarrow> 'l async_st res" where
  "reader env io c s =
     rbind (check_conn s c) (\<lambda>x.
     rbind (c_assert (ac_read_state x = READ_STATE_ACTIVE)) (\<lambda>_.
     rbind (c_assert (ac_input_message_ptr x = None)) (\<lambda>_.
     rbind (case ac_active_input_buffer_ref x of
              None \<Rightarrow> Inr (IOBuffer_new_with_capacity (ac_read_buffer_size x))
            | Some b \<Rightarrow> IOBuffer_reset b) (\<lambda>iob.
     rbind (IOBuffer_space_len iob) (\<lambda>input_buffer_length.
     case io_recv io of
       Some avail \<Rightarrow>
         let bytes = take (nat input_buffer_length) avail in
         if bytes \<noteq> [] then
           rbind (iob_fill iob (map Some bytes)) (\<lambda>iob.
           rbind (iob_bytes iob) (\<lambda>data.
           rbind (conn_consume env c data
                    (put_conn c (x\<lparr>ac_active_input_buffer_ref := Some iob\<rparr>) s)) (\<lambda>(ec, s1).
           rbind (get_conn s1 c) (\<lambda>x1.
           if ac_input_message_ptr x1 \<noteq> None then read_new_message c s1
           else if io_errno io = EAGAIN then read_eagain c s1
           else if ec = HPE_OK then read_need_data c s1
           else read_error c s1))))
         else read_error c (put_conn c (x\<lparr>ac_active_input_buffer_ref := Some iob\<rparr>) s)
     | None \<Rightarrow>
         let s1 = put_conn c (x\<lparr>ac_active_input_buffer_ref := Some iob\<rparr>) s in
         if io_errno io = EAGAIN then read_eagain c s1 else read_error c s1)))))"

definition postable_reader :: "'l async_env \<Rightarrow> async_io \<Rightarrow> addr \<Rightarrow> 'l async_st \<Rightarrow> 'l async_st res" where
  "postable_reader env io c s =
     rbind (check_conn s c) (\<lambda>x.
     rbind (c_assert (ac_read_state x = READ_STATE_ACTIVE)) (\<lambda>_.
     rbind (c_assert (ac_readside_posted x)) (\<lambda>_.
     reader env io c (put_conn c (x\<lparr>ac_readside_posted := False\<rparr>) s))))"

section \<open>The API of a connection\<close>

definition async_connection_read :: "'l async_env \<Rightarrow> async_io \<Rightarrow> addr \<Rightarrow> 'l async_st \<Rightarrow> 'l async_st res" where
  "async_connection_read env io c s =
     rbind (check_conn s c) (\<lambda>x.
     rbind (c_assert (ac_read_state x = READ_STATE_IDLE)) (\<lambda>_.
     rbind (c_assert (ac_input_message_ptr x = None)) (\<lambda>_.
     let s1 = put_conn c (x\<lparr>ac_read_state := READ_STATE_ACTIVE\<rparr>) s in
     if \<not> ac_readside_posted x then reader env io c s1 else Inr s1)))"

definition async_connection_write :: "'l async_env \<Rightarrow> addr \<Rightarrow> Message \<Rightarrow> 'l async_st \<Rightarrow> 'l async_st res" where
  "async_connection_write env c response s =
     rbind (check_conn s c) (\<lambda>x.
     rbind (c_assert (ac_write_state x = WRITE_STATE_IDLE)) (\<lambda>_.
     rbind (Message_serialize (e_llhttp_method_name env) response) (\<lambda>b.
     async_post_to_reactor c async_postable_writer_ptr
       (put_conn c (x\<lparr>ac_active_output_buffer_ref := Some b, ac_write_state := WRITE_STATE_ACTIVE\<rparr>) s))))"

definition async_connection_close :: "addr \<Rightarrow> 'l async_st \<Rightarrow> 'l async_st res" where
  "async_connection_close c s =
     rbind (check_conn s c) (\<lambda>x.
     rbind (c_assert (ac_socket x > 0)) (\<lambda>_.
     Inr (put_conn c (x\<lparr>ac_socket := - 1\<rparr>) (s\<lparr>r_kernel := snd (sys_close (r_kernel s) (ac_socket x))\<rparr>))))"

text \<open>
  The stream is deregistered and freed, which closes its descriptor; the socket of the
  connection is the same descriptor and is closed once more.
\<close>

definition async_connection_destroy :: "addr \<Rightarrow> 'l async_st \<Rightarrow> 'l async_st res" where
  "async_connection_destroy c s =
     rbind (check_conn s c) (\<lambda>x.
     rbind (c_deref (ac_socket_stream_ref x)) (\<lambda>a.
     rbind (h_get (as_streams (r_app s)) a) (\<lambda>st.
     rbind (rtor_stream_deregister st s) (\<lambda>s1.
     rbind (rtor_stream_free st (r_kernel s1)) (\<lambda>k.
     let s2 = put_conn c (x\<lparr>ac_socket_stream_ref := None\<rparr>)
                (s1\<lparr>r_kernel := k, r_app := (r_app s1)\<lparr>as_streams := (as_streams (r_app s1))(a := None)\<rparr>\<rparr>) in
     rbind (if ac_socket x > 0 then async_connection_close c s2 else Inr s2) (\<lambda>s3.
     rbind (h_get (as_parsers (r_app s3)) c) (\<lambda>p.
     rbind (http_parser_dispose p) (\<lambda>_.
     rbind (case ac_active_output_buffer_ref x of None \<Rightarrow> Inr None | Some b \<Rightarrow> IOBuffer_dispose b) (\<lambda>out.
     rbind (case ac_active_input_buffer_ref x of None \<Rightarrow> Inr None | Some b \<Rightarrow> IOBuffer_dispose b) (\<lambda>inb.
     rbind (get_conn s3 c) (\<lambda>x3.
     Inr (put_conn c (x3\<lparr>ac_active_output_buffer_ref := out, ac_active_input_buffer_ref := inb, ac_tag := ''invalid''\<rparr>)
       (s3\<lparr>r_app := (r_app s3)\<lparr>as_parsers := (as_parsers (r_app s3))(c := None)\<rparr>\<rparr>)))))))))))))"

definition async_connection_free :: "addr \<Rightarrow> 'l async_st \<Rightarrow> 'l async_st res" where
  "async_connection_free c s =
     rbind (check_conn s c) (\<lambda>_.
     rbind (async_connection_destroy c s) (\<lambda>s1.
     Inr (s1\<lparr>r_app := (r_app s1)\<lparr>as_conns := (as_conns (r_app s1))(c := None)\<rparr>\<rparr>)))"

text \<open>The connection registers its stream and arms it for both directions, edge triggered.\<close>

definition async_connection_init ::
  "'l async_env \<Rightarrow> addr \<Rightarrow> int \<Rightarrow> addr \<Rightarrow> 'l async_st \<Rightarrow> 'l async_st res" where
  "async_connection_init env c socket h s =
     (let (a, s1) = new_addr s;
          st = (rtor_stream_new a socket)\<lparr>st_context := Some (Some c), st_both_arg := Some (Some c)\<rparr>;
          x = \<lparr>ac_tag = AsyncConnection_TAG, ac_handler_ref = h, ac_socket = socket,
               ac_socket_stream_ref = Some a, ac_active_input_buffer_ref = None,
               ac_active_output_buffer_ref = None, ac_input_message_ptr = None, ac_scratch_request = None,
               ac_read_state = READ_STATE_IDLE, ac_write_state = WRITE_STATE_IDLE,
               ac_read_buffer_size = 1000000, ac_cleanup_done_flag = False, ac_readside_posted = False,
               ac_writeside_posted = False\<rparr>
      in rbind (get_handler s h) (\<lambda>hdl.
         rbind (http_parser_new (e_llhttp_init env) (x, hdl)) (\<lambda>p.
         rbind (rtor_stream_register st (put_parser c p (put_conn c x s1))) (\<lambda>s2.
         rbind (rtor_stream_arm_both st (Some async_event_handler_ptr) (Some c) s2) (\<lambda>(st1, s3).
         Inr (put_stream a st1 s3))))))"

definition async_connection_new ::
  "'l async_env \<Rightarrow> int \<Rightarrow> addr \<Rightarrow> 'l async_st \<Rightarrow> (addr \<times> 'l async_st) res" where
  "async_connection_new env socket h s =
     (let (c, s1) = new_addr s in rbind (async_connection_init env c socket h s1) (\<lambda>s2. Inr (c, s2)))"

section \<open>Releasing a handler\<close>

text \<open>The two lists of a handler are created without a deallocator and stay empty.\<close>

definition async_handler_destroy :: "addr \<Rightarrow> 'l async_st \<Rightarrow> 'l async_st res" where
  "async_handler_destroy h s =
     rbind (check_handler s h) (\<lambda>hdl.
     rbind (c_deref (ah_async_connection_ref hdl)) (\<lambda>c.
     rbind (async_connection_free c s) (\<lambda>s1.
     rbind (List_dispose (ah_input_list hdl)) (\<lambda>i.
     rbind (List_dispose (ah_output_list hdl)) (\<lambda>out.
     Inr (put_handler h (hdl\<lparr>ah_async_connection_ref := None, ah_input_list := i, ah_output_list := out,
                            ah_tag := ''invalid''\<rparr>) s1))))))"

definition async_handler_free :: "addr \<Rightarrow> 'l async_st \<Rightarrow> 'l async_st res" where
  "async_handler_free h s =
     rbind (check_handler s h) (\<lambda>_.
     rbind (async_handler_destroy h s) (\<lambda>s1.
     Inr (s1\<lparr>r_app := (r_app s1)\<lparr>as_handlers := (as_handlers (r_app s1))(h := None)\<rparr>\<rparr>)))"

text \<open>The deallocator of the handler list: it frees the handler and clears the cell.\<close>

definition async_handler_anonymous_dispose :: "addr \<Rightarrow> 'l async_st \<Rightarrow> 'l async_st res" where
  "async_handler_anonymous_dispose h s = async_handler_free h s"

text \<open>
  Removing the handler's node calls the deallocator on it; the items that the list operation
  passed to the deallocator are the new entries of its log.
\<close>

definition on_handler_completion_cb :: "addr \<Rightarrow> 'l async_st \<Rightarrow> 'l async_st res" where
  "on_handler_completion_cb h s =
     rbind (check_tag AsyncServer_TAG (as_tag (r_app s))) (\<lambda>_.
     let l = as_handler_list (r_app s) in
     rbind (List_find l h) (\<lambda>itr.
     rbind (List_itr_unpack l itr) (\<lambda>_.
     rbind (List_itr_remove l itr) (\<lambda>l1.
     rfold async_handler_anonymous_dispose (drop (length (l_freed l)) (l_freed l1))
       (s\<lparr>r_app := (r_app s)\<lparr>as_handler_list := l1\<rparr>\<rparr>)))))"

section \<open>The delegate functions of a handler\<close>

definition handle_close_connection :: "addr \<Rightarrow> 'l async_st \<Rightarrow> 'l async_st res" where
  "handle_close_connection h s =
     rbind (check_handler s h) (\<lambda>hdl.
     rbind (c_deref (ah_async_connection_ref hdl)) (\<lambda>c.
     rbind (get_conn s c) (\<lambda>x.
     rbind (c_assert (ac_socket_stream_ref x \<noteq> None)) (\<lambda>_.
     on_handler_completion_cb h s))))"

definition handle_write_complete :: "'l async_env \<Rightarrow> async_io \<Rightarrow> addr \<Rightarrow> 'l async_st \<Rightarrow> 'l async_st res" where
  "handle_write_complete env io h s =
     rbind (check_handler s h) (\<lambda>hdl.
     rbind (c_deref (ah_async_connection_ref hdl)) (\<lambda>c.
     async_connection_read env io c s))"

definition async_handler_handle_response ::
  "'l async_env \<Rightarrow> addr \<Rightarrow> Message \<Rightarrow> Message \<Rightarrow> 'l async_st \<Rightarrow> 'l async_st res" where
  "async_handler_handle_response env h request response s =
     rbind (check_handler s h) (\<lambda>hdl.
     rbind (add_connection_header request response) (\<lambda>response1.
     rbind (c_deref (ah_async_connection_ref hdl)) (\<lambda>c.
     async_connection_write env c response1 s)))"

definition handle_request :: "'l async_env \<Rightarrow> addr \<Rightarrow> Message \<Rightarrow> 'l async_st \<Rightarrow> 'l async_st res" where
  "handle_request env h request s =
     rbind (check_handler s h) (\<lambda>_.
     case e_process_request env request of
       None \<Rightarrow> Inr s
     | Some response \<Rightarrow> async_handler_handle_response env h request response s)"

section \<open>Posted functions of the read side\<close>

text \<open>Also the shape of \<open>postable_handle_close_connection\<close>, which is never posted.\<close>

definition postable_close_connection :: "addr \<Rightarrow> 'l async_st \<Rightarrow> 'l async_st res" where
  "postable_close_connection h s =
     rbind (check_handler s h) (\<lambda>_. handle_close_connection h s)"

definition postable_handle_request :: "'l async_env \<Rightarrow> addr \<Rightarrow> 'l async_st \<Rightarrow> 'l async_st res" where
  "postable_handle_request env h s =
     rbind (check_handler s h) (\<lambda>hdl.
     rbind (c_deref (ah_async_connection_ref hdl)) (\<lambda>c.
     rbind (check_conn s c) (\<lambda>x.
     rbind (c_init (ac_scratch_request x)) (\<lambda>tmp.
     case tmp of
       None \<Rightarrow> Inl Assertion
     | Some request \<Rightarrow> handle_request env h request (put_conn c (x\<lparr>ac_scratch_request := Some None\<rparr>) s)))))"

section \<open>Writing\<close>

definition write_error :: "addr \<Rightarrow> 'l async_st \<Rightarrow> 'l async_st res" where
  "write_error c s =
     rbind (check_conn s c) (\<lambda>x.
     rbind (check_handler s (ac_handler_ref x)) (\<lambda>_.
     rtor_reactor_post
       (put_conn c (x\<lparr>ac_read_state := READ_STATE_STOP, ac_write_state := WRITE_STATE_STOP\<rparr>) s)
       write_close_connection_ptr (ac_handler_ref x)))"

definition write_complete :: "addr \<Rightarrow> 'l async_st \<Rightarrow> 'l async_st res" where
  "write_complete c s =
     rbind (check_conn s c) (\<lambda>x.
     rbind (check_handler s (ac_handler_ref x)) (\<lambda>_.
     rtor_reactor_post s postable_write_complete_ptr c))"

definition post_postable_writer :: "addr \<Rightarrow> 'l async_st \<Rightarrow> 'l async_st res" where
  "post_postable_writer c s = rbind (get_conn s c) (\<lambda>_. rtor_reactor_post s async_postable_writer_ptr c)"

definition write_incomplete :: "addr \<Rightarrow> 'l async_st \<Rightarrow> 'l async_st res" where
  "write_incomplete c s =
     rbind (check_conn s c) (\<lambda>x.
     rbind (check_handler s (ac_handler_ref x)) (\<lambda>_.
     post_postable_writer c s))"

text \<open>\<open>send\<close> takes at most the bytes it is given; \<open>stream->fd\<close> is read for the call.\<close>

definition writer :: "async_io \<Rightarrow> addr \<Rightarrow> 'l async_st \<Rightarrow> 'l async_st res" where
  "writer io c s =
     rbind (check_conn s c) (\<lambda>x.
     case ac_active_output_buffer_ref x of
       None \<Rightarrow> Inl Assertion
     | Some iob \<Rightarrow>
         rbind (IOBuffer_data_len iob) (\<lambda>buflen.
         rbind (c_deref (ac_socket_stream_ref x)) (\<lambda>a.
         rbind (h_get (as_streams (r_app s)) a) (\<lambda>st.
         let nsend = (if io_send io < 0 then - 1 else min (io_send io) buflen) in
         if nsend > 0 then
           rbind (IOBuffer_consume iob nsend) (\<lambda>iob1.
           rbind (IOBuffer_data_len iob1) (\<lambda>remaining.
           if remaining = 0 then
             rbind (IOBuffer_dispose iob1) (\<lambda>gone.
             write_complete c (put_conn c (x\<lparr>ac_write_state := WRITE_STATE_IDLE,
                                             ac_active_output_buffer_ref := gone\<rparr>) s))
           else write_incomplete c (put_conn c (x\<lparr>ac_write_state := WRITE_STATE_ACTIVE,
                                                  ac_active_output_buffer_ref := Some iob1\<rparr>) s)))
         else if nsend = 0 then write_error c s
         else if io_errno io = EAGAIN then Inr (put_conn c (x\<lparr>ac_write_state := WRITE_STATE_EAGAINED\<rparr>) s)
         else write_error c s))))"

definition async_postable_writer :: "async_io \<Rightarrow> addr \<Rightarrow> 'l async_st \<Rightarrow> 'l async_st res" where
  "async_postable_writer io c s =
     rbind (check_conn s c) (\<lambda>x.
     rbind (c_assert (ac_active_output_buffer_ref x \<noteq> None)) (\<lambda>_.
     rbind (c_assert (ac_write_state x = WRITE_STATE_ACTIVE)) (\<lambda>_.
     writer io c s)))"

definition postable_write_complete :: "'l async_env \<Rightarrow> async_io \<Rightarrow> addr \<Rightarrow> 'l async_st \<Rightarrow> 'l async_st res" where
  "postable_write_complete env io c s =
     rbind (check_conn s c) (\<lambda>x.
     rbind (check_handler s (ac_handler_ref x)) (\<lambda>_.
     handle_write_complete env io (ac_handler_ref x) s))"

section \<open>Events\<close>

definition read_epollin :: "addr \<Rightarrow> 'l async_st \<Rightarrow> 'l async_st res" where
  "read_epollin c s =
     rbind (check_conn s c) (\<lambda>x.
     if ac_read_state x = READ_STATE_EAGAINED
     then async_read_start c (put_conn c (x\<lparr>ac_read_state := READ_STATE_ACTIVE\<rparr>) s)
     else Inr s)"

definition write_epollout :: "addr \<Rightarrow> 'l async_st \<Rightarrow> 'l async_st res" where
  "write_epollout c s =
     rbind (check_conn s c) (\<lambda>x.
     if ac_write_state x = WRITE_STATE_EAGAINED
     then async_post_to_reactor c async_postable_writer_ptr
            (put_conn c (x\<lparr>ac_write_state := WRITE_STATE_ACTIVE, ac_writeside_posted := True\<rparr>) s)
     else Inr s)"

definition async_event_handler :: "RtorStream \<Rightarrow> 64 word \<Rightarrow> 'l async_st \<Rightarrow> 'l async_st res" where
  "async_event_handler st event s =
     rbind (c_init (st_context st)) (\<lambda>cp.
     rbind (c_deref cp) (\<lambda>c.
     rbind (check_conn s c) (\<lambda>_.
     rbind (if event AND ev64 EPOLLOUT \<noteq> 0 then write_epollout c s else Inr s) (\<lambda>s1.
     if event AND ev64 EPOLLIN \<noteq> 0 then read_epollin c s1 else Inr s1))))"

text \<open>Never posted by the code: the cleanup function would deregister the stream itself.\<close>

definition async_postable_cleanup :: "addr \<Rightarrow> 'l async_st \<Rightarrow> 'l async_st res" where
  "async_postable_cleanup c s =
     rbind (get_conn s c) (\<lambda>x.
     rbind (c_assert (\<not> ac_cleanup_done_flag x)) (\<lambda>_.
     rbind (check_conn s c) (\<lambda>_.
     rbind (c_deref (ac_socket_stream_ref x)) (\<lambda>a.
     rbind (h_get (as_streams (r_app s)) a) (\<lambda>st.
     rbind (rtor_stream_deregister st s) (\<lambda>s1.
     handle_close_connection (ac_handler_ref x) s1))))))"

section \<open>Handler and server construction\<close>

definition async_handler_init ::
  "'l async_env \<Rightarrow> async_io \<Rightarrow> addr \<Rightarrow> int \<Rightarrow> 'l async_st \<Rightarrow> 'l async_st res" where
  "async_handler_init env io h socket s =
     (let hdl = \<lparr>ah_tag = AsyncHandler_TAG, ah_async_connection_ref = None,
                ah_input_list = List_new NoDealloc, ah_output_list = List_new NoDealloc\<rparr>
      in rbind (async_connection_new env socket h (put_handler h hdl s)) (\<lambda>(c, s1).
         async_connection_read env io c (put_handler h (hdl\<lparr>ah_async_connection_ref := Some c\<rparr>) s1)))"

definition async_handler_new ::
  "'l async_env \<Rightarrow> async_io \<Rightarrow> int \<Rightarrow> 'l async_st \<Rightarrow> (addr \<times> 'l async_st) res" where
  "async_handler_new env io socket s =
     (let (h, s1) = new_addr s in rbind (async_handler_init env io h socket s1) (\<lambda>s2. Inr (h, s2)))"

text \<open>\<open>accept\<close> opens a descriptor; making it non-blocking succeeds on an open one.\<close>

definition sys_accept :: "kernel \<Rightarrow> int \<Rightarrow> kernel" where
  "sys_accept k fd = k\<lparr>k_open := (k_open k)(fd := True)\<rparr>"

definition async_socket_set_nonblocking :: "kernel \<Rightarrow> int \<Rightarrow> unit res" where
  "async_socket_set_nonblocking k socket = c_assert (k_open k socket)"

definition on_event_listening :: "'l async_env \<Rightarrow> async_io \<Rightarrow> RtorListener \<Rightarrow> 'l async_st \<Rightarrow> 'l async_st res" where
  "on_event_listening env io lw s =
     rbind (c_deref (ls_arg lw)) (\<lambda>sref.
     rbind (if sref = as_ref (r_app s) then Inr () else Inl MemFault) (\<lambda>_.
     rbind (check_tag AsyncServer_TAG (as_tag (r_app s))) (\<lambda>_.
     let sock2 = io_accept io in
     if sock2 \<le> 0 then (if io_errno io = EAGAIN then Inr s else Inl Assertion)
     else
       let s1 = s\<lparr>r_kernel := sys_accept (r_kernel s) sock2\<rparr> in
       rbind (async_socket_set_nonblocking (r_kernel s1) sock2) (\<lambda>_.
       rbind (async_handler_new env io sock2 s1) (\<lambda>(h, s2).
       rbind (List_add_back (as_handler_list (r_app s2)) h) (\<lambda>l.
       Inr (s2\<lparr>r_app := (r_app s2)\<lparr>as_handler_list := l\<rparr>\<rparr>)))))))"

definition AsyncServer_init_with_socket ::
  "addr \<Rightarrow> int \<Rightarrow> int \<Rightarrow> int \<Rightarrow> kernel \<Rightarrow> 'l async_st res" where
  "AsyncServer_init_with_socket sref port listen_socket epoll_fd k =
     rtor_reactor_new epoll_fd k
       \<lparr>as_tag = AsyncServer_TAG, as_ref = sref, as_port = port, as_listening_socket_fd = listen_socket,
        as_listening_watcher_ref = rtor_listener_new (Suc sref) listen_socket,
        as_handler_list = List_new NullingDealloc, as_handlers = Map.empty, as_conns = Map.empty,
        as_streams = Map.empty, as_parsers = Map.empty, as_fresh = Suc (Suc sref)\<rparr>"

definition AsyncServer_new_with_socket :: "addr \<Rightarrow> int \<Rightarrow> int \<Rightarrow> int \<Rightarrow> kernel \<Rightarrow> 'l async_st res" where
  "AsyncServer_new_with_socket sref port listen_socket epoll_fd k =
     AsyncServer_init_with_socket sref port listen_socket epoll_fd k"

definition AsyncServer_start :: "'l async_st \<Rightarrow> 'l async_st res" where
  "AsyncServer_start s =
     rbind (check_tag AsyncServer_TAG (as_tag (r_app s))) (\<lambda>_.
     rbind (rtor_listener_register (as_listening_watcher_ref (r_app s)) (Some on_event_listening_ptr)
              (Some (as_ref (r_app s))) s) (\<lambda>(lw, s1).
     Inr (s1\<lparr>r_app := (r_app s1)\<lparr>as_listening_watcher_ref := lw\<rparr>\<rparr>)))"

text \<open>
  Destroying the server frees the reactor before the handlers: the list's deallocator then
  reaches, through the stream of a connection that is still open, for a reactor that is gone.
\<close>

definition AsyncServer_destroy :: "'l async_st \<Rightarrow> kernel res" where
  "AsyncServer_destroy s =
     rbind (check_tag AsyncServer_TAG (as_tag (r_app s))) (\<lambda>_.
     rbind (rtor_listener_deregister (as_listening_watcher_ref (r_app s)) s) (\<lambda>s1.
     rbind (rtor_listener_free (as_listening_watcher_ref (r_app s)) (r_kernel s1)) (\<lambda>k.
     let s2 = s1\<lparr>r_kernel := snd (sys_close k (as_listening_socket_fd (r_app s)))\<rparr> in
     rbind (rtor_reactor_free s2) (\<lambda>k3.
     rbind (List_dispose (as_handler_list (r_app s))) (\<lambda>l.
     if drop (length (l_freed (as_handler_list (r_app s)))) (l_freed l) = [] then Inr k3 else Inl MemFault)))))"

definition AsyncServer_free :: "'l async_st \<Rightarrow> kernel res" where
  "AsyncServer_free s =
     rbind (check_tag AsyncServer_TAG (as_tag (r_app s))) (\<lambda>_. AsyncServer_destroy s)"

section \<open>The code tables the reactor calls through\<close>

definition async_code :: "'l async_env \<Rightarrow> async_io \<Rightarrow> 'l AsyncServer code" where
  "async_code env io f arg s =
     (if f = postable_reader_ptr then postable_reader env io arg s
      else if f = async_postable_writer_ptr then async_postable_writer io arg s
      else if f = postable_write_complete_ptr then postable_write_complete env io arg s
      else if f = read_close_connection_ptr then postable_close_connection arg s
      else if f = write_close_connection_ptr then postable_close_connection arg s
      else if f = postable_handle_request_ptr then postable_handle_request env arg s
      else Inl MemFault)"

text \<open>The handler of a watcher: the listener's, or that of the stream with this address.\<close>

definition async_handlers :: "'l async_env \<Rightarrow> async_io \<Rightarrow> 'l AsyncServer handlers" where
  "async_handlers env io wref event s =
     (let lw = as_listening_watcher_ref (r_app s) in
      if wref = w_ref lw then
        listener_handler (\<lambda>f ev s. if f = on_event_listening_ptr then on_event_listening env io lw s
                                   else Inl MemFault) lw (ucast event) s
      else
        rbind (h_get (as_streams (r_app s)) wref) (\<lambda>st.
        rbind (stream_handler (\<lambda>f ev (st, s).
                 if f = async_event_handler_ptr
                 then rbind (async_event_handler st ev s) (\<lambda>s1. Inr (st, s1))
                 else Inl MemFault) (ucast event) (st, s)) (\<lambda>(st1, s1). Inr s1)))"

section \<open>Bytes of a buffer\<close>

lemma iob_bytes_ok:
  assumes "iob_wf b"
  shows "iob_bytes b = Inr (iob_content b)"
proof -
  have cells: "cell_bytes (map Some t) = Inr t" for t by (induction t) auto
  have "mem_read_at (iob_mem b) (iob_ptr b) (iob_remaining b) = Inr (iob_cells b)"
    using assms by (auto simp: iob_wf_def mem_read_at_def mem_read_def iob_cells_def)
  then show ?thesis using assms cells iob_cells_content [of b]
    by (simp add: iob_bytes_def IOBuffer_data_def IOBuffer_data_len_def iob_wf_check iob_wf_def)
qed

end
