(* ===== verification/CH_Async.thy ===== *)
theory CH_Async
  imports CH_AsyncConn CH_ParserTyping
begin

text \<open>
  The invariant of the asynchronous server and what follows from it.  At any moment each
  connection is in one of eight phases, and in each phase either exactly one function of the
  connection is in the ready list of the reactor or the connection waits for an event or for the
  application.  From this follow the assertions of the code, the validity of every pointer in
  the ready list and in the watcher table, and the bound on the length of the ready list.
\<close>

section \<open>Phases of a connection\<close>

datatype phase = Reading | Read_wait | Requested | Processing | Writing | Write_wait | Written | Closing

definition in_phase :: "phase \<Rightarrow> addr \<Rightarrow> AsyncConnection \<Rightarrow> rfunctor list \<Rightarrow> bool" where
  "in_phase ph c x fs \<longleftrightarrow>
     (case ph of
        Reading \<Rightarrow> fs = [\<lparr>fn_f = postable_reader_ptr, fn_arg = c\<rparr>] \<and> ac_read_state x = READ_STATE_ACTIVE \<and>
          ac_readside_posted x \<and> ac_write_state x = WRITE_STATE_IDLE
      | Read_wait \<Rightarrow> fs = [] \<and> ac_read_state x = READ_STATE_EAGAINED \<and> \<not> ac_readside_posted x \<and>
          ac_write_state x = WRITE_STATE_IDLE
      | Requested \<Rightarrow> fs = [\<lparr>fn_f = postable_handle_request_ptr, fn_arg = ac_handler_ref x\<rparr>] \<and>
          ac_read_state x = READ_STATE_IDLE \<and> \<not> ac_readside_posted x \<and> ac_write_state x = WRITE_STATE_IDLE \<and>
          (\<exists>m. ac_scratch_request x = Some (Some m) \<and> msg_wf m)
      | Processing \<Rightarrow> fs = [] \<and> ac_read_state x = READ_STATE_IDLE \<and> \<not> ac_readside_posted x \<and>
          ac_write_state x = WRITE_STATE_IDLE
      | Writing \<Rightarrow> fs = [\<lparr>fn_f = async_postable_writer_ptr, fn_arg = c\<rparr>] \<and> ac_read_state x = READ_STATE_IDLE \<and>
          \<not> ac_readside_posted x \<and> ac_write_state x = WRITE_STATE_ACTIVE \<and>
          (\<exists>b. ac_active_output_buffer_ref x = Some b \<and> 0 < iob_remaining b)
      | Write_wait \<Rightarrow> fs = [] \<and> ac_read_state x = READ_STATE_IDLE \<and> \<not> ac_readside_posted x \<and>
          ac_write_state x = WRITE_STATE_EAGAINED \<and>
          (\<exists>b. ac_active_output_buffer_ref x = Some b \<and> 0 < iob_remaining b)
      | Written \<Rightarrow> fs = [\<lparr>fn_f = postable_write_complete_ptr, fn_arg = c\<rparr>] \<and>
          ac_read_state x = READ_STATE_IDLE \<and> \<not> ac_readside_posted x \<and> ac_write_state x = WRITE_STATE_IDLE
      | Closing \<Rightarrow> (fs = [\<lparr>fn_f = read_close_connection_ptr, fn_arg = ac_handler_ref x\<rparr>] \<or>
            fs = [\<lparr>fn_f = write_close_connection_ptr, fn_arg = ac_handler_ref x\<rparr>]) \<and>
          ac_read_state x = READ_STATE_STOP \<and> ac_write_state x = WRITE_STATE_STOP)"

text \<open>The functors that belong to the connection at \<open>c\<close> with its handler at \<open>h\<close>.\<close>

definition mine :: "addr \<Rightarrow> addr \<Rightarrow> rfunctor \<Rightarrow> bool" where
  "mine c h f \<longleftrightarrow>
     fn_f f \<in> {postable_reader_ptr, async_postable_writer_ptr, postable_write_complete_ptr} \<and> fn_arg f = c \<or>
     fn_f f \<in> {read_close_connection_ptr, write_close_connection_ptr, postable_handle_request_ptr} \<and> fn_arg f = h"

lemmas async_ptrs = postable_reader_ptr_def async_postable_writer_ptr_def postable_write_complete_ptr_def
  read_close_connection_ptr_def write_close_connection_ptr_def postable_handle_request_ptr_def

lemmas async_states = READ_STATE_IDLE_def READ_STATE_EAGAINED_def READ_STATE_ACTIVE_def READ_STATE_STOP_def
  WRITE_STATE_IDLE_def WRITE_STATE_EAGAINED_def WRITE_STATE_ACTIVE_def WRITE_STATE_STOP_def

lemma in_phase_mine: "in_phase ph c x fs \<Longrightarrow> filter (mine c (ac_handler_ref x)) fs = fs"
  by (cases ph) (auto simp: in_phase_def mine_def)

lemma in_phase_length: "in_phase ph c x fs \<Longrightarrow> length fs \<le> 1"
  by (cases ph) (auto simp: in_phase_def)

lemma mine_other: "mine c h f \<Longrightarrow> c' \<noteq> c \<Longrightarrow> h' \<noteq> h \<Longrightarrow> \<not> mine c' h' f"
  by (auto simp: mine_def async_ptrs)

section \<open>The invariant\<close>

definition handler_ok :: "AsyncHandler \<Rightarrow> addr \<Rightarrow> bool" where
  "handler_ok hdl c \<longleftrightarrow> ah_tag hdl = AsyncHandler_TAG \<and> ah_async_connection_ref hdl = Some c \<and>
     ah_input_list hdl = List_new NoDealloc \<and> ah_output_list hdl = List_new NoDealloc"

definition stream_ok :: "RtorStream \<Rightarrow> addr \<Rightarrow> addr \<Rightarrow> int \<Rightarrow> bool" where
  "stream_ok st a c fd \<longleftrightarrow> w_tag st = WIoFd_TAG \<and> w_ref st = a \<and> w_fd st = fd \<and>
     st_context st = Some (Some c) \<and> st_both_handler st = Some (Some async_event_handler_ptr) \<and>
     st_read_evhandler st = None \<and> st_write_evhandler st = None"

text \<open>What holds of the record of a connection by itself, and of the objects it points to.\<close>

definition conn_local :: "AsyncConnection \<Rightarrow> bool" where
  "conn_local x \<longleftrightarrow> ac_tag x = AsyncConnection_TAG \<and> 0 < ac_socket x \<and> ac_read_buffer_size x = 1000000 \<and>
     (\<forall>b. ac_active_input_buffer_ref x = Some b \<longrightarrow> iob_wf b \<and> iob_capacity b = 1000000) \<and>
     (\<forall>b. ac_active_output_buffer_ref x = Some b \<longrightarrow> iob_wf b)"

definition conn_links :: "'l async_st \<Rightarrow> addr \<Rightarrow> AsyncConnection \<Rightarrow> bool" where
  "conn_links s c x \<longleftrightarrow>
     (\<exists>hdl. as_handlers (r_app s) (ac_handler_ref x) = Some hdl \<and> handler_ok hdl c) \<and>
     (\<exists>p. as_parsers (r_app s) c = Some p \<and> hp_typed p) \<and>
     (\<exists>a st. ac_socket_stream_ref x = Some a \<and> as_streams (r_app s) a = Some st \<and>
        stream_ok st a c (ac_socket x) \<and> ft_view (r_table s) (ac_socket x) = Some a)"

definition posts_of :: "'l async_st \<Rightarrow> addr \<Rightarrow> AsyncConnection \<Rightarrow> rfunctor list" where
  "posts_of s c x = filter (mine c (ac_handler_ref x)) (ready s)"

text \<open>
  The server without its connections' phases: \<open>busy\<close> is the set of connections whose phase is
  left open, because one of their functions is running.
\<close>

definition server_ok :: "'l async_st \<Rightarrow> bool" where
  "server_ok s \<longleftrightarrow> (case as_listening_watcher_ref (r_app s) of lw \<Rightarrow>
     as_tag (r_app s) = AsyncServer_TAG \<and> w_tag lw = WListenerFd_TAG \<and>
     ls_evhandler lw = Some on_event_listening_ptr \<and> ls_arg lw = Some (as_ref (r_app s)) \<and>
     ft_view (r_table s) (w_fd lw) = Some (w_ref lw) \<and>
     as_streams (r_app s) (w_ref lw) = None \<and> w_ref lw < as_fresh (r_app s) \<and>
     (\<forall>a. as_fresh (r_app s) \<le> a \<longrightarrow> as_handlers (r_app s) a = None \<and> as_conns (r_app s) a = None \<and>
            as_streams (r_app s) a = None) \<and>
     (\<forall>fd w. ft_view (r_table s) fd = Some w \<longrightarrow> w = w_ref lw \<and> fd = w_fd lw \<or>
        (\<exists>c x. as_conns (r_app s) c = Some x \<and> ac_socket_stream_ref x = Some w \<and> ac_socket x = fd)) \<and>
     (\<forall>h hdl. as_handlers (r_app s) h = Some hdl \<longrightarrow>
        (\<exists>c x. ah_async_connection_ref hdl = Some c \<and> as_conns (r_app s) c = Some x \<and> ac_handler_ref x = h)))"

definition core_inv :: "addr set \<Rightarrow> 'l async_st \<Rightarrow> bool" where
  "core_inv busy s \<longleftrightarrow> Reactor_wf s \<and> server_ok s \<and>
     (\<forall>c x. as_conns (r_app s) c = Some x \<longrightarrow>
        conn_local x \<and> conn_links s c x \<and>
        (if c \<in> busy then posts_of s c x = []
         else ac_input_message_ptr x = None \<and> (\<exists>ph. in_phase ph c x (posts_of s c x)))) \<and>
     (\<forall>f \<in> set (ready s). \<exists>c x. as_conns (r_app s) c = Some x \<and> mine c (ac_handler_ref x) f)"

text \<open>The handler list owns exactly the handlers that exist.\<close>

definition list_ok :: "'l async_st \<Rightarrow> bool" where
  "list_ok s \<longleftrightarrow> (\<exists>as. List_inv (as_handler_list (r_app s)) as \<and> distinct (map snd as) \<and>
     set (map snd as) = dom (as_handlers (r_app s)) \<and> l_dealloc (as_handler_list (r_app s)) = NullingDealloc)"

definition async_inv :: "'l async_st \<Rightarrow> bool" where
  "async_inv s \<longleftrightarrow> core_inv {} s \<and> list_ok s"

section \<open>The ready list never fills up\<close>

lemma length_filter_bound:
  assumes "finite C" and "\<forall>f \<in> set fs. \<exists>c \<in> C. P c f" and "\<forall>c \<in> C. length (filter (P c) fs) \<le> 1"
  shows "length fs \<le> card C"
proof -
  have "length fs \<le> (\<Sum>c\<in>C. length (filter (P c) fs))"
    using assms(2)
  proof (induction fs)
    case (Cons f fs)
    then obtain c where c: "c \<in> C" "P c f" by auto
    have "(\<Sum>d\<in>C. length (filter (P d) fs)) + 1 \<le> (\<Sum>d\<in>C. length (filter (P d) (f # fs)))"
      unfolding sum.remove [OF assms(1) c(1)] using c(2)
      by (simp add: add_mono sum_mono)
    with Cons show ?case by simp
  qed simp
  also have "\<dots> \<le> (\<Sum>c\<in>C. 1)" using assms(3) by (intro sum_mono) auto
  finally show ?thesis by simp
qed

lemma conn_sockets_inj:
  assumes "\<forall>c x. as_conns (r_app s) c = Some x \<longrightarrow> conn_links s c x"
  shows "inj_on (\<lambda>c. ac_socket (the (as_conns (r_app s) c))) (dom (as_conns (r_app s)))"
proof (rule inj_onI)
  fix c d
  assume e: "ac_socket (the (as_conns (r_app s) c)) = ac_socket (the (as_conns (r_app s) d))"
    and cd: "c \<in> dom (as_conns (r_app s))" "d \<in> dom (as_conns (r_app s))"
  from cd obtain x y where x: "as_conns (r_app s) c = Some x" and y: "as_conns (r_app s) d = Some y" by blast
  from assms x y have l: "conn_links s c x" "conn_links s d y" by blast+
  from l(1) obtain a st where a: "as_streams (r_app s) a = Some st" "stream_ok st a c (ac_socket x)"
    "ft_view (r_table s) (ac_socket x) = Some a" by (auto simp: conn_links_def)
  from l(2) obtain b st' where b: "as_streams (r_app s) b = Some st'" "stream_ok st' b d (ac_socket y)"
    "ft_view (r_table s) (ac_socket y) = Some b" by (auto simp: conn_links_def)
  have "a = b" using e x y a(3) b(3) by simp
  with a b show "c = d" by (simp add: stream_ok_def)
qed

lemma ft_view_range: "ft_wf t \<Longrightarrow> ft_view t fd = Some w \<Longrightarrow> fd_ok fd"
  by (auto simp: ft_view_def ft_wf_def fd_ok_def split: if_splits)

lemma conns_bound:
  assumes inv: "core_inv busy s"
  shows "finite (dom (as_conns (r_app s))) \<and> card (dom (as_conns (r_app s))) \<le> 1024"
proof -
  let ?C = "dom (as_conns (r_app s))" and ?f = "\<lambda>c. ac_socket (the (as_conns (r_app s) c))"
  have t: "ft_wf (r_table s)" using inv by (simp add: core_inv_def Reactor_wf_def)
  have links: "\<forall>c x. as_conns (r_app s) c = Some x \<longrightarrow> conn_links s c x"
    using inv unfolding core_inv_def by blast
  have sub: "?f ` ?C \<subseteq> {0..<1024}"
  proof (rule image_subsetI)
    fix c assume "c \<in> ?C"
    then obtain x where x: "as_conns (r_app s) c = Some x" by blast
    then obtain a where "ft_view (r_table s) (ac_socket x) = Some a"
      using links unfolding conn_links_def by blast
    then have "fd_ok (ac_socket x)" using ft_view_range [OF t] by blast
    then show "?f c \<in> {0..<1024}" using x by (simp add: fd_ok_def RTOR_FDTABLE_MAX_def RTOR_MAX_FDS_def)
  qed
  have "finite ?C" using finite_imageD [OF finite_subset [OF sub] conn_sockets_inj [OF links]] by simp
  moreover have "card ?C \<le> card {0..<1024 :: int}"
    by (rule card_inj_on_le [OF conn_sockets_inj [OF links] sub]) simp
  ultimately show ?thesis by simp
qed

lemma ready_room:
  assumes inv: "core_inv busy s"
  shows "length (ready s) \<le> 1024"
proof -
  let ?C = "dom (as_conns (r_app s))"
  let ?P = "\<lambda>c. mine c (ac_handler_ref (the (as_conns (r_app s) c)))"
  have all: "\<forall>f \<in> set (ready s). \<exists>c \<in> ?C. ?P c f"
    using inv unfolding core_inv_def by (metis domI option.sel)
  have one: "\<forall>c \<in> ?C. length (filter (?P c) (ready s)) \<le> 1"
  proof
    fix c assume "c \<in> ?C"
    then obtain x where x: "as_conns (r_app s) c = Some x" by blast
    then have "posts_of s c x = [] \<or> (\<exists>ph. in_phase ph c x (posts_of s c x))"
      using inv unfolding core_inv_def by metis
    then have "length (posts_of s c x) \<le> 1" using in_phase_length by fastforce
    then show "length (filter (?P c) (ready s)) \<le> 1" using x by (simp add: posts_of_def)
  qed
  have "length (ready s) \<le> card ?C"
    by (rule length_filter_bound [OF _ all one]) (use conns_bound [OF inv] in simp)
  then show ?thesis using conns_bound [OF inv] by simp
qed

section \<open>A step of one connection\<close>

text \<open>
  \<open>moved s c x fs s'\<close>: from \<open>s\<close> to \<open>s'\<close> only the record and the parser of the connection at \<open>c\<close>
  changed, to \<open>x\<close> and to some typed parser, and \<open>fs\<close> was posted.
\<close>

definition moved :: "'l async_st \<Rightarrow> addr \<Rightarrow> AsyncConnection \<Rightarrow> rfunctor list \<Rightarrow> 'l async_st \<Rightarrow> bool" where
  "moved s c x fs s' \<longleftrightarrow> Reactor_wf s' \<and> r_table s' = r_table s \<and> r_kernel s' = r_kernel s \<and> r_itq s' = r_itq s \<and>
     ready s' = ready s @ fs \<and>
     (\<exists>p. hp_typed p \<and> r_app s' = (r_app s)\<lparr>as_conns := (as_conns (r_app s))(c \<mapsto> x),
                                       as_parsers := (as_parsers (r_app s))(c \<mapsto> p)\<rparr>)"

definition same_id :: "AsyncConnection \<Rightarrow> AsyncConnection \<Rightarrow> bool" where
  "same_id x y \<longleftrightarrow> ac_handler_ref y = ac_handler_ref x \<and> ac_socket y = ac_socket x \<and>
     ac_socket_stream_ref y = ac_socket_stream_ref x"

text \<open>\<open>running s0 c x s\<close>: a function of the connection at \<open>c\<close>, begun in \<open>s0\<close>, has reached \<open>s\<close>.\<close>

definition running :: "'l async_st \<Rightarrow> addr \<Rightarrow> AsyncConnection \<Rightarrow> 'l async_st \<Rightarrow> bool" where
  "running s0 c x s \<longleftrightarrow> core_inv {c} s0 \<and> moved s0 c x [] s \<and> conn_local x \<and>
     (\<exists>x0. as_conns (r_app s0) c = Some x0 \<and> same_id x0 x)"

text \<open>
  The view of the connection at \<open>c\<close>: its record, its parser and the functions posted for it.  A step
  of one connection leaves the view of every other one as it was.
\<close>

definition same_view :: "addr \<Rightarrow> 'l async_st \<Rightarrow> 'l async_st \<Rightarrow> bool" where
  "same_view c s s' \<longleftrightarrow> as_conns (r_app s') c = as_conns (r_app s) c \<and> as_parsers (r_app s') c = as_parsers (r_app s) c \<and>
     (\<forall>x. as_conns (r_app s) c = Some x \<longrightarrow> posts_of s' c x = posts_of s c x)"

definition others_kept :: "addr \<Rightarrow> 'l async_st \<Rightarrow> 'l async_st \<Rightarrow> bool" where
  "others_kept c s s' \<longleftrightarrow> (\<forall>d. d \<noteq> c \<longrightarrow> as_conns (r_app s) d \<noteq> None \<longrightarrow> same_view d s s') \<and>
     as_listening_watcher_ref (r_app s') = as_listening_watcher_ref (r_app s) \<and> r_itq s' = r_itq s"

lemma same_view_refl [simp]: "same_view c s s"
  by (simp add: same_view_def)

lemma same_view_trans: "same_view c s t \<Longrightarrow> same_view c t u \<Longrightarrow> same_view c s u"
  by (simp add: same_view_def)

lemma same_view_frame [simp]:
  "same_view c s (t\<lparr>r_runloop_executing := b\<rparr>) \<longleftrightarrow> same_view c s t"
  "same_view c s (t\<lparr>r_app := (r_app t)\<lparr>as_handler_list := l\<rparr>\<rparr>) \<longleftrightarrow> same_view c s t"
  "same_view c (s\<lparr>r_kernel := k\<rparr>) t \<longleftrightarrow> same_view c s t"
  by (simp_all add: same_view_def posts_of_def)

lemma others_kept_trans: "others_kept c s t \<Longrightarrow> others_kept c t u \<Longrightarrow> others_kept c s u"
  unfolding others_kept_def using same_view_trans by (metis same_view_def)

text \<open>\<open>settled c s0 s\<close>: the function of the connection at \<open>c\<close> has returned in \<open>s\<close>.\<close>

definition settled :: "addr \<Rightarrow> 'l async_st \<Rightarrow> 'l async_st \<Rightarrow> bool" where
  "settled c s0 s \<longleftrightarrow> core_inv {} s \<and> as_handlers (r_app s) = as_handlers (r_app s0) \<and>
     as_handler_list (r_app s) = as_handler_list (r_app s0) \<and> r_table s = r_table s0 \<and>
     r_kernel s = r_kernel s0 \<and> as_listening_watcher_ref (r_app s) = as_listening_watcher_ref (r_app s0) \<and> others_kept c s0 s \<and>
     (\<exists>fs. ready s = ready s0 @ fs)"

lemma running_start:
  assumes "core_inv {c} s" and "as_conns (r_app s) c = Some x"
  shows "running s c x s"
proof -
  from assms have l: "conn_local x" "conn_links s c x" "Reactor_wf s" unfolding core_inv_def by blast+
  then obtain p where p: "as_parsers (r_app s) c = Some p" "hp_typed p" unfolding conn_links_def by blast
  have "moved s c x [] s"
    unfolding moved_def using l(3) p assms(2)
    by (auto simp: fun_upd_idem intro!: exI [of _ p])
  then show ?thesis using assms l(1) by (auto simp: running_def same_id_def)
qed

lemma running_conn: "running s0 c x s \<Longrightarrow> get_conn s c = Inr x"
  by (auto simp: running_def moved_def get_conn_def h_get_def)

lemma running_check: "running s0 c x s \<Longrightarrow> check_conn s c = Inr x"
  using running_conn [of s0 c x s] by (simp add: check_conn_def running_def conn_local_def)

lemma running_links:
  assumes "running s0 c x s"
  shows "conn_links s c x"
proof -
  from assms obtain x0 where x0: "as_conns (r_app s0) c = Some x0" "same_id x0 x"
    by (auto simp: running_def)
  have "conn_links s0 c x0" using assms x0(1) unfolding running_def core_inv_def by blast
  then show ?thesis using assms x0 unfolding running_def moved_def conn_links_def same_id_def
    by auto
qed

lemma running_handler:
  assumes "running s0 c x s"
  shows "\<exists>hdl. check_handler s (ac_handler_ref x) = Inr hdl \<and> get_handler s (ac_handler_ref x) = Inr hdl \<and>
               ah_async_connection_ref hdl = Some c \<and> ah_tag hdl = AsyncHandler_TAG"
  using running_links [OF assms]
  by (auto simp: conn_links_def check_handler_def get_handler_def h_get_def handler_ok_def)

lemma running_put:
  assumes "running s0 c x s" and "conn_local y" and "same_id x y"
  shows "running s0 c y (put_conn c y s)"
proof -
  from assms(1) obtain p where "hp_typed p" "r_app s = (r_app s0)\<lparr>as_conns := (as_conns (r_app s0))(c \<mapsto> x),
       as_parsers := (as_parsers (r_app s0))(c \<mapsto> p)\<rparr>" by (auto simp: running_def moved_def)
  with assms have "moved s0 c y [] (put_conn c y s)"
    by (auto simp: running_def moved_def put_conn_def intro!: exI [of _ p])
  with assms show ?thesis by (auto simp: running_def same_id_def)
qed

lemma handlers_differ:
  assumes "conn_links s c x" and "conn_links s d y" and "c \<noteq> d"
  shows "ac_handler_ref x \<noteq> ac_handler_ref y"
  using assms by (auto simp: conn_links_def handler_ok_def)

lemma conn_links_moved:
  assumes "moved s0 c x fs s" and "conn_links s0 d y"
  shows "conn_links s d y"
  using assms by (auto simp: moved_def conn_links_def)

lemma conn_links_same_id: "conn_links s c x \<Longrightarrow> same_id x y \<Longrightarrow> conn_links s c y"
  by (auto simp: conn_links_def same_id_def)

lemma server_ok_table:
  assumes "server_ok s" and "ft_view (r_table s) fd = Some w"
  shows "w = w_ref (as_listening_watcher_ref (r_app s)) \<and> fd = w_fd (as_listening_watcher_ref (r_app s)) \<or>
      (\<exists>c x. as_conns (r_app s) c = Some x \<and> ac_socket_stream_ref x = Some w \<and> ac_socket x = fd)"
  using assms unfolding server_ok_def by blast

lemma server_ok_handler:
  assumes "server_ok s" and "as_handlers (r_app s) h = Some hdl"
  shows "\<exists>c x. ah_async_connection_ref hdl = Some c \<and> as_conns (r_app s) c = Some x \<and> ac_handler_ref x = h"
  using assms unfolding server_ok_def by blast

lemma server_ok_listener:
  assumes "server_ok s"
  shows "ft_view (r_table s) (w_fd (as_listening_watcher_ref (r_app s))) = Some (w_ref (as_listening_watcher_ref (r_app s)))"
    "as_streams (r_app s) (w_ref (as_listening_watcher_ref (r_app s))) = None"
  using assms unfolding server_ok_def by blast+

lemma server_ok_moved:
  assumes ok: "server_ok s0" and mv: "moved s0 c x fs s"
    and x0: "as_conns (r_app s0) c = Some x0" "same_id x0 x"
  shows "server_ok s"
proof -
  from mv obtain p where t: "r_table s = r_table s0" and
    a: "r_app s = (r_app s0)\<lparr>as_conns := (as_conns (r_app s0))(c \<mapsto> x),
        as_parsers := (as_parsers (r_app s0))(c \<mapsto> p)\<rparr>" by (auto simp: moved_def)
  let ?m = "(as_conns (r_app s0))(c \<mapsto> x)"
  have keep: "\<exists>x'. ?m d = Some x' \<and> ac_socket_stream_ref x' = ac_socket_stream_ref y \<and>
      ac_handler_ref x' = ac_handler_ref y \<and> ac_socket x' = ac_socket y"
    if "as_conns (r_app s0) d = Some y" for d y
    using that x0 by (auto simp: same_id_def)
  have tab: "w = w_ref (as_listening_watcher_ref (r_app s0)) \<and> fd = w_fd (as_listening_watcher_ref (r_app s0)) \<or>
      (\<exists>d y. ?m d = Some y \<and> ac_socket_stream_ref y = Some w \<and> ac_socket y = fd)"
    if "ft_view (r_table s0) fd = Some w" for fd w
    using server_ok_table [OF ok that] by (rule disj_forward) (use keep in fastforce)+
  have hdl: "\<exists>d y. ah_async_connection_ref hd = Some d \<and> ?m d = Some y \<and> ac_handler_ref y = h"
    if hd: "as_handlers (r_app s0) h = Some hd" for h hd
  proof -
    obtain d y where d: "ah_async_connection_ref hd = Some d" "as_conns (r_app s0) d = Some y" "ac_handler_ref y = h"
      using server_ok_handler [OF ok hd] by blast
    from keep [OF d(2)] d show ?thesis by metis
  qed
  have c: "\<not> as_fresh (r_app s0) \<le> c" using ok x0(1) unfolding server_ok_def by (metis option.distinct(1))
  then have fresh: "as_fresh (r_app s0) \<le> a \<Longrightarrow> ?m a = None" for a using ok unfolding server_ok_def by auto
  show ?thesis using ok unfolding server_ok_def a t
    by (simp add: tab fresh del: fun_upd_apply) (use hdl in blast)
qed

lemma settle:
  assumes inv: "core_inv {c} s0" and mv: "moved s0 c x fs s" and x: "conn_local x" "ac_input_message_ptr x = None"
    and x0: "as_conns (r_app s0) c = Some x0" "same_id x0 x" and ph: "in_phase ph c x fs"
  shows "settled c s0 s"
proof -
  from inv have i: "server_ok s0" "\<And>d y. as_conns (r_app s0) d = Some y \<Longrightarrow> conn_links s0 d y"
    "posts_of s0 c x0 = []" using x0(1) unfolding core_inv_def by auto
  from mv have rd: "ready s = ready s0 @ fs" and
    conns: "as_conns (r_app s) = (as_conns (r_app s0))(c \<mapsto> x)" by (auto simp: moved_def)
  have fs: "\<forall>f \<in> set fs. mine c (ac_handler_ref x) f" using in_phase_mine [OF ph] by (metis filter_id_conv)
  have other: "posts_of s d y = posts_of s0 d y" if y: "as_conns (r_app s0) d = Some y" "d \<noteq> c" for d y
  proof -
    have "ac_handler_ref y \<noteq> ac_handler_ref x"
      using handlers_differ [OF i(2) [OF y(1)] i(2) [OF x0(1)] y(2)] x0(2) by (simp add: same_id_def)
    then have "\<forall>f \<in> set fs. \<not> mine d (ac_handler_ref y) f" using fs y(2) mine_other by blast
    then show ?thesis by (simp add: posts_of_def rd)
  qed
  have "conn_local y \<and> conn_links s d y \<and> ac_input_message_ptr y = None \<and> (\<exists>ph. in_phase ph d y (posts_of s d y))"
    if y: "as_conns (r_app s) d = Some y" for d y
  proof (cases "d = c")
    case True
    then have "posts_of s d y = fs" using i(3) x0(2) y in_phase_mine [OF ph]
      by (simp add: conns posts_of_def rd same_id_def)
    moreover have "conn_links s c x"
      using conn_links_moved [OF mv conn_links_same_id [OF i(2) [OF x0(1)] x0(2)]] .
    ultimately show ?thesis using True y x ph by (auto simp: conns)
  next
    case False
    then have y0: "as_conns (r_app s0) d = Some y" using y by (simp add: conns)
    show ?thesis using inv False y0 conn_links_moved [OF mv i(2) [OF y0]] other [OF y0 False] unfolding core_inv_def by auto
  qed
  moreover have "\<forall>f \<in> set (ready s). \<exists>c x. as_conns (r_app s) c = Some x \<and> mine c (ac_handler_ref x) f"
  proof
    fix f assume "f \<in> set (ready s)"
    then consider "f \<in> set (ready s0)" | "f \<in> set fs" by (auto simp: rd)
    then show "\<exists>c x. as_conns (r_app s) c = Some x \<and> mine c (ac_handler_ref x) f"
    proof cases
      case 1
      then obtain d y where "as_conns (r_app s0) d = Some y" "mine d (ac_handler_ref y) f"
        using inv unfolding core_inv_def by blast
      then show ?thesis using x0 by (cases "d = c") (auto simp: conns same_id_def)
    next
      case 2
      then show ?thesis using fs by (auto simp: conns)
    qed
  qed
  moreover have "Reactor_wf s" "server_ok s" using mv server_ok_moved [OF i(1) mv x0] by (simp_all add: moved_def)
  ultimately have "core_inv {} s" unfolding core_inv_def by simp
  moreover have "others_kept c s0 s" using mv other by (auto simp: others_kept_def same_view_def moved_def)
  ultimately show ?thesis using mv by (auto simp: settled_def moved_def)
qed

lemma settle_stay:
  assumes "running s0 c x s" and "ac_input_message_ptr x = None" and "in_phase ph c x []"
  shows "settled c s0 s"
  using assms settle [of c s0 x "[]" s] unfolding running_def by blast

lemma settle_post:
  assumes run: "running s0 c x s" and "ac_input_message_ptr x = None"
    and ph: "in_phase ph c x [\<lparr>fn_f = f, fn_arg = a\<rparr>]"
  shows "\<exists>s'. rtor_reactor_post s f a = Inr s' \<and> settled c s0 s' \<and> moved s0 c x [\<lparr>fn_f = f, fn_arg = a\<rparr>] s'"
proof -
  have mv: "moved s0 c x [] s" and inv: "core_inv {c} s0" using run by (simp_all add: running_def)
  have "length (ready s) < 2047" using ready_room [OF inv] mv by (simp add: moved_def del: length_fl_contents)
  moreover have wf: "Reactor_wf s" using mv by (simp add: moved_def)
  ultimately obtain s' where s': "rtor_reactor_post s f a = Inr s'" "Reactor_wf s'"
    "ready s' = ready s @ [\<lparr>fn_f = f, fn_arg = a\<rparr>]" "r_table s' = r_table s" "r_kernel s' = r_kernel s"
    "r_app s' = r_app s" "r_itq s' = r_itq s" using rtor_reactor_post_ok [OF wf] by blast
  then have mv': "moved s0 c x [\<lparr>fn_f = f, fn_arg = a\<rparr>] s'" using mv by (auto simp: moved_def)
  with settle [OF inv this] run assms(2) ph s'(1) show ?thesis unfolding running_def by blast
qed

section \<open>The read side\<close>

text \<open>\<open>reading x\<close>: the reader is at work on the connection, with no message taken yet.\<close>

definition reading :: "AsyncConnection \<Rightarrow> bool" where
  "reading x \<longleftrightarrow> ac_read_state x = READ_STATE_ACTIVE \<and> \<not> ac_readside_posted x \<and> ac_write_state x = WRITE_STATE_IDLE"

lemma read_guard_ok:
  assumes "running s0 c x s" and "reading x" and "ac_input_message_ptr x = None"
  shows "read_guard c s = Inr x"
  using assms running_check [OF assms(1)] by (simp add: read_guard_def reading_def)

lemma conn_local_update [simp]:
  "conn_local (x\<lparr>ac_read_state := i\<rparr>) \<longleftrightarrow> conn_local x"
  "conn_local (x\<lparr>ac_write_state := i\<rparr>) \<longleftrightarrow> conn_local x"
  "conn_local (x\<lparr>ac_readside_posted := b\<rparr>) \<longleftrightarrow> conn_local x"
  "conn_local (x\<lparr>ac_writeside_posted := b\<rparr>) \<longleftrightarrow> conn_local x"
  "conn_local (x\<lparr>ac_input_message_ptr := m\<rparr>) \<longleftrightarrow> conn_local x"
  "conn_local (x\<lparr>ac_scratch_request := r\<rparr>) \<longleftrightarrow> conn_local x"
  by (simp_all add: conn_local_def)

lemma same_id_update [simp]:
  "same_id x (y\<lparr>ac_read_state := i\<rparr>) \<longleftrightarrow> same_id x y"
  "same_id x (y\<lparr>ac_write_state := i\<rparr>) \<longleftrightarrow> same_id x y"
  "same_id x (y\<lparr>ac_readside_posted := b\<rparr>) \<longleftrightarrow> same_id x y"
  "same_id x (y\<lparr>ac_writeside_posted := b\<rparr>) \<longleftrightarrow> same_id x y"
  "same_id x (y\<lparr>ac_input_message_ptr := m\<rparr>) \<longleftrightarrow> same_id x y"
  "same_id x (y\<lparr>ac_scratch_request := r\<rparr>) \<longleftrightarrow> same_id x y"
  "same_id x (y\<lparr>ac_active_input_buffer_ref := ib\<rparr>) \<longleftrightarrow> same_id x y"
  "same_id x (y\<lparr>ac_active_output_buffer_ref := ib\<rparr>) \<longleftrightarrow> same_id x y"
  "same_id x x"
  by (simp_all add: same_id_def)

lemma running_local: "running s0 c x s \<Longrightarrow> conn_local x"
  by (simp add: running_def)

lemma read_eagain_ok:
  assumes "running s0 c x s" and "reading x" and "ac_input_message_ptr x = None"
  shows "\<exists>s'. read_eagain c s = Inr s' \<and> settled c s0 s' \<and> moved s0 c (x\<lparr>ac_read_state := READ_STATE_EAGAINED\<rparr>) [] s'"
proof -
  let ?y = "x\<lparr>ac_read_state := READ_STATE_EAGAINED\<rparr>"
  have y: "running s0 c ?y (put_conn c ?y s)"
    by (rule running_put [OF assms(1)]) (simp_all add: running_local [OF assms(1)])
  moreover have "in_phase Read_wait c ?y []" using assms(2) by (simp add: in_phase_def reading_def)
  ultimately have "settled c s0 (put_conn c ?y s)" using settle_stay assms(3) by fastforce
  then show ?thesis using read_guard_ok [OF assms] y by (simp add: read_eagain_def running_def)
qed

lemma post_read_start_ok:
  assumes "running s0 c x s" and "reading x" and "ac_input_message_ptr x = None"
  shows "\<exists>s'. post_read_start c s = Inr s' \<and> settled c s0 s' \<and> async_read_start c s = Inr s' \<and>
     moved s0 c (x\<lparr>ac_readside_posted := True\<rparr>) [\<lparr>fn_f = postable_reader_ptr, fn_arg = c\<rparr>] s'"
proof -
  let ?y = "x\<lparr>ac_readside_posted := True\<rparr>"
  have "running s0 c ?y (put_conn c ?y s)"
    by (rule running_put [OF assms(1)]) (simp_all add: running_local [OF assms(1)])
  moreover have "in_phase Reading c ?y [\<lparr>fn_f = postable_reader_ptr, fn_arg = c\<rparr>]"
    using assms(2) by (simp add: in_phase_def reading_def)
  ultimately obtain s' where "rtor_reactor_post (put_conn c ?y s) postable_reader_ptr c = Inr s'" "settled c s0 s'"
    "moved s0 c ?y [\<lparr>fn_f = postable_reader_ptr, fn_arg = c\<rparr>] s'" using settle_post assms(3) by fastforce
  then show ?thesis using running_check [OF assms(1)] assms(2)
    by (simp add: post_read_start_def async_read_start_def reading_def)
qed

lemma read_need_data_ok:
  assumes "running s0 c x s" and "reading x" and "ac_input_message_ptr x = None"
  shows "\<exists>s'. read_need_data c s = Inr s' \<and> settled c s0 s' \<and>
     moved s0 c (x\<lparr>ac_readside_posted := True\<rparr>) [\<lparr>fn_f = postable_reader_ptr, fn_arg = c\<rparr>] s'"
  using post_read_start_ok [OF assms] read_guard_ok [OF assms] by (auto simp: read_need_data_def)

lemma read_error_ok:
  assumes "running s0 c x s" and "reading x" and "ac_input_message_ptr x = None"
  shows "\<exists>s'. read_error c s = Inr s' \<and> settled c s0 s' \<and>
     moved s0 c (x\<lparr>ac_read_state := READ_STATE_STOP, ac_write_state := WRITE_STATE_STOP\<rparr>)
       [\<lparr>fn_f = read_close_connection_ptr, fn_arg = ac_handler_ref x\<rparr>] s'"
proof -
  let ?y = "x\<lparr>ac_read_state := READ_STATE_STOP, ac_write_state := WRITE_STATE_STOP\<rparr>"
  have "running s0 c ?y (put_conn c ?y s)"
    by (rule running_put [OF assms(1)]) (simp_all add: running_local [OF assms(1)])
  moreover have "in_phase Closing c ?y [\<lparr>fn_f = read_close_connection_ptr, fn_arg = ac_handler_ref x\<rparr>]"
    by (simp add: in_phase_def)
  ultimately obtain s' where "rtor_reactor_post (put_conn c ?y s) read_close_connection_ptr (ac_handler_ref x) = Inr s'"
    "settled c s0 s'" "moved s0 c ?y [\<lparr>fn_f = read_close_connection_ptr, fn_arg = ac_handler_ref x\<rparr>] s'"
    using settle_post assms(3) by fastforce
  then show ?thesis using read_guard_ok [OF assms] running_handler [OF assms(1)] by (auto simp: read_error_def)
qed

lemma read_new_message_ok:
  assumes run: "running s0 c x s" and "reading x" and m: "ac_input_message_ptr x = Some m" "msg_wf m"
  shows "\<exists>s'. read_new_message c s = Inr s' \<and> settled c s0 s' \<and>
     moved s0 c (x\<lparr>ac_input_message_ptr := None, ac_read_state := READ_STATE_IDLE, ac_scratch_request := Some (Some m)\<rparr>)
       [\<lparr>fn_f = postable_handle_request_ptr, fn_arg = ac_handler_ref x\<rparr>] s'"
proof -
  let ?y = "x\<lparr>ac_input_message_ptr := None, ac_read_state := READ_STATE_IDLE\<rparr>"
  let ?z = "?y\<lparr>ac_scratch_request := Some (Some m)\<rparr>"
  have y: "running s0 c ?y (put_conn c ?y s)"
    by (rule running_put [OF run]) (simp_all add: running_local [OF run])
  then have z: "running s0 c ?z (put_conn c ?z (put_conn c ?y s))"
    by (rule running_put) (simp_all add: running_local [OF run])
  have "in_phase Requested c ?z [\<lparr>fn_f = postable_handle_request_ptr, fn_arg = ac_handler_ref x\<rparr>]"
    using assms(2) m(2) by (simp add: in_phase_def reading_def)
  with settle_post [OF z] obtain s' where s': "settled c s0 s'"
    "rtor_reactor_post (put_conn c ?z (put_conn c ?y s)) postable_handle_request_ptr (ac_handler_ref x) = Inr s'"
    "moved s0 c ?z [\<lparr>fn_f = postable_handle_request_ptr, fn_arg = ac_handler_ref x\<rparr>] s'"
    by fastforce
  from running_handler [OF y] obtain hdl where
    h: "get_handler (put_conn c ?y s) (ac_handler_ref x) = Inr hdl" "ah_async_connection_ref hdl = Some c" by auto
  have p: "post_delegate_handle_request (ac_handler_ref x) m (put_conn c ?y s) = Inr s'"
    using h s'(2) running_conn [OF y] by (simp add: post_delegate_handle_request_def)
  from running_handler [OF run] obtain hdl0 where h0: "check_handler s (ac_handler_ref x) = Inr hdl0" by blast
  show ?thesis using running_check [OF run] assms(2) m(1) p h0 s'(1,3)
    by (simp add: read_new_message_def reading_def)
qed

text \<open>
  The bytes do not make a callback of the parser fail (a url of 512 bytes or more does, for
  example).  The completion handler of the connection itself never fails while it reads.
\<close>

definition parser_accepts :: "'l async_env \<Rightarrow> ('l, conn_ctx) http_parser \<Rightarrow> string \<Rightarrow> bool" where
  "parser_accepts env p bytes \<longleftrightarrow>
     (\<forall>x hdl. ac_tag x = AsyncConnection_TAG \<and> ah_tag hdl = AsyncHandler_TAG \<and>
              ac_read_state x = READ_STATE_ACTIVE \<longrightarrow>
        (\<exists>r. http_parser_consume (e_llhttp_execute env) (e_llhttp_finish env) async_on_read_message_complete
               (p\<lparr>hp_handler_context := (x, hdl)\<rparr>) bytes = Inr r))"

text \<open>How it fails otherwise; the context makes no difference, as long as the connection reads.\<close>

definition parser_fails :: "'l async_env \<Rightarrow> ('l, conn_ctx) http_parser \<Rightarrow> string \<Rightarrow> failure \<Rightarrow> bool" where
  "parser_fails env p bytes e \<longleftrightarrow>
     (\<exists>x hdl. ac_tag x = AsyncConnection_TAG \<and> ah_tag hdl = AsyncHandler_TAG \<and>
              ac_read_state x = READ_STATE_ACTIVE \<and>
        http_parser_consume (e_llhttp_execute env) (e_llhttp_finish env) async_on_read_message_complete
               (p\<lparr>hp_handler_context := (x, hdl)\<rparr>) bytes = Inl e)"

lemma parser_fails_iff: "parser_accepts env p bytes \<longleftrightarrow> (\<forall>e. \<not> parser_fails env p bytes e)"
  unfolding parser_accepts_def parser_fails_def by (metis sum.distinct(1) sum.exhaust)

lemma parser_fails_here:
  assumes "parser_fails env p bytes e" and "ac_tag x = AsyncConnection_TAG" and "ah_tag hdl = AsyncHandler_TAG"
    and "ac_read_state x = READ_STATE_ACTIVE"
  shows "http_parser_consume (e_llhttp_execute env) (e_llhttp_finish env) async_on_read_message_complete
           (p\<lparr>hp_handler_context := (x, hdl)\<rparr>) bytes = Inl e"
proof -
  let ?h = async_on_read_message_complete
  define act :: "conn_ctx \<Rightarrow> bool" where
    "act c \<longleftrightarrow> ac_tag (fst c) = AsyncConnection_TAG \<and> ah_tag (snd c) = AsyncHandler_TAG \<and> ac_read_state (fst c) = READ_STATE_ACTIVE" for c
  have bl: "blind (\<lambda>c d. act c \<and> act d) ?h"
    by (auto simp: blind_def act_def async_on_read_message_complete_def)
  from assms(1) obtain c where c: "act c" "http_parser_consume (e_llhttp_execute env) (e_llhttp_finish env) ?h
      (p\<lparr>hp_handler_context := c\<rparr>) bytes = Inl e" unfolding parser_fails_def act_def by fastforce
  obtain es l en where t: "(if length bytes = 0 then e_llhttp_finish env (hp_llhttp p) else e_llhttp_execute env (hp_llhttp p) bytes) = (es, l, en)"
    by (metis prod_cases3)
  have "ll_run ?h es (p\<lparr>hp_handler_context := c\<rparr>) = Inl f \<Longrightarrow> ll_run ?h es (p\<lparr>hp_handler_context := (x, hdl)\<rparr>) = Inl f" for f
    using ll_run_blind [OF bl, of "p\<lparr>hp_handler_context := c\<rparr>" "(x, hdl)"] c(1) assms(2-4) by (simp add: act_def)
  then show ?thesis using c(2) t unfolding http_parser_consume_def
    by (auto simp: rbind_eq_Inl HP_CHECK_def)
qed

definition bytes_ok :: "'l async_env \<Rightarrow> async_io \<Rightarrow> ('l, conn_ctx) http_parser \<Rightarrow> bool" where
  "bytes_ok env io p \<longleftrightarrow>
     (\<forall>avail. io_recv io = Some avail \<and> avail \<noteq> [] \<longrightarrow> parser_accepts env p (take 1000000 avail))"

definition bytes_fail :: "'l async_env \<Rightarrow> async_io \<Rightarrow> ('l, conn_ctx) http_parser \<Rightarrow> failure \<Rightarrow> bool" where
  "bytes_fail env io p e \<longleftrightarrow>
     (\<exists>avail. io_recv io = Some avail \<and> avail \<noteq> [] \<and> parser_fails env p (take 1000000 avail) e)"

lemma bytes_fail_iff: "bytes_ok env io p \<longleftrightarrow> (\<forall>e. \<not> bytes_fail env io p e)"
  unfolding bytes_ok_def bytes_fail_def parser_fails_iff by blast

lemma put_handler_idem: "get_handler s h = Inr hdl \<Longrightarrow> put_handler h hdl s = s"
  by (auto simp: get_handler_def h_get_def put_handler_def fun_upd_idem split: option.splits)

lemma running_put_parser:
  assumes "running s0 c x s" and "hp_typed p"
  shows "running s0 c x (put_parser c p s)"
proof -
  from assms(1) obtain q where "r_app s = (r_app s0)\<lparr>as_conns := (as_conns (r_app s0))(c \<mapsto> x),
       as_parsers := (as_parsers (r_app s0))(c \<mapsto> q)\<rparr>" by (auto simp: running_def moved_def)
  with assms have "moved s0 c x [] (put_parser c p s)"
    by (auto simp: running_def moved_def put_parser_def intro!: exI [of _ p])
  with assms show ?thesis by (auto simp: running_def)
qed

lemma conn_consume_ok:
  assumes run: "running s0 c x s" and rd: "reading x" and p: "as_parsers (r_app s) c = Some p" "hp_typed p"
    and acc: "parser_accepts env p bytes" and nm: "ac_input_message_ptr x = None"
  shows "\<exists>ec im s'. conn_consume env c bytes s = Inr (ec, s') \<and>
           running s0 c (x\<lparr>ac_input_message_ptr := im\<rparr>) s' \<and> (\<forall>m. im = Some m \<longrightarrow> msg_wf m)"
proof -
  obtain hdl where h: "get_handler s (ac_handler_ref x) = Inr hdl" "ah_tag hdl = AsyncHandler_TAG"
    using running_handler [OF run] by blast
  have x: "ac_tag x = AsyncConnection_TAG" "ac_read_state x = READ_STATE_ACTIVE"
    using running_local [OF run] rd by (simp_all add: conn_local_def reading_def)
  let ?I = "\<lambda>ctx :: conn_ctx. \<exists>im. ctx = (x\<lparr>ac_input_message_ptr := im\<rparr>, hdl) \<and> (\<forall>m. im = Some m \<longrightarrow> msg_wf m)"
  have keeps: "handler_keeps ?I async_on_read_message_complete"
    using h(2) x by (auto simp: handler_keeps_def async_on_read_message_complete_def rbind_eq_Inr HPE_OK_def)
  obtain ec p1 where c: "http_parser_consume (e_llhttp_execute env) (e_llhttp_finish env)
      async_on_read_message_complete (p\<lparr>hp_handler_context := (x, hdl)\<rparr>) bytes = Inr (ec, p1)"
    using acc x h(2) unfolding parser_accepts_def by (metis surj_pair)
  have "x\<lparr>ac_input_message_ptr := None\<rparr> = x" using nm by simp
  then have "?I (hp_handler_context (p\<lparr>hp_handler_context := (x, hdl)\<rparr>))" by (metis http_parser.select_convs(5) http_parser.update_convs(5) http_parser.surjective option.distinct(1))
  moreover have "hp_typed (p\<lparr>hp_handler_context := (x, hdl)\<rparr>)" using p(2) by (simp add: hp_typed_def)
  ultimately obtain im where p1: "hp_typed p1" "hp_handler_context p1 = (x\<lparr>ac_input_message_ptr := im\<rparr>, hdl)"
    "\<forall>m. im = Some m \<longrightarrow> msg_wf m" using http_parser_consume_typed [OF keeps _ _ c] by blast
  let ?y = "x\<lparr>ac_input_message_ptr := im\<rparr>"
  have y: "running s0 c ?y (put_conn c ?y s)"
    by (rule running_put [OF run]) (simp_all add: running_local [OF run])
  have "put_handler (ac_handler_ref x) hdl (put_conn c ?y s) = put_conn c ?y s"
    using h(1) by (intro put_handler_idem) (simp add: get_handler_def put_conn_def)
  then have "conn_consume env c bytes s = Inr (ec, put_parser c p1 (put_conn c ?y s))"
    using running_conn [OF run] h(1) p(1) c p1(2) by (simp add: conn_consume_def h_get_def)
  with running_put_parser [OF y p1(1)] p1(3) show ?thesis by blast
qed

lemma conn_consume_fails:
  assumes run: "running s0 c x s" and rd: "reading x" and p: "as_parsers (r_app s) c = Some p"
    and fl: "parser_fails env p bytes e"
  shows "conn_consume env c bytes s = Inl e"
proof -
  obtain hdl where h: "get_handler s (ac_handler_ref x) = Inr hdl" "ah_tag hdl = AsyncHandler_TAG"
    using running_handler [OF run] by blast
  have "ac_tag x = AsyncConnection_TAG" "ac_read_state x = READ_STATE_ACTIVE"
    using running_local [OF run] rd by (simp_all add: conn_local_def reading_def)
  from parser_fails_here [OF fl this(1) h(2) this(2)] show ?thesis
    using running_conn [OF run] h(1) p by (simp add: conn_consume_def h_get_def)
qed

text \<open>The buffer the reader starts from is empty and has room for 1000000 bytes.\<close>

lemma reader_buffer:
  assumes "conn_local x"
  shows "\<exists>b. (case ac_active_input_buffer_ref x of
              None \<Rightarrow> Inr (IOBuffer_new_with_capacity (ac_read_buffer_size x))
            | Some b \<Rightarrow> IOBuffer_reset b) = Inr b \<and> iob_wf b \<and> iob_content b = [] \<and> iob_ptr b = 0 \<and>
            iob_remaining b = 0 \<and> iob_capacity b = 1000000"
proof (cases "ac_active_input_buffer_ref x")
  case None
  with assms IOBuffer_init_wf [of 1000000] show ?thesis
    by (auto simp: IOBuffer_new_with_capacity_def conn_local_def IOBuffer_init_def)
next
  case (Some b)
  with assms have b: "iob_wf b" "iob_capacity b = 1000000" by (auto simp: conn_local_def)
  from IOBuffer_reset_ok [OF b(1)] obtain b' where "IOBuffer_reset b = Inr b'" "iob_wf b'" "iob_content b' = []"
    "iob_ptr b' = 0" "iob_capacity b' = iob_capacity b" by blast
  moreover from this have "iob_remaining b' = 0" using iob_content_length [of b'] by (simp add: iob_wf_def)
  ultimately show ?thesis using Some b(2) by simp
qed

text \<open>The three ways a call of the reader goes on after \<open>recv\<close>.\<close>

lemma running_put_input:
  assumes "running s0 c x s" and "iob_wf b" and "iob_capacity b = 1000000"
  shows "running s0 c (x\<lparr>ac_active_input_buffer_ref := Some b\<rparr>) (put_conn c (x\<lparr>ac_active_input_buffer_ref := Some b\<rparr>) s)"
  by (rule running_put [OF assms(1)]) (use running_local [OF assms(1)] assms(2,3) in \<open>simp_all add: conn_local_def\<close>)

lemma reader_start:
  assumes run: "running s0 c x s" and rd: "reading x" and nm: "ac_input_message_ptr x = None"
  shows "\<exists>b. iob_wf b \<and> iob_content b = [] \<and> iob_ptr b = 0 \<and> iob_remaining b = 0 \<and> iob_capacity b = 1000000 \<and>
     reader env io c s =
     (case io_recv io of
       Some avail \<Rightarrow>
         let bytes = take (nat 1000000) avail in
         if bytes \<noteq> [] then
           rbind (iob_fill b (map Some bytes)) (\<lambda>iob.
           rbind (iob_bytes iob) (\<lambda>data.
           rbind (conn_consume env c data (put_conn c (x\<lparr>ac_active_input_buffer_ref := Some iob\<rparr>) s)) (\<lambda>(ec, s1).
           rbind (get_conn s1 c) (\<lambda>x1.
           if ac_input_message_ptr x1 \<noteq> None then read_new_message c s1
           else if io_errno io = EAGAIN then read_eagain c s1
           else if ec = HPE_OK then read_need_data c s1
           else read_error c s1))))
         else read_error c (put_conn c (x\<lparr>ac_active_input_buffer_ref := Some b\<rparr>) s)
     | None \<Rightarrow>
         let s1 = put_conn c (x\<lparr>ac_active_input_buffer_ref := Some b\<rparr>) s in
         if io_errno io = EAGAIN then read_eagain c s1 else read_error c s1)"
proof -
  obtain b where b: "(case ac_active_input_buffer_ref x of
              None \<Rightarrow> Inr (IOBuffer_new_with_capacity (ac_read_buffer_size x))
            | Some b \<Rightarrow> IOBuffer_reset b) = (Inr b :: IOBuffer res)" "iob_wf b" "iob_content b = []" "iob_ptr b = 0"
    "iob_remaining b = 0" "iob_capacity b = 1000000" using reader_buffer [OF running_local [OF run]] by blast
  have "IOBuffer_space_len b = Inr 1000000" using b by (simp add: IOBuffer_space_len_def iob_wf_check)
  then show ?thesis
    unfolding reader_def running_check [OF run] using rd nm b
    by (intro exI [of _ b]) (simp add: reading_def)
qed

lemma reader_filled:
  assumes run: "running s0 c x s" and rd: "reading x" and nm: "ac_input_message_ptr x = None"
    and recv: "io_recv io = Some avail" "avail \<noteq> []"
  shows "\<exists>b. iob_wf b \<and> iob_capacity b = 1000000 \<and> reader env io c s =
           rbind (conn_consume env c (take 1000000 avail) (put_conn c (x\<lparr>ac_active_input_buffer_ref := Some b\<rparr>) s)) (\<lambda>(ec, s1).
           rbind (get_conn s1 c) (\<lambda>x1.
           if ac_input_message_ptr x1 \<noteq> None then read_new_message c s1
           else if io_errno io = EAGAIN then read_eagain c s1
           else if ec = HPE_OK then read_need_data c s1
           else read_error c s1))"
proof -
  let ?bytes = "take 1000000 avail"
  obtain b where b: "iob_wf b" "iob_content b = []" "iob_ptr b = 0" "iob_remaining b = 0" "iob_capacity b = 1000000"
    and start: "reader env io c s =
           rbind (iob_fill b (map Some ?bytes)) (\<lambda>iob.
           rbind (iob_bytes iob) (\<lambda>data.
           rbind (conn_consume env c data (put_conn c (x\<lparr>ac_active_input_buffer_ref := Some iob\<rparr>) s)) (\<lambda>(ec, s1).
           rbind (get_conn s1 c) (\<lambda>x1.
           if ac_input_message_ptr x1 \<noteq> None then read_new_message c s1
           else if io_errno io = EAGAIN then read_eagain c s1
           else if ec = HPE_OK then read_need_data c s1
           else read_error c s1))))"
    using reader_start [OF run rd nm, of env io] recv by (auto simp: Let_def)
  from iob_fill_ok [OF b(1), of ?bytes] recv(2) b(2-5) obtain b1 where
    b1: "iob_fill b (map Some ?bytes) = Inr b1" "iob_wf b1" "iob_content b1 = ?bytes" "iob_capacity b1 = 1000000"
    by auto
  then show ?thesis unfolding start using iob_bytes_ok [OF b1(2)] by (intro exI [of _ b1]) simp
qed

lemma reader_fails:
  assumes run: "running s0 c x s" and rd: "reading x" and nm: "ac_input_message_ptr x = None"
    and p: "as_parsers (r_app s) c = Some p" and fl: "bytes_fail env io p e"
  shows "reader env io c s = Inl e"
proof -
  from fl obtain avail where a: "io_recv io = Some avail" "avail \<noteq> []" "parser_fails env p (take 1000000 avail) e"
    by (auto simp: bytes_fail_def)
  from reader_filled [OF run rd nm a(1,2), of env] obtain b where b: "iob_wf b" "iob_capacity b = 1000000" and
    eq: "reader env io c s =
           rbind (conn_consume env c (take 1000000 avail) (put_conn c (x\<lparr>ac_active_input_buffer_ref := Some b\<rparr>) s)) (\<lambda>(ec, s1).
           rbind (get_conn s1 c) (\<lambda>x1.
           if ac_input_message_ptr x1 \<noteq> None then read_new_message c s1
           else if io_errno io = EAGAIN then read_eagain c s1
           else if ec = HPE_OK then read_need_data c s1
           else read_error c s1))" by blast
  have "reading (x\<lparr>ac_active_input_buffer_ref := Some b\<rparr>)" using rd by (simp add: reading_def)
  from conn_consume_fails [OF running_put_input [OF run b] this _ a(3)] p show ?thesis
    unfolding eq by (simp add: put_conn_def)
qed

lemma reader_received:
  assumes run: "running s0 c x s" and rd: "reading x" and nm: "ac_input_message_ptr x = None"
    and recv: "io_recv io = Some avail" "avail \<noteq> []"
    and p: "as_parsers (r_app s) c = Some p" "parser_accepts env p (take 1000000 avail)"
  shows "\<exists>b ec im s1. conn_consume env c (take 1000000 avail) (put_conn c (x\<lparr>ac_active_input_buffer_ref := Some b\<rparr>) s) = Inr (ec, s1) \<and>
     running s0 c (x\<lparr>ac_active_input_buffer_ref := Some b, ac_input_message_ptr := im\<rparr>) s1 \<and>
     (\<forall>m. im = Some m \<longrightarrow> msg_wf m) \<and>
     reader env io c s =
       (if im \<noteq> None then read_new_message c s1
        else if io_errno io = EAGAIN then read_eagain c s1
        else if ec = HPE_OK then read_need_data c s1
        else read_error c s1)"
proof -
  let ?bytes = "take 1000000 avail"
  from reader_filled [OF run rd nm recv, of env] obtain b1 where b1: "iob_wf b1" "iob_capacity b1 = 1000000" and
    start: "reader env io c s =
           rbind (conn_consume env c ?bytes (put_conn c (x\<lparr>ac_active_input_buffer_ref := Some b1\<rparr>) s)) (\<lambda>(ec, s1).
           rbind (get_conn s1 c) (\<lambda>x1.
           if ac_input_message_ptr x1 \<noteq> None then read_new_message c s1
           else if io_errno io = EAGAIN then read_eagain c s1
           else if ec = HPE_OK then read_need_data c s1
           else read_error c s1))" by blast
  let ?x = "x\<lparr>ac_active_input_buffer_ref := Some b1\<rparr>"
  note r1 = running_put_input [OF run b1]
  have p1: "as_parsers (r_app (put_conn c ?x s)) c = Some p" using p(1) by (simp add: put_conn_def)
  have "hp_typed p" using running_links [OF r1] p1 unfolding conn_links_def by auto
  have "reading ?x" "ac_input_message_ptr ?x = None" using rd nm by (simp_all add: reading_def)
  from conn_consume_ok [OF r1 this(1) p1 \<open>hp_typed p\<close> p(2) this(2)] obtain ec im s1 where
    c: "conn_consume env c ?bytes (put_conn c ?x s) = Inr (ec, s1)"
    "running s0 c (?x\<lparr>ac_input_message_ptr := im\<rparr>) s1" "\<forall>m. im = Some m \<longrightarrow> msg_wf m" by blast
  have "reader env io c s =
       (if im \<noteq> None then read_new_message c s1
        else if io_errno io = EAGAIN then read_eagain c s1
        else if ec = HPE_OK then read_need_data c s1
        else read_error c s1)"
    unfolding start using c(1) running_conn [OF c(2)] by simp
  with c show ?thesis by blast
qed

lemma reader_ok:
  assumes run: "running s0 c x s" and rd: "reading x" and nm: "ac_input_message_ptr x = None"
    and ok: "\<And>p. as_parsers (r_app s) c = Some p \<Longrightarrow> bytes_ok env io p"
  shows "\<exists>s'. reader env io c s = Inr s' \<and> settled c s0 s'"
proof -
  obtain b where b: "iob_wf b" "iob_capacity b = 1000000" and
    none: "io_recv io = None \<Longrightarrow> reader env io c s =
        (if io_errno io = EAGAIN then read_eagain c (put_conn c (x\<lparr>ac_active_input_buffer_ref := Some b\<rparr>) s)
         else read_error c (put_conn c (x\<lparr>ac_active_input_buffer_ref := Some b\<rparr>) s))" and
    eof: "io_recv io = Some [] \<Longrightarrow> reader env io c s = read_error c (put_conn c (x\<lparr>ac_active_input_buffer_ref := Some b\<rparr>) s)"
    using reader_start [OF run rd nm, of env io] by (auto simp: Let_def)
  have same: "reading (x\<lparr>ac_active_input_buffer_ref := i, ac_input_message_ptr := im\<rparr>)"
    "reading (x\<lparr>ac_active_input_buffer_ref := i\<rparr>)" "ac_input_message_ptr (x\<lparr>ac_active_input_buffer_ref := i\<rparr>) = None" for i im
    using rd nm by (simp_all add: reading_def)
  note idle = running_put_input [OF run b] same(2,3)
  consider "io_recv io = None" | "io_recv io = Some []" | avail where "io_recv io = Some avail" "avail \<noteq> []"
    by (cases "io_recv io") auto
  then show ?thesis
  proof cases
    case 1
    with read_eagain_ok [OF idle] read_error_ok [OF idle] none show ?thesis by auto
  next
    case 2
    with read_error_ok [OF idle] eof show ?thesis by auto
  next
    case (3 avail)
    from running_links [OF run] obtain p where p: "as_parsers (r_app s) c = Some p" unfolding conn_links_def by blast
    then have "parser_accepts env p (take 1000000 avail)" using ok [OF p] 3 by (simp add: bytes_ok_def)
    from reader_received [OF run rd nm 3 p this] obtain b1 ec im s1 where
      r: "running s0 c (x\<lparr>ac_active_input_buffer_ref := Some b1, ac_input_message_ptr := im\<rparr>) s1"
      "\<forall>m. im = Some m \<longrightarrow> msg_wf m" and
      eq: "reader env io c s = (if im \<noteq> None then read_new_message c s1
        else if io_errno io = EAGAIN then read_eagain c s1
        else if ec = HPE_OK then read_need_data c s1 else read_error c s1)" by blast
    show ?thesis
    proof (cases im)
      case None
      then have n: "ac_input_message_ptr (x\<lparr>ac_active_input_buffer_ref := Some b1, ac_input_message_ptr := im\<rparr>) = None" by simp
      show ?thesis unfolding eq using None read_eagain_ok [OF r(1) same(1) n] read_need_data_ok [OF r(1) same(1) n]
          read_error_ok [OF r(1) same(1) n] by auto
    next
      case (Some m)
      then have n: "ac_input_message_ptr (x\<lparr>ac_active_input_buffer_ref := Some b1, ac_input_message_ptr := im\<rparr>) = Some m"
        "msg_wf m" using r(2) by simp_all
      show ?thesis unfolding eq using Some read_new_message_ok [OF r(1) same(1) n] by auto
    qed
  qed
qed

lemma reader_from:
  assumes run: "running s0 c x s" and "reading y" and "ac_input_message_ptr y = None" and "same_id x y" and "conn_local y"
    and ok: "\<And>p. as_parsers (r_app s) c = Some p \<Longrightarrow> bytes_ok env io p"
  shows "\<exists>s'. reader env io c (put_conn c y s) = Inr s' \<and> settled c s0 s'"
  by (rule reader_ok [OF running_put [OF run assms(5,4)] assms(2,3)]) (use ok in \<open>simp add: put_conn_def\<close>)

lemma reader_from_fails:
  assumes run: "running s0 c x s" and "reading y" and "ac_input_message_ptr y = None" and "same_id x y" and "conn_local y"
    and "as_parsers (r_app s) c = Some p" and "bytes_fail env io p e"
  shows "reader env io c (put_conn c y s) = Inl e"
  by (rule reader_fails [OF running_put [OF run assms(5,4)] assms(2,3) _ assms(7)]) (use assms(6) in \<open>simp add: put_conn_def\<close>)

lemma postable_reader_ok:
  assumes "core_inv {c} s" and x: "as_conns (r_app s) c = Some x" "ac_input_message_ptr x = None"
    and ph: "in_phase Reading c x fs" and ok: "\<And>p. as_parsers (r_app s) c = Some p \<Longrightarrow> bytes_ok env io p"
  shows "\<exists>s'. postable_reader env io c s = Inr s' \<and> settled c s s'"
proof -
  note run = running_start [OF assms(1) x(1)]
  let ?y = "x\<lparr>ac_readside_posted := False\<rparr>"
  have "reading ?y" "conn_local ?y" using ph running_local [OF run] by (simp_all add: reading_def in_phase_def)
  from reader_from [OF run this(1) _ _ this(2) ok] show ?thesis
    using running_check [OF run] ph x(2) by (simp add: postable_reader_def in_phase_def)
qed

lemma postable_reader_fails:
  assumes "core_inv {c} s" and x: "as_conns (r_app s) c = Some x" "ac_input_message_ptr x = None"
    and ph: "in_phase Reading c x fs" and fl: "as_parsers (r_app s) c = Some p" "bytes_fail env io p e"
  shows "postable_reader env io c s = Inl e"
proof -
  note run = running_start [OF assms(1) x(1)]
  let ?y = "x\<lparr>ac_readside_posted := False\<rparr>"
  have "reading ?y" "conn_local ?y" using ph running_local [OF run] by (simp_all add: reading_def in_phase_def)
  from reader_from_fails [OF run this(1) _ _ this(2) fl] show ?thesis
    using running_check [OF run] ph x(2) by (simp add: postable_reader_def in_phase_def)
qed

lemma async_connection_read_fails:
  assumes "core_inv {c} s" and x: "as_conns (r_app s) c = Some x" "ac_input_message_ptr x = None"
    and st: "ac_read_state x = READ_STATE_IDLE" "\<not> ac_readside_posted x" "ac_write_state x = WRITE_STATE_IDLE"
    and fl: "as_parsers (r_app s) c = Some p" "bytes_fail env io p e"
  shows "async_connection_read env io c s = Inl e"
proof -
  note run = running_start [OF assms(1) x(1)]
  let ?y = "x\<lparr>ac_read_state := READ_STATE_ACTIVE\<rparr>"
  have "reading ?y" "conn_local ?y" using st running_local [OF run] by (simp_all add: reading_def)
  from reader_from_fails [OF run this(1) _ _ this(2) fl] show ?thesis
    using running_check [OF run] st x(2) by (simp add: async_connection_read_def Let_def)
qed

lemma async_connection_read_ok:
  assumes "core_inv {c} s" and x: "as_conns (r_app s) c = Some x" "ac_input_message_ptr x = None"
    and st: "ac_read_state x = READ_STATE_IDLE" "\<not> ac_readside_posted x" "ac_write_state x = WRITE_STATE_IDLE"
    and ok: "\<And>p. as_parsers (r_app s) c = Some p \<Longrightarrow> bytes_ok env io p"
  shows "\<exists>s'. async_connection_read env io c s = Inr s' \<and> settled c s s'"
proof -
  note run = running_start [OF assms(1) x(1)]
  let ?y = "x\<lparr>ac_read_state := READ_STATE_ACTIVE\<rparr>"
  have "reading ?y" "conn_local ?y" using st running_local [OF run] by (simp_all add: reading_def)
  from reader_from [OF run this(1) _ _ this(2) ok] show ?thesis
    using running_check [OF run] st x(2) by (simp add: async_connection_read_def Let_def)
qed

lemma postable_write_complete_ok:
  assumes "core_inv {c} s" and x: "as_conns (r_app s) c = Some x" "ac_input_message_ptr x = None"
    and ph: "in_phase Written c x fs" and ok: "\<And>p. as_parsers (r_app s) c = Some p \<Longrightarrow> bytes_ok env io p"
  shows "\<exists>s'. postable_write_complete env io c s = Inr s' \<and> settled c s s'"
proof -
  note run = running_start [OF assms(1) x(1)]
  obtain hdl where "check_handler s (ac_handler_ref x) = Inr hdl" "ah_async_connection_ref hdl = Some c"
    using running_handler [OF run] by blast
  with async_connection_read_ok [OF assms(1-3) _ _ _ ok] ph running_check [OF run] show ?thesis
    by (simp add: postable_write_complete_def handle_write_complete_def in_phase_def)
qed

lemma postable_write_complete_fails:
  assumes "core_inv {c} s" and x: "as_conns (r_app s) c = Some x" "ac_input_message_ptr x = None"
    and ph: "in_phase Written c x fs" and fl: "as_parsers (r_app s) c = Some p" "bytes_fail env io p e"
  shows "postable_write_complete env io c s = Inl e"
proof -
  note run = running_start [OF assms(1) x(1)]
  obtain hdl where "check_handler s (ac_handler_ref x) = Inr hdl" "ah_async_connection_ref hdl = Some c"
    using running_handler [OF run] by blast
  with async_connection_read_fails [OF assms(1-3) _ _ _ fl] ph running_check [OF run] show ?thesis
    by (simp add: postable_write_complete_def handle_write_complete_def in_phase_def)
qed

section \<open>The write side\<close>

text \<open>Responses the connection can send: well formed, with a first line that can be printed.\<close>

abbreviation sendable :: "'l async_env \<Rightarrow> Message \<Rightarrow> bool" where
  "sendable env m \<equiv> printable (e_llhttp_method_name env) m"

lemma async_connection_write_ok:
  assumes run: "running s0 c x s" and "in_phase Processing c x []" and "ac_input_message_ptr x = None"
    and "sendable env m"
  shows "\<exists>s' b. async_connection_write env c m s = Inr s' \<and> settled c s0 s' \<and>
     Message_serialize (e_llhttp_method_name env) m = Inr b \<and>
     moved s0 c (x\<lparr>ac_active_output_buffer_ref := Some b, ac_write_state := WRITE_STATE_ACTIVE\<rparr>)
       [\<lparr>fn_f = async_postable_writer_ptr, fn_arg = c\<rparr>] s'"
proof -
  obtain b where b: "Message_serialize (e_llhttp_method_name env) m = Inr b" "iob_wf b" "0 < iob_remaining b"
    using printable_serialize [OF assms(4)] by blast
  let ?y = "x\<lparr>ac_active_output_buffer_ref := Some b, ac_write_state := WRITE_STATE_ACTIVE\<rparr>"
  have y: "running s0 c ?y (put_conn c ?y s)"
    by (rule running_put [OF run]) (use running_local [OF run] b(2) in \<open>simp_all add: conn_local_def\<close>)
  moreover have "in_phase Writing c ?y [\<lparr>fn_f = async_postable_writer_ptr, fn_arg = c\<rparr>]"
    using assms(2) b(3) by (simp add: in_phase_def)
  ultimately obtain s' where "rtor_reactor_post (put_conn c ?y s) async_postable_writer_ptr c = Inr s'" "settled c s0 s'"
    "moved s0 c ?y [\<lparr>fn_f = async_postable_writer_ptr, fn_arg = c\<rparr>] s'"
    using settle_post assms(3) by fastforce
  then show ?thesis using running_check [OF run] running_conn [OF y] b(1) assms(2)
    by (simp add: async_connection_write_def async_post_to_reactor_def in_phase_def)
qed

lemma handle_response_ok:
  assumes run: "running s0 c x s" and "in_phase Processing c x []" and "ac_input_message_ptr x = None"
    and "msg_wf request" and "sendable env response"
  shows "\<exists>s' m b. async_handler_handle_response env (ac_handler_ref x) request response s = Inr s' \<and> settled c s0 s' \<and>
     add_connection_header request response = Inr m \<and> Message_serialize (e_llhttp_method_name env) m = Inr b \<and>
     moved s0 c (x\<lparr>ac_active_output_buffer_ref := Some b, ac_write_state := WRITE_STATE_ACTIVE\<rparr>)
       [\<lparr>fn_f = async_postable_writer_ptr, fn_arg = c\<rparr>] s'"
proof -
  obtain hdl where "check_handler s (ac_handler_ref x) = Inr hdl" "ah_async_connection_ref hdl = Some c"
    using running_handler [OF run] by blast
  moreover obtain m where "add_connection_header request response = Inr m" "sendable env m"
    using add_connection_header_ok [OF assms(4,5)] by blast
  moreover from async_connection_write_ok [OF assms(1-3) this(2)] obtain s' b where
    "async_connection_write env c m s = Inr s'" "settled c s0 s'" "Message_serialize (e_llhttp_method_name env) m = Inr b"
    "moved s0 c (x\<lparr>ac_active_output_buffer_ref := Some b, ac_write_state := WRITE_STATE_ACTIVE\<rparr>)
       [\<lparr>fn_f = async_postable_writer_ptr, fn_arg = c\<rparr>] s'" by blast
  ultimately show ?thesis by (auto simp: async_handler_handle_response_def)
qed

text \<open>What the application promises: a response it gives to a request can be sent.\<close>

definition app_ok :: "'l async_env \<Rightarrow> bool" where
  "app_ok env \<longleftrightarrow> (\<forall>request response. msg_wf request \<and> e_process_request env request = Some response \<longrightarrow>
     sendable env response)"

lemma postable_handle_request_ok:
  assumes "core_inv {c} s" and x: "as_conns (r_app s) c = Some x" "ac_input_message_ptr x = None"
    and ph: "in_phase Requested c x fs" and app: "app_ok env"
  shows "\<exists>s'. postable_handle_request env (ac_handler_ref x) s = Inr s' \<and> settled c s s' \<and>
     (ready s' = ready s \<or> ready s' = ready s @ [\<lparr>fn_f = async_postable_writer_ptr, fn_arg = c\<rparr>])"
proof -
  note run = running_start [OF assms(1) x(1)]
  obtain hdl where h: "check_handler s (ac_handler_ref x) = Inr hdl" "ah_async_connection_ref hdl = Some c"
    using running_handler [OF run] by blast
  obtain m where m: "ac_scratch_request x = Some (Some m)" "msg_wf m" using ph by (auto simp: in_phase_def)
  let ?y = "x\<lparr>ac_scratch_request := Some None\<rparr>"
  have y: "running s c ?y (put_conn c ?y s)"
    by (rule running_put [OF run]) (simp_all add: running_local [OF run])
  have p: "in_phase Processing c ?y []" "ac_input_message_ptr ?y = None" using ph x(2) by (simp_all add: in_phase_def)
  obtain hdl' where h': "check_handler (put_conn c ?y s) (ac_handler_ref x) = Inr hdl'"
    using running_handler [OF y] by auto
  have "\<exists>s'. handle_request env (ac_handler_ref x) m (put_conn c ?y s) = Inr s' \<and> settled c s s' \<and>
     (ready s' = ready s \<or> ready s' = ready s @ [\<lparr>fn_f = async_postable_writer_ptr, fn_arg = c\<rparr>])"
  proof (cases "e_process_request env m")
    case None
    then show ?thesis using h' settle_stay [OF y p(2,1)] by (simp add: handle_request_def put_conn_def)
  next
    case (Some resp)
    then have "sendable env resp" using app m(2) by (auto simp: app_ok_def)
    from handle_response_ok [OF y p m(2) this] Some h' show ?thesis by (auto simp: handle_request_def moved_def)
  qed
  then show ?thesis using h m(1) running_check [OF run] by (simp add: postable_handle_request_def)
qed

lemma write_error_ok:
  assumes run: "running s0 c x s" and "ac_input_message_ptr x = None"
  shows "\<exists>s'. write_error c s = Inr s' \<and> settled c s0 s'"
proof -
  let ?y = "x\<lparr>ac_read_state := READ_STATE_STOP, ac_write_state := WRITE_STATE_STOP\<rparr>"
  have y: "running s0 c ?y (put_conn c ?y s)"
    by (rule running_put [OF run]) (simp_all add: running_local [OF run])
  have "in_phase Closing c ?y [\<lparr>fn_f = write_close_connection_ptr, fn_arg = ac_handler_ref x\<rparr>]"
    by (simp add: in_phase_def)
  with settle_post [OF y] assms(2) obtain s' where
    "rtor_reactor_post (put_conn c ?y s) write_close_connection_ptr (ac_handler_ref x) = Inr s'" "settled c s0 s'"
    by fastforce
  then show ?thesis using running_check [OF run] running_handler [OF run] by (auto simp: write_error_def)
qed

text \<open>After a \<open>send\<close> that took \<open>n\<close> bytes, one function is posted: the writer or the completion.\<close>

lemma writer_sent:
  assumes run: "running s0 c x s" and ph: "in_phase Writing c x fs" and nm: "ac_input_message_ptr x = None"
    and b: "ac_active_output_buffer_ref x = Some b" and n: "0 < n" "n \<le> iob_remaining b"
  shows "\<exists>b1 s'. IOBuffer_consume b n = Inr b1 \<and> iob_wf b1 \<and> iob_content b1 = drop (nat n) (iob_content b) \<and> settled c s0 s' \<and>
     (if iob_remaining b1 = 0
      then write_complete c (put_conn c (x\<lparr>ac_write_state := WRITE_STATE_IDLE,
                                           ac_active_output_buffer_ref := None\<rparr>) s) = Inr s' \<and>
           moved s0 c (x\<lparr>ac_write_state := WRITE_STATE_IDLE, ac_active_output_buffer_ref := None\<rparr>)
             [\<lparr>fn_f = postable_write_complete_ptr, fn_arg = c\<rparr>] s'
      else write_incomplete c (put_conn c (x\<lparr>ac_write_state := WRITE_STATE_ACTIVE,
                                             ac_active_output_buffer_ref := Some b1\<rparr>) s) = Inr s' \<and>
           moved s0 c (x\<lparr>ac_write_state := WRITE_STATE_ACTIVE, ac_active_output_buffer_ref := Some b1\<rparr>)
             [\<lparr>fn_f = async_postable_writer_ptr, fn_arg = c\<rparr>] s')"
proof -
  have wf: "iob_wf b" using running_local [OF run] b by (simp add: conn_local_def)
  from IOBuffer_consume_ok [OF wf, of n] n obtain b1 where
    b1: "IOBuffer_consume b n = Inr b1" "iob_wf b1" "iob_content b1 = drop (nat n) (iob_content b)" by auto
  let ?y = "x\<lparr>ac_write_state := WRITE_STATE_IDLE, ac_active_output_buffer_ref := None\<rparr>"
  let ?z = "x\<lparr>ac_write_state := WRITE_STATE_ACTIVE, ac_active_output_buffer_ref := Some b1\<rparr>"
  have y: "running s0 c ?y (put_conn c ?y s)" and z: "running s0 c ?z (put_conn c ?z s)"
    using running_local [OF run] b1(2) by (auto intro!: running_put [OF run] simp: conn_local_def)
  have ry: "ac_input_message_ptr ?y = None" "in_phase Written c ?y [\<lparr>fn_f = postable_write_complete_ptr, fn_arg = c\<rparr>]"
    using ph nm by (simp_all add: in_phase_def)
  show ?thesis
  proof (cases "iob_remaining b1 = 0")
    case True
    obtain s' where "rtor_reactor_post (put_conn c ?y s) postable_write_complete_ptr c = Inr s'" "settled c s0 s'"
      "moved s0 c ?y [\<lparr>fn_f = postable_write_complete_ptr, fn_arg = c\<rparr>] s'" using settle_post [OF y ry] by blast
    then show ?thesis using True b1 running_check [OF y] running_handler [OF y]
      by (auto simp: write_complete_def)
  next
    case False
    then have "ac_input_message_ptr ?z = None" "in_phase Writing c ?z [\<lparr>fn_f = async_postable_writer_ptr, fn_arg = c\<rparr>]"
      using ph nm b1(2) by (simp_all add: in_phase_def iob_wf_def)
    from settle_post [OF z this] obtain s' where
      "rtor_reactor_post (put_conn c ?z s) async_postable_writer_ptr c = Inr s'" "settled c s0 s'"
      "moved s0 c ?z [\<lparr>fn_f = async_postable_writer_ptr, fn_arg = c\<rparr>] s'" by blast
    then show ?thesis using False b1 running_check [OF z] running_handler [OF z] running_conn [OF z]
      by (auto simp: write_incomplete_def post_postable_writer_def)
  qed
qed

lemma async_postable_writer_eq:
  assumes run: "running s c x s" and ph: "in_phase Writing c x fs"
    and b: "ac_active_output_buffer_ref x = Some b" "iob_wf b"
    and n: "n = (if io_send io < 0 then - 1 else min (io_send io) (iob_remaining b))"
  shows "async_postable_writer io c s =
      (if n > 0 then
         rbind (IOBuffer_consume b n) (\<lambda>iob1.
         rbind (IOBuffer_data_len iob1) (\<lambda>remaining.
         if remaining = 0 then
           rbind (IOBuffer_dispose iob1) (\<lambda>gone.
           write_complete c (put_conn c (x\<lparr>ac_write_state := WRITE_STATE_IDLE,
                                           ac_active_output_buffer_ref := gone\<rparr>) s))
         else write_incomplete c (put_conn c (x\<lparr>ac_write_state := WRITE_STATE_ACTIVE,
                                                ac_active_output_buffer_ref := Some iob1\<rparr>) s)))
       else if n = 0 then write_error c s
       else if io_errno io = EAGAIN then Inr (put_conn c (x\<lparr>ac_write_state := WRITE_STATE_EAGAINED\<rparr>) s)
       else write_error c s)"
proof -
  from running_links [OF run] obtain a st where a: "ac_socket_stream_ref x = Some a" "as_streams (r_app s) a = Some st"
    by (auto simp: conn_links_def)
  have dl: "IOBuffer_data_len b = Inr (iob_remaining b)" using b(2) by (simp add: IOBuffer_data_len_def iob_wf_check)
  have "async_postable_writer io c s = writer io c s"
    using running_check [OF run] ph b by (auto simp: async_postable_writer_def in_phase_def)
  then show ?thesis
    unfolding writer_def running_check [OF run] using a b dl by (simp add: h_get_def n Let_def)
qed

text \<open>A \<open>send\<close> of \<open>n\<close> bytes leaves the rest for the next call, or ends the response.\<close>

lemma async_postable_writer_sent:
  assumes inv: "core_inv {c} s" and x: "as_conns (r_app s) c = Some x" "ac_input_message_ptr x = None"
    and ph: "in_phase Writing c x fs" and b: "ac_active_output_buffer_ref x = Some b" and n: "0 < io_send io"
  shows "\<exists>s' b1. async_postable_writer io c s = Inr s' \<and> settled c s s' \<and> iob_wf b1 \<and>
     iob_content b1 = drop (nat (io_send io)) (iob_content b) \<and>
     (if iob_content b1 = []
      then moved s c (x\<lparr>ac_write_state := WRITE_STATE_IDLE, ac_active_output_buffer_ref := None\<rparr>)
             [\<lparr>fn_f = postable_write_complete_ptr, fn_arg = c\<rparr>] s'
      else moved s c (x\<lparr>ac_write_state := WRITE_STATE_ACTIVE, ac_active_output_buffer_ref := Some b1\<rparr>)
             [\<lparr>fn_f = async_postable_writer_ptr, fn_arg = c\<rparr>] s')"
proof -
  note run = running_start [OF inv x(1)]
  have wf: "iob_wf b" using running_local [OF run] b by (simp add: conn_local_def)
  have rem: "0 < iob_remaining b" using ph b by (auto simp: in_phase_def)
  define k where "k = min (io_send io) (iob_remaining b)"
  have k: "0 < k" "k \<le> iob_remaining b" using n rem by (simp_all add: k_def)
  from writer_sent [OF run ph x(2) b k] obtain b1 s' where
    b1: "IOBuffer_consume b k = Inr b1" "iob_wf b1" "iob_content b1 = drop (nat k) (iob_content b)" and s': "settled c s s'"
      "if iob_remaining b1 = 0
      then write_complete c (put_conn c (x\<lparr>ac_write_state := WRITE_STATE_IDLE,
                                           ac_active_output_buffer_ref := None\<rparr>) s) = Inr s' \<and>
           moved s c (x\<lparr>ac_write_state := WRITE_STATE_IDLE, ac_active_output_buffer_ref := None\<rparr>)
             [\<lparr>fn_f = postable_write_complete_ptr, fn_arg = c\<rparr>] s'
      else write_incomplete c (put_conn c (x\<lparr>ac_write_state := WRITE_STATE_ACTIVE,
                                             ac_active_output_buffer_ref := Some b1\<rparr>) s) = Inr s' \<and>
           moved s c (x\<lparr>ac_write_state := WRITE_STATE_ACTIVE, ac_active_output_buffer_ref := Some b1\<rparr>)
             [\<lparr>fn_f = async_postable_writer_ptr, fn_arg = c\<rparr>] s'" by blast
  have z: "iob_remaining b1 = 0 \<longleftrightarrow> iob_content b1 = []"
    using iob_content_length [OF b1(2)] b1(2) by (auto simp: iob_wf_def)
  have "drop (nat k) (iob_content b) = drop (nat (io_send io)) (iob_content b)"
    using iob_content_length [OF wf] by (simp add: k_def min_def)
  moreover have kn: "k = (if io_send io < 0 then - 1 else min (io_send io) (iob_remaining b))" using n by (simp add: k_def)
  have "async_postable_writer io c s = Inr s'"
    unfolding async_postable_writer_eq [OF run ph b wf kn] using k(1) b1(1,2) s'(2)
    by (simp add: IOBuffer_data_len_def iob_wf_check IOBuffer_dispose_def IOBuffer_destroy_def split: if_splits)
  ultimately show ?thesis using s' b1 z by (intro exI [of _ s'] exI [of _ b1]) auto
qed

text \<open>A \<open>send\<close> that would block leaves the response as it is.\<close>

lemma async_postable_writer_waits:
  assumes inv: "core_inv {c} s" and x: "as_conns (r_app s) c = Some x" "ac_input_message_ptr x = None"
    and ph: "in_phase Writing c x fs" and n: "io_send io < 0" "io_errno io = EAGAIN"
  shows "\<exists>s'. async_postable_writer io c s = Inr s' \<and> settled c s s' \<and> moved s c (x\<lparr>ac_write_state := WRITE_STATE_EAGAINED\<rparr>) [] s'"
proof -
  note run = running_start [OF inv x(1)]
  obtain b where b: "ac_active_output_buffer_ref x = Some b" "0 < iob_remaining b" using ph by (auto simp: in_phase_def)
  have wf: "iob_wf b" using running_local [OF run] b by (simp add: conn_local_def)
  let ?y = "x\<lparr>ac_write_state := WRITE_STATE_EAGAINED\<rparr>"
  have y: "running s c ?y (put_conn c ?y s)"
    by (rule running_put [OF run]) (simp_all add: running_local [OF run])
  from settle_stay [OF this, of Write_wait] have "settled c s (put_conn c ?y s)"
    using ph x(2) by (simp add: in_phase_def)
  then show ?thesis using n y unfolding async_postable_writer_eq [OF run ph b(1) wf refl] by (simp add: running_def)
qed

lemma async_postable_writer_ok:
  assumes "core_inv {c} s" and x: "as_conns (r_app s) c = Some x" "ac_input_message_ptr x = None"
    and ph: "in_phase Writing c x fs"
  shows "\<exists>s'. async_postable_writer io c s = Inr s' \<and> settled c s s'"
proof (cases "0 < io_send io")
  case True
  obtain b where "ac_active_output_buffer_ref x = Some b" using ph by (auto simp: in_phase_def)
  from async_postable_writer_sent [OF assms this True] show ?thesis by blast
next
  case False
  note run = running_start [OF assms(1) x(1)]
  obtain b where b: "ac_active_output_buffer_ref x = Some b" "0 < iob_remaining b" using ph by (auto simp: in_phase_def)
  have wf: "iob_wf b" using running_local [OF run] b by (simp add: conn_local_def)
  show ?thesis
  proof (cases "io_send io < 0 \<and> io_errno io = EAGAIN")
    case True
    then show ?thesis using async_postable_writer_waits [OF assms] by blast
  next
    case other: False
    then show ?thesis using False b(2) write_error_ok [OF run x(2)]
      unfolding async_postable_writer_eq [OF run ph b(1) wf refl] by auto
  qed
qed

section \<open>Events on a connection\<close>

lemma core_inv_busy:
  assumes "core_inv {} s" and "as_conns (r_app s) c = Some x" and "posts_of s c x = []"
  shows "core_inv {c} s"
  using assms unfolding core_inv_def by (auto split: if_splits)

lemma core_inv_conn:
  assumes "core_inv {} s" and "as_conns (r_app s) c = Some x"
  obtains ph where "in_phase ph c x (posts_of s c x)" "ac_input_message_ptr x = None"
    "conn_local x" "conn_links s c x"
  using assms unfolding core_inv_def by simp blast

lemma settled_refl: "core_inv {} s \<Longrightarrow> settled c s s"
  by (simp add: settled_def others_kept_def)

lemma settled_trans: "settled c s t \<Longrightarrow> settled c t u \<Longrightarrow> settled c s u"
  unfolding settled_def by (auto intro: others_kept_trans)

lemma core_inv_check: "core_inv {} s \<Longrightarrow> as_conns (r_app s) c = Some x \<Longrightarrow> check_conn s c = Inr x"
  by (auto simp: core_inv_def check_conn_def get_conn_def h_get_def conn_local_def)

lemma read_epollin_ok:
  assumes inv: "core_inv {} s" and x: "as_conns (r_app s) c = Some x"
  shows "\<exists>s'. read_epollin c s = Inr s' \<and> settled c s s' \<and>
     (if ac_read_state x = READ_STATE_EAGAINED
      then moved s c (x\<lparr>ac_read_state := READ_STATE_ACTIVE, ac_readside_posted := True\<rparr>) [\<lparr>fn_f = postable_reader_ptr, fn_arg = c\<rparr>] s'
      else s' = s)"
proof (cases "ac_read_state x = READ_STATE_EAGAINED")
  case False
  then show ?thesis using core_inv_check [OF assms] settled_refl [OF inv] by (simp add: read_epollin_def)
next
  case True
  obtain ph where ph: "in_phase ph c x (posts_of s c x)" "ac_input_message_ptr x = None"
    using core_inv_conn [OF assms] by blast
  have p: "ph = Read_wait" using ph(1) True by (cases ph) (auto simp: in_phase_def async_states)
  then have "posts_of s c x = []" using ph(1) by (simp add: in_phase_def)
  note run = running_start [OF core_inv_busy [OF assms this] x]
  let ?y = "x\<lparr>ac_read_state := READ_STATE_ACTIVE\<rparr>"
  have y: "running s c ?y (put_conn c ?y s)"
    by (rule running_put [OF run]) (simp_all add: running_local [OF run])
  have "reading ?y" "ac_input_message_ptr ?y = None" using ph p by (simp_all add: reading_def in_phase_def)
  from post_read_start_ok [OF y this] show ?thesis using core_inv_check [OF assms] True
    by (auto simp: read_epollin_def)
qed

lemma write_epollout_ok:
  assumes inv: "core_inv {} s" and x: "as_conns (r_app s) c = Some x"
  shows "\<exists>s'. write_epollout c s = Inr s' \<and> settled c s s' \<and>
     (if ac_write_state x = WRITE_STATE_EAGAINED
      then moved s c (x\<lparr>ac_write_state := WRITE_STATE_ACTIVE, ac_writeside_posted := True\<rparr>)
             [\<lparr>fn_f = async_postable_writer_ptr, fn_arg = c\<rparr>] s'
      else s' = s)"
proof (cases "ac_write_state x = WRITE_STATE_EAGAINED")
  case False
  then show ?thesis using core_inv_check [OF assms] settled_refl [OF inv] by (simp add: write_epollout_def)
next
  case True
  obtain ph where ph: "in_phase ph c x (posts_of s c x)" "ac_input_message_ptr x = None"
    using core_inv_conn [OF assms] by blast
  have p: "ph = Write_wait" using ph(1) True by (cases ph) (auto simp: in_phase_def async_states)
  then have "posts_of s c x = []" using ph(1) by (simp add: in_phase_def)
  note run = running_start [OF core_inv_busy [OF assms this] x]
  let ?y = "x\<lparr>ac_write_state := WRITE_STATE_ACTIVE, ac_writeside_posted := True\<rparr>"
  have y: "running s c ?y (put_conn c ?y s)"
    by (rule running_put [OF run]) (simp_all add: running_local [OF run])
  have "in_phase Writing c ?y [\<lparr>fn_f = async_postable_writer_ptr, fn_arg = c\<rparr>]" "ac_input_message_ptr ?y = None"
    using ph p by (simp_all add: in_phase_def)
  from settle_post [OF y this(2,1)] show ?thesis using core_inv_check [OF assms] True running_conn [OF y]
    by (auto simp: write_epollout_def async_post_to_reactor_def)
qed

lemma ev64_and: "ev64 ev AND ev64 w = 0 \<longleftrightarrow> ev AND w = 0"
proof -
  have "ev64 ev AND ev64 w = ev64 (ev AND w)" by (intro bit_word_eqI) (auto simp: bit_simps)
  moreover have "ev64 v = 0 \<longleftrightarrow> v = 0" for v by transfer simp
  ultimately show ?thesis by simp
qed

text \<open>An event that a connection does not wait for changes nothing.\<close>

definition wakes :: "32 word \<Rightarrow> AsyncConnection \<Rightarrow> bool" where
  "wakes ev x \<longleftrightarrow> ev AND EPOLLIN \<noteq> 0 \<and> ac_read_state x = READ_STATE_EAGAINED \<or>
     ev AND EPOLLOUT \<noteq> 0 \<and> ac_write_state x = WRITE_STATE_EAGAINED"

lemma async_event_handler_idle:
  assumes inv: "core_inv {} s" and x: "as_conns (r_app s) c = Some x" and st: "stream_ok st a c fd" and "\<not> wakes ev x"
  shows "async_event_handler st (ucast ev) s = Inr s"
proof -
  have "ev64 ev AND ev64 EPOLLOUT \<noteq> 0 \<Longrightarrow> write_epollout c s = Inr s"
    using write_epollout_ok [OF inv x] assms(4) by (auto simp: ev64_and wakes_def)
  moreover have "ev64 ev AND ev64 EPOLLIN \<noteq> 0 \<Longrightarrow> read_epollin c s = Inr s"
    using read_epollin_ok [OF inv x] assms(4) by (auto simp: ev64_and wakes_def)
  ultimately show ?thesis using st core_inv_check [OF inv x] by (simp add: async_event_handler_def stream_ok_def)
qed

lemma async_event_handler_ok:
  assumes inv: "core_inv {} s" and x: "as_conns (r_app s) c = Some x" and st: "stream_ok st a c fd"
  shows "\<exists>s'. async_event_handler st ev s = Inr s' \<and> settled c s s'"
proof -
  obtain s1 where s1: "(if ev AND ev64 EPOLLOUT \<noteq> 0 then write_epollout c s else Inr s) = Inr s1" "settled c s s1"
    using write_epollout_ok [OF assms(1,2)] settled_refl [OF inv] by (cases "ev AND ev64 EPOLLOUT = 0") auto
  have inv1: "core_inv {} s1" using s1(2) by (simp add: settled_def)
  have "\<exists>x1. as_conns (r_app s1) c = Some x1"
  proof -
    obtain hdl where "as_handlers (r_app s) (ac_handler_ref x) = Some hdl" "handler_ok hdl c"
      using inv x unfolding core_inv_def conn_links_def by blast
    then have "as_handlers (r_app s1) (ac_handler_ref x) = Some hdl" "ah_async_connection_ref hdl = Some c"
      using s1(2) by (simp_all add: settled_def handler_ok_def)
    then show ?thesis using inv1 unfolding core_inv_def server_ok_def by (metis option.inject)
  qed
  then obtain x1 where x1: "as_conns (r_app s1) c = Some x1" ..
  obtain s2 where s2: "(if ev AND ev64 EPOLLIN \<noteq> 0 then read_epollin c s1 else Inr s1) = Inr s2" "settled c s1 s2"
    using read_epollin_ok [OF inv1 x1] settled_refl [OF inv1] by (cases "ev AND ev64 EPOLLIN = 0") auto
  have "async_event_handler st ev s = Inr s2"
    using st core_inv_check [OF assms(1,2)] s1(1) s2(1)
    by (simp add: async_event_handler_def stream_ok_def)
  then show ?thesis using settled_trans [OF s1(2) s2(2)] by blast
qed

section \<open>Closing a connection\<close>

lemma sys_close_twice: "snd (sys_close (snd (sys_close k fd)) fd) = snd (sys_close k fd)"
  by (simp add: sys_close_def)

text \<open>\<open>released s c x s'\<close>: everything the connection owned is gone, and nothing else changed.\<close>

definition released :: "'l async_st \<Rightarrow> addr \<Rightarrow> AsyncConnection \<Rightarrow> 'l async_st \<Rightarrow> bool" where
  "released s c x s' \<longleftrightarrow> Reactor_wf s' \<and>
     ft_view (r_table s') = (ft_view (r_table s))(ac_socket x := None) \<and>
     k_open (r_kernel s') = (k_open (r_kernel s))(ac_socket x := False) \<and> ready s' = ready s \<and>
     r_itq s' = r_itq s \<and> (\<exists>a. ac_socket_stream_ref x = Some a \<and>
        as_conns (r_app s') = (as_conns (r_app s))(c := None) \<and>
        as_streams (r_app s') = (as_streams (r_app s))(a := None) \<and>
        as_parsers (r_app s') = (as_parsers (r_app s))(c := None) \<and>
        as_handlers (r_app s') = as_handlers (r_app s) \<and>
        as_tag (r_app s') = as_tag (r_app s) \<and> as_ref (r_app s') = as_ref (r_app s) \<and>
        as_listening_watcher_ref (r_app s') = as_listening_watcher_ref (r_app s) \<and>
        as_fresh (r_app s') = as_fresh (r_app s))"

lemma Reactor_wf_close:
  assumes "Reactor_wf r" and "ft_view (r_table r) fd = None"
  shows "Reactor_wf (r\<lparr>r_kernel := snd (sys_close (r_kernel r) fd)\<rparr>)"
  using assms by (auto simp: Reactor_wf_def sys_close_def)

lemma async_connection_free_ok:
  assumes x: "as_conns (r_app s) c = Some x" and loc: "conn_local x" and links: "conn_links s c x" and wf: "Reactor_wf s"
  shows "\<exists>s'. async_connection_free c s = Inr s' \<and> released s c x s' \<and>
              as_handler_list (r_app s') = as_handler_list (r_app s)"
proof -
  from links obtain p a st where p: "as_parsers (r_app s) c = Some p" "hp_typed p"
    and a: "ac_socket_stream_ref x = Some a" "as_streams (r_app s) a = Some st" "stream_ok st a c (ac_socket x)"
    "ft_view (r_table s) (ac_socket x) = Some a" by (auto simp: conn_links_def)
  have chk: "check_conn s c = Inr x" using x loc by (simp add: check_conn_def get_conn_def h_get_def conn_local_def)
  from rtor_reactor_deregister_ok [OF wf a(4)] obtain s1 where
    s1: "rtor_reactor_deregister s (ac_socket x) = Inr s1" "Reactor_wf s1"
    "ft_view (r_table s1) = (ft_view (r_table s))(ac_socket x := None)" "k_open (r_kernel s1) = k_open (r_kernel s)"
    "r_ready_list s1 = r_ready_list s" "r_itq s1 = r_itq s" by blast
  have app: "r_app s1 = r_app s" using rtor_reactor_deregister_app [OF s1(1)] .
  have dereg: "rtor_stream_deregister st s = Inr s1" using a(3) s1(1) by (simp add: rtor_stream_deregister_def stream_ok_def)
  let ?k = "snd (sys_close (r_kernel s1) (ac_socket x))"
  have free: "rtor_stream_free st (r_kernel s1) = Inr ?k" using a(3) by (simp add: rtor_stream_free_def stream_ok_def)
  define y where "y = x\<lparr>ac_socket_stream_ref := None, ac_socket := - 1\<rparr>"
  define s3 where "s3 = put_conn c y (s1\<lparr>r_kernel := ?k, r_app := (r_app s1)\<lparr>as_streams := (as_streams (r_app s1))(a := None),
      as_conns := (as_conns (r_app s1))(c \<mapsto> x\<lparr>ac_socket_stream_ref := None\<rparr>)\<rparr>\<rparr>)"
  have cl: "async_connection_close c (put_conn c (x\<lparr>ac_socket_stream_ref := None\<rparr>)
        (s1\<lparr>r_kernel := ?k, r_app := (r_app s1)\<lparr>as_streams := (as_streams (r_app s1))(a := None)\<rparr>\<rparr>)) = Inr s3"
    using loc by (simp add: async_connection_close_def check_conn_def get_conn_def put_conn_def h_get_def conn_local_def
        s3_def y_def sys_close_twice)
  have s3p: "as_parsers (r_app s3) c = Some p" "get_conn s3 c = Inr y"
    using p(1) by (simp_all add: s3_def put_conn_def app get_conn_def h_get_def)
  have io: "(case ac_active_output_buffer_ref x of None \<Rightarrow> Inr None | Some b \<Rightarrow> IOBuffer_dispose b) = Inr None"
    "(case ac_active_input_buffer_ref x of None \<Rightarrow> Inr None | Some b \<Rightarrow> IOBuffer_dispose b) = Inr None"
    using loc by (auto simp: conn_local_def IOBuffer_dispose_def IOBuffer_destroy_def iob_wf_check split: option.split)
  define s4 where "s4 = put_conn c (y\<lparr>ac_active_output_buffer_ref := None, ac_active_input_buffer_ref := None, ac_tag := ''invalid''\<rparr>)
       (s3\<lparr>r_app := (r_app s3)\<lparr>as_parsers := (as_parsers (r_app s3))(c := None)\<rparr>\<rparr>)"
  have "0 < ac_socket x" using loc by (simp add: conn_local_def)
  then have d: "async_connection_destroy c s = Inr s4"
    unfolding async_connection_destroy_def chk using a dereg free cl s3p io http_parser_dispose_ok [OF p(2)]
    by (simp add: h_get_def Let_def s4_def)
  define s5 where "s5 = s4\<lparr>r_app := (r_app s4)\<lparr>as_conns := (as_conns (r_app s4))(c := None)\<rparr>\<rparr>"
  have "async_connection_free c s = Inr s5" using d chk by (simp add: async_connection_free_def s5_def)
  moreover have "Reactor_wf (s1\<lparr>r_kernel := ?k\<rparr>)" by (rule Reactor_wf_close [OF s1(2)]) (simp add: s1(3))
  then have "Reactor_wf s5" by (simp add: s5_def s4_def s3_def put_conn_def Reactor_wf_def)
  moreover have "k_open ?k = (k_open (r_kernel s))(ac_socket x := False)" using s1(4) by (auto simp: sys_close_def fun_eq_iff)
  ultimately have "async_connection_free c s = Inr s5 \<and> released s c x s5 \<and>
      as_handler_list (r_app s5) = as_handler_list (r_app s)"
    using a(1) s1(3,5,6) by (simp add: released_def s5_def s4_def s3_def put_conn_def app)
  then show ?thesis by blast
qed

lemma released_core:
  assumes inv: "core_inv {c} s" and x: "as_conns (r_app s) c = Some x" and rel: "released s c x s'"
    and t: "r_app t = (r_app s')\<lparr>as_handlers := (as_handlers (r_app s))(ac_handler_ref x := None)\<rparr>"
    "r_table t = r_table s'" "ready t = ready s'" "Reactor_wf t"
  shows "core_inv {} t"
proof -
  from inv have ok: "server_ok s" and links: "\<And>d y. as_conns (r_app s) d = Some y \<Longrightarrow> conn_links s d y"
    and none: "posts_of s c x = []" using x unfolding core_inv_def by auto
  from rel obtain a where a: "ac_socket_stream_ref x = Some a"
    and e: "as_conns (r_app t) = (as_conns (r_app s))(c := None)"
    "as_streams (r_app t) = (as_streams (r_app s))(a := None)"
    "as_parsers (r_app t) = (as_parsers (r_app s))(c := None)" "as_tag (r_app t) = as_tag (r_app s)"
    "as_ref (r_app t) = as_ref (r_app s)" "as_listening_watcher_ref (r_app t) = as_listening_watcher_ref (r_app s)"
    "as_fresh (r_app t) = as_fresh (r_app s)" "as_handlers (r_app t) = (as_handlers (r_app s))(ac_handler_ref x := None)"
    "ft_view (r_table t) = (ft_view (r_table s))(ac_socket x := None)" "ready t = ready s"
    by (auto simp: released_def t)
  from links [OF x] obtain st where st: "as_streams (r_app s) a = Some st" "stream_ok st a c (ac_socket x)"
    "ft_view (r_table s) (ac_socket x) = Some a" using a by (auto simp: conn_links_def)
  have other: "conn_links t d y" if d: "as_conns (r_app s) d = Some y" "d \<noteq> c" for d y
  proof -
    from links [OF d(1)] obtain b sb where b: "ac_socket_stream_ref y = Some b" "as_streams (r_app s) b = Some sb"
      "stream_ok sb b d (ac_socket y)" "ft_view (r_table s) (ac_socket y) = Some b" by (auto simp: conn_links_def)
    have "b \<noteq> a" using b(2,3) st(1,2) d(2) unfolding stream_ok_def by (metis option.inject)
    moreover from this have "ac_socket y \<noteq> ac_socket x" using b(4) st(3) by auto
    moreover have "ac_handler_ref y \<noteq> ac_handler_ref x" using handlers_differ [OF links [OF d(1)] links [OF x] d(2)] .
    ultimately show ?thesis using links [OF d(1)] b d(2) by (simp add: conn_links_def e)
  qed
  let ?lw = "as_listening_watcher_ref (r_app s)"
  have lw: "w_ref ?lw \<noteq> a" "w_fd ?lw \<noteq> ac_socket x"
    using server_ok_listener [OF ok] st(1,3) by auto
  have tab: "w = w_ref ?lw \<and> fd = w_fd ?lw \<or> (\<exists>d y. as_conns (r_app t) d = Some y \<and> ac_socket_stream_ref y = Some w \<and> ac_socket y = fd)"
    if "ft_view (r_table t) fd = Some w" for fd w
  proof -
    from that have fd: "ft_view (r_table s) fd = Some w" "fd \<noteq> ac_socket x" by (auto simp: e split: if_splits)
    have "as_conns (r_app t) d = Some y" if "as_conns (r_app s) d = Some y" "ac_socket y = fd" for d y
      using that fd(2) x by (auto simp: e)
    then show ?thesis using server_ok_table [OF ok fd(1)] by blast
  qed
  have hdl: "\<exists>d y. ah_async_connection_ref hd = Some d \<and> as_conns (r_app t) d = Some y \<and> ac_handler_ref y = h"
    if "as_handlers (r_app t) h = Some hd" for h hd
  proof -
    from that have h: "as_handlers (r_app s) h = Some hd" "h \<noteq> ac_handler_ref x" by (auto simp: e split: if_splits)
    from server_ok_handler [OF ok h(1)] h(2) x show ?thesis by (fastforce simp: e)
  qed
  have "server_ok t" using ok lw tab hdl unfolding server_ok_def e by simp
  moreover have "conn_local y \<and> conn_links t d y \<and> ac_input_message_ptr y = None \<and> (\<exists>ph. in_phase ph d y (posts_of t d y))"
    if "as_conns (r_app t) d = Some y" for d y
  proof -
    from that have d: "as_conns (r_app s) d = Some y" "d \<noteq> c" by (auto simp: e split: if_splits)
    have "posts_of t d y = posts_of s d y" by (simp add: posts_of_def e)
    with inv d other [OF d] show ?thesis unfolding core_inv_def by auto
  qed
  moreover have "\<exists>d y. as_conns (r_app t) d = Some y \<and> mine d (ac_handler_ref y) f" if f: "f \<in> set (ready t)" for f
  proof -
    obtain d y where d: "as_conns (r_app s) d = Some y" "mine d (ac_handler_ref y) f"
      using inv f unfolding core_inv_def e by blast
    have "d \<noteq> c"
    proof
      assume "d = c"
      then have "f \<in> set (posts_of s c x)" using d x f by (simp add: posts_of_def e)
      then show False using none by simp
    qed
    then show ?thesis using d by (auto simp: e)
  qed
  ultimately show ?thesis using t(4) unfolding core_inv_def by simp
qed

lemma dispose_empty: "List_dispose (List_new NoDealloc :: 'a List) = Inr (List_new NoDealloc)"
  by (simp add: List_dispose_def List_destroy_def List_new_def List_init_def)

lemma async_handler_free_ok:
  assumes inv: "core_inv {c} s" and x: "as_conns (r_app s) c = Some x"
    and t: "t = s\<lparr>r_app := (r_app s)\<lparr>as_handler_list := l\<rparr>\<rparr>"
  shows "\<exists>s'. async_handler_free (ac_handler_ref x) t = Inr s' \<and> core_inv {} s' \<and>
     as_handler_list (r_app s') = l \<and> as_handlers (r_app s') = (as_handlers (r_app s))(ac_handler_ref x := None) \<and>
     as_conns (r_app s') = (as_conns (r_app s))(c := None) \<and>
     k_open (r_kernel s') = (k_open (r_kernel s))(ac_socket x := False) \<and> others_kept c s s' \<and> ready s' = ready s"
proof -
  let ?h = "ac_handler_ref x"
  from inv x have wf: "Reactor_wf s" and xx: "conn_local x" "conn_links s c x" unfolding core_inv_def by blast+
  have xt: "as_conns (r_app t) c = Some x" "conn_links t c x" "Reactor_wf t"
    using x xx wf by (simp_all add: t conn_links_def)
  from xx(2) obtain hdl where h: "as_handlers (r_app s) ?h = Some hdl" "handler_ok hdl c" by (auto simp: conn_links_def)
  from async_connection_free_ok [OF xt(1) xx(1) xt(2,3)] obtain s1 where
    s1: "async_connection_free c t = Inr s1" "released t c x s1" "as_handler_list (r_app s1) = l" by (auto simp: t)
  define s2 where "s2 = s1\<lparr>r_app := (r_app s1)\<lparr>as_handlers := (as_handlers (r_app s1))(?h := None)\<rparr>\<rparr>"
  have chk: "check_handler t ?h = Inr hdl" using h by (simp add: t check_handler_def get_handler_def h_get_def handler_ok_def)
  have free: "async_handler_free ?h t = Inr s2"
    unfolding async_handler_free_def async_handler_destroy_def chk using h(2) s1(1)
    by (simp add: handler_ok_def dispose_empty s2_def put_handler_def)
  have rel: "released s c x s1" using s1(2) by (simp add: released_def t)
  have "core_inv {} s2"
    by (rule released_core [OF inv x rel]) (use rel in \<open>auto simp: s2_def released_def\<close>)
  moreover have "others_kept c s s2" using s1(2)
    by (auto simp: others_kept_def same_view_def posts_of_def released_def s2_def t)
  ultimately show ?thesis using free s1(2,3) by (auto simp: s2_def released_def t)
qed

lemma postable_close_connection_ok:
  assumes inv: "core_inv {c} s" and x: "as_conns (r_app s) c = Some x" and l: "list_ok s"
  shows "\<exists>s'. postable_close_connection (ac_handler_ref x) s = Inr s' \<and> async_inv s' \<and>
     as_conns (r_app s') = (as_conns (r_app s))(c := None) \<and>
     as_handlers (r_app s') = (as_handlers (r_app s))(ac_handler_ref x := None) \<and>
     k_open (r_kernel s') = (k_open (r_kernel s))(ac_socket x := False) \<and> others_kept c s s' \<and> ready s' = ready s"
proof -
  let ?h = "ac_handler_ref x" and ?l = "as_handler_list (r_app s)"
  note run = running_start [OF inv x]
  obtain hdl where h: "check_handler s ?h = Inr hdl" "ah_async_connection_ref hdl = Some c" "get_handler s ?h = Inr hdl"
    using running_handler [OF run] by blast
  from running_links [OF run] have str: "ac_socket_stream_ref x \<noteq> None" by (auto simp: conn_links_def)
  from l obtain as where as: "List_inv ?l as" "distinct (map snd as)" "set (map snd as) = dom (as_handlers (r_app s))"
    "l_dealloc ?l = NullingDealloc" by (auto simp: list_ok_def)
  have "?h \<in> set (map snd as)" using h(3) unfolding as(3) by (auto simp: get_handler_def h_get_def split: option.splits)
  then obtain a bs cs where sp: "as = bs @ (a, ?h) # cs" by (auto dest!: split_list)
  have "List.find (\<lambda>ax. snd ax = ?h) as = Some (a, ?h)"
    using as(2) unfolding sp by (induction bs) auto
  then have find: "List_find ?l ?h = Inr (Some a)" using List_find_inv [OF as(1)] by simp
  have inv': "List_inv ?l (bs @ (a, ?h) # cs)" using as(1) sp by simp
  from List_itr_remove_inv [OF inv'] as(4) obtain l1 where l1: "List_itr_remove ?l (Some a) = Inr l1"
    "List_inv l1 (bs @ cs)" "l_dealloc l1 = NullingDealloc" "l_freed l1 = l_freed ?l @ [?h]" by auto
  from async_handler_free_ok [OF inv x refl, of l1] obtain s' where
    s': "async_handler_free ?h (s\<lparr>r_app := (r_app s)\<lparr>as_handler_list := l1\<rparr>\<rparr>) = Inr s'" "core_inv {} s'"
    "as_handler_list (r_app s') = l1" "as_handlers (r_app s') = (as_handlers (r_app s))(?h := None)"
    "as_conns (r_app s') = (as_conns (r_app s))(c := None)"
    "k_open (r_kernel s') = (k_open (r_kernel s))(ac_socket x := False)" "others_kept c s s'" "ready s' = ready s" by blast
  have "as_tag (r_app s) = AsyncServer_TAG" using inv by (simp add: core_inv_def server_ok_def)
  then have "on_handler_completion_cb ?h s = Inr s'"
    using find List_itr_unpack_inv [OF inv'] l1 s'(1)
    by (simp add: on_handler_completion_cb_def async_handler_anonymous_dispose_def Let_def)
  then have "postable_close_connection ?h s = Inr s'"
    using h str running_conn [OF run] by (simp add: postable_close_connection_def handle_close_connection_def)
  moreover have "set (map snd (bs @ cs)) = dom (as_handlers (r_app s')) "
    using as(2,3) unfolding sp s'(4) by auto
  then have "list_ok s'" using as(2) l1 unfolding list_ok_def s'(3) sp by (intro exI [of _ "bs @ cs"]) auto
  ultimately show ?thesis using s'(2,4-8) by (auto simp: async_inv_def)
qed

section \<open>Accepting a connection\<close>

definition opened ::
  "'l async_st \<Rightarrow> addr \<Rightarrow> AsyncConnection \<Rightarrow> addr \<Rightarrow> AsyncHandler \<Rightarrow> addr \<Rightarrow> RtorStream \<Rightarrow> 'l async_st \<Rightarrow> bool" where
  "opened s c x h hdl a st s' \<longleftrightarrow> Reactor_wf s' \<and>
     ft_view (r_table s') = (ft_view (r_table s))(ac_socket x \<mapsto> a) \<and> ready s' = ready s \<and>
     r_itq s' = r_itq s \<and> (\<exists>p. hp_typed p \<and> r_app s' = (r_app s)\<lparr>as_handlers := (as_handlers (r_app s))(h \<mapsto> hdl),
        as_conns := (as_conns (r_app s))(c \<mapsto> x), as_streams := (as_streams (r_app s))(a \<mapsto> st),
        as_parsers := (as_parsers (r_app s))(c \<mapsto> p), as_fresh := Suc (Suc (Suc (as_fresh (r_app s))))\<rparr>)"

text \<open>The facts the next lemmas share: where the new objects are and that they are new.\<close>

definition fresh_conn ::
  "'l async_st \<Rightarrow> addr \<Rightarrow> AsyncConnection \<Rightarrow> addr \<Rightarrow> AsyncHandler \<Rightarrow> addr \<Rightarrow> RtorStream \<Rightarrow> bool" where
  "fresh_conn s c x h hdl a st \<longleftrightarrow> h = as_fresh (r_app s) \<and> c = Suc h \<and> a = Suc c \<and>
     ft_view (r_table s) (ac_socket x) = None \<and> conn_local x \<and> ac_handler_ref x = h \<and>
     ac_socket_stream_ref x = Some a \<and> handler_ok hdl c \<and> stream_ok st a c (ac_socket x)"

lemma server_ok_fresh:
  assumes "server_ok s" and "as_fresh (r_app s) \<le> b"
  shows "as_handlers (r_app s) b = None" "as_conns (r_app s) b = None" "as_streams (r_app s) b = None"
  using assms unfolding server_ok_def by blast+

lemma openedE:
  assumes "opened s c x h hdl a st s'"
  obtains p where "hp_typed p" "as_handlers (r_app s') = (as_handlers (r_app s))(h \<mapsto> hdl)"
    "as_conns (r_app s') = (as_conns (r_app s))(c \<mapsto> x)" "as_streams (r_app s') = (as_streams (r_app s))(a \<mapsto> st)"
    "as_parsers (r_app s') = (as_parsers (r_app s))(c \<mapsto> p)" "as_fresh (r_app s') = Suc (Suc (Suc (as_fresh (r_app s))))"
    "as_tag (r_app s') = as_tag (r_app s)" "as_ref (r_app s') = as_ref (r_app s)"
    "as_listening_watcher_ref (r_app s') = as_listening_watcher_ref (r_app s)"
    "ft_view (r_table s') = (ft_view (r_table s))(ac_socket x \<mapsto> a)" "ready s' = ready s" "Reactor_wf s'" "r_itq s' = r_itq s"
  using assms by (auto simp: opened_def)

lemma opened_others:
  assumes inv: "core_inv {} s" and op: "opened s c x h hdl a st s'" and new: "fresh_conn s c x h hdl a st"
    and d: "as_conns (r_app s) d = Some y"
  shows "conn_links s' d y \<and> d \<noteq> c \<and> ac_handler_ref y \<noteq> h"
proof -
  have srv: "server_ok s" using inv by (simp add: core_inv_def)
  note fr = server_ok_fresh [OF srv]
  have n: "h = as_fresh (r_app s)" "c = Suc h" "a = Suc c" "ft_view (r_table s) (ac_socket x) = None"
    using new by (simp_all add: fresh_conn_def)
  have dl: "conn_links s d y" using inv d unfolding core_inv_def by blast
  then obtain hd b sb where hb: "as_handlers (r_app s) (ac_handler_ref y) = Some hd" "handler_ok hd d"
    "ac_socket_stream_ref y = Some b" "as_streams (r_app s) b = Some sb" "stream_ok sb b d (ac_socket y)"
    "ft_view (r_table s) (ac_socket y) = Some b" unfolding conn_links_def by blast
  have ne: "d \<noteq> c" "ac_handler_ref y \<noteq> h" "b \<noteq> a" "ac_socket y \<noteq> ac_socket x"
    using d hb(1,4,6) n fr(1) [of h] fr(2) [of c] fr(3) [of a] by auto
  have "\<exists>q. as_parsers (r_app s) d = Some q \<and> hp_typed q" using dl unfolding conn_links_def by blast
  with hb ne op show ?thesis unfolding conn_links_def by (auto elim!: openedE)
qed

lemma opened_server_ok:
  assumes inv: "core_inv {} s" and op: "opened s c x h hdl a st s'" and new: "fresh_conn s c x h hdl a st"
  shows "server_ok s'"
proof -
  have srv: "server_ok s" using inv by (simp add: core_inv_def)
  have n: "h = as_fresh (r_app s)" "c = Suc h" "a = Suc c" "ft_view (r_table s) (ac_socket x) = None"
    "ac_handler_ref x = h" "ac_socket_stream_ref x = Some a" "ah_async_connection_ref hdl = Some c"
    using new by (simp_all add: fresh_conn_def handler_ok_def)
  from op obtain p where e: "as_handlers (r_app s') = (as_handlers (r_app s))(h \<mapsto> hdl)"
    "as_conns (r_app s') = (as_conns (r_app s))(c \<mapsto> x)" "as_streams (r_app s') = (as_streams (r_app s))(a \<mapsto> st)"
    "as_fresh (r_app s') = Suc (Suc (Suc (as_fresh (r_app s))))" "as_tag (r_app s') = as_tag (r_app s)"
    "as_ref (r_app s') = as_ref (r_app s)" "as_listening_watcher_ref (r_app s') = as_listening_watcher_ref (r_app s)"
    "ft_view (r_table s') = (ft_view (r_table s))(ac_socket x \<mapsto> a)" by (rule openedE)
  have keep: "as_conns (r_app s') d = Some y" if "as_conns (r_app s) d = Some y" for d y
    using opened_others [OF assms that] that by (simp add: e)
  let ?lw = "as_listening_watcher_ref (r_app s)"
  have lw: "w_ref ?lw < h" "w_fd ?lw \<noteq> ac_socket x"
    using srv server_ok_listener(1) [OF srv] n unfolding server_ok_def by auto
  have tab: "w = w_ref ?lw \<and> fd = w_fd ?lw \<or>
      (\<exists>d y. as_conns (r_app s') d = Some y \<and> ac_socket_stream_ref y = Some w \<and> ac_socket y = fd)"
    if w: "ft_view (r_table s') fd = Some w" for fd w
  proof (cases "fd = ac_socket x")
    case True
    with w have "w = a" by (simp add: e)
    moreover have "as_conns (r_app s') c = Some x" by (simp add: e)
    ultimately show ?thesis using True n(6) by blast
  next
    case False
    with w have "ft_view (r_table s) fd = Some w" by (simp add: e)
    with server_ok_table [OF srv] keep show ?thesis by blast
  qed
  have hd: "\<exists>d y. ah_async_connection_ref hd = Some d \<and> as_conns (r_app s') d = Some y \<and> ac_handler_ref y = g"
    if g: "as_handlers (r_app s') g = Some hd" for g hd
  proof (cases "g = h")
    case True
    with g n(5,7) show ?thesis by (auto simp: e)
  next
    case False
    with g have "as_handlers (r_app s) g = Some hd" by (simp add: e)
    with server_ok_handler [OF srv] keep show ?thesis by blast
  qed
  have "as_handlers (r_app s') b = None \<and> as_conns (r_app s') b = None \<and> as_streams (r_app s') b = None"
    if "as_fresh (r_app s') \<le> b" for b
    using that server_ok_fresh [OF srv, of b] n by (simp add: e)
  then show ?thesis using srv lw tab hd n(1-3) unfolding server_ok_def by (simp add: e)
qed

lemma opened_core:
  assumes inv: "core_inv {} s" and op: "opened s c x h hdl a st s'" and new: "fresh_conn s c x h hdl a st"
  shows "core_inv {c} s'"
proof -
  from op obtain p where p: "hp_typed p" and e: "as_handlers (r_app s') = (as_handlers (r_app s))(h \<mapsto> hdl)"
    "as_conns (r_app s') = (as_conns (r_app s))(c \<mapsto> x)" "as_streams (r_app s') = (as_streams (r_app s))(a \<mapsto> st)"
    "as_parsers (r_app s') = (as_parsers (r_app s))(c \<mapsto> p)"
    "ft_view (r_table s') = (ft_view (r_table s))(ac_socket x \<mapsto> a)" "ready s' = ready s" "Reactor_wf s'" by (rule openedE)
  have owner: "\<exists>d y. as_conns (r_app s) d = Some y \<and> mine d (ac_handler_ref y) f \<and> d \<noteq> c \<and> ac_handler_ref y \<noteq> h"
    if f: "f \<in> set (ready s)" for f
    using inv f opened_others [OF assms] unfolding core_inv_def by metis
  have nomine: "\<not> mine c h f" if f: "f \<in> set (ready s)" for f
    using owner [OF f] mine_other [of _ _ f c h] by blast
  have "conn_local y \<and> conn_links s' d y \<and> (if d \<in> {c} then posts_of s' d y = []
         else ac_input_message_ptr y = None \<and> (\<exists>ph. in_phase ph d y (posts_of s' d y)))"
    if d: "as_conns (r_app s') d = Some y" for d y
  proof (cases "d = c")
    case True
    then have [simp]: "y = x" using d by (simp add: e)
    have "posts_of s' c x = []" using nomine new by (simp add: posts_of_def e filter_empty_conv fresh_conn_def)
    moreover have "conn_links s' c x" using new p unfolding conn_links_def fresh_conn_def by (auto simp: e)
    ultimately show ?thesis using True new by (simp add: fresh_conn_def)
  next
    case False
    then have "as_conns (r_app s) d = Some y" using d by (simp add: e)
    moreover have "posts_of s' d y = posts_of s d y" by (simp add: posts_of_def e)
    ultimately show ?thesis using inv opened_others [OF assms] False unfolding core_inv_def by auto
  qed
  moreover have "\<exists>d y. as_conns (r_app s') d = Some y \<and> mine d (ac_handler_ref y) f" if f: "f \<in> set (ready s')" for f
    using owner [of f] f by (auto simp: e)
  ultimately show ?thesis using e(7) opened_server_ok [OF assms] unfolding core_inv_def by blast
qed

lemma async_connection_new_ok:
  assumes inv: "core_inv {} s" and fd: "fd_ok fd" "0 < fd" "k_open (r_kernel s) fd" "ft_view (r_table s) fd = None"
    and h: "h = as_fresh (r_app s)" and hd: "ah_tag hdl = AsyncHandler_TAG" "ah_input_list hdl = List_new NoDealloc"
    "ah_output_list hdl = List_new NoDealloc"
  shows "\<exists>s' x a st. async_connection_new env fd h (put_handler h hdl (snd (new_addr s))) = Inr (Suc h, s') \<and>
     opened s (Suc h) x h (hdl\<lparr>ah_async_connection_ref := Some (Suc h)\<rparr>) a st
       (put_handler h (hdl\<lparr>ah_async_connection_ref := Some (Suc h)\<rparr>) s') \<and>
     fresh_conn s (Suc h) x h (hdl\<lparr>ah_async_connection_ref := Some (Suc h)\<rparr>) a st \<and>
     (\<exists>ctx p. as_parsers (r_app s') (Suc h) = Some p \<and> http_parser_new (e_llhttp_init env) ctx = Inr p) \<and>
     ac_read_state x = READ_STATE_IDLE \<and> \<not> ac_readside_posted x \<and> ac_write_state x = WRITE_STATE_IDLE \<and>
     ac_input_message_ptr x = None \<and> as_handler_list (r_app s') = as_handler_list (r_app s) \<and> ac_socket x = fd \<and>
     k_open (r_kernel s') = k_open (r_kernel s)"
proof -
  define a where "a = Suc (Suc h)"
  define x where "x = \<lparr>ac_tag = AsyncConnection_TAG, ac_handler_ref = h, ac_socket = fd,
               ac_socket_stream_ref = Some a, ac_active_input_buffer_ref = None,
               ac_active_output_buffer_ref = None, ac_input_message_ptr = None, ac_scratch_request = None,
               ac_read_state = READ_STATE_IDLE, ac_write_state = WRITE_STATE_IDLE,
               ac_read_buffer_size = 1000000, ac_cleanup_done_flag = False, ac_readside_posted = False,
               ac_writeside_posted = False\<rparr>"
  obtain p where p: "http_parser_new (e_llhttp_init env) (x, hdl) = Inr p" "hp_typed p"
    using http_parser_new_typed [of "e_llhttp_init env" "(x, hdl)"] by blast
  define s2 where "s2 = s\<lparr>r_app := (r_app s)\<lparr>as_handlers := (as_handlers (r_app s))(h \<mapsto> hdl),
      as_conns := (as_conns (r_app s))(Suc h \<mapsto> x), as_parsers := (as_parsers (r_app s))(Suc h \<mapsto> p),
      as_fresh := Suc (Suc (Suc h))\<rparr>\<rparr>"
  define st where "st = (rtor_stream_new a fd)\<lparr>st_context := Some (Some (Suc h)), st_both_arg := Some (Some (Suc h))\<rparr>"
  have st: "w_tag st = WIoFd_TAG" "w_fd st = fd" "w_ref st = a" "st_event_mask st = 0"
    by (simp_all add: st_def rtor_stream_new_def rtor_stream_init_def)
  have wf: "Reactor_wf s2" using inv by (simp add: core_inv_def s2_def)
  from stream_open [OF wf fd(1) _ _ st, of async_event_handler_ptr "Suc h"] fd(3,4) obtain s3 s4 m where
    s3: "rtor_stream_register st s2 = Inr s3"
    "rtor_stream_arm_both st (Some async_event_handler_ptr) (Some (Suc h)) s3 =
       Inr (st\<lparr>st_event_mask := m, st_both_handler := Some (Some async_event_handler_ptr), st_both_arg := Some (Some (Suc h))\<rparr>, s4)"
    "Reactor_wf s4" "ft_view (r_table s4) = (ft_view (r_table s))(fd \<mapsto> a)" "r_ready_list s4 = r_ready_list s" "r_app s4 = r_app s2"
    "k_open (r_kernel s4) = k_open (r_kernel s)" "r_itq s4 = r_itq s" by (auto simp: s2_def)
  define st1 where "st1 = st\<lparr>st_event_mask := m, st_both_handler := Some (Some async_event_handler_ptr), st_both_arg := Some (Some (Suc h))\<rparr>"
  note app = s3(6)
  have conn: "async_connection_new env fd h (put_handler h hdl (snd (new_addr s))) = Inr (Suc h, put_stream a st1 s4)"
  proof -
    define t where "t = snd (new_addr (put_handler h hdl (snd (new_addr s))))"
    have t: "new_addr (put_handler h hdl (snd (new_addr s))) = (Suc h, t)" "fst (new_addr t) = a"
      "get_handler t h = Inr hdl" "put_parser (Suc h) p (put_conn (Suc h) x (snd (new_addr t))) = s2"
      using h by (simp_all add: t_def new_addr_def put_handler_def a_def get_handler_def h_get_def
          put_parser_def put_conn_def s2_def)
    have "async_connection_init env (Suc h) fd h t = Inr (put_stream a st1 s4)"
      unfolding async_connection_init_def case_prod_beta Let_def t(2,3) x_def [symmetric] st_def [symmetric]
      using p(1) t(4) s3(1,2) by (simp add: st1_def)
    then show ?thesis by (simp add: async_connection_new_def t(1))
  qed
  let ?hd = "hdl\<lparr>ah_async_connection_ref := Some (Suc h)\<rparr>"
  have "opened s (Suc h) x h ?hd a st1 (put_handler h ?hd (put_stream a st1 s4))"
    using s3(3-5,8) p(2) h unfolding opened_def
    by (auto simp: put_stream_def put_handler_def app s2_def x_def intro!: exI [of _ p])
  moreover have "fresh_conn s (Suc h) x h ?hd a st1"
    using h hd fd(2,4) by (simp add: fresh_conn_def a_def x_def conn_local_def handler_ok_def stream_ok_def st1_def st
        st_def rtor_stream_new_def rtor_stream_init_def)
  moreover have "as_parsers (r_app (put_stream a st1 s4)) (Suc h) = Some p"
    "as_handler_list (r_app (put_stream a st1 s4)) = as_handler_list (r_app s)"
    "k_open (r_kernel (put_stream a st1 s4)) = k_open (r_kernel s)"
    by (simp_all add: put_stream_def app s2_def s3(7))
  ultimately show ?thesis using conn p(1) by (fastforce simp: x_def)
qed

text \<open>Every registered descriptor is still registered, and the listener is the same.\<close>

definition kept_watchers :: "'l async_st \<Rightarrow> 'l async_st \<Rightarrow> bool" where
  "kept_watchers s s' \<longleftrightarrow> (\<forall>fd. ft_view (r_table s) fd \<noteq> None \<longrightarrow> ft_view (r_table s') fd \<noteq> None) \<and>
     as_listening_watcher_ref (r_app s') = as_listening_watcher_ref (r_app s) \<and> r_itq s' = r_itq s"

text \<open>The bytes that arrive right after \<open>accept\<close> go to a parser in its first state.\<close>

definition first_bytes_ok :: "'l async_env \<Rightarrow> async_io \<Rightarrow> bool" where
  "first_bytes_ok env io \<longleftrightarrow>
     (\<forall>ctx p. http_parser_new (e_llhttp_init env) ctx = Inr p \<longrightarrow> bytes_ok env io p)"

lemma async_handler_new_ok:
  assumes inv: "core_inv {} s" and fd: "fd_ok fd" "0 < fd" "k_open (r_kernel s) fd" "ft_view (r_table s) fd = None"
    and bytes: "first_bytes_ok env io"
  shows "\<exists>s' hdl. async_handler_new env io fd s = Inr (as_fresh (r_app s), s') \<and> core_inv {} s' \<and>
     as_handlers (r_app s') = (as_handlers (r_app s))(as_fresh (r_app s) \<mapsto> hdl) \<and>
     as_handler_list (r_app s') = as_handler_list (r_app s) \<and> kept_watchers s s' \<and>
     (\<forall>d. as_conns (r_app s) d \<noteq> None \<longrightarrow> same_view d s s') \<and> (\<exists>fs. ready s' = ready s @ fs)"
proof -
  define h where "h = as_fresh (r_app s)"
  define hdl where "hdl = \<lparr>ah_tag = AsyncHandler_TAG, ah_async_connection_ref = None,
                ah_input_list = List_new NoDealloc, ah_output_list = List_new NoDealloc\<rparr>"
  let ?hd = "hdl\<lparr>ah_async_connection_ref := Some (Suc h)\<rparr>"
  have hd: "ah_tag hdl = AsyncHandler_TAG" "ah_input_list hdl = List_new NoDealloc" "ah_output_list hdl = List_new NoDealloc"
    by (simp_all add: hdl_def)
  from async_connection_new_ok [OF inv fd h_def hd, where env = env] obtain s1 x a st ctx p where
    s1: "async_connection_new env fd h (put_handler h hdl (snd (new_addr s))) = Inr (Suc h, s1)"
    "opened s (Suc h) x h ?hd a st (put_handler h ?hd s1)" "fresh_conn s (Suc h) x h ?hd a st"
    and p: "as_parsers (r_app s1) (Suc h) = Some p" "http_parser_new (e_llhttp_init env) ctx = Inr p"
    and x: "ac_read_state x = READ_STATE_IDLE" "\<not> ac_readside_posted x" "ac_write_state x = WRITE_STATE_IDLE"
     "ac_input_message_ptr x = None" and l: "as_handler_list (r_app s1) = as_handler_list (r_app s)" by blast
  let ?s = "put_handler h ?hd s1"
  from s1(2) have e: "as_conns (r_app ?s) (Suc h) = Some x" "as_handlers (r_app ?s) = (as_handlers (r_app s))(h \<mapsto> ?hd)"
    by (auto elim!: openedE)
  have kept: "kept_watchers s ?s" using s1(2) by (auto simp: kept_watchers_def elim!: openedE)
  have "bytes_ok env io p" using bytes p(2) unfolding first_bytes_ok_def by blast
  then have "as_parsers (r_app ?s) (Suc h) = Some q \<Longrightarrow> bytes_ok env io q" for q
    using p(1) by (simp add: put_handler_def)
  from async_connection_read_ok [OF opened_core [OF inv s1(2,3)] e(1) x(4) x(1-3) this] obtain s' where
    s': "async_connection_read env io (Suc h) ?s = Inr s'" "settled (Suc h) ?s s'" by blast
  have "async_handler_init env io h fd (snd (new_addr s)) = Inr s'"
    unfolding async_handler_init_def hdl_def [symmetric] using s1(1) s'(1) by simp
  then have "async_handler_new env io fd s = Inr (h, s')"
    by (simp add: async_handler_new_def new_addr_def h_def Let_def)
  moreover have "kept_watchers s s'" using kept s'(2) by (simp add: kept_watchers_def settled_def others_kept_def)
  moreover have "same_view d s s'" if d: "as_conns (r_app s) d \<noteq> None" for d
  proof -
    have "d \<noteq> Suc h" using d opened_others [OF inv s1(2,3)] by auto
    then have "same_view d s ?s" "as_conns (r_app ?s) d \<noteq> None"
      using s1(2) d by (auto simp: same_view_def posts_of_def elim!: openedE)
    then show ?thesis using s'(2) \<open>d \<noteq> Suc h\<close> same_view_trans unfolding settled_def others_kept_def by blast
  qed
  moreover have "\<exists>fs. ready s' = ready s @ fs" using s1(2) s'(2) by (auto simp: settled_def elim!: openedE)
  ultimately show ?thesis using s'(2) e(2) l unfolding h_def settled_def by (auto simp: put_handler_def)
qed

definition first_bytes_fail :: "'l async_env \<Rightarrow> async_io \<Rightarrow> failure \<Rightarrow> bool" where
  "first_bytes_fail env io e \<longleftrightarrow>
     (\<exists>ctx p. http_parser_new (e_llhttp_init env) ctx = Inr p \<and> bytes_fail env io p e)"

lemma first_bytes_fail_iff: "first_bytes_ok env io \<longleftrightarrow> (\<forall>e. \<not> first_bytes_fail env io e)"
  unfolding first_bytes_ok_def first_bytes_fail_def bytes_fail_iff by blast

lemma http_parser_new_context:
  assumes "http_parser_new l c = Inr p"
  shows "http_parser_new l d = Inr (p\<lparr>hp_handler_context := d\<rparr>)"
proof -
  obtain cb where cb: "Cbuffer_new = Inr cb" "cb_wf cb" using Cbuffer_new_wf by blast
  obtain c' where c': "Cbuffer_clear cb = Inr c'" using Cbuffer_clear_ok [OF cb(2)] by blast
  obtain m where m: "Message_new = Inr m" using Message_new_fresh by blast
  show ?thesis using assms unfolding http_parser_new_def http_parser_initialize_def cb(1) m
    using c' by (auto simp: HP_CHECK_def clear_if_set_def)
qed

lemma async_handler_new_fails:
  assumes inv: "core_inv {} s" and fd: "fd_ok fd" "0 < fd" "k_open (r_kernel s) fd" "ft_view (r_table s) fd = None"
    and fl: "first_bytes_fail env io e"
  shows "async_handler_new env io fd s = Inl e"
proof -
  define h where "h = as_fresh (r_app s)"
  define hdl where "hdl = \<lparr>ah_tag = AsyncHandler_TAG, ah_async_connection_ref = None,
                ah_input_list = List_new NoDealloc, ah_output_list = List_new NoDealloc\<rparr>"
  let ?hd = "hdl\<lparr>ah_async_connection_ref := Some (Suc h)\<rparr>"
  have hd: "ah_tag hdl = AsyncHandler_TAG" "ah_input_list hdl = List_new NoDealloc" "ah_output_list hdl = List_new NoDealloc"
    by (simp_all add: hdl_def)
  from async_connection_new_ok [OF inv fd h_def hd, where env = env] obtain s1 x a st ctx p where
    s1: "async_connection_new env fd h (put_handler h hdl (snd (new_addr s))) = Inr (Suc h, s1)"
    "opened s (Suc h) x h ?hd a st (put_handler h ?hd s1)" "fresh_conn s (Suc h) x h ?hd a st"
    and p: "as_parsers (r_app s1) (Suc h) = Some p" "http_parser_new (e_llhttp_init env) ctx = Inr p"
    and x: "ac_read_state x = READ_STATE_IDLE" "\<not> ac_readside_posted x" "ac_write_state x = WRITE_STATE_IDLE"
     "ac_input_message_ptr x = None" by blast
  from fl obtain d q where "http_parser_new (e_llhttp_init env) d = Inr q" "bytes_fail env io q e"
    by (auto simp: first_bytes_fail_def)
  with http_parser_new_context [OF p(2), of d] have fl': "bytes_fail env io p e"
    by (auto simp: bytes_fail_def parser_fails_def)
  let ?s = "put_handler h ?hd s1"
  have e: "as_conns (r_app ?s) (Suc h) = Some x" "as_parsers (r_app ?s) (Suc h) = Some p"
    using s1(2) p(1) by (auto simp: put_handler_def elim!: openedE)
  have "async_handler_init env io h fd (snd (new_addr s)) = Inl e"
    unfolding async_handler_init_def hdl_def [symmetric]
    using s1(1) async_connection_read_fails [OF opened_core [OF inv s1(2,3)] e(1) x(4) x(1-3) e(2) fl'] by simp
  then show ?thesis by (simp add: async_handler_new_def new_addr_def h_def Let_def)
qed

text \<open>
  The table of the reactor has room for the descriptors below 1024.  Nothing compares a descriptor
  with that: a larger one is registered with the kernel and then written outside the table.
\<close>

lemma async_handler_new_beyond:
  fixes env :: "'l async_env"
  assumes inv: "core_inv {} s" and fd: "\<not> fd_ok fd" "0 < fd" "k_open (r_kernel s) fd"
  shows "async_handler_new env io fd s = Inl MemFault"
proof -
  define h where "h = as_fresh (r_app s)"
  define hdl where "hdl = \<lparr>ah_tag = AsyncHandler_TAG, ah_async_connection_ref = None,
                ah_input_list = List_new NoDealloc, ah_output_list = List_new NoDealloc\<rparr>"
  have wf: "Reactor_wf s" using inv by (simp add: core_inv_def)
  have none: "ft_view (r_table s) fd = None" using ft_view_ok [of "r_table s" fd] wf fd(1) unfolding Reactor_wf_def by blast
  define t where "t = snd (new_addr (put_handler h hdl (snd (new_addr s))))"
  have t: "new_addr (put_handler h hdl (snd (new_addr s))) = (Suc h, t)" "get_handler t h = Inr hdl"
    by (simp_all add: t_def new_addr_def put_handler_def h_def get_handler_def h_get_def)
  have "rtor_stream_register st (put_parser c p (put_conn c x (snd (new_addr t)))) = Inl MemFault"
    if "w_tag st = WIoFd_TAG" "w_fd st = fd" for st c p x
  proof -
    define r where "r = put_parser c p (put_conn c x (snd (new_addr t)))"
    have r: "Reactor_wf r" "r_table r = r_table s" "r_kernel r = r_kernel s"
      using wf by (simp_all add: r_def put_parser_def put_conn_def new_addr_def t_def put_handler_def)
    have "rtor_reactor_register r fd 0 a = Inl MemFault" for a
      by (rule rtor_reactor_register_beyond [OF r(1) fd(1)]) (use r fd(3) none in simp_all)
    with that show ?thesis by (simp add: rtor_stream_register_def r_def)
  qed
  moreover have "rbind (http_parser_new (e_llhttp_init env) ctx) (\<lambda>p. Inl MemFault) = (Inl MemFault :: 'l async_st res)" for ctx :: conn_ctx
    using http_parser_new_typed [of "e_llhttp_init env" ctx] by auto
  ultimately have "async_connection_init env (Suc h) fd h t = Inl MemFault"
    using t(2) by (simp add: async_connection_init_def case_prod_beta Let_def rtor_stream_new_def rtor_stream_init_def)
  then have "async_connection_new env fd h (put_handler h hdl (snd (new_addr s))) = Inl MemFault"
    by (simp add: async_connection_new_def t(1))
  then have "async_handler_init env io h fd (snd (new_addr s)) = Inl MemFault"
    unfolding async_handler_init_def hdl_def [symmetric] by simp
  then show ?thesis by (simp add: async_handler_new_def new_addr_def h_def Let_def)
qed

lemma core_inv_accept:
  "core_inv {} s \<Longrightarrow> core_inv {} (s\<lparr>r_kernel := sys_accept (r_kernel s) fd\<rparr>)"
  unfolding core_inv_def server_ok_def conn_links_def posts_of_def
  by (simp add: Reactor_wf_def sys_accept_def)

text \<open>What \<open>accept\<close> may return: nothing to accept, or a new descriptor the table has room for.\<close>

definition accept_ok :: "async_io \<Rightarrow> 'l async_st \<Rightarrow> bool" where
  "accept_ok io s \<longleftrightarrow> (if io_accept io \<le> 0 then io_errno io = EAGAIN
     else fd_ok (io_accept io) \<and> \<not> k_open (r_kernel s) (io_accept io))"

lemma on_event_listening_ok:
  assumes inv: "async_inv s" and acc: "accept_ok io s" and bytes: "0 < io_accept io \<longrightarrow> first_bytes_ok env io"
  shows "\<exists>s'. on_event_listening env io (as_listening_watcher_ref (r_app s)) s = Inr s' \<and> async_inv s' \<and> kept_watchers s s' \<and>
     (\<forall>d. as_conns (r_app s) d \<noteq> None \<longrightarrow> same_view d s s') \<and> (\<exists>fs. ready s' = ready s @ fs)"
proof -
  have core: "core_inv {} s" and srv: "server_ok s" using inv by (simp_all add: async_inv_def core_inv_def)
  have lw: "ls_arg (as_listening_watcher_ref (r_app s)) = Some (as_ref (r_app s))" "as_tag (r_app s) = AsyncServer_TAG"
    using srv unfolding server_ok_def by blast+
  show ?thesis
  proof (cases "io_accept io \<le> 0")
    case True
    with lw acc inv show ?thesis by (simp add: on_event_listening_def accept_ok_def kept_watchers_def)
  next
    case False
    let ?fd = "io_accept io"
    let ?s = "s\<lparr>r_kernel := sys_accept (r_kernel s) ?fd\<rparr>"
    have fd: "fd_ok ?fd" "\<not> k_open (r_kernel s) ?fd" using acc False by (simp_all add: accept_ok_def)
    have "ft_view (r_table s) ?fd = None"
      using core fd(2) unfolding core_inv_def Reactor_wf_def by (metis not_None_eq)
    moreover have op: "k_open (r_kernel ?s) ?fd" by (simp add: sys_accept_def)
    ultimately obtain s1 hdl where s1: "async_handler_new env io ?fd ?s = Inr (as_fresh (r_app s), s1)" "core_inv {} s1"
      "as_handlers (r_app s1) = (as_handlers (r_app s))(as_fresh (r_app s) \<mapsto> hdl)"
      "as_handler_list (r_app s1) = as_handler_list (r_app s)" "kept_watchers ?s s1"
      "\<And>d. as_conns (r_app s) d \<noteq> None \<Longrightarrow> same_view d s s1" "\<exists>fs. ready s1 = ready s @ fs"
      using async_handler_new_ok [OF core_inv_accept [OF core], of ?fd ?fd env io] fd(1) False bytes by auto
    from inv obtain as where as: "List_inv (as_handler_list (r_app s)) as" "distinct (map snd as)"
      "set (map snd as) = dom (as_handlers (r_app s))" "l_dealloc (as_handler_list (r_app s)) = NullingDealloc"
      by (auto simp: async_inv_def list_ok_def)
    from List_add_back_inv [OF as(1), of "as_fresh (r_app s)"] as(4) obtain l n where
      l: "List_add_back (as_handler_list (r_app s)) (as_fresh (r_app s)) = Inr l"
      "List_inv l (as @ [(n, as_fresh (r_app s))])" "l_dealloc l = NullingDealloc" by auto
    define s2 where "s2 = s1\<lparr>r_app := (r_app s1)\<lparr>as_handler_list := l\<rparr>\<rparr>"
    have eq: "on_event_listening env io (as_listening_watcher_ref (r_app s)) s = Inr s2"
      using lw False s1(1,4) l(1) op by (simp add: on_event_listening_def async_socket_set_nonblocking_def Let_def s2_def)
    have "core_inv {} s2" using s1(2) unfolding core_inv_def server_ok_def conn_links_def posts_of_def
      by (simp add: s2_def)
    moreover have "as_fresh (r_app s) \<notin> set (map snd as)"
      using server_ok_fresh(1) [OF srv, of "as_fresh (r_app s)"] unfolding as(3) by auto
    then have "list_ok s2" using as(2,3) l(2,3) s1(3) unfolding list_ok_def
      by (intro exI [of _ "as @ [(n, as_fresh (r_app s))]"]) (auto simp: s2_def)
    moreover have "kept_watchers s s2" using s1(5) by (simp add: kept_watchers_def s2_def)
    moreover have "same_view d s s2" if "as_conns (r_app s) d \<noteq> None" for d using s1(6) [OF that] by (simp add: s2_def)
    moreover have "\<exists>fs. ready s2 = ready s @ fs" using s1(7) by (simp add: s2_def)
    ultimately show ?thesis using eq by (auto simp: async_inv_def)
  qed
qed

text \<open>The three ways in which a call of \<open>on_event_listening\<close> fails.\<close>

definition accept_fails :: "'l async_env \<Rightarrow> async_io \<Rightarrow> failure \<Rightarrow> bool" where
  "accept_fails env io e \<longleftrightarrow>
     (if io_accept io \<le> 0 then io_errno io \<noteq> EAGAIN \<and> e = Assertion
      else if \<not> fd_ok (io_accept io) then e = MemFault
      else first_bytes_fail env io e)"

lemma on_event_listening_fails:
  assumes inv: "async_inv s" and new: "0 < io_accept io \<longrightarrow> \<not> k_open (r_kernel s) (io_accept io)" and fl: "accept_fails env io e"
  shows "on_event_listening env io (as_listening_watcher_ref (r_app s)) s = Inl e"
proof -
  have core: "core_inv {} s" and srv: "server_ok s" using inv by (simp_all add: async_inv_def core_inv_def)
  have lw: "ls_arg (as_listening_watcher_ref (r_app s)) = Some (as_ref (r_app s))" "as_tag (r_app s) = AsyncServer_TAG"
    using srv unfolding server_ok_def by blast+
  show ?thesis
  proof (cases "io_accept io \<le> 0")
    case True
    with lw fl show ?thesis by (simp add: on_event_listening_def accept_fails_def)
  next
    case False
    let ?fd = "io_accept io" and ?s = "s\<lparr>r_kernel := sys_accept (r_kernel s) (io_accept io)\<rparr>"
    have "ft_view (r_table s) ?fd = None"
      using core new False unfolding core_inv_def Reactor_wf_def by (metis not_None_eq not_le)
    then have "async_handler_new env io ?fd ?s = Inl e"
      using fl False async_handler_new_fails [OF core_inv_accept [OF core], of ?fd ?fd env io e]
        async_handler_new_beyond [OF core_inv_accept [OF core], of ?fd ?fd env io]
      by (auto simp: accept_fails_def sys_accept_def split: if_splits)
    then show ?thesis using lw False
      by (simp add: on_event_listening_def async_socket_set_nonblocking_def Let_def sys_accept_def)
  qed
qed

section \<open>Steps of the server\<close>

text \<open>
  One event from \<open>epoll_wait\<close>, one iteration of the loop over the ready list, or an answer that
  the application gives some time after \<open>process_request\<close> has returned.
\<close>

datatype async_step = Event int "32 word" async_io | Run async_io | Respond addr Message Message

definition run_one :: "'l async_env \<Rightarrow> async_io \<Rightarrow> 'l async_st \<Rightarrow> 'l async_st res" where
  "run_one env io s =
     rbind (functor_list_remove (r_ready_list s)) (\<lambda>(func, l).
     rbind (Functor_call (async_code env io) func (s\<lparr>r_ready_list := l, r_runloop_executing := True\<rparr>)) (\<lambda>s1.
     Inr (s1\<lparr>r_runloop_executing := False\<rparr>)))"

fun server_step :: "'l async_env \<Rightarrow> async_step \<Rightarrow> 'l async_st \<Rightarrow> 'l async_st res" where
  "server_step env (Event fd ev io) s = dispatch_event (async_handlers env io) (fd, ev) s"
| "server_step env (Run io) s = run_one env io s"
| "server_step env (Respond h request response) s = async_handler_handle_response env h request response s"

text \<open>
  What the kernel and the application do: events come only for registered descriptors, \<open>accept\<close>
  returns a descriptor that was not open, and an answer is given only to a request that is being
  processed, in a form that can be printed.
\<close>

fun step_permitted :: "'l async_env \<Rightarrow> async_step \<Rightarrow> 'l async_st \<Rightarrow> bool" where
  "step_permitted env (Event fd ev io) s \<longleftrightarrow> ft_view (r_table s) fd \<noteq> None \<and>
     (fd = w_fd (as_listening_watcher_ref (r_app s)) \<longrightarrow> 0 < io_accept io \<longrightarrow> \<not> k_open (r_kernel s) (io_accept io))"
| "step_permitted env (Run io) s \<longleftrightarrow> ready s \<noteq> []"
| "step_permitted env (Respond h request response) s \<longleftrightarrow>
     (\<exists>c x. as_conns (r_app s) c = Some x \<and> ac_handler_ref x = h \<and> in_phase Processing c x (posts_of s c x)) \<and>
     msg_wf request \<and> sendable env response"

text \<open>
  The ways in which a step can fail: \<open>accept\<close> returns an error other than \<open>EAGAIN\<close> (an assertion
  of the server), or a descriptor the table has no room for (a write outside the table), or bytes
  arrive, with \<open>accept\<close> or for the function that is run, on which a callback of the parser fails.
\<close>

fun step_fails :: "'l async_env \<Rightarrow> async_step \<Rightarrow> 'l async_st \<Rightarrow> failure \<Rightarrow> bool" where
  "step_fails env (Event fd ev io) s e \<longleftrightarrow> fd = w_fd (as_listening_watcher_ref (r_app s)) \<and> accept_fails env io e"
| "step_fails env (Run io) s e \<longleftrightarrow>
     (\<exists>f rest p. ready s = f # rest \<and> (fn_f f = postable_reader_ptr \<or> fn_f f = postable_write_complete_ptr) \<and>
        as_parsers (r_app s) (fn_arg f) = Some p \<and> bytes_fail env io p e)"
| "step_fails env (Respond h request response) s e \<longleftrightarrow> False"

text \<open>The steps that are permitted and do not fail.\<close>

fun step_allowed :: "'l async_env \<Rightarrow> async_step \<Rightarrow> 'l async_st \<Rightarrow> bool" where
  "step_allowed env (Event fd ev io) s \<longleftrightarrow> ft_view (r_table s) fd \<noteq> None \<and>
     (fd = w_fd (as_listening_watcher_ref (r_app s)) \<longrightarrow> accept_ok io s \<and> (0 < io_accept io \<longrightarrow> first_bytes_ok env io))"
| "step_allowed env (Run io) s \<longleftrightarrow>
     (\<exists>f rest. ready s = f # rest \<and> (fn_f f = postable_reader_ptr \<or> fn_f f = postable_write_complete_ptr \<longrightarrow>
        (\<forall>p. as_parsers (r_app s) (fn_arg f) = Some p \<longrightarrow> bytes_ok env io p)))"
| "step_allowed env (Respond h request response) s \<longleftrightarrow>
     (\<exists>c x. as_conns (r_app s) c = Some x \<and> ac_handler_ref x = h \<and> in_phase Processing c x (posts_of s c x)) \<and>
     msg_wf request \<and> sendable env response"

lemma step_allowed_iff: "step_allowed env stp s \<longleftrightarrow> step_permitted env stp s \<and> (\<forall>e. \<not> step_fails env stp s e)"
proof (cases stp)
  case (Event fd ev io)
  then show ?thesis by (auto simp: accept_ok_def accept_fails_def first_bytes_fail_iff)
next
  case (Run io)
  then show ?thesis by (cases "ready s") (auto simp: bytes_fail_iff)
qed auto

text \<open>
  The steps of one connection among those of all: events on its descriptor that it waits for, the
  functions posted for it, answers to its handler.
\<close>

fun own_step :: "addr \<Rightarrow> async_step \<Rightarrow> 'l async_st \<Rightarrow> bool" where
  "own_step c (Event fd ev io) s \<longleftrightarrow> (case as_conns (r_app s) c of None \<Rightarrow> False | Some x \<Rightarrow> fd = ac_socket x \<and> wakes ev x)"
| "own_step c (Run io) s \<longleftrightarrow>
     (case (as_conns (r_app s) c, ready s) of (Some x, f # _) \<Rightarrow> mine c (ac_handler_ref x) f | _ \<Rightarrow> False)"
| "own_step c (Respond h request response) s \<longleftrightarrow>
     (case as_conns (r_app s) c of None \<Rightarrow> False | Some x \<Rightarrow> h = ac_handler_ref x)"

text \<open>
  What a step leaves of the rest: the views of the other connections, and the posted functions in
  their order, less the one that a step of the loop takes from the front; new ones go to the end.
\<close>

fun is_run :: "async_step \<Rightarrow> bool" where
  "is_run (Run io) = True"
| "is_run stp = False"

definition foreign_kept :: "async_step \<Rightarrow> 'l async_st \<Rightarrow> 'l async_st \<Rightarrow> bool" where
  "foreign_kept stp s s' \<longleftrightarrow> (\<forall>d. as_conns (r_app s) d \<noteq> None \<longrightarrow> \<not> own_step d stp s \<longrightarrow> same_view d s s') \<and>
     (\<exists>fs. ready s' = (if is_run stp then tl (ready s) else ready s) @ fs) \<and>
     as_listening_watcher_ref (r_app s') = as_listening_watcher_ref (r_app s) \<and> r_itq s' = r_itq s"

lemma others_foreign: "own_step c stp s \<Longrightarrow> others_kept c s s' \<Longrightarrow>
    \<exists>fs. ready s' = (if is_run stp then tl (ready s) else ready s) @ fs \<Longrightarrow> foreign_kept stp s s'"
  by (auto simp: foreign_kept_def others_kept_def)

lemma core_inv_frame:
  assumes "core_inv {} s" and "r_app s' = r_app s" and "r_table s' = r_table s" and "r_ready_list s' = r_ready_list s"
    and "Reactor_wf s'"
  shows "core_inv {} s'"
  using assms unfolding core_inv_def server_ok_def conn_links_def posts_of_def by simp

lemma async_inv_executing [simp]: "async_inv (s\<lparr>r_runloop_executing := b\<rparr>) \<longleftrightarrow> async_inv s"
  unfolding async_inv_def core_inv_def server_ok_def conn_links_def posts_of_def list_ok_def by simp

lemma settled_inv: "settled c s s' \<Longrightarrow> list_ok s \<Longrightarrow> async_inv s'"
  by (simp add: settled_def async_inv_def list_ok_def)

lemma settled_frame: "settled c t s \<Longrightarrow> list_ok t \<Longrightarrow> async_inv s \<and> others_kept c t s \<and> (\<exists>fs. ready s = ready t @ fs)"
  using settled_inv by (auto simp: settled_def)

lemma take_functor:
  assumes inv: "core_inv {} s" and rd: "ready s = f # rest"
    and l: "fl_contents l = rest" "Reactor_wf (s\<lparr>r_ready_list := l, r_runloop_executing := True\<rparr>)"
  shows "\<exists>c x ph. as_conns (r_app s) c = Some x \<and> ac_input_message_ptr x = None \<and> in_phase ph c x [f] \<and>
     core_inv {c} (s\<lparr>r_ready_list := l, r_runloop_executing := True\<rparr>) \<and>
     others_kept c s (s\<lparr>r_ready_list := l, r_runloop_executing := True\<rparr>)"
proof -
  let ?s = "s\<lparr>r_ready_list := l, r_runloop_executing := True\<rparr>"
  obtain c x where c: "as_conns (r_app s) c = Some x" "mine c (ac_handler_ref x) f"
    using inv rd unfolding core_inv_def by (metis list.set_intros(1))
  obtain ph where ph: "in_phase ph c x (posts_of s c x)" "ac_input_message_ptr x = None" "conn_local x" "conn_links s c x"
    using core_inv_conn [OF inv c(1)] by blast
  have "posts_of s c x = f # filter (mine c (ac_handler_ref x)) rest" using c(2) by (simp add: posts_of_def rd)
  with in_phase_length [OF ph(1)] have ps: "posts_of s c x = [f]" "posts_of ?s c x = []"
    by (simp_all add: posts_of_def l(1))
  have other: "posts_of ?s d y = posts_of s d y" if d: "as_conns (r_app s) d = Some y" "d \<noteq> c" for d y
  proof -
    have "conn_links s d y" using inv d(1) unfolding core_inv_def by blast
    from handlers_differ [OF this ph(4) d(2)] have "\<not> mine d (ac_handler_ref y) f"
      using mine_other [OF c(2) d(2)] by blast
    then show ?thesis by (simp add: posts_of_def rd l(1))
  qed
  have "core_inv {c} ?s"
    unfolding core_inv_def
  proof (intro conjI allI impI ballI)
    show "server_ok ?s" using inv by (simp add: core_inv_def server_ok_def)
    show "Reactor_wf ?s" by (rule l(2))
    fix g assume "g \<in> set (ready ?s)"
    then show "\<exists>c x. as_conns (r_app ?s) c = Some x \<and> mine c (ac_handler_ref x) g"
      using inv rd l(1) unfolding core_inv_def by simp
  next
    fix d y assume d: "as_conns (r_app ?s) d = Some y"
    then have d': "as_conns (r_app s) d = Some y" by simp
    then have "conn_local y" "conn_links s d y" using inv unfolding core_inv_def by blast+
    then show "conn_local y" "conn_links ?s d y" by (simp_all add: conn_links_def)
    show "if d \<in> {c} then posts_of ?s d y = [] else ac_input_message_ptr y = None \<and> (\<exists>ph. in_phase ph d y (posts_of ?s d y))"
      using ps(2) c(1) d' other [OF d'] inv unfolding core_inv_def by auto
  qed
  moreover have "others_kept c s ?s" using other by (auto simp: others_kept_def same_view_def)
  ultimately show ?thesis using c(1) ph(1,2) ps(1) by metis
qed

lemma run_one_ok:
  assumes inv: "async_inv s" and app: "app_ok env" and ok: "step_allowed env (Run io) s"
  shows "\<exists>s'. run_one env io s = Inr s' \<and> async_inv s' \<and> foreign_kept (Run io) s s'"
proof -
  from ok obtain f rest where rd: "ready s = f # rest" and
    bytes: "\<And>p. fn_f f = postable_reader_ptr \<or> fn_f f = postable_write_complete_ptr \<Longrightarrow>
      as_parsers (r_app s) (fn_arg f) = Some p \<Longrightarrow> bytes_ok env io p" by auto
  have core: "core_inv {} s" and wf: "Reactor_wf s" and ls: "list_ok s"
    using inv by (simp_all add: async_inv_def core_inv_def)
  obtain l where l: "functor_list_remove (r_ready_list s) = Inr (f, l)" "fl_contents l = rest"
    "Reactor_wf (s\<lparr>r_ready_list := l, r_runloop_executing := True\<rparr>)" using run_ready_step [OF wf rd] by blast
  define t where "t = s\<lparr>r_ready_list := l, r_runloop_executing := True\<rparr>"
  from take_functor [OF core rd l(2,3)] obtain c x ph where
    c: "as_conns (r_app t) c = Some x" "ac_input_message_ptr x = None" "in_phase ph c x [f]" "core_inv {c} t"
    "others_kept c s t" by (auto simp: t_def)
  have lt: "list_ok t" using ls by (simp add: list_ok_def t_def)
  have bt: "fn_f f = postable_reader_ptr \<or> fn_f f = postable_write_complete_ptr \<Longrightarrow> as_parsers (r_app t) c = Some p \<Longrightarrow>
      fn_arg f = c \<Longrightarrow> bytes_ok env io p" for p using bytes by (auto simp: t_def)
  have "\<exists>s1. async_code env io (fn_f f) (fn_arg f) t = Inr s1 \<and> async_inv s1 \<and> others_kept c t s1 \<and>
      (\<exists>fs. ready s1 = ready t @ fs)"
  proof (cases ph)
    case Reading
    with c(3) have f: "fn_f f = postable_reader_ptr" "fn_arg f = c" by (auto simp: in_phase_def)
    from postable_reader_ok [OF c(4,1,2) c(3) [unfolded Reading] bt] f settled_frame [OF _ lt] show ?thesis
      by (auto simp: async_code_def)
  next
    case Requested
    with c(3) have f: "fn_f f = postable_handle_request_ptr" "fn_arg f = ac_handler_ref x" by (auto simp: in_phase_def)
    from postable_handle_request_ok [OF c(4,1,2) c(3) [unfolded Requested] app] f settled_frame [OF _ lt] show ?thesis
      by (auto simp: async_code_def async_ptrs)
  next
    case Writing
    with c(3) have f: "fn_f f = async_postable_writer_ptr" "fn_arg f = c" by (auto simp: in_phase_def)
    from async_postable_writer_ok [OF c(4,1,2) c(3) [unfolded Writing], of io] f settled_frame [OF _ lt] show ?thesis
      by (auto simp: async_code_def async_ptrs)
  next
    case Written
    with c(3) have f: "fn_f f = postable_write_complete_ptr" "fn_arg f = c" by (auto simp: in_phase_def)
    from postable_write_complete_ok [OF c(4,1,2) c(3) [unfolded Written] bt] f settled_frame [OF _ lt] show ?thesis
      by (auto simp: async_code_def async_ptrs)
  next
    case Closing
    with c(3) have f: "fn_f f = read_close_connection_ptr \<or> fn_f f = write_close_connection_ptr"
      "fn_arg f = ac_handler_ref x" by (auto simp: in_phase_def)
    from postable_close_connection_ok [OF c(4,1) lt] f show ?thesis
      by (auto simp: async_code_def async_ptrs)
  qed (use c(3) in \<open>auto simp: in_phase_def\<close>)
  then obtain s1 where s1: "async_code env io (fn_f f) (fn_arg f) t = Inr s1" "async_inv s1" "others_kept c t s1"
    "\<exists>fs. ready s1 = ready t @ fs" by blast
  have "own_step c (Run io) s" using c(1) in_phase_mine [OF c(3)] rd by (simp add: t_def split: if_splits)
  then have "foreign_kept (Run io) s (s1\<lparr>r_runloop_executing := False\<rparr>)"
    using others_foreign others_kept_trans [OF c(5) s1(3)] s1(4) l(2) rd
    by (fastforce simp: foreign_kept_def others_kept_def t_def)
  then show ?thesis using l(1) s1(1,2) by (simp add: run_one_def Functor_call_def t_def [symmetric])
qed

lemma dispatch_ok:
  assumes inv: "async_inv s" and ok: "step_allowed env (Event fd ev io) s"
  shows "\<exists>s'. dispatch_event (async_handlers env io) (fd, ev) s = Inr s' \<and> async_inv s' \<and> kept_watchers s s' \<and>
     (fd \<noteq> w_fd (as_listening_watcher_ref (r_app s)) \<longrightarrow> r_kernel s' = r_kernel s) \<and> foreign_kept (Event fd ev io) s s'"
proof -
  let ?lw = "as_listening_watcher_ref (r_app s)"
  have core: "core_inv {} s" and wf: "Reactor_wf s" and srv: "server_ok s" and ls: "list_ok s"
    using inv by (simp_all add: async_inv_def core_inv_def)
  from ok obtain w where w: "ft_view (r_table s) fd = Some w" by auto
  have look: "FdTable_lookup (r_table s) fd = Inr w" using fdt.look_some w wf by (auto simp: Reactor_wf_def)
  have "\<exists>s'. async_handlers env io w ev s = Inr s' \<and> async_inv s' \<and> kept_watchers s s' \<and>
      (fd \<noteq> w_fd ?lw \<longrightarrow> r_kernel s' = r_kernel s) \<and> foreign_kept (Event fd ev io) s s'"
  proof (cases "w = w_ref ?lw")
    case True
    have fd: "fd = w_fd ?lw"
    proof (rule ccontr)
      assume "fd \<noteq> w_fd ?lw"
      then obtain c x where c: "as_conns (r_app s) c = Some x" "ac_socket_stream_ref x = Some w"
        using server_ok_table [OF srv w] by blast
      then have "as_streams (r_app s) w \<noteq> None" using core unfolding core_inv_def conn_links_def by fastforce
      then show False using server_ok_listener(2) [OF srv] True by simp
    qed
    with ok have "accept_ok io s" "0 < io_accept io \<longrightarrow> first_bytes_ok env io" by auto
    from on_event_listening_ok [OF inv this] show ?thesis using srv True fd
      by (auto simp: foreign_kept_def kept_watchers_def async_handlers_def Let_def listener_handler_def server_ok_def)
  next
    case False
    then obtain c x where c: "as_conns (r_app s) c = Some x" "ac_socket_stream_ref x = Some w" "ac_socket x = fd"
      using server_ok_table [OF srv w] by blast
    then obtain st where st: "as_streams (r_app s) w = Some st" "stream_ok st w c (ac_socket x)"
      using core unfolding core_inv_def conn_links_def by (metis option.inject)
    from async_event_handler_ok [OF core c(1) st(2)] obtain s' where
      s': "async_event_handler st (ucast ev) s = Inr s'" "settled c s s'" by blast
    have "async_handlers env io w ev s = Inr s'"
      using False st s'(1) by (simp add: async_handlers_def Let_def h_get_def stream_handler_def stream_ok_def)
    moreover have "kept_watchers s s'" "r_kernel s' = r_kernel s" using s'(2) by (simp_all add: settled_def kept_watchers_def others_kept_def)
    moreover have "foreign_kept (Event fd ev io) s s'"
    proof (cases "wakes ev x")
      case True
      then show ?thesis by (intro others_foreign [of c]) (use c s'(2) in \<open>auto simp: settled_def\<close>)
    next
      case False
      then have "s' = s" using async_event_handler_idle [OF core c(1) st(2)] s'(1) by simp
      then show ?thesis by (simp add: foreign_kept_def)
    qed
    ultimately show ?thesis using settled_inv [OF s'(2) ls] by blast
  qed
  then obtain s' where s': "async_handlers env io w ev s = Inr s'" "async_inv s'" "kept_watchers s s'"
    "fd \<noteq> w_fd ?lw \<longrightarrow> r_kernel s' = r_kernel s" "foreign_kept (Event fd ev io) s s'" by blast
  then have "Reactor_wf s'" by (simp add: async_inv_def core_inv_def)
  with s' look wf show ?thesis by (simp add: dispatch_event_def)
qed

lemma respond_ok:
  assumes inv: "async_inv s" and ok: "step_allowed env (Respond h request response) s"
  shows "\<exists>s'. async_handler_handle_response env h request response s = Inr s' \<and> async_inv s' \<and>
     foreign_kept (Respond h request response) s s'"
proof -
  have core: "core_inv {} s" and ls: "list_ok s" using inv by (simp_all add: async_inv_def)
  from ok obtain c x where c: "as_conns (r_app s) c = Some x" "ac_handler_ref x = h"
    "in_phase Processing c x (posts_of s c x)" and m: "msg_wf request" "sendable env response" by auto
  then have none: "posts_of s c x = []" by (simp add: in_phase_def)
  have im: "ac_input_message_ptr x = None" using core c(1) unfolding core_inv_def by simp
  have own: "own_step c (Respond h request response) s" using c by simp
  from handle_response_ok [OF running_start [OF core_inv_busy [OF core c(1) none] c(1)] c(3) [unfolded none] im m] c(2)
    settled_frame [OF _ ls] others_foreign [OF own] show ?thesis by fastforce
qed

lemma server_step_ok:
  assumes "async_inv s" and "app_ok env" and "step_allowed env stp s"
  shows "\<exists>s'. server_step env stp s = Inr s' \<and> async_inv s' \<and> foreign_kept stp s s'"
proof (cases stp)
  case (Event fd ev io)
  with dispatch_ok [OF assms(1), of env fd ev io] assms(3) show ?thesis by auto
next
  case (Run io)
  with run_one_ok [OF assms(1,2)] assms(3) show ?thesis by (simp del: step_allowed.simps)
next
  case (Respond h req resp)
  with respond_ok [OF assms(1)] assms(3) show ?thesis by (simp del: step_allowed.simps)
qed

lemma run_one_fails:
  assumes inv: "async_inv s" and fl: "step_fails env (Run io) s e"
  shows "run_one env io s = Inl e"
proof -
  from fl obtain f rest p where rd: "ready s = f # rest" and
    f: "fn_f f = postable_reader_ptr \<or> fn_f f = postable_write_complete_ptr" and
    p: "as_parsers (r_app s) (fn_arg f) = Some p" "bytes_fail env io p e" by auto
  have core: "core_inv {} s" and wf: "Reactor_wf s" using inv by (simp_all add: async_inv_def core_inv_def)
  obtain l where l: "functor_list_remove (r_ready_list s) = Inr (f, l)" "fl_contents l = rest"
    "Reactor_wf (s\<lparr>r_ready_list := l, r_runloop_executing := True\<rparr>)" using run_ready_step [OF wf rd] by blast
  define t where "t = s\<lparr>r_ready_list := l, r_runloop_executing := True\<rparr>"
  from take_functor [OF core rd l(2,3)] obtain c x ph where
    c: "as_conns (r_app t) c = Some x" "ac_input_message_ptr x = None" "in_phase ph c x [f]" "core_inv {c} t"
    by (auto simp: t_def)
  have pt: "fn_arg f = c \<Longrightarrow> as_parsers (r_app t) c = Some p" using p(1) by (simp add: t_def)
  have "async_code env io (fn_f f) (fn_arg f) t = Inl e"
  proof (cases ph)
    case Reading
    with c(3) have g: "fn_f f = postable_reader_ptr" "fn_arg f = c" by (auto simp: in_phase_def)
    from postable_reader_fails [OF c(4,1,2) c(3) [unfolded Reading] pt [OF g(2)] p(2)] g show ?thesis
      by (simp add: async_code_def)
  next
    case Written
    with c(3) have g: "fn_f f = postable_write_complete_ptr" "fn_arg f = c" by (auto simp: in_phase_def)
    from postable_write_complete_fails [OF c(4,1,2) c(3) [unfolded Written] pt [OF g(2)] p(2)] g show ?thesis
      by (simp add: async_code_def async_ptrs)
  qed (use c(3) f in \<open>auto simp: in_phase_def async_ptrs\<close>)
  then show ?thesis using l(1) by (simp add: run_one_def Functor_call_def t_def [symmetric])
qed

lemma dispatch_fails:
  assumes inv: "async_inv s" and ok: "step_permitted env (Event fd ev io) s" and fl: "step_fails env (Event fd ev io) s e"
  shows "dispatch_event (async_handlers env io) (fd, ev) s = Inl e"
proof -
  let ?lw = "as_listening_watcher_ref (r_app s)"
  have wf: "Reactor_wf s" and srv: "server_ok s" using inv by (simp_all add: async_inv_def core_inv_def)
  have fd: "fd = w_fd ?lw" "accept_fails env io e" using fl by simp_all
  have "ft_view (r_table s) fd = Some (w_ref ?lw)" using server_ok_listener(1) [OF srv] fd(1) by simp
  then have "FdTable_lookup (r_table s) fd = Inr (w_ref ?lw)" using fdt.look_some wf by (auto simp: Reactor_wf_def)
  moreover have "async_handlers env io (w_ref ?lw) ev s = Inl e"
    using on_event_listening_fails [OF inv _ fd(2)] ok fd(1) srv
    by (simp add: async_handlers_def Let_def listener_handler_def server_ok_def)
  ultimately show ?thesis using wf by (simp add: dispatch_event_def)
qed

lemma server_step_fails:
  assumes "async_inv s" and "step_permitted env stp s" and "step_fails env stp s e"
  shows "server_step env stp s = Inl e"
  using assms dispatch_fails [OF assms(1)] run_one_fails [OF assms(1)] by (cases stp) (auto simp del: step_permitted.simps step_fails.simps(1,2))

lemma server_step_fails_iff:
  assumes "async_inv s" and "app_ok env" and "step_permitted env stp s"
  shows "server_step env stp s = Inl e \<longleftrightarrow> step_fails env stp s e"
  using server_step_fails [OF assms(1,3)] server_step_ok [OF assms(1,2)] assms(3) step_allowed_iff [of env stp s]
  by (metis sum.distinct(1) sum.inject(1))

section \<open>Reachable states\<close>

text \<open>The states a started server can get into: any permitted step that returns leads to the next.\<close>

inductive reachable :: "'l async_env \<Rightarrow> 'l async_st \<Rightarrow> 'l async_st \<Rightarrow> bool" for env s0 where
  start: "reachable env s0 s0"
| step: "reachable env s0 s \<Longrightarrow> step_permitted env stp s \<Longrightarrow> server_step env stp s = Inr s' \<Longrightarrow> reachable env s0 s'"

lemma reachable_allowed:
  "reachable env s0 s \<Longrightarrow> step_allowed env stp s \<Longrightarrow> server_step env stp s = Inr s' \<Longrightarrow> reachable env s0 s'"
  by (rule reachable.step) (auto simp: step_allowed_iff)

lemma returned_allowed:
  assumes "async_inv s" and "step_permitted env stp s" and "server_step env stp s = Inr s'"
  shows "step_allowed env stp s"
  using server_step_fails [OF assms(1,2)] assms(2,3) by (auto simp: step_allowed_iff)

definition started :: "addr \<Rightarrow> int \<Rightarrow> int \<Rightarrow> int \<Rightarrow> kernel \<Rightarrow> 'l async_st res" where
  "started sref port listen_socket epoll_fd k =
     rbind (AsyncServer_new_with_socket sref port listen_socket epoll_fd k) AsyncServer_start"

lemma started_inv:
  assumes "epoll_fd \<noteq> - 1" and "fd_ok fd" and "k_open k fd"
  shows "\<exists>s :: 'l async_st. started sref port fd epoll_fd k = Inr s \<and> async_inv s \<and> ready s = [] \<and>
     as_conns (r_app s) = Map.empty \<and> as_listening_watcher_ref (r_app s) = listener_set (rtor_listener_new (Suc sref) fd)
       (Some on_event_listening_ptr) (Some sref) \<and> k_open (r_kernel s) = k_open k \<and> r_itq s = None"
proof -
  define a :: "'l AsyncServer" where "a = \<lparr>as_tag = AsyncServer_TAG, as_ref = sref, as_port = port, as_listening_socket_fd = fd,
        as_listening_watcher_ref = rtor_listener_new (Suc sref) fd,
        as_handler_list = List_new NullingDealloc, as_handlers = Map.empty, as_conns = Map.empty,
        as_streams = Map.empty, as_parsers = Map.empty, as_fresh = Suc (Suc sref)\<rparr>"
  from rtor_reactor_new_wf [OF assms(1), of k a] obtain s0 where s0: "rtor_reactor_new epoll_fd k a = Inr s0"
    "Reactor_wf s0" "ready s0 = []" "ft_view (r_table s0) = Map.empty" "k_open (r_kernel s0) = k_open k" "r_app s0 = a"
    "r_itq s0 = None" by blast
  define lw where "lw = listener_set (rtor_listener_new (Suc sref) fd) (Some on_event_listening_ptr) (Some sref)"
  have lw: "w_fd lw = fd" "w_ref lw = Suc sref" "w_tag lw = WListenerFd_TAG" "ls_evhandler lw = Some on_event_listening_ptr"
    "ls_arg lw = Some sref"
    by (simp_all add: lw_def listener_set_def rtor_listener_new_def rtor_listener_init_def)
  from rtor_reactor_register_ok [OF s0(2) assms(2), of "EPOLLIN OR EPOLLEXCLUSIVE" "Suc sref"] s0(4,5,7) assms(3)
  obtain s1 where s1: "rtor_reactor_register s0 fd (EPOLLIN OR EPOLLEXCLUSIVE) (Suc sref) = Inr s1" "Reactor_wf s1"
    "ft_view (r_table s1) = Map.empty(fd \<mapsto> Suc sref)" "r_ready_list s1 = r_ready_list s0" "k_open (r_kernel s1) = k_open k"
    "r_itq s1 = None" by auto
  have af: "as_tag a = AsyncServer_TAG" "as_ref a = sref" "as_listening_watcher_ref a = rtor_listener_new (Suc sref) fd"
    by (simp_all add: a_def)
  have app: "r_app s1 = a" using rtor_reactor_register_app [OF s1(1)] s0(6) by simp
  define s where "s = s1\<lparr>r_app := a\<lparr>as_listening_watcher_ref := lw\<rparr>\<rparr>"
  have "rtor_listener_register (rtor_listener_new (Suc sref) fd) (Some on_event_listening_ptr) (Some sref) s0 = Inr (lw, s1)"
    using s1(1) lw unfolding rtor_listener_register_def lw_def [symmetric]
    by (simp add: rtor_listener_verify_def rtor_listener_new_def rtor_listener_init_def)
  then have st: "started sref port fd epoll_fd k = Inr s"
    unfolding started_def AsyncServer_new_with_socket_def AsyncServer_init_with_socket_def a_def [symmetric] s0(1)
    by (simp add: AsyncServer_start_def s0(6) app s_def af)
  have "async_inv s"
    using s1 s0(3) lw List_new_inv [of NullingDealloc]
    unfolding async_inv_def core_inv_def server_ok_def list_ok_def
    by (auto simp: s_def a_def List_new_def List_init_def intro!: exI [of _ "[]"] split: if_splits)
  then show ?thesis using st s0(3) s1(4-6) by (auto simp: s_def a_def lw_def)
qed

lemma reachable_inv:
  assumes "reachable env s0 s" and "async_inv s0" and "app_ok env"
  shows "async_inv s"
  using assms
proof (induction rule: reachable.induct)
  case (step s stp s')
  note i = step.IH [OF step.prems]
  from server_step_ok [OF i step.prems(2) returned_allowed [OF i step.hyps(2,3)]] step.hyps(3) show ?case by auto
qed

end
