(* ===== verification/CH_AsyncProps.thy ===== *)
theory CH_AsyncProps
  imports CH_Async
begin

text \<open>
  What the invariant of \<open>CH_Async\<close> gives: exactly when a step fails, no stale event within a batch,
  one direction at a time, the path of a request from the socket to the application and of the
  response to the socket, and the places where the code falls short (pipelined requests, a stale
  \<open>errno\<close>, the announced close, shutting down with open connections).
\<close>

section \<open>Safety\<close>

text \<open>
  C1: How a step of a running server can fail.  In every reachable state, whatever the order of events
  and of posted functions, and whatever \<open>recv\<close>, \<open>send\<close> and \<open>accept\<close> return: a step fails exactly
  when \<open>accept\<close> returns an error other than \<open>EAGAIN\<close> (the assertion of \<open>on_event_listening\<close>), when
  \<open>accept\<close> returns a descriptor of 1024 or more (a write outside the table of the reactor), or when a
  callback of the parser fails on the bytes that \<open>recv\<close> returned, and then with the failure of that
  callback.  Every other step returns in a reachable state: no other assertion of the connection,
  handler, server or reactor code fails, no freed connection, handler or stream is used, and the ready
  list (room for 2047) never holds more than 1024 functions.  The kernel reports events only for
  registered descriptors and does not hand out a descriptor that is open; the application hands over
  responses that can be printed, each to a request that is being processed.
\<close>

theorem async_server_safe:
  assumes "app_ok env" and "epoll_fd \<noteq> - 1" and "fd_ok fd" and "k_open k fd"
    and "started sref port fd epoll_fd k = Inr s0" and "reachable env s0 s" and "step_permitted env stp s"
  shows "(\<forall>e. server_step env stp s = Inl e \<longleftrightarrow> step_fails env stp s e) \<and>
     (\<forall>s'. server_step env stp s = Inr s' \<longrightarrow> reachable env s0 s' \<and> length (ready s') \<le> 1024)"
proof -
  have "async_inv s0" using started_inv [OF assms(2-4), of sref port] assms(5) by (metis sum.inject(2))
  then have i: "async_inv s" "async_inv s0" using reachable_inv [OF assms(6)] assms(1) by blast+
  have "reachable env s0 s' \<and> length (ready s') \<le> 1024" if "server_step env stp s = Inr s'" for s'
  proof -
    have r: "reachable env s0 s'" using reachable.step [OF assms(6,7) that] .
    with reachable_inv [OF r i(2) assms(1)] show ?thesis using ready_room by (auto simp: async_inv_def)
  qed
  then show ?thesis using server_step_fails_iff [OF i(1) assms(1,7)] by blast
qed

text \<open>An \<open>llhttp\<close> that makes the events of one request out of any bytes, and a silent application.\<close>

definition demo_env :: "unit async_env" where
  "demo_env = \<lparr>e_llhttp_init = (), e_llhttp_execute = (\<lambda>_ _. (request_events demo_request, (), 0)),
     e_llhttp_finish = (\<lambda>_. ([], (), 0)), e_llhttp_method_name = (\<lambda>_. ''GET''), e_process_request = (\<lambda>_. None)\<rparr>"

definition demo_io :: async_io where
  "demo_io = \<lparr>io_recv = Some ''G'', io_send = 0, io_accept = 12, io_errno = 0\<rparr>"

text \<open>The completion handler keeps the last message it is given and forgets the ones before.\<close>

lemma run_requests_last:
  fixes x :: AsyncConnection and hdl :: AsyncHandler
  assumes "hp_ready p" and "\<forall>r \<in> set rs. frag_request_ok r" and "rs \<noteq> []"
    and "hp_handler_context p = (x\<lparr>ac_input_message_ptr := mp\<rparr>, hdl)"
    and "ac_tag x = AsyncConnection_TAG" "ah_tag hdl = AsyncHandler_TAG" "ac_read_state x = READ_STATE_ACTIVE"
  shows "\<exists>m q. ll_run async_on_read_message_complete (concat (map request_events rs)) p = Inr (0, q) \<and> hp_ready q \<and>
     is_request_of (last rs) m \<and> hp_handler_context q = (x\<lparr>ac_input_message_ptr := Some m\<rparr>, hdl)"
  using assms
proof (induction rs arbitrary: p mp)
  case (Cons r rs)
  let ?h = async_on_read_message_complete
  from run_request [of p r ?h] Cons.prems(1,2) obtain m p' where m: "is_request_of r m" "hp_ready p'"
    "ll_run ?h (request_events r) p = rbind (?h (hp_handler_context p) m) (\<lambda>(rc, ctx). Inr (rc, p'\<lparr>hp_handler_context := ctx\<rparr>))"
    by auto
  let ?q = "p'\<lparr>hp_handler_context := (x\<lparr>ac_input_message_ptr := Some m\<rparr>, hdl)\<rparr>"
  have run: "ll_run ?h (request_events r) p = Inr (0, ?q)"
    using m(3) Cons.prems(4-7) by (simp add: async_on_read_message_complete_def HPE_OK_def)
  show ?case
  proof (cases "rs = []")
    case True
    then show ?thesis using run m(1) hp_ready_ctx [OF m(2)] by (intro exI [of _ m] exI [of _ ?q]) simp
  next
    case False
    from Cons.IH [OF hp_ready_ctx [OF m(2)] _ False, of "(x\<lparr>ac_input_message_ptr := Some m\<rparr>, hdl)" "Some m"] Cons.prems(2,5-7)
    show ?thesis using run False by (simp add: ll_run_append)
  qed
qed simp

lemma consume_request:
  fixes x :: AsyncConnection and hdl :: AsyncHandler
  assumes p: "hp_ready p" and r: "\<forall>r \<in> set rs. frag_request_ok r" "rs \<noteq> []" and bytes: "bytes \<noteq> []"
    and ev: "e_llhttp_execute env (hp_llhttp p) bytes = (es, l, e)" "filter significant es = concat (map request_events rs)"
    and x: "ac_tag x = AsyncConnection_TAG" "ah_tag hdl = AsyncHandler_TAG" "ac_read_state x = READ_STATE_ACTIVE"
  shows "\<exists>m q. is_request_of (last rs) m \<and> hp_ready q \<and> hp_handler_context q = (x\<lparr>ac_input_message_ptr := Some m\<rparr>, hdl) \<and>
     http_parser_consume (e_llhttp_execute env) (e_llhttp_finish env) async_on_read_message_complete
       (p\<lparr>hp_handler_context := (x, hdl)\<rparr>) bytes = Inr (e, q)"
proof -
  let ?p = "p\<lparr>hp_handler_context := (x, hdl)\<rparr>" and ?h = async_on_read_message_complete
  from run_requests_last [OF hp_ready_ctx [OF p] r _ x, of "(x, hdl)" "ac_input_message_ptr x"] obtain m p' where
    m: "is_request_of (last rs) m" "hp_ready p'" "hp_handler_context p' = (x\<lparr>ac_input_message_ptr := Some m\<rparr>, hdl)"
    "ll_run ?h (concat (map request_events rs)) ?p = Inr (0, p')" by auto
  then have run: "ll_run ?h es ?p = Inr (0, p')" using ll_run_significant [of ?h es ?p] ev(2) by metis
  have "HP_CHECK ?p = Inr ()" using p by (simp add: hp_ready_def HP_CHECK_def)
  with run bytes ev(1) have "http_parser_consume (e_llhttp_execute env) (e_llhttp_finish env) ?h ?p bytes =
      Inr (e, p'\<lparr>hp_llhttp := l\<rparr>)"
    by (simp add: http_parser_consume_def)
  moreover have "hp_ready (p'\<lparr>hp_llhttp := l\<rparr>)" using m(2) by (simp add: hp_ready_def)
  ultimately show ?thesis using m(1,3) by (intro exI [of _ m] exI [of _ "p'\<lparr>hp_llhttp := l\<rparr>"]) simp
qed

lemma ready_accepts:
  assumes "hp_ready p" and "\<forall>r \<in> set rs. frag_request_ok r" "rs \<noteq> []" and "bytes \<noteq> []"
    and "e_llhttp_execute env (hp_llhttp p) bytes = (es, l, e)" "filter significant es = concat (map request_events rs)"
  shows "parser_accepts env p bytes"
  unfolding parser_accepts_def using consume_request [OF assms] by blast

lemma significant_request: "filter significant (request_events r) = request_events r"
  by (auto simp: request_events_def header_events_def filter_id_conv)

lemma demo_first_bytes: "first_bytes_ok demo_env demo_io"
  unfolding first_bytes_ok_def bytes_ok_def
proof (intro allI impI)
  fix ctx avail and p :: "(unit, conn_ctx) http_parser"
  assume p: "http_parser_new (e_llhttp_init demo_env) ctx = Inr p" and a: "io_recv demo_io = Some avail \<and> avail \<noteq> []"
  have "hp_ready p" using p http_parser_new_ready [of "e_llhttp_init demo_env" ctx] by auto
  then show "parser_accepts demo_env p (take 1000000 avail)"
    by (rule ready_accepts [where rs = "[demo_request]"])
       (use a significant_request demo_request_ok in \<open>simp_all add: demo_env_def\<close>)
qed

lemma demo_app: "app_ok demo_env"
  by (simp add: app_ok_def demo_env_def)

lemma demo_started:
  obtains s :: "unit async_st" where "started 100 8080 4 3 demo_kernel = Inr s" "async_inv s"
    "w_fd (as_listening_watcher_ref (r_app s)) = 4" "k_open (r_kernel s) = k_open demo_kernel"
    "as_conns (r_app s) = Map.empty" "ready s = []" "ft_view (r_table s) 4 \<noteq> None"
proof -
  have "fd_ok 4" "k_open demo_kernel 4" by (simp_all add: fd_ok_def RTOR_FDTABLE_MAX_def RTOR_MAX_FDS_def demo_kernel_def)
  from started_inv [where 'l = unit, OF _ this, of 3 100 8080] obtain s :: "unit async_st" where
    s: "started 100 8080 4 3 demo_kernel = Inr s" "async_inv s" "ready s = []" "as_conns (r_app s) = Map.empty"
    "as_listening_watcher_ref (r_app s) = listener_set (rtor_listener_new (Suc 100) 4)
       (Some on_event_listening_ptr) (Some 100)" "k_open (r_kernel s) = k_open demo_kernel" by auto
  moreover from s(5) have w: "w_fd (as_listening_watcher_ref (r_app s)) = 4"
    by (simp add: listener_set_def rtor_listener_new_def rtor_listener_init_def)
  moreover have "ft_view (r_table s) 4 \<noteq> None"
    using s(2) server_ok_listener(1) [of s] w by (simp add: async_inv_def core_inv_def)
  ultimately show thesis using that by blast
qed

lemma demo_accept_allowed:
  assumes "w_fd (as_listening_watcher_ref (r_app s)) = 4" "k_open (r_kernel s) = k_open demo_kernel" "ft_view (r_table s) 4 \<noteq> None"
  shows "step_allowed demo_env (Event 4 EPOLLIN demo_io) s"
  using assms demo_first_bytes
  by (simp add: accept_ok_def demo_io_def fd_ok_def RTOR_FDTABLE_MAX_def RTOR_MAX_FDS_def demo_kernel_def)

text \<open>A call of \<open>accept\<close> that fails because the process has no descriptor left (\<open>EMFILE\<close>).\<close>

definition emfile_io :: async_io where
  "emfile_io = \<lparr>io_recv = None, io_send = 0, io_accept = - 1, io_errno = 24\<rparr>"

theorem async_server_safe_witness:
  "\<exists>s0 s'. started 100 8080 4 3 demo_kernel = Inr s0 \<and>
     server_step demo_env (Event 4 EPOLLIN demo_io) s0 = Inr s' \<and> reachable demo_env s0 s' \<and> length (ready s') \<le> 1024 \<and>
     server_step demo_env (Event 4 EPOLLIN emfile_io) s0 = Inl Assertion"
proof -
  obtain s0 :: "unit async_st" where s0: "started 100 8080 4 3 demo_kernel = Inr s0" "async_inv s0"
    "w_fd (as_listening_watcher_ref (r_app s0)) = 4" "k_open (r_kernel s0) = k_open demo_kernel"
    "ft_view (r_table s0) 4 \<noteq> None" by (rule demo_started)
  have k: "fd_ok 4" "k_open demo_kernel 4" "(3 :: int) \<noteq> - 1"
    by (simp_all add: fd_ok_def RTOR_FDTABLE_MAX_def RTOR_MAX_FDS_def demo_kernel_def)
  note safe = async_server_safe [OF demo_app k(3,1,2) s0(1) reachable.start]
  have ok: "step_permitted demo_env (Event 4 EPOLLIN demo_io) s0" "\<not> step_fails demo_env (Event 4 EPOLLIN demo_io) s0 e" for e
    using demo_accept_allowed [OF s0(3-5)] unfolding step_allowed_iff by blast+
  obtain s' where s': "server_step demo_env (Event 4 EPOLLIN demo_io) s0 = Inr s'"
    using safe [OF ok(1)] ok(2) by (cases "server_step demo_env (Event 4 EPOLLIN demo_io) s0") (blast, blast)
  have bad: "step_permitted demo_env (Event 4 EPOLLIN emfile_io) s0" "step_fails demo_env (Event 4 EPOLLIN emfile_io) s0 Assertion"
    using s0(3,5) by (simp_all add: emfile_io_def accept_fails_def EAGAIN_def)
  show ?thesis using s0(1) s' safe [OF ok(1)] safe [OF bad(1)] bad(2) by blast
qed

section \<open>No stale event in a batch\<close>

text \<open>The events of one \<open>epoll_wait\<close>, each with what its system calls return.\<close>

definition dispatch_batch :: "'l async_env \<Rightarrow> (int \<times> 32 word \<times> async_io) list \<Rightarrow> 'l async_st \<Rightarrow> 'l async_st res" where
  "dispatch_batch env evs s = rfold (\<lambda>(fd, ev, io). server_step env (Event fd ev io)) evs s"

text \<open>
  The events may name any registered descriptors, in any order, each once: handling one of them never
  takes away the watcher another one needs, because connections are only torn down by posted
  functions, after the batch.
\<close>

text \<open>A failure that a permitted step has in a reachable state.\<close>

definition fault_at :: "'l async_env \<Rightarrow> 'l async_st \<Rightarrow> failure \<Rightarrow> bool" where
  "fault_at env s0 e \<longleftrightarrow> (\<exists>s stp. reachable env s0 s \<and> step_permitted env stp s \<and> step_fails env stp s e)"

lemma step_outcome:
  assumes "async_inv s" and "app_ok env" and "reachable env s0 s" and "step_permitted env stp s"
  obtains s' where "server_step env stp s = Inr s'" "step_allowed env stp s" "async_inv s'" "reachable env s0 s'"
  | e where "server_step env stp s = Inl e" "fault_at env s0 e"
proof (cases "server_step env stp s")
  case (Inl e)
  then show ?thesis using that(2) server_step_fails_iff [OF assms(1,2,4)] assms(3,4) unfolding fault_at_def by blast
next
  case (Inr s')
  note al = returned_allowed [OF assms(1,4) Inr]
  from server_step_ok [OF assms(1,2) al] Inr have "async_inv s'" by auto
  then show ?thesis using that(1) [OF Inr al _ reachable.step [OF assms(3,4) Inr]] by blast
qed

lemma batch_outcome:
  assumes "async_inv s" and "app_ok env" and "distinct (map fst evs)"
    and "\<forall>(fd, ev, io) \<in> set evs. step_permitted env (Event fd ev io) s" and "reachable env s0 s"
  shows "(\<exists>s'. dispatch_batch env evs s = Inr s' \<and> async_inv s' \<and> reachable env s0 s') \<or>
     (\<exists>e. dispatch_batch env evs s = Inl e \<and> fault_at env s0 e)"
  using assms
proof (induction evs arbitrary: s)
  case Nil
  then show ?case by (simp add: dispatch_batch_def)
next
  case (Cons e evs)
  obtain fd ev io where e: "e = (fd, ev, io)" by (metis prod_cases3)
  have "step_permitted env (Event fd ev io) s" using Cons.prems(4) by (simp add: e)
  from Cons.prems(1,2,5) this show ?case
  proof (rule step_outcome)
    fix s1 assume s1: "server_step env (Event fd ev io) s = Inr s1" "step_allowed env (Event fd ev io) s" "async_inv s1" "reachable env s0 s1"
    from dispatch_ok [OF Cons.prems(1) s1(2)] s1(1) have k: "kept_watchers s s1"
      "fd \<noteq> w_fd (as_listening_watcher_ref (r_app s)) \<longrightarrow> r_kernel s1 = r_kernel s" by auto
    have "step_permitted env (Event fd' ev' io') s1" if "(fd', ev', io') \<in> set evs" for fd' ev' io'
    proof -
      have a: "step_permitted env (Event fd' ev' io') s" using Cons.prems(4) that by auto
      have "fd' \<noteq> fd" using Cons.prems(3) that by (force simp: e)
      then show ?thesis using a k by (auto simp: kept_watchers_def)
    qed
    then have "\<forall>(fd, ev, io) \<in> set evs. step_permitted env (Event fd ev io) s1" by blast
    from Cons.IH [OF s1(3) Cons.prems(2) _ this s1(4)] Cons.prems(3) show ?thesis
      using s1(1) by (simp add: dispatch_batch_def e del: server_step.simps)
  qed (simp add: dispatch_batch_def e del: server_step.simps)
qed

section \<open>One direction at a time\<close>

text \<open>
  C2: In every reachable state each connection owns an open, registered descriptor and has at most
  one function in the ready list; it never reads while a response is on its way, and as long as
  a response is unsent the bytes still to be sent are there.
\<close>

theorem async_half_duplex:
  assumes "app_ok env" and "epoll_fd \<noteq> - 1" and "fd_ok fd" and "k_open k fd"
    and "started sref port fd epoll_fd k = Inr s0" and "reachable env s0 s" and "as_conns (r_app s) c = Some x"
  shows "k_open (r_kernel s) (ac_socket x) \<and> ft_view (r_table s) (ac_socket x) = ac_socket_stream_ref x \<and>
     length (posts_of s c x) \<le> 1 \<and>
     (ac_read_state x \<in> {READ_STATE_ACTIVE, READ_STATE_EAGAINED} \<longrightarrow> ac_write_state x = WRITE_STATE_IDLE) \<and>
     (ac_write_state x \<in> {WRITE_STATE_ACTIVE, WRITE_STATE_EAGAINED} \<longrightarrow>
        (\<exists>b. ac_active_output_buffer_ref x = Some b \<and> iob_content b \<noteq> []))"
proof -
  have "async_inv s0" using started_inv [OF assms(2-4), of sref port] assms(5) by (metis sum.inject(2))
  then have inv: "core_inv {} s" using reachable_inv [OF assms(6) _ assms(1)] by (simp add: async_inv_def)
  obtain ph where ph: "in_phase ph c x (posts_of s c x)" "conn_local x" "conn_links s c x"
    using core_inv_conn [OF inv assms(7)] by blast
  from ph(3) obtain a where a: "ac_socket_stream_ref x = Some a" "ft_view (r_table s) (ac_socket x) = Some a"
    unfolding conn_links_def by blast
  moreover have "k_open (r_kernel s) (ac_socket x)"
    using inv a(2) unfolding core_inv_def Reactor_wf_def by (metis option.distinct(1))
  moreover have "iob_content b \<noteq> []" if "ac_active_output_buffer_ref x = Some b" "0 < iob_remaining b" for b
    using that ph(2) iob_content_length [of b] unfolding conn_local_def by (metis list.size(3) not_less_zero zero_less_nat_eq)
  ultimately show ?thesis using ph(1) in_phase_length [OF ph(1)]
    by (cases ph) (auto simp: in_phase_def async_states)
qed

lemma demo_connected:
  obtains s0 s x where "started 100 8080 4 3 demo_kernel = Inr s0"
    "server_step demo_env (Event 4 EPOLLIN demo_io) s0 = Inr s" "async_inv s" "reachable demo_env s0 s"
proof -
  obtain s0 :: "unit async_st" where s0: "started 100 8080 4 3 demo_kernel = Inr s0" "async_inv s0"
    "w_fd (as_listening_watcher_ref (r_app s0)) = 4" "k_open (r_kernel s0) = k_open demo_kernel"
    "ft_view (r_table s0) 4 \<noteq> None" by (rule demo_started)
  note al = demo_accept_allowed [OF s0(3-5)]
  from server_step_ok [OF s0(2) demo_app al] obtain s where
    s: "server_step demo_env (Event 4 EPOLLIN demo_io) s0 = Inr s" "async_inv s" by blast
  show thesis by (rule that [OF s0(1) s reachable_allowed [OF reachable.start al s(1)]])
qed

section \<open>From the socket to the application and back\<close>

text \<open>What is left after taking the first functor off the ready list, for its connection.\<close>

lemma take_named:
  assumes inv: "async_inv s" and rd: "ready s = f # rest" and x: "as_conns (r_app s) c = Some x"
    and f: "mine c (ac_handler_ref x) f"
  shows "\<exists>l t. functor_list_remove (r_ready_list s) = Inr (f, l) \<and>
     t = s\<lparr>r_ready_list := l, r_runloop_executing := True\<rparr> \<and> core_inv {c} t \<and> list_ok t \<and> ready t = rest \<and>
     (\<exists>ph. in_phase ph c x [f]) \<and> ac_input_message_ptr x = None \<and> as_conns (r_app t) c = Some x"
proof -
  have core: "core_inv {} s" and wf: "Reactor_wf s" and ls: "list_ok s"
    using inv by (simp_all add: async_inv_def core_inv_def)
  obtain l where l: "functor_list_remove (r_ready_list s) = Inr (f, l)" "fl_contents l = rest"
    "Reactor_wf (s\<lparr>r_ready_list := l, r_runloop_executing := True\<rparr>)" using run_ready_step [OF wf rd] by blast
  from take_functor [OF core rd l(2,3)] obtain d y ph where
    d: "as_conns (r_app s) d = Some y" "ac_input_message_ptr y = None" "in_phase ph d y [f]"
    "core_inv {d} (s\<lparr>r_ready_list := l, r_runloop_executing := True\<rparr>)" by blast
  have "conn_links s d y" "conn_links s c x" using core d(1) x unfolding core_inv_def by blast+
  then have "c = d" using handlers_differ mine_other f in_phase_mine [OF d(3)]
    by (metis filter.simps(1) filter.simps(2) list.distinct(1))
  with d x l ls show ?thesis by (auto simp: list_ok_def)
qed

text \<open>What the reader of a connection does with bytes that complete requests.\<close>

lemma reader_completes:
  assumes run: "running t c x s" and rd: "reading x" "ac_input_message_ptr x = None" and p: "as_parsers (r_app s) c = Some p"
    and "hp_ready p" and "io_recv io = Some bytes" and "bytes \<noteq> []" and "length bytes \<le> 1000000"
    and "\<forall>r \<in> set rs. frag_request_ok r" "rs \<noteq> []"
    and "e_llhttp_execute env (hp_llhttp p) bytes = (es, l, e)" "filter significant es = concat (map request_events rs)"
  shows "\<exists>m b s1. is_request_of (last rs) m \<and> reader env io c s = read_new_message c s1 \<and>
     running t c (x\<lparr>ac_active_input_buffer_ref := Some b, ac_input_message_ptr := Some m\<rparr>) s1"
proof -
  have all: "take 1000000 bytes = bytes" using assms(8) by simp
  have "parser_accepts env p (take 1000000 bytes)" unfolding all by (rule ready_accepts [OF assms(5,9,10,7,11,12)])
  from reader_received [OF run rd assms(6,7) p this] obtain b ec im s1 where
    c: "conn_consume env c bytes (put_conn c (x\<lparr>ac_active_input_buffer_ref := Some b\<rparr>) s) = Inr (ec, s1)"
    "running t c (x\<lparr>ac_active_input_buffer_ref := Some b, ac_input_message_ptr := im\<rparr>) s1" and
    eq: "im \<noteq> None \<Longrightarrow> reader env io c s = read_new_message c s1" unfolding all by auto
  let ?z = "x\<lparr>ac_active_input_buffer_ref := Some b\<rparr>"
  obtain hdl where h: "get_handler s (ac_handler_ref x) = Inr hdl" "ah_tag hdl = AsyncHandler_TAG"
    using running_handler [OF run] by blast
  have z: "ac_tag ?z = AsyncConnection_TAG" "ac_read_state ?z = READ_STATE_ACTIVE"
    using running_local [OF run] rd(1) by (simp_all add: conn_local_def reading_def)
  from consume_request [OF assms(5,9,10,7,11,12) z(1) h(2) z(2)] obtain m q where m: "is_request_of (last rs) m"
    "hp_handler_context q = (?z\<lparr>ac_input_message_ptr := Some m\<rparr>, hdl)"
    "http_parser_consume (e_llhttp_execute env) (e_llhttp_finish env) async_on_read_message_complete
       (p\<lparr>hp_handler_context := (?z, hdl)\<rparr>) bytes = Inr (e, q)" by blast
  have "conn_consume env c bytes (put_conn c ?z s) =
      Inr (e, put_parser c q (put_handler (ac_handler_ref x) hdl (put_conn c (?z\<lparr>ac_input_message_ptr := Some m\<rparr>) (put_conn c ?z s))))"
    using h(1) m(2,3) p by (simp add: conn_consume_def get_conn_def get_handler_def h_get_def put_conn_def)
  with c(1) have "get_conn s1 c = Inr (?z\<lparr>ac_input_message_ptr := Some m\<rparr>)"
    by (auto simp: get_conn_def h_get_def put_parser_def put_handler_def put_conn_def)
  with running_conn [OF c(2)] have im: "im = Some m"
    by (metis AsyncConnection.select_convs(7) AsyncConnection.update_convs(7) AsyncConnection.surjective sum.inject(2))
  show ?thesis using m(1) eq im c(2) by blast
qed

text \<open>
  C10: A request that arrives in one read reaches the application whole: when the reader of a
  connection runs and \<open>recv\<close> returns bytes of which \<open>llhttp\<close> makes the events of one or more
  requests, then the message waiting for \<open>process_request\<close> is exactly the last of these requests,
  the function that hands it over is in the ready list, and nothing else is posted.  The requests
  before the last, when a client pipelines, are gone: they are never handed over or answered.
\<close>

theorem async_request_delivered:
  assumes "async_inv s" and "ready s = \<lparr>fn_f = postable_reader_ptr, fn_arg = c\<rparr> # rest"
    and "as_conns (r_app s) c = Some x" and "as_parsers (r_app s) c = Some p" and "hp_ready p"
    and "io_recv io = Some bytes" and "bytes \<noteq> []" and "length bytes \<le> 1000000"
    and "\<forall>r \<in> set rs. frag_request_ok r" and "rs \<noteq> []"
    and "e_llhttp_execute env (hp_llhttp p) bytes = (es, l, e)" and "filter significant es = concat (map request_events rs)"
  shows "\<exists>s' x' m. server_step env (Run io) s = Inr s' \<and> as_conns (r_app s') c = Some x' \<and>
     ac_scratch_request x' = Some (Some m) \<and> is_request_of (last rs) m \<and> ac_read_state x' = READ_STATE_IDLE \<and>
     ready s' = rest @ [\<lparr>fn_f = postable_handle_request_ptr, fn_arg = ac_handler_ref x\<rparr>]"
proof -
  let ?f = "\<lparr>fn_f = postable_reader_ptr, fn_arg = c\<rparr> :: rfunctor"
  from take_named [OF assms(1-3)] obtain l t ph where t: "functor_list_remove (r_ready_list s) = Inr (?f, l)"
    "t = s\<lparr>r_ready_list := l, r_runloop_executing := True\<rparr>" "core_inv {c} t" "ready t = rest" "in_phase ph c x [?f]"
    "ac_input_message_ptr x = None" "as_conns (r_app t) c = Some x" by (auto simp: mine_def)
  have ph: "ph = Reading" using t(5) by (cases ph) (auto simp: in_phase_def async_ptrs)
  note run = running_start [OF t(3,7)]
  let ?y = "x\<lparr>ac_readside_posted := False\<rparr>"
  have y: "running t c ?y (put_conn c ?y t)" by (rule running_put [OF run]) (simp_all add: running_local [OF run])
  have rd: "reading ?y" "ac_input_message_ptr ?y = None" using t(5,6) ph by (simp_all add: reading_def in_phase_def)
  have p: "as_parsers (r_app (put_conn c ?y t)) c = Some p" using assms(4) by (simp add: put_conn_def t(2))
  from reader_completes [OF y rd p assms(5-12)] obtain m b s1 where
    m: "is_request_of (last rs) m" "reader env io c (put_conn c ?y t) = read_new_message c s1"
    "running t c (?y\<lparr>ac_active_input_buffer_ref := Some b, ac_input_message_ptr := Some m\<rparr>) s1" by blast
  let ?w = "?y\<lparr>ac_active_input_buffer_ref := Some b, ac_input_message_ptr := Some m\<rparr>"
  have w: "reading ?w" "ac_input_message_ptr ?w = Some m" "msg_wf m" using rd(1) m(1) by (simp_all add: reading_def is_request_of_def)
  from read_new_message_ok [OF m(3) w] obtain s' where s': "read_new_message c s1 = Inr s'"
    "moved t c (?w\<lparr>ac_input_message_ptr := None, ac_read_state := READ_STATE_IDLE, ac_scratch_request := Some (Some m)\<rparr>)
       [\<lparr>fn_f = postable_handle_request_ptr, fn_arg = ac_handler_ref x\<rparr>] s'" by auto
  have "postable_reader env io c t = Inr s'"
    using running_check [OF run] t(5) ph m(2) s'(1) by (simp add: postable_reader_def in_phase_def)
  then have "server_step env (Run io) s = Inr (s'\<lparr>r_runloop_executing := False\<rparr>)"
    using t(1,2) by (simp add: run_one_def Functor_call_def async_code_def)
  then show ?thesis using s'(2) t(4) m(1) by (auto simp: moved_def)
qed

text \<open>A server with one connection (at 103, handler at 102) in any phase that has a posted function.\<close>

lemma core_inv_list [simp]: "core_inv b (s\<lparr>r_app := (r_app s)\<lparr>as_handler_list := l\<rparr>\<rparr>) \<longleftrightarrow> core_inv b s"
  unfolding core_inv_def server_ok_def conn_links_def posts_of_def by simp

lemma rtor_reactor_post_app: "rtor_reactor_post r f a = Inr r' \<Longrightarrow> r_app r' = r_app r"
  by (auto simp: rtor_reactor_post_def rbind_eq_Inr)

lemma demo_conn:
  obtains s x p where "core_inv {103} s" "as_conns (r_app s) 103 = Some x" "ac_handler_ref x = 102"
    "ac_input_message_ptr x = None" "ac_write_state x = WRITE_STATE_IDLE" "ac_read_state x = READ_STATE_IDLE"
    "\<not> ac_readside_posted x" "conn_local x" "ready s = []" "as_parsers (r_app s) 103 = Some p" "hp_ready p"
    "hp_llhttp p = ()" "list_ok s"
proof -
  obtain s0 :: "unit async_st" where s0: "async_inv s0" "k_open (r_kernel s0) = k_open demo_kernel"
    "as_conns (r_app s0) = Map.empty" "ready s0 = []" "started 100 8080 4 3 demo_kernel = Inr s0" by (rule demo_started)
  have core: "core_inv {} s0" using s0(1) by (simp add: async_inv_def)
  have fr: "as_fresh (r_app s0) = 102" using s0(5)
    by (auto simp: started_def AsyncServer_new_with_socket_def AsyncServer_init_with_socket_def AsyncServer_start_def
        rtor_reactor_new_def rtor_reactor_init_def rtor_listener_register_def rbind_eq_Inr Let_def dest!: rtor_reactor_register_app)
  let ?t = "s0\<lparr>r_kernel := sys_accept (r_kernel s0) 12\<rparr>"
  define hdl where "hdl = \<lparr>ah_tag = AsyncHandler_TAG, ah_async_connection_ref = None,
                ah_input_list = List_new NoDealloc, ah_output_list = List_new NoDealloc\<rparr>"
  have hd: "ah_tag hdl = AsyncHandler_TAG" "ah_input_list hdl = List_new NoDealloc" "ah_output_list hdl = List_new NoDealloc"
    by (simp_all add: hdl_def)
  have fd: "fd_ok 12" "(0 :: int) < 12" "k_open (r_kernel ?t) 12"
    by (simp_all add: fd_ok_def RTOR_FDTABLE_MAX_def RTOR_MAX_FDS_def sys_accept_def)
  have "\<not> k_open (r_kernel s0) 12" using s0(2) by (simp add: demo_kernel_def)
  then have v: "ft_view (r_table ?t) 12 = None" using core unfolding core_inv_def Reactor_wf_def by (auto simp: not_None_eq)
  have h: "(102 :: addr) = as_fresh (r_app ?t)" by (simp add: fr)
  from async_connection_new_ok [OF core_inv_accept [OF core] fd v h hd, where env = demo_env] obtain s1 x a st ctx p where
    op: "opened ?t (Suc 102) x 102 (hdl\<lparr>ah_async_connection_ref := Some (Suc 102)\<rparr>) a st
       (put_handler 102 (hdl\<lparr>ah_async_connection_ref := Some (Suc 102)\<rparr>) s1)"
    "fresh_conn ?t (Suc 102) x 102 (hdl\<lparr>ah_async_connection_ref := Some (Suc 102)\<rparr>) a st"
    and p: "as_parsers (r_app s1) (Suc 102) = Some p" "http_parser_new (e_llhttp_init demo_env) ctx = Inr p"
    and x: "ac_read_state x = READ_STATE_IDLE" "\<not> ac_readside_posted x" "ac_write_state x = WRITE_STATE_IDLE"
     "ac_input_message_ptr x = None" and l: "as_handler_list (r_app s1) = as_handler_list (r_app s0)" by auto
  let ?s = "put_handler 102 (hdl\<lparr>ah_async_connection_ref := Some (Suc 102)\<rparr>) s1"
  obtain as where as: "List_inv (as_handler_list (r_app s0)) as" "distinct (map snd as)"
    "set (map snd as) = dom (as_handlers (r_app s0))" "l_dealloc (as_handler_list (r_app s0)) = NullingDealloc"
    using s0(1) by (auto simp: async_inv_def list_ok_def)
  from List_add_back_inv [OF as(1), of 102] as(4) obtain hl n where
    hl: "List_inv hl (as @ [(n, 102)])" "l_dealloc hl = NullingDealloc" by auto
  define s where "s = ?s\<lparr>r_app := (r_app ?s)\<lparr>as_handler_list := hl\<rparr>\<rparr>"
  have c: "core_inv {103} s" using opened_core [OF core_inv_accept [OF core] op] by (simp add: s_def)
  have e: "as_conns (r_app s) 103 = Some x" "ready s = []" "as_handlers (r_app s) = (as_handlers (r_app s0))
      (102 \<mapsto> hdl\<lparr>ah_async_connection_ref := Some 103\<rparr>)"
    using op(1) s0(4) by (auto simp: s_def elim!: openedE)
  have "as_parsers (r_app s) 103 = Some p" using p(1) by (simp add: s_def put_handler_def)
  moreover have "hp_ready p" "hp_llhttp p = ()"
    using p(2) http_parser_new_ready [of "e_llhttp_init demo_env" ctx] by auto
  moreover have "102 \<notin> set (map snd as)" using core server_ok_fresh(1) [of s0 102] fr unfolding as(3) by (auto simp: core_inv_def)
  then have "list_ok s" using as(2,3) hl e(3) unfolding list_ok_def by (intro exI [of _ "as @ [(n, 102)]"]) (auto simp: s_def)
  moreover have "ac_handler_ref x = 102" "conn_local x" using op(2) by (simp_all add: fresh_conn_def)
  ultimately show thesis using that c e(1,2) x by blast
qed

lemma demo_phase:
  assumes "core_inv {c} s" and "as_conns (r_app s) c = Some x" and "ready s = []" and "list_ok s"
    and y: "same_id x y" "conn_local y" "ac_input_message_ptr y = None" "in_phase ph c y [\<lparr>fn_f = f, fn_arg = a\<rparr>]"
  shows "\<exists>s'. async_inv s' \<and> ready s' = [\<lparr>fn_f = f, fn_arg = a\<rparr>] \<and> as_conns (r_app s') c = Some y \<and>
     as_parsers (r_app s') = as_parsers (r_app s)"
proof -
  have r: "running s c y (put_conn c y s)" by (rule running_put [OF running_start [OF assms(1,2)] y(2,1)])
  from settle_post [OF r y(3,4)] obtain s' where s': "rtor_reactor_post (put_conn c y s) f a = Inr s'" "settled c s s'"
    "moved s c y [\<lparr>fn_f = f, fn_arg = a\<rparr>] s'" by blast
  have "r_app s' = r_app (put_conn c y s)" using rtor_reactor_post_app [OF s'(1)] .
  with s'(2,3) settled_inv [OF s'(2) assms(4)] assms(3) show ?thesis by (auto simp: moved_def put_conn_def)
qed

theorem async_request_delivered_witness:
  "\<exists>s x s' x' m. as_conns (r_app s) 103 = Some x \<and> server_step demo_env (Run demo_io) s = Inr s' \<and>
     as_conns (r_app s') 103 = Some x' \<and> ac_scratch_request x' = Some (Some m) \<and> cb_holds (msg_target m) ''/index''"
proof -
  obtain s x p where s: "core_inv {103} s" "as_conns (r_app s) 103 = Some x" "ac_handler_ref x = 102"
    "ac_input_message_ptr x = None" "ac_write_state x = WRITE_STATE_IDLE" "conn_local x" "ready s = []"
    "as_parsers (r_app s) 103 = Some p" "hp_ready p" "hp_llhttp p = ()" "list_ok s" by (rule demo_conn)
  let ?y = "x\<lparr>ac_read_state := READ_STATE_ACTIVE, ac_readside_posted := True\<rparr>"
  have "in_phase Reading 103 ?y [\<lparr>fn_f = postable_reader_ptr, fn_arg = 103\<rparr>]" using s(5) by (simp add: in_phase_def)
  from demo_phase [OF s(1,2,7,11) _ _ _ this] s(4,6) obtain t where t: "async_inv t"
    "ready t = [\<lparr>fn_f = postable_reader_ptr, fn_arg = 103\<rparr>]" "as_conns (r_app t) 103 = Some ?y"
    "as_parsers (r_app t) 103 = Some p" using s(8) by auto
  have "e_llhttp_execute demo_env (hp_llhttp p) ''G'' = (request_events demo_request, (), 0)" "io_recv demo_io = Some ''G''"
    by (simp_all add: demo_env_def demo_io_def)
  from async_request_delivered [OF t(1,2,3,4) s(9) this(2) _ _ _ _ this(1), of "[demo_request]"]
    significant_request demo_request_ok t(3) show ?thesis
    by (auto simp: is_request_of_def demo_request_def simp del: server_step.simps)
qed

theorem async_half_duplex_witness:
  "\<exists>s0 s. started 100 8080 4 3 demo_kernel = Inr s0 \<and> reachable demo_env s0 s \<and>
     (\<forall>c x. as_conns (r_app s) c = Some x \<longrightarrow> k_open (r_kernel s) (ac_socket x) \<and> length (posts_of s c x) \<le> 1)"
proof -
  obtain s0 s where s: "started 100 8080 4 3 demo_kernel = Inr s0" "reachable demo_env s0 s" by (rule demo_connected)
  have k: "fd_ok 4" "k_open demo_kernel 4" "(3 :: int) \<noteq> - 1"
    by (simp_all add: fd_ok_def RTOR_FDTABLE_MAX_def RTOR_MAX_FDS_def demo_kernel_def)
  show ?thesis using async_half_duplex [OF demo_app k(3,1,2) s] s by blast
qed

text \<open>
  The response goes out as the application wrote it, with one line added: when the waiting
  request is handed over and the application answers at once, the output buffer holds the first
  line of the response, its header lines, a \<open>CONNECTION\<close> line that says keep-alive exactly when
  the request did (and close otherwise), the empty line and the body, and the writer is posted.
\<close>

theorem async_response_bytes:
  assumes "async_inv s" and "ready s = \<lparr>fn_f = postable_handle_request_ptr, fn_arg = ac_handler_ref x\<rparr> # rest"
    and "as_conns (r_app s) c = Some x" and "ac_scratch_request x = Some (Some request)" and "msg_wf request"
    and "e_process_request env request = Some response" and "sendable env response"
    and "Message_first_line (e_llhttp_method_name env) response = Inr fl"
  shows "\<exists>s' x' b. server_step env (Run io) s = Inr s' \<and> as_conns (r_app s') c = Some x' \<and>
     ac_active_output_buffer_ref x' = Some b \<and> ac_write_state x' = WRITE_STATE_ACTIVE \<and>
     iob_content b = fl @ concat (map hl_line (List_items (msg_headers response) @ [connection_line request])) @
       CRLF @ msg_body_bytes response \<and>
     ready s' = rest @ [\<lparr>fn_f = async_postable_writer_ptr, fn_arg = c\<rparr>]"
proof -
  let ?f = "\<lparr>fn_f = postable_handle_request_ptr, fn_arg = ac_handler_ref x\<rparr> :: rfunctor"
  from take_named [OF assms(1-3)] obtain l t ph where t: "functor_list_remove (r_ready_list s) = Inr (?f, l)"
    "t = s\<lparr>r_ready_list := l, r_runloop_executing := True\<rparr>" "core_inv {c} t" "ready t = rest" "in_phase ph c x [?f]"
    "ac_input_message_ptr x = None" "as_conns (r_app t) c = Some x" by (auto simp: mine_def)
  have ph: "ph = Requested" using t(5) by (cases ph) (auto simp: in_phase_def async_ptrs)
  note run = running_start [OF t(3,7)]
  obtain hdl where h: "check_handler t (ac_handler_ref x) = Inr hdl" "ah_async_connection_ref hdl = Some c"
    using running_handler [OF run] by blast
  let ?y = "x\<lparr>ac_scratch_request := Some None\<rparr>"
  have y: "running t c ?y (put_conn c ?y t)" by (rule running_put [OF run]) (simp_all add: running_local [OF run])
  have p: "in_phase Processing c ?y []" "ac_input_message_ptr ?y = None" using t(5,6) ph by (simp_all add: in_phase_def)
  from handle_response_ok [OF y p assms(5,7)] obtain s' m b where
    s': "async_handler_handle_response env (ac_handler_ref x) request response (put_conn c ?y t) = Inr s'"
    "add_connection_header request response = Inr m" "Message_serialize (e_llhttp_method_name env) m = Inr b"
    "moved t c (?y\<lparr>ac_active_output_buffer_ref := Some b, ac_write_state := WRITE_STATE_ACTIVE\<rparr>)
       [\<lparr>fn_f = async_postable_writer_ptr, fn_arg = c\<rparr>] s'" by auto
  obtain hdl' where "check_handler (put_conn c ?y t) (ac_handler_ref x) = Inr hdl'" using running_handler [OF y] by auto
  then have "postable_handle_request env (ac_handler_ref x) t = Inr s'"
    using h running_check [OF run] assms(4,6) s'(1) by (simp add: postable_handle_request_def handle_request_def)
  then have "server_step env (Run io) s = Inr (s'\<lparr>r_runloop_executing := False\<rparr>)"
    using t(1,2) by (simp add: run_one_def Functor_call_def async_code_def async_ptrs)
  then show ?thesis using s'(4) t(4) add_connection_header_exact [OF assms(5,7) s'(2,3) assms(8)]
    by (auto simp: moved_def)
qed

text \<open>
  The writer sends the response in order and without loss: after a \<open>send\<close> that took \<open>n\<close> bytes the
  output buffer holds exactly the response without its first \<open>n\<close> remaining bytes and the writer is
  posted again; when nothing remains the buffer is released and the completion is posted.
\<close>

theorem async_writer_exact:
  assumes "async_inv s" and "ready s = \<lparr>fn_f = async_postable_writer_ptr, fn_arg = c\<rparr> # rest"
    and "as_conns (r_app s) c = Some x" and "ac_active_output_buffer_ref x = Some b" and "0 < io_send io"
  shows "\<exists>s' x'. server_step env (Run io) s = Inr s' \<and> as_conns (r_app s') c = Some x' \<and>
     (if nat (io_send io) < length (iob_content b)
      then (\<exists>b'. ac_active_output_buffer_ref x' = Some b' \<and> iob_content b' = drop (nat (io_send io)) (iob_content b)) \<and>
           ready s' = rest @ [\<lparr>fn_f = async_postable_writer_ptr, fn_arg = c\<rparr>]
      else ac_active_output_buffer_ref x' = None \<and>
           ready s' = rest @ [\<lparr>fn_f = postable_write_complete_ptr, fn_arg = c\<rparr>])"
proof -
  let ?f = "\<lparr>fn_f = async_postable_writer_ptr, fn_arg = c\<rparr> :: rfunctor"
  from take_named [OF assms(1-3)] obtain l t ph where t: "functor_list_remove (r_ready_list s) = Inr (?f, l)"
    "t = s\<lparr>r_ready_list := l, r_runloop_executing := True\<rparr>" "core_inv {c} t" "ready t = rest" "in_phase ph c x [?f]"
    "ac_input_message_ptr x = None" "as_conns (r_app t) c = Some x" by (auto simp: mine_def)
  have ph: "ph = Writing" using t(5) by (cases ph) (auto simp: in_phase_def async_ptrs)
  from async_postable_writer_sent [OF t(3,7,6) t(5) [unfolded ph] assms(4,5)] obtain s' b1 where
    s': "async_postable_writer io c t = Inr s'" "iob_content b1 = drop (nat (io_send io)) (iob_content b)"
    "if iob_content b1 = []
      then moved t c (x\<lparr>ac_write_state := WRITE_STATE_IDLE, ac_active_output_buffer_ref := None\<rparr>)
             [\<lparr>fn_f = postable_write_complete_ptr, fn_arg = c\<rparr>] s'
      else moved t c (x\<lparr>ac_write_state := WRITE_STATE_ACTIVE, ac_active_output_buffer_ref := Some b1\<rparr>) [?f] s'" by blast
  have "server_step env (Run io) s = Inr (s'\<lparr>r_runloop_executing := False\<rparr>)"
    using t(1,2) s'(1) by (simp add: run_one_def Functor_call_def async_code_def async_ptrs)
  moreover have "iob_content b1 = [] \<longleftrightarrow> \<not> nat (io_send io) < length (iob_content b)" by (auto simp: s'(2))
  ultimately show ?thesis using s'(2,3) t(4) by (auto simp: moved_def split: if_splits)
qed

theorem async_response_bytes_witness:
  "\<exists>(env :: unit async_env) s s' x' b. server_step env (Run demo_io) s = Inr s' \<and> as_conns (r_app s') 103 = Some x' \<and>
     ac_active_output_buffer_ref x' = Some b \<and>
     iob_content b = ''HTTP/1.1  200 OK'' @ CRLF @ ''CONNECTION: close'' @ CRLF @ CRLF"
proof -
  obtain m t where m: "msg_wf m" "List_items (msg_headers m) = []" using request_message_exists by blast
  obtain resp r where r: "msg_wf resp" "msg_is_request resp = Some False" "msg_status_code resp = Some 200"
    "msg_reason resp = Some r" "cb_terminated r" "cb_wf r" "cb_content r = ''OK''" "msg_major_vers resp = 1"
    "msg_minor_vers resp = 1" "List_items (msg_headers resp) = []" "msg_body resp = None"
    using response_message_exists by blast
  let ?env = "demo_env\<lparr>e_process_request := \<lambda>_. Some resp\<rparr>"
  have fl: "Message_first_line (e_llhttp_method_name ?env) resp = Inr (''HTTP/1.1  200 OK'' @ CRLF)"
    using Message_status_line [OF r(2,3,4,6,5)] r(7-9) by (simp add: c_str_def int_digits_def nat_digits.simps digit_char_def char_of_def bit_0)
  have sd: "sendable ?env resp" using r(1) fl by (auto simp: printable_def)
  obtain s :: "unit async_st" and x where s: "core_inv {103} s" "as_conns (r_app s) 103 = Some x" "ac_handler_ref x = 102"
    "ac_input_message_ptr x = None" "ac_write_state x = WRITE_STATE_IDLE" "ac_read_state x = READ_STATE_IDLE"
    "\<not> ac_readside_posted x" "conn_local x" "ready s = []" "list_ok s" by (rule demo_conn)
  let ?y = "x\<lparr>ac_scratch_request := Some (Some m)\<rparr>"
  have "in_phase Requested 103 ?y [\<lparr>fn_f = postable_handle_request_ptr, fn_arg = ac_handler_ref ?y\<rparr>]"
    using s(5-7) m(1) by (simp add: in_phase_def)
  from demo_phase [OF s(1,2,9,10) _ _ _ this] s(4,8) obtain t :: "unit async_st" where t: "async_inv t"
    "ready t = [\<lparr>fn_f = postable_handle_request_ptr, fn_arg = ac_handler_ref ?y\<rparr>]" "as_conns (r_app t) 103 = Some ?y" by auto
  have ln: "hl_line (connection_line m) = ''CONNECTION: close'' @ CRLF"
    using m(2) by (simp add: connection_line_def lines_keep_alive_def hl_line_def HEADER_CONNECTION_KEY_def
        HEADER_CONNECTION_CLOSE_def KVPair_new_def hl_find_def toupper_def c_str_def)
  from async_response_bytes [OF t _ m(1) _ sd fl, of demo_io] obtain s' x' b where
    "server_step ?env (Run demo_io) t = Inr s'" "as_conns (r_app s') 103 = Some x'" "ac_active_output_buffer_ref x' = Some b"
    "iob_content b = (''HTTP/1.1  200 OK'' @ CRLF) @ concat (map hl_line (List_items (msg_headers resp) @ [connection_line m])) @
       CRLF @ msg_body_bytes resp" by auto
  then show ?thesis using r(10,11) ln by (intro exI [of _ ?env] exI [of _ t] exI [of _ s'] exI [of _ x'] exI [of _ b])
    (simp add: msg_body_bytes_def del: server_step.simps)
qed

theorem async_writer_exact_witness:
  "\<exists>s x s' x' b'. as_conns (r_app s) 103 = Some x \<and> server_step demo_env (Run (demo_io\<lparr>io_send := 2\<rparr>)) s = Inr s' \<and>
     as_conns (r_app s') 103 = Some x' \<and> ac_active_output_buffer_ref x' = Some b' \<and> iob_content b' = ''llo''"
proof -
  obtain s :: "unit async_st" and x where s: "core_inv {103} s" "as_conns (r_app s) 103 = Some x" "ac_input_message_ptr x = None"
    "ac_read_state x = READ_STATE_IDLE" "\<not> ac_readside_posted x" "conn_local x" "ready s = []" "list_ok s" by (rule demo_conn)
  obtain b where b: "iob_wf b" "iob_content b = ''hello''" using IOBuffer_from_buf_ok [of "''hello''"] by auto
  let ?y = "x\<lparr>ac_active_output_buffer_ref := Some b, ac_write_state := WRITE_STATE_ACTIVE\<rparr>"
  have "0 < iob_remaining b" using iob_content_length [OF b(1)] b(2) by simp
  then have "in_phase Writing 103 ?y [\<lparr>fn_f = async_postable_writer_ptr, fn_arg = 103\<rparr>]" using s(4,5) by (simp add: in_phase_def)
  moreover have "same_id x ?y" "conn_local ?y" "ac_input_message_ptr ?y = None" using s(3,6) b(1) by (simp_all add: conn_local_def)
  ultimately obtain t :: "unit async_st" where t: "async_inv t"
    "ready t = [\<lparr>fn_f = async_postable_writer_ptr, fn_arg = 103\<rparr>]" "as_conns (r_app t) 103 = Some ?y"
    using demo_phase [OF s(1,2,7,8)] by blast
  from async_writer_exact [OF t, of b "demo_io\<lparr>io_send := 2\<rparr>" demo_env] b(2) t(3) show ?thesis
    by (auto simp del: server_step.simps)
qed

end
