(* ===== verification/CH_Sync.thy ===== *)
theory CH_Sync
  imports CH_HttpParser CH_Reply CH_Queue
begin

text \<open>
  The synchronous server and client: the connection of \<open>sync/sync_connection.c\<close>, the worker thread
  of \<open>sync/worker.c\<close> with the example application of \<open>sync/sync_handler_example.c\<close>, and the parts
  of \<open>sync/sync_server.c\<close> and \<open>sync/sync_client.c\<close> that are not system calls only.  A connection is
  kept as the \<open>handler_context\<close> of its parser, which is how the code links the two.  What the
  socket delivers and accepts is an input: the results of the reads to come, the results of the
  writes to come, and the bytes written so far.
\<close>

section \<open>Data\<close>

definition SYNC_SERVER_TAG :: string where "SYNC_SERVER_TAG = ''SYNCSVER''"
definition SYNC_CONNECTION_TAG :: string where "SYNC_CONNECTION_TAG = ''SYNCCONN''"
definition SYNC_WORKER_TAG :: string where "SYNC_WORKER_TAG = ''SYWRKR''"
definition sync_client_TAG :: string where "sync_client_TAG = ''SYCLNT''"

definition HPE_USER :: int where "HPE_USER = 24"

record sync_connection =
  sc_tag :: string
  sc_iobuffer :: "IOBuffer option"
  sc_socketfd :: int
  sc_read_buffer_size :: "nat option"
  sc_input_list :: "Message List"
  sc_reader_status :: int

type_synonym 'l sync_conn = "('l, sync_connection) http_parser"

text \<open>
  The socket.  A read returns -1 (\<open>None\<close>: an error, or the receive timeout of five seconds that
  is set before every read), 0 (\<open>Some []\<close>: closed by the peer) or bytes; when the list is used up
  the peer stays silent and the read times out.  A write takes as many bytes as the next entry
  says (all of them when there is none), or fails when the entry is negative.
\<close>

record sync_io =
  si_reads :: "string option list"
  si_writes :: "int list"
  si_wire :: string

text \<open>The vendored parser, as for the asynchronous server.\<close>

record 'l sync_env =
  y_llhttp_init :: 'l
  y_llhttp_execute :: "'l \<Rightarrow> string \<Rightarrow> ll_event list \<times> 'l \<times> int"
  y_llhttp_finish :: "'l \<Rightarrow> ll_event list \<times> 'l \<times> int"
  y_llhttp_method_name :: "int \<Rightarrow> string"

section \<open>Connection\<close>

definition parser_on_message_handler :: "sync_connection message_handler" where
  "parser_on_message_handler c input_message_ref =
     rbind (List_add_back (sc_input_list c) input_message_ref) (\<lambda>l.
     Inr (0, c\<lparr>sc_input_list := l, sc_reader_status := 1\<rparr>))"

text \<open>The list's deallocator is only called when a list that holds messages is disposed of.\<close>

definition sync_connection_init :: "'l sync_env \<Rightarrow> int \<Rightarrow> nat option \<Rightarrow> 'l sync_conn res" where
  "sync_connection_init env socketfd read_buffer_size =
     http_parser_new (y_llhttp_init env)
       \<lparr>sc_tag = SYNC_CONNECTION_TAG, sc_iobuffer = Some IOBuffer_new, sc_socketfd = socketfd,
        sc_read_buffer_size = read_buffer_size, sc_input_list = List_new NullingDealloc,
        sc_reader_status = 0\<rparr>"

definition sync_connection_new :: "'l sync_env \<Rightarrow> int \<Rightarrow> nat option \<Rightarrow> 'l sync_conn res" where
  "sync_connection_new env socketfd read_buffer_size = sync_connection_init env socketfd read_buffer_size"

definition SC_CHECK :: "'l sync_conn \<Rightarrow> sync_connection res" where
  "SC_CHECK p = rbind (check_tag SYNC_CONNECTION_TAG (sc_tag (hp_handler_context p))) (\<lambda>_. Inr (hp_handler_context p))"

text \<open>Neither the parser nor the list of messages is released, and the socket stays open.\<close>

definition sync_connection_destroy :: "'l sync_conn \<Rightarrow> 'l sync_conn res" where
  "sync_connection_destroy p =
     rbind (SC_CHECK p) (\<lambda>c.
     rbind (c_deref (sc_iobuffer c)) (\<lambda>b.
     rbind (IOBuffer_dispose b) (\<lambda>gone.
     Inr (p\<lparr>hp_handler_context := c\<lparr>sc_iobuffer := gone, sc_tag := ''invalid''\<rparr>\<rparr>))))"

definition sync_connection_dispose :: "'l sync_conn \<Rightarrow> 'l sync_conn option res" where
  "sync_connection_dispose p =
     rbind (SC_CHECK p) (\<lambda>_. rbind (sync_connection_destroy p) (\<lambda>_. Inr None))"

text \<open>
  The loop of \<open>sync_connection_read\<close>, one entry of the list per call of \<open>read\<close>.  The branch for
  \<open>HPE_PAUSED\<close> only writes to the log.
\<close>

fun sync_connection_read ::
  "'l sync_env \<Rightarrow> string option list \<Rightarrow> 'l sync_conn \<Rightarrow> (int \<times> 'l sync_conn \<times> string option list) res" where
  "sync_connection_read env [] p = rbind (SC_CHECK p) (\<lambda>_. Inr (HPE_USER, p, []))"
| "sync_connection_read env (r # reads) p =
     rbind (SC_CHECK p) (\<lambda>_.
     case r of
       None \<Rightarrow> Inr (HPE_USER, p, reads)
     | Some buffer \<Rightarrow>
         if buffer = [] then Inr (HPE_USER, p, reads)
         else
           rbind (http_parser_consume (y_llhttp_execute env) (y_llhttp_finish env) parser_on_message_handler p buffer)
             (\<lambda>(rc, p1).
           let c = hp_handler_context p1 in
           if sc_socketfd c = - 1 then Inr (HPE_USER, p1, reads)
           else if rc \<noteq> 0 then Inr (rc, p1, reads)
           else if sc_reader_status c \<noteq> 0 then
             rbind (c_assert (List_size (sc_input_list c) > 0)) (\<lambda>_. Inr (0, p1, reads))
           else sync_connection_read env reads p1))"

definition sync_connection_read_message ::
  "'l sync_env \<Rightarrow> 'l sync_conn \<Rightarrow> sync_io \<Rightarrow> (int \<times> Message option \<times> 'l sync_conn \<times> sync_io) res" where
  "sync_connection_read_message env p io =
     rbind (SC_CHECK p) (\<lambda>c.
     rbind (if List_size (sc_input_list c) \<le> 0 then
              rbind (sync_connection_read env (si_reads io) (p\<lparr>hp_handler_context := c\<lparr>sc_reader_status := 0\<rparr>\<rparr>))
                (\<lambda>(rc, p1, reads).
              let c1 = hp_handler_context p1;
                  gotone = (rc = 0 \<and> sc_reader_status c1 = 1 \<and> List_size (sc_input_list c1) > 0);
                  goterror = (rc \<noteq> 0 \<and> sc_reader_status c1 = 0 \<and> List_size (sc_input_list c1) \<le> 0) in
              rbind (c_assert (gotone \<or> goterror)) (\<lambda>_. Inr (goterror, p1, io\<lparr>si_reads := reads\<rparr>)))
            else Inr (False, p, io)) (\<lambda>(failed, p1, io1).
     if failed then Inr (- 1, None, p1, io1)
     else
       let c1 = hp_handler_context p1 in
       rbind (c_assert (List_size (sc_input_list c1) > 0)) (\<lambda>_.
       rbind (List_remove_first (sc_input_list c1)) (\<lambda>(mref, l).
       Inr (1, mref, p1\<lparr>hp_handler_context := c1\<lparr>sc_input_list := l\<rparr>\<rparr>, io1)))))"

definition sync_connection_write ::
  "'l sync_env \<Rightarrow> 'l sync_conn \<Rightarrow> Message \<Rightarrow> sync_io \<Rightarrow> (int \<times> sync_io) res" where
  "sync_connection_write env p msg_ref io =
     rbind (SC_CHECK p) (\<lambda>_.
     rbind (Message_serialize (y_llhttp_method_name env) msg_ref) (\<lambda>serialized.
     let bytes = iob_content serialized in
     case si_writes io of
       [] \<Rightarrow> Inr (int (length bytes), io\<lparr>si_wire := si_wire io @ bytes\<rparr>)
     | n # ns \<Rightarrow>
         if n < 0 then Inr (- 1, io\<lparr>si_writes := ns\<rparr>)
         else Inr (min n (int (length bytes)),
                   io\<lparr>si_writes := ns, si_wire := si_wire io @ take (nat n) bytes\<rparr>)))"

definition sync_connection_close :: "'l sync_conn \<Rightarrow> 'l sync_conn res" where
  "sync_connection_close p =
     rbind (SC_CHECK p) (\<lambda>c. Inr (p\<lparr>hp_handler_context := c\<lparr>sc_socketfd := - 1\<rparr>\<rparr>))"

section \<open>The worker record\<close>

record sync_worker =
  sw_tag :: string
  sw_active :: bool
  sw_active_socket :: int
  sw_listen_socket :: int
  sw_id :: int
  sw_read_buffer_size :: "nat option"
  sw_working :: "bool option"

definition sync_worker_new :: "int \<Rightarrow> int \<Rightarrow> nat option \<Rightarrow> sync_worker" where
  "sync_worker_new listen_socket ident read_buffer_size =
     \<lparr>sw_tag = SYNC_WORKER_TAG, sw_active = False, sw_active_socket = 0, sw_listen_socket = listen_socket,
      sw_id = ident, sw_read_buffer_size = read_buffer_size, sw_working = None\<rparr>"

definition sync_worker_socketfd :: "sync_worker \<Rightarrow> int res" where
  "sync_worker_socketfd wref = rbind (check_tag SYNC_WORKER_TAG (sw_tag wref)) (\<lambda>_. Inr (sw_active_socket wref))"

section \<open>The example application\<close>

definition HEADER_CONTENT_TYPE :: string where "HEADER_CONTENT_TYPE = ''CONTENT-TYPE''"
definition HEADER_ECHO_ID :: string where "HEADER_ECHO_ID = ''C-HTTP-ECHO-ID''"
definition HTTP_STATUS_OK :: int where "HTTP_STATUS_OK = 200"

text \<open>
  The date comes from \<open>strftime\<close>.  The conversion \<open>%ld\<close> reads a \<open>long\<close> where the call passes the \<open>int\<close>
  parameter \<open>pthread_self_value\<close>, which C leaves undefined; \<open>va_long\<close> is the \<open>long\<close> that \<open>asprintf\<close> finds
  there and prints.
\<close>

definition simple_response_body :: "string \<Rightarrow> string \<Rightarrow> int \<Rightarrow> int \<Rightarrow> BufferChain res" where
  "simple_response_body message dt_s socket va_long =
     rbind (c_assert (dt_s \<noteq> [])) (\<lambda>_.
     BufferChain_append_cstr BufferChain_new
       (''<html><head></head><body>'' @ c_str message @ ''<p>Date/Time is '' @ c_str dt_s @ ''</p><p>socket: '' @
        int_digits socket @ ''</p><p>p_thread_self '' @ int_digits va_long @ ''</p></body></html>''))"

definition echo_body_buffer_chain :: "(int \<Rightarrow> string) \<Rightarrow> Message \<Rightarrow> BufferChain res" where
  "echo_body_buffer_chain nm request =
     rbind (Message_serialize nm request) (\<lambda>iob_body. BufferChain_append_IOBuffer BufferChain_new iob_body)"

text \<open>\<open>tid\<close> is what the page prints for the worker's thread, whose identifier is cut to an \<open>int\<close> on the way.\<close>

definition app_handler_example :: "(int \<Rightarrow> string) \<Rightarrow> string \<Rightarrow> int \<Rightarrow> sync_worker \<Rightarrow> Message \<Rightarrow> Message res" where
  "app_handler_example nm dt_s tid wref request =
     rbind Message_new_response (\<lambda>response.
     rbind (Message_get_target_cbuffer request) (\<lambda>target.
     rbind (rbind (Cbuffer_cstr target) cstr_of) (\<lambda>target_cstr.
     rbind (if target_cstr = ''/echo'' then
              rbind (Message_get_header_value request HEADER_ECHO_ID) (\<lambda>echo_value.
              rbind (case echo_value of None \<Rightarrow> Inr response
                     | Some v \<Rightarrow> Message_add_header_cstring response HEADER_ECHO_ID v) (\<lambda>response.
              rbind (echo_body_buffer_chain nm request) (\<lambda>body_chain. Inr (response, body_chain))))
            else
              rbind (sync_worker_socketfd wref) (\<lambda>socket.
              rbind (simple_response_body ''<h2>this is a message</h2>'' dt_s socket tid) (\<lambda>body_chain.
              Inr (response, body_chain)))) (\<lambda>(response, body_chain).
     rbind (Message_set_status response HTTP_STATUS_OK) (\<lambda>response.
     rbind (Message_set_reason response ''OK'') (\<lambda>response.
     rbind (Message_add_header_cstring response HEADER_CONTENT_TYPE ''text/html; charset=UTF-8'') (\<lambda>response.
     rbind (Message_set_body response (Some body_chain)) (\<lambda>response.
     Message_set_content_length response (BufferChain_size body_chain)))))))))"

section \<open>Worker\<close>

text \<open>
  The body of the worker's inner loop for a request: the application is called, the connection
  line added, both messages are printed for the log and the response is written.  The result of
  the write is not looked at.
\<close>

definition worker_reply ::
  "'l sync_env \<Rightarrow> (sync_worker \<Rightarrow> Message \<Rightarrow> Message res) \<Rightarrow> sync_worker \<Rightarrow> Message \<Rightarrow> 'l sync_conn \<Rightarrow> sync_io \<Rightarrow>
   (int \<times> sync_io) res" where
  "worker_reply env app_handler wref request p io =
     rbind (app_handler wref request) (\<lambda>response.
     rbind (Message_cmp_header request HEADER_CONNECTION_KEY HEADER_CONNECTION_KEEPALIVE) (\<lambda>cmp_tmp.
     rbind (add_connection_header request response) (\<lambda>response.
     rbind (Message_dump (y_llhttp_method_name env) request) (\<lambda>request_serialized.
     rbind (Message_dump (y_llhttp_method_name env) response) (\<lambda>response_serialized.
     rbind (IOBuffer_free request_serialized) (\<lambda>_.
     rbind (IOBuffer_free response_serialized) (\<lambda>_.
     rbind (sync_connection_write env p response io) (\<lambda>(rc, io).
     Inr (cmp_tmp, io)))))))))"

text \<open>
  The inner loop serves the requests of one connection.  It runs once per message; the fuel
  bounds the number of messages.
\<close>

fun worker_loop ::
  "'l sync_env \<Rightarrow> (sync_worker \<Rightarrow> Message \<Rightarrow> Message res) \<Rightarrow> sync_worker \<Rightarrow> nat \<Rightarrow> 'l sync_conn \<Rightarrow> sync_io \<Rightarrow>
   ('l sync_conn \<times> sync_io) res" where
  "worker_loop env app_handler wref 0 p io = Inl NoReturn"
| "worker_loop env app_handler wref (Suc k) p io =
     rbind (sync_connection_read_message env p io) (\<lambda>(gotone, request_ptr, p, io).
     if gotone \<noteq> 0 then
       case request_ptr of
         None \<Rightarrow> Inl Assertion
       | Some request \<Rightarrow>
           rbind (worker_reply env app_handler wref request p io) (\<lambda>(cmp_tmp, io).
           if cmp_tmp \<noteq> 1 then Inr (p, io) else worker_loop env app_handler wref k p io)
     else Inr (p, io))"

text \<open>
  \<open>Worker_main\<close>: one entry per \<open>accept\<close>, with the socket it returns and what will happen on that
  socket; when the list is used up \<open>accept\<close> fails.  The result is the bytes written to each
  connection.  The workers do not use the queue in the configuration that is built.
\<close>

fun Worker_main ::
  "'l sync_env \<Rightarrow> (sync_worker \<Rightarrow> Message \<Rightarrow> Message res) \<Rightarrow> nat \<Rightarrow> (int \<times> sync_io) list \<Rightarrow> sync_worker \<Rightarrow>
   (sync_worker \<times> string list) res" where
  "Worker_main env app_handler k [] wref =
     rbind (check_tag SYNC_WORKER_TAG (sw_tag wref)) (\<lambda>_. Inr (wref\<lparr>sw_active := False\<rparr>, []))"
| "Worker_main env app_handler k ((sock2, io) # accepts) wref =
     rbind (check_tag SYNC_WORKER_TAG (sw_tag wref)) (\<lambda>_.
     let wref = wref\<lparr>sw_active := False\<rparr> in
     if sock2 \<le> 0 then Inr (wref, [])
     else
       let wref = wref\<lparr>sw_active_socket := sock2, sw_active := True\<rparr> in
       rbind (sync_connection_new env sock2 (sw_read_buffer_size wref)) (\<lambda>conn.
       rbind (worker_loop env app_handler wref k conn io) (\<lambda>(p, io).
       rbind (sync_connection_dispose p) (\<lambda>_.
       rbind (Worker_main env app_handler k accepts (wref\<lparr>sw_working := Some False\<rparr>)) (\<lambda>(wref, wires).
       Inr (wref, si_wire io # wires))))))"

section \<open>Server\<close>

text \<open>The queue pointer is only set when the workers use the queue; here it stays indeterminate.\<close>

record sync_server =
  ss_tag :: string
  ss_port :: int
  ss_read_buffer_size :: "nat option"
  ss_socket_fd :: "int option"
  ss_nbr_workers :: int
  ss_qref :: "Queue option option"

definition MAX_THREADS :: int where "MAX_THREADS = 100"

definition sync_server_new :: "int \<Rightarrow> nat \<Rightarrow> int \<Rightarrow> sync_server res" where
  "sync_server_new port read_buffer_size nbr_threads =
     rbind (c_assert (nbr_threads < MAX_THREADS)) (\<lambda>_.
     Inr \<lparr>ss_tag = SYNC_SERVER_TAG, ss_port = port, ss_read_buffer_size = None, ss_socket_fd = None,
          ss_nbr_workers = nbr_threads, ss_qref = None\<rparr>)"

definition sync_server_dispose :: "sync_server \<Rightarrow> sync_server option res" where
  "sync_server_dispose sref = rbind (check_tag SYNC_SERVER_TAG (ss_tag sref)) (\<lambda>_. Inr None)"

text \<open>\<open>sync_worker_start\<close> returns what \<open>pthread_create\<close> returned: zero, or an error number.\<close>

definition sync_worker_start :: "int \<Rightarrow> sync_worker \<Rightarrow> int res" where
  "sync_worker_start rc wref = rbind (check_tag SYNC_WORKER_TAG (sw_tag wref)) (\<lambda>_. Inr rc)"

text \<open>
  The loop that starts the workers; \<open>starts i\<close> is the result of \<open>pthread_create\<close> for worker \<open>i\<close>.  The
  result is the workers that were started, and whether the loop was left because one could not be.
\<close>

fun start_workers :: "(nat \<Rightarrow> int) \<Rightarrow> (nat \<Rightarrow> sync_worker) \<Rightarrow> nat list \<Rightarrow> (nat list \<times> bool) res" where
  "start_workers starts wref [] = Inr ([], False)"
| "start_workers starts wref (i # ids) =
     rbind (sync_worker_start (starts i) (wref i)) (\<lambda>rc.
     if rc \<noteq> 0 then Inr ([], True)
     else rbind (start_workers starts wref ids) (\<lambda>(started, aborted). Inr (i # started, aborted)))"

text \<open>
  \<open>sync_server_listen\<close> starts the workers on the listening socket; each of them runs on the
  connections it accepts.  The threads share nothing but the listening socket, so they are run one after
  the other.  When a worker cannot be started the function returns at once: then \<open>accepts\<close> is what the
  workers before it serve until the process ends.  Otherwise the workers are joined and the queue is
  disposed of.
\<close>

definition sync_server_listen ::
  "'l sync_env \<Rightarrow> (sync_worker \<Rightarrow> Message \<Rightarrow> Message res) \<Rightarrow> nat \<Rightarrow> int \<Rightarrow> (nat \<Rightarrow> int) \<Rightarrow> (nat \<Rightarrow> (int \<times> sync_io) list) \<Rightarrow>
   sync_server \<Rightarrow> sync_server res" where
  "sync_server_listen env app_handler k socket_fd starts accepts server =
     (let server = server\<lparr>ss_tag := SYNC_SERVER_TAG, ss_socket_fd := Some socket_fd\<rparr>;
          wref = (\<lambda>i. sync_worker_new socket_fd (int i) (ss_read_buffer_size server)) in
      rbind (start_workers starts wref [0..<nat (ss_nbr_workers server)]) (\<lambda>(started, aborted).
      rbind (rfold (\<lambda>i _. rbind (Worker_main env app_handler k (accepts i) (wref i)) (\<lambda>_. Inr ())) started ()) (\<lambda>_.
      if aborted then Inr server
      else
        rbind (c_init (ss_qref server)) (\<lambda>q.
        rbind (Queue_dispose q) (\<lambda>(q, _).
        Inr (server\<lparr>ss_qref := Some q\<rparr>))))))"

section \<open>Client\<close>

record 'l sync_client =
  sy_tag :: "string option"
  sy_user_ptr :: "addr option"
  sy_read_buffer_size :: "nat option"
  sy_connection_ptr :: "'l sync_conn option"

text \<open>\<open>sync_client_new\<close> has no return statement; this is the object it builds.\<close>

definition sync_client_new :: "nat \<Rightarrow> 'l sync_client" where
  "sync_client_new read_buffer_size =
     \<lparr>sy_tag = Some sync_client_TAG, sy_user_ptr = None, sy_read_buffer_size = None, sy_connection_ptr = None\<rparr>"

text \<open>\<open>sync_client_init\<close> does not set the tag of the storage it is given.\<close>

definition sync_client_init :: "'l sync_client \<Rightarrow> nat \<Rightarrow> 'l sync_client" where
  "sync_client_init this read_buffer_size =
     this\<lparr>sy_connection_ptr := None, sy_user_ptr := None, sy_read_buffer_size := Some read_buffer_size\<rparr>"

definition SY_CHECK :: "'l sync_client \<Rightarrow> unit res" where
  "SY_CHECK this = rbind (c_init (sy_tag this)) (check_tag sync_client_TAG)"

definition sync_client_destroy :: "'l sync_client \<Rightarrow> 'l sync_client res" where
  "sync_client_destroy this =
     rbind (SY_CHECK this) (\<lambda>_.
     rbind (case sy_connection_ptr this of None \<Rightarrow> Inr None | Some p \<Rightarrow> sync_connection_dispose p) (\<lambda>gone.
     Inr (this\<lparr>sy_connection_ptr := gone, sy_tag := Some ''invalid''\<rparr>)))"

definition sync_client_dispose :: "'l sync_client \<Rightarrow> 'l sync_client option res" where
  "sync_client_dispose this =
     rbind (SY_CHECK this) (\<lambda>_. rbind (sync_client_destroy this) (\<lambda>_. Inr None))"

text \<open>
  The loop over the addresses of a host never moves to the next one: the third part of the
  \<open>for\<close> statement has no effect.  An entry is whether \<open>socket\<close> and \<open>connect\<close> succeed on the first
  address at that turn, with the descriptor; the loop ends only when they do.
\<close>

fun connection_helper ::
  "'l sync_env \<Rightarrow> (int \<times> bool) list \<Rightarrow> 'l sync_client \<Rightarrow> 'l sync_client res" where
  "connection_helper env [] this = Inl NoReturn"
| "connection_helper env ((sfd, connected) # turns) this =
     (if sfd = - 1 then connection_helper env turns this
      else if connected then
        rbind (sync_connection_new env sfd (sy_read_buffer_size this)) (\<lambda>p.
        Inr (this\<lparr>sy_connection_ptr := Some p\<rparr>))
      else connection_helper env turns this)"

definition sync_client_connect ::
  "'l sync_env \<Rightarrow> (int \<times> bool) list \<Rightarrow> 'l sync_client \<Rightarrow> 'l sync_client res" where
  "sync_client_connect env turns this = rbind (SY_CHECK this) (\<lambda>_. connection_helper env turns this)"

definition sync_client_close :: "'l sync_client \<Rightarrow> 'l sync_client res" where
  "sync_client_close this =
     rbind (c_deref (sy_connection_ptr this)) (\<lambda>p.
     rbind (sync_connection_close p) (\<lambda>p. Inr (this\<lparr>sy_connection_ptr := Some p\<rparr>)))"

definition sync_client_get_userptr :: "'l sync_client \<Rightarrow> addr option res" where
  "sync_client_get_userptr this = rbind (SY_CHECK this) (\<lambda>_. Inr (sy_user_ptr this))"

definition sync_client_set_userptr :: "'l sync_client \<Rightarrow> addr option \<Rightarrow> 'l sync_client res" where
  "sync_client_set_userptr this userptr = rbind (SY_CHECK this) (\<lambda>_. Inr (this\<lparr>sy_user_ptr := userptr\<rparr>))"

end
