(* ===== verification/CH_SyncProps.thy ===== *)
theory CH_SyncProps
  imports CH_Sync CH_ParserTyping
begin

text \<open>
  What a synchronous connection delivers: requests cut into any number of
  reads arrive whole, in order and once each.
\<close>

section \<open>The parser over several reads\<close>

lemma ll_dispatch_kept:
  assumes "hp_typed p" and "e \<noteq> On_message_complete" and "ll_dispatch h e p = Inr (rc, p')"
  shows "kept p p'"
  using assms message_begin_typed [OF assms(1)] url_data_typed [OF assms(1)] status_data_typed [OF assms(1)]
    header_field_typed [OF assms(1)] header_value_typed [OF assms(1)] headers_complete_typed [OF assms(1)]
    body_data_typed [OF assms(1)]
  by (cases e) (auto simp: return_0_cb_def method_data_cb_def version_data_cb_def chunk_extension_name_cb_def
      chunk_extension_value_cb_def)

lemma ll_run_kept:
  assumes "hp_typed p" and "On_message_complete \<notin> set es" and "ll_run h es p = Inr (rc, p')"
  shows "kept p p'"
  using assms
proof (induction es arbitrary: p)
  case (Cons e es)
  from Cons.prems(3) obtain rc1 p1 where d: "ll_dispatch h e p = Inr (rc1, p1)"
    "(if rc1 = 0 then ll_run h es p1 else Inr (rc1, p1)) = Inr (rc, p')" by (auto simp: rbind_eq_Inr)
  have "kept p p1" using ll_dispatch_kept [OF Cons.prems(1) _ d(1)] Cons.prems(2) by auto
  with d(2) Cons.IH [of p1] Cons.prems(2) show ?case by (auto split: if_splits)
qed simp

text \<open>The callbacks do not look at the state of \<open>llhttp\<close>.\<close>

abbreviation set_ll :: "'l \<Rightarrow> ('l, 'c) http_parser \<Rightarrow> ('l, 'c) http_parser" where
  "set_ll l p \<equiv> p\<lparr>hp_llhttp := l\<rparr>"

lemma set_ll_swap:
  "(set_ll l p)\<lparr>hp_header_state := h\<rparr> = set_ll l (p\<lparr>hp_header_state := h\<rparr>)"
  "(set_ll l p)\<lparr>hp_current_message_ptr := m\<rparr> = set_ll l (p\<lparr>hp_current_message_ptr := m\<rparr>)"
  by (cases p; simp)+

lemma flush_header_ll: "flush_header (set_ll l p) = rbind (flush_header p) (\<lambda>p. Inr (set_ll l p))"
  by (cases p) (simp add: flush_header_def rbind_assoc if_distrib [where f = "\<lambda>m. rbind m _"] cong: if_cong)

lemma append_name_ll: "append_name (set_ll l p) at = rbind (append_name p at) (\<lambda>p. Inr (set_ll l p))"
  by (cases p) (simp add: append_name_def rbind_assoc)

lemma ll_dispatch_ll:
  "ll_dispatch h e (set_ll l p) = rbind (ll_dispatch h e p) (\<lambda>(rc, p). Inr (rc, set_ll l p))"
proof (cases e)
  case (On_header_field at)
  then show ?thesis
    by (simp add: header_field_data_cb_def HP_CHECK_def Let_def rbind_assoc set_ll_swap flush_header_ll append_name_ll
        if_distrib [where f = "\<lambda>m. rbind m _"] cong: if_cong)
next
  case (On_header_value at)
  then show ?thesis
    by (cases p) (simp add: header_value_data_cb_def HP_CHECK_def Let_def rbind_assoc
        if_distrib [where f = "\<lambda>m. rbind m _"] cong: if_cong)
next
  case (On_headers_complete a b c)
  then show ?thesis
    by (cases "flush_header p") (auto simp: headers_complete_cb_def HP_CHECK_def rbind_assoc flush_header_ll
        set_ll_swap intro!: rbind_cong)
next
  case On_message_complete
  then show ?thesis
    by (cases p) (simp add: message_complete_cb_def HP_CHECK_def rbind_assoc case_prod_unfold)
qed (cases p; simp add: message_begin_cb_def url_data_cb_def status_data_cb_def body_data_cb_def HP_CHECK_def rbind_assoc
    return_0_cb_def method_data_cb_def version_data_cb_def chunk_extension_name_cb_def chunk_extension_value_cb_def)+

lemma ll_run_ll:
  "ll_run h es (set_ll l p) = rbind (ll_run h es p) (\<lambda>(rc, p). Inr (rc, set_ll l p))"
proof (induction es arbitrary: p)
  case (Cons e es)
  show ?case
  proof (cases "ll_dispatch h e p")
    case (Inr x)
    then show ?thesis using Cons by (cases x) (simp add: ll_dispatch_ll)
  qed (simp add: ll_dispatch_ll)
qed simp

section \<open>Reading\<close>

text \<open>The events \<open>llhttp\<close> makes of a sequence of chunks without an error, and its state after them.\<close>

fun ll_chunks :: "('l \<Rightarrow> string \<Rightarrow> ll_event list \<times> 'l \<times> int) \<Rightarrow> 'l \<Rightarrow> string list \<Rightarrow> (ll_event list \<times> 'l) option" where
  "ll_chunks exec l [] = Some ([], l)"
| "ll_chunks exec l (b # bs) =
     (case exec l b of (es, l1, e) \<Rightarrow>
        if e = 0 \<and> b \<noteq> [] then map_option (\<lambda>(fs, l2). (es @ fs, l2)) (ll_chunks exec l1 bs) else None)"

definition sc_open :: "sync_connection \<Rightarrow> bool" where
  "sc_open c \<longleftrightarrow> sc_tag c = SYNC_CONNECTION_TAG \<and> sc_socketfd c \<noteq> - 1 \<and> List_wf (sc_input_list c)"

lemma SC_CHECK_open: "sc_open (hp_handler_context p) \<Longrightarrow> SC_CHECK p = Inr (hp_handler_context p)"
  by (simp add: SC_CHECK_def sc_open_def)

lemma consume_run:
  assumes "hp_typed p" and "b \<noteq> []" and "exec (hp_llhttp p) b = (es, l, e)" and "ll_run h es p = Inr (0, q)"
  shows "http_parser_consume exec fin h p b = Inr (e, set_ll l q)"
  using assms by (simp add: http_parser_consume_def HP_CHECK_def hp_typed_def)

lemma read_chunks:
  assumes "hp_typed p" and "sc_open (hp_handler_context p)" and "sc_reader_status (hp_handler_context p) = 0"
    and "ll_chunks (y_llhttp_execute env) (hp_llhttp p) bs = Some (es1, l1)" and "On_message_complete \<notin> set es1"
    and "b \<noteq> []" and "y_llhttp_execute env l1 b = (es, l2, e)"
    and "ll_run parser_on_message_handler (es1 @ es) p = Inr (0, q)" and "sc_open (hp_handler_context q)"
    and "e \<noteq> 0 \<or> sc_reader_status (hp_handler_context q) \<noteq> 0 \<and> List_items (sc_input_list (hp_handler_context q)) \<noteq> []"
  shows "sync_connection_read env (map Some bs @ Some b # rest) p = Inr (e, set_ll l2 q, rest)"
  using assms
proof (induction bs arbitrary: p es1 q)
  case Nil
  then have "http_parser_consume (y_llhttp_execute env) (y_llhttp_finish env) parser_on_message_handler p b = Inr (e, set_ll l2 q)"
    using consume_run [OF Nil.prems(1,6)] by simp
  with Nil.prems(2,6,9,10) show ?case by (auto simp: SC_CHECK_open sc_open_def List_size_wf Let_def)
next
  case (Cons b0 bs)
  let ?h = parser_on_message_handler
  from Cons.prems(4) obtain es0 l0 fs where c: "y_llhttp_execute env (hp_llhttp p) b0 = (es0, l0, 0)" "b0 \<noteq> []"
    "ll_chunks (y_llhttp_execute env) l0 bs = Some (fs, l1)" "es1 = es0 @ fs"
    by (auto split: prod.splits if_splits)
  from Cons.prems(8) obtain p1 where p1: "ll_run ?h es0 p = Inr (0, p1)" "ll_run ?h (fs @ es) p1 = Inr (0, q)"
    unfolding c(4) by (auto simp: ll_run_append rbind_eq_Inr split: if_splits)
  have k: "kept p p1" using ll_run_kept [OF Cons.prems(1) _ p1(1)] Cons.prems(5) c(4) by auto
  have t: "hp_typed (set_ll l0 p1)" using k by (simp add: hp_typed_def)
  have run: "ll_run ?h (fs @ es) (set_ll l0 p1) = Inr (0, set_ll l0 q)" using p1(2) by (simp add: ll_run_ll)
  have IH: "sync_connection_read env (map Some bs @ Some b # rest) (set_ll l0 p1) = Inr (e, set_ll l2 q, rest)"
    using Cons.IH [OF t _ _ _ _ Cons.prems(6,7) run] Cons.prems(2,3,5,9,10) k c(3,4) by simp
  have "http_parser_consume (y_llhttp_execute env) (y_llhttp_finish env) ?h p b0 = Inr (0, set_ll l0 p1)"
    using consume_run [where exec = "y_llhttp_execute env", OF Cons.prems(1) c(2,1) p1(1)] .
  then show ?case using IH c(2) k Cons.prems(2,3) by (simp add: SC_CHECK_open sc_open_def)
qed

text \<open>The handler appends every message it is given to the list of the connection.\<close>

lemma sync_run_requests:
  assumes "hp_ready p" and "sc_open (hp_handler_context p)" and "\<forall>r \<in> set rs. frag_request_ok r"
  shows "\<exists>q ms. ll_run parser_on_message_handler (concat (map request_events rs)) p = Inr (0, q) \<and> hp_ready q \<and>
     sc_open (hp_handler_context q) \<and> list_all2 is_request_of rs ms \<and>
     List_items (sc_input_list (hp_handler_context q)) = List_items (sc_input_list (hp_handler_context p)) @ ms \<and>
     sc_reader_status (hp_handler_context q) = (if rs = [] then sc_reader_status (hp_handler_context p) else 1) \<and>
     sc_iobuffer (hp_handler_context q) = sc_iobuffer (hp_handler_context p)"
  using assms
proof (induction rs arbitrary: p)
  case (Cons r rs)
  let ?h = parser_on_message_handler and ?c = "hp_handler_context p"
  obtain m p1 where p1: "is_request_of r m" "hp_ready p1" "ll_run ?h (request_events r) p =
     rbind (?h ?c m) (\<lambda>(rc, ctx). Inr (rc, p1\<lparr>hp_handler_context := ctx\<rparr>))"
    using run_request [OF Cons.prems(1), of r ?h] Cons.prems(3) by auto
  obtain l where l: "List_add_back (sc_input_list ?c) m = Inr l" "List_wf l" "List_items l = List_items (sc_input_list ?c) @ [m]"
    using List_add_back_wf [of "sc_input_list ?c" m] Cons.prems(2) by (auto simp: sc_open_def)
  let ?p2 = "p1\<lparr>hp_handler_context := ?c\<lparr>sc_input_list := l, sc_reader_status := 1\<rparr>\<rparr>"
  have run: "ll_run ?h (request_events r) p = Inr (0, ?p2)" using p1(3) l(1) by (simp add: parser_on_message_handler_def)
  have "sc_open (hp_handler_context ?p2)" using Cons.prems(2) l(2) by (simp add: sc_open_def)
  from Cons.IH [OF hp_ready_ctx [OF p1(2)] this] Cons.prems(3) obtain q ms where
    "ll_run ?h (concat (map request_events rs)) ?p2 = Inr (0, q)" "hp_ready q" "sc_open (hp_handler_context q)"
    "list_all2 is_request_of rs ms"
    "List_items (sc_input_list (hp_handler_context q)) = (List_items (sc_input_list ?c) @ [m]) @ ms"
    "sc_reader_status (hp_handler_context q) = 1" "sc_iobuffer (hp_handler_context q) = sc_iobuffer ?c"
    using l(3) by (auto split: if_splits)
  then show ?case using run p1(1) by (auto simp: ll_run_append intro!: exI [of _ "m # ms"])
qed simp

lemma hp_ready_typed: "hp_ready p \<Longrightarrow> hp_typed p"
  by (auto simp: hp_ready_def hp_typed_def)

lemma read_message_pending:
  assumes "sc_open (hp_handler_context p)" and "List_items (sc_input_list (hp_handler_context p)) = m # ms"
  shows "\<exists>l. sync_connection_read_message env p io =
       Inr (1, Some m, p\<lparr>hp_handler_context := (hp_handler_context p)\<lparr>sc_input_list := l\<rparr>\<rparr>, io) \<and>
     List_wf l \<and> List_items l = ms"
proof -
  let ?l = "sc_input_list (hp_handler_context p)"
  have wf: "List_wf ?l" using assms(1) by (simp add: sc_open_def)
  obtain l where l: "List_remove_first ?l = Inr (Some m, l)" "List_wf l" "List_items l = ms"
    using List_remove_first_wf [OF wf] assms(2) by auto
  have "sync_connection_read_message env p io =
      Inr (1, Some m, p\<lparr>hp_handler_context := (hp_handler_context p)\<lparr>sc_input_list := l\<rparr>\<rparr>, io)"
    using assms l(1) by (simp add: sync_connection_read_message_def SC_CHECK_open List_size_wf [OF wf])
  with l(2,3) show ?thesis by blast
qed

text \<open>What a call that has to read leaves, when the read ends with the completion of messages.\<close>

lemma read_message_reads:
  assumes "sc_open (hp_handler_context p)" and "List_items (sc_input_list (hp_handler_context p)) = []"
    and "sync_connection_read env (si_reads io) (p\<lparr>hp_handler_context := (hp_handler_context p)\<lparr>sc_reader_status := 0\<rparr>\<rparr>) =
       Inr (0, q, reads)"
    and "sc_open (hp_handler_context q)" and "sc_reader_status (hp_handler_context q) = 1"
    and "List_items (sc_input_list (hp_handler_context q)) = m # ms"
  shows "\<exists>l. sync_connection_read_message env p io =
       Inr (1, Some m, q\<lparr>hp_handler_context := (hp_handler_context q)\<lparr>sc_input_list := l\<rparr>\<rparr>, io\<lparr>si_reads := reads\<rparr>) \<and>
     List_wf l \<and> List_items l = ms"
proof -
  let ?l = "sc_input_list (hp_handler_context q)"
  have wf: "List_wf ?l" "List_wf (sc_input_list (hp_handler_context p))" using assms(1,4) by (simp_all add: sc_open_def)
  obtain l where l: "List_remove_first ?l = Inr (Some m, l)" "List_wf l" "List_items l = ms"
    using List_remove_first_wf [OF wf(1)] assms(6) by auto
  have "sync_connection_read_message env p io =
      Inr (1, Some m, q\<lparr>hp_handler_context := (hp_handler_context q)\<lparr>sc_input_list := l\<rparr>\<rparr>, io\<lparr>si_reads := reads\<rparr>)"
    using assms l(1)
    by (simp add: sync_connection_read_message_def SC_CHECK_open List_size_wf [OF wf(1)] List_size_wf [OF wf(2)])
  with l(2,3) show ?thesis by blast
qed

text \<open>
  C13: Requests arrive whole, in order and once each: however the requests of a client are cut into
  reads, as long as \<open>llhttp\<close> makes their events of the bytes, the call that starts with no message
  pending reads until the first chunk that completes one, returns the first request, and keeps
  the others that this chunk completed for the calls to come.
\<close>

theorem sync_read_delivers:
  assumes "hp_ready p" and "sc_open (hp_handler_context p)" and "List_items (sc_input_list (hp_handler_context p)) = []"
    and "ll_chunks (y_llhttp_execute env) (hp_llhttp p) bs = Some (es1, l1)" and "On_message_complete \<notin> set es1"
    and "b \<noteq> []" and "y_llhttp_execute env l1 b = (es, l2, 0)"
    and "filter significant (es1 @ es) = concat (map request_events rs)" and "\<forall>r \<in> set rs. frag_request_ok r"
    and "rs \<noteq> []" and "si_reads io = map Some bs @ Some b # rest"
  shows "\<exists>m ms q. sync_connection_read_message env p io = Inr (1, Some m, q, io\<lparr>si_reads := rest\<rparr>) \<and>
     list_all2 is_request_of rs (m # ms) \<and> List_items (sc_input_list (hp_handler_context q)) = ms \<and>
     hp_ready q \<and> hp_llhttp q = l2 \<and> sc_open (hp_handler_context q)"
proof -
  let ?h = parser_on_message_handler and ?c = "(hp_handler_context p)\<lparr>sc_reader_status := 0\<rparr>"
  let ?p = "p\<lparr>hp_handler_context := ?c\<rparr>"
  have p: "hp_ready ?p" "sc_open (hp_handler_context ?p)" using assms(1,2) hp_ready_ctx by (auto simp: sc_open_def)
  from sync_run_requests [OF p assms(9)] assms(3,10) obtain q ms where
    q: "ll_run ?h (concat (map request_events rs)) ?p = Inr (0, q)" "hp_ready q" "sc_open (hp_handler_context q)"
    "list_all2 is_request_of rs ms" "List_items (sc_input_list (hp_handler_context q)) = ms"
    "sc_reader_status (hp_handler_context q) = 1" by auto
  obtain m ms' where ms: "ms = m # ms'" using q(4) assms(10) by (cases ms; cases rs) auto
  have run: "ll_run ?h (es1 @ es) ?p = Inr (0, q)" using q(1) assms(8) ll_run_significant [of ?h "es1 @ es" ?p] by simp
  have "sync_connection_read env (map Some bs @ Some b # rest) ?p = Inr (0, set_ll l2 q, rest)"
    by (rule read_chunks [OF hp_ready_typed [OF p(1)] p(2) _ _ assms(5-7) run q(3)]) (use assms(4) q(5,6) ms in simp_all)
  with read_message_reads [OF assms(2,3), of env io "set_ll l2 q" rest m ms'] q(3,5,6) ms assms(11) obtain l where
    l: "sync_connection_read_message env p io = Inr (1, Some m,
        (set_ll l2 q)\<lparr>hp_handler_context := (hp_handler_context q)\<lparr>sc_input_list := l\<rparr>\<rparr>, io\<lparr>si_reads := rest\<rparr>)"
    "List_wf l" "List_items l = ms'" by auto
  have "sc_open ((hp_handler_context q)\<lparr>sc_input_list := l\<rparr>)" "hp_ready (set_ll l2 q)"
    using q(2,3) l(2) by (simp_all add: sc_open_def hp_ready_def)
  with l q(4) ms hp_ready_ctx show ?thesis by fastforce
qed

text \<open>A client that sends one request in two reads.\<close>

definition demo_exec :: "nat \<Rightarrow> string \<Rightarrow> ll_event list \<times> nat \<times> int" where
  "demo_exec l b = (if l = 0 then (take 3 (request_events demo_request), 1, 0)
                    else (drop 3 (request_events demo_request), 0, 0))"

definition demo_sync_env :: "nat sync_env" where
  "demo_sync_env = \<lparr>y_llhttp_init = 0, y_llhttp_execute = demo_exec, y_llhttp_finish = (\<lambda>l. ([], l, 0)),
     y_llhttp_method_name = (\<lambda>_. ''GET'')\<rparr>"

lemma new_connection:
  "\<exists>p. sync_connection_new env fd n = Inr p \<and> hp_ready p \<and> hp_llhttp p = y_llhttp_init env \<and>
     (fd \<noteq> - 1 \<longrightarrow> sc_open (hp_handler_context p)) \<and> List_items (sc_input_list (hp_handler_context p)) = [] \<and>
     sc_reader_status (hp_handler_context p) = 0"
proof -
  let ?c = "\<lparr>sc_tag = SYNC_CONNECTION_TAG, sc_iobuffer = Some IOBuffer_new, sc_socketfd = fd,
        sc_read_buffer_size = n, sc_input_list = List_new NullingDealloc, sc_reader_status = 0\<rparr>"
  obtain p where p: "http_parser_new (y_llhttp_init env) ?c = Inr p" "hp_ready p" "hp_handler_context p = ?c"
    "hp_llhttp p = y_llhttp_init env" using http_parser_new_ready [of "y_llhttp_init env" ?c] by blast
  have "sync_connection_new env fd n = Inr p" using p(1) by (simp add: sync_connection_new_def sync_connection_init_def)
  then show ?thesis using p(2-4) by (intro exI [of _ p]) (simp add: sc_open_def List_new_wf List_new_items)
qed

theorem sync_read_delivers_witness:
  "\<exists>p m q. sync_connection_new demo_sync_env 7 None = Inr p \<and>
     sync_connection_read_message demo_sync_env p \<lparr>si_reads = [Some ''GE'', Some ''T'', None], si_writes = [], si_wire = []\<rparr> =
       Inr (1, Some m, q, \<lparr>si_reads = [None], si_writes = [], si_wire = []\<rparr>) \<and> is_request_of demo_request m"
proof -
  obtain p where p: "sync_connection_new demo_sync_env 7 None = Inr p" "hp_ready p" "sc_open (hp_handler_context p)"
    "List_items (sc_input_list (hp_handler_context p)) = []" "hp_llhttp p = 0"
    using new_connection [of demo_sync_env 7 None] by (auto simp: demo_sync_env_def)
  let ?io = "\<lparr>si_reads = [Some ''GE'', Some ''T'', None], si_writes = [], si_wire = []\<rparr>"
  have c: "ll_chunks (y_llhttp_execute demo_sync_env) (hp_llhttp p) [''GE''] = Some (take 3 (request_events demo_request), 1)"
    "y_llhttp_execute demo_sync_env 1 ''T'' = (drop 3 (request_events demo_request), 0, 0)"
    using p(5) by (simp_all add: demo_sync_env_def demo_exec_def)
  have n: "On_message_complete \<notin> set (take 3 (request_events demo_request))"
    "filter significant (take 3 (request_events demo_request) @ drop 3 (request_events demo_request)) =
       concat (map request_events [demo_request])"
    by (simp_all add: request_events_def demo_request_def header_events_def)
  from sync_read_delivers [OF p(2-4) c(1) n(1) _ c(2) n(2), of ?io "[None]"] demo_request_ok p(1) show ?thesis by auto
qed

end
