(* ===== verification/CH_SyncApp.thy ===== *)
theory CH_SyncApp
  imports CH_SyncProps
begin

text \<open>
  The example application of \<open>sync/sync_handler_example.c\<close>, byte for byte.
\<close>

section \<open>The example application\<close>

text \<open>The body of the answer, and its header lines before the connection line is added.\<close>

definition example_page :: "string \<Rightarrow> int \<Rightarrow> int \<Rightarrow> string" where
  "example_page dt_s socket tid =
     ''<html><head></head><body><h2>this is a message</h2><p>Date/Time is '' @ dt_s @ ''</p><p>socket: '' @
     int_digits socket @ ''</p><p>p_thread_self '' @ int_digits tid @ ''</p></body></html>''"

definition echo_lines :: "Message \<Rightarrow> KVPair list" where
  "echo_lines request = (case hl_find (List_items (msg_headers request)) HEADER_ECHO_ID of
     None \<Rightarrow> [] | Some kv \<Rightarrow> [KVPair_new HEADER_ECHO_ID (c_str (value_ptr kv))])"

definition example_lines :: "KVPair list \<Rightarrow> string \<Rightarrow> KVPair list" where
  "example_lines first body = first @
     [KVPair_new HEADER_CONTENT_TYPE ''text/html; charset=UTF-8'', KVPair_new ''Content-length'' (int_digits (int (length body)))]"

lemma target_of_request:
  assumes "msg_wf m" and "cb_holds (msg_target m) t" and "no_nul t" and "t \<noteq> []" and "length t < 512"
  shows "\<exists>u. Message_get_target_cbuffer m = Inr u \<and> rbind (Cbuffer_cstr u) cstr_of = Inr t"
proof -
  from assms(2) obtain cb where cb: "msg_target m = Some cb" "cb_wf cb" "cb_terminated cb" "cb_content cb = t"
    by (auto simp: cb_holds_def)
  obtain n where n: "Cbuffer_new = Inr n" "cb_wf n" "cb_content n = []" using Cbuffer_new_wf by blast
  have "cb_fits n (length t)" using n assms(5) by (auto simp: cb_fits_def cb_wf_def cb_content_length [OF n(2), symmetric])
  from Cbuffer_append_ok [OF n(2) this] n(3) assms(4) obtain u where
    u: "Cbuffer_append n t = Inr u" "cb_wf u" "cb_content u = t" "cb_terminated u" by auto
  have "Message_get_target_cbuffer m = Inr u"
    unfolding Message_get_target_cbuffer_def Cbuffer_from_cstring_def n(1)
    using cb u(1) assms(1,3) by (simp add: msg_wf_check Cbuffer_cstr_ok cb_terminated_cstr)
  then show ?thesis using cstr_of_holds [OF u(2,4)] u(3) assms(3) by simp
qed

lemma finish_response:
  assumes r: "msg_wf r" "msg_is_request r = Some False" "msg_major_vers r = 1" "msg_minor_vers r = 1"
    "msg_reason r = Some cb" "cb_content cb = []"
    and nl: "hl_find (List_items (msg_headers r)) ''Content-length'' = None"
    and bc: "bc_wf bc" "bc_full bc" "length (bc_content bc) < 1000000000"
  shows "\<exists>m. rbind (Message_set_status r HTTP_STATUS_OK) (\<lambda>r. rbind (Message_set_reason r ''OK'') (\<lambda>r.
       rbind (Message_add_header_cstring r HEADER_CONTENT_TYPE ''text/html; charset=UTF-8'') (\<lambda>r.
       rbind (Message_set_body r (Some bc)) (\<lambda>r. Message_set_content_length r (BufferChain_size bc))))) = Inr m \<and>
     msg_wf m \<and> Message_first_line nm m = Inr (''HTTP/1.1  200 OK'' @ CRLF) \<and> msg_body_bytes m = bc_content bc \<and>
     List_items (msg_headers m) = example_lines (List_items (msg_headers r)) (bc_content bc)"
proof -
  have cbw: "cb_wf cb" using r(1,5) by (simp add: msg_wf_def)
  obtain k where k: "Cbuffer_append_cstr cb ''OK'' = Inr k" "cb_wf k" "cb_content k = ''OK''" "cb_terminated k"
    using append_cstr_fresh [OF cbw r(6), of "''OK''"] by auto
  define r1 where "r1 = r\<lparr>msg_status_code := Some 200, msg_reason := Some k\<rparr>"
  have r1: "msg_wf r1" using r(1) k(2) by (simp add: r1_def msg_wf_def)
  have sr: "rbind (Message_set_status r HTTP_STATUS_OK) (\<lambda>r. Message_set_reason r ''OK'') = Inr r1"
    using r(1,5,6) cbw k(1) by (simp add: Message_set_status_def Message_set_reason_def MSG_CHECK_def msg_wf_def
        assert_empty_ok HTTP_STATUS_OK_def r1_def)
  have fl: "Message_first_line nm r1 = Inr (''HTTP/1.1  200 OK'' @ CRLF)"
    using Message_status_line [of r1 200 k nm] r(2-4) k
    by (simp add: r1_def c_str_def int_digits_def nat_digits.simps digit_char_def char_of_def bit_0)
  have "c_str HEADER_CONTENT_TYPE = HEADER_CONTENT_TYPE" "c_str ''text/html; charset=UTF-8'' = ''text/html; charset=UTF-8''"
    by (simp_all add: c_str_def HEADER_CONTENT_TYPE_def)
  with printable_add_header [of nm r1 HEADER_CONTENT_TYPE "''text/html; charset=UTF-8''"] r1 fl obtain r2 where
    r2: "Message_add_header_cstring r1 HEADER_CONTENT_TYPE ''text/html; charset=UTF-8'' = Inr r2" "msg_wf r2"
    "Message_first_line nm r2 = Message_first_line nm r1"
    "List_items (msg_headers r2) = List_items (msg_headers r1) @ [KVPair_new HEADER_CONTENT_TYPE ''text/html; charset=UTF-8'']"
    by (auto simp: printable_def)
  define r3 where "r3 = r2\<lparr>msg_body := Some bc\<rparr>"
  have r3: "msg_wf r3" "Message_set_body r2 (Some bc) = Inr r3" "Message_first_line nm r3 = Message_first_line nm r2"
    using r2(2) bc by (simp_all add: r3_def msg_wf_def Message_set_body_def MSG_CHECK_def Message_first_line_def cong: if_cong)
  have "hl_find (List_items (msg_headers r3)) ''Content-length'' = None"
    using nl r2(4) by (simp add: r3_def r1_def hl_find_snoc hl_match_def make_upper_def toupper_def c_str_def
        HEADER_CONTENT_TYPE_def KVPair_new_def split: option.splits)
  from Message_set_content_length_new [OF r3(1) _ _ this, of "BufferChain_size bc"] bc(1,3) obtain l where
    l: "Message_set_content_length r3 (BufferChain_size bc) = Inr (r3\<lparr>msg_headers := l\<rparr>)" "hl_wf l"
    "List_items l = List_items (msg_headers r3) @ [KVPair_new ''Content-length'' (int_digits (BufferChain_size bc))]"
    by (auto simp: BufferChain_size_def bc_wf_def)
  have "Message_first_line nm (r3\<lparr>msg_headers := l\<rparr>) = Message_first_line nm r3"
    by (simp add: Message_first_line_def cong: if_cong)
  moreover have "msg_wf (r3\<lparr>msg_headers := l\<rparr>)" using r3(1) l(2) by (simp add: msg_wf_def)
  moreover have "msg_body_bytes (r3\<lparr>msg_headers := l\<rparr>) = bc_content bc" by (simp add: msg_body_bytes_def r3_def)
  moreover have "BufferChain_size bc = int (length (bc_content bc))" using bc(1) by (simp add: BufferChain_size_def bc_wf_def)
  moreover have chain: "rbind (Message_set_status r HTTP_STATUS_OK) (\<lambda>r. rbind (Message_set_reason r ''OK'') f) = f r1" for f
    using sr by (auto simp: rbind_def split: sum.splits)
  ultimately show ?thesis unfolding chain using r2(1,3,4) r3(2,3) fl l
    by (intro exI [of _ "r3\<lparr>msg_headers := l\<rparr>"]) (simp add: example_lines_def r3_def r1_def)
qed

lemma Message_new_response_ok:
  "\<exists>r cb. Message_new_response = Inr r \<and> msg_wf r \<and> msg_is_request r = Some False \<and> msg_major_vers r = 1 \<and>
     msg_minor_vers r = 1 \<and> msg_reason r = Some cb \<and> cb_content cb = [] \<and> List_items (msg_headers r) = []"
proof -
  obtain m where m: "Message_new = Inr m" "msg_wf m" "List_items (msg_headers m) = []" "msg_major_vers m = 1"
    "msg_minor_vers m = 1" using Message_new_wf by blast
  with Message_new_fresh obtain cb where "msg_reason m = Some cb" "cb_content cb = []"
    by (metis msg_fresh_def sum.inject(2))
  with m show ?thesis unfolding Message_new_response_def m(1)
    by (intro exI [of _ "m\<lparr>msg_is_request := Some False\<rparr>"] exI [of _ cb]) (simp add: msg_wf_def)
qed

lemma chain_of_bytes:
  "s \<noteq> [] \<Longrightarrow> \<exists>bc. BufferChain_append BufferChain_new s = Inr bc \<and> bc_wf bc \<and> bc_full bc \<and> bc_content bc = s"
  using BufferChain_append_ok [of BufferChain_new s] BufferChain_new_wf by auto

lemma simple_response_body_ok:
  assumes "dt_s \<noteq> []" and "no_nul dt_s"
  shows "\<exists>bc. simple_response_body ''<h2>this is a message</h2>'' dt_s socket tid = Inr bc \<and> bc_wf bc \<and> bc_full bc \<and>
     bc_content bc = example_page dt_s socket tid"
proof -
  have t: "example_page dt_s socket tid \<noteq> []" "no_nul (example_page dt_s socket tid)"
    using assms(2) by (simp_all add: example_page_def)
  have m: "c_str ''<h2>this is a message</h2>'' = ''<h2>this is a message</h2>''" by (simp add: c_str_def)
  have "simple_response_body ''<h2>this is a message</h2>'' dt_s socket tid =
      BufferChain_append BufferChain_new (example_page dt_s socket tid)"
    using assms t(2) by (simp add: simple_response_body_def BufferChain_append_cstr_def m example_page_def)
  with chain_of_bytes [OF t(1)] show ?thesis by simp
qed

lemma echo_header_ok:
  assumes "msg_wf r" and "List_items (msg_headers r) = []"
  shows "\<exists>h. (case map_option value_ptr (hl_find (List_items (msg_headers request)) HEADER_ECHO_ID) of
       None \<Rightarrow> Inr r | Some v \<Rightarrow> Message_add_header_cstring r HEADER_ECHO_ID v) = Inr (r\<lparr>msg_headers := h\<rparr>) \<and>
     msg_wf (r\<lparr>msg_headers := h\<rparr>) \<and> List_items h = echo_lines request"
proof (cases "hl_find (List_items (msg_headers request)) HEADER_ECHO_ID")
  case None
  then show ?thesis using assms by (intro exI [of _ "msg_headers r"]) (simp add: echo_lines_def)
next
  case (Some kv)
  have key: "c_str HEADER_ECHO_ID = HEADER_ECHO_ID" by (simp add: HEADER_ECHO_ID_def c_str_def)
  obtain m' where m': "Message_add_header_cstring r HEADER_ECHO_ID (value_ptr kv) = Inr m'" "msg_wf m'"
    "List_items (msg_headers m') = List_items (msg_headers r) @ [KVPair_new (c_str HEADER_ECHO_ID) (c_str (value_ptr kv))]"
    using Message_add_header_cstring_ok [OF assms(1)] by blast
  then obtain h where "m' = r\<lparr>msg_headers := h\<rparr>" by (auto simp: Message_add_header_cstring_def rbind_eq_Inr)
  with m' Some key assms(2) show ?thesis by (intro exI [of _ h]) (simp add: echo_lines_def)
qed

text \<open>The part of the application that depends on the target.\<close>

lemma example_choice:
  assumes r: "msg_wf r" "List_items (msg_headers r) = []"
    and q: "msg_wf request" "Message_serialize nm request = Inr b" "iob_wf b" "iob_content b \<noteq> []"
    and d: "dt_s \<noteq> []" "no_nul dt_s" "sw_tag wref = SYNC_WORKER_TAG"
    and body: "body = (if t = ''/echo'' then iob_content b else example_page dt_s (sw_active_socket wref) tid)"
  shows "\<exists>h bc. (if t = ''/echo'' then
        rbind (Message_get_header_value request HEADER_ECHO_ID) (\<lambda>echo_value.
        rbind (case echo_value of None \<Rightarrow> Inr r | Some v \<Rightarrow> Message_add_header_cstring r HEADER_ECHO_ID v) (\<lambda>r.
        rbind (echo_body_buffer_chain nm request) (\<lambda>body_chain. Inr (r, body_chain))))
      else rbind (sync_worker_socketfd wref) (\<lambda>socket.
        rbind (simple_response_body ''<h2>this is a message</h2>'' dt_s socket tid) (\<lambda>body_chain. Inr (r, body_chain)))) =
      Inr (r\<lparr>msg_headers := h\<rparr>, bc) \<and> msg_wf (r\<lparr>msg_headers := h\<rparr>) \<and>
     List_items h = (if t = ''/echo'' then echo_lines request else []) \<and> bc_wf bc \<and> bc_full bc \<and> bc_content bc = body"
proof (cases "t = ''/echo''")
  case True
  obtain bc where bc: "BufferChain_append BufferChain_new (iob_content b) = Inr bc" "bc_wf bc" "bc_full bc"
    "bc_content bc = iob_content b" using chain_of_bytes [OF q(4)] by blast
  then have "echo_body_buffer_chain nm request = Inr bc"
    using q(2,3) by (simp add: echo_body_buffer_chain_def BufferChain_append_IOBuffer_eq)
  with echo_header_ok [OF r, of request] Message_get_header_value_ok [OF q(1)] True bc(2-4) body show ?thesis by auto
next
  case False
  with simple_response_body_ok [OF d(1,2), of "sw_active_socket wref" tid] r d(3) body show ?thesis
    by (intro exI [of _ "msg_headers r"]) (auto simp: sync_worker_socketfd_def)
qed

lemma app_handler_ok:
  assumes "msg_wf request" and "Message_serialize nm request = Inr b" and "iob_wf b" and "iob_content b \<noteq> []"
    and "cb_holds (msg_target request) t" and "no_nul t" and "t \<noteq> []" and "length t < 512"
    and "dt_s \<noteq> []" and "no_nul dt_s" and "sw_tag wref = SYNC_WORKER_TAG"
    and "body = (if t = ''/echo'' then iob_content b else example_page dt_s (sw_active_socket wref) tid)"
    and "length body < 1000000000"
  shows "\<exists>m. app_handler_example nm dt_s tid wref request = Inr m \<and> msg_wf m \<and>
     Message_first_line nm m = Inr (''HTTP/1.1  200 OK'' @ CRLF) \<and> msg_body_bytes m = body \<and>
     List_items (msg_headers m) = example_lines (if t = ''/echo'' then echo_lines request else []) body"
proof -
  obtain r cb where r: "Message_new_response = Inr r" "msg_wf r" "msg_is_request r = Some False" "msg_major_vers r = 1"
    "msg_minor_vers r = 1" "msg_reason r = Some cb" "cb_content cb = []" "List_items (msg_headers r) = []"
    using Message_new_response_ok by blast
  obtain u where u: "Message_get_target_cbuffer request = Inr u" "rbind (Cbuffer_cstr u) cstr_of = Inr t"
    using target_of_request [OF assms(1,5-8)] by blast
  let ?first = "if t = ''/echo'' then echo_lines request else []"
  note ch = example_choice [OF r(2,8) assms(1-4) assms(9-12)]
  then obtain h bc where h: "msg_wf (r\<lparr>msg_headers := h\<rparr>)" "List_items h = ?first" "bc_wf bc" "bc_full bc" "bc_content bc = body"
    and eq: "app_handler_example nm dt_s tid wref request =
      rbind (Message_set_status (r\<lparr>msg_headers := h\<rparr>) HTTP_STATUS_OK) (\<lambda>r. rbind (Message_set_reason r ''OK'') (\<lambda>r.
       rbind (Message_add_header_cstring r HEADER_CONTENT_TYPE ''text/html; charset=UTF-8'') (\<lambda>r.
       rbind (Message_set_body r (Some bc)) (\<lambda>r. Message_set_content_length r (BufferChain_size bc)))))"
    unfolding app_handler_example_def r(1) rbind_Inr u by auto
  have nl: "hl_find (List_items (msg_headers (r\<lparr>msg_headers := h\<rparr>))) ''Content-length'' = None"
    using h(2) by (auto simp: echo_lines_def hl_find_def hl_match_def make_upper_def toupper_def c_str_def HEADER_ECHO_ID_def
        KVPair_new_def split: option.splits)
  from finish_response [OF h(1) _ _ _ _ r(7) nl h(3,4), of nm] h(2,5) r(3-6) assms(13) obtain m where
    m: "app_handler_example nm dt_s tid wref request = Inr m" "msg_wf m"
    "Message_first_line nm m = Inr (''HTTP/1.1  200 OK'' @ CRLF)" "msg_body_bytes m = body"
    "List_items (msg_headers m) = example_lines ?first body" unfolding eq by auto
  then show ?thesis by blast
qed

text \<open>
  C30: The answer of the example application.  For the target \<open>/echo\<close> the body is the request itself as it
  would be serialised, and the echo-id line of the request is repeated; for every other target, also
  \<open>/file\<close>, the body is the page.  The status is 200 in both cases (the usage text of the servers promises
  a file and a 404 page), and the content length is the length of the body.  The bytes are given exactly,
  up to the date and the number that \<open>%ld\<close> prints, which are parameters; the target is not empty, has
  fewer than 512 bytes and no NUL.
\<close>

theorem app_handler_exact:
  assumes "msg_wf request" and "Message_serialize nm request = Inr b" and "iob_wf b" and "iob_content b \<noteq> []"
    and "cb_holds (msg_target request) t" and "no_nul t" and "t \<noteq> []" and "length t < 512"
    and "dt_s \<noteq> []" and "no_nul dt_s" and "sw_tag wref = SYNC_WORKER_TAG"
    and "body = (if t = ''/echo'' then iob_content b else example_page dt_s (sw_active_socket wref) tid)"
    and "length body < 1000000000"
  shows "\<exists>m out. app_handler_example nm dt_s tid wref request = Inr m \<and> printable nm m \<and> Message_serialize nm m = Inr out \<and>
     iob_content out = ''HTTP/1.1  200 OK'' @ CRLF @
       concat (map hl_line (example_lines (if t = ''/echo'' then echo_lines request else []) body)) @ CRLF @ body"
proof -
  from app_handler_ok [OF assms] obtain m where
    m: "app_handler_example nm dt_s tid wref request = Inr m" "msg_wf m"
    "Message_first_line nm m = Inr (''HTTP/1.1  200 OK'' @ CRLF)" "msg_body_bytes m = body"
    "List_items (msg_headers m) = example_lines (if t = ''/echo'' then echo_lines request else []) body" by blast
  with Message_serialize_ok [OF m(2,3)] show ?thesis by (auto simp: printable_def)
qed

theorem app_handler_exact_witness:
  "\<exists>request m out. app_handler_example (\<lambda>_. ''GET'') ''now'' 1 (sync_worker_new 3 0 None) request = Inr m \<and>
     Message_serialize (\<lambda>_. ''GET'') m = Inr out \<and>
     iob_content out = ''HTTP/1.1  200 OK'' @ CRLF @ concat (map hl_line (example_lines [] (example_page ''now'' 0 1))) @
       CRLF @ example_page ''now'' 0 1"
proof -
  obtain q t where q: "msg_wf q" "msg_is_request q = Some True" "msg_method q = Some 1" "msg_target q = Some t"
    "cb_terminated t" "cb_content t = ''/x''" using request_message_exists by blast
  have tw: "cb_wf t" using q(1,4) by (simp add: msg_wf_def)
  obtain b where b: "Message_serialize (\<lambda>_. ''GET'') q = Inr b" "iob_wf b" "iob_content b \<noteq> []"
    using Message_serialize_ok [OF q(1) Message_request_line [OF q(2-4) tw q(5), of "\<lambda>_. ''GET''"]] by (auto simp: CRLF_def)
  have h: "cb_holds (msg_target q) ''/x''" using q(4-6) tw by (simp add: cb_holds_def)
  have l: "length (example_page ''now'' 0 1) < 1000000000" by (simp add: example_page_def int_digits_def nat_digits.simps)
  have "\<exists>m out. app_handler_example (\<lambda>_. ''GET'') ''now'' 1 (sync_worker_new 3 0 None) q = Inr m \<and> printable (\<lambda>_. ''GET'') m \<and>
     Message_serialize (\<lambda>_. ''GET'') m = Inr out \<and> iob_content out = ''HTTP/1.1  200 OK'' @ CRLF @
       concat (map hl_line (example_lines (if ''/x'' = ''/echo'' then echo_lines q else []) (example_page ''now'' 0 1))) @
       CRLF @ example_page ''now'' 0 1"
    by (rule app_handler_exact [OF q(1) b(1-3) h _ _ _ _ _ _ _ l]) (simp_all add: sync_worker_new_def)
  then show ?thesis by auto
qed

end
