(* ===== verification/CH_SyncSession.thy ===== *)
theory CH_SyncSession
  imports CH_SyncApp
begin

text \<open>
  Whole sessions of a worker thread: the bytes a client receives for its requests, and the three
  inputs that stop the program.
\<close>

section \<open>One request\<close>

text \<open>What goes out for a request and the application's response to it.\<close>

definition reply_bytes :: "(int \<Rightarrow> string) \<Rightarrow> Message \<Rightarrow> Message \<Rightarrow> string" where
  "reply_bytes nm request response =
     (case rbind (add_connection_header request response) (Message_serialize nm) of Inr b \<Rightarrow> iob_content b | Inl _ \<Rightarrow> [])"

lemma request_printable: "is_request_of r m \<Longrightarrow> printable nm m"
  unfolding is_request_of_def printable_def cb_holds_def by (auto dest!: Message_request_line [where nm = nm])

lemma cmp_keep_alive:
  assumes "msg_wf m"
  shows "\<exists>c. Message_cmp_header m HEADER_CONNECTION_KEY HEADER_CONNECTION_KEEPALIVE = Inr c \<and> (c = 1 \<longleftrightarrow> keep_alive m)"
  using Message_cmp_header_ok [OF assms] by (auto simp: lines_keep_alive_def split: option.splits)

lemma printable_dump:
  assumes "printable nm m"
  shows "\<exists>b. Message_dump nm m = Inr b \<and> IOBuffer_free b = Inr ()"
  using assms Message_dump_ok [of m nm] unfolding printable_def by (force simp: IOBuffer_free_def iob_wf_check)

lemma worker_reply_ok:
  assumes "printable (y_llhttp_method_name env) request" and "app wref request = Inr response"
    and "printable (y_llhttp_method_name env) response" and "sc_open (hp_handler_context p)" and "si_writes io = []"
  shows "\<exists>c. worker_reply env app wref request p io =
       Inr (c, io\<lparr>si_wire := si_wire io @ reply_bytes (y_llhttp_method_name env) request response\<rparr>) \<and>
     (c = 1 \<longleftrightarrow> keep_alive request)"
proof -
  let ?nm = "y_llhttp_method_name env"
  have wf: "msg_wf request" using assms(1) by (simp add: printable_def)
  obtain m where m: "add_connection_header request response = Inr m" "printable ?nm m"
    using add_connection_header_ok [OF wf assms(3)] by blast
  obtain b where b: "Message_serialize ?nm m = Inr b" using printable_serialize [OF m(2)] by blast
  obtain c where c: "Message_cmp_header request HEADER_CONNECTION_KEY HEADER_CONNECTION_KEEPALIVE = Inr c"
    "c = 1 \<longleftrightarrow> keep_alive request" using cmp_keep_alive [OF wf] by blast
  obtain d1 d2 where d: "Message_dump ?nm request = Inr d1" "IOBuffer_free d1 = Inr ()" "Message_dump ?nm m = Inr d2"
    "IOBuffer_free d2 = Inr ()" using printable_dump [OF assms(1)] printable_dump [OF m(2)] by blast
  have "worker_reply env app wref request p io = Inr (c, io\<lparr>si_wire := si_wire io @ iob_content b\<rparr>)"
    using assms(2,4,5) m(1) b c(1) d
    by (simp add: worker_reply_def sync_connection_write_def SC_CHECK_open Let_def)
  moreover have "reply_bytes ?nm request response = iob_content b" using m(1) b by (simp add: reply_bytes_def)
  ultimately show ?thesis using c(2) by auto
qed

section \<open>Sessions\<close>

text \<open>
  A session: for every request the chunks it arrives in.  \<open>session_ok\<close> says that \<open>llhttp\<close> makes
  the events of exactly that request of them, completing it with the last one.
\<close>

type_synonym turn = "string list \<times> string \<times> frag_request"

fun session_ok :: "('l \<Rightarrow> string \<Rightarrow> ll_event list \<times> 'l \<times> int) \<Rightarrow> 'l \<Rightarrow> turn list \<Rightarrow> bool" where
  "session_ok exec l [] = True"
| "session_ok exec l ((bs, b, r) # ts) =
     (case ll_chunks exec l bs of None \<Rightarrow> False
      | Some (es1, l1) \<Rightarrow>
          (case exec l1 b of (es, l2, e) \<Rightarrow>
             e = 0 \<and> b \<noteq> [] \<and> On_message_complete \<notin> set es1 \<and> filter significant (es1 @ es) = request_events r \<and>
             frag_request_ok r \<and> session_ok exec l2 ts))"

definition turn_reads :: "turn \<Rightarrow> string option list" where
  "turn_reads t = (case t of (bs, b, r) \<Rightarrow> map Some bs @ [Some b])"

definition request_keeps :: "turn \<Rightarrow> bool" where
  "request_keeps t = (case t of (bs, b, r) \<Rightarrow> lines_keep_alive (map header_pair (fr_headers r)))"

definition answered :: "(sync_worker \<Rightarrow> Message \<Rightarrow> Message res) \<Rightarrow> sync_worker \<Rightarrow> turn \<Rightarrow> Message \<times> Message \<Rightarrow> bool" where
  "answered app wref t mr \<longleftrightarrow> is_request_of (snd (snd t)) (fst mr) \<and> app wref (fst mr) = Inr (snd mr)"

definition app_answers :: "(int \<Rightarrow> string) \<Rightarrow> (sync_worker \<Rightarrow> Message \<Rightarrow> Message res) \<Rightarrow> sync_worker \<Rightarrow> turn list \<Rightarrow> bool" where
  "app_answers nm app wref ts \<longleftrightarrow>
     (\<forall>t \<in> set ts. \<forall>m. is_request_of (snd (snd t)) m \<longrightarrow> (\<exists>resp. app wref m = Inr resp \<and> printable nm resp))"

lemma read_turn:
  assumes "hp_ready p" and "sc_open (hp_handler_context p)" and "List_items (sc_input_list (hp_handler_context p)) = []"
    and "session_ok (y_llhttp_execute env) (hp_llhttp p) (t # ts)" and "si_reads io = turn_reads t @ rest"
  shows "\<exists>m q. sync_connection_read_message env p io = Inr (1, Some m, q, io\<lparr>si_reads := rest\<rparr>) \<and>
     is_request_of (snd (snd t)) m \<and> hp_ready q \<and> sc_open (hp_handler_context q) \<and>
     List_items (sc_input_list (hp_handler_context q)) = [] \<and> session_ok (y_llhttp_execute env) (hp_llhttp q) ts"
proof -
  obtain bs b r where t: "t = (bs, b, r)" by (cases t) auto
  from assms(4) obtain es1 l1 es l2 where
    x: "ll_chunks (y_llhttp_execute env) (hp_llhttp p) bs = Some (es1, l1)" "y_llhttp_execute env l1 b = (es, l2, 0)"
    "b \<noteq> []" "On_message_complete \<notin> set es1" "filter significant (es1 @ es) = request_events r" "frag_request_ok r"
    "session_ok (y_llhttp_execute env) l2 ts" by (auto simp: t split: option.splits prod.splits)
  from sync_read_delivers [OF assms(1-3) x(1,4,3,2), of "[r]" io rest] x(5,6) assms(5) t obtain m ms q where
    "sync_connection_read_message env p io = Inr (1, Some m, q, io\<lparr>si_reads := rest\<rparr>)" "list_all2 is_request_of [r] (m # ms)"
    "List_items (sc_input_list (hp_handler_context q)) = ms" "hp_ready q" "hp_llhttp q = l2" "sc_open (hp_handler_context q)"
    by (auto simp: turn_reads_def)
  then show ?thesis using x(7) t by (intro exI [of _ m] exI [of _ q]) auto
qed

text \<open>
  C12: A worker answers the requests of a connection in order: while the requests ask to keep the
  connection it reads on, and after the first one that does not it stops.  The client has then
  received exactly one reply per request, in the order of the requests, and nothing else; every
  request reached the application whole, however it was cut into reads.
\<close>

theorem sync_session_replies:
  assumes "hp_ready p" and "sc_open (hp_handler_context p)" and "List_items (sc_input_list (hp_handler_context p)) = []"
    and "session_ok (y_llhttp_execute env) (hp_llhttp p) ts" and "ts \<noteq> []"
    and "si_reads io = concat (map turn_reads ts) @ rest" and "si_writes io = []"
    and "\<forall>t \<in> set (butlast ts). request_keeps t" and "\<not> request_keeps (last ts)"
    and "app_answers (y_llhttp_method_name env) app wref ts"
  shows "\<exists>mrs q. worker_loop env app wref (length ts) p io =
       Inr (q, io\<lparr>si_reads := rest, si_wire := si_wire io @
         concat (map (\<lambda>(m, resp). reply_bytes (y_llhttp_method_name env) m resp) mrs)\<rparr>) \<and>
     list_all2 (answered app wref) ts mrs \<and> sc_open (hp_handler_context q)"
  using assms
proof (induction ts arbitrary: p io)
  case (Cons t ts)
  let ?nm = "y_llhttp_method_name env"
  from read_turn [OF Cons.prems(1-4), of io "concat (map turn_reads ts) @ rest"] Cons.prems(6) obtain m q where
    m: "sync_connection_read_message env p io = Inr (1, Some m, q, io\<lparr>si_reads := concat (map turn_reads ts) @ rest\<rparr>)"
    "is_request_of (snd (snd t)) m" "hp_ready q" "sc_open (hp_handler_context q)"
    "List_items (sc_input_list (hp_handler_context q)) = []" "session_ok (y_llhttp_execute env) (hp_llhttp q) ts" by auto
  obtain resp where resp: "app wref m = Inr resp" "printable ?nm resp"
    using Cons.prems(10) m(2) by (auto simp: app_answers_def)
  let ?io = "io\<lparr>si_reads := concat (map turn_reads ts) @ rest\<rparr>"
  from worker_reply_ok [where app = app, OF request_printable [OF m(2)] resp(1,2) m(4), of ?io] Cons.prems(7) obtain c where
    c: "worker_reply env app wref m q ?io = Inr (c, ?io\<lparr>si_wire := si_wire io @ reply_bytes ?nm m resp\<rparr>)"
    "c = 1 \<longleftrightarrow> keep_alive m" by auto
  have k: "keep_alive m \<longleftrightarrow> request_keeps t" using m(2) by (cases t) (auto simp: request_keeps_def is_request_of_def)
  have a: "answered app wref t (m, resp)" using m(2) resp(1) by (simp add: answered_def)
  show ?case
  proof (cases "ts = []")
    case True
    then show ?thesis using m(1,4) c k a Cons.prems(9) by (intro exI [of _ "[(m, resp)]"] exI [of _ q]) simp
  next
    case False
    let ?io1 = "?io\<lparr>si_wire := si_wire io @ reply_bytes ?nm m resp\<rparr>"
    from Cons.IH [OF m(3-6) False, of ?io1] Cons.prems(7-10) False obtain mrs q' where
      "worker_loop env app wref (length ts) q ?io1 = Inr (q', ?io1\<lparr>si_reads := rest, si_wire := si_wire ?io1 @
         concat (map (\<lambda>(m, resp). reply_bytes ?nm m resp) mrs)\<rparr>)" "list_all2 (answered app wref) ts mrs"
      "sc_open (hp_handler_context q')" by (auto simp: app_answers_def)
    then show ?thesis using m(1) c k a Cons.prems(8) False
      by (intro exI [of _ "(m, resp) # mrs"] exI [of _ q']) simp
  qed
qed simp

text \<open>The turn of that session.\<close>

definition demo_turn :: turn where
  "demo_turn = ([''GE''], ''T'', demo_request)"

lemma demo_turn_ok: "session_ok demo_exec 0 [demo_turn]" "\<not> request_keeps demo_turn"
  by (simp_all add: demo_turn_def demo_exec_def demo_request_ok)
     (simp_all add: demo_request_def request_events_def header_events_def frag_header_ok_def request_keeps_def lines_keep_alive_def
      hl_find_def hl_match_def header_pair_def KVPair_new_def HEADER_CONNECTION_KEY_def make_upper_def toupper_def c_str_def)

theorem sync_session_replies_witness:
  "\<exists>app p q io mr. worker_loop demo_sync_env app (sync_worker_new 3 0 None) 1 p
       \<lparr>si_reads = [Some ''GE'', Some ''T'', None], si_writes = [], si_wire = []\<rparr> = Inr (q, io) \<and> si_reads io = [None] \<and>
     si_wire io = reply_bytes (\<lambda>_. ''GET'') (fst mr) (snd mr) \<and> is_request_of demo_request (fst mr)"
proof -
  obtain resp r where r: "msg_wf resp" "msg_is_request resp = Some False" "msg_status_code resp = Some 200"
    "msg_reason resp = Some r" "cb_terminated r" "cb_wf r" using response_message_exists by blast
  have a: "app_answers (\<lambda>_. ''GET'') (\<lambda>_ _. Inr resp) (sync_worker_new 3 0 None) [demo_turn]"
    using r Message_status_line [OF r(2,3,4,6,5)] by (auto simp: app_answers_def printable_def)
  obtain p :: "nat sync_conn" where p: "hp_ready p" "hp_llhttp p = 0" "sc_open (hp_handler_context p)"
    "List_items (sc_input_list (hp_handler_context p)) = []"
    using new_connection [of demo_sync_env 7 None] by (auto simp: demo_sync_env_def)
  let ?io = "\<lparr>si_reads = [Some ''GE'', Some ''T'', None], si_writes = [], si_wire = []\<rparr>"
  let ?app = "\<lambda>_ _. Inr resp" and ?w = "sync_worker_new 3 0 None"
  have s: "session_ok (y_llhttp_execute demo_sync_env) (hp_llhttp p) [demo_turn]"
    using demo_turn_ok(1) p(2) by (simp add: demo_sync_env_def)
  have rd: "si_reads ?io = concat (map turn_reads [demo_turn]) @ [None]" by (simp add: turn_reads_def demo_turn_def)
  have nm: "y_llhttp_method_name demo_sync_env = (\<lambda>_. ''GET'')" by (simp add: demo_sync_env_def)
  have a': "app_answers (y_llhttp_method_name demo_sync_env) ?app ?w [demo_turn]" using a nm by simp
  from sync_session_replies [OF p(1,3,4) s _ rd _ _ _ a'] demo_turn_ok(2) obtain mrs q where
    q: "worker_loop demo_sync_env ?app ?w (length [demo_turn]) p ?io = Inr (q, ?io\<lparr>si_reads := [None],
       si_wire := concat (map (\<lambda>(m, resp). reply_bytes (\<lambda>_. ''GET'') m resp) mrs)\<rparr>)"
    "list_all2 (answered ?app ?w) [demo_turn] mrs" unfolding nm by auto
  from q(2) obtain mr where mr: "mrs = [mr]" "is_request_of demo_request (fst mr)"
    by (cases mrs) (auto simp: answered_def demo_turn_def)
  with q(1) show ?thesis
    by (intro exI [of _ ?app] exI [of _ p] exI [of _ q] exI [of _ "?io\<lparr>si_reads := [None],
       si_wire := reply_bytes (\<lambda>_. ''GET'') (fst mr) (snd mr)\<rparr>"] exI [of _ mr]) (simp add: case_prod_beta)
qed

section \<open>Inputs that stop the program\<close>

lemma read_fails:
  assumes "sc_open (hp_handler_context p)" and "reads = [] \<or> hd reads = None \<or> hd reads = Some []"
  shows "sync_connection_read env reads p = Inr (HPE_USER, p, tl reads)"
  using assms by (cases reads) (auto simp: SC_CHECK_open)

lemma read_message_fails:
  assumes "sc_open (hp_handler_context p)" and "List_items (sc_input_list (hp_handler_context p)) = []"
    and "si_reads io = [] \<or> hd (si_reads io) = None \<or> hd (si_reads io) = Some []"
  shows "sync_connection_read_message env p io =
       Inr (- 1, None, p\<lparr>hp_handler_context := (hp_handler_context p)\<lparr>sc_reader_status := 0\<rparr>\<rparr>, io\<lparr>si_reads := tl (si_reads io)\<rparr>)"
proof -
  let ?p = "p\<lparr>hp_handler_context := (hp_handler_context p)\<lparr>sc_reader_status := 0\<rparr>\<rparr>"
  have "List_size (sc_input_list (hp_handler_context p)) = 0" using assms(1,2) by (simp add: sc_open_def List_size_wf)
  moreover have "sync_connection_read env (si_reads io) ?p = Inr (HPE_USER, ?p, tl (si_reads io))"
    by (rule read_fails [OF _ assms(3)]) (use assms(1) in \<open>simp add: sc_open_def\<close>)
  ultimately show ?thesis
    using assms(1) by (simp add: sync_connection_read_message_def SC_CHECK_open HPE_USER_def)
qed

text \<open>
  C35: A worker does not survive its client: when no message is pending and the read returns no bytes
  (the client closed the connection, the five seconds are over, or an error), then
  \<open>sync_connection_read_message\<close> returns -1, the worker takes that for success and the assertion
  on the missing request stops the whole server.  So every connection whose last request asked
  to keep it ends the program.
\<close>

theorem sync_worker_eof_asserts:
  assumes "sc_open (hp_handler_context p)" and "List_items (sc_input_list (hp_handler_context p)) = []"
    and "si_reads io = [] \<or> hd (si_reads io) = None \<or> hd (si_reads io) = Some []"
  shows "sync_connection_read_message env p io =
       Inr (- 1, None, p\<lparr>hp_handler_context := (hp_handler_context p)\<lparr>sc_reader_status := 0\<rparr>\<rparr>, io\<lparr>si_reads := tl (si_reads io)\<rparr>) \<and>
     worker_loop env app wref (Suc k) p io = Inl Assertion"
  using read_message_fails [OF assms, of env] by simp

theorem sync_worker_eof_asserts_witness:
  "\<exists>p. sync_connection_new demo_sync_env 7 None = Inr p \<and>
     worker_loop demo_sync_env (\<lambda>_ _. Inl Assertion) (sync_worker_new 3 0 None) 1 p \<lparr>si_reads = [Some []], si_writes = [], si_wire = []\<rparr> = Inl Assertion"
proof -
  obtain p where p: "sync_connection_new demo_sync_env 7 None = Inr p" "sc_open (hp_handler_context p)"
    "List_items (sc_input_list (hp_handler_context p)) = []" using new_connection [of demo_sync_env 7 None] by auto
  from sync_worker_eof_asserts [OF p(2,3), of "\<lparr>si_reads = [Some []], si_writes = [], si_wire = []\<rparr>" demo_sync_env
      "\<lambda>_ _. Inl Assertion" "sync_worker_new 3 0 None" 0] p(1)
  show ?thesis by simp
qed

text \<open>
  A request followed by garbage in the same read stops the server too: the request is complete
  and in the list, the parser reports an error, and neither of the two outcomes that
  \<open>sync_connection_read_message\<close> knows applies.
\<close>

theorem sync_error_after_request_asserts:
  assumes "hp_ready p" and "sc_open (hp_handler_context p)" and "List_items (sc_input_list (hp_handler_context p)) = []"
    and "b \<noteq> []" and "y_llhttp_execute env (hp_llhttp p) b = (es, l, e)" and "e \<noteq> 0"
    and "filter significant es = request_events r" and "frag_request_ok r" and "si_reads io = Some b # rest"
  shows "sync_connection_read_message env p io = Inl Assertion"
proof -
  let ?h = parser_on_message_handler and ?p = "p\<lparr>hp_handler_context := (hp_handler_context p)\<lparr>sc_reader_status := 0\<rparr>\<rparr>"
  have p: "hp_ready ?p" "sc_open (hp_handler_context ?p)" using assms(1,2) hp_ready_ctx by (auto simp: sc_open_def)
  from sync_run_requests [OF p, of "[r]"] assms(3,8) obtain q m where
    q: "ll_run ?h (request_events r) ?p = Inr (0, q)" "sc_open (hp_handler_context q)"
    "List_items (sc_input_list (hp_handler_context q)) = [m]" "sc_reader_status (hp_handler_context q) = 1"
    by (auto simp: list_all2_Cons1)
  have run: "ll_run ?h ([] @ es) ?p = Inr (0, q)" using q(1) assms(7) ll_run_significant [of ?h es ?p] by simp
  have "sync_connection_read env (map Some [] @ Some b # rest) ?p = Inr (e, set_ll l q, rest)"
    by (rule read_chunks [OF hp_ready_typed [OF p(1)] p(2) _ _ _ assms(4) _ run q(2)]) (use assms(5,6) in simp_all)
  then show ?thesis using assms(2,3,6,9) q(2-4)
    by (simp add: sync_connection_read_message_def SC_CHECK_open sc_open_def List_size_wf)
qed

theorem sync_error_after_request_asserts_witness:
  "\<exists>p. sync_connection_read_message (demo_sync_env\<lparr>y_llhttp_execute := \<lambda>l b. (request_events demo_request, l, 9)\<rparr>) p
     \<lparr>si_reads = [Some ''GET''], si_writes = [], si_wire = []\<rparr> = Inl Assertion"
proof -
  obtain p :: "nat sync_conn" where p: "hp_ready p" "sc_open (hp_handler_context p)"
    "List_items (sc_input_list (hp_handler_context p)) = []"
    using new_connection [of demo_sync_env 7 None] by auto
  have "filter significant (request_events demo_request) = request_events demo_request"
    by (auto simp: request_events_def header_events_def filter_id_conv)
  from sync_error_after_request_asserts [OF p _ _ _ this demo_request_ok, of "''GET''"
      "demo_sync_env\<lparr>y_llhttp_execute := \<lambda>l b. (request_events demo_request, l, 9)\<rparr>" "hp_llhttp p" 9
      "\<lparr>si_reads = [Some ''GET''], si_writes = [], si_wire = []\<rparr>" "[]"] show ?thesis by auto
qed

text \<open>
  \<open>sync_server_listen\<close> comes back only when a worker cannot be started: when all of them have been
  started and have ended, the queue that is then disposed of was never created.
\<close>

lemma start_workers_result:
  assumes "\<And>i. sw_tag (wref i) = SYNC_WORKER_TAG"
  shows "\<exists>started. start_workers starts wref ids = Inr (started, \<exists>i \<in> set ids. starts i \<noteq> 0) \<and> set started \<subseteq> set ids"
  using assms by (induction ids) (auto simp: sync_worker_start_def)

lemma sync_server_listen_result:
  assumes "sync_server_new port n workers = Inr server"
    and "\<And>i. i < nat workers \<Longrightarrow> \<exists>r. Worker_main env app k (accepts i) (sync_worker_new fd (int i) None) = Inr r"
  shows "sync_server_listen env app k fd starts accepts server =
     (if \<exists>i < nat workers. starts i \<noteq> 0 then Inr (server\<lparr>ss_socket_fd := Some fd\<rparr>) else Inl UninitRead)"
proof -
  let ?w = "\<lambda>i. sync_worker_new fd (int i) None"
  from assms(1) have s: "ss_qref server = None" "ss_read_buffer_size server = None" "ss_nbr_workers server = workers"
    "server\<lparr>ss_tag := SYNC_SERVER_TAG\<rparr> = server" by (auto simp: sync_server_new_def rbind_eq_Inr)
  then have tag: "server\<lparr>ss_tag := SYNC_SERVER_TAG, ss_socket_fd := Some fd\<rparr> = server\<lparr>ss_socket_fd := Some fd\<rparr>" by metis
  obtain started where st: "start_workers starts ?w [0..<nat workers] = Inr (started, \<exists>i \<in> set [0..<nat workers]. starts i \<noteq> 0)"
    "set started \<subseteq> set [0..<nat workers]"
    using start_workers_result [of ?w starts "[0..<nat workers]"] by (auto simp: sync_worker_new_def)
  have "rfold (\<lambda>i _. rbind (Worker_main env app k (accepts i) (?w i)) (\<lambda>_. Inr ())) ids () = Inr ()" if "set ids \<subseteq> set [0..<nat workers]" for ids
    using that assms(2) by (induction ids) fastforce+
  from this [OF st(2)] have run: "rfold (\<lambda>i _. rbind (Worker_main env app k (accepts i) (?w i)) (\<lambda>_. Inr ())) started () = Inr ()" .
  show ?thesis unfolding sync_server_listen_def Let_def tag using st(1) run s(1-3) by (simp add: c_init_def Bex_def)
qed

text \<open>
  A short write loses the rest of the response: the worker goes on as if all of it had been sent.
\<close>

theorem sync_write_truncates:
  assumes "sc_open (hp_handler_context p)" and "printable (y_llhttp_method_name env) m"
    and "si_writes io = n # ns" and "0 \<le> n"
  shows "\<exists>b. Message_serialize (y_llhttp_method_name env) m = Inr b \<and>
     sync_connection_write env p m io = Inr (min n (int (length (iob_content b))),
       io\<lparr>si_writes := ns, si_wire := si_wire io @ take (nat n) (iob_content b)\<rparr>)"
  using printable_serialize [OF assms(2)] assms(1,3,4) by (auto simp: sync_connection_write_def SC_CHECK_open Let_def)

end
