(* ===== verification/CH_Demo.thy ===== *)
theory CH_Demo
  imports CH_Message
begin

text \<open>
  The demonstration protocol: the message of \<open>demo_protocol/demo_message.c\<close> and the parser of
  \<open>demo_protocol/demo_parser.c\<close>, which is fed buffer by buffer and calls the owner back for every
  message it completes.  A frame is SOH, an opcode, STX, printable bytes, ETX, a check byte and EOT.
\<close>

section \<open>Messages\<close>

definition DemoMessage_TAG :: string where "DemoMessage_TAG = ''DemMSG''"

text \<open>The check byte is indeterminate until it is set.\<close>

record DemoMessage =
  dm_tag :: string
  dm_opcode :: bool
  dm_lrc :: "char option"
  dm_body :: "BufferChain option"

definition DM_CHECK :: "DemoMessage \<Rightarrow> unit res" where
  "DM_CHECK m = check_tag DemoMessage_TAG (dm_tag m)"

definition demo_message_new :: DemoMessage where
  "demo_message_new = \<lparr>dm_tag = DemoMessage_TAG, dm_opcode = False, dm_lrc = None, dm_body = Some BufferChain_new\<rparr>"

definition demo_message_new_request :: DemoMessage where
  "demo_message_new_request = demo_message_new"

definition demo_message_new_response :: DemoMessage where
  "demo_message_new_response = demo_message_new"

definition demo_message_free :: "DemoMessage \<Rightarrow> unit res" where
  "demo_message_free this =
     rbind (DM_CHECK this) (\<lambda>_.
     rbind (c_deref (dm_body this)) (\<lambda>bc.
     rbind (BufferChain_dispose bc) (\<lambda>_. Inr ())))"

definition demo_message_dispose :: "DemoMessage option \<Rightarrow> DemoMessage option res" where
  "demo_message_dispose p =
     rbind (c_deref p) (\<lambda>this.
     rbind (DM_CHECK this) (\<lambda>_.
     rbind (c_deref (dm_body this)) (\<lambda>bc.
     rbind (BufferChain_dispose bc) (\<lambda>_. Inr None))))"

definition demo_message_dispose_anonymous :: "DemoMessage option \<Rightarrow> unit res" where
  "demo_message_dispose_anonymous p = rbind (demo_message_dispose p) (\<lambda>_. Inr ())"

definition CH_SOH :: char where "CH_SOH = CHR 0x01"
definition CH_STX :: char where "CH_STX = CHR 0x02"
definition CH_ETX :: char where "CH_ETX = CHR 0x03"
definition CH_EOT :: char where "CH_EOT = CHR 0x04"

definition demo_message_serialize :: "DemoMessage \<Rightarrow> IOBuffer res" where
  "demo_message_serialize mref =
     rbind (DM_CHECK mref) (\<lambda>_.
     rbind (IOBuffer_from_buf [CH_SOH, if dm_opcode mref then CHR ''Q'' else CHR ''R'', CH_STX]) (\<lambda>b.
     rbind (BufferChain_append_IOBuffer BufferChain_new b) (\<lambda>bc.
     rbind (c_deref (dm_body mref)) (\<lambda>body.
     rbind (BufferChain_append_bufferchain bc body) (\<lambda>bc.
     rbind (BufferChain_append bc [CH_ETX, CHR ''L'', CH_EOT]) (\<lambda>bc.
     rbind (BufferChain_compact bc) (\<lambda>result.
     rbind (BufferChain_dispose bc) (\<lambda>_.
     rbind (IOBuffer_dispose b) (\<lambda>_. Inr result)))))))))"

definition demo_message_get_is_request :: "DemoMessage \<Rightarrow> bool res" where
  "demo_message_get_is_request this = rbind (DM_CHECK this) (\<lambda>_. Inr (dm_opcode this))"

definition demo_message_set_is_request :: "DemoMessage \<Rightarrow> bool \<Rightarrow> DemoMessage res" where
  "demo_message_set_is_request this yn = rbind (DM_CHECK this) (\<lambda>_. Inr (this\<lparr>dm_opcode := yn\<rparr>))"

definition demo_message_set_content_length :: "DemoMessage \<Rightarrow> int \<Rightarrow> DemoMessage res" where
  "demo_message_set_content_length this len = rbind (c_assert False) (\<lambda>_. Inr this)"

definition demo_message_set_lrc :: "DemoMessage \<Rightarrow> char \<Rightarrow> DemoMessage res" where
  "demo_message_set_lrc this lrc = rbind (DM_CHECK this) (\<lambda>_. Inr (this\<lparr>dm_lrc := Some lrc\<rparr>))"

definition demo_message_get_body :: "DemoMessage \<Rightarrow> BufferChain option res" where
  "demo_message_get_body this = rbind (DM_CHECK this) (\<lambda>_. Inr (dm_body this))"

definition demo_message_set_body :: "DemoMessage \<Rightarrow> BufferChain option \<Rightarrow> DemoMessage res" where
  "demo_message_set_body this bc =
     rbind (DM_CHECK this) (\<lambda>_.
     rbind (case dm_body this of None \<Rightarrow> Inr () | Some old \<Rightarrow> rbind (BufferChain_dispose old) (\<lambda>_. Inr ())) (\<lambda>_.
     Inr (this\<lparr>dm_body := bc\<rparr>)))"

text \<open>\<open>process_request\<close> of \<open>demo_process_request.c\<close>: the reply carries a copy of the request's body.\<close>

definition DemoHandler_TAG :: string where "DemoHandler_TAG = ''DmHDLR''"

definition demo_process_request :: "string \<Rightarrow> DemoMessage \<Rightarrow> DemoMessage res" where
  "demo_process_request href_tag request =
     rbind (check_tag DemoHandler_TAG href_tag) (\<lambda>_.
     rbind (demo_message_set_is_request demo_message_new False) (\<lambda>reply.
     rbind (demo_message_get_body request) (\<lambda>request_body.
     rbind (c_deref request_body) (\<lambda>body.
     rbind (BufferChain_append_bufferchain BufferChain_new body) (\<lambda>bc.
     demo_message_set_body reply (Some bc))))))"

section \<open>The parser\<close>

datatype State = STATE_IDLE | STATE_SOH_WAIT | STATE_OPCODE | STATE_STX_WAIT | STATE_BODY | STATE_EXT_WAIT
  | STATE_LRC | STATE_EOT_WAIT | STATE_ERROR_RECOVERY

definition DemoParser_TAG :: string where "DemoParser_TAG = ''DmPARS''"
definition DemoParserErr_expected_stx :: int where "DemoParserErr_expected_stx = - 12"

record 'c DemoParser =
  dp_tag :: string
  dp_state :: State
  dp_on_read_ctx :: 'c
  dp_current_message_ptr :: "DemoMessage option"

text \<open>The callback gets the message, or \<open>NULL\<close> and an error number.\<close>

type_synonym 'c demo_handler = "'c \<Rightarrow> DemoMessage option \<Rightarrow> int \<Rightarrow> 'c res"

definition DemoParser_new :: "'c \<Rightarrow> 'c DemoParser" where
  "DemoParser_new on_read_ctx =
     \<lparr>dp_tag = DemoParser_TAG, dp_state = STATE_IDLE, dp_on_read_ctx = on_read_ctx, dp_current_message_ptr = None\<rparr>"

definition DP_CHECK :: "'c DemoParser \<Rightarrow> unit res" where
  "DP_CHECK p = check_tag DemoParser_TAG (dp_tag p)"

definition DemoParser_free :: "'c DemoParser \<Rightarrow> unit res" where
  "DemoParser_free this =
     rbind (DP_CHECK this) (\<lambda>_.
     case dp_current_message_ptr this of None \<Rightarrow> Inr ()
     | Some m \<Rightarrow> rbind (demo_message_dispose (Some m)) (\<lambda>_. Inr ()))"

definition DemoParser_dispose :: "'c DemoParser \<Rightarrow> 'c DemoParser option res" where
  "DemoParser_dispose this = rbind (DP_CHECK this) (\<lambda>_. rbind (DemoParser_free this) (\<lambda>_. Inr None))"

definition DemoParser_current_message :: "'c DemoParser \<Rightarrow> DemoMessage option res" where
  "DemoParser_current_message this = rbind (DP_CHECK this) (\<lambda>_. Inr (dp_current_message_ptr this))"

definition DemoParser_append_bytes :: "'c DemoParser \<Rightarrow> string \<Rightarrow> int res" where
  "DemoParser_append_bytes this buffer = rbind (DP_CHECK this) (\<lambda>_. Inr 0)"

definition DemoParser_get_errno :: "'c DemoParser \<Rightarrow> int res" where
  "DemoParser_get_errno this = rbind (DP_CHECK this) (\<lambda>_. Inr 0)"

text \<open>The error record, as number, name and description.\<close>

definition DemoParser_get_error :: "'c DemoParser \<Rightarrow> (int \<times> string \<times> string) res" where
  "DemoParser_get_error this = rbind (DP_CHECK this) (\<lambda>_. Inr (1, [], []))"

definition DemoParser_initialize :: "'c DemoParser \<Rightarrow> 'c DemoParser res" where
  "DemoParser_initialize this = rbind (DP_CHECK this) (\<lambda>_. Inr (this\<lparr>dp_current_message_ptr := None\<rparr>))"

text \<open>\<open>isprint\<close> in the C locale; a byte from 128 on is a negative \<open>int\<close> and not printable.\<close>

definition isprint :: "char \<Rightarrow> bool" where
  "isprint ch \<longleftrightarrow> 32 \<le> (of_char ch :: nat) \<and> (of_char ch :: nat) \<le> 126"

text \<open>The branch for a printable byte of the body; the compacted copy is made and released again.\<close>

definition add_to_body :: "'c DemoParser \<Rightarrow> char \<Rightarrow> 'c DemoParser res" where
  "add_to_body this ch =
     rbind (c_deref (dp_current_message_ptr this)) (\<lambda>m.
     rbind (demo_message_get_body m) (\<lambda>body.
     rbind (c_deref body) (\<lambda>bc.
     rbind (BufferChain_append bc [ch]) (\<lambda>bc.
     rbind (BufferChain_compact bc) (\<lambda>iobtmp.
     rbind (IOBuffer_cstr iobtmp) (\<lambda>_.
     rbind (IOBuffer_free iobtmp) (\<lambda>_.
     Inr (this\<lparr>dp_current_message_ptr := Some (m\<lparr>dm_body := Some bc\<rparr>)\<rparr>))))))))"

text \<open>
  One turn of the loop: the byte, and whether it is the last of the buffer.  The result is the
  parser and, when the function returns from here, its result.  The local \<open>error_code\<close> is set in
  three places and never used.  A byte is passed to \<open>BufferChain_append\<close> as the first byte of an
  \<open>int\<close>, which is its value on a little-endian machine.
\<close>

definition consume_byte :: "'c demo_handler \<Rightarrow> bool \<Rightarrow> char \<Rightarrow> 'c DemoParser \<Rightarrow> ('c DemoParser \<times> int option) res" where
  "consume_byte cb is_last ch this =
     (case dp_state this of
        STATE_IDLE \<Rightarrow>
          (let this = (case dp_current_message_ptr this of
                         None \<Rightarrow> this\<lparr>dp_current_message_ptr := Some demo_message_new\<rparr> | Some _ \<Rightarrow> this) in
           Inr (if ch = CH_SOH then this\<lparr>dp_state := STATE_OPCODE\<rparr> else this, None))
      | STATE_OPCODE \<Rightarrow>
          if ch = CHR ''R'' \<or> ch = CHR ''Q'' then
            rbind (c_deref (dp_current_message_ptr this)) (\<lambda>m.
            rbind (demo_message_set_is_request m (ch = CHR ''Q'')) (\<lambda>m.
            Inr (this\<lparr>dp_current_message_ptr := Some m, dp_state := STATE_STX_WAIT\<rparr>, None)))
          else Inr (this\<lparr>dp_state := STATE_ERROR_RECOVERY\<rparr>, None)
      | STATE_STX_WAIT \<Rightarrow>
          Inr (this\<lparr>dp_state := (if ch = CH_STX then STATE_BODY else STATE_ERROR_RECOVERY)\<rparr>, None)
      | STATE_BODY \<Rightarrow>
          if isprint ch then rbind (add_to_body this ch) (\<lambda>this. Inr (this, None))
          else Inr (this\<lparr>dp_state := (if ch = CH_ETX then STATE_LRC else STATE_ERROR_RECOVERY)\<rparr>, None)
      | STATE_LRC \<Rightarrow>
          rbind (c_deref (dp_current_message_ptr this)) (\<lambda>m.
          rbind (demo_message_set_lrc m ch) (\<lambda>m.
          rbind (cb (dp_on_read_ctx this) (Some m) 0) (\<lambda>ctx.
          Inr (this\<lparr>dp_state := STATE_IDLE, dp_on_read_ctx := ctx, dp_current_message_ptr := Some demo_message_new\<rparr>, Some 0))))
      | STATE_EOT_WAIT \<Rightarrow> Inr (this, None)
      | STATE_ERROR_RECOVERY \<Rightarrow>
          if ch = CH_SOH \<and> \<not> is_last then Inr (this\<lparr>dp_state := STATE_OPCODE\<rparr>, None)
          else if is_last then
            rbind (cb (dp_on_read_ctx this) None DemoParserErr_expected_stx) (\<lambda>ctx.
            rbind (demo_message_dispose (dp_current_message_ptr this)) (\<lambda>_.
            Inr (this\<lparr>dp_on_read_ctx := ctx, dp_current_message_ptr := Some demo_message_new\<rparr>, Some DemoParserErr_expected_stx)))
          else Inr (this, None)
      | _ \<Rightarrow> Inl Assertion)"

text \<open>The loop over the buffer: the result, the number of bytes used, and the parser.\<close>

fun consume_loop :: "'c demo_handler \<Rightarrow> string \<Rightarrow> nat \<Rightarrow> 'c DemoParser \<Rightarrow> (int \<times> nat \<times> 'c DemoParser) res" where
  "consume_loop cb [] i this = Inr (0, i, this)"
| "consume_loop cb (ch # chs) i this =
     rbind (consume_byte cb (chs = []) ch this) (\<lambda>(this, r).
     case r of Some rc \<Rightarrow> Inr (rc, i + 1, this) | None \<Rightarrow> consume_loop cb chs (i + 1) this)"

definition DemoParser_consume :: "'c demo_handler \<Rightarrow> 'c DemoParser \<Rightarrow> IOBuffer \<Rightarrow> (int \<times> 'c DemoParser \<times> IOBuffer) res" where
  "DemoParser_consume cb this iobuffer_ref =
     rbind (IOBuffer_data iobuffer_ref) (\<lambda>buf.
     rbind (IOBuffer_data_len iobuffer_ref) (\<lambda>len.
     rbind (DP_CHECK this) (\<lambda>_.
     rbind (rbind (mem_read_at (iob_mem iobuffer_ref) buf len) cell_bytes) (\<lambda>charbuf.
     rbind (consume_loop cb charbuf 0 this) (\<lambda>(rc, n, this).
     rbind (IOBuffer_consume iobuffer_ref (int n)) (\<lambda>iobuffer_ref.
     Inr (rc, this, iobuffer_ref)))))))"

section \<open>The automaton\<close>

text \<open>
  What the parser means: a state, the opcode and body collected so far, and the frames and errors
  reported.  The byte that is the last of its buffer is marked, because error recovery treats it
  differently.
\<close>

type_synonym frame = "bool \<times> string \<times> char"
type_synonym automaton = "State \<times> bool \<times> string \<times> frame option list"

fun astep :: "bool \<Rightarrow> char \<Rightarrow> automaton \<Rightarrow> automaton" where
  "astep is_last ch (STATE_IDLE, q, b, out) = (if ch = CH_SOH then STATE_OPCODE else STATE_IDLE, q, b, out)"
| "astep is_last ch (STATE_OPCODE, q, b, out) =
     (if ch = CHR ''R'' \<or> ch = CHR ''Q'' then (STATE_STX_WAIT, ch = CHR ''Q'', b, out)
      else (STATE_ERROR_RECOVERY, q, b, out))"
| "astep is_last ch (STATE_STX_WAIT, q, b, out) =
     (if ch = CH_STX then STATE_BODY else STATE_ERROR_RECOVERY, q, b, out)"
| "astep is_last ch (STATE_BODY, q, b, out) =
     (if isprint ch then (STATE_BODY, q, b @ [ch], out)
      else (if ch = CH_ETX then STATE_LRC else STATE_ERROR_RECOVERY, q, b, out))"
| "astep is_last ch (STATE_LRC, q, b, out) = (STATE_IDLE, False, [], out @ [Some (q, b, ch)])"
| "astep is_last ch (STATE_ERROR_RECOVERY, q, b, out) =
     (if ch = CH_SOH \<and> \<not> is_last then (STATE_OPCODE, q, b, out)
      else if is_last then (STATE_ERROR_RECOVERY, False, [], out @ [None])
      else (STATE_ERROR_RECOVERY, q, b, out))"
| "astep is_last ch a = a"

fun abuffer :: "string \<Rightarrow> automaton \<Rightarrow> automaton" where
  "abuffer [] a = a"
| "abuffer (ch # chs) a = abuffer chs (astep (chs = []) ch a)"

text \<open>The owner of the parser here writes down what it is told.\<close>

type_synonym demo_log = "(DemoMessage option \<times> int) list"

definition demo_record :: "demo_log demo_handler" where
  "demo_record ctx m rc = Inr (ctx @ [(m, rc)])"

definition dm_bytes :: "DemoMessage \<Rightarrow> string" where
  "dm_bytes m = (case dm_body m of None \<Rightarrow> [] | Some bc \<Rightarrow> bc_content bc)"

definition demo_frame :: "DemoMessage option \<times> int \<Rightarrow> frame option" where
  "demo_frame e = map_option (\<lambda>m. (dm_opcode m, dm_bytes m, the (dm_lrc m))) (fst e)"

definition demo_abs :: "demo_log DemoParser \<Rightarrow> automaton" where
  "demo_abs p =
     (dp_state p, (case dp_current_message_ptr p of None \<Rightarrow> False | Some m \<Rightarrow> dm_opcode m),
      (case dp_current_message_ptr p of None \<Rightarrow> [] | Some m \<Rightarrow> dm_bytes m), map demo_frame (dp_on_read_ctx p))"

definition dm_wf :: "DemoMessage \<Rightarrow> bool" where
  "dm_wf m \<longleftrightarrow> dm_tag m = DemoMessage_TAG \<and>
     (\<exists>bc. dm_body m = Some bc \<and> bc_wf bc \<and> bc_full bc \<and> bc_flat bc)"

text \<open>Every entry of the log is a complete well-formed message, or no message and the error number.\<close>

definition entry_ok :: "DemoMessage option \<times> int \<Rightarrow> bool" where
  "entry_ok e \<longleftrightarrow> (case e of (Some m, rc) \<Rightarrow> dm_wf m \<and> dm_lrc m \<noteq> None \<and> rc = 0
                          | (None, rc) \<Rightarrow> rc = DemoParserErr_expected_stx)"

definition dp_wf :: "demo_log DemoParser \<Rightarrow> bool" where
  "dp_wf p \<longleftrightarrow> dp_tag p = DemoParser_TAG \<and> dp_state p \<notin> {STATE_SOH_WAIT, STATE_EXT_WAIT, STATE_EOT_WAIT} \<and>
     (\<forall>m. dp_current_message_ptr p = Some m \<longrightarrow> dm_wf m) \<and>
     (dp_state p \<noteq> STATE_IDLE \<longrightarrow> dp_current_message_ptr p \<noteq> None) \<and> (\<forall>e \<in> set (dp_on_read_ctx p). entry_ok e)"

lemma demo_message_new_wf: "dm_wf demo_message_new \<and> dm_bytes demo_message_new = [] \<and> \<not> dm_opcode demo_message_new"
  using BufferChain_new_wf by (simp add: dm_wf_def demo_message_new_def dm_bytes_def)

lemma DemoParser_new_wf: "dp_wf (DemoParser_new []) \<and> demo_abs (DemoParser_new []) = (STATE_IDLE, False, [], [])"
  by (simp add: dp_wf_def DemoParser_new_def demo_abs_def)

lemma DM_CHECK_ok: "dm_wf m \<Longrightarrow> DM_CHECK m = Inr ()"
  by (simp add: DM_CHECK_def dm_wf_def check_tag_def)

lemma demo_message_dispose_ok: "dm_wf m \<Longrightarrow> demo_message_dispose (Some m) = Inr None"
  using BufferChain_dispose_ok by (auto simp: demo_message_dispose_def DM_CHECK_ok) (auto simp: dm_wf_def)

lemma add_to_body_ok:
  assumes "dp_wf p" and "dp_current_message_ptr p = Some m"
  shows "\<exists>m'. add_to_body p ch = Inr (p\<lparr>dp_current_message_ptr := Some m'\<rparr>) \<and> dm_wf m' \<and>
     dm_bytes m' = dm_bytes m @ [ch] \<and> dm_opcode m' = dm_opcode m"
proof -
  have m: "dm_wf m" using assms by (simp add: dp_wf_def)
  then obtain bc where bc: "dm_body m = Some bc" "bc_wf bc" "bc_full bc" "bc_flat bc" by (auto simp: dm_wf_def)
  obtain bc' where bc': "BufferChain_append bc [ch] = Inr bc'" "bc_wf bc'" "bc_full bc'" "bc_flat bc'"
    "bc_content bc' = bc_content bc @ [ch]" using BufferChain_append_ok [OF bc(2), of "[ch]"] bc(3,4) by auto
  obtain f where f: "BufferChain_compact bc' = Inr f" "iob_wf f" using BufferChain_compact_ok [OF bc'(2,3)] by blast
  show ?thesis
    by (intro exI [of _ "m\<lparr>dm_body := Some bc'\<rparr>"])
       (use m bc bc' f in \<open>auto simp: add_to_body_def demo_message_get_body_def DM_CHECK_ok IOBuffer_cstr_def
          IOBuffer_free_def iob_wf_check dm_wf_def dm_bytes_def assms(2)\<close>)
qed

lemma dp_wf_message: "dp_wf p \<Longrightarrow> dp_state p \<noteq> STATE_IDLE \<Longrightarrow> \<exists>m. dp_current_message_ptr p = Some m \<and> dm_wf m"
  by (auto simp: dp_wf_def)

lemma dm_wf_lrc: "dm_wf m \<Longrightarrow> dm_wf (m\<lparr>dm_lrc := l\<rparr>)"
  by (simp add: dm_wf_def)

text \<open>The step of a completed frame and of an error at the end of a buffer, which are reported.\<close>

lemma consume_byte_report:
  assumes wf: "dp_wf p" and st: "dp_state p = STATE_LRC \<or> dp_state p = STATE_ERROR_RECOVERY \<and> is_last"
  shows "\<exists>p' rc. consume_byte demo_record is_last ch p = Inr (p', Some rc) \<and> dp_wf p' \<and>
     demo_abs p' = astep is_last ch (demo_abs p)"
proof -
  obtain m where m: "dp_current_message_ptr p = Some m" "dm_wf m" using dp_wf_message [OF wf] st by auto
  from st show ?thesis
  proof
    assume "dp_state p = STATE_LRC"
    with m wf dm_wf_lrc [OF m(2)] demo_message_new_wf show ?thesis
      by (auto simp: consume_byte_def demo_message_set_lrc_def DM_CHECK_ok demo_record_def dp_wf_def entry_ok_def
            demo_abs_def demo_frame_def dm_bytes_def)
  next
    assume "dp_state p = STATE_ERROR_RECOVERY \<and> is_last"
    with m wf demo_message_new_wf show ?thesis
      by (auto simp: consume_byte_def demo_message_dispose_ok demo_record_def dp_wf_def entry_ok_def
            demo_abs_def demo_frame_def)
  qed
qed

lemma consume_byte_refines:
  assumes wf: "dp_wf p"
  shows "\<exists>p' r. consume_byte demo_record is_last ch p = Inr (p', r) \<and> dp_wf p' \<and>
     demo_abs p' = astep is_last ch (demo_abs p)"
proof (cases "dp_state p = STATE_LRC \<or> dp_state p = STATE_ERROR_RECOVERY \<and> is_last")
  case True
  then show ?thesis using consume_byte_report [OF wf] by blast
next
  case False
  show ?thesis
  proof (cases "dp_state p = STATE_IDLE")
    case True
    then show ?thesis using wf demo_message_new_wf
      by (cases "dp_current_message_ptr p") (auto simp: consume_byte_def dp_wf_def demo_abs_def Let_def)
  next
    case st: False
    obtain m where m: "dp_current_message_ptr p = Some m" "dm_wf m" using dp_wf_message [OF wf st] by blast
    show ?thesis
    proof (cases "dp_state p = STATE_BODY \<and> isprint ch")
      case True
      from add_to_body_ok [OF wf m(1), of ch] obtain m' where m': "add_to_body p ch = Inr (p\<lparr>dp_current_message_ptr := Some m'\<rparr>)"
        "dm_wf m'" "dm_bytes m' = dm_bytes m @ [ch]" "dm_opcode m' = dm_opcode m" by blast
      then show ?thesis using True wf m by (auto simp: consume_byte_def dp_wf_def demo_abs_def)
    next
      case nb: False
      have q: "dm_wf (m\<lparr>dm_opcode := b\<rparr>)" "dm_bytes (m\<lparr>dm_opcode := b\<rparr>) = dm_bytes m" for b
        using m(2) by (simp_all add: dm_wf_def dm_bytes_def)
      show ?thesis using False st nb wf m q
        by (cases "dp_state p") (auto simp: consume_byte_def dp_wf_def demo_abs_def demo_message_set_is_request_def DM_CHECK_ok)
    qed
  qed
qed

text \<open>The loop stops where a frame or an error was reported; what is left is read by the next call.\<close>

lemma consume_loop_refines:
  assumes "dp_wf p"
  shows "\<exists>rc n p'. consume_loop demo_record chs i p = Inr (rc, i + n, p') \<and> dp_wf p' \<and> n \<le> length chs \<and>
     (chs \<noteq> [] \<longrightarrow> 0 < n) \<and> abuffer (drop n chs) (demo_abs p') = abuffer chs (demo_abs p)"
  using assms
proof (induction chs arbitrary: i p)
  case Nil
  then show ?case by simp
next
  case (Cons ch chs)
  obtain p1 r where p1: "consume_byte demo_record (chs = []) ch p = Inr (p1, r)" "dp_wf p1"
    "demo_abs p1 = astep (chs = []) ch (demo_abs p)" using consume_byte_refines [OF Cons.prems] by blast
  show ?case
  proof (cases r)
    case None
    from Cons.IH [OF p1(2), of "i + 1"] obtain rc n p' where "consume_loop demo_record chs (i + 1) p1 = Inr (rc, i + 1 + n, p')"
      "dp_wf p'" "n \<le> length chs" "abuffer (drop n chs) (demo_abs p') = abuffer chs (demo_abs p1)" by blast
    then show ?thesis using p1 None by (intro exI [of _ rc] exI [of _ "Suc n"] exI [of _ p']) auto
  next
    case (Some rc)
    then show ?thesis using p1 by (intro exI [of _ rc] exI [of _ "1 :: nat"] exI [of _ p1]) auto
  qed
qed

lemma DemoParser_consume_eq:
  assumes "dp_tag p = DemoParser_TAG" and "iob_wf b"
  shows "DemoParser_consume cb p b = rbind (consume_loop cb (iob_content b) 0 p) (\<lambda>(rc, n, p).
     rbind (IOBuffer_consume b (int n)) (\<lambda>b. Inr (rc, p, b)))"
proof -
  have "DP_CHECK p = Inr ()" using assms(1) by (simp add: DP_CHECK_def check_tag_def)
  then have "DemoParser_consume cb p b =
    rbind (IOBuffer_data b) (\<lambda>d. rbind (IOBuffer_data_len b) (\<lambda>n. rbind (mem_read_at (iob_mem b) d n) (\<lambda>cs.
      rbind (rbind (cell_bytes cs) (\<lambda>charbuf. consume_loop cb charbuf 0 p)) (\<lambda>(rc, n, this).
      rbind (IOBuffer_consume b (int n)) (\<lambda>b. Inr (rc, this, b))))))"
    by (simp add: DemoParser_consume_def rbind_def split: sum.splits)
  then show ?thesis by (simp add: iob_data_cells [OF assms(2)])
qed

lemma DemoParser_consume_refines:
  assumes "dp_wf p" and b: "iob_wf b"
  shows "\<exists>rc n p' b'. DemoParser_consume demo_record p b = Inr (rc, p', b') \<and> dp_wf p' \<and> iob_wf b' \<and>
     n \<le> length (iob_content b) \<and> (iob_content b \<noteq> [] \<longrightarrow> 0 < n) \<and> iob_content b' = drop n (iob_content b) \<and>
     abuffer (iob_content b') (demo_abs p') = abuffer (iob_content b) (demo_abs p)"
proof -
  from consume_loop_refines [OF assms(1), of "iob_content b" 0] obtain rc n p' where
    l: "consume_loop demo_record (iob_content b) 0 p = Inr (rc, n, p')" "dp_wf p'" "n \<le> length (iob_content b)"
      "iob_content b \<noteq> [] \<longrightarrow> 0 < n" "abuffer (drop n (iob_content b)) (demo_abs p') = abuffer (iob_content b) (demo_abs p)"
    by auto
  have "0 \<le> iob_remaining b" using b by (simp add: iob_wf_def)
  then have "int n \<le> iob_remaining b" using l(3) iob_content_length [OF b] by linarith
  then obtain b' where b': "IOBuffer_consume b (int n) = Inr b'" "iob_wf b'" "iob_content b' = drop n (iob_content b)"
    using IOBuffer_consume_ok [OF b, of "int n"] by auto
  have "DemoParser_consume demo_record p b = Inr (rc, p', b')"
    using DemoParser_consume_eq [of p b demo_record] assms(1) b l(1) b'(1) by (simp add: dp_wf_def)
  then show ?thesis using l b' by auto
qed

section \<open>A sequence of buffers\<close>

text \<open>
  The owner presents a buffer again until it is empty, as the comment on \<open>DemoParser_consume\<close>
  demands.  Every call uses at least one byte, so one turn per byte is enough.
\<close>

fun present :: "'c demo_handler \<Rightarrow> nat \<Rightarrow> 'c DemoParser \<Rightarrow> IOBuffer \<Rightarrow> ('c DemoParser \<times> IOBuffer) res" where
  "present cb 0 p b = Inl NoReturn"
| "present cb (Suc k) p b =
     rbind (IOBuffer_data_len b) (\<lambda>n.
     if n = 0 then Inr (p, b)
     else rbind (DemoParser_consume cb p b) (\<lambda>(_, p, b). present cb k p b))"

lemma present_refines:
  assumes "dp_wf p" and "iob_wf b" and "length (iob_content b) < k"
  shows "\<exists>p' b'. present demo_record k p b = Inr (p', b') \<and> dp_wf p' \<and> iob_content b' = [] \<and>
     demo_abs p' = abuffer (iob_content b) (demo_abs p)"
  using assms
proof (induction k arbitrary: p b)
  case 0
  then show ?case by simp
next
  case (Suc k)
  show ?case
  proof (cases "iob_content b = []")
    case True
    then show ?thesis using Suc.prems by (simp add: iob_data_len)
  next
    case False
    obtain rc n p1 b1 where s: "DemoParser_consume demo_record p b = Inr (rc, p1, b1)" "dp_wf p1" "iob_wf b1"
      "0 < n" "iob_content b1 = drop n (iob_content b)"
      "abuffer (iob_content b1) (demo_abs p1) = abuffer (iob_content b) (demo_abs p)"
      using DemoParser_consume_refines [OF Suc.prems(1,2)] False by blast
    have "0 < length (iob_content b)" using False by simp
    then have "length (iob_content b1) < k" using Suc.prems(3) s(4) unfolding s(5) length_drop by linarith
    from Suc.IH [OF s(2,3) this] s(1,6) False Suc.prems(2) show ?thesis by (auto simp: iob_data_len)
  qed
qed

definition demo_feed :: "string \<Rightarrow> demo_log DemoParser \<Rightarrow> demo_log DemoParser res" where
  "demo_feed chunk p =
     rbind (IOBuffer_from_buf chunk) (\<lambda>b.
     rbind (present demo_record (Suc (length chunk)) p b) (\<lambda>(p, _). Inr p))"

lemma demo_feed_refines:
  assumes "dp_wf p" and "chunk \<noteq> []"
  shows "\<exists>p'. demo_feed chunk p = Inr p' \<and> dp_wf p' \<and> demo_abs p' = abuffer chunk (demo_abs p)"
proof -
  obtain b where b: "IOBuffer_from_buf chunk = Inr b" "iob_wf b" "iob_content b = chunk"
    using IOBuffer_from_buf_ok [OF assms(2)] by blast
  then show ?thesis using present_refines [OF assms(1) b(2), of "Suc (length chunk)"] by (auto simp: demo_feed_def)
qed

lemma demo_feeds_refine:
  assumes "dp_wf p" and "[] \<notin> set chunks"
  shows "\<exists>p'. rfold demo_feed chunks p = Inr p' \<and> dp_wf p' \<and> demo_abs p' = fold abuffer chunks (demo_abs p)"
  using assms
proof (induction chunks arbitrary: p)
  case (Cons c chunks)
  then obtain p1 where "demo_feed c p = Inr p1" "dp_wf p1" "demo_abs p1 = abuffer c (demo_abs p)"
    using demo_feed_refines [OF Cons.prems(1), of c] by auto
  then show ?case using Cons.IH [of p1] Cons.prems(2) by auto
qed simp

text \<open>
  C25: Whatever bytes arrive, in whatever pieces, the parser returns, stays well formed and does
  what the automaton does: no assertion fails, no \<open>NULL\<close> pointer is used, every message handed
  over is well formed and complete, and every error is reported without a message.
\<close>

theorem demo_parser_refines:
  assumes "dp_wf p" and "[] \<notin> set chunks"
  shows "\<exists>p'. rfold demo_feed chunks p = Inr p' \<and> dp_wf p' \<and> demo_abs p' = fold abuffer chunks (demo_abs p)"
  using assms by (rule demo_feeds_refine)

theorem demo_parser_refines_witness:
  "\<exists>p'. rfold demo_feed [''x'', [CH_SOH, CHR ''Q'', CH_STX]] (DemoParser_new []) = Inr p' \<and>
     demo_abs p' = (STATE_BODY, True, [], [])"
  using demo_parser_refines [of "DemoParser_new []" "[''x'', [CH_SOH, CHR ''Q'', CH_STX]]"] DemoParser_new_wf
  by (auto simp: CH_SOH_def)

section \<open>Streams of frames\<close>

text \<open>Runs that never reach error recovery do not see where a buffer ends.\<close>

fun clean :: "string \<Rightarrow> automaton \<Rightarrow> bool" where
  "clean [] a \<longleftrightarrow> True"
| "clean (ch # chs) a \<longleftrightarrow> fst a \<noteq> STATE_ERROR_RECOVERY \<and> clean chs (astep False ch a)"

lemma astep_last: "fst a \<noteq> STATE_ERROR_RECOVERY \<Longrightarrow> astep True ch a = astep False ch a"
  by (cases "(True, ch, a)" rule: astep.cases) auto

lemma clean_append: "clean (s @ t) a \<longleftrightarrow> clean s a \<and> clean t (fold (astep False) s a)"
  by (induction s arbitrary: a) simp_all

lemma abuffer_clean: "clean s a \<Longrightarrow> abuffer s a = fold (astep False) s a"
proof (induction s arbitrary: a)
  case (Cons ch chs)
  then show ?case by (cases "chs = []") (simp_all add: astep_last)
qed simp

lemma abuffers_clean: "clean (concat chunks) a \<Longrightarrow> fold abuffer chunks a = fold (astep False) (concat chunks) a"
  by (induction chunks arbitrary: a) (simp_all add: clean_append abuffer_clean)

fun frame_bytes :: "frame \<Rightarrow> string" where
  "frame_bytes (q, b, l) = [CH_SOH, if q then CHR ''Q'' else CHR ''R'', CH_STX] @ b @ [CH_ETX, l]"

lemma idle_skips:
  "CH_SOH \<notin> set g \<Longrightarrow> clean g (STATE_IDLE, q, b, out) \<and> fold (astep False) g (STATE_IDLE, q, b, out) = (STATE_IDLE, q, b, out)"
  by (induction g) auto

lemma body_collects:
  "list_all isprint s \<Longrightarrow> clean s (STATE_BODY, q, b, out) \<and>
     fold (astep False) s (STATE_BODY, q, b, out) = (STATE_BODY, q, b @ s, out)"
  by (induction s arbitrary: b) auto

lemma frame_run:
  "list_all isprint (fst (snd f)) \<Longrightarrow> clean (frame_bytes f) (STATE_IDLE, False, [], out) \<and>
     fold (astep False) (frame_bytes f) (STATE_IDLE, False, [], out) = (STATE_IDLE, False, [], out @ [Some f])"
proof (cases f)
  case (fields q b l)
  assume "list_all isprint (fst (snd f))"
  then have "list_all isprint b" by (simp add: fields)
  moreover have "\<not> isprint CH_ETX" by (simp add: isprint_def CH_ETX_def)
  ultimately show ?thesis using body_collects [of b True "[]" out] body_collects [of b False "[]" out]
    by (simp add: fields clean_append)
qed

lemma stream_run:
  assumes "\<forall>(g, f) \<in> set gfs. CH_SOH \<notin> set g \<and> list_all isprint (fst (snd f))"
  shows "clean (concat (map (\<lambda>(g, f). g @ frame_bytes f) gfs)) (STATE_IDLE, False, [], out) \<and>
     fold (astep False) (concat (map (\<lambda>(g, f). g @ frame_bytes f) gfs)) (STATE_IDLE, False, [], out) =
       (STATE_IDLE, False, [], out @ map (Some \<circ> snd) gfs)"
  using assms
proof (induction gfs arbitrary: out)
  case (Cons gf gfs)
  obtain g f where gf: "gf = (g, f)" by (cases gf)
  have g: "CH_SOH \<notin> set g" "list_all isprint (fst (snd f))" using Cons.prems by (simp_all add: gf)
  from Cons.IH [of "out @ [Some f]"] Cons.prems show ?case
    using idle_skips [OF g(1), of False "[]" out] frame_run [OF g(2), of out] by (simp add: gf clean_append)
qed simp

lemma stream_delivered:
  assumes "\<forall>(g, f) \<in> set gfs. CH_SOH \<notin> set g \<and> list_all isprint (fst (snd f))" and "CH_SOH \<notin> set tail"
    and "concat chunks = concat (map (\<lambda>(g, f). g @ frame_bytes f) gfs) @ tail" and "[] \<notin> set chunks"
  shows "\<exists>p. rfold demo_feed chunks (DemoParser_new []) = Inr p \<and> map demo_frame (dp_on_read_ctx p) = map (Some \<circ> snd) gfs \<and>
     dp_state p = STATE_IDLE"
proof -
  obtain p where p: "rfold demo_feed chunks (DemoParser_new []) = Inr p"
    "demo_abs p = fold abuffer chunks (STATE_IDLE, False, [], [])"
    using demo_feeds_refine [OF _ assms(4), of "DemoParser_new []"] DemoParser_new_wf by auto
  have "demo_abs p = (STATE_IDLE, False, [], map (Some \<circ> snd) gfs)"
    using p(2) abuffers_clean [of chunks] stream_run [OF assms(1), of "[]"] idle_skips [OF assms(2)]
    by (simp add: assms(3) clean_append)
  then show ?thesis using p(1) by (simp add: demo_abs_def)
qed

text \<open>
  Frames are delivered once each, in order and with exactly their opcode, body and check byte,
  however the stream is cut into buffers: a buffer may hold part of a frame, several frames, or end
  in the middle of one, and bytes other than SOH between frames (the EOT of the previous one
  included) are skipped.
\<close>

theorem demo_stream_delivered:
  assumes "\<forall>(g, f) \<in> set gfs. CH_SOH \<notin> set g \<and> list_all isprint (fst (snd f))" and "CH_SOH \<notin> set tail"
    and "concat chunks = concat (map (\<lambda>(g, f). g @ frame_bytes f) gfs) @ tail" and "[] \<notin> set chunks"
  shows "\<exists>p. rfold demo_feed chunks (DemoParser_new []) = Inr p \<and> map demo_frame (dp_on_read_ctx p) = map (Some \<circ> snd) gfs \<and>
     dp_state p = STATE_IDLE"
  using assms by (rule stream_delivered)

theorem demo_stream_delivered_witness:
  "\<exists>p. rfold demo_feed [''x'', [CH_SOH, CHR ''Q''], [CH_STX], ''a'', ''b'', [CH_ETX], ''L'', [CH_EOT]] (DemoParser_new []) = Inr p \<and>
     map demo_frame (dp_on_read_ctx p) = [Some (True, ''ab'', CHR ''L'')] \<and> dp_state p = STATE_IDLE"
  using demo_stream_delivered [of "[(''x'', (True, ''ab'', CHR ''L''))]" "[CH_EOT]"
    "[''x'', [CH_SOH, CHR ''Q''], [CH_STX], ''a'', ''b'', [CH_ETX], ''L'', [CH_EOT]]"]
  by (simp add: CH_SOH_def CH_EOT_def isprint_def)

section \<open>Printing and parsing\<close>

lemma demo_message_serialize_ok:
  assumes "dm_wf m"
  shows "\<exists>b. demo_message_serialize m = Inr b \<and> iob_wf b \<and>
     iob_content b = frame_bytes (dm_opcode m, dm_bytes m, CHR ''L'') @ [CH_EOT]"
proof -
  let ?head = "[CH_SOH, if dm_opcode m then CHR ''Q'' else CHR ''R'', CH_STX]"
  from assms obtain bc where bc: "dm_body m = Some bc" "bc_wf bc" "bc_full bc" "bc_flat bc" by (auto simp: dm_wf_def)
  obtain b where b: "IOBuffer_from_buf ?head = Inr b" "iob_wf b" "iob_content b = ?head"
    using IOBuffer_from_buf_ok [of ?head] by blast
  obtain c1 where c1: "BufferChain_append_IOBuffer BufferChain_new b = Inr c1" "bc_wf c1" "bc_full c1" "bc_content c1 = ?head"
    using BufferChain_append_ok [of BufferChain_new ?head] BufferChain_new_wf BufferChain_append_IOBuffer_eq [OF b(2)] b(3) by auto
  obtain c2 where c2: "BufferChain_append_bufferchain c1 bc = Inr c2" "bc_wf c2" "bc_full c2" "bc_content c2 = ?head @ bc_content bc"
    using BufferChain_append_bufferchain_ok [OF c1(2) bc(2)] c1(3,4) bc(3,4) by (auto simp: bc_flat_def)
  obtain c3 where c3: "BufferChain_append c2 [CH_ETX, CHR ''L'', CH_EOT] = Inr c3" "bc_wf c3" "bc_full c3"
    "bc_content c3 = ?head @ bc_content bc @ [CH_ETX, CHR ''L'', CH_EOT]"
    using BufferChain_append_ok [OF c2(2), of "[CH_ETX, CHR ''L'', CH_EOT]"] c2(3,4) by auto
  obtain f where f: "BufferChain_compact c3 = Inr f" "iob_wf f" "iob_content f = bc_content c3"
    using BufferChain_compact_ok [OF c3(2,3)] by blast
  have "IOBuffer_dispose b = Inr None" using b(2) by (simp add: IOBuffer_dispose_def IOBuffer_destroy_def iob_wf_check)
  then have "demo_message_serialize m = Inr f"
    unfolding demo_message_serialize_def DM_CHECK_ok [OF assms]
    by (simp add: b(1) c1(1) bc(1) c2(1) c3(1) f(1) BufferChain_dispose_ok [OF c3(2)])
  then show ?thesis using f(2,3) c3(4) by (simp add: dm_bytes_def bc(1))
qed

text \<open>The bytes of messages sent one after the other.\<close>

fun demo_wire :: "DemoMessage list \<Rightarrow> string res" where
  "demo_wire [] = Inr []"
| "demo_wire (m # ms) =
     rbind (demo_message_serialize m) (\<lambda>b. rbind (demo_wire ms) (\<lambda>rest. Inr (iob_content b @ rest)))"

definition demo_fields :: "DemoMessage \<Rightarrow> frame" where
  "demo_fields m = (dm_opcode m, dm_bytes m, CHR ''L'')"

lemma demo_wire_ok:
  "\<forall>m \<in> set ms. dm_wf m \<Longrightarrow> demo_wire ms = Inr (concat (map (\<lambda>m. frame_bytes (demo_fields m) @ [CH_EOT]) ms))"
proof (induction ms)
  case (Cons m ms)
  then obtain b where "demo_message_serialize m = Inr b" "iob_content b = frame_bytes (demo_fields m) @ [CH_EOT]"
    using demo_message_serialize_ok [of m] by (auto simp: demo_fields_def simp del: frame_bytes.simps)
  with Cons show ?case by (simp del: frame_bytes.simps)
qed simp

text \<open>The EOT of a frame stands in the gap before the next one.\<close>

lemma wire_gaps:
  "g @ concat (map (\<lambda>f. frame_bytes f @ [CH_EOT]) fs) =
   concat (map (\<lambda>(g, f). g @ frame_bytes f) (zip (g # replicate (length fs) [CH_EOT]) fs)) @ (if fs = [] then g else [CH_EOT])"
proof (induction fs arbitrary: g)
  case (Cons f fs)
  show ?case using Cons.IH [of "[CH_EOT]"] by (simp del: frame_bytes.simps)
qed simp

text \<open>
  C26: What the serialiser writes the parser reads: messages with printable bodies, sent one after
  the other and received in pieces of any size, are handed over in the same order, each with the
  opcode and the body it was sent with and the check byte \<open>L\<close>.
\<close>

theorem demo_wire_roundtrip:
  assumes "\<forall>m \<in> set ms. dm_wf m \<and> list_all isprint (dm_bytes m)" and "[] \<notin> set chunks"
    and "demo_wire ms = Inr (concat chunks)"
  shows "\<exists>p. rfold demo_feed chunks (DemoParser_new []) = Inr p \<and>
     map demo_frame (dp_on_read_ctx p) = map (Some \<circ> demo_fields) ms \<and> dp_state p = STATE_IDLE"
proof -
  let ?fs = "map demo_fields ms"
  let ?gfs = "zip ([] # replicate (length ?fs) [CH_EOT]) ?fs"
  have "concat chunks = concat (map (\<lambda>f. frame_bytes f @ [CH_EOT]) ?fs)"
    using demo_wire_ok [of ms] assms(1,3) by (simp add: comp_def)
  also have "\<dots> = concat (map (\<lambda>(g, f). g @ frame_bytes f) ?gfs) @ (if ?fs = [] then [] else [CH_EOT])"
    using wire_gaps [of "[]" ?fs] by (simp del: frame_bytes.simps)
  finally have c: "concat chunks = \<dots>" .
  have e: "CH_SOH \<noteq> CH_EOT" by (simp add: CH_SOH_def CH_EOT_def)
  have "CH_SOH \<notin> set g \<and> list_all isprint (fst (snd f))" if "(g, f) \<in> set ?gfs" for g f
    using set_zip_leftD [OF that] set_zip_rightD [OF that] assms(1) e by (auto simp: demo_fields_def)
  then have "\<forall>(g, f) \<in> set ?gfs. CH_SOH \<notin> set g \<and> list_all isprint (fst (snd f))" by blast
  moreover have "CH_SOH \<notin> set (if ?fs = [] then [] else [CH_EOT])" using e by simp
  moreover have "map snd ?gfs = ?fs" by (simp add: map_snd_zip_take)
  then have "map (Some \<circ> snd) ?gfs = map (Some \<circ> demo_fields) ms" by (metis map_map)
  ultimately show ?thesis using stream_delivered [OF _ _ c assms(2)] by metis
qed

lemma demo_message_exists:
  assumes "s \<noteq> []"
  shows "\<exists>m. dm_wf m \<and> dm_opcode m = q \<and> dm_bytes m = s"
proof -
  obtain bc where "bc_wf bc" "bc_full bc" "bc_flat bc" "bc_content bc = s"
    using BufferChain_append_ok [of BufferChain_new s] assms BufferChain_new_wf by auto
  then show ?thesis
    by (intro exI [of _ "demo_message_new\<lparr>dm_opcode := q, dm_body := Some bc\<rparr>"])
       (simp add: dm_wf_def dm_bytes_def demo_message_new_def)
qed

theorem demo_wire_roundtrip_witness:
  "\<exists>m p. demo_wire [m] = Inr ([CH_SOH, CHR ''Q'', CH_STX] @ ''hi'' @ [CH_ETX, CHR ''L'', CH_EOT]) \<and>
     rfold demo_feed [[CH_SOH], CHR ''Q'' # CH_STX # ''h'', [CHR ''i'', CH_ETX, CHR ''L''], [CH_EOT]] (DemoParser_new []) = Inr p \<and>
     map demo_frame (dp_on_read_ctx p) = [Some (True, ''hi'', CHR ''L'')]"
proof -
  let ?cs = "[[CH_SOH], CHR ''Q'' # CH_STX # ''h'', [CHR ''i'', CH_ETX, CHR ''L''], [CH_EOT]]"
  obtain m where m: "dm_wf m" "dm_opcode m = True" "dm_bytes m = ''hi''"
    using demo_message_exists [of "''hi''" True] by auto
  then have w: "demo_wire [m] = Inr (concat ?cs)" using demo_wire_ok [of "[m]"] by (simp add: demo_fields_def)
  with demo_wire_roundtrip [of "[m]" ?cs] m obtain p where "rfold demo_feed ?cs (DemoParser_new []) = Inr p"
    "map demo_frame (dp_on_read_ctx p) = [Some (True, ''hi'', CHR ''L'')]"
    by (auto simp: isprint_def demo_fields_def simp del: rfold.simps demo_wire.simps)
  with w show ?thesis by (intro exI [of _ m] exI [of _ p]) simp
qed

section \<open>Answering\<close>

lemma demo_process_request_ok:
  assumes "dm_wf request"
  shows "\<exists>reply b. demo_process_request DemoHandler_TAG request = Inr reply \<and> dm_wf reply \<and> \<not> dm_opcode reply \<and>
     dm_bytes reply = dm_bytes request \<and> demo_message_serialize reply = Inr b \<and>
     iob_content b = frame_bytes (False, dm_bytes request, CHR ''L'') @ [CH_EOT]"
proof -
  from assms obtain body where body: "dm_body request = Some body" "bc_wf body" "bc_full body" "bc_flat body"
    by (auto simp: dm_wf_def)
  obtain bc where bc: "BufferChain_append_bufferchain BufferChain_new body = Inr bc" "bc_wf bc" "bc_full bc" "bc_flat bc"
    "bc_content bc = bc_content body"
    using BufferChain_append_bufferchain_ok [of BufferChain_new body] BufferChain_new_wf body by (auto simp: bc_flat_def)
  let ?reply = "demo_message_new\<lparr>dm_opcode := False, dm_body := Some bc\<rparr>"
  have new: "DM_CHECK demo_message_new = Inr ()" "dm_body demo_message_new = Some BufferChain_new"
    "\<And>b. DM_CHECK (demo_message_new\<lparr>dm_opcode := b\<rparr>) = Inr ()"
    by (simp_all add: DM_CHECK_def demo_message_new_def check_tag_def)
  have "demo_process_request DemoHandler_TAG request = Inr ?reply"
    unfolding demo_process_request_def demo_message_set_is_request_def demo_message_get_body_def
      demo_message_set_body_def DM_CHECK_ok [OF assms]
    using bc(1) BufferChain_new_wf by (simp add: new body(1) check_tag_def BufferChain_dispose_ok)
  moreover have wf: "dm_wf ?reply" "dm_bytes ?reply = dm_bytes request" "\<not> dm_opcode ?reply"
    using bc(2-5) by (simp_all add: dm_wf_def dm_bytes_def demo_message_new_def body(1))
  ultimately show ?thesis using demo_message_serialize_ok [OF wf(1)] by (auto simp del: frame_bytes.simps)
qed

text \<open>
  The reply to a request is a response with a copy of the request's body; sent back, it is
  the frame of that body with opcode \<open>R\<close>.
\<close>

theorem demo_reply_echoes:
  assumes "dm_wf request"
  shows "\<exists>reply b. demo_process_request DemoHandler_TAG request = Inr reply \<and> dm_wf reply \<and> \<not> dm_opcode reply \<and>
     dm_bytes reply = dm_bytes request \<and> demo_message_serialize reply = Inr b \<and>
     iob_content b = frame_bytes (False, dm_bytes request, CHR ''L'') @ [CH_EOT]"
  using assms by (rule demo_process_request_ok)

theorem demo_reply_echoes_witness:
  "\<exists>request reply. dm_bytes request = ''ping'' \<and> demo_process_request DemoHandler_TAG request = Inr reply \<and> dm_bytes reply = ''ping''"
  using demo_message_exists [of "''ping''" True] demo_reply_echoes by (metis list.distinct(1))

section \<open>Recovery from errors\<close>

text \<open>
  After a parse error the parser never gets back on its feet when the peer's bytes arrive one
  at a time: SOH is accepted only if it is not the last byte of a buffer, so every byte, also
  those of perfect frames, is answered with another error.
\<close>

theorem demo_recovery_starves:
  assumes "dp_wf p" and "dp_state p = STATE_ERROR_RECOVERY"
  shows "\<exists>p'. rfold demo_feed (map (\<lambda>ch. [ch]) s) p = Inr p' \<and> dp_state p' = STATE_ERROR_RECOVERY \<and>
     map demo_frame (dp_on_read_ctx p') = map demo_frame (dp_on_read_ctx p) @ replicate (length s) None"
proof -
  have run: "\<exists>q' b'. fold abuffer (map (\<lambda>ch. [ch]) s) (STATE_ERROR_RECOVERY, q, b, out) =
      (STATE_ERROR_RECOVERY, q', b', out @ replicate (length s) None)" for q b out
  proof (induction s arbitrary: q b out)
    case (Cons ch s)
    show ?case using Cons.IH [of False "[]" "out @ [None]"] by simp
  qed simp
  have "[] \<notin> set (map (\<lambda>ch. [ch]) s)" by auto
  from demo_feeds_refine [OF assms(1) this] obtain p' where p': "rfold demo_feed (map (\<lambda>ch. [ch]) s) p = Inr p'"
    "demo_abs p' = fold abuffer (map (\<lambda>ch. [ch]) s) (demo_abs p)" by blast
  obtain q b where a: "demo_abs p = (STATE_ERROR_RECOVERY, q, b, map demo_frame (dp_on_read_ctx p))"
    using assms(2) by (simp add: demo_abs_def)
  show ?thesis using p' run [of q b "map demo_frame (dp_on_read_ctx p)"] unfolding a by (auto simp: demo_abs_def)
qed

lemma demo_broken:
  "\<exists>p. rfold demo_feed [''x'', [CH_SOH, CHR ''?'']] (DemoParser_new []) = Inr p \<and> dp_wf p \<and> dp_state p = STATE_ERROR_RECOVERY \<and>
     dp_on_read_ctx p = []"
  using demo_feeds_refine [of "DemoParser_new []" "[''x'', [CH_SOH, CHR ''?'']]"] DemoParser_new_wf
  by (auto simp: CH_SOH_def demo_abs_def)

theorem demo_recovery_starves_witness:
  "\<exists>p p'. rfold demo_feed (map (\<lambda>ch. [ch]) (frame_bytes (True, ''hi'', CHR ''L''))) p = Inr p' \<and>
     map demo_frame (dp_on_read_ctx p') = replicate 7 None"
proof -
  obtain p where "dp_wf p" "dp_state p = STATE_ERROR_RECOVERY" "dp_on_read_ctx p = []" using demo_broken by blast
  moreover have "length (frame_bytes (True, ''hi'', CHR ''L'')) = 7" by simp
  ultimately show ?thesis
    using demo_recovery_starves [of p "frame_bytes (True, ''hi'', CHR ''L'')"] by (metis append_Nil list.map(1))
qed

text \<open>
  When a frame breaks off inside its body and a correct frame follows in the same buffer, the
  two are run together: the message handed over has the body of the broken frame in front of its
  own.
\<close>

theorem demo_recovery_joins_bodies:
  assumes "list_all isprint b1" and "list_all isprint b2" and "\<not> isprint x" and "x \<noteq> CH_ETX"
  shows "\<exists>p. demo_feed ([CH_SOH, CHR ''Q'', CH_STX] @ b1 @ [x] @ frame_bytes (q, b2, l)) (DemoParser_new []) = Inr p \<and>
     map demo_frame (dp_on_read_ctx p) = [Some (q, b1 @ b2, l)] \<and> dp_state p = STATE_IDLE"
proof -
  have body: "abuffer (s @ t) (STATE_BODY, q, b, out) = abuffer t (STATE_BODY, q, b @ s, out)" if "list_all isprint s" for s t q b out
    using that by (induction s arbitrary: b) auto
  let ?s = "[CH_SOH, CHR ''Q'', CH_STX] @ b1 @ [x] @ frame_bytes (q, b2, l)"
  have "\<not> isprint CH_ETX" by (simp add: isprint_def CH_ETX_def)
  then have "abuffer ?s (STATE_IDLE, False, [], []) = (STATE_IDLE, False, [], [Some (q, b1 @ b2, l)])"
    using assms(3,4) by (cases q) (simp_all add: body [OF assms(1)] body [OF assms(2)])
  moreover obtain p where "demo_feed ?s (DemoParser_new []) = Inr p" "demo_abs p = abuffer ?s (STATE_IDLE, False, [], [])"
    using demo_feed_refines [of "DemoParser_new []" ?s] DemoParser_new_wf by auto
  ultimately show ?thesis by (auto simp: demo_abs_def)
qed

theorem demo_recovery_joins_bodies_witness:
  "\<exists>p. demo_feed ([CH_SOH, CHR ''Q'', CH_STX] @ ''ab'' @ [CH_EOT] @ frame_bytes (True, ''cd'', CHR ''L'')) (DemoParser_new []) = Inr p \<and>
     map demo_frame (dp_on_read_ctx p) = [Some (True, ''abcd'', CHR ''L'')] \<and> dp_state p = STATE_IDLE"
proof -
  have "list_all isprint ''ab''" "list_all isprint ''cd''" "\<not> isprint CH_EOT" "CH_EOT \<noteq> CH_ETX"
    by (simp_all add: isprint_def CH_EOT_def CH_ETX_def)
  from demo_recovery_joins_bodies [OF this, of True "CHR ''L''"] show ?thesis by simp
qed

end
