(* ===== verification/CH_DList.thy ===== *)
theory CH_DList
  imports CH_List
begin

text \<open>
  The second doubly linked list of the library, \<open>src/http_in_c/common/generics/dlist.c\<close>, which was
  split off from \<open>list.c\<close>.  Its nodes and header have the fields of the first one, so its values are
  values of the same type; its operations are modelled from its own text and compared with those
  of the first list.  They differ in \<open>DList_destroy\<close>, which leaves the call of the deallocator to
  \<open>DListNode_dispose\<close>.
\<close>

type_synonym 'a DList = "'a List"

section \<open>Operations\<close>

definition DListNode_new ::
  "'a DList \<Rightarrow> 'a \<Rightarrow> addr option \<Rightarrow> addr option \<Rightarrow> addr \<times> 'a DList" where
  "DListNode_new l content prev next =
     (let a = l_fresh l in
      (a, l\<lparr>l_nodes := (l_nodes l)(a \<mapsto> \<lparr>ln_forward = next, ln_backward = prev,
                                   ln_item = Some content, ln_released = False\<rparr>),
            l_fresh := Suc a\<rparr>))"

definition DListNode_dispose :: "'a DList \<Rightarrow> addr option \<Rightarrow> 'a DList res" where
  "DListNode_dispose l p =
     rbind (get_node l p) (\<lambda>n.
     rbind (if l_dealloc l \<noteq> NoDealloc \<and> ln_item n \<noteq> None then call_dealloc l p else Inr l) (\<lambda>l.
     Inr (l\<lparr>l_nodes := (l_nodes l)(the p := None)\<rparr>)))"

definition DList_init :: "'a DList \<Rightarrow> deallocator \<Rightarrow> 'a DList" where
  "DList_init l d = l\<lparr>l_count := 0, l_head := None, l_tail := None, l_dealloc := d\<rparr>"

definition DList_new :: "deallocator \<Rightarrow> 'a DList" where
  "DList_new d = DList_init \<lparr>l_count = 0, l_head = None, l_tail = None, l_dealloc = d,
                           l_nodes = Map.empty, l_fresh = 0, l_freed = []\<rparr> d"

fun DList_destroy_loop :: "nat \<Rightarrow> 'a DList \<Rightarrow> addr option \<Rightarrow> 'a DList res" where
  "DList_destroy_loop 0 l t = (case t of None \<Rightarrow> Inr l | Some _ \<Rightarrow> Inl NoReturn)"
| "DList_destroy_loop (Suc k) l t =
     (case t of None \<Rightarrow> Inr l
      | Some a \<Rightarrow>
         rbind (get_node l t) (\<lambda>n.
         rbind (DListNode_dispose l t) (\<lambda>l.
         DList_destroy_loop k l (ln_forward n))))"

definition DList_destroy :: "'a DList \<Rightarrow> 'a DList res" where
  "DList_destroy l =
     rbind (DList_destroy_loop (l_fresh l) l (l_head l)) (\<lambda>l'. Inr (DList_init l' (l_dealloc l)))"

definition DList_dispose :: "'a DList \<Rightarrow> 'a DList res" where
  "DList_dispose l = DList_destroy l"

definition DList_size :: "'a DList \<Rightarrow> int" where
  "DList_size l = l_count l"

fun DList_find_loop :: "nat \<Rightarrow> 'a DList \<Rightarrow> 'a \<Rightarrow> addr option \<Rightarrow> addr option res" where
  "DList_find_loop 0 l needle iter = (case iter of None \<Rightarrow> Inr None | Some _ \<Rightarrow> Inl NoReturn)"
| "DList_find_loop (Suc k) l needle iter =
     (case iter of None \<Rightarrow> Inr None
      | Some a \<Rightarrow> rbind (get_node l iter) (\<lambda>n.
          if ln_item n = Some needle then Inr iter
          else DList_find_loop k l needle (ln_forward n)))"

definition DList_find :: "'a DList \<Rightarrow> 'a \<Rightarrow> addr option res" where
  "DList_find l needle = DList_find_loop (l_fresh l) l needle (l_head l)"

definition DList_add_front :: "'a DList \<Rightarrow> 'a \<Rightarrow> 'a DList res" where
  "DList_add_front l content =
     (let (a, l1) = DListNode_new l content None None in
      if l_count l1 = 0 then
        Inr (l1\<lparr>l_head := Some a, l_tail := Some a, l_count := l_count l1 + 1\<rparr>)
      else
        rbind (upd_node l1 (Some a) (\<lambda>n. n\<lparr>ln_forward := l_head l1, ln_backward := None\<rparr>)) (\<lambda>l2.
        rbind (upd_node l2 (l_head l2) (\<lambda>n. n\<lparr>ln_backward := Some a\<rparr>)) (\<lambda>l3.
        Inr (l3\<lparr>l_head := Some a, l_count := l_count l3 + 1\<rparr>))))"

definition DList_add_back :: "'a DList \<Rightarrow> 'a \<Rightarrow> 'a DList res" where
  "DList_add_back l content =
     (let (a, l1) = DListNode_new l content None (l_head l) in
      if l_count l1 = 0 then
        Inr (l1\<lparr>l_tail := Some a, l_head := Some a, l_count := l_count l1 + 1\<rparr>)
      else
        rbind (upd_node l1 (Some a) (\<lambda>n. n\<lparr>ln_backward := l_tail l1, ln_forward := None\<rparr>)) (\<lambda>l2.
        rbind (upd_node l2 (l_tail l2) (\<lambda>n. n\<lparr>ln_forward := Some a\<rparr>)) (\<lambda>l3.
        Inr (l3\<lparr>l_tail := Some a, l_count := l_count l3 + 1\<rparr>))))"

definition DList_first :: "'a DList \<Rightarrow> 'a option res" where
  "DList_first l =
     (if l_head l = None then Inr None else rbind (get_node l (l_head l)) (\<lambda>n. Inr (ln_item n)))"

definition DList_remove_first :: "'a DList \<Rightarrow> ('a option \<times> 'a DList) res" where
  "DList_remove_first l =
     (if l_count l = 0 then Inr (None, l)
      else if l_count l = 1 then
        rbind (get_node l (l_head l)) (\<lambda>n.
        rbind (upd_node l (l_head l) (\<lambda>n. n\<lparr>ln_item := None\<rparr>)) (\<lambda>l1.
        rbind (DListNode_dispose (l1\<lparr>l_count := l_count l1 - 1\<rparr>) (l_head l)) (\<lambda>l2.
        Inr (ln_item n, l2\<lparr>l_head := None, l_tail := None\<rparr>))))
      else
        (let first = l_head l in
         rbind (get_node l first) (\<lambda>n.
         rbind (upd_node (l\<lparr>l_head := ln_forward n\<rparr>) (ln_forward n)
                  (\<lambda>m. m\<lparr>ln_backward := None\<rparr>)) (\<lambda>l1.
         rbind (upd_node l1 first
                  (\<lambda>m. m\<lparr>ln_forward := None, ln_backward := None, ln_item := None\<rparr>)) (\<lambda>l2.
         rbind (DListNode_dispose l2 first) (\<lambda>l3.
         Inr (ln_item n, l3\<lparr>l_count := l_count l3 - 1\<rparr>)))))))"

definition DList_last :: "'a DList \<Rightarrow> 'a option res" where
  "DList_last l =
     (if l_tail l = None then Inr None else rbind (get_node l (l_tail l)) (\<lambda>n. Inr (ln_item n)))"

definition DList_remove_last :: "'a DList \<Rightarrow> ('a option \<times> 'a DList) res" where
  "DList_remove_last l =
     (if l_count l = 0 then Inr (None, l)
      else if l_count l = 1 then
        rbind (get_node l (l_head l)) (\<lambda>n.
        rbind (upd_node l (l_head l) (\<lambda>n. n\<lparr>ln_item := None\<rparr>)) (\<lambda>l1.
        rbind (DListNode_dispose (l1\<lparr>l_count := l_count l1 - 1\<rparr>) (l_head l)) (\<lambda>l2.
        Inr (ln_item n, l2\<lparr>l_head := None, l_tail := None\<rparr>))))
      else
        (let last = l_tail l in
         rbind (get_node l last) (\<lambda>n.
         rbind (upd_node (l\<lparr>l_tail := ln_backward n\<rparr>) (ln_backward n)
                  (\<lambda>m. m\<lparr>ln_forward := None\<rparr>)) (\<lambda>l1.
         rbind (upd_node l1 last
                  (\<lambda>m. m\<lparr>ln_forward := None, ln_backward := None, ln_item := None\<rparr>)) (\<lambda>l2.
         rbind (DListNode_dispose l2 last) (\<lambda>l3.
         Inr (ln_item n, l3\<lparr>l_count := l_count l3 - 1\<rparr>)))))))"

definition DList_iterator :: "'a DList \<Rightarrow> addr option" where
  "DList_iterator l = l_head l"

definition DList_itr_next :: "'a DList \<Rightarrow> addr option \<Rightarrow> addr option res" where
  "DList_itr_next l itr =
     rbind (c_assert (itr \<noteq> None)) (\<lambda>_. rbind (get_node l itr) (\<lambda>n. Inr (ln_forward n)))"

definition DList_itr_remove :: "'a DList \<Rightarrow> addr option \<Rightarrow> 'a DList res" where
  "DList_itr_remove l itr =
     rbind (c_assert (itr \<noteq> None)) (\<lambda>_.
     if l_count l = 0 then Inr l
     else if l_count l = 1 then
       rbind (c_assert (itr = l_head l)) (\<lambda>_.
       DListNode_dispose (l\<lparr>l_count := 0, l_head := None, l_tail := None\<rparr>) itr)
     else
       rbind (get_node l itr) (\<lambda>n.
       rbind
        (if l_head l = itr then
           rbind (upd_node l (ln_forward n) (\<lambda>m. m\<lparr>ln_backward := ln_backward n\<rparr>)) (\<lambda>l1.
           Inr (l1\<lparr>l_head := ln_forward n\<rparr>))
         else if l_tail l = itr then
           rbind (upd_node l (ln_backward n) (\<lambda>m. m\<lparr>ln_forward := ln_forward n\<rparr>)) (\<lambda>l1.
           Inr (l1\<lparr>l_tail := ln_backward n\<rparr>))
         else
           rbind (upd_node l (ln_forward n) (\<lambda>m. m\<lparr>ln_backward := ln_backward n\<rparr>)) (\<lambda>l1.
           upd_node l1 (ln_backward n) (\<lambda>m. m\<lparr>ln_forward := ln_forward n\<rparr>))) (\<lambda>l2.
       DListNode_dispose (l2\<lparr>l_count := l_count l2 - 1\<rparr>) itr)))"

definition DList_itr_unpack :: "'a DList \<Rightarrow> addr option \<Rightarrow> 'a option res" where
  "DList_itr_unpack l itr =
     rbind (c_assert (itr \<noteq> None)) (\<lambda>_. rbind (get_node l itr) (\<lambda>n. Inr (ln_item n)))"

section \<open>Comparison with the first list\<close>

lemmas DList_defs = DListNode_new_def DListNode_dispose_def DList_init_def DList_new_def DList_size_def
  DList_add_front_def DList_add_back_def DList_first_def DList_remove_first_def DList_last_def
  DList_remove_last_def DList_iterator_def DList_itr_next_def DList_itr_remove_def DList_itr_unpack_def

lemmas List_defs = ListNode_new_def ListNode_dispose_def List_init_def List_new_def List_size_def
  List_add_front_def List_add_back_def List_first_def List_remove_first_def List_last_def
  List_remove_last_def List_iterator_def List_itr_next_def List_itr_remove_def List_itr_unpack_def

lemma DList_same:
  "DListNode_dispose = ListNode_dispose" "DList_init = List_init" "DList_new = List_new" "DList_size = List_size"
  "DList_add_front = List_add_front" "DList_add_back = List_add_back" "DList_first = List_first"
  "DList_remove_first = List_remove_first" "DList_last = List_last" "DList_remove_last = List_remove_last"
  "DList_iterator = List_iterator" "DList_itr_next = List_itr_next" "DList_itr_remove = List_itr_remove"
  "DList_itr_unpack = List_itr_unpack"
  by (simp_all add: DList_defs List_defs fun_eq_iff)

lemma DList_find_loop_same: "DList_find_loop k l needle iter = List_find_loop k l needle iter"
  by (induction k arbitrary: iter) (auto simp: rbind_def split: option.splits sum.splits)

lemma DList_find_same: "DList_find l needle = List_find l needle"
  by (simp add: DList_find_def List_find_def DList_find_loop_same)

text \<open>One turn of the loop releases the node and passes its item to the deallocator once.\<close>

lemma DList_destroy_loop_inv:
  assumes "seg (l_nodes l) p f as t None" and "distinct (map fst as)" and "length as \<le> k"
  shows "\<exists>l'. DList_destroy_loop k l f = Inr l' \<and> l_dealloc l' = l_dealloc l \<and>
     l_freed l' = l_freed l @ (if l_dealloc l = NoDealloc then [] else map snd as) \<and>
     (l_dealloc l \<noteq> KeepingDealloc \<longrightarrow> List_destroy_loop k l f = Inr l')"
  using assms
proof (induction as arbitrary: p f k l)
  case Nil
  then show ?case by (cases k) auto
next
  case (Cons ax as)
  obtain a x where ax: "ax = (a, x)" by (cases ax)
  obtain k' where k: "k = Suc k'" using Cons.prems(3) by (cases k) auto
  from Cons.prems(1) ax obtain g where
    node: "l_nodes l a = Some \<lparr>ln_forward = g, ln_backward = p, ln_item = Some x, ln_released = False\<rparr>"
    and f: "f = Some a" and sg: "seg (l_nodes l) (Some a) g as t None" by auto
  define l1 where "l1 = l\<lparr>l_nodes := (l_nodes l)(a := None),
    l_freed := l_freed l @ (if l_dealloc l = NoDealloc then [] else [x])\<rparr>"
  have step: "DList_destroy_loop k l f = DList_destroy_loop k' l1 g"
    using node f k ListNode_dispose_item [OF node, of x] by (simp add: l1_def DList_same get_node_def)
  have step2: "List_destroy_loop k l f = List_destroy_loop k' l1 g" if "l_dealloc l \<noteq> KeepingDealloc"
    using node f k that by (cases l) (simp add: l1_def call_dealloc_def ListNode_dispose_def ptr_simps)
  have "seg (l_nodes l1) (Some a) g as t None" using sg Cons.prems(2) by (simp add: l1_def seg_frame ax)
  from Cons.IH [OF this, of k'] obtain l' where
    "DList_destroy_loop k' l1 g = Inr l'" "l_dealloc l' = l_dealloc l1"
    "l_freed l' = l_freed l1 @ (if l_dealloc l1 = NoDealloc then [] else map snd as)"
    "l_dealloc l1 \<noteq> KeepingDealloc \<longrightarrow> List_destroy_loop k' l1 g = Inr l'"
    using Cons.prems k by auto
  then show ?case using step step2 ax by (auto simp: l1_def)
qed

lemma DList_destroy_wf:
  assumes "List_wf l"
  shows "\<exists>l'. DList_destroy l = Inr l' \<and> List_wf l' \<and> List_items l' = [] \<and> l_dealloc l' = l_dealloc l \<and>
     l_freed l' = l_freed l @ (if l_dealloc l = NoDealloc then [] else List_items l) \<and>
     (l_dealloc l \<noteq> KeepingDealloc \<longrightarrow> List_destroy l = Inr l')"
proof -
  obtain as where as: "List_inv l as" "List_items l = map snd as" by (rule List_wfE [OF assms])
  then have "seg (l_nodes l) None (l_head l) as (l_tail l) None" "distinct (map fst as)" by (auto simp: List_inv_def)
  from DList_destroy_loop_inv [OF this List_inv_length [OF as(1)]] obtain l' where
    l': "DList_destroy_loop (l_fresh l) l (l_head l) = Inr l'" "l_dealloc l' = l_dealloc l"
      "l_freed l' = l_freed l @ (if l_dealloc l = NoDealloc then [] else map snd as)"
      "l_dealloc l \<noteq> KeepingDealloc \<longrightarrow> List_destroy_loop (l_fresh l) l (l_head l) = Inr l'" by blast
  have "List_inv (List_init l' (l_dealloc l)) []" by (simp add: List_inv_def List_init_def)
  from List_wfI [OF this] show ?thesis using l' as(2)
    by (auto simp: DList_destroy_def List_destroy_def DList_same List_init_def)
qed

text \<open>The second list keeps the contract of the first.\<close>

interpretation dlist: deque List_wf List_items "DList_new d" DList_add_front DList_add_back
  DList_remove_first DList_remove_last DList_size for d
  unfolding DList_same by (rule dll.deque_axioms)

section \<open>Scripts\<close>

text \<open>The operations at both ends, removal of the first node with a given item, and destruction.\<close>

datatype 'a dlist_op = End "'a list_op" | Remove_item 'a | Destroy

fun DList_run_op :: "'a dlist_op \<Rightarrow> 'a DList \<Rightarrow> ('a option \<times> 'a DList) res" where
  "DList_run_op (End (Add_front x)) l = rbind (DList_add_front l x) (\<lambda>l. Inr (None, l))"
| "DList_run_op (End (Add_back x)) l = rbind (DList_add_back l x) (\<lambda>l. Inr (None, l))"
| "DList_run_op (End Remove_first) l = DList_remove_first l"
| "DList_run_op (End Remove_last) l = DList_remove_last l"
| "DList_run_op (End Get_first) l = rbind (DList_first l) (\<lambda>x. Inr (x, l))"
| "DList_run_op (End Get_last) l = rbind (DList_last l) (\<lambda>x. Inr (x, l))"
| "DList_run_op (Remove_item x) l =
     rbind (DList_find l x) (\<lambda>itr. if itr = None then Inr (None, l)
       else rbind (DList_itr_remove l itr) (\<lambda>l. Inr (Some x, l)))"
| "DList_run_op Destroy l = rbind (DList_destroy l) (\<lambda>l. Inr (None, l))"

fun List_run_op :: "'a dlist_op \<Rightarrow> 'a List \<Rightarrow> ('a option \<times> 'a List) res" where
  "List_run_op (End c) l = List_step c l"
| "List_run_op (Remove_item x) l =
     rbind (List_find l x) (\<lambda>itr. if itr = None then Inr (None, l)
       else rbind (List_itr_remove l itr) (\<lambda>l. Inr (Some x, l)))"
| "List_run_op Destroy l = rbind (List_destroy l) (\<lambda>l. Inr (None, l))"

fun run_ops :: "('a dlist_op \<Rightarrow> 'a List \<Rightarrow> ('a option \<times> 'a List) res) \<Rightarrow> 'a dlist_op list \<Rightarrow> 'a List \<Rightarrow>
    ('a option list \<times> 'a List) res" where
  "run_ops f [] l = Inr ([], l)"
| "run_ops f (c # cs) l = rbind (f c l) (\<lambda>(x, l). rbind (run_ops f cs l) (\<lambda>(xs, l). Inr (x # xs, l)))"

lemma List_step_wf: "List_wf l \<Longrightarrow> \<exists>x l'. List_step c l = Inr (x, l') \<and> List_wf l' \<and> l_dealloc l' = l_dealloc l"
proof (cases c)
  case (Add_front x)
  then show "List_wf l \<Longrightarrow> ?thesis" using List_add_front_wf [of l x] by auto
next
  case (Add_back x)
  then show "List_wf l \<Longrightarrow> ?thesis" using List_add_back_wf [of l x] by auto
next
  case Remove_first
  then show "List_wf l \<Longrightarrow> ?thesis" using List_remove_first_wf [of l] by auto
next
  case Remove_last
  then show "List_wf l \<Longrightarrow> ?thesis" using List_remove_last_wf [of l] by auto
qed (simp_all add: List_first_wf List_last_wf)

lemma Remove_item_wf:
  assumes "List_wf l"
  shows "\<exists>r l'. List_run_op (Remove_item x) l = Inr (r, l') \<and> List_wf l' \<and> l_dealloc l' = l_dealloc l"
proof -
  obtain as where as: "List_inv l as" by (rule List_wfE [OF assms])
  show ?thesis
  proof (cases "List.find (\<lambda>ax. snd ax = x) as")
    case None
    then show ?thesis using List_find_inv [OF as, of x] assms by simp
  next
    case (Some ax)
    then have "ax \<in> set as" by (metis find_Some_iff nth_mem)
    then obtain bs cs where "as = bs @ (fst ax, snd ax) # cs" using split_list by fastforce
    with as List_itr_remove_inv [of l bs "fst ax" "snd ax" cs] obtain l' where
      "List_itr_remove l (Some (fst ax)) = Inr l'" "List_wf l'" "l_dealloc l' = l_dealloc l"
      by (auto simp: List_wf_def)
    then show ?thesis using List_find_inv [OF as, of x] Some by simp
  qed
qed

lemma List_run_op_wf:
  assumes "List_wf l" and "l_dealloc l \<noteq> KeepingDealloc"
  shows "\<exists>x l'. List_run_op c l = Inr (x, l') \<and> List_wf l' \<and> l_dealloc l' = l_dealloc l"
proof (cases c)
  case (End e)
  then show ?thesis using List_step_wf [OF assms(1)] by simp
next
  case (Remove_item x)
  then show ?thesis using Remove_item_wf [OF assms(1)] by blast
next
  case Destroy
  then show ?thesis using DList_destroy_wf [OF assms(1)] assms(2) by auto
qed

lemma DList_run_op_same:
  assumes "List_wf l" and "l_dealloc l \<noteq> KeepingDealloc"
  shows "DList_run_op c l = List_run_op c l"
proof (cases c)
  case (End e)
  then show ?thesis by (cases e) (simp_all add: DList_same)
next
  case Destroy
  then show ?thesis using DList_destroy_wf [OF assms(1)] assms(2) by auto
qed (simp add: DList_same DList_find_same cong: if_cong)

lemma List_new_dealloc: "l_dealloc (List_new d) = d"
  by (simp add: List_new_def List_init_def)

lemma run_ops_same:
  assumes "List_wf l" and "l_dealloc l \<noteq> KeepingDealloc"
  shows "run_ops DList_run_op cs l = run_ops List_run_op cs l \<and>
     (\<exists>xs l'. run_ops List_run_op cs l = Inr (xs, l') \<and> List_wf l')"
  using assms
proof (induction cs arbitrary: l)
  case (Cons c cs)
  obtain x l1 where "List_run_op c l = Inr (x, l1)" "List_wf l1" "l_dealloc l1 = l_dealloc l"
    using List_run_op_wf [OF Cons.prems] by blast
  with Cons.IH [of l1] Cons.prems show ?case by (auto simp: DList_run_op_same)
qed simp

text \<open>
  C27: The two doubly linked lists of the library are interchangeable as long as the deallocator
  clears the pointer or there is none: every sequence of insertions, removals at the ends, removals
  of a given item and destructions succeeds on both, with the same results, the same items released
  in the same order and the same nodes left.
\<close>

theorem DList_script_equivalent:
  assumes "d \<noteq> KeepingDealloc"
  shows "run_ops DList_run_op cs (DList_new d) = run_ops List_run_op cs (List_new d) \<and>
     (\<exists>xs l. run_ops DList_run_op cs (DList_new d) = Inr (xs, l) \<and> List_wf l)"
  using run_ops_same [OF List_new_wf [of d], of cs] assms by (auto simp: DList_same List_new_dealloc)

theorem DList_script_equivalent_witness:
  "run_ops DList_run_op [End (Add_back (1 :: nat)), End (Add_back 2), Remove_item 1, Destroy] (DList_new NullingDealloc) =
   run_ops List_run_op [End (Add_back 1), End (Add_back 2), Remove_item 1, Destroy] (List_new NullingDealloc)"
  using DList_script_equivalent [of NullingDealloc "[End (Add_back (1 :: nat)), End (Add_back 2), Remove_item 1, Destroy]"]
  by blast

text \<open>
  Where the deallocator leaves the pointer in place the second list is right and the first is
  not: \<open>DList_destroy\<close> releases every item once and in order with every deallocator, where
  \<open>List_destroy\<close> releases the first item twice.
\<close>

theorem DList_destroy_once:
  assumes "List_wf l" and "l_dealloc l \<noteq> NoDealloc" and "List_items l \<noteq> []"
  shows "\<exists>l'. DList_destroy l = Inr l' \<and> List_wf l' \<and> List_items l' = [] \<and> l_freed l' = l_freed l @ List_items l \<and>
     List_destroy l = (if l_dealloc l = KeepingDealloc then Inl DoubleFree else Inr l')"
proof -
  obtain as where as: "List_inv l as" "List_items l = map snd as" by (rule List_wfE [OF assms(1)])
  with assms(3) have "l_dealloc l = KeepingDealloc \<Longrightarrow> List_destroy l = Inl DoubleFree"
    by (cases as) (auto simp: List_destroy_keeping)
  then show ?thesis using DList_destroy_wf [OF assms(1)] assms(2) by auto
qed

theorem DList_destroy_once_witness:
  "\<exists>l'. DList_destroy (three_nodes\<lparr>l_dealloc := KeepingDealloc\<rparr>) = Inr l' \<and> l_freed l' = [10, 11, 12] \<and>
     List_destroy (three_nodes\<lparr>l_dealloc := KeepingDealloc\<rparr>) = Inl DoubleFree"
proof -
  let ?l = "three_nodes\<lparr>l_dealloc := KeepingDealloc\<rparr>"
  have "List_inv ?l [(0, 10), (1, 11), (2, 12)]" using three_nodes_inv by (simp add: List_inv_def)
  from List_wfI [OF this] DList_destroy_once [of ?l] show ?thesis by (auto simp: three_nodes_def)
qed

end
