(* ===== verification/CH_Verify.thy ===== *)
theory CH_Verify
  imports CH_SyncSession
begin

text \<open>
  The verification client \<open>src/verifier/verify_app.c\<close>: threads that open connections to a server, send
  requests with a unique identifier on each, wait for the responses and collect the response times.
  The times themselves are floating point numbers and stay abstract: \<open>elapsed\<close> is the difference
  of two clock readings.  The statistics computed from them at the end are not modelled.
\<close>

section \<open>Thread contexts\<close>

definition THREAD_CONTEXT_TAG :: string where "THREAD_CONTEXT_TAG = ''THDCTX''"
definition VERIFY_URL_MAXSIZE :: nat where "VERIFY_URL_MAXSIZE = 100"
definition VERIFY_UID_MAXSIZE :: nat where "VERIFY_UID_MAXSIZE = 100"
definition VERIFY_MAX_THREADS :: int where "VERIFY_MAX_THREADS = 100"
definition VERIFY_MAX_CONNECTIONS_PER_THREAD :: int where "VERIFY_MAX_CONNECTIONS_PER_THREAD = 20"
definition VERIFY_MAX_REQUESTS_PER_CONNECTION :: int where "VERIFY_MAX_REQUESTS_PER_CONNECTION = 20"
definition HEADER_HOST :: string where "HEADER_HOST = ''HOST''"
definition HEADER_CONTENT_LENGTH :: string where "HEADER_CONTENT_LENGTH = ''CONTENT-LENGTH''"
definition HTTP_GET :: int where "HTTP_GET = 1"

text \<open>
  \<open>url\<close> and \<open>uid\<close> are the strings held by arrays of 100 characters; a longer string is a fault
  where it is stored.  The entries of the array of times are indeterminate until they are stored.
  A context is an element of a static table, so its client pointer starts as \<open>NULL\<close>.
\<close>

record ('l, 't) thread_context =
  tc_tag :: string
  tc_port :: int
  tc_read_buffer_size :: nat
  tc_url :: string
  tc_howmany_connections :: int
  tc_howmany_requests_per_connection :: int
  tc_client_ptr :: "'l sync_client option"
  tc_ident :: int
  tc_request_ptr :: "Message option"
  tc_response_ptr :: "Message option"
  tc_uid :: string
  tc_connection_index :: int
  tc_cycle_index :: int
  tc_time_index :: int
  tc_counter :: int
  tc_total_time :: "'t option"
  tc_resp_times :: "'t option list"

definition char_array_store :: "nat \<Rightarrow> string \<Rightarrow> string res" where
  "char_array_store max_size s = (if length s < max_size then Inr s else Inl MemFault)"

definition thread_context_init :: "int \<Rightarrow> int \<Rightarrow> int \<Rightarrow> int \<Rightarrow> string \<Rightarrow> nat \<Rightarrow> ('l, 't) thread_context res" where
  "thread_context_init ident port nbr_connections_per_thread nbr_requests_per_connection url_cstr read_buffer_size =
     rbind (char_array_store VERIFY_URL_MAXSIZE (c_str url_cstr)) (\<lambda>url.
     Inr \<lparr>tc_tag = THREAD_CONTEXT_TAG, tc_port = port, tc_read_buffer_size = read_buffer_size, tc_url = url,
          tc_howmany_connections = nbr_connections_per_thread,
          tc_howmany_requests_per_connection = nbr_requests_per_connection, tc_client_ptr = None, tc_ident = ident,
          tc_request_ptr = None, tc_response_ptr = None, tc_uid = [], tc_connection_index = 0, tc_cycle_index = 0,
          tc_time_index = 0, tc_counter = 0, tc_total_time = None,
          tc_resp_times = replicate (nat (nbr_connections_per_thread * nbr_requests_per_connection)) None\<rparr>)"

definition ctx_socket :: "('l, 't) thread_context \<Rightarrow> int" where
  "ctx_socket ctx =
     (case tc_client_ptr ctx of None \<Rightarrow> - 1
      | Some cl \<Rightarrow> (case sy_connection_ptr cl of None \<Rightarrow> - 1 | Some p \<Rightarrow> sc_socketfd (hp_handler_context p)))"

definition ctx_time_array_index :: "('l, 't) thread_context \<Rightarrow> int" where
  "ctx_time_array_index ctx = tc_cycle_index ctx + tc_connection_index ctx * tc_howmany_requests_per_connection ctx"

definition ctx_is_last_request_for_connection :: "('l, 't) thread_context \<Rightarrow> bool" where
  "ctx_is_last_request_for_connection ctx \<longleftrightarrow> tc_cycle_index ctx = tc_howmany_requests_per_connection ctx - 1"

section \<open>Requests and responses\<close>

definition make_uid :: "('l, 't) thread_context \<Rightarrow> ('l, 't) thread_context res" where
  "make_uid ctx =
     rbind (char_array_store VERIFY_UID_MAXSIZE
              (int_digits (tc_ident ctx) @ '':'' @ int_digits (tc_connection_index ctx) @ '':'' @ int_digits (tc_cycle_index ctx)))
       (\<lambda>uid. Inr (ctx\<lparr>tc_uid := uid, tc_counter := tc_counter ctx + 1\<rparr>))"

definition make_request :: "('l, 't) thread_context \<Rightarrow> bool \<Rightarrow> Message res" where
  "make_request ctx keep_alive_flag =
     rbind Message_new (\<lambda>request.
     rbind (Message_set_is_request request True) (\<lambda>request.
     rbind (Message_set_method request HTTP_GET) (\<lambda>request.
     rbind (Message_set_target request (tc_url ctx)) (\<lambda>request.
     rbind (Message_add_header_cstring request HEADER_HOST ''ahost'') (\<lambda>request.
     rbind (Message_add_header_cstring request ''User-agent'' ''x15:x15-soundtrip client'') (\<lambda>request.
     rbind (if keep_alive_flag then Message_add_header_cstring request HEADER_CONNECTION_KEY ''Keep-Alive''
            else Message_add_header_cstring request HEADER_CONNECTION_KEY ''close'') (\<lambda>request.
     rbind (Message_add_header_cstring request HEADER_CONTENT_LENGTH ''0'') (\<lambda>request.
     rbind (Message_add_header_cstring request HEADER_ECHO_ID (tc_uid ctx)) (\<lambda>request.
     Message_set_body request (Some BufferChain_new))))))))))"

text \<open>The comparison that is compiled out: the body of the response is the request as it was sent.\<close>

definition verify_body :: "(int \<Rightarrow> string) \<Rightarrow> Message \<Rightarrow> BufferChain \<Rightarrow> bool res" where
  "verify_body nm request body =
     rbind (BufferChain_compact body) (\<lambda>body_iob.
     rbind (Message_serialize nm request) (\<lambda>req_iob.
     IOBuffer_equal body_iob req_iob))"

text \<open>What is compiled serialises both messages and accepts every response.\<close>

definition verify_response :: "(int \<Rightarrow> string) \<Rightarrow> Message \<Rightarrow> Message option \<Rightarrow> bool res" where
  "verify_response nm request response_ptr =
     (case response_ptr of
        None \<Rightarrow> Inr False
      | Some response \<Rightarrow>
          rbind (Message_get_body response) (\<lambda>_.
          rbind (Message_serialize nm request) (\<lambda>iob.
          rbind (Message_serialize nm response) (\<lambda>iobresp. Inr True))))"

section \<open>A thread\<close>

definition store_time :: "('l, 't) thread_context \<Rightarrow> int \<Rightarrow> 't \<Rightarrow> ('l, 't) thread_context res" where
  "store_time ctx i t =
     (if 0 \<le> i \<and> i < int (length (tc_resp_times ctx)) then Inr (ctx\<lparr>tc_resp_times := (tc_resp_times ctx)[nat i := Some t]\<rparr>)
      else Inl MemFault)"

text \<open>
  One turn of the inner loop on the connection of the client: the result says whether the loop
  goes on.  \<open>if(gotone)\<close> is taken for every value but 0.
\<close>

definition request_turn ::
  "'l sync_env \<Rightarrow> (int \<Rightarrow> int \<Rightarrow> 't) \<Rightarrow> int \<Rightarrow> int \<Rightarrow> ('l, 't) thread_context \<times> 'l sync_client \<times> sync_io \<Rightarrow>
   (bool \<times> ('l, 't) thread_context \<times> 'l sync_client \<times> sync_io) res" where
  "request_turn env elapsed iconn ireq st =
     (case st of (ctx, client, io) \<Rightarrow>
       rbind (make_uid (ctx\<lparr>tc_connection_index := iconn, tc_cycle_index := ireq\<rparr>)) (\<lambda>ctx.
       rbind (make_request ctx (ireq < tc_howmany_requests_per_connection ctx - 1)) (\<lambda>request.
       rbind (c_assert (tc_response_ptr ctx = None)) (\<lambda>_.
       rbind (c_deref (sy_connection_ptr client)) (\<lambda>p.
       rbind (sync_connection_write env p request io) (\<lambda>(_, io).
       rbind (sync_connection_read_message env p io) (\<lambda>(gotone, response_ptr, p, io).
       let client = client\<lparr>sy_connection_ptr := Some p\<rparr> in
       if gotone \<noteq> 0 then
         rbind (store_time (ctx\<lparr>tc_time_index := tc_time_index ctx + 1\<rparr>) (tc_time_index ctx) (elapsed iconn ireq)) (\<lambda>ctx.
         case response_ptr of
           None \<Rightarrow> Inl Assertion
         | Some response \<Rightarrow>
             rbind (verify_response (y_llhttp_method_name env) request (Some response)) (\<lambda>_.
             rbind (Message_dispose request) (\<lambda>_.
             rbind (Message_dispose response) (\<lambda>_.
             Inr (True, ctx\<lparr>tc_request_ptr := None, tc_response_ptr := None\<rparr>, client, io)))))
       else
         rbind (Message_dispose request) (\<lambda>_. Inr (False, ctx\<lparr>tc_request_ptr := None\<rparr>, client, io)))))))))"

fun request_loop ::
  "'l sync_env \<Rightarrow> (int \<Rightarrow> int \<Rightarrow> 't) \<Rightarrow> int \<Rightarrow> int list \<Rightarrow> ('l, 't) thread_context \<times> 'l sync_client \<times> sync_io \<Rightarrow>
   (('l, 't) thread_context \<times> 'l sync_client \<times> sync_io) res" where
  "request_loop env elapsed iconn [] st = Inr st"
| "request_loop env elapsed iconn (ireq # ireqs) st =
     rbind (request_turn env elapsed iconn ireq st) (\<lambda>(go_on, st).
     if go_on then request_loop env elapsed iconn ireqs st else Inr st)"

text \<open>
  One connection.  \<open>turns\<close> and \<open>io\<close> say how connecting and the traffic on the socket go; the bytes
  sent are the second result.
\<close>

definition connection_turn ::
  "'l sync_env \<Rightarrow> (int \<Rightarrow> int \<Rightarrow> 't) \<Rightarrow> addr \<Rightarrow> (int \<times> bool) list \<Rightarrow> sync_io \<Rightarrow> int \<Rightarrow> ('l, 't) thread_context \<Rightarrow>
   (('l, 't) thread_context \<times> string) res" where
  "connection_turn env elapsed self turns io iconn ctx =
     rbind (sync_client_set_userptr (sync_client_new (tc_read_buffer_size ctx)) (Some self)) (\<lambda>client.
     rbind (sync_client_connect env turns client) (\<lambda>client.
     rbind (check_tag THREAD_CONTEXT_TAG (tc_tag ctx)) (\<lambda>_.
     rbind (request_loop env elapsed iconn (map int [0..<nat (tc_howmany_requests_per_connection ctx)])
              (ctx\<lparr>tc_connection_index := iconn, tc_client_ptr := Some client\<rparr>, client, io)) (\<lambda>(ctx, client, io).
     rbind (sync_client_close client) (\<lambda>client.
     rbind (sync_client_dispose client) (\<lambda>_.
     Inr (ctx\<lparr>tc_client_ptr := None\<rparr>, si_wire io)))))))"

fun connection_loop ::
  "'l sync_env \<Rightarrow> (int \<Rightarrow> int \<Rightarrow> 't) \<Rightarrow> addr \<Rightarrow> (int \<Rightarrow> (int \<times> bool) list \<times> sync_io) \<Rightarrow> int list \<Rightarrow> ('l, 't) thread_context \<Rightarrow>
   (('l, 't) thread_context \<times> string list) res" where
  "connection_loop env elapsed self net [] ctx = Inr (ctx, [])"
| "connection_loop env elapsed self net (iconn # iconns) ctx =
     rbind (connection_turn env elapsed self (fst (net iconn)) (snd (net iconn)) iconn ctx) (\<lambda>(ctx, wire).
     rbind (connection_loop env elapsed self net iconns ctx) (\<lambda>(ctx, wires). Inr (ctx, wire # wires)))"

definition threadfn ::
  "'l sync_env \<Rightarrow> (int \<Rightarrow> int \<Rightarrow> 't) \<Rightarrow> 't \<Rightarrow> addr \<Rightarrow> (int \<Rightarrow> (int \<times> bool) list \<times> sync_io) \<Rightarrow> ('l, 't) thread_context \<Rightarrow>
   (('l, 't) thread_context \<times> string list) res" where
  "threadfn env elapsed total_ms self net ctx =
     rbind (check_tag THREAD_CONTEXT_TAG (tc_tag ctx)) (\<lambda>_.
     rbind (connection_loop env elapsed self net (map int [0..<nat (tc_howmany_connections ctx)])
              (ctx\<lparr>tc_cycle_index := 0\<rparr>)) (\<lambda>(ctx, wires).
     Inr (ctx\<lparr>tc_total_time := Some total_ms\<rparr>, wires)))"

section \<open>Collecting the times\<close>

text \<open>The target is an array of indeterminate entries; reading one that was never stored is a fault.\<close>

definition array_store :: "'t option list \<Rightarrow> int \<Rightarrow> 't \<Rightarrow> 't option list res" where
  "array_store xs i v = (if 0 \<le> i \<and> i < int (length xs) then Inr (xs[nat i := Some v]) else Inl MemFault)"

definition array_load :: "'t option list \<Rightarrow> nat \<Rightarrow> 't res" where
  "array_load xs i = (if i < length xs then (case xs ! i of None \<Rightarrow> Inl UninitRead | Some v \<Rightarrow> Inr v) else Inl MemFault)"

definition combine_response_times :: "'t option list \<Rightarrow> 't option list \<Rightarrow> nat \<Rightarrow> nat \<Rightarrow> 't option list res" where
  "combine_response_times output_array rt rt_size thrd_ix =
     rfold (\<lambda>i out. rbind (array_load rt i) (\<lambda>v. array_store out (int (thrd_ix * rt_size + i)) v)) [0..<rt_size] output_array"

definition combine_elapsed_times ::
  "'t option list \<Rightarrow> int \<Rightarrow> ('l, 't) thread_context list \<Rightarrow> (int \<times> 't option list) res" where
  "combine_elapsed_times output_array output_max_size ctx_table =
     rfold (\<lambda>ctx st. rfold (\<lambda>i (output_index, out).
         rbind (c_assert (output_index < output_max_size)) (\<lambda>_.
         rbind (array_load (tc_resp_times ctx) i) (\<lambda>v.
         rbind (array_store out output_index v) (\<lambda>out. Inr (output_index + 1, out)))))
       [0..<nat (tc_time_index ctx)] st) ctx_table (0, output_array)"

text \<open>
  \<open>main\<close> after the options have been read, up to the statistics; \<open>None\<close> is the exit for options
  out of range.  An array of variable length must have a positive number of elements.  Thread \<open>t\<close>
  runs with its own network behaviour; the threads share nothing, so they are run in turn.
\<close>

fun run_threads ::
  "'l sync_env \<Rightarrow> (nat \<Rightarrow> int \<Rightarrow> int \<Rightarrow> 't) \<Rightarrow> 't \<Rightarrow> (nat \<Rightarrow> int \<Rightarrow> (int \<times> bool) list \<times> sync_io) \<Rightarrow> nat list \<Rightarrow>
   (nat \<Rightarrow> ('l, 't) thread_context res) \<Rightarrow> ('l, 't) thread_context list res" where
  "run_threads env elapsed total_ms net [] ctxs = Inr []"
| "run_threads env elapsed total_ms net (t # ts) ctxs =
     rbind (ctxs t) (\<lambda>ctx.
     rbind (threadfn env (elapsed t) total_ms t (net t) ctx) (\<lambda>(ctx, _).
     rbind (run_threads env elapsed total_ms net ts ctxs) (\<lambda>rest. Inr (ctx # rest))))"

definition verify_main ::
  "'l sync_env \<Rightarrow> (nat \<Rightarrow> int \<Rightarrow> int \<Rightarrow> 't) \<Rightarrow> 't \<Rightarrow> (nat \<Rightarrow> int \<Rightarrow> (int \<times> bool) list \<times> sync_io) \<Rightarrow>
   int \<Rightarrow> string \<Rightarrow> int \<Rightarrow> int \<Rightarrow> int \<Rightarrow> 't option list option res" where
  "verify_main env elapsed total_ms net port_number url nbr_threads nbr_connections_per_thread nbr_requests_per_connection =
     rbind (char_array_store 100 url) (\<lambda>url.
     let url = (if url = [] then ''/echo'' else url) in
     if nbr_threads > VERIFY_MAX_THREADS then Inr None
     else if nbr_connections_per_thread > VERIFY_MAX_CONNECTIONS_PER_THREAD then Inr None
     else if nbr_requests_per_connection > VERIFY_MAX_REQUESTS_PER_CONNECTION then Inr None
     else
       let nbr_requests = nbr_threads * nbr_connections_per_thread * nbr_requests_per_connection;
           per_thread = nat (nbr_connections_per_thread * nbr_requests_per_connection) in
       if nbr_requests \<le> 0 \<or> nbr_threads \<le> 0 then Inl MemFault
       else
         rbind (run_threads env elapsed total_ms net [0..<nat nbr_threads]
                 (\<lambda>t. thread_context_init (int t) port_number nbr_connections_per_thread nbr_requests_per_connection url 1000000))
           (\<lambda>ctxs.
         rbind (combine_elapsed_times (replicate (nat nbr_requests) None) nbr_requests ctxs) (\<lambda>(nbr_samples, all).
         rbind (rfold (\<lambda>(t, ctx) all. combine_response_times all (tc_resp_times ctx) per_thread t) (enumerate 0 ctxs) all) (\<lambda>all.
         Inr (Some all)))))"

section \<open>The request\<close>

lemma add_header_frame:
  assumes "msg_wf m"
  shows "\<exists>h. Message_add_header_cstring m k v = Inr (m\<lparr>msg_headers := h\<rparr>) \<and> msg_wf (m\<lparr>msg_headers := h\<rparr>) \<and>
     List_items h = List_items (msg_headers m) @ [KVPair_new (c_str k) (c_str v)]"
proof -
  obtain m' where m': "Message_add_header_cstring m k v = Inr m'" "msg_wf m'"
    "List_items (msg_headers m') = List_items (msg_headers m) @ [KVPair_new (c_str k) (c_str v)]"
    using Message_add_header_cstring_ok [OF assms] by blast
  moreover from this(1) obtain h where "m' = m\<lparr>msg_headers := h\<rparr>"
    by (auto simp: Message_add_header_cstring_def rbind_eq_Inr)
  ultimately show ?thesis by auto
qed

lemma add_headers_frame:
  assumes "msg_wf m"
  shows "\<exists>h. rfold (\<lambda>(k, v) m. Message_add_header_cstring m k v) kvs m = Inr (m\<lparr>msg_headers := h\<rparr>) \<and> msg_wf (m\<lparr>msg_headers := h\<rparr>) \<and>
     List_items h = List_items (msg_headers m) @ map (\<lambda>(k, v). KVPair_new (c_str k) (c_str v)) kvs"
  using assms
proof (induction kvs arbitrary: m)
  case Nil
  then show ?case by (intro exI [of _ "msg_headers m"]) simp
next
  case (Cons kv kvs)
  obtain k v where kv: "kv = (k, v)" by (cases kv)
  obtain h where h: "Message_add_header_cstring m k v = Inr (m\<lparr>msg_headers := h\<rparr>)" "msg_wf (m\<lparr>msg_headers := h\<rparr>)"
    "List_items h = List_items (msg_headers m) @ [KVPair_new (c_str k) (c_str v)]" using add_header_frame [OF Cons.prems] by blast
  from Cons.IH [OF h(2)] h(1,3) show ?case by (auto simp: kv)
qed

definition verify_lines :: "string \<Rightarrow> bool \<Rightarrow> KVPair list" where
  "verify_lines uid keep =
     [KVPair_new HEADER_HOST ''ahost'', KVPair_new ''User-agent'' ''x15:x15-soundtrip client'',
      KVPair_new HEADER_CONNECTION_KEY (if keep then ''Keep-Alive'' else ''close''),
      KVPair_new HEADER_CONTENT_LENGTH ''0'', KVPair_new HEADER_ECHO_ID uid]"

definition is_verify_request :: "string \<Rightarrow> string \<Rightarrow> bool \<Rightarrow> Message \<Rightarrow> bool" where
  "is_verify_request url uid keep m \<longleftrightarrow> msg_wf m \<and> msg_is_request m = Some True \<and> msg_method m = Some HTTP_GET \<and>
     cb_holds (msg_target m) url \<and> msg_reason m \<noteq> None \<and> msg_major_vers m = 1 \<and> msg_minor_vers m = 1 \<and>
     List_items (msg_headers m) = verify_lines uid keep \<and> msg_body_bytes m = []"

definition url_ok :: "string \<Rightarrow> bool" where
  "url_ok url \<longleftrightarrow> url \<noteq> [] \<and> no_nul url \<and> length url < VERIFY_URL_MAXSIZE"

lemma make_request_ok:
  assumes "url_ok (tc_url ctx)" and "no_nul (tc_uid ctx)"
  shows "\<exists>m. make_request ctx keep = Inr m \<and> is_verify_request (tc_url ctx) (tc_uid ctx) keep m"
proof -
  obtain m0 where m0: "Message_new = Inr m0" "msg_fresh m0" using Message_new_fresh by blast
  then obtain m0' where v: "Message_new = Inr m0'" "msg_minor_vers m0' = 1" using Message_new_wf by blast
  then have mv: "msg_minor_vers m0 = 1" using m0(1) by (metis sum.inject(2))
  let ?m1 = "m0\<lparr>msg_is_request := Some True, msg_method := Some HTTP_GET\<rparr>"
  have m1: "msg_wf ?m1" using m0(2) by (simp add: msg_fresh_def msg_wf_def)
  obtain t where t: "msg_target ?m1 = Some t" "cb_content t = []" using m0(2) by (auto simp: msg_fresh_def)
  obtain t' where t': "Message_set_target ?m1 (tc_url ctx) = Inr (?m1\<lparr>msg_target := Some t'\<rparr>)" "msg_wf (?m1\<lparr>msg_target := Some t'\<rparr>)"
    "cb_content t' = tc_url ctx" "cb_terminated t'" "cb_wf t'"
    using Message_set_target_ok [OF m1 t, of "tc_url ctx"] assms(1) by (auto simp: url_ok_def VERIFY_URL_MAXSIZE_def)
  let ?m2 = "?m1\<lparr>msg_target := Some t'\<rparr>"
  let ?kvs = "[(HEADER_HOST, ''ahost''), (''User-agent'', ''x15:x15-soundtrip client''),
    (HEADER_CONNECTION_KEY, if keep then ''Keep-Alive'' else ''close''), (HEADER_CONTENT_LENGTH, ''0''), (HEADER_ECHO_ID, tc_uid ctx)]"
  obtain h where h: "rfold (\<lambda>(k, v) m. Message_add_header_cstring m k v) ?kvs ?m2 = Inr (?m2\<lparr>msg_headers := h\<rparr>)"
    "msg_wf (?m2\<lparr>msg_headers := h\<rparr>)" "List_items h = map (\<lambda>(k, v). KVPair_new (c_str k) (c_str v)) ?kvs"
    using add_headers_frame [OF t'(2), of ?kvs] m0(2) by (auto simp: msg_fresh_def simp del: rfold.simps)
  let ?m = "?m2\<lparr>msg_headers := h, msg_body := Some BufferChain_new\<rparr>"
  have "make_request ctx keep =
      rbind (rfold (\<lambda>(k, v) m. Message_add_header_cstring m k v) ?kvs ?m2) (\<lambda>m. Message_set_body m (Some BufferChain_new))"
    unfolding make_request_def m0(1) rbind_Inr
    using m1 m0(2) t'(1)
    by (cases keep) (simp_all add: Message_set_is_request_def Message_set_method_def msg_wf_check msg_fresh_def MSG_CHECK_def msg_wf_def rbind_assoc)
  also have "\<dots> = Inr ?m" using h(2) unfolding h(1) by (simp add: Message_set_body_def msg_wf_check)
  moreover have "List_items h = verify_lines (tc_uid ctx) keep"
    using h(3) assms(2)
    by (cases keep) (simp_all add: verify_lines_def HEADER_HOST_def HEADER_CONNECTION_KEY_def HEADER_CONTENT_LENGTH_def HEADER_ECHO_ID_def)
  moreover have "msg_wf ?m" using h(2) BufferChain_new_wf by (simp add: msg_wf_def)
  ultimately show ?thesis using t'(3-5) m0(2) mv BufferChain_new_wf
    by (intro exI [of _ ?m]) (auto simp: is_verify_request_def cb_holds_def msg_fresh_def msg_body_bytes_def)
qed

text \<open>The bytes of such a request.\<close>

definition verify_bytes :: "(int \<Rightarrow> string) \<Rightarrow> string \<Rightarrow> string \<Rightarrow> bool \<Rightarrow> string" where
  "verify_bytes nm url uid keep = c_str (nm HTTP_GET) @ '' '' @ url @ '' HTTP/1.1'' @ CRLF @
     concat (map hl_line (verify_lines uid keep)) @ CRLF"

lemma verify_request_serialize:
  assumes "is_verify_request url uid keep m" and "no_nul url"
  shows "\<exists>b. Message_serialize nm m = Inr b \<and> iob_wf b \<and> iob_content b = verify_bytes nm url uid keep"
proof -
  from assms obtain t where t: "msg_target m = Some t" "cb_wf t" "cb_terminated t" "cb_content t = url"
    and m: "msg_wf m" "msg_is_request m = Some True" "msg_method m = Some HTTP_GET"
    "msg_major_vers m = 1" "msg_minor_vers m = 1" "List_items (msg_headers m) = verify_lines uid keep" "msg_body_bytes m = []"
    by (auto simp: is_verify_request_def cb_holds_def)
  have one: "int_digits 1 = ''1''" by (simp add: int_digits_def nat_digits.simps digit_char_def char_of_def bit_0)
  show ?thesis
    using Message_serialize_ok [OF m(1) Message_request_line [OF m(2,3) t(1,2,3), of nm]] m(4-7) t(4) assms(2) one
    by (simp add: verify_bytes_def)
qed

lemma verify_lines_bytes:
  assumes "no_nul uid"
  shows "concat (map hl_line (verify_lines uid keep)) = ''HOST: ahost'' @ CRLF @
       ''USER-AGENT: x15:x15-soundtrip client'' @ CRLF @ (if keep then ''CONNECTION: Keep-Alive'' else ''CONNECTION: close'') @ CRLF @
       ''CONTENT-LENGTH: 0'' @ CRLF @ ''C-HTTP-ECHO-ID: '' @ uid @ CRLF"
proof -
  have agent: "map toupper ''User-agent'' = ''USER-AGENT''" "map toupper ''HOST'' = ''HOST''" "map toupper ''CONNECTION'' = ''CONNECTION''"
    "map toupper ''CONTENT-LENGTH'' = ''CONTENT-LENGTH''" "map toupper ''C-HTTP-ECHO-ID'' = ''C-HTTP-ECHO-ID''" by code_simp+
  then show ?thesis using assms
    by (simp add: verify_lines_def hl_line_def KVPair_new_def HEADER_HOST_def HEADER_CONNECTION_KEY_def
        HEADER_CONTENT_LENGTH_def HEADER_ECHO_ID_def)
qed

text \<open>
  A request of the verifier, byte for byte: the request line with the url of the thread, the
  host and agent lines, the connection line that keeps the connection for all but the last
  request, the content length 0, the identifier, and no body.
\<close>

theorem verify_request_bytes:
  assumes "url_ok (tc_url ctx)" and "no_nul (tc_uid ctx)"
  shows "\<exists>m b. make_request ctx keep = Inr m \<and> Message_serialize nm m = Inr b \<and>
     iob_content b = c_str (nm HTTP_GET) @ '' '' @ tc_url ctx @ '' HTTP/1.1'' @ CRLF @ ''HOST: ahost'' @ CRLF @
       ''USER-AGENT: x15:x15-soundtrip client'' @ CRLF @ (if keep then ''CONNECTION: Keep-Alive'' else ''CONNECTION: close'') @ CRLF @
       ''CONTENT-LENGTH: 0'' @ CRLF @ ''C-HTTP-ECHO-ID: '' @ tc_uid ctx @ CRLF @ CRLF"
proof -
  obtain m where m: "make_request ctx keep = Inr m" "is_verify_request (tc_url ctx) (tc_uid ctx) keep m"
    using make_request_ok [OF assms] by blast
  have "no_nul (tc_url ctx)" using assms(1) by (simp add: url_ok_def)
  from verify_request_serialize [OF m(2) this, of nm] obtain b where
    b: "Message_serialize nm m = Inr b" "iob_content b = verify_bytes nm (tc_url ctx) (tc_uid ctx) keep" by blast
  with m(1) b show ?thesis using verify_lines_bytes [OF assms(2)] by (simp add: verify_bytes_def)
qed

definition demo_ctx :: "int \<Rightarrow> (nat, nat) thread_context" where
  "demo_ctx ident = \<lparr>tc_tag = THREAD_CONTEXT_TAG, tc_port = 9001, tc_read_buffer_size = 1000000, tc_url = ''/echo'',
     tc_howmany_connections = 1, tc_howmany_requests_per_connection = 1, tc_client_ptr = None, tc_ident = ident,
     tc_request_ptr = None, tc_response_ptr = None, tc_uid = ''1:0:0'', tc_connection_index = 0, tc_cycle_index = 0,
     tc_time_index = 0, tc_counter = 0, tc_total_time = None, tc_resp_times = [None]\<rparr>"

theorem verify_request_bytes_witness:
  "\<exists>m b. make_request (demo_ctx 1) False = Inr m \<and> Message_serialize (\<lambda>_. ''GET'') m = Inr b \<and>
     iob_content b = ''GET /echo HTTP/1.1'' @ CRLF @ ''HOST: ahost'' @ CRLF @
       ''USER-AGENT: x15:x15-soundtrip client'' @ CRLF @ ''CONNECTION: close'' @ CRLF @
       ''CONTENT-LENGTH: 0'' @ CRLF @ ''C-HTTP-ECHO-ID: 1:0:0'' @ CRLF @ CRLF"
proof -
  have "c_str ''GET'' = ''GET''" by (simp add: c_str_def)
  then show ?thesis
    using verify_request_bytes [of "demo_ctx 1" False "\<lambda>_. ''GET''"] by (simp add: demo_ctx_def url_ok_def VERIFY_URL_MAXSIZE_def)
qed

section \<open>Identifiers\<close>

lemma digit_char_inj: "d < 10 \<Longrightarrow> e < 10 \<Longrightarrow> digit_char d = digit_char e \<Longrightarrow> d = e"
proof -
  assume "d < 10" "e < 10" "digit_char d = digit_char e"
  then have "(of_char (digit_char d) :: nat) = of_char (digit_char e)" by simp
  then show ?thesis using \<open>d < 10\<close> \<open>e < 10\<close> by (simp add: digit_char_def)
qed

lemma nat_digits_inj: "nat_digits n = nat_digits m \<Longrightarrow> n = m"
proof (induction n arbitrary: m rule: nat_digits.induct)
  case (1 n)
  have shape: "nat_digits k = (if k < 10 then [digit_char k] else nat_digits (k div 10) @ [digit_char (k mod 10)])" for k
    by (rule nat_digits.simps)
  have last: "digit_char (n mod 10) = digit_char (m mod 10)"
    using 1(2) shape [of n] shape [of m] by (cases "n < 10"; cases "m < 10") simp_all
  then have "n mod 10 = m mod 10" by (intro digit_char_inj) simp_all
  moreover have "n div 10 = m div 10"
  proof (cases "n < 10")
    case True
    then have "length (nat_digits m) = 1" using 1(2) shape [of n] by (metis One_nat_def length_Cons list.size(3))
    then have "m < 10" using shape [of m] nat_digits_ne [of "m div 10"] by (cases "m < 10") simp_all
    then show ?thesis using True by simp
  next
    case False
    then have "length (nat_digits m) \<noteq> 1" using 1(2) shape [of n] nat_digits_ne [of "n div 10"] by (metis Nat.add_0_right One_nat_def
        add_Suc_right length_0_conv length_append_singleton nat.inject)
    then have m: "\<not> m < 10" using shape [of m] by auto
    then have "nat_digits (n div 10) = nat_digits (m div 10)" using 1(2) False shape [of n] shape [of m] by simp
    then show ?thesis by (rule 1(1) [OF False])
  qed
  ultimately show ?case by (metis div_mult_mod_eq)
qed

lemma nat_digits_range: "c \<in> set (nat_digits n) \<Longrightarrow> 48 \<le> (of_char c :: nat) \<and> (of_char c :: nat) < 58"
proof (induction n rule: nat_digits.induct)
  case (1 n)
  have "(of_char (digit_char d) :: nat) = 48 + d" if "d < 10" for d using that by (simp add: digit_char_def)
  then show ?case using 1 by (subst (asm) (2) nat_digits.simps) (auto split: if_splits)
qed

lemma int_digits_inj: "int_digits i = int_digits j \<Longrightarrow> i = j"
proof -
  assume eq: "int_digits i = int_digits j"
  have "CHR ''-'' \<notin> set (nat_digits n)" for n using nat_digits_range [of "CHR ''-''" n] by auto
  with eq show ?thesis
    by (auto simp: int_digits_def nat_eq_iff dest!: nat_digits_inj split: if_splits) (metis list.set_intros(1))+
qed

lemma colon_not_digit: "CHR '':'' \<notin> set (int_digits i)"
  using nat_digits_range [of "CHR '':''"] by (auto simp: int_digits_def)

lemma colon_split:
  assumes "s @ CHR '':'' # t = s' @ CHR '':'' # t'" and "CHR '':'' \<notin> set s" and "CHR '':'' \<notin> set s'"
  shows "s = s' \<and> t = t'"
proof -
  have "takeWhile (\<lambda>c. c \<noteq> CHR '':'') (u @ CHR '':'' # v) = u" if "CHR '':'' \<notin> set u" for u v :: string
    using that by (induction u) auto
  then have "s = s'" using assms by metis
  then show ?thesis using assms(1) by simp
qed

text \<open>
  No two requests of a run carry the same identifier: it determines the thread, the connection
  and the request on that connection.
\<close>

theorem verify_uid_unique:
  assumes "make_uid ctx = Inr ctx'" and "make_uid ctx2 = Inr ctx2'" and "tc_uid ctx' = tc_uid ctx2'"
  shows "tc_ident ctx = tc_ident ctx2 \<and> tc_connection_index ctx = tc_connection_index ctx2 \<and>
     tc_cycle_index ctx = tc_cycle_index ctx2"
proof -
  let ?u = "\<lambda>c. int_digits (tc_ident c) @ CHR '':'' # int_digits (tc_connection_index c) @ CHR '':'' # int_digits (tc_cycle_index c)"
  have u2: "tc_uid ctx2' = ?u ctx2" using assms(2) by (auto simp: make_uid_def char_array_store_def rbind_eq_Inr split: if_splits)
  have u1: "tc_uid ctx' = ?u ctx" using assms(1) by (auto simp: make_uid_def char_array_store_def rbind_eq_Inr split: if_splits)
  from assms(3) have "?u ctx = ?u ctx2" using u1 u2 by simp
  then show ?thesis using colon_split colon_not_digit int_digits_inj by metis
qed

theorem verify_uid_unique_witness:
  "\<exists>c. make_uid (demo_ctx 7) = Inr c \<and> tc_uid c = ''7:0:0'' \<and> tc_ident (demo_ctx 7) = tc_ident ((demo_ctx 7)\<lparr>tc_counter := 5\<rparr>)"
proof -
  have u: "make_uid (demo_ctx 7) = Inr ((demo_ctx 7)\<lparr>tc_uid := ''7:0:0'', tc_counter := 1\<rparr>)"
    "make_uid ((demo_ctx 7)\<lparr>tc_counter := 5\<rparr>) = Inr ((demo_ctx 7)\<lparr>tc_uid := ''7:0:0'', tc_counter := 6\<rparr>)"
    by (simp_all add: make_uid_def demo_ctx_def char_array_store_def VERIFY_UID_MAXSIZE_def int_digits_def nat_digits.simps
        digit_char_def char_of_def bit_0)
  from verify_uid_unique [OF u] show ?thesis using u(1) by simp
qed

section \<open>Responses\<close>

lemma sync_run_response:
  assumes "hp_ready p" and "sc_open (hp_handler_context p)" and "frag_response_ok r"
  shows "\<exists>q m. ll_run parser_on_message_handler (response_events r) p = Inr (0, q) \<and> hp_ready q \<and>
     sc_open (hp_handler_context q) \<and> is_response_of r m \<and> msg_target m \<noteq> None \<and> msg_reason m \<noteq> None \<and>
     List_items (sc_input_list (hp_handler_context q)) = List_items (sc_input_list (hp_handler_context p)) @ [m] \<and>
     sc_reader_status (hp_handler_context q) = 1 \<and> sc_iobuffer (hp_handler_context q) = sc_iobuffer (hp_handler_context p)"
proof -
  let ?h = parser_on_message_handler and ?c = "hp_handler_context p"
  obtain m p1 where p1: "is_response_of r m" "msg_target m \<noteq> None" "msg_reason m \<noteq> None" "hp_ready p1"
    "ll_run ?h (response_events r) p = rbind (?h ?c m) (\<lambda>(rc, ctx). Inr (rc, p1\<lparr>hp_handler_context := ctx\<rparr>))"
    using run_response [OF assms(1,3), of ?h] by auto
  obtain l where l: "List_add_back (sc_input_list ?c) m = Inr l" "List_wf l" "List_items l = List_items (sc_input_list ?c) @ [m]"
    using List_add_back_wf [of "sc_input_list ?c" m] assms(2) by (auto simp: sc_open_def)
  let ?p2 = "p1\<lparr>hp_handler_context := ?c\<lparr>sc_input_list := l, sc_reader_status := 1\<rparr>\<rparr>"
  have "ll_run ?h (response_events r) p = Inr (0, ?p2)" using p1(5) l(1) by (simp add: parser_on_message_handler_def)
  moreover have "sc_open (hp_handler_context ?p2)" using assms(2) l(2) by (simp add: sc_open_def)
  moreover have "hp_ready ?p2" by (rule hp_ready_ctx [OF p1(4)])
  ultimately show ?thesis using p1(1-3) l(3) by (intro exI [of _ ?p2] exI [of _ m]) simp
qed

lemma read_response:
  assumes "hp_ready p" and "sc_open (hp_handler_context p)" and "List_items (sc_input_list (hp_handler_context p)) = []"
    and "ll_chunks (y_llhttp_execute env) (hp_llhttp p) bs = Some (es1, l1)" and "On_message_complete \<notin> set es1"
    and "b \<noteq> []" and "y_llhttp_execute env l1 b = (es, l2, 0)"
    and "filter significant (es1 @ es) = response_events r" and "frag_response_ok r"
    and "si_reads io = map Some bs @ Some b # rest"
  shows "\<exists>m q. sync_connection_read_message env p io = Inr (1, Some m, q, io\<lparr>si_reads := rest\<rparr>) \<and>
     is_response_of r m \<and> msg_target m \<noteq> None \<and> msg_reason m \<noteq> None \<and>
     List_items (sc_input_list (hp_handler_context q)) = [] \<and> hp_ready q \<and> hp_llhttp q = l2 \<and> sc_open (hp_handler_context q) \<and>
     sc_iobuffer (hp_handler_context q) = sc_iobuffer (hp_handler_context p)"
proof -
  let ?h = parser_on_message_handler and ?c = "(hp_handler_context p)\<lparr>sc_reader_status := 0\<rparr>"
  let ?p = "p\<lparr>hp_handler_context := ?c\<rparr>"
  have p: "hp_ready ?p" "sc_open (hp_handler_context ?p)" using assms(1,2) hp_ready_ctx by (auto simp: sc_open_def)
  from sync_run_response [OF p assms(9)] assms(3) obtain q m where
    q: "ll_run ?h (response_events r) ?p = Inr (0, q)" "hp_ready q" "sc_open (hp_handler_context q)" "is_response_of r m"
    "msg_target m \<noteq> None" "msg_reason m \<noteq> None" "List_items (sc_input_list (hp_handler_context q)) = [m]"
    "sc_reader_status (hp_handler_context q) = 1" "sc_iobuffer (hp_handler_context q) = sc_iobuffer (hp_handler_context p)" by auto
  have run: "ll_run ?h (es1 @ es) ?p = Inr (0, q)" using q(1) assms(8) ll_run_significant [of ?h "es1 @ es" ?p] by simp
  have "sync_connection_read env (map Some bs @ Some b # rest) ?p = Inr (0, set_ll l2 q, rest)"
    by (rule read_chunks [OF hp_ready_typed [OF p(1)] p(2) _ _ assms(5-7) run q(3)]) (use assms(4) q(7,8) in simp_all)
  with read_message_reads [OF assms(2,3), of env io "set_ll l2 q" rest m "[]"] q(3,7,8) assms(10) obtain l where
    l: "sync_connection_read_message env p io = Inr (1, Some m,
        (set_ll l2 q)\<lparr>hp_handler_context := (hp_handler_context q)\<lparr>sc_input_list := l\<rparr>\<rparr>, io\<lparr>si_reads := rest\<rparr>)"
    "List_wf l" "List_items l = []" by auto
  have "sc_open ((hp_handler_context q)\<lparr>sc_input_list := l\<rparr>)" "hp_ready (set_ll l2 q)"
    using q(2,3) l(2) by (simp_all add: sc_open_def hp_ready_def)
  with l q(4-6,9) hp_ready_ctx show ?thesis by fastforce
qed

lemma response_printable: "is_response_of r m \<Longrightarrow> printable nm m"
  unfolding is_response_of_def printable_def cb_holds_def by (auto dest!: Message_status_line [where nm = nm])

section \<open>One turn of a thread\<close>

text \<open>What a server sends back for one request: the chunks it arrives in and the response in them.\<close>

type_synonym answer = "string list \<times> string \<times> frag_response"

fun answers_ok :: "('l \<Rightarrow> string \<Rightarrow> ll_event list \<times> 'l \<times> int) \<Rightarrow> 'l \<Rightarrow> answer list \<Rightarrow> bool" where
  "answers_ok exec l [] = True"
| "answers_ok exec l ((bs, b, r) # as) =
     (case ll_chunks exec l bs of None \<Rightarrow> False
      | Some (es1, l1) \<Rightarrow>
          (case exec l1 b of (es, l2, e) \<Rightarrow>
             e = 0 \<and> b \<noteq> [] \<and> On_message_complete \<notin> set es1 \<and> filter significant (es1 @ es) = response_events r \<and>
             frag_response_ok r \<and> answers_ok exec l2 as))"

definition answer_reads :: "answer \<Rightarrow> string option list" where
  "answer_reads a = (case a of (bs, b, r) \<Rightarrow> map Some bs @ [Some b])"

text \<open>A client whose connection is open, idle and in step with the answers to come.\<close>

definition client_ready :: "'l sync_env \<Rightarrow> 'l sync_client \<Rightarrow> answer list \<Rightarrow> bool" where
  "client_ready env cl as \<longleftrightarrow> sy_tag cl = Some sync_client_TAG \<and>
     (\<exists>p. sy_connection_ptr cl = Some p \<and> hp_ready p \<and> sc_open (hp_handler_context p) \<and>
       (\<exists>b. sc_iobuffer (hp_handler_context p) = Some b \<and> iob_wf b) \<and>
       List_items (sc_input_list (hp_handler_context p)) = [] \<and> answers_ok (y_llhttp_execute env) (hp_llhttp p) as)"

text \<open>A context of a run within the limits, with \<open>done\<close> of its times stored.\<close>

definition uid_of :: "int \<Rightarrow> int \<Rightarrow> int \<Rightarrow> string" where
  "uid_of ident iconn ireq = int_digits ident @ '':'' @ int_digits iconn @ '':'' @ int_digits ireq"

definition small :: "int \<Rightarrow> bool" where
  "small i \<longleftrightarrow> 0 \<le> i \<and> i \<le> 100"

definition ctx_at :: "('l, 't) thread_context \<Rightarrow> 't list \<Rightarrow> nat \<Rightarrow> bool" where
  "ctx_at ctx ts left \<longleftrightarrow> tc_tag ctx = THREAD_CONTEXT_TAG \<and> url_ok (tc_url ctx) \<and> small (tc_ident ctx) \<and>
     tc_response_ptr ctx = None \<and> tc_time_index ctx = int (length ts) \<and> tc_resp_times ctx = map Some ts @ replicate left None"

definition same_task :: "('l, 't) thread_context \<Rightarrow> ('l, 't) thread_context \<Rightarrow> bool" where
  "same_task ctx ctx' \<longleftrightarrow> tc_ident ctx' = tc_ident ctx \<and> tc_url ctx' = tc_url ctx \<and>
     tc_howmany_connections ctx' = tc_howmany_connections ctx \<and>
     tc_howmany_requests_per_connection ctx' = tc_howmany_requests_per_connection ctx \<and>
     tc_read_buffer_size ctx' = tc_read_buffer_size ctx"

lemma small_digits: "small i \<Longrightarrow> length (int_digits i) \<le> 3"
  using length_nat_digits [of "nat i" 2] by (auto simp: small_def int_digits_def nat_less_iff)

lemma make_uid_ok:
  assumes "small (tc_ident ctx)" and "small (tc_connection_index ctx)" and "small (tc_cycle_index ctx)"
  shows "make_uid ctx = Inr (ctx\<lparr>tc_uid := uid_of (tc_ident ctx) (tc_connection_index ctx) (tc_cycle_index ctx),
     tc_counter := tc_counter ctx + 1\<rparr>)"
  using small_digits [OF assms(1)] small_digits [OF assms(2)] small_digits [OF assms(3)]
  by (simp add: make_uid_def char_array_store_def VERIFY_UID_MAXSIZE_def uid_of_def)

lemma response_message_done:
  assumes "is_response_of r m" and "msg_target m \<noteq> None" and "msg_reason m \<noteq> None"
    and "is_verify_request url uid keep q" and "no_nul url"
  shows "verify_response nm q (Some m) = Inr True \<and> (\<exists>d e. Message_dispose q = Inr d \<and> Message_dispose m = Inr e)"
proof -
  have m: "msg_wf m" "printable nm m" using assms(1) response_printable by (auto simp: is_response_of_def)
  have q: "msg_wf q" "msg_target q \<noteq> None" "msg_reason q \<noteq> None" using assms(4) by (auto simp: is_verify_request_def cb_holds_def)
  obtain b b' where "Message_serialize nm q = Inr b" "Message_serialize nm m = Inr b'"
    using verify_request_serialize [OF assms(4,5)] printable_serialize [OF m(2)] by blast
  with m(1) have "verify_response nm q (Some m) = Inr True" by (simp add: verify_response_def Message_get_body_def msg_wf_check)
  with Message_dispose_ok [OF q] Message_dispose_ok [OF m(1) assms(2,3)] show ?thesis by blast
qed

lemma read_answer:
  assumes "hp_ready p" and "sc_open (hp_handler_context p)" and "List_items (sc_input_list (hp_handler_context p)) = []"
    and "answers_ok (y_llhttp_execute env) (hp_llhttp p) (a # as)" and "si_reads io = answer_reads a @ rest"
  shows "\<exists>m q. sync_connection_read_message env p io = Inr (1, Some m, q, io\<lparr>si_reads := rest\<rparr>) \<and>
     is_response_of (snd (snd a)) m \<and> msg_target m \<noteq> None \<and> msg_reason m \<noteq> None \<and> hp_ready q \<and> sc_open (hp_handler_context q) \<and>
     List_items (sc_input_list (hp_handler_context q)) = [] \<and> answers_ok (y_llhttp_execute env) (hp_llhttp q) as \<and>
     sc_iobuffer (hp_handler_context q) = sc_iobuffer (hp_handler_context p)"
proof -
  obtain bs b r where a: "a = (bs, b, r)" by (cases a) auto
  from assms(4) obtain es1 l1 es l2 where
    x: "ll_chunks (y_llhttp_execute env) (hp_llhttp p) bs = Some (es1, l1)" "On_message_complete \<notin> set es1" "b \<noteq> []"
    "y_llhttp_execute env l1 b = (es, l2, 0)" "filter significant (es1 @ es) = response_events r" "frag_response_ok r"
    "answers_ok (y_llhttp_execute env) l2 as" by (auto simp: a split: option.splits prod.splits)
  have "si_reads io = map Some bs @ Some b # rest" using assms(5) a by (simp add: answer_reads_def)
  from read_response [OF assms(1-3) x(1-6) this] x(7) a show ?thesis by fastforce
qed

definition ctx_request :: "('l, 't) thread_context \<Rightarrow> int \<Rightarrow> int \<Rightarrow> ('l, 't) thread_context" where
  "ctx_request ctx iconn ireq = ctx\<lparr>tc_connection_index := iconn, tc_cycle_index := ireq,
     tc_uid := uid_of (tc_ident ctx) iconn ireq, tc_counter := tc_counter ctx + 1\<rparr>"

lemma request_sent:
  assumes ctx: "ctx_at ctx ts left" and p: "sc_open (hp_handler_context p)" and sm: "small iconn" "small ireq" and io: "si_writes io = []"
  shows "\<exists>m n. make_uid (ctx\<lparr>tc_connection_index := iconn, tc_cycle_index := ireq\<rparr>) = Inr (ctx_request ctx iconn ireq) \<and>
     make_request (ctx_request ctx iconn ireq) keep = Inr m \<and> is_verify_request (tc_url ctx) (uid_of (tc_ident ctx) iconn ireq) keep m \<and>
     sync_connection_write env p m io = Inr (n, io\<lparr>si_wire := si_wire io @
       verify_bytes (y_llhttp_method_name env) (tc_url ctx) (uid_of (tc_ident ctx) iconn ireq) keep\<rparr>)"
proof -
  let ?nm = "y_llhttp_method_name env" and ?uid = "uid_of (tc_ident ctx) iconn ireq" and ?ctx = "ctx_request ctx iconn ireq"
  have c: "url_ok (tc_url ctx)" "small (tc_ident ctx)" "no_nul (tc_url ctx)" using ctx by (simp_all add: ctx_at_def url_ok_def)
  have uid: "make_uid (ctx\<lparr>tc_connection_index := iconn, tc_cycle_index := ireq\<rparr>) = Inr ?ctx"
    using make_uid_ok [of "ctx\<lparr>tc_connection_index := iconn, tc_cycle_index := ireq\<rparr>"] c(2) sm by (simp add: ctx_request_def)
  obtain m where m: "make_request ?ctx keep = Inr m" "is_verify_request (tc_url ctx) ?uid keep m"
    using make_request_ok [of ?ctx keep] c(1) by (auto simp: ctx_request_def uid_of_def)
  obtain b where "Message_serialize ?nm m = Inr b" "iob_content b = verify_bytes ?nm (tc_url ctx) ?uid keep"
    using verify_request_serialize [OF m(2) c(3)] by blast
  then have "sync_connection_write env p m io = Inr (int (length (iob_content b)), io\<lparr>si_wire := si_wire io @ verify_bytes ?nm (tc_url ctx) ?uid keep\<rparr>)"
    using io p by (simp add: sync_connection_write_def SC_CHECK_open Let_def)
  with uid m show ?thesis by blast
qed

lemma request_turn_ok:
  assumes ctx: "ctx_at ctx ts (Suc left)" and cl: "client_ready env cl (a # as)" and sm: "small iconn" "small ireq"
    and io: "si_reads io = answer_reads a @ rest" "si_writes io = []"
  shows "\<exists>ctx' cl'. request_turn env elapsed iconn ireq (ctx, cl, io) = Inr (True, ctx', cl',
       io\<lparr>si_wire := si_wire io @ verify_bytes (y_llhttp_method_name env) (tc_url ctx) (uid_of (tc_ident ctx) iconn ireq)
          (ireq < tc_howmany_requests_per_connection ctx - 1), si_reads := rest\<rparr>) \<and>
     ctx_at ctx' (ts @ [elapsed iconn ireq]) left \<and> client_ready env cl' as \<and> same_task ctx ctx'"
proof -
  let ?nm = "y_llhttp_method_name env" and ?uid = "uid_of (tc_ident ctx) iconn ireq"
  let ?keep = "ireq < tc_howmany_requests_per_connection ctx - 1"
  have c: "url_ok (tc_url ctx)" "tc_response_ptr ctx = None" "tc_time_index ctx = int (length ts)"
    "tc_resp_times ctx = map Some ts @ replicate (Suc left) None" "no_nul (tc_url ctx)" using ctx by (simp_all add: ctx_at_def url_ok_def)
  from cl obtain p ib where p: "sy_tag cl = Some sync_client_TAG" "sy_connection_ptr cl = Some p" "hp_ready p"
    "sc_open (hp_handler_context p)" "sc_iobuffer (hp_handler_context p) = Some ib" "iob_wf ib"
    "List_items (sc_input_list (hp_handler_context p)) = []" "answers_ok (y_llhttp_execute env) (hp_llhttp p) (a # as)"
    unfolding client_ready_def by blast
  let ?io = "io\<lparr>si_wire := si_wire io @ verify_bytes ?nm (tc_url ctx) ?uid ?keep\<rparr>"
  obtain m n where m: "make_uid (ctx\<lparr>tc_connection_index := iconn, tc_cycle_index := ireq\<rparr>) = Inr (ctx_request ctx iconn ireq)"
    "make_request (ctx_request ctx iconn ireq) ?keep = Inr m" "is_verify_request (tc_url ctx) ?uid ?keep m"
    "sync_connection_write env p m io = Inr (n, ?io)" using request_sent [OF ctx p(4) sm io(2)] by blast
  from read_answer [OF p(3,4,7,8), of ?io rest] io(1) obtain r q where
    q: "sync_connection_read_message env p ?io = Inr (1, Some r, q, ?io\<lparr>si_reads := rest\<rparr>)" "is_response_of (snd (snd a)) r"
    "msg_target r \<noteq> None" "msg_reason r \<noteq> None" "hp_ready q" "sc_open (hp_handler_context q)"
    "List_items (sc_input_list (hp_handler_context q)) = []" "answers_ok (y_llhttp_execute env) (hp_llhttp q) as"
    "sc_iobuffer (hp_handler_context q) = Some ib" using p(5) by auto
  obtain d e where d: "verify_response ?nm m (Some r) = Inr True" "Message_dispose m = Inr d" "Message_dispose r = Inr e"
    using response_message_done [OF q(2-4) m(3) c(5)] by blast
  define ctx2 where "ctx2 = (ctx_request ctx iconn ireq)\<lparr>tc_time_index := int (length ts) + 1,
     tc_resp_times := map Some (ts @ [elapsed iconn ireq]) @ replicate left None, tc_request_ptr := None, tc_response_ptr := None\<rparr>"
  have "request_turn env elapsed iconn ireq (ctx, cl, io) = Inr (True, ctx2, cl\<lparr>sy_connection_ptr := Some q\<rparr>, ?io\<lparr>si_reads := rest\<rparr>)"
    unfolding request_turn_def using m(1,2,4) q(1) d c(2-4) p(2)
    by (simp add: ctx_request_def ctx2_def store_time_def list_update_append Let_def)
  moreover have "ctx_at ctx2 (ts @ [elapsed iconn ireq]) left" "same_task ctx ctx2"
    using ctx by (simp_all add: ctx_at_def ctx2_def ctx_request_def same_task_def)
  moreover have "client_ready env (cl\<lparr>sy_connection_ptr := Some q\<rparr>) as" using p(1,6) q(5-9) by (simp add: client_ready_def)
  ultimately show ?thesis by (intro exI [of _ ctx2] exI [of _ "cl\<lparr>sy_connection_ptr := Some q\<rparr>"]) simp
qed

section \<open>The loops of a thread\<close>

lemma same_task_trans: "same_task a b \<Longrightarrow> same_task b c \<Longrightarrow> same_task a c"
  by (simp add: same_task_def)

definition connection_wire :: "(int \<Rightarrow> string) \<Rightarrow> string \<Rightarrow> int \<Rightarrow> int \<Rightarrow> int \<Rightarrow> int list \<Rightarrow> string" where
  "connection_wire nm url ident n iconn reqs = concat (map (\<lambda>j. verify_bytes nm url (uid_of ident iconn j) (j < n - 1)) reqs)"

lemma request_loop_ok:
  assumes "ctx_at ctx ts (length as + left)" and "client_ready env cl as" and "small iconn" and "\<forall>j \<in> set reqs. small j"
    and "length reqs = length as" and "si_reads io = concat (map answer_reads as) @ rest" and "si_writes io = []"
  shows "\<exists>ctx' cl'. request_loop env elapsed iconn reqs (ctx, cl, io) = Inr (ctx', cl',
       io\<lparr>si_wire := si_wire io @ connection_wire (y_llhttp_method_name env) (tc_url ctx) (tc_ident ctx)
          (tc_howmany_requests_per_connection ctx) iconn reqs, si_reads := rest\<rparr>) \<and>
     ctx_at ctx' (ts @ map (elapsed iconn) reqs) left \<and> client_ready env cl' [] \<and> same_task ctx ctx'"
  using assms
proof (induction reqs arbitrary: ctx ts as cl io)
  case Nil
  then show ?case by (intro exI [of _ ctx] exI [of _ cl]) (simp add: same_task_def connection_wire_def)
next
  case (Cons j js)
  from Cons.prems(5) obtain a as' where as: "as = a # as'" by (cases as) auto
  let ?w = "verify_bytes (y_llhttp_method_name env) (tc_url ctx) (uid_of (tc_ident ctx) iconn j) (j < tc_howmany_requests_per_connection ctx - 1)"
  let ?rest = "concat (map answer_reads as') @ rest" and ?io = "io\<lparr>si_wire := si_wire io @ ?w, si_reads := concat (map answer_reads as') @ rest\<rparr>"
  have io: "si_reads io = answer_reads a @ ?rest" "ctx_at ctx ts (Suc (length as' + left))" using Cons.prems(1,6) as by simp_all
  have "client_ready env cl (a # as')" "small j" using Cons.prems(2,4) as by simp_all
  from request_turn_ok [OF io(2) this(1) Cons.prems(3) this(2) io(1) Cons.prems(7), where elapsed = elapsed] obtain ctx1 cl1 where
    t: "request_turn env elapsed iconn j (ctx, cl, io) = Inr (True, ctx1, cl1, ?io)" "ctx_at ctx1 (ts @ [elapsed iconn j]) (length as' + left)"
      "client_ready env cl1 as'" "same_task ctx ctx1" by blast
  from Cons.IH [OF t(2,3) Cons.prems(3), of ?io] Cons.prems(4,5,7) as obtain ctx2 cl2 where
    l: "request_loop env elapsed iconn js (ctx1, cl1, ?io) = Inr (ctx2, cl2,
        ?io\<lparr>si_wire := si_wire ?io @ connection_wire (y_llhttp_method_name env) (tc_url ctx1) (tc_ident ctx1)
          (tc_howmany_requests_per_connection ctx1) iconn js, si_reads := rest\<rparr>)"
      "ctx_at ctx2 ((ts @ [elapsed iconn j]) @ map (elapsed iconn) js) left" "client_ready env cl2 []" "same_task ctx1 ctx2"
    by auto
  have "tc_url ctx1 = tc_url ctx" "tc_ident ctx1 = tc_ident ctx"
    "tc_howmany_requests_per_connection ctx1 = tc_howmany_requests_per_connection ctx" using t(4) by (simp_all add: same_task_def)
  with t(1) l(1) have "request_loop env elapsed iconn (j # js) (ctx, cl, io) = Inr (ctx2, cl2,
        io\<lparr>si_wire := si_wire io @ connection_wire (y_llhttp_method_name env) (tc_url ctx) (tc_ident ctx)
          (tc_howmany_requests_per_connection ctx) iconn (j # js), si_reads := rest\<rparr>)"
    by (simp add: connection_wire_def)
  with l(2,3) same_task_trans [OF t(4) l(4)] show ?case by auto
qed

text \<open>Connecting succeeds in some turn.\<close>

definition connects :: "(int \<times> bool) list \<Rightarrow> bool" where
  "connects turns \<longleftrightarrow> (\<exists>t \<in> set turns. fst t \<noteq> - 1 \<and> snd t)"

lemma connection_helper_ok:
  assumes "connects turns"
  shows "\<exists>fd p. fd \<noteq> - 1 \<and> sync_connection_new env fd (sy_read_buffer_size this) = Inr p \<and>
     connection_helper env turns this = Inr (this\<lparr>sy_connection_ptr := Some p\<rparr>)"
  using assms
proof (induction turns)
  case (Cons t turns)
  obtain fd ok where t: "t = (fd, ok)" by (cases t)
  show ?case
  proof (cases "fd \<noteq> - 1 \<and> ok")
    case True
    then show ?thesis using new_connection [of env fd "sy_read_buffer_size this"] t by auto
  next
    case False
    then show ?thesis using Cons t by (auto simp: connects_def)
  qed
qed (simp add: connects_def)

text \<open>A connection on which the server answers every request, each answer arriving in pieces.\<close>

definition served :: "'l sync_env \<Rightarrow> nat \<Rightarrow> (int \<times> bool) list \<times> sync_io \<Rightarrow> answer list \<Rightarrow> bool" where
  "served env n net as \<longleftrightarrow> connects (fst net) \<and> si_reads (snd net) = concat (map answer_reads as) \<and> si_writes (snd net) = [] \<and>
     si_wire (snd net) = [] \<and> length as = n \<and> answers_ok (y_llhttp_execute env) (y_llhttp_init env) as"

lemma new_connection_buffer:
  assumes "sync_connection_new env fd n = Inr p"
  shows "sc_iobuffer (hp_handler_context p) = Some IOBuffer_new"
proof -
  let ?c = "\<lparr>sc_tag = SYNC_CONNECTION_TAG, sc_iobuffer = Some IOBuffer_new, sc_socketfd = fd,
        sc_read_buffer_size = n, sc_input_list = List_new NullingDealloc, sc_reader_status = 0\<rparr>"
  obtain q where "http_parser_new (y_llhttp_init env) ?c = Inr q" "hp_handler_context q = ?c"
    using http_parser_new_ready [of "y_llhttp_init env" ?c] by blast
  with assms show ?thesis by (simp add: sync_connection_new_def sync_connection_init_def)
qed

lemma client_connect_ok:
  assumes "connects turns" and "answers_ok (y_llhttp_execute env) (y_llhttp_init env) as" and "sy_tag this = Some sync_client_TAG"
  shows "\<exists>cl. sync_client_connect env turns this = Inr cl \<and> client_ready env cl as"
proof -
  obtain fd p where p: "fd \<noteq> - 1" "sync_connection_new env fd (sy_read_buffer_size this) = Inr p"
    "connection_helper env turns this = Inr (this\<lparr>sy_connection_ptr := Some p\<rparr>)"
    using connection_helper_ok [OF assms(1)] by blast
  from new_connection [of env fd "sy_read_buffer_size this"] p(1,2) have
    "hp_ready p" "hp_llhttp p = y_llhttp_init env" "sc_open (hp_handler_context p)"
    "List_items (sc_input_list (hp_handler_context p)) = []" by auto
  with new_connection_buffer [OF p(2)] p(3) assms(2,3) IOBuffer_new_wf show ?thesis
    by (simp add: sync_client_connect_def SY_CHECK_def client_ready_def check_tag_def)
qed

lemma client_finish_ok:
  assumes "client_ready env cl as"
  shows "\<exists>cl'. sync_client_close cl = Inr cl' \<and> sync_client_dispose cl' = Inr None"
proof -
  from assms obtain p b where p: "sy_tag cl = Some sync_client_TAG" "sy_connection_ptr cl = Some p" "sc_open (hp_handler_context p)"
    "sc_iobuffer (hp_handler_context p) = Some b" "iob_wf b" unfolding client_ready_def by blast
  have "IOBuffer_dispose b = Inr None"
    using p(5) by (simp add: IOBuffer_dispose_def IOBuffer_destroy_def IOBuffer_free_def iob_wf_check)
  with p show ?thesis
    by (simp add: sync_client_close_def sync_connection_close_def SC_CHECK_open sync_client_dispose_def SY_CHECK_def check_tag_def
        sync_client_destroy_def sync_connection_dispose_def SC_CHECK_def sync_connection_destroy_def sc_open_def)
qed

lemma set_userptr_new:
  "sync_client_set_userptr (sync_client_new n) user = Inr ((sync_client_new n)\<lparr>sy_user_ptr := user\<rparr>)"
  by (simp add: sync_client_set_userptr_def sync_client_new_def SY_CHECK_def check_tag_def)

lemma connection_turn_ok:
  assumes ctx: "ctx_at ctx ts (n + left)" and nr: "tc_howmany_requests_per_connection ctx = int n" and "n \<le> 100" and "small iconn"
    and sv: "served env n net as"
  shows "\<exists>ctx'. connection_turn env elapsed self (fst net) (snd net) iconn ctx =
       Inr (ctx', connection_wire (y_llhttp_method_name env) (tc_url ctx) (tc_ident ctx) (int n) iconn (map int [0..<n])) \<and>
     ctx_at ctx' (ts @ map (elapsed iconn) (map int [0..<n])) left \<and> same_task ctx ctx'"
proof -
  let ?cl = "(sync_client_new (tc_read_buffer_size ctx))\<lparr>sy_user_ptr := Some self\<rparr>"
  obtain cl where cl: "sync_client_connect env (fst net) ?cl = Inr cl" "client_ready env cl as"
    using client_connect_ok [of "fst net" env as ?cl] sv by (auto simp: served_def sync_client_new_def)
  let ?ctx = "ctx\<lparr>tc_connection_index := iconn, tc_client_ptr := Some cl\<rparr>"
  have c: "ctx_at ?ctx ts (length as + left)" "\<forall>j \<in> set (map int [0..<n]). small j" "length (map int [0..<n]) = length as"
    "si_reads (snd net) = concat (map answer_reads as) @ []" "si_writes (snd net) = []" "si_wire (snd net) = []"
    using ctx sv assms(3) by (auto simp: ctx_at_def served_def small_def)
  from request_loop_ok [OF c(1) cl(2) assms(4) c(2-5), where elapsed = elapsed] c(6) nr obtain ctx1 cl1 where
    l: "request_loop env elapsed iconn (map int [0..<n]) (?ctx, cl, snd net) = Inr (ctx1, cl1,
        (snd net)\<lparr>si_wire := connection_wire (y_llhttp_method_name env) (tc_url ctx) (tc_ident ctx) (int n) iconn (map int [0..<n]),
          si_reads := []\<rparr>)"
      "ctx_at ctx1 (ts @ map (elapsed iconn) (map int [0..<n])) left" "client_ready env cl1 []" "same_task ?ctx ctx1"
    by auto
  obtain cl2 where "sync_client_close cl1 = Inr cl2" "sync_client_dispose cl2 = Inr None" using client_finish_ok [OF l(3)] by blast
  with cl(1) l(1) nr ctx have "connection_turn env elapsed self (fst net) (snd net) iconn ctx = Inr (ctx1\<lparr>tc_client_ptr := None\<rparr>,
      connection_wire (y_llhttp_method_name env) (tc_url ctx) (tc_ident ctx) (int n) iconn (map int [0..<n]))"
    by (simp add: connection_turn_def ctx_at_def check_tag_def set_userptr_new)
  with l(2,4) show ?thesis by (auto simp: ctx_at_def same_task_def)
qed

lemma connection_loop_ok:
  assumes "ctx_at ctx ts (length conns * n + left)" and "tc_howmany_requests_per_connection ctx = int n" and "n \<le> 100"
    and "\<forall>i \<in> set conns. small i \<and> served env n (net i) (answers i)"
  shows "\<exists>ctx'. connection_loop env elapsed self net conns ctx =
       Inr (ctx', map (\<lambda>i. connection_wire (y_llhttp_method_name env) (tc_url ctx) (tc_ident ctx) (int n) i (map int [0..<n])) conns) \<and>
     ctx_at ctx' (ts @ concat (map (\<lambda>i. map (elapsed i) (map int [0..<n])) conns)) left \<and> same_task ctx ctx'"
  using assms
proof (induction conns arbitrary: ctx ts)
  case Nil
  then show ?case by (auto simp: same_task_def)
next
  case (Cons i conns)
  have c: "ctx_at ctx ts (n + (length conns * n + left))" "small i" "served env n (net i) (answers i)"
    using Cons.prems(1,4) by (simp_all add: add.assoc)
  from connection_turn_ok [OF c(1) Cons.prems(2,3) c(2,3), where elapsed = elapsed and self = self] obtain ctx1 where
    t: "connection_turn env elapsed self (fst (net i)) (snd (net i)) i ctx =
       Inr (ctx1, connection_wire (y_llhttp_method_name env) (tc_url ctx) (tc_ident ctx) (int n) i (map int [0..<n]))"
     "ctx_at ctx1 (ts @ map (elapsed i) (map int [0..<n])) (length conns * n + left)" "same_task ctx ctx1" by blast
  have s: "tc_howmany_requests_per_connection ctx1 = int n" "tc_url ctx1 = tc_url ctx" "tc_ident ctx1 = tc_ident ctx"
    using t(3) Cons.prems(2) by (simp_all add: same_task_def)
  from Cons.IH [OF t(2) s(1) Cons.prems(3)] Cons.prems(4) s obtain ctx2 where
    "connection_loop env elapsed self net conns ctx1 =
       Inr (ctx2, map (\<lambda>i. connection_wire (y_llhttp_method_name env) (tc_url ctx) (tc_ident ctx) (int n) i (map int [0..<n])) conns)"
     "ctx_at ctx2 ((ts @ map (elapsed i) (map int [0..<n])) @ concat (map (\<lambda>i. map (elapsed i) (map int [0..<n])) conns)) left"
     "same_task ctx1 ctx2" by auto
  with t(1) same_task_trans [OF t(3)] show ?case by auto
qed

definition thread_times :: "(int \<Rightarrow> int \<Rightarrow> 't) \<Rightarrow> nat \<Rightarrow> nat \<Rightarrow> 't list" where
  "thread_times elapsed nc nr = concat (map (\<lambda>i. map (elapsed i) (map int [0..<nr])) (map int [0..<nc]))"

lemma length_thread_times [simp]: "length (thread_times elapsed nc nr) = nc * nr"
  by (simp add: thread_times_def length_concat comp_def sum_list_triv)

definition run_times :: "(nat \<Rightarrow> int \<Rightarrow> int \<Rightarrow> 't) \<Rightarrow> nat \<Rightarrow> nat \<Rightarrow> nat \<Rightarrow> 't list list" where
  "run_times elapsed nt nc nr = map (\<lambda>t. thread_times (elapsed t) nc nr) [0..<nt]"

lemma thread_run:
  fixes env :: "'l sync_env" and elapsed :: "int \<Rightarrow> int \<Rightarrow> 't"
  assumes "url_ok url" and "small ident" and "nr \<le> 100" and "nc \<le> 100"
    and "\<forall>i \<in> set (map int [0..<nc]). served env nr (net i) (answers i)"
  shows "\<exists>ctx ctx'. thread_context_init ident port (int nc) (int nr) url n = Inr ctx \<and>
     threadfn env elapsed total_ms self net ctx = Inr (ctx', map (\<lambda>i. connection_wire (y_llhttp_method_name env) url ident (int nr) i
       (map int [0..<nr])) (map int [0..<nc])) \<and>
     tc_resp_times ctx' = map Some (thread_times elapsed nc nr) \<and> tc_time_index ctx' = int (nc * nr) \<and> tc_total_time ctx' = Some total_ms"
proof -
  have url: "no_nul url" "length url < VERIFY_URL_MAXSIZE" using assms(1) by (simp_all add: url_ok_def)
  then obtain ctx :: "('l, 't) thread_context" where ctx: "thread_context_init ident port (int nc) (int nr) url n = Inr ctx" "tc_url ctx = url" "tc_ident ctx = ident"
    "ctx_at ctx [] (length (map int [0..<nc]) * nr + 0)" "tc_howmany_requests_per_connection ctx = int nr" "tc_howmany_connections ctx = int nc"
    using assms(1,2) by (simp add: thread_context_init_def char_array_store_def ctx_at_def nat_mult_distrib)
  let ?ctx = "ctx\<lparr>tc_cycle_index := 0\<rparr>"
  have a: "ctx_at ?ctx [] (length (map int [0..<nc]) * nr + 0)" using ctx(4) by (simp add: ctx_at_def)
  have "\<forall>i \<in> set (map int [0..<nc]). small i \<and> served env nr (net i) (answers i)" using assms(4,5) by (simp add: small_def)
  from connection_loop_ok [OF a _ assms(3) this, where elapsed = elapsed and self = self] ctx(2,3,5) obtain ctx1 where
    l: "connection_loop env elapsed self net (map int [0..<nc]) ?ctx =
       Inr (ctx1, map (\<lambda>i. connection_wire (y_llhttp_method_name env) url ident (int nr) i (map int [0..<nr])) (map int [0..<nc]))"
     "ctx_at ctx1 (thread_times elapsed nc nr) 0" by (auto simp: thread_times_def)
  from a have "check_tag THREAD_CONTEXT_TAG (tc_tag ctx) = Inr ()" by (simp add: ctx_at_def check_tag_def)
  with l(1) ctx(6) have "threadfn env elapsed total_ms self net ctx = Inr (ctx1\<lparr>tc_total_time := Some total_ms\<rparr>,
      map (\<lambda>i. connection_wire (y_llhttp_method_name env) url ident (int nr) i (map int [0..<nr])) (map int [0..<nc]))"
    by (simp add: threadfn_def)
  with ctx(1) l(2) show ?thesis by (auto simp: ctx_at_def)
qed

section \<open>The times collected\<close>

lemma array_load_Some: "i < length ts \<Longrightarrow> array_load (map Some ts) i = Inr (ts ! i)"
  by (simp add: array_load_def)

lemma array_store_next:
  "array_store (map Some ts @ replicate (Suc k) None) (int (length ts)) v = Inr (map Some (ts @ [v]) @ replicate k None)"
  by (simp add: array_store_def list_update_append)

lemma combine_one:
  assumes "i + length us = length ts" and "us = drop i ts" and "int (length acc + length us) \<le> n"
  shows "rfold (\<lambda>i (output_index, out).
         rbind (c_assert (output_index < n)) (\<lambda>_. rbind (array_load (map Some ts) i) (\<lambda>v.
         rbind (array_store out output_index v) (\<lambda>out. Inr (output_index + 1, out))))) [i..<length ts]
       (int (length acc), map Some acc @ replicate (length us + k) None) =
     Inr (int (length (acc @ us)), map Some (acc @ us) @ replicate k None)"
  using assms
proof (induction us arbitrary: i acc)
  case (Cons u us)
  have i: "i < length ts" using Cons.prems(1) by simp
  have u: "ts ! i = u" "us = drop (Suc i) ts"
    using Cons.prems(2) i by (metis Cons_nth_drop_Suc list.inject)+
  have "rfold (\<lambda>i (output_index, out).
         rbind (c_assert (output_index < n)) (\<lambda>_. rbind (array_load (map Some ts) i) (\<lambda>v.
         rbind (array_store out output_index v) (\<lambda>out. Inr (output_index + 1, out))))) [Suc i..<length ts]
       (int (length (acc @ [u])), map Some (acc @ [u]) @ replicate (length us + k) None) =
     Inr (int (length ((acc @ [u]) @ us)), map Some ((acc @ [u]) @ us) @ replicate k None)"
    by (rule Cons.IH) (use Cons.prems(1,3) u(2) in auto)
  with Cons.prems(3) i u(1) array_store_next [of acc "length us + k" u] show ?case
    by (simp add: upt_conv_Cons array_load_Some add.commute [of 1])
qed simp

text \<open>A finished thread and its times.\<close>

definition thread_finished :: "('l, 't) thread_context \<Rightarrow> 't list \<Rightarrow> bool" where
  "thread_finished ctx ts \<longleftrightarrow> tc_resp_times ctx = map Some ts \<and> tc_time_index ctx = int (length ts)"

lemma combine_elapsed:
  assumes "list_all2 thread_finished ctxs tss" and "int (length (acc @ concat tss)) \<le> n"
  shows "rfold (\<lambda>ctx st. rfold (\<lambda>i (output_index, out).
         rbind (c_assert (output_index < n)) (\<lambda>_. rbind (array_load (tc_resp_times ctx) i) (\<lambda>v.
         rbind (array_store out output_index v) (\<lambda>out. Inr (output_index + 1, out)))))
       [0..<nat (tc_time_index ctx)] st) ctxs (int (length acc), map Some acc @ replicate (length (concat tss)) None) =
     Inr (int (length (acc @ concat tss)), map Some (acc @ concat tss))"
  using assms
proof (induction ctxs tss arbitrary: acc rule: list_all2_induct)
  case (Cons ctx ctxs ts tss)
  from Cons.hyps(1) have f: "tc_resp_times ctx = map Some ts" "nat (tc_time_index ctx) = length ts" by (simp_all add: thread_finished_def)
  have "int (length acc + length ts) \<le> n" using Cons.prems by simp
  from combine_one [of 0 ts ts acc n "length (concat tss)"] this Cons.IH [of "acc @ ts"] Cons.prems f show ?case
    by simp
qed simp

lemma combine_elapsed_times_ok:
  assumes "list_all2 thread_finished ctxs tss"
  shows "combine_elapsed_times (replicate (length (concat tss)) None) (int (length (concat tss))) ctxs =
     Inr (int (length (concat tss)), map Some (concat tss))"
  using combine_elapsed [OF assms, of "[]" "int (length (concat tss))"] by (simp add: combine_elapsed_times_def)

lemma combine_response_same:
  assumes "\<forall>j \<in> set js. j < length rt \<and> base + j < length all \<and> all ! (base + j) = rt ! j"
  shows "rfold (\<lambda>i out. rbind (array_load (map Some rt) i) (\<lambda>v. array_store out (int (base + i)) v)) js (map Some all) = Inr (map Some all)"
  using assms
proof (induction js)
  case (Cons j js)
  then have "(map Some all)[base + j := Some (rt ! j)] = map Some all" by (simp add: list_update_same_conv)
  with Cons show ?case by (simp add: array_load_Some array_store_def nat_add_distrib)
qed simp

lemma concat_blocks:
  assumes "\<forall>ts \<in> set tss. length ts = k" and "t < length tss" and "j < k"
  shows "t * k + j < length (concat tss) \<and> concat tss ! (t * k + j) = tss ! t ! j"
  using assms
proof (induction tss arbitrary: t)
  case (Cons ts tss)
  then show ?case by (cases t) (auto simp: nth_append add.assoc)
qed simp

lemma combine_response_times_same:
  assumes "\<forall>ts \<in> set tss. length ts = k" and "t < length tss"
  shows "combine_response_times (map Some (concat tss)) (map Some (tss ! t)) k t = Inr (map Some (concat tss))"
  unfolding combine_response_times_def
  by (rule combine_response_same) (use concat_blocks [OF assms] assms in auto)

lemma run_threads_ok:
  fixes env :: "'l sync_env" and elapsed :: "nat \<Rightarrow> int \<Rightarrow> int \<Rightarrow> 't"
  assumes "url_ok url" and "nr \<le> 100" and "nc \<le> 100"
    and "\<forall>t \<in> set threads. t \<le> 100 \<and> (\<forall>i \<in> set (map int [0..<nc]). served env nr (net t i) (answers t i))"
  shows "\<exists>ctxs. run_threads env elapsed total_ms net threads (\<lambda>t. thread_context_init (int t) port (int nc) (int nr) url n) = Inr ctxs \<and>
     list_all2 thread_finished ctxs (map (\<lambda>t. thread_times (elapsed t) nc nr) threads)"
  using assms(4)
proof (induction threads)
  case (Cons t threads)
  have "small (int t)" "\<forall>i \<in> set (map int [0..<nc]). served env nr (net t i) (answers t i)" using Cons.prems by (simp_all add: small_def)
  from thread_run [OF assms(1) this(1) assms(2,3) this(2), where elapsed = "elapsed t" and total_ms = total_ms and self = t and port = port and n = n]
  obtain ctx ctx' :: "('l, 't) thread_context" and wires where
    t: "thread_context_init (int t) port (int nc) (int nr) url n = Inr ctx"
    "threadfn env (elapsed t) total_ms t (net t) ctx = Inr (ctx', wires)" "thread_finished ctx' (thread_times (elapsed t) nc nr)"
    by (auto simp: thread_finished_def)
  with Cons show ?case by auto
qed simp

lemma rfold_const: "\<forall>x \<in> set xs. f x s = Inr s \<Longrightarrow> rfold f xs s = Inr s"
  by (induction xs) simp_all

lemma combine_threads:
  assumes "list_all2 thread_finished ctxs tss" and "\<forall>ts \<in> set tss. length ts = k"
  shows "rfold (\<lambda>(t, ctx) all. combine_response_times all (tc_resp_times ctx) k t) (enumerate 0 ctxs) (map Some (concat tss)) =
     Inr (map Some (concat tss))"
proof (rule rfold_const, rule ballI, simp only: split_paired_all prod.case)
  fix t ctx
  assume "(t, ctx) \<in> set (enumerate 0 ctxs)"
  then have "t < length tss" "tc_resp_times ctx = map Some (tss ! t)"
    using assms(1) by (auto simp: in_set_enumerate_eq list_all2_conv_all_nth thread_finished_def)
  then show "combine_response_times (map Some (concat tss)) (tc_resp_times ctx) k t = Inr (map Some (concat tss))"
    using combine_response_times_same [OF assms(2)] by simp
qed

text \<open>
  C14: A thread of the verifier against a server that answers: it opens its connections, sends on each
  of them its requests in order, the last one asking to close, each with its own identifier, and
  stores one response time for every request in the order of the requests; no entry of the array
  is left indeterminate and nothing is written outside it.
\<close>

theorem verify_thread_completes:
  assumes "url_ok url" and "small ident" and "nr \<le> 20" and "nc \<le> 20"
    and "\<forall>i \<in> set (map int [0..<nc]). served env nr (net i) (answers i)"
  shows "\<exists>ctx ctx'. thread_context_init ident port (int nc) (int nr) url n = Inr ctx \<and>
     threadfn env elapsed total_ms self net ctx = Inr (ctx', map (\<lambda>i. concat (map (\<lambda>j.
       verify_bytes (y_llhttp_method_name env) url (uid_of ident i j) (j < int nr - 1)) (map int [0..<nr]))) (map int [0..<nc])) \<and>
     tc_resp_times ctx' = map Some (concat (map (\<lambda>i. map (elapsed i) (map int [0..<nr])) (map int [0..<nc]))) \<and>
     tc_time_index ctx' = int (nc * nr)"
  using thread_run [OF assms(1,2) _ _ assms(5), where elapsed = elapsed and total_ms = total_ms and self = self and port = port and n = n]
    assms(3,4) by (auto simp: thread_times_def connection_wire_def [abs_def])

text \<open>
  A run of the verifier collects the response times of all threads, connection by connection and
  request by request, for every number of threads, connections and requests within the limits.
\<close>

theorem verify_main_collects:
  assumes "url_ok url" and "0 < nt" and "nt \<le> 100" and "0 < nc" and "nc \<le> 20" and "0 < nr" and "nr \<le> 20"
    and "\<forall>t \<in> set [0..<nt]. \<forall>i \<in> set (map int [0..<nc]). served env nr (net t i) (answers t i)"
  shows "verify_main env elapsed total_ms net port url (int nt) (int nc) (int nr) =
     Inr (Some (map Some (concat (run_times elapsed nt nc nr))))"
proof -
  let ?tss = "run_times elapsed nt nc nr"
  have len: "\<forall>ts \<in> set ?tss. length ts = nc * nr" "length (concat ?tss) = nt * nc * nr"
    by (simp_all add: run_times_def length_concat comp_def sum_list_triv)
  obtain ctxs where c: "run_threads env elapsed total_ms net [0..<nt]
      (\<lambda>t. thread_context_init (int t) port (int nc) (int nr) url 1000000) = Inr ctxs" "list_all2 thread_finished ctxs ?tss"
    using run_threads_ok [OF assms(1), of nr nc "[0..<nt]" env net answers elapsed total_ms port 1000000] assms(3,5,7,8)
    by (auto simp: run_times_def)
  have n: "int nt * int nc * int nr = int (length (concat ?tss))" "nat (int nc * int nr) = nc * nr" "0 < int nt * int nc * int nr"
    using len(2) assms(2,4,6) by (simp_all add: nat_mult_distrib)
  have u: "char_array_store 100 url = Inr url" "url \<noteq> []" using assms(1) by (simp_all add: url_ok_def char_array_store_def VERIFY_URL_MAXSIZE_def)
  show ?thesis
    using c(1) combine_elapsed_times_ok [OF c(2)] combine_threads [OF c(2) len(1)] n u assms(2,3,5,7)
    by (simp add: verify_main_def VERIFY_MAX_THREADS_def VERIFY_MAX_CONNECTIONS_PER_THREAD_def VERIFY_MAX_REQUESTS_PER_CONNECTION_def
        Let_def)
qed

section \<open>Checking the echo\<close>

lemma verify_body_ok:
  assumes "is_verify_request url uid keep m" and "no_nul url" and "bc_wf bc" and "bc_full bc"
  shows "verify_body nm m bc = Inr (length (bc_content bc) = length (verify_bytes nm url uid keep) \<and>
     c_str (bc_content bc) = c_str (verify_bytes nm url uid keep))"
  using verify_request_serialize [OF assms(1,2), of nm] BufferChain_compact_ok [OF assms(3,4)]
  by (auto simp: verify_body_def IOBuffer_equal_ok)

text \<open>A request that arrived whole at the server, whatever the pieces it came in.\<close>

definition carries :: "frag_request \<Rightarrow> string \<Rightarrow> string \<Rightarrow> bool \<Rightarrow> bool" where
  "carries r url uid keep \<longleftrightarrow> fr_method r = HTTP_GET \<and> concat (fr_url r) = url \<and> fr_minor r = 1 \<and>
     map header_pair (fr_headers r) = verify_lines uid keep \<and> concat (fr_body r) = []"

lemma request_of_carries:
  assumes "is_request_of r q" and "carries r url uid keep" and "no_nul url"
  shows "\<exists>b. Message_serialize nm q = Inr b \<and> iob_wf b \<and> iob_content b = verify_bytes nm url uid keep"
proof -
  from assms(1,2) obtain t where t: "msg_target q = Some t" "cb_wf t" "cb_terminated t" "cb_content t = url"
    and q: "msg_wf q" "msg_is_request q = Some True" "msg_method q = Some HTTP_GET"
    "msg_major_vers q = 1" "msg_minor_vers q = 1" "List_items (msg_headers q) = verify_lines uid keep" "msg_body_bytes q = []"
    by (auto simp: is_request_of_def carries_def cb_holds_def)
  have one: "int_digits 1 = ''1''" by (simp add: int_digits_def nat_digits.simps digit_char_def char_of_def bit_0)
  show ?thesis
    using Message_serialize_ok [OF q(1) Message_request_line [OF q(2,3) t(1,2,3), of nm]] q(4-7) t(4) assms(3) one
    by (simp add: verify_bytes_def)
qed

lemma verify_bytes_length:
  assumes "c_str (nm HTTP_GET) = ''GET''" and "no_nul uid" and "length uid < 100"
  shows "length (verify_bytes nm ''/echo'' uid keep) < 1000000000"
  using assms(1,3) by (simp add: verify_bytes_def verify_lines_bytes [OF assms(2)] CRLF_def)

text \<open>
  C29: The echo of the example application satisfies the check that the verifier means to make.  When
  the request of the verifier has arrived at the server, the application answers with a body that
  is byte for byte what the client had sent, and the comparison of \<open>verify_response\<close> (compiled
  out at present) accepts a response with that body, whatever buffers it was received in.
\<close>

theorem verify_echo_accepted:
  assumes "make_request ctx keep = Inr m" and "tc_url ctx = ''/echo''" and "no_nul (tc_uid ctx)" and "length (tc_uid ctx) < 100"
    and "c_str (nm HTTP_GET) = ''GET''" and "is_request_of r q" and "carries r ''/echo'' (tc_uid ctx) keep"
    and "dt_s \<noteq> []" and "no_nul dt_s" and "sw_tag wref = SYNC_WORKER_TAG"
  shows "\<exists>resp. app_handler_example nm dt_s tid wref q = Inr resp \<and> msg_wf resp \<and>
     msg_body_bytes resp = verify_bytes nm ''/echo'' (tc_uid ctx) keep \<and>
     (\<forall>c bc. msg_wf c \<and> msg_body c = Some bc \<and> msg_body_bytes c = msg_body_bytes resp \<longrightarrow> verify_body nm m bc = Inr True)"
proof -
  have u: "url_ok (tc_url ctx)" "no_nul ''/echo''" using assms(2) by (simp_all add: url_ok_def VERIFY_URL_MAXSIZE_def)
  from make_request_ok [OF u(1) assms(3), of keep] assms(1,2) have m: "is_verify_request ''/echo'' (tc_uid ctx) keep m" by auto
  obtain b where b: "Message_serialize nm q = Inr b" "iob_wf b" "iob_content b = verify_bytes nm ''/echo'' (tc_uid ctx) keep"
    using request_of_carries [OF assms(6,7) u(2)] by blast
  have q: "msg_wf q" "cb_holds (msg_target q) ''/echo''" using assms(6,7) by (auto simp: is_request_of_def carries_def)
  have ne: "iob_content b \<noteq> []" using b(3) by (simp add: verify_bytes_def)
  have len: "length (iob_content b) < 1000000000" using b(3) verify_bytes_length [where nm = nm, OF assms(5,3,4)] by simp
  obtain resp where r: "app_handler_example nm dt_s tid wref q = Inr resp" "msg_body_bytes resp = iob_content b" "msg_wf resp"
    using app_handler_ok [OF q(1) b(1,2) ne q(2) _ _ _ assms(8-10), of "iob_content b" tid] len by auto
  have "verify_body nm m bc = Inr True" if "msg_wf c" "msg_body c = Some bc" "msg_body_bytes c = msg_body_bytes resp" for c bc
  proof -
    have "bc_wf bc" "bc_full bc" "bc_content bc = verify_bytes nm ''/echo'' (tc_uid ctx) keep"
      using that r(2) b(3) by (auto simp: msg_wf_def msg_body_bytes_def)
    with verify_body_ok [OF m u(2)] show ?thesis by simp
  qed
  with r b(3) show ?thesis by auto
qed

text \<open>
  What is compiled instead verifies nothing: for every response that can be serialised the result
  is true, also where the comparison that was meant finds the body different from the request.
\<close>

theorem verify_response_accepts_all:
  assumes "is_verify_request url uid keep q" and "no_nul url" and "printable nm m" and "msg_body m = Some bc"
    and "length (bc_content bc) \<noteq> length (verify_bytes nm url uid keep)"
  shows "verify_body nm q bc = Inr False \<and> verify_response nm q (Some m) = Inr True"
proof -
  have wf: "msg_wf m" using assms(3) by (simp add: printable_def)
  then have "verify_body nm q bc = Inr False" using verify_body_ok [OF assms(1,2)] assms(4,5) by (auto simp: msg_wf_def)
  moreover obtain b b' where "Message_serialize nm q = Inr b" "Message_serialize nm m = Inr b'"
    using verify_request_serialize [OF assms(1,2)] printable_serialize [OF assms(3)] by blast
  then have "verify_response nm q (Some m) = Inr True" using wf by (simp add: verify_response_def Message_get_body_def msg_wf_check)
  ultimately show ?thesis by simp
qed

theorem verify_response_accepts_all_witness:
  "\<exists>q m bc. make_request (demo_ctx 1) False = Inr q \<and> msg_body m = Some bc \<and> bc_content bc = [] \<and>
     verify_body (\<lambda>_. ''GET'') q bc = Inr False \<and> verify_response (\<lambda>_. ''GET'') q (Some m) = Inr True"
proof -
  let ?nm = "\<lambda>_. ''GET''"
  have u: "url_ok (tc_url (demo_ctx 1))" "no_nul (tc_uid (demo_ctx 1))" "no_nul (tc_url (demo_ctx 1))"
    by (simp_all add: demo_ctx_def url_ok_def VERIFY_URL_MAXSIZE_def)
  obtain q where q: "make_request (demo_ctx 1) False = Inr q" "is_verify_request (tc_url (demo_ctx 1)) (tc_uid (demo_ctx 1)) False q"
    using make_request_ok [OF u(1,2)] by blast
  obtain fl where fl: "msg_wf q" "Message_first_line ?nm q = Inr fl"
  proof -
    from q(2) obtain t where "msg_target q = Some t" "cb_wf t" "cb_terminated t" "msg_wf q" "msg_is_request q = Some True"
      "msg_method q = Some HTTP_GET" by (auto simp: is_verify_request_def cb_holds_def)
    with Message_request_line [of q HTTP_GET t ?nm] that show thesis by blast
  qed
  let ?m = "q\<lparr>msg_body := Some BufferChain_new\<rparr>"
  have m: "printable ?nm ?m" "bc_content BufferChain_new = []"
    using fl BufferChain_new_wf by (auto simp: printable_def msg_wf_def Message_first_line_def cong: if_cong)
  have "length (bc_content BufferChain_new) \<noteq> length (verify_bytes ?nm (tc_url (demo_ctx 1)) (tc_uid (demo_ctx 1)) False)"
    using m(2) by (simp add: verify_bytes_def)
  from verify_response_accepts_all [OF q(2) u(3) m(1) _ this] q(1) m(2) show ?thesis by (intro exI [of _ q] exI [of _ ?m]) auto
qed

theorem verify_echo_accepted_witness:
  "\<exists>m q resp. make_request (demo_ctx 1) False = Inr m \<and> app_handler_example (\<lambda>_. ''GET'') ''now'' 1 (sync_worker_new 3 0 None) q = Inr resp \<and>
     (\<exists>bc. msg_body resp = Some bc \<and> verify_body (\<lambda>_. ''GET'') m bc = Inr True)"
proof -
  let ?nm = "\<lambda>_. ''GET''" and ?w = "sync_worker_new 3 0 None"
  let ?r = "\<lparr>fr_url = [''/ec'', ''ho''], fr_headers = map (\<lambda>(k, v). ([k], [v])) [(HEADER_HOST, ''ahost''),
     (''User-agent'', ''x15:x15-soundtrip client''), (HEADER_CONNECTION_KEY, ''close''), (HEADER_CONTENT_LENGTH, ''0''),
     (HEADER_ECHO_ID, ''1:0:0'')], fr_major = 1, fr_minor = 1, fr_method = 1, fr_body = []\<rparr>"
  have c: "carries ?r ''/echo'' (tc_uid (demo_ctx 1)) False"
    by (simp add: carries_def HTTP_GET_def verify_lines_def header_pair_def demo_ctx_def)
  have u: "url_ok (tc_url (demo_ctx 1))" "no_nul (tc_uid (demo_ctx 1))" "length (tc_uid (demo_ctx 1)) < 100" "tc_url (demo_ctx 1) = ''/echo''"
    by (simp_all add: demo_ctx_def url_ok_def VERIFY_URL_MAXSIZE_def)
  obtain m where m: "make_request (demo_ctx 1) False = Inr m" "is_verify_request ''/echo'' (tc_uid (demo_ctx 1)) False m"
    using make_request_ok [OF u(1,2)] u(4) by auto
  have q: "is_request_of ?r m" using m(2) c by (auto simp: is_verify_request_def is_request_of_def carries_def HTTP_GET_def)
  have n: "c_str (?nm HTTP_GET) = ''GET''" by (simp add: c_str_def)
  from verify_echo_accepted [where nm = ?nm, OF m(1) u(4,2,3) n q c, of "''now''" ?w 1] obtain resp where
    r: "app_handler_example ?nm ''now'' 1 ?w m = Inr resp" "msg_wf resp" "msg_body_bytes resp \<noteq> []"
    "\<forall>c bc. msg_wf c \<and> msg_body c = Some bc \<and> msg_body_bytes c = msg_body_bytes resp \<longrightarrow> verify_body ?nm m bc = Inr True"
    by (auto simp: sync_worker_new_def verify_bytes_def)
  obtain bc where "msg_body resp = Some bc" using r(3) by (auto simp: msg_body_bytes_def split: option.splits)
  with r m(1) show ?thesis by blast
qed

section \<open>Runs\<close>

definition verify_env :: "nat sync_env" where
  "verify_env = \<lparr>y_llhttp_init = 0, y_llhttp_execute = (\<lambda>l b. (response_events demo_response, Suc l, 0)),
     y_llhttp_finish = (\<lambda>l. ([], l, 0)), y_llhttp_method_name = (\<lambda>_. ''GET'')\<rparr>"

definition verify_net :: "(int \<times> bool) list \<times> sync_io" where
  "verify_net = ([(- 1, False), (7, True)], \<lparr>si_reads = [Some ''first'', Some ''second''], si_writes = [], si_wire = []\<rparr>)"

lemma verify_served: "served verify_env 2 verify_net [([], ''first'', demo_response), ([], ''second'', demo_response)]"
proof -
  have "frag_response_ok demo_response" "filter significant (response_events demo_response) = response_events demo_response"
    by (simp_all add: frag_response_ok_def demo_response_def frag_ok_def response_events_def)
  then show ?thesis by (simp add: served_def connects_def verify_net_def verify_env_def answer_reads_def)
qed

theorem verify_thread_completes_witness:
  "\<exists>(ctx :: (nat, int) thread_context) ctx' wires. thread_context_init 3 9001 1 2 ''/echo'' 1000000 = Inr ctx \<and>
     threadfn verify_env (\<lambda>i j. 10 * i + j) 0 0 (\<lambda>_. verify_net) ctx = Inr (ctx', wires) \<and> length wires = 1 \<and>
     tc_resp_times ctx' = [Some 0, Some 1] \<and> tc_time_index ctx' = 2"
proof -
  have "url_ok ''/echo''" "small 3" by (simp_all add: url_ok_def VERIFY_URL_MAXSIZE_def small_def)
  from verify_thread_completes [OF this, of 2 1 verify_env "\<lambda>_. verify_net"
      "\<lambda>_. [([], ''first'', demo_response), ([], ''second'', demo_response)]" 9001 1000000 "\<lambda>i j. 10 * i + j" 0 0] verify_served
  show ?thesis by (force simp: numeral_2_eq_2)
qed

theorem verify_main_collects_witness:
  "verify_main verify_env (\<lambda>t i j. 100 * int t + 10 * i + j) 0 (\<lambda>_ _. verify_net) 9001 ''/echo'' 2 2 2 =
     Inr (Some (map Some [0, 1, 10, 11, 100, 101, 110, 111]))"
proof -
  have "url_ok ''/echo''" by (simp add: url_ok_def VERIFY_URL_MAXSIZE_def)
  from verify_main_collects [OF this, of 2 2 2 verify_env "\<lambda>_ _. verify_net"
      "\<lambda>_ _. [([], ''first'', demo_response), ([], ''second'', demo_response)]" "\<lambda>t i j. 100 * int t + 10 * i + j" 0 9001] verify_served
  show ?thesis by (simp add: run_times_def thread_times_def numeral_2_eq_2)
qed

text \<open>
  The verifier does not survive its server: when a request is answered by the end of the
  connection, an error or five seconds of silence, \<open>sync_connection_read_message\<close> returns -1, which is taken
  for success, and the assertion on the missing response stops the program with all its threads.
\<close>

theorem verify_lost_connection_aborts:
  assumes ctx: "ctx_at ctx ts (Suc left)" and cl: "client_ready env cl as" and sm: "small iconn" "small ireq"
    and io: "si_reads io = [] \<or> hd (si_reads io) = None \<or> hd (si_reads io) = Some []" "si_writes io = []"
  shows "request_turn env elapsed iconn ireq (ctx, cl, io) = Inl Assertion"
proof -
  let ?nm = "y_llhttp_method_name env" and ?uid = "uid_of (tc_ident ctx) iconn ireq"
  let ?keep = "ireq < tc_howmany_requests_per_connection ctx - 1"
  have c: "tc_response_ptr ctx = None" "tc_time_index ctx = int (length ts)"
    "tc_resp_times ctx = map Some ts @ replicate (Suc left) None" using ctx by (simp_all add: ctx_at_def)
  from cl obtain p where p: "sy_connection_ptr cl = Some p" "sc_open (hp_handler_context p)"
    "List_items (sc_input_list (hp_handler_context p)) = []" unfolding client_ready_def by blast
  let ?io = "io\<lparr>si_wire := si_wire io @ verify_bytes ?nm (tc_url ctx) ?uid ?keep\<rparr>"
  obtain m n where m: "make_uid (ctx\<lparr>tc_connection_index := iconn, tc_cycle_index := ireq\<rparr>) = Inr (ctx_request ctx iconn ireq)"
    "make_request (ctx_request ctx iconn ireq) ?keep = Inr m" "sync_connection_write env p m io = Inr (n, ?io)"
    using request_sent [OF ctx p(2) sm io(2)] by blast
  have "si_reads ?io = [] \<or> hd (si_reads ?io) = None \<or> hd (si_reads ?io) = Some []" using io(1) by simp
  from read_message_fails [OF p(2,3) this, of env] show ?thesis
    unfolding request_turn_def using m c p(1) by (simp add: ctx_request_def store_time_def Let_def)
qed

theorem verify_lost_connection_aborts_witness:
  "\<exists>cl. sync_client_connect verify_env [(7, True)] (sync_client_new 1000000) = Inr cl \<and>
     request_turn verify_env (\<lambda>_ _. 0) 0 0 (demo_ctx 1, cl, \<lparr>si_reads = [Some []], si_writes = [], si_wire = []\<rparr>) = Inl Assertion"
proof -
  obtain cl where cl: "sync_client_connect verify_env [(7, True)] (sync_client_new 1000000) = Inr cl" "client_ready verify_env cl []"
    using client_connect_ok [of "[(7, True)]" verify_env "[]" "sync_client_new 1000000"] by (auto simp: connects_def sync_client_new_def)
  have "ctx_at (demo_ctx 1) [] (Suc 0)" "small 0"
    by (simp_all add: ctx_at_def demo_ctx_def url_ok_def VERIFY_URL_MAXSIZE_def small_def)
  from verify_lost_connection_aborts [OF this(1) cl(2) this(2,2), of "\<lparr>si_reads = [Some []], si_writes = [], si_wire = []\<rparr>"
      "\<lambda>_ _. 0"] cl(1) show ?thesis by simp
qed

end
