(* ===== verification/CH_DemoServer.thy ===== *)
theory CH_DemoServer
  imports CH_Demo CH_AsyncConn
begin

text \<open>
  The server of the demonstration protocol: connections (\<open>demo_protocol/demo_connection.c\<close>), the
  handler of a connection (\<open>demo_handler.c\<close>) and the server (\<open>demo_server.c\<close>), on the reactor.
  Objects live in a heap by address, as those of the asynchronous server.  The far ends of the
  sockets are part of the state: what will arrive, how much \<open>send\<close> will take, and what was sent.
\<close>

section \<open>Data\<close>

definition DemoConnection_TAG :: string where "DemoConnection_TAG = ''DmCONN''"
definition DemoServer_TAG :: string where "DemoServer_TAG = ''DmSRVR''"

definition DC_READ_IDLE :: int where "DC_READ_IDLE = 11"
definition DC_READ_EAGAINED :: int where "DC_READ_EAGAINED = 12"
definition DC_READ_ACTIVE :: int where "DC_READ_ACTIVE = 13"
definition DC_READ_STOP :: int where "DC_READ_STOP = 14"

definition DC_WRITE_IDLE :: int where "DC_WRITE_IDLE = 21"
definition DC_WRITE_EAGAINED :: int where "DC_WRITE_EAGAINED = 22"
definition DC_WRITE_ACTIVE :: int where "DC_WRITE_ACTIVE = 23"
definition DC_WRITE_STOP :: int where "DC_WRITE_STOP = 24"

definition DemoConnectionErrCode_is_closed :: int where "DemoConnectionErrCode_is_closed = - 31"
definition DemoConnectionErrCode_io_error :: int where "DemoConnectionErrCode_io_error = - 32"

lemmas dc_states = DC_READ_IDLE_def DC_READ_EAGAINED_def DC_READ_ACTIVE_def DC_READ_STOP_def
  DC_WRITE_IDLE_def DC_WRITE_EAGAINED_def DC_WRITE_ACTIVE_def DC_WRITE_STOP_def
  DemoConnectionErrCode_is_closed_def DemoConnectionErrCode_io_error_def

text \<open>
  A callback is the address of a function, or \<open>NULL\<close>.  \<open>post_active\<close> is never used.  The parser of
  a connection is kept in the heap under the address of the connection.
\<close>

record DemoConnection =
  dc_tag :: string
  dc_socket_stream_ref :: "addr option"
  dc_handler_ref :: addr
  dc_active_input_buffer_ref :: "IOBuffer option"
  dc_active_output_buffer_ref :: "IOBuffer option"
  dc_read_state :: int
  dc_write_state :: int
  dc_on_read_cb :: "code_ptr option"
  dc_on_write_cb :: "code_ptr option"
  dc_on_close_cb :: "code_ptr option"
  dc_cleanup_done_flag :: bool
  dc_readside_posted :: bool
  dc_writeside_posted :: bool

record DemoHandler =
  dh_tag :: string
  dh_raw_socket :: int
  dh_demo_connection_ref :: "addr option"
  dh_completion_callback :: "code_ptr option"
  dh_server_ref :: addr
  dh_input_list :: "DemoMessage List"
  dh_output_list :: "DemoMessage List"
  dh_active_response :: "DemoMessage option"

datatype recv_result = Recv_bytes string | Recv_again | Recv_error

text \<open>
  A socket.  What the calls of \<open>recv\<close> meet, in order: a piece of bytes that has arrived, an empty piece
  for the end of the stream, a call that would block because the next piece is not there yet, or an
  error; when there is nothing more the socket would block.  The answers of the calls of
  \<open>send\<close> to come: a number of bytes, -1 for a full socket buffer, less for an error; when there
  are none everything is taken.
\<close>

record demo_sock =
  sk_in :: "recv_result list"
  sk_sends :: "int list"
  sk_out :: string

record DemoServer =
  ds_tag :: string
  ds_ref :: addr
  ds_port :: int
  ds_listening_socket_fd :: int
  ds_listening_watcher_ref :: RtorListener
  ds_handler_list :: "addr List"
  ds_handlers :: "addr \<Rightarrow> DemoHandler option"
  ds_conns :: "addr \<Rightarrow> DemoConnection option"
  ds_streams :: "addr \<Rightarrow> RtorStream option"
  ds_parsers :: "addr \<Rightarrow> unit DemoParser option"
  ds_fresh :: addr
  ds_socks :: "int \<Rightarrow> demo_sock"

type_synonym demo_st = "DemoServer Reactor"

section \<open>The heap and the sockets\<close>

definition get_dconn :: "demo_st \<Rightarrow> addr \<Rightarrow> DemoConnection res" where
  "get_dconn s c = h_get (ds_conns (r_app s)) c"

definition check_dconn :: "demo_st \<Rightarrow> addr \<Rightarrow> DemoConnection res" where
  "check_dconn s c = rbind (get_dconn s c) (\<lambda>x. rbind (check_tag DemoConnection_TAG (dc_tag x)) (\<lambda>_. Inr x))"

definition get_dhandler :: "demo_st \<Rightarrow> addr \<Rightarrow> DemoHandler res" where
  "get_dhandler s h = h_get (ds_handlers (r_app s)) h"

definition put_dconn :: "addr \<Rightarrow> DemoConnection \<Rightarrow> demo_st \<Rightarrow> demo_st" where
  "put_dconn c x s = s\<lparr>r_app := (r_app s)\<lparr>ds_conns := (ds_conns (r_app s))(c \<mapsto> x)\<rparr>\<rparr>"

definition put_dhandler :: "addr \<Rightarrow> DemoHandler \<Rightarrow> demo_st \<Rightarrow> demo_st" where
  "put_dhandler h x s = s\<lparr>r_app := (r_app s)\<lparr>ds_handlers := (ds_handlers (r_app s))(h \<mapsto> x)\<rparr>\<rparr>"

definition put_dparser :: "addr \<Rightarrow> unit DemoParser \<Rightarrow> demo_st \<Rightarrow> demo_st" where
  "put_dparser c p s = s\<lparr>r_app := (r_app s)\<lparr>ds_parsers := (ds_parsers (r_app s))(c \<mapsto> p)\<rparr>\<rparr>"

definition put_dstream :: "addr \<Rightarrow> RtorStream \<Rightarrow> demo_st \<Rightarrow> demo_st" where
  "put_dstream a x s = s\<lparr>r_app := (r_app s)\<lparr>ds_streams := (ds_streams (r_app s))(a \<mapsto> x)\<rparr>\<rparr>"

definition put_sock :: "int \<Rightarrow> demo_sock \<Rightarrow> demo_st \<Rightarrow> demo_st" where
  "put_sock fd k s = s\<lparr>r_app := (r_app s)\<lparr>ds_socks := (ds_socks (r_app s))(fd := k)\<rparr>\<rparr>"

definition demo_new_addr :: "demo_st \<Rightarrow> addr \<times> demo_st" where
  "demo_new_addr s = (ds_fresh (r_app s), s\<lparr>r_app := (r_app s)\<lparr>ds_fresh := Suc (ds_fresh (r_app s))\<rparr>\<rparr>)"

text \<open>\<open>connection_ref->socket_stream_ref->fd\<close>\<close>

definition dconn_fd :: "demo_st \<Rightarrow> DemoConnection \<Rightarrow> int res" where
  "dconn_fd s x = rbind (c_deref (dc_socket_stream_ref x)) (\<lambda>a. rbind (h_get (ds_streams (r_app s)) a) (\<lambda>st. Inr (w_fd st)))"

text \<open>What does not fit stays in the socket; no bytes is the end of the stream, also for later calls.\<close>

definition sys_recv :: "int \<Rightarrow> demo_sock \<Rightarrow> recv_result \<times> demo_sock" where
  "sys_recv len k =
     (case sk_in k of
        [] \<Rightarrow> (Recv_again, k)
      | Recv_again # rest \<Rightarrow> (Recv_again, k\<lparr>sk_in := rest\<rparr>)
      | Recv_error # rest \<Rightarrow> (Recv_error, k\<lparr>sk_in := rest\<rparr>)
      | Recv_bytes s # rest \<Rightarrow>
          if s = [] then (Recv_bytes [], k)
          else (Recv_bytes (take (nat len) s),
                k\<lparr>sk_in := (if length s \<le> nat len then rest else Recv_bytes (drop (nat len) s) # rest)\<rparr>))"

definition sys_send :: "string \<Rightarrow> demo_sock \<Rightarrow> int \<times> demo_sock" where
  "sys_send bytes k =
     (case sk_sends k of
        [] \<Rightarrow> (int (length bytes), k\<lparr>sk_out := sk_out k @ bytes\<rparr>)
      | n # ns \<Rightarrow>
          if n < 0 then (n, k\<lparr>sk_sends := ns\<rparr>)
          else (min n (int (length bytes)), k\<lparr>sk_sends := ns, sk_out := sk_out k @ take (nat n) bytes\<rparr>))"

definition demo_postable_reader_ptr :: code_ptr where "demo_postable_reader_ptr = 30"
definition demo_postable_writer_ptr :: code_ptr where "demo_postable_writer_ptr = 31"
definition postable_write_call_cb_ptr :: code_ptr where "postable_write_call_cb_ptr = 32"
definition demo_postable_cleanup_ptr :: code_ptr where "demo_postable_cleanup_ptr = 33"
definition postable_write_start_ptr :: code_ptr where "postable_write_start_ptr = 34"
definition handler_postable_read_start_ptr :: code_ptr where "handler_postable_read_start_ptr = 35"
definition demo_handle_request_ptr :: code_ptr where "demo_handle_request_ptr = 36"
definition on_write_complete_cb_ptr :: code_ptr where "on_write_complete_cb_ptr = 37"
definition connection_completion_cb_ptr :: code_ptr where "connection_completion_cb_ptr = 38"
definition demo_on_handler_completion_cb_ptr :: code_ptr where "demo_on_handler_completion_cb_ptr = 39"
definition demo_event_handler_ptr :: code_ptr where "demo_event_handler_ptr = 40"
definition demo_on_event_listening_ptr :: code_ptr where "demo_on_event_listening_ptr = 41"

lemmas demo_ptrs = demo_postable_reader_ptr_def demo_postable_writer_ptr_def postable_write_call_cb_ptr_def
  demo_postable_cleanup_ptr_def postable_write_start_ptr_def handler_postable_read_start_ptr_def
  demo_handle_request_ptr_def on_write_complete_cb_ptr_def connection_completion_cb_ptr_def
  demo_on_handler_completion_cb_ptr_def demo_event_handler_ptr_def demo_on_event_listening_ptr_def

section \<open>Callbacks of a handler\<close>

definition demo_handle_request :: "addr \<Rightarrow> DemoMessage option \<Rightarrow> int \<Rightarrow> demo_st \<Rightarrow> demo_st res" where
  "demo_handle_request h msgref error_code s =
     (if error_code \<noteq> 0 then Inr s
      else
        rbind (get_dhandler s h) (\<lambda>hdl.
        rbind (c_deref msgref) (\<lambda>msg.
        rbind (demo_process_request (dh_tag hdl) msg) (\<lambda>response.
        rbind (List_add_back (dh_output_list hdl) response) (\<lambda>l.
        let s1 = put_dhandler h (hdl\<lparr>dh_output_list := l\<rparr>) s in
        rbind (if List_size l = 1 then rtor_reactor_post s1 postable_write_start_ptr h else Inr s1) (\<lambda>s2.
        rbind (demo_message_free msg) (\<lambda>_.
        rtor_reactor_post s2 handler_postable_read_start_ptr h)))))))"

definition on_write_complete_cb :: "addr \<Rightarrow> int \<Rightarrow> demo_st \<Rightarrow> demo_st res" where
  "on_write_complete_cb h status s =
     rbind (get_dhandler s h) (\<lambda>hdl.
     rbind (c_deref (dh_demo_connection_ref hdl)) (\<lambda>c.
     rbind (get_dconn s c) (\<lambda>x.
     rbind (dconn_fd s x) (\<lambda>_.
     rbind (demo_message_dispose (dh_active_response hdl)) (\<lambda>gone.
     let s1 = put_dhandler h (hdl\<lparr>dh_active_response := gone\<rparr>) s in
     if List_size (dh_output_list hdl) = 1 then rtor_reactor_post s1 postable_write_start_ptr h else Inr s1)))))"

text \<open>Calls through the pointers of a connection.\<close>

definition call_on_read_cb :: "code_ptr option \<Rightarrow> addr \<Rightarrow> DemoMessage option \<Rightarrow> int \<Rightarrow> demo_st \<Rightarrow> demo_st res" where
  "call_on_read_cb cb h msg error_code s =
     rbind (c_deref cb) (\<lambda>f. if f = demo_handle_request_ptr then demo_handle_request h msg error_code s else Inl MemFault)"

definition call_on_write_cb :: "code_ptr option \<Rightarrow> addr \<Rightarrow> int \<Rightarrow> demo_st \<Rightarrow> demo_st res" where
  "call_on_write_cb cb h status s =
     rbind (c_deref cb) (\<lambda>f. if f = on_write_complete_cb_ptr then on_write_complete_cb h status s else Inl MemFault)"

section \<open>Reading\<close>

definition post_to_reactor :: "addr \<Rightarrow> code_ptr \<Rightarrow> demo_st \<Rightarrow> demo_st res" where
  "post_to_reactor c postable_function s = rbind (get_dconn s c) (\<lambda>_. rtor_reactor_post s postable_function c)"

definition demo_read_start :: "addr \<Rightarrow> demo_st \<Rightarrow> demo_st res" where
  "demo_read_start c s =
     rbind (check_dconn s c) (\<lambda>x. post_to_reactor c demo_postable_reader_ptr (put_dconn c (x\<lparr>dc_readside_posted := True\<rparr>) s))"

definition democonnection_read :: "addr \<Rightarrow> code_ptr \<Rightarrow> demo_st \<Rightarrow> demo_st res" where
  "democonnection_read c on_demo_read_cb s =
     rbind (get_dconn s c) (\<lambda>x.
     rbind (c_assert (dc_read_state x \<noteq> DC_READ_ACTIVE)) (\<lambda>_.
     if dc_read_state x = DC_READ_IDLE then
       demo_read_start c (put_dconn c (x\<lparr>dc_read_state := DC_READ_ACTIVE, dc_on_read_cb := Some on_demo_read_cb\<rparr>) s)
     else if dc_read_state x = DC_READ_EAGAINED then Inr (put_dconn c (x\<lparr>dc_on_read_cb := Some on_demo_read_cb\<rparr>) s)
     else if dc_read_state x = DC_READ_STOP then
       call_on_read_cb (Some on_demo_read_cb) (dc_handler_ref x) None DemoConnectionErrCode_is_closed
         (put_dconn c (x\<lparr>dc_on_read_cb := None\<rparr>) s)
     else Inr s))"

definition demo_read_error :: "addr \<Rightarrow> demo_st \<Rightarrow> demo_st res" where
  "demo_read_error c s =
     rbind (check_dconn s c) (\<lambda>x.
     rbind (dconn_fd s x) (\<lambda>_.
     rbind (call_on_read_cb (dc_on_read_cb x) (dc_handler_ref x) None DemoConnectionErrCode_io_error
              (put_dconn c (x\<lparr>dc_read_state := DC_READ_STOP\<rparr>) s)) (\<lambda>s1.
     rbind (get_dconn s1 c) (\<lambda>x1.
     post_to_reactor c demo_postable_cleanup_ptr (put_dconn c (x1\<lparr>dc_on_read_cb := None\<rparr>) s1)))))"

text \<open>The callback given to the parser.\<close>

definition on_read_complete :: "addr \<Rightarrow> DemoMessage option \<Rightarrow> int \<Rightarrow> demo_st \<Rightarrow> demo_st res" where
  "on_read_complete c msg error_code s =
     rbind (check_dconn s c) (\<lambda>x.
     rbind (c_assert (msg \<noteq> None \<and> error_code = 0 \<or> msg = None \<and> error_code \<noteq> 0)) (\<lambda>_.
     call_on_read_cb (dc_on_read_cb x) (dc_handler_ref x) msg error_code
       (put_dconn c (x\<lparr>dc_read_state := DC_READ_IDLE, dc_on_read_cb := None\<rparr>) s)))"

text \<open>
  The parser of a connection at work: its context is the whole state, which the callback changes.
\<close>

definition dp_with :: "'d \<Rightarrow> 'c DemoParser \<Rightarrow> 'd DemoParser" where
  "dp_with ctx p = \<lparr>dp_tag = dp_tag p, dp_state = dp_state p, dp_on_read_ctx = ctx, dp_current_message_ptr = dp_current_message_ptr p\<rparr>"

definition demo_parse :: "addr \<Rightarrow> IOBuffer \<Rightarrow> demo_st \<Rightarrow> (int \<times> demo_st) res" where
  "demo_parse c iob s =
     rbind (h_get (ds_parsers (r_app s)) c) (\<lambda>p.
     rbind (DemoParser_consume (\<lambda>s msg ec. on_read_complete c msg ec s) (dp_with s p) iob) (\<lambda>(ec, p1, iob1).
     let s1 = dp_on_read_ctx p1 in
     rbind (get_dconn s1 c) (\<lambda>x.
     Inr (ec, put_dparser c (dp_with () p1) (put_dconn c (x\<lparr>dc_active_input_buffer_ref := Some iob1\<rparr>) s1)))))"

text \<open>
  In the stopped state the callback is called and the function goes on.  \<open>errno\<close> is tested only
  when \<open>recv\<close> failed.
\<close>

definition demo_reader :: "addr \<Rightarrow> demo_st \<Rightarrow> demo_st res" where
  "demo_reader c s =
     rbind (check_dconn s c) (\<lambda>x0.
     rbind (if dc_read_state x0 = DC_READ_STOP
            then call_on_read_cb (dc_on_read_cb x0) (dc_handler_ref x0) None DemoConnectionErrCode_is_closed s
            else Inr s) (\<lambda>s.
     rbind (get_dconn s c) (\<lambda>x.
     let iob = (case dc_active_input_buffer_ref x of None \<Rightarrow> IOBuffer_new_with_capacity 1000 | Some b \<Rightarrow> b);
         s = put_dconn c (x\<lparr>dc_active_input_buffer_ref := Some iob\<rparr>) s in
     rbind (IOBuffer_space_len iob) (\<lambda>input_buffer_length.
     rbind (dconn_fd s x) (\<lambda>fd.
     rbind (IOBuffer_data_len iob) (\<lambda>available.
     let (result, sk) = (if available = 0 then sys_recv input_buffer_length (ds_socks (r_app s) fd)
                         else (Recv_bytes [], ds_socks (r_app s) fd));
         s = put_sock fd sk s in
     rbind (case result of Recv_bytes bytes \<Rightarrow> if bytes \<noteq> [] then iob_fill iob (map Some bytes) else Inr iob | _ \<Rightarrow> Inr iob) (\<lambda>iob.
     case result of
       Recv_again \<Rightarrow> rbind (get_dconn s c) (\<lambda>x. Inr (put_dconn c (x\<lparr>dc_read_state := DC_READ_EAGAINED\<rparr>) s))
     | Recv_error \<Rightarrow> demo_read_error c s
     | Recv_bytes bytes \<Rightarrow>
         if available = 0 \<and> bytes = [] then demo_read_error c s
         else
           rbind (get_dconn s c) (\<lambda>x.
           rbind (demo_parse c iob (put_dconn c (x\<lparr>dc_active_input_buffer_ref := Some iob\<rparr>) s)) (\<lambda>(ec, s).
           if ec = 0 then
             rbind (get_dconn s c) (\<lambda>x.
             if dc_read_state x = DC_READ_ACTIVE then post_to_reactor c demo_postable_reader_ptr s else Inr s)
           else Inr s)))))))))"

definition demo_postable_reader :: "addr \<Rightarrow> demo_st \<Rightarrow> demo_st res" where
  "demo_postable_reader c s =
     rbind (get_dconn s c) (\<lambda>x.
     if dc_read_state x = DC_READ_STOP
     then call_on_read_cb (dc_on_read_cb x) (dc_handler_ref x) None DemoConnectionErrCode_is_closed s
     else demo_reader c s)"

section \<open>Writing\<close>

definition demo_write_error :: "addr \<Rightarrow> demo_st \<Rightarrow> demo_st res" where
  "demo_write_error c s =
     rbind (check_dconn s c) (\<lambda>x.
     rbind (dconn_fd s x) (\<lambda>_.
     rbind (call_on_write_cb (dc_on_write_cb x) (dc_handler_ref x) DemoConnectionErrCode_io_error
              (put_dconn c (x\<lparr>dc_write_state := DC_WRITE_STOP\<rparr>) s)) (\<lambda>s1.
     rbind (get_dconn s1 c) (\<lambda>x1.
     post_to_reactor c demo_postable_cleanup_ptr (put_dconn c (x1\<lparr>dc_on_write_cb := None\<rparr>) s1)))))"

text \<open>
  \<open>write_state == WRITE_STATE_ACTIVE\<close> is a comparison without effect: the state stays idle.
\<close>

definition democonnection_write :: "addr \<Rightarrow> DemoMessage \<Rightarrow> code_ptr \<Rightarrow> demo_st \<Rightarrow> demo_st res" where
  "democonnection_write c response_ref on_demo_write_cb s =
     rbind (check_dconn s c) (\<lambda>x.
     rbind (c_assert (dc_write_state x = DC_WRITE_IDLE)) (\<lambda>_.
     rbind (demo_message_serialize response_ref) (\<lambda>b.
     let s1 = put_dconn c (x\<lparr>dc_on_write_cb := Some on_demo_write_cb, dc_active_output_buffer_ref := Some b\<rparr>) s in
     if dc_write_state x = DC_WRITE_STOP
     then call_on_write_cb (Some on_demo_write_cb) (dc_handler_ref x) DemoConnectionErrCode_is_closed s1
     else post_to_reactor c demo_postable_writer_ptr s1)))"

definition demo_writer :: "addr \<Rightarrow> demo_st \<Rightarrow> demo_st res" where
  "demo_writer c s =
     rbind (check_dconn s c) (\<lambda>x.
     case dc_active_output_buffer_ref x of
       None \<Rightarrow> Inl Assertion
     | Some iob \<Rightarrow>
         rbind (dconn_fd s x) (\<lambda>fd.
         rbind (iob_bytes iob) (\<lambda>bytes.
         let (wrc, sk) = sys_send bytes (ds_socks (r_app s) fd); s = put_sock fd sk s in
         if wrc > 0 then
           rbind (IOBuffer_consume iob wrc) (\<lambda>iob1.
           rbind (IOBuffer_data_len iob1) (\<lambda>remaining.
           if remaining = 0 then
             rbind (IOBuffer_dispose iob1) (\<lambda>_.
             post_to_reactor c postable_write_call_cb_ptr
               (put_dconn c (x\<lparr>dc_write_state := DC_WRITE_IDLE, dc_active_output_buffer_ref := None\<rparr>) s))
           else
             post_to_reactor c demo_postable_writer_ptr
               (put_dconn c (x\<lparr>dc_write_state := DC_WRITE_ACTIVE, dc_active_output_buffer_ref := Some iob1\<rparr>) s)))
         else if wrc = 0 then demo_write_error c s
         else if wrc = - 1 then Inr (put_dconn c (x\<lparr>dc_write_state := DC_WRITE_EAGAINED\<rparr>) s)
         else demo_write_error c s)))"

definition demo_postable_writer :: "addr \<Rightarrow> demo_st \<Rightarrow> demo_st res" where
  "demo_postable_writer c s =
     rbind (check_dconn s c) (\<lambda>x.
     if dc_write_state x = DC_WRITE_STOP then
       rbind (c_deref (dc_active_output_buffer_ref x)) (\<lambda>b.
       rbind (IOBuffer_dispose b) (\<lambda>gone.
       call_on_write_cb (dc_on_write_cb x) (dc_handler_ref x) DemoConnectionErrCode_is_closed
         (put_dconn c (x\<lparr>dc_active_output_buffer_ref := gone\<rparr>) s)))
     else
       rbind (c_assert (dc_active_output_buffer_ref x \<noteq> None)) (\<lambda>_.
       rbind (c_assert (dc_write_state x = DC_WRITE_IDLE)) (\<lambda>_.
       demo_writer c s)))"

definition postable_write_call_cb :: "addr \<Rightarrow> demo_st \<Rightarrow> demo_st res" where
  "postable_write_call_cb c s =
     rbind (check_dconn s c) (\<lambda>x.
     rbind (c_assert (dc_on_write_cb x \<noteq> None)) (\<lambda>_.
     call_on_write_cb (dc_on_write_cb x) (dc_handler_ref x) 0 s))"

section \<open>The sequences of a handler\<close>

definition postable_write_start :: "addr \<Rightarrow> demo_st \<Rightarrow> demo_st res" where
  "postable_write_start h s =
     rbind (get_dhandler s h) (\<lambda>hdl.
     rbind (c_deref (dh_demo_connection_ref hdl)) (\<lambda>c.
     rbind (get_dconn s c) (\<lambda>x.
     rbind (dconn_fd s x) (\<lambda>_.
     if dh_active_response hdl \<noteq> None then Inr s
     else
       rbind (List_remove_first (dh_output_list hdl)) (\<lambda>(response, l).
       let s1 = put_dhandler h (hdl\<lparr>dh_output_list := l, dh_active_response := response\<rparr>) s in
       case response of
         None \<Rightarrow> Inr s1
       | Some m \<Rightarrow> democonnection_write c m on_write_complete_cb_ptr s1)))))"

definition handler_postable_read_start :: "addr \<Rightarrow> demo_st \<Rightarrow> demo_st res" where
  "handler_postable_read_start h s =
     rbind (get_dhandler s h) (\<lambda>hdl.
     rbind (c_deref (dh_demo_connection_ref hdl)) (\<lambda>c.
     democonnection_read c demo_handle_request_ptr s))"

section \<open>Events\<close>

definition demo_read_epollin :: "addr \<Rightarrow> demo_st \<Rightarrow> demo_st res" where
  "demo_read_epollin c s =
     rbind (check_dconn s c) (\<lambda>x.
     if dc_read_state x = DC_READ_EAGAINED
     then demo_read_start c (put_dconn c (x\<lparr>dc_read_state := DC_READ_ACTIVE\<rparr>) s)
     else Inr s)"

definition demo_write_epollout :: "addr \<Rightarrow> demo_st \<Rightarrow> demo_st res" where
  "demo_write_epollout c s =
     rbind (check_dconn s c) (\<lambda>x.
     if dc_write_state x = DC_WRITE_EAGAINED
     then post_to_reactor c demo_postable_writer_ptr
            (put_dconn c (x\<lparr>dc_write_state := DC_WRITE_ACTIVE, dc_writeside_posted := True\<rparr>) s)
     else Inr s)"

definition demo_event_handler :: "RtorStream \<Rightarrow> 64 word \<Rightarrow> demo_st \<Rightarrow> demo_st res" where
  "demo_event_handler st event s =
     rbind (c_init (st_context st)) (\<lambda>cp.
     rbind (c_deref cp) (\<lambda>c.
     rbind (check_dconn s c) (\<lambda>_.
     rbind (if event AND ev64 EPOLLOUT \<noteq> 0 then demo_write_epollout c s else Inr s) (\<lambda>s1.
     if event AND ev64 EPOLLIN \<noteq> 0 then demo_read_epollin c s1 else Inr s1))))"

section \<open>Releasing\<close>

text \<open>The descriptor is closed here and once more by \<open>rtor_stream_free\<close>.\<close>

definition democonnection_free :: "addr \<Rightarrow> demo_st \<Rightarrow> demo_st res" where
  "democonnection_free c s =
     rbind (check_dconn s c) (\<lambda>x.
     rbind (c_deref (dc_socket_stream_ref x)) (\<lambda>a.
     rbind (h_get (ds_streams (r_app s)) a) (\<lambda>st.
     rbind (rtor_stream_free st (snd (sys_close (r_kernel s) (w_fd st)))) (\<lambda>k.
     rbind (h_get (ds_parsers (r_app s)) c) (\<lambda>p.
     rbind (DemoParser_dispose p) (\<lambda>_.
     rbind (case dc_active_output_buffer_ref x of None \<Rightarrow> Inr None | Some b \<Rightarrow> IOBuffer_dispose b) (\<lambda>_.
     rbind (case dc_active_input_buffer_ref x of None \<Rightarrow> Inr None | Some b \<Rightarrow> IOBuffer_dispose b) (\<lambda>_.
     Inr (s\<lparr>r_kernel := k, r_app := (r_app s)\<lparr>ds_streams := (ds_streams (r_app s))(a := None),
            ds_parsers := (ds_parsers (r_app s))(c := None), ds_conns := (ds_conns (r_app s))(c := None)\<rparr>\<rparr>)))))))))"

text \<open>Both lists are created without a deallocator: responses that were not sent are lost, not released.\<close>

definition demohandler_free :: "addr \<Rightarrow> demo_st \<Rightarrow> demo_st res" where
  "demohandler_free h s =
     rbind (get_dhandler s h) (\<lambda>hdl.
     rbind (check_tag DemoHandler_TAG (dh_tag hdl)) (\<lambda>_.
     rbind (c_deref (dh_demo_connection_ref hdl)) (\<lambda>c.
     rbind (democonnection_free c s) (\<lambda>s1.
     rbind (List_dispose (dh_input_list hdl)) (\<lambda>_.
     rbind (List_dispose (dh_output_list hdl)) (\<lambda>_.
     Inr (s1\<lparr>r_app := (r_app s1)\<lparr>ds_handlers := (ds_handlers (r_app s1))(h := None)\<rparr>\<rparr>)))))))"

definition demohandler_anonymous_dispose :: "addr \<Rightarrow> demo_st \<Rightarrow> demo_st res" where
  "demohandler_anonymous_dispose h s = demohandler_free h s"

text \<open>Removing the node calls the deallocator of the list on the handler.\<close>

definition demo_on_handler_completion_cb :: "addr \<Rightarrow> addr \<Rightarrow> demo_st \<Rightarrow> demo_st res" where
  "demo_on_handler_completion_cb server_ref h s =
     rbind (if server_ref = ds_ref (r_app s) then Inr () else Inl MemFault) (\<lambda>_.
     rbind (check_tag DemoServer_TAG (ds_tag (r_app s))) (\<lambda>_.
     let l = ds_handler_list (r_app s) in
     rbind (List_find l h) (\<lambda>x.
     rbind (List_itr_unpack l x) (\<lambda>_.
     rbind (List_itr_remove l x) (\<lambda>l1.
     rfold demohandler_anonymous_dispose (drop (length (l_freed l)) (l_freed l1))
       (s\<lparr>r_app := (r_app s)\<lparr>ds_handler_list := l1\<rparr>\<rparr>))))))"

definition connection_completion_cb :: "addr \<Rightarrow> demo_st \<Rightarrow> demo_st res" where
  "connection_completion_cb h s =
     rbind (get_dhandler s h) (\<lambda>hdl.
     rbind (c_deref (dh_completion_callback hdl)) (\<lambda>f.
     if f = demo_on_handler_completion_cb_ptr then demo_on_handler_completion_cb (dh_server_ref hdl) h s else Inl MemFault))"

text \<open>\<open>cleanup_done_flag\<close> is tested and never set.\<close>

definition demo_postable_cleanup :: "addr \<Rightarrow> demo_st \<Rightarrow> demo_st res" where
  "demo_postable_cleanup c s =
     rbind (get_dconn s c) (\<lambda>x.
     rbind (c_assert (\<not> dc_cleanup_done_flag x)) (\<lambda>_.
     rbind (check_dconn s c) (\<lambda>_.
     rbind (c_deref (dc_socket_stream_ref x)) (\<lambda>a.
     rbind (h_get (ds_streams (r_app s)) a) (\<lambda>st.
     rbind (rtor_stream_deregister st s) (\<lambda>s1.
     rbind (c_deref (dc_on_close_cb x)) (\<lambda>f.
     if f = connection_completion_cb_ptr then connection_completion_cb (dc_handler_ref x) s1 else Inl MemFault)))))))"

section \<open>Construction\<close>

definition democonnection_init :: "addr \<Rightarrow> int \<Rightarrow> addr \<Rightarrow> code_ptr \<Rightarrow> demo_st \<Rightarrow> demo_st res" where
  "democonnection_init c socket h completion_cb s =
     (let (a, s1) = demo_new_addr s;
          st = (rtor_stream_new a socket)\<lparr>st_context := Some (Some c), st_both_arg := Some (Some c)\<rparr>;
          x = \<lparr>dc_tag = DemoConnection_TAG, dc_socket_stream_ref = Some a, dc_handler_ref = h,
               dc_active_input_buffer_ref = None, dc_active_output_buffer_ref = None,
               dc_read_state = DC_READ_IDLE, dc_write_state = DC_WRITE_IDLE, dc_on_read_cb = None, dc_on_write_cb = None,
               dc_on_close_cb = Some completion_cb, dc_cleanup_done_flag = False,
               dc_readside_posted = False, dc_writeside_posted = False\<rparr>
      in rbind (rtor_stream_register st (put_dparser c (DemoParser_new ()) (put_dconn c x s1))) (\<lambda>s2.
         rbind (rtor_stream_arm_both st (Some demo_event_handler_ptr) (Some c) s2) (\<lambda>(st1, s3).
         Inr (put_dstream a st1 s3))))"

definition democonnection_new :: "int \<Rightarrow> addr \<Rightarrow> code_ptr \<Rightarrow> demo_st \<Rightarrow> (addr \<times> demo_st) res" where
  "democonnection_new socket h completion_cb s =
     (let (c, s1) = demo_new_addr s in rbind (democonnection_init c socket h completion_cb s1) (\<lambda>s2. Inr (c, s2)))"

definition demohandler_init :: "addr \<Rightarrow> int \<Rightarrow> code_ptr \<Rightarrow> addr \<Rightarrow> demo_st \<Rightarrow> demo_st res" where
  "demohandler_init h socket completion_cb server_ref s =
     (let hdl = \<lparr>dh_tag = DemoHandler_TAG, dh_raw_socket = socket, dh_demo_connection_ref = None,
                 dh_completion_callback = Some completion_cb, dh_server_ref = server_ref,
                 dh_input_list = List_new NoDealloc, dh_output_list = List_new NoDealloc, dh_active_response = None\<rparr>
      in rbind (democonnection_new socket h connection_completion_cb_ptr (put_dhandler h hdl s)) (\<lambda>(c, s1).
         democonnection_read c demo_handle_request_ptr (put_dhandler h (hdl\<lparr>dh_demo_connection_ref := Some c\<rparr>) s1)))"

definition demohandler_new :: "int \<Rightarrow> code_ptr \<Rightarrow> addr \<Rightarrow> demo_st \<Rightarrow> (addr \<times> demo_st) res" where
  "demohandler_new socket completion_cb server_ref s =
     (let (h, s1) = demo_new_addr s in rbind (demohandler_init h socket completion_cb server_ref s1) (\<lambda>s2. Inr (h, s2)))"

section \<open>The server\<close>

text \<open>\<open>sock2\<close> is what \<open>accept\<close> returned; a failure is only logged and the descriptor -1 is used.\<close>

definition demo_on_event_listening :: "int \<Rightarrow> RtorListener \<Rightarrow> demo_st \<Rightarrow> demo_st res" where
  "demo_on_event_listening sock2 lw s =
     rbind (c_deref (ls_arg lw)) (\<lambda>server_ref.
     rbind (if server_ref = ds_ref (r_app s) then Inr () else Inl MemFault) (\<lambda>_.
     rbind (check_tag DemoServer_TAG (ds_tag (r_app s))) (\<lambda>_.
     let s1 = (if sock2 > 0 then s\<lparr>r_kernel := sys_accept (r_kernel s) sock2\<rparr> else s) in
     rbind (demohandler_new sock2 demo_on_handler_completion_cb_ptr server_ref s1) (\<lambda>(h, s2).
     rbind (List_add_back (ds_handler_list (r_app s2)) h) (\<lambda>l.
     Inr (s2\<lparr>r_app := (r_app s2)\<lparr>ds_handler_list := l\<rparr>\<rparr>))))))"

text \<open>The results of the four system calls; each failure stops the program.\<close>

definition create_listener_socket :: "int \<Rightarrow> int \<Rightarrow> int \<Rightarrow> int \<Rightarrow> int res" where
  "create_listener_socket tmp_socket setsockopt_result bind_result listen_result =
     (if tmp_socket = - 1 then Inl Assertion
      else if setsockopt_result \<noteq> 0 then Inl Assertion
      else if bind_result \<noteq> 0 then Inl Assertion
      else if listen_result \<noteq> 0 then Inl Assertion
      else Inr tmp_socket)"

definition set_non_blocking :: "kernel \<Rightarrow> int \<Rightarrow> unit res" where
  "set_non_blocking k socket = c_assert (k_open k socket)"

definition DemoServer_new :: "addr \<Rightarrow> int \<Rightarrow> int res \<Rightarrow> int \<Rightarrow> kernel \<Rightarrow> (int \<Rightarrow> demo_sock) \<Rightarrow> demo_st res" where
  "DemoServer_new sref port listener_socket epoll_fd k socks =
     rbind listener_socket (\<lambda>lfd.
     rbind (set_non_blocking k lfd) (\<lambda>_.
     rtor_reactor_new epoll_fd k
       \<lparr>ds_tag = DemoServer_TAG, ds_ref = sref, ds_port = port, ds_listening_socket_fd = lfd,
        ds_listening_watcher_ref = rtor_listener_new (Suc sref) lfd, ds_handler_list = List_new NullingDealloc,
        ds_handlers = Map.empty, ds_conns = Map.empty, ds_streams = Map.empty, ds_parsers = Map.empty,
        ds_fresh = Suc (Suc sref), ds_socks = socks\<rparr>))"

text \<open>\<open>DemoServer_listen\<close> up to the run of the reactor.\<close>

definition DemoServer_listen :: "demo_st \<Rightarrow> demo_st res" where
  "DemoServer_listen s =
     rbind (check_tag DemoServer_TAG (ds_tag (r_app s))) (\<lambda>_.
     rbind (rtor_listener_register (ds_listening_watcher_ref (r_app s)) (Some demo_on_event_listening_ptr)
              (Some (ds_ref (r_app s))) s) (\<lambda>(lw, s1).
     Inr (s1\<lparr>r_app := (r_app s1)\<lparr>ds_listening_watcher_ref := lw\<rparr>\<rparr>)))"

definition DemoServer_terminate :: "demo_st \<Rightarrow> demo_st res" where
  "DemoServer_terminate s =
     rbind (check_tag DemoServer_TAG (ds_tag (r_app s))) (\<lambda>_.
     Inr (s\<lparr>r_kernel := snd (sys_close (r_kernel s) (ds_listening_socket_fd (r_app s)))\<rparr>))"

text \<open>The reactor is freed first; a handler that is still in the list needs it no more (its stream is only closed).\<close>

definition DemoServer_free :: "demo_st \<Rightarrow> kernel res" where
  "DemoServer_free s =
     rbind (check_tag DemoServer_TAG (ds_tag (r_app s))) (\<lambda>_.
     rbind (rtor_listener_deregister (ds_listening_watcher_ref (r_app s)) s) (\<lambda>s1.
     rbind (rtor_listener_free (ds_listening_watcher_ref (r_app s)) (r_kernel s1)) (\<lambda>k.
     let s2 = s1\<lparr>r_kernel := snd (sys_close k (ds_listening_socket_fd (r_app s)))\<rparr> in
     rbind (rtor_reactor_free s2) (\<lambda>k3.
     rbind (List_dispose (ds_handler_list (r_app s))) (\<lambda>l.
     rbind (rfold demohandler_anonymous_dispose (drop (length (l_freed (ds_handler_list (r_app s)))) (l_freed l))
              (s2\<lparr>r_kernel := k3\<rparr>)) (\<lambda>s3.
     Inr (r_kernel s3)))))))"

section \<open>The code tables the reactor calls through\<close>

definition demo_server_code :: "DemoServer code" where
  "demo_server_code f arg s =
     (if f = demo_postable_reader_ptr then demo_postable_reader arg s
      else if f = demo_postable_writer_ptr then demo_postable_writer arg s
      else if f = postable_write_call_cb_ptr then postable_write_call_cb arg s
      else if f = demo_postable_cleanup_ptr then demo_postable_cleanup arg s
      else if f = postable_write_start_ptr then postable_write_start arg s
      else if f = handler_postable_read_start_ptr then handler_postable_read_start arg s
      else Inl MemFault)"

definition demo_server_handlers :: "int \<Rightarrow> DemoServer handlers" where
  "demo_server_handlers sock2 wref event s =
     (let lw = ds_listening_watcher_ref (r_app s) in
      if wref = w_ref lw then
        listener_handler (\<lambda>f ev s. if f = demo_on_event_listening_ptr then demo_on_event_listening sock2 lw s
                                   else Inl MemFault) lw (ucast event) s
      else
        rbind (h_get (ds_streams (r_app s)) wref) (\<lambda>st.
        rbind (stream_handler (\<lambda>f ev (st, s).
                 if f = demo_event_handler_ptr
                 then rbind (demo_event_handler st ev s) (\<lambda>s1. Inr (st, s1))
                 else Inl MemFault) (ucast event) (st, s)) (\<lambda>(st1, s1). Inr s1)))"

text \<open>\<open>DemoServer_dispose\<close> frees the record only: what it refers to is not released.\<close>

definition DemoServer_dispose :: "demo_st \<Rightarrow> demo_st option res" where
  "DemoServer_dispose s = rbind (check_tag DemoServer_TAG (ds_tag (r_app s))) (\<lambda>_. Inr None)"

end
