(* ===== verification/CH_DemoSession.thy ===== *)
theory CH_DemoSession
  imports CH_DemoServer
begin

text \<open>
  A whole connection of the demonstration server: frames in, replies out.  First the parser under
  any callback, then the steps of the reactor on one connection, and then runs of them.  At the end
  the program of \<open>demo_app/demo_main.c\<close>, from \<open>main\<close> to the signal that ends it.
\<close>

section \<open>The parser with any callback\<close>

text \<open>The state of the automaton without a log, and the frames it reports on a stream.\<close>

definition dp_abs :: "'c DemoParser \<Rightarrow> automaton" where
  "dp_abs p = demo_abs (dp_with [] p)"

definition dp_ok :: "'c DemoParser \<Rightarrow> bool" where
  "dp_ok p \<longleftrightarrow> dp_wf (dp_with [] p)"

fun add_out :: "frame option list \<Rightarrow> automaton \<Rightarrow> automaton" where
  "add_out o1 (st, q, b, out) = (st, q, b, o1 @ out)"

lemma astep_add_out: "astep is_last ch (add_out o1 a) = add_out o1 (astep is_last ch a)"
  by (cases "(is_last, ch, a)" rule: astep.cases) auto

lemma fold_add_out: "fold (astep False) s (add_out o1 a) = add_out o1 (fold (astep False) s a)"
  by (induction s arbitrary: a) (simp_all add: astep_add_out)

lemma clean_add_out: "clean s (add_out o1 a) \<longleftrightarrow> clean s a"
proof (induction s arbitrary: a)
  case (Cons ch s)
  have "fst (add_out o1 a) = fst a" by (cases a) simp
  then show ?case using Cons [of "astep False ch a"] by (simp add: astep_add_out)
qed simp

definition reports :: "string \<Rightarrow> automaton \<Rightarrow> frame option list" where
  "reports s a = snd (snd (snd (fold (astep False) s a)))"

lemma reports_add_out: "reports s (add_out o1 a) = o1 @ reports s a"
  by (cases "fold (astep False) s a") (simp add: reports_def fold_add_out)

lemma dp_with_simps [simp]:
  "dp_with c (dp_with d p) = dp_with c p" "dp_state (dp_with c p) = dp_state p" "dp_tag (dp_with c p) = dp_tag p"
  "dp_current_message_ptr (dp_with c p) = dp_current_message_ptr p" "dp_on_read_ctx (dp_with c p) = c"
  "dp_abs (dp_with c p) = dp_abs p" "dp_ok (dp_with c p) \<longleftrightarrow> dp_ok p"
  by (simp_all add: dp_with_def dp_abs_def dp_ok_def)

lemma dp_with_unit [simp]: "dp_with u (p :: unit DemoParser) = p"
  by (cases p) (simp add: dp_with_def)

text \<open>One byte: either the callback is not called, or it is called once, with what the log would get.\<close>

lemma consume_byte_any:
  assumes "consume_byte demo_record is_last ch (dp_with [] p) = Inr (p', r)"
  shows "(r = None \<and> dp_on_read_ctx p' = [] \<and> consume_byte cb is_last ch (dp_with s p) = Inr (dp_with s p', None)) \<or>
     (\<exists>m rc. r = Some rc \<and> dp_on_read_ctx p' = [(m, rc)] \<and>
        consume_byte cb is_last ch (dp_with s p) = rbind (cb s m rc) (\<lambda>s'. Inr (dp_with s' p', r)))"
proof (cases "dp_state p")
  case STATE_BODY
  then show ?thesis using assms
    by (auto simp: consume_byte_def dp_with_def add_to_body_def rbind_eq_Inr split: if_splits)
qed (use assms in \<open>auto simp: consume_byte_def dp_with_def Let_def rbind_eq_Inr demo_record_def
    split: if_splits option.splits\<close>)

text \<open>
  A clean stream: the loop uses up the buffer, or stops behind a complete frame, for which the
  callback was called.  \<open>rest\<close> is what will arrive later.
\<close>

definition consumed ::
  "'c demo_handler \<Rightarrow> 'c \<Rightarrow> string \<Rightarrow> string \<Rightarrow> unit DemoParser \<Rightarrow> nat \<Rightarrow> unit DemoParser \<Rightarrow> (int \<times> nat \<times> 'c DemoParser) res \<Rightarrow> nat \<Rightarrow> bool" where
  "consumed cb s chs rest p n p' result i \<longleftrightarrow> dp_ok p' \<and> clean (drop n chs @ rest) (dp_abs p') \<and>
     (n = length chs \<and> result = Inr (0, i + n, dp_with s p') \<and> reports (chs @ rest) (dp_abs p) = reports rest (dp_abs p') \<or>
      (\<exists>m. 0 < n \<and> n \<le> length chs \<and> dm_wf m \<and> result = rbind (cb s (Some m) 0) (\<lambda>s'. Inr (0, i + n, dp_with s' p')) \<and>
        (\<exists>l. reports (chs @ rest) (dp_abs p) = Some (dm_opcode m, dm_bytes m, l) # reports (drop n chs @ rest) (dp_abs p'))))"

lemma dp_abs_fst: "fst (dp_abs p) = dp_state p"
  by (simp add: dp_abs_def demo_abs_def)

lemma dp_abs_log: "dp_on_read_ctx p' = log \<Longrightarrow> demo_abs p' = add_out (map demo_frame log) (dp_abs p')"
  by (simp add: dp_abs_def demo_abs_def)

lemma dp_ok_of_wf: "dp_wf p' \<Longrightarrow> dp_ok p'"
  by (simp add: dp_ok_def dp_wf_def dp_with_def)

lemma clean_byte:
  fixes p :: "unit DemoParser"
  assumes "dp_ok p" and "clean (ch # rest) (dp_abs p)"
  shows "\<exists>p' :: unit DemoParser. dp_ok p' \<and> clean rest (dp_abs p') \<and>
     (consume_byte cb is_last ch (dp_with s p) = Inr (dp_with s p', None) \<and>
        reports (ch # rest) (dp_abs p) = reports rest (dp_abs p') \<or>
      (\<exists>m. dm_wf m \<and> consume_byte cb is_last ch (dp_with s p) = rbind (cb s (Some m) 0) (\<lambda>s'. Inr (dp_with s' p', Some 0)) \<and>
        (\<exists>l. reports (ch # rest) (dp_abs p) = Some (dm_opcode m, dm_bytes m, l) # reports rest (dp_abs p'))))"
proof -
  from consume_byte_refines [of "dp_with [] p" is_last ch] assms(1) obtain p' r where
    p': "consume_byte demo_record is_last ch (dp_with [] p) = Inr (p', r)" "dp_wf p'" "demo_abs p' = astep is_last ch (dp_abs p)"
    by (auto simp: dp_ok_def dp_abs_def)
  have st: "fst (dp_abs p) \<noteq> STATE_ERROR_RECOVERY" using assms(2) by simp
  then have a: "demo_abs p' = astep False ch (dp_abs p)" using p'(3) astep_last [OF st] by (cases is_last) auto
  have cl: "clean rest (demo_abs p')" using assms(2) a by simp
  have rp: "reports (ch # rest) (dp_abs p) = reports rest (demo_abs p')" by (simp add: reports_def a)
  from consume_byte_any [OF p'(1), of cb s] show ?thesis
  proof
    assume n: "r = None \<and> dp_on_read_ctx p' = [] \<and> consume_byte cb is_last ch (dp_with s p) = Inr (dp_with s p', None)"
    then have "demo_abs p' = dp_abs p'" using dp_abs_log [of p' "[]"] by (cases "dp_abs p'") simp
    then show ?thesis using n cl rp dp_ok_of_wf [OF p'(2)] by (intro exI [of _ "dp_with () p'"]) simp
  next
    assume "\<exists>m rc. r = Some rc \<and> dp_on_read_ctx p' = [(m, rc)] \<and>
        consume_byte cb is_last ch (dp_with s p) = rbind (cb s m rc) (\<lambda>s'. Inr (dp_with s' p', r))"
    then obtain m rc where m: "r = Some rc" "dp_on_read_ctx p' = [(m, rc)]"
      "consume_byte cb is_last ch (dp_with s p) = rbind (cb s m rc) (\<lambda>s'. Inr (dp_with s' p', r))" by blast
    have e: "entry_ok (m, rc)" using p'(2) m(2) by (simp add: dp_wf_def)
    have da: "demo_abs p' = add_out [demo_frame (m, rc)] (dp_abs p')" using dp_abs_log [OF m(2)] by simp
    have "m \<noteq> None"
    proof
      assume "m = None"
      then have "snd (snd (snd (demo_abs p'))) = [None]" by (simp add: demo_abs_def m(2) demo_frame_def)
      then have "snd (snd (snd (astep False ch (dp_abs p)))) = [None]" unfolding a .
      then show False using st by (cases "(False, ch, dp_abs p)" rule: astep.cases) (auto simp: dp_abs_def demo_abs_def split: if_splits)
    qed
    then obtain m' where m': "m = Some m'" "dm_wf m'" "rc = 0" using e by (auto simp: entry_ok_def)
    have "reports (ch # rest) (dp_abs p) = Some (dm_opcode m', dm_bytes m', the (dm_lrc m')) # reports rest (dp_abs p')"
      unfolding rp da reports_add_out by (simp add: demo_frame_def m'(1))
    moreover have "clean rest (dp_abs p')" using cl da clean_add_out by simp
    ultimately show ?thesis using m m' dp_ok_of_wf [OF p'(2)] by (intro exI [of _ "dp_with () p'"]) auto
  qed
qed

lemma consume_loop_clean:
  assumes "dp_ok p" and "clean (chs @ rest) (dp_abs p)"
  shows "\<exists>n p'. consumed cb s chs rest p n p' (consume_loop cb chs i (dp_with s p)) i"
  using assms
proof (induction chs arbitrary: i p)
  case Nil
  then show ?case by (intro exI [of _ 0] exI [of _ p]) (simp add: consumed_def)
next
  case (Cons ch chs)
  have "clean (ch # chs @ rest) (dp_abs p)" using Cons.prems(2) by (simp only: append_Cons)
  from clean_byte [OF Cons.prems(1) this, of cb "chs = []" s] obtain p1 :: "unit DemoParser" where
    p1: "dp_ok p1" "clean (chs @ rest) (dp_abs p1)" and
    c: "consume_byte cb (chs = []) ch (dp_with s p) = Inr (dp_with s p1, None) \<and>
        reports (ch # chs @ rest) (dp_abs p) = reports (chs @ rest) (dp_abs p1) \<or>
      (\<exists>m. dm_wf m \<and> consume_byte cb (chs = []) ch (dp_with s p) = rbind (cb s (Some m) 0) (\<lambda>s'. Inr (dp_with s' p1, Some 0)) \<and>
        (\<exists>l. reports (ch # chs @ rest) (dp_abs p) = Some (dm_opcode m, dm_bytes m, l) # reports (chs @ rest) (dp_abs p1)))"
    by blast
  from c show ?case
  proof
    assume n: "consume_byte cb (chs = []) ch (dp_with s p) = Inr (dp_with s p1, None) \<and>
        reports (ch # chs @ rest) (dp_abs p) = reports (chs @ rest) (dp_abs p1)"
    from Cons.IH [OF p1, of "i + 1"] obtain n p' where "consumed cb s chs rest p1 n p' (consume_loop cb chs (i + 1) (dp_with s p1)) (i + 1)"
      by blast
    then show ?thesis using n by (intro exI [of _ "Suc n"] exI [of _ p']) (auto simp: consumed_def)
  next
    assume "\<exists>m. dm_wf m \<and> consume_byte cb (chs = []) ch (dp_with s p) = rbind (cb s (Some m) 0) (\<lambda>s'. Inr (dp_with s' p1, Some 0)) \<and>
        (\<exists>l. reports (ch # chs @ rest) (dp_abs p) = Some (dm_opcode m, dm_bytes m, l) # reports (chs @ rest) (dp_abs p1))"
    then show ?thesis using p1 by (intro exI [of _ "1 :: nat"] exI [of _ p1]) (auto simp: consumed_def rbind_assoc)
  qed
qed

text \<open>The same for a call on a buffer.\<close>

definition parsed :: "demo_st demo_handler \<Rightarrow> demo_st \<Rightarrow> IOBuffer \<Rightarrow> string \<Rightarrow> unit DemoParser \<Rightarrow> IOBuffer \<Rightarrow> unit DemoParser \<Rightarrow> bool" where
  "parsed cb s b rest p b' p' \<longleftrightarrow> dp_ok p' \<and> iob_wf b' \<and> iob_capacity b' = iob_capacity b \<and>
     (iob_content b' = [] \<longrightarrow> iob_ptr b' = 0) \<and> clean (iob_content b' @ rest) (dp_abs p') \<and>
     (iob_content b' = [] \<and> DemoParser_consume cb (dp_with s p) b = Inr (0, dp_with s p', b') \<and>
        reports (iob_content b @ rest) (dp_abs p) = reports rest (dp_abs p') \<or>
      (\<exists>m. length (iob_content b') < length (iob_content b) \<and> dm_wf m \<and>
        DemoParser_consume cb (dp_with s p) b = rbind (cb s (Some m) 0) (\<lambda>s'. Inr (0, dp_with s' p', b')) \<and>
        (\<exists>l. reports (iob_content b @ rest) (dp_abs p) =
           Some (dm_opcode m, dm_bytes m, l) # reports (iob_content b' @ rest) (dp_abs p'))))"

lemma DemoParser_consume_clean:
  assumes "dp_ok p" and b: "iob_wf b" and "clean (iob_content b @ rest) (dp_abs p)"
  shows "\<exists>b' p'. parsed cb s b rest p b' p'"
proof -
  have tag: "dp_tag (dp_with s p) = DemoParser_TAG" using assms(1) by (simp add: dp_ok_def dp_wf_def)
  obtain n p' where c: "consumed cb s (iob_content b) rest p n p' (consume_loop cb (iob_content b) 0 (dp_with s p)) 0"
    using consume_loop_clean [OF assms(1,3), where cb = cb and s = s and i = 0] by blast
  then have n: "n \<le> length (iob_content b)" by (auto simp: consumed_def)
  then have "int n \<le> iob_remaining b" using iob_content_length [OF b] b by (auto simp: iob_wf_def)
  then obtain b' where b': "IOBuffer_consume b (int n) = Inr b'" "iob_wf b'" "iob_content b' = drop n (iob_content b)"
    "iob_capacity b' = iob_capacity b" "iob_content b' = [] \<longrightarrow> iob_ptr b' = 0"
    using IOBuffer_consume_ok [OF b, of "int n"] by auto
  have eq: "DemoParser_consume cb (dp_with s p) b = rbind (consume_loop cb (iob_content b) 0 (dp_with s p)) (\<lambda>(rc, n, p).
     rbind (IOBuffer_consume b (int n)) (\<lambda>b. Inr (rc, p, b)))" by (rule DemoParser_consume_eq [OF tag b])
  show ?thesis
  proof (intro exI [of _ b'] exI [of _ p'])
    show "parsed cb s b rest p b' p'"
      using c b' n unfolding parsed_def consumed_def eq by (auto simp: rbind_assoc)
  qed
qed

section \<open>One connection of the server\<close>

text \<open>What the work on the requests of a connection does not touch.\<close>

record demo_frame =
  fr_table :: "addr FdTable"
  fr_kernel :: kernel
  fr_itq :: "EvfdQueue option"
  fr_itq_watcher :: "RtorWQueue option"
  fr_epoll_fd :: int
  fr_closed_flag :: bool
  fr_tag :: string
  fr_listening_socket_fd :: int
  fr_listening_watcher_ref :: RtorListener
  fr_handler_list :: "addr List"
  fr_streams :: "addr \<Rightarrow> RtorStream option"

definition frame_of :: "demo_st \<Rightarrow> demo_frame" where
  "frame_of s = \<lparr>fr_table = r_table s, fr_kernel = r_kernel s, fr_itq = r_itq s, fr_itq_watcher = r_itq_watcher s,
     fr_epoll_fd = r_epoll_fd s, fr_closed_flag = r_closed_flag s, fr_tag = ds_tag (r_app s),
     fr_listening_socket_fd = ds_listening_socket_fd (r_app s), fr_listening_watcher_ref = ds_listening_watcher_ref (r_app s),
     fr_handler_list = ds_handler_list (r_app s), fr_streams = ds_streams (r_app s)\<rparr>"

lemma frame_put [simp]:
  "frame_of (put_dconn c x s) = frame_of s" "frame_of (put_dhandler h y s) = frame_of s" "frame_of (put_dparser c p s) = frame_of s"
  "frame_of (put_sock fd k s) = frame_of s"
  "frame_of (s\<lparr>r_ready_list := l, r_runloop_executing := b\<rparr>) = frame_of s" "frame_of (s\<lparr>r_runloop_executing := b\<rparr>) = frame_of s"
  "frame_of (s\<lparr>r_ready_list := l\<rparr>) = frame_of s"
  by (simp_all add: frame_of_def put_dconn_def put_dhandler_def put_dparser_def put_sock_def)

lemma frame_post: "rtor_reactor_post s f a = Inr s' \<Longrightarrow> frame_of s' = frame_of s"
  by (auto simp: rtor_reactor_post_def rbind_eq_Inr frame_of_def)

text \<open>
  The handler \<open>h\<close> with its connection \<open>c\<close> on the socket \<open>fd\<close>: what it consists of, and what is ready
  on the reactor.
\<close>

definition view :: "demo_frame \<Rightarrow> addr \<Rightarrow> addr \<Rightarrow> int \<Rightarrow> demo_st \<Rightarrow> DemoHandler \<Rightarrow> DemoConnection \<Rightarrow> unit DemoParser \<Rightarrow> demo_sock \<Rightarrow> rfunctor list \<Rightarrow> bool" where
  "view F h c fd s hdl x p k rd \<longleftrightarrow> frame_of s = F \<and> Reactor_wf s \<and> ready s = rd \<and> ds_handlers (r_app s) h = Some hdl \<and> ds_conns (r_app s) c = Some x \<and>
     ds_parsers (r_app s) c = Some p \<and> ds_socks (r_app s) fd = k \<and> dh_tag hdl = DemoHandler_TAG \<and>
     dh_demo_connection_ref hdl = Some c \<and> dc_tag x = DemoConnection_TAG \<and> dc_handler_ref x = h \<and>
     (\<exists>a st. dc_socket_stream_ref x = Some a \<and> ds_streams (r_app s) a = Some st \<and> w_fd st = fd \<and> w_tag st = WIoFd_TAG) \<and>
     dh_input_list hdl = List_new NoDealloc"

abbreviation post :: "code_ptr \<Rightarrow> addr \<Rightarrow> rfunctor" where
  "post f a \<equiv> \<lparr>fn_f = f, fn_arg = a\<rparr>"

definition conn_same :: "DemoConnection \<Rightarrow> DemoConnection \<Rightarrow> bool" where
  "conn_same x x' \<longleftrightarrow> dc_tag x' = dc_tag x \<and> dc_handler_ref x' = dc_handler_ref x \<and> dc_socket_stream_ref x' = dc_socket_stream_ref x"

definition hdl_same :: "DemoHandler \<Rightarrow> DemoHandler \<Rightarrow> bool" where
  "hdl_same y y' \<longleftrightarrow> dh_tag y' = dh_tag y \<and> dh_demo_connection_ref y' = dh_demo_connection_ref y \<and>
     dh_input_list y' = dh_input_list y"

lemma view_conn:
  assumes "view F h c fd s hdl x p k rd"
  shows "get_dconn s c = Inr x" "check_dconn s c = Inr x" "get_dhandler s h = Inr hdl" "h_get (ds_parsers (r_app s)) c = Inr p"
    "ds_socks (r_app s) fd = k" "conn_same x x' \<Longrightarrow> dconn_fd s x' = Inr fd" "dh_tag hdl = DemoHandler_TAG"
    "dh_demo_connection_ref hdl = Some c" "dc_handler_ref x = h" "dc_tag x = DemoConnection_TAG"
  using assms
  by (auto simp: view_def get_dconn_def check_dconn_def get_dhandler_def h_get_def dconn_fd_def conn_same_def check_tag_def)

lemma view_put:
  assumes "view F h c fd s hdl x p k rd"
  shows "conn_same x x' \<Longrightarrow> view F h c fd (put_dconn c x' s) hdl x' p k rd"
    "hdl_same hdl hdl' \<Longrightarrow> view F h c fd (put_dhandler h hdl' s) hdl' x p k rd"
    "view F h c fd (put_dparser c p' s) hdl x p' k rd"
    "view F h c fd (put_sock fd k' s) hdl x p k' rd"
  using assms unfolding view_def frame_put by (auto simp: put_dconn_def put_dhandler_def put_dparser_def put_sock_def conn_same_def hdl_same_def)

lemma view_post:
  assumes "view F h c fd s hdl x p k rd" and "length rd < 2047"
  shows "\<exists>s'. rtor_reactor_post s f a = Inr s' \<and> view F h c fd s' hdl x p k (rd @ [post f a])"
  using rtor_reactor_post_ok [of s f a] frame_post [of s f a] assms by (fastforce simp: view_def)

lemma view_post_conn:
  assumes "view F h c fd s hdl x p k rd" and "length rd < 2047"
  shows "\<exists>s'. post_to_reactor c f s = Inr s' \<and> view F h c fd s' hdl x p k (rd @ [post f c])"
  using view_post [OF assms] view_conn(1) [OF assms(1)] by (simp add: post_to_reactor_def)

text \<open>One turn of the loop over the ready list.\<close>

definition tick :: "demo_st \<Rightarrow> demo_st \<Rightarrow> bool" where
  "tick s s' \<longleftrightarrow> Reactor_wf s \<and> Reactor_wf s' \<and> (\<exists>f rest l s1. ready s = f # rest \<and> functor_list_remove (r_ready_list s) = Inr (f, l) \<and>
     demo_server_code (fn_f f) (fn_arg f) (s\<lparr>r_ready_list := l, r_runloop_executing := True\<rparr>) = Inr s1 \<and>
     s' = s1\<lparr>r_runloop_executing := False\<rparr>)"

lemma turn_start:
  assumes v: "view F h c fd s hdl x p k (post f a # rd)"
  shows "\<exists>t. view F h c fd t hdl x p k rd \<and> (\<forall>t' hdl' x' p' k' rd'. demo_server_code f a t = Inr t' \<and> view F h c fd t' hdl' x' p' k' rd' \<longrightarrow>
     (\<exists>s'. tick s s' \<and> view F h c fd s' hdl' x' p' k' rd'))"
proof -
  have wf: "Reactor_wf s" and rd: "ready s = post f a # rd" using v by (simp_all add: view_def)
  obtain l where l: "functor_list_remove (r_ready_list s) = Inr (post f a, l)" "fl_contents l = rd"
    "Reactor_wf (s\<lparr>r_ready_list := l, r_runloop_executing := True\<rparr>)" using run_ready_step [OF wf rd] by blast
  let ?t = "s\<lparr>r_ready_list := l, r_runloop_executing := True\<rparr>"
  have "view F h c fd ?t hdl x p k rd" using v l(2,3) by (simp add: view_def)
  moreover have "tick s (t'\<lparr>r_runloop_executing := False\<rparr>) \<and> view F h c fd (t'\<lparr>r_runloop_executing := False\<rparr>) hdl' x' p' k' rd'"
    if "demo_server_code f a ?t = Inr t'" "view F h c fd t' hdl' x' p' k' rd'" for t' hdl' x' p' k' rd'
    using that wf rd l(1) by (simp add: tick_def view_def)
  ultimately show ?thesis by blast
qed

lemma turns_run:
  assumes "tick\<^sup>*\<^sup>* s s'" and "ready s' = []" and "Reactor_wf s'"
  shows "\<exists>n ran. run_ready demo_server_code n s = Inr (ran, s')"
  using assms
proof (induction rule: converse_rtranclp_induct)
  case base
  then show ?case by (intro exI [of _ "Suc 0"] exI [of _ "[]"]) (simp add: ready_size)
next
  case (step s s1)
  from step.hyps(1) obtain f rest l s0 where t: "Reactor_wf s" "Reactor_wf s1" "ready s = f # rest"
    "functor_list_remove (r_ready_list s) = Inr (f, l)"
    "demo_server_code (fn_f f) (fn_arg f) (s\<lparr>r_ready_list := l, r_runloop_executing := True\<rparr>) = Inr s0"
    "s1 = s0\<lparr>r_runloop_executing := False\<rparr>" by (auto simp: tick_def)
  obtain n ran where n: "run_ready demo_server_code n s1 = Inr (ran, s')" using step by blast
  have "functor_list_size (r_ready_list s0) = Inr (int (length (ready s1)))" "rtor_check (s0\<lparr>r_runloop_executing := False\<rparr>) = Inr ()"
    using ready_size [OF t(2)] t(2,6) by simp_all
  then have one: "run_ready demo_server_code (Suc n) s = (if ready s1 = [] then Inr ([f], s1)
      else rbind (run_ready demo_server_code n s1) (\<lambda>(ran, r3). Inr (f # ran, r3)))"
    using t by (simp add: ready_size Functor_call_def Let_def length_0_conv [symmetric] del: length_0_conv)
  show ?case
  proof (cases "ready s1 = []")
    case True
    then have "s1 = s'" using n t(2) by (cases n) (simp_all add: ready_size)
    then have "run_ready demo_server_code (Suc n) s = Inr ([f], s')" unfolding one using True by simp
    then show ?thesis by blast
  next
    case False
    then have "run_ready demo_server_code (Suc n) s = Inr (f # ran, s')" unfolding one using n by simp
    then show ?thesis by blast
  qed
qed

section \<open>The reading side\<close>

definition in_ok :: "DemoConnection \<Rightarrow> string \<Rightarrow> bool" where
  "in_ok x bs \<longleftrightarrow> (case dc_active_input_buffer_ref x of None \<Rightarrow> bs = []
     | Some b \<Rightarrow> iob_wf b \<and> iob_capacity b = 1000 \<and> iob_content b = bs \<and> (bs = [] \<longrightarrow> iob_ptr b = 0))"

definition out_ok :: "DemoHandler \<Rightarrow> DemoMessage list \<Rightarrow> bool" where
  "out_ok hdl ms \<longleftrightarrow> List_wf (dh_output_list hdl) \<and> List_items (dh_output_list hdl) = ms"

definition rd_active :: "DemoConnection \<Rightarrow> bool" where
  "rd_active x \<longleftrightarrow> dc_read_state x = DC_READ_ACTIVE \<and> dc_on_read_cb x = Some demo_handle_request_ptr"

definition rd_wait :: "DemoConnection \<Rightarrow> bool" where
  "rd_wait x \<longleftrightarrow> dc_read_state x = DC_READ_EAGAINED \<and> dc_on_read_cb x = Some demo_handle_request_ptr"

definition wr_fields :: "DemoConnection \<Rightarrow> int \<times> code_ptr option \<times> IOBuffer option" where
  "wr_fields x = (dc_write_state x, dc_on_write_cb x, dc_active_output_buffer_ref x)"

definition rd_fields :: "DemoConnection \<Rightarrow> int \<times> code_ptr option \<times> IOBuffer option" where
  "rd_fields x = (dc_read_state x, dc_on_read_cb x, dc_active_input_buffer_ref x)"

definition echo_of :: "string \<Rightarrow> DemoMessage \<Rightarrow> bool" where
  "echo_of body m \<longleftrightarrow> dm_wf m \<and> \<not> dm_opcode m \<and> dm_bytes m = body"

lemma demo_message_free_ok: "dm_wf m \<Longrightarrow> demo_message_free m = Inr ()"
  using demo_message_dispose_ok [of m] by (auto simp: demo_message_free_def demo_message_dispose_def rbind_eq_Inr)

lemma handle_request_ok:
  assumes v: "view F h c fd s hdl x p k rd" and out: "out_ok hdl ms" and m: "dm_wf m" and room: "length rd < 2040"
  shows "\<exists>s' hdl' reply. demo_handle_request h (Some m) 0 s = Inr s' \<and> out_ok hdl' (ms @ [reply]) \<and> echo_of (dm_bytes m) reply \<and>
     dh_active_response hdl' = dh_active_response hdl \<and>
     view F h c fd s' hdl' x p k (rd @ (if ms = [] then [post postable_write_start_ptr h] else []) @ [post handler_postable_read_start_ptr h])"
proof -
  obtain reply where reply: "demo_process_request DemoHandler_TAG m = Inr reply" "echo_of (dm_bytes m) reply"
    using demo_process_request_ok [OF m] by (auto simp: echo_of_def)
  obtain l where l: "List_add_back (dh_output_list hdl) reply = Inr l" "List_wf l" "List_items l = ms @ [reply]"
    using List_add_back_wf [of "dh_output_list hdl" reply] out by (auto simp: out_ok_def)
  let ?hdl = "hdl\<lparr>dh_output_list := l\<rparr>" and ?s1 = "put_dhandler h (hdl\<lparr>dh_output_list := l\<rparr>) s"
  have v1: "view F h c fd ?s1 ?hdl x p k rd" by (rule view_put(2) [OF v]) (simp add: hdl_same_def)
  let ?rd = "rd @ (if ms = [] then [post postable_write_start_ptr h] else [])"
  obtain s2 where s2: "(if List_size l = 1 then rtor_reactor_post ?s1 postable_write_start_ptr h else Inr ?s1) = Inr s2"
    "view F h c fd s2 ?hdl x p k ?rd"
    using view_post [OF v1, of postable_write_start_ptr h] v1 room List_size_wf [OF l(2)] l(3) by (cases "ms = []") auto
  have "length ?rd < 2047" using room by simp
  from view_post [OF s2(2) this, of handler_postable_read_start_ptr h] obtain s3 where
    s3: "rtor_reactor_post s2 handler_postable_read_start_ptr h = Inr s3"
    "view F h c fd s3 ?hdl x p k (?rd @ [post handler_postable_read_start_ptr h])" by blast
  have "demo_handle_request h (Some m) 0 s = Inr s3"
    using view_conn(3,7) [OF v] reply(1) l(1) s2(1) s3(1) demo_message_free_ok [OF m]
    by (simp add: demo_handle_request_def Let_def)
  then show ?thesis using s3(2) reply(2) l(2,3)
    by (intro exI [of _ s3] exI [of _ ?hdl] exI [of _ reply]) (simp add: out_ok_def)
qed

text \<open>What a step of the reader leaves: the input is shorter by what the parser has used.\<close>

text \<open>
  Batches of pieces that arrive later: between two of them the socket would block.
\<close>

definition blocks :: "string list list \<Rightarrow> recv_result list" where
  "blocks L = concat (map (\<lambda>b. Recv_again # map Recv_bytes b) L)"

definition later :: "string list list \<Rightarrow> string" where
  "later L = concat (concat L)"

lemma blocks_simps [simp]: "blocks [] = []" "blocks (b # L) = Recv_again # map Recv_bytes b @ blocks L"
  "later [] = []" "later (b # L) = concat b @ later L"
  by (simp_all add: blocks_def later_def)

definition feeds :: "string list list \<Rightarrow> DemoConnection \<Rightarrow> unit DemoParser \<Rightarrow> demo_sock \<Rightarrow> string list \<Rightarrow> string \<Rightarrow> bool" where
  "feeds L x p k cs bs \<longleftrightarrow> in_ok x bs \<and> dp_ok p \<and> sk_in k = map Recv_bytes cs @ blocks L \<and> [] \<notin> set (cs @ concat L) \<and>
     clean (bs @ concat cs @ later L) (dp_abs p)"

lemma parse_step:
  assumes v: "view F h c fd s hdl x p k rd" and act: "rd_active x" and out: "out_ok hdl ms" and room: "length rd < 2040"
    and f: "feeds L (x\<lparr>dc_active_input_buffer_ref := Some b\<rparr>) p k cs (iob_content b)" and ne: "iob_content b \<noteq> []"
  shows "\<exists>s' hdl' x' p' bs'. demo_parse c b s = Inr (0, s') \<and> feeds L x' p' k cs bs' \<and> length bs' < length (iob_content b) \<and>
     wr_fields x' = wr_fields x \<and> dh_active_response hdl' = dh_active_response hdl \<and>
     (rd_active x' \<and> hdl' = hdl \<and> view F h c fd s' hdl' x' p' k rd \<and>
        reports (iob_content b @ concat cs @ later L) (dp_abs p) = reports (bs' @ concat cs @ later L) (dp_abs p') \<or>
      dc_read_state x' = DC_READ_IDLE \<and> (\<exists>q body l reply. out_ok hdl' (ms @ [reply]) \<and> echo_of body reply \<and>
        reports (iob_content b @ concat cs @ later L) (dp_abs p) = Some (q, body, l) # reports (bs' @ concat cs @ later L) (dp_abs p')) \<and>
        view F h c fd s' hdl' x' p' k
          (rd @ (if ms = [] then [post postable_write_start_ptr h] else []) @ [post handler_postable_read_start_ptr h]))"
proof -
  let ?cb = "\<lambda>s msg ec. on_read_complete c msg ec s"
  have b: "iob_wf b" "iob_capacity b = 1000" "dp_ok p" "clean (iob_content b @ concat cs @ later L) (dp_abs p)"
    and k: "sk_in k = map Recv_bytes cs @ blocks L" "[] \<notin> set (cs @ concat L)" using f by (simp_all add: feeds_def in_ok_def)
  obtain b' p' where pd: "parsed ?cb s b (concat cs @ later L) p b' p'" using DemoParser_consume_clean [OF b(3,1,4)] by blast
  then have b': "dp_ok p'" "iob_wf b'" "iob_capacity b' = 1000" "iob_content b' = [] \<longrightarrow> iob_ptr b' = 0"
    "clean (iob_content b' @ concat cs @ later L) (dp_abs p')" using b(2) by (simp_all add: parsed_def)
  have fx: "feeds L (y\<lparr>dc_active_input_buffer_ref := Some b'\<rparr>) p' k cs (iob_content b')" for y
    using b' k by (simp add: feeds_def in_ok_def)
  from pd show ?thesis unfolding parsed_def
  proof (elim conjE disjE)
    assume e: "iob_content b' = []" "DemoParser_consume ?cb (dp_with s p) b = Inr (0, dp_with s p', b')"
      "reports (iob_content b @ concat cs @ later L) (dp_abs p) = reports (concat cs @ later L) (dp_abs p')"
    let ?x = "x\<lparr>dc_active_input_buffer_ref := Some b'\<rparr>"
    let ?s = "put_dparser c p' (put_dconn c ?x s)"
    have v1: "view F h c fd ?s hdl ?x p' k rd" by (rule view_put(3) [OF view_put(1) [OF v]]) (simp add: conn_same_def)
    have "demo_parse c b s = Inr (0, ?s)" using e(2) view_conn(1,4) [OF v] by (simp add: demo_parse_def Let_def)
    then show ?thesis using v1 fx [of x] e ne act
      by (intro exI [of _ ?s] exI [of _ hdl] exI [of _ ?x] exI [of _ p'] exI [of _ "[]"])
         (simp add: rd_active_def wr_fields_def)
  next
    assume "\<exists>m. length (iob_content b') < length (iob_content b) \<and> dm_wf m \<and>
        DemoParser_consume ?cb (dp_with s p) b = rbind (?cb s (Some m) 0) (\<lambda>s'. Inr (0, dp_with s' p', b')) \<and>
        (\<exists>l. reports (iob_content b @ concat cs @ later L) (dp_abs p) =
           Some (dm_opcode m, dm_bytes m, l) # reports (iob_content b' @ concat cs @ later L) (dp_abs p'))"
    then obtain m l where m: "length (iob_content b') < length (iob_content b)" "dm_wf m"
      "DemoParser_consume ?cb (dp_with s p) b = rbind (?cb s (Some m) 0) (\<lambda>s'. Inr (0, dp_with s' p', b'))"
      "reports (iob_content b @ concat cs @ later L) (dp_abs p) = Some (dm_opcode m, dm_bytes m, l) # reports (iob_content b' @ concat cs @ later L) (dp_abs p')"
      by blast
    let ?x1 = "x\<lparr>dc_read_state := DC_READ_IDLE, dc_on_read_cb := None\<rparr>"
    have v1: "view F h c fd (put_dconn c ?x1 s) hdl ?x1 p k rd" by (rule view_put(1) [OF v]) (simp add: conn_same_def)
    obtain s2 hdl' reply where s2: "demo_handle_request h (Some m) 0 (put_dconn c ?x1 s) = Inr s2" "out_ok hdl' (ms @ [reply])"
      "echo_of (dm_bytes m) reply" "dh_active_response hdl' = dh_active_response hdl"
      "view F h c fd s2 hdl' ?x1 p k (rd @ (if ms = [] then [post postable_write_start_ptr h] else []) @ [post handler_postable_read_start_ptr h])"
      using handle_request_ok [OF v1 out m(2) room] by blast
    have cbv: "on_read_complete c (Some m) 0 s = Inr s2"
      using s2(1) act view_conn(2,9) [OF v] by (simp add: on_read_complete_def call_on_read_cb_def rd_active_def)
    let ?x2 = "?x1\<lparr>dc_active_input_buffer_ref := Some b'\<rparr>"
    let ?s = "put_dparser c p' (put_dconn c ?x2 s2)"
    have v3: "view F h c fd ?s hdl' ?x2 p' k (rd @ (if ms = [] then [post postable_write_start_ptr h] else []) @ [post handler_postable_read_start_ptr h])"
      by (rule view_put(3) [OF view_put(1) [OF s2(5)]]) (simp add: conn_same_def)
    have "demo_parse c b s = Inr (0, ?s)"
      using m(3) cbv view_conn(4) [OF v] view_conn(1) [OF s2(5)] by (simp add: demo_parse_def Let_def)
    then show ?thesis using v3 fx [of ?x1] m(1,4) s2(2-4)
      by (intro exI [of _ ?s] exI [of _ hdl'] exI [of _ ?x2] exI [of _ p'] exI [of _ "iob_content b'"])
         (auto simp: wr_fields_def)
  qed
qed

text \<open>The outcome of a reader that had data: nothing complete yet, or one request handed over.\<close>

definition read_some :: "string list list \<Rightarrow> demo_frame \<Rightarrow> addr \<Rightarrow> addr \<Rightarrow> int \<Rightarrow> DemoHandler \<Rightarrow> DemoConnection \<Rightarrow> DemoMessage list \<Rightarrow> rfunctor list \<Rightarrow> frame option list \<Rightarrow> nat \<Rightarrow>
    demo_sock \<Rightarrow> demo_st \<Rightarrow> bool" where
  "read_some L F h c fd hdl x ms rd todo sz k s' \<longleftrightarrow> (\<exists>hdl' x' p' k' cs bs. feeds L x' p' k' cs bs \<and> length (bs @ concat cs) < sz \<and>
     sk_out k' = sk_out k \<and> sk_sends k' = sk_sends k \<and> wr_fields x' = wr_fields x \<and> dh_active_response hdl' = dh_active_response hdl \<and>
     (rd_active x' \<and> out_ok hdl' ms \<and> view F h c fd s' hdl' x' p' k' (rd @ [post demo_postable_reader_ptr c]) \<and>
        todo = reports (bs @ concat cs @ later L) (dp_abs p') \<or>
      dc_read_state x' = DC_READ_IDLE \<and> (\<exists>q body l reply. out_ok hdl' (ms @ [reply]) \<and> echo_of body reply \<and>
        todo = Some (q, body, l) # reports (bs @ concat cs @ later L) (dp_abs p')) \<and>
        view F h c fd s' hdl' x' p' k'
          (rd @ (if ms = [] then [post postable_write_start_ptr h] else []) @ [post handler_postable_read_start_ptr h])))"

text \<open>What the reader does with the result of the parser.\<close>

definition reader_rest :: "addr \<Rightarrow> (int \<times> demo_st) res \<Rightarrow> demo_st res" where
  "reader_rest c r = rbind r (\<lambda>(ec, s). if ec = 0 then rbind (get_dconn s c) (\<lambda>x.
     if dc_read_state x = DC_READ_ACTIVE then post_to_reactor c demo_postable_reader_ptr s else Inr s) else Inr s)"

lemma reader_tail:
  assumes v: "view F h c fd s hdl x p k rd" and act: "rd_active x" and out: "out_ok hdl ms" and room: "length rd < 2040"
    and f: "feeds L x p k cs (iob_content b)" and ne: "iob_content b \<noteq> []" and b: "dc_active_input_buffer_ref x = Some b"
  shows "\<exists>s'. reader_rest c (demo_parse c b s) = Inr s' \<and>
     read_some L F h c fd hdl x ms rd (reports (iob_content b @ concat cs @ later L) (dp_abs p)) (length (iob_content b @ concat cs)) k s'"
proof -
  have f1: "feeds L (x\<lparr>dc_active_input_buffer_ref := Some b\<rparr>) p k cs (iob_content b)" using f b by (simp add: feeds_def in_ok_def)
  obtain s' hdl' x' p' bs' where s': "demo_parse c b s = Inr (0, s')" "feeds L x' p' k cs bs'"
    "length bs' < length (iob_content b)" "wr_fields x' = wr_fields x" "dh_active_response hdl' = dh_active_response hdl"
    and alt: "rd_active x' \<and> hdl' = hdl \<and> view F h c fd s' hdl' x' p' k rd \<and>
        reports (iob_content b @ concat cs @ later L) (dp_abs p) = reports (bs' @ concat cs @ later L) (dp_abs p') \<or>
      dc_read_state x' = DC_READ_IDLE \<and> (\<exists>q body l reply. out_ok hdl' (ms @ [reply]) \<and> echo_of body reply \<and>
        reports (iob_content b @ concat cs @ later L) (dp_abs p) = Some (q, body, l) # reports (bs' @ concat cs @ later L) (dp_abs p')) \<and>
        view F h c fd s' hdl' x' p' k
          (rd @ (if ms = [] then [post postable_write_start_ptr h] else []) @ [post handler_postable_read_start_ptr h])"
    using parse_step [OF v act out room f1 ne] by blast
  from alt show ?thesis
  proof (elim disjE conjE)
    assume a: "rd_active x'" "hdl' = hdl" "view F h c fd s' hdl' x' p' k rd"
      "reports (iob_content b @ concat cs @ later L) (dp_abs p) = reports (bs' @ concat cs @ later L) (dp_abs p')"
    obtain s2 where s2: "post_to_reactor c demo_postable_reader_ptr s' = Inr s2"
      "view F h c fd s2 hdl' x' p' k (rd @ [post demo_postable_reader_ptr c])"
      using view_post_conn [OF a(3), of demo_postable_reader_ptr] room by auto
    have "read_some L F h c fd hdl x ms rd (reports (iob_content b @ concat cs @ later L) (dp_abs p)) (length (iob_content b @ concat cs)) k s2"
      unfolding read_some_def using a s2(2) s'(2-5) out
      by (intro exI [of _ hdl'] exI [of _ x'] exI [of _ p'] exI [of _ k] exI [of _ cs] exI [of _ bs']) simp
    then show ?thesis using s'(1) s2(1) view_conn(1) [OF a(3)] a(1) by (simp add: reader_rest_def rd_active_def)
  next
    assume a: "dc_read_state x' = DC_READ_IDLE" "\<exists>q body l reply. out_ok hdl' (ms @ [reply]) \<and> echo_of body reply \<and>
        reports (iob_content b @ concat cs @ later L) (dp_abs p) = Some (q, body, l) # reports (bs' @ concat cs @ later L) (dp_abs p')"
      "view F h c fd s' hdl' x' p' k (rd @ (if ms = [] then [post postable_write_start_ptr h] else []) @ [post handler_postable_read_start_ptr h])"
    have "read_some L F h c fd hdl x ms rd (reports (iob_content b @ concat cs @ later L) (dp_abs p)) (length (iob_content b @ concat cs)) k s'"
      unfolding read_some_def using a s'(2-5)
      by (intro exI [of _ hdl'] exI [of _ x'] exI [of _ p'] exI [of _ k] exI [of _ cs] exI [of _ bs']) simp
    then show ?thesis using s'(1) view_conn(1) [OF a(3)] a(1) by (simp add: reader_rest_def dc_states)
  qed
qed

text \<open>The socket hands over the next piece, or as much of it as fits into the buffer.\<close>

lemma recv_piece:
  assumes "sk_in k = map Recv_bytes (ch # cs) @ rest" and "[] \<notin> set (ch # cs)"
  shows "\<exists>bytes k' cs'. sys_recv 1000 k = (Recv_bytes bytes, k') \<and> bytes \<noteq> [] \<and> length bytes \<le> 1000 \<and> sk_in k' = map Recv_bytes cs' @ rest \<and>
     [] \<notin> set cs' \<and> bytes @ concat cs' = concat (ch # cs) \<and> sk_out k' = sk_out k \<and> sk_sends k' = sk_sends k"
proof (cases "length ch \<le> 1000")
  case True
  then show ?thesis using assms by (auto simp: sys_recv_def intro!: exI [of _ cs])
next
  case False
  then show ?thesis using assms by (auto simp: sys_recv_def intro!: exI [of _ "drop 1000 ch # cs"])
qed

text \<open>With an empty input buffer the reader calls \<open>recv\<close>, and gives what it gets to the parser.\<close>

lemma reader_receives:
  assumes v: "view F h c fd s hdl x p k rd" and nst: "dc_read_state x \<noteq> DC_READ_STOP" and i: "in_ok x []"
    and r: "sys_recv 1000 k = (Recv_bytes bytes, k')" "bytes \<noteq> []" "length bytes \<le> 1000"
  shows "\<exists>b t. iob_wf b \<and> iob_content b = bytes \<and> iob_capacity b = 1000 \<and> iob_ptr b = 0 \<and>
     view F h c fd t hdl (x\<lparr>dc_active_input_buffer_ref := Some b\<rparr>) p k' rd \<and> demo_postable_reader c s = reader_rest c (demo_parse c b t)"
proof -
  define b where "b = (case dc_active_input_buffer_ref x of None \<Rightarrow> IOBuffer_new_with_capacity 1000 | Some b \<Rightarrow> b)"
  have b: "iob_wf b" "iob_capacity b = 1000" "iob_content b = []" "iob_ptr b = 0"
    using i IOBuffer_new_with_capacity_wf [of 1000] by (auto simp: b_def in_ok_def split: option.splits)
  have len: "IOBuffer_data_len b = Inr 0" using iob_data_len [OF b(1)] b(3) by simp
  have be: "iob_remaining b = 0" using b(1,3) iob_content_length [OF b(1)] by (simp add: iob_wf_def)
  from iob_fill_ok [OF b(1) r(2)] b(2-4) be r(3) obtain b1 where
    b1: "iob_fill b (map Some bytes) = Inr b1" "iob_wf b1" "iob_content b1 = bytes" "iob_capacity b1 = 1000" "iob_ptr b1 = 0" by auto
  let ?x = "x\<lparr>dc_active_input_buffer_ref := Some b\<rparr>" and ?x1 = "x\<lparr>dc_active_input_buffer_ref := Some b1\<rparr>"
  have v1: "view F h c fd (put_dconn c ?x s) hdl ?x p k rd" by (rule view_put(1) [OF v]) (simp add: conn_same_def)
  have fd: "dconn_fd (put_dconn c ?x s) x = Inr fd" using view_conn(6) [OF v1, of x] by (simp add: conn_same_def)
  let ?s = "put_sock fd k' (put_dconn c ?x s)"
  have v2: "view F h c fd ?s hdl ?x p k' rd" by (rule view_put(4) [OF v1])
  have v3: "view F h c fd (put_dconn c ?x1 ?s) hdl ?x1 p k' rd" by (rule view_put(1) [OF v2]) (simp add: conn_same_def)
  have "demo_postable_reader c s = reader_rest c (demo_parse c b1 (put_dconn c ?x1 ?s))"
    unfolding demo_postable_reader_def demo_reader_def view_conn(1,2) [OF v] rbind_Inr b_def [symmetric]
    using nst b len fd view_conn(5) [OF v1] view_conn(1) [OF v2] r(1,2) be b1(1)
    by (simp add: IOBuffer_space_len_def iob_wf_check view_conn(1) [OF v] b_def [symmetric] reader_rest_def)
  then show ?thesis using b1 v3 by blast
qed

text \<open>With data left in its input buffer it does not call \<open>recv\<close>.\<close>

lemma reader_buffered:
  assumes v: "view F h c fd s hdl x p k rd" and nst: "dc_read_state x \<noteq> DC_READ_STOP" and i: "in_ok x bs" "bs \<noteq> []"
  shows "\<exists>b t. dc_active_input_buffer_ref x = Some b \<and> iob_wf b \<and> iob_content b = bs \<and> view F h c fd t hdl x p k rd \<and>
     demo_postable_reader c s = reader_rest c (demo_parse c b t)"
proof -
  obtain b where b: "dc_active_input_buffer_ref x = Some b" "iob_wf b" "iob_content b = bs" using i by (auto simp: in_ok_def split: option.splits)
  have len: "IOBuffer_data_len b = Inr (int (length bs))" using iob_data_len [OF b(2)] b(3) by simp
  let ?s = "put_dconn c x (put_sock fd k (put_dconn c x s))"
  have v1: "view F h c fd (put_dconn c x s) hdl x p k rd" by (rule view_put(1) [OF v]) (simp add: conn_same_def)
  have v2: "view F h c fd (put_sock fd k (put_dconn c x s)) hdl x p k rd" by (rule view_put(4) [OF v1])
  have v3: "view F h c fd ?s hdl x p k rd" by (rule view_put(1) [OF v2]) (simp add: conn_same_def)
  have fd: "dconn_fd (put_dconn c x s) x = Inr fd" using view_conn(6) [OF v1, of x] by (simp add: conn_same_def)
  have x: "x\<lparr>dc_active_input_buffer_ref := Some b\<rparr> = x" using b(1) by simp
  have "demo_postable_reader c s = reader_rest c (demo_parse c b ?s)"
    unfolding demo_postable_reader_def demo_reader_def view_conn(1,2) [OF v] rbind_Inr
    using nst b len fd i(2) view_conn(5) [OF v1] view_conn(1) [OF v2]
    by (simp add: IOBuffer_space_len_def iob_wf_check view_conn(1) [OF v] reader_rest_def Let_def x)
  then show ?thesis using b v3 by blast
qed

lemma reader_step:
  assumes v: "view F h c fd s hdl x p k rd" and act: "rd_active x" and out: "out_ok hdl ms" and room: "length rd < 2040"
    and f: "feeds L x p k cs bs" and ne: "bs @ concat cs \<noteq> []"
  shows "\<exists>s'. demo_postable_reader c s = Inr s' \<and> read_some L F h c fd hdl x ms rd (reports (bs @ concat cs @ later L) (dp_abs p)) (length (bs @ concat cs)) k s'"
proof -
  have nst: "dc_read_state x \<noteq> DC_READ_STOP" using act by (simp add: rd_active_def dc_states)
  show ?thesis
  proof (cases "bs = []")
    case False
    have "in_ok x bs" using f by (simp add: feeds_def)
    then obtain b t where b: "dc_active_input_buffer_ref x = Some b" "iob_content b = bs" "view F h c fd t hdl x p k rd"
      "demo_postable_reader c s = reader_rest c (demo_parse c b t)" using reader_buffered [OF v nst _ False] by blast
    then show ?thesis using reader_tail [OF b(3) act out room _ _ b(1)] f False by simp
  next
    case True
    from f True ne obtain ch cs1 where cs: "cs = ch # cs1" by (cases cs) auto
    have kin: "sk_in k = map Recv_bytes (ch # cs1) @ blocks L" "[] \<notin> set (ch # cs1)" and cl: "clean (concat cs @ later L) (dp_abs p)" and pok: "dp_ok p" "in_ok x []"
      using f True cs by (simp_all add: feeds_def)
    obtain bytes k' cs' where r: "sys_recv 1000 k = (Recv_bytes bytes, k')" "bytes \<noteq> []" "length bytes \<le> 1000" "sk_in k' = map Recv_bytes cs' @ blocks L"
      "[] \<notin> set cs'" "bytes @ concat cs' = concat cs" "sk_out k' = sk_out k" "sk_sends k' = sk_sends k"
      using recv_piece [OF kin] cs by auto
    obtain b t where b: "iob_wf b" "iob_content b = bytes" "iob_capacity b = 1000" "iob_ptr b = 0"
      "view F h c fd t hdl (x\<lparr>dc_active_input_buffer_ref := Some b\<rparr>) p k' rd" "demo_postable_reader c s = reader_rest c (demo_parse c b t)"
      using reader_receives [OF v nst pok(2) r(1-3)] by blast
    let ?x = "x\<lparr>dc_active_input_buffer_ref := Some b\<rparr>"
    have "[] \<notin> set (concat L)" using f by (simp add: feeds_def)
    moreover have "clean (bytes @ concat cs' @ later L) (dp_abs p)" using cl r(6) by (metis append_assoc)
    ultimately have f1: "feeds L ?x p k' cs' (iob_content b)" using b(1-4) r(4,5) pok by (simp add: feeds_def in_ok_def)
    have act1: "rd_active ?x" using act by (simp add: rd_active_def)
    obtain s' where s': "reader_rest c (demo_parse c b t) = Inr s'"
      "read_some L F h c fd hdl ?x ms rd (reports (bs @ concat cs @ later L) (dp_abs p)) (length (bs @ concat cs)) k' s'"
      using reader_tail [OF b(5) act1 out room f1] b(2) r(2) True unfolding append_Nil append_assoc [symmetric] r(6) [symmetric] by auto
    then show ?thesis using b(6) r(7,8) by (auto simp: read_some_def wr_fields_def)
  qed
qed

text \<open>A connection that waits for the next batch, if there is one.\<close>

definition awaits :: "string list list \<Rightarrow> DemoConnection \<Rightarrow> unit DemoParser \<Rightarrow> demo_sock \<Rightarrow> bool" where
  "awaits L x p k \<longleftrightarrow> (case L of [] \<Rightarrow> feeds [] x p k [] [] | b # M \<Rightarrow> feeds M x p k b [])"

lemma reader_waits:
  assumes v: "view F h c fd s hdl x p k rd" and act: "rd_active x" and f: "feeds L x p k cs bs" and e: "bs @ concat cs = []"
  shows "\<exists>s' x'. demo_postable_reader c s = Inr s' \<and> view F h c fd s' hdl x' p (k\<lparr>sk_in := tl (sk_in k)\<rparr>) rd \<and> rd_wait x' \<and>
     awaits L x' p (k\<lparr>sk_in := tl (sk_in k)\<rparr>) \<and> wr_fields x' = wr_fields x"
proof -
  define b where "b = (case dc_active_input_buffer_ref x of None \<Rightarrow> IOBuffer_new_with_capacity 1000 | Some b \<Rightarrow> b)"
  have b: "iob_wf b" "iob_capacity b = 1000" "iob_content b = []" "iob_ptr b = 0"
    using f e IOBuffer_new_with_capacity_wf [of 1000] by (auto simp: b_def feeds_def in_ok_def split: option.splits)
  have cs: "cs = []" using f e by (cases cs) (auto simp: feeds_def)
  have len: "IOBuffer_data_len b = Inr 0" using iob_data_len [OF b(1)] b(3) by simp
  let ?x = "x\<lparr>dc_active_input_buffer_ref := Some b\<rparr>"
  let ?x' = "?x\<lparr>dc_read_state := DC_READ_EAGAINED\<rparr>"
  have nst: "dc_read_state x \<noteq> DC_READ_STOP" using act by (simp add: rd_active_def dc_states)
  have v1: "view F h c fd (put_dconn c ?x s) hdl ?x p k rd" by (rule view_put(1) [OF v]) (simp add: conn_same_def)
  have fd: "dconn_fd (put_dconn c ?x s) x = Inr fd" using view_conn(6) [OF v1, of x] by (simp add: conn_same_def)
  let ?k = "k\<lparr>sk_in := tl (sk_in k)\<rparr>"
  let ?s = "put_sock fd ?k (put_dconn c ?x s)"
  have v2: "view F h c fd ?s hdl ?x p ?k rd" by (rule view_put(4) [OF v1])
  have v3: "view F h c fd (put_dconn c ?x' ?s) hdl ?x' p ?k rd" by (rule view_put(1) [OF v2]) (simp add: conn_same_def)
  have "sys_recv n k = (Recv_again, ?k)" for n using f cs by (cases L) (simp_all add: sys_recv_def feeds_def)
  then have "demo_postable_reader c s = Inr (put_dconn c ?x' ?s)"
    unfolding demo_postable_reader_def demo_reader_def view_conn(1,2) [OF v] rbind_Inr b_def [symmetric]
    using nst b len fd view_conn(5) [OF v1] view_conn(1) [OF v2]
    by (simp add: IOBuffer_space_len_def iob_wf_check view_conn(1) [OF v] b_def [symmetric])
  moreover have "rd_wait ?x'" "wr_fields ?x' = wr_fields x" using act by (simp_all add: rd_active_def rd_wait_def wr_fields_def)
  moreover have "awaits L ?x' p ?k" using f e b cs by (cases L) (simp_all add: awaits_def feeds_def in_ok_def)
  ultimately show ?thesis using v3 by blast
qed

section \<open>The writing side\<close>

definition reply_wire :: "string \<Rightarrow> string" where
  "reply_wire body = frame_bytes (False, body, CHR ''L'') @ [CH_EOT]"

lemma echo_serialize:
  "echo_of body m \<Longrightarrow> \<exists>b. demo_message_serialize m = Inr b \<and> iob_wf b \<and> iob_content b = reply_wire body"
  using demo_message_serialize_ok [of m] by (auto simp: echo_of_def reply_wire_def simp del: frame_bytes.simps)

definition wr_idle :: "DemoConnection \<Rightarrow> bool" where
  "wr_idle x \<longleftrightarrow> dc_write_state x = DC_WRITE_IDLE \<and> dc_active_output_buffer_ref x = None"

definition wr_sending :: "DemoConnection \<Rightarrow> string \<Rightarrow> bool" where
  "wr_sending x bs \<longleftrightarrow> dc_write_state x = DC_WRITE_IDLE \<and> dc_on_write_cb x = Some on_write_complete_cb_ptr \<and>
     (\<exists>b. dc_active_output_buffer_ref x = Some b \<and> iob_wf b \<and> iob_content b = bs)"

definition wr_sent :: "DemoConnection \<Rightarrow> bool" where
  "wr_sent x \<longleftrightarrow> wr_idle x \<and> dc_on_write_cb x = Some on_write_complete_cb_ptr"

definition responding :: "DemoHandler \<Rightarrow> bool" where
  "responding hdl \<longleftrightarrow> (\<exists>m. dh_active_response hdl = Some m \<and> dm_wf m)"

lemma read_start_step:
  assumes v: "view F h c fd s hdl x p k rd" and i: "dc_read_state x = DC_READ_IDLE" and room: "length rd < 2040"
  shows "\<exists>s' x'. handler_postable_read_start h s = Inr s' \<and> view F h c fd s' hdl x' p k (rd @ [post demo_postable_reader_ptr c]) \<and>
     rd_active x' \<and> dc_active_input_buffer_ref x' = dc_active_input_buffer_ref x \<and> wr_fields x' = wr_fields x"
proof -
  let ?x1 = "x\<lparr>dc_read_state := DC_READ_ACTIVE, dc_on_read_cb := Some demo_handle_request_ptr\<rparr>"
  let ?x2 = "?x1\<lparr>dc_readside_posted := True\<rparr>"
  have v1: "view F h c fd (put_dconn c ?x1 s) hdl ?x1 p k rd" by (rule view_put(1) [OF v]) (simp add: conn_same_def)
  have v2: "view F h c fd (put_dconn c ?x2 (put_dconn c ?x1 s)) hdl ?x2 p k rd" by (rule view_put(1) [OF v1]) (simp add: conn_same_def)
  obtain s' where s': "post_to_reactor c demo_postable_reader_ptr (put_dconn c ?x2 (put_dconn c ?x1 s)) = Inr s'"
    "view F h c fd s' hdl ?x2 p k (rd @ [post demo_postable_reader_ptr c])" using view_post_conn [OF v2] room by fastforce
  have "handler_postable_read_start h s = Inr s'"
    using view_conn(1,3,8) [OF v] view_conn(2) [OF v1] i s'(1)
    by (simp add: handler_postable_read_start_def democonnection_read_def demo_read_start_def dc_states)
  then show ?thesis using s'(2) by (intro exI [of _ s'] exI [of _ ?x2]) (simp add: rd_active_def wr_fields_def)
qed

lemma write_start_step:
  assumes v: "view F h c fd s hdl x p k rd" and out: "out_ok hdl (m # ms)" and m: "echo_of body m" and "wr_idle x"
    and "dh_active_response hdl = None" and room: "length rd < 2040"
  shows "\<exists>s' hdl' x'. postable_write_start h s = Inr s' \<and> view F h c fd s' hdl' x' p k (rd @ [post demo_postable_writer_ptr c]) \<and>
     out_ok hdl' ms \<and> responding hdl' \<and> wr_sending x' (reply_wire body) \<and> rd_fields x' = rd_fields x"
proof -
  obtain l where l: "List_remove_first (dh_output_list hdl) = Inr (Some m, l)" "List_wf l" "List_items l = ms"
    using List_remove_first_wf [of "dh_output_list hdl"] out by (auto simp: out_ok_def)
  obtain b where b: "demo_message_serialize m = Inr b" "iob_wf b" "iob_content b = reply_wire body" using echo_serialize [OF m] by blast
  let ?hdl = "hdl\<lparr>dh_output_list := l, dh_active_response := Some m\<rparr>"
  let ?x = "x\<lparr>dc_on_write_cb := Some on_write_complete_cb_ptr, dc_active_output_buffer_ref := Some b\<rparr>"
  have v1: "view F h c fd (put_dhandler h ?hdl s) ?hdl x p k rd" by (rule view_put(2) [OF v]) (simp add: hdl_same_def)
  have v2: "view F h c fd (put_dconn c ?x (put_dhandler h ?hdl s)) ?hdl ?x p k rd" by (rule view_put(1) [OF v1]) (simp add: conn_same_def)
  obtain s' where s': "post_to_reactor c demo_postable_writer_ptr (put_dconn c ?x (put_dhandler h ?hdl s)) = Inr s'"
    "view F h c fd s' ?hdl ?x p k (rd @ [post demo_postable_writer_ptr c])" using view_post_conn [OF v2] room by fastforce
  have fd: "dconn_fd s x = Inr fd" by (rule view_conn(6) [OF v]) (simp add: conn_same_def)
  have "postable_write_start h s = Inr s'"
    using view_conn(1,3,8) [OF v] fd view_conn(2) [OF v1] assms(4,5) l(1) b(1) s'(1)
    by (simp add: postable_write_start_def democonnection_write_def wr_idle_def dc_states Let_def)
  then show ?thesis using s'(2) l(2,3) b m assms(4)
    by (intro exI [of _ s'] exI [of _ ?hdl] exI [of _ ?x])
       (simp add: out_ok_def responding_def echo_of_def wr_sending_def wr_idle_def rd_fields_def)
qed

lemma write_start_busy:
  assumes v: "view F h c fd s hdl x p k rd" and "responding hdl"
  shows "postable_write_start h s = Inr s"
proof -
  have "dconn_fd s x = Inr fd" by (rule view_conn(6) [OF v]) (simp add: conn_same_def)
  then show ?thesis using view_conn(1,3,8) [OF v] assms(2) by (auto simp: postable_write_start_def responding_def)
qed

lemma writer_step:
  assumes v: "view F h c fd s hdl x p k rd" and wr: "wr_sending x bs" and "bs \<noteq> []" and "sk_sends k = []" and room: "length rd < 2040"
  shows "\<exists>s' x'. demo_postable_writer c s = Inr s' \<and>
     view F h c fd s' hdl x' p (k\<lparr>sk_out := sk_out k @ bs\<rparr>) (rd @ [post postable_write_call_cb_ptr c]) \<and>
     wr_sent x' \<and> rd_fields x' = rd_fields x"
proof -
  from wr obtain b where b: "dc_active_output_buffer_ref x = Some b" "iob_wf b" "iob_content b = bs"
    and w: "dc_write_state x = DC_WRITE_IDLE" "dc_on_write_cb x = Some on_write_complete_cb_ptr" by (auto simp: wr_sending_def wr_idle_def)
  let ?k = "k\<lparr>sk_out := sk_out k @ bs\<rparr>" and ?x = "x\<lparr>dc_write_state := DC_WRITE_IDLE, dc_active_output_buffer_ref := None\<rparr>"
  have send: "sys_send bs k = (int (length bs), ?k)" using assms(4) by (simp add: sys_send_def)
  have "int (length bs) = iob_remaining b" using iob_content_length [OF b(2)] b(2,3) by (simp add: iob_wf_def)
  then obtain b1 where b1: "IOBuffer_consume b (int (length bs)) = Inr b1" "iob_wf b1" "iob_content b1 = []"
    using IOBuffer_consume_ok [OF b(2), of "int (length bs)"] b(3) by auto
  have d: "IOBuffer_data_len b1 = Inr 0" "IOBuffer_dispose b1 = Inr None"
    using b1(2,3) by (simp_all add: iob_data_len IOBuffer_dispose_def IOBuffer_destroy_def iob_wf_check)
  have v1: "view F h c fd (put_sock fd ?k s) hdl x p ?k rd" by (rule view_put(4) [OF v])
  have v2: "view F h c fd (put_dconn c ?x (put_sock fd ?k s)) hdl ?x p ?k rd" by (rule view_put(1) [OF v1]) (simp add: conn_same_def)
  obtain s' where s': "post_to_reactor c postable_write_call_cb_ptr (put_dconn c ?x (put_sock fd ?k s)) = Inr s'"
    "view F h c fd s' hdl ?x p ?k (rd @ [post postable_write_call_cb_ptr c])" using view_post_conn [OF v2] room by fastforce
  have fd: "dconn_fd s x = Inr fd" by (rule view_conn(6) [OF v]) (simp add: conn_same_def)
  have "demo_writer c s = Inr s'"
    using view_conn(2,5) [OF v] b iob_bytes_ok [OF b(2)] fd send b1(1) d s'(1) assms(3) w
    by (simp add: demo_writer_def)
  then have "demo_postable_writer c s = Inr s'" using view_conn(2) [OF v] b(1) w(1) by (simp add: demo_postable_writer_def dc_states)
  then show ?thesis using s'(2) w by (intro exI [of _ s'] exI [of _ ?x]) (simp add: wr_sent_def wr_idle_def rd_fields_def)
qed

lemma write_done_step:
  assumes v: "view F h c fd s hdl x p k rd" and wr: "wr_sent x" and out: "out_ok hdl ms" and "responding hdl" and room: "length rd < 2040"
  shows "\<exists>s' hdl'. postable_write_call_cb c s = Inr s' \<and>
     view F h c fd s' hdl' x p k (rd @ (if length ms = 1 then [post postable_write_start_ptr h] else [])) \<and>
     out_ok hdl' ms \<and> dh_active_response hdl' = None"
proof -
  from assms(4) obtain m where m: "dh_active_response hdl = Some m" "dm_wf m" by (auto simp: responding_def)
  let ?hdl = "hdl\<lparr>dh_active_response := None\<rparr>"
  have v1: "view F h c fd (put_dhandler h ?hdl s) ?hdl x p k rd" by (rule view_put(2) [OF v]) (simp add: hdl_same_def)
  have sz: "List_size (dh_output_list hdl) = int (length ms)" using out List_size_wf by (auto simp: out_ok_def)
  have fd: "dconn_fd s x = Inr fd" by (rule view_conn(6) [OF v]) (simp add: conn_same_def)
  have eq: "postable_write_call_cb c s = (if length ms = 1 then rtor_reactor_post (put_dhandler h ?hdl s) postable_write_start_ptr h
      else Inr (put_dhandler h ?hdl s))"
    using view_conn(1,2,3,8,9) [OF v] fd wr m demo_message_dispose_ok [OF m(2)] sz
    by (simp add: postable_write_call_cb_def call_on_write_cb_def on_write_complete_cb_def wr_sent_def Let_def)
  obtain s' where "postable_write_call_cb c s = Inr s'" "view F h c fd s' ?hdl x p k (rd @ (if length ms = 1 then [post postable_write_start_ptr h] else []))"
    unfolding eq using view_post [OF v1] v1 room by (cases "length ms = 1") fastforce+
  then show ?thesis using out by (intro exI [of _ s'] exI [of _ ?hdl]) (simp add: out_ok_def)
qed

section \<open>Runs\<close>

lemmas demo_calls = demo_server_code_def demo_ptrs

text \<open>
  The states between the turns: a read is posted and nothing is being answered; a read is posted and
  the last reply has been sent; nothing is posted and the connection waits for the socket.
\<close>

definition quiet :: "string list list \<Rightarrow> demo_frame \<Rightarrow> addr \<Rightarrow> addr \<Rightarrow> int \<Rightarrow> frame option list \<Rightarrow> nat \<Rightarrow> string \<Rightarrow> demo_st \<Rightarrow> bool" where
  "quiet L F h c fd todo n sent s \<longleftrightarrow> (\<exists>hdl x p k cs bs. view F h c fd s hdl x p k [post demo_postable_reader_ptr c] \<and> rd_active x \<and>
     feeds L x p k cs bs \<and> out_ok hdl [] \<and> dh_active_response hdl = None \<and> wr_idle x \<and> sk_sends k = [] \<and> sk_out k = sent \<and>
     todo = reports (bs @ concat cs @ later L) (dp_abs p) \<and> n = length (bs @ concat cs))"

definition busy :: "string list list \<Rightarrow> demo_frame \<Rightarrow> addr \<Rightarrow> addr \<Rightarrow> int \<Rightarrow> frame option list \<Rightarrow> nat \<Rightarrow> string \<Rightarrow> demo_st \<Rightarrow> bool" where
  "busy L F h c fd todo n sent s \<longleftrightarrow> (\<exists>hdl x p k cs bs.
     view F h c fd s hdl x p k [post demo_postable_reader_ptr c, post postable_write_call_cb_ptr c] \<and> rd_active x \<and>
     feeds L x p k cs bs \<and> out_ok hdl [] \<and> responding hdl \<and> wr_sent x \<and> sk_sends k = [] \<and> sk_out k = sent \<and>
     todo = reports (bs @ concat cs @ later L) (dp_abs p) \<and> n = length (bs @ concat cs))"

definition waiting :: "string list list \<Rightarrow> frame option list \<Rightarrow> demo_frame \<Rightarrow> addr \<Rightarrow> addr \<Rightarrow> int \<Rightarrow> string \<Rightarrow> demo_st \<Rightarrow> bool" where
  "waiting L todo F h c fd sent s \<longleftrightarrow> (\<exists>hdl x p k. view F h c fd s hdl x p k [] \<and> rd_wait x \<and> awaits L x p k \<and> out_ok hdl [] \<and>
     dh_active_response hdl = None \<and> wr_idle x \<and> sk_sends k = [] \<and> sk_out k = sent \<and> todo = reports (later L) (dp_abs p))"

definition reply_of :: "frame option \<Rightarrow> string" where
  "reply_of f = (case f of None \<Rightarrow> [] | Some (q, body, l) \<Rightarrow> reply_wire body)"

lemma reply_wire_ne: "reply_wire body \<noteq> []"
  by (simp add: reply_wire_def)

lemma feeds_frame: "feeds L x p k cs bs \<Longrightarrow> dc_active_input_buffer_ref x' = dc_active_input_buffer_ref x \<Longrightarrow> sk_in k' = sk_in k \<Longrightarrow> feeds L x' p k' cs bs"
  by (simp add: feeds_def in_ok_def)

text \<open>Each step as a turn of the loop.\<close>

lemma read_start_turn:
  assumes v: "view F h c fd s hdl x p k (post handler_postable_read_start_ptr h # rd)" and "dc_read_state x = DC_READ_IDLE" and "length rd < 2040"
  shows "\<exists>s' x'. tick s s' \<and> view F h c fd s' hdl x' p k (rd @ [post demo_postable_reader_ptr c]) \<and>
     rd_active x' \<and> dc_active_input_buffer_ref x' = dc_active_input_buffer_ref x \<and> wr_fields x' = wr_fields x"
proof -
  obtain t where t: "view F h c fd t hdl x p k rd" and step: "\<forall>t' hdl' x' p' k' rd'. demo_server_code handler_postable_read_start_ptr h t = Inr t' \<and>
     view F h c fd t' hdl' x' p' k' rd' \<longrightarrow> (\<exists>s'. tick s s' \<and> view F h c fd s' hdl' x' p' k' rd')" using turn_start [OF v] by blast
  have "demo_server_code handler_postable_read_start_ptr h t = handler_postable_read_start h t" by (simp add: demo_calls)
  with read_start_step [OF t assms(2,3)] step show ?thesis by metis
qed

lemma write_start_turn:
  assumes v: "view F h c fd s hdl x p k (post postable_write_start_ptr h # rd)" and "out_ok hdl (m # ms)" and "echo_of body m" and "wr_idle x"
    and "dh_active_response hdl = None" and "length rd < 2040"
  shows "\<exists>s' hdl' x'. tick s s' \<and> view F h c fd s' hdl' x' p k (rd @ [post demo_postable_writer_ptr c]) \<and>
     out_ok hdl' ms \<and> responding hdl' \<and> wr_sending x' (reply_wire body) \<and> rd_fields x' = rd_fields x"
proof -
  obtain t where t: "view F h c fd t hdl x p k rd" and step: "\<forall>t' hdl' x' p' k' rd'. demo_server_code postable_write_start_ptr h t = Inr t' \<and>
     view F h c fd t' hdl' x' p' k' rd' \<longrightarrow> (\<exists>s'. tick s s' \<and> view F h c fd s' hdl' x' p' k' rd')" using turn_start [OF v] by blast
  have "demo_server_code postable_write_start_ptr h t = postable_write_start h t" by (simp add: demo_calls)
  with write_start_step [OF t assms(2-6)] step show ?thesis by metis
qed

lemma write_busy_turn:
  assumes v: "view F h c fd s hdl x p k (post postable_write_start_ptr h # rd)" and "responding hdl"
  shows "\<exists>s'. tick s s' \<and> view F h c fd s' hdl x p k rd"
proof -
  obtain t where t: "view F h c fd t hdl x p k rd" and step: "\<forall>t' hdl' x' p' k' rd'. demo_server_code postable_write_start_ptr h t = Inr t' \<and>
     view F h c fd t' hdl' x' p' k' rd' \<longrightarrow> (\<exists>s'. tick s s' \<and> view F h c fd s' hdl' x' p' k' rd')" using turn_start [OF v] by blast
  have "demo_server_code postable_write_start_ptr h t = postable_write_start h t" by (simp add: demo_calls)
  with write_start_busy [OF t assms(2)] step t show ?thesis by metis
qed

lemma writer_turn:
  assumes v: "view F h c fd s hdl x p k (post demo_postable_writer_ptr c # rd)" and "wr_sending x bs" and "bs \<noteq> []" and "sk_sends k = []" and "length rd < 2040"
  shows "\<exists>s' x'. tick s s' \<and> view F h c fd s' hdl x' p (k\<lparr>sk_out := sk_out k @ bs\<rparr>) (rd @ [post postable_write_call_cb_ptr c]) \<and>
     wr_sent x' \<and> rd_fields x' = rd_fields x"
proof -
  obtain t where t: "view F h c fd t hdl x p k rd" and step: "\<forall>t' hdl' x' p' k' rd'. demo_server_code demo_postable_writer_ptr c t = Inr t' \<and>
     view F h c fd t' hdl' x' p' k' rd' \<longrightarrow> (\<exists>s'. tick s s' \<and> view F h c fd s' hdl' x' p' k' rd')" using turn_start [OF v] by blast
  have "demo_server_code demo_postable_writer_ptr c t = demo_postable_writer c t" by (simp add: demo_calls)
  with writer_step [OF t assms(2-5)] step show ?thesis by metis
qed

lemma write_done_turn:
  assumes v: "view F h c fd s hdl x p k (post postable_write_call_cb_ptr c # rd)" and "wr_sent x" and "out_ok hdl ms" and "responding hdl" and "length rd < 2040"
  shows "\<exists>s' hdl'. tick s s' \<and> view F h c fd s' hdl' x p k (rd @ (if length ms = 1 then [post postable_write_start_ptr h] else [])) \<and>
     out_ok hdl' ms \<and> dh_active_response hdl' = None"
proof -
  obtain t where t: "view F h c fd t hdl x p k rd" and step: "\<forall>t' hdl' x' p' k' rd'. demo_server_code postable_write_call_cb_ptr c t = Inr t' \<and>
     view F h c fd t' hdl' x' p' k' rd' \<longrightarrow> (\<exists>s'. tick s s' \<and> view F h c fd s' hdl' x' p' k' rd')" using turn_start [OF v] by blast
  have "demo_server_code postable_write_call_cb_ptr c t = postable_write_call_cb c t" by (simp add: demo_calls)
  with write_done_step [OF t assms(2-5)] step show ?thesis by metis
qed

lemma reader_wait_turn:
  assumes v: "view F h c fd s hdl x p k (post demo_postable_reader_ptr c # rd)" and "rd_active x" and "feeds L x p k cs bs" and "bs @ concat cs = []"
  shows "\<exists>s' x'. tick s s' \<and> view F h c fd s' hdl x' p (k\<lparr>sk_in := tl (sk_in k)\<rparr>) rd \<and> rd_wait x' \<and>
     awaits L x' p (k\<lparr>sk_in := tl (sk_in k)\<rparr>) \<and> wr_fields x' = wr_fields x"
proof -
  obtain t where t: "view F h c fd t hdl x p k rd" and step: "\<forall>t' hdl' x' p' k' rd'. demo_server_code demo_postable_reader_ptr c t = Inr t' \<and>
     view F h c fd t' hdl' x' p' k' rd' \<longrightarrow> (\<exists>s'. tick s s' \<and> view F h c fd s' hdl' x' p' k' rd')" using turn_start [OF v] by blast
  have "demo_server_code demo_postable_reader_ptr c t = demo_postable_reader c t" by (simp add: demo_calls)
  with reader_waits [OF t assms(2-4)] step show ?thesis by metis
qed

lemma reader_turn:
  assumes v: "view F h c fd s hdl x p k (post demo_postable_reader_ptr c # rd)" and "rd_active x" and "out_ok hdl ms" and "length rd < 2040"
    and "feeds L x p k cs bs" and "bs @ concat cs \<noteq> []"
  shows "\<exists>s'. tick s s' \<and> read_some L F h c fd hdl x ms rd (reports (bs @ concat cs @ later L) (dp_abs p)) (length (bs @ concat cs)) k s'"
proof -
  obtain t where t: "view F h c fd t hdl x p k rd" and step: "\<forall>t' hdl' x' p' k' rd'. demo_server_code demo_postable_reader_ptr c t = Inr t' \<and>
     view F h c fd t' hdl' x' p' k' rd' \<longrightarrow> (\<exists>s'. tick s s' \<and> view F h c fd s' hdl' x' p' k' rd')" using turn_start [OF v] by blast
  have code: "demo_server_code demo_postable_reader_ptr c t = demo_postable_reader c t" by (simp add: demo_calls)
  obtain t' where t': "demo_postable_reader c t = Inr t'"
    "read_some L F h c fd hdl x ms rd (reports (bs @ concat cs @ later L) (dp_abs p)) (length (bs @ concat cs)) k t'"
    using reader_step [OF t assms(2-6)] by blast
  have "\<exists>s'. tick s s' \<and> view F h c fd s' hdl' x' p' k' rd'" if "view F h c fd t' hdl' x' p' k' rd'" for hdl' x' p' k' rd'
    using step that t'(1) code by metis
  with t'(2) show ?thesis unfolding read_some_def by (elim exE conjE disjE) metis+
qed

text \<open>From a queued reply to the state in which it has been sent.\<close>

lemma reply_turns:
  assumes v: "view F h c fd s hdl x p k (post postable_write_start_ptr h # post handler_postable_read_start_ptr h # ex)"
    and ex: "ex = [] \<or> ex = [post postable_write_start_ptr h]"
    and i: "dc_read_state x = DC_READ_IDLE" and f: "feeds L x p k cs bs" and out: "out_ok hdl [m]" and m: "echo_of body m"
    and a: "dh_active_response hdl = None" and w: "wr_idle x" and snd: "sk_sends k = []"
  shows "\<exists>s'. tick\<^sup>*\<^sup>* s s' \<and> busy L F h c fd (reports (bs @ concat cs @ later L) (dp_abs p)) (length (bs @ concat cs)) (sk_out k @ reply_wire body) s'"
proof -
  let ?w = "post demo_postable_writer_ptr c" and ?r = "post demo_postable_reader_ptr c" and ?k = "k\<lparr>sk_out := sk_out k @ reply_wire body\<rparr>"
  have lx: "length (post handler_postable_read_start_ptr h # ex) < 2040" "length (ex @ [?w]) < 2040" using ex by auto
  obtain s1 hdl1 x1 where t1: "tick s s1" "view F h c fd s1 hdl1 x1 p k (post handler_postable_read_start_ptr h # ex @ [?w])" "out_ok hdl1 []"
    "responding hdl1" "wr_sending x1 (reply_wire body)" "rd_fields x1 = rd_fields x"
    using write_start_turn [OF v out m w a lx(1)] by auto
  have i1: "dc_read_state x1 = DC_READ_IDLE" "dc_active_input_buffer_ref x1 = dc_active_input_buffer_ref x"
    using t1(6) i by (simp_all add: rd_fields_def)
  obtain s2 x2 where t2: "tick s1 s2" "view F h c fd s2 hdl1 x2 p k (ex @ [?w, ?r])" "rd_active x2"
    "dc_active_input_buffer_ref x2 = dc_active_input_buffer_ref x1" "wr_fields x2 = wr_fields x1"
    using read_start_turn [OF t1(2) i1(1) lx(2)] by auto
  have w2: "wr_sending x2 (reply_wire body)" using t1(5) t2(5) by (simp add: wr_sending_def wr_idle_def wr_fields_def)
  obtain s3 where t3: "tick\<^sup>*\<^sup>* s2 s3" "view F h c fd s3 hdl1 x2 p k [?w, ?r]"
    using ex t2(2) write_busy_turn [of F h c fd s2 hdl1 x2 p k "[?w, ?r]"] t1(4) by (cases "ex = []") auto
  obtain s4 x4 where t4: "tick s3 s4" "view F h c fd s4 hdl1 x4 p ?k [?r, post postable_write_call_cb_ptr c]" "wr_sent x4" "rd_fields x4 = rd_fields x2"
    using writer_turn [OF t3(2) w2 reply_wire_ne snd] by auto
  have "rd_active x4" "dc_active_input_buffer_ref x4 = dc_active_input_buffer_ref x"
    using t4(4) t2(3,4) i1(2) by (simp_all add: rd_fields_def rd_active_def)
  with feeds_frame [OF f] t4(2,3) t1(3,4) snd have
    "busy L F h c fd (reports (bs @ concat cs @ later L) (dp_abs p)) (length (bs @ concat cs)) (sk_out k @ reply_wire body) s4"
    unfolding busy_def by (intro exI [of _ hdl1] exI [of _ x4] exI [of _ p] exI [of _ ?k] exI [of _ cs] exI [of _ bs]) simp
  moreover have "tick\<^sup>*\<^sup>* s s4" using t1(1) t2(1) t3(1) t4(1) by (meson converse_rtranclp_into_rtranclp rtranclp.rtrancl_into_rtrancl)
  ultimately show ?thesis by blast
qed

text \<open>One read, from a state with nothing to answer and from one with a reply just sent.\<close>

lemma quiet_turn:
  assumes "quiet L F h c fd todo n sent s"
  shows "(\<exists>s'. tick\<^sup>*\<^sup>* s s' \<and> waiting L todo F h c fd sent s') \<or>
     (\<exists>s' n'. tick\<^sup>*\<^sup>* s s' \<and> n' < n \<and> quiet L F h c fd todo n' sent s') \<or>
     (\<exists>s' n' f todo'. tick\<^sup>*\<^sup>* s s' \<and> n' < n \<and> todo = f # todo' \<and> busy L F h c fd todo' n' (sent @ reply_of f) s')"
proof -
  from assms obtain hdl x p k cs bs where q: "view F h c fd s hdl x p k [post demo_postable_reader_ptr c]" "rd_active x"
    "feeds L x p k cs bs" "out_ok hdl []" "dh_active_response hdl = None" "wr_idle x" "sk_sends k = []" "sk_out k = sent"
    "todo = reports (bs @ concat cs @ later L) (dp_abs p)" "n = length (bs @ concat cs)" unfolding quiet_def by blast
  show ?thesis
  proof (cases "bs @ concat cs = []")
    case True
    from reader_wait_turn [OF q(1-3) True] obtain s' x' where
      "tick s s'" "view F h c fd s' hdl x' p (k\<lparr>sk_in := tl (sk_in k)\<rparr>) []" "rd_wait x'" "awaits L x' p (k\<lparr>sk_in := tl (sk_in k)\<rparr>)"
      "wr_fields x' = wr_fields x" by blast
    moreover have "todo = reports (later L) (dp_abs p)" using q(9) unfolding append_assoc [symmetric] True by simp
    ultimately have "tick\<^sup>*\<^sup>* s s' \<and> waiting L todo F h c fd sent s'"
      using q(4-8) unfolding waiting_def
      by (intro conjI r_into_rtranclp exI [of _ hdl] exI [of _ x'] exI [of _ p] exI [of _ "k\<lparr>sk_in := tl (sk_in k)\<rparr>"])
         (simp_all add: wr_idle_def wr_fields_def)
    then show ?thesis by blast
  next
    case False
    from reader_turn [OF q(1,2,4) _ q(3) False] obtain s1 where
      s1: "tick s s1" "read_some L F h c fd hdl x [] [] todo n k s1" using q(9,10) by auto
    from s1(2) obtain hdl' x' p' k' cs' bs' where r: "feeds L x' p' k' cs' bs'" "length (bs' @ concat cs') < n" "sk_out k' = sk_out k"
      "sk_sends k' = sk_sends k" "wr_fields x' = wr_fields x" "dh_active_response hdl' = dh_active_response hdl"
      and alt: "rd_active x' \<and> out_ok hdl' [] \<and> view F h c fd s1 hdl' x' p' k' [post demo_postable_reader_ptr c] \<and>
          todo = reports (bs' @ concat cs' @ later L) (dp_abs p') \<or>
        dc_read_state x' = DC_READ_IDLE \<and> (\<exists>q body l reply. out_ok hdl' [reply] \<and> echo_of body reply \<and>
          todo = Some (q, body, l) # reports (bs' @ concat cs' @ later L) (dp_abs p')) \<and>
          view F h c fd s1 hdl' x' p' k' [post postable_write_start_ptr h, post handler_postable_read_start_ptr h]"
      unfolding read_some_def append_Nil append_Cons if_P [OF refl] by blast
    have w: "wr_idle x'" using r(5) q(6) by (simp add: wr_idle_def wr_fields_def)
    from alt show ?thesis
    proof (elim disjE conjE exE)
      assume "rd_active x'" "out_ok hdl' []" "view F h c fd s1 hdl' x' p' k' [post demo_postable_reader_ptr c]"
        "todo = reports (bs' @ concat cs' @ later L) (dp_abs p')"
      then have "quiet L F h c fd todo (length (bs' @ concat cs')) sent s1" unfolding quiet_def using r q(5,7,8) w by metis
      then show ?thesis using s1(1) r(2) by blast
    next
      fix qq body l reply
      assume m: "dc_read_state x' = DC_READ_IDLE" "out_ok hdl' [reply]" "echo_of body reply"
        "todo = Some (qq, body, l) # reports (bs' @ concat cs' @ later L) (dp_abs p')"
        "view F h c fd s1 hdl' x' p' k' [post postable_write_start_ptr h, post handler_postable_read_start_ptr h]"
      from reply_turns [OF m(5) _ m(1) r(1) m(2,3) _ w] r(3,4,6) q(5,7,8) obtain s2 where
        "tick\<^sup>*\<^sup>* s1 s2" "busy L F h c fd (reports (bs' @ concat cs' @ later L) (dp_abs p')) (length (bs' @ concat cs')) (sent @ reply_wire body) s2" by auto
      then show ?thesis using s1(1) r(2) m(4) by (auto simp: reply_of_def intro: converse_rtranclp_into_rtranclp)
    qed
  qed
qed

lemma busy_turn:
  assumes "busy L F h c fd todo n sent s"
  shows "(\<exists>s'. tick\<^sup>*\<^sup>* s s' \<and> waiting L todo F h c fd sent s') \<or>
     (\<exists>s' n'. tick\<^sup>*\<^sup>* s s' \<and> n' < n \<and> quiet L F h c fd todo n' sent s') \<or>
     (\<exists>s' n' f todo'. tick\<^sup>*\<^sup>* s s' \<and> n' < n \<and> todo = f # todo' \<and> busy L F h c fd todo' n' (sent @ reply_of f) s')"
proof -
  let ?k = "post postable_write_call_cb_ptr c"
  from assms obtain hdl x p k cs bs where q: "view F h c fd s hdl x p k [post demo_postable_reader_ptr c, ?k]" "rd_active x"
    "feeds L x p k cs bs" "out_ok hdl []" "responding hdl" "wr_sent x" "sk_sends k = []" "sk_out k = sent"
    "todo = reports (bs @ concat cs @ later L) (dp_abs p)" "n = length (bs @ concat cs)" unfolding busy_def by blast
  have sent: "wr_sent x' \<and> wr_idle x'" if "wr_fields x' = wr_fields x" for x'
    using that q(6) by (simp add: wr_sent_def wr_idle_def wr_fields_def)
  show ?thesis
  proof (cases "bs @ concat cs = []")
    case True
    let ?k1 = "k\<lparr>sk_in := tl (sk_in k)\<rparr>"
    from reader_wait_turn [OF q(1-3) True] obtain s1 x1 where
      s1: "tick s s1" "view F h c fd s1 hdl x1 p ?k1 [?k]" "rd_wait x1" "awaits L x1 p ?k1" "wr_fields x1 = wr_fields x" by blast
    obtain s2 hdl2 where s2: "tick s1 s2" "view F h c fd s2 hdl2 x1 p ?k1 []" "out_ok hdl2 []" "dh_active_response hdl2 = None"
      using write_done_turn [OF s1(2) _ q(4,5)] sent [OF s1(5)] by auto
    have "todo = reports (later L) (dp_abs p)" using q(9) unfolding append_assoc [symmetric] True by simp
    moreover have "sk_sends ?k1 = []" "sk_out ?k1 = sent" using q(7,8) by simp_all
    ultimately have "waiting L todo F h c fd sent s2" unfolding waiting_def using s2 s1(3,4) sent [OF s1(5)] by metis
    then show ?thesis using s1(1) s2(1) by (metis converse_rtranclp_into_rtranclp rtranclp.rtrancl_refl)
  next
    case False
    from reader_turn [OF q(1,2,4) _ q(3) False] obtain s1 where
      s1: "tick s s1" "read_some L F h c fd hdl x [] [?k] todo n k s1" using q(9,10) by auto
    from s1(2) obtain hdl' x' p' k' cs' bs' where r: "feeds L x' p' k' cs' bs'" "length (bs' @ concat cs') < n" "sk_out k' = sk_out k"
      "sk_sends k' = sk_sends k" "wr_fields x' = wr_fields x" "dh_active_response hdl' = dh_active_response hdl"
      and alt: "rd_active x' \<and> out_ok hdl' [] \<and> view F h c fd s1 hdl' x' p' k' [?k, post demo_postable_reader_ptr c] \<and>
          todo = reports (bs' @ concat cs' @ later L) (dp_abs p') \<or>
        dc_read_state x' = DC_READ_IDLE \<and> (\<exists>q body l reply. out_ok hdl' [reply] \<and> echo_of body reply \<and>
          todo = Some (q, body, l) # reports (bs' @ concat cs' @ later L) (dp_abs p')) \<and>
          view F h c fd s1 hdl' x' p' k' [?k, post postable_write_start_ptr h, post handler_postable_read_start_ptr h]"
      unfolding read_some_def append_Nil append_Cons if_P [OF refl] by blast
    have w: "wr_sent x'" "wr_idle x'" "responding hdl'" using sent [OF r(5)] q(5) r(6) by (simp_all add: responding_def)
    from alt show ?thesis
    proof (elim disjE conjE exE)
      assume a: "rd_active x'" "out_ok hdl' []" "view F h c fd s1 hdl' x' p' k' [?k, post demo_postable_reader_ptr c]"
        "todo = reports (bs' @ concat cs' @ later L) (dp_abs p')"
      obtain s2 hdl2 where s2: "tick s1 s2" "view F h c fd s2 hdl2 x' p' k' [post demo_postable_reader_ptr c]" "out_ok hdl2 []"
        "dh_active_response hdl2 = None" using write_done_turn [OF a(3) w(1) a(2) w(3)] by auto
      have "quiet L F h c fd todo (length (bs' @ concat cs')) sent s2" unfolding quiet_def using s2 a r q(7,8) w by metis
      then show ?thesis using s1(1) s2(1) r(2) by (metis converse_rtranclp_into_rtranclp rtranclp.rtrancl_refl)
    next
      fix qq body l reply
      assume m: "dc_read_state x' = DC_READ_IDLE" "out_ok hdl' [reply]" "echo_of body reply"
        "todo = Some (qq, body, l) # reports (bs' @ concat cs' @ later L) (dp_abs p')"
        "view F h c fd s1 hdl' x' p' k' [?k, post postable_write_start_ptr h, post handler_postable_read_start_ptr h]"
      obtain s2 hdl2 where s2: "tick s1 s2"
        "view F h c fd s2 hdl2 x' p' k' [post postable_write_start_ptr h, post handler_postable_read_start_ptr h, post postable_write_start_ptr h]"
        "out_ok hdl2 [reply]" "dh_active_response hdl2 = None" using write_done_turn [OF m(5) w(1) m(2) w(3)] by auto
      from reply_turns [OF s2(2) _ m(1) r(1) s2(3) m(3) s2(4) w(2)] r(3,4) q(7,8) obtain s3 where
        s3: "tick\<^sup>*\<^sup>* s2 s3" "busy L F h c fd (reports (bs' @ concat cs' @ later L) (dp_abs p')) (length (bs' @ concat cs')) (sent @ reply_wire body) s3" by auto
      have "tick\<^sup>*\<^sup>* s s3" using s1(1) s2(1) s3(1) by (meson converse_rtranclp_into_rtranclp)
      then show ?thesis using s3(2) r(2) m(4) by (auto simp: reply_of_def)
    qed
  qed
qed

lemma session_turns:
  assumes "quiet L F h c fd todo n sent s \<or> busy L F h c fd todo n sent s"
  shows "\<exists>s' fs rest. tick\<^sup>*\<^sup>* s s' \<and> todo = fs @ rest \<and> waiting L rest F h c fd (sent @ concat (map reply_of fs)) s'"
  using assms
proof (induction n arbitrary: todo sent s rule: less_induct)
  case (less n)
  from less.prems have "(\<exists>s'. tick\<^sup>*\<^sup>* s s' \<and> waiting L todo F h c fd sent s') \<or>
     (\<exists>s' n'. tick\<^sup>*\<^sup>* s s' \<and> n' < n \<and> quiet L F h c fd todo n' sent s') \<or>
     (\<exists>s' n' f todo'. tick\<^sup>*\<^sup>* s s' \<and> n' < n \<and> todo = f # todo' \<and> busy L F h c fd todo' n' (sent @ reply_of f) s')"
    by (elim disjE) (rule quiet_turn, assumption, rule busy_turn, assumption)
  then show ?case
  proof (elim disjE exE conjE)
    fix s'
    assume "tick\<^sup>*\<^sup>* s s'" "waiting L todo F h c fd sent s'"
    then show ?thesis by (intro exI [of _ s'] exI [of _ "[]"] exI [of _ todo]) simp
  next
    fix s' n'
    assume "tick\<^sup>*\<^sup>* s s'" "n' < n" "quiet L F h c fd todo n' sent s'"
    with less.IH show ?thesis by (meson rtranclp_trans)
  next
    fix s' n' f todo'
    assume a: "tick\<^sup>*\<^sup>* s s'" "n' < n" "todo = f # todo'" "busy L F h c fd todo' n' (sent @ reply_of f) s'"
    with less.IH [OF a(2), of todo' "sent @ reply_of f" s'] obtain s2 fs rest where
      "tick\<^sup>*\<^sup>* s' s2" "todo' = fs @ rest" "waiting L rest F h c fd (sent @ concat (map reply_of (f # fs))) s2" by auto
    with a(1,3) show ?thesis by (intro exI [of _ s2] exI [of _ "f # fs"] exI [of _ rest]) auto
  qed
qed

section \<open>From the start of the server\<close>

text \<open>
  The server with its listening socket and the handlers in its list, as far as the work on requests leaves it.
\<close>

definition serving :: "int \<Rightarrow> addr list \<Rightarrow> demo_frame \<Rightarrow> bool" where
  "serving lfd hs F \<longleftrightarrow> fr_itq F = None \<and> fr_itq_watcher F = None \<and> \<not> fr_closed_flag F \<and> fr_tag F = DemoServer_TAG \<and>
     fr_listening_socket_fd F = lfd \<and> w_fd (fr_listening_watcher_ref F) = lfd \<and> w_tag (fr_listening_watcher_ref F) = WListenerFd_TAG \<and>
     ft_view (fr_table F) lfd \<noteq> None \<and> k_open (fr_kernel F) (fr_epoll_fd F) \<and> fr_epoll_fd F \<noteq> lfd \<and>
     List_wf (fr_handler_list F) \<and> List_items (fr_handler_list F) = hs \<and> l_dealloc (fr_handler_list F) = NullingDealloc"

abbreviation same_reactor :: "demo_st \<Rightarrow> demo_st \<Rightarrow> bool" where
  "same_reactor s s' \<equiv> r_itq_watcher s' = r_itq_watcher s \<and> r_epoll_fd s' = r_epoll_fd s \<and> r_closed_flag s' = r_closed_flag s"

lemma register_frame:
  "rtor_reactor_register s fd interest w = Inr s' \<Longrightarrow> same_reactor s s'"
  "rtor_stream_register st s = Inr s' \<Longrightarrow> same_reactor s s'"
  "rtor_stream_arm_both st f c s = Inr (st', s') \<Longrightarrow> same_reactor s s'"
  by (auto simp: rtor_stream_register_def rtor_stream_arm_both_def stream_rearm_def rtor_reactor_register_def
      rtor_reactor_reregister_def rtor_epoll_ctl_def rbind_eq_Inr Let_def split: prod.splits)

lemma new_frame: "rtor_reactor_new epoll_fd k a = Inr s \<Longrightarrow> r_itq_watcher s = None \<and> r_epoll_fd s = epoll_fd \<and> \<not> r_closed_flag s"
  by (auto simp: rtor_reactor_new_def rtor_reactor_init_def rbind_eq_Inr)

text \<open>A new connection: read state active, its reader posted, nothing received or sent yet.\<close>

text \<open>The stream through which the reactor reports the events of the socket to the connection.\<close>

definition wired :: "demo_frame \<Rightarrow> addr \<Rightarrow> int \<Rightarrow> bool" where
  "wired F c fd \<longleftrightarrow> (\<exists>a st. ft_view (fr_table F) fd = Some a \<and> a \<noteq> w_ref (fr_listening_watcher_ref F) \<and> fr_streams F a = Some st \<and>
     st_context st = Some (Some c) \<and> st_both_handler st = Some (Some demo_event_handler_ptr) \<and> st_read_evhandler st = None \<and>
     st_write_evhandler st = None)"

lemma demohandler_new_quiet:
  assumes wf: "Reactor_wf s" and rd: "ready s = []" and fd: "fd_ok fd" "ft_view (r_table s) fd = None" "k_open (r_kernel s) fd"
    and k: "ds_socks (r_app s) fd = \<lparr>sk_in = map Recv_bytes cs @ blocks L, sk_sends = [], sk_out = []\<rparr>" "[] \<notin> set (cs @ concat L)"
    and cl: "clean (concat cs @ later L) (STATE_IDLE, False, [], [])"
    and srv: "serving lfd hs (frame_of s)" and fresh: "w_ref (ds_listening_watcher_ref (r_app s)) < ds_fresh (r_app s)"
  shows "\<exists>s' h c. demohandler_new fd cb sref s = Inr (h, s') \<and> serving lfd hs (frame_of s') \<and>
     fr_handler_list (frame_of s') = ds_handler_list (r_app s) \<and> ft_view (fr_table (frame_of s')) fd \<noteq> None \<and>
     (\<forall>d. d \<noteq> fd \<longrightarrow> ft_view (fr_table (frame_of s')) d = ft_view (r_table s) d) \<and> fr_epoll_fd (frame_of s') = r_epoll_fd s \<and> wired (frame_of s') c fd \<and>
     quiet L (frame_of s') h c fd (reports (concat cs @ later L) (STATE_IDLE, False, [], [])) (length (concat cs)) [] s'"
proof -
  define h where "h = ds_fresh (r_app s)"
  define hdl where "hdl = \<lparr>dh_tag = DemoHandler_TAG, dh_raw_socket = fd, dh_demo_connection_ref = None,
                 dh_completion_callback = Some cb, dh_server_ref = sref,
                 dh_input_list = List_new NoDealloc, dh_output_list = List_new NoDealloc, dh_active_response = None\<rparr>"
  define x where "x = \<lparr>dc_tag = DemoConnection_TAG, dc_socket_stream_ref = Some (Suc (Suc h)), dc_handler_ref = h,
               dc_active_input_buffer_ref = None, dc_active_output_buffer_ref = None,
               dc_read_state = DC_READ_IDLE, dc_write_state = DC_WRITE_IDLE, dc_on_read_cb = None, dc_on_write_cb = None,
               dc_on_close_cb = Some connection_completion_cb_ptr, dc_cleanup_done_flag = False,
               dc_readside_posted = False, dc_writeside_posted = False\<rparr>"
  define st where "st = (rtor_stream_new (Suc (Suc h)) fd)\<lparr>st_context := Some (Some (Suc h)), st_both_arg := Some (Some (Suc h))\<rparr>"
  define u0 where "u0 = snd (demo_new_addr s)"
  define u1 where "u1 = snd (demo_new_addr (put_dhandler h hdl u0))"
  define u2 where "u2 = snd (demo_new_addr u1)"
  define t where "t = put_dparser (Suc h) (DemoParser_new ()) (put_dconn (Suc h) x u2)"
  note us = u0_def u1_def u2_def put_dparser_def put_dconn_def put_dhandler_def put_dstream_def demo_new_addr_def
  have u: "demo_new_addr s = (h, u0)" "demo_new_addr (put_dhandler h hdl u0) = (Suc h, u1)" "demo_new_addr u1 = (Suc (Suc h), u2)"
    by (simp_all add: us h_def)
  have t: "Reactor_wf t" "ft_view (r_table t) fd = None" "k_open (r_kernel t) fd" "r_ready_list t = r_ready_list s"
    using wf fd by (simp_all add: t_def us)
  have st: "w_tag st = WIoFd_TAG" "w_fd st = fd" "w_ref st = Suc (Suc h)" "st_event_mask st = 0"
    by (simp_all add: st_def rtor_stream_new_def rtor_stream_init_def)
  from stream_open [OF t(1) fd(1) t(2,3) st, of demo_event_handler_ptr "Suc h"] obtain s3 s4 m where
    s4: "rtor_stream_register st t = Inr s3" "rtor_stream_arm_both st (Some demo_event_handler_ptr) (Some (Suc h)) s3 =
       Inr (st\<lparr>st_event_mask := m, st_both_handler := Some (Some demo_event_handler_ptr), st_both_arg := Some (Some (Suc h))\<rparr>, s4)"
    "Reactor_wf s4" "r_ready_list s4 = r_ready_list t" "r_app s4 = r_app t" "ft_view (r_table s4) = (ft_view (r_table t))(fd \<mapsto> Suc (Suc h))"
    "k_open (r_kernel s4) = k_open (r_kernel t)" "r_itq s4 = r_itq t" by blast
  define st1 where "st1 = st\<lparr>st_event_mask := m, st_both_handler := Some (Some demo_event_handler_ptr), st_both_arg := Some (Some (Suc h))\<rparr>"
  let ?hdl = "hdl\<lparr>dh_demo_connection_ref := Some (Suc h)\<rparr>"
  let ?s5 = "put_dhandler h ?hdl (put_dstream (Suc (Suc h)) st1 s4)"
  define F where "F = frame_of (put_dstream (Suc (Suc h)) st1 s4)"
  let ?k = "\<lparr>sk_in = map Recv_bytes cs @ blocks L, sk_sends = [], sk_out = []\<rparr>"
  have v: "view F h (Suc h) fd ?s5 ?hdl x (DemoParser_new ()) ?k []"
    using s4(3-5) t(4) rd k(1) st(1,2) unfolding view_def frame_put F_def [symmetric]
    by (simp add: t_def us hdl_def x_def st1_def)
  have conn: "democonnection_new fd h connection_completion_cb_ptr (put_dhandler h hdl u0) = Inr (Suc h, put_dstream (Suc (Suc h)) st1 s4)"
    unfolding democonnection_new_def democonnection_init_def u Let_def prod.case st_def [symmetric] x_def [symmetric] t_def [symmetric]
    using s4(1,2) by (simp add: st1_def)
  obtain s6 x' where s6: "handler_postable_read_start h ?s5 = Inr s6"
    "view F h (Suc h) fd s6 ?hdl x' (DemoParser_new ()) ?k [post demo_postable_reader_ptr (Suc h)]" "rd_active x'"
    "dc_active_input_buffer_ref x' = None" "wr_fields x' = wr_fields x"
    using read_start_step [OF v] by (fastforce simp: x_def)
  have F: "frame_of s6 = F" using s6(2) by (simp add: view_def)
  have rs: "handler_postable_read_start h ?s5 = democonnection_read (Suc h) demo_handle_request_ptr ?s5"
    using view_conn(3) [OF v] by (simp add: handler_postable_read_start_def)
  have "demohandler_new fd cb sref s = Inr (h, s6)"
    unfolding demohandler_new_def demohandler_init_def u Let_def prod.case hdl_def [symmetric] conn rbind_Inr
    using s6(1) rs by simp
  moreover have "quiet L F h (Suc h) fd (reports (concat cs @ later L) (STATE_IDLE, False, [], [])) (length (concat cs)) [] s6"
  proof -
    have p: "dp_abs (DemoParser_new ()) = (STATE_IDLE, False, [], [])" "dp_ok (DemoParser_new ())"
      by (simp_all add: dp_ok_def dp_abs_def dp_wf_def DemoParser_new_def dp_with_def demo_abs_def)
    have "feeds L x' (DemoParser_new ()) ?k cs []" using p cl k(2) s6(4) by (simp add: feeds_def in_ok_def)
    moreover have "out_ok ?hdl []" "dh_active_response ?hdl = None"
      by (simp_all add: out_ok_def hdl_def List_new_wf List_new_items)
    moreover have "wr_idle x'" using s6(5) by (simp add: wr_idle_def wr_fields_def x_def)
    ultimately show ?thesis using s6(2,3) p(1) unfolding quiet_def
      by (intro exI [of _ ?hdl] exI [of _ x'] exI [of _ "DemoParser_new ()"] exI [of _ ?k] exI [of _ cs] exI [of _ "[]"]) simp
  qed
  moreover have "fr_handler_list F = ds_handler_list (r_app s)" "fr_epoll_fd F = r_epoll_fd s" "ft_view (fr_table F) = (ft_view (r_table s))(fd \<mapsto> Suc (Suc h))"
    using s4(5,6) register_frame(2) [OF s4(1)] register_frame(3) [OF s4(2)] by (simp_all add: F_def frame_of_def t_def us)
  moreover have "wired F (Suc h) fd"
    using s4(5,6) fresh by (simp add: wired_def F_def frame_of_def t_def us h_def st1_def st_def rtor_stream_new_def rtor_stream_init_def)
  moreover have "serving lfd hs F"
    using srv s4(5-8) register_frame(2) [OF s4(1)] register_frame(3) [OF s4(2)] by (simp add: serving_def F_def frame_of_def t_def us)
  ultimately show ?thesis unfolding F [symmetric] by (intro exI [of _ s6] exI [of _ h] exI [of _ "Suc h"]) simp
qed

lemma demo_server_starts:
  assumes "epoll_fd \<noteq> - 1" and "fd_ok lfd" and "k_open k lfd" and "k_open k epoll_fd" and "epoll_fd \<noteq> lfd"
  shows "\<exists>s0 s. DemoServer_new sref port (Inr lfd) epoll_fd k socks = Inr s0 \<and> DemoServer_listen s0 = Inr s \<and> Reactor_wf s \<and> ready s = [] \<and>
     ft_view (r_table s) = [lfd \<mapsto> Suc sref] \<and> ds_socks (r_app s) = socks \<and> ds_tag (r_app s) = DemoServer_TAG \<and> ds_ref (r_app s) = sref \<and>
     ds_handler_list (r_app s) = List_new NullingDealloc \<and>
     ds_listening_watcher_ref (r_app s) = listener_set (rtor_listener_new (Suc sref) lfd) (Some demo_on_event_listening_ptr) (Some sref) \<and>
     serving lfd [] (frame_of s) \<and> r_epoll_fd s = epoll_fd \<and> ds_fresh (r_app s) = Suc (Suc sref)"
proof -
  define a where "a = \<lparr>ds_tag = DemoServer_TAG, ds_ref = sref, ds_port = port, ds_listening_socket_fd = lfd,
        ds_listening_watcher_ref = rtor_listener_new (Suc sref) lfd, ds_handler_list = List_new NullingDealloc,
        ds_handlers = Map.empty, ds_conns = Map.empty, ds_streams = Map.empty, ds_parsers = Map.empty,
        ds_fresh = Suc (Suc sref), ds_socks = socks\<rparr>"
  from rtor_reactor_new_wf [OF assms(1), of k a] obtain s0 where s0: "rtor_reactor_new epoll_fd k a = Inr s0"
    "Reactor_wf s0" "ready s0 = []" "ft_view (r_table s0) = Map.empty" "k_open (r_kernel s0) = k_open k" "r_app s0 = a" "r_itq s0 = None" by blast
  define lw where "lw = listener_set (rtor_listener_new (Suc sref) lfd) (Some demo_on_event_listening_ptr) (Some sref)"
  have lw: "w_fd lw = lfd" "w_ref lw = Suc sref" "w_tag lw = WListenerFd_TAG" "ls_evhandler lw = Some demo_on_event_listening_ptr"
    "ls_arg lw = Some sref"
    by (simp_all add: lw_def listener_set_def rtor_listener_new_def rtor_listener_init_def)
  from rtor_reactor_register_ok [OF s0(2) assms(2), of "EPOLLIN OR EPOLLEXCLUSIVE" "Suc sref"] s0(4,5,7) assms(3)
  obtain s1 where s1: "rtor_reactor_register s0 lfd (EPOLLIN OR EPOLLEXCLUSIVE) (Suc sref) = Inr s1" "Reactor_wf s1"
    "ft_view (r_table s1) = [lfd \<mapsto> Suc sref]" "r_ready_list s1 = r_ready_list s0" "k_open (r_kernel s1) = k_open k" "r_itq s1 = None" by auto
  have app: "r_app s1 = a" using rtor_reactor_register_app [OF s1(1)] s0(6) by simp
  have "rtor_listener_register (rtor_listener_new (Suc sref) lfd) (Some demo_on_event_listening_ptr) (Some sref) s0 = Inr (lw, s1)"
    using s1(1) lw unfolding rtor_listener_register_def lw_def [symmetric]
    by (simp add: rtor_listener_verify_def rtor_listener_new_def rtor_listener_init_def)
  then have "DemoServer_listen s0 = Inr (s1\<lparr>r_app := a\<lparr>ds_listening_watcher_ref := lw\<rparr>\<rparr>)"
    unfolding DemoServer_listen_def by (simp add: s0(6) app a_def)
  moreover have "serving lfd [] (frame_of (s1\<lparr>r_app := a\<lparr>ds_listening_watcher_ref := lw\<rparr>\<rparr>))" "r_epoll_fd s1 = epoll_fd"
    using register_frame(1) [OF s1(1)] new_frame [OF s0(1)] s1(3,5,6) assms(4,5) lw
    by (simp_all add: serving_def frame_of_def a_def List_new_wf List_new_items) (simp add: List_new_def List_init_def)
  moreover have "DemoServer_new sref port (Inr lfd) epoll_fd k socks = Inr s0"
    using s0(1) assms(3) by (simp add: DemoServer_new_def set_non_blocking_def a_def)
  ultimately show ?thesis using s0(3) s1(2-4) lw by (auto simp: a_def lw_def)
qed

text \<open>The event of the listening socket, as the reactor dispatches it.\<close>

lemma demo_accept_quiet:
  assumes "Reactor_wf s" and "ready s = []" and fd: "0 < fd" "fd_ok fd" "ft_view (r_table s) fd = None"
    and srv: "serving lfd hs (frame_of s)"
    and lw: "ls_evhandler (ds_listening_watcher_ref (r_app s)) = Some demo_on_event_listening_ptr"
      "ls_arg (ds_listening_watcher_ref (r_app s)) = Some (ds_ref (r_app s))"
    and k: "ds_socks (r_app s) fd = \<lparr>sk_in = map Recv_bytes cs @ blocks L, sk_sends = [], sk_out = []\<rparr>" "[] \<notin> set (cs @ concat L)"
    and cl: "clean (concat cs @ later L) (STATE_IDLE, False, [], [])"
    and fresh: "w_ref (ds_listening_watcher_ref (r_app s)) < ds_fresh (r_app s)"
  shows "\<exists>s' h c. demo_server_handlers fd (w_ref (ds_listening_watcher_ref (r_app s))) EPOLLIN s = Inr s' \<and> Reactor_wf s' \<and>
     serving lfd (hs @ [h]) (frame_of s') \<and> ft_view (fr_table (frame_of s')) fd \<noteq> None \<and>
     (\<forall>d. d \<noteq> fd \<longrightarrow> ft_view (fr_table (frame_of s')) d = ft_view (r_table s) d) \<and> fr_epoll_fd (frame_of s') = r_epoll_fd s \<and> wired (frame_of s') c fd \<and>
     quiet L (frame_of s') h c fd (reports (concat cs @ later L) (STATE_IDLE, False, [], [])) (length (concat cs)) [] s'"
proof -
  let ?s = "s\<lparr>r_kernel := sys_accept (r_kernel s) fd\<rparr>"
  have s: "Reactor_wf ?s" "ready ?s = []" "ft_view (r_table ?s) fd = None" "k_open (r_kernel ?s) fd"
    "ds_socks (r_app ?s) fd = \<lparr>sk_in = map Recv_bytes cs @ blocks L, sk_sends = [], sk_out = []\<rparr>" "serving lfd hs (frame_of ?s)"
    using assms(1,2) fd k srv by (simp_all add: Reactor_wf_def sys_accept_def serving_def frame_of_def)
  from demohandler_new_quiet [OF s(1,2) fd(2) s(3-5) k(2) cl s(6), of demo_on_handler_completion_cb_ptr "ds_ref (r_app s)"] fresh obtain s1 h c where
    s1: "demohandler_new fd demo_on_handler_completion_cb_ptr (ds_ref (r_app s)) ?s = Inr (h, s1)" "serving lfd hs (frame_of s1)"
    "quiet L (frame_of s1) h c fd (reports (concat cs @ later L) (STATE_IDLE, False, [], [])) (length (concat cs)) [] s1"
    "ft_view (fr_table (frame_of s1)) fd \<noteq> None" "\<forall>d. d \<noteq> fd \<longrightarrow> ft_view (fr_table (frame_of s1)) d = ft_view (r_table s) d"
    "fr_epoll_fd (frame_of s1) = r_epoll_fd s" "ds_handler_list (r_app s1) = ds_handler_list (r_app s)" "wired (frame_of s1) c fd" by (auto simp: frame_of_def)
  from srv have l0: "List_wf (ds_handler_list (r_app s))" "List_items (ds_handler_list (r_app s)) = hs" "ds_tag (r_app s) = DemoServer_TAG"
    "l_dealloc (ds_handler_list (r_app s)) = NullingDealloc" by (simp_all add: serving_def frame_of_def)
  then obtain l where l: "List_add_back (ds_handler_list (r_app s)) h = Inr l" "List_wf l" "List_items l = hs @ [h]" "l_dealloc l = NullingDealloc"
    using List_add_back_wf by metis
  let ?s' = "s1\<lparr>r_app := (r_app s1)\<lparr>ds_handler_list := l\<rparr>\<rparr>"
  have "demo_server_handlers fd (w_ref (ds_listening_watcher_ref (r_app s))) EPOLLIN s = Inr ?s'"
    using fd(1) l0(3) lw s1(1,7) l(1)
    by (simp add: demo_server_handlers_def listener_handler_def demo_on_event_listening_def)
  moreover have "quiet L (frame_of ?s') h c fd (reports (concat cs @ later L) (STATE_IDLE, False, [], [])) (length (concat cs)) [] ?s'"
    using s1(3) unfolding quiet_def view_def by (elim exE conjE) (simp, blast)
  moreover have "Reactor_wf ?s'" using s1(3) by (auto simp: quiet_def view_def)
  moreover have "serving lfd (hs @ [h]) (frame_of ?s')" using s1(2) l(2-4) by (simp add: serving_def frame_of_def)
  ultimately show ?thesis using s1(4-6,8) by (intro exI [of _ ?s'] exI [of _ h] exI [of _ c]) (simp add: frame_of_def wired_def)
qed

lemma waiting_sent: "waiting L todo F h c fd sent s \<Longrightarrow> ready s = [] \<and> Reactor_wf s \<and> sk_out (ds_socks (r_app s) fd) = sent \<and> frame_of s = F"
  by (auto simp: waiting_def view_def)

lemma waiting_done: "waiting [] todo F h c fd sent s \<Longrightarrow> todo = []"
  by (auto simp: waiting_def reports_def dp_abs_def demo_abs_def)

lemma quiet_run:
  assumes "quiet L F h c fd todo n sent s"
  shows "\<exists>fuel ran s' fs rest. run_ready demo_server_code fuel s = Inr (ran, s') \<and> todo = fs @ rest \<and>
     waiting L rest F h c fd (sent @ concat (map reply_of fs)) s'"
proof -
  obtain s' fs rest where "tick\<^sup>*\<^sup>* s s'" "todo = fs @ rest" "waiting L rest F h c fd (sent @ concat (map reply_of fs)) s'"
    using session_turns [of L F h c fd todo n sent s] assms by blast
  with turns_run [of s s'] waiting_sent show ?thesis by metis
qed

text \<open>The next batch: the event of the socket restarts the reader.\<close>

lemma ev64_bit: "(ucast ev :: 64 word) AND ev64 e \<noteq> 0" if "ev AND e \<noteq> 0" for ev e :: "32 word"
proof
  assume "(ucast ev :: 64 word) AND ev64 e = 0"
  then have "(ucast (ev AND e) :: 64 word) = 0" by (simp add: unsigned_and_eq)
  then have "unsigned (ucast (ev AND e) :: 64 word) = (0 :: nat)" by simp
  then show False using that by (simp add: unsigned_ucast_eq unsigned_take_bit_eq [symmetric] unsigned_eq_0_iff take_bit_word_eq_self)
qed

lemma event_restarts:
  assumes w: "waiting (b # L) todo F h c fd sent s" and st: "wired F c fd" and ev: "ev AND EPOLLIN \<noteq> 0"
  shows "\<exists>s'. dispatch_events (demo_server_handlers sock2) [(fd, ev)] s = Inr s' \<and> quiet L F h c fd todo (length (concat b)) sent s'"
proof -
  from w obtain hdl x p k where v: "view F h c fd s hdl x p k []" and x: "rd_wait x" "feeds L x p k b []" "out_ok hdl []"
    "dh_active_response hdl = None" "wr_idle x" "sk_sends k = []" "sk_out k = sent" "todo = reports (concat b @ later L) (dp_abs p)"
    by (auto simp: waiting_def awaits_def)
  let ?x1 = "x\<lparr>dc_read_state := DC_READ_ACTIVE\<rparr>" and ?x2 = "x\<lparr>dc_read_state := DC_READ_ACTIVE, dc_readside_posted := True\<rparr>"
  have v1: "view F h c fd (put_dconn c ?x1 s) hdl ?x1 p k []" by (rule view_put(1) [OF v]) (simp add: conn_same_def)
  have v2: "view F h c fd (put_dconn c ?x2 (put_dconn c ?x1 s)) hdl ?x2 p k []" by (rule view_put(1) [OF v1]) (simp add: conn_same_def)
  obtain s' where s': "post_to_reactor c demo_postable_reader_ptr (put_dconn c ?x2 (put_dconn c ?x1 s)) = Inr s'"
    "view F h c fd s' hdl ?x2 p k [post demo_postable_reader_ptr c]" using view_post_conn [OF v2] by fastforce
  have rd: "demo_read_epollin c s = Inr s'"
    using view_conn(2) [OF v] view_conn(2) [OF v1] x(1) s'(1) by (simp add: demo_read_epollin_def demo_read_start_def rd_wait_def)
  have wr: "demo_write_epollout c s = Inr s" using view_conn(2) [OF v] x(5) by (simp add: demo_write_epollout_def wr_idle_def dc_states)
  from st obtain a z where z: "ft_view (r_table s) fd = Some a" "a \<noteq> w_ref (ds_listening_watcher_ref (r_app s))"
    "ds_streams (r_app s) a = Some z" "st_context z = Some (Some c)" "st_both_handler z = Some (Some demo_event_handler_ptr)"
    "st_read_evhandler z = None" "st_write_evhandler z = None" using v by (auto simp: wired_def view_def frame_of_def)
  have "demo_event_handler z (ucast ev) s = Inr s'"
    using z(4) view_conn(2) [OF v] wr rd ev64_bit [OF ev] by (simp add: demo_event_handler_def)
  then have "demo_server_handlers sock2 a ev s = Inr s'"
    using z by (simp add: demo_server_handlers_def stream_handler_def h_get_def Let_def)
  then have "dispatch_events (demo_server_handlers sock2) [(fd, ev)] s = Inr s'"
    using v s'(2) z(1) fdt.look_some [of "r_table s" fd a] by (simp add: dispatch_events_def dispatch_event_def view_def Reactor_wf_def)
  moreover have "rd_active ?x2" "wr_idle ?x2" "feeds L ?x2 p k b []"
    using x(1,2,5) by (simp_all add: rd_wait_def rd_active_def wr_idle_def feeds_def in_ok_def)
  then have "quiet L F h c fd todo (length (concat b)) sent s'"
    unfolding quiet_def using s'(2) x(3,4,6-8)
    by (intro exI [of _ hdl] exI [of _ ?x2] exI [of _ p] exI [of _ k] exI [of _ b] exI [of _ "[]"]) simp
  ultimately show ?thesis by blast
qed

lemma run_ready_more: "run_ready code n s = Inr r \<Longrightarrow> n \<le> m \<Longrightarrow> run_ready code m s = Inr r"
proof (induction n arbitrary: m s r)
  case (Suc n)
  obtain m' where m: "m = Suc m'" "n \<le> m'" using Suc.prems(2) by (cases m) auto
  from Suc.prems(1) obtain sz where a: "rtor_check s = Inr ()" "functor_list_size (r_ready_list s) = Inr sz" by (auto simp: rbind_eq_Inr)
  show ?case
  proof (cases "sz = 0")
    case True
    then show ?thesis using Suc.prems(1) a m(1) by simp
  next
    case False
    with Suc.prems(1) a obtain f l r1 sz2 where
      "functor_list_remove (r_ready_list s) = Inr (f, l)" "Functor_call code f (s\<lparr>r_ready_list := l, r_runloop_executing := True\<rparr>) = Inr r1"
      "rtor_check (r1\<lparr>r_runloop_executing := False\<rparr>) = Inr ()" "functor_list_size (r_ready_list r1) = Inr sz2"
      by (auto simp: rbind_eq_Inr Let_def)
    with Suc.prems(1) a False Suc.IH [OF _ m(2)] show ?thesis by (auto simp: m(1) Let_def rbind_eq_Inr split: if_splits)
  qed
qed simp

lemma demo_head_waits:
  assumes "Reactor_wf s" and "ready s = []" and "serving lfd hs (frame_of s)"
  shows "run_head s = Inr (False, s)"
proof -
  have "ft_wf (r_table s)" using assms(1) by (simp add: Reactor_wf_def)
  moreover have "ft_count (r_table s) \<noteq> 0" "r_itq s = None"
    using table_nonempty [OF assms(1), of lfd] assms(3) by (simp_all add: serving_def frame_of_def)
  ultimately show ?thesis using assms(1,2) by (simp add: run_head_def FdTable_size_def ready_size)
qed

text \<open>All batches, each with the event that announces it.\<close>

lemma batches_run:
  assumes "waiting L todo F h c fd sent s" and "wired F c fd" and "serving lfd hs F" and "length evs = length L"
    and "\<forall>ev \<in> set evs. ev AND EPOLLIN \<noteq> 0"
  shows "\<exists>n s'. waiting [] [] F h c fd (sent @ concat (map reply_of todo)) s' \<and> (\<forall>m \<ge> n.
     rtor_reactor_run (demo_server_handlers sock2) demo_server_code m (map (\<lambda>ev. Wait_events [(fd, ev)]) evs) s = Inr (Run_waiting s'))"
  using assms
proof (induction L arbitrary: evs todo sent s)
  case Nil
  have "run_head s = Inr (False, s)" using demo_head_waits waiting_sent [OF Nil.prems(1)] Nil.prems(3) by blast
  then show ?case using Nil.prems(1,4) waiting_done [OF Nil.prems(1)] by (intro exI [of _ 0] exI [of _ s]) simp
next
  case (Cons b L)
  from Cons.prems(4) obtain ev evs' where evs: "evs = ev # evs'" by (cases evs) auto
  have ev: "ev AND EPOLLIN \<noteq> 0" using Cons.prems(5) evs by simp
  obtain s1 where s1: "dispatch_events (demo_server_handlers sock2) [(fd, ev)] s = Inr s1" "quiet L F h c fd todo (length (concat b)) sent s1"
    using event_restarts [OF Cons.prems(1,2) ev] by blast
  obtain n1 ran s2 fs rest where s2: "run_ready demo_server_code n1 s1 = Inr (ran, s2)" "todo = fs @ rest"
    "waiting L rest F h c fd (sent @ concat (map reply_of fs)) s2" using quiet_run [OF s1(2)] by blast
  from Cons.IH [OF s2(3) Cons.prems(2,3), of evs'] Cons.prems(4,5) evs obtain n s' where
    s': "waiting [] [] F h c fd (sent @ concat (map reply_of todo)) s'"
      "\<forall>m \<ge> n. rtor_reactor_run (demo_server_handlers sock2) demo_server_code m (map (\<lambda>ev. Wait_events [(fd, ev)]) evs') s2 = Inr (Run_waiting s')"
    using s2(2) by auto
  have hd: "run_head s = Inr (False, s)" using demo_head_waits waiting_sent [OF Cons.prems(1)] Cons.prems(3) by blast
  have "rtor_reactor_run (demo_server_handlers sock2) demo_server_code m (map (\<lambda>ev. Wait_events [(fd, ev)]) evs) s = Inr (Run_waiting s')"
    if "max n n1 \<le> m" for m
    using that hd s1(1) run_ready_more [OF s2(1), of m] s'(2) by (simp add: evs)
  then show ?case using s'(1) by blast
qed

lemma stream_reports:
  assumes "\<forall>(g, f) \<in> set gfs. CH_SOH \<notin> set g \<and> list_all isprint (fst (snd f))" and "CH_SOH \<notin> set end_bytes"
  shows "clean (concat (map (\<lambda>(g, f). g @ frame_bytes f) gfs) @ end_bytes) (STATE_IDLE, False, [], []) \<and>
     reports (concat (map (\<lambda>(g, f). g @ frame_bytes f) gfs) @ end_bytes) (STATE_IDLE, False, [], []) = map (Some \<circ> snd) gfs"
  using stream_run [OF assms(1), of "[]"] idle_skips [OF assms(2)] by (simp add: clean_append reports_def)

lemma replies_of_frames: "concat (map reply_of (map (Some \<circ> snd) gfs)) = concat (map (\<lambda>(g, (q, body, l)). frame_bytes (False, body, CHR ''L'') @ [CH_EOT]) gfs)"
  by (induction gfs) (auto simp: reply_of_def reply_wire_def simp del: frame_bytes.simps)

section \<open>Shutting down\<close>

lemma List_destroy_empty: "List_wf l \<Longrightarrow> List_items l = [] \<Longrightarrow> \<exists>l'. List_destroy l = Inr l'"
  by (erule List_wfE) (cases "l_fresh l"; auto simp: List_destroy_def List_inv_def)

lemma IOBuffer_dispose_ok: "iob_wf b \<Longrightarrow> IOBuffer_dispose b = Inr None"
  by (simp add: IOBuffer_dispose_def IOBuffer_destroy_def iob_wf_check)

lemma DemoParser_dispose_ok: "dp_ok p \<Longrightarrow> DemoParser_dispose p = Inr None"
  by (auto simp: dp_ok_def dp_wf_def DemoParser_dispose_def DemoParser_free_def DP_CHECK_def demo_message_dispose_ok split: option.splits)

text \<open>A handler whose connection waits for data is released whole; its descriptor is closed, if it is not already.\<close>

lemma handler_released:
  assumes w: "waiting [] todo F h c fd sent s"
  shows "\<exists>s'. demohandler_anonymous_dispose h (s\<lparr>r_table := t, r_kernel := k\<rparr>) = Inr s' \<and>
     r_kernel s' = snd (sys_close (snd (sys_close k fd)) fd)"
proof -
  let ?s = "s\<lparr>r_table := t, r_kernel := k\<rparr>"
  from w obtain hdl x p sk where v: "view F h c fd s hdl x p sk []" and f: "feeds [] x p sk [] []" and out: "out_ok hdl []" and wr: "wr_idle x"
    unfolding waiting_def awaits_def by auto
  from v obtain a st where st: "dc_socket_stream_ref x = Some a" "ds_streams (r_app s) a = Some st" "w_fd st = fd" "w_tag st = WIoFd_TAG"
    and il: "dh_input_list hdl = List_new NoDealloc" and p: "ds_parsers (r_app s) c = Some p"
    and x: "ds_conns (r_app s) c = Some x" "dc_tag x = DemoConnection_TAG"
    and h: "ds_handlers (r_app s) h = Some hdl" "dh_tag hdl = DemoHandler_TAG" "dh_demo_connection_ref hdl = Some c" by (auto simp: view_def)
  have inb: "(case dc_active_input_buffer_ref x of None \<Rightarrow> Inr None | Some b \<Rightarrow> IOBuffer_dispose b) = Inr None"
    using f IOBuffer_dispose_ok by (auto simp: feeds_def in_ok_def split: option.splits)
  have pd: "DemoParser_dispose p = Inr None" using f DemoParser_dispose_ok [of p] by (simp add: feeds_def)
  obtain l1 l2 where l: "List_dispose (dh_input_list hdl) = Inr l1" "List_dispose (dh_output_list hdl) = Inr l2"
    using List_destroy_empty [of "dh_input_list hdl"] List_destroy_empty [of "dh_output_list hdl"] out il
    by (auto simp: List_dispose_def out_ok_def List_new_wf List_new_items)
  have "democonnection_free c ?s = Inr (?s\<lparr>r_kernel := snd (sys_close (snd (sys_close k fd)) fd),
      r_app := (r_app s)\<lparr>ds_streams := (ds_streams (r_app s))(a := None), ds_parsers := (ds_parsers (r_app s))(c := None),
        ds_conns := (ds_conns (r_app s))(c := None)\<rparr>\<rparr>)"
    using st x p pd inb wr
    by (simp add: democonnection_free_def check_dconn_def get_dconn_def h_get_def rtor_stream_free_def wr_idle_def)
  then show ?thesis using h l by (auto simp: demohandler_anonymous_dispose_def demohandler_free_def get_dhandler_def h_get_def)
qed

lemma demo_server_released:
  assumes w: "waiting [] todo F h c fd sent s" and srv: "serving lfd [h] F" and reg: "ft_view (fr_table F) fd \<noteq> None"
    and last: "ft_view (fr_table F) (int RTOR_FDTABLE_MAX - 1) = None"
  shows "\<exists>k. DemoServer_free s = Inr k \<and>
     (\<forall>d. k_open k d \<longleftrightarrow> k_open (r_kernel s) d \<and> d \<noteq> r_epoll_fd s \<and> ft_view (r_table s) d = None)"
proof -
  have wf: "Reactor_wf s" and F: "F = frame_of s" using waiting_sent [OF w] by simp_all
  let ?lw = "ds_listening_watcher_ref (r_app s)" and ?l = "ds_handler_list (r_app s)"
  have s: "r_itq_watcher s = None" "\<not> r_closed_flag s" "ds_tag (r_app s) = DemoServer_TAG" "ds_listening_socket_fd (r_app s) = lfd"
    "w_fd ?lw = lfd" "w_tag ?lw = WListenerFd_TAG" "k_open (r_kernel s) (r_epoll_fd s)"
    "List_wf ?l" "List_items ?l = [h]" "l_dealloc ?l = NullingDealloc" and lfd: "ft_view (r_table s) lfd \<noteq> None"
    using srv by (simp_all add: serving_def F frame_of_def)
  from lfd obtain lw where "ft_view (r_table s) lfd = Some lw" by blast
  from rtor_reactor_deregister_ok [OF wf this] obtain s1 where s1: "rtor_reactor_deregister s lfd = Inr s1" "Reactor_wf s1"
    "ft_view (r_table s1) = (ft_view (r_table s))(lfd := None)" "k_interest (r_kernel s1) = (k_interest (r_kernel s))(lfd := None)"
    "k_open (r_kernel s1) = k_open (r_kernel s)" by blast
  have keep: "same_reactor s s1" "r_app s1 = r_app s" "s1 = s\<lparr>r_table := r_table s1, r_kernel := r_kernel s1\<rparr>"
    using s1(1) by (auto simp: rtor_reactor_deregister_def rtor_epoll_ctl_def rbind_eq_Inr Let_def split: prod.splits)
  define k2 where "k2 = snd (sys_close (snd (sys_close (r_kernel s1) lfd)) lfd)"
  have k2: "k_open k2 = (k_open (r_kernel s))(lfd := False)" "k_interest k2 = (k_interest (r_kernel s))(lfd := None)"
    using s1(4,5) by (auto simp: k2_def sys_close_def fun_eq_iff)
  let ?s2 = "s1\<lparr>r_kernel := k2\<rparr>"
  have wf2: "Reactor_wf ?s2" using s1(2-5) k2 unfolding Reactor_wf_def by auto
  have epoll: "k_open (r_kernel ?s2) (r_epoll_fd ?s2)" using k2(1) s(7) keep(1) srv by (simp add: serving_def F frame_of_def)
  have "ft_view (r_table ?s2) (int RTOR_FDTABLE_MAX - 1) = None" using last s1(3) by (simp add: F frame_of_def)
  from rtor_reactor_free_ok [OF wf2 epoll this] s(1,2) keep(1) obtain k3 where k3: "rtor_reactor_free ?s2 = Inr k3"
    "\<forall>d. k_open k3 d \<longleftrightarrow> k_open k2 d \<and> d \<noteq> r_epoll_fd s \<and> ft_view (r_table s1) d = None" by auto
  obtain l where l: "List_dispose ?l = Inr l" "l_freed l = l_freed ?l @ [h]"
    using List_destroy_releases [OF s(8,10)] s(9) by (auto simp: List_dispose_def)
  have "?s2\<lparr>r_kernel := k3\<rparr> = s\<lparr>r_table := r_table s1, r_kernel := k3\<rparr>" by (subst keep(3)) simp
  from handler_released [OF w, where t = "r_table s1" and k = k3] obtain s3 where
    s3: "demohandler_anonymous_dispose h (?s2\<lparr>r_kernel := k3\<rparr>) = Inr s3" "r_kernel s3 = snd (sys_close (snd (sys_close k3 fd)) fd)"
    unfolding \<open>?s2\<lparr>r_kernel := k3\<rparr> = _\<close> [symmetric] by blast
  have lfree: "rtor_listener_deregister ?lw s = Inr s1" "rtor_listener_free ?lw (r_kernel s1) = Inr (snd (sys_close (r_kernel s1) lfd))"
    using s(5,6) s1(1) by (simp_all add: rtor_listener_deregister_def rtor_listener_free_def rtor_listener_verify_def)
  have "DemoServer_free s = Inr (r_kernel s3)"
    unfolding DemoServer_free_def lfree rbind_Inr s(4) Let_def k2_def [symmetric] k3(1)
    using s(3) l s3(1) by simp
  moreover have "k_open (r_kernel s3) d \<longleftrightarrow> k_open (r_kernel s) d \<and> d \<noteq> r_epoll_fd s \<and> ft_view (r_table s) d = None" for d
    using k3(2) k2(1) s1(3) lfd reg by (auto simp: s3(2) sys_close_def F frame_of_def)
  ultimately show ?thesis by blast
qed

section \<open>The demonstration program\<close>

text \<open>
  \<open>main\<close> on what \<open>epoll_wait\<close> returns, up to where it waits for events or ends; \<open>sock2\<close> is the descriptor that
  \<open>accept\<close> returns, \<open>n\<close> bounds the loop over the ready list.
\<close>

definition demo_program ::
  "int \<Rightarrow> nat \<Rightarrow> wait_outcome list \<Rightarrow> addr \<Rightarrow> int res \<Rightarrow> int \<Rightarrow> kernel \<Rightarrow> (int \<Rightarrow> demo_sock) \<Rightarrow> DemoServer run_result res" where
  "demo_program sock2 n outs sref listener_socket epoll_fd k socks =
     rbind (DemoServer_new sref 9011 listener_socket epoll_fd k socks) (\<lambda>s0.
     rbind (DemoServer_listen s0) (\<lambda>s1.
     rbind (rtor_reactor_run (demo_server_handlers sock2) demo_server_code n outs s1) (\<lambda>r.
     case r of
       Run_waiting s2 \<Rightarrow> Inr (Run_waiting s2)
     | Run_returned result s2 \<Rightarrow> rbind (DemoServer_dispose s2) (\<lambda>_. Inr (Run_returned result s2)))))"

text \<open>The signal handler: \<open>None\<close> when it returns, the kernel that is left when it ends the program.\<close>

definition demo_sig_handler :: "int \<Rightarrow> demo_st option \<Rightarrow> kernel option res" where
  "demo_sig_handler signo g_sref =
     (if signo = SIGINT \<or> signo = SIGABRT then
        rbind (c_deref g_sref) (\<lambda>s. rbind (DemoServer_free s) (\<lambda>k. Inr (Some k)))
      else Inr None)"

text \<open>
  C11: The demonstration program answers every request on a connection and can be ended.  \<open>main\<close> creates
  the server and runs the reactor; one client connects and sends any sequence of well-formed frames,
  with any bytes other than SOH between them, cut into pieces in any way; the pieces arrive in batches, and
  after each batch \<open>recv\<close> would block until an event of the socket announces the next one.  Each call
  of \<open>send\<close> takes the whole reply (what happens otherwise is \<open>demo_short_send_asserts\<close>).  Then, for some
  bound of the loop over the ready list, the reactor is back at
  \<open>epoll_wait\<close> after the last batch without an assertion, with nothing posted any more, and the client has been sent
  exactly one response per frame, in the order of the frames, with the body of its frame.  An interrupt
  now ends the program without using anything released, and the listening socket, the socket of
  the client and the epoll instance are closed.
\<close>

theorem demo_server_echoes:
  assumes "epoll_fd \<noteq> - 1" and "fd_ok lfd" and "k_open k lfd" and "k_open k epoll_fd" and "epoll_fd \<noteq> lfd"
    and "0 < fd" and "fd_ok fd" and "fd \<noteq> lfd" and "{fd, lfd} \<inter> {int RTOR_FDTABLE_MAX - 1} = {}"
    and "socks fd = \<lparr>sk_in = map Recv_bytes first @ concat (map (\<lambda>batch. Recv_again # map Recv_bytes batch) batches), sk_sends = [], sk_out = []\<rparr>"
    and "[] \<notin> set (first @ concat batches)" and "length evs = length batches" and "\<forall>ev \<in> set evs. ev AND EPOLLIN \<noteq> 0"
    and "\<forall>(g, f) \<in> set gfs. CH_SOH \<notin> set g \<and> list_all isprint (fst (snd f))" and "CH_SOH \<notin> set end_bytes"
    and "concat (first @ concat batches) = concat (map (\<lambda>(g, f). g @ frame_bytes f) gfs) @ end_bytes"
  shows "\<exists>n s k'. demo_program fd n (Wait_events [(lfd, EPOLLIN)] # map (\<lambda>ev. Wait_events [(fd, ev)]) evs) sref (Inr lfd) epoll_fd k socks =
       Inr (Run_waiting s) \<and> ready s = [] \<and>
     sk_out (ds_socks (r_app s) fd) = concat (map (\<lambda>(g, (q, body, l)). frame_bytes (False, body, CHR ''L'') @ [CH_EOT]) gfs) \<and>
     demo_sig_handler SIGINT (Some s) = Inr (Some k') \<and> \<not> k_open k' lfd \<and> \<not> k_open k' fd \<and> \<not> k_open k' epoll_fd"
proof -
  obtain s0 s1 where s1: "DemoServer_new sref 9011 (Inr lfd) epoll_fd k socks = Inr s0" "DemoServer_listen s0 = Inr s1" "Reactor_wf s1"
    "ready s1 = []" "ft_view (r_table s1) = [lfd \<mapsto> Suc sref]" "ds_socks (r_app s1) = socks" "ds_ref (r_app s1) = sref"
    "ds_listening_watcher_ref (r_app s1) = listener_set (rtor_listener_new (Suc sref) lfd) (Some demo_on_event_listening_ptr) (Some sref)"
    "serving lfd [] (frame_of s1)" "r_epoll_fd s1 = epoll_fd" "ds_fresh (r_app s1) = Suc (Suc sref)"
    using demo_server_starts [OF assms(1-5)] by blast
  have lw: "w_ref (ds_listening_watcher_ref (r_app s1)) = Suc sref" "ls_evhandler (ds_listening_watcher_ref (r_app s1)) = Some demo_on_event_listening_ptr"
    "ls_arg (ds_listening_watcher_ref (r_app s1)) = Some (ds_ref (r_app s1))"
    using s1(7,8) by (simp_all add: listener_set_def rtor_listener_new_def rtor_listener_init_def)
  have all: "concat first @ later batches = concat (first @ concat batches)" by (simp add: later_def)
  have cl: "clean (concat first @ later batches) (STATE_IDLE, False, [], [])"
    "reports (concat first @ later batches) (STATE_IDLE, False, [], []) = map (Some \<circ> snd) gfs"
    unfolding all assms(16) using stream_reports [OF assms(14,15)] by blast+
  have fr: "ft_view (r_table s1) fd = None"
    "ds_socks (r_app s1) fd = \<lparr>sk_in = map Recv_bytes first @ blocks batches, sk_sends = [], sk_out = []\<rparr>"
    using s1(5,6) assms(8,10) by (simp_all add: blocks_def)
  obtain s2 h c where s2: "demo_server_handlers fd (Suc sref) EPOLLIN s1 = Inr s2" "Reactor_wf s2" "serving lfd [h] (frame_of s2)"
    "ft_view (fr_table (frame_of s2)) fd \<noteq> None" "\<forall>d. d \<noteq> fd \<longrightarrow> ft_view (fr_table (frame_of s2)) d = ft_view (r_table s1) d"
    "fr_epoll_fd (frame_of s2) = epoll_fd" "wired (frame_of s2) c fd"
    "quiet batches (frame_of s2) h c fd (map (Some \<circ> snd) gfs) (length (concat first)) [] s2"
    using demo_accept_quiet [OF s1(3,4) assms(6,7) fr(1) s1(9) lw(2,3) fr(2) assms(11) cl(1)] lw(1) cl(2) s1(10,11) by auto
  from quiet_run [OF s2(8)] obtain n1 ran s3 fs rest where s3: "run_ready demo_server_code n1 s2 = Inr (ran, s3)"
    "map (Some \<circ> snd) gfs = fs @ rest" "waiting batches rest (frame_of s2) h c fd (concat (map reply_of fs)) s3" by auto
  obtain n2 s where s: "waiting [] [] (frame_of s2) h c fd (concat (map reply_of fs) @ concat (map reply_of rest)) s"
    "\<forall>m \<ge> n2. rtor_reactor_run (demo_server_handlers fd) demo_server_code m (map (\<lambda>ev. Wait_events [(fd, ev)]) evs) s3 = Inr (Run_waiting s)"
    using batches_run [OF s3(3) s2(7,3) assms(12,13)] by blast
  have replies: "concat (map reply_of fs) @ concat (map reply_of rest) =
      concat (map (\<lambda>(g, (q, body, l)). frame_bytes (False, body, CHR ''L'') @ [CH_EOT]) gfs)"
    unfolding replies_of_frames [symmetric] s3(2) by simp
  note w = waiting_sent [OF s(1)]
  have ev: "dispatch_events (demo_server_handlers fd) [(lfd, EPOLLIN)] s1 = Inr s2"
    using s1(3,5) s2(1,2) fdt.look_some [of "r_table s1" lfd "Suc sref"] by (simp add: dispatch_events_def dispatch_event_def Reactor_wf_def)
  have "run_ready demo_server_code (max n1 n2) s2 = Inr (ran, s3)" using run_ready_more [OF s3(1)] by simp
  then have run: "demo_program fd (max n1 n2) (Wait_events [(lfd, EPOLLIN)] # map (\<lambda>ev. Wait_events [(fd, ev)]) evs) sref (Inr lfd) epoll_fd k socks =
      Inr (Run_waiting s)"
    using s1(1,2) ev s(2) demo_head_waits [OF s1(3,4,9)] by (simp add: demo_program_def)
  have "ft_view (fr_table (frame_of s2)) (int RTOR_FDTABLE_MAX - 1) = None" using s2(5) s1(5) assms(9) by auto
  from demo_server_released [OF s(1) s2(3,4) this] obtain k' where
    k': "DemoServer_free s = Inr k'" "\<forall>d. k_open k' d \<longleftrightarrow> k_open (r_kernel s) d \<and> d \<noteq> r_epoll_fd s \<and> ft_view (r_table s) d = None" by blast
  have "r_epoll_fd s = epoll_fd" "ft_view (r_table s) = ft_view (fr_table (frame_of s2))" using w s2(6) by (auto simp: frame_of_def)
  with k' s2(3,4) have "demo_sig_handler SIGINT (Some s) = Inr (Some k')" "\<not> k_open k' lfd" "\<not> k_open k' fd" "\<not> k_open k' epoll_fd"
    by (simp_all add: demo_sig_handler_def serving_def)
  with run w replies show ?thesis by auto
qed

text \<open>Two requests; the first is there when the connection is accepted, up to its opcode, the rest comes later.\<close>

definition two_requests :: "recv_result list" where
  "two_requests = [Recv_bytes [CH_SOH, CHR ''Q''], Recv_again, Recv_bytes (CH_STX # ''ab''), Recv_bytes [CH_ETX, CHR ''L'', CH_EOT],
     Recv_again, Recv_bytes [CH_SOH, CHR ''Q'', CH_STX, CH_ETX, CHR ''L'']]"

theorem demo_server_echoes_witness:
  "\<exists>n s k'. demo_program 7 n [Wait_events [(5, EPOLLIN)], Wait_events [(7, EPOLLIN)], Wait_events [(7, EPOLLIN OR EPOLLOUT)]] 100 (Inr 5) 3
       \<lparr>k_open = (\<lambda>fd. fd = 5 \<or> fd = 3), k_interest = Map.empty\<rparr> (\<lambda>_. \<lparr>sk_in = two_requests, sk_sends = [], sk_out = []\<rparr>) = Inr (Run_waiting s) \<and>
     sk_out (ds_socks (r_app s) 7) = frame_bytes (False, ''ab'', CHR ''L'') @ [CH_EOT] @ frame_bytes (False, [], CHR ''L'') @ [CH_EOT] \<and>
     demo_sig_handler SIGINT (Some s) = Inr (Some k') \<and> \<not> k_open k' 5 \<and> \<not> k_open k' 7 \<and> \<not> k_open k' 3"
  using demo_server_echoes [of 3 5 "\<lparr>k_open = (\<lambda>fd. fd = 5 \<or> fd = 3), k_interest = Map.empty\<rparr>" 7
      "\<lambda>_. \<lparr>sk_in = two_requests, sk_sends = [], sk_out = []\<rparr>" "[[CH_SOH, CHR ''Q'']]"
      "[[CH_STX # ''ab'', [CH_ETX, CHR ''L'', CH_EOT]], [[CH_SOH, CHR ''Q'', CH_STX, CH_ETX, CHR ''L'']]]" "[EPOLLIN, EPOLLIN OR EPOLLOUT]"
      "[([], (True, ''ab'', CHR ''L'')), ([CH_EOT], (True, [], CHR ''L''))]" "[]" 100]
  by (simp add: two_requests_def fd_ok_def RTOR_FDTABLE_MAX_def RTOR_MAX_FDS_def isprint_def CH_SOH_def CH_EOT_def CH_STX_def CH_ETX_def
      EPOLLIN_def EPOLLOUT_def) blast

section \<open>Where a connection fails\<close>

lemma short_send_step:
  assumes v: "view F h c fd s hdl x p k rd" and wr: "wr_sending x bs" and n: "sk_sends k = n # ns" "0 < n" "n < int (length bs)"
    and room: "length rd < 2040"
  shows "\<exists>s' x'. demo_postable_writer c s = Inr s' \<and>
     view F h c fd s' hdl x' p (k\<lparr>sk_sends := ns, sk_out := sk_out k @ take (nat n) bs\<rparr>) (rd @ [post demo_postable_writer_ptr c]) \<and>
     dc_write_state x' = DC_WRITE_ACTIVE \<and> dc_active_output_buffer_ref x' \<noteq> None"
proof -
  from wr obtain b where b: "dc_active_output_buffer_ref x = Some b" "iob_wf b" "iob_content b = bs"
    and w: "dc_write_state x = DC_WRITE_IDLE" by (auto simp: wr_sending_def wr_idle_def)
  let ?k = "k\<lparr>sk_sends := ns, sk_out := sk_out k @ take (nat n) bs\<rparr>"
  have send: "sys_send bs k = (n, ?k)" using n by (simp add: sys_send_def)
  have "int (length bs) = iob_remaining b" using iob_content_length [OF b(2)] b(2,3) by (simp add: iob_wf_def)
  then obtain b1 where b1: "IOBuffer_consume b n = Inr b1" "iob_wf b1" "iob_content b1 = drop (nat n) bs"
    using IOBuffer_consume_ok [OF b(2), of n] b(3) n by auto
  let ?x = "x\<lparr>dc_write_state := DC_WRITE_ACTIVE, dc_active_output_buffer_ref := Some b1\<rparr>"
  have d: "IOBuffer_data_len b1 = Inr (int (length bs) - n)" using iob_data_len [OF b1(2)] b1(3) n by simp
  have v1: "view F h c fd (put_sock fd ?k s) hdl x p ?k rd" by (rule view_put(4) [OF v])
  have v2: "view F h c fd (put_dconn c ?x (put_sock fd ?k s)) hdl ?x p ?k rd" by (rule view_put(1) [OF v1]) (simp add: conn_same_def)
  obtain s' where s': "post_to_reactor c demo_postable_writer_ptr (put_dconn c ?x (put_sock fd ?k s)) = Inr s'"
    "view F h c fd s' hdl ?x p ?k (rd @ [post demo_postable_writer_ptr c])" using view_post_conn [OF v2] room by fastforce
  have fd: "dconn_fd s x = Inr fd" by (rule view_conn(6) [OF v]) (simp add: conn_same_def)
  have "demo_writer c s = Inr s'"
    using view_conn(2,5) [OF v] b iob_bytes_ok [OF b(2)] fd send b1(1) d s'(1) n w by (simp add: demo_writer_def)
  then have "demo_postable_writer c s = Inr s'" using view_conn(2) [OF v] b(1) w by (simp add: demo_postable_writer_def dc_states)
  then show ?thesis using s'(2) by (intro exI [of _ s'] exI [of _ ?x]) simp
qed

text \<open>
  C36: A reply that \<open>send\<close> does not take in one piece stops the server: \<open>writer\<close> sets the state to active
  and posts \<open>postable_writer\<close> again for the rest, and \<open>postable_writer\<close> asserts that the state is idle.
\<close>

theorem demo_short_send_asserts:
  assumes "view F h c fd s hdl x p k rd" and "wr_sending x bs" and "sk_sends k = n # ns" and "0 < n" and "n < int (length bs)"
    and "length rd < 2040"
  shows "\<exists>s'. demo_postable_writer c s = Inr s' \<and> sk_out (ds_socks (r_app s') fd) = sk_out k @ take (nat n) bs \<and>
     ready s' = rd @ [\<lparr>fn_f = demo_postable_writer_ptr, fn_arg = c\<rparr>] \<and>
     demo_server_code demo_postable_writer_ptr c s' = Inl Assertion"
proof -
  obtain s' x' where s': "demo_postable_writer c s = Inr s'"
    "view F h c fd s' hdl x' p (k\<lparr>sk_sends := ns, sk_out := sk_out k @ take (nat n) bs\<rparr>) (rd @ [post demo_postable_writer_ptr c])"
    "dc_write_state x' = DC_WRITE_ACTIVE" "dc_active_output_buffer_ref x' \<noteq> None" using short_send_step [OF assms] by blast
  have "demo_server_code demo_postable_writer_ptr c s' = Inl Assertion"
    using view_conn(2) [OF s'(2)] s'(3,4) by (simp add: demo_calls demo_postable_writer_def dc_states c_assert_def)
  moreover have "ready s' = rd @ [post demo_postable_writer_ptr c]" "sk_out (ds_socks (r_app s') fd) = sk_out k @ take (nat n) bs"
    using s'(2) by (simp_all add: view_def)
  ultimately show ?thesis using s'(1) by blast
qed

text \<open>
  The same after a full socket buffer: the event that reports room again makes the state active,
  and the posted writer asserts.
\<close>

theorem demo_full_buffer_asserts:
  assumes v: "view F h c fd s hdl x p k rd" and "dc_write_state x = DC_WRITE_EAGAINED" and "dc_active_output_buffer_ref x \<noteq> None"
    and "st_context st = Some (Some c)" and "length rd < 2040"
  shows "\<exists>s'. demo_event_handler st (ev64 EPOLLOUT) s = Inr s' \<and> ready s' = rd @ [\<lparr>fn_f = demo_postable_writer_ptr, fn_arg = c\<rparr>] \<and>
     demo_server_code demo_postable_writer_ptr c s' = Inl Assertion"
proof -
  let ?x = "x\<lparr>dc_write_state := DC_WRITE_ACTIVE, dc_writeside_posted := True\<rparr>"
  have v1: "view F h c fd (put_dconn c ?x s) hdl ?x p k rd" by (rule view_put(1) [OF v]) (simp add: conn_same_def)
  obtain s' where s': "post_to_reactor c demo_postable_writer_ptr (put_dconn c ?x s) = Inr s'"
    "view F h c fd s' hdl ?x p k (rd @ [post demo_postable_writer_ptr c])" using view_post_conn [OF v1] assms(5) by fastforce
  have "ev64 EPOLLOUT AND ev64 EPOLLOUT \<noteq> 0" "ev64 EPOLLOUT AND ev64 EPOLLIN = 0" by (simp_all add: stream_masks)
  then have "demo_event_handler st (ev64 EPOLLOUT) s = Inr s'"
    using assms(2,4) view_conn(2) [OF v] s'(1) by (simp add: demo_event_handler_def demo_write_epollout_def)
  moreover have "demo_server_code demo_postable_writer_ptr c s' = Inl Assertion"
    using view_conn(2) [OF s'(2)] assms(3) by (simp add: demo_calls demo_postable_writer_def dc_states c_assert_def)
  ultimately show ?thesis using s'(2) by (auto simp: view_def)
qed

text \<open>
  Bytes that cannot be parsed: those before the last one complete no frame and leave the automaton in
  error recovery (it got there by a byte that does not fit, and no SOH came after it), and
  \<open>error_recovery\<close> reports this at the last byte of the buffer.
\<close>

definition unparsable :: "string \<Rightarrow> automaton \<Rightarrow> bool" where
  "unparsable bs a \<longleftrightarrow> bs \<noteq> [] \<and> reports (butlast bs) a = [] \<and> fst (fold (astep False) (butlast bs) a) = STATE_ERROR_RECOVERY"

lemma unparsable_Cons:
  "ch' \<noteq> [] \<Longrightarrow> unparsable (ch # ch') a \<longleftrightarrow> unparsable ch' (astep False ch a)"
  by (simp add: unparsable_def reports_def)

lemma unparsable_silent: "unparsable bs (add_out o1 a) \<Longrightarrow> o1 = []"
  by (simp add: unparsable_def reports_add_out)

lemma consume_loop_unparsable:
  fixes p :: "unit DemoParser"
  assumes "dp_ok p" and "unparsable bs (dp_abs p)"
  shows "\<exists>p' :: unit DemoParser. dp_ok p' \<and> consume_loop cb bs i (dp_with s p) =
     rbind (cb s None DemoParserErr_expected_stx) (\<lambda>s'. Inr (DemoParserErr_expected_stx, i + length bs, dp_with s' p'))"
  using assms
proof (induction bs arbitrary: i p)
  case Nil
  then show ?case by (simp add: unparsable_def)
next
  case (Cons ch chs)
  show ?case
  proof (cases "chs = []")
    case True
    let ?p = "p\<lparr>dp_current_message_ptr := Some demo_message_new\<rparr>"
    have st: "dp_state p = STATE_ERROR_RECOVERY" using Cons.prems(2) True by (simp add: unparsable_def dp_abs_fst)
    have "demo_message_dispose (dp_current_message_ptr p) = Inr None"
      using Cons.prems(1) demo_message_dispose_ok st by (auto simp: dp_ok_def dp_wf_def)
    then have "consume_loop cb (ch # chs) i (dp_with s p) =
        rbind (cb s None DemoParserErr_expected_stx) (\<lambda>s'. Inr (DemoParserErr_expected_stx, i + 1, dp_with s' ?p))"
      using True st by (simp add: consume_byte_def rbind_assoc) (simp add: dp_with_def)
    moreover have "dp_ok ?p" using Cons.prems(1) demo_message_new_wf by (simp add: dp_ok_def dp_wf_def dp_with_def)
    ultimately show ?thesis using True by (intro exI [of _ ?p]) simp
  next
    case False
    have un: "unparsable chs (astep False ch (dp_abs p))" using Cons.prems(2) unparsable_Cons [OF False] by simp
    from consume_byte_refines [of "dp_with [] p" False ch] Cons.prems(1) obtain p1 r where
      p1: "consume_byte demo_record False ch (dp_with [] p) = Inr (p1, r)" "dp_wf p1" "demo_abs p1 = astep False ch (dp_abs p)"
      by (auto simp: dp_ok_def dp_abs_def)
    have "unparsable chs (add_out (map demo_frame (dp_on_read_ctx p1)) (dp_abs p1))" using un p1(3) dp_abs_log [OF refl, of p1] by simp
    from unparsable_silent [OF this] have "dp_on_read_ctx p1 = []" by simp
    then have c: "consume_byte cb False ch (dp_with s p) = Inr (dp_with s p1, None)" and a: "dp_abs p1 = astep False ch (dp_abs p)"
      using consume_byte_any [OF p1(1), of cb s] p1(3) dp_abs_log [of p1 "[]"] by (auto, cases "dp_abs p1", simp)
    from Cons.IH [of "dp_with () p1" "i + 1"] un a dp_ok_of_wf [OF p1(2)] show ?thesis using False c by simp
  qed
qed

lemma recovery_parse:
  assumes v: "view F h c fd s hdl x p k rd" and act: "rd_active x" and p: "dp_ok p" and b: "iob_wf b" "unparsable (iob_content b) (dp_abs p)"
  shows "\<exists>s' x' p'. demo_parse c b s = Inr (DemoParserErr_expected_stx, s') \<and> view F h c fd s' hdl x' p' k rd \<and>
     dc_read_state x' = DC_READ_IDLE \<and> dc_on_read_cb x' = None \<and> wr_fields x' = wr_fields x"
proof -
  let ?x1 = "x\<lparr>dc_read_state := DC_READ_IDLE, dc_on_read_cb := None\<rparr>" and ?e = DemoParserErr_expected_stx
  let ?cb = "\<lambda>s msg ec. on_read_complete c msg ec s"
  have e: "?e \<noteq> 0" by (simp add: DemoParserErr_expected_stx_def)
  have v1: "view F h c fd (put_dconn c ?x1 s) hdl ?x1 p k rd" by (rule view_put(1) [OF v]) (simp add: conn_same_def)
  have cb: "on_read_complete c None ?e s = Inr (put_dconn c ?x1 s)"
    using act view_conn(2,9) [OF v] e by (simp add: on_read_complete_def call_on_read_cb_def rd_active_def demo_handle_request_def)
  have tag: "dp_tag (dp_with s p) = DemoParser_TAG" using p by (simp add: dp_ok_def dp_wf_def)
  obtain b' where b': "IOBuffer_consume b (int (length (iob_content b))) = Inr b'"
    using IOBuffer_consume_ok [OF b(1), of "int (length (iob_content b))"] iob_content_length [OF b(1)] b(1) by (auto simp: iob_wf_def)
  obtain p' :: "unit DemoParser" where p': "consume_loop ?cb (iob_content b) 0 (dp_with s p) =
      rbind (?cb s None ?e) (\<lambda>s'. Inr (?e, 0 + length (iob_content b), dp_with s' p'))"
    using consume_loop_unparsable [OF p b(2), of ?cb 0 s] by blast
  let ?x2 = "?x1\<lparr>dc_active_input_buffer_ref := Some b'\<rparr>"
  let ?s = "put_dparser c p' (put_dconn c ?x2 (put_dconn c ?x1 s))"
  have "view F h c fd ?s hdl ?x2 p' k rd" by (rule view_put(3) [OF view_put(1) [OF v1]]) (simp add: conn_same_def)
  moreover have "demo_parse c b s = Inr (?e, ?s)"
    using view_conn(4) [OF v] view_conn(1) [OF v1] cb b' p'
    by (simp add: demo_parse_def DemoParser_consume_eq [OF tag b(1)] Let_def)
  ultimately show ?thesis by (intro exI [of _ ?s] exI [of _ ?x2] exI [of _ p']) (simp add: wr_fields_def)
qed

text \<open>
  C37: A frame that cannot be parsed leaves its connection open and deaf.  Let the posted reader have
  the bytes \<open>bs\<close> for the parser, left in the input buffer or received now, with a byte that does not
  fit, in these bytes before the last one or before them, after which no frame is complete and no SOH other than
  the last byte of the buffer restarts the parser; and let no reply be waiting for room in the socket.  Then the reader returns with
  read state idle, nothing is posted, and every later event on the socket is ignored, so whatever
  the client sends next is never read and the connection is never closed.
\<close>

theorem demo_parse_error_stalls:
  assumes "view F h c fd s hdl x p k rd" and "rd_active x" and "dp_ok p" and "dc_write_state x \<noteq> DC_WRITE_EAGAINED"
    and "in_ok x bs \<and> k' = k \<or> in_ok x [] \<and> sys_recv 1000 k = (Recv_bytes bs, k')" and "unparsable bs (dp_abs p)"
  shows "\<exists>s'. demo_server_code demo_postable_reader_ptr c s = Inr s' \<and> ready s' = rd \<and> ds_socks (r_app s') fd = k' \<and>
     ds_conns (r_app s') c \<noteq> None \<and> (\<forall>st event. st_context st = Some (Some c) \<longrightarrow> demo_event_handler st event s' = Inr s')"
proof -
  have nst: "dc_read_state x \<noteq> DC_READ_STOP" using assms(2) by (simp add: rd_active_def dc_states)
  have ne: "bs \<noteq> []" using assms(6) by (simp add: unparsable_def)
  have len: "length bs \<le> 1000" if "sys_recv 1000 k = (Recv_bytes bs, k')"
    using that by (auto simp: sys_recv_def split: list.splits recv_result.splits if_splits)
  obtain b t y where b: "iob_wf b" "iob_content b = bs" "view F h c fd t hdl y p k' rd" "rd_active y" "wr_fields y = wr_fields x"
    "demo_postable_reader c s = reader_rest c (demo_parse c b t)"
    using assms(5) reader_buffered [OF assms(1) nst _ ne] reader_receives [OF assms(1) nst _ _ ne] len assms(2)
    by (fastforce simp: rd_active_def wr_fields_def)
  from recovery_parse [OF b(3,4) assms(3) b(1)] b(2,5) assms(6) obtain s' x' p' where
    s': "demo_parse c b t = Inr (DemoParserErr_expected_stx, s')" "view F h c fd s' hdl x' p' k' rd" "dc_read_state x' = DC_READ_IDLE"
    "wr_fields x' = wr_fields x" by auto
  have wr: "dc_write_state x' \<noteq> DC_WRITE_EAGAINED" using s'(4) assms(4) by (simp add: wr_fields_def)
  have "demo_server_code demo_postable_reader_ptr c s = Inr s'"
    using b(6) s'(1) by (simp add: demo_calls reader_rest_def DemoParserErr_expected_stx_def)
  moreover have "demo_event_handler st event s' = Inr s'" if "st_context st = Some (Some c)" for st event
    using that view_conn(2) [OF s'(2)] s'(3) wr
    by (simp add: demo_event_handler_def demo_write_epollout_def demo_read_epollin_def) (simp add: dc_states)
  moreover have "ready s' = rd" "ds_socks (r_app s') fd = k'" "ds_conns (r_app s') c \<noteq> None"
    using s'(2) by (simp_all add: view_def)
  ultimately show ?thesis by blast
qed

text \<open>A connection just accepted, for the instances.\<close>

lemma demo_server_connected:
  "\<exists>F h c s hdl x p. view F h c 7 s hdl x p \<lparr>sk_in = [], sk_sends = [], sk_out = []\<rparr> [post demo_postable_reader_ptr c] \<and> rd_active x \<and>
     in_ok x [] \<and> wr_idle x"
proof -
  let ?k = "\<lparr>k_open = (\<lambda>fd. fd = 5 \<or> fd = 3), k_interest = Map.empty\<rparr>" and ?none = "\<lparr>sk_in = map Recv_bytes [] @ blocks [], sk_sends = [], sk_out = []\<rparr>"
  have "fd_ok 5" "fd_ok 7" by (simp_all add: fd_ok_def RTOR_FDTABLE_MAX_def RTOR_MAX_FDS_def)
  moreover obtain s0 s1 where s1: "DemoServer_new 100 9001 (Inr 5) 3 ?k (\<lambda>_. ?none) = Inr s0" "DemoServer_listen s0 = Inr s1" "Reactor_wf s1"
    "ready s1 = []" "ft_view (r_table s1) = [5 \<mapsto> Suc 100]" "ds_socks (r_app s1) = (\<lambda>_. ?none)" "serving 5 [] (frame_of s1)"
    "ds_ref (r_app s1) = 100" "ds_fresh (r_app s1) = Suc (Suc 100)"
    "ds_listening_watcher_ref (r_app s1) = listener_set (rtor_listener_new (Suc 100) 5) (Some demo_on_event_listening_ptr) (Some 100)"
    using demo_server_starts [of 3 5 ?k 100 9001 "\<lambda>_. ?none"] \<open>fd_ok 5\<close> by (auto simp del: list.map)
  moreover have "clean (concat []) (STATE_IDLE, False, [], [])" by simp
  ultimately obtain s2 F h c where "quiet [] F h c 7 (reports [] (STATE_IDLE, False, [], [])) 0 [] s2"
    using demo_accept_quiet [OF s1(3,4) _ \<open>fd_ok 7\<close> _ s1(7), of "[]" "[]"] by (auto simp: listener_set_def rtor_listener_new_def rtor_listener_init_def)
  then obtain hdl x p k cs bs where q: "view F h c 7 s2 hdl x p k [post demo_postable_reader_ptr c]" "rd_active x" "feeds [] x p k cs bs" "wr_idle x"
    "sk_sends k = []" "sk_out k = []" "length (bs @ concat cs) = 0" unfolding quiet_def by auto
  then have "bs = []" "cs = []" by (cases cs; auto simp: feeds_def)+
  then have "k = \<lparr>sk_in = [], sk_sends = [], sk_out = []\<rparr>" "in_ok x []" using q(3,5,6) by (cases k, auto simp: feeds_def)
  then show ?thesis using q(1,2,4) by blast
qed

text \<open>The instances: a reply of six bytes of which two are taken, and garbage after a bad opcode.\<close>

theorem demo_short_send_asserts_witness:
  "\<exists>c s s'. demo_postable_writer c s = Inr s' \<and> sk_out (ds_socks (r_app s') 7) = ''ab'' \<and> demo_server_code demo_postable_writer_ptr c s' = Inl Assertion"
proof -
  obtain F h c s hdl x p where v: "view F h c 7 s hdl x p \<lparr>sk_in = [], sk_sends = [], sk_out = []\<rparr> [post demo_postable_reader_ptr c]" "wr_idle x"
    using demo_server_connected by blast
  obtain b where b: "iob_wf b" "iob_content b = ''abcdef''" using IOBuffer_from_buf_ok [of "''abcdef''"] by auto
  let ?x = "x\<lparr>dc_on_write_cb := Some on_write_complete_cb_ptr, dc_active_output_buffer_ref := Some b\<rparr>"
  let ?k = "\<lparr>sk_in = [], sk_sends = [2], sk_out = []\<rparr>"
  have "view F h c 7 (put_sock 7 ?k (put_dconn c ?x s)) hdl ?x p ?k [post demo_postable_reader_ptr c]"
    by (rule view_put(4) [OF view_put(1) [OF v(1)]]) (simp add: conn_same_def)
  moreover have "wr_sending ?x ''abcdef''" using v(2) b by (simp add: wr_sending_def wr_idle_def)
  ultimately show ?thesis using demo_short_send_asserts [where k = ?k and n = 2 and ns = "[]" and bs = "''abcdef''"] by fastforce
qed

theorem demo_parse_error_stalls_witness:
  "\<exists>c s s'. demo_server_code demo_postable_reader_ptr c s = Inr s' \<and>
     sk_in (ds_socks (r_app s) 7) = [Recv_bytes (CH_SOH # ''X???''), Recv_again, Recv_bytes ''more''] \<and>
     sk_in (ds_socks (r_app s') 7) = [Recv_again, Recv_bytes ''more''] \<and>
     demo_event_handler ((rtor_stream_new 1 7)\<lparr>st_context := Some (Some c)\<rparr>) (ev64 EPOLLIN) s' = Inr s'"
proof -
  obtain F h c s hdl x p where v: "view F h c 7 s hdl x p \<lparr>sk_in = [], sk_sends = [], sk_out = []\<rparr> [post demo_postable_reader_ptr c]"
    "rd_active x" "in_ok x []" "wr_idle x" using demo_server_connected by blast
  let ?bs = "CH_SOH # ''X???''" and ?k' = "\<lparr>sk_in = [Recv_again, Recv_bytes ''more''], sk_sends = [], sk_out = []\<rparr>"
  let ?k = "?k'\<lparr>sk_in := [Recv_bytes ?bs, Recv_again, Recv_bytes ''more'']\<rparr>"
  let ?s = "put_sock 7 ?k (put_dparser c (DemoParser_new ()) s)"
  have u: "view F h c 7 ?s hdl x (DemoParser_new ()) ?k [post demo_postable_reader_ptr c]" by (rule view_put(4) [OF view_put(3) [OF v(1)]])
  have p: "dp_abs (DemoParser_new ()) = (STATE_IDLE, False, [], [])" "dp_ok (DemoParser_new ())"
    by (simp_all add: dp_ok_def dp_abs_def dp_wf_def DemoParser_new_def dp_with_def demo_abs_def)
  have "unparsable ?bs (dp_abs (DemoParser_new ()))" by (simp add: p(1) unparsable_def reports_def CH_SOH_def)
  moreover have "in_ok x ?bs \<and> ?k' = ?k \<or> in_ok x [] \<and> sys_recv 1000 ?k = (Recv_bytes ?bs, ?k')" using v(3) by (simp add: sys_recv_def)
  moreover have "dc_write_state x \<noteq> DC_WRITE_EAGAINED" using v(4) by (simp add: wr_idle_def dc_states)
  ultimately obtain s' where "demo_server_code demo_postable_reader_ptr c ?s = Inr s'" "ds_socks (r_app s') 7 = ?k'"
    "\<forall>st event. st_context st = Some (Some c) \<longrightarrow> demo_event_handler st event s' = Inr s'"
    using demo_parse_error_stalls [OF u v(2) p(2), of ?bs ?k'] by blast
  moreover have "sk_in (ds_socks (r_app ?s) 7) = [Recv_bytes ?bs, Recv_again, Recv_bytes ''more'']" by (simp add: put_sock_def)
  ultimately show ?thesis by (intro exI [of _ c] exI [of _ ?s] exI [of _ s']) simp
qed

end
