(* ===== verification/CH_Sockets.thy ===== *)
theory CH_Sockets
  imports CH_Async
begin

text \<open>
  The socket helpers: \<open>src/http_in_c/socket_functions.c\<close> (without \<open>USE_IPV6\<close>) and
  \<open>async/async_socket.c\<close>, with the construction of the asynchronous server from a port number
  (\<open>async/async_server.c\<close>) on top of them.  The kernel's side is a table of sockets: their flags and
  options, the address each is bound to, whether it listens; a call can also be refused for reasons
  outside the table.
\<close>

section \<open>Sockets\<close>

type_synonym inet_addr = "string \<times> 16 word"

record sock =
  so_flags :: "32 word"
  so_reuseaddr :: bool
  so_reuseport :: bool
  so_addr :: "inet_addr option"
  so_listening :: bool
  so_peer :: "inet_addr option"
  so_rcvtimeo :: int
  so_shut_rd :: bool
  so_shut_wr :: bool

text \<open>\<open>n_refuse\<close>: for the calls to come, whether the kernel refuses; when it is used up no more.\<close>

record net =
  n_socks :: "int \<Rightarrow> sock option"
  n_next :: int
  n_refuse :: "bool list"

definition new_sock :: sock where
  "new_sock = \<lparr>so_flags = 2, so_reuseaddr = False, so_reuseport = False, so_addr = None, so_listening = False,
     so_peer = None, so_rcvtimeo = 0, so_shut_rd = False, so_shut_wr = False\<rparr>"

definition refused :: "net \<Rightarrow> bool \<times> net" where
  "refused n = (case n_refuse n of [] \<Rightarrow> (False, n) | r # rs \<Rightarrow> (r, n\<lparr>n_refuse := rs\<rparr>))"

definition put_socket :: "int \<Rightarrow> sock \<Rightarrow> net \<Rightarrow> net" where
  "put_socket fd s n = n\<lparr>n_socks := (n_socks n)(fd \<mapsto> s)\<rparr>"

text \<open>A call on the socket \<open>fd\<close>: -1 when it is refused, not open or not \<open>ok\<close>, else 0 with the effect \<open>f\<close>.\<close>

definition sys_on :: "int \<Rightarrow> (sock \<Rightarrow> bool) \<Rightarrow> (sock \<Rightarrow> sock) \<Rightarrow> net \<Rightarrow> int \<times> net" where
  "sys_on fd ok f n =
     (let (r, n) = refused n in
      case n_socks n fd of
        None \<Rightarrow> (- 1, n)
      | Some s \<Rightarrow> if r \<or> \<not> ok s then (- 1, n) else (0, put_socket fd (f s) n))"

definition sys_socket :: "net \<Rightarrow> int \<times> net" where
  "sys_socket n =
     (let (r, n) = refused n in
      if r then (- 1, n) else (n_next n, put_socket (n_next n) new_sock (n\<lparr>n_next := n_next n + 1\<rparr>)))"

text \<open>
  \<open>bind\<close>: an address may be used by several sockets if all of them have set \<open>SO_REUSEPORT\<close>, and by
  one more if both have set \<open>SO_REUSEADDR\<close> and none of them listens yet.
\<close>

definition shares :: "sock \<Rightarrow> sock \<Rightarrow> bool" where
  "shares s t \<longleftrightarrow> so_reuseport s \<and> so_reuseport t \<or> so_reuseaddr s \<and> so_reuseaddr t \<and> \<not> so_listening t"

definition addr_free :: "int \<Rightarrow> inet_addr \<Rightarrow> net \<Rightarrow> sock \<Rightarrow> bool" where
  "addr_free fd a n s \<longleftrightarrow> (\<forall>fd' \<in> {0..<n_next n} - {fd}. case n_socks n fd' of None \<Rightarrow> True | Some t \<Rightarrow> so_addr t = Some a \<longrightarrow> shares s t)"

definition sys_bind :: "int \<Rightarrow> inet_addr \<Rightarrow> net \<Rightarrow> int \<times> net" where
  "sys_bind fd a n = sys_on fd (\<lambda>s. so_addr s = None \<and> addr_free fd a n s) (\<lambda>s. s\<lparr>so_addr := Some a\<rparr>) n"

definition sys_listen :: "int \<Rightarrow> net \<Rightarrow> int \<times> net" where
  "sys_listen fd n = sys_on fd (\<lambda>s. so_addr s \<noteq> None) (\<lambda>s. s\<lparr>so_listening := True\<rparr>) n"

definition O_NONBLOCK :: "32 word" where "O_NONBLOCK = 2048"

definition sys_getfl :: "int \<Rightarrow> net \<Rightarrow> 32 word" where
  "sys_getfl fd n = (case n_socks n fd of None \<Rightarrow> - 1 | Some s \<Rightarrow> so_flags s)"

definition sys_setfl :: "int \<Rightarrow> 32 word \<Rightarrow> net \<Rightarrow> int \<times> net" where
  "sys_setfl fd fl n = sys_on fd (\<lambda>_. True) (\<lambda>s. s\<lparr>so_flags := fl\<rparr>) n"

text \<open>\<open>SO_LINGER\<close> takes a structure of eight bytes; a shorter value is refused.\<close>

definition sys_set_linger :: "int \<Rightarrow> nat \<Rightarrow> net \<Rightarrow> int \<times> net" where
  "sys_set_linger fd len n = sys_on fd (\<lambda>_. 8 \<le> len) (\<lambda>s. s) n"

section \<open>\<open>socket_functions.c\<close>\<close>

definition socket_throw_error :: "'a res" where
  "socket_throw_error = Inl Assertion"

definition localhost :: "int \<Rightarrow> inet_addr" where
  "localhost port = (''127.0.0.1'', word_of_int port)"

definition socket_create_listener_on_port :: "int \<Rightarrow> net \<Rightarrow> (int \<times> net) res" where
  "socket_create_listener_on_port port n =
     (let (tmp_socket, n) = sys_socket n in
      if tmp_socket = - 1 then socket_throw_error
      else let (result, n) = sys_on tmp_socket (\<lambda>_. True) (\<lambda>s. s\<lparr>so_reuseaddr := True\<rparr>) n in
      if result \<noteq> 0 then socket_throw_error
      else let (result, n) = sys_bind tmp_socket (localhost port) n in
      if result \<noteq> 0 then socket_throw_error
      else let (result, n) = sys_listen tmp_socket n in
      if result \<noteq> 0 then socket_throw_error
      else Inr (tmp_socket, n))"

text \<open>\<open>gethostbyname\<close> is a parameter.  The status is written only on success: each failure stops the program first.\<close>

definition socket_connect_host_port :: "(string \<Rightarrow> string option) \<Rightarrow> string \<Rightarrow> 16 word \<Rightarrow> net \<Rightarrow> (int \<times> int \<times> net) res" where
  "socket_connect_host_port gethostbyname hostname port n =
     (case gethostbyname hostname of
        None \<Rightarrow> socket_throw_error
      | Some h_addr \<Rightarrow>
          let (sockfd, n) = sys_socket n in
          if sockfd < 0 then socket_throw_error
          else let (result, n) = sys_on sockfd (\<lambda>_. True) (\<lambda>s. s\<lparr>so_peer := Some (h_addr, port)\<rparr>) n in
          if result < 0 then socket_throw_error
          else Inr (sockfd, 0, n))"

definition socket_is_blocking :: "int \<Rightarrow> net \<Rightarrow> bool res" where
  "socket_is_blocking fd n =
     (let val = sys_getfl fd n in
      if sint val < 0 then socket_throw_error else Inr (val AND O_NONBLOCK = 0))"

definition socket_set_blocking :: "int \<Rightarrow> net \<Rightarrow> (int \<times> net) res" where
  "socket_set_blocking fd n =
     (let (fres, n) = sys_setfl fd (sys_getfl fd n AND NOT O_NONBLOCK) n in
      if fres < 0 then socket_throw_error else Inr (fd, n))"

definition socket_set_non_blocking :: "int \<Rightarrow> net \<Rightarrow> (int \<times> net) res" where
  "socket_set_non_blocking fd n =
     (let (fres, n) = sys_setfl fd (sys_getfl fd n OR O_NONBLOCK) n in
      if fres < 0 then socket_throw_error else Inr (fd, n))"

text \<open>The result of \<open>shutdown\<close> is not looked at.  Both functions shut down the read side.\<close>

definition socket_shutdown_read :: "int \<Rightarrow> net \<Rightarrow> net" where
  "socket_shutdown_read fd n = snd (sys_on fd (\<lambda>_. True) (\<lambda>s. s\<lparr>so_shut_rd := True\<rparr>) n)"

definition socket_shutdown_write :: "int \<Rightarrow> net \<Rightarrow> net" where
  "socket_shutdown_write fd n = snd (sys_on fd (\<lambda>_. True) (\<lambda>s. s\<lparr>so_shut_rd := True\<rparr>) n)"

definition socket_set_option :: "int \<Rightarrow> net \<Rightarrow> net res" where
  "socket_set_option fd n =
     (let (r, n) = sys_set_linger fd 4 n; result = (r < 0) in
      if \<not> result then socket_throw_error else Inr n)"

definition socket_set_reuse_addr :: "int \<Rightarrow> net \<Rightarrow> net" where
  "socket_set_reuse_addr fd n = snd (sys_on fd (\<lambda>_. True) (\<lambda>s. s\<lparr>so_reuseaddr := True\<rparr>) n)"

definition socket_set_recvtimeout :: "int \<Rightarrow> int \<Rightarrow> net \<Rightarrow> net res" where
  "socket_set_recvtimeout fd time_interval_seconds n =
     (let (status, n) = sys_on fd (\<lambda>_. 0 \<le> time_interval_seconds) (\<lambda>s. s\<lparr>so_rcvtimeo := time_interval_seconds\<rparr>) n in
      if status < 0 then Inl Assertion else Inr n)"

definition socket_wait_for_write_flush :: "int \<Rightarrow> unit res" where
  "socket_wait_for_write_flush fd = Inl Assertion"

definition SOCKET_STATUS_GOOD :: int where "SOCKET_STATUS_GOOD = 0"
definition SOCKET_STATUS_EOF :: int where "SOCKET_STATUS_EOF = - 1001"
definition SOCKET_STATUS_ERROR :: int where "SOCKET_STATUS_ERROR = - 1002"
definition SOCKET_STATUS_EAGAIN :: int where "SOCKET_STATUS_EAGAIN = - 1003"

text \<open>\<open>res\<close> is what \<open>write\<close> returned, \<open>howMuch\<close> and \<open>errno\<close> what \<open>read\<close> did; \<open>eagain\<close> tells whether \<open>errno\<close> is \<open>EAGAIN\<close>.\<close>

definition socket_write_data :: "int \<Rightarrow> int \<Rightarrow> bool res" where
  "socket_write_data res buffer_length =
     (if res > 0 \<and> res = buffer_length then Inr True
      else if res > 0 \<and> res < buffer_length then Inl Assertion
      else if res < 0 then rbind socket_throw_error (\<lambda>_ :: unit. Inr False)
      else rbind socket_throw_error (\<lambda>_ :: unit. Inr False))"

definition socket_read_data :: "int \<Rightarrow> bool \<Rightarrow> (int \<times> int) res" where
  "socket_read_data howMuch eagain =
     (if howMuch > 0 then Inr (howMuch, SOCKET_STATUS_GOOD)
      else if howMuch = 0 then Inr (howMuch, SOCKET_STATUS_EOF)
      else rbind socket_throw_error (\<lambda>_ :: unit.
           Inr (howMuch, if eagain then SOCKET_STATUS_EAGAIN else SOCKET_STATUS_ERROR)))"

definition socket_close :: "int \<Rightarrow> net \<Rightarrow> net" where
  "socket_close fd n = n\<lparr>n_socks := (n_socks n)(fd := None)\<rparr>"

section \<open>\<open>async_socket.c\<close>\<close>

text \<open>
  \<open>async_socket_create\<close> has no return statement: its caller gets whatever is in the place of the
  result, the parameter \<open>left\<close>.
\<close>

definition async_socket_create :: "int \<Rightarrow> net \<Rightarrow> (int \<times> net) res" where
  "async_socket_create left n =
     (let (sock, n) = sys_socket n in rbind (c_assert (sock \<noteq> - 1)) (\<lambda>_. Inr (left, n)))"

definition async_socket_set_reuseaddr :: "int \<Rightarrow> net \<Rightarrow> net res" where
  "async_socket_set_reuseaddr socket n =
     (let (result, n) = sys_on socket (\<lambda>_. True) (\<lambda>s. s\<lparr>so_reuseaddr := True\<rparr>) n in
      rbind (c_assert (result = 0)) (\<lambda>_. Inr n))"

definition async_socket_set_reuseport :: "int \<Rightarrow> net \<Rightarrow> net res" where
  "async_socket_set_reuseport socket n =
     (let (result, n) = sys_on socket (\<lambda>_. True) (\<lambda>s. s\<lparr>so_reuseport := True\<rparr>) n in
      rbind (c_assert (result = 0)) (\<lambda>_. Inr n))"

definition async_socket_nonblocking :: "int \<Rightarrow> net \<Rightarrow> net res" where
  "async_socket_nonblocking socket n =
     (let (result, n) = sys_setfl socket (sys_getfl socket n OR O_NONBLOCK) n in
      rbind (c_assert (result = 0)) (\<lambda>_. Inr n))"

definition async_create_shareable_socket :: "int \<Rightarrow> net \<Rightarrow> (int \<times> net) res" where
  "async_create_shareable_socket left n =
     rbind (async_socket_create left n) (\<lambda>(sock, n).
     rbind (async_socket_set_reuseaddr sock n) (\<lambda>n.
     rbind (async_socket_set_reuseport sock n) (\<lambda>n.
     rbind (async_socket_nonblocking sock n) (\<lambda>n.
     rbind (c_assert (sock > 0)) (\<lambda>_.
     Inr (sock, n))))))"

definition async_socket_listen :: "int \<Rightarrow> net \<Rightarrow> net res" where
  "async_socket_listen socket n =
     (let (result, n) = sys_listen socket n in rbind (c_assert (result = 0)) (\<lambda>_. Inr n))"

text \<open>The host is ignored.\<close>

definition async_socket_bind :: "int \<Rightarrow> int \<Rightarrow> net \<Rightarrow> net res" where
  "async_socket_bind socket port n =
     (let (result, n) = sys_bind socket (localhost port) n in rbind (c_assert (result = 0)) (\<lambda>_. Inr n))"

section \<open>The asynchronous server from a port number\<close>

definition net_kernel :: "net \<Rightarrow> kernel" where
  "net_kernel n = \<lparr>k_open = (\<lambda>fd. n_socks n fd \<noteq> None), k_interest = Map.empty\<rparr>"

definition AsyncServer_init :: "addr \<Rightarrow> int \<Rightarrow> int \<Rightarrow> int \<Rightarrow> net \<Rightarrow> ('l async_st \<times> net) res" where
  "AsyncServer_init sref port_number epoll_fd left n =
     rbind (async_create_shareable_socket left n) (\<lambda>(listening_socket_fd, n).
     rbind (async_socket_bind listening_socket_fd port_number n) (\<lambda>n.
     rbind (async_socket_listen listening_socket_fd n) (\<lambda>n.
     rbind (AsyncServer_init_with_socket sref port_number listening_socket_fd epoll_fd (net_kernel n)) (\<lambda>s.
     Inr (s, n)))))"

definition AsyncServer_new :: "addr \<Rightarrow> int \<Rightarrow> int \<Rightarrow> int \<Rightarrow> net \<Rightarrow> ('l async_st \<times> net) res" where
  "AsyncServer_new sref port epoll_fd left n = AsyncServer_init sref port epoll_fd left n"

text \<open>\<open>AsyncServer_dispose\<close> frees the record only.  The last function carries the name \<open>DemoServer_terminate\<close> in the file.\<close>

definition AsyncServer_dispose :: "'l async_st option \<Rightarrow> 'l async_st option res" where
  "AsyncServer_dispose sref =
     rbind (c_deref sref) (\<lambda>s. rbind (check_tag AsyncServer_TAG (as_tag (r_app s))) (\<lambda>_. Inr None))"

definition AsyncServer_terminate :: "'l async_st \<Rightarrow> 'l async_st res" where
  "AsyncServer_terminate s =
     rbind (check_tag AsyncServer_TAG (as_tag (r_app s))) (\<lambda>_.
     Inr (s\<lparr>r_kernel := snd (sys_close (r_kernel s) (as_listening_socket_fd (r_app s)))\<rparr>))"

section \<open>The listening socket of the synchronous server\<close>

definition sync_create_listener_socket :: "int \<Rightarrow> net \<Rightarrow> (int \<times> net) res" where
  "sync_create_listener_socket port n =
     (let (tmp_socket, n) = sys_socket n in
      if tmp_socket = - 1 then Inl Assertion
      else let (result, n) = sys_on tmp_socket (\<lambda>_. True) (\<lambda>s. s\<lparr>so_reuseaddr := True\<rparr>) n in
      if result \<noteq> 0 then Inl Assertion
      else let (result, n) = sys_on tmp_socket (\<lambda>_. True) (\<lambda>s. s\<lparr>so_reuseport := True\<rparr>) n in
      if result \<noteq> 0 then Inl Assertion
      else let (result, n) = sys_bind tmp_socket (localhost port) n in
      if result \<noteq> 0 then Inl Assertion
      else let (result, n) = sys_listen tmp_socket n in
      if result \<noteq> 0 then Inl Assertion
      else Inr (tmp_socket, n))"

section \<open>The asynchronous server program\<close>

text \<open>
  \<open>main\<close> of \<open>async-server-app/async-server-main.c\<close> after the options and up to the run of the reactor, as it is
  built: \<open>CMakeLists.txt\<close> defines \<open>CH_ASYNC_SINGLE_THREAD\<close>.  The listening socket is told to listen once more.
\<close>

definition async_main_start :: "int \<Rightarrow> addr \<Rightarrow> int \<Rightarrow> int \<Rightarrow> net \<Rightarrow> ('l async_st \<times> net) res" where
  "async_main_start port_number sref epoll_fd left n =
     rbind (AsyncServer_new sref port_number epoll_fd left n) (\<lambda>(server_ref, n).
     rbind (AsyncServer_start server_ref) (\<lambda>server_ref.
     rbind (async_socket_listen (as_listening_socket_fd (r_app server_ref)) n) (\<lambda>n.
     Inr (server_ref, n))))"

section \<open>What the helpers guarantee\<close>

definition net_wf :: "net \<Rightarrow> bool" where
  "net_wf n \<longleftrightarrow> 0 < n_next n \<and> (\<forall>fd. n_socks n fd \<noteq> None \<longrightarrow> 0 \<le> fd \<and> fd < n_next n)"

lemma net_wf_next: "net_wf n \<Longrightarrow> n_socks n (n_next n) = None"
  by (cases "n_socks n (n_next n)") (auto simp: net_wf_def)

text \<open>With nothing refused, a call on an open socket has its effect exactly when its condition holds.\<close>

lemma sys_on_granted:
  "n_refuse n = [] \<Longrightarrow> n_socks n fd = Some s \<Longrightarrow>
     sys_on fd ok f n = (if ok s then (0, put_socket fd (f s) n) else (- 1, n))"
  by (simp add: sys_on_def refused_def)

lemma sys_socket_granted:
  "n_refuse n = [] \<Longrightarrow> sys_socket n = (n_next n, put_socket (n_next n) new_sock (n\<lparr>n_next := n_next n + 1\<rparr>))"
  by (simp add: sys_socket_def refused_def)

lemma put_socket_simps [simp]:
  "n_refuse (put_socket fd s n) = n_refuse n" "n_next (put_socket fd s n) = n_next n"
  "n_socks (put_socket fd s n) = (n_socks n)(fd \<mapsto> s)" "put_socket fd s (put_socket fd t n) = put_socket fd s n"
  by (simp_all add: put_socket_def)

lemma addr_free_other:
  assumes "\<forall>fd' t. fd' \<noteq> fd \<longrightarrow> n_socks n fd' = Some t \<longrightarrow> so_addr t = Some a \<longrightarrow> shares s t"
  shows "addr_free fd a n s"
  using assms by (auto simp: addr_free_def split: option.splits)

text \<open>
  The listening socket of \<open>socket_create_listener_on_port\<close> is bound to the loopback address and the
  port, taken modulo 65536, and listens; the other sockets are as before.
\<close>

definition made_listener :: "int \<Rightarrow> int \<Rightarrow> net \<Rightarrow> sock \<Rightarrow> net \<Rightarrow> bool" where
  "made_listener fd port n s n' \<longleftrightarrow> n_socks n' = (n_socks n)(fd \<mapsto> s) \<and> so_listening s \<and> so_addr s = Some (localhost port) \<and>
     net_wf n' \<and> n_refuse n' = [] \<and> n_next n' = n_next n + 1"

lemma listener_created:
  assumes "net_wf n" and "n_refuse n = []"
    and "\<forall>fd t. n_socks n fd = Some t \<longrightarrow> so_addr t = Some (localhost port) \<longrightarrow> so_reuseaddr t \<and> \<not> so_listening t"
  shows "\<exists>s n'. socket_create_listener_on_port port n = Inr (n_next n, n') \<and> made_listener (n_next n) port n s n' \<and> \<not> so_reuseport s"
proof -
  let ?fd = "n_next n" and ?s = "new_sock\<lparr>so_reuseaddr := True\<rparr>"
  let ?n1 = "put_socket ?fd ?s (n\<lparr>n_next := ?fd + 1\<rparr>)"
  let ?s2 = "?s\<lparr>so_addr := Some (localhost port), so_listening := True\<rparr>"
  have fd: "?fd \<noteq> - 1" using assms(1) by (simp add: net_wf_def)
  have free: "addr_free ?fd (localhost port) ?n1 ?s"
    using assms(3) by (intro addr_free_other) (auto simp: shares_def)
  have "socket_create_listener_on_port port n = Inr (?fd, put_socket ?fd ?s2 ?n1)"
    using assms(2) fd free
    by (simp add: socket_create_listener_on_port_def sys_socket_granted sys_on_granted sys_bind_def sys_listen_def new_sock_def)
  moreover have "made_listener ?fd port n ?s2 (put_socket ?fd ?s2 ?n1)"
    using assms(1,2) by (auto simp: made_listener_def net_wf_def)
  moreover have "\<not> so_reuseport ?s2" by (simp add: new_sock_def)
  ultimately show ?thesis by blast
qed

text \<open>The same for the shareable socket, which may join others on its port.\<close>

lemma shareable_created:
  assumes "net_wf n" and "n_refuse n = []" and "\<forall>fd t. n_socks n fd = Some t \<longrightarrow> so_addr t = Some (localhost port) \<longrightarrow> so_reuseport t"
  shows "\<exists>s n1 n2 n3. async_create_shareable_socket (n_next n) n = Inr (n_next n, n1) \<and> async_socket_bind (n_next n) port n1 = Inr n2 \<and>
     async_socket_listen (n_next n) n2 = Inr n3 \<and> made_listener (n_next n) port n s n3 \<and> so_reuseport s \<and> so_flags s AND O_NONBLOCK \<noteq> 0"
proof -
  let ?fd = "n_next n" and ?s = "new_sock\<lparr>so_reuseaddr := True, so_reuseport := True, so_flags := 2 OR O_NONBLOCK\<rparr>"
  let ?n1 = "put_socket ?fd ?s (n\<lparr>n_next := ?fd + 1\<rparr>)"
  let ?s2 = "?s\<lparr>so_addr := Some (localhost port)\<rparr>" and ?s3 = "?s\<lparr>so_addr := Some (localhost port), so_listening := True\<rparr>"
  have fd: "0 < ?fd" using assms(1) by (simp add: net_wf_def)
  have free: "addr_free ?fd (localhost port) ?n1 ?s"
    using assms(3) by (intro addr_free_other) (auto simp: shares_def)
  have "async_create_shareable_socket ?fd n = Inr (?fd, ?n1)"
    using assms(2) fd
    by (simp add: async_create_shareable_socket_def async_socket_create_def sys_socket_granted async_socket_set_reuseaddr_def
        async_socket_set_reuseport_def async_socket_nonblocking_def sys_setfl_def sys_getfl_def sys_on_granted new_sock_def)
  moreover have "async_socket_bind ?fd port ?n1 = Inr (put_socket ?fd ?s2 ?n1)"
    using assms(2) free by (simp add: async_socket_bind_def sys_bind_def sys_on_granted new_sock_def)
  moreover have "async_socket_listen ?fd (put_socket ?fd ?s2 ?n1) = Inr (put_socket ?fd ?s3 ?n1)"
    using assms(2) by (simp add: async_socket_listen_def sys_listen_def sys_on_granted)
  moreover have "made_listener ?fd port n ?s3 (put_socket ?fd ?s3 ?n1)"
    using assms(1,2) by (auto simp: made_listener_def net_wf_def)
  moreover have "(2 OR O_NONBLOCK) AND O_NONBLOCK \<noteq> 0" by (simp add: O_NONBLOCK_def)
  ultimately show ?thesis by (intro exI [of _ ?s3] exI [of _ ?n1] exI [of _ "put_socket ?fd ?s2 ?n1"] exI [of _ "put_socket ?fd ?s3 ?n1"]) simp
qed

text \<open>
  Several servers on one port, each made by \<open>AsyncServer_new\<close> and started; the missing return value
  of \<open>async_socket_create\<close> is taken to be the socket.
\<close>

fun start_servers :: "(addr \<times> int) list \<Rightarrow> int \<Rightarrow> net \<Rightarrow> ('l async_st list \<times> net) res" where
  "start_servers [] port n = Inr ([], n)"
| "start_servers ((sref, epoll_fd) # rest) port n =
     rbind (AsyncServer_new sref port epoll_fd (n_next n) n) (\<lambda>(s, n).
     rbind (AsyncServer_start s) (\<lambda>s.
     rbind (start_servers rest port n) (\<lambda>(ss, n). Inr (s # ss, n))))"

definition port_shared :: "int \<Rightarrow> net \<Rightarrow> bool" where
  "port_shared port n \<longleftrightarrow> (\<forall>fd t. n_socks n fd = Some t \<longrightarrow> so_addr t = Some (localhost port) \<longrightarrow> so_reuseport t)"

definition listens :: "int \<Rightarrow> int \<Rightarrow> net \<Rightarrow> bool" where
  "listens fd port n \<longleftrightarrow> (case n_socks n fd of None \<Rightarrow> False | Some s \<Rightarrow> so_listening s \<and> so_addr s = Some (localhost port))"

lemma server_from_port:
  assumes "net_wf n" and "n_refuse n = []" and "port_shared port n" and "epoll_fd \<noteq> - 1" and "fd_ok (n_next n)"
  shows "\<exists>(s0 :: 'l async_st) s n'. AsyncServer_new sref port epoll_fd (n_next n) n = Inr (s0, n') \<and> AsyncServer_start s0 = Inr s \<and>
     async_inv s \<and> ready s = [] \<and> w_fd (as_listening_watcher_ref (r_app s)) = n_next n \<and> net_wf n' \<and> n_refuse n' = [] \<and>
     port_shared port n' \<and> n_next n' = n_next n + 1 \<and> listens (n_next n) port n' \<and>
     (\<forall>fd. fd \<noteq> n_next n \<longrightarrow> n_socks n' fd = n_socks n fd)"
proof -
  obtain so n1 n2 n3 where c: "async_create_shareable_socket (n_next n) n = Inr (n_next n, n1)" "async_socket_bind (n_next n) port n1 = Inr n2"
    "async_socket_listen (n_next n) n2 = Inr n3" "made_listener (n_next n) port n so n3" "so_reuseport so"
    using shareable_created [OF assms(1,2), of port] assms(3) unfolding port_shared_def by blast
  have "k_open (net_kernel n3) (n_next n)" using c(4) by (simp add: net_kernel_def made_listener_def)
  from started_inv [where 'l = 'l, OF assms(4,5) this, of sref port] obtain s :: "'l async_st" where s: "started sref port (n_next n) epoll_fd (net_kernel n3) = Inr s"
    "async_inv s" "ready s = []" "as_listening_watcher_ref (r_app s) = listener_set (rtor_listener_new (Suc sref) (n_next n))
       (Some on_event_listening_ptr) (Some sref)" by blast
  then obtain s0 :: "'l async_st" where s0: "AsyncServer_init_with_socket sref port (n_next n) epoll_fd (net_kernel n3) = Inr s0" "AsyncServer_start s0 = Inr s"
    by (auto simp: started_def AsyncServer_new_with_socket_def rbind_eq_Inr)
  have "AsyncServer_new sref port epoll_fd (n_next n) n = Inr (s0, n3)"
    using c(1-3) s0(1) by (simp add: AsyncServer_new_def AsyncServer_init_def)
  moreover have "port_shared port n3" "listens (n_next n) port n3" "net_wf n3" "n_refuse n3 = []" "n_next n3 = n_next n + 1"
    "\<forall>fd. fd \<noteq> n_next n \<longrightarrow> n_socks n3 fd = n_socks n fd"
    using c(4,5) assms(3) by (auto simp: made_listener_def port_shared_def listens_def)
  moreover have "w_fd (as_listening_watcher_ref (r_app s)) = n_next n"
    by (simp add: s(4) listener_set_def rtor_listener_new_def rtor_listener_init_def)
  ultimately show ?thesis using s(2,3) s0(2) by blast
qed

text \<open>
  Any number of servers can be started on one port: none of the steps is refused or stops the
  program, each server is in a state of the invariant from which it runs safely, and the servers
  have listening sockets of their own that all accept on the port.
\<close>

theorem async_servers_share_port:
  assumes "net_wf n" and "n_refuse n = []" and "port_shared port n" and "\<forall>(sref, epoll_fd) \<in> set srefs. epoll_fd \<noteq> - 1"
    and "n_next n + int (length srefs) \<le> int RTOR_FDTABLE_MAX"
  shows "\<exists>(ss :: 'l async_st list) n'. start_servers srefs port n = Inr (ss, n') \<and> length ss = length srefs \<and>
     (\<forall>i < length ss. async_inv (ss ! i) \<and> ready (ss ! i) = [] \<and>
        w_fd (as_listening_watcher_ref (r_app (ss ! i))) = n_next n + int i \<and> listens (n_next n + int i) port n')"
proof -
  have "\<exists>(ss :: 'l async_st list) n'. start_servers srefs port n = Inr (ss, n') \<and> length ss = length srefs \<and>
      (\<forall>fd < n_next n. n_socks n' fd = n_socks n fd) \<and> (\<forall>i < length ss. async_inv (ss ! i) \<and> ready (ss ! i) = [] \<and>
        w_fd (as_listening_watcher_ref (r_app (ss ! i))) = n_next n + int i \<and> listens (n_next n + int i) port n')"
    using assms
  proof (induction srefs arbitrary: n)
    case (Cons se srefs)
    obtain sref epoll_fd where se: "se = (sref, epoll_fd)" by (cases se)
    have ok: "epoll_fd \<noteq> - 1" "fd_ok (n_next n)" using Cons.prems(1,4,5) se by (auto simp: fd_ok_def net_wf_def)
    obtain s0 s :: "'l async_st" and n1 where s: "AsyncServer_new sref port epoll_fd (n_next n) n = Inr (s0, n1)" "AsyncServer_start s0 = Inr s" "async_inv s"
      "ready s = []" "w_fd (as_listening_watcher_ref (r_app s)) = n_next n" "net_wf n1" "n_refuse n1 = []" "port_shared port n1"
      "n_next n1 = n_next n + 1" "listens (n_next n) port n1" "\<forall>fd. fd \<noteq> n_next n \<longrightarrow> n_socks n1 fd = n_socks n fd"
      using server_from_port [OF Cons.prems(1-3) ok] by blast
    from Cons.IH [OF s(6-8)] Cons.prems(4,5) s(9) obtain ss :: "'l async_st list" and n' where ss: "start_servers srefs port n1 = Inr (ss, n')"
      "length ss = length srefs" "\<forall>fd < n_next n1. n_socks n' fd = n_socks n1 fd"
      "\<forall>i < length ss. async_inv (ss ! i) \<and> ready (ss ! i) = [] \<and> w_fd (as_listening_watcher_ref (r_app (ss ! i))) = n_next n1 + int i \<and>
         listens (n_next n1 + int i) port n'" by auto
    have "listens (n_next n) port n'" using s(9,10) ss(3) by (simp add: listens_def)
    then have "async_inv ((s # ss) ! i) \<and> ready ((s # ss) ! i) = [] \<and> w_fd (as_listening_watcher_ref (r_app ((s # ss) ! i))) = n_next n + int i \<and>
        listens (n_next n + int i) port n'" if "i < length (s # ss)" for i
      using that s(3-5,9) ss(4) by (cases i) (auto simp: add.assoc)
    moreover have "start_servers (se # srefs) port n = Inr (s # ss, n')" using s(1,2) ss(1) se by simp
    moreover have "\<forall>fd < n_next n. n_socks n' fd = n_socks n fd" using s(9,11) ss(3) by simp
    ultimately show ?case using ss(2) by (intro exI [of _ "s # ss"] exI [of _ n']) simp
  qed simp
  then show ?thesis by blast
qed

theorem async_servers_share_port_witness:
  "\<exists>(ss :: unit async_st list) n'. start_servers [(100, 3), (200, 4)] 9001 \<lparr>n_socks = Map.empty, n_next = 5, n_refuse = []\<rparr> = Inr (ss, n') \<and>
     length ss = 2 \<and> listens 5 9001 n' \<and> listens 6 9001 n'"
  using async_servers_share_port [where 'l = unit, of "\<lparr>n_socks = Map.empty, n_next = 5, n_refuse = []\<rparr>" 9001 "[(100, 3), (200, 4)]"]
  by (auto simp: net_wf_def port_shared_def RTOR_FDTABLE_MAX_def RTOR_MAX_FDS_def All_less_Suc numeral_2_eq_2)

text \<open>
  A listener made by \<open>socket_create_listener_on_port\<close> has its port for itself: the second one on the
  same port stops the program at \<open>bind\<close>, also when the two numbers agree only modulo 65536.
\<close>

theorem second_listener_asserts:
  assumes "net_wf n" and "n_refuse n = []" and "(word_of_int port :: 16 word) = word_of_int port2"
    and "\<forall>fd t. n_socks n fd = Some t \<longrightarrow> so_addr t = Some (localhost port) \<longrightarrow> so_reuseaddr t \<and> \<not> so_listening t"
  shows "\<exists>fd n'. socket_create_listener_on_port port n = Inr (fd, n') \<and> socket_create_listener_on_port port2 n' = Inl Assertion"
proof -
  obtain s n' where s: "socket_create_listener_on_port port n = Inr (n_next n, n')" "made_listener (n_next n) port n s n'" "\<not> so_reuseport s"
    using listener_created [OF assms(1,2,4)] by blast
  have m: "n_socks n' (n_next n) = Some s" "n_refuse n' = []" "n_next n' = n_next n + 1" "so_listening s" "so_addr s = Some (localhost port2)"
    "0 < n_next n" using s(2) assms(1,3) by (simp_all add: made_listener_def localhost_def net_wf_def)
  let ?s = "new_sock\<lparr>so_reuseaddr := True\<rparr>"
  have "\<not> addr_free (n_next n') (localhost port2) (put_socket (n_next n') ?s (n'\<lparr>n_next := n_next n' + 1\<rparr>)) ?s"
    using m s(3) by (auto simp: addr_free_def shares_def intro!: bexI [of _ "n_next n"])
  then have "socket_create_listener_on_port port2 n' = Inl Assertion"
    using m(2,3,6) by (simp add: socket_create_listener_on_port_def sys_socket_granted sys_on_granted sys_bind_def socket_throw_error_def new_sock_def)
  then show ?thesis using s(1) by blast
qed

theorem second_listener_asserts_witness:
  "\<exists>fd n'. socket_create_listener_on_port 9001 \<lparr>n_socks = Map.empty, n_next = 5, n_refuse = []\<rparr> = Inr (fd, n') \<and>
     socket_create_listener_on_port 74537 n' = Inl Assertion"
  using second_listener_asserts [of "\<lparr>n_socks = Map.empty, n_next = 5, n_refuse = []\<rparr>" 9001 74537] by (simp add: net_wf_def)

text \<open>Every refusal stops the program: a socket that is returned listens.\<close>

lemma sys_on_zero: "sys_on fd ok f n = (0, n') \<Longrightarrow> \<exists>s. n_socks n fd = Some s \<and> n_socks n' = (n_socks n)(fd \<mapsto> f s)"
  by (auto simp: sys_on_def refused_def Let_def put_socket_def split: option.splits if_splits list.splits)

lemma listener_only_if_listening:
  assumes "socket_create_listener_on_port port n = Inr (fd, n')"
  shows "listens fd port n'"
proof -
  obtain n2 n3 where b: "sys_bind fd (localhost port) n2 = (0, n3)" "sys_listen fd n3 = (0, n')"
    using assms by (auto simp: socket_create_listener_on_port_def socket_throw_error_def Let_def split: prod.splits if_splits)
  from sys_on_zero [OF b(1) [unfolded sys_bind_def]] sys_on_zero [OF b(2) [unfolded sys_listen_def]] show ?thesis
    by (auto simp: listens_def)
qed

text \<open>The blocking flag is set and cleared without touching the other flags.\<close>

lemma blocking_flag:
  assumes "n_refuse n = []" and "n_socks n fd = Some s" and "0 \<le> sint (so_flags s)"
  shows "\<exists>n1. socket_set_non_blocking fd n = Inr (fd, n1) \<and> sys_getfl fd n1 = so_flags s OR O_NONBLOCK"
    and "\<exists>n1. socket_set_blocking fd n = Inr (fd, n1) \<and> sys_getfl fd n1 = so_flags s AND NOT O_NONBLOCK \<and>
       (\<exists>n2. socket_set_non_blocking fd n1 = Inr (fd, n2) \<and> sys_getfl fd n2 = so_flags s OR O_NONBLOCK)"
proof -
  have "(so_flags s AND NOT O_NONBLOCK) OR O_NONBLOCK = so_flags s OR O_NONBLOCK" by (intro bit_word_eqI) (auto simp: bit_simps)
  then show "\<exists>n1. socket_set_non_blocking fd n = Inr (fd, n1) \<and> sys_getfl fd n1 = so_flags s OR O_NONBLOCK"
    "\<exists>n1. socket_set_blocking fd n = Inr (fd, n1) \<and> sys_getfl fd n1 = so_flags s AND NOT O_NONBLOCK \<and>
       (\<exists>n2. socket_set_non_blocking fd n1 = Inr (fd, n2) \<and> sys_getfl fd n2 = so_flags s OR O_NONBLOCK)"
    using assms(1,2) by (simp_all add: socket_set_non_blocking_def socket_set_blocking_def sys_setfl_def sys_getfl_def sys_on_granted)
qed

text \<open>
  The remaining helpers: the status for \<open>EAGAIN\<close> is never delivered, \<open>socket_set_option\<close> asks for a
  structure it does not pass and is content with the refusal, and without a return value that
  happens to be an open socket no shareable socket is made.
\<close>

lemma read_data_no_eagain: "socket_read_data howMuch eagain \<noteq> Inr (x, SOCKET_STATUS_EAGAIN)"
  by (simp add: socket_read_data_def socket_throw_error_def SOCKET_STATUS_GOOD_def SOCKET_STATUS_EOF_def SOCKET_STATUS_EAGAIN_def)

lemma set_option_never_set: "\<exists>n'. socket_set_option fd n = Inr n' \<and> n_socks n' = n_socks n"
  by (auto simp: socket_set_option_def sys_set_linger_def sys_on_def refused_def Let_def split: option.splits list.splits)

lemma shareable_without_return:
  assumes "n_refuse n = []" and "left \<noteq> n_next n" and "n_socks n left = None" and "net_wf n"
  shows "async_create_shareable_socket left n = Inl Assertion"
  using assms by (simp add: async_create_shareable_socket_def async_socket_create_def sys_socket_granted net_wf_def
      async_socket_set_reuseaddr_def sys_on_def refused_def c_assert_def)

lemma listen_again:
  assumes "n_refuse n = []" and "n_socks n fd = Some s" and "so_addr s \<noteq> None"
  shows "async_socket_listen fd n = Inr (put_socket fd (s\<lparr>so_listening := True\<rparr>) n)"
  using assms by (auto simp: async_socket_listen_def sys_listen_def sys_on_granted)

text \<open>A server that is up: in a state of the invariant, idle, on the listening socket \<open>fd\<close>.\<close>

definition server_up :: "int \<Rightarrow> net \<Rightarrow> 'l async_st \<Rightarrow> bool" where
  "server_up fd n s \<longleftrightarrow> async_inv s \<and> ready s = [] \<and> as_conns (r_app s) = Map.empty \<and> w_fd (as_listening_watcher_ref (r_app s)) = fd \<and>
     as_tag (r_app s) = AsyncServer_TAG \<and> as_listening_socket_fd (r_app s) = fd \<and> k_open (r_kernel s) = k_open (net_kernel n)"

text \<open>
  The program comes up: on a port that only shareable sockets use, \<open>main\<close> makes a listening socket and a
  server on that socket, in a state of the invariant from which it runs safely.
\<close>

lemma async_main_up:
  assumes "net_wf n" and "n_refuse n = []" and "port_shared port n" and "fd_ok (n_next n)" and "epoll_fd \<noteq> - 1"
  shows "\<exists>(s :: 'l async_st) n'. async_main_start port sref epoll_fd (n_next n) n = Inr (s, n') \<and> server_up (n_next n) n' s \<and>
     r_itq s = None \<and> listens (n_next n) port n' \<and> (\<forall>fd. fd \<noteq> n_next n \<longrightarrow> n_socks n' fd = n_socks n fd)"
proof -
  obtain so n1 n2 n3 where c: "async_create_shareable_socket (n_next n) n = Inr (n_next n, n1)" "async_socket_bind (n_next n) port n1 = Inr n2"
    "async_socket_listen (n_next n) n2 = Inr n3" "made_listener (n_next n) port n so n3"
    using shareable_created [OF assms(1,2), of port] assms(3) unfolding port_shared_def by blast
  have so: "n_socks n3 (n_next n) = Some so" "so_listening so" "so_addr so \<noteq> None" "n_refuse n3 = []"
    using c(4) by (simp_all add: made_listener_def)
  have "k_open (net_kernel n3) (n_next n)" using so(1) by (simp add: net_kernel_def)
  from started_inv [where 'l = 'l, OF assms(5,4) this, of sref port] obtain s :: "'l async_st" where
    s: "started sref port (n_next n) epoll_fd (net_kernel n3) = Inr s" "async_inv s" "ready s = []" "as_conns (r_app s) = Map.empty"
    "as_listening_watcher_ref (r_app s) = listener_set (rtor_listener_new (Suc sref) (n_next n)) (Some on_event_listening_ptr) (Some sref)"
    "k_open (r_kernel s) = k_open (net_kernel n3)" "r_itq s = None" by blast
  then obtain s0 :: "'l async_st" where s0: "AsyncServer_init_with_socket sref port (n_next n) epoll_fd (net_kernel n3) = Inr s0" "AsyncServer_start s0 = Inr s"
    by (auto simp: started_def AsyncServer_new_with_socket_def rbind_eq_Inr)
  have new: "AsyncServer_new sref port epoll_fd (n_next n) n = Inr (s0, n3)"
    using c(1-3) s0(1) by (simp add: AsyncServer_new_def AsyncServer_init_def)
  have st: "as_listening_socket_fd (r_app s) = n_next n \<and> as_tag (r_app s) = AsyncServer_TAG" using s(1)
    by (auto simp: started_def AsyncServer_new_with_socket_def AsyncServer_init_with_socket_def AsyncServer_start_def
        rtor_reactor_new_def rtor_reactor_init_def rtor_listener_register_def rbind_eq_Inr Let_def dest!: rtor_reactor_register_app)
  have "put_socket (n_next n) (so\<lparr>so_listening := True\<rparr>) n3 = n3" using so(1,2) by (simp add: put_socket_def map_upd_triv)
  then have "async_main_start port sref epoll_fd (n_next n) n = Inr (s, n3)"
    using listen_again [OF so(4,1,3)] st new s0(2) by (simp add: async_main_start_def)
  moreover have "server_up (n_next n) n3 s"
    using s(2-6) st by (simp add: server_up_def listener_set_def rtor_listener_new_def rtor_listener_init_def)
  moreover have "listens (n_next n) port n3" "\<forall>fd. fd \<noteq> n_next n \<longrightarrow> n_socks n3 fd = n_socks n fd"
    using c(4) by (simp_all add: made_listener_def listens_def)
  ultimately show ?thesis using s(7) by blast
qed

lemma sync_listener_created:
  assumes "net_wf n" and "n_refuse n = []" and "port_shared port n"
  shows "\<exists>s n'. sync_create_listener_socket port n = Inr (n_next n, n') \<and> made_listener (n_next n) port n s n' \<and> so_reuseport s"
proof -
  let ?fd = "n_next n" and ?s = "new_sock\<lparr>so_reuseaddr := True, so_reuseport := True\<rparr>"
  let ?n1 = "put_socket ?fd ?s (n\<lparr>n_next := ?fd + 1\<rparr>)"
  let ?s2 = "?s\<lparr>so_addr := Some (localhost port), so_listening := True\<rparr>"
  have fd: "?fd \<noteq> - 1" using assms(1) by (simp add: net_wf_def)
  have free: "addr_free ?fd (localhost port) ?n1 ?s"
    using assms(3) by (intro addr_free_other) (auto simp: shares_def port_shared_def)
  have "sync_create_listener_socket port n = Inr (?fd, put_socket ?fd ?s2 ?n1)"
    using assms(2) fd free
    by (simp add: sync_create_listener_socket_def sys_socket_granted sys_on_granted sys_bind_def sys_listen_def new_sock_def)
  moreover have "made_listener ?fd port n ?s2 (put_socket ?fd ?s2 ?n1)" using assms(1,2) by (auto simp: made_listener_def net_wf_def)
  moreover have "so_reuseport ?s2" by simp
  ultimately show ?thesis by blast
qed

end
