(* ===== verification/CH_AsyncSession.thy ===== *)
theory CH_AsyncSession
  imports CH_AsyncProps CH_SyncSession
begin

text \<open>
  Whole sessions of the asynchronous server: from the accepted connection to its release, with
  requests cut into any number of reads, replies taken by \<open>send\<close> in pieces, and waits for events in
  between.
\<close>

section \<open>A request over several reads\<close>

text \<open>Before a message is complete the callbacks do not look at the context of the parser.\<close>

abbreviation set_ctx :: "'c \<Rightarrow> ('l, 'c) http_parser \<Rightarrow> ('l, 'c) http_parser" where
  "set_ctx c p \<equiv> p\<lparr>hp_handler_context := c\<rparr>"

lemmas ll_dispatch_ctx = ll_dispatch_context [unfolded on_context_def]

lemma ll_run_ctx:
  assumes "On_message_complete \<notin> set es"
  shows "ll_run h es (set_ctx c p) = rbind (ll_run h es p) (\<lambda>(rc, p). Inr (rc, set_ctx c p))"
  using assms
proof (induction es arbitrary: p)
  case (Cons e es)
  then have ne: "e \<noteq> On_message_complete" by auto
  show ?case
  proof (cases "ll_dispatch h e p")
    case (Inr x)
    then show ?thesis using Cons by (cases x) (simp add: ll_dispatch_ctx [OF ne])
  qed (simp add: ll_dispatch_ctx [OF ne])
qed simp

text \<open>
  \<open>takes_request r es p\<close>: the events \<open>es\<close>, which are still to come, complete the request \<open>r\<close> that the
  parser \<open>p\<close> of a connection has begun.
\<close>

definition conn_active :: "conn_ctx \<Rightarrow> bool" where
  "conn_active ctx \<longleftrightarrow> ac_tag (fst ctx) = AsyncConnection_TAG \<and> ah_tag (snd ctx) = AsyncHandler_TAG \<and>
     ac_read_state (fst ctx) = READ_STATE_ACTIVE"

definition takes_request :: "frag_request \<Rightarrow> ll_event list \<Rightarrow> ('l, conn_ctx) http_parser \<Rightarrow> bool" where
  "takes_request r es p \<longleftrightarrow> hp_typed p \<and>
     (\<forall>x hdl. conn_active (x, hdl) \<longrightarrow>
        (\<exists>m q. ll_run async_on_read_message_complete es (set_ctx (x, hdl) p) = Inr (0, q) \<and> hp_ready q \<and>
           is_request_of r m \<and> hp_handler_context q = (x\<lparr>ac_input_message_ptr := Some m\<rparr>, hdl)))"

lemma ready_takes:
  assumes "hp_ready p" and "frag_request_ok r" and "filter significant es = request_events r"
  shows "takes_request r es p"
proof -
  have "\<exists>m q. ll_run async_on_read_message_complete es (set_ctx (x, hdl) p) = Inr (0, q) \<and> hp_ready q \<and>
      is_request_of r m \<and> hp_handler_context q = (x\<lparr>ac_input_message_ptr := Some m\<rparr>, hdl)"
    if "conn_active (x, hdl)" for x hdl
    using run_requests_last [where rs = "[r]" and x = x and mp = "ac_input_message_ptr x" and hdl = hdl,
        OF hp_ready_ctx [OF assms(1), where c = "(x, hdl)"]] that assms(2)
      ll_run_significant [of async_on_read_message_complete es "set_ctx (x, hdl) p"] assms(3)
    by (auto simp: conn_active_def)
  then show ?thesis using hp_ready_typed [OF assms(1)] by (simp add: takes_request_def)
qed

lemma takes_consume:
  assumes "hp_typed p" and "b \<noteq> []" and "exec (hp_llhttp p) b = (es, l, e)" and "ll_run h es (set_ctx c p) = Inr (0, q)"
  shows "http_parser_consume exec fin h (set_ctx c p) b = Inr (e, set_ll l q)"
  using consume_run [of "set_ctx c p" b exec es l e h q fin] assms by (simp add: hp_typed_def)

lemma takes_part:
  assumes t: "takes_request r (es0 @ es) p" and n: "On_message_complete \<notin> set es0" and b: "b \<noteq> []"
    and e: "exec (hp_llhttp p) b = (es0, l, e)" and a: "conn_active (x, hdl)"
  shows "\<exists>q. http_parser_consume exec fin async_on_read_message_complete (set_ctx (x, hdl) p) b = Inr (e, q) \<and>
     takes_request r es q \<and> hp_llhttp q = l \<and> hp_handler_context q = (x, hdl)"
proof -
  let ?h = async_on_read_message_complete
  have ty: "hp_typed p" using t by (simp add: takes_request_def)
  obtain q where q: "ll_run ?h es0 (set_ctx (x, hdl) p) = Inr (0, q)"
    using t a unfolding takes_request_def ll_run_append by (fastforce simp: rbind_eq_Inr split: if_splits)
  have ty': "hp_typed (set_ctx (x, hdl) p)" using ty by (simp add: hp_typed_def)
  have k: "hp_typed q" "hp_handler_context q = (x, hdl)" using ll_run_kept [OF ty' n q] by simp_all
  have "\<exists>m q1. ll_run ?h es (set_ctx (y, hd) (set_ll l q)) = Inr (0, q1) \<and> hp_ready q1 \<and> is_request_of r m \<and>
      hp_handler_context q1 = (y\<lparr>ac_input_message_ptr := Some m\<rparr>, hd)" if y: "conn_active (y, hd)" for y hd
  proof -
    have "ll_run ?h es0 (set_ctx (y, hd) (set_ctx (x, hdl) p)) = Inr (0, set_ctx (y, hd) q)"
      using ll_run_ctx [OF n, of ?h "(y, hd)" "set_ctx (x, hdl) p"] q by simp
    then have "ll_run ?h (es0 @ es) (set_ctx (y, hd) p) = ll_run ?h es (set_ctx (y, hd) q)" by (simp add: ll_run_append)
    moreover have "\<exists>m q1. ll_run ?h (es0 @ es) (set_ctx (y, hd) p) = Inr (0, q1) \<and> hp_ready q1 \<and> is_request_of r m \<and>
        hp_handler_context q1 = (y\<lparr>ac_input_message_ptr := Some m\<rparr>, hd)" using t y unfolding takes_request_def by blast
    ultimately obtain m q1 where q1: "ll_run ?h es (set_ctx (y, hd) q) = Inr (0, q1)" "hp_ready q1" "is_request_of r m"
      "hp_handler_context q1 = (y\<lparr>ac_input_message_ptr := Some m\<rparr>, hd)" by auto
    have sw: "set_ctx (y, hd) (set_ll l q) = set_ll l (set_ctx (y, hd) q)" by simp
    have "ll_run ?h es (set_ctx (y, hd) (set_ll l q)) = Inr (0, set_ll l q1)"
      unfolding sw using ll_run_ll [of ?h es l "set_ctx (y, hd) q"] q1(1) by simp
    then show ?thesis using q1(2-4) by (intro exI [of _ m] exI [of _ "set_ll l q1"]) (simp add: hp_ready_def)
  qed
  moreover have "hp_typed (set_ll l q)" using k(1) by (simp add: hp_typed_def)
  ultimately have "takes_request r es (set_ll l q)" by (simp add: takes_request_def)
  then show ?thesis using takes_consume [where exec = exec, OF ty b e q, of fin] k(2) by (intro exI [of _ "set_ll l q"]) simp
qed

lemma takes_last:
  assumes t: "takes_request r es p" and b: "b \<noteq> []" and e: "exec (hp_llhttp p) b = (es, l, e)" and a: "conn_active (x, hdl)"
  shows "\<exists>m q. http_parser_consume exec fin async_on_read_message_complete (set_ctx (x, hdl) p) b = Inr (e, q) \<and>
     hp_ready q \<and> hp_llhttp q = l \<and> is_request_of r m \<and> hp_handler_context q = (x\<lparr>ac_input_message_ptr := Some m\<rparr>, hdl)"
proof -
  obtain m q where q: "ll_run async_on_read_message_complete es (set_ctx (x, hdl) p) = Inr (0, q)" "hp_ready q"
    "is_request_of r m" "hp_handler_context q = (x\<lparr>ac_input_message_ptr := Some m\<rparr>, hdl)" and ty: "hp_typed p"
    using t a unfolding takes_request_def by blast
  from takes_consume [where exec = exec, OF ty b e q(1), of fin] q(2-4) show ?thesis
    by (intro exI [of _ m] exI [of _ "set_ll l q"]) (simp add: hp_ready_def)
qed

section \<open>Steps of one connection\<close>

text \<open>
  The connection at \<open>c\<close> has the record \<open>x\<close> and the parser \<open>p\<close>, and \<open>fs\<close> is posted for it; what is
  posted for other connections is left open.
\<close>

definition conn_at :: "addr \<Rightarrow> AsyncConnection \<Rightarrow> ('l, conn_ctx) http_parser \<Rightarrow> rfunctor list \<Rightarrow> 'l async_st \<Rightarrow> bool" where
  "conn_at c x p fs s \<longleftrightarrow> async_inv s \<and> posts_of s c x = fs \<and> as_conns (r_app s) c = Some x \<and> as_parsers (r_app s) c = Some p"

text \<open>The handlers, and the queue to other threads, which the server does not use.\<close>

definition same_base :: "'l async_st \<Rightarrow> 'l async_st \<Rightarrow> bool" where
  "same_base t s \<longleftrightarrow> as_handlers (r_app t) = as_handlers (r_app s) \<and> r_itq t = r_itq s"

text \<open>A step that keeps the handlers takes the connection there.\<close>

definition moves_to ::
  "'l async_st \<Rightarrow> addr \<Rightarrow> AsyncConnection \<Rightarrow> ('l, conn_ctx) http_parser \<Rightarrow> rfunctor list \<Rightarrow> 'l async_st \<Rightarrow> bool" where
  "moves_to s c x p fs s' \<longleftrightarrow> conn_at c x p fs s' \<and> same_base s' s"

lemma conn_at_view: "conn_at c x p fs s \<Longrightarrow> async_inv t \<Longrightarrow> same_view c s t \<Longrightarrow> conn_at c x p fs t"
  by (simp add: conn_at_def same_view_def)

lemma own_head:
  assumes "conn_at c x p [f] s" and "own_step c (Run io) s"
  shows "\<exists>rest. ready s = f # rest"
  using assms by (cases "ready s") (auto simp: conn_at_def posts_of_def)

abbreviation reader_posted :: "addr \<Rightarrow> rfunctor list" where
  "reader_posted c \<equiv> [\<lparr>fn_f = postable_reader_ptr, fn_arg = c\<rparr>]"
abbreviation writer_posted :: "addr \<Rightarrow> rfunctor list" where
  "writer_posted c \<equiv> [\<lparr>fn_f = async_postable_writer_ptr, fn_arg = c\<rparr>]"
abbreviation written_posted :: "addr \<Rightarrow> rfunctor list" where
  "written_posted c \<equiv> [\<lparr>fn_f = postable_write_complete_ptr, fn_arg = c\<rparr>]"
abbreviation request_posted :: "addr \<Rightarrow> rfunctor list" where
  "request_posted h \<equiv> [\<lparr>fn_f = postable_handle_request_ptr, fn_arg = h\<rparr>]"

lemma busy_posts: "core_inv {c} t \<Longrightarrow> as_conns (r_app t) c = Some x \<Longrightarrow> posts_of t c x = []"
  unfolding core_inv_def by auto

lemma conn_at_settled:
  assumes "settled c t s" and "list_ok t" and "moved t c y fs s" and "posts_of t c x = []" and "same_id x y"
    and "\<forall>f \<in> set fs. mine c (ac_handler_ref y) f" and "as_parsers (r_app s) c = Some p"
  shows "moves_to t c y p fs (s\<lparr>r_runloop_executing := b\<rparr>)" "moves_to t c y p fs s"
  using assms settled_inv [OF assms(1,2)]
  by (auto simp: conn_at_def moves_to_def same_base_def moved_def posts_of_def settled_def others_kept_def same_id_def)

lemma moves_from: "moves_to t c x p fs s' \<Longrightarrow> same_base t s \<Longrightarrow> moves_to s c x p fs s'"
  by (simp add: moves_to_def same_base_def)

text \<open>The functions between the reads leave the parser alone.\<close>

lemma put_conn_parsers [simp]: "as_parsers (r_app (put_conn c x s)) = as_parsers (r_app s)"
  by (simp add: put_conn_def)

lemma step_parsers:
  "read_new_message c s = Inr s' \<Longrightarrow> as_parsers (r_app s') = as_parsers (r_app s)"
  "read_eagain c s = Inr s' \<Longrightarrow> as_parsers (r_app s') = as_parsers (r_app s)"
  "read_need_data c s = Inr s' \<Longrightarrow> as_parsers (r_app s') = as_parsers (r_app s)"
  "read_error c s = Inr s' \<Longrightarrow> as_parsers (r_app s') = as_parsers (r_app s)"
  "read_epollin c s = Inr s' \<Longrightarrow> as_parsers (r_app s') = as_parsers (r_app s)"
  "write_epollout c s = Inr s' \<Longrightarrow> as_parsers (r_app s') = as_parsers (r_app s)"
  "async_handler_handle_response env h req resp s = Inr s' \<Longrightarrow> as_parsers (r_app s') = as_parsers (r_app s)"
  "async_postable_writer io c s = Inr s' \<Longrightarrow> as_parsers (r_app s') = as_parsers (r_app s)"
  by (auto simp: read_new_message_def read_eagain_def read_need_data_def read_error_def read_epollin_def write_epollout_def
      async_read_start_def post_read_start_def post_delegate_handle_request_def async_handler_handle_response_def
      async_connection_write_def async_post_to_reactor_def async_postable_writer_def writer_def write_complete_def
      write_incomplete_def post_postable_writer_def write_error_def rbind_eq_Inr Let_def
      dest!: rtor_reactor_post_app split: option.splits if_splits)

text \<open>Both functors that end in the reader get there with the connection reading.\<close>

lemma run_reads:
  assumes at: "conn_at c x p fs s" and fs: "fs = reader_posted c \<or> fs = written_posted c" and own: "own_step c (Run io) s"
  shows "\<exists>t y u. ready t = tl (ready s) \<and> list_ok t \<and> posts_of t c x = [] \<and> running t c y u \<and> reading y \<and> ac_input_message_ptr y = None \<and> same_id x y \<and>
     as_parsers (r_app u) c = Some p \<and> same_base t s \<and>
     (\<forall>env s1. reader env io c u = Inr s1 \<longrightarrow> server_step env (Run io) s = Inr (s1\<lparr>r_runloop_executing := False\<rparr>))"
proof -
  obtain f where f: "fs = [\<lparr>fn_f = f, fn_arg = c\<rparr>]" "f = postable_reader_ptr \<or> f = postable_write_complete_ptr" using fs by blast
  obtain rest where s: "async_inv s" "ready s = \<lparr>fn_f = f, fn_arg = c\<rparr> # rest" "as_conns (r_app s) c = Some x" "as_parsers (r_app s) c = Some p"
    using at f(1) own_head [OF _ own] by (auto simp: conn_at_def)
  from take_named [OF s(1-3)] f(2) obtain l t ph where t: "functor_list_remove (r_ready_list s) = Inr (\<lparr>fn_f = f, fn_arg = c\<rparr>, l)"
    "t = s\<lparr>r_ready_list := l, r_runloop_executing := True\<rparr>" "core_inv {c} t" "list_ok t"
    "in_phase ph c x [\<lparr>fn_f = f, fn_arg = c\<rparr>]" "ac_input_message_ptr x = None" "as_conns (r_app t) c = Some x"
    by (auto simp: mine_def)
  note run = running_start [OF t(3,7)]
  define y where "y = (if f = postable_reader_ptr then x\<lparr>ac_readside_posted := False\<rparr> else x\<lparr>ac_read_state := READ_STATE_ACTIVE\<rparr>)"
  have y: "same_id x y" "conn_local y" "ac_input_message_ptr y = None" using t(6) running_local [OF run] by (simp_all add: y_def)
  have rd: "reading y" using t(5) f(2) by (cases ph) (auto simp: in_phase_def reading_def y_def async_ptrs)
  have r: "running t c y (put_conn c y t)" by (rule running_put [OF run y(2,1)])
  obtain hdl where h: "check_handler t (ac_handler_ref x) = Inr hdl" "ah_async_connection_ref hdl = Some c"
    using running_handler [OF run] by blast
  have "async_code env io f c t = reader env io c (put_conn c y t)" for env
    using f(2) t(5,6) h running_check [OF run]
    by (cases ph) (auto simp: in_phase_def async_code_def postable_reader_def postable_write_complete_def handle_write_complete_def
        async_connection_read_def y_def async_ptrs Let_def)
  then have "reader env io c (put_conn c y t) = Inr s1 \<longrightarrow> server_step env (Run io) s = Inr (s1\<lparr>r_runloop_executing := False\<rparr>)"
    for env s1 using t(1,2) by (simp add: run_one_def Functor_call_def)
  moreover have "as_parsers (r_app (put_conn c y t)) c = Some p" using s(4) t(2) by simp
  moreover have "same_base t s" using t(2) by (simp add: same_base_def)
  moreover have "ready t = tl (ready s)" using t(1,2) run_ready_step [of s] s(1,2) by (auto simp: async_inv_def core_inv_def)
  ultimately show ?thesis using t(4) busy_posts [OF t(3,7)] r rd y(1,3) by (intro exI [of _ t] exI [of _ y] exI [of _ "put_conn c y t"]) blast
qed

text \<open>What a call of the reader leaves when the parser takes the bytes it received.\<close>

abbreviation conn_parse :: "'l async_env \<Rightarrow> conn_ctx \<Rightarrow> ('l, conn_ctx) http_parser \<Rightarrow> string \<Rightarrow> (int \<times> ('l, conn_ctx) http_parser) res" where
  "conn_parse env ctx p b \<equiv>
     http_parser_consume (e_llhttp_execute env) (e_llhttp_finish env) async_on_read_message_complete (set_ctx ctx p) b"

lemma conn_consume_result:
  assumes "conn_consume env c b (put_conn c z u) = Inr (ec, s1)" and "get_handler u (ac_handler_ref z) = Inr hdl"
    and "as_parsers (r_app u) c = Some p" and "conn_parse env (z, hdl) p b = Inr (e, q)" and "hp_handler_context q = (z1, hdl)"
  shows "ec = e \<and> get_conn s1 c = Inr z1 \<and> as_parsers (r_app s1) c = Some q"
  using assms by (auto simp: conn_consume_def get_conn_def get_handler_def h_get_def put_conn_def put_parser_def put_handler_def)

lemma reader_result:
  assumes run: "running t c y u" and rd: "reading y" "ac_input_message_ptr y = None" and p: "as_parsers (r_app u) c = Some p"
    and io: "io_recv io = Some b" "b \<noteq> []" "length b \<le> 1000000"
    and parse: "\<And>z hdl. conn_active (z, hdl) \<Longrightarrow>
       \<exists>im q. conn_parse env (z, hdl) p b = Inr (e, q) \<and> hp_handler_context q = (z\<lparr>ac_input_message_ptr := im\<rparr>, hdl) \<and> P (ac_input_message_ptr z) im q"
  shows "\<exists>b1 im q s1. running t c (y\<lparr>ac_active_input_buffer_ref := Some b1, ac_input_message_ptr := im\<rparr>) s1 \<and>
     as_parsers (r_app s1) c = Some q \<and> P None im q \<and>
     reader env io c u =
       (if im \<noteq> None then read_new_message c s1 else if io_errno io = EAGAIN then read_eagain c s1
        else if e = HPE_OK then read_need_data c s1 else read_error c s1)"
proof -
  have all: "take 1000000 b = b" using io(3) by simp
  have "parser_accepts env p (take 1000000 b)"
    unfolding parser_accepts_def all using parse by (fastforce simp: conn_active_def)
  from reader_received [OF run rd io(1,2) p this] obtain b1 ec im s1 where
    c: "conn_consume env c b (put_conn c (y\<lparr>ac_active_input_buffer_ref := Some b1\<rparr>) u) = Inr (ec, s1)"
    "running t c (y\<lparr>ac_active_input_buffer_ref := Some b1, ac_input_message_ptr := im\<rparr>) s1"
    "reader env io c u = (if im \<noteq> None then read_new_message c s1 else if io_errno io = EAGAIN then read_eagain c s1
       else if ec = HPE_OK then read_need_data c s1 else read_error c s1)" unfolding all by blast
  let ?z = "y\<lparr>ac_active_input_buffer_ref := Some b1\<rparr>"
  obtain hdl where h: "get_handler u (ac_handler_ref ?z) = Inr hdl" "ah_tag hdl = AsyncHandler_TAG"
    using running_handler [OF run] by auto
  have "conn_active (?z, hdl)" using running_local [OF run] rd(1) h(2) by (simp add: conn_active_def conn_local_def reading_def)
  from parse [OF this] rd(2) obtain im1 q where q: "conn_parse env (?z, hdl) p b = Inr (e, q)"
    "hp_handler_context q = (?z\<lparr>ac_input_message_ptr := im1\<rparr>, hdl)" "P None im1 q" by auto
  note r = conn_consume_result [OF c(1) h(1) p q(1,2)]
  have "?z\<lparr>ac_input_message_ptr := im\<rparr> = ?z\<lparr>ac_input_message_ptr := im1\<rparr>" using r running_conn [OF c(2)] by simp
  then have "im = im1" by (metis AsyncConnection.select_convs(7) AsyncConnection.surjective AsyncConnection.update_convs(7))
  with c(2,3) q(3) r show ?thesis by blast
qed

lemma read_part:
  assumes at: "conn_at c x p fs s" "fs = reader_posted c \<or> fs = written_posted c" "own_step c (Run io) s"
    and tk: "takes_request r (es0 @ es) p" "On_message_complete \<notin> set es0" "e_llhttp_execute env (hp_llhttp p) b = (es0, l, 0)"
    and io: "io_recv io = Some b" "b \<noteq> []" "length b \<le> 1000000" "io_errno io \<noteq> EAGAIN"
  shows "\<exists>s' x' q. server_step env (Run io) s = Inr s' \<and> moves_to s c x' q (reader_posted c) s' \<and> same_id x x' \<and>
     takes_request r es q \<and> hp_llhttp q = l \<and> ready s' = tl (ready s) @ reader_posted c"
proof -
  from run_reads [OF at] obtain t y u where rd: "ready t = tl (ready s)" and t: "list_ok t" "posts_of t c x = []" "running t c y u" "reading y"
    "ac_input_message_ptr y = None" "same_id x y" "as_parsers (r_app u) c = Some p" "same_base t s"
    "\<And>s1. reader env io c u = Inr s1 \<Longrightarrow> server_step env (Run io) s = Inr (s1\<lparr>r_runloop_executing := False\<rparr>)" by blast
  have parse: "\<exists>im q. conn_parse env (z, hdl) p b = Inr (0, q) \<and> hp_handler_context q = (z\<lparr>ac_input_message_ptr := im\<rparr>, hdl) \<and>
      (im = ac_input_message_ptr z \<and> takes_request r es q \<and> hp_llhttp q = l)" if "conn_active (z, hdl)" for z hdl
    using takes_part [where exec = "e_llhttp_execute env", OF tk(1,2) io(2) tk(3) that, of "e_llhttp_finish env"] by auto
  from reader_result [OF t(3-5,7) io(1-3), of env 0 "\<lambda>i im q. im = i \<and> takes_request r es q \<and> hp_llhttp q = l", OF parse] io(4)
  obtain b1 q s1 where q: "running t c (y\<lparr>ac_active_input_buffer_ref := Some b1, ac_input_message_ptr := None\<rparr>) s1"
    "as_parsers (r_app s1) c = Some q" "takes_request r es q" "hp_llhttp q = l" "reader env io c u = read_need_data c s1"
    by (auto simp: HPE_OK_def)
  let ?z = "y\<lparr>ac_active_input_buffer_ref := Some b1, ac_input_message_ptr := None\<rparr>"
  from read_need_data_ok [OF q(1)] t(4) obtain s' where s': "read_need_data c s1 = Inr s'" "settled c t s'"
    "moved t c (?z\<lparr>ac_readside_posted := True\<rparr>) (reader_posted c) s'" by (auto simp: reading_def)
  have "as_parsers (r_app s') c = Some q" using step_parsers(3) [OF s'(1)] q(2) by simp
  from moves_from [OF conn_at_settled(1) [OF s'(2) t(1) s'(3) t(2) _ _ this] t(8)] t(6) t(9) [of s'] q(3-5) s'(1,3) rd show ?thesis
    by (intro exI [of _ "s'\<lparr>r_runloop_executing := False\<rparr>"] exI [of _ "?z\<lparr>ac_readside_posted := True\<rparr>"] exI [of _ q]) (simp add: mine_def moved_def)
qed

lemma read_last:
  assumes at: "conn_at c x p fs s" "fs = reader_posted c \<or> fs = written_posted c" "own_step c (Run io) s"
    and tk: "takes_request r es p" "e_llhttp_execute env (hp_llhttp p) b = (es, l, e)"
    and io: "io_recv io = Some b" "b \<noteq> []" "length b \<le> 1000000"
  shows "\<exists>s' x' q m. server_step env (Run io) s = Inr s' \<and> moves_to s c x' q (request_posted (ac_handler_ref x)) s' \<and> same_id x x' \<and>
     is_request_of r m \<and> ac_scratch_request x' = Some (Some m) \<and> hp_ready q \<and> hp_llhttp q = l"
proof -
  from run_reads [OF at] obtain t y u where t: "list_ok t" "posts_of t c x = []" "running t c y u" "reading y"
    "ac_input_message_ptr y = None" "same_id x y" "as_parsers (r_app u) c = Some p" "same_base t s"
    "\<And>s1. reader env io c u = Inr s1 \<Longrightarrow> server_step env (Run io) s = Inr (s1\<lparr>r_runloop_executing := False\<rparr>)" by blast
  let ?P = "\<lambda>i im q. \<exists>m. im = Some m \<and> is_request_of r m \<and> hp_ready q \<and> hp_llhttp q = l"
  have parse: "\<exists>im q. conn_parse env (z, hdl) p b = Inr (e, q) \<and> hp_handler_context q = (z\<lparr>ac_input_message_ptr := im\<rparr>, hdl) \<and>
      ?P (ac_input_message_ptr z) im q" if "conn_active (z, hdl)" for z hdl
    using takes_last [where exec = "e_llhttp_execute env", OF tk(1) io(2) tk(2) that, of "e_llhttp_finish env"] by blast
  from reader_result [OF t(3-5,7) io(1-3), of env e ?P, OF parse] obtain b1 q s1 m where
    q: "running t c (y\<lparr>ac_active_input_buffer_ref := Some b1, ac_input_message_ptr := Some m\<rparr>) s1"
    "as_parsers (r_app s1) c = Some q" "is_request_of r m" "hp_ready q" "hp_llhttp q = l" "reader env io c u = read_new_message c s1"
    by auto
  let ?z = "y\<lparr>ac_active_input_buffer_ref := Some b1, ac_input_message_ptr := Some m\<rparr>"
  let ?w = "?z\<lparr>ac_input_message_ptr := None, ac_read_state := READ_STATE_IDLE, ac_scratch_request := Some (Some m)\<rparr>"
  have "reading ?z" "msg_wf m" using t(4) q(3) by (simp_all add: reading_def is_request_of_def)
  from read_new_message_ok [OF q(1) this(1) _ this(2)] obtain s' where s': "read_new_message c s1 = Inr s'" "settled c t s'"
    "moved t c ?w (request_posted (ac_handler_ref ?z)) s'" by auto
  have "as_parsers (r_app s') c = Some q" using step_parsers(1) [OF s'(1)] q(2) by simp
  from moves_from [OF conn_at_settled(1) [OF s'(2) t(1) s'(3) t(2) _ _ this] t(8)] t(6) t(9) [of s'] q(3-6) s'(1) show ?thesis
    by (intro exI [of _ "s'\<lparr>r_runloop_executing := False\<rparr>"] exI [of _ ?w] exI [of _ q] exI [of _ m]) (simp add: same_id_def mine_def)
qed

text \<open>An event on the descriptor of the connection reaches its handler.\<close>

lemma event_reaches:
  assumes at: "conn_at c x p fs s" and ev: "\<And>st. st_context st = Some (Some c) \<Longrightarrow> async_event_handler st (ucast ev) s = Inr s'"
    and st: "settled c s s'"
  shows "server_step env (Event (ac_socket x) ev io) s = Inr s'"
proof -
  let ?lw = "as_listening_watcher_ref (r_app s)"
  have core: "core_inv {} s" and wf: "Reactor_wf s" and srv: "server_ok s" and x: "as_conns (r_app s) c = Some x"
    using at by (simp_all add: conn_at_def async_inv_def core_inv_def)
  then obtain a sm where a: "as_streams (r_app s) a = Some sm" "stream_ok sm a c (ac_socket x)" "ft_view (r_table s) (ac_socket x) = Some a"
    unfolding core_inv_def conn_links_def by blast
  have "a \<noteq> w_ref ?lw" using a(1) server_ok_listener(2) [OF srv] by auto
  moreover have "FdTable_lookup (r_table s) (ac_socket x) = Inr a" using fdt.look_some a(3) wf by (auto simp: Reactor_wf_def)
  moreover have "async_event_handler sm (ucast ev) s = Inr s'" using ev a(2) by (simp add: stream_ok_def)
  moreover have "Reactor_wf s'" using st by (simp add: settled_def core_inv_def)
  ultimately show ?thesis using a(1,2) wf
    by (simp add: dispatch_event_def async_handlers_def Let_def h_get_def stream_handler_def stream_ok_def)
qed

lemma read_wakes_posts:
  assumes at: "conn_at c x p [] s" and st: "ac_read_state x = READ_STATE_EAGAINED" and ev: "ev AND EPOLLIN \<noteq> 0"
  shows "\<exists>s'. server_step env (Event (ac_socket x) ev io) s = Inr s' \<and>
     moves_to s c (x\<lparr>ac_read_state := READ_STATE_ACTIVE, ac_readside_posted := True\<rparr>) p (reader_posted c) s' \<and>
     ready s' = ready s @ reader_posted c \<and> r_kernel s' = r_kernel s"
proof -
  have s: "core_inv {} s" "list_ok s" "as_conns (r_app s) c = Some x" "posts_of s c x = []" "as_parsers (r_app s) c = Some p"
    using at by (simp_all add: conn_at_def async_inv_def)
  obtain ph where "in_phase ph c x (posts_of s c x)" using core_inv_conn [OF s(1,3)] by blast
  then have w: "ac_write_state x \<noteq> WRITE_STATE_EAGAINED" using st by (cases ph) (auto simp: in_phase_def async_states)
  obtain s' where s': "read_epollin c s = Inr s'" "settled c s s'"
    "moved s c (x\<lparr>ac_read_state := READ_STATE_ACTIVE, ac_readside_posted := True\<rparr>) (reader_posted c) s'"
    using read_epollin_ok [OF s(1,3)] st by auto
  have wo: "write_epollout c s = Inr s" using write_epollout_ok [OF s(1,3)] w by auto
  have ne: "ev64 ev AND ev64 EPOLLIN \<noteq> 0" using ev by (simp add: ev64_and)
  have "async_event_handler st (ucast ev) s = Inr s'" if "st_context st = Some (Some c)" for st
    using that core_inv_check [OF s(1,3)] wo s'(1) ne by (simp add: async_event_handler_def)
  from event_reaches [OF at this s'(2)] have "server_step env (Event (ac_socket x) ev io) s = Inr s'" .
  moreover have "moves_to s c (x\<lparr>ac_read_state := READ_STATE_ACTIVE, ac_readside_posted := True\<rparr>) p (reader_posted c) s'"
    by (rule conn_at_settled(2) [OF s'(2) s(2) s'(3) s(4)]) (use step_parsers(5) [OF s'(1)] s(5) in \<open>simp_all add: same_id_def mine_def\<close>)
  ultimately show ?thesis using s'(3) by (auto simp: moved_def)
qed

lemma read_wakes:
  assumes "conn_at c x p [] s" and "ac_read_state x = READ_STATE_EAGAINED" and "ev AND EPOLLIN \<noteq> 0"
  shows "\<exists>s'. server_step env (Event (ac_socket x) ev io) s = Inr s' \<and>
     moves_to s c (x\<lparr>ac_read_state := READ_STATE_ACTIVE, ac_readside_posted := True\<rparr>) p (reader_posted c) s'"
  using read_wakes_posts [OF assms] by blast

lemma reader_blocks:
  assumes run: "running t c y u" and rd: "reading y" "ac_input_message_ptr y = None" and io: "io_recv io = None" "io_errno io = EAGAIN"
  shows "\<exists>b s'. reader env io c u = Inr s' \<and> settled c t s' \<and> as_parsers (r_app s') = as_parsers (r_app u) \<and>
     moved t c (y\<lparr>ac_active_input_buffer_ref := Some b, ac_read_state := READ_STATE_EAGAINED\<rparr>) [] s'"
proof -
  obtain b where b: "iob_wf b" "iob_capacity b = 1000000"
    "reader env io c u = read_eagain c (put_conn c (y\<lparr>ac_active_input_buffer_ref := Some b\<rparr>) u)"
    using reader_start [OF run rd, of env io] io by (auto simp: Let_def)
  let ?z = "y\<lparr>ac_active_input_buffer_ref := Some b\<rparr>" and ?u = "put_conn c (y\<lparr>ac_active_input_buffer_ref := Some b\<rparr>) u"
  have "reading ?z" "ac_input_message_ptr ?z = None" using rd by (simp_all add: reading_def)
  from read_eagain_ok [OF running_put_input [OF run b(1,2)] this] obtain s' where s': "read_eagain c ?u = Inr s'" "settled c t s'"
    "moved t c (?z\<lparr>ac_read_state := READ_STATE_EAGAINED\<rparr>) [] s'" by blast
  then show ?thesis using step_parsers(2) [OF s'(1)] b(3) by (intro exI [of _ b] exI [of _ s']) simp
qed

lemma read_wait:
  assumes at: "conn_at c x p fs s" "fs = reader_posted c \<or> fs = written_posted c" "own_step c (Run io) s"
    and io: "io_recv io = None" "io_errno io = EAGAIN"
  shows "\<exists>s' x'. server_step env (Run io) s = Inr s' \<and> moves_to s c x' p [] s' \<and> same_id x x' \<and> ac_read_state x' = READ_STATE_EAGAINED"
proof -
  from run_reads [OF at] obtain t y u where t: "list_ok t" "posts_of t c x = []" "running t c y u" "reading y"
    "ac_input_message_ptr y = None" "same_id x y" "as_parsers (r_app u) c = Some p" "same_base t s"
    "\<And>s1. reader env io c u = Inr s1 \<Longrightarrow> server_step env (Run io) s = Inr (s1\<lparr>r_runloop_executing := False\<rparr>)" by blast
  from reader_blocks [OF t(3-5) io, of env] obtain b s' where s': "reader env io c u = Inr s'" "settled c t s'"
    "as_parsers (r_app s') = as_parsers (r_app u)"
    "moved t c (y\<lparr>ac_active_input_buffer_ref := Some b, ac_read_state := READ_STATE_EAGAINED\<rparr>) [] s'" by blast
  have "as_parsers (r_app s') c = Some p" using s'(3) t(7) by simp
  from moves_from [OF conn_at_settled(1) [OF s'(2) t(1) s'(4) t(2) _ _ this] t(8)] t(6) t(9) [OF s'(1)] show ?thesis
    by (intro exI [of _ "s'\<lparr>r_runloop_executing := False\<rparr>"]
        exI [of _ "y\<lparr>ac_active_input_buffer_ref := Some b, ac_read_state := READ_STATE_EAGAINED\<rparr>"]) simp
qed

lemma read_closed:
  assumes at: "conn_at c x p fs s" "fs = reader_posted c \<or> fs = written_posted c" "own_step c (Run io) s" and io: "io_recv io = Some []"
  shows "\<exists>s' x' q. server_step env (Run io) s = Inr s' \<and> same_id x x' \<and>
     moves_to s c x' q [\<lparr>fn_f = read_close_connection_ptr, fn_arg = ac_handler_ref x\<rparr>] s'"
proof -
  from run_reads [OF at] obtain t y u where t: "list_ok t" "posts_of t c x = []" "running t c y u" "reading y"
    "ac_input_message_ptr y = None" "same_id x y" "as_parsers (r_app u) c = Some p" "same_base t s"
    "\<And>s1. reader env io c u = Inr s1 \<Longrightarrow> server_step env (Run io) s = Inr (s1\<lparr>r_runloop_executing := False\<rparr>)" by blast
  obtain b where b: "iob_wf b" "iob_capacity b = 1000000"
    "reader env io c u = read_error c (put_conn c (y\<lparr>ac_active_input_buffer_ref := Some b\<rparr>) u)"
    using reader_start [OF t(3-5), of env io] io by (auto simp: Let_def)
  let ?z = "y\<lparr>ac_active_input_buffer_ref := Some b\<rparr>" and ?u = "put_conn c (y\<lparr>ac_active_input_buffer_ref := Some b\<rparr>) u"
  let ?w = "?z\<lparr>ac_read_state := READ_STATE_STOP, ac_write_state := WRITE_STATE_STOP\<rparr>"
  have "reading ?z" "ac_input_message_ptr ?z = None" using t(4,5) by (simp_all add: reading_def)
  from read_error_ok [OF running_put_input [OF t(3) b(1,2)] this] obtain s' where s': "read_error c ?u = Inr s'" "settled c t s'"
    "moved t c ?w [\<lparr>fn_f = read_close_connection_ptr, fn_arg = ac_handler_ref ?z\<rparr>] s'" by blast
  have "as_parsers (r_app s') c = Some p" using step_parsers(4) [OF s'(1)] t(7) by simp
  from moves_from [OF conn_at_settled(1) [OF s'(2) t(1) s'(3) t(2) _ _ this] t(8)] t(6) t(9) [of s'] s'(1) b(3) show ?thesis
    by (intro exI [of _ "s'\<lparr>r_runloop_executing := False\<rparr>"] exI [of _ ?w] exI [of _ p]) (simp add: same_id_def mine_def)
qed

text \<open>The functors of the connection that are not reads.\<close>

lemma run_functor:
  assumes at: "conn_at c x p [f] s" and own: "own_step c (Run io) s"
  shows "\<exists>t ph. ready t = tl (ready s) \<and> core_inv {c} t \<and> list_ok t \<and> posts_of t c x = [] \<and> in_phase ph c x [f] \<and> ac_input_message_ptr x = None \<and>
     as_conns (r_app t) c = Some x \<and> as_parsers (r_app t) c = Some p \<and> r_kernel t = r_kernel s \<and> as_conns (r_app t) = as_conns (r_app s) \<and>
     same_base t s \<and>
     (\<forall>env s1. async_code env io (fn_f f) (fn_arg f) t = Inr s1 \<longrightarrow>
        server_step env (Run io) s = Inr (s1\<lparr>r_runloop_executing := False\<rparr>))"
proof -
  obtain rest where s: "async_inv s" "ready s = f # rest" "as_conns (r_app s) c = Some x" "as_parsers (r_app s) c = Some p"
    using at own_head [OF at own] by (auto simp: conn_at_def)
  have "mine c (ac_handler_ref x) f" using own s(2,3) by simp
  from take_named [OF s(1-3) this] obtain l t ph where t: "functor_list_remove (r_ready_list s) = Inr (f, l)"
    "t = s\<lparr>r_ready_list := l, r_runloop_executing := True\<rparr>" "core_inv {c} t" "list_ok t"
    "in_phase ph c x [f]" "ac_input_message_ptr x = None" "as_conns (r_app t) c = Some x" "ready t = rest" by auto
  have "async_code env io (fn_f f) (fn_arg f) t = Inr s1 \<longrightarrow> server_step env (Run io) s = Inr (s1\<lparr>r_runloop_executing := False\<rparr>)"
    for env s1 using t(1,2) by (simp add: run_one_def Functor_call_def)
  then show ?thesis using t(2-8) busy_posts [OF t(3,7)] s(2,4) by (intro exI [of _ t] exI [of _ ph]) (simp add: same_base_def)
qed

lemma request_answered:
  assumes at: "conn_at c x p (request_posted (ac_handler_ref x)) s" "own_step c (Run io) s" and m: "ac_scratch_request x = Some (Some m)" "is_request_of r m"
    and app: "e_process_request env m = Some resp" "sendable env resp"
  shows "\<exists>s' x' b. server_step env (Run io) s = Inr s' \<and> moves_to s c x' p (writer_posted c) s' \<and> same_id x x' \<and>
     ac_active_output_buffer_ref x' = Some b \<and> iob_content b = reply_bytes (e_llhttp_method_name env) m resp"
proof -
  from run_functor [OF at] obtain t ph where t: "core_inv {c} t" "list_ok t" "posts_of t c x = []"
    "in_phase ph c x (request_posted (ac_handler_ref x))" "ac_input_message_ptr x = None" "as_conns (r_app t) c = Some x"
    "as_parsers (r_app t) c = Some p" "same_base t s" "\<And>s1. async_code env io postable_handle_request_ptr (ac_handler_ref x) t = Inr s1 \<Longrightarrow>
        server_step env (Run io) s = Inr (s1\<lparr>r_runloop_executing := False\<rparr>)" by auto
  have ph: "ph = Requested" using t(4) by (cases ph) (auto simp: in_phase_def async_ptrs)
  note run = running_start [OF t(1,6)]
  obtain hdl where h: "check_handler t (ac_handler_ref x) = Inr hdl" "ah_async_connection_ref hdl = Some c"
    using running_handler [OF run] by blast
  let ?y = "x\<lparr>ac_scratch_request := Some None\<rparr>"
  have y: "running t c ?y (put_conn c ?y t)" by (rule running_put [OF run]) (simp_all add: running_local [OF run])
  have pr: "in_phase Processing c ?y []" "ac_input_message_ptr ?y = None" using t(4,5) ph by (simp_all add: in_phase_def)
  have "msg_wf m" using m(2) by (simp add: is_request_of_def)
  from handle_response_ok [OF y pr this app(2)] obtain s' m1 b where
    s': "async_handler_handle_response env (ac_handler_ref x) m resp (put_conn c ?y t) = Inr s'" "settled c t s'"
    "add_connection_header m resp = Inr m1" "Message_serialize (e_llhttp_method_name env) m1 = Inr b"
    "moved t c (?y\<lparr>ac_active_output_buffer_ref := Some b, ac_write_state := WRITE_STATE_ACTIVE\<rparr>) (writer_posted c) s'" by auto
  obtain hdl' where "check_handler (put_conn c ?y t) (ac_handler_ref x) = Inr hdl'" using running_handler [OF y] by auto
  then have "postable_handle_request env (ac_handler_ref x) t = Inr s'"
    using h running_check [OF run] m(1) app(1) s'(1) by (simp add: postable_handle_request_def handle_request_def)
  then have code: "async_code env io postable_handle_request_ptr (ac_handler_ref x) t = Inr s'" by (simp add: async_code_def async_ptrs)
  have "as_parsers (r_app s') c = Some p" using step_parsers(7) [OF s'(1)] t(7) by simp
  from moves_from [OF conn_at_settled(1) [OF s'(2) t(2) s'(5) t(3) _ _ this] t(8)] t(9) [OF code] s'(3,4) show ?thesis
    by (intro exI [of _ "s'\<lparr>r_runloop_executing := False\<rparr>"]
        exI [of _ "?y\<lparr>ac_active_output_buffer_ref := Some b, ac_write_state := WRITE_STATE_ACTIVE\<rparr>"] exI [of _ b])
      (simp add: reply_bytes_def mine_def)
qed

lemma write_piece:
  assumes at: "conn_at c x p (writer_posted c) s" "own_step c (Run io) s" and b: "ac_active_output_buffer_ref x = Some b" and n: "0 < io_send io"
  shows "\<exists>s' x'. server_step env (Run io) s = Inr s' \<and> same_id x x' \<and>
     (if nat (io_send io) < length (iob_content b)
      then moves_to s c x' p (writer_posted c) s' \<and>
        (\<exists>b'. ac_active_output_buffer_ref x' = Some b' \<and> iob_content b' = drop (nat (io_send io)) (iob_content b))
      else moves_to s c x' p (written_posted c) s')"
proof -
  from run_functor [OF at] obtain t ph where t: "core_inv {c} t" "list_ok t" "posts_of t c x = []"
    "in_phase ph c x (writer_posted c)" "ac_input_message_ptr x = None" "as_conns (r_app t) c = Some x"
    "as_parsers (r_app t) c = Some p" "same_base t s" "\<And>s1. async_code env io async_postable_writer_ptr c t = Inr s1 \<Longrightarrow>
        server_step env (Run io) s = Inr (s1\<lparr>r_runloop_executing := False\<rparr>)" by auto
  have ph: "ph = Writing" using t(4) by (cases ph) (auto simp: in_phase_def async_ptrs)
  from async_postable_writer_sent [OF t(1,6,5) t(4) [unfolded ph] b n] obtain s' b1 where
    s': "async_postable_writer io c t = Inr s'" "settled c t s'" "iob_content b1 = drop (nat (io_send io)) (iob_content b)" and
    mv: "if iob_content b1 = []
      then moved t c (x\<lparr>ac_write_state := WRITE_STATE_IDLE, ac_active_output_buffer_ref := None\<rparr>) (written_posted c) s'
      else moved t c (x\<lparr>ac_write_state := WRITE_STATE_ACTIVE, ac_active_output_buffer_ref := Some b1\<rparr>) (writer_posted c) s'" by blast
  have code: "async_code env io async_postable_writer_ptr c t = Inr s'" using s'(1) by (simp add: async_code_def async_ptrs)
  have p: "as_parsers (r_app s') c = Some p" using step_parsers(8) [OF s'(1)] t(7) by simp
  have e: "iob_content b1 = [] \<longleftrightarrow> \<not> nat (io_send io) < length (iob_content b)" by (auto simp: s'(3))
  show ?thesis
  proof (cases "iob_content b1 = []")
    case True
    with mv e moves_from [OF conn_at_settled(1) [OF s'(2) t(2) _ t(3) _ _ p] t(8)] t(9) [OF code] show ?thesis
      by (intro exI [of _ "s'\<lparr>r_runloop_executing := False\<rparr>"]
          exI [of _ "x\<lparr>ac_write_state := WRITE_STATE_IDLE, ac_active_output_buffer_ref := None\<rparr>"]) (simp add: mine_def)
  next
    case False
    with mv e moves_from [OF conn_at_settled(1) [OF s'(2) t(2) _ t(3) _ _ p] t(8)] t(9) [OF code] s'(3) show ?thesis
      by (intro exI [of _ "s'\<lparr>r_runloop_executing := False\<rparr>"]
          exI [of _ "x\<lparr>ac_write_state := WRITE_STATE_ACTIVE, ac_active_output_buffer_ref := Some b1\<rparr>"]) (simp add: mine_def)
  qed
qed

text \<open>A reply that \<open>send\<close> does not take now: the connection waits, and an event starts the writer again.\<close>

lemma write_waits:
  assumes at: "conn_at c x p (writer_posted c) s" "own_step c (Run io) s" and io: "io_send io < 0" "io_errno io = EAGAIN"
  shows "\<exists>s'. server_step env (Run io) s = Inr s' \<and> moves_to s c (x\<lparr>ac_write_state := WRITE_STATE_EAGAINED\<rparr>) p [] s'"
proof -
  from run_functor [OF at] obtain t ph where t: "core_inv {c} t" "list_ok t" "posts_of t c x = []"
    "in_phase ph c x (writer_posted c)" "ac_input_message_ptr x = None" "as_conns (r_app t) c = Some x"
    "as_parsers (r_app t) c = Some p" "same_base t s"
    "\<And>s1. async_code env io async_postable_writer_ptr c t = Inr s1 \<Longrightarrow>
        server_step env (Run io) s = Inr (s1\<lparr>r_runloop_executing := False\<rparr>)" by auto
  have ph: "ph = Writing" using t(4) by (cases ph) (auto simp: in_phase_def async_ptrs)
  from async_postable_writer_waits [OF t(1,6,5) t(4) [unfolded ph] io] obtain s1 where
    s1: "async_postable_writer io c t = Inr s1" "settled c t s1" "moved t c (x\<lparr>ac_write_state := WRITE_STATE_EAGAINED\<rparr>) [] s1" by blast
  have code: "async_code env io async_postable_writer_ptr c t = Inr s1" using s1(1) by (simp add: async_code_def async_ptrs)
  have "as_parsers (r_app s1) c = Some p" using step_parsers(8) [OF s1(1)] t(7) by simp
  from moves_from [OF conn_at_settled(1) [OF s1(2) t(2) s1(3) t(3) _ _ this] t(8)] t(9) [OF code] show ?thesis by simp
qed

lemma write_wakes:
  assumes at: "conn_at c x p [] s" and st: "ac_write_state x = WRITE_STATE_EAGAINED" and ev: "ev AND EPOLLOUT \<noteq> 0"
  shows "\<exists>s'. server_step env (Event (ac_socket x) ev io) s = Inr s' \<and>
     moves_to s c (x\<lparr>ac_write_state := WRITE_STATE_ACTIVE, ac_writeside_posted := True\<rparr>) p (writer_posted c) s'"
proof -
  let ?z = "x\<lparr>ac_write_state := WRITE_STATE_ACTIVE, ac_writeside_posted := True\<rparr>"
  have s: "core_inv {} s" "list_ok s" "as_conns (r_app s) c = Some x" "posts_of s c x = []" "as_parsers (r_app s) c = Some p"
    using at by (simp_all add: conn_at_def async_inv_def)
  obtain ph where "in_phase ph c x (posts_of s c x)" using core_inv_conn [OF s(1,3)] by blast
  then have rd: "ac_read_state ?z \<noteq> READ_STATE_EAGAINED" using st by (cases ph) (auto simp: in_phase_def async_states)
  obtain s' where s': "write_epollout c s = Inr s'" "settled c s s'" "moved s c ?z (writer_posted c) s'"
    using write_epollout_ok [OF s(1,3)] st by auto
  have c2: "core_inv {} s'" "as_conns (r_app s') c = Some ?z" using s'(2,3) by (auto simp: settled_def moved_def)
  have re: "read_epollin c s' = Inr s'" using read_epollin_ok [OF c2] rd by auto
  have ne: "ev64 ev AND ev64 EPOLLOUT \<noteq> 0" using ev by (simp add: ev64_and)
  have "async_event_handler st (ucast ev) s = Inr s'" if "st_context st = Some (Some c)" for st
    using that core_inv_check [OF s(1,3)] re s'(1) ne by (simp add: async_event_handler_def)
  from event_reaches [OF at this s'(2)] have "server_step env (Event (ac_socket x) ev io) s = Inr s'" .
  moreover have "moves_to s c ?z p (writer_posted c) s'"
    by (rule conn_at_settled(2) [OF s'(2) s(2) s'(3) s(4)]) (use step_parsers(6) [OF s'(1)] s(5) in \<open>simp_all add: same_id_def mine_def\<close>)
  ultimately show ?thesis by blast
qed

text \<open>The end of the connection: the client has closed, the connection is released and its descriptor closed.\<close>

lemma connection_released:
  assumes at: "conn_at c x p [\<lparr>fn_f = read_close_connection_ptr, fn_arg = ac_handler_ref x\<rparr>] s" "own_step c (Run io) s"
  shows "\<exists>s'. server_step env (Run io) s = Inr s' \<and> async_inv s' \<and> as_conns (r_app s') = (as_conns (r_app s))(c := None) \<and>
     as_handlers (r_app s') = (as_handlers (r_app s))(ac_handler_ref x := None) \<and>
     k_open (r_kernel s') = (k_open (r_kernel s))(ac_socket x := False) \<and> r_itq s' = r_itq s"
proof -
  from run_functor [OF at] obtain t where t: "core_inv {c} t" "list_ok t" "as_conns (r_app t) c = Some x"
    "r_kernel t = r_kernel s" "as_conns (r_app t) = as_conns (r_app s)"
    "same_base t s" "\<And>s1. async_code env io read_close_connection_ptr (ac_handler_ref x) t = Inr s1 \<Longrightarrow>
       server_step env (Run io) s = Inr (s1\<lparr>r_runloop_executing := False\<rparr>)" by auto
  from postable_close_connection_ok [OF t(1,3,2)] obtain s' where s': "postable_close_connection (ac_handler_ref x) t = Inr s'" "async_inv s'"
    "as_conns (r_app s') = (as_conns (r_app t))(c := None)" "k_open (r_kernel s') = (k_open (r_kernel t))(ac_socket x := False)"
    "as_handlers (r_app s') = (as_handlers (r_app t))(ac_handler_ref x := None)" "r_itq s' = r_itq t" by (auto simp: others_kept_def)
  have "async_code env io read_close_connection_ptr (ac_handler_ref x) t = Inr s'" using s'(1) by (simp add: async_code_def async_ptrs)
  from t(7) [OF this] s'(2-6) t(4-6) show ?thesis
    by (intro exI [of _ "s'\<lparr>r_runloop_executing := False\<rparr>"]) (simp add: same_base_def)
qed

section \<open>Sessions\<close>

text \<open>
  Steps of the server in sequence, with the bytes that \<open>send\<close> accepts on the way: the next posted
  function is the writer of a connection, and \<open>send\<close> takes bytes from the front of its output buffer.
\<close>

definition sent :: "async_step \<Rightarrow> 'l async_st \<Rightarrow> string" where
  "sent stp s =
     (case (stp, ready s) of
        (Run io, f # _) \<Rightarrow>
          if fn_f f = async_postable_writer_ptr then
            (case as_conns (r_app s) (fn_arg f) of
               Some x \<Rightarrow> (case ac_active_output_buffer_ref x of Some b \<Rightarrow> take (nat (io_send io)) (iob_content b) | None \<Rightarrow> [])
             | None \<Rightarrow> [])
          else []
      | _ \<Rightarrow> [])"

fun serve :: "'l async_env \<Rightarrow> async_step list \<Rightarrow> 'l async_st \<Rightarrow> (string \<times> 'l async_st) res" where
  "serve env [] s = Inr ([], s)"
| "serve env (stp # stps) s =
     rbind (server_step env stp s) (\<lambda>s1. rbind (serve env stps s1) (\<lambda>(bytes, s2). Inr (sent stp s @ bytes, s2)))"

lemma sent_event [simp]: "sent (Event fd ev io) s = []"
  by (simp add: sent_def)

lemma sent_read:
  assumes "conn_at c x p [\<lparr>fn_f = f, fn_arg = a\<rparr>] s" and "own_step c (Run io) s" and "f \<noteq> async_postable_writer_ptr"
  shows "sent (Run io) s = []"
  using own_head [OF assms(1,2)] assms(3) by (auto simp: sent_def)

lemma sent_write:
  assumes "conn_at c x p (writer_posted c) s" and "own_step c (Run io) s" and "ac_active_output_buffer_ref x = Some b"
  shows "sent (Run io) s = take (nat (io_send io)) (iob_content b)"
  using own_head [OF assms(1,2)] assms(1,3) by (auto simp: sent_def conn_at_def)

section \<open>Scripts of one connection\<close>

text \<open>
  \<open>drives env c script Q s\<close>: whatever other connections do in between, the steps of the connection at
  \<open>c\<close> can be the ones of \<open>script\<close> and in this order; each is possible when its turn comes, none fails,
  and at the end \<open>Q\<close> holds of the bytes sent on the connection and of the state.  Between two steps of
  the connection the state may change in any way that keeps the invariant and the view of \<open>c\<close>.
\<close>

fun enabled :: "addr \<Rightarrow> async_step \<Rightarrow> 'l async_st \<Rightarrow> bool" where
  "enabled c (Run io) s \<longleftrightarrow> (case as_conns (r_app s) c of None \<Rightarrow> False | Some x \<Rightarrow> posts_of s c x \<noteq> [])"
| "enabled c stp s \<longleftrightarrow> own_step c stp s"

definition kept_base :: "'l async_st \<Rightarrow> 'l async_st \<Rightarrow> bool" where
  "kept_base s t \<longleftrightarrow> as_handlers (r_app t) \<subseteq>\<^sub>m as_handlers (r_app s) \<and> r_itq t = r_itq s"

lemma same_base_kept: "same_base t s \<Longrightarrow> kept_base s t"
  by (simp add: same_base_def kept_base_def)

primrec drives :: "'l async_env \<Rightarrow> addr \<Rightarrow> async_step list \<Rightarrow> (string \<Rightarrow> 'l async_st \<Rightarrow> bool) \<Rightarrow> 'l async_st \<Rightarrow> bool" where
  "drives env c [] = (\<lambda>Q s. Q [] s)"
| "drives env c (stp # script) = (\<lambda>Q s. enabled c stp s \<and>
     (\<forall>t. async_inv t \<longrightarrow> same_view c s t \<longrightarrow> own_step c stp t \<longrightarrow>
        (\<exists>t1. server_step env stp t = Inr t1 \<and> async_inv t1 \<and> kept_base t t1 \<and>
              drives env c script (\<lambda>bytes. Q (sent stp t @ bytes)) t1)))"

lemma drives_mono:
  assumes "drives env c script Q s" and "\<And>bytes u. Q bytes u \<Longrightarrow> R bytes u"
  shows "drives env c script R s"
  using assms
proof (induction script arbitrary: Q R s)
  case (Cons stp script)
  then show ?case unfolding drives.simps by metis
qed simp

lemma drives_append:
  "drives env c (as @ bs) Q s \<longleftrightarrow> drives env c as (\<lambda>o1. drives env c bs (\<lambda>o2. Q (o1 @ o2))) s"
  by (induction as arbitrary: Q s) simp_all

lemma drives_seq:
  assumes "drives env c as R s" and "\<And>o1 u. R o1 u \<Longrightarrow> drives env c bs (\<lambda>o2. Q (o1 @ o2)) u"
  shows "drives env c (as @ bs) Q s"
  unfolding drives_append using assms by (rule drives_mono)

text \<open>The next step of a script, by what it does in any state with the same view.\<close>

lemma drives_run:
  assumes at: "conn_at c x p fs s" and "fs \<noteq> []"
    and stp: "\<And>t. conn_at c x p fs t \<Longrightarrow> own_step c (Run io) t \<Longrightarrow>
       \<exists>t1 x1 p1 fs1. server_step env (Run io) t = Inr t1 \<and> moves_to t c x1 p1 fs1 t1 \<and> P (sent (Run io) t) x1 p1 fs1"
    and rest: "\<And>out x1 p1 fs1 u. conn_at c x1 p1 fs1 u \<Longrightarrow> P out x1 p1 fs1 \<Longrightarrow> drives env c script (\<lambda>bytes. Q (out @ bytes)) u"
  shows "drives env c (Run io # script) Q s"
proof -
  have "\<exists>t1. server_step env (Run io) t = Inr t1 \<and> async_inv t1 \<and> kept_base t t1 \<and>
        drives env c script (\<lambda>bytes. Q (sent (Run io) t @ bytes)) t1"
    if "async_inv t" "same_view c s t" "own_step c (Run io) t" for t
    using stp [OF conn_at_view [OF at that(1,2)] that(3)] rest unfolding moves_to_def conn_at_def by (metis same_base_kept)
  moreover have "enabled c (Run io) s" using at assms(2) by (simp add: conn_at_def)
  ultimately show ?thesis unfolding drives.simps by blast
qed

lemma drives_event:
  assumes at: "conn_at c x p fs s" and fd: "ac_socket x = fd" and ev: "wakes ev x"
    and stp: "\<And>t. conn_at c x p fs t \<Longrightarrow> \<exists>t1. server_step env (Event (ac_socket x) ev io) t = Inr t1 \<and> moves_to t c x1 p1 fs1 t1"
    and rest: "\<And>u. conn_at c x1 p1 fs1 u \<Longrightarrow> drives env c script Q u"
  shows "drives env c (Event fd ev io # script) Q s"
proof -
  have "\<exists>t1. server_step env (Event fd ev io) t = Inr t1 \<and> async_inv t1 \<and> kept_base t t1 \<and>
        drives env c script (\<lambda>bytes. Q (sent (Event fd ev io) t @ bytes)) t1"
    if "async_inv t" "same_view c s t" for t
    using stp [OF conn_at_view [OF at that]] rest fd unfolding moves_to_def conn_at_def sent_event append_Nil by (metis same_base_kept)
  moreover have "enabled c (Event fd ev io) s" using at fd ev by (simp add: conn_at_def)
  ultimately show ?thesis unfolding drives.simps by blast
qed

text \<open>When the server has no other connection, the script by itself is a run of the server.\<close>

lemma sole_own:
  assumes inv: "async_inv s" and sole: "\<forall>d. as_conns (r_app s) d \<noteq> None \<longrightarrow> d = c" and en: "enabled c stp s"
  shows "own_step c stp s"
proof (cases stp)
  case (Run io)
  with en obtain x where x: "as_conns (r_app s) c = Some x" "posts_of s c x \<noteq> []" by (auto split: option.splits)
  then obtain f rest where f: "ready s = f # rest" by (cases "ready s") (auto simp: posts_of_def)
  have "\<exists>d y. as_conns (r_app s) d = Some y \<and> mine d (ac_handler_ref y) f"
    using inv f unfolding async_inv_def core_inv_def by (metis list.set_intros(1))
  then have "mine c (ac_handler_ref x) f" using sole x(1) by fastforce
  then show ?thesis using Run x f by simp
qed (use en in simp_all)

lemma sole_kept:
  assumes inv: "async_inv s" "async_inv t" and sub: "as_handlers (r_app t) \<subseteq>\<^sub>m as_handlers (r_app s)"
    and sole: "\<forall>d. as_conns (r_app s) d \<noteq> None \<longrightarrow> d = c"
  shows "\<forall>d. as_conns (r_app t) d \<noteq> None \<longrightarrow> d = c"
proof (intro allI impI)
  fix d assume "as_conns (r_app t) d \<noteq> None"
  then obtain h hdl where h: "as_handlers (r_app t) h = Some hdl" "ah_async_connection_ref hdl = Some d"
    using inv(2) unfolding async_inv_def core_inv_def conn_links_def handler_ok_def by blast
  then have "as_handlers (r_app s) h = Some hdl" using sub unfolding map_le_def by (metis domI)
  moreover have "server_ok s" using inv(1) by (simp add: async_inv_def core_inv_def)
  ultimately have "as_conns (r_app s) d \<noteq> None" using server_ok_handler h(2) by fastforce
  then show "d = c" using sole by blast
qed

lemma drives_sole:
  assumes "drives env c script Q s" and "async_inv s" and "\<forall>d. as_conns (r_app s) d \<noteq> None \<longrightarrow> d = c"
  shows "\<exists>bytes s'. serve env script s = Inr (bytes, s') \<and> Q bytes s' \<and> async_inv s'"
  using assms
proof (induction script arbitrary: Q s)
  case (Cons stp script)
  have "own_step c stp s" using sole_own [OF Cons.prems(2,3)] Cons.prems(1) by simp
  with Cons.prems(1,2) obtain s1 where s1: "server_step env stp s = Inr s1" "async_inv s1"
    "as_handlers (r_app s1) \<subseteq>\<^sub>m as_handlers (r_app s)" "drives env c script (\<lambda>bytes. Q (sent stp s @ bytes)) s1" by (auto simp: kept_base_def)
  from Cons.IH [OF s1(4,2) sole_kept [OF Cons.prems(2) s1(2,3) Cons.prems(3)]] s1(1) show ?case by auto
qed simp

text \<open>What a client and the kernel do: chunks of a request, pieces of a reply, and waits for an event.\<close>

datatype read_op = Chunk string | Read_blocked "32 word"
datatype send_op = Send int | Send_blocked "32 word"

definition recv_io :: "string \<Rightarrow> async_io" where
  "recv_io b = \<lparr>io_recv = Some b, io_send = 0, io_accept = 0, io_errno = 0\<rparr>"

definition send_io :: "int \<Rightarrow> async_io" where
  "send_io n = \<lparr>io_recv = None, io_send = n, io_accept = 0, io_errno = 0\<rparr>"

definition blocked_io :: async_io where
  "blocked_io = \<lparr>io_recv = None, io_send = - 1, io_accept = 0, io_errno = EAGAIN\<rparr>"

fun read_steps :: "int \<Rightarrow> read_op \<Rightarrow> async_step list" where
  "read_steps fd (Chunk b) = [Run (recv_io b)]"
| "read_steps fd (Read_blocked ev) = [Run blocked_io, Event fd ev blocked_io]"

fun send_steps :: "int \<Rightarrow> send_op \<Rightarrow> async_step list" where
  "send_steps fd (Send n) = [Run (send_io n)]"
| "send_steps fd (Send_blocked ev) = [Run blocked_io, Event fd ev blocked_io]"

fun read_op_ok :: "read_op \<Rightarrow> bool" where
  "read_op_ok (Chunk b) \<longleftrightarrow> length b \<le> 1000000"
| "read_op_ok (Read_blocked ev) \<longleftrightarrow> ev AND EPOLLIN \<noteq> 0"

fun chunks :: "read_op list \<Rightarrow> string list" where
  "chunks [] = []"
| "chunks (Chunk b # rs) = b # chunks rs"
| "chunks (Read_blocked ev # rs) = chunks rs"

text \<open>The pieces add up to a reply of \<open>n\<close> bytes, and the last one completes it.\<close>

fun sends_all :: "nat \<Rightarrow> send_op list \<Rightarrow> bool" where
  "sends_all n [] = False"
| "sends_all n (Send k # ws) = (0 < k \<and> (if nat k < n then sends_all (n - nat k) ws else ws = []))"
| "sends_all n (Send_blocked ev # ws) = (ev AND EPOLLOUT \<noteq> 0 \<and> sends_all n ws)"

type_synonym async_turn = "read_op list \<times> string \<times> frag_request \<times> send_op list"

definition turn_steps :: "int \<Rightarrow> async_turn \<Rightarrow> async_step list" where
  "turn_steps fd t = (case t of (rs, b, r, ws) \<Rightarrow>
     concat (map (read_steps fd) rs) @ [Run (recv_io b), Run blocked_io] @ concat (map (send_steps fd) ws))"

definition turn_wire :: "async_turn \<Rightarrow> turn" where
  "turn_wire t = (case t of (rs, b, r, ws) \<Rightarrow> (chunks rs, b, r))"

definition turn_ok :: "'l async_env \<Rightarrow> async_turn \<Rightarrow> bool" where
  "turn_ok env t \<longleftrightarrow> (case t of (rs, b, r, ws) \<Rightarrow> (\<forall>op \<in> set rs. read_op_ok op) \<and> length b \<le> 1000000 \<and>
     (\<forall>m. is_request_of r m \<longrightarrow> (\<exists>resp. e_process_request env m = Some resp \<and> sendable env resp \<and>
        sends_all (length (reply_bytes (e_llhttp_method_name env) m resp)) ws)))"

definition async_answered :: "'l async_env \<Rightarrow> async_turn \<Rightarrow> Message \<times> Message \<Rightarrow> bool" where
  "async_answered env t mr \<longleftrightarrow> is_request_of (snd (snd (turn_wire t))) (fst mr) \<and> e_process_request env (fst mr) = Some (snd mr)"

abbreviation about_to_read :: "addr \<Rightarrow> rfunctor list \<Rightarrow> bool" where
  "about_to_read c fs \<equiv> fs = reader_posted c \<or> fs = written_posted c"

lemma same_id_trans: "same_id x y \<Longrightarrow> same_id y z \<Longrightarrow> same_id x z"
  by (simp add: same_id_def)

lemma sent_reads: "conn_at c x p fs s \<Longrightarrow> about_to_read c fs \<Longrightarrow> own_step c (Run io) s \<Longrightarrow> sent (Run io) s = []"
  using sent_read [of c x p] by (fastforce simp: async_ptrs)

text \<open>The part of a request that came has been read, and nothing was sent.\<close>

definition part_read :: "addr \<Rightarrow> AsyncConnection \<Rightarrow> frag_request \<Rightarrow> ll_event list \<Rightarrow> 'l \<Rightarrow> string \<Rightarrow> 'l async_st \<Rightarrow> bool" where
  "part_read c x r es l bytes u \<longleftrightarrow> bytes = [] \<and>
     (\<exists>x' p fs. conn_at c x' p fs u \<and> about_to_read c fs \<and> same_id x x' \<and> takes_request r es p \<and> hp_llhttp p = l)"

lemma part_read_trans: "part_read c y r es l bytes u \<Longrightarrow> same_id x y \<Longrightarrow> part_read c x r es l bytes u"
  unfolding part_read_def using same_id_trans by blast

lemma reads_served:
  assumes "conn_at c x p fs s" and "about_to_read c fs" and "takes_request r (es1 @ es) p"
    and "ll_chunks (e_llhttp_execute env) (hp_llhttp p) (chunks rs) = Some (es1, l1)" and "On_message_complete \<notin> set es1"
    and "\<forall>op \<in> set rs. read_op_ok op" and "ac_socket x = fd"
  shows "drives env c (concat (map (read_steps fd) rs)) (part_read c x r es l1) s"
  using assms
proof (induction rs arbitrary: s x p fs es1)
  case Nil
  then show ?case by (auto simp: same_id_def part_read_def)
next
  case (Cons op rs)
  have ne: "fs \<noteq> []" using Cons.prems(2) by auto
  note nil = sent_reads [OF _ Cons.prems(2)]
  show ?case
  proof (cases op)
    case (Chunk b)
    with Cons.prems(4) obtain es0 l0 fs1 where e: "e_llhttp_execute env (hp_llhttp p) b = (es0, l0, 0)" "b \<noteq> []"
      "ll_chunks (e_llhttp_execute env) l0 (chunks rs) = Some (fs1, l1)" "es1 = es0 @ fs1" by (auto split: prod.splits if_splits)
    have tk: "takes_request r (es0 @ (fs1 @ es)) p" "On_message_complete \<notin> set es0" using Cons.prems(3,5) e(4) by simp_all
    have io: "io_recv (recv_io b) = Some b" "length b \<le> 1000000" "io_errno (recv_io b) \<noteq> EAGAIN"
      using Cons.prems(6) Chunk by (simp_all add: recv_io_def EAGAIN_def)
    let ?P = "\<lambda>(out :: string) y q gs. out = [] \<and> gs = reader_posted c \<and> same_id x y \<and> takes_request r (fs1 @ es) q \<and> hp_llhttp q = l0"
    have "drives env c (Run (recv_io b) # concat (map (read_steps fd) rs)) (part_read c x r es l1) s"
    proof (rule drives_run [OF Cons.prems(1) ne, where P = ?P])
      fix t assume t: "conn_at c x p fs t" "own_step c (Run (recv_io b)) t"
      from read_part [OF t(1) Cons.prems(2) t(2) tk e(1) io(1) e(2) io(2,3)] nil [OF t]
      show "\<exists>t1 y q gs. server_step env (Run (recv_io b)) t = Inr t1 \<and> moves_to t c y q gs t1 \<and> ?P (sent (Run (recv_io b)) t) y q gs"
        by blast
    next
      fix out y q gs u assume y: "conn_at c y q gs u" "?P out y q gs"
      then have "ac_socket y = fd" using Cons.prems(7) by (simp add: same_id_def)
      from Cons.IH [OF y(1) _ _ _ _ _ this, of fs1] y(2) e(3,4) Cons.prems(5,6)
      have "drives env c (concat (map (read_steps fd) rs)) (part_read c y r es l1) u" by auto
      then show "drives env c (concat (map (read_steps fd) rs)) (\<lambda>bytes. part_read c x r es l1 (out @ bytes)) u"
        by (rule drives_mono) (use y(2) in \<open>auto intro: part_read_trans\<close>)
    qed
    then show ?thesis by (simp add: Chunk del: drives.simps)
  next
    case (Read_blocked ev)
    have ev: "ev AND EPOLLIN \<noteq> 0" using Cons.prems(6) Read_blocked by simp
    have io: "io_recv blocked_io = None" "io_errno blocked_io = EAGAIN" by (simp_all add: blocked_io_def)
    let ?P = "\<lambda>(out :: string) y q gs. out = [] \<and> gs = [] \<and> same_id x y \<and> q = p \<and> ac_read_state y = READ_STATE_EAGAINED"
    have "drives env c (Run blocked_io # Event fd ev blocked_io # concat (map (read_steps fd) rs)) (part_read c x r es l1) s"
    proof (rule drives_run [OF Cons.prems(1) ne, where P = ?P])
      fix t assume t: "conn_at c x p fs t" "own_step c (Run blocked_io) t"
      from read_wait [OF t(1) Cons.prems(2) t(2) io, of env] nil [OF t]
      show "\<exists>t1 y q gs. server_step env (Run blocked_io) t = Inr t1 \<and> moves_to t c y q gs t1 \<and> ?P (sent (Run blocked_io) t) y q gs"
        by blast
    next
      fix out y q gs u assume y: "conn_at c y q gs u" "?P out y q gs"
      let ?z = "y\<lparr>ac_read_state := READ_STATE_ACTIVE, ac_readside_posted := True\<rparr>"
      have fd: "ac_socket y = fd" "ac_socket ?z = fd" using y(2) Cons.prems(7) by (simp_all add: same_id_def)
      show "drives env c (Event fd ev blocked_io # concat (map (read_steps fd) rs)) (\<lambda>bytes. part_read c x r es l1 (out @ bytes)) u"
      proof (rule drives_event [OF y(1) fd(1)])
        show "wakes ev y" using y(2) ev by (simp add: wakes_def)
        show "\<exists>t1. server_step env (Event (ac_socket y) ev blocked_io) t = Inr t1 \<and> moves_to t c ?z p (reader_posted c) t1"
          if "conn_at c y q gs t" for t using read_wakes [of c y p t, OF _ _ ev] that y(2) by blast
        fix v assume v: "conn_at c ?z p (reader_posted c) v"
        from Cons.IH [OF v _ Cons.prems(3) _ Cons.prems(5) _ fd(2)] Cons.prems(4,6) Read_blocked
        have "drives env c (concat (map (read_steps fd) rs)) (part_read c ?z r es l1) v" by auto
        then show "drives env c (concat (map (read_steps fd) rs)) (\<lambda>bytes. part_read c x r es l1 (out @ bytes)) v"
          by (rule drives_mono) (use y(2) in \<open>auto simp: same_id_def intro: part_read_trans\<close>)
      qed
    qed
    then show ?thesis by (simp add: Read_blocked del: drives.simps)
  qed
qed

text \<open>The reply has been sent.\<close>

definition reply_sent :: "addr \<Rightarrow> AsyncConnection \<Rightarrow> ('l, conn_ctx) http_parser \<Rightarrow> string \<Rightarrow> string \<Rightarrow> 'l async_st \<Rightarrow> bool" where
  "reply_sent c x p reply bytes u \<longleftrightarrow> bytes = reply \<and> (\<exists>x'. conn_at c x' p (written_posted c) u \<and> same_id x x')"

lemma writes_served:
  assumes "conn_at c x p (writer_posted c) s" and "ac_active_output_buffer_ref x = Some b"
    and "sends_all (length (iob_content b)) ws" and "ac_socket x = fd"
  shows "drives env c (concat (map (send_steps fd) ws)) (reply_sent c x p (iob_content b)) s"
  using assms
proof (induction ws arbitrary: s x b)
  case (Cons op ws)
  show ?case
  proof (cases op)
    case (Send n)
    have n: "0 < n" "0 < io_send (send_io n)" "io_send (send_io n) = n" using Cons.prems(3) Send by (simp_all add: send_io_def)
    let ?P = "\<lambda>out y q gs. q = p \<and> out = take (nat n) (iob_content b) \<and> same_id x y \<and>
       (if nat n < length (iob_content b)
        then gs = writer_posted c \<and> (\<exists>b'. ac_active_output_buffer_ref y = Some b' \<and> iob_content b' = drop (nat n) (iob_content b))
        else gs = written_posted c)"
    have "drives env c (Run (send_io n) # concat (map (send_steps fd) ws)) (reply_sent c x p (iob_content b)) s"
    proof (rule drives_run [OF Cons.prems(1), where P = ?P])
      fix t assume t: "conn_at c x p (writer_posted c) t" "own_step c (Run (send_io n)) t"
      from write_piece [OF t Cons.prems(2) n(2), of env] sent_write [OF t Cons.prems(2)] n(3)
      show "\<exists>t1 y q gs. server_step env (Run (send_io n)) t = Inr t1 \<and> moves_to t c y q gs t1 \<and> ?P (sent (Run (send_io n)) t) y q gs"
        by (cases "nat n < length (iob_content b)") auto
    next
      fix out y q gs u assume y: "conn_at c y q gs u" "?P out y q gs"
      show "drives env c (concat (map (send_steps fd) ws)) (\<lambda>bytes. reply_sent c x p (iob_content b) (out @ bytes)) u"
      proof (cases "nat n < length (iob_content b)")
        case True
        with y(2) obtain b' where b': "q = p" "gs = writer_posted c" "ac_active_output_buffer_ref y = Some b'"
          "iob_content b' = drop (nat n) (iob_content b)" by auto
        have fd: "ac_socket y = fd" using y(2) Cons.prems(4) by (simp add: same_id_def)
        from Cons.IH [OF y(1) [unfolded b'(1,2)] b'(3) _ fd] Cons.prems(3) Send True b'(4)
        have "drives env c (concat (map (send_steps fd) ws)) (reply_sent c y p (iob_content b')) u" by auto
        then show ?thesis
          by (rule drives_mono) (use y(2) b'(4) in \<open>auto simp: reply_sent_def intro: same_id_trans\<close>)
      next
        case False
        then show ?thesis using y Send Cons.prems(3) by (auto simp: reply_sent_def)
      qed
    qed simp
    then show ?thesis by (simp add: Send del: drives.simps)
  next
    case (Send_blocked ev)
    have ev: "ev AND EPOLLOUT \<noteq> 0" using Cons.prems(3) Send_blocked by simp
    have io: "io_send blocked_io < 0" "io_errno blocked_io = EAGAIN" by (simp_all add: blocked_io_def)
    let ?y = "x\<lparr>ac_write_state := WRITE_STATE_EAGAINED\<rparr>"
    let ?z = "?y\<lparr>ac_write_state := WRITE_STATE_ACTIVE, ac_writeside_posted := True\<rparr>"
    let ?P = "\<lambda>(out :: string) y q gs. out = [] \<and> y = ?y \<and> q = p \<and> gs = []"
    have z: "ac_socket ?y = fd" "ac_socket ?z = fd" "ac_active_output_buffer_ref ?z = Some b" using Cons.prems(2,4) by simp_all
    have "drives env c (Run blocked_io # Event fd ev blocked_io # concat (map (send_steps fd) ws)) (reply_sent c x p (iob_content b)) s"
    proof (rule drives_run [OF Cons.prems(1), where P = ?P])
      fix t assume t: "conn_at c x p (writer_posted c) t" "own_step c (Run blocked_io) t"
      from write_waits [OF t io, of env] sent_write [OF t Cons.prems(2)]
      show "\<exists>t1 y q gs. server_step env (Run blocked_io) t = Inr t1 \<and> moves_to t c y q gs t1 \<and> ?P (sent (Run blocked_io) t) y q gs"
        by (auto simp: blocked_io_def)
    next
      fix out y q gs u assume y: "conn_at c y q gs u" "?P out y q gs"
      have u: "conn_at c ?y p [] u" using y by simp
      have "drives env c (Event fd ev blocked_io # concat (map (send_steps fd) ws)) (reply_sent c x p (iob_content b)) u"
      proof (rule drives_event [OF u z(1)])
        show "wakes ev ?y" using ev by (simp add: wakes_def)
        show "\<exists>t1. server_step env (Event (ac_socket ?y) ev blocked_io) t = Inr t1 \<and> moves_to t c ?z p (writer_posted c) t1"
          if "conn_at c ?y p [] t" for t using write_wakes [OF that _ ev, of env blocked_io] by simp
        fix v assume v: "conn_at c ?z p (writer_posted c) v"
        from Cons.IH [OF v z(3) _ z(2)] Cons.prems(3) Send_blocked
        have "drives env c (concat (map (send_steps fd) ws)) (reply_sent c ?z p (iob_content b)) v" by simp
        then show "drives env c (concat (map (send_steps fd) ws)) (reply_sent c x p (iob_content b)) v"
          by (rule drives_mono) (auto simp: reply_sent_def same_id_def)
      qed
      then show "drives env c (Event fd ev blocked_io # concat (map (send_steps fd) ws)) (\<lambda>bytes. reply_sent c x p (iob_content b) (out @ bytes)) u"
        using y(2) by simp
    qed simp
    then show ?thesis by (simp add: Send_blocked del: drives.simps)
  qed
qed simp

text \<open>The turn is over: one reply was sent, the one to the request of the turn, and the rest of the session can follow.\<close>

definition turn_over ::
  "'l async_env \<Rightarrow> addr \<Rightarrow> AsyncConnection \<Rightarrow> async_turn \<Rightarrow> turn list \<Rightarrow> string \<Rightarrow> 'l async_st \<Rightarrow> bool" where
  "turn_over env c x t ts bytes u \<longleftrightarrow>
     (\<exists>mr x' q. bytes = reply_bytes (e_llhttp_method_name env) (fst mr) (snd mr) \<and> async_answered env t mr \<and>
        conn_at c x' q (written_posted c) u \<and> same_id x x' \<and> hp_ready q \<and> session_ok (e_llhttp_execute env) (hp_llhttp q) ts)"

lemma turn_served:
  assumes at: "conn_at c x p fs s" "about_to_read c fs" and "hp_ready p" and ok: "turn_ok env t"
    and ses: "session_ok (e_llhttp_execute env) (hp_llhttp p) (turn_wire t # ts)" and fd: "ac_socket x = fd"
  shows "drives env c (turn_steps fd t) (turn_over env c x t ts) s"
proof -
  obtain rs b r ws where t: "t = (rs, b, r, ws)" by (cases t) auto
  from ses obtain es1 l1 es l2 where
    e: "ll_chunks (e_llhttp_execute env) (hp_llhttp p) (chunks rs) = Some (es1, l1)" "e_llhttp_execute env l1 b = (es, l2, 0)"
    "b \<noteq> []" "On_message_complete \<notin> set es1" "filter significant (es1 @ es) = request_events r" "frag_request_ok r"
    "session_ok (e_llhttp_execute env) l2 ts" by (auto simp: t turn_wire_def split: option.splits prod.splits)
  have ops: "\<forall>op \<in> set rs. read_op_ok op" "length b \<le> 1000000" using ok by (simp_all add: turn_ok_def t)
  have io: "io_recv (recv_io b) = Some b" by (simp add: recv_io_def)
  have "drives env c (Run (recv_io b) # Run blocked_io # concat (map (send_steps fd) ws)) (turn_over env c x t ts) u"
    if "part_read c x r es l1 [] u" for u
  proof -
    from that obtain x1 p1 fs1 where x1: "conn_at c x1 p1 fs1 u" "about_to_read c fs1" "same_id x x1" "takes_request r es p1" "hp_llhttp p1 = l1"
      by (auto simp: part_read_def)
    let ?P = "\<lambda>(out :: string) y q gs. out = [] \<and> gs = request_posted (ac_handler_ref y) \<and> same_id x1 y \<and> hp_ready q \<and> hp_llhttp q = l2 \<and>
       (\<exists>m. is_request_of r m \<and> ac_scratch_request y = Some (Some m))"
    show ?thesis
    proof (rule drives_run [OF x1(1), where P = ?P])
      fix v assume v: "conn_at c x1 p1 fs1 v" "own_step c (Run (recv_io b)) v"
      have ex: "e_llhttp_execute env (hp_llhttp p1) b = (es, l2, 0)" using e(2) x1(5) by simp
      from read_last [OF v(1) x1(2) v(2) x1(4) ex io e(3) ops(2)] sent_reads [OF v(1) x1(2) v(2)]
      show "\<exists>t1 y q gs. server_step env (Run (recv_io b)) v = Inr t1 \<and> moves_to v c y q gs t1 \<and> ?P (sent (Run (recv_io b)) v) y q gs"
        unfolding same_id_def by metis
    next
      fix out y q gs u1 assume y: "conn_at c y q gs u1" "?P out y q gs"
      then obtain m where m: "is_request_of r m" "ac_scratch_request y = Some (Some m)" and
        y': "conn_at c y q (request_posted (ac_handler_ref y)) u1" "out = []" "same_id x1 y" "hp_ready q" "hp_llhttp q = l2" by blast
      obtain resp where resp: "e_process_request env m = Some resp" "sendable env resp"
        "sends_all (length (reply_bytes (e_llhttp_method_name env) m resp)) ws" using ok m(1) by (auto simp: turn_ok_def t)
      let ?R = "\<lambda>(out :: string) z q' gs. out = [] \<and> q' = q \<and> gs = writer_posted c \<and> same_id y z \<and>
        (\<exists>ob. ac_active_output_buffer_ref z = Some ob \<and> iob_content ob = reply_bytes (e_llhttp_method_name env) m resp)"
      have "drives env c (Run blocked_io # concat (map (send_steps fd) ws)) (turn_over env c x t ts) u1"
      proof (rule drives_run [OF y'(1), where P = ?R])
        fix v assume v: "conn_at c y q (request_posted (ac_handler_ref y)) v" "own_step c (Run blocked_io) v"
        from request_answered [OF v m(2,1) resp(1,2)] sent_read [OF v]
        show "\<exists>t1 z q' gs. server_step env (Run blocked_io) v = Inr t1 \<and> moves_to v c z q' gs t1 \<and> ?R (sent (Run blocked_io) v) z q' gs"
          by (auto simp: async_ptrs)
      next
        fix out z q' gs u2 assume z: "conn_at c z q' gs u2" "?R out z q' gs"
        then obtain ob where ob: "ac_active_output_buffer_ref z = Some ob" "iob_content ob = reply_bytes (e_llhttp_method_name env) m resp"
          and z': "conn_at c z q (writer_posted c) u2" "out = []" "same_id y z" by blast
        have id: "same_id x z" using x1(3) y'(3) z'(3) by (simp add: same_id_def)
        have "drives env c (concat (map (send_steps fd) ws)) (reply_sent c z q (iob_content ob)) u2"
          by (rule writes_served [OF z'(1) ob(1)]) (use resp(3) ob(2) id fd in \<open>simp_all add: same_id_def\<close>)
        then show "drives env c (concat (map (send_steps fd) ws)) (\<lambda>bytes. turn_over env c x t ts (out @ bytes)) u2"
        proof (rule drives_mono)
          fix bytes w assume "reply_sent c z q (iob_content ob) bytes w"
          then obtain x4 where "bytes = iob_content ob" "conn_at c x4 q (written_posted c) w" "same_id z x4" by (auto simp: reply_sent_def)
          then show "turn_over env c x t ts (out @ bytes) w" using ob(2) z'(2) same_id_trans [OF id] y'(4,5) e(7) m(1) resp(1)
            unfolding turn_over_def by (intro exI [of _ "(m, resp)"] exI [of _ x4] exI [of _ q]) (simp add: async_answered_def turn_wire_def t)
        qed
      qed simp
      then show "drives env c (Run blocked_io # concat (map (send_steps fd) ws)) (\<lambda>bytes. turn_over env c x t ts (out @ bytes)) u1"
        using y'(2) by simp
    qed (use x1(2) in auto)
  qed
  then show ?thesis unfolding turn_steps_def t prod.case
    by (intro drives_seq [OF reads_served [OF at ready_takes [OF assms(3) e(6,5)] e(1,4) ops(1) fd]])
      (auto simp: part_read_def simp del: drives.simps)
qed

text \<open>The replies to a number of turns were sent, in order, and the connection is about to read again.\<close>

definition replies :: "'l async_env \<Rightarrow> (Message \<times> Message) list \<Rightarrow> string" where
  "replies env mrs = concat (map (\<lambda>(m, resp). reply_bytes (e_llhttp_method_name env) m resp) mrs)"

definition turns_over ::
  "'l async_env \<Rightarrow> addr \<Rightarrow> AsyncConnection \<Rightarrow> async_turn list \<Rightarrow> string \<Rightarrow> 'l async_st \<Rightarrow> bool" where
  "turns_over env c x ts bytes u \<longleftrightarrow>
     (\<exists>mrs x' q fs. bytes = replies env mrs \<and> list_all2 (async_answered env) ts mrs \<and>
        conn_at c x' q fs u \<and> about_to_read c fs \<and> same_id x x')"

lemma turns_served:
  assumes "conn_at c x p fs s" and "about_to_read c fs" and "hp_ready p" and "\<forall>t \<in> set ts. turn_ok env t"
    and "session_ok (e_llhttp_execute env) (hp_llhttp p) (map turn_wire ts)" and "ac_socket x = fd"
  shows "drives env c (concat (map (turn_steps fd) ts)) (turns_over env c x ts) s"
  using assms
proof (induction ts arbitrary: s x p fs)
  case Nil
  then have "turns_over env c x [] [] s" unfolding turns_over_def
    by (intro exI [of _ "[]"] exI [of _ x] exI [of _ p] exI [of _ fs]) (simp add: replies_def same_id_def)
  then show ?case by simp
next
  case (Cons t ts)
  have ok: "turn_ok env t" and ses: "session_ok (e_llhttp_execute env) (hp_llhttp p) (turn_wire t # map turn_wire ts)"
    using Cons.prems(4,5) by simp_all
  have "drives env c (concat (map (turn_steps fd) ts)) (\<lambda>bytes. turns_over env c x (t # ts) (o1 @ bytes)) u"
    if "turn_over env c x t (map turn_wire ts) o1 u" for o1 u
  proof -
    from that obtain mr x1 q where x1: "o1 = reply_bytes (e_llhttp_method_name env) (fst mr) (snd mr)" "async_answered env t mr"
      "conn_at c x1 q (written_posted c) u" "same_id x x1" "hp_ready q" "session_ok (e_llhttp_execute env) (hp_llhttp q) (map turn_wire ts)"
      by (auto simp: turn_over_def)
    have "drives env c (concat (map (turn_steps fd) ts)) (turns_over env c x1 ts) u"
      by (rule Cons.IH [OF x1(3) _ x1(5) _ x1(6)]) (use Cons.prems(4,6) x1(4) in \<open>simp_all add: same_id_def\<close>)
    then show ?thesis
    proof (rule drives_mono)
      fix bytes v assume "turns_over env c x1 ts bytes v"
      then obtain mrs x' q' gs where "bytes = replies env mrs" "list_all2 (async_answered env) ts mrs" "conn_at c x' q' gs v"
        "about_to_read c gs" "same_id x1 x'" unfolding turns_over_def by blast
      then show "turns_over env c x (t # ts) (o1 @ bytes) v" unfolding turns_over_def using x1(1,2) same_id_trans [OF x1(4)]
        by (intro exI [of _ "mr # mrs"] exI [of _ x'] exI [of _ q'] exI [of _ gs]) (simp add: replies_def case_prod_unfold)
    qed
  qed
  then show ?case using drives_seq [OF turn_served [OF Cons.prems(1-3) ok ses Cons.prems(6)]] by simp
qed

section \<open>Accepting the connection\<close>

definition accept_io :: "int \<Rightarrow> async_io" where
  "accept_io fd = \<lparr>io_recv = None, io_send = 0, io_accept = fd, io_errno = EAGAIN\<rparr>"

lemma waiting_posts:
  assumes "async_inv s" and "as_conns (r_app s) c = Some x" and "ac_read_state x = READ_STATE_EAGAINED"
  shows "posts_of s c x = []"
proof -
  from assms(1,2) obtain ph where "in_phase ph c x (posts_of s c x)" unfolding async_inv_def using core_inv_conn by blast
  then show ?thesis using assms(3) by (cases ph) (auto simp: in_phase_def async_states)
qed

lemma accept_allowed:
  assumes "async_inv s" and "0 < fd" and "fd_ok fd" and "\<not> k_open (r_kernel s) fd"
  shows "step_allowed env (Event (w_fd (as_listening_watcher_ref (r_app s))) ev (accept_io fd)) s"
proof -
  have "server_ok s" using assms(1) by (simp add: async_inv_def core_inv_def)
  from server_ok_listener(1) [OF this] assms(2-4) show ?thesis
    by (simp add: accept_ok_def first_bytes_ok_def bytes_ok_def accept_io_def)
qed

lemma event_allowed:
  assumes "async_inv s" and x: "as_conns (r_app s) c = Some x"
  shows "step_allowed env (Event (ac_socket x) ev io) s"
proof -
  have core: "core_inv {} s" and srv: "server_ok s" using assms(1) by (simp_all add: async_inv_def core_inv_def)
  obtain a st where a: "as_streams (r_app s) a = Some st" "ft_view (r_table s) (ac_socket x) = Some a"
    using core x unfolding core_inv_def conn_links_def by blast
  then have "ac_socket x \<noteq> w_fd (as_listening_watcher_ref (r_app s))" using server_ok_listener [OF srv] by auto
  then show ?thesis using a(2) by simp
qed

lemma accepted_waits:
  assumes inv: "async_inv s" and fd: "0 < fd" "fd_ok fd" "\<not> k_open (r_kernel s) fd"
  shows "\<exists>s' x p. server_step env (Event (w_fd (as_listening_watcher_ref (r_app s))) ev (accept_io fd)) s = Inr s' \<and>
     conn_at (Suc (as_fresh (r_app s))) x p [] s' \<and> ac_read_state x = READ_STATE_EAGAINED \<and> ac_socket x = fd \<and>
     hp_ready p \<and> hp_llhttp p = e_llhttp_init env \<and> as_conns (r_app s') = (as_conns (r_app s))(Suc (as_fresh (r_app s)) \<mapsto> x) \<and>
     k_open (r_kernel s') = (k_open (r_kernel s))(fd := True) \<and> ready s' = ready s"
proof -
  let ?io = "accept_io fd" and ?h = "as_fresh (r_app s)" and ?lw = "as_listening_watcher_ref (r_app s)"
  have core: "core_inv {} s" and srv: "server_ok s" and wf: "Reactor_wf s" using inv by (simp_all add: async_inv_def core_inv_def)
  have look: "ft_view (r_table s) (w_fd ?lw) = Some (w_ref ?lw)" using server_ok_listener(1) [OF srv] .
  from dispatch_ok [OF inv accept_allowed [OF inv fd, of env ev]] obtain s' where s': "dispatch_event (async_handlers env ?io) (w_fd ?lw, ev) s = Inr s'" "async_inv s'" by blast
  have "FdTable_lookup (r_table s) (w_fd ?lw) = Inr (w_ref ?lw)" using fdt.look_some look wf by (auto simp: Reactor_wf_def)
  with s'(1) have l: "on_event_listening env ?io ?lw s = Inr s'"
    using srv by (auto simp: dispatch_event_def async_handlers_def Let_def listener_handler_def server_ok_def rbind_eq_Inr split: if_splits option.splits)
  let ?t = "s\<lparr>r_kernel := sys_accept (r_kernel s) fd\<rparr>"
  define hdl where "hdl = \<lparr>ah_tag = AsyncHandler_TAG, ah_async_connection_ref = None,
                ah_input_list = List_new NoDealloc, ah_output_list = List_new NoDealloc\<rparr>"
  let ?hd = "hdl\<lparr>ah_async_connection_ref := Some (Suc ?h)\<rparr>"
  have hd: "ah_tag hdl = AsyncHandler_TAG" "ah_input_list hdl = List_new NoDealloc" "ah_output_list hdl = List_new NoDealloc"
    by (simp_all add: hdl_def)
  have "ft_view (r_table ?t) fd = None" using core fd(3) unfolding core_inv_def Reactor_wf_def by (auto simp: not_None_eq)
  moreover have "k_open (r_kernel ?t) fd" by (simp add: sys_accept_def)
  ultimately obtain s1 x a st ctx p where
    s1: "async_connection_new env fd ?h (put_handler ?h hdl (snd (new_addr ?t))) = Inr (Suc ?h, s1)"
    "opened ?t (Suc ?h) x ?h ?hd a st (put_handler ?h ?hd s1)" "fresh_conn ?t (Suc ?h) x ?h ?hd a st"
    and p: "as_parsers (r_app s1) (Suc ?h) = Some p" "http_parser_new (e_llhttp_init env) ctx = Inr p"
    and x: "ac_read_state x = READ_STATE_IDLE" "\<not> ac_readside_posted x" "ac_write_state x = WRITE_STATE_IDLE" "ac_input_message_ptr x = None"
      "ac_socket x = fd" "k_open (r_kernel s1) = k_open (r_kernel ?t)"
    using async_connection_new_ok [OF core_inv_accept [OF core] fd(2,1), of fd ?h hdl env] hd by auto
  let ?s = "put_handler ?h ?hd s1" and ?c = "Suc ?h"
  have op: "as_conns (r_app ?s) = (as_conns (r_app s))(?c \<mapsto> x)" "as_parsers (r_app ?s) ?c = Some p"
    "ac_socket x = fd" "k_open (r_kernel ?s) = (k_open (r_kernel s))(fd := True)" "ready ?s = ready s"
    using s1(2,3) p(1) x(5,6) by (auto elim!: openedE simp: put_handler_def sys_accept_def)
  have c: "core_inv {?c} ?s" by (rule opened_core [OF core_inv_accept [OF core] s1(2,3)])
  note run = running_start [OF c, of x]
  let ?y = "x\<lparr>ac_read_state := READ_STATE_ACTIVE\<rparr>"
  have y: "running ?s ?c ?y (put_conn ?c ?y ?s)" using run running_put [OF run] op(1) by (auto dest: running_local)
  have r: "reading ?y" "ac_input_message_ptr ?y = None" using x by (simp_all add: reading_def)
  from reader_blocks [OF y r, of ?io env] obtain b s2 where s2: "reader env ?io ?c (put_conn ?c ?y ?s) = Inr s2"
    "as_parsers (r_app s2) = as_parsers (r_app ?s)"
    "moved ?s ?c (?y\<lparr>ac_active_input_buffer_ref := Some b, ac_read_state := READ_STATE_EAGAINED\<rparr>) [] s2"
    by (auto simp: accept_io_def)
  have "async_connection_read env ?io ?c ?s = Inr s2"
    using running_check [OF run] op(1) x s2(1) by (simp add: async_connection_read_def Let_def)
  then have "async_handler_new env ?io fd ?t = Inr (?h, s2)"
    using s1(1) unfolding async_handler_new_def async_handler_init_def hdl_def [symmetric] by (simp add: new_addr_def Let_def)
  then obtain hl where "s' = s2\<lparr>r_app := (r_app s2)\<lparr>as_handler_list := hl\<rparr>\<rparr>"
    using l fd(1) by (auto simp: on_event_listening_def accept_io_def Let_def rbind_eq_Inr async_socket_set_nonblocking_def)
  moreover have "hp_ready p" "hp_llhttp p = e_llhttp_init env" using p(2) http_parser_new_ready [of "e_llhttp_init env" ctx] by auto
  moreover have "as_conns (r_app s2) ?c = Some (?y\<lparr>ac_active_input_buffer_ref := Some b, ac_read_state := READ_STATE_EAGAINED\<rparr>)"
    using s2(3) by (auto simp: moved_def)
  ultimately show ?thesis using s'(1,2) s2(2,3) op waiting_posts [OF s'(2), of ?c]
    by (intro exI [of _ s'] exI [of _ "?y\<lparr>ac_active_input_buffer_ref := Some b, ac_read_state := READ_STATE_EAGAINED\<rparr>"] exI [of _ p])
      (auto simp: conn_at_def moved_def)
qed

section \<open>From accept to close\<close>

text \<open>A descriptor that is not open belongs to no connection.\<close>

lemma closed_unused:
  assumes "async_inv s" and "\<not> k_open (r_kernel s) fd"
  shows "\<forall>c x. as_conns (r_app s) c = Some x \<longrightarrow> ac_socket x \<noteq> fd"
  using assms unfolding async_inv_def core_inv_def conn_links_def Reactor_wf_def by (metis option.distinct(1))

text \<open>The steps of a connection from \<open>accept\<close> on the listening descriptor to the end.\<close>

definition session_steps :: "int \<Rightarrow> int \<Rightarrow> 32 word \<Rightarrow> async_turn list \<Rightarrow> async_step list" where
  "session_steps lfd fd ev ts = Event lfd EPOLLIN (accept_io fd) # Event fd ev blocked_io #
     concat (map (turn_steps fd) ts) @ [Run (recv_io []), Run blocked_io]"

text \<open>
  The script of a session: the event that wakes the reader, the turns, and the end of the input.  At its
  end the replies were sent, the connection is released and its descriptor closed.
\<close>

definition session_script :: "int \<Rightarrow> 32 word \<Rightarrow> async_turn list \<Rightarrow> async_step list" where
  "session_script fd ev ts = Event fd ev blocked_io # concat (map (turn_steps fd) ts) @ [Run (recv_io []), Run blocked_io]"

definition session_over ::
  "'l async_env \<Rightarrow> addr \<Rightarrow> int \<Rightarrow> async_turn list \<Rightarrow> string \<Rightarrow> 'l async_st \<Rightarrow> bool" where
  "session_over env c fd ts bytes u \<longleftrightarrow> (\<exists>mrs. bytes = replies env mrs \<and> list_all2 (async_answered env) ts mrs) \<and>
     async_inv u \<and> as_conns (r_app u) c = None \<and> \<not> k_open (r_kernel u) fd"

text \<open>The end of the input: the connection is released and its descriptor closed.\<close>

lemma close_served:
  fixes env :: "'l async_env"
  assumes at: "conn_at c x p fs s" "about_to_read c fs" and fd: "ac_socket x = fd"
    and outs: "out = replies env mrs" "list_all2 (async_answered env) ts mrs"
  shows "drives env c [Run (recv_io []), Run blocked_io] (\<lambda>bytes. session_over env c fd ts (out @ bytes)) s"
proof (rule drives_run [OF at(1), where P = "\<lambda>(out :: string) y q gs. out = [] \<and> same_id x y \<and>
    gs = [\<lparr>fn_f = read_close_connection_ptr, fn_arg = ac_handler_ref y\<rparr>]"])
  fix t assume t: "conn_at c x p fs t" "own_step c (Run (recv_io [])) t"
  from read_closed [OF t(1) at(2) t(2), of env] sent_reads [OF t(1) at(2) t(2)]
  show "\<exists>t1 y q gs. server_step env (Run (recv_io [])) t = Inr t1 \<and> moves_to t c y q gs t1 \<and> sent (Run (recv_io [])) t = [] \<and>
     same_id x y \<and> gs = [\<lparr>fn_f = read_close_connection_ptr, fn_arg = ac_handler_ref y\<rparr>]"
    unfolding recv_io_def same_id_def by auto metis
next
  fix out' :: string and y q gs and u :: "'l async_st"
  assume y: "conn_at c y q gs u" "out' = [] \<and> same_id x y \<and> gs = [\<lparr>fn_f = read_close_connection_ptr, fn_arg = ac_handler_ref y\<rparr>]"
  have en: "enabled c (Run blocked_io) u" using y by (auto simp: conn_at_def)
  have "\<exists>t1. server_step env (Run blocked_io) t = Inr t1 \<and> async_inv t1 \<and> kept_base t t1 \<and>
      session_over env c fd ts (out @ out' @ sent (Run blocked_io) t) t1"
    if "async_inv t" "same_view c u t" "own_step c (Run blocked_io) t" for t
  proof -
    have t: "conn_at c y q [\<lparr>fn_f = read_close_connection_ptr, fn_arg = ac_handler_ref y\<rparr>] t"
      using conn_at_view [OF y(1) that(1,2)] y(2) by simp
    from connection_released [OF t that(3), of env] obtain t1 where t1: "server_step env (Run blocked_io) t = Inr t1" "async_inv t1"
      "as_conns (r_app t1) = (as_conns (r_app t))(c := None)" "as_handlers (r_app t1) = (as_handlers (r_app t))(ac_handler_ref y := None)"
      "k_open (r_kernel t1) = (k_open (r_kernel t))(ac_socket y := False)" "r_itq t1 = r_itq t" by blast
    have "sent (Run blocked_io) t = []" by (rule sent_read [OF t that(3)]) (simp add: async_ptrs)
    then show ?thesis using t1 y(2) fd outs by (auto simp: session_over_def same_id_def kept_base_def map_le_def)
  qed
  with en show "drives env c [Run blocked_io] (\<lambda>bytes. session_over env c fd ts (out @ out' @ bytes)) u" by (simp del: enabled.simps)
qed (use at(2) in auto)

lemma session_driven:
  assumes at: "conn_at c x p [] s" "ac_read_state x = READ_STATE_EAGAINED" "ac_socket x = fd" "hp_ready p"
    and ev: "ev AND EPOLLIN \<noteq> 0" and ok: "\<forall>t \<in> set ts. turn_ok env t"
    and ses: "session_ok (e_llhttp_execute env) (hp_llhttp p) (map turn_wire ts)"
  shows "drives env c (session_script fd ev ts) (session_over env c fd ts) s"
  unfolding session_script_def
proof (rule drives_event [OF at(1,3) _ read_wakes [OF _ at(2) ev]])
  show "wakes ev x" using at(2) ev by (simp add: wakes_def)
  let ?x = "x\<lparr>ac_read_state := READ_STATE_ACTIVE, ac_readside_posted := True\<rparr>"
  fix u assume u: "conn_at c ?x p (reader_posted c) u"
  have fd: "ac_socket ?x = fd" using at(3) by simp
  show "drives env c (concat (map (turn_steps fd) ts) @ [Run (recv_io []), Run blocked_io]) (session_over env c fd ts) u"
  proof (rule drives_seq [OF turns_served [OF u _ at(4) ok ses fd]])
    fix out v assume "turns_over env c ?x ts out v"
    then obtain mrs y q fs where y: "out = replies env mrs" "list_all2 (async_answered env) ts mrs" "conn_at c y q fs v"
      "about_to_read c fs" "same_id ?x y" unfolding turns_over_def by blast
    show "drives env c [Run (recv_io []), Run blocked_io] (\<lambda>bytes. session_over env c fd ts (out @ bytes)) v"
      by (rule close_served [OF y(3,4) _ y(1,2)]) (use y(5) fd in \<open>simp add: same_id_def\<close>)
  qed simp
qed

lemma session_served:
  assumes s0: "async_inv s0" "as_conns (r_app s0) = Map.empty" "\<not> k_open (r_kernel s0) fd"
    "w_fd (as_listening_watcher_ref (r_app s0)) = lfd"
    and fd: "0 < fd" "fd_ok fd" and ev: "ev AND EPOLLIN \<noteq> 0" and ok: "\<forall>t \<in> set ts. turn_ok env t"
    and ses: "session_ok (e_llhttp_execute env) (e_llhttp_init env) (map turn_wire ts)"
  shows "\<exists>mrs s'. serve env (session_steps lfd fd ev ts) s0 =
       Inr (concat (map (\<lambda>(m, resp). reply_bytes (e_llhttp_method_name env) m resp) mrs), s') \<and>
     list_all2 (async_answered env) ts mrs \<and> async_inv s' \<and> \<not> k_open (r_kernel s') fd \<and>
     (\<forall>c x. as_conns (r_app s') c = Some x \<longrightarrow> ac_socket x \<noteq> fd)"
proof -
  let ?c = "Suc (as_fresh (r_app s0))"
  from accepted_waits [OF s0(1) fd s0(3), of env EPOLLIN] s0(4) obtain s1 x p where
    s1: "server_step env (Event lfd EPOLLIN (accept_io fd)) s0 = Inr s1" "conn_at ?c x p [] s1"
    "ac_read_state x = READ_STATE_EAGAINED" "ac_socket x = fd" "hp_ready p" "hp_llhttp p = e_llhttp_init env"
    "as_conns (r_app s1) = (as_conns (r_app s0))(?c \<mapsto> x)" by auto
  have "drives env ?c (session_script fd ev ts) (session_over env ?c fd ts) s1"
    by (rule session_driven [OF s1(2-5) ev ok]) (use ses s1(6) in simp)
  moreover have "async_inv s1" "\<forall>d. as_conns (r_app s1) d \<noteq> None \<longrightarrow> d = ?c" using s1(2,7) s0(2) by (simp_all add: conn_at_def)
  ultimately obtain bytes s' where s': "serve env (session_script fd ev ts) s1 = Inr (bytes, s')"
    "session_over env ?c fd ts bytes s'" using drives_sole by blast
  then obtain mrs where mrs: "bytes = replies env mrs" "list_all2 (async_answered env) ts mrs" "async_inv s'" "\<not> k_open (r_kernel s') fd"
    by (auto simp: session_over_def)
  have "serve env (session_steps lfd fd ev ts) s0 = Inr (bytes, s')"
    using s1(1) s'(1) by (simp add: session_steps_def session_script_def)
  then show ?thesis using mrs closed_unused [OF mrs(3,4)] unfolding replies_def by blast
qed


text \<open>One request in two chunks with a wait between them, its reply in two pieces with a wait between them.\<close>

lemma ok_response:
  "\<exists>resp. printable nm resp \<and> (\<forall>m. is_request_of demo_request m \<longrightarrow>
     reply_bytes nm m resp = ''HTTP/1.1  200 OK'' @ CRLF @ ''CONNECTION: close'' @ CRLF @ CRLF)"
proof -
  obtain resp r where r: "msg_wf resp" "msg_is_request resp = Some False" "msg_status_code resp = Some 200"
    "msg_reason resp = Some r" "cb_terminated r" "cb_wf r" "cb_content r = ''OK''" "msg_major_vers resp = 1"
    "msg_minor_vers resp = 1" "List_items (msg_headers resp) = []" "msg_body resp = None"
    using response_message_exists by blast
  have fl: "Message_first_line nm resp = Inr (''HTTP/1.1  200 OK'' @ CRLF)"
    using Message_status_line [OF r(2,3,4,6,5)] r(7-9) by (simp add: c_str_def int_digits_def nat_digits.simps digit_char_def char_of_def bit_0)
  then have pr: "printable nm resp" using r(1) by (auto simp: printable_def)
  have "reply_bytes nm m resp = ''HTTP/1.1  200 OK'' @ CRLF @ ''CONNECTION: close'' @ CRLF @ CRLF" if m: "is_request_of demo_request m" for m
  proof -
    have wf: "msg_wf m" and k: "\<not> keep_alive m" using m demo_turn_ok(2) by (auto simp: is_request_of_def request_keeps_def demo_turn_def)
    obtain m1 b where mb: "add_connection_header m resp = Inr m1" "Message_serialize nm m1 = Inr b"
      using add_connection_header_ok [OF wf pr] printable_serialize by blast
    have "hl_line (connection_line m) = ''CONNECTION: close'' @ CRLF"
      using k by (simp add: connection_line_def hl_line_def HEADER_CONNECTION_KEY_def HEADER_CONNECTION_CLOSE_def KVPair_new_def toupper_def c_str_def)
    with add_connection_header_exact [OF wf pr mb fl] r(10,11) mb show ?thesis by (simp add: reply_bytes_def msg_body_bytes_def)
  qed
  then show ?thesis using pr by blast
qed


end
