(* ===== verification/CH_AsyncApp.thy ===== *)
theory CH_AsyncApp
  imports CH_AsyncSession CH_Sockets
begin

text \<open>
  The asynchronous server program \<open>src/async-server-app/async-server-main.c\<close>: its application
  function, and whole sessions of a client with the server that \<open>main\<close> has started.
\<close>

section \<open>The application of the program\<close>

definition async_handler_threadid :: "addr \<Rightarrow> 'l async_st \<Rightarrow> int res" where
  "async_handler_threadid h s = rbind (check_handler s h) (\<lambda>_. Inr (as_listening_socket_fd (r_app s)))"

text \<open>
  \<open>app_handler_example\<close> of the program: as in the example of the synchronous server, but with the socket of the
  connection and the result of \<open>async_handler_threadid\<close> in the page, and both messages serialised once
  more for nothing.  \<open>simple_response_body\<close> and \<open>echo_body_buffer_chain\<close> are the same functions.
  \<open>va_long\<close> is the \<open>long\<close> that \<open>%ld\<close> reads for an \<open>int\<close> argument.
\<close>

definition async_app_handler_example :: "(int \<Rightarrow> string) \<Rightarrow> (int \<Rightarrow> int) \<Rightarrow> string \<Rightarrow> addr \<Rightarrow> Message \<Rightarrow> 'l async_st \<Rightarrow> Message res" where
  "async_app_handler_example nm va_long dt_s h request s =
     rbind Message_new_response (\<lambda>response.
     rbind (Message_get_target_cbuffer request) (\<lambda>target.
     rbind (rbind (Cbuffer_cstr target) cstr_of) (\<lambda>target_cstr.
     rbind (if target_cstr = ''/echo'' then
              rbind (Message_get_header_value request HEADER_ECHO_ID) (\<lambda>echo_value.
              rbind (case echo_value of None \<Rightarrow> Inr response
                     | Some v \<Rightarrow> Message_add_header_cstring response HEADER_ECHO_ID v) (\<lambda>response.
              rbind (echo_body_buffer_chain nm request) (\<lambda>body_chain. Inr (response, body_chain))))
            else
              rbind (get_handler s h) (\<lambda>hdl.
              rbind (c_deref (ah_async_connection_ref hdl)) (\<lambda>c.
              rbind (get_conn s c) (\<lambda>x.
              rbind (async_handler_threadid h s) (\<lambda>t.
              rbind (simple_response_body ''<h2>this is a message</h2>'' dt_s (ac_socket x) (va_long t)) (\<lambda>body_chain.
              Inr (response, body_chain))))))) (\<lambda>(response, body_chain).
     rbind (Message_set_status response HTTP_STATUS_OK) (\<lambda>response.
     rbind (Message_set_reason response ''OK'') (\<lambda>response.
     rbind (Message_add_header_cstring response HEADER_CONTENT_TYPE ''text/html; charset=UTF-8'') (\<lambda>response.
     rbind (Message_set_body response (Some body_chain)) (\<lambda>response.
     rbind (Message_set_content_length response (BufferChain_size body_chain)) (\<lambda>response.
     rbind (Message_serialize nm request) (\<lambda>request_serialized.
     rbind (Message_serialize nm response) (\<lambda>response_serialized.
     rbind (IOBuffer_free request_serialized) (\<lambda>_.
     rbind (IOBuffer_free response_serialized) (\<lambda>_.
     Inr response)))))))))))))"

definition async_process_request :: "'l async_env \<Rightarrow> (int \<Rightarrow> int) \<Rightarrow> string \<Rightarrow> addr \<Rightarrow> Message \<Rightarrow> 'l async_st \<Rightarrow> 'l async_st res" where
  "async_process_request env va_long dt_s h request s =
     rbind (check_handler s h) (\<lambda>_.
     rbind (Message_dump (e_llhttp_method_name env) request) (\<lambda>iob.
     rbind (async_app_handler_example (e_llhttp_method_name env) va_long dt_s h request s) (\<lambda>reply.
     rbind (Message_dump (e_llhttp_method_name env) reply) (\<lambda>iobreply.
     rbind (IOBuffer_free iobreply) (\<lambda>_.
     rbind (IOBuffer_free iob) (\<lambda>_.
     async_handler_handle_response env h request reply s))))))"

section \<open>What it answers\<close>

text \<open>
  The same as a function of the request alone: the worker in the place of the connection carries its
  socket.
\<close>

definition page_worker :: "int \<Rightarrow> sync_worker" where
  "page_worker socket = (sync_worker_new 0 0 None)\<lparr>sw_active_socket := socket\<rparr>"

definition program_env :: "'l async_env \<Rightarrow> string \<Rightarrow> int \<Rightarrow> int \<Rightarrow> 'l async_env" where
  "program_env env dt_s socket tid = env\<lparr>e_process_request := (\<lambda>request.
     case app_handler_example (e_llhttp_method_name env) dt_s tid (page_worker socket) request of
       Inr response \<Rightarrow> Some response | Inl _ \<Rightarrow> None)\<rparr>"

text \<open>The bytes of a request as the server would print it, and the bytes of the answer to it.\<close>

definition request_wire :: "(int \<Rightarrow> string) \<Rightarrow> frag_request \<Rightarrow> string" where
  "request_wire nm r = c_str (nm (fr_method r)) @ '' '' @ concat (fr_url r) @ '' HTTP/1.'' @ int_digits (fr_minor r) @ CRLF @
     concat (map hl_line (map header_pair (fr_headers r))) @ CRLF @ concat (fr_body r)"

definition answer_body :: "(int \<Rightarrow> string) \<Rightarrow> string \<Rightarrow> int \<Rightarrow> int \<Rightarrow> frag_request \<Rightarrow> string" where
  "answer_body nm dt_s socket tid r = (if concat (fr_url r) = ''/echo'' then request_wire nm r else example_page dt_s socket tid)"

definition answer_lines :: "(int \<Rightarrow> string) \<Rightarrow> string \<Rightarrow> int \<Rightarrow> int \<Rightarrow> frag_request \<Rightarrow> KVPair list" where
  "answer_lines nm dt_s socket tid r =
     example_lines (if concat (fr_url r) = ''/echo''
       then (case hl_find (map header_pair (fr_headers r)) HEADER_ECHO_ID of None \<Rightarrow> []
             | Some kv \<Rightarrow> [KVPair_new HEADER_ECHO_ID (c_str (value_ptr kv))])
       else []) (answer_body nm dt_s socket tid r)"

definition answer_bytes :: "(int \<Rightarrow> string) \<Rightarrow> string \<Rightarrow> int \<Rightarrow> int \<Rightarrow> frag_request \<Rightarrow> string" where
  "answer_bytes nm dt_s socket tid r = ''HTTP/1.1  200 OK'' @ CRLF @
     concat (map hl_line (answer_lines nm dt_s socket tid r @ [KVPair_new HEADER_CONNECTION_KEY
       (if lines_keep_alive (map header_pair (fr_headers r)) then HEADER_CONNECTION_KEEPALIVE else HEADER_CONNECTION_CLOSE)])) @
     CRLF @ answer_body nm dt_s socket tid r"

definition answerable :: "(int \<Rightarrow> string) \<Rightarrow> string \<Rightarrow> int \<Rightarrow> int \<Rightarrow> frag_request \<Rightarrow> bool" where
  "answerable nm dt_s socket tid r \<longleftrightarrow> frag_request_ok r \<and> length (answer_body nm dt_s socket tid r) < 1000000000"

lemma request_serialized:
  assumes "is_request_of r m" and "no_nul (concat (fr_url r))"
  shows "\<exists>b. Message_serialize nm m = Inr b \<and> iob_wf b \<and> iob_content b = request_wire nm r"
proof -
  obtain t where t: "msg_target m = Some t" "cb_wf t" "cb_terminated t" "cb_content t = concat (fr_url r)"
    using assms(1) by (auto simp: is_request_of_def cb_holds_def)
  have m: "msg_wf m" "msg_is_request m = Some True" "msg_method m = Some (fr_method r)" using assms(1) by (simp_all add: is_request_of_def)
  have one: "int_digits 1 = ''1''" by (simp add: int_digits_def nat_digits.simps digit_char_def char_of_def bit_0)
  obtain b where b: "Message_serialize nm m = Inr b" "iob_wf b" "iob_content b = (c_str (nm (fr_method r)) @ '' '' @ c_str (cb_content t) @
      '' HTTP/'' @ int_digits (msg_major_vers m) @ ''.'' @ int_digits (msg_minor_vers m) @ CRLF) @
      concat (map hl_line (List_items (msg_headers m))) @ CRLF @ msg_body_bytes m"
    using Message_serialize_ok [OF m(1) Message_request_line [OF m(2,3) t(1-3)], of nm] by blast
  have "iob_content b = request_wire nm r"
    using assms t(4) unfolding b(3) by (simp add: is_request_of_def request_wire_def one)
  with b(1,2) show ?thesis by blast
qed

lemma program_answer:
  assumes q: "is_request_of r m" and a: "answerable nm dt_s socket tid r" and d: "dt_s \<noteq> []" "no_nul dt_s"
  shows "\<exists>resp. app_handler_example nm dt_s tid (page_worker socket) m = Inr resp \<and> printable nm resp \<and>
     reply_bytes nm m resp = answer_bytes nm dt_s socket tid r"
proof -
  let ?t = "concat (fr_url r)" and ?body = "answer_body nm dt_s socket tid r"
  have u: "no_nul ?t" "?t \<noteq> []" "length ?t < 512" and len: "length ?body < 1000000000"
    using a by (simp_all add: answerable_def frag_request_ok_def)
  obtain b where b: "Message_serialize nm m = Inr b" "iob_wf b" "iob_content b = request_wire nm r"
    using request_serialized [OF q u(1)] by blast
  have ne: "iob_content b \<noteq> []" by (simp add: b(3) request_wire_def)
  have m: "msg_wf m" "cb_holds (msg_target m) ?t" "List_items (msg_headers m) = map header_pair (fr_headers r)"
    using q by (simp_all add: is_request_of_def)
  have w: "sw_tag (page_worker socket) = SYNC_WORKER_TAG" "sw_active_socket (page_worker socket) = socket"
    by (simp_all add: page_worker_def sync_worker_new_def)
  have body: "?body = (if ?t = ''/echo'' then iob_content b else example_page dt_s (sw_active_socket (page_worker socket)) tid)"
    using b(3) w(2) by (simp add: answer_body_def)
  from app_handler_ok [OF m(1) b(1,2) ne m(2) u d w(1) body len] obtain resp where
    r: "app_handler_example nm dt_s tid (page_worker socket) m = Inr resp" "msg_wf resp"
    "Message_first_line nm resp = Inr (''HTTP/1.1  200 OK'' @ CRLF)" "msg_body_bytes resp = ?body"
    "List_items (msg_headers resp) = example_lines (if ?t = ''/echo'' then echo_lines m else []) ?body" by blast
  have pr: "printable nm resp" using r(2,3) by (auto simp: printable_def)
  obtain m1 b1 where m1: "add_connection_header m resp = Inr m1" "Message_serialize nm m1 = Inr b1"
    using add_connection_header_ok [OF m(1) pr] printable_serialize by blast
  have "reply_bytes nm m resp = iob_content b1" using m1 by (simp add: reply_bytes_def)
  also have "\<dots> = answer_bytes nm dt_s socket tid r"
    unfolding add_connection_header_exact [OF m(1) pr m1 r(3)] r(4,5) echo_lines_def connection_line_def m(3)
    by (simp add: answer_bytes_def answer_lines_def)
  finally show ?thesis using r(1) pr by blast
qed

text \<open>
  C28: The application function of the program does what the server model assumes of its application:
  called for a request of a connection, \<open>process_request\<close> ends in the same state as the handler with
  the pure answer function, whose page shows the socket of the connection and, in the place of a
  thread identifier, the listening socket, as \<open>%ld\<close> prints it.
\<close>

theorem async_process_request_pure:
  assumes "check_handler s h = Inr hdl" and "ah_async_connection_ref hdl = Some c" and "get_conn s c = Inr x"
    and "is_request_of r m" and "dt_s \<noteq> []" and "no_nul dt_s"
    and "answerable (e_llhttp_method_name env) dt_s (ac_socket x) (va_long (as_listening_socket_fd (r_app s))) r"
  shows "async_process_request env va_long dt_s h m s =
     handle_request (program_env env dt_s (ac_socket x) (va_long (as_listening_socket_fd (r_app s)))) h m s"
proof -
  let ?nm = "e_llhttp_method_name env" and ?fd = "ac_socket x" and ?tid = "va_long (as_listening_socket_fd (r_app s))"
  obtain resp where r: "app_handler_example ?nm dt_s ?tid (page_worker ?fd) m = Inr resp" "printable ?nm resp"
    using program_answer [OF assms(4,7,5,6)] by blast
  note pm = request_printable [OF assms(4), of ?nm]
  have free: "\<exists>b. Message_serialize ?nm q = Inr b \<and> IOBuffer_free b = Inr ()" if "printable ?nm q" for q
    using printable_serialize [OF that] by (auto simp: IOBuffer_free_def iob_wf_check)
  obtain b1 b2 where b: "Message_serialize ?nm m = Inr b1" "IOBuffer_free b1 = Inr ()" "Message_serialize ?nm resp = Inr b2"
    "IOBuffer_free b2 = Inr ()" using free [OF pm] free [OF r(2)] by blast
  obtain d1 d2 where d: "Message_dump ?nm m = Inr d1" "IOBuffer_free d1 = Inr ()" "Message_dump ?nm resp = Inr d2"
    "IOBuffer_free d2 = Inr ()" using printable_dump [OF pm] printable_dump [OF r(2)] by blast
  have g: "get_handler s h = Inr hdl" using assms(1) by (auto simp: check_handler_def rbind_eq_Inr)
  have w: "sync_worker_socketfd (page_worker ?fd) = Inr ?fd"
    by (simp add: sync_worker_socketfd_def page_worker_def sync_worker_new_def)
  have "async_app_handler_example ?nm va_long dt_s h m s = rbind (app_handler_example ?nm dt_s ?tid (page_worker ?fd) m) (\<lambda>response.
      rbind (Message_serialize ?nm m) (\<lambda>request_serialized. rbind (Message_serialize ?nm response) (\<lambda>response_serialized.
      rbind (IOBuffer_free request_serialized) (\<lambda>_. rbind (IOBuffer_free response_serialized) (\<lambda>_. Inr response)))))"
    unfolding async_app_handler_example_def app_handler_example_def async_handler_threadid_def
    by (simp add: assms(1-3) g w rbind_assoc case_prod_unfold cong: if_cong)
  then have "async_app_handler_example ?nm va_long dt_s h m s = Inr resp" using r(1) b by simp
  then have "async_process_request env va_long dt_s h m s = async_handler_handle_response env h m resp s"
    using assms(1) d by (simp add: async_process_request_def)
  then show ?thesis using assms(1) r(1)
    by (simp add: handle_request_def program_env_def async_handler_handle_response_def async_connection_write_def)
qed

theorem async_process_request_pure_witness:
  "\<exists>(env :: unit async_env) s h m. async_process_request env (\<lambda>v. v) ''now'' h m s = handle_request (program_env env ''now'' 12 (as_listening_socket_fd (r_app s))) h m s \<and>
     async_inv s \<and> cb_holds (msg_target m) ''/echo''"
proof -
  let ?r = "demo_request\<lparr>fr_url := [''/echo'']\<rparr>" and ?env = "demo_env"
  have r: "frag_request_ok ?r" using demo_request_ok by (simp add: frag_request_ok_def frags_ok_def)
  obtain s0 :: "unit async_st" where s0: "started 100 8080 4 3 demo_kernel = Inr s0" "async_inv s0"
    "k_open (r_kernel s0) = k_open demo_kernel" "ready s0 = []" by (rule demo_started)
  have "(0 :: int) < 12" "fd_ok 12" "\<not> k_open (r_kernel s0) 12"
    using s0(3) by (simp_all add: fd_ok_def RTOR_FDTABLE_MAX_def RTOR_MAX_FDS_def demo_kernel_def)
  from accepted_waits [OF s0(2) this, of demo_env EPOLLIN] obtain s :: "unit async_st" and c x p where
    s: "conn_at c x p [] s" "ac_socket x = 12" "hp_ready p" by blast
  have core: "core_inv {} s" and x: "as_conns (r_app s) c = Some x" and inv: "async_inv s" using s(1) by (simp_all add: conn_at_def async_inv_def)
  obtain hdl where h: "check_handler s (ac_handler_ref x) = Inr hdl" "ah_async_connection_ref hdl = Some c"
    using core x unfolding core_inv_def conn_links_def by (fastforce simp: check_handler_def get_handler_def h_get_def handler_ok_def)
  have g: "get_conn s c = Inr x" using x by (simp add: get_conn_def h_get_def)
  obtain m where m: "is_request_of ?r m" using run_request [OF s(3) r] by blast
  have "answerable (e_llhttp_method_name ?env) ''now'' (ac_socket x) (as_listening_socket_fd (r_app s)) ?r"
    using r by (simp add: answerable_def answer_body_def request_wire_def demo_env_def demo_request_def c_str_def hl_line_def header_pair_def
        KVPair_new_def toupper_def make_upper_def CRLF_def int_digits_def nat_digits.simps)
  from async_process_request_pure [where va_long = "\<lambda>v. v", OF h g m _ _ this] s(2) m inv show ?thesis
    by (intro exI [of _ ?env] exI [of _ s] exI [of _ "ac_handler_ref x"] exI [of _ m]) (simp add: is_request_of_def)
qed

section \<open>Sessions with the program\<close>

text \<open>A turn with the program: reads and pieces as before, and a request it can answer.\<close>

definition program_turn_ok :: "(int \<Rightarrow> string) \<Rightarrow> string \<Rightarrow> int \<Rightarrow> int \<Rightarrow> async_turn \<Rightarrow> bool" where
  "program_turn_ok nm dt_s fd lfd t \<longleftrightarrow> (case t of (rs, b, r, ws) \<Rightarrow> (\<forall>op \<in> set rs. read_op_ok op) \<and> length b \<le> 1000000 \<and>
     answerable nm dt_s fd lfd r \<and> sends_all (length (answer_bytes nm dt_s fd lfd r)) ws)"

definition turn_request :: "async_turn \<Rightarrow> frag_request" where
  "turn_request t = (case t of (rs, b, r, ws) \<Rightarrow> r)"

lemma program_turn:
  assumes "program_turn_ok (e_llhttp_method_name env) dt_s fd lfd t" and "dt_s \<noteq> []" and "no_nul dt_s"
  shows "turn_ok (program_env env dt_s fd lfd) t"
    and "async_answered (program_env env dt_s fd lfd) t mr \<Longrightarrow>
      reply_bytes (e_llhttp_method_name env) (fst mr) (snd mr) = answer_bytes (e_llhttp_method_name env) dt_s fd lfd (turn_request t)"
proof -
  obtain rs b r ws where t: "t = (rs, b, r, ws)" by (cases t) auto
  let ?nm = "e_llhttp_method_name env"
  have a: "answerable ?nm dt_s fd lfd r" using assms(1) by (simp add: program_turn_ok_def t)
  note ans = program_answer [OF _ a assms(2,3)]
  show "turn_ok (program_env env dt_s fd lfd) t"
    using assms(1) ans by (fastforce simp: turn_ok_def program_turn_ok_def t program_env_def)
  show "reply_bytes ?nm (fst mr) (snd mr) = answer_bytes ?nm dt_s fd lfd (turn_request t)"
    if "async_answered (program_env env dt_s fd lfd) t mr"
    using that ans [of "fst mr"] by (auto simp: async_answered_def turn_wire_def turn_request_def t program_env_def)
qed

text \<open>
  A client of a server that is up: its requests are answered in order with exactly the bytes of
  the application.
\<close>

lemma program_served:
  assumes u: "server_up lfd n s" "n_socks n fd = None" and fd: "0 < fd" "fd_ok fd" and ev: "ev AND EPOLLIN \<noteq> 0"
    and d: "dt_s \<noteq> []" "no_nul dt_s" and ts: "\<forall>t \<in> set ts. program_turn_ok (e_llhttp_method_name env) dt_s fd tid t"
    and ses: "session_ok (e_llhttp_execute env) (e_llhttp_init env) (map turn_wire ts)"
  shows "\<exists>s'. serve (program_env env dt_s fd tid) (session_steps lfd fd ev ts) s =
        Inr (concat (map (\<lambda>t. answer_bytes (e_llhttp_method_name env) dt_s fd tid (turn_request t)) ts), s') \<and>
        async_inv s' \<and> \<not> k_open (r_kernel s') fd"
proof -
  let ?env = "program_env env dt_s fd tid" and ?nm = "e_llhttp_method_name env"
  have ok: "\<forall>t \<in> set ts. turn_ok ?env t" using program_turn(1) d ts by blast
  have ses': "session_ok (e_llhttp_execute ?env) (e_llhttp_init ?env) (map turn_wire ts)" using ses by (simp add: program_env_def)
  have nm: "e_llhttp_method_name ?env = ?nm" by (simp add: program_env_def)
  have s: "async_inv s" "as_conns (r_app s) = Map.empty" "\<not> k_open (r_kernel s) fd" "w_fd (as_listening_watcher_ref (r_app s)) = lfd"
    using u by (auto simp: server_up_def net_kernel_def)
  from session_served [OF s fd ev ok ses'] obtain mrs s' where
    s': "serve ?env (session_steps lfd fd ev ts) s = Inr (concat (map (\<lambda>(m, resp). reply_bytes ?nm m resp) mrs), s')"
    "list_all2 (async_answered ?env) ts mrs" "async_inv s'" "\<not> k_open (r_kernel s') fd" unfolding nm by blast
  have "map (\<lambda>(m, resp). reply_bytes ?nm m resp) mrs = map (\<lambda>t. answer_bytes ?nm dt_s fd tid (turn_request t)) ts"
    using s'(2) ts by (induction rule: list_all2_induct) (auto simp: program_turn(2) [OF _ d] case_prod_unfold)
  with s'(1,3,4) show ?thesis by simp
qed

end
