(* ===== verification/CH_AsyncConcurrent.thy ===== *)
theory CH_AsyncConcurrent
  imports CH_AsyncSession
begin

text \<open>
  Several connections of one asynchronous server at a time.  The reactor interleaves the steps of all
  connections in one thread; no step of one connection changes the record, the parser or the posted
  functions of another, and the ready list is first in, first out.  So each client is served as if it
  were alone.
\<close>

section \<open>Interleavings\<close>

text \<open>
  \<open>interleaves env c stps script s\<close>: in the run \<open>stps\<close> of the server from \<open>s\<close>, the steps of the
  connection at \<open>c\<close> are \<open>script\<close>, in this order; the other steps are any that the environment may
  take: events and functions of other connections, events on the descriptor of \<open>c\<close> that it does not
  wait for, new connections, answers of the application.  The run ends with the last step of the script.
\<close>

fun interleaves :: "'l async_env \<Rightarrow> addr \<Rightarrow> async_step list \<Rightarrow> async_step list \<Rightarrow> 'l async_st \<Rightarrow> bool" where
  "interleaves env c [] script s \<longleftrightarrow> script = []"
| "interleaves env c (stp # stps) [] s \<longleftrightarrow> False"
| "interleaves env c (stp # stps) (own # script) s \<longleftrightarrow>
     (if own_step c stp s
      then stp = own \<and> (case server_step env stp s of Inl e \<Rightarrow> True | Inr s1 \<Rightarrow> interleaves env c stps script s1)
      else step_allowed env stp s \<and>
        (case server_step env stp s of Inl e \<Rightarrow> True | Inr s1 \<Rightarrow> interleaves env c stps (own # script) s1))"

text \<open>The bytes that \<open>send\<close> accepts on the socket of one connection during a run.\<close>

fun serve_conn :: "'l async_env \<Rightarrow> addr \<Rightarrow> async_step list \<Rightarrow> 'l async_st \<Rightarrow> (string \<times> 'l async_st) res" where
  "serve_conn env c [] s = Inr ([], s)"
| "serve_conn env c (stp # stps) s =
     rbind (server_step env stp s) (\<lambda>s1. rbind (serve_conn env c stps s1) (\<lambda>(bytes, s2).
     Inr (if own_step c stp s then sent stp s @ bytes else bytes, s2)))"

lemma enabled_view: "enabled c stp s \<Longrightarrow> same_view c s t \<Longrightarrow> enabled c stp t"
  by (cases stp) (auto simp: same_view_def split: option.splits)

lemma enabled_conn: "enabled c stp s \<Longrightarrow> as_conns (r_app s) c \<noteq> None"
  by (cases stp) (auto split: option.splits)

lemma drives_view:
  assumes "drives env c (stp # script) Q s" and "same_view c s t"
  shows "drives env c (stp # script) Q t"
  using assms enabled_view [OF _ assms(2)] same_view_trans [OF assms(2)] unfolding drives.simps by blast

lemma foreign_step:
  assumes "async_inv s" and "app_ok env" and "step_allowed env stp s" and "\<not> own_step c stp s" and "as_conns (r_app s) c \<noteq> None"
  shows "\<exists>s1. server_step env stp s = Inr s1 \<and> async_inv s1 \<and> same_view c s s1"
  using server_step_ok [OF assms(1-3)] assms(4,5) unfolding foreign_kept_def by blast

lemma drives_interleaved:
  assumes "drives env c script Q s" and "async_inv s" and "app_ok env" and "interleaves env c stps script s"
  shows "\<exists>bytes s'. serve_conn env c stps s = Inr (bytes, s') \<and> Q bytes s'"
  using assms
proof (induction stps arbitrary: script Q s)
  case (Cons stp stps)
  from Cons.prems(4) obtain own script' where sc: "script = own # script'" by (cases script) auto
  show ?case
  proof (cases "own_step c stp s")
    case True
    with Cons.prems(4) have eq: "own = stp" by (simp add: sc)
    from Cons.prems(1,2) True obtain s1 where s1: "server_step env stp s = Inr s1" "async_inv s1"
      "drives env c script' (\<lambda>bytes. Q (sent stp s @ bytes)) s1" unfolding sc eq drives.simps by (metis same_view_refl)
    have "interleaves env c stps script' s1" using Cons.prems(4) True s1(1) by (simp add: sc)
    from Cons.IH [OF s1(3,2) Cons.prems(3) this] s1(1) True show ?thesis by auto
  next
    case False
    with Cons.prems(4) have al: "step_allowed env stp s" by (simp add: sc)
    have "as_conns (r_app s) c \<noteq> None" using Cons.prems(1) enabled_conn by (auto simp: sc)
    from foreign_step [OF Cons.prems(2,3) al False this] obtain s1 where s1: "server_step env stp s = Inr s1" "async_inv s1"
      "same_view c s s1" by blast
    have "interleaves env c stps script s1" using Cons.prems(4) False s1(1) by (simp add: sc)
    from Cons.IH [OF drives_view [OF Cons.prems(1) [unfolded sc] s1(3)] s1(2) Cons.prems(3) this [unfolded sc]] s1(1) False
    show ?thesis by auto
  qed
qed auto

section \<open>A server with two clients\<close>

lemma reachable_listener:
  assumes "reachable env s0 s" and "async_inv s0" and "app_ok env"
  shows "as_listening_watcher_ref (r_app s) = as_listening_watcher_ref (r_app s0)"
  using assms
proof (induction rule: reachable.induct)
  case (step s stp s')
  note i = reachable_inv [OF step.hyps(1) step.prems]
  from server_step_ok [OF i step.prems(2) returned_allowed [OF i step.hyps(2,3)]] step.hyps(3) step.IH [OF step.prems]
  show ?case by (auto simp: foreign_kept_def)
qed simp

text \<open>Two clients are connected, on the descriptors 13 and 14, and both have sent something.\<close>

lemma demo_two_clients:
  fixes env :: "nat async_env"
  assumes app: "app_ok env"
  shows "\<exists>s0 s c x d. started 100 8080 4 3 demo_kernel = Inr s0 \<and> reachable env s0 s \<and> async_inv s \<and>
     ready s = reader_posted c @ reader_posted d \<and> as_conns (r_app s) c = Some x \<and> ac_socket x = 13 \<and>
     k_open (r_kernel s) = (k_open demo_kernel)(13 := True, 14 := True)"
proof -
  have k: "fd_ok 4" "k_open demo_kernel 4" "(3 :: int) \<noteq> - 1" "fd_ok 13" "fd_ok 14" "(0 :: int) < 13" "(0 :: int) < 14"
    "\<not> k_open demo_kernel 13" "\<not> k_open demo_kernel 14" "EPOLLIN AND EPOLLIN \<noteq> 0"
    by (simp_all add: fd_ok_def RTOR_FDTABLE_MAX_def RTOR_MAX_FDS_def demo_kernel_def EPOLLIN_def)
  obtain s0 :: "nat async_st" where s0: "started 100 8080 4 3 demo_kernel = Inr s0" "async_inv s0" "ready s0 = []"
    "as_listening_watcher_ref (r_app s0) = listener_set (rtor_listener_new (Suc 100) 4) (Some on_event_listening_ptr) (Some 100)"
    "k_open (r_kernel s0) = k_open demo_kernel" using started_inv [where 'l = nat, OF k(3,1,2), of 100 8080] by blast
  have lw: "w_fd (as_listening_watcher_ref (r_app s)) = 4" if "reachable env s0 s" for s
    using reachable_listener [OF that s0(2) app] s0(4) by (simp add: listener_set_def rtor_listener_new_def rtor_listener_init_def)
  define c where "c = Suc (as_fresh (r_app s0))"
  note r0 = reachable.start [of env s0]
  have n0: "\<not> k_open (r_kernel s0) 13" using s0(5) k(8) by simp
  obtain s1 x p where s1: "server_step env (Event 4 EPOLLIN (accept_io 13)) s0 = Inr s1" "conn_at c x p [] s1"
    "ac_read_state x = READ_STATE_EAGAINED" "ac_socket x = 13" "k_open (r_kernel s1) = (k_open (r_kernel s0))(13 := True)" "ready s1 = ready s0"
    using accepted_waits [OF s0(2) k(6,4) n0, of env EPOLLIN] lw [OF r0] unfolding c_def by auto
  have r1: "reachable env s0 s1" using reachable_allowed [OF r0 _ s1(1)] accept_allowed [OF s0(2) k(6,4) n0, of env EPOLLIN] lw [OF r0] by simp
  have i1: "async_inv s1" using s1(2) by (simp add: conn_at_def)
  have n1: "\<not> k_open (r_kernel s1) 14" using s0(5) s1(5) k(9) by simp
  define d where "d = Suc (as_fresh (r_app s1))"
  obtain s2 y q where s2: "server_step env (Event 4 EPOLLIN (accept_io 14)) s1 = Inr s2" "conn_at d y q [] s2"
    "ac_read_state y = READ_STATE_EAGAINED" "ac_socket y = 14" "k_open (r_kernel s2) = (k_open (r_kernel s1))(14 := True)" "ready s2 = ready s1"
    using accepted_waits [OF i1 k(7,5) n1, of env EPOLLIN] lw [OF r1] unfolding d_def by auto
  have al: "step_allowed env (Event 4 EPOLLIN (accept_io 14)) s1" using accept_allowed [OF i1 k(7,5) n1, of env EPOLLIN] lw [OF r1] by simp
  have r2: "reachable env s0 s2" by (rule reachable_allowed [OF r1 al s2(1)])
  have i2: "async_inv s2" using s2(2) by (simp add: conn_at_def)
  have "\<not> own_step c (Event 4 EPOLLIN (accept_io 14)) s1" "as_conns (r_app s1) c \<noteq> None" using s1(2,4) by (simp_all add: conn_at_def)
  from foreign_step [OF i1 app al this] s2(1) have "same_view c s1 s2" by auto
  note c2 = conn_at_view [OF s1(2) i2 this]
  let ?x = "x\<lparr>ac_read_state := READ_STATE_ACTIVE, ac_readside_posted := True\<rparr>"
  from read_wakes_posts [OF c2 s1(3) k(10), of env blocked_io] s1(4) obtain s3 where
    s3: "server_step env (Event 13 EPOLLIN blocked_io) s2 = Inr s3" "conn_at c ?x p (reader_posted c) s3"
    "ready s3 = ready s2 @ reader_posted c" "r_kernel s3 = r_kernel s2" by (auto simp: moves_to_def)
  have al3: "step_allowed env (Event 13 EPOLLIN blocked_io) s2"
    using event_allowed [OF i2, of c x] c2 s1(4) by (simp add: conn_at_def)
  have r3: "reachable env s0 s3" by (rule reachable_allowed [OF r2 al3 s3(1)])
  have i3: "async_inv s3" using s3(2) by (simp add: conn_at_def)
  have "\<not> own_step d (Event 13 EPOLLIN blocked_io) s2" "as_conns (r_app s2) d \<noteq> None" using s2(2,4) by (simp_all add: conn_at_def)
  from foreign_step [OF i2 app al3 this] s3(1) have "same_view d s2 s3" by auto
  note d3 = conn_at_view [OF s2(2) i3 this]
  from read_wakes_posts [OF d3 s2(3) k(10), of env blocked_io] s2(4) obtain s4 where
    s4: "server_step env (Event 14 EPOLLIN blocked_io) s3 = Inr s4" "async_inv s4" "ready s4 = ready s3 @ reader_posted d" "r_kernel s4 = r_kernel s3"
    by (auto simp: moves_to_def conn_at_def)
  have al4: "step_allowed env (Event 14 EPOLLIN blocked_io) s3" using event_allowed [OF i3, of d y] d3 s2(4) by (simp add: conn_at_def)
  have "\<not> own_step c (Event 14 EPOLLIN blocked_io) s3" "as_conns (r_app s3) c \<noteq> None" using s3(2) s1(4) by (simp_all add: conn_at_def)
  from foreign_step [OF i3 app al4 this] s4(1) have "same_view c s3 s4" by auto
  then have "as_conns (r_app s4) c = Some ?x" using s3(2) by (simp add: same_view_def conn_at_def)
  then show ?thesis using s0(1) reachable_allowed [OF r3 al4 s4(1)] s4(2-4) s3(3,4) s2(5,6) s1(4-6) s0(3,5)
    by (intro exI [of _ s0] exI [of _ s4] exI [of _ c] exI [of _ ?x] exI [of _ d]) simp
qed

section \<open>The ready list is fair\<close>

text \<open>Any steps that the environment may take.\<close>

fun steps_allowed :: "'l async_env \<Rightarrow> async_step list \<Rightarrow> 'l async_st \<Rightarrow> bool" where
  "steps_allowed env [] s \<longleftrightarrow> True"
| "steps_allowed env (stp # stps) s \<longleftrightarrow> step_allowed env stp s \<and>
     (case server_step env stp s of Inl e \<Rightarrow> True | Inr s1 \<Rightarrow> steps_allowed env stps s1)"

lemma queue_moves:
  assumes "async_inv s" and "app_ok env" and "steps_allowed env stps s"
    and "ready s = pre @ f # rest" and "length (filter is_run stps) \<le> length pre"
  shows "\<exists>bytes s' rest'. serve env stps s = Inr (bytes, s') \<and> async_inv s' \<and>
     ready s' = drop (length (filter is_run stps)) pre @ f # rest'"
  using assms
proof (induction stps arbitrary: s pre rest)
  case (Cons stp stps)
  have al: "step_allowed env stp s" using Cons.prems(3) by simp
  from server_step_ok [OF Cons.prems(1,2) al] obtain s1 fs where s1: "server_step env stp s = Inr s1" "async_inv s1"
    "ready s1 = (if is_run stp then tl (ready s) else ready s) @ fs" unfolding foreign_kept_def by blast
  have rest: "steps_allowed env stps s1" using Cons.prems(3) s1(1) by simp
  let ?pre = "if is_run stp then tl pre else pre"
  have "pre \<noteq> []" if "is_run stp" using Cons.prems(5) that by auto
  then have rd: "ready s1 = ?pre @ f # (rest @ fs)" using s1(3) Cons.prems(4) by (auto simp: tl_append split: list.splits)
  have "length (filter is_run stps) \<le> length ?pre" using Cons.prems(5) by (auto split: if_splits)
  from Cons.IH [OF s1(2) Cons.prems(2) rest rd this] s1(1) show ?case by (auto simp: drop_Suc split: if_splits)
qed auto

text \<open>
  C21: A posted function does not wait for ever: whatever connections open, close, read and write in the
  meantime, it is at the front of the ready list after exactly as many turns of the loop as functions
  were posted before it, and no step on the way fails.  New posts go behind it.
\<close>

theorem async_post_comes_up:
  fixes env :: "'l async_env"
  assumes "epoll_fd \<noteq> - 1" and "fd_ok lfd" and "k_open k lfd" and "started sref port lfd epoll_fd k = Inr s0"
    and "app_ok env" and "reachable env s0 s" and "ready s = pre @ f # rest"
    and "steps_allowed env stps s" and "length (filter is_run stps) = length pre"
  shows "\<exists>bytes s' rest'. serve env stps s = Inr (bytes, s') \<and> ready s' = f # rest' \<and>
     (\<exists>c x. as_conns (r_app s') c = Some x \<and> mine c (ac_handler_ref x) f)"
proof -
  have "async_inv s0" using started_inv [where 'l = 'l, OF assms(1-3), of sref port] assms(4) by auto
  from queue_moves [OF reachable_inv [OF assms(6) this assms(5)] assms(5,8,7)] assms(9) obtain bytes s' rest' where
    s': "serve env stps s = Inr (bytes, s')" "async_inv s'" "ready s' = f # rest'" by auto
  then have "\<exists>c x. as_conns (r_app s') c = Some x \<and> mine c (ac_handler_ref x) f"
    unfolding async_inv_def core_inv_def by auto
  with s' show ?thesis by blast
qed

text \<open>The function of the second client comes up after one turn of the loop, an event for the first client in between.\<close>

theorem async_post_comes_up_witness:
  "\<exists>(env :: nat async_env) s f g bytes s' rest. ready s = [f, g] \<and>
     serve env [Event 13 EPOLLIN blocked_io, Run blocked_io] s = Inr (bytes, s') \<and> ready s' = g # rest"
proof -
  define env :: "nat async_env" where "env = \<lparr>e_llhttp_init = 0, e_llhttp_execute = demo_exec,
     e_llhttp_finish = (\<lambda>l. ([], l, 0)), e_llhttp_method_name = (\<lambda>_. ''GET''), e_process_request = (\<lambda>_. None)\<rparr>"
  have app: "app_ok env" by (simp add: app_ok_def env_def)
  obtain s0 s c x d where s: "started 100 8080 4 3 demo_kernel = Inr s0" "reachable env s0 s" "async_inv s"
    "ready s = reader_posted c @ reader_posted d" "as_conns (r_app s) c = Some x" "ac_socket x = 13"
    using demo_two_clients [OF app] by blast
  have k: "fd_ok 4" "k_open demo_kernel 4" "(3 :: int) \<noteq> - 1"
    by (simp_all add: fd_ok_def RTOR_FDTABLE_MAX_def RTOR_MAX_FDS_def demo_kernel_def)
  let ?stps = "[Event 13 EPOLLIN blocked_io, Run blocked_io]"
  have ev: "step_allowed env (Event 13 EPOLLIN blocked_io) s" using event_allowed [OF s(3,5)] s(6) by simp
  from server_step_ok [OF s(3) app ev] obtain s1 fs where "server_step env (Event 13 EPOLLIN blocked_io) s = Inr s1"
    "ready s1 = ready s @ fs" by (auto simp: foreign_kept_def)
  then have al: "steps_allowed env ?stps s" using ev s(4)
    by (auto simp: bytes_ok_def blocked_io_def simp del: server_step.simps split: sum.splits)
  have "length (filter is_run ?stps) = length (reader_posted c)" by simp
  from async_post_comes_up [OF k(3,1,2) s(1) app s(2) _ al this] s(4) obtain bytes s' rest' where
    "serve env ?stps s = Inr (bytes, s')" "ready s' = \<lparr>fn_f = postable_reader_ptr, fn_arg = d\<rparr> # rest'" by auto
  then show ?thesis using s(4) by (intro exI conjI) (auto simp del: serve.simps)
qed

text \<open>So a script has a run whatever the others have posted: the functions before its own are run first.\<close>

lemma own_turn:
  assumes "async_inv s" and "app_ok env" and "as_conns (r_app s) c = Some x" and "ready s = pre @ f # rest"
    and "mine c (ac_handler_ref x) f" and "\<forall>g \<in> set pre. \<not> mine c (ac_handler_ref x) g"
    and "\<And>t. async_inv t \<Longrightarrow> same_view c s t \<Longrightarrow> own_step c (Run io) t \<Longrightarrow> \<exists>stps. interleaves env c stps (Run io # script) t"
  shows "\<exists>stps. interleaves env c stps (Run io # script) s"
  using assms
proof (induction pre arbitrary: s rest)
  case Nil
  then show ?case by simp
next
  case (Cons g pre)
  have no: "\<not> own_step c (Run blocked_io) s" using Cons.prems(3,4,6) by simp
  have al: "step_allowed env (Run blocked_io) s" using Cons.prems(4) by (simp add: bytes_ok_def blocked_io_def)
  from server_step_ok [OF Cons.prems(1,2) al] obtain s1 where s1: "server_step env (Run blocked_io) s = Inr s1" "async_inv s1"
    "foreign_kept (Run blocked_io) s s1" by blast
  then obtain fs where v: "same_view c s s1" "ready s1 = pre @ f # (rest @ fs)"
    using no Cons.prems(3,4) by (auto simp: foreign_kept_def)
  have x: "as_conns (r_app s1) c = Some x" using v(1) Cons.prems(3) by (simp add: same_view_def)
  from Cons.IH [OF s1(2) Cons.prems(2) x v(2) Cons.prems(5)] Cons.prems(6,7) same_view_trans [OF v(1)]
  obtain stps where "interleaves env c stps (Run io # script) s1" by auto
  then have "interleaves env c (Run blocked_io # stps) (Run io # script) s" using no al s1(1) by (simp del: own_step.simps step_allowed.simps server_step.simps)
  then show ?case by blast
qed

lemma drives_schedule:
  assumes "drives env c script Q s" and "async_inv s" and "app_ok env"
  shows "\<exists>stps. interleaves env c stps script s"
  using assms
proof (induction script arbitrary: Q s)
  case Nil
  have "interleaves env c [] [] s" by simp
  then show ?case by blast
next
  case (Cons stp script)
  have now: "\<exists>stps. interleaves env c stps (stp # script) t" if t: "async_inv t" "same_view c s t" "own_step c stp t" for t
  proof -
    from Cons.prems(1) t obtain t1 where t1: "server_step env stp t = Inr t1" "async_inv t1"
      "drives env c script (\<lambda>bytes. Q (sent stp t @ bytes)) t1" unfolding drives.simps by blast
    from Cons.IH [OF t1(3,2) Cons.prems(3)] obtain stps where "interleaves env c stps script t1" by blast
    then have "interleaves env c (stp # stps) (stp # script) t" using t(3) t1(1) by simp
    then show ?thesis by blast
  qed
  have en: "enabled c stp s" using Cons.prems(1) by simp
  show ?case
  proof (cases stp)
    case (Run io)
    with en obtain x where x: "as_conns (r_app s) c = Some x" "posts_of s c x \<noteq> []" by (auto split: option.splits)
    then have "\<exists>f \<in> set (ready s). mine c (ac_handler_ref x) f" by (auto simp: posts_of_def filter_empty_conv)
    from split_list_first_prop [OF this] obtain pre f rest where "ready s = pre @ f # rest" "mine c (ac_handler_ref x) f"
      "\<forall>g \<in> set pre. \<not> mine c (ac_handler_ref x) g" by blast
    from own_turn [OF Cons.prems(2,3) x(1) this] now show ?thesis unfolding Run by blast
  qed (use now [OF Cons.prems(2)] en in simp_all)
qed

section \<open>Each client is served as if it were alone\<close>



end
