(* ===== verification/CH_AsyncLoop.thy ===== *)
theory CH_AsyncLoop
  imports CH_AsyncConcurrent
begin

text \<open>
  The reactor loop of the asynchronous server.  \<open>CH_Async\<close> gives the steps of the server in any order;
  \<open>rtor_reactor_run\<close> takes them in its own: the events of one \<open>epoll_wait\<close>, then the ready list until it
  is empty.  Here each event and each posted function has its own results of \<open>recv\<close>, \<open>send\<close> and
  \<open>accept\<close>; with the same results for all of them this is the loop of \<open>CH_Reactor\<close>.  Shown here: a turn gets
  back to \<open>epoll_wait\<close> in a reachable state, or stops with one of the failures that a step can have,
  if the sockets block after any finite number of results; the inner loop ends once the sockets block; and it does not end while a
  client keeps sending pieces of a request that is not complete.
\<close>

section \<open>The loop with a result for each call\<close>

text \<open>The inner loop over the ready list, one result for each call; it needs one more when they run out.\<close>

fun run_ready_io :: "'l async_env \<Rightarrow> async_io list \<Rightarrow> 'l async_st \<Rightarrow> 'l async_st res" where
  "run_ready_io env [] s =
     rbind (rtor_check s) (\<lambda>_.
     rbind (functor_list_size (r_ready_list s)) (\<lambda>sz. if sz = 0 then Inr s else Inl NoReturn))"
| "run_ready_io env (io # ios) s =
     rbind (rtor_check s) (\<lambda>_.
     rbind (functor_list_size (r_ready_list s)) (\<lambda>sz.
       if sz = 0 then Inr s
       else rbind (run_one env io s) (run_ready_io env ios)))"

text \<open>One turn of the outer loop: \<open>epoll_wait\<close> fails, interrupted or not, or gives events.\<close>

datatype loop_turn = Turn_error bool | Turn_events "(int \<times> 32 word \<times> async_io) list" "async_io list"

fun async_reactor_run :: "'l async_env \<Rightarrow> loop_turn list \<Rightarrow> 'l async_st \<Rightarrow> 'l AsyncServer run_result res" where
  "async_reactor_run env [] s =
     rbind (run_head s) (\<lambda>(leave, s1). Inr (if leave then Run_returned None s1 else Run_waiting s1))"
| "async_reactor_run env (turn # turns) s =
     rbind (run_head s) (\<lambda>(leave, s1).
       if leave then Inr (Run_returned None s1)
       else case turn of
         Turn_error interrupted \<Rightarrow>
           Inr (Run_returned (if interrupted then None else if r_closed_flag s1 then Some 0 else Some (- 1)) s1)
       | Turn_events evs ios \<Rightarrow>
           if evs = [] then
             Inr (Run_returned (Some 0) (s1\<lparr>r_kernel := snd (close_epoll (r_kernel s1) (r_epoll_fd s1))\<rparr>))
           else
             rbind (dispatch_batch env evs s1) (\<lambda>s2.
             rbind (run_ready_io env ios s2) (async_reactor_run env turns)))"

text \<open>The turn in which every call of the given outcome gets the same results.\<close>

fun turn_of :: "async_io \<Rightarrow> nat \<Rightarrow> wait_outcome \<Rightarrow> loop_turn" where
  "turn_of io n (Wait_error interrupted) = Turn_error interrupted"
| "turn_of io n (Wait_events evs) = Turn_events (map (\<lambda>(fd, ev). (fd, ev, io)) evs) (replicate n io)"

lemma rbind_if: "rbind (if b then m else m') f = (if b then rbind m f else rbind m' f)"
  by simp

lemma run_ready_io_size:
  "rbind (rtor_check s) (\<lambda>_. rbind (functor_list_size (r_ready_list s)) (\<lambda>sz. if sz = 0 then Inr s else run_ready_io env ios s)) =
   run_ready_io env ios s"
  by (cases "rtor_check s"; cases "functor_list_size (r_ready_list s)"; cases ios) auto

lemma run_ready_same:
  "rbind (run_ready (async_code env io) (Suc n) s) (\<lambda>(ran, s'). Inr s') = run_ready_io env (replicate (Suc n) io) s"
proof (induction n arbitrary: s)
  case 0
  show ?case by (simp add: run_one_def Let_def rbind_assoc rbind_if split_def cong: if_cong)
next
  case (Suc n)
  have "rbind (run_ready (async_code env io) (Suc n) t) (\<lambda>x. Inr (snd x)) = run_ready_io env (replicate (Suc n) io) t" for t
    using Suc [of t] by (simp only: split_def)
  then show ?case
    unfolding replicate_Suc [of "Suc n"] run_ready.simps(2) [of _ "Suc n"] run_ready_io.simps(2) [of _ _ "replicate (Suc n) io"]
    by (simp only: run_one_def Let_def rbind_assoc rbind_if split_def rbind_Inr run_ready_io_size snd_conv)
qed

lemma dispatch_same:
  "dispatch_events (async_handlers env io) evs s = dispatch_batch env (map (\<lambda>(fd, ev). (fd, ev, io)) evs) s"
  by (induction evs arbitrary: s) (auto simp: dispatch_events_def dispatch_batch_def intro!: rbind_cong)

text \<open>
  When every system call in a turn gives the same results, this is the loop of \<open>CH_Reactor\<close> on the handlers
  and posted functions of the server, also where an assertion fails.
\<close>

lemma async_loop_is_reactor_run:
  "rtor_reactor_run (async_handlers env io) (async_code env io) (Suc n) outs s =
   async_reactor_run env (map (turn_of io (Suc n)) outs) s"
proof (induction outs arbitrary: s)
  case Nil
  show ?case by simp
next
  case (Cons out outs)
  have ready: "rbind (run_ready (async_code env io) (Suc n) t) (\<lambda>(ran, s'). f s') =
      rbind (run_ready_io env (replicate (Suc n) io) t) f" for t f
    unfolding run_ready_same [symmetric] rbind_assoc by (simp add: split_def)
  show ?case
    by (cases out) (auto simp: dispatch_same ready Cons.IH [symmetric] simp del: run_ready.simps replicate_Suc intro!: rbind_cong)
qed

section \<open>The ready list drains\<close>

text \<open>
  While no socket gives or takes bytes, a posted function posts at most one other, the writer of a
  response that the application has just given.
\<close>

lemma blocked_run:
  assumes inv: "async_inv s" and app: "app_ok env" and rd: "ready s = f # rest"
  shows "\<exists>s' fs. run_one env blocked_io s = Inr s' \<and> async_inv s' \<and> ready s' = rest @ fs \<and>
     (fs = [] \<or> fn_f f = postable_handle_request_ptr \<and> (\<exists>c. fs = [\<lparr>fn_f = async_postable_writer_ptr, fn_arg = c\<rparr>]))"
proof -
  have io: "io_recv blocked_io = None" "io_errno blocked_io = EAGAIN" "io_send blocked_io < 0" by (simp_all add: blocked_io_def)
  obtain c x where c: "as_conns (r_app s) c = Some x" "mine c (ac_handler_ref x) f"
    using inv rd unfolding async_inv_def core_inv_def by (metis list.set_intros(1))
  obtain p where p: "as_parsers (r_app s) c = Some p"
    using inv c(1) unfolding async_inv_def core_inv_def conn_links_def by blast
  obtain l t ph where t: "t = s\<lparr>r_ready_list := l, r_runloop_executing := True\<rparr>" "functor_list_remove (r_ready_list s) = Inr (f, l)"
    "core_inv {c} t" "list_ok t" "ready t = rest" "in_phase ph c x [f]" "ac_input_message_ptr x = None" "as_conns (r_app t) c = Some x"
    using take_named [OF inv rd c] by blast
  have one: "run_one env blocked_io s = Inr (s1\<lparr>r_runloop_executing := False\<rparr>)" if "async_code env blocked_io (fn_f f) (fn_arg f) t = Inr s1" for s1
    using that t(1,2) by (simp add: run_one_def Functor_call_def)
  have own: "own_step c (Run blocked_io) s" using c rd by simp
  have "posts_of s c x = f # filter (mine c (ac_handler_ref x)) rest" using c(2) by (simp add: posts_of_def rd)
  moreover obtain ph' where "in_phase ph' c x (posts_of s c x)" using core_inv_conn [of s, OF _ c(1)] inv by (auto simp: async_inv_def)
  ultimately have "posts_of s c x = [f]" using in_phase_length by fastforce
  then have at: "conn_at c x p [f] s" using inv c(1) p by (simp add: conn_at_def)
  have reads: ?thesis if f: "[f] = reader_posted c \<or> [f] = written_posted c"
  proof -
    from run_reads [OF at f own] obtain t y u where t: "ready t = tl (ready s)" "list_ok t" "running t c y u" "reading y"
      "ac_input_message_ptr y = None"
      "\<And>s1. reader env blocked_io c u = Inr s1 \<Longrightarrow> run_one env blocked_io s = Inr (s1\<lparr>r_runloop_executing := False\<rparr>)" by auto
    from reader_blocks [OF t(3-5) io(1,2), of env] obtain s1 where
      s1: "reader env blocked_io c u = Inr s1" "settled c t s1" "ready s1 = ready t" by (auto simp: moved_def)
    from t(6) [OF s1(1)] settled_frame [OF s1(2) t(2)] s1(3) t(1) rd show ?thesis by auto
  qed
  show ?thesis
  proof (cases ph)
    case Reading
    then have "[f] = reader_posted c" using t(6) by (cases f) (simp add: in_phase_def)
    then show ?thesis using reads by blast
  next
    case Written
    then have "[f] = written_posted c" using t(6) by (cases f) (simp add: in_phase_def)
    then show ?thesis using reads by blast
  next
    case Requested
    then have f: "fn_f f = postable_handle_request_ptr" "fn_arg f = ac_handler_ref x" using t(6) by (auto simp: in_phase_def)
    from postable_handle_request_ok [OF t(3,8,7,6) [unfolded Requested] app] obtain s1 where
      s1: "postable_handle_request env (ac_handler_ref x) t = Inr s1" "settled c t s1"
      "ready s1 = ready t \<or> ready s1 = ready t @ [\<lparr>fn_f = async_postable_writer_ptr, fn_arg = c\<rparr>]" by blast
    have "async_code env blocked_io (fn_f f) (fn_arg f) t = Inr s1" using s1(1) f by (simp add: async_code_def async_ptrs)
    from one [OF this] settled_frame [OF s1(2) t(4)] s1(3) f(1) t(5) show ?thesis by auto
  next
    case Writing
    then have f: "fn_f f = async_postable_writer_ptr" "fn_arg f = c" using t(6) by (auto simp: in_phase_def)
    from async_postable_writer_waits [OF t(3,8,7,6) [unfolded Writing] io(3,2)] obtain s1 where
      s1: "async_postable_writer blocked_io c t = Inr s1" "settled c t s1" "ready s1 = ready t" by (auto simp: moved_def)
    have "async_code env blocked_io (fn_f f) (fn_arg f) t = Inr s1" using s1(1) f by (simp add: async_code_def async_ptrs)
    from one [OF this] settled_frame [OF s1(2) t(4)] s1(3) t(5) show ?thesis by auto
  next
    case Closing
    then have f: "fn_f f = read_close_connection_ptr \<or> fn_f f = write_close_connection_ptr" "fn_arg f = ac_handler_ref x"
      using t(6) by (auto simp: in_phase_def)
    from postable_close_connection_ok [OF t(3,8,4)] obtain s1 where
      s1: "postable_close_connection (ac_handler_ref x) t = Inr s1" "async_inv s1" "ready s1 = ready t" by blast
    have "async_code env blocked_io (fn_f f) (fn_arg f) t = Inr s1" using s1(1) f by (auto simp: async_code_def async_ptrs)
    from one [OF this] s1(2,3) t(5) show ?thesis by auto
  qed (use t(6) in \<open>auto simp: in_phase_def\<close>)
qed

lemma run_ready_next:
  assumes wf: "Reactor_wf s" and rd: "ready s \<noteq> []" and one: "run_one env io s = Inr s1" and wf1: "Reactor_wf s1"
  shows "\<exists>f. run_ready (async_code env io) (Suc n) s =
     (if ready s1 = [] then Inr ([f], s1) else rbind (run_ready (async_code env io) n s1) (\<lambda>(ran, s2). Inr (f # ran, s2)))"
proof -
  have sz: "functor_list_size (r_ready_list s) = Inr (int (length (ready s)))" "int (length (ready s)) \<noteq> 0"
    using ready_size [OF wf] rd by (simp_all del: length_fl_contents)
  from one obtain f l t where f: "functor_list_remove (r_ready_list s) = Inr (f, l)"
    "Functor_call (async_code env io) f (s\<lparr>r_ready_list := l, r_runloop_executing := True\<rparr>) = Inr t"
    "s1 = t\<lparr>r_runloop_executing := False\<rparr>" by (auto simp: run_one_def rbind_eq_Inr)
  have sz1: "functor_list_size (r_ready_list s1) = Inr (int (length (ready s1)))"
    "int (length (ready s1)) = 0 \<longleftrightarrow> ready s1 = []"
    using ready_size [OF wf1] by (simp_all del: length_fl_contents)
  have chk: "rtor_check s = Inr ()" "rtor_check s1 = Inr ()" using wf wf1 by simp_all
  have "run_ready (async_code env io) (Suc n) s =
     (if ready s1 = [] then Inr ([f], s1) else rbind (run_ready (async_code env io) n s1) (\<lambda>(ran, s2). Inr (f # ran, s2)))"
    unfolding run_ready.simps(2) Let_def sz(1) chk f(1,2) rbind_Inr split_conv f(3) [symmetric] sz1 using sz sz1(2) by simp
  then show ?thesis by blast
qed

definition drain_weight :: "rfunctor \<Rightarrow> nat" where
  "drain_weight f = (if fn_f f = postable_handle_request_ptr then 2 else 1)"

lemma drain_weights: "sum_list (map drain_weight fs) \<le> 2 * length fs"
  by (induction fs) (auto simp: drain_weight_def)

lemma drains:
  assumes "async_inv s" and "app_ok env" and "reachable env s0 s" and "sum_list (map drain_weight (ready s)) < n"
  shows "\<exists>ran s'. run_ready (async_code env blocked_io) n s = Inr (ran, s') \<and> reachable env s0 s' \<and> ready s' = [] \<and>
     length ran \<le> sum_list (map drain_weight (ready s))"
  using assms
proof (induction n arbitrary: s)
  case (Suc n)
  have wf: "Reactor_wf s" using Suc.prems(1) by (simp add: async_inv_def core_inv_def)
  show ?case
  proof (cases "ready s")
    case Nil
    with wf Suc.prems(3) show ?thesis by (simp add: ready_size)
  next
    case (Cons f rest)
    from blocked_run [OF Suc.prems(1,2) Cons] obtain s1 fs where s1: "run_one env blocked_io s = Inr s1" "async_inv s1" "ready s1 = rest @ fs"
      "fs = [] \<or> fn_f f = postable_handle_request_ptr \<and> (\<exists>c. fs = [\<lparr>fn_f = async_postable_writer_ptr, fn_arg = c\<rparr>])" by blast
    have wf1: "Reactor_wf s1" using s1(2) by (simp add: async_inv_def core_inv_def)
    have al: "step_allowed env (Run blocked_io) s" using Cons by (simp add: bytes_ok_def blocked_io_def)
    have re: "reachable env s0 s1" using reachable_allowed [OF Suc.prems(3) al] s1(1) by simp
    have less: "sum_list (map drain_weight (ready s1)) < sum_list (map drain_weight (ready s))"
      using s1(3,4) by (auto simp: Cons drain_weight_def async_ptrs)
    obtain g where g: "run_ready (async_code env blocked_io) (Suc n) s =
       (if ready s1 = [] then Inr ([g], s1) else rbind (run_ready (async_code env blocked_io) n s1) (\<lambda>(ran, s2). Inr (g # ran, s2)))"
      using run_ready_next [OF wf _ s1(1) wf1, of n] Cons by auto
    show ?thesis
    proof (cases "ready s1 = []")
      case True
      then show ?thesis using g re less by (intro exI [of _ "[g]"] exI [of _ s1]) simp
    next
      case False
      from Suc.IH [OF s1(2) Suc.prems(2) re] less Suc.prems(4) obtain ran s' where
        "run_ready (async_code env blocked_io) n s1 = Inr (ran, s')" "reachable env s0 s'" "ready s' = []"
        "length ran \<le> sum_list (map drain_weight (ready s1))" by auto
      then show ?thesis using g less False by (intro exI [of _ "g # ran"] exI [of _ s']) simp
    qed
  qed
qed simp

text \<open>
  C22: The inner loop of the reactor ends.  In every reachable state, once no socket has bytes to
  read or room to write, the loop over the ready list empties it, after at most two calls for each
  function that was in the list (at most 2048 calls), and no call fails: only a request that the application answers at
  once posts another function, the writer, which then waits.
\<close>

theorem async_loop_drains:
  fixes env :: "'l async_env"
  assumes "epoll_fd \<noteq> - 1" and "fd_ok lfd" and "k_open k lfd" and "started sref port lfd epoll_fd k = Inr s0"
    and "app_ok env" and "reachable env s0 s" and "2 * length (ready s) < n"
  shows "\<exists>ran s'. run_ready (async_code env blocked_io) n s = Inr (ran, s') \<and> reachable env s0 s' \<and> ready s' = [] \<and>
     length ran \<le> 2 * length (ready s) \<and> length ran \<le> 2048"
proof -
  have "async_inv s0" using started_inv [where 'l = 'l, OF assms(1-3), of sref port] assms(4) by auto
  from reachable_inv [OF assms(6) this assms(5)] have inv: "async_inv s" .
  have w: "sum_list (map drain_weight (ready s)) \<le> 2 * length (ready s)" by (rule drain_weights)
  also have "2 * length (ready s) < n" by (rule assms(7))
  finally have "sum_list (map drain_weight (ready s)) < n" .
  from drains [OF inv assms(5,6) this] obtain ran s' where
    s': "run_ready (async_code env blocked_io) n s = Inr (ran, s')" "reachable env s0 s'" "ready s' = []"
    "length ran \<le> sum_list (map drain_weight (ready s))" by blast
  have "length (ready s) \<le> 1024" using ready_room [of "{}" s] inv by (simp add: async_inv_def del: length_fl_contents)
  with s' w show ?thesis by (intro exI [of _ ran] exI [of _ s']) linarith
qed

section \<open>Every turn is a path of steps\<close>

text \<open>
  The results of a turn as far as they are given, after which the sockets block: no bytes to read, no
  room to write.  2049 blocked calls are enough for any ready list.
\<close>

fun settle :: "loop_turn \<Rightarrow> loop_turn" where
  "settle (Turn_events evs ios) = Turn_events evs (ios @ replicate 2049 blocked_io)"
| "settle turn = turn"

text \<open>
  The kernel's side of the turns: \<open>epoll_wait\<close> names registered descriptors, each once, and \<open>accept\<close>
  returns no descriptor that is open.  Nothing is asked of the steps of the inner loop.
\<close>

fun loop_permitted :: "'l async_env \<Rightarrow> loop_turn list \<Rightarrow> 'l async_st \<Rightarrow> bool" where
  "loop_permitted env [] s \<longleftrightarrow> True"
| "loop_permitted env (Turn_error interrupted # turns) s \<longleftrightarrow> False"
| "loop_permitted env (Turn_events evs ios # turns) s \<longleftrightarrow>
     evs \<noteq> [] \<and> distinct (map fst evs) \<and> (\<forall>(fd, ev, io) \<in> set evs. step_permitted env (Event fd ev io) s) \<and>
     (case rbind (dispatch_batch env evs s) (run_ready_io env ios) of Inl e \<Rightarrow> True | Inr s2 \<Rightarrow> loop_permitted env turns s2)"

lemma reachable_itq:
  assumes "reachable env s0 s" and "async_inv s0" and "app_ok env"
  shows "r_itq s = r_itq s0"
  using assms
proof (induction rule: reachable.induct)
  case (step s stp s')
  note i = reachable_inv [OF step.hyps(1) step.prems]
  from server_step_ok [OF i step.prems(2) returned_allowed [OF i step.hyps(2,3)]] step.hyps(3) step.IH [OF step.prems]
  show ?case by (auto simp: foreign_kept_def)
qed simp

lemma blocked_drains:
  assumes "async_inv s" and "app_ok env" and "reachable env s0 s"
  shows "\<exists>s'. run_ready_io env (replicate 2049 blocked_io) s = Inr s' \<and> reachable env s0 s' \<and> ready s' = []"
proof -
  have "length (ready s) \<le> 1024" using ready_room [of "{}" s] assms(1) by (simp add: async_inv_def del: length_fl_contents)
  with drain_weights [of "ready s"] have "sum_list (map drain_weight (ready s)) < 2049" by linarith
  from drains [OF assms this] obtain ran s' where
    s': "run_ready (async_code env blocked_io) 2049 s = Inr (ran, s')" "reachable env s0 s'" "ready s' = []" by blast
  have "(2049 :: nat) = Suc 2048" by simp
  then have "run_ready_io env (replicate 2049 blocked_io) s = Inr s'"
    using run_ready_same [of env blocked_io 2048 s] s'(1) by (metis rbind_Inr split_conv)
  with s'(2,3) show ?thesis by blast
qed

lemma run_ready_io_outcome:
  assumes "async_inv s" and "app_ok env" and "reachable env s0 s"
  shows "(\<exists>s'. run_ready_io env (ios @ replicate 2049 blocked_io) s = Inr s' \<and> reachable env s0 s' \<and> ready s' = []) \<or>
     (\<exists>e. run_ready_io env (ios @ replicate 2049 blocked_io) s = Inl e \<and> fault_at env s0 e)"
  using assms
proof (induction ios arbitrary: s)
  case Nil
  from blocked_drains [OF Nil] show ?case by simp
next
  case (Cons io ios)
  have wf: "Reactor_wf s" using Cons.prems(1) by (simp add: async_inv_def core_inv_def)
  show ?case
  proof (cases "ready s = []")
    case True
    with wf Cons.prems(3) show ?thesis by (simp add: ready_size)
  next
    case False
    then have "int (length (ready s)) \<noteq> 0" by (simp del: length_fl_contents)
    then have one: "run_ready_io env ((io # ios) @ more) s = rbind (server_step env (Run io) s) (run_ready_io env (ios @ more))" for more
      using wf by (simp add: ready_size del: length_fl_contents)
    from False have "step_permitted env (Run io) s" by simp
    from Cons.prems this show ?thesis
    proof (rule step_outcome)
      fix s1 assume "server_step env (Run io) s = Inr s1" "async_inv s1" "reachable env s0 s1"
      then show ?thesis using Cons.IH [of s1] Cons.prems(2) unfolding one by simp
    qed (unfold one, simp)
  qed
qed

lemma run_head_waits:
  assumes "async_inv s" and "ready s = []" and "r_itq s = None"
  shows "run_head s = Inr (False, s)"
proof -
  have wf: "Reactor_wf s" and srv: "server_ok s" using assms(1) by (simp_all add: async_inv_def core_inv_def)
  have "ft_wf (r_table s)" using wf by (simp add: Reactor_wf_def)
  moreover have "ft_count (r_table s) \<noteq> 0" using table_nonempty [OF wf] server_ok_listener(1) [OF srv] by blast
  ultimately show ?thesis using assms(2,3) wf by (simp add: run_head_def FdTable_size_def ready_size)
qed

lemma loop_outcome:
  assumes i0: "async_inv s0" "r_itq s0 = None" and app: "app_ok env"
    and "reachable env s0 s" and "ready s = []" and "loop_permitted env (map settle turns) s"
  shows "(\<exists>s'. reachable env s0 s' \<and> ready s' = [] \<and>
      (\<forall>more. async_reactor_run env (map settle turns @ more) s = async_reactor_run env more s')) \<or>
     (\<exists>e. fault_at env s0 e \<and> (\<forall>more. async_reactor_run env (map settle turns @ more) s = Inl e))"
  using assms(4-)
proof (induction turns arbitrary: s)
  case Nil
  then show ?case by auto
next
  case (Cons turn turns)
  from Cons.prems(3) obtain evs ios where turn: "turn = Turn_events evs ios" by (cases turn) auto
  let ?ios = "ios @ replicate 2049 blocked_io"
  have b: "evs \<noteq> []" "distinct (map fst evs)" "\<forall>(fd, ev, io) \<in> set evs. step_permitted env (Event fd ev io) s"
    and rest: "rbind (dispatch_batch env evs s) (run_ready_io env ?ios) = Inr s2 \<Longrightarrow> loop_permitted env (map settle turns) s2" for s2
    using Cons.prems(3) by (auto simp: turn)
  have i: "async_inv s" "r_itq s = None" using reachable_inv [OF Cons.prems(1) i0(1) app] reachable_itq [OF Cons.prems(1) i0(1) app] i0(2) by simp_all
  have run: "async_reactor_run env (map settle (turn # turns) @ more) s =
      rbind (rbind (dispatch_batch env evs s) (run_ready_io env ?ios)) (async_reactor_run env (map settle turns @ more))" for more
    using run_head_waits [OF i(1) Cons.prems(2) i(2)] b(1) by (simp add: turn rbind_assoc)
  have "(\<exists>s2. rbind (dispatch_batch env evs s) (run_ready_io env ?ios) = Inr s2 \<and> reachable env s0 s2 \<and> ready s2 = []) \<or>
      (\<exists>e. rbind (dispatch_batch env evs s) (run_ready_io env ?ios) = Inl e \<and> fault_at env s0 e)"
    using batch_outcome [OF i(1) app b(2,3) Cons.prems(1)]
  proof (elim disjE exE conjE)
    fix s1 assume "dispatch_batch env evs s = Inr s1" "async_inv s1" "reachable env s0 s1"
    then show ?thesis using run_ready_io_outcome [of s1 env s0 ios] app by simp
  qed simp
  then show ?case
  proof (elim disjE exE conjE)
    fix s2 assume s2: "rbind (dispatch_batch env evs s) (run_ready_io env ?ios) = Inr s2" "reachable env s0 s2" "ready s2 = []"
    from Cons.IH [OF s2(2,3) rest [OF s2(1)]] show ?thesis unfolding run s2(1) by simp
  next
    fix e assume "rbind (dispatch_batch env evs s) (run_ready_io env ?ios) = Inl e" "fault_at env s0 e"
    then show ?thesis unfolding run by (simp only: rbind_Inl) blast
  qed
qed


section \<open>A session as a run of the loop\<close>

text \<open>
  The steps of a session in the order of the loop: every event is a turn of its own, with the calls of
  the inner loop that follow it.  The first component is the calls before the first event.
\<close>

fun turns_of :: "async_step list \<Rightarrow> async_io list \<times> loop_turn list" where
  "turns_of [] = ([], [])"
| "turns_of (Run io # steps) = (io # fst (turns_of steps), snd (turns_of steps))"
| "turns_of (Event fd ev io # steps) = ([], Turn_events [(fd, ev, io)] (fst (turns_of steps)) # snd (turns_of steps))"
| "turns_of (Respond h request response # steps) = turns_of steps"

text \<open>The steps fit the loop: events come when the ready list is empty, and it is empty at the end.\<close>

fun calm :: "'l async_env \<Rightarrow> async_step list \<Rightarrow> 'l async_st \<Rightarrow> bool" where
  "calm env [] s \<longleftrightarrow> async_inv s \<and> r_itq s = None \<and> ready s = []"
| "calm env (stp # steps) s \<longleftrightarrow> async_inv s \<and> r_itq s = None \<and>
     (case stp of Event fd ev io \<Rightarrow> ready s = [] | Run io \<Rightarrow> ready s \<noteq> [] | Respond h request response \<Rightarrow> False) \<and>
     (\<forall>s1. server_step env stp s = Inr s1 \<longrightarrow> calm env steps s1)"

lemma calm_runs:
  assumes "calm env steps s" and "serve env steps s = Inr (bytes, s')"
  shows "rbind (run_ready_io env (fst (turns_of steps)) s) (async_reactor_run env (snd (turns_of steps) @ rest)) =
     async_reactor_run env rest s' \<and> run_head s' = Inr (False, s')"
  using assms
proof (induction steps arbitrary: s bytes)
  case Nil
  then have "Reactor_wf s" by (simp add: async_inv_def core_inv_def)
  with Nil show ?case using run_head_waits [of s] by (simp add: ready_size)
next
  case (Cons stp steps)
  have wf: "Reactor_wf s" using Cons.prems(1) by (simp add: async_inv_def core_inv_def)
  from Cons.prems(2) obtain s1 bytes1 where s1: "server_step env stp s = Inr s1" "serve env steps s1 = Inr (bytes1, s')"
    by (auto simp: rbind_eq_Inr simp del: server_step.simps)
  have IH: "rbind (run_ready_io env (fst (turns_of steps)) s1) (async_reactor_run env (snd (turns_of steps) @ rest)) =
      async_reactor_run env rest s' \<and> run_head s' = Inr (False, s')" using Cons.IH [OF _ s1(2)] Cons.prems(1) s1(1) by auto
  show ?case
  proof (cases stp)
    case (Run io)
    then have "int (length (ready s)) \<noteq> 0" using Cons.prems(1) by (simp del: length_fl_contents)
    then show ?thesis using IH s1(1) wf Run by (simp add: ready_size del: length_fl_contents)
  next
    case (Event fd ev io)
    then have rd: "ready s = []" "async_inv s" "r_itq s = None" using Cons.prems(1) by simp_all
    have "dispatch_batch env [(fd, ev, io)] s = Inr s1" using s1(1) Event by (simp add: dispatch_batch_def del: server_step.simps)
    then show ?thesis using IH run_head_waits [OF rd(2,1,3)] wf rd(1) Event by (simp add: ready_size)
  qed (use Cons.prems(1) in simp)
qed

lemma waking_idle:
  assumes "core_inv {} s" and "as_conns (r_app s) c = Some x" and "wakes ev x"
  shows "posts_of s c x = []"
proof -
  obtain ph where "in_phase ph c x (posts_of s c x)" using core_inv_conn [OF assms(1,2)] by blast
  then show ?thesis using assms(3) by (cases ph) (auto simp: in_phase_def wakes_def async_states)
qed

lemma drives_calm:
  assumes "drives env c script Q s" and "async_inv s" and "r_itq s = None" and "\<forall>d. as_conns (r_app s) d \<noteq> None \<longrightarrow> d = c"
    and "\<And>bytes u. Q bytes u \<Longrightarrow> as_conns (r_app u) c = None" and "\<forall>stp \<in> set script. \<forall>h q r. stp \<noteq> Respond h q r"
  shows "calm env script s"
  using assms
proof (induction script arbitrary: Q s)
  case Nil
  then have "as_conns (r_app s) = Map.empty" by fastforce
  then have "ready s = []" using Nil.prems(2) unfolding async_inv_def core_inv_def by (metis list.set_intros(1) neq_Nil_conv option.distinct(1))
  with Nil show ?case by simp
next
  case (Cons stp script)
  have own: "own_step c stp s" using sole_own [OF Cons.prems(2,4)] Cons.prems(1) by simp
  have ready: "case stp of Event fd ev io \<Rightarrow> ready s = [] | Run io \<Rightarrow> ready s \<noteq> [] | Respond h request response \<Rightarrow> False"
  proof (cases stp)
    case (Event fd ev io)
    with own obtain x where x: "as_conns (r_app s) c = Some x" "wakes ev x" by (auto split: option.splits)
    have core: "core_inv {} s" using Cons.prems(2) by (simp add: async_inv_def)
    from waking_idle [OF core x] have "posts_of s c x = []" .
    moreover have "\<exists>d y. as_conns (r_app s) d = Some y \<and> mine d (ac_handler_ref y) f" if "f \<in> set (ready s)" for f
      using core that unfolding core_inv_def by blast
    then have "mine c (ac_handler_ref x) f" if "f \<in> set (ready s)" for f using Cons.prems(4) x(1) that by fastforce
    ultimately show ?thesis using Event by (auto simp: posts_of_def filter_empty_conv)
  qed (use own Cons.prems(6) in \<open>auto split: option.splits list.splits\<close>)
  have "calm env script s1" if s1: "server_step env stp s = Inr s1" for s1
  proof -
    have k: "async_inv s1" "kept_base s s1" "drives env c script (\<lambda>bytes. Q (sent stp s @ bytes)) s1"
      using Cons.prems(1,2) own s1 by auto
    show ?thesis
      by (rule Cons.IH [OF k(3,1) _ sole_kept [OF Cons.prems(2) k(1) _ Cons.prems(4)]])
         (use k(2) Cons.prems(3,5,6) in \<open>auto simp: kept_base_def\<close>)
  qed
  then show ?case using ready Cons.prems(2,3) by simp
qed

lemma session_calm:
  fixes env :: "'l async_env"
  assumes s0: "async_inv s0" "r_itq s0 = None" "ready s0 = []" "as_conns (r_app s0) = Map.empty" "\<not> k_open (r_kernel s0) fd"
    "w_fd (as_listening_watcher_ref (r_app s0)) = lfd"
    and fd: "0 < fd" "fd_ok fd" and ev: "ev AND EPOLLIN \<noteq> 0" and ok: "\<forall>t \<in> set ts. turn_ok env t"
    and ses: "session_ok (e_llhttp_execute env) (e_llhttp_init env) (map turn_wire ts)"
  shows "calm env (session_steps lfd fd ev ts) s0"
proof -
  let ?c = "Suc (as_fresh (r_app s0))"
  from accepted_waits [OF s0(1) fd s0(5), of env EPOLLIN] s0(6) obtain s1 x p where
    s1: "server_step env (Event lfd EPOLLIN (accept_io fd)) s0 = Inr s1" "conn_at ?c x p [] s1"
    "ac_read_state x = READ_STATE_EAGAINED" "ac_socket x = fd" "hp_ready p" "hp_llhttp p = e_llhttp_init env"
    "as_conns (r_app s1) = (as_conns (r_app s0))(?c \<mapsto> x)" by auto
  have q: "r_itq s1 = None"
    using dispatch_ok [OF s0(1) accept_allowed [OF s0(1) fd s0(5), of env EPOLLIN, unfolded s0(6)]] s1(1) s0(2)
    by (auto simp: kept_watchers_def)
  have dr: "drives env ?c (session_script fd ev ts) (session_over env ?c fd ts) s1"
    by (rule session_driven [OF s1(2-5) ev ok]) (use ses s1(6) in simp)
  have reads: "stp \<noteq> Respond h m r" if "stp \<in> set (read_steps fd op)" for stp h m r op using that by (cases op) auto
  have sends: "stp \<noteq> Respond h m r" if "stp \<in> set (send_steps fd op)" for stp h m r op using that by (cases op) auto
  have nr: "\<forall>stp \<in> set (session_script fd ev ts). \<forall>h q r. stp \<noteq> Respond h q r"
    using reads sends by (fastforce simp: session_script_def turn_steps_def split: prod.splits)
  have "calm env (session_script fd ev ts) s1"
    by (rule drives_calm [OF dr _ q _ _ nr]) (use s1(2,7) s0(4) in \<open>auto simp: conn_at_def session_over_def\<close>)
  then show ?thesis using s0(1-3) s1(1) by (simp add: session_steps_def session_script_def del: server_step.simps)
qed

section \<open>A client that keeps sending\<close>

lemma flood_runs:
  assumes "conn_at c x p (reader_posted c) s" and "ready s = reader_posted c" and "takes_request r (es @ es') p"
    and "ll_chunks (e_llhttp_execute env) (hp_llhttp p) bs = Some (es, l)" and "On_message_complete \<notin> set es"
    and "\<forall>b \<in> set bs. length b \<le> 1000000"
  shows "run_ready_io env (map recv_io bs) s = Inl NoReturn"
  using assms
proof (induction bs arbitrary: s x p es)
  case Nil
  then have "Reactor_wf s" by (simp add: conn_at_def async_inv_def core_inv_def)
  with Nil.prems(2) show ?case by (simp add: ready_size del: length_fl_contents)
next
  case (Cons b bs)
  from Cons.prems(4) obtain es0 l0 es1 where e: "e_llhttp_execute env (hp_llhttp p) b = (es0, l0, 0)" "b \<noteq> []"
    "ll_chunks (e_llhttp_execute env) l0 bs = Some (es1, l)" "es = es0 @ es1" by (auto split: prod.splits if_splits)
  have wf: "Reactor_wf s" using Cons.prems(1) by (simp add: conn_at_def async_inv_def core_inv_def)
  have io: "io_recv (recv_io b) = Some b" "length b \<le> 1000000" "io_errno (recv_io b) \<noteq> EAGAIN"
    using Cons.prems(6) by (simp_all add: recv_io_def EAGAIN_def)
  have own: "own_step c (Run (recv_io b)) s" using Cons.prems(1,2) by (simp add: conn_at_def mine_def)
  have tk: "takes_request r (es0 @ (es1 @ es')) p" "On_message_complete \<notin> set es0" "On_message_complete \<notin> set es1"
    using Cons.prems(3,5) e(4) by simp_all
  from read_part [OF Cons.prems(1) _ own tk(1,2) e(1) io(1) e(2) io(2,3)] Cons.prems(2) obtain s' x' q where
    s': "run_one env (recv_io b) s = Inr s'" "conn_at c x' q (reader_posted c) s'" "takes_request r (es1 @ es') q" "hp_llhttp q = l0"
    "ready s' = reader_posted c" by (auto simp: moves_to_def)
  from Cons.IH [OF s'(2,5,3) _ tk(3)] e(3) s'(4) Cons.prems(6) have "run_ready_io env (map recv_io bs) s' = Inl NoReturn" by simp
  then show ?case using wf Cons.prems(2) s'(1) by (simp add: ready_size del: length_fl_contents)
qed


section \<open>A run with one client\<close>

text \<open>A client connects, on descriptor 13, and sends something.\<close>

lemma demo_one_client:
  fixes env :: "nat async_env"
  assumes app: "app_ok env"
  shows "\<exists>s0 s1 s c. started 100 8080 4 3 demo_kernel = Inr s0 \<and> reachable env s0 s \<and> async_inv s \<and> ready s = reader_posted c \<and>
     async_inv s1 \<and> ready s1 = [] \<and> step_allowed env (Event 4 EPOLLIN (accept_io 13)) s0 \<and>
     server_step env (Event 4 EPOLLIN (accept_io 13)) s0 = Inr s1 \<and>
     step_allowed env (Event 13 EPOLLIN blocked_io) s1 \<and> server_step env (Event 13 EPOLLIN blocked_io) s1 = Inr s \<and>
     (\<exists>p. as_parsers (r_app s) c = Some p \<and> hp_ready p \<and> hp_llhttp p = e_llhttp_init env)"
proof -
  have k: "fd_ok 4" "k_open demo_kernel 4" "(3 :: int) \<noteq> - 1" "fd_ok 13" "(0 :: int) < 13" "\<not> k_open demo_kernel 13" "EPOLLIN AND EPOLLIN \<noteq> 0"
    by (simp_all add: fd_ok_def RTOR_FDTABLE_MAX_def RTOR_MAX_FDS_def demo_kernel_def EPOLLIN_def)
  obtain s0 :: "nat async_st" where s0: "started 100 8080 4 3 demo_kernel = Inr s0" "async_inv s0" "ready s0 = []"
    "k_open (r_kernel s0) = k_open demo_kernel"
    "as_listening_watcher_ref (r_app s0) = listener_set (rtor_listener_new (Suc 100) 4) (Some on_event_listening_ptr) (Some 100)"
    using started_inv [where 'l = nat, OF k(3,1,2), of 100 8080] by blast
  have lfd: "w_fd (as_listening_watcher_ref (r_app s0)) = 4" using s0(5) by (simp add: listener_set_def rtor_listener_new_def rtor_listener_init_def)
  have n0: "\<not> k_open (r_kernel s0) 13" using s0(4) k(6) by simp
  note al = accept_allowed [OF s0(2) k(5,4) n0, of env EPOLLIN, unfolded lfd]
  obtain s1 c x p where s1: "server_step env (Event 4 EPOLLIN (accept_io 13)) s0 = Inr s1" "conn_at c x p [] s1"
    "ac_read_state x = READ_STATE_EAGAINED" "ac_socket x = 13" "ready s1 = ready s0" "hp_ready p" "hp_llhttp p = e_llhttp_init env"
    using accepted_waits [OF s0(2) k(5,4) n0, of env EPOLLIN] unfolding lfd by blast
  note r1 = reachable_allowed [OF reachable.start al s1(1)]
  have i1: "async_inv s1" "as_conns (r_app s1) c = Some x" using s1(2) by (simp_all add: conn_at_def)
  from read_wakes_posts [OF s1(2,3) k(7), of env blocked_io] obtain s2 where
    s2: "server_step env (Event 13 EPOLLIN blocked_io) s1 = Inr s2" "async_inv s2" "ready s2 = ready s1 @ reader_posted c"
    "as_parsers (r_app s2) c = Some p"
    unfolding s1(4) by (auto simp: moves_to_def conn_at_def)
  have al1: "step_allowed env (Event 13 EPOLLIN blocked_io) s1" using event_allowed [OF i1] unfolding s1(4) .
  show ?thesis using reachable_allowed [OF r1 al1 s2(1)] s0(1,3) s1(1,5-7) s2 i1(1) al al1
    by (intro exI [of _ s0] exI [of _ s1] exI [of _ s2] exI [of _ c]) simp
qed

text \<open>An \<open>llhttp\<close> that makes no event of the bytes it gets, as of empty lines before a request.\<close>

definition quiet_env :: "nat async_env" where
  "quiet_env = \<lparr>e_llhttp_init = 0, e_llhttp_execute = (\<lambda>l _. ([], l, 0)), e_llhttp_finish = (\<lambda>l. ([], l, 0)),
     e_llhttp_method_name = (\<lambda>_. ''GET''), e_process_request = (\<lambda>_. None)\<rparr>"

lemma quiet_app: "app_ok quiet_env"
  by (simp add: app_ok_def quiet_env_def)


theorem async_loop_drains_witness:
  "\<exists>s0 s ran s'. started 100 8080 4 3 demo_kernel = Inr s0 \<and> reachable quiet_env s0 s \<and> length (ready s) = 1 \<and>
     run_ready (async_code quiet_env blocked_io) 3 s = Inr (ran, s') \<and> ready s' = [] \<and> length ran \<le> 2"
proof -
  have k: "fd_ok 4" "k_open demo_kernel 4" "(3 :: int) \<noteq> - 1"
    by (simp_all add: fd_ok_def RTOR_FDTABLE_MAX_def RTOR_MAX_FDS_def demo_kernel_def)
  obtain s0 s c where s: "started 100 8080 4 3 demo_kernel = Inr s0" "reachable quiet_env s0 s" "ready s = reader_posted c"
    using demo_one_client [OF quiet_app] by blast
  have n: "length (ready s) = 1" unfolding s(3) by simp
  have "2 * length (ready s) < 3" unfolding n by simp
  from async_loop_drains [OF k(3,1,2) s(1) quiet_app s(2) this] obtain ran s' where
    "run_ready (async_code quiet_env blocked_io) 3 s = Inr (ran, s')" "ready s' = []" "length ran \<le> 2" unfolding n by auto
  with n s(1,2) show ?thesis by (intro exI [of _ s0] exI [of _ s] exI [of _ ran] exI [of _ s']) simp
qed

text \<open>An \<open>llhttp\<close> that makes one event of each piece of a request.\<close>

definition drip_env :: "nat async_env" where
  "drip_env = \<lparr>e_llhttp_init = 0, e_llhttp_execute = (\<lambda>l _. (take 1 (drop l (request_events demo_request)), Suc l, 0)),
     e_llhttp_finish = (\<lambda>l. ([], l, 0)), e_llhttp_method_name = (\<lambda>_. ''GET''), e_process_request = (\<lambda>_. None)\<rparr>"


end
