(* ===== verification/CH_Programs.thy ===== *)
theory CH_Programs
  imports CH_AsyncApp CH_AsyncLoop CH_Verify
begin

text \<open>
  The command line programs: the options of \<open>src/async-server-app/async-server-main.c\<close>,
  \<open>src/sync_server_app/sync_server_app.c\<close> and \<open>src/verifier/verify_app.c\<close> with the library functions that
  read them, the programs from their arguments on, and the signal handler and the end of the
  synchronous server.
\<close>

section \<open>Options\<close>

text \<open>
  \<open>getopt\<close> of the C library over the words after the name of the program: whether a letter is an option
  and takes an argument, and what the calls return until there are no more options.  A word that is
  not an option is skipped, and \<open>--\<close> ends the options.  An unknown letter or a missing argument is
  reported as a question mark.
\<close>

fun opt_lookup :: "string \<Rightarrow> char \<Rightarrow> bool option" where
  "opt_lookup [] c = None"
| "opt_lookup (x # optstring) c =
     (if x = c \<and> c \<noteq> CHR '':'' then Some (take 1 optstring = '':'') else opt_lookup optstring c)"

fun getopts :: "string \<Rightarrow> string \<Rightarrow> string list \<Rightarrow> (char \<times> string) list" where
  "getopts optstring [] [] = []"
| "getopts optstring [] (w # ws) =
     (if w = ''--'' then []
      else if take 1 w = ''-'' \<and> tl w \<noteq> [] then getopts optstring (tl w) ws
      else getopts optstring [] ws)"
| "getopts optstring (c # cs) ws =
     (case opt_lookup optstring c of
        None \<Rightarrow> (CHR ''?'', []) # getopts optstring cs ws
      | Some False \<Rightarrow> (c, []) # getopts optstring cs ws
      | Some True \<Rightarrow>
          if cs \<noteq> [] then (c, cs) # getopts optstring [] ws
          else (case ws of [] \<Rightarrow> [(CHR ''?'', [])] | optarg # ws \<Rightarrow> (c, optarg) # getopts optstring [] ws))"

text \<open>\<open>atoi\<close>: \<open>strtol\<close> to base ten, which stays within 64 bits, and the conversion to \<open>int\<close>.\<close>

definition c_isspace :: "char \<Rightarrow> bool" where
  "c_isspace c \<longleftrightarrow> (of_char c :: nat) \<in> {9, 10, 11, 12, 13, 32}"

definition c_isdigit :: "char \<Rightarrow> bool" where
  "c_isdigit c \<longleftrightarrow> 48 \<le> (of_char c :: nat) \<and> (of_char c :: nat) \<le> 57"

definition digits_value :: "string \<Rightarrow> nat" where
  "digits_value ds = foldl (\<lambda>v c. 10 * v + (of_char c - 48)) 0 ds"

definition strtol :: "string \<Rightarrow> int" where
  "strtol s =
     (let s = dropWhile c_isspace s;
          negative = (take 1 s = ''-'');
          s = (if negative \<or> take 1 s = ''+'' then tl s else s);
          v = int (digits_value (takeWhile c_isdigit s)) in
      max (- (2 ^ 63)) (min (2 ^ 63 - 1) (if negative then - v else v)))"

definition atoi :: "string \<Rightarrow> int" where
  "atoi s = (strtol s + 2 ^ 31) mod 2 ^ 32 - 2 ^ 31"

text \<open>
  The loop over the options of the synchronous server.  \<open>None\<close>: the usage is printed and the program ends.
\<close>

fun server_options :: "(char \<times> string) list \<Rightarrow> int \<times> int \<Rightarrow> (int \<times> int) option" where
  "server_options [] opts = Some opts"
| "server_options ((c, optarg) # rest) (port_number, nbr_threads) =
     (if c = CHR ''p'' then server_options rest (atoi optarg, nbr_threads)
      else if c = CHR ''t'' then server_options rest (port_number, atoi optarg)
      else if c = CHR ''?'' \<or> c = CHR ''h'' then None
      else server_options rest (port_number, nbr_threads))"

text \<open>
  The same of the asynchronous server as it is built, with \<open>CH_ASYNC_SINGLE_THREAD\<close>: \<open>getopt\<close> is still asked for
  \<open>-t\<close> and its argument, but the switch has no case for it.
\<close>

fun async_options :: "(char \<times> string) list \<Rightarrow> int \<Rightarrow> int option" where
  "async_options [] port_number = Some port_number"
| "async_options ((c, optarg) # rest) port_number =
     (if c = CHR ''p'' then async_options rest (atoi optarg)
      else if c = CHR ''?'' \<or> c = CHR ''h'' then None
      else async_options rest port_number)"

record verify_opts =
  vo_port_number :: int
  vo_url :: string
  vo_nbr_threads :: int
  vo_nbr_connections_per_thread :: int
  vo_nbr_requests_per_connection :: int

text \<open>The options of the verification client; \<open>strcpy\<close> stores the url into an array of 100 characters.\<close>

fun verify_options :: "(char \<times> string) list \<Rightarrow> verify_opts \<Rightarrow> verify_opts option res" where
  "verify_options [] opts = Inr (Some opts)"
| "verify_options ((c, optarg) # rest) opts =
     (if c = CHR ''p'' then verify_options rest (opts\<lparr>vo_port_number := atoi optarg\<rparr>)
      else if c = CHR ''c'' then verify_options rest (opts\<lparr>vo_nbr_connections_per_thread := atoi optarg\<rparr>)
      else if c = CHR ''r'' then verify_options rest (opts\<lparr>vo_nbr_requests_per_connection := atoi optarg\<rparr>)
      else if c = CHR ''t'' then verify_options rest (opts\<lparr>vo_nbr_threads := atoi optarg\<rparr>)
      else if c = CHR ''u'' then
        rbind (char_array_store VERIFY_URL_MAXSIZE (c_str optarg)) (\<lambda>url. verify_options rest (opts\<lparr>vo_url := url\<rparr>))
      else if c = CHR ''?'' \<or> c = CHR ''h'' then Inr None
      else verify_options rest opts)"

section \<open>Programs\<close>

text \<open>A program calls \<open>exit\<close>, or it runs to the point that is modelled.\<close>

datatype 'a outcome = Exit int | Ran 'a

text \<open>
  \<open>main\<close> of the asynchronous server: \<open>sref\<close> and \<open>epoll_fd\<close> are the address of the server object and the
  \<open>epoll\<close> descriptor, \<open>turns\<close> is what \<open>epoll_wait\<close> and the other system calls return in the loop of the reactor.
  When they are used up the program is in \<open>epoll_wait\<close>, in the state that is given.  When the run returns, the
  server is disposed of, which frees its record only, and \<open>main\<close> ends.
\<close>

definition async_server_program ::
  "'l async_env \<Rightarrow> string list \<Rightarrow> addr \<Rightarrow> int \<Rightarrow> int \<Rightarrow> loop_turn list \<Rightarrow> net \<Rightarrow> ('l async_st \<times> net) outcome res" where
  "async_server_program env args sref epoll_fd left turns n =
     (case async_options (getopts ''p:t:'' [] args) 9001 of
        None \<Rightarrow> Inr (Exit 0)
      | Some port_number \<Rightarrow>
          rbind (async_main_start port_number sref epoll_fd left n) (\<lambda>(server_ref, n).
          rbind (async_reactor_run env turns server_ref) (\<lambda>r.
          case r of
            Run_waiting server_ref \<Rightarrow> Inr (Ran (server_ref, n))
          | Run_returned result server_ref \<Rightarrow> rbind (AsyncServer_dispose (Some server_ref)) (\<lambda>_. Inr (Exit 0)))))"

text \<open>
  \<open>main\<close> of the synchronous server.  \<open>sync_server_listen\<close> makes the listening socket, runs the workers
  and joins them.
\<close>

definition sync_server_program ::
  "'l sync_env \<Rightarrow> (sync_worker \<Rightarrow> Message \<Rightarrow> Message res) \<Rightarrow> nat \<Rightarrow> string list \<Rightarrow> (nat \<Rightarrow> int) \<Rightarrow> (nat \<Rightarrow> (int \<times> sync_io) list) \<Rightarrow> net \<Rightarrow>
   sync_server option outcome res" where
  "sync_server_program env app_handler k args starts accepts n =
     (case server_options (getopts ''p:t:'' [] args) (9001, 25) of
        None \<Rightarrow> Inr (Exit 0)
      | Some (port_number, nbr_threads) \<Rightarrow>
          rbind (sync_server_new port_number 1000 nbr_threads) (\<lambda>sref.
          rbind (sync_create_listener_socket (ss_port sref) n) (\<lambda>(socket_fd, n).
          rbind (sync_server_listen env app_handler k socket_fd starts accepts sref) (\<lambda>sref.
          rbind (sync_server_dispose sref) (\<lambda>sref. Inr (Ran sref))))))"

text \<open>The workers are told to end through the queue, then the listening socket is closed.\<close>

definition sync_server_terminate :: "sync_server \<Rightarrow> net \<Rightarrow> (sync_server \<times> net) res" where
  "sync_server_terminate this n =
     rbind (check_tag SYNC_SERVER_TAG (ss_tag this)) (\<lambda>_.
     rbind (rfold (\<lambda>i this.
              rbind (c_init (ss_qref this)) (\<lambda>qref.
              rbind (c_deref qref) (\<lambda>q.
              rbind (Queue_add (- 1) q) (\<lambda>q. Inr (this\<lparr>ss_qref := Some (Some q)\<rparr>)))))
            [0..<nat (ss_nbr_workers this)] this) (\<lambda>this.
     rbind (c_init (ss_socket_fd this)) (\<lambda>fd.
     Inr (this, socket_close fd n))))"

definition sync_sig_handler :: "int \<Rightarrow> sync_server option \<Rightarrow> net \<Rightarrow> (sync_server option \<times> net) res" where
  "sync_sig_handler signo g_sref n =
     (if signo = SIGINT then
        rbind (case g_sref of None \<Rightarrow> Inl Assertion | Some sref \<Rightarrow> sync_server_terminate sref n) (\<lambda>(sref, n). Inr (Some sref, n))
      else Inr (g_sref, n))"

text \<open>Two message handlers of the worker that nothing calls.\<close>

definition on_message_handler_2 :: "Message \<Rightarrow> int" where
  "on_message_handler_2 response_ptr = HPE_OK"

definition connection_message_handler ::
  "'l sync_env \<Rightarrow> (sync_worker \<Rightarrow> Message \<Rightarrow> Message res) \<Rightarrow> sync_worker \<Rightarrow> Message \<Rightarrow> 'l sync_conn \<Rightarrow> sync_io \<Rightarrow>
   (int \<times> 'l sync_conn \<times> sync_io) res" where
  "connection_message_handler env app_handler wref request p io =
     rbind (worker_reply env app_handler wref request p io) (\<lambda>(cmp_tmp, io).
     if cmp_tmp \<noteq> 1 then rbind (sync_connection_close p) (\<lambda>p. Inr (HPE_OK, p, io))
     else Inr (HPE_OK, p, io))"

definition verify_program ::
  "'l sync_env \<Rightarrow> (nat \<Rightarrow> int \<Rightarrow> int \<Rightarrow> 't) \<Rightarrow> 't \<Rightarrow> (nat \<Rightarrow> int \<Rightarrow> (int \<times> bool) list \<times> sync_io) \<Rightarrow> string list \<Rightarrow>
   't option list outcome res" where
  "verify_program env elapsed total_ms net args =
     rbind (verify_options (getopts ''p:t:r:u:c:h'' [] args)
        \<lparr>vo_port_number = 9001, vo_url = [], vo_nbr_threads = 5, vo_nbr_connections_per_thread = 2,
         vo_nbr_requests_per_connection = 2\<rparr>) (\<lambda>r.
     case r of
       None \<Rightarrow> Inr (Exit 0)
     | Some opts \<Rightarrow>
         rbind (verify_main env elapsed total_ms net (vo_port_number opts) (vo_url opts) (vo_nbr_threads opts)
                  (vo_nbr_connections_per_thread opts) (vo_nbr_requests_per_connection opts)) (\<lambda>r.
         case r of None \<Rightarrow> Inr (Exit (- 1)) | Some resp_times \<Rightarrow> Inr (Ran resp_times)))"

section \<open>Reading what was written on the command line\<close>

text \<open>The words of a command line: operands, and options with their value in the same word or in the next one.\<close>

datatype cmd_word = Operand string | Attached char int | Separate char int

fun print_word :: "cmd_word \<Rightarrow> string list" where
  "print_word (Operand w) = [w]"
| "print_word (Attached c v) = [CHR ''-'' # c # int_digits v]"
| "print_word (Separate c v) = [[CHR ''-'', c], int_digits v]"

fun word_option :: "cmd_word \<Rightarrow> (char \<times> int) list" where
  "word_option (Operand w) = []"
| "word_option (Attached c v) = [(c, v)]"
| "word_option (Separate c v) = [(c, v)]"

fun word_ok :: "string \<Rightarrow> cmd_word \<Rightarrow> bool" where
  "word_ok optstring (Operand w) \<longleftrightarrow> take 1 w \<noteq> ''-'' \<or> w = ''-''"
| "word_ok optstring (Attached c v) \<longleftrightarrow> opt_lookup optstring c = Some True \<and> c \<noteq> CHR ''-'' \<and> - (2 ^ 31) \<le> v \<and> v < 2 ^ 31"
| "word_ok optstring (Separate c v) \<longleftrightarrow> opt_lookup optstring c = Some True \<and> c \<noteq> CHR ''-'' \<and> - (2 ^ 31) \<le> v \<and> v < 2 ^ 31"

lemma int_digits_ne [simp]: "int_digits v \<noteq> []"
  by (simp add: int_digits_def)

lemma getopts_words:
  assumes "\<forall>w \<in> set ws. word_ok optstring w"
  shows "getopts optstring [] (concat (map print_word ws)) =
     map (\<lambda>(c, v). (c, int_digits v)) (concat (map word_option ws))"
  using assms
proof (induction ws)
  case (Cons w ws)
  then show ?case by (cases w) auto
qed simp

lemma digit_char_value: "d < 10 \<Longrightarrow> (of_char (digit_char d) :: nat) = 48 + d"
  by (simp add: digit_char_def)

lemma digit_char_isdigit: "d < 10 \<Longrightarrow> c_isdigit (digit_char d)"
  using digit_char_value [of d] by (simp add: c_isdigit_def)

lemma digits_value_snoc: "digits_value (ds @ [c]) = 10 * digits_value ds + (of_char c - 48)"
  by (simp add: digits_value_def)

lemma digits_value_nat: "digits_value (nat_digits n) = n \<and> list_all c_isdigit (nat_digits n)"
proof (induction n rule: nat_digits.induct)
  case (1 n)
  show ?case
  proof (cases "n < 10")
    case True
    then show ?thesis using digit_char_value [OF True] digit_char_isdigit [OF True]
      by (subst (1 2) nat_digits.simps) (simp add: digits_value_def)
  next
    case False
    then show ?thesis using 1 digit_char_value [of "n mod 10"] digit_char_isdigit [of "n mod 10"]
      by (subst (1 2) nat_digits.simps) (simp add: digits_value_snoc)
  qed
qed

lemma takeWhile_digits: "takeWhile c_isdigit (nat_digits n) = nat_digits n"
  using digits_value_nat [of n] by (auto simp: list_all_iff takeWhile_eq_all_conv)

lemma nat_digits_start:
  "dropWhile c_isspace (nat_digits n) = nat_digits n" "take 1 (nat_digits n) \<noteq> ''-''" "take 1 (nat_digits n) \<noteq> ''+''"
proof -
  obtain c cs where c: "nat_digits n = c # cs" by (cases "nat_digits n") auto
  have "c_isdigit c" using digits_value_nat [of n] by (simp add: c)
  then have "\<not> c_isspace c" "c \<noteq> CHR ''-''" "c \<noteq> CHR ''+''" by (auto simp: c_isdigit_def c_isspace_def)
  then show "dropWhile c_isspace (nat_digits n) = nat_digits n" "take 1 (nat_digits n) \<noteq> ''-''" "take 1 (nat_digits n) \<noteq> ''+''"
    by (simp_all add: c)
qed

lemma atoi_digits:
  assumes "- (2 ^ 31) \<le> v" and "v < 2 ^ 31"
  shows "atoi (int_digits v) = v"
proof -
  have "strtol (int_digits v) = v"
  proof (cases "v < 0")
    case True
    then show ?thesis using assms by (simp add: strtol_def int_digits_def takeWhile_digits digits_value_nat c_isspace_def Let_def)
  next
    case False
    then show ?thesis using assms nat_digits_start [of "nat v"]
      by (simp add: strtol_def int_digits_def takeWhile_digits digits_value_nat Let_def)
  qed
  then show ?thesis using assms by (simp add: atoi_def)
qed

definition last_value :: "char \<Rightarrow> (char \<times> int) list \<Rightarrow> int \<Rightarrow> int" where
  "last_value c os v = foldl (\<lambda>v (d, w). if d = c then w else v) v os"

lemma server_options_values:
  assumes "\<forall>(c, v) \<in> set os. (c = CHR ''p'' \<or> c = CHR ''t'') \<and> - (2 ^ 31) \<le> v \<and> v < 2 ^ 31"
  shows "server_options (map (\<lambda>(c, v). (c, int_digits v)) os) (port, threads) =
     Some (last_value (CHR ''p'') os port, last_value (CHR ''t'') os threads)"
  using assms
proof (induction os arbitrary: port threads)
  case (Cons o1 os)
  obtain c v where o1: "o1 = (c, v)" by (cases o1)
  from Cons.prems have v: "atoi (int_digits v) = v" by (intro atoi_digits) (auto simp: o1)
  show ?case using Cons by (auto simp: o1 v last_value_def)
qed (simp add: last_value_def)

lemma server_words:
  assumes "\<forall>w \<in> set ws. word_ok ''p:t:'' w"
  shows "\<forall>(c, v) \<in> set (concat (map word_option ws)). (c = CHR ''p'' \<or> c = CHR ''t'') \<and> - (2 ^ 31) \<le> v \<and> v < 2 ^ 31"
proof -
  have "(c = CHR ''p'' \<or> c = CHR ''t'') \<and> - (2 ^ 31) \<le> v \<and> v < 2 ^ 31"
    if "word_ok ''p:t:'' w" "(c, v) \<in> set (word_option w)" for w c v
    using that by (cases w) (auto split: if_splits)
  then show ?thesis using assms by fastforce
qed

text \<open>
  C39: The synchronous server runs with the port and the number of threads that were asked for: however
  the options are written (value in the same word or in the next, in any order and any number of times,
  with operands between them), reading the command line gives the last value of each, or its default.
\<close>

theorem server_command_line:
  assumes "\<forall>w \<in> set ws. word_ok ''p:t:'' w"
  shows "server_options (getopts ''p:t:'' [] (concat (map print_word ws))) (port, threads) =
     Some (last_value (CHR ''p'') (concat (map word_option ws)) port, last_value (CHR ''t'') (concat (map word_option ws)) threads)"
  unfolding getopts_words [OF assms] by (rule server_options_values [OF server_words [OF assms]])

theorem server_command_line_witness:
  "server_options (getopts ''p:t:'' [] [''-t'', ''12'', ''file'', ''-p8080'', ''-t3'']) (9001, 5) = Some (8080, 3)"
proof -
  have d: "int_digits 12 = ''12''" "int_digits 8080 = ''8080''" "int_digits 3 = ''3''"
    by (simp_all add: int_digits_def nat_digits.simps digit_char_def char_of_def bit_0)
  from server_command_line [of "[Separate (CHR ''t'') 12, Operand ''file'', Attached (CHR ''p'') 8080, Attached (CHR ''t'') 3]" 9001 5]
  show ?thesis by (simp add: d last_value_def)
qed

lemma async_options_values:
  assumes "\<forall>(c, v) \<in> set os. (c = CHR ''p'' \<or> c = CHR ''t'') \<and> - (2 ^ 31) \<le> v \<and> v < 2 ^ 31"
  shows "async_options (map (\<lambda>(c, v). (c, int_digits v)) os) port = Some (last_value (CHR ''p'') os port)"
  using assms
proof (induction os arbitrary: port)
  case (Cons o1 os)
  obtain c v where o1: "o1 = (c, v)" by (cases o1)
  from Cons.prems have v: "atoi (int_digits v) = v" by (intro atoi_digits) (auto simp: o1)
  show ?case using Cons by (auto simp: o1 v last_value_def)
qed (simp add: last_value_def)



text \<open>Everything else ends the program before it has opened a socket, and \<open>-h\<close> is one of these.\<close>

lemma async_options_error: "(CHR ''?'', a) \<in> set os \<Longrightarrow> async_options os port = None"
  by (induction os port rule: async_options.induct) auto

lemma server_unknown_option:
  assumes "opt_lookup ''p:t:'' c = None" and "c \<noteq> CHR ''-''"
  shows "async_server_program env ((CHR ''-'' # c # cs) # args) sref epoll_fd left turns n = Inr (Exit 0)"
proof -
  have "(CHR ''?'', []) \<in> set (getopts ''p:t:'' [] ((CHR ''-'' # c # cs) # args))" using assms by simp
  from async_options_error [OF this] show ?thesis by (simp add: async_server_program_def)
qed

section \<open>The end of the synchronous server\<close>

text \<open>
  C40: How the synchronous server ends.  Its options are in order, it gets its listening socket, and every
  worker that is started comes to its end.  If some thread cannot be created, \<open>sync_server_listen\<close> returns
  early and \<open>main\<close> ends regularly.  If all of them were created and joined, \<open>main\<close> does not get to its end: it
  disposes of the queue through a pointer that was never set, since the workers accept connections
  themselves.  The handler of \<open>SIGINT\<close>, which is to tell the workers to end, uses the same pointer.
\<close>

theorem sync_program_end:
  fixes env :: "'l sync_env"
  assumes "server_options (getopts ''p:t:'' [] args) (9001, 25) = Some (port, t)" and "t < MAX_THREADS"
    and "sync_create_listener_socket port n = Inr (fd, n')"
    and "\<And>i. i < nat t \<Longrightarrow> \<exists>r. Worker_main env app_handler k (accepts i) (sync_worker_new fd (int i) None) = Inr r"
  shows "sync_server_program env app_handler k args starts accepts n =
       (if \<exists>i < nat t. starts i \<noteq> 0 then Inr (Ran None) else Inl UninitRead) \<and>
     (\<exists>sref. sync_server_new port 1000 t = Inr sref \<and>
        (0 < t \<longrightarrow> sync_sig_handler SIGINT (Some (sref\<lparr>ss_socket_fd := Some fd\<rparr>)) n' = Inl UninitRead))"
proof -
  obtain sref where s: "sync_server_new port 1000 t = Inr sref" "ss_tag sref = SYNC_SERVER_TAG" "ss_port sref = port"
    "ss_nbr_workers sref = t" "ss_qref sref = None" using assms(2) by (simp add: sync_server_new_def)
  have "sync_server_program env app_handler k args starts accepts n =
      (if \<exists>i < nat t. starts i \<noteq> 0 then Inr (Ran None) else Inl UninitRead)"
    using assms(1,3) s(1-3) sync_server_listen_result [where app = app_handler, OF s(1) assms(4)]
    by (simp add: sync_server_program_def sync_server_dispose_def)
  moreover have "sync_sig_handler SIGINT (Some (sref\<lparr>ss_socket_fd := Some fd\<rparr>)) n' = Inl UninitRead" if pos: "0 < t"
  proof -
    obtain j where j: "nat t = Suc j" using gr0_implies_Suc [of "nat t"] pos by (metis zero_less_nat_eq)
    have "[0..<nat (ss_nbr_workers (sref\<lparr>ss_socket_fd := Some fd\<rparr>))] = 0 # [Suc 0..<Suc j]"
      using s(4) j by (simp add: upt_conv_Cons del: upt_Suc)
    then show ?thesis using s(2,5) unfolding sync_sig_handler_def sync_server_terminate_def
      by (simp add: c_init_def check_tag_def del: upt_Suc)
  qed
  ultimately show ?thesis using s(1) by blast
qed

text \<open>Two workers that find nothing to accept; in the first run both are started, in the second the second one is not.\<close>

theorem sync_program_end_witness:
  "sync_server_program demo_sync_env (\<lambda>_ _. Inl Assertion) 1 [''-t2'', ''-p8080''] (\<lambda>_. 0) (\<lambda>_. [])
       \<lparr>n_socks = Map.empty, n_next = 5, n_refuse = []\<rparr> = Inl UninitRead \<and>
   sync_server_program demo_sync_env (\<lambda>_ _. Inl Assertion) 1 [''-t2'', ''-p8080''] (\<lambda>i. if i = 1 then 11 else 0) (\<lambda>_. [])
       \<lparr>n_socks = Map.empty, n_next = 5, n_refuse = []\<rparr> = Inr (Ran None)"
proof -
  let ?n = "\<lparr>n_socks = Map.empty, n_next = 5, n_refuse = []\<rparr>"
  let ?ws = "[Attached (CHR ''t'') 2, Attached (CHR ''p'') 8080]"
  have d: "int_digits 2 = ''2''" "int_digits 8080 = ''8080''"
    by (simp_all add: int_digits_def nat_digits.simps digit_char_def char_of_def bit_0)
  have ws: "\<forall>w \<in> set ?ws. word_ok ''p:t:'' w" by simp
  have opts: "server_options (getopts ''p:t:'' [] [''-t2'', ''-p8080'']) (9001, 25) = Some (8080, 2)"
    using getopts_words [OF ws] server_options_values [OF server_words [OF ws], of 9001 25] by (simp add: d last_value_def)
  obtain fd n' where so: "sync_create_listener_socket 8080 ?n = Inr (fd, n')"
    using sync_listener_created [of ?n 8080] by (auto simp: net_wf_def port_shared_def)
  have w: "\<exists>r. Worker_main demo_sync_env (\<lambda>_ _. Inl Assertion) 1 [] (sync_worker_new fd (int i) None) = Inr r" for i
    by (simp add: sync_worker_new_def)
  have m: "(2 :: int) < MAX_THREADS" by (simp add: MAX_THREADS_def)
  note e = sync_program_end [where accepts = "\<lambda>_. []", OF opts m so w]
  show ?thesis using e [of "\<lambda>_. 0"] e [of "\<lambda>i. if i = 1 then 11 else 0"] by auto
qed

text \<open>A url of 100 characters or more overruns the array of the verification client.\<close>

lemma verify_long_url:
  assumes "100 \<le> length u" and "no_nul u"
  shows "verify_program env elapsed total_ms net ([''-u'', u] @ args) = Inl MemFault"
  using assms by (simp add: verify_program_def char_array_store_def VERIFY_URL_MAXSIZE_def)

end
